(* ===== verification/Prelude.thy ===== *)
theory Prelude
  imports Main "HOL-Library.Word"
begin

text \<open>
  What the component theories share: the machine types of a 64-bit build (\<open>mkcl_word\<close>,
  \<open>mkcl_index\<close>, \<open>mkcl_hash_value\<close> of \<^verbatim>\<open>src/src/c/mkcl/config.h.in\<close>), the named
  collections of simplification rules that the components fill, and generic facts on lists
  and on functional iteration that more than one component needs.

  The model is of the 64-bit configuration: \<open>MKCL_WORD_BITS = 64\<close>, so a fixnum has 62 bits.
\<close>

unbundle bit_operations_syntax

type_synonym mkcl_word = "64 word"
type_synonym mkcl_index = "64 word"
type_synonym mkcl_hash_value = "64 word"

text \<open>Characters of Lisp strings are code points; a string is the list of them.\<close>

type_synonym lchar = nat
type_synonym lstring = "lchar list"

named_theorems heap_simps \<open>reading and writing cells of the heap\<close>
named_theorems chain_simps \<open>chains of conses\<close>
named_theorems table_simps \<open>hash tables as maps\<close>
named_theorems pack_simps \<open>frame rules of the package operations\<close>

text \<open>A step that can fail, then another.\<close>

fun and_then :: "'e + 'a \<Rightarrow> ('a \<Rightarrow> 'e + 'b) \<Rightarrow> 'e + 'b" where
  "and_then (Inl err) f = Inl err"
| "and_then (Inr x) f = f x"

lemma and_then_Inr: "and_then r f = Inr y \<longleftrightarrow> (\<exists>x. r = Inr x \<and> f x = Inr y)"
  by (cases r) auto

subsection \<open>Lists\<close>

lemma nth_append_length_Suc [simp]: "(xs @ y # zs) ! length xs = y"
  by simp

lemma take_append_prefix:
  assumes "take n ys = xs" and "n = length xs"
  shows "take n (ys @ zs) = xs"
proof -
  have "n \<le> length ys"
    using assms by (metis length_take min.absorb_iff2 min.commute)
  with assms show ?thesis by simp
qed

lemma distinct_bounded_length:
  assumes "distinct as" and "\<And>a. a \<in> set as \<Longrightarrow> a < n"
  shows "length as \<le> n"
proof -
  have "set as \<subseteq> {..<n}" using assms(2) by auto
  then have "card (set as) \<le> n"
    using card_mono [of "{..<n}" "set as"] by simp
  then show ?thesis using assms(1) by (simp add: distinct_card)
qed

lemma sum_list_map_update:
  fixes f :: "'a \<Rightarrow> nat"
  assumes "i < length xs"
  shows "sum_list (map f (xs[i := y])) + f (xs ! i) = sum_list (map f xs) + f y"
  using assms
proof (induction xs arbitrary: i)
  case Nil
  then show ?case by simp
next
  case (Cons x xs)
  then show ?case by (cases i) (auto simp: algebra_simps)
qed

subsection \<open>Iteration\<close>

lemma funpow_fixpoint: "f x = x \<Longrightarrow> (f ^^ n) x = x"
  by (induction n) simp_all

end
