(* ===== verification/Objects.thy ===== *)
theory Objects
  imports Prelude
begin

text \<open>
  The representation of Lisp objects (\<^verbatim>\<open>src/src/c/mkcl/object.h\<close>) and the predicates
  on them that every other component calls (\<^verbatim>\<open>src/src/c/predicate.c\<close>).

  An \<open>mkcl_object\<close> is a machine word: the first section models the tag arithmetic on
  \<open>64 word\<close>. The rest of the library uses the datatype \<open>obj\<close> of tagged values, an
  immediate or a reference into a heap of cells; \<open>obj_word\<close> gives the word of an \<open>obj\<close>
  and \<open>obj_word_inject\<close> shows that two objects are the same word exactly when they are the
  same \<open>obj\<close>, so that C's \<open>==\<close> on objects is HOL's equality on \<open>obj\<close>.

  The heap is the list of its cells in order of allocation: an address is a position, and
  \<open>alloc\<close> appends. The collector reclaims only unreachable cells, so no operation can see
  a cell disappear.
\<close>

section \<open>Tagged words\<close>

definition MKCL_IMMEDIATE :: "mkcl_index \<Rightarrow> mkcl_index" where
  "MKCL_IMMEDIATE w = w AND 3"

definition MKCL_MAKE_FIXNUM :: "mkcl_word \<Rightarrow> mkcl_index" where
  "MKCL_MAKE_FIXNUM n = push_bit 2 n OR 3"

definition mkcl_fixnum_to_word :: "mkcl_index \<Rightarrow> mkcl_word" where
  "mkcl_fixnum_to_word w = signed_drop_bit 2 w"

definition MKCL_FIXNUMP :: "mkcl_index \<Rightarrow> bool" where
  "MKCL_FIXNUMP w \<longleftrightarrow> MKCL_IMMEDIATE w = 3"

definition MKCL_FIXNUM_MINUSP :: "mkcl_index \<Rightarrow> bool" where
  "MKCL_FIXNUM_MINUSP w \<longleftrightarrow> w <s 0"

definition MKCL_FIXNUM_PLUSP :: "mkcl_index \<Rightarrow> bool" where
  "MKCL_FIXNUM_PLUSP w \<longleftrightarrow> MKCL_MAKE_FIXNUM 0 \<le>s w"

definition MKCL_CODE_CHAR :: "mkcl_index \<Rightarrow> mkcl_index" where
  "MKCL_CODE_CHAR c = push_bit 8 c OR 2"

definition MKCL_CHAR_CODE :: "mkcl_index \<Rightarrow> mkcl_index" where
  "MKCL_CHAR_CODE w = drop_bit 8 w"

definition MKCL_CHARACTERP :: "mkcl_index \<Rightarrow> bool" where
  "MKCL_CHARACTERP w \<longleftrightarrow> MKCL_IMMEDIATE w = 2"

definition OBJNULL_word :: mkcl_index where
  "OBJNULL_word = NOT 3"

definition MOST_POSITIVE_FIXNUM :: int where
  "MOST_POSITIVE_FIXNUM = 2 ^ 61 - 1"

definition MOST_NEGATIVE_FIXNUM :: int where
  "MOST_NEGATIVE_FIXNUM = - (2 ^ 61)"

text \<open>The limits of array dimensions and sizes.\<close>

definition MKCL_ADIMLIM :: nat where
  "MKCL_ADIMLIM = nat MOST_POSITIVE_FIXNUM"

definition MKCL_ATOTLIM :: nat where
  "MKCL_ATOTLIM = nat MOST_POSITIVE_FIXNUM"

definition MKCL_ARANKLIM :: nat where
  "MKCL_ARANKLIM = 64"

definition fixnum_range :: "int \<Rightarrow> bool" where
  "fixnum_range n \<longleftrightarrow> MOST_NEGATIVE_FIXNUM \<le> n \<and> n \<le> MOST_POSITIVE_FIXNUM"

lemma bit_3_word: "bit (3 :: 64 word) n \<longleftrightarrow> n < 2"
proof -
  have "(3 :: 64 word) = mask 2" by (simp add: mask_eq_exp_minus_1)
  then have "bit (3 :: 64 word) n \<longleftrightarrow> bit (mask 2 :: 64 word) n" by argo
  also have "\<dots> \<longleftrightarrow> n < 2" by (auto simp only: bit_mask_iff possible_bit_word) simp
  finally show ?thesis .
qed

lemma bit_2_word: "bit (2 :: 64 word) n \<longleftrightarrow> n = 1"
  by (auto simp: bit_2_iff)

lemmas tag_bits = bit_and_iff bit_or_iff bit_push_bit_iff bit_drop_bit_eq bit_3_word bit_2_word
declare bit_numeral_word_iff [simp del]

lemma make_fixnum_arith: "MKCL_MAKE_FIXNUM n = 4 * n + 3"
proof -
  have "push_bit 2 n AND 3 = (0 :: 64 word)"
    by (rule bit_eqI) (auto simp: tag_bits)
  then have "push_bit 2 n OR 3 = push_bit 2 n + 3"
    by (simp add: disjunctive_add_eq_or)
  then show ?thesis
    by (simp add: MKCL_MAKE_FIXNUM_def push_bit_eq_mult)
qed

lemma code_char_arith: "MKCL_CODE_CHAR c = 256 * c + 2"
proof -
  have "push_bit 8 c AND 2 = (0 :: 64 word)"
    by (rule bit_eqI) (auto simp: tag_bits)
  then have "push_bit 8 c OR 2 = push_bit 8 c + 2"
    by (simp add: disjunctive_add_eq_or)
  then show ?thesis
    by (simp add: MKCL_CODE_CHAR_def push_bit_eq_mult)
qed

lemma sint_make_fixnum:
  assumes "fixnum_range n"
  shows "sint (MKCL_MAKE_FIXNUM (word_of_int n)) = 4 * n + 3"
proof -
  have "MKCL_MAKE_FIXNUM (word_of_int n) = (word_of_int (4 * n + 3) :: 64 word)"
    by (simp add: make_fixnum_arith)
  moreover have "- (2 ^ 63) \<le> 4 * n + 3" and "4 * n + 3 < 2 ^ 63"
    using assms by (auto simp: fixnum_range_def MOST_POSITIVE_FIXNUM_def MOST_NEGATIVE_FIXNUM_def)
  ultimately show ?thesis
    by (simp add: signed_take_bit_int_eq_self sint_sbintrunc' del: of_int_add of_int_mult)
qed

lemma immediate_make_fixnum [simp]: "MKCL_IMMEDIATE (MKCL_MAKE_FIXNUM n) = 3"
  unfolding MKCL_IMMEDIATE_def MKCL_MAKE_FIXNUM_def
  by (rule bit_eqI) (auto simp: tag_bits)

lemma immediate_code_char [simp]: "MKCL_IMMEDIATE (MKCL_CODE_CHAR c) = 2"
  unfolding MKCL_IMMEDIATE_def MKCL_CODE_CHAR_def
  by (rule bit_eqI) (auto simp: tag_bits)

lemma immediate_objnull [simp]: "MKCL_IMMEDIATE OBJNULL_word = 0"
  by (simp add: MKCL_IMMEDIATE_def OBJNULL_word_def)

lemma fixnum_round_trip:
  assumes "fixnum_range n"
  shows "sint (mkcl_fixnum_to_word (MKCL_MAKE_FIXNUM (word_of_int n))) = n"
proof -
  have "sint (mkcl_fixnum_to_word (MKCL_MAKE_FIXNUM (word_of_int n))) = drop_bit 2 (4 * n + 3)"
    by (simp add: mkcl_fixnum_to_word_def sint_signed_drop_bit_eq sint_make_fixnum [OF assms])
  also have "\<dots> = n" by (simp add: drop_bit_eq_div)
  finally show ?thesis .
qed

lemma char_round_trip:
  assumes "unat c < 2 ^ 56"
  shows "MKCL_CHAR_CODE (MKCL_CODE_CHAR c) = c"
proof (rule bit_eqI)
  fix n
  have "take_bit 56 c = c"
    using assms by (metis take_bit_nat_eq_self unsigned_take_bit_eq word_unat_eq_iff)
  then have "bit c n \<Longrightarrow> n < 56"
    by (metis bit_take_bit_iff)
  then show "bit (MKCL_CHAR_CODE (MKCL_CODE_CHAR c)) n = bit c n"
    by (auto simp: MKCL_CHAR_CODE_def MKCL_CODE_CHAR_def tag_bits)
qed

section \<open>Objects\<close>

type_synonym addr = nat

datatype obj = Cnil | ObjNull | Fixnum int | Character lchar | Ref addr

text \<open>The word of an object, given the word \<open>loc a\<close> the allocator chose for cell \<open>a\<close>.\<close>

fun obj_word :: "(addr \<Rightarrow> mkcl_index) \<Rightarrow> obj \<Rightarrow> mkcl_index" where
  "obj_word loc Cnil = 0"
| "obj_word loc ObjNull = OBJNULL_word"
| "obj_word loc (Fixnum n) = MKCL_MAKE_FIXNUM (word_of_int n)"
| "obj_word loc (Character c) = MKCL_CODE_CHAR (word_of_nat c)"
| "obj_word loc (Ref a) = loc a"

fun representable :: "nat \<Rightarrow> obj \<Rightarrow> bool" where
  "representable cells (Fixnum n) = fixnum_range n"
| "representable cells (Character c) = (c < 1114112)"
| "representable cells (Ref a) = (a < cells)"
| "representable cells _ = True"

text \<open>
  What the code relies on from the allocator, for a heap of \<open>n\<close> cells: distinct cells have
  distinct addresses, which are multiples of 4 other than \<open>NULL\<close> and \<open>MKCL_OBJNULL\<close>.
\<close>

definition allocator :: "nat \<Rightarrow> (addr \<Rightarrow> mkcl_index) \<Rightarrow> bool" where
  "allocator n loc \<longleftrightarrow> inj_on loc {..<n}
     \<and> (\<forall>a < n. MKCL_IMMEDIATE (loc a) = 0 \<and> loc a \<noteq> 0 \<and> loc a \<noteq> OBJNULL_word)"

lemma make_fixnum_inj:
  assumes "fixnum_range m" and "fixnum_range n"
    and "MKCL_MAKE_FIXNUM (word_of_int m) = MKCL_MAKE_FIXNUM (word_of_int n)"
  shows "m = n"
  using assms fixnum_round_trip by metis

lemma code_char_inj:
  assumes "c < 1114112" and "d < 1114112"
    and "MKCL_CODE_CHAR (word_of_nat c) = MKCL_CODE_CHAR (word_of_nat d)"
  shows "c = d"
proof -
  have "unat (word_of_nat c :: 64 word) = c" and "unat (word_of_nat d :: 64 word) = d"
    using assms(1,2) by (simp_all add: unat_of_nat take_bit_nat_eq_self)
  moreover have "c < 2 ^ 56" and "d < 2 ^ 56" using assms(1,2) by simp_all
  ultimately show ?thesis
    using assms(3) char_round_trip [of "word_of_nat c"] char_round_trip [of "word_of_nat d"] by metis
qed

fun obj_tag :: "obj \<Rightarrow> mkcl_index" where
  "obj_tag (Fixnum n) = 3"
| "obj_tag (Character c) = 2"
| "obj_tag _ = 0"

lemma obj_word_tag:
  assumes "allocator n loc" and "representable n x"
  shows "MKCL_IMMEDIATE (obj_word loc x) = obj_tag x"
  using assms by (cases x) (simp_all add: allocator_def, simp add: MKCL_IMMEDIATE_def)

lemma obj_word_inject:
  assumes loc: "allocator n loc" and x: "representable n x" and y: "representable n y"
  shows "obj_word loc x = obj_word loc y \<longleftrightarrow> x = y"
proof
  assume eq: "obj_word loc x = obj_word loc y"
  then have tag: "obj_tag x = obj_tag y" using obj_word_tag [OF loc] x y by metis
  have nn: "(0 :: 64 word) \<noteq> OBJNULL_word" by (simp add: OBJNULL_word_def)
  have l: "inj_on loc {..<n}" "\<And>a. a < n \<Longrightarrow> loc a \<noteq> 0" "\<And>a. a < n \<Longrightarrow> loc a \<noteq> OBJNULL_word"
    "\<And>a. a < n \<Longrightarrow> OBJNULL_word \<noteq> loc a"
    using loc by (auto simp: allocator_def)
  show "x = y"
    using x y eq tag nn l
    by (cases x; cases y) (auto dest: make_fixnum_inj code_char_inj inj_onD)
qed simp

section \<open>Type tags\<close>

datatype mkcl_type =
    t_null | t_character | t_fixnum
  | t_bignum | t_ratio | t_singlefloat | t_doublefloat | t_longfloat | t_complex
  | t_symbol | t_cons | t_package | t_array
  | t_vector | t_string | t_base_string | t_bitvector
  | t_cfun | t_cclosure | t_bytecode | t_bclosure | t_instance
  | t_hashtable | t_stream | t_random | t_readtable | t_pathname | t_structure
  | t_thread | t_lock | t_rwlock | t_semaphore | t_condition_variable
  | t_codeblock | t_foreign | t_temp_stack_frame | t_cdisplay | t_clevel_block
  | t_cmp_dbg_lex_level | t_pin_bag | t_pin | t_UTF_8 | t_UTF_16 | t_process

text \<open>The numerical value of a tag; \<open>mkcl_t_object\<close> is the low bit of a memory object's tag.\<close>

fun type_tag :: "mkcl_type \<Rightarrow> nat" where
  "type_tag t_null = 0"
| "type_tag t_character = 2"
| "type_tag t_fixnum = 3"
| "type_tag t_bignum = 1 * 4 + 1"
| "type_tag t_ratio = 2 * 4 + 1"
| "type_tag t_singlefloat = 3 * 4 + 1"
| "type_tag t_doublefloat = 4 * 4 + 1"
| "type_tag t_longfloat = 5 * 4 + 1"
| "type_tag t_complex = 6 * 4 + 1"
| "type_tag t_symbol = 8 * 4 + 1"
| "type_tag t_cons = 9 * 4 + 1"
| "type_tag t_package = 10 * 4 + 1"
| "type_tag t_array = 11 * 4 + 1"
| "type_tag t_vector = 12 * 4 + 1"
| "type_tag t_string = 13 * 4 + 1"
| "type_tag t_base_string = 14 * 4 + 1"
| "type_tag t_bitvector = 15 * 4 + 1"
| "type_tag t_cfun = 16 * 4 + 1"
| "type_tag t_cclosure = 17 * 4 + 1"
| "type_tag t_bytecode = 18 * 4 + 1"
| "type_tag t_bclosure = 19 * 4 + 1"
| "type_tag t_instance = 20 * 4 + 1"
| "type_tag t_hashtable = 24 * 4 + 1"
| "type_tag t_stream = 25 * 4 + 1"
| "type_tag t_random = 26 * 4 + 1"
| "type_tag t_readtable = 27 * 4 + 1"
| "type_tag t_pathname = 28 * 4 + 1"
| "type_tag t_structure = 29 * 4 + 1"
| "type_tag t_thread = 30 * 4 + 1"
| "type_tag t_lock = 31 * 4 + 1"
| "type_tag t_rwlock = 32 * 4 + 1"
| "type_tag t_semaphore = 33 * 4 + 1"
| "type_tag t_condition_variable = 34 * 4 + 1"
| "type_tag t_codeblock = 35 * 4 + 1"
| "type_tag t_foreign = 36 * 4 + 1"
| "type_tag t_temp_stack_frame = 37 * 4 + 1"
| "type_tag t_cdisplay = 38 * 4 + 1"
| "type_tag t_clevel_block = 39 * 4 + 1"
| "type_tag t_cmp_dbg_lex_level = 40 * 4 + 1"
| "type_tag t_pin_bag = 41 * 4 + 1"
| "type_tag t_pin = 42 * 4 + 1"
| "type_tag t_UTF_8 = 43 * 4 + 1"
| "type_tag t_UTF_16 = 44 * 4 + 1"
| "type_tag t_process = 45 * 4 + 1"

definition reserved_bin0_7 :: nat where
  "reserved_bin0_7 = 7 * 4 + 1"

definition MKCL_NUMBER_TYPE_P :: "mkcl_type \<Rightarrow> bool" where
  "MKCL_NUMBER_TYPE_P t \<longleftrightarrow> type_tag t_fixnum \<le> type_tag t \<and> type_tag t \<le> type_tag t_complex"

definition MKCL_REAL_TYPE_P :: "mkcl_type \<Rightarrow> bool" where
  "MKCL_REAL_TYPE_P t \<longleftrightarrow> type_tag t_fixnum \<le> type_tag t \<and> type_tag t < type_tag t_complex"

definition MKCL_ARRAY_TYPE_P :: "mkcl_type \<Rightarrow> bool" where
  "MKCL_ARRAY_TYPE_P t \<longleftrightarrow> type_tag t_array \<le> type_tag t \<and> type_tag t \<le> type_tag t_bitvector"

definition MKCL_VECTOR_TYPE_P :: "mkcl_type \<Rightarrow> bool" where
  "MKCL_VECTOR_TYPE_P t \<longleftrightarrow> type_tag t_vector \<le> type_tag t \<and> type_tag t \<le> type_tag t_bitvector"

section \<open>The heap\<close>

text \<open>
  Numbers are immutable, so the components of a ratio or of a complex are given by value;
  \<open>NFix\<close> is an immediate component, every other constructor a boxed one. Floats are given
  by their IEEE bit patterns.
\<close>

datatype num =
    NFix int | NBig int | NRatio num num
  | NSingle "32 word" | NDouble "64 word" | NComplex num num

record symbol =
  stype :: nat
  sym_value :: obj
  gfdef :: obj
  plist :: obj
  sym_name :: lstring
  hpack :: "nat option"
  sys_plist :: obj
  special_index :: "nat option"
  hashed_name :: mkcl_hash_value

record pathname =
  logical :: bool
  path_host :: obj
  path_device :: obj
  path_directory :: obj
  path_name :: obj
  path_type :: obj
  path_version :: obj

record foreign =
  foreign_data :: mkcl_index
  foreign_size :: nat
  foreign_tag :: obj

record bitvector =
  bit_self :: "bool list"
  bit_offset :: nat
  bit_fillp :: nat

text \<open>
  \<open>OtherC t\<close> stands for the objects of the types that have no constructor of their own.
\<close>

datatype cell =
    ConsC obj obj
  | NumC num
  | SymC symbol
  | BaseStrC lstring
  | StrC lstring
  | BitVecC bitvector
  | PathC pathname
  | ForeignC foreign
  | RandomC obj
  | OtherC mkcl_type

type_synonym heap = "cell list"

definition cell_at :: "heap \<Rightarrow> obj \<Rightarrow> cell option" where
  "cell_at h x = (case x of Ref a \<Rightarrow> if a < length h then Some (h ! a) else None | _ \<Rightarrow> None)"

definition alloc :: "heap \<Rightarrow> cell \<Rightarrow> obj \<times> heap" where
  "alloc h c = (Ref (length h), h @ [c])"

definition store :: "heap \<Rightarrow> obj \<Rightarrow> cell \<Rightarrow> heap" where
  "store h x c = (case x of Ref a \<Rightarrow> h[a := c] | _ \<Rightarrow> h)"

fun num_type :: "num \<Rightarrow> mkcl_type" where
  "num_type (NFix n) = t_fixnum"
| "num_type (NBig n) = t_bignum"
| "num_type (NRatio n d) = t_ratio"
| "num_type (NSingle f) = t_singlefloat"
| "num_type (NDouble f) = t_doublefloat"
| "num_type (NComplex r i) = t_complex"

fun cell_type :: "cell \<Rightarrow> mkcl_type" where
  "cell_type (ConsC a d) = t_cons"
| "cell_type (NumC n) = num_type n"
| "cell_type (SymC s) = t_symbol"
| "cell_type (BaseStrC s) = t_base_string"
| "cell_type (StrC s) = t_string"
| "cell_type (BitVecC v) = t_bitvector"
| "cell_type (PathC p) = t_pathname"
| "cell_type (ForeignC f) = t_foreign"
| "cell_type (RandomC v) = t_random"
| "cell_type (OtherC t) = t"

text \<open>
  \<open>mkcl_type_of\<close> of a dangling reference or of \<open>MKCL_OBJNULL\<close> would read outside the
  heap; it is \<open>None\<close> here.
\<close>

definition mkcl_type_of :: "heap \<Rightarrow> obj \<Rightarrow> mkcl_type option" where
  "mkcl_type_of h x = (case x of
       Cnil \<Rightarrow> Some t_null
     | Fixnum n \<Rightarrow> Some t_fixnum
     | Character c \<Rightarrow> Some t_character
     | _ \<Rightarrow> map_option cell_type (cell_at h x))"

definition MKCL_CONSP :: "heap \<Rightarrow> obj \<Rightarrow> bool" where
  "MKCL_CONSP h x = (case cell_at h x of Some (ConsC a d) \<Rightarrow> True | _ \<Rightarrow> False)"

definition MKCL_LISTP :: "heap \<Rightarrow> obj \<Rightarrow> bool" where
  "MKCL_LISTP h x \<longleftrightarrow> x = Cnil \<or> MKCL_CONSP h x"

definition MKCL_SYMBOLP :: "heap \<Rightarrow> obj \<Rightarrow> bool" where
  "MKCL_SYMBOLP h x \<longleftrightarrow>
     x = Cnil \<or> (case cell_at h x of Some (SymC s) \<Rightarrow> True | _ \<Rightarrow> False)"

text \<open>
  \<open>MKCL_CONS_CAR\<close> and \<open>MKCL_CONS_CDR\<close> read a field without a check. The model gives
  \<open>Cnil\<close> off a cons; operations whose C code may read there without having tested
  \<open>MKCL_CONSP\<close> return \<open>BadAccess\<close> instead.
\<close>

definition MKCL_CONS_CAR :: "heap \<Rightarrow> obj \<Rightarrow> obj" where
  "MKCL_CONS_CAR h x = (case cell_at h x of Some (ConsC a d) \<Rightarrow> a | _ \<Rightarrow> Cnil)"

definition MKCL_CONS_CDR :: "heap \<Rightarrow> obj \<Rightarrow> obj" where
  "MKCL_CONS_CDR h x = (case cell_at h x of Some (ConsC a d) \<Rightarrow> d | _ \<Rightarrow> Cnil)"

definition MKCL_RPLACA :: "heap \<Rightarrow> obj \<Rightarrow> obj \<Rightarrow> heap" where
  "MKCL_RPLACA h x v =
     (case cell_at h x of Some (ConsC a d) \<Rightarrow> store h x (ConsC v d) | _ \<Rightarrow> h)"

definition MKCL_RPLACD :: "heap \<Rightarrow> obj \<Rightarrow> obj \<Rightarrow> heap" where
  "MKCL_RPLACD h x v =
     (case cell_at h x of Some (ConsC a d) \<Rightarrow> store h x (ConsC a v) | _ \<Rightarrow> h)"

definition mkcl_cons :: "heap \<Rightarrow> obj \<Rightarrow> obj \<Rightarrow> obj \<times> heap" where
  "mkcl_cons h a d = alloc h (ConsC a d)"

definition mkcl_list1 :: "heap \<Rightarrow> obj \<Rightarrow> obj \<times> heap" where
  "mkcl_list1 h a = mkcl_cons h a Cnil"

text \<open>
  The conditions the modelled operations signal. \<open>BadAccess\<close> is not a Lisp condition: it
  marks a C access outside the object the code assumes it has.
\<close>

datatype lisp_error =
    TypeErrorList obj
  | TypeErrorProperList obj
  | TypeErrorCons obj
  | TypeErrorSeqIndex obj int
  | TypeErrorFixnum obj
  | TypeErrorIndex obj
  | TypeErrorInteger obj
  | CircularList obj
  | WrongNumArguments nat
  | TypeErrorPlist obj
  | NotASymbolObject obj
  | ConstantSymbol obj
  | SpecialSymbol obj
  | BothTests
  | UnequalLengths obj obj
  | BadAccess

type_synonym 'a query = "(lisp_error + 'a) option"
type_synonym 'a action = "((lisp_error + 'a) \<times> heap) option"

subsection \<open>Reading and writing\<close>

lemma consp_cases:
  assumes "MKCL_CONSP h x"
  obtains a u v where "x = Ref a" "a < length h" "h ! a = ConsC u v"
  using assms
  by (auto simp: MKCL_CONSP_def cell_at_def split: obj.splits if_splits cell.splits)

lemma cell_at_simps [heap_simps, simp]:
  "cell_at h Cnil = None" "cell_at h ObjNull = None" "cell_at h (Fixnum n) = None"
  "cell_at h (Character c) = None"
  "cell_at h (Ref a) = (if a < length h then Some (h ! a) else None)"
  by (simp_all add: cell_at_def)

lemma consp_simps [heap_simps, simp]:
  "\<not> MKCL_CONSP h Cnil" "\<not> MKCL_CONSP h ObjNull" "\<not> MKCL_CONSP h (Fixnum n)"
  "\<not> MKCL_CONSP h (Character c)"
  "a < length h \<Longrightarrow> h ! a = ConsC u v \<Longrightarrow> MKCL_CONSP h (Ref a)"
  by (simp_all add: MKCL_CONSP_def)

lemma consp_type_of: "MKCL_CONSP h x \<Longrightarrow> mkcl_type_of h x = Some t_cons"
  by (auto elim!: consp_cases simp: mkcl_type_of_def)

lemma car_cdr_simps [heap_simps, simp]:
  "a < length h \<Longrightarrow> h ! a = ConsC u v \<Longrightarrow> MKCL_CONS_CAR h (Ref a) = u"
  "a < length h \<Longrightarrow> h ! a = ConsC u v \<Longrightarrow> MKCL_CONS_CDR h (Ref a) = v"
  by (simp_all add: MKCL_CONS_CAR_def MKCL_CONS_CDR_def)

lemma cdr_nil [simp]: "MKCL_CONS_CDR h Cnil = Cnil"
  by (simp add: MKCL_CONS_CDR_def)

lemma rplac_simps [heap_simps, simp]:
  "a < length h \<Longrightarrow> h ! a = ConsC u v \<Longrightarrow> MKCL_RPLACA h (Ref a) w = h[a := ConsC w v]"
  "a < length h \<Longrightarrow> h ! a = ConsC u v \<Longrightarrow> MKCL_RPLACD h (Ref a) w = h[a := ConsC u w]"
  by (simp_all add: MKCL_RPLACA_def MKCL_RPLACD_def store_def)

lemma length_rplacd [simp]: "length (MKCL_RPLACD h x v) = length h"
  by (auto simp: MKCL_RPLACD_def store_def split: option.splits cell.splits obj.splits)

lemma length_rplaca [simp]: "length (MKCL_RPLACA h x v) = length h"
  by (auto simp: MKCL_RPLACA_def store_def split: option.splits cell.splits obj.splits)

lemma cons_simps [heap_simps, simp]:
  "mkcl_cons h a d = (Ref (length h), h @ [ConsC a d])"
  "mkcl_list1 h a = (Ref (length h), h @ [ConsC a Cnil])"
  by (simp_all add: mkcl_cons_def mkcl_list1_def alloc_def)

end
