(* ===== verification/Arrays.thy ===== *)
theory Arrays
  imports Objects
begin

text \<open>
  Arrays (\<^verbatim>\<open>src/src/c/array.c\<close>, the inline accessors of \<^verbatim>\<open>mkcl/external.h\<close> and the
  extension of vectors in \<^verbatim>\<open>string.c\<close>). An array object has a header and a pointer into a
  block of elements; arrays that are displaced to each other point into the same block.

  The state has the headers of all arrays, which are named by their positions, and all blocks. A
  pointer is a block and an offset; the elements of a bit array are the bits of a block, its
  pointer counts bytes. An access outside a block is the error \<open>ArrayOverrun\<close>: in C it has no meaning.

  Elements are Lisp values, integers unbounded: an element of a specialized array is what the
  conversion to the element type makes of the value stored. \<open>fixnum_bits\<close> is what
  \<open>mkcl_fixnum_to_word\<close> reads from any word, \<open>to_float\<close> the conversion to floats; both are
  parameters, as are the contents \<open>fresh\<close> of memory that is not initialized. A correctable error
  is final here: the answers of a handler are not modelled.
\<close>

section \<open>Data\<close>

datatype elttype =
    aet_object | aet_fixnum | aet_sf | aet_df | aet_bit | aet_word | aet_index
  | aet_b8 | aet_i8 | aet_b16 | aet_i16 | aet_b32 | aet_i32 | aet_b64 | aet_i64
  | aet_ch | aet_bc | aet_nil

datatype lval = LInt int | LChar nat | LReal nat | LObj obj

datatype array_kind = Array_t | Vector_t | String_t | BaseString_t | Bitvector_t

datatype array_error =
    WrongIndices | OutOfBounds | TypeErr | ArrayOverrun | ElementTypesDiffer | TooSmall | TooLarge
  | NotAdjustable | CannotReplace | NoFillPointer | BadAet | FillPointerNotAllowed | ForeignElements
  | RankTooLarge | IllegalStartEnd

datatype link = ArrayLink nat | ForeignLink nat

text \<open>
  \<open>a_displaced\<close> is NIL, or the cons of the array this one is displaced to, if any, and the list of
  the arrays displaced to this one.
\<close>

record arr =
  a_kind :: array_kind
  a_dims :: "nat list"
  a_dim :: nat
  a_hasfillp :: bool
  a_fillp :: nat
  a_adjustable :: bool
  a_elttype :: elttype
  a_displaced :: "(link option \<times> nat list) option"
  a_block :: nat
  a_offset :: nat
  a_bit_offset :: nat

record aheap =
  arrs :: "arr list"
  blocks :: "lval list list"

record conversions =
  fixnum_bits :: "lval \<Rightarrow> int"
  to_float :: "elttype \<Rightarrow> lval \<Rightarrow> array_error + lval"

type_synonym fresh_memory = "elttype \<Rightarrow> nat \<Rightarrow> lval list"

abbreviation arr_at :: "aheap \<Rightarrow> nat \<Rightarrow> arr" where
  "arr_at w x \<equiv> arrs w ! x"

definition upd_arr :: "nat \<Rightarrow> (arr \<Rightarrow> arr) \<Rightarrow> aheap \<Rightarrow> aheap" where
  "upd_arr x f w = w\<lparr>arrs := (arrs w)[x := f (arr_at w x)]\<rparr>"

text \<open>Unsigned arithmetic on \<open>mkcl_index\<close>.\<close>

definition wrap :: "nat \<Rightarrow> nat" where
  "wrap n = n mod 2 ^ 64"

definition minus_index :: "nat \<Rightarrow> nat \<Rightarrow> nat" where
  "minus_index m n = wrap (m + 2 ^ 64 - n)"

definition mkcl_fixnum_in_range :: "lval \<Rightarrow> int \<Rightarrow> int \<Rightarrow> array_error + int" where
  "mkcl_fixnum_in_range v lo hi =
     (case v of LInt n \<Rightarrow> if fixnum_range n \<and> lo \<le> n \<and> n \<le> hi then Inr n else Inl OutOfBounds | _ \<Rightarrow> Inl OutOfBounds)"

section \<open>Elements\<close>

definition position :: "arr \<Rightarrow> nat \<Rightarrow> nat" where
  "position a i = (if a_elttype a = aet_bit then 8 * a_offset a + (i + a_bit_offset a) else a_offset a + i)"

definition read_block :: "aheap \<Rightarrow> nat \<Rightarrow> nat \<Rightarrow> array_error + lval" where
  "read_block w b p = (if b < length (blocks w) \<and> p < length (blocks w ! b) then Inr (blocks w ! b ! p) else Inl ArrayOverrun)"

definition write_block :: "aheap \<Rightarrow> nat \<Rightarrow> nat \<Rightarrow> lval \<Rightarrow> array_error + aheap" where
  "write_block w b p v =
     (if b < length (blocks w) \<and> p < length (blocks w ! b)
      then Inr (w\<lparr>blocks := (blocks w)[b := (blocks w ! b)[p := v]]\<rparr>) else Inl ArrayOverrun)"

fun within :: "int \<Rightarrow> int \<Rightarrow> lval \<Rightarrow> array_error + lval" where
  "within lo hi (LInt n) = (if lo \<le> n \<and> n \<le> hi then Inr (LInt n) else Inl TypeErr)"
| "within lo hi _ = Inl TypeErr"

definition store_elt :: "conversions \<Rightarrow> arr \<Rightarrow> lval \<Rightarrow> array_error + lval" where
  "store_elt cv a v =
     (case a_elttype a of
        aet_object \<Rightarrow> Inr v
      | aet_fixnum \<Rightarrow> Inr (LInt (fixnum_bits cv v))
      | aet_sf \<Rightarrow> to_float cv aet_sf v
      | aet_df \<Rightarrow> to_float cv aet_df v
      | aet_bit \<Rightarrow> within 0 1 v
      | aet_word \<Rightarrow> within (- (2 ^ 63)) (2 ^ 63 - 1) v
      | aet_index \<Rightarrow> within 0 (2 ^ 64 - 1) v
      | aet_b8 \<Rightarrow> within 0 (2 ^ 8 - 1) v
      | aet_i8 \<Rightarrow> within (- (2 ^ 7)) (2 ^ 7 - 1) v
      | aet_b16 \<Rightarrow> within 0 (2 ^ 16 - 1) v
      | aet_i16 \<Rightarrow> within (- (2 ^ 15)) (2 ^ 15 - 1) v
      | aet_b32 \<Rightarrow> within 0 (2 ^ 32 - 1) v
      | aet_i32 \<Rightarrow> within (- (2 ^ 31)) (2 ^ 31 - 1) v
      | aet_b64 \<Rightarrow> within 0 (2 ^ 64 - 1) v
      | aet_i64 \<Rightarrow> within (- (2 ^ 63)) (2 ^ 63 - 1) v
      | aet_ch \<Rightarrow> (case v of LChar c \<Rightarrow> Inr v | _ \<Rightarrow> Inl TypeErr)
      | aet_bc \<Rightarrow>
          (case v of
             LChar c \<Rightarrow>
               if a_kind a = BaseString_t then (if c \<le> 255 then Inr v else Inl TypeErr) else Inr (LChar (c mod 256))
           | _ \<Rightarrow> Inl TypeErr)
      | aet_nil \<Rightarrow> Inr v)"

definition mkcl_aref_index :: "aheap \<Rightarrow> nat \<Rightarrow> nat \<Rightarrow> array_error + lval" where
  "mkcl_aref_index w x i =
     (let a = arr_at w x
      in if a_elttype a = aet_nil then Inr (LObj Cnil)
         else if i < a_dim a then read_block w (a_block a) (position a i) else Inl OutOfBounds)"

definition mkcl_aset_index :: "conversions \<Rightarrow> aheap \<Rightarrow> nat \<Rightarrow> nat \<Rightarrow> lval \<Rightarrow> array_error + aheap" where
  "mkcl_aset_index cv w x i v =
     (let a = arr_at w x
      in if a_elttype a = aet_nil then Inr w
         else and_then (store_elt cv a v) (\<lambda>e.
              if i < a_dim a then write_block w (a_block a) (position a i) e else Inl OutOfBounds))"

text \<open>Subscripts.\<close>

definition array_subscript :: "nat \<Rightarrow> lval \<Rightarrow> array_error + nat" where
  "array_subscript dim v = and_then (mkcl_fixnum_in_range v 0 (int dim - 1)) (\<lambda>n. Inr (nat n))"

fun row_major_loop :: "nat \<Rightarrow> nat list \<Rightarrow> lval list \<Rightarrow> array_error + nat" where
  "row_major_loop j (dim # dims) (v # vs) =
     and_then (array_subscript dim v) (\<lambda>s. row_major_loop (wrap (j * dim + s)) dims vs)"
| "row_major_loop j _ _ = Inr j"

definition mk_cl_array_row_major_index :: "aheap \<Rightarrow> nat \<Rightarrow> lval list \<Rightarrow> array_error + nat" where
  "mk_cl_array_row_major_index w x indx =
     (let a = arr_at w x
      in if a_kind a = Array_t then
           (if length indx \<noteq> length (a_dims a) then Inl WrongIndices else row_major_loop 0 (a_dims a) indx)
         else if length indx \<noteq> 1 then Inl WrongIndices
         else array_subscript (a_dim a) (indx ! 0))"

definition mk_cl_aref :: "aheap \<Rightarrow> nat \<Rightarrow> lval list \<Rightarrow> array_error + lval" where
  "mk_cl_aref w x indx = and_then (mk_cl_array_row_major_index w x indx) (mkcl_aref_index w x)"

definition mk_si_aset :: "conversions \<Rightarrow> aheap \<Rightarrow> lval \<Rightarrow> nat \<Rightarrow> lval list \<Rightarrow> array_error + aheap" where
  "mk_si_aset cv w v x indx = and_then (mk_cl_array_row_major_index w x indx) (\<lambda>j. mkcl_aset_index cv w x j v)"

definition mk_cl_row_major_aref :: "aheap \<Rightarrow> nat \<Rightarrow> lval \<Rightarrow> array_error + lval" where
  "mk_cl_row_major_aref w x indx = and_then (array_subscript (a_dim (arr_at w x)) indx) (mkcl_aref_index w x)"

definition mk_si_row_major_aset :: "conversions \<Rightarrow> aheap \<Rightarrow> nat \<Rightarrow> lval \<Rightarrow> lval \<Rightarrow> array_error + aheap" where
  "mk_si_row_major_aset cv w x indx v =
     and_then (array_subscript (a_dim (arr_at w x)) indx) (\<lambda>j. mkcl_aset_index cv w x j v)"

text \<open>The field \<open>rank\<close> of an array is at the place of the field \<open>hasfillp\<close> of a vector.\<close>

definition rank_field :: "arr \<Rightarrow> nat" where
  "rank_field a = (if a_kind a = Array_t then length (a_dims a) else of_bool (a_hasfillp a))"

definition mkcl_array_row_major_index_2_index :: "aheap \<Rightarrow> nat \<Rightarrow> nat \<Rightarrow> nat \<Rightarrow> array_error + nat" where
  "mkcl_array_row_major_index_2_index w x i j =
     (let a = arr_at w x
      in if rank_field a \<noteq> 2 then Inl WrongIndices
         else if i < a_dims a ! 0 \<and> j < a_dims a ! 1 then Inr (wrap (i * a_dims a ! 1 + j))
         else Inl OutOfBounds)"

definition mkcl_array_row_major_index_3_index :: "aheap \<Rightarrow> nat \<Rightarrow> nat \<Rightarrow> nat \<Rightarrow> nat \<Rightarrow> array_error + nat" where
  "mkcl_array_row_major_index_3_index w x i j k =
     (let a = arr_at w x
      in if rank_field a \<noteq> 3 then Inl WrongIndices
         else if i < a_dims a ! 0 \<and> j < a_dims a ! 1 \<and> k < a_dims a ! 2
         then Inr (wrap ((i * a_dims a ! 1 + j) * a_dims a ! 2 + k))
         else Inl OutOfBounds)"

text \<open>Simple vectors.\<close>

definition simple_vector :: "arr \<Rightarrow> bool" where
  "simple_vector a \<longleftrightarrow> a_kind a = Vector_t \<and> \<not> a_adjustable a \<and> \<not> a_hasfillp a
     \<and> (case a_displaced a of None \<Rightarrow> True | Some (l, _) \<Rightarrow> l = None) \<and> a_elttype a = aet_object"

definition mk_cl_svref :: "aheap \<Rightarrow> nat \<Rightarrow> lval \<Rightarrow> array_error + lval" where
  "mk_cl_svref w x indx =
     (if simple_vector (arr_at w x)
      then and_then (array_subscript (a_dim (arr_at w x)) indx)
             (\<lambda>i. read_block w (a_block (arr_at w x)) (position (arr_at w x) i))
      else Inl TypeErr)"

definition mk_si_svset :: "aheap \<Rightarrow> nat \<Rightarrow> lval \<Rightarrow> lval \<Rightarrow> array_error + aheap" where
  "mk_si_svset w x indx v =
     (if simple_vector (arr_at w x)
      then and_then (array_subscript (a_dim (arr_at w x)) indx)
             (\<lambda>i. write_block w (a_block (arr_at w x)) (position (arr_at w x) i) v)
      else Inl TypeErr)"

section \<open>Making arrays\<close>

text \<open>The memory a new array gets.\<close>

definition new_block :: "fresh_memory \<Rightarrow> elttype \<Rightarrow> nat \<Rightarrow> lval list" where
  "new_block fresh aet d =
     (case aet of
        aet_object \<Rightarrow> replicate d (LObj Cnil)
      | aet_fixnum \<Rightarrow> replicate d (LInt 0)
      | aet_ch \<Rightarrow> replicate (d + 1) (LChar 0)
      | aet_bc \<Rightarrow> replicate (d + 1) (LChar 0)
      | aet_bit \<Rightarrow> fresh aet (8 * ((d + 7) div 8))
      | aet_nil \<Rightarrow> []
      | _ \<Rightarrow> fresh aet d)"

definition mkcl_array_allocself :: "fresh_memory \<Rightarrow> nat \<Rightarrow> aheap \<Rightarrow> aheap" where
  "mkcl_array_allocself fresh x w =
     (upd_arr x (\<lambda>a. a\<lparr>a_block := length (blocks w), a_offset := 0,
          a_bit_offset := (if a_elttype a = aet_bit then 0 else a_bit_offset a)\<rparr>) w)
     \<lparr>blocks := blocks w @ [new_block fresh (a_elttype (arr_at w x)) (a_dim (arr_at w x))]\<rparr>"

text \<open>
  \<open>displace\<close> makes \<open>from\<close> point into the memory of \<open>to\<close>. It begins a new list for \<open>from\<close>, whose own
  dependents are dropped, and puts \<open>from\<close> on the list of \<open>to\<close>.
\<close>

definition link_arrays :: "nat \<Rightarrow> nat \<Rightarrow> aheap \<Rightarrow> aheap" where
  "link_arrays from to w =
     upd_arr to (\<lambda>a. a\<lparr>a_displaced := (case a_displaced a of
            None \<Rightarrow> Some (None, [from])
          | Some (l, ds) \<Rightarrow> Some (l, from # ds))\<rparr>)
       (upd_arr from (\<lambda>a. a\<lparr>a_displaced := Some (Some (ArrayLink to), [])\<rparr>) w)"

definition point_into :: "nat \<Rightarrow> nat \<Rightarrow> nat \<Rightarrow> aheap \<Rightarrow> aheap" where
  "point_into from to j w =
     (let t = arr_at w to
      in upd_arr from (\<lambda>a. if a_elttype a = aet_bit
             then a\<lparr>a_block := a_block t, a_offset := a_offset t + (j + a_bit_offset t) div 8, a_bit_offset := (j + a_bit_offset t) mod 8\<rparr>
             else a\<lparr>a_block := a_block t, a_offset := a_offset t + j\<rparr>) w)"

definition displace :: "nat \<Rightarrow> link \<Rightarrow> lval \<Rightarrow> aheap \<Rightarrow> array_error + aheap" where
  "displace from to offset w =
     (case to of
        ForeignLink b \<Rightarrow>
          if a_elttype (arr_at w from) = aet_bit \<or> a_elttype (arr_at w from) = aet_object then Inl ForeignElements
          else and_then (mkcl_fixnum_in_range offset 0 MOST_POSITIVE_FIXNUM) (\<lambda>j.
               if a_elttype (arr_at w from) = aet_nil then Inl BadAet
               else Inr (upd_arr from (\<lambda>a. a\<lparr>a_displaced := Some (Some to, []), a_block := b, a_offset := nat j\<rparr>) w))
      | ArrayLink t \<Rightarrow>
          if a_elttype (arr_at w t) \<noteq> a_elttype (arr_at w from) then Inl ElementTypesDiffer
          else if a_dim (arr_at w t) < a_dim (arr_at w from) then Inl TooSmall
          else and_then (mkcl_fixnum_in_range offset 0 (int (a_dim (arr_at w t)) - int (a_dim (arr_at w from)))) (\<lambda>j.
               if a_elttype (arr_at w from) = aet_nil then Inl BadAet
               else Inr (point_into from t (nat j) (link_arrays from t w))))"

datatype fill_argument = NoFill | FillT | FillAt lval

definition kind_for :: "elttype \<Rightarrow> array_kind" where
  "kind_for aet =
     (if aet = aet_bc then BaseString_t else if aet = aet_bit then Bitvector_t
      else if aet = aet_ch then String_t else Vector_t)"

definition fill_pointer_for :: "fill_argument \<Rightarrow> nat \<Rightarrow> array_error + (bool \<times> nat)" where
  "fill_pointer_for fillp d =
     (case fillp of
        NoFill \<Rightarrow> Inr (False, d)
      | FillT \<Rightarrow> Inr (True, d)
      | FillAt v \<Rightarrow> and_then (mkcl_fixnum_in_range v 0 (int d)) (\<lambda>f. Inr (True, nat f)))"

definition place_elements :: "fresh_memory \<Rightarrow> link option \<Rightarrow> lval \<Rightarrow> nat \<Rightarrow> aheap \<Rightarrow> array_error + aheap" where
  "place_elements fresh displ disploff x w =
     (case displ of None \<Rightarrow> Inr (mkcl_array_allocself fresh x w) | Some to \<Rightarrow> displace x to disploff w)"

definition mk_si_make_vector ::
  "fresh_memory \<Rightarrow> elttype \<Rightarrow> lval \<Rightarrow> bool \<Rightarrow> fill_argument \<Rightarrow> link option \<Rightarrow> lval \<Rightarrow> aheap \<Rightarrow> array_error + (nat \<times> aheap)" where
  "mk_si_make_vector fresh aet dim adj fillp displ disploff w =
     and_then (mkcl_fixnum_in_range dim 0 (int MKCL_ADIMLIM)) (\<lambda>d.
     and_then (fill_pointer_for fillp (nat d)) (\<lambda>(hasfillp, f).
       let a = \<lparr>a_kind = kind_for aet, a_dims = [], a_dim = nat d, a_hasfillp = hasfillp, a_fillp = f, a_adjustable = adj,
                a_elttype = aet, a_displaced = None, a_block = 0, a_offset = 0, a_bit_offset = 0\<rparr>; x = length (arrs w)
       in and_then (place_elements fresh displ disploff x (w\<lparr>arrs := arrs w @ [a]\<rparr>)) (\<lambda>w'. Inr (x, w'))))"

text \<open>The loop over the dimensions: each is checked, and the product so far.\<close>

fun dimensions_loop :: "nat \<Rightarrow> lval list \<Rightarrow> array_error + (nat \<times> nat list)" where
  "dimensions_loop s [] = Inr (s, [])"
| "dimensions_loop s (v # vs) =
     and_then (mkcl_fixnum_in_range v 0 (int MKCL_ADIMLIM)) (\<lambda>j.
       if s \<noteq> 0 \<and> MKCL_ATOTLIM div s < nat j then Inl TooLarge
       else and_then (dimensions_loop (wrap (s * nat j)) vs) (\<lambda>(total, js). Inr (total, nat j # js)))"

definition mk_si_make_pure_array ::
  "fresh_memory \<Rightarrow> elttype \<Rightarrow> lval list \<Rightarrow> bool \<Rightarrow> fill_argument \<Rightarrow> link option \<Rightarrow> lval \<Rightarrow> aheap \<Rightarrow> array_error + (nat \<times> aheap)" where
  "mk_si_make_pure_array fresh aet dims adj fillp displ disploff w =
     (if MKCL_ARANKLIM < length dims then Inl RankTooLarge
      else if length dims = 1 then mk_si_make_vector fresh aet (dims ! 0) adj fillp displ disploff w
      else if fillp \<noteq> NoFill then Inl FillPointerNotAllowed
      else and_then (dimensions_loop 1 dims) (\<lambda>(s, js).
        let a = \<lparr>a_kind = Array_t, a_dims = js, a_dim = s, a_hasfillp = False, a_fillp = 0, a_adjustable = adj,
                 a_elttype = aet, a_displaced = None, a_block = 0, a_offset = 0, a_bit_offset = 0\<rparr>; x = length (arrs w)
        in if aet = aet_nil then (if s \<noteq> 0 then Inl TypeErr else Inr (x, w\<lparr>arrs := arrs w @ [a]\<rparr>))
           else and_then (place_elements fresh displ disploff x (w\<lparr>arrs := arrs w @ [a]\<rparr>)) (\<lambda>w'. Inr (x, w'))))"

text \<open>The memory of a simple string is not cleared, but for the ends of a base string.\<close>

definition simple_block :: "fresh_memory \<Rightarrow> elttype \<Rightarrow> nat \<Rightarrow> lval list" where
  "simple_block fresh aet l =
     (if aet = aet_bc then (fresh aet (l + 1))[l := LChar 0, 0 := LChar 0]
      else if aet = aet_ch then fresh aet (l + 1)
      else new_block fresh aet l)"

definition mkcl_alloc_simple_vector :: "fresh_memory \<Rightarrow> nat \<Rightarrow> elttype \<Rightarrow> aheap \<Rightarrow> nat \<times> aheap" where
  "mkcl_alloc_simple_vector fresh l aet w =
     (length (arrs w),
      w\<lparr>arrs := arrs w @ [\<lparr>a_kind = kind_for aet, a_dims = [], a_dim = l, a_hasfillp = False, a_fillp = l,
             a_adjustable = False, a_elttype = aet, a_displaced = None, a_block = length (blocks w), a_offset = 0, a_bit_offset = 0\<rparr>],
        blocks := blocks w @ [simple_block fresh aet l]\<rparr>)"

section \<open>Displacement\<close>

text \<open>The array it is displaced to, and the distance of the two pointers.\<close>

definition mk_cl_array_displacement :: "aheap \<Rightarrow> nat \<Rightarrow> array_error + (link option \<times> int)" where
  "mk_cl_array_displacement w x =
     (let a = arr_at w x
      in case a_displaced a of
           None \<Rightarrow> Inr (None, 0)
         | Some (None, _) \<Rightarrow> Inr (None, 0)
         | Some (Some (ForeignLink b), _) \<Rightarrow>
             if a_block a = b then Inr (Some (ForeignLink b), int (a_offset a)) else Inl ArrayOverrun
         | Some (Some (ArrayLink t), _) \<Rightarrow>
             let b = arr_at w t
             in if a_block a \<noteq> a_block b then Inl ArrayOverrun
                else Inr (Some (ArrayLink t),
                  if a_elttype a = aet_bit
                  then (int (a_offset a) - int (a_offset b)) * 8 + int (a_bit_offset a) - int (a_bit_offset b)
                  else int (a_offset a) - int (a_offset b)))"

text \<open>\<open>si:replace-array\<close>: every array displaced to the old one is displaced to the new one.\<close>

fun displace_all :: "nat list \<Rightarrow> nat \<Rightarrow> aheap \<Rightarrow> array_error + aheap" where
  "displace_all [] newa w = Inr w"
| "displace_all (d # ds) newa w =
     and_then (mk_cl_array_displacement w d) (\<lambda>(to, offset).
     and_then (displace d (ArrayLink newa) (LInt offset) w) (displace_all ds newa))"

definition dependents :: "arr \<Rightarrow> nat list" where
  "dependents a = (case a_displaced a of None \<Rightarrow> [] | Some (_, ds) \<Rightarrow> ds)"

definition mk_si_replace_array :: "nat \<Rightarrow> nat \<Rightarrow> aheap \<Rightarrow> array_error + (nat \<times> aheap)" where
  "mk_si_replace_array olda newa w =
     (let a = arr_at w olda; n = arr_at w newa
      in if a_kind a \<noteq> a_kind n \<or> (a_kind a = Array_t \<and> length (a_dims a) \<noteq> length (a_dims n)) then Inl CannotReplace
         else if \<not> a_adjustable a then Inr (newa, w)
         else and_then (displace_all (dependents a) newa w) (\<lambda>w'.
           Inr (olda, upd_arr olda (\<lambda>_. arr_at w' newa) w')))"

section \<open>Fill pointers\<close>

definition vectorp :: "arr \<Rightarrow> bool" where
  "vectorp a \<longleftrightarrow> a_kind a \<noteq> Array_t"

definition mk_cl_fill_pointer :: "aheap \<Rightarrow> nat \<Rightarrow> array_error + nat" where
  "mk_cl_fill_pointer w x =
     (if vectorp (arr_at w x) \<and> a_hasfillp (arr_at w x) then Inr (a_fillp (arr_at w x)) else Inl NoFillPointer)"

definition mk_si_fill_pointer_set :: "nat \<Rightarrow> lval \<Rightarrow> aheap \<Rightarrow> array_error + aheap" where
  "mk_si_fill_pointer_set x fp w =
     and_then (mkcl_fixnum_in_range fp MOST_NEGATIVE_FIXNUM MOST_POSITIVE_FIXNUM) (\<lambda>f.
       if \<not> (vectorp (arr_at w x) \<and> a_hasfillp (arr_at w x)) then Inl NoFillPointer
       else if 0 \<le> f \<and> f \<le> int (a_dim (arr_at w x)) then Inr (upd_arr x (\<lambda>a. a\<lparr>a_fillp := nat f\<rparr>) w)
       else Inl OutOfBounds)"

text \<open>The index at which the element was put, or \<open>None\<close> when the vector is full.\<close>

definition mkcl_vector_push :: "conversions \<Rightarrow> nat \<Rightarrow> lval \<Rightarrow> aheap \<Rightarrow> array_error + (nat option \<times> aheap)" where
  "mkcl_vector_push cv x v w =
     (let fillp = a_fillp (arr_at w x)
      in if \<not> vectorp (arr_at w x) then Inl TypeErr
         else if a_dim (arr_at w x) \<le> fillp then Inr (None, w)
         else and_then (mkcl_aset_index cv w x fillp v) (\<lambda>w'.
           Inr (Some fillp, upd_arr x (\<lambda>a. a\<lparr>a_fillp := fillp + 1\<rparr>) w')))"

text \<open>A base string has a null behind its fill pointer, which \<open>mkcl_base_string_push\<close> moves on.\<close>

definition mkcl_base_string_push :: "nat \<Rightarrow> nat \<Rightarrow> aheap \<Rightarrow> array_error + (nat option \<times> aheap)" where
  "mkcl_base_string_push x c w =
     (let a = arr_at w x; fillp = a_fillp a
      in if a_kind a \<noteq> BaseString_t then Inl TypeErr
         else if a_dim a \<le> fillp then Inr (None, w)
         else and_then (write_block w (a_block a) (a_offset a + (fillp + 1)) (LChar 0)) (\<lambda>w1.
              and_then (write_block w1 (a_block a) (a_offset a + fillp) (LChar c)) (\<lambda>w2.
              Inr (Some fillp, upd_arr x (\<lambda>a. a\<lparr>a_fillp := fillp + 1\<rparr>) w2))))"

section \<open>Copying, reversing, filling\<close>

fun copy_loop :: "conversions \<Rightarrow> nat \<Rightarrow> nat \<Rightarrow> nat \<Rightarrow> nat \<Rightarrow> nat \<Rightarrow> aheap \<Rightarrow> array_error + aheap" where
  "copy_loop cv dest i0 orig i1 0 w = Inr w"
| "copy_loop cv dest i0 orig i1 (Suc l) w =
     and_then (mkcl_aref_index w orig i1) (\<lambda>v.
     and_then (mkcl_aset_index cv w dest i0 v) (copy_loop cv dest (i0 + 1) orig (i1 + 1) l))"

definition copy_memory :: "nat \<Rightarrow> nat \<Rightarrow> nat \<Rightarrow> nat \<Rightarrow> nat \<Rightarrow> aheap \<Rightarrow> array_error + aheap" where
  "copy_memory b p b' p' l w =
     (if b < length (blocks w) \<and> p + l \<le> length (blocks w ! b) \<and> b' < length (blocks w) \<and> p' + l \<le> length (blocks w ! b')
      then Inr (w\<lparr>blocks := (blocks w)[b := take p (blocks w ! b) @ take l (drop p' (blocks w ! b')) @ drop (p + l) (blocks w ! b)]\<rparr>)
      else if l = 0 then Inr w else Inl ArrayOverrun)"

definition mkcl_copy_subarray ::
  "conversions \<Rightarrow> nat \<Rightarrow> nat \<Rightarrow> nat \<Rightarrow> nat \<Rightarrow> nat \<Rightarrow> aheap \<Rightarrow> array_error + aheap" where
  "mkcl_copy_subarray cv dest i0 orig i1 l w =
     (let d = arr_at w dest; s = arr_at w orig;
          l1 = (if a_dim d < wrap (i0 + l) then minus_index (a_dim d) i0 else l);
          l2 = (if a_dim s < wrap (i1 + l1) then minus_index (a_dim s) i1 else l1)
      in if a_elttype d \<noteq> a_elttype s \<or> a_elttype d = aet_bit
         then copy_loop cv dest i0 orig i1 l2 w
         else copy_memory (a_block d) (a_offset d + i0) (a_block s) (a_offset s + i1) l2 w)"

text \<open>The two indices move towards each other until they meet.\<close>

function swap_loop :: "nat \<Rightarrow> nat \<Rightarrow> nat \<Rightarrow> nat \<Rightarrow> aheap \<Rightarrow> array_error + aheap" where
  "swap_loop b base i j w =
     (if i < j then
        and_then (read_block w b (base + i)) (\<lambda>y.
        and_then (read_block w b (base + j)) (\<lambda>z.
        and_then (write_block w b (base + i) z) (\<lambda>w1.
        and_then (write_block w1 b (base + j) y) (swap_loop b base (i + 1) (j - 1)))))
      else Inr w)"
  by pat_completeness auto

termination
  by (relation "measure (\<lambda>(b, base, i, j, w). j - i)") auto

declare swap_loop.simps [simp del]

definition mkcl_reverse_subarray :: "nat \<Rightarrow> nat \<Rightarrow> nat \<Rightarrow> aheap \<Rightarrow> array_error + aheap" where
  "mkcl_reverse_subarray x i0 i1 w =
     (let a = arr_at w x; e = (if a_dim a \<le> i1 then a_dim a else i1)
      in if a_dim a = 0 then Inr w
         else if a_elttype a = aet_nil then Inl BadAet
         else if a_elttype a = aet_bit
         then swap_loop (a_block a) (8 * a_offset a) (wrap (i0 + a_bit_offset a)) (minus_index (e + a_bit_offset a) 1) w
         else swap_loop (a_block a) (a_offset a) i0 (minus_index e 1) w)"

fun fill_loop :: "nat \<Rightarrow> nat \<Rightarrow> lval \<Rightarrow> nat \<Rightarrow> aheap \<Rightarrow> array_error + aheap" where
  "fill_loop b p e 0 w = Inr w"
| "fill_loop b p e (Suc n) w = and_then (write_block w b p e) (fill_loop b (p + 1) e n)"

definition integer_to_index :: "lval \<Rightarrow> array_error + nat" where
  "integer_to_index v = (case v of LInt n \<Rightarrow> if 0 \<le> n \<and> n < 2 ^ 64 then Inr (nat n) else Inl TypeErr | _ \<Rightarrow> Inl TypeErr)"

text \<open>The converted element; a base character is checked here for every array.\<close>

definition fill_value :: "conversions \<Rightarrow> arr \<Rightarrow> lval \<Rightarrow> array_error + lval" where
  "fill_value cv a v =
     (case a_elttype a of
        aet_fixnum \<Rightarrow> within (- (2 ^ 63)) (2 ^ 63 - 1) v
      | aet_bc \<Rightarrow> (case v of LChar c \<Rightarrow> if c \<le> 255 then Inr v else Inl TypeErr | _ \<Rightarrow> Inl TypeErr)
      | aet_nil \<Rightarrow> Inl BadAet
      | _ \<Rightarrow> store_elt cv a v)"

definition mk_si_fill_array_with_elt ::
  "conversions \<Rightarrow> nat \<Rightarrow> lval \<Rightarrow> lval \<Rightarrow> lval option \<Rightarrow> aheap \<Rightarrow> array_error + aheap" where
  "mk_si_fill_array_with_elt cv x elt start end w =
     (let a = arr_at w x
      in and_then (integer_to_index start) (\<lambda>first.
         and_then (case end of None \<Rightarrow> Inr (a_dim a) | Some v \<Rightarrow> integer_to_index v) (\<lambda>last.
         if last \<le> first then Inr w
         else and_then (fill_value cv a elt) (\<lambda>e. fill_loop (a_block a) (position a first) e (last - first) w))))"

section \<open>Extending\<close>

definition extended_length :: "nat \<Rightarrow> nat" where
  "extended_length dim = (let n = 1 + dim + dim div 2 in if MKCL_ADIMLIM < n then MKCL_ADIMLIM else n)"

definition mkcl_extend_vector :: "fresh_memory \<Rightarrow> conversions \<Rightarrow> nat \<Rightarrow> aheap \<Rightarrow> array_error + (nat \<times> aheap)" where
  "mkcl_extend_vector fresh cv x w =
     (let s = arr_at w x
      in if \<not> a_adjustable s then Inl NotAdjustable
         else if MKCL_ADIMLIM \<le> a_dim s then Inl TooLarge
         else and_then (mk_si_make_vector fresh (a_elttype s) (LInt (int (extended_length (a_dim s)))) True
                (FillAt (LInt (int (a_fillp s)))) None (LInt 0) w) (\<lambda>(other, w1).
              and_then (mkcl_copy_subarray cv other 0 x 0 (a_fillp s) w1) (mk_si_replace_array x other)))"

definition mkcl_vector_push_extend ::
  "fresh_memory \<Rightarrow> conversions \<Rightarrow> nat \<Rightarrow> lval \<Rightarrow> aheap \<Rightarrow> array_error + (nat \<times> aheap)" where
  "mkcl_vector_push_extend fresh cv x v w =
     (let fillp = a_fillp (arr_at w x)
      in if \<not> vectorp (arr_at w x) then Inl TypeErr
         else and_then (if a_dim (arr_at w x) \<le> fillp then and_then (mkcl_extend_vector fresh cv x w) (\<lambda>(_, w'). Inr w') else Inr w) (\<lambda>w1.
              and_then (mkcl_aset_index cv w1 x fillp v) (\<lambda>w2.
              Inr (fillp, upd_arr x (\<lambda>a. a\<lparr>a_fillp := fillp + 1\<rparr>) w2))))"

section \<open>Names of element types\<close>

datatype elttype_name =
    N_base_char | N_character | N_t | N_bit | N_fixnum | N_cl_word | N_cl_index | N_single_float | N_short_float
  | N_double_float | N_long_float | N_natural8 | N_integer8 | N_natural16 | N_integer16 | N_natural32 | N_integer32
  | N_natural64 | N_integer64 | N_nil | N_other nat

text \<open>
  A name that is not in the table is upgraded by a Lisp function, \<open>upgrade\<close>, and looked up again;
  the count bounds how often.
\<close>

fun symbol_to_elttype :: "(elttype_name \<Rightarrow> elttype_name) \<Rightarrow> nat \<Rightarrow> elttype_name \<Rightarrow> elttype option" where
  "symbol_to_elttype upgrade n N_base_char = Some aet_bc"
| "symbol_to_elttype upgrade n N_character = Some aet_ch"
| "symbol_to_elttype upgrade n N_t = Some aet_object"
| "symbol_to_elttype upgrade n N_bit = Some aet_bit"
| "symbol_to_elttype upgrade n N_fixnum = Some aet_fixnum"
| "symbol_to_elttype upgrade n N_cl_word = Some aet_word"
| "symbol_to_elttype upgrade n N_cl_index = Some aet_index"
| "symbol_to_elttype upgrade n N_single_float = Some aet_sf"
| "symbol_to_elttype upgrade n N_short_float = Some aet_sf"
| "symbol_to_elttype upgrade n N_double_float = Some aet_df"
| "symbol_to_elttype upgrade n N_long_float = Some aet_df"
| "symbol_to_elttype upgrade n N_natural8 = Some aet_b8"
| "symbol_to_elttype upgrade n N_integer8 = Some aet_i8"
| "symbol_to_elttype upgrade n N_natural16 = Some aet_b16"
| "symbol_to_elttype upgrade n N_integer16 = Some aet_i16"
| "symbol_to_elttype upgrade n N_natural32 = Some aet_b32"
| "symbol_to_elttype upgrade n N_integer32 = Some aet_i32"
| "symbol_to_elttype upgrade n N_natural64 = Some aet_b64"
| "symbol_to_elttype upgrade n N_integer64 = Some aet_i64"
| "symbol_to_elttype upgrade n N_nil = Some aet_nil"
| "symbol_to_elttype upgrade 0 (N_other k) = None"
| "symbol_to_elttype upgrade (Suc n) (N_other k) = symbol_to_elttype upgrade n (upgrade (N_other k))"

fun elttype_to_symbol :: "elttype \<Rightarrow> elttype_name" where
  "elttype_to_symbol aet_object = N_t"
| "elttype_to_symbol aet_fixnum = N_fixnum"
| "elttype_to_symbol aet_ch = N_character"
| "elttype_to_symbol aet_bc = N_base_char"
| "elttype_to_symbol aet_bit = N_bit"
| "elttype_to_symbol aet_word = N_cl_word"
| "elttype_to_symbol aet_index = N_cl_index"
| "elttype_to_symbol aet_sf = N_single_float"
| "elttype_to_symbol aet_df = N_double_float"
| "elttype_to_symbol aet_b8 = N_natural8"
| "elttype_to_symbol aet_i8 = N_integer8"
| "elttype_to_symbol aet_b16 = N_natural16"
| "elttype_to_symbol aet_i16 = N_integer16"
| "elttype_to_symbol aet_b32 = N_natural32"
| "elttype_to_symbol aet_i32 = N_integer32"
| "elttype_to_symbol aet_b64 = N_natural64"
| "elttype_to_symbol aet_i64 = N_integer64"
| "elttype_to_symbol aet_nil = N_nil"

end
