(* ===== verification/Numbers.thy ===== *)
theory Numbers
  imports Objects "HOL-Library.Signed_Division"
begin

text \<open>
  Exact arithmetic (\<^verbatim>\<open>src/src/c/num_arith.c\<close>, \<^verbatim>\<open>num_co.c\<close>, \<^verbatim>\<open>num_comp.c\<close>, \<^verbatim>\<open>num_pred.c\<close>,
  \<^verbatim>\<open>big.c\<close> and parts of \<^verbatim>\<open>number.c\<close> and \<^verbatim>\<open>num_sfun.c\<close>): the branches for fixnums, bignums and
  ratios. The branches for floats and complex numbers are not modelled.

  A fixnum is \<open>Fix n\<close>, a bignum \<open>Big n\<close>, a ratio \<open>Q num den\<close> with two integer objects. Bignums are
  computed by the GMP library, a parameter \<open>g\<close> here: the record \<open>gmp\<close> has the functions the
  code calls, on the integers its numbers stand for. The bignum registers of a thread are scratch
  space whose contents are copied into the result.

  Words are integers here: the operands are fixnums of 62 bits, so that no operation on a 64-bit word in
  this code wraps around. Making a fixnum does (\<open>make_fixnum\<close>): the two upper bits of the
  word are shifted out. A division by 0 that the code does not catch is \<open>MachineDivision\<close>.
\<close>

section \<open>Data\<close>

datatype zint = Fix int | Big int

datatype rnum = Z zint | Q zint zint

datatype num_error = DivisionByZero | MachineDivision | NotAnInteger | InsufficientMemory | InvalidOperator | NotABignum | NegativeIndex | NotAWord

record gmp =
  mpz_add :: "int \<Rightarrow> int \<Rightarrow> int"
  mpz_add_ui :: "int \<Rightarrow> int \<Rightarrow> int"
  mpz_sub :: "int \<Rightarrow> int \<Rightarrow> int"
  mpz_sub_ui :: "int \<Rightarrow> int \<Rightarrow> int"
  mpz_mul :: "int \<Rightarrow> int \<Rightarrow> int"
  mpz_mul_si :: "int \<Rightarrow> int \<Rightarrow> int"
  mpz_neg :: "int \<Rightarrow> int"
  mpz_gcd :: "int \<Rightarrow> int \<Rightarrow> int"
  mpz_tdiv_q :: "int \<Rightarrow> int \<Rightarrow> int"
  mpz_tdiv_q_ui :: "int \<Rightarrow> int \<Rightarrow> int"
  mpz_fdiv_qr :: "int \<Rightarrow> int \<Rightarrow> int \<times> int"
  mpz_cdiv_qr :: "int \<Rightarrow> int \<Rightarrow> int \<times> int"
  mpz_cmp :: "int \<Rightarrow> int \<Rightarrow> int"
  mpz_cmp_si :: "int \<Rightarrow> int \<Rightarrow> int"
  mpz_sgn :: "int \<Rightarrow> int"
  mpz_odd_p :: "int \<Rightarrow> bool"
  mpz_and :: "int \<Rightarrow> int \<Rightarrow> int"
  mpz_ior :: "int \<Rightarrow> int \<Rightarrow> int"
  mpz_xor :: "int \<Rightarrow> int \<Rightarrow> int"
  mpz_com :: "int \<Rightarrow> int"
  mpz_mul_2exp :: "int \<Rightarrow> nat \<Rightarrow> int"
  mpz_fdiv_q_2exp :: "int \<Rightarrow> nat \<Rightarrow> int"
  mpz_tstbit :: "int \<Rightarrow> nat \<Rightarrow> bool"
  mpz_popcount :: "int \<Rightarrow> nat"
  mpz_sizeinbase2 :: "int \<Rightarrow> nat"
  mpz_mul_ui :: "int \<Rightarrow> int \<Rightarrow> int"
  mpz_sizeinbase :: "int \<Rightarrow> nat \<Rightarrow> nat"

fun ival :: "zint \<Rightarrow> int" where
  "ival (Fix n) = n"
| "ival (Big n) = n"

definition make_fixnum :: "int \<Rightarrow> zint" where
  "make_fixnum n = Fix (signed_take_bit 61 n)"

definition mkcl_make_integer :: "int \<Rightarrow> zint" where
  "mkcl_make_integer l = (if MOST_NEGATIVE_FIXNUM \<le> l \<and> l \<le> MOST_POSITIVE_FIXNUM then make_fixnum l else Big l)"

text \<open>A number of one limb is compared with the limits of fixnums.\<close>

definition mkcl_big_register_normalize :: "int \<Rightarrow> zint" where
  "mkcl_big_register_normalize n =
     (if n = 0 then make_fixnum 0
      else if 0 < n \<and> n < 2 ^ 64 \<and> n \<le> MOST_POSITIVE_FIXNUM then make_fixnum n
      else if n < 0 \<and> - n < 2 ^ 64 \<and> - n \<le> - MOST_NEGATIVE_FIXNUM then make_fixnum n
      else Big n)"

section \<open>Integers\<close>

definition mkcl_word_times :: "gmp \<Rightarrow> int \<Rightarrow> int \<Rightarrow> zint" where
  "mkcl_word_times g i j = mkcl_big_register_normalize (mpz_mul_si g i j)"

definition mkcl_big_times_fix :: "gmp \<Rightarrow> int \<Rightarrow> int \<Rightarrow> zint" where
  "mkcl_big_times_fix g b i =
     (if i = 1 then Big b
      else mkcl_big_register_normalize (if i = - 1 then mpz_neg g b else mpz_mul_si g b i))"

fun times_int :: "gmp \<Rightarrow> zint \<Rightarrow> zint \<Rightarrow> zint" where
  "times_int g (Fix i) (Fix j) = mkcl_word_times g i j"
| "times_int g (Fix i) (Big b) = mkcl_big_times_fix g b i"
| "times_int g (Big a) (Fix j) = mkcl_big_times_fix g a j"
| "times_int g (Big a) (Big b) = mkcl_big_register_normalize (mpz_mul g a b)"

fun plus_int :: "gmp \<Rightarrow> zint \<Rightarrow> zint \<Rightarrow> zint" where
  "plus_int g (Fix i) (Fix j) = mkcl_make_integer (i + j)"
| "plus_int g (Fix i) (Big b) =
     (if i = 0 then Big b
      else mkcl_big_register_normalize (if i > 0 then mpz_add_ui g b i else mpz_sub_ui g b (- i)))"
| "plus_int g (Big a) (Fix j) =
     (if j = 0 then Big a
      else mkcl_big_register_normalize (if j > 0 then mpz_add_ui g a j else mpz_sub_ui g a (- j)))"
| "plus_int g (Big a) (Big b) = mkcl_big_register_normalize (mpz_add g a b)"

fun minus_int :: "gmp \<Rightarrow> zint \<Rightarrow> zint \<Rightarrow> zint" where
  "minus_int g (Fix i) (Fix j) = mkcl_make_integer (i - j)"
| "minus_int g (Fix i) (Big b) =
     mkcl_big_register_normalize (mpz_neg g (if i > 0 then mpz_sub_ui g b i else mpz_add_ui g b (- i)))"
| "minus_int g (Big a) (Fix j) =
     (if j = 0 then Big a
      else mkcl_big_register_normalize (if j > 0 then mpz_sub_ui g a j else mpz_add_ui g a (- j)))"
| "minus_int g (Big a) (Big b) = mkcl_big_register_normalize (mpz_sub g a b)"

fun negate_int :: "gmp \<Rightarrow> zint \<Rightarrow> zint" where
  "negate_int g (Fix i) = mkcl_make_integer (- i)"
| "negate_int g (Big b) = mkcl_big_register_normalize (mpz_neg g b)"

fun minusp_int :: "gmp \<Rightarrow> zint \<Rightarrow> bool" where
  "minusp_int g (Fix i) \<longleftrightarrow> i < 0"
| "minusp_int g (Big b) \<longleftrightarrow> mpz_sgn g b < 0"

fun plusp_int :: "gmp \<Rightarrow> zint \<Rightarrow> bool" where
  "plusp_int g (Fix i) \<longleftrightarrow> i > 0"
| "plusp_int g (Big b) \<longleftrightarrow> mpz_sgn g b > 0"

fun mkcl_oddp :: "gmp \<Rightarrow> zint \<Rightarrow> bool" where
  "mkcl_oddp g (Fix i) \<longleftrightarrow> i AND 1 \<noteq> 0"
| "mkcl_oddp g (Big b) \<longleftrightarrow> mpz_odd_p g b"

fun mkcl_evenp :: "gmp \<Rightarrow> zint \<Rightarrow> bool" where
  "mkcl_evenp g (Fix i) \<longleftrightarrow> NOT i AND 1 \<noteq> 0"
| "mkcl_evenp g (Big b) \<longleftrightarrow> \<not> mpz_odd_p g b"

definition mkcl_gcd :: "gmp \<Rightarrow> zint \<Rightarrow> zint \<Rightarrow> zint" where
  "mkcl_gcd g x y = mkcl_big_register_normalize (mpz_gcd g (ival x) (ival y))"

text \<open>Division that truncates.\<close>

fun mkcl_integer_divide :: "gmp \<Rightarrow> zint \<Rightarrow> zint \<Rightarrow> num_error + zint" where
  "mkcl_integer_divide g (Fix i) (Fix j) =
     (if j = 0 then Inl DivisionByZero else Inr (make_fixnum (i sdiv j)))"
| "mkcl_integer_divide g (Fix i) (Big b) =
     (if - MOST_NEGATIVE_FIXNUM > MOST_POSITIVE_FIXNUM
      then Inr (make_fixnum (if mpz_cmp_si g b (- i) \<noteq> 0 then 0 else - 1)) else Inr (make_fixnum 0))"
| "mkcl_integer_divide g (Big a) (Big b) = Inr (mkcl_big_register_normalize (mpz_tdiv_q g a b))"
| "mkcl_integer_divide g (Big a) (Fix j) =
     (if j = 0 then Inl MachineDivision
      else let q = mpz_tdiv_q_ui g a \<bar>j\<bar>
           in Inr (mkcl_big_register_normalize (if j < 0 then mpz_neg g q else q)))"

section \<open>Rational numbers\<close>

definition reduce_ratio :: "gmp \<Rightarrow> zint \<Rightarrow> zint \<Rightarrow> num_error + rnum" where
  "reduce_ratio g num den =
     (let d = mkcl_gcd g num den
      in and_then
           (if d \<noteq> make_fixnum 1
            then and_then (mkcl_integer_divide g num d) (\<lambda>num'. and_then (mkcl_integer_divide g den d) (\<lambda>den'. Inr (num', den')))
            else Inr (num, den))
           (\<lambda>(num, den).
             if den = make_fixnum 1 then Inr (Z num)
             else if den = make_fixnum (- 1) then Inr (Z (negate_int g num))
             else Inr (Q num den)))"

definition mkcl_make_ratio :: "gmp \<Rightarrow> zint \<Rightarrow> zint \<Rightarrow> num_error + rnum" where
  "mkcl_make_ratio g num den =
     (if den = make_fixnum 0 then Inl DivisionByZero
      else if num = make_fixnum 0 \<or> den = make_fixnum 1 then Inr (Z num)
      else if minusp_int g den then reduce_ratio g (negate_int g num) (negate_int g den)
      else reduce_ratio g num den)"

fun mkcl_times :: "gmp \<Rightarrow> rnum \<Rightarrow> rnum \<Rightarrow> num_error + rnum" where
  "mkcl_times g (Z x) (Z y) = Inr (Z (times_int g x y))"
| "mkcl_times g (Z x) (Q n d) = mkcl_make_ratio g (times_int g x n) d"
| "mkcl_times g (Q n d) (Z y) = mkcl_make_ratio g (times_int g n y) d"
| "mkcl_times g (Q n d) (Q n' d') = mkcl_make_ratio g (times_int g n n') (times_int g d d')"

fun mkcl_plus :: "gmp \<Rightarrow> rnum \<Rightarrow> rnum \<Rightarrow> num_error + rnum" where
  "mkcl_plus g (Z x) (Z y) = Inr (Z (plus_int g x y))"
| "mkcl_plus g (Z x) (Q n d) = mkcl_make_ratio g (plus_int g (times_int g x d) n) d"
| "mkcl_plus g (Q n d) (Z y) = mkcl_make_ratio g (plus_int g n (times_int g d y)) d"
| "mkcl_plus g (Q n d) (Q n' d') =
     mkcl_make_ratio g (plus_int g (times_int g n d') (times_int g d n')) (times_int g d d')"

fun mkcl_minus :: "gmp \<Rightarrow> rnum \<Rightarrow> rnum \<Rightarrow> num_error + rnum" where
  "mkcl_minus g (Z x) (Z y) = Inr (Z (minus_int g x y))"
| "mkcl_minus g (Z x) (Q n d) = mkcl_make_ratio g (minus_int g (times_int g x d) n) d"
| "mkcl_minus g (Q n d) (Z y) = mkcl_make_ratio g (minus_int g n (times_int g d y)) d"
| "mkcl_minus g (Q n d) (Q n' d') =
     mkcl_make_ratio g (minus_int g (times_int g n d') (times_int g d n')) (times_int g d d')"

fun mkcl_negate :: "gmp \<Rightarrow> rnum \<Rightarrow> rnum" where
  "mkcl_negate g (Z x) = Z (negate_int g x)"
| "mkcl_negate g (Q n d) = Q (negate_int g n) d"

fun mkcl_divide :: "gmp \<Rightarrow> rnum \<Rightarrow> rnum \<Rightarrow> num_error + rnum" where
  "mkcl_divide g (Z x) (Z y) =
     (if minusp_int g y then mkcl_make_ratio g (negate_int g x) (negate_int g y) else mkcl_make_ratio g x y)"
| "mkcl_divide g (Z x) (Q n d) = mkcl_make_ratio g (times_int g x d) n"
| "mkcl_divide g (Q n d) (Z y) = mkcl_make_ratio g n (times_int g d y)"
| "mkcl_divide g (Q n d) (Q n' d') = mkcl_make_ratio g (times_int g n d') (times_int g d n')"

text \<open>Adding one to a fixnum adds to its word.\<close>

fun mkcl_one_plus :: "gmp \<Rightarrow> rnum \<Rightarrow> num_error + rnum" where
  "mkcl_one_plus g (Z (Fix i)) =
     Inr (Z (if i = MOST_POSITIVE_FIXNUM then mkcl_make_integer (MOST_POSITIVE_FIXNUM + 1) else make_fixnum (i + 1)))"
| "mkcl_one_plus g (Z (Big b)) = mkcl_plus g (Z (Big b)) (Z (make_fixnum 1))"
| "mkcl_one_plus g (Q n d) = mkcl_make_ratio g (plus_int g n d) d"

fun mkcl_one_minus :: "gmp \<Rightarrow> rnum \<Rightarrow> num_error + rnum" where
  "mkcl_one_minus g (Z (Fix i)) =
     Inr (Z (if i = MOST_NEGATIVE_FIXNUM then mkcl_make_integer (MOST_NEGATIVE_FIXNUM - 1) else make_fixnum (i - 1)))"
| "mkcl_one_minus g (Z (Big b)) = mkcl_minus g (Z (Big b)) (Z (make_fixnum 1))"
| "mkcl_one_minus g (Q n d) = mkcl_make_ratio g (minus_int g n d) d"

fun mkcl_zerop :: "rnum \<Rightarrow> bool" where
  "mkcl_zerop (Z x) \<longleftrightarrow> x = make_fixnum 0"
| "mkcl_zerop (Q n d) \<longleftrightarrow> False"

fun mkcl_plusp :: "gmp \<Rightarrow> rnum \<Rightarrow> bool" where
  "mkcl_plusp g (Z x) \<longleftrightarrow> plusp_int g x"
| "mkcl_plusp g (Q n d) \<longleftrightarrow> plusp_int g n"

fun mkcl_minusp :: "gmp \<Rightarrow> rnum \<Rightarrow> bool" where
  "mkcl_minusp g (Z x) \<longleftrightarrow> minusp_int g x"
| "mkcl_minusp g (Q n d) \<longleftrightarrow> minusp_int g n"

definition mkcl_abs :: "gmp \<Rightarrow> rnum \<Rightarrow> rnum" where
  "mkcl_abs g x = (if mkcl_minusp g x then mkcl_negate g x else x)"

text \<open>Sums, products, differences and quotients of several numbers; \<open>gcd\<close> and \<open>lcm\<close>.\<close>

fun fold_numbers :: "(rnum \<Rightarrow> rnum \<Rightarrow> num_error + rnum) \<Rightarrow> rnum \<Rightarrow> rnum list \<Rightarrow> num_error + rnum" where
  "fold_numbers f x [] = Inr x"
| "fold_numbers f x (y # ys) = and_then (f x y) (\<lambda>z. fold_numbers f z ys)"

definition mk_cl_P :: "gmp \<Rightarrow> rnum list \<Rightarrow> num_error + rnum" where
  "mk_cl_P g nums = fold_numbers (mkcl_plus g) (Z (make_fixnum 0)) nums"

definition mk_cl_X :: "gmp \<Rightarrow> rnum list \<Rightarrow> num_error + rnum" where
  "mk_cl_X g nums = fold_numbers (mkcl_times g) (Z (make_fixnum 1)) nums"

definition mk_cl_M :: "gmp \<Rightarrow> rnum \<Rightarrow> rnum list \<Rightarrow> num_error + rnum" where
  "mk_cl_M g num nums = (if nums = [] then Inr (mkcl_negate g num) else fold_numbers (mkcl_minus g) num nums)"

definition mk_cl_N :: "gmp \<Rightarrow> rnum \<Rightarrow> rnum list \<Rightarrow> num_error + rnum" where
  "mk_cl_N g num nums = (if nums = [] then mkcl_divide g (Z (make_fixnum 1)) num else fold_numbers (mkcl_divide g) num nums)"

definition mk_cl_gcd :: "gmp \<Rightarrow> zint list \<Rightarrow> zint" where
  "mk_cl_gcd g nums =
     (case nums of
        [] \<Rightarrow> make_fixnum 0
      | [n] \<Rightarrow> if minusp_int g n then negate_int g n else n
      | n # ns \<Rightarrow> foldl (mkcl_gcd g) n ns)"

fun lcm_loop :: "gmp \<Rightarrow> rnum \<Rightarrow> zint list \<Rightarrow> num_error + rnum" where
  "lcm_loop g l [] = Inr l"
| "lcm_loop g (Q n d) (numi # nums) = Inl NotAnInteger"
| "lcm_loop g (Z l) (numi # nums) =
     (let t = times_int g l numi; d = mkcl_gcd g numi l
      in if d \<noteq> make_fixnum 0 then and_then (mkcl_divide g (Z t) (Z d)) (\<lambda>l'. lcm_loop g l' nums)
         else lcm_loop g (Z l) nums)"

definition mk_cl_lcm :: "gmp \<Rightarrow> zint list \<Rightarrow> num_error + rnum" where
  "mk_cl_lcm g nums =
     (case nums of
        [] \<Rightarrow> Inr (Z (make_fixnum 1))
      | n # ns \<Rightarrow> and_then (lcm_loop g (Z n) ns) (\<lambda>l. Inr (mkcl_abs g l)))"

section \<open>Comparison\<close>

fun compare_int :: "gmp \<Rightarrow> zint \<Rightarrow> zint \<Rightarrow> int" where
  "compare_int g (Fix i) (Fix j) = (if i < j then - 1 else if i \<noteq> j then 1 else 0)"
| "compare_int g (Fix i) (Big b) = (if mpz_sgn g b < 0 then 1 else - 1)"
| "compare_int g (Big a) (Fix j) = (if mpz_sgn g a < 0 then - 1 else 1)"
| "compare_int g (Big a) (Big b) = mpz_cmp g a b"

fun mkcl_number_compare :: "gmp \<Rightarrow> rnum \<Rightarrow> rnum \<Rightarrow> int" where
  "mkcl_number_compare g (Z x) (Z y) = compare_int g x y"
| "mkcl_number_compare g (Z x) (Q n d) = compare_int g (times_int g x d) n"
| "mkcl_number_compare g (Q n d) (Z y) = compare_int g n (times_int g y d)"
| "mkcl_number_compare g (Q n d) (Q n' d') = compare_int g (times_int g n d') (times_int g n' d)"

fun equalp_int :: "gmp \<Rightarrow> zint \<Rightarrow> zint \<Rightarrow> bool" where
  "equalp_int g (Fix i) (Fix j) \<longleftrightarrow> i = j"
| "equalp_int g (Big a) (Big b) \<longleftrightarrow> mpz_cmp g a b = 0"
| "equalp_int g _ _ \<longleftrightarrow> False"

fun mkcl_number_equalp :: "gmp \<Rightarrow> rnum \<Rightarrow> rnum \<Rightarrow> bool" where
  "mkcl_number_equalp g (Z x) (Z y) \<longleftrightarrow> equalp_int g x y"
| "mkcl_number_equalp g (Q n d) (Q n' d') \<longleftrightarrow> equalp_int g n n' \<and> equalp_int g d d'"
| "mkcl_number_equalp g _ _ \<longleftrightarrow> False"

definition mk_cl_E :: "gmp \<Rightarrow> rnum \<Rightarrow> rnum list \<Rightarrow> bool" where
  "mk_cl_E g num nums \<longleftrightarrow> list_all (mkcl_number_equalp g num) nums"

text \<open>Each number is compared with all numbers before it.\<close>

fun ne_loop :: "gmp \<Rightarrow> rnum list \<Rightarrow> rnum list \<Rightarrow> bool" where
  "ne_loop g numb [] \<longleftrightarrow> True"
| "ne_loop g numb (numi # nums) \<longleftrightarrow>
     (if list_ex (mkcl_number_equalp g numi) numb then False else ne_loop g (numb @ [numi]) nums)"

definition mk_cl_NE :: "gmp \<Rightarrow> rnum \<Rightarrow> rnum list \<Rightarrow> bool" where
  "mk_cl_NE g num nums = ne_loop g [num] nums"

text \<open>\<open><=\<close>, \<open>>=\<close>, \<open><\<close> and \<open>>\<close> are \<open>monotonic\<close> with \<open>(s, t)\<close> \<open>(1, 0)\<close>, \<open>(-1, 0)\<close>, \<open>(1, 1)\<close> and \<open>(-1, 1)\<close>.\<close>

fun monotonic :: "gmp \<Rightarrow> int \<Rightarrow> int \<Rightarrow> rnum \<Rightarrow> rnum list \<Rightarrow> bool" where
  "monotonic g s t c [] \<longleftrightarrow> True"
| "monotonic g s t c (d # ds) \<longleftrightarrow> (if s * mkcl_number_compare g d c < t then False else monotonic g s t d ds)"

fun mk_cl_max :: "gmp \<Rightarrow> rnum \<Rightarrow> rnum list \<Rightarrow> rnum" where
  "mk_cl_max g m [] = m"
| "mk_cl_max g m (n # ns) = mk_cl_max g (if mkcl_number_compare g m n < 0 then n else m) ns"

fun mk_cl_min :: "gmp \<Rightarrow> rnum \<Rightarrow> rnum list \<Rightarrow> rnum" where
  "mk_cl_min g m [] = m"
| "mk_cl_min g m (n # ns) = mk_cl_min g (if mkcl_number_compare g m n > 0 then n else m) ns"

section \<open>Rounding\<close>

text \<open>Quotient and remainder of integers: fixnums by the machine, with the quotient moved down or up.\<close>

fun floor_int :: "gmp \<Rightarrow> zint \<Rightarrow> zint \<Rightarrow> num_error + (zint \<times> zint)" where
  "floor_int g (Fix a) (Fix b) =
     (if b = 0 then Inl MachineDivision
      else let q = a sdiv b; r = a smod b
           in if (r XOR b) < 0 \<and> r \<noteq> 0 then Inr (make_fixnum (q - 1), make_fixnum (r + b))
              else Inr (make_fixnum q, make_fixnum r))"
| "floor_int g x y =
     (if ival y = 0 then Inl MachineDivision
      else let (q, r) = mpz_fdiv_qr g (ival x) (ival y)
           in Inr (mkcl_big_register_normalize q, mkcl_big_register_normalize r))"

fun ceiling_int :: "gmp \<Rightarrow> zint \<Rightarrow> zint \<Rightarrow> num_error + (zint \<times> zint)" where
  "ceiling_int g (Fix a) (Fix b) =
     (if b = 0 then Inl MachineDivision
      else let q = a sdiv b; r = a smod b
           in if (r XOR b) > 0 \<and> r \<noteq> 0 then Inr (make_fixnum (q + 1), make_fixnum (r - b))
              else Inr (make_fixnum q, make_fixnum r))"
| "ceiling_int g x y =
     (if ival y = 0 then Inl MachineDivision
      else let (q, r) = mpz_cdiv_qr g (ival x) (ival y)
           in Inr (mkcl_big_register_normalize q, mkcl_big_register_normalize r))"

text \<open>\<open>mkcl_floor2\<close> and \<open>mkcl_ceiling2\<close> treat ratios in the same way.\<close>

type_synonym int_division = "zint \<Rightarrow> zint \<Rightarrow> num_error + (zint \<times> zint)"

fun divide_by :: "gmp \<Rightarrow> int_division \<Rightarrow> rnum \<Rightarrow> rnum \<Rightarrow> num_error + (zint \<times> rnum)" where
  "divide_by g f (Z x) (Z y) = and_then (f x y) (\<lambda>(q, r). Inr (q, Z r))"
| "divide_by g f (Z x) (Q n d) =
     and_then (f (times_int g x d) n) (\<lambda>(q, r). and_then (mkcl_make_ratio g r d) (\<lambda>r'. Inr (q, r')))"
| "divide_by g f (Q n d) (Q n' d') =
     and_then (f (times_int g n d') (times_int g d n')) (\<lambda>(q, r).
       and_then (mkcl_make_ratio g r (times_int g d d')) (\<lambda>r'. Inr (q, r')))"
| "divide_by g f (Q n d) (Z y) =
     and_then (f n (times_int g d y)) (\<lambda>(q, r). and_then (mkcl_divide g (Z r) (Z d)) (\<lambda>r'. Inr (q, r')))"

definition mkcl_floor2 :: "gmp \<Rightarrow> rnum \<Rightarrow> rnum \<Rightarrow> num_error + (zint \<times> rnum)" where
  "mkcl_floor2 g = divide_by g (floor_int g)"

definition mkcl_ceiling2 :: "gmp \<Rightarrow> rnum \<Rightarrow> rnum \<Rightarrow> num_error + (zint \<times> rnum)" where
  "mkcl_ceiling2 g = divide_by g (ceiling_int g)"

definition mkcl_truncate2 :: "gmp \<Rightarrow> rnum \<Rightarrow> rnum \<Rightarrow> num_error + (zint \<times> rnum)" where
  "mkcl_truncate2 g x y = (if mkcl_plusp g x \<noteq> mkcl_plusp g y then mkcl_ceiling2 g x y else mkcl_floor2 g x y)"

definition number_remainder :: "gmp \<Rightarrow> rnum \<Rightarrow> rnum \<Rightarrow> zint \<Rightarrow> num_error + rnum" where
  "number_remainder g x y q = and_then (mkcl_times g (Z q) y) (mkcl_minus g x)"

text \<open>To the nearest integer, and to the even one of two.\<close>

definition round_up :: "gmp \<Rightarrow> zint \<Rightarrow> int \<Rightarrow> bool" where
  "round_up g q1 c \<longleftrightarrow> c > 0 \<or> (c = 0 \<and> mkcl_oddp g q1)"

definition round_ratio :: "gmp \<Rightarrow> zint \<Rightarrow> zint \<Rightarrow> num_error + zint" where
  "round_ratio g n d =
     and_then (mkcl_integer_divide g n d) (\<lambda>q1.
     and_then (mkcl_minus g (Q n d) (Z q1)) (\<lambda>r.
     and_then
       (if mkcl_minusp g r then
          (if round_up g q1 (mkcl_number_compare g (Q (Fix (- 1)) (Fix 2)) r) then mkcl_one_minus g (Z q1) else Inr (Z q1))
        else
          (if round_up g q1 (mkcl_number_compare g r (Q (Fix 1) (Fix 2))) then mkcl_one_plus g (Z q1) else Inr (Z q1)))
       (\<lambda>q. case q of Z z \<Rightarrow> Inr z | Q _ _ \<Rightarrow> Inl NotAnInteger)))"

definition mkcl_round2 :: "gmp \<Rightarrow> rnum \<Rightarrow> rnum \<Rightarrow> num_error + (zint \<times> rnum)" where
  "mkcl_round2 g x y =
     and_then (mkcl_divide g x y) (\<lambda>q.
       case q of
         Z z \<Rightarrow> Inr (z, Z (make_fixnum 0))
       | Q n d \<Rightarrow> and_then (round_ratio g n d) (\<lambda>q1. and_then (number_remainder g x y q1) (\<lambda>r. Inr (q1, r))))"

text \<open>With one argument.\<close>

fun round_one :: "gmp \<Rightarrow> (rnum \<Rightarrow> rnum \<Rightarrow> num_error + (zint \<times> rnum)) \<Rightarrow> rnum \<Rightarrow> num_error + (zint \<times> rnum)" where
  "round_one g f (Z x) = Inr (x, Z (make_fixnum 0))"
| "round_one g f (Q n d) =
     and_then (f (Z n) (Z d)) (\<lambda>(q, r).
       case r of Z z \<Rightarrow> and_then (mkcl_make_ratio g z d) (\<lambda>r'. Inr (q, r')) | Q _ _ \<Rightarrow> Inl NotAnInteger)"

definition mkcl_floor1 :: "gmp \<Rightarrow> rnum \<Rightarrow> num_error + (zint \<times> rnum)" where
  "mkcl_floor1 g = round_one g (mkcl_floor2 g)"

definition mkcl_ceiling1 :: "gmp \<Rightarrow> rnum \<Rightarrow> num_error + (zint \<times> rnum)" where
  "mkcl_ceiling1 g = round_one g (mkcl_ceiling2 g)"

definition mkcl_truncate1 :: "gmp \<Rightarrow> rnum \<Rightarrow> num_error + (zint \<times> rnum)" where
  "mkcl_truncate1 g = round_one g (mkcl_truncate2 g)"

definition mkcl_round1 :: "gmp \<Rightarrow> rnum \<Rightarrow> num_error + (zint \<times> rnum)" where
  "mkcl_round1 g = round_one g (mkcl_round2 g)"

definition mk_cl_mod :: "gmp \<Rightarrow> rnum \<Rightarrow> rnum \<Rightarrow> num_error + rnum" where
  "mk_cl_mod g x y = and_then (mkcl_floor2 g x y) (\<lambda>(q, r). Inr r)"

definition mk_cl_rem :: "gmp \<Rightarrow> rnum \<Rightarrow> rnum \<Rightarrow> num_error + rnum" where
  "mk_cl_rem g x y = and_then (mkcl_truncate2 g x y) (\<lambda>(q, r). Inr r)"

fun mk_cl_numerator :: "rnum \<Rightarrow> zint" where
  "mk_cl_numerator (Q n d) = n"
| "mk_cl_numerator (Z x) = x"

fun mk_cl_denominator :: "rnum \<Rightarrow> zint" where
  "mk_cl_denominator (Q n d) = d"
| "mk_cl_denominator (Z x) = make_fixnum 1"

section \<open>Powers\<close>

text \<open>
  The loop halves the exponent until it is 0. The count \<open>n\<close> bounds the rounds: \<open>None\<close> means that it was
  not enough, which for an exponent below \<open>2 ^ n\<close> does not happen.
\<close>

fun expt_loop :: "gmp \<Rightarrow> nat \<Rightarrow> rnum \<Rightarrow> rnum \<Rightarrow> zint \<Rightarrow> (num_error + rnum) option" where
  "expt_loop g 0 z x y = None"
| "expt_loop g (Suc n) z x y =
     (case (if \<not> mkcl_evenp g y then mkcl_times g z x else Inr z) of
        Inl e \<Rightarrow> Some (Inl e)
      | Inr z' \<Rightarrow>
          (case mkcl_integer_divide g y (make_fixnum 2) of
             Inl e \<Rightarrow> Some (Inl e)
           | Inr y' \<Rightarrow>
               if y' = make_fixnum 0 then Some (Inr z')
               else (case mkcl_times g x x of Inl e \<Rightarrow> Some (Inl e) | Inr x' \<Rightarrow> expt_loop g n z' x' y')))"

definition expt_positive :: "gmp \<Rightarrow> nat \<Rightarrow> rnum \<Rightarrow> zint \<Rightarrow> (num_error + rnum) option" where
  "expt_positive g n x y =
     (if y = make_fixnum 0 then Some (Inr (Z (make_fixnum 1)))
      else if mkcl_zerop x then Some (mkcl_times g x (Z y))
      else expt_loop g n (Z (make_fixnum 1)) x y)"

definition mk_cl_expt :: "gmp \<Rightarrow> nat \<Rightarrow> rnum \<Rightarrow> zint \<Rightarrow> (num_error + rnum) option" where
  "mk_cl_expt g n x y =
     (if y = make_fixnum 0 then Some (Inr (Z (make_fixnum 1)))
      else if mkcl_zerop x then
        Some (and_then (mkcl_times g x (Z y)) (\<lambda>z. if plusp_int g y then Inr z else mkcl_divide g (Z (make_fixnum 1)) z))
      else if minusp_int g y then
        map_option (\<lambda>r. and_then r (mkcl_divide g (Z (make_fixnum 1)))) (expt_positive g n x (negate_int g y))
      else expt_loop g n (Z (make_fixnum 1)) x y)"

text \<open>The power of words, in the arithmetic of words.\<close>

function mkcl_word_expt_loop :: "mkcl_word \<Rightarrow> mkcl_word \<Rightarrow> nat \<Rightarrow> mkcl_word" where
  "mkcl_word_expt_loop z x y =
     (if y = 0 then z
      else if even y then mkcl_word_expt_loop z (x * x) (y div 2)
      else mkcl_word_expt_loop (z * x) x (y - 1))"
  by pat_completeness auto

termination
  by (relation "measure (\<lambda>(z, x, y). y)") auto

declare mkcl_word_expt_loop.simps [simp del]

definition mkcl_word_expt :: "mkcl_word \<Rightarrow> int \<Rightarrow> mkcl_word" where
  "mkcl_word_expt x y = mkcl_word_expt_loop 1 x (nat y)"

end
