(* ===== verification/Characters.thy ===== *)
theory Characters
  imports Numbers
begin

text \<open>
  Characters (\<^verbatim>\<open>src/src/c/character.c\<close> and the inline functions of \<^verbatim>\<open>mkcl/external.h\<close>). A character
  is its code. The tables of \<^verbatim>\<open>unicode.c\<close>, a file that is generated from the Unicode character
  database, are a parameter \<open>u\<close>; \<open>page\<close>, \<open>info\<close> and \<open>signatures\<close> are the three tables.
\<close>

section \<open>The tables\<close>

record ucd =
  page :: "nat \<Rightarrow> nat"
  info :: "nat \<Rightarrow> nat \<Rightarrow> nat \<times> nat"
  category :: "nat \<Rightarrow> nat"
  digit_value :: "nat \<Rightarrow> nat"

definition MKCL_CHAR_CODE_LIMIT :: nat where
  "MKCL_CHAR_CODE_LIMIT = 1114112"

definition MKCL_BASE_CHAR_CODE_LIMIT :: nat where
  "MKCL_BASE_CHAR_CODE_LIMIT = 256"

definition MKCL_BASE_CHAR_CODE_P :: "nat \<Rightarrow> bool" where
  "MKCL_BASE_CHAR_CODE_P x \<longleftrightarrow> x \<le> 255"

text \<open>Index of the signature and transformed code of a character.\<close>

definition mkcl_unicode_character_information :: "ucd \<Rightarrow> nat \<Rightarrow> (nat \<times> nat) option" where
  "mkcl_unicode_character_information u code =
     (if code \<ge> MKCL_CHAR_CODE_LIMIT then None else Some (info u (page u (code div 256)) (code mod 256)))"

definition mkcl_unicode_character_general_category :: "ucd \<Rightarrow> nat \<Rightarrow> int" where
  "mkcl_unicode_character_general_category u code =
     (case mkcl_unicode_character_information u code of Some (i, _) \<Rightarrow> int (category u i) | None \<Rightarrow> - 1)"

definition mkcl_ucd_decimal_digit :: "ucd \<Rightarrow> nat \<Rightarrow> int" where
  "mkcl_ucd_decimal_digit u code =
     (case mkcl_unicode_character_information u code of Some (i, _) \<Rightarrow> int (digit_value u i) | None \<Rightarrow> - 1)"

text \<open>The categories of letters are 0 to 4, those of numbers 12 to 14.\<close>

definition mkcl_alpha_char_p :: "ucd \<Rightarrow> nat \<Rightarrow> bool" where
  "mkcl_alpha_char_p u code \<longleftrightarrow> (let gc = mkcl_unicode_character_general_category u code in 0 \<le> gc \<and> gc \<le> 4)"

definition mkcl_alphanumericp :: "ucd \<Rightarrow> nat \<Rightarrow> bool" where
  "mkcl_alphanumericp u code \<longleftrightarrow>
     (let gc = mkcl_unicode_character_general_category u code in (0 \<le> gc \<and> gc \<le> 4) \<or> (12 \<le> gc \<and> gc \<le> 14))"

definition mkcl_upper_case_p :: "ucd \<Rightarrow> nat \<Rightarrow> bool" where
  "mkcl_upper_case_p u code \<longleftrightarrow> (case mkcl_unicode_character_information u code of Some (i, _) \<Rightarrow> i = 0 | None \<Rightarrow> False)"

definition mkcl_lower_case_p :: "ucd \<Rightarrow> nat \<Rightarrow> bool" where
  "mkcl_lower_case_p u code \<longleftrightarrow> (case mkcl_unicode_character_information u code of Some (i, _) \<Rightarrow> i = 1 | None \<Rightarrow> False)"

definition mkcl_both_case_p :: "ucd \<Rightarrow> nat \<Rightarrow> bool" where
  "mkcl_both_case_p u code \<longleftrightarrow> (case mkcl_unicode_character_information u code of Some (i, _) \<Rightarrow> i < 2 | None \<Rightarrow> False)"

definition mkcl_char_upcase :: "ucd \<Rightarrow> nat \<Rightarrow> nat" where
  "mkcl_char_upcase u code =
     (case mkcl_unicode_character_information u code of Some (i, t) \<Rightarrow> if i = 1 then t else code | None \<Rightarrow> code)"

definition mkcl_char_downcase :: "ucd \<Rightarrow> nat \<Rightarrow> nat" where
  "mkcl_char_downcase u code =
     (case mkcl_unicode_character_information u code of Some (i, t) \<Rightarrow> if i = 0 then t else code | None \<Rightarrow> code)"

definition mkcl_graphic_char_p :: "nat \<Rightarrow> bool" where
  "mkcl_graphic_char_p code \<longleftrightarrow> code > 159 \<or> (31 < code \<and> code < 127)"

definition mkcl_standard_char_p :: "nat \<Rightarrow> bool" where
  "mkcl_standard_char_p code \<longleftrightarrow> (32 \<le> code \<and> code < 127) \<or> code = 10"

section \<open>Digits\<close>

datatype text_error =
    RadixOutOfRange | IllegalIndex | BadRange | NotABaseChar | NotABaseString | NotACharacter | StringOverrun
  | CannotParse | SyntaxError | IllegalBase | PowersExhausted | Arithmetic num_error

definition mkcl_digitp :: "ucd \<Rightarrow> nat \<Rightarrow> nat \<Rightarrow> int" where
  "mkcl_digitp u i r =
     (if 48 \<le> i \<and> i \<le> 57 \<and> i < 48 + r then int i - 48
      else if 65 \<le> i \<and> 10 < r \<and> i < 65 + (r - 10) then int i - 65 + 10
      else if 97 \<le> i \<and> 10 < r \<and> i < 97 + (r - 10) then int i - 97 + 10
      else if i > 255 \<and> mkcl_ucd_decimal_digit u i < int r then mkcl_ucd_decimal_digit u i
      else - 1)"

definition mkcl_digit_char :: "int \<Rightarrow> int \<Rightarrow> int" where
  "mkcl_digit_char w r =
     (if r < 2 \<or> r > 36 \<or> w < 0 \<or> w \<ge> r then - 1 else if w < 10 then w + 48 else w - 10 + 65)"

definition radix_in_range :: "int \<Rightarrow> text_error + int" where
  "radix_in_range r = (if fixnum_range r \<and> 2 \<le> r \<and> r \<le> 36 then Inr r else Inl RadixOutOfRange)"

definition mk_cl_digit_char_p :: "ucd \<Rightarrow> nat \<Rightarrow> int \<Rightarrow> text_error + int option" where
  "mk_cl_digit_char_p u c radix =
     and_then (radix_in_range radix) (\<lambda>basis.
       let v = mkcl_digitp u c (nat basis) in Inr (if v < 0 then None else Some v))"

definition mk_cl_digit_char :: "zint \<Rightarrow> int \<Rightarrow> text_error + nat option" where
  "mk_cl_digit_char weight radix =
     and_then (radix_in_range radix) (\<lambda>basis.
       case weight of
         Fix v \<Rightarrow> Inr (if v \<ge> 0 \<and> mkcl_digit_char v basis \<ge> 0 then Some (nat (mkcl_digit_char v basis)) else None)
       | Big _ \<Rightarrow> Inr None)"

section \<open>Comparison\<close>

definition mkcl_char_eq :: "nat \<Rightarrow> nat \<Rightarrow> bool" where
  "mkcl_char_eq x y \<longleftrightarrow> x = y"

definition mkcl_char_equal :: "ucd \<Rightarrow> nat \<Rightarrow> nat \<Rightarrow> bool" where
  "mkcl_char_equal u x y \<longleftrightarrow> mkcl_char_upcase u x = mkcl_char_upcase u y"

definition mkcl_char_cmp :: "nat \<Rightarrow> nat \<Rightarrow> int" where
  "mkcl_char_cmp x y = int x - int y"

definition mkcl_char_compare :: "ucd \<Rightarrow> nat \<Rightarrow> nat \<Rightarrow> int" where
  "mkcl_char_compare u x y =
     (let i = mkcl_char_upcase u x; j = mkcl_char_upcase u y in if i < j then - 1 else if i = j then 0 else 1)"

definition mk_cl_charE :: "nat \<Rightarrow> nat list \<Rightarrow> bool" where
  "mk_cl_charE c cs \<longleftrightarrow> list_all (mkcl_char_eq c) cs"

definition mk_cl_char_equal :: "ucd \<Rightarrow> nat \<Rightarrow> nat list \<Rightarrow> bool" where
  "mk_cl_char_equal u c cs \<longleftrightarrow> list_all (mkcl_char_equal u c) cs"

text \<open>Each character is compared with all those before it.\<close>

fun differ_loop :: "(nat \<Rightarrow> nat \<Rightarrow> bool) \<Rightarrow> nat list \<Rightarrow> nat list \<Rightarrow> bool" where
  "differ_loop eq ds [] \<longleftrightarrow> True"
| "differ_loop eq ds (c # cs) \<longleftrightarrow> (if list_ex (\<lambda>d. eq d c) ds then False else differ_loop eq (ds @ [c]) cs)"

definition mk_cl_charNE :: "nat \<Rightarrow> nat list \<Rightarrow> bool" where
  "mk_cl_charNE c cs \<longleftrightarrow> differ_loop mkcl_char_eq [c] cs"

definition mk_cl_char_not_equal :: "ucd \<Rightarrow> nat \<Rightarrow> nat list \<Rightarrow> bool" where
  "mk_cl_char_not_equal u c cs \<longleftrightarrow> differ_loop (\<lambda>d c. mkcl_char_equal u c d) [c] cs"

text \<open>\<open>char<\<close>, \<open>char>\<close>, \<open>char<=\<close> and \<open>char>=\<close> have \<open>(s, t)\<close> \<open>(1, 1)\<close>, \<open>(-1, 1)\<close>, \<open>(1, 0)\<close> and \<open>(-1, 0)\<close>.\<close>

fun char_order :: "(nat \<Rightarrow> nat \<Rightarrow> int) \<Rightarrow> int \<Rightarrow> int \<Rightarrow> nat \<Rightarrow> nat list \<Rightarrow> bool" where
  "char_order cmp s t c [] \<longleftrightarrow> True"
| "char_order cmp s t c (d # ds) \<longleftrightarrow> (if s * cmp d c < t then False else char_order cmp s t d ds)"

definition Lchar_cmp :: "int \<Rightarrow> int \<Rightarrow> nat \<Rightarrow> nat list \<Rightarrow> bool" where
  "Lchar_cmp s t c cs \<longleftrightarrow> char_order mkcl_char_cmp s t c cs"

definition Lchar_compare :: "ucd \<Rightarrow> int \<Rightarrow> int \<Rightarrow> nat \<Rightarrow> nat list \<Rightarrow> bool" where
  "Lchar_compare u s t c cs \<longleftrightarrow> char_order (mkcl_char_compare u) s t c cs"

text \<open>Surrogates and two codes that are no characters have no character.\<close>

definition mk_cl_code_char :: "zint \<Rightarrow> nat option" where
  "mk_cl_code_char c =
     (case c of
        Fix fc \<Rightarrow>
          if (0 \<le> fc \<and> fc < 0xD800) \<or> (0xDFFF < fc \<and> fc \<noteq> 0xFFFE \<and> fc \<noteq> 0xFFFF \<and> fc < int MKCL_CHAR_CODE_LIMIT)
          then Some (nat fc) else None
      | Big _ \<Rightarrow> None)"

text \<open>Tables that have the letters and digits of ASCII, for examples.\<close>

definition ascii :: ucd where
  "ascii = \<lparr>page = (\<lambda>_. 0),
     info = (\<lambda>_ c. if 65 \<le> c \<and> c \<le> 90 then (0, c + 32) else if 97 \<le> c \<and> c \<le> 122 then (1, c - 32)
                   else if 48 \<le> c \<and> c \<le> 57 then (2 + (c - 48), c) else (12, c)),
     category = (\<lambda>i. if i < 2 then i else if i < 12 then 12 else 20),
     digit_value = (\<lambda>i. if 2 \<le> i \<and> i < 12 then i - 2 else 99)\<rparr>"

end
