(* ===== verification/Strings.thy ===== *)
theory Strings
  imports Arrays Characters
begin

text \<open>
  Strings (\<^verbatim>\<open>src/src/c/string.c\<close>, without the encoded ones, and \<open>subseq\<close> of strings in \<^verbatim>\<open>sequence.c\<close>). A string has
  its memory \<open>st_self\<close>, which may be longer than the dimension \<open>st_dim\<close>, and a fill pointer. A function that
  changes a string returns it changed; two strings share no memory. An access outside the memory is the error \<open>StringOverrun\<close>.

  String designators that are no strings (symbols, single characters) are converted before; this is not
  modelled, nor are the answers to correctable errors.
\<close>

section \<open>Data\<close>

record string_object =
  st_base :: bool
  st_self :: "nat list"
  st_dim :: nat
  st_fillp :: nat

definition contents :: "string_object \<Rightarrow> nat list" where
  "contents s = take (st_fillp s) (st_self s)"

text \<open>A new simple string; the memory has a place behind the characters.\<close>

definition simple_string :: "bool \<Rightarrow> nat list \<Rightarrow> string_object" where
  "simple_string base cs = \<lparr>st_base = base, st_self = cs @ [0], st_dim = length cs, st_fillp = length cs\<rparr>"

definition mkcl_char :: "string_object \<Rightarrow> nat \<Rightarrow> text_error + nat" where
  "mkcl_char s i = (if i \<ge> st_dim s then Inl IllegalIndex else Inr (st_self s ! i))"

text \<open>What a character becomes in the memory of a string.\<close>

definition stored_char :: "string_object \<Rightarrow> nat \<Rightarrow> nat" where
  "stored_char s c = (if st_base s then c mod 256 else c)"

definition mkcl_char_set :: "string_object \<Rightarrow> nat \<Rightarrow> nat \<Rightarrow> text_error + string_object" where
  "mkcl_char_set s i c =
     (if i \<ge> st_dim s then Inl IllegalIndex else Inr (s\<lparr>st_self := (st_self s)[i := stored_char s c]\<rparr>))"

definition mk_si_char_set :: "string_object \<Rightarrow> int \<Rightarrow> nat \<Rightarrow> text_error + string_object" where
  "mk_si_char_set s i c =
     (if st_base s \<and> \<not> MKCL_BASE_CHAR_CODE_P c then Inl NotABaseChar
      else if fixnum_range i \<and> 0 \<le> i \<and> i < int (st_dim s) then Inr (s\<lparr>st_self := (st_self s)[nat i := c]\<rparr>)
      else Inl IllegalIndex)"

definition mkcl_get_string_start_end :: "string_object \<Rightarrow> int \<Rightarrow> int option \<Rightarrow> text_error + (nat \<times> nat)" where
  "mkcl_get_string_start_end s start en =
     (if \<not> fixnum_range start \<or> start < 0 then Inl BadRange
      else case en of
          None \<Rightarrow> if int (st_fillp s) < start then Inl BadRange else Inr (nat start, st_fillp s)
        | Some e \<Rightarrow>
            if \<not> fixnum_range e \<or> e < 0 then Inl BadRange
            else if e < start \<or> e > int (st_fillp s) then Inl BadRange
            else Inr (nat start, nat e))"

section \<open>Comparison\<close>

definition fold_case :: "ucd \<Rightarrow> bool \<Rightarrow> nat \<Rightarrow> nat" where
  "fold_case u case_sensitive c = (if \<not> case_sensitive then mkcl_char_upcase u c else c)"

text \<open>The result and the index where the comparison ended.\<close>

function compare_strings ::
  "ucd \<Rightarrow> bool \<Rightarrow> string_object \<Rightarrow> nat \<Rightarrow> nat \<Rightarrow> string_object \<Rightarrow> nat \<Rightarrow> nat \<Rightarrow> text_error + (int \<times> nat)" where
  "compare_strings u cs string1 s1 e1 string2 s2 e2 =
     (if s1 < e1 then
        (if s2 \<ge> e2 then Inr (1, s1)
         else and_then (mkcl_char string1 s1) (\<lambda>c1. and_then (mkcl_char string2 s2) (\<lambda>c2.
           if fold_case u cs c1 < fold_case u cs c2 then Inr (- 1, s1)
           else if fold_case u cs c1 > fold_case u cs c2 then Inr (1, s1)
           else compare_strings u cs string1 (s1 + 1) e1 string2 (s2 + 1) e2)))
      else Inr (if s2 \<ge> e2 then 0 else - 1, s1))"
  by pat_completeness auto

termination
  by (relation "measure (\<lambda>(u, cs, x, s1, e1, y, s2, e2). e1 - s1)") auto

declare compare_strings.simps [simp del]

text \<open>The same for two base strings, on pointers and lengths.\<close>

function compare_base :: "ucd \<Rightarrow> bool \<Rightarrow> nat list \<Rightarrow> nat \<Rightarrow> nat list \<Rightarrow> nat \<Rightarrow> nat \<Rightarrow> text_error + (int \<times> nat)" where
  "compare_base u cs m1 l1 m2 l2 l =
     (if l < l1 then
        (if l = l2 then Inr (1, l)
         else if l \<ge> length m1 \<or> l \<ge> length m2 then Inl StringOverrun
         else if fold_case u cs (m1 ! l) < fold_case u cs (m2 ! l) then Inr (- 1, l)
         else if fold_case u cs (m1 ! l) > fold_case u cs (m2 ! l) then Inr (1, l)
         else compare_base u cs m1 l1 m2 l2 (l + 1))
      else Inr (if l1 = l2 then 0 else - 1, l))"
  by pat_completeness auto

termination
  by (relation "measure (\<lambda>(u, cs, m1, l1, m2, l2, l). l1 - l)") auto

declare compare_base.simps [simp del]

text \<open>The output and the index, relative to the first string.\<close>

definition compare_ranges :: "ucd \<Rightarrow> bool \<Rightarrow> string_object \<Rightarrow> nat \<Rightarrow> nat \<Rightarrow> string_object \<Rightarrow> nat \<Rightarrow> nat \<Rightarrow> text_error + (int \<times> nat)" where
  "compare_ranges u cs string1 s1 e1 string2 s2 e2 =
     (if \<not> st_base string1 \<or> \<not> st_base string2 then compare_strings u cs string1 s1 e1 string2 s2 e2
      else and_then (compare_base u cs (drop s1 (st_self string1)) (e1 - s1) (drop s2 (st_self string2)) (e2 - s2) 0)
             (\<lambda>(output, m). Inr (output, m + s1)))"

definition string_compare ::
  "ucd \<Rightarrow> int \<Rightarrow> int \<Rightarrow> bool \<Rightarrow> string_object \<Rightarrow> string_object \<Rightarrow> int \<Rightarrow> int option \<Rightarrow> int \<Rightarrow> int option \<Rightarrow> text_error + nat option" where
  "string_compare u sign1 sign2 cs string1 string2 start1 end1 start2 end2 =
     and_then (mkcl_get_string_start_end string1 start1 end1) (\<lambda>(s1, e1).
     and_then (mkcl_get_string_start_end string2 start2 end2) (\<lambda>(s2, e2).
     and_then (compare_ranges u cs string1 s1 e1 string2 s2 e2) (\<lambda>(output, m).
       Inr (if output = sign1 \<or> output = sign2 then Some m else None))))"

definition mk_cl_stringL :: "ucd \<Rightarrow> string_object \<Rightarrow> string_object \<Rightarrow> int \<Rightarrow> int option \<Rightarrow> int \<Rightarrow> int option \<Rightarrow> text_error + nat option" where
  "mk_cl_stringL u = string_compare u (- 1) (- 1) True"

definition mk_cl_stringG :: "ucd \<Rightarrow> string_object \<Rightarrow> string_object \<Rightarrow> int \<Rightarrow> int option \<Rightarrow> int \<Rightarrow> int option \<Rightarrow> text_error + nat option" where
  "mk_cl_stringG u = string_compare u 1 1 True"

definition mk_cl_stringLE :: "ucd \<Rightarrow> string_object \<Rightarrow> string_object \<Rightarrow> int \<Rightarrow> int option \<Rightarrow> int \<Rightarrow> int option \<Rightarrow> text_error + nat option" where
  "mk_cl_stringLE u = string_compare u (- 1) 0 True"

definition mk_cl_stringGE :: "ucd \<Rightarrow> string_object \<Rightarrow> string_object \<Rightarrow> int \<Rightarrow> int option \<Rightarrow> int \<Rightarrow> int option \<Rightarrow> text_error + nat option" where
  "mk_cl_stringGE u = string_compare u 0 1 True"

definition mk_cl_stringNE :: "ucd \<Rightarrow> string_object \<Rightarrow> string_object \<Rightarrow> int \<Rightarrow> int option \<Rightarrow> int \<Rightarrow> int option \<Rightarrow> text_error + nat option" where
  "mk_cl_stringNE u = string_compare u (- 1) 1 True"

definition mk_cl_string_lessp :: "ucd \<Rightarrow> string_object \<Rightarrow> string_object \<Rightarrow> int \<Rightarrow> int option \<Rightarrow> int \<Rightarrow> int option \<Rightarrow> text_error + nat option" where
  "mk_cl_string_lessp u = string_compare u (- 1) (- 1) False"

definition mk_cl_string_greaterp :: "ucd \<Rightarrow> string_object \<Rightarrow> string_object \<Rightarrow> int \<Rightarrow> int option \<Rightarrow> int \<Rightarrow> int option \<Rightarrow> text_error + nat option" where
  "mk_cl_string_greaterp u = string_compare u 1 1 False"

definition mk_cl_string_not_greaterp :: "ucd \<Rightarrow> string_object \<Rightarrow> string_object \<Rightarrow> int \<Rightarrow> int option \<Rightarrow> int \<Rightarrow> int option \<Rightarrow> text_error + nat option" where
  "mk_cl_string_not_greaterp u = string_compare u (- 1) 0 False"

definition mk_cl_string_not_lessp :: "ucd \<Rightarrow> string_object \<Rightarrow> string_object \<Rightarrow> int \<Rightarrow> int option \<Rightarrow> int \<Rightarrow> int option \<Rightarrow> text_error + nat option" where
  "mk_cl_string_not_lessp u = string_compare u 0 1 False"

definition mk_cl_string_not_equal :: "ucd \<Rightarrow> string_object \<Rightarrow> string_object \<Rightarrow> int \<Rightarrow> int option \<Rightarrow> int \<Rightarrow> int option \<Rightarrow> text_error + nat option" where
  "mk_cl_string_not_equal u = string_compare u (- 1) 1 False"

text \<open>Equality, character by character.\<close>

function stringE_loop :: "nat list \<Rightarrow> nat \<Rightarrow> nat \<Rightarrow> nat list \<Rightarrow> nat \<Rightarrow> text_error + bool" where
  "stringE_loop m1 s1 e1 m2 s2 =
     (if s1 < e1 then
        (if s1 \<ge> length m1 \<or> s2 \<ge> length m2 then Inl StringOverrun
         else if m1 ! s1 \<noteq> m2 ! s2 then Inr False
         else stringE_loop m1 (s1 + 1) e1 m2 (s2 + 1))
      else Inr True)"
  by pat_completeness auto

termination
  by (relation "measure (\<lambda>(m1, s1, e1, m2, s2). e1 - s1)") auto

declare stringE_loop.simps [simp del]

definition mk_cl_stringE :: "string_object \<Rightarrow> string_object \<Rightarrow> int \<Rightarrow> int option \<Rightarrow> int \<Rightarrow> int option \<Rightarrow> text_error + bool" where
  "mk_cl_stringE string1 string2 start1 end1 start2 end2 =
     and_then (mkcl_get_string_start_end string1 start1 end1) (\<lambda>(s1, e1).
     and_then (mkcl_get_string_start_end string2 start2 end2) (\<lambda>(s2, e2).
       if e1 - s1 \<noteq> e2 - s2 then Inr False
       else stringE_loop (st_self string1) s1 e1 (st_self string2) s2))"

definition mkcl_string_E :: "string_object \<Rightarrow> string_object \<Rightarrow> text_error + bool" where
  "mkcl_string_E x y =
     (if st_fillp x \<noteq> st_fillp y then Inr False else stringE_loop (st_self x) 0 (st_fillp x) (st_self y) 0)"

definition mk_cl_string_equal :: "ucd \<Rightarrow> string_object \<Rightarrow> string_object \<Rightarrow> int \<Rightarrow> int option \<Rightarrow> int \<Rightarrow> int option \<Rightarrow> text_error + bool" where
  "mk_cl_string_equal u string1 string2 start1 end1 start2 end2 =
     and_then (mkcl_get_string_start_end string1 start1 end1) (\<lambda>(s1, e1).
     and_then (mkcl_get_string_start_end string2 start2 end2) (\<lambda>(s2, e2).
       if e1 - s1 \<noteq> e2 - s2 then Inr False
       else and_then (compare_ranges u False string1 s1 e1 string2 s2 e2) (\<lambda>(output, m). Inr (output = 0))))"

text \<open>This one is meant to be \<open>string<\<close>.\<close>

definition mkcl_base_string_L :: "string_object \<Rightarrow> string_object \<Rightarrow> text_error + bool" where
  "mkcl_base_string_L str1 str2 =
     (if st_fillp str1 \<noteq> st_fillp str2 then Inr False
      else stringE_loop (st_self str1) 0 (st_fillp str1) (st_self str2) 0)"

section \<open>Parts of strings\<close>

definition subseq_string :: "string_object \<Rightarrow> nat \<Rightarrow> nat option \<Rightarrow> text_error + string_object" where
  "subseq_string x s en =
     (if s > st_fillp x then Inl BadRange
      else case en of
          None \<Rightarrow> Inr (simple_string (st_base x) (take (st_fillp x - s) (drop s (st_self x))))
        | Some e \<Rightarrow> if e < s \<or> e > st_fillp x then Inl BadRange
                    else Inr (simple_string (st_base x) (take (e - s) (drop s (st_self x)))))"

text \<open>The characters to trim: the elements of a list or a vector.\<close>

fun mkcl_member_char :: "nat \<Rightarrow> lval list \<Rightarrow> text_error + bool" where
  "mkcl_member_char c [] = Inr False"
| "mkcl_member_char c (LChar d # bag) = (if c = d then Inr True else mkcl_member_char c bag)"
| "mkcl_member_char c (_ # bag) = Inl NotACharacter"

function trim_left :: "lval list \<Rightarrow> string_object \<Rightarrow> nat \<Rightarrow> nat \<Rightarrow> text_error + nat" where
  "trim_left bag s i j =
     (if i < j then
        and_then (mkcl_char s i) (\<lambda>c. and_then (mkcl_member_char c bag) (\<lambda>m.
          if \<not> m then Inr i else trim_left bag s (i + 1) j))
      else Inr i)"
  by pat_completeness auto

termination
  by (relation "measure (\<lambda>(bag, s, i, j). j - i)") auto

fun trim_right :: "lval list \<Rightarrow> string_object \<Rightarrow> nat \<Rightarrow> nat \<Rightarrow> text_error + nat" where
  "trim_right bag s i 0 = Inr 0"
| "trim_right bag s i (Suc j) =
     (if Suc j > i then
        and_then (mkcl_char s j) (\<lambda>c. and_then (mkcl_member_char c bag) (\<lambda>m.
          if \<not> m then Inr (Suc j) else trim_right bag s i j))
      else Inr (Suc j))"

declare trim_left.simps [simp del]

definition string_trim0 :: "bool \<Rightarrow> bool \<Rightarrow> lval list \<Rightarrow> string_object \<Rightarrow> text_error + string_object" where
  "string_trim0 left_trim right_trim bag s =
     and_then (if left_trim then trim_left bag s 0 (st_fillp s) else Inr 0) (\<lambda>i.
     and_then (if right_trim then trim_right bag s i (st_fillp s) else Inr (st_fillp s)) (\<lambda>j.
       subseq_string s i (Some j)))"

definition mk_cl_string_trim :: "lval list \<Rightarrow> string_object \<Rightarrow> text_error + string_object" where
  "mk_cl_string_trim = string_trim0 True True"

definition mk_cl_string_left_trim :: "lval list \<Rightarrow> string_object \<Rightarrow> text_error + string_object" where
  "mk_cl_string_left_trim = string_trim0 True False"

definition mk_cl_string_right_trim :: "lval list \<Rightarrow> string_object \<Rightarrow> text_error + string_object" where
  "mk_cl_string_right_trim = string_trim0 False True"

section \<open>Case\<close>

type_synonym casefun = "nat \<Rightarrow> bool \<Rightarrow> nat \<times> bool"

definition char_upcase :: "ucd \<Rightarrow> casefun" where
  "char_upcase u c b = (mkcl_char_upcase u c, b)"

definition char_downcase :: "ucd \<Rightarrow> casefun" where
  "char_downcase u c b = (mkcl_char_downcase u c, b)"

definition char_capitalize :: "ucd \<Rightarrow> casefun" where
  "char_capitalize u c b =
     (if mkcl_lower_case_p u c then (if b then mkcl_char_upcase u c else c, False)
      else if mkcl_upper_case_p u c then (if \<not> b then mkcl_char_downcase u c else c, False)
      else (c, \<not> mkcl_alphanumericp u c))"

function case_loop :: "casefun \<Rightarrow> nat \<Rightarrow> nat \<Rightarrow> bool \<Rightarrow> string_object \<Rightarrow> text_error + string_object" where
  "case_loop f i e b s =
     (if i < e then
        (if i \<ge> length (st_self s) then Inl StringOverrun
         else let (c, b') = f (st_self s ! i) b
              in case_loop f (i + 1) e b' (s\<lparr>st_self := (st_self s)[i := stored_char s c]\<rparr>))
      else Inr s)"
  by pat_completeness auto

termination
  by (relation "measure (\<lambda>(f, i, e, b, s). e - i)") auto

declare case_loop.simps [simp del]

definition nstring_case :: "casefun \<Rightarrow> string_object \<Rightarrow> int \<Rightarrow> int option \<Rightarrow> text_error + string_object" where
  "nstring_case f s start en = and_then (mkcl_get_string_start_end s start en) (\<lambda>(i, e). case_loop f i e True s)"

definition string_case :: "casefun \<Rightarrow> string_object \<Rightarrow> int \<Rightarrow> int option \<Rightarrow> text_error + string_object" where
  "string_case f s start en = and_then (subseq_string s 0 None) (\<lambda>conv. nstring_case f conv start en)"

datatype letter_case = lowercase_string | mixedcase_string | uppercase_string

fun string_case_loop :: "ucd \<Rightarrow> letter_case \<Rightarrow> nat list \<Rightarrow> letter_case" where
  "string_case_loop u str_case [] = str_case"
| "string_case_loop u str_case (ch # chs) =
     (if mkcl_upper_case_p u ch then
        (if str_case = lowercase_string then mixedcase_string else string_case_loop u uppercase_string chs)
      else if mkcl_lower_case_p u ch then
        (if str_case = uppercase_string then mixedcase_string else string_case_loop u lowercase_string chs)
      else string_case_loop u str_case chs)"

definition mkcl_string_case :: "ucd \<Rightarrow> string_object \<Rightarrow> letter_case" where
  "mkcl_string_case u s = string_case_loop u mixedcase_string (take (st_dim s) (st_self s))"

definition mk_cl_string_upcase :: "ucd \<Rightarrow> string_object \<Rightarrow> int \<Rightarrow> int option \<Rightarrow> text_error + string_object" where
  "mk_cl_string_upcase u = string_case (char_upcase u)"

definition mk_cl_string_downcase :: "ucd \<Rightarrow> string_object \<Rightarrow> int \<Rightarrow> int option \<Rightarrow> text_error + string_object" where
  "mk_cl_string_downcase u = string_case (char_downcase u)"

definition mk_cl_string_capitalize :: "ucd \<Rightarrow> string_object \<Rightarrow> int \<Rightarrow> int option \<Rightarrow> text_error + string_object" where
  "mk_cl_string_capitalize u = string_case (char_capitalize u)"

definition mk_cl_nstring_upcase :: "ucd \<Rightarrow> string_object \<Rightarrow> int \<Rightarrow> int option \<Rightarrow> text_error + string_object" where
  "mk_cl_nstring_upcase u = nstring_case (char_upcase u)"

definition mk_cl_nstring_downcase :: "ucd \<Rightarrow> string_object \<Rightarrow> int \<Rightarrow> int option \<Rightarrow> text_error + string_object" where
  "mk_cl_nstring_downcase u = nstring_case (char_downcase u)"

definition mk_cl_nstring_capitalize :: "ucd \<Rightarrow> string_object \<Rightarrow> int \<Rightarrow> int option \<Rightarrow> text_error + string_object" where
  "mk_cl_nstring_capitalize u = nstring_case (char_capitalize u)"

section \<open>Memory\<close>

text \<open>Copying to a place of a memory, and copying from one.\<close>

definition put_chars :: "nat \<Rightarrow> nat list \<Rightarrow> nat list \<Rightarrow> text_error + nat list" where
  "put_chars p cs m =
     (if p + length cs > length m then Inl StringOverrun else Inr (take p m @ cs @ drop (p + length cs) m))"

definition get_chars :: "nat \<Rightarrow> nat \<Rightarrow> nat list \<Rightarrow> text_error + nat list" where
  "get_chars p n m = (if p + n > length m then Inl StringOverrun else Inr (take n (drop p m)))"

definition write_chars :: "string_object \<Rightarrow> nat \<Rightarrow> nat list \<Rightarrow> text_error + string_object" where
  "write_chars s p cs = and_then (put_chars p cs (st_self s)) (\<lambda>m. Inr (s\<lparr>st_self := m\<rparr>))"

section \<open>Coercion and concatenation\<close>

text \<open>A sequence is a string, or a list or general vector with its elements.\<close>

datatype char_seq = StringSeq string_object | ItemSeq "lval list"

fun mkcl_coerce_list_to_simple_base_string :: "lval list \<Rightarrow> text_error + nat list" where
  "mkcl_coerce_list_to_simple_base_string [] = Inr []"
| "mkcl_coerce_list_to_simple_base_string (LChar c # l) =
     (if MKCL_BASE_CHAR_CODE_P c then and_then (mkcl_coerce_list_to_simple_base_string l) (\<lambda>cs. Inr (c # cs))
      else Inl NotABaseChar)"
| "mkcl_coerce_list_to_simple_base_string (_ # l) = Inl NotABaseChar"

fun mkcl_coerce_list_to_simple_string :: "lval list \<Rightarrow> text_error + nat list" where
  "mkcl_coerce_list_to_simple_string [] = Inr []"
| "mkcl_coerce_list_to_simple_string (LChar c # l) =
     and_then (mkcl_coerce_list_to_simple_string l) (\<lambda>cs. Inr (c # cs))"
| "mkcl_coerce_list_to_simple_string (_ # l) = Inl NotACharacter"

definition mkcl_coerce_to_simple_base_string :: "char_seq \<Rightarrow> text_error + string_object" where
  "mkcl_coerce_to_simple_base_string x =
     (case x of
        StringSeq s \<Rightarrow>
          and_then (get_chars 0 (st_fillp s) (st_self s)) (\<lambda>cs.
            if st_base s \<or> list_all MKCL_BASE_CHAR_CODE_P cs then Inr (simple_string True cs) else Inl NotABaseChar)
      | ItemSeq l \<Rightarrow> and_then (mkcl_coerce_list_to_simple_base_string l) (\<lambda>cs. Inr (simple_string True cs)))"

definition mkcl_coerce_to_simple_character_string :: "char_seq \<Rightarrow> text_error + string_object" where
  "mkcl_coerce_to_simple_character_string x =
     (case x of
        StringSeq s \<Rightarrow> and_then (get_chars 0 (st_fillp s) (st_self s)) (\<lambda>cs. Inr (simple_string False cs))
      | ItemSeq l \<Rightarrow> and_then (mkcl_coerce_list_to_simple_string l) (\<lambda>cs. Inr (simple_string False cs)))"

definition mkcl_coerce_to_base_string :: "char_seq \<Rightarrow> text_error + string_object" where
  "mkcl_coerce_to_base_string x =
     (case x of StringSeq s \<Rightarrow> if st_base s then Inr s else mkcl_coerce_to_simple_base_string x
              | ItemSeq _ \<Rightarrow> mkcl_coerce_to_simple_base_string x)"

definition mk_si_coerce_to_character_string :: "char_seq \<Rightarrow> text_error + string_object" where
  "mk_si_coerce_to_character_string x =
     (case x of StringSeq s \<Rightarrow> if st_base s then mkcl_coerce_to_simple_character_string x else Inr s
              | ItemSeq _ \<Rightarrow> mkcl_coerce_to_simple_character_string x)"

text \<open>
  The strings that are not empty are pushed on the temporary stack, then popped and copied from the end of the
  new string to its beginning. What the new string holds before is \<open>fresh\<close>.
\<close>

fun push_strings :: "(char_seq \<Rightarrow> text_error + string_object) \<Rightarrow> char_seq list \<Rightarrow> string_object list \<Rightarrow> nat \<Rightarrow>
    text_error + (string_object list \<times> nat)" where
  "push_strings coerce [] stack l = Inr (stack, l)"
| "push_strings coerce (arg # args) stack l =
     and_then (coerce arg) (\<lambda>s.
       if st_fillp s > 0 then push_strings coerce args (s # stack) (l + st_fillp s) else push_strings coerce args stack l)"

fun pop_strings :: "string_object list \<Rightarrow> nat \<Rightarrow> string_object \<Rightarrow> text_error + string_object" where
  "pop_strings [] l output = Inr output"
| "pop_strings (s # stack) l output =
     (if l = 0 then Inr output
      else and_then (get_chars 0 (st_fillp s) (st_self s)) (\<lambda>cs.
           and_then (write_chars output (l - st_fillp s) cs) (\<lambda>output'.
             pop_strings stack (l - st_fillp s) output')))"

definition mk_si_concatenate_base_strings :: "(nat \<Rightarrow> nat list) \<Rightarrow> char_seq list \<Rightarrow> text_error + string_object" where
  "mk_si_concatenate_base_strings fresh args =
     (case args of
        [arg] \<Rightarrow> mkcl_coerce_to_simple_base_string arg
      | _ \<Rightarrow> and_then (push_strings mkcl_coerce_to_base_string args [] 0) (\<lambda>(stack, l).
               pop_strings stack l (simple_string True (fresh l))))"

definition mk_si_concatenate_strings :: "(nat \<Rightarrow> nat list) \<Rightarrow> char_seq list \<Rightarrow> text_error + string_object" where
  "mk_si_concatenate_strings fresh args =
     (case args of
        [arg] \<Rightarrow> mkcl_coerce_to_simple_character_string arg
      | _ \<Rightarrow> and_then (push_strings mk_si_coerce_to_character_string args [] 0) (\<lambda>(stack, l).
               pop_strings stack l (simple_string False (fresh l))))"

section \<open>Substrings, filling, searching and replacing\<close>

definition check_range :: "string_object \<Rightarrow> nat \<Rightarrow> nat option \<Rightarrow> text_error + nat" where
  "check_range s start en =
     (let e = (case en of None \<Rightarrow> st_fillp s | Some e \<Rightarrow> e)
      in if start > st_fillp s \<or> start > e \<or> e > st_fillp s then Inl BadRange else Inr e)"

definition mkcl_substring :: "string_object \<Rightarrow> nat \<Rightarrow> nat option \<Rightarrow> text_error + string_object" where
  "mkcl_substring s start en =
     and_then (check_range s start en) (\<lambda>e.
     and_then (get_chars start (e - start) (st_self s)) (\<lambda>cs. Inr (simple_string (st_base s) cs)))"

definition mkcl_base_substring :: "string_object \<Rightarrow> nat \<Rightarrow> nat option \<Rightarrow> text_error + string_object" where
  "mkcl_base_substring s start en = (if \<not> st_base s then Inl NotABaseString else mkcl_substring s start en)"

definition mkcl_fill_base_string :: "string_object \<Rightarrow> nat \<Rightarrow> text_error + string_object" where
  "mkcl_fill_base_string s ch =
     (if \<not> st_base s then Inl NotABaseString else write_chars s 0 (replicate (st_fillp s) ch))"

text \<open>The two functions with a range write \<open>end\<close> characters from \<open>start\<close> on.\<close>

definition mkcl_fill_base_string_k :: "string_object \<Rightarrow> nat \<Rightarrow> nat \<Rightarrow> nat option \<Rightarrow> text_error + string_object" where
  "mkcl_fill_base_string_k s ch start en =
     (if \<not> st_base s then Inl NotABaseString
      else and_then (check_range s start en) (\<lambda>e. if e > 0 then write_chars s start (replicate e ch) else Inr s))"

definition mkcl_fill_string :: "string_object \<Rightarrow> nat \<Rightarrow> text_error + string_object" where
  "mkcl_fill_string s ch =
     (if \<not> st_base s then write_chars s 0 (replicate (st_fillp s) ch)
      else if \<not> MKCL_BASE_CHAR_CODE_P ch then Inl NotABaseChar
      else write_chars s 0 (replicate (st_fillp s) ch))"

definition mkcl_fill_string_k :: "string_object \<Rightarrow> nat \<Rightarrow> nat \<Rightarrow> nat option \<Rightarrow> text_error + string_object" where
  "mkcl_fill_string_k s ch start en =
     and_then (check_range s start en) (\<lambda>e.
       if \<not> st_base s then if e > 0 then write_chars s start (replicate e ch) else Inr s
       else if \<not> MKCL_BASE_CHAR_CODE_P ch then Inl NotABaseChar
       else if st_fillp s > 0 then write_chars s start (replicate (st_fillp s) ch) else Inr s)"

text \<open>The first place from \<open>i\<close> on, below \<open>e\<close>, that has the character.\<close>

function mkcl_wmemchr :: "nat list \<Rightarrow> nat \<Rightarrow> nat \<Rightarrow> nat \<Rightarrow> nat option" where
  "mkcl_wmemchr m c i e = (if i < e then if m ! i = c then Some i else mkcl_wmemchr m c (i + 1) e else None)"
  by pat_completeness auto

termination
  by (relation "measure (\<lambda>(m, c, i, e). e - i)") auto

declare mkcl_wmemchr.simps [simp del]

lemma mkcl_wmemchr_Some: "mkcl_wmemchr m c i e = Some b \<Longrightarrow> i \<le> b \<and> b < e \<and> m ! b = c \<and> (\<forall>k. i \<le> k \<and> k < b \<longrightarrow> m ! k \<noteq> c)"
proof (induction m c i e rule: mkcl_wmemchr.induct)
  case (1 m c i e)
  show ?case
  proof (cases "i < e \<and> m ! i \<noteq> c")
    case True
    then have "i + 1 \<le> b \<and> b < e \<and> m ! b = c \<and> (\<forall>k. i + 1 \<le> k \<and> k < b \<longrightarrow> m ! k \<noteq> c)"
      using "1.IH" "1.prems" by (simp add: mkcl_wmemchr.simps [of m c i e])
    moreover have "m ! k \<noteq> c" if "i \<le> k" "k < b" for k
      using that True calculation by (cases "k = i") auto
    ultimately show ?thesis by simp
  next
    case False
    then show ?thesis using "1.prems" by (auto simp: mkcl_wmemchr.simps [of m c i e] split: if_splits)
  qed
qed

function search_loop :: "nat list \<Rightarrow> nat list \<Rightarrow> nat \<Rightarrow> nat \<Rightarrow> nat option" where
  "search_loop pat m start2 end2 =
     (if start2 + length pat \<le> end2 then
        (case mkcl_wmemchr m (hd pat) start2 end2 of
           None \<Rightarrow> None
         | Some b \<Rightarrow>
             if b + length pat \<le> end2 then
               if take (length pat - 1) (drop (b + 1) m) = tl pat then Some b
               else search_loop pat m (b + 1) end2
             else None)
      else None)"
  by pat_completeness auto

termination
proof (relation "measure (\<lambda>(pat, m, i, e). e - i)")
  fix pat m start2 end2 b
  assume "mkcl_wmemchr m (hd pat) start2 end2 = Some b"
  then show "((pat, m, b + 1, end2), pat, m, start2, end2) \<in> measure (\<lambda>(pat, m, i, e). e - i)"
    using mkcl_wmemchr_Some by fastforce
qed simp

declare search_loop.simps [simp del]

definition search_memory :: "string_object \<Rightarrow> string_object \<Rightarrow> text_error + nat option" where
  "search_memory str1 str2 =
     (if st_self str1 = [] then Inl StringOverrun
      else if st_fillp str1 = 0 then Inr (Some 0)
      else Inr (search_loop (contents str1) (st_self str2) 0 (st_fillp str2)))"

definition mkcl_search_in_base_string :: "string_object \<Rightarrow> string_object \<Rightarrow> text_error + nat option" where
  "mkcl_search_in_base_string str1 str2 =
     (if \<not> st_base str1 \<or> \<not> st_base str2 then Inl NotABaseString else search_memory str1 str2)"

definition mkcl_search_in_string :: "string_object \<Rightarrow> string_object \<Rightarrow> text_error + nat option" where
  "mkcl_search_in_string str1 str2 =
     (if st_base str2 then
        and_then (if \<not> st_base str1 then mkcl_coerce_to_base_string (StringSeq str1) else Inr str1)
          (\<lambda>str1'. mkcl_search_in_base_string str1' str2)
      else and_then (if st_base str1 then mk_si_coerce_to_character_string (StringSeq str1) else Inr str1)
             (\<lambda>str1'. search_memory str1' str2))"

definition replace_range :: "string_object \<Rightarrow> string_object \<Rightarrow> nat \<Rightarrow> nat \<Rightarrow> nat \<Rightarrow> nat \<Rightarrow> text_error + string_object" where
  "replace_range str1 str2 start1 end1 start2 end2 =
     (let len1 = end1 - start1; len2 = end2 - start2
      in if len1 \<noteq> 0 \<and> len2 \<noteq> 0 then
           and_then (get_chars start2 (if len1 < len2 then len1 else len2) (st_self str2)) (\<lambda>cs. write_chars str1 start1 cs)
         else Inr str1)"

definition mkcl_replace_in_base_string_k ::
  "string_object \<Rightarrow> string_object \<Rightarrow> nat \<Rightarrow> nat option \<Rightarrow> nat \<Rightarrow> nat option \<Rightarrow> text_error + string_object" where
  "mkcl_replace_in_base_string_k str1 str2 start1 end1 start2 end2 =
     (if \<not> st_base str1 \<or> \<not> st_base str2 then Inl NotABaseString
      else and_then (check_range str1 start1 end1) (\<lambda>e1. and_then (check_range str2 start2 end2) (\<lambda>e2.
             replace_range str1 str2 start1 e1 start2 e2)))"

definition mkcl_replace_in_base_string :: "string_object \<Rightarrow> string_object \<Rightarrow> text_error + string_object" where
  "mkcl_replace_in_base_string str1 str2 =
     (if \<not> st_base str1 \<or> \<not> st_base str2 then Inl NotABaseString
      else replace_range str1 str2 0 (st_fillp str1) 0 (st_fillp str2))"

text \<open>The new characters are coerced to the kind of the string they go to.\<close>

definition coerce_like :: "string_object \<Rightarrow> string_object \<Rightarrow> text_error + string_object" where
  "coerce_like str1 str2 =
     (if st_base str1 \<noteq> st_base str2 then
        if \<not> st_base str1 then mk_si_coerce_to_character_string (StringSeq str2)
        else mkcl_coerce_to_base_string (StringSeq str2)
      else Inr str2)"

definition mkcl_replace_in_string_k ::
  "string_object \<Rightarrow> string_object \<Rightarrow> nat \<Rightarrow> nat option \<Rightarrow> nat \<Rightarrow> nat option \<Rightarrow> text_error + string_object" where
  "mkcl_replace_in_string_k str1 str2 start1 end1 start2 end2 =
     and_then (coerce_like str1 str2) (\<lambda>str2'.
     and_then (check_range str1 start1 end1) (\<lambda>e1. and_then (check_range str2' start2 end2) (\<lambda>e2.
       replace_range str1 str2' start1 e1 start2 e2)))"

definition mkcl_replace_in_string :: "string_object \<Rightarrow> string_object \<Rightarrow> text_error + string_object" where
  "mkcl_replace_in_string str1 str2 =
     and_then (coerce_like str1 str2) (\<lambda>str2'. replace_range str1 str2' 0 (st_fillp str1) 0 (st_fillp str2'))"

end
