(* ===== verification/Integer_Bits.thy ===== *)
theory Integer_Bits
  imports Numbers
begin

text \<open>
  Integers as strings of bits (\<^verbatim>\<open>src/src/c/num_log.c\<close>, without bit arrays): the sixteen
  operations on two bits, for words and for bignums, the functions built on them,
  shifts, and the counting of bits. The bignum functions overwrite their first operand; here they
  return it.
\<close>

section \<open>The sixteen operations\<close>

definition ior_op :: "int \<Rightarrow> int \<Rightarrow> int" where "ior_op i j = (i OR j)"

definition xor_op :: "int \<Rightarrow> int \<Rightarrow> int" where "xor_op i j = (i XOR j)"

definition and_op :: "int \<Rightarrow> int \<Rightarrow> int" where "and_op i j = (i AND j)"

definition eqv_op :: "int \<Rightarrow> int \<Rightarrow> int" where "eqv_op i j = NOT (i XOR j)"

definition nand_op :: "int \<Rightarrow> int \<Rightarrow> int" where "nand_op i j = NOT (i AND j)"

definition nor_op :: "int \<Rightarrow> int \<Rightarrow> int" where "nor_op i j = NOT (i OR j)"

definition andc1_op :: "int \<Rightarrow> int \<Rightarrow> int" where "andc1_op i j = (NOT i AND j)"

definition andc2_op :: "int \<Rightarrow> int \<Rightarrow> int" where "andc2_op i j = (i AND NOT j)"

definition orc1_op :: "int \<Rightarrow> int \<Rightarrow> int" where "orc1_op i j = (NOT i OR j)"

definition orc2_op :: "int \<Rightarrow> int \<Rightarrow> int" where "orc2_op i j = (i OR NOT j)"

definition b_clr_op :: "int \<Rightarrow> int \<Rightarrow> int" where "b_clr_op i j = 0"

definition b_set_op :: "int \<Rightarrow> int \<Rightarrow> int" where "b_set_op i j = - 1"

definition b_1_op :: "int \<Rightarrow> int \<Rightarrow> int" where "b_1_op i j = i"

definition b_2_op :: "int \<Rightarrow> int \<Rightarrow> int" where "b_2_op i j = j"

definition b_c1_op :: "int \<Rightarrow> int \<Rightarrow> int" where "b_c1_op i j = NOT i"

definition b_c2_op :: "int \<Rightarrow> int \<Rightarrow> int" where "b_c2_op i j = NOT j"

definition fixnum_operations :: "(int \<Rightarrow> int \<Rightarrow> int) list" where
  "fixnum_operations =
     [b_clr_op, and_op, andc2_op, b_1_op, andc1_op, b_2_op, xor_op, ior_op,
      nor_op, eqv_op, b_c2_op, orc2_op, b_c1_op, orc1_op, nand_op, b_set_op]"

definition mpz_ior_op :: "gmp \<Rightarrow> int \<Rightarrow> int \<Rightarrow> int" where "mpz_ior_op g i j = mpz_ior g i j"

definition mpz_xor_op :: "gmp \<Rightarrow> int \<Rightarrow> int \<Rightarrow> int" where "mpz_xor_op g i j = mpz_xor g i j"

definition mpz_and_op :: "gmp \<Rightarrow> int \<Rightarrow> int \<Rightarrow> int" where "mpz_and_op g i j = mpz_and g i j"

definition mpz_eqv_op :: "gmp \<Rightarrow> int \<Rightarrow> int \<Rightarrow> int" where "mpz_eqv_op g i j = mpz_com g (mpz_xor g i j)"

definition mpz_nand_op :: "gmp \<Rightarrow> int \<Rightarrow> int \<Rightarrow> int" where "mpz_nand_op g i j = mpz_com g (mpz_and g i j)"

definition mpz_nor_op :: "gmp \<Rightarrow> int \<Rightarrow> int \<Rightarrow> int" where "mpz_nor_op g i j = mpz_com g (mpz_ior g i j)"

definition mpz_andc1_op :: "gmp \<Rightarrow> int \<Rightarrow> int \<Rightarrow> int" where "mpz_andc1_op g i j = mpz_and g (mpz_com g i) j"

definition mpz_orc1_op :: "gmp \<Rightarrow> int \<Rightarrow> int \<Rightarrow> int" where "mpz_orc1_op g i j = mpz_ior g (mpz_com g i) j"

definition mpz_andc2_op :: "gmp \<Rightarrow> int \<Rightarrow> int \<Rightarrow> int" where "mpz_andc2_op g i j = mpz_com g (mpz_orc1_op g i j)"

definition mpz_orc2_op :: "gmp \<Rightarrow> int \<Rightarrow> int \<Rightarrow> int" where "mpz_orc2_op g i j = mpz_com g (mpz_andc1_op g i j)"

definition mpz_b_clr_op :: "gmp \<Rightarrow> int \<Rightarrow> int \<Rightarrow> int" where "mpz_b_clr_op g i j = 0"

definition mpz_b_set_op :: "gmp \<Rightarrow> int \<Rightarrow> int \<Rightarrow> int" where "mpz_b_set_op g i j = - 1"

definition mpz_b_1_op :: "gmp \<Rightarrow> int \<Rightarrow> int \<Rightarrow> int" where "mpz_b_1_op g i j = i"

definition mpz_b_2_op :: "gmp \<Rightarrow> int \<Rightarrow> int \<Rightarrow> int" where "mpz_b_2_op g i j = j"

definition mpz_b_c1_op :: "gmp \<Rightarrow> int \<Rightarrow> int \<Rightarrow> int" where "mpz_b_c1_op g i j = mpz_com g i"

definition mpz_b_c2_op :: "gmp \<Rightarrow> int \<Rightarrow> int \<Rightarrow> int" where "mpz_b_c2_op g i j = mpz_com g j"

definition bignum_operations :: "(gmp \<Rightarrow> int \<Rightarrow> int \<Rightarrow> int) list" where
  "bignum_operations =
     [mpz_b_clr_op, mpz_and_op, mpz_andc2_op, mpz_b_1_op, mpz_andc1_op, mpz_b_2_op, mpz_xor_op, mpz_ior_op,
      mpz_nor_op, mpz_eqv_op, mpz_b_c2_op, mpz_orc2_op, mpz_b_c1_op, mpz_orc1_op, mpz_nand_op, mpz_b_set_op]"

lemmas word_op_defs =
  ior_op_def xor_op_def and_op_def eqv_op_def nand_op_def nor_op_def andc1_op_def andc2_op_def
  orc1_op_def orc2_op_def b_clr_op_def b_set_op_def b_1_op_def b_2_op_def b_c1_op_def b_c2_op_def

lemmas mpz_op_defs =
  mpz_ior_op_def mpz_xor_op_def mpz_and_op_def mpz_eqv_op_def mpz_nand_op_def mpz_nor_op_def mpz_andc1_op_def
  mpz_andc2_op_def mpz_orc1_op_def mpz_orc2_op_def mpz_b_clr_op_def mpz_b_set_op_def mpz_b_1_op_def
  mpz_b_2_op_def mpz_b_c1_op_def mpz_b_c2_op_def

text \<open>\<open>MKCL_BOOLCLR\<close> to \<open>MKCL_BOOLSET\<close> of \<^verbatim>\<open>mkcl/external.h\<close>, as far as the code uses them.\<close>

definition MKCL_BOOLAND :: nat where "MKCL_BOOLAND = 1"
definition MKCL_BOOLANDC2 :: nat where "MKCL_BOOLANDC2 = 2"
definition MKCL_BOOLANDC1 :: nat where "MKCL_BOOLANDC1 = 4"
definition MKCL_BOOLXOR :: nat where "MKCL_BOOLXOR = 6"
definition MKCL_BOOLIOR :: nat where "MKCL_BOOLIOR = 7"
definition MKCL_BOOLNOR :: nat where "MKCL_BOOLNOR = 8"
definition MKCL_BOOLEQV :: nat where "MKCL_BOOLEQV = 9"
definition MKCL_BOOLORC2 :: nat where "MKCL_BOOLORC2 = 11"
definition MKCL_BOOLORC1 :: nat where "MKCL_BOOLORC1 = 13"
definition MKCL_BOOLNAND :: nat where "MKCL_BOOLNAND = 14"
definition MKCL_BOOLSET :: nat where "MKCL_BOOLSET = 15"

lemmas bool_op_numbers =
  MKCL_BOOLAND_def MKCL_BOOLANDC2_def MKCL_BOOLANDC1_def MKCL_BOOLXOR_def MKCL_BOOLIOR_def MKCL_BOOLNOR_def
  MKCL_BOOLEQV_def MKCL_BOOLORC2_def MKCL_BOOLORC1_def MKCL_BOOLNAND_def MKCL_BOOLSET_def

section \<open>Logical operations\<close>

fun mkcl_boole :: "gmp \<Rightarrow> nat \<Rightarrow> zint \<Rightarrow> zint \<Rightarrow> zint" where
  "mkcl_boole g opn (Fix i) (Fix j) = make_fixnum ((fixnum_operations ! opn) i j)"
| "mkcl_boole g opn (Fix i) (Big b) = mkcl_big_register_normalize ((bignum_operations ! opn) g i b)"
| "mkcl_boole g opn (Big a) (Fix j) = mkcl_big_register_normalize ((bignum_operations ! opn) g a j)"
| "mkcl_boole g opn (Big a) (Big b) = mkcl_big_register_normalize ((bignum_operations ! opn) g a b)"

fun log_op :: "gmp \<Rightarrow> nat \<Rightarrow> zint \<Rightarrow> zint list \<Rightarrow> zint" where
  "log_op g opn x [] = x"
| "log_op g opn x (y # ys) = log_op g opn (mkcl_boole g opn x y) ys"

fun mk_cl_logior :: "gmp \<Rightarrow> zint list \<Rightarrow> zint" where
  "mk_cl_logior g [] = make_fixnum 0"
| "mk_cl_logior g (x # xs) = log_op g MKCL_BOOLIOR x xs"

fun mk_cl_logxor :: "gmp \<Rightarrow> zint list \<Rightarrow> zint" where
  "mk_cl_logxor g [] = make_fixnum 0"
| "mk_cl_logxor g (x # xs) = log_op g MKCL_BOOLXOR x xs"

fun mk_cl_logand :: "gmp \<Rightarrow> zint list \<Rightarrow> zint" where
  "mk_cl_logand g [] = make_fixnum (- 1)"
| "mk_cl_logand g (x # xs) = log_op g MKCL_BOOLAND x xs"

fun mk_cl_logeqv :: "gmp \<Rightarrow> zint list \<Rightarrow> zint" where
  "mk_cl_logeqv g [] = make_fixnum (- 1)"
| "mk_cl_logeqv g (x # xs) = log_op g MKCL_BOOLEQV x xs"

definition mk_cl_lognot :: "gmp \<Rightarrow> zint \<Rightarrow> zint" where
  "mk_cl_lognot g x = mk_cl_logxor g [x, make_fixnum (- 1)]"

definition mk_cl_lognand :: "gmp \<Rightarrow> zint \<Rightarrow> zint \<Rightarrow> zint" where
  "mk_cl_lognand g x y = mkcl_boole g MKCL_BOOLNAND x y"

definition mk_cl_lognor :: "gmp \<Rightarrow> zint \<Rightarrow> zint \<Rightarrow> zint" where
  "mk_cl_lognor g x y = mkcl_boole g MKCL_BOOLNOR x y"

definition mk_cl_logandc1 :: "gmp \<Rightarrow> zint \<Rightarrow> zint \<Rightarrow> zint" where
  "mk_cl_logandc1 g x y = mkcl_boole g MKCL_BOOLANDC1 x y"

definition mk_cl_logandc2 :: "gmp \<Rightarrow> zint \<Rightarrow> zint \<Rightarrow> zint" where
  "mk_cl_logandc2 g x y = mkcl_boole g MKCL_BOOLANDC2 x y"

definition mk_cl_logorc1 :: "gmp \<Rightarrow> zint \<Rightarrow> zint \<Rightarrow> zint" where
  "mk_cl_logorc1 g x y = mkcl_boole g MKCL_BOOLORC1 x y"

definition mk_cl_logorc2 :: "gmp \<Rightarrow> zint \<Rightarrow> zint \<Rightarrow> zint" where
  "mk_cl_logorc2 g x y = mkcl_boole g MKCL_BOOLORC2 x y"

fun zint_to_word :: "zint \<Rightarrow> num_error + int" where
  "zint_to_word (Fix i) = Inr i"
| "zint_to_word (Big b) = (if - (2 ^ 63) \<le> b \<and> b < 2 ^ 63 then Inr b else Inl NotAWord)"

fun zint_to_index :: "zint \<Rightarrow> num_error + nat" where
  "zint_to_index (Fix i) = (if i \<ge> 0 then Inr (nat i) else Inl NegativeIndex)"
| "zint_to_index (Big b) = (if 0 \<le> b \<and> b < 2 ^ 64 then Inr (nat b) else Inl NegativeIndex)"

definition coerce_to_logical_operator :: "zint \<Rightarrow> num_error + nat" where
  "coerce_to_logical_operator ob =
     and_then (zint_to_word ob) (\<lambda>opn.
       if opn < 0 \<or> opn > int MKCL_BOOLSET then Inl InvalidOperator else Inr (nat opn))"

definition mk_cl_boole :: "gmp \<Rightarrow> zint \<Rightarrow> zint \<Rightarrow> zint \<Rightarrow> num_error + zint" where
  "mk_cl_boole g ob x y = and_then (coerce_to_logical_operator ob) (\<lambda>opn. Inr (mkcl_boole g opn x y))"

section \<open>Bits and shifts\<close>

definition mk_cl_logbitp :: "gmp \<Rightarrow> zint \<Rightarrow> zint \<Rightarrow> num_error + bool" where
  "mk_cl_logbitp g p x =
     (case p of
        Fix _ \<Rightarrow> and_then (zint_to_index p) (\<lambda>n.
          case x of
            Fix y \<Rightarrow> Inr (if n \<ge> 64 then y < 0 else drop_bit n y AND 1 \<noteq> 0)
          | Big b \<Rightarrow> Inr (mpz_tstbit g b n))
      | Big m \<Rightarrow> if mpz_sgn g m < 0 then Inl NegativeIndex
                 else (case x of Fix y \<Rightarrow> Inr (y < 0) | Big b \<Rightarrow> Inr (mpz_sgn g b < 0)))"

text \<open>
  The mask has the bits of the tagged word of a fixnum that are below its sign and shifted out. (Where the
  shift has no meaning the result of the test is not used.)
\<close>

definition shift_out_mask :: "nat \<Rightarrow> mkcl_index" where
  "shift_out_mask w = push_bit (63 - w) (push_bit w 1 - 1)"

fun mkcl_ash :: "gmp \<Rightarrow> zint \<Rightarrow> int \<Rightarrow> zint" where
  "mkcl_ash g (Fix i) w =
     (if w = 0 then Fix i
      else if w < 0 then
        make_fixnum (if nat (- w) \<ge> 64 then (if i < 0 then - 1 else 0) else drop_bit (nat (- w)) i)
      else if w \<ge> 64 - 2 \<or> MKCL_MAKE_FIXNUM (word_of_int i) AND shift_out_mask (nat w) \<noteq> 0
      then mkcl_big_register_normalize (mpz_mul_2exp g i (nat w))
      else make_fixnum (push_bit (nat w) i))"
| "mkcl_ash g (Big b) w =
     (if w = 0 then Big b
      else if w < 0 then mkcl_big_register_normalize (mpz_fdiv_q_2exp g b (nat (- w)))
      else mkcl_big_register_normalize (mpz_mul_2exp g b (nat w)))"

definition sign_of :: "gmp \<Rightarrow> zint \<Rightarrow> int" where
  "sign_of g x = (case x of Fix i \<Rightarrow> if i < 0 then - 1 else if x = make_fixnum 0 then 0 else 1 | Big b \<Rightarrow> mpz_sgn g b)"

definition mk_cl_ash :: "gmp \<Rightarrow> zint \<Rightarrow> zint \<Rightarrow> num_error + zint" where
  "mk_cl_ash g x y =
     (case y of
        Fix w \<Rightarrow> Inr (mkcl_ash g x w)
      | Big b \<Rightarrow>
          if mpz_sgn g b < 0 then Inr (if sign_of g x < 0 then make_fixnum (- 1) else make_fixnum 0)
          else if sign_of g x = 0 then Inr x
          else Inl InsufficientMemory)"

section \<open>Counting\<close>

fun count_bits_loop :: "nat \<Rightarrow> nat \<Rightarrow> nat" where
  "count_bits_loop count j =
     (if j = 0 then count else count_bits_loop (if j AND 1 \<noteq> 0 then count + 1 else count) (j div 2))"

fun count_bits :: "gmp \<Rightarrow> zint \<Rightarrow> nat" where
  "count_bits g (Fix i) = count_bits_loop 0 (nat (if i < 0 then NOT i else i))"
| "count_bits g (Big b) = (if mpz_sgn g b \<ge> 0 then mpz_popcount g b else mpz_popcount g (mpz_com g b))"

definition mk_cl_logcount :: "gmp \<Rightarrow> zint \<Rightarrow> zint" where
  "mk_cl_logcount g x = make_fixnum (int (count_bits g x))"

fun bit_length_loop :: "nat \<Rightarrow> nat \<Rightarrow> nat" where
  "bit_length_loop count i =
     (if i \<noteq> 0 \<and> count < 64 then bit_length_loop (count + 1) (i div 2) else count)"

declare count_bits_loop.simps [simp del] bit_length_loop.simps [simp del]

definition mkcl_word_bit_length :: "int \<Rightarrow> nat" where
  "mkcl_word_bit_length i = bit_length_loop 0 (nat (if i < 0 then NOT i else i))"

text \<open>The length is kept in an \<open>int\<close> of 32 bits, and returned as an \<open>mkcl_index\<close>.\<close>

definition int_to_index :: "nat \<Rightarrow> nat" where
  "int_to_index n = nat (take_bit 64 (signed_take_bit 31 (int n)))"

fun mkcl_integer_length :: "gmp \<Rightarrow> zint \<Rightarrow> num_error + nat" where
  "mkcl_integer_length g (Fix i) = Inr (int_to_index (mkcl_word_bit_length i))"
| "mkcl_integer_length g (Big b) =
     (case if mpz_sgn g b < 0 then mk_cl_lognot g (Big b) else Big b of
        Fix _ \<Rightarrow> Inl NotABignum
      | Big m \<Rightarrow> Inr (int_to_index (mpz_sizeinbase2 g m)))"

definition mk_cl_integer_length :: "gmp \<Rightarrow> zint \<Rightarrow> num_error + zint" where
  "mk_cl_integer_length g x = and_then (mkcl_integer_length g x) (\<lambda>n. Inr (make_fixnum (int n)))"

end
