(* ===== verification/Number_Text.thy ===== *)
theory Number_Text
  imports Strings Integer_Bits
begin

text \<open>
  Reading and printing of integers and ratios (\<^verbatim>\<open>src/src/c/read.c\<close>, \<^verbatim>\<open>print.c\<close>) and the names of
  characters that have none of their own (\<^verbatim>\<open>character.c\<close>). What a function writes to its stream is the
  list of characters it returns. A float is the arguments of the call of \<open>make_float\<close> that would make it.
  Of the variables of the printer \<open>*print-base*\<close> and \<open>*print-radix*\<close> are arguments.
\<close>

section \<open>Printing\<close>

text \<open>The digits, last one first, in a buffer of \<open>MKCL_WORD_BITS\<close> places.\<close>

fun digit_loop :: "nat \<Rightarrow> nat \<Rightarrow> nat \<Rightarrow> text_error + nat list" where
  "digit_loop 0 base i = Inl StringOverrun"
| "digit_loop (Suc room) base i =
     (let c = nat (mkcl_digit_char (int (i mod base)) (int base)); i' = i div base
      in if i' > 0 then and_then (digit_loop room base i') (\<lambda>ds. Inr (c # ds)) else Inr [c])"

definition write_positive_fixnum :: "nat \<Rightarrow> nat \<Rightarrow> nat \<Rightarrow> text_error + nat list" where
  "write_positive_fixnum i base len =
     and_then (if i = 0 then Inr [48] else digit_loop 64 base i) (\<lambda>ds.
       Inr (replicate (len - length ds) 48 @ rev ds))"

definition write_decimal :: "nat \<Rightarrow> text_error + nat list" where
  "write_decimal i = write_positive_fixnum i 10 0"

definition write_base :: "nat \<Rightarrow> nat list" where
  "write_base base =
     (if base = 2 then [35, 98]
      else if base = 8 then [35, 111]
      else if base = 16 then [35, 120]
      else if base \<ge> 10 then [35, base div 10 + 48, base mod 10 + 48, 114]
      else [35, base + 48, 114])"

text \<open>
  The powers of the base by repeated squaring, each with its number of digits; a pointer into their array is
  the list of the entries from there down to the first. \<open>len\<close> is an unsigned word.
\<close>

record powers =
  pw_number :: rnum
  pw_n_digits :: nat
  pw_base :: nat

fun do_write_integer :: "gmp \<Rightarrow> rnum \<Rightarrow> powers list \<Rightarrow> nat \<Rightarrow> text_error + nat list" where
  "do_write_integer g x [] len = Inl PowersExhausted"
| "do_write_integer g x (p # powers) len =
     (case x of
        Z (Fix i) \<Rightarrow> write_positive_fixnum (nat (i mod 2 ^ 64)) (pw_base p) len
      | _ \<Rightarrow>
          if mkcl_number_compare g x (pw_number p) < 0 then
            and_then (if len \<noteq> 0 then write_positive_fixnum 0 (pw_base p) len else Inr []) (\<lambda>zeros.
            and_then (do_write_integer g x powers len) (\<lambda>ds. Inr (zeros @ ds)))
          else
            (case mkcl_floor2 g x (pw_number p) of
               Inl err \<Rightarrow> Inl (Arithmetic err)
             | Inr (left, rest) \<Rightarrow>
                 let len' = (if len \<noteq> 0 then nat ((int len - int (pw_n_digits p)) mod 2 ^ 64) else 0)
                 in and_then (do_write_integer g (Z left) powers len') (\<lambda>ds.
                    and_then (do_write_integer g rest powers (pw_n_digits p)) (\<lambda>ds'. Inr (ds @ ds')))))"

text \<open>The entries from the \<open>i\<close>-th on, in the order of the array.\<close>

fun fill_powers :: "gmp \<Rightarrow> nat \<Rightarrow> nat \<Rightarrow> rnum \<Rightarrow> nat \<Rightarrow> text_error + powers list" where
  "fill_powers g base 0 p n_digits = Inr []"
| "fill_powers g base (Suc count) p n_digits =
     (case mkcl_times g p p of
        Inl err \<Rightarrow> Inl (Arithmetic err)
      | Inr p' \<Rightarrow>
          and_then (fill_powers g base count p' (2 * n_digits)) (\<lambda>ps.
            Inr (\<lparr>pw_number = p', pw_n_digits = 2 * n_digits, pw_base = base\<rparr> # ps)))"

definition write_bignum :: "gmp \<Rightarrow> nat \<Rightarrow> int \<Rightarrow> text_error + nat list" where
  "write_bignum g base b =
     (let str_size = mpz_sizeinbase g b base;
          num_powers = mkcl_word_bit_length (int str_size - 1);
          p = Z (make_fixnum (int base))
      in and_then (fill_powers g base (num_powers - 1) p 1) (\<lambda>ps.
         let powers = rev (\<lparr>pw_number = p, pw_n_digits = 1, pw_base = base\<rparr> # ps);
             negative = mkcl_minusp g (Z (Big b));
             x = (if negative then mkcl_negate g (Z (Big b)) else Z (Big b))
         in and_then (do_write_integer g x powers 0) (\<lambda>ds. Inr ((if negative then [45] else []) @ ds))))"

definition mkcl_print_base :: "zint \<Rightarrow> text_error + nat" where
  "mkcl_print_base object =
     (case object of Fix base \<Rightarrow> if base < 2 \<or> base > 36 then Inl IllegalBase else Inr (nat base) | Big _ \<Rightarrow> Inl IllegalBase)"

fun write_integer :: "gmp \<Rightarrow> bool \<Rightarrow> nat \<Rightarrow> zint \<Rightarrow> text_error + nat list" where
  "write_integer g print_radix print_base (Fix x) =
     and_then
       (if x = 0 then Inr [48]
        else if x < 0 then and_then (write_positive_fixnum (nat (- x)) print_base 0) (\<lambda>ds. Inr (45 # ds))
        else write_positive_fixnum (nat x) print_base 0)
       (\<lambda>ds. Inr ((if print_radix \<and> print_base \<noteq> 10 then write_base print_base else []) @ ds
                  @ (if print_radix \<and> print_base = 10 then [46] else [])))"
| "write_integer g print_radix print_base (Big x) =
     and_then (write_bignum g print_base x)
       (\<lambda>ds. Inr ((if print_radix \<and> print_base \<noteq> 10 then write_base print_base else []) @ ds
                  @ (if print_radix \<and> print_base = 10 then [46] else [])))"

text \<open>A ratio: the radix is written once, then both integers without it.\<close>

fun write_number :: "gmp \<Rightarrow> bool \<Rightarrow> zint \<Rightarrow> rnum \<Rightarrow> text_error + nat list" where
  "write_number g print_radix print_base (Z x) =
     and_then (mkcl_print_base print_base) (\<lambda>base. write_integer g print_radix base x)"
| "write_number g print_radix print_base (Q num den) =
     and_then (mkcl_print_base print_base) (\<lambda>base.
     and_then (write_integer g False base num) (\<lambda>ds.
     and_then (write_integer g False base den) (\<lambda>ds'.
       Inr ((if print_radix then write_base base else []) @ ds @ 47 # ds'))))"

section \<open>Reading\<close>

function integer_loop :: "gmp \<Rightarrow> ucd \<Rightarrow> string_object \<Rightarrow> nat \<Rightarrow> nat \<Rightarrow> nat \<Rightarrow> int \<Rightarrow> text_error + (int \<times> nat)" where
  "integer_loop g u str i e radix n =
     (if i < e then
        and_then (mkcl_char str i) (\<lambda>c.
          let d = mkcl_digitp u c radix
          in if d < 0 then Inr (n, i)
             else integer_loop g u str (i + 1) e radix (mpz_add_ui g (mpz_mul_ui g n (int radix)) d))
      else Inr (n, i))"
  by pat_completeness auto

termination
  by (relation "measure (\<lambda>(g, u, str, i, e, radix, n). e - i)") auto

declare integer_loop.simps [simp del]

text \<open>The integer, or \<open>None\<close> for \<open>MKCL_OBJNULL\<close>, and the index where the reading ended.\<close>

definition mkcl_parse_integer :: "gmp \<Rightarrow> ucd \<Rightarrow> string_object \<Rightarrow> nat \<Rightarrow> nat \<Rightarrow> nat \<Rightarrow> text_error + (zint option \<times> nat)" where
  "mkcl_parse_integer g u str start e radix =
     (if start \<ge> e \<or> radix > 36 then Inr (None, 0)
      else and_then (mkcl_char str start) (\<lambda>c.
        let start' = (if c = 43 \<or> c = 45 then start + 1 else start)
        in and_then (integer_loop g u str start' e radix 0) (\<lambda>(n, i).
             Inr (if i = start' then None else Some (mkcl_big_register_normalize (if c = 45 then mpz_neg g n else n)), i))))"

text \<open>\<open>space\<close> says which characters the readtable has as whitespace.\<close>

function skip_space :: "(nat \<Rightarrow> bool) \<Rightarrow> string_object \<Rightarrow> nat \<Rightarrow> nat \<Rightarrow> text_error + nat" where
  "skip_space space str s e =
     (if s < e then and_then (mkcl_char str s) (\<lambda>c. if space c then skip_space space str (s + 1) e else Inr s) else Inr s)"
  by pat_completeness auto

termination
  by (relation "measure (\<lambda>(space, str, s, e). e - s)") auto

declare skip_space.simps [simp del]

definition mk_cl_parse_integer ::
  "gmp \<Rightarrow> ucd \<Rightarrow> (nat \<Rightarrow> bool) \<Rightarrow> string_object \<Rightarrow> int \<Rightarrow> int option \<Rightarrow> int \<Rightarrow> bool \<Rightarrow> text_error + (zint option \<times> nat)" where
  "mk_cl_parse_integer g u space str start en radix junk_allowed =
     and_then (mkcl_get_string_start_end str start en) (\<lambda>(s, e).
     and_then (radix_in_range radix) (\<lambda>r.
     and_then (skip_space space str s e) (\<lambda>s.
       if s \<ge> e then if junk_allowed then Inr (None, s) else Inl CannotParse
       else and_then (mkcl_parse_integer g u str s e (nat r)) (\<lambda>(x, ep).
         if junk_allowed then Inr (x, ep)
         else if x = None then Inl CannotParse
         else and_then (skip_space space str ep e) (\<lambda>s. if s < e then Inl CannotParse else Inr (x, e))))))"

datatype parsed = NoNumber | ZeroDenominator | Exact rnum | MakeFloat zint rnum nat int

text \<open>A pass over the text ends with a result, or asks for another with radix 10, or for a new call with radix 10.\<close>

datatype outcome = Done parsed nat | Again | Decimal

definition exponent_charp :: "nat \<Rightarrow> bool" where
  "exponent_charp c \<longleftrightarrow> c \<in> {101, 69, 102, 70, 115, 83, 100, 68, 108, 76}"

definition parse_ratio :: "gmp \<Rightarrow> ucd \<Rightarrow> string_object \<Rightarrow> nat \<Rightarrow> nat \<Rightarrow> nat \<Rightarrow> zint \<Rightarrow> text_error + outcome" where
  "parse_ratio g u str i e radix num =
     and_then (mkcl_char str i) (\<lambda>c.
       if mkcl_digitp u c radix < 0 then Inr (Done NoNumber i)
       else and_then (mkcl_parse_integer g u str i e radix) (\<lambda>(den, ep).
         case den of
           None \<Rightarrow> Inr (Done NoNumber ep)
         | Some d \<Rightarrow>
             if ep < e then Inr (Done NoNumber ep)
             else if d = make_fixnum 0 then Inr (Done ZeroDenominator ep)
             else (case mkcl_make_ratio g num d of
                     Inl err \<Rightarrow> Inl (Arithmetic err) | Inr r \<Rightarrow> Inr (Done (Exact r) ep))))"

definition parse_exponent ::
  "gmp \<Rightarrow> ucd \<Rightarrow> string_object \<Rightarrow> nat \<Rightarrow> nat \<Rightarrow> nat \<Rightarrow> zint \<Rightarrow> nat \<Rightarrow> int \<Rightarrow> text_error + outcome" where
  "parse_exponent g u str i e decimal num c sign =
     (let decimals = (if decimal < i then make_fixnum (int decimal - int i) else make_fixnum 0)
      in and_then (mkcl_parse_integer g u str (i + 1) e 10) (\<lambda>(exp, ep).
         case exp of
           None \<Rightarrow> Inr (Done NoNumber ep)
         | Some x \<Rightarrow>
             if ep < e then Inr (Done NoNumber ep)
             else (case mkcl_plus g (Z decimals) (Z x) of
                     Inl err \<Rightarrow> Inl (Arithmetic err) | Inr ex \<Rightarrow> Inr (Done (MakeFloat num ex c sign) ep))))"

function number_loop ::
  "gmp \<Rightarrow> ucd \<Rightarrow> string_object \<Rightarrow> nat \<Rightarrow> nat \<Rightarrow> nat \<Rightarrow> int \<Rightarrow> nat \<Rightarrow> int \<Rightarrow> text_error + outcome" where
  "number_loop g u str i e radix sign decimal n =
     (if i < e then
        and_then (mkcl_char str i) (\<lambda>c.
          if c = 47 then parse_ratio g u str (i + 1) e radix (mkcl_big_register_normalize (if sign < 0 then mpz_neg g n else n))
          else if c = 46 then
            if decimal \<le> i then Inr (Done NoNumber i)
            else if radix \<noteq> 10 then Inr Again
            else number_loop g u str (i + 1) e radix sign (i + 1) n
          else
            let d = mkcl_digitp u c radix
            in if d \<ge> 0 then
                 number_loop g u str (i + 1) e radix sign decimal (mpz_add_ui g (mpz_mul_ui g n (int radix)) d)
               else if exponent_charp c then
                 if radix \<noteq> 10 then Inr Again
                 else parse_exponent g u str i e decimal (mkcl_big_register_normalize n) c sign
               else if radix \<noteq> 10 then Inr Decimal
               else Inr (Done NoNumber i))
      else if decimal < i then
        Inr (Done (MakeFloat (mkcl_big_register_normalize n) (Z (make_fixnum (int decimal - int i))) 101 sign) i)
      else Inr (Done (Exact (Z (mkcl_big_register_normalize (if sign < 0 then mpz_neg g n else n)))) i))"
  by pat_completeness auto

termination
  by (relation "measure (\<lambda>(g, u, str, i, e, radix, sign, decimal, n). e - i)") auto

declare number_loop.simps [simp del]

text \<open>From the label \<open>AGAIN\<close> on.\<close>

definition parse_pass :: "gmp \<Rightarrow> ucd \<Rightarrow> string_object \<Rightarrow> nat \<Rightarrow> nat \<Rightarrow> nat \<Rightarrow> text_error + outcome" where
  "parse_pass g u str start e radix =
     and_then (mkcl_char str start) (\<lambda>c.
       let signed = (c = 43 \<or> c = 45); sign = (if c = 45 then - 1 else 1); i = (if signed then start + 1 else start)
       in if signed \<and> i = e then Inr (Done NoNumber i)
          else and_then (mkcl_char str i) (\<lambda>c.
            if c = 47 then Inr (Done NoNumber i) else number_loop g u str i e radix sign e 0))"

text \<open>With radix 10 no further pass is asked for.\<close>

definition parse_decimal :: "gmp \<Rightarrow> ucd \<Rightarrow> string_object \<Rightarrow> nat \<Rightarrow> nat \<Rightarrow> text_error + (parsed \<times> nat)" where
  "parse_decimal g u str start e =
     and_then (parse_pass g u str start e 10) (\<lambda>r. case r of Done x ep \<Rightarrow> Inr (x, ep) | _ \<Rightarrow> Inl SyntaxError)"

definition mkcl_parse_number :: "gmp \<Rightarrow> ucd \<Rightarrow> string_object \<Rightarrow> nat \<Rightarrow> nat \<Rightarrow> nat \<Rightarrow> text_error + (parsed \<times> nat)" where
  "mkcl_parse_number g u str start e radix =
     (if e \<le> start \<or> radix > 36 then Inr (NoNumber, start)
      else and_then (parse_pass g u str start e radix) (\<lambda>r.
        case r of
          Done x ep \<Rightarrow> Inr (x, ep)
        | Again \<Rightarrow> parse_decimal g u str start e
        | Decimal \<Rightarrow>
            and_then (parse_decimal g u str start e) (\<lambda>(x, ep).
              case x of
                MakeFloat _ _ _ _ \<Rightarrow> Inr (x, ep)
              | Exact (Z n) \<Rightarrow>
                  if ep > start then and_then (mkcl_char str (ep - 1)) (\<lambda>c. Inr (if c = 46 then x else NoNumber, ep))
                  else Inr (NoNumber, ep)
              | _ \<Rightarrow> Inr (NoNumber, ep))))"

section \<open>Names of characters\<close>

text \<open>
  \<open>base_names\<close> and \<open>ext_names\<close> are the tables of names, from codes to names and from names to codes, which are
  filled at the start and by the user. The other characters have names made of their codes in hexadecimal.
\<close>

definition hex_digit :: "nat \<Rightarrow> nat" where
  "hex_digit d = (if d < 10 then 48 + d else 97 + (d - 10))"

definition hex_digits :: "nat \<Rightarrow> nat \<Rightarrow> nat list" where
  "hex_digits n code = map (\<lambda>k. hex_digit (code div 16 ^ k mod 16)) (rev [0..<n])"

definition mk_cl_char_name :: "(nat \<Rightarrow> nat list option) \<Rightarrow> (nat \<Rightarrow> nat list option) \<Rightarrow> nat \<Rightarrow> nat list option" where
  "mk_cl_char_name base_names ext_names code =
     (if code \<le> MKCL_BASE_CHAR_CODE_LIMIT then base_names code
      else case ext_names code of
          Some name \<Rightarrow> Some name
        | None \<Rightarrow> Some (85 # hex_digits (if code < 0x10000 then 4 else 6) code))"

definition mk_cl_name_char ::
  "gmp \<Rightarrow> ucd \<Rightarrow> (nat list \<Rightarrow> nat option) \<Rightarrow> (nat list \<Rightarrow> nat option) \<Rightarrow> string_object \<Rightarrow> text_error + nat option" where
  "mk_cl_name_char g u base_codes ext_codes name =
     (case base_codes (contents name) of
        Some c \<Rightarrow> Inr (Some c)
      | None \<Rightarrow>
          (case ext_codes (contents name) of
             Some c \<Rightarrow> Inr (Some c)
           | None \<Rightarrow>
               if st_fillp name = 0 then Inr None
               else and_then (mkcl_char name 0) (\<lambda>c.
                 if st_fillp name = 1 \<or> (c \<noteq> 117 \<and> c \<noteq> 85) then Inr None
                 else and_then (mkcl_parse_integer g u name 1 (st_fillp name) 16) (\<lambda>(x, used_l).
                   case x of
                     Some (Fix n) \<Rightarrow>
                       if used_l < st_fillp name then Inr None
                       else let code = nat (n mod 2 ^ 32)
                            in Inr (if code \<ge> MKCL_CHAR_CODE_LIMIT then None else Some code)
                   | _ \<Rightarrow> Inr None))))"

end
