(* ===== verification/Pathnames.thy ===== *)
theory Pathnames
  imports Number_Text
begin

text \<open>
  Pathnames (\<^verbatim>\<open>src/src/c/pathname.c\<close>, the Unix build): canonical directories, parsing and printing of
  namestrings, merging, matching and translation. A component is a value \<open>pval\<close>; NIL is the empty list.
  Strings are lists of character codes. The list of logical hosts, the home directories and the
  translations are arguments.

  A directory list is changed in place while it is made canonical. Its cells are a memory of their own:
  a list of items and links, the first cell at 0. When pathnames are merged the list can also belong to one of
  them; that list has been through this function before, and what the code may still change in it is not
  seen in the other pathname here.
\<close>

section \<open>Components\<close>

datatype pval =
    PStr "nat list" | PInt int | PList "pval list"
  | PUnspecific | PWild | PWildInferiors | PNewest | PAbsolute | PRelative | PUp | PBack | PError | POther

abbreviation PNil :: pval where
  "PNil \<equiv> PList []"

record pname =
  pn_logical :: bool
  pn_complete :: bool
  pn_host :: pval
  pn_device :: pval
  pn_directory :: pval
  pn_name :: pval
  pn_type :: pval
  pn_version :: pval

datatype path_error =
    BadIndex | NotAString | NotAList | NoCons | NullCell | InvalidComponent | PathFileError | UnsupportedWildcard
  | NotASpecialization | WildcardCount | NoTranslation | NotANumber text_error

fun stringp :: "pval \<Rightarrow> bool" where
  "stringp (PStr _) = True"
| "stringp _ = False"

fun consp :: "pval \<Rightarrow> bool" where
  "consp (PList (_ # _)) = True"
| "consp _ = False"

definition codes :: "string \<Rightarrow> nat list" where
  "codes = map of_char"

text \<open>The string that \<open>mk_cl_string\<close> makes of a component, and the elements of a list.\<close>

fun string_of :: "pval \<Rightarrow> path_error + nat list" where
  "string_of (PStr s) = Inr s"
| "string_of (PList []) = Inr (codes ''NIL'')"
| "string_of PUnspecific = Inr (codes ''UNSPECIFIC'')"
| "string_of PWild = Inr (codes ''WILD'')"
| "string_of PWildInferiors = Inr (codes ''WILD-INFERIORS'')"
| "string_of PNewest = Inr (codes ''NEWEST'')"
| "string_of PAbsolute = Inr (codes ''ABSOLUTE'')"
| "string_of PRelative = Inr (codes ''RELATIVE'')"
| "string_of PUp = Inr (codes ''UP'')"
| "string_of PBack = Inr (codes ''BACK'')"
| "string_of PError = Inr (codes ''ERROR'')"
| "string_of _ = Inl NotAString"

fun list_of :: "pval \<Rightarrow> path_error + pval list" where
  "list_of (PList l) = Inr l"
| "list_of _ = Inl NotAList"

definition same_letters :: "ucd \<Rightarrow> nat list \<Rightarrow> nat list \<Rightarrow> bool" where
  "same_letters u s t \<longleftrightarrow> map (mkcl_char_upcase u) s = map (mkcl_char_upcase u) t"

section \<open>Canonical directories\<close>

type_synonym dircells = "(pval \<times> nat option) list"

definition cells_of :: "pval list \<Rightarrow> dircells" where
  "cells_of d = map (\<lambda>i. (d ! i, if i + 1 < length d then Some (i + 1) else None)) [0..<length d]"

fun dir_nthcdr :: "dircells \<Rightarrow> nat \<Rightarrow> nat option \<Rightarrow> nat option" where
  "dir_nthcdr h 0 p = p"
| "dir_nthcdr h (Suc n) p = (case p of None \<Rightarrow> None | Some a \<Rightarrow> dir_nthcdr h n (snd (h ! a)))"

definition dir_nth :: "dircells \<Rightarrow> nat \<Rightarrow> pval" where
  "dir_nth h n = (case dir_nthcdr h n (Some 0) of None \<Rightarrow> PNil | Some a \<Rightarrow> fst (h ! a))"

definition dir_rplacd :: "dircells \<Rightarrow> nat option \<Rightarrow> nat option \<Rightarrow> path_error + dircells" where
  "dir_rplacd h p q = (case p of None \<Rightarrow> Inl NullCell | Some a \<Rightarrow> Inr (h[a := (fst (h ! a), q)]))"

fun dir_items :: "dircells \<Rightarrow> nat \<Rightarrow> nat option \<Rightarrow> pval list" where
  "dir_items h 0 p = []"
| "dir_items h (Suc n) p = (case p of None \<Rightarrow> [] | Some a \<Rightarrow> fst (h ! a) # dir_items h n (snd (h ! a)))"

text \<open>
  One turn of the loop: the cells, and where the loop goes on. \<open>DirError\<close> stands for the result \<open>:error\<close>,
  \<open>Begin\<close> for the jump to the label.
\<close>

datatype dir_step = DirError | Begin dircells | DirNext dircells

definition dir_turn :: "ucd \<Rightarrow> bool \<Rightarrow> dircells \<Rightarrow> nat \<Rightarrow> nat \<Rightarrow> path_error + dir_step" where
  "dir_turn u lg h a i =
     (let item = fst (h ! a); nxt = snd (h ! a)
      in case item of
           PBack \<Rightarrow>
             if i = 0 \<or> dir_nth h (i - 1) = PAbsolute \<or> dir_nth h (i - 1) = PWildInferiors then Inr DirError
             else if i \<ge> 2 then and_then (dir_rplacd h (dir_nthcdr h (i - 2) (Some 0)) nxt) (\<lambda>h'. Inr (DirNext h'))
             else Inr (DirNext h)
         | PUp \<Rightarrow>
             if i = 0 \<or> dir_nth h (i - 1) = PAbsolute \<or> dir_nth h (i - 1) = PWildInferiors then Inr DirError
             else Inr (DirNext h)
         | PRelative \<Rightarrow> Inr (if i > 0 then DirError else DirNext h)
         | PAbsolute \<Rightarrow> Inr (if i > 0 then DirError else DirNext h)
         | PStr s \<Rightarrow>
             if lg then Inr (DirNext (h[a := (PStr (map (mkcl_char_upcase u) s), nxt)]))
             else if s = [46] then
               if i = 0 then Inr DirError
               else and_then (dir_rplacd h (dir_nthcdr h (i - 1) (Some 0)) nxt) (\<lambda>h'. Inr (Begin h'))
             else if s = [46, 46] then Inr (Begin (h[a := (PBack, nxt)]))
             else Inr (DirNext h)
         | PWild \<Rightarrow> Inr (DirNext h)
         | PWildInferiors \<Rightarrow> Inr (DirNext h)
         | _ \<Rightarrow> Inr DirError)"

partial_function (option) dir_loop :: "ucd \<Rightarrow> bool \<Rightarrow> dircells \<Rightarrow> nat option \<Rightarrow> nat \<Rightarrow> (path_error + dircells option) option" where
  "dir_loop u lg h ptr i =
     (case ptr of
        None \<Rightarrow> Some (Inr (Some h))
      | Some a \<Rightarrow>
          (case dir_turn u lg h a i of
             Inl err \<Rightarrow> Some (Inl err)
           | Inr DirError \<Rightarrow> Some (Inr None)
           | Inr (Begin h') \<Rightarrow> dir_loop u lg h' (Some 0) 0
           | Inr (DirNext h') \<Rightarrow> dir_loop u lg h' (snd (h' ! a)) (i + 1)))"

declare dir_loop.simps [code]

definition canonicalize_directory_destructively :: "ucd \<Rightarrow> pval \<Rightarrow> bool \<Rightarrow> (path_error + pval) option" where
  "canonicalize_directory_destructively u directory lg =
     (if directory = PNil \<or> directory = PUnspecific then Some (Inr directory)
      else case directory of
          PList (d # ds) \<Rightarrow>
            if d \<noteq> PAbsolute \<and> d \<noteq> PRelative then Some (Inr PError)
            else (case dir_loop u lg (cells_of (d # ds)) (Some 0) 0 of
                    None \<Rightarrow> None
                  | Some (Inl err) \<Rightarrow> Some (Inl err)
                  | Some (Inr None) \<Rightarrow> Some (Inr PError)
                  | Some (Inr (Some h)) \<Rightarrow> Some (Inr (PList (dir_items h (length h) (Some 0)))))
        | _ \<Rightarrow> Some (Inr PError))"

section \<open>Parsing of namestrings\<close>

datatype wflag = IncludeDelim | AllowAsterisk | EmptyIsNil | LogicalWord | SearchLastDot | AllowLeadingDot | DisallowSlash | DisallowSemicolon

definition is_colon :: "nat \<Rightarrow> bool" where "is_colon c \<longleftrightarrow> c = 58"

definition is_slash :: "nat \<Rightarrow> bool" where "is_slash c \<longleftrightarrow> c = 47"

definition is_semicolon :: "nat \<Rightarrow> bool" where "is_semicolon c \<longleftrightarrow> c = 59"

definition is_dot :: "nat \<Rightarrow> bool" where "is_dot c \<longleftrightarrow> c = 46"

definition is_null :: "nat \<Rightarrow> bool" where "is_null c \<longleftrightarrow> c = 0"

definition char_at :: "nat list \<Rightarrow> nat \<Rightarrow> path_error + nat" where
  "char_at s i = (if i < length s then Inr (s ! i) else Inl BadIndex)"

text \<open>
  The end of the loop, the last delimiter and whether the last asterisk followed another; \<open>None\<close> for a character
  that is not valid. \<open>wild\<close> says that the namestring may have wildcards.
\<close>

function word_loop ::
  "ucd \<Rightarrow> (nat \<Rightarrow> bool) \<Rightarrow> wflag set \<Rightarrow> bool \<Rightarrow> nat list \<Rightarrow> nat \<Rightarrow> nat \<Rightarrow> nat \<Rightarrow> nat \<Rightarrow> bool \<Rightarrow> path_error + (nat \<times> nat \<times> bool) option" where
  "word_loop u delim flags wild s start e i last_delim wi =
     (if i < e then
        and_then (char_at s i) (\<lambda>c.
          let last' = (if delim c then i else last_delim)
          in if delim c \<and> i = start \<and> AllowLeadingDot \<in> flags then word_loop u delim flags wild s start e (i + 1) last_delim wi
             else if delim c \<and> SearchLastDot \<notin> flags then Inr (Some (i, last', wi))
             else if c = 42 then
               if AllowAsterisk \<notin> flags \<and> wild then Inr None
               else word_loop u delim flags wild s start e (i + 1) last' (i > start \<and> char_at s (i - 1) = Inr 42)
             else if is_semicolon c \<and> (DisallowSemicolon \<in> flags \<or> LogicalWord \<in> flags) then Inr None
             else if is_slash c \<and> (DisallowSlash \<in> flags \<or> LogicalWord \<in> flags) then Inr None
             else if (if LogicalWord \<in> flags then c = 45 \<or> mkcl_alphanumericp u c else c \<noteq> 0)
             then word_loop u delim flags wild s start e (i + 1) last' wi
             else Inr None)
      else Inr (Some (i, last_delim, wi)))"
  by pat_completeness auto

termination
  by (relation "measure (\<lambda>(u, delim, flags, wild, s, start, e, i, last_delim, wi). e - i)") auto

declare word_loop.simps [simp del]

definition word_value :: "ucd \<Rightarrow> wflag set \<Rightarrow> bool \<Rightarrow> bool \<Rightarrow> nat list \<Rightarrow> pval" where
  "word_value u flags wild wi w =
     (if w = [] then if EmptyIsNil \<in> flags then PNil else PStr []
      else if w = [42] \<and> wild then PWild
      else if w = [42, 42] \<and> wild then PWildInferiors
      else if w = [46, 46] \<and> LogicalWord \<notin> flags \<and> AllowLeadingDot \<notin> flags then PUp
      else if length w > 2 \<and> wi \<and> wild then PError
      else PStr (if LogicalWord \<in> flags then map (mkcl_char_upcase u) w else w))"

definition parse_word ::
  "ucd \<Rightarrow> nat list \<Rightarrow> (nat \<Rightarrow> bool) \<Rightarrow> wflag set \<Rightarrow> bool \<Rightarrow> nat \<Rightarrow> nat \<Rightarrow> path_error + (pval \<times> nat)" where
  "parse_word u s delim flags wild start e =
     (case word_loop u delim flags wild s start e start e False of
        Inl err \<Rightarrow> Inl err
      | Inr None \<Rightarrow> Inr (PError, start)
      | Inr (Some (i, last_delim, wi)) \<Rightarrow>
          let i' = (if i > last_delim then last_delim else i)
          in if \<not> i' < e \<and> IncludeDelim \<in> flags then Inr (PNil, start)
             else Inr (word_value u flags wild wi (take (i' - start) (drop start s)), if i' < e then i' + 1 else e))"

lemma word_value_PNil: "word_value u flags wild wi w = PNil \<Longrightarrow> w = []"
  by (simp add: word_value_def split: if_splits)

lemma word_loop_turn:
  obtains (again) l' wi' where "i < e" "word_loop u delim flags wild s start e i l wi = word_loop u delim flags wild s start e (i + 1) l' wi'"
      "l' = l \<or> l' = i"
  | (stop) l' where "word_loop u delim flags wild s start e i l wi = Inr (Some (i, l', wi))" "l' = l \<or> l' = i"
  | (invalid) "word_loop u delim flags wild s start e i l wi = Inr None"
  | (bad) err where "word_loop u delim flags wild s start e i l wi = Inl err"
proof (cases "i < e \<and> i < length s")
  case True
  let ?c = "s ! i"
  note eq = word_loop.simps [of u delim flags wild s start e i l wi]
  have c: "char_at s i = Inr ?c" using True by (simp add: char_at_def)
  show thesis
  proof (cases "delim ?c")
    case True
    then show thesis
      using eq c \<open>i < e \<and> i < length s\<close> again stop invalid by (simp add: Let_def split: if_splits)
  next
    case False
    then show thesis
      using eq c \<open>i < e \<and> i < length s\<close> again invalid by (simp add: Let_def split: if_splits)
  qed
next
  case False
  then show thesis
    using word_loop.simps [of u delim flags wild s start e i l wi] stop bad by (auto simp: char_at_def split: if_splits)
qed

lemma word_loop_bounds:
  assumes "word_loop u delim flags wild s start e i l wi = Inr (Some (i', l', wi'))" "start \<le> i" "start \<le> l"
  shows "i \<le> i' \<and> start \<le> l'"
  using assms
proof (induction "e - i" arbitrary: i l wi)
  case 0
  then show ?case
    by (rule_tac word_loop_turn [of i e u delim flags wild s start l wi]) auto
next
  case (Suc n)
  show ?case
  proof (cases rule: word_loop_turn [of i e u delim flags wild s start l wi])
    case (again l'' wi'')
    then have "n = e - (i + 1)" "start \<le> l''" using Suc.hyps(2) Suc.prems by auto
    then show ?thesis using Suc.hyps(1) [of "i + 1" l'' wi''] again(2) Suc.prems by auto
  qed (use Suc.prems in auto)
qed

lemma parse_word_advances:
  assumes "parse_word u s delim flags wild start e = Inr (part, i)" "IncludeDelim \<in> flags" "part \<noteq> PNil" "part \<noteq> PError"
    "start < e"
  shows "start < i"
proof -
  obtain k l wi where w: "word_loop u delim flags wild s start e start e False = Inr (Some (k, l, wi))"
    using assms(1,4) by (auto simp: parse_word_def split: sum.splits option.splits)
  have "start \<le> k" "start \<le> l" using word_loop_bounds [OF w] assms(5) by auto
  then show ?thesis
    using assms w by (auto simp: parse_word_def Let_def split: if_splits)
qed

text \<open>The directory components so far and the end of the directory; \<open>None\<close> for the result \<open>:error\<close>.\<close>

function dirs_loop ::
  "ucd \<Rightarrow> wflag set \<Rightarrow> bool \<Rightarrow> nat list \<Rightarrow> nat \<Rightarrow> nat \<Rightarrow> nat \<Rightarrow> pval list \<Rightarrow> nat \<Rightarrow> path_error + (pval list option \<times> nat)" where
  "dirs_loop u flags wild s start e j path end_of_dir =
     (if j < e then
        (case parse_word u s (if LogicalWord \<in> flags then is_semicolon else is_slash)
                (insert IncludeDelim (insert AllowAsterisk flags)) wild j e of
           Inl err \<Rightarrow> Inl err
         | Inr (part, i) \<Rightarrow>
             if part = PError \<or> part = PNil then Inr (Some path, end_of_dir)
             else if part = PStr [] then
               if j \<noteq> start then
                 if LogicalWord \<in> flags then Inr (None, end_of_dir) else dirs_loop u flags wild s start e i path i
               else dirs_loop u flags wild s start e i (path @ [if LogicalWord \<in> flags then PRelative else PAbsolute]) i
             else dirs_loop u flags wild s start e i (path @ [part]) i)
      else Inr (Some path, end_of_dir))"
  by pat_completeness auto

termination
  by (relation "measure (\<lambda>(u, flags, wild, s, start, e, j, path, eod). e - j)")
     (auto dest!: parse_word_advances intro: diff_less_mono2)

declare dirs_loop.simps [simp del]

definition parse_directories :: "ucd \<Rightarrow> nat list \<Rightarrow> wflag set \<Rightarrow> bool \<Rightarrow> nat \<Rightarrow> nat \<Rightarrow> path_error + (pval list option \<times> nat)" where
  "parse_directories u s flags wild start e = dirs_loop u flags wild s start e start [] start"

definition mkcl_logical_hostname_p :: "ucd \<Rightarrow> nat list \<Rightarrow> nat list list \<Rightarrow> pval \<Rightarrow> bool" where
  "mkcl_logical_hostname_p u localhost hosts host =
     (case host of PStr h \<Rightarrow> h \<noteq> localhost \<and> list_ex (same_letters u h) hosts | _ \<Rightarrow> False)"

definition make_pathname :: "bool \<Rightarrow> pval \<Rightarrow> pval \<Rightarrow> pval \<Rightarrow> pval \<Rightarrow> pval \<Rightarrow> pval \<Rightarrow> pname" where
  "make_pathname lg host device directory name type version =
     \<lparr>pn_logical = lg, pn_complete = False, pn_host = host, pn_device = device, pn_directory = directory,
      pn_name = name, pn_type = type, pn_version = version\<rparr>"

definition all_present :: "pname \<Rightarrow> bool" where
  "all_present p \<longleftrightarrow> pn_host p \<noteq> PNil \<and> pn_device p \<noteq> PNil \<and> pn_directory p \<noteq> PNil \<and> pn_name p \<noteq> PNil
     \<and> pn_type p \<noteq> PNil \<and> pn_version p \<noteq> PNil"

fun absolute :: "pval \<Rightarrow> bool" where
  "absolute (PList (d # _)) \<longleftrightarrow> d = PAbsolute"
| "absolute _ \<longleftrightarrow> False"

section \<open>Merging\<close>

text \<open>
  \<open>translate\<close> is the translation of logical pathnames; \<open>one_host\<close> says whether the hosts of the two pathnames are the
  same object. On Unix the default device is \<open>:unspecific\<close>. The code takes the \<open>cdr\<close> of the directory of the pathname also when
  this is the symbol \<open>:unspecific\<close>, and so reads a symbol as a cons (\<open>NoCons\<close>).
\<close>

definition mkcl_meld_pathnames ::
  "ucd \<Rightarrow> (pname \<Rightarrow> (path_error + pname) option) \<Rightarrow> bool \<Rightarrow> pname \<Rightarrow> pname \<Rightarrow> pval \<Rightarrow> (path_error + pname) option" where
  "mkcl_meld_pathnames u translate one_host path defaults0 default_version =
     (if pn_complete path then Some (Inr path)
      else if pn_logical path \<and> \<not> pn_logical defaults0 then Some (Inr path)
      else
        case (if \<not> pn_logical path \<and> pn_logical defaults0 then translate defaults0 else Some (Inr defaults0)) of
          None \<Rightarrow> None
        | Some (Inl err) \<Rightarrow> Some (Inl err)
        | Some (Inr defaults) \<Rightarrow>
            if pn_directory path \<noteq> PNil \<and> \<not> consp (pn_directory path) \<and> consp (pn_directory defaults) then Some (Inl NoCons)
            else
            let host = (if pn_host path = PNil then pn_host defaults else pn_host path);
                lg = (if pn_host path = PNil then pn_logical defaults else pn_logical path);
                device =
                  (if pn_device path = PNil then
                     if pn_host path = PNil then pn_device defaults
                     else if one_host then pn_device defaults else PUnspecific
                   else pn_device path);
                directory =
                  (if pn_directory path = PNil then pn_directory defaults
                   else if absolute (pn_directory path) then pn_directory path
                   else case (pn_directory defaults, pn_directory path) of
                       (PList (d # ds), PList (_ # es)) \<Rightarrow> PList (d # ds @ es)
                     | _ \<Rightarrow> pn_directory path);
                name = (if pn_name path = PNil then pn_name defaults else pn_name path);
                type = (if pn_type path = PNil then pn_type defaults else pn_type path);
                version0 = (if pn_name path = PNil \<and> pn_version path = PNil then pn_version defaults else pn_version path);
                version = (if version0 = PNil then default_version else version0)
            in case canonicalize_directory_destructively u directory lg of
                 None \<Rightarrow> None
               | Some (Inl err) \<Rightarrow> Some (Inl err)
               | Some (Inr d) \<Rightarrow>
                   if d = PError then Some (Inl PathFileError)
                   else
                     let new = make_pathname lg host device d name type version
                     in Some (Inr (new\<lparr>pn_complete := all_present new \<and> (consp d \<longrightarrow> absolute d)\<rparr>)))"

definition mkcl_merge_pathnames ::
  "ucd \<Rightarrow> (pname \<Rightarrow> (path_error + pname) option) \<Rightarrow> bool \<Rightarrow> pname \<Rightarrow> pname \<Rightarrow> pval \<Rightarrow> (path_error + pname) option" where
  "mkcl_merge_pathnames u translate one_host path defaults default_version =
     (if pn_complete path then Some (Inr path) else mkcl_meld_pathnames u translate one_host path defaults default_version)"

section \<open>Making and parsing pathnames\<close>

text \<open>A directory argument that is a string or \<open>:wild\<close> becomes a list; \<open>None\<close> for one that is not valid.\<close>

definition directory_argument :: "bool \<Rightarrow> pval \<Rightarrow> pval option" where
  "directory_argument lg directory =
     (case directory of
        PStr s \<Rightarrow> Some (PList [PAbsolute, PStr s])
      | PList l \<Rightarrow> Some (PList l)
      | PUnspecific \<Rightarrow> if lg then None else Some PUnspecific
      | PWild \<Rightarrow> Some (PList [PAbsolute, PWildInferiors])
      | _ \<Rightarrow> None)"

definition component_ok :: "bool \<Rightarrow> pval \<Rightarrow> bool" where
  "component_ok lg x \<longleftrightarrow> x = PNil \<or> \<not> ((lg \<and> x = PUnspecific) \<or> (\<not> stringp x \<and> x \<noteq> PWild \<and> x \<noteq> PUnspecific))"

definition version_ok :: "bool \<Rightarrow> pval \<Rightarrow> bool" where
  "version_ok lg x \<longleftrightarrow> x = PNil \<or> \<not> ((lg \<and> x = PUnspecific)
     \<or> (x \<noteq> PNewest \<and> x \<noteq> PUnspecific \<and> x \<noteq> PWild \<and> (case x of PInt n \<Rightarrow> \<not> (fixnum_range n \<and> 0 < n) | _ \<Rightarrow> True)))"

definition upcased :: "ucd \<Rightarrow> bool \<Rightarrow> pval \<Rightarrow> pval" where
  "upcased u lg x = (case x of PStr s \<Rightarrow> if lg then PStr (map (mkcl_char_upcase u) s) else x | _ \<Rightarrow> x)"

definition mkcl_make_pathname ::
  "ucd \<Rightarrow> nat list \<Rightarrow> nat list list \<Rightarrow> pval \<Rightarrow> pval option \<Rightarrow> pval \<Rightarrow> pval \<Rightarrow> pval \<Rightarrow> pval \<Rightarrow> (path_error + pname) option" where
  "mkcl_make_pathname u localhost hosts host device0 directory0 name type version =
     (if \<not> stringp host \<and> host \<noteq> PNil then Some (Inl InvalidComponent)
      else
        let lg = (stringp host \<and> mkcl_logical_hostname_p u localhost hosts host);
            device1 = (case device0 of None \<Rightarrow> if lg then PUnspecific else PNil | Some d \<Rightarrow> d);
            device = (if lg then PUnspecific else device1)
        in if \<not> lg \<and> device \<noteq> PNil \<and> \<not> stringp device \<and> device \<noteq> PUnspecific \<and> device \<noteq> PWild then Some (Inl InvalidComponent)
           else if \<not> component_ok lg name \<or> \<not> component_ok lg type \<or> \<not> version_ok lg version then Some (Inl InvalidComponent)
           else case directory_argument lg directory0 of
               None \<Rightarrow> Some (Inl InvalidComponent)
             | Some directory \<Rightarrow>
                 (case canonicalize_directory_destructively u directory lg of
                    None \<Rightarrow> None
                  | Some (Inl err) \<Rightarrow> Some (Inl err)
                  | Some (Inr d) \<Rightarrow>
                      if d = PError then Some (Inl PathFileError)
                      else
                        let p = make_pathname lg host device d (upcased u lg name) (upcased u lg type) version
                        in Some (Inr (p\<lparr>pn_complete := all_present p \<and> (consp d \<longrightarrow> absolute d)\<rparr>))))"

text \<open>\<open>homedir\<close> is the home directory of a user, as the operating system has it.\<close>

definition tilde_expand ::
  "ucd \<Rightarrow> nat list \<Rightarrow> (nat list \<Rightarrow> pname option) \<Rightarrow> (pname \<Rightarrow> (path_error + pname) option) \<Rightarrow> bool \<Rightarrow> pname \<Rightarrow> (path_error + pname) option" where
  "tilde_expand u localhost homedir translate one_host p =
     (if pn_logical p \<or> (pn_host p \<noteq> PNil \<and> pn_host p \<noteq> PStr localhost) \<or> (pn_device p \<noteq> PNil \<and> pn_device p \<noteq> PUnspecific)
      then Some (Inr p)
      else case pn_directory p of
          PList (PRelative # PStr (c # user) # ds) \<Rightarrow>
            (case if c = 126 then homedir (c # user) else None of
               None \<Rightarrow> Some (Inr p)
             | Some home \<Rightarrow>
                 mkcl_merge_pathnames u translate one_host (p\<lparr>pn_directory := PList (PRelative # ds)\<rparr>) home PNewest)
        | _ \<Rightarrow> Some (Inr p))"

text \<open>Directory, name and type of a physical namestring, with the cases for the names \<open>.\<close> and \<open>..\<close>.\<close>

definition finish_physical :: "pval \<Rightarrow> pval \<Rightarrow> pval option \<Rightarrow> pval \<times> pval \<times> pval" where
  "finish_physical dir name type =
     (case type of
        None \<Rightarrow> if dir = PNil \<and> name = PStr [46] then (PList [PRelative], PNil, PNil) else (dir, name, PNil)
      | Some ty \<Rightarrow>
          if ty = PStr [] \<and> name = PStr [46]
          then (if dir = PNil then PList [PRelative, PUp] else case dir of PList l \<Rightarrow> PList (l @ [PUp]) | _ \<Rightarrow> dir, PNil, PNil)
          else (dir, name, ty))"

definition parse_physical_name ::
  "ucd \<Rightarrow> nat list \<Rightarrow> bool \<Rightarrow> pval \<Rightarrow> nat \<Rightarrow> nat \<Rightarrow> path_error + ((pval \<times> pval \<times> pval) option \<times> nat)" where
  "parse_physical_name u s wild dir start e =
     (case parse_word u s is_dot {AllowLeadingDot, SearchLastDot, AllowAsterisk, EmptyIsNil} wild start e of
        Inl err \<Rightarrow> Inl err
      | Inr (name, ep) \<Rightarrow>
          if name = PError then Inr (None, ep)
          else if ep - start \<le> 1 \<or> char_at s (ep - 1) \<noteq> Inr 46 then Inr (Some (finish_physical dir name None), ep)
          else (case parse_word u s is_null {AllowAsterisk} wild ep e of
                  Inl err \<Rightarrow> Inl err
                | Inr (type, ep') \<Rightarrow>
                    if type = PError then Inr (None, ep')
                    else Inr (Some (finish_physical dir name (Some type)), ep')))"

definition parse_physical ::
  "ucd \<Rightarrow> nat list \<Rightarrow> nat list \<Rightarrow> bool \<Rightarrow> nat \<Rightarrow> nat \<Rightarrow> (path_error + (pname option \<times> nat)) option" where
  "parse_physical u localhost s wild start e =
     (case parse_word u s is_colon {IncludeDelim, EmptyIsNil, DisallowSlash} wild start e of
        Inl err \<Rightarrow> Some (Inl err)
      | Inr (maybe_host, ep) \<Rightarrow>
          let host = (if maybe_host = PNil \<or> maybe_host = PError then PStr localhost else maybe_host)
          in case parse_directories u s {} wild ep e of
               Inl err \<Rightarrow> Some (Inl err)
             | Inr (None, ep') \<Rightarrow> Some (Inr (None, ep'))
             | Inr (Some ds, ep') \<Rightarrow>
                 let dir = (case ds of [] \<Rightarrow> PNil
                            | d # _ \<Rightarrow> PList (if d = PRelative \<or> d = PAbsolute then ds else PRelative # ds))
                 in (case canonicalize_directory_destructively u dir False of
                       None \<Rightarrow> None
                     | Some (Inl err) \<Rightarrow> Some (Inl err)
                     | Some (Inr d) \<Rightarrow>
                         if d = PError then Some (Inr (None, ep'))
                         else case parse_physical_name u s wild d ep' e of
                             Inl err \<Rightarrow> Some (Inl err)
                           | Inr (None, ep'') \<Rightarrow> Some (Inr (None, ep''))
                           | Inr (Some (d', name, type), ep'') \<Rightarrow>
                               let version = (if name \<noteq> PNil \<or> type \<noteq> PNil then PNewest else PNil);
                                   p = make_pathname False host PUnspecific d' name type version
                               in Some (Inr (Some (p\<lparr>pn_complete := all_present p \<and> absolute d'\<rparr>), ep''))))"

definition parse_version :: "gmp \<Rightarrow> ucd \<Rightarrow> (nat \<Rightarrow> bool) \<Rightarrow> pval \<Rightarrow> path_error + pval option" where
  "parse_version g u space aux =
     (case aux of
        PList [] \<Rightarrow> Inr (Some PNil)
      | PWild \<Rightarrow> Inr (Some PWild)
      | PStr a \<Rightarrow>
          (case mk_cl_parse_integer g u space (simple_string False a) 0 None 10 True of
             Inl err \<Rightarrow> Inl (NotANumber err)
           | Inr (x, len) \<Rightarrow>
               Inr (case x of
                      Some n \<Rightarrow>
                        if ival n > 0 \<and> len = length a then Some (PInt (ival n))
                        else if same_letters u a (codes ''NEWEST'') then Some PNewest else None
                    | None \<Rightarrow> if same_letters u a (codes ''NEWEST'') then Some PNewest else None))
      | _ \<Rightarrow> Inl NotAString)"

text \<open>A word of a logical namestring up to a dot, and whether the dot is there.\<close>

definition logical_word :: "ucd \<Rightarrow> nat list \<Rightarrow> bool \<Rightarrow> nat \<Rightarrow> nat \<Rightarrow> nat \<Rightarrow> path_error + (pval \<times> nat \<times> bool)" where
  "logical_word u s wild start ep e =
     and_then (parse_word u s is_dot {LogicalWord, AllowAsterisk, EmptyIsNil} wild ep e) (\<lambda>(w, ep').
       Inr (w, ep', ep' \<noteq> start \<and> char_at s (ep' - 1) = Inr 46))"

text \<open>Name, type and version of a logical namestring; \<open>None\<close> when it is not valid.\<close>

definition parse_logical_name ::
  "gmp \<Rightarrow> ucd \<Rightarrow> (nat \<Rightarrow> bool) \<Rightarrow> nat list \<Rightarrow> bool \<Rightarrow> nat \<Rightarrow> nat \<Rightarrow> nat \<Rightarrow> path_error + ((pval \<times> pval \<times> pval) option \<times> nat)" where
  "parse_logical_name g u space s wild start ep e =
     and_then (logical_word u s wild start ep e) (\<lambda>(name, ep1, dot1).
       if name = PError then Inr (None, ep1)
       else if \<not> dot1 then Inr (Some (name, PNil, PNil), ep1)
       else and_then (logical_word u s wild start ep1 e) (\<lambda>(type, ep2, dot2).
         if type = PError then Inr (None, ep2)
         else if \<not> dot2 then Inr (Some (name, type, PNil), ep2)
         else and_then (parse_word u s is_null {LogicalWord, AllowAsterisk, EmptyIsNil} wild ep2 e) (\<lambda>(aux, ep3).
           if aux = PError then Inr (None, ep3)
           else and_then (parse_version g u space aux) (\<lambda>v. Inr (map_option (\<lambda>ver. (name, type, ver)) v, ep3)))))"

definition parse_logical ::
  "gmp \<Rightarrow> ucd \<Rightarrow> (nat \<Rightarrow> bool) \<Rightarrow> pval \<Rightarrow> nat list \<Rightarrow> bool \<Rightarrow> nat \<Rightarrow> nat \<Rightarrow> nat \<Rightarrow> (path_error + (pname option \<times> nat)) option" where
  "parse_logical g u space host s wild start ep e =
     (case parse_directories u s {LogicalWord} wild ep e of
        Inl err \<Rightarrow> Some (Inl err)
      | Inr (None, ep') \<Rightarrow> Some (Inr (None, ep'))
      | Inr (Some ds, ep') \<Rightarrow>
          let dir = PList (if ds \<noteq> [] \<and> (hd ds = PRelative \<or> hd ds = PAbsolute) then ds else PAbsolute # ds)
          in (case if ds = [] then Some (Inr dir) else canonicalize_directory_destructively u dir True of
                None \<Rightarrow> None
              | Some (Inl err) \<Rightarrow> Some (Inl err)
              | Some (Inr d) \<Rightarrow>
                  if d = PError then Some (Inr (None, ep'))
                  else case parse_logical_name g u space s wild start ep' e of
                      Inl err \<Rightarrow> Some (Inl err)
                    | Inr (None, ep'') \<Rightarrow> Some (Inr (None, ep''))
                    | Inr (Some (name, type, version), ep'') \<Rightarrow>
                        let p = make_pathname True host PUnspecific d name type version
                        in Some (Inr (Some (p\<lparr>pn_complete := all_present p \<and> absolute d\<rparr>), ep''))))"

text \<open>
  The system of pathnames: the name of the local host, the logical hosts, the home directories of users, the
  translation of logical pathnames, and whether a home directory has the local host as its host object.
\<close>

record path_system =
  sys_localhost :: "nat list"
  sys_hosts :: "nat list list"
  sys_homedir :: "nat list \<Rightarrow> pname option"
  sys_translation :: "pname \<Rightarrow> (path_error + pname) option"
  sys_one_host :: bool

text \<open>\<open>ep0\<close> is what the place for the end of parsing held before: for an empty range it is not set.\<close>

definition mkcl_parse_namestring ::
  "gmp \<Rightarrow> ucd \<Rightarrow> (nat \<Rightarrow> bool) \<Rightarrow> path_system \<Rightarrow> nat list \<Rightarrow> nat \<Rightarrow> nat \<Rightarrow> nat \<Rightarrow> pval \<Rightarrow> bool \<Rightarrow> (path_error + (pname option \<times> nat)) option" where
  "mkcl_parse_namestring g u space sys s start e ep0 default_host wild =
     (case (if start = e \<or> s = [] then Some (Inr (Some (make_pathname False PNil PNil PNil PNil PNil PNil), ep0))
            else case parse_word u s is_colon {LogicalWord, IncludeDelim, DisallowSemicolon} wild start e of
                Inl err \<Rightarrow> Some (Inl err)
              | Inr (host0, ep) \<Rightarrow>
                  let host = (if default_host \<noteq> PNil \<and> (host0 = PNil \<or> host0 = PError) then default_host else host0)
                  in if host \<noteq> PError \<and> mkcl_logical_hostname_p u (sys_localhost sys) (sys_hosts sys) host
                     then parse_logical g u space host s wild start ep e
                     else parse_physical u (sys_localhost sys) s wild start e) of
        None \<Rightarrow> None
      | Some (Inl err) \<Rightarrow> Some (Inl err)
      | Some (Inr (None, ep)) \<Rightarrow> Some (Inr (None, ep))
      | Some (Inr (Some p, ep)) \<Rightarrow>
          map_option (\<lambda>r. and_then r (\<lambda>p'. Inr (Some p', min ep e)))
            (tilde_expand u (sys_localhost sys) (sys_homedir sys) (sys_translation sys) (sys_one_host sys) p))"

section \<open>Printing\<close>

fun version_digits :: "nat \<Rightarrow> nat list" where
  "version_digits n = (if n < 10 then [48 + n] else version_digits (n div 10) @ [48 + n mod 10])"

declare version_digits.simps [simp del]

definition write_component :: "pval \<Rightarrow> path_error + nat list" where
  "write_component y = (case y of PStr s \<Rightarrow> Inr s | PList [] \<Rightarrow> Inr [] | _ \<Rightarrow> Inl NotAString)"

text \<open>The directory components, each with the separator behind it; \<open>None\<close> when one has no text.\<close>

fun write_directories :: "nat \<Rightarrow> pval list \<Rightarrow> path_error + nat list option" where
  "write_directories sep [] = Inr (Some [])"
| "write_directories sep (y # l) =
     (if y = PBack then Inr None
      else and_then (if y = PUp then Inr [46, 46] else if y = PWild then Inr [42] else if y = PWildInferiors then Inr [42, 42]
                     else write_component y) (\<lambda>w.
           and_then (write_directories sep l) (\<lambda>r. Inr (map_option (\<lambda>ws. w @ sep # ws) r))))"

definition write_host :: "nat list \<Rightarrow> pname \<Rightarrow> path_error + nat list" where
  "write_host localhost x =
     (if pn_logical x then
        if pn_host x \<noteq> PNil then and_then (write_component (pn_host x)) (\<lambda>h. Inr (h @ [58])) else Inr []
      else
        and_then (if pn_device x \<noteq> PNil \<and> pn_device x \<noteq> PUnspecific
                  then and_then (write_component (pn_device x)) (\<lambda>d. Inr (d @ [58])) else Inr []) (\<lambda>device.
        and_then (if pn_host x \<noteq> PNil \<and> pn_host x \<noteq> PUnspecific \<and> pn_host x \<noteq> PStr localhost
                  then and_then (write_component (pn_host x)) (\<lambda>h. Inr (h @ [58])) else Inr []) (\<lambda>host.
          Inr (device @ host))))"

definition write_directory :: "pname \<Rightarrow> path_error + nat list option" where
  "write_directory x =
     (if pn_directory x = PUnspecific then Inr (Some [])
      else and_then (list_of (pn_directory x)) (\<lambda>l.
        case l of
          [] \<Rightarrow> Inr (Some [])
        | y # l' \<Rightarrow>
            and_then (write_directories (if pn_logical x then 59 else 47) l') (\<lambda>r.
              Inr (map_option (\<lambda>ws. (if y = PRelative then if pn_logical x then [59] else [46, 47]
                                     else if pn_logical x then [] else [47]) @ ws) r))))"

definition write_name :: "pname \<Rightarrow> path_error + nat list" where
  "write_name x =
     and_then (if pn_name x = PNil \<or> pn_name x = PUnspecific then Inr []
               else if pn_name x = PWild then Inr [42] else write_component (pn_name x)) (\<lambda>n.
     and_then (if pn_type x = PNil \<or> pn_type x = PUnspecific then Inr []
               else if pn_type x = PWild then Inr [46, 42] else and_then (write_component (pn_type x)) (\<lambda>t. Inr (46 # t))) (\<lambda>t.
       Inr (n @ t)))"

definition write_version :: "pname \<Rightarrow> nat list option" where
  "write_version x =
     (if \<not> pn_logical x \<or> pn_version x = PNil then Some []
      else case pn_version x of
          PWild \<Rightarrow> Some [46, 42]
        | PNewest \<Rightarrow> Some (46 # codes ''NEWEST'')
        | PInt n \<Rightarrow> if fixnum_range n then Some (46 # version_digits (nat (n mod 2 ^ 64))) else None
        | _ \<Rightarrow> None)"

definition mkcl_namestring :: "nat list \<Rightarrow> pname \<Rightarrow> bool \<Rightarrow> path_error + nat list option" where
  "mkcl_namestring localhost x truncate_if_unreadable =
     (if pn_logical x \<and> pn_device x \<noteq> PUnspecific \<and> truncate_if_unreadable then Inr None
      else and_then (write_host localhost x) (\<lambda>h.
           and_then (write_directory x) (\<lambda>d.
           case d of
             None \<Rightarrow> Inr None
           | Some ds \<Rightarrow>
               and_then (write_name x) (\<lambda>n.
                 Inr (map_option (\<lambda>v. h @ ds @ n @ v) (write_version x))))))"

section \<open>Matching\<close>

function skip_asterisks :: "nat list \<Rightarrow> nat \<Rightarrow> nat" where
  "skip_asterisks p i = (if i < length p \<and> p ! i = 42 then skip_asterisks p (i + 1) else i)"
  by pat_completeness auto

termination
  by (relation "measure (\<lambda>(p, i). length p - i)") auto

declare skip_asterisks.simps [simp del]

lemma skip_asterisks_le: "i \<le> skip_asterisks p i"
proof (induction p i rule: skip_asterisks.induct)
  case (1 p i)
  then show ?case by (cases "i < length p \<and> p ! i = 42") (auto simp: skip_asterisks.simps [of p i])
qed

text \<open>The string from \<open>j\<close> on against the pattern from \<open>i\<close> on; the second function is the loop behind an asterisk.\<close>

function do_path_item_match :: "nat list \<Rightarrow> nat \<Rightarrow> nat list \<Rightarrow> nat \<Rightarrow> bool"
  and asterisk_loop :: "nat list \<Rightarrow> nat \<Rightarrow> nat list \<Rightarrow> nat \<Rightarrow> bool" where
  "do_path_item_match s j p i =
     (if i < length p then
        if p ! i = 42 then
          let nxt = skip_asterisks p (i + 1) in if nxt = length p then True else asterisk_loop s j p nxt
        else if j \<ge> length s \<or> p ! i \<noteq> s ! j then False
        else do_path_item_match s (j + 1) p (i + 1)
      else j \<ge> length s)"
| "asterisk_loop s j p nxt =
     (if j < length s then if do_path_item_match s j p nxt then True else asterisk_loop s (j + 1) p nxt else False)"
  by pat_completeness auto

termination
  by (relation "measures [\<lambda>x. case x of Inl (s, j, p, i) \<Rightarrow> length p - i | Inr (s, j, p, i) \<Rightarrow> length p - i,
                          \<lambda>x. case x of Inl (s, j, p, i) \<Rightarrow> length s - j | Inr (s, j, p, i) \<Rightarrow> length s - j,
                          \<lambda>x. case x of Inl _ \<Rightarrow> 0 | Inr _ \<Rightarrow> 1]")
     (auto intro: diff_less_mono2 less_le_trans [OF lessI skip_asterisks_le])

declare do_path_item_match.simps [simp del] asterisk_loop.simps [simp del]

definition path_item_match :: "pval \<Rightarrow> pval \<Rightarrow> path_error + bool" where
  "path_item_match a wildcard =
     (if wildcard = PWild then Inr True
      else if \<not> stringp a \<or> wildcard = PNil then Inr (a = wildcard)
      else case (a, wildcard) of
          (PStr s, PStr p) \<Rightarrow> Inr (do_path_item_match s 0 p 0)
        | _ \<Rightarrow> Inl UnsupportedWildcard)"

function path_list_match :: "pval list \<Rightarrow> pval list \<Rightarrow> path_error + bool"
  and inferiors_loop :: "pval list \<Rightarrow> pval list \<Rightarrow> path_error + bool" where
  "path_list_match a wildcard =
     (case wildcard of
        [] \<Rightarrow> Inr (a = [])
      | sub_wildcard # wildcard' \<Rightarrow>
          if sub_wildcard = PWildInferiors then if wildcard' = [] then Inr True else inferiors_loop a wildcard'
          else case a of
              [] \<Rightarrow> if sub_wildcard \<noteq> PAbsolute \<and> sub_wildcard \<noteq> PRelative then Inr False else path_list_match [] wildcard'
            | x # a' \<Rightarrow> and_then (path_item_match x sub_wildcard) (\<lambda>m. if \<not> m then Inr False else path_list_match a' wildcard'))"
| "inferiors_loop a wildcard =
     (case a of
        [] \<Rightarrow> Inr False
      | x # a' \<Rightarrow> and_then (path_list_match a wildcard) (\<lambda>m. if m then Inr True else inferiors_loop a' wildcard))"
  by pat_completeness auto

termination
  by (relation "measures [\<lambda>x. case x of Inl (a, w) \<Rightarrow> length w | Inr (a, w) \<Rightarrow> length w,
                          \<lambda>x. case x of Inl (a, w) \<Rightarrow> length a | Inr (a, w) \<Rightarrow> length a,
                          \<lambda>x. case x of Inl _ \<Rightarrow> 0 | Inr _ \<Rightarrow> 1]") auto

declare path_list_match.simps [simp del] inferiors_loop.simps [simp del]

text \<open>
  The components are compared in turn; one that the wildcard lacks is not. A host of the pathname that is no string
  is no object \<open>mkcl_string_E\<close> can compare.
\<close>

definition match_host :: "ucd \<Rightarrow> pname \<Rightarrow> pname \<Rightarrow> path_error + bool" where
  "match_host u path wildcard =
     (if pn_host wildcard = PNil then Inr True
      else if pn_logical wildcard then
        and_then (string_of (pn_host path)) (\<lambda>h. and_then (string_of (pn_host wildcard)) (\<lambda>w. Inr (same_letters u h w)))
      else case (pn_host path, pn_host wildcard) of (PStr h, PStr w) \<Rightarrow> Inr (h = w) | _ \<Rightarrow> Inl NotAString)"

definition match_device :: "ucd \<Rightarrow> pname \<Rightarrow> pname \<Rightarrow> path_error + bool" where
  "match_device u path wildcard =
     (if pn_logical wildcard \<or> pn_device wildcard = PNil \<or> pn_device wildcard = PUnspecific then Inr True
      else and_then (string_of (pn_device path)) (\<lambda>h. and_then (string_of (pn_device wildcard)) (\<lambda>w. Inr (same_letters u h w))))"

definition match_directory :: "pname \<Rightarrow> pname \<Rightarrow> path_error + bool" where
  "match_directory path wildcard =
     (if pn_directory wildcard = PNil then Inr True
      else and_then (list_of (pn_directory wildcard)) (\<lambda>w. and_then (list_of (pn_directory path)) (\<lambda>a. path_list_match a w)))"

definition match_item :: "pval \<Rightarrow> pval \<Rightarrow> path_error + bool" where
  "match_item a wildcard = (if wildcard = PNil then Inr True else path_item_match a wildcard)"

definition match_version :: "pname \<Rightarrow> pname \<Rightarrow> path_error + bool" where
  "match_version path wildcard =
     (if \<not> pn_logical wildcard \<or> pn_version wildcard = PNil \<or> pn_version wildcard = PUnspecific then Inr True
      else path_item_match (pn_version path) (pn_version wildcard))"

definition and_match :: "path_error + bool \<Rightarrow> path_error + bool \<Rightarrow> path_error + bool" where
  "and_match x y = and_then x (\<lambda>m. if m then y else Inr False)"

definition mk_cl_pathname_match_p :: "ucd \<Rightarrow> pname \<Rightarrow> pname \<Rightarrow> path_error + bool" where
  "mk_cl_pathname_match_p u path wildcard =
     (if pn_logical path \<noteq> pn_logical wildcard then Inr False
      else and_match (match_host u path wildcard) (and_match (match_device u path wildcard)
           (and_match (match_directory path wildcard) (and_match (match_item (pn_name path) (pn_name wildcard))
           (and_match (match_item (pn_type path) (pn_type wildcard)) (match_version path wildcard))))))"

section \<open>Translation\<close>

datatype case_map = preserve_case | to_lowercase | to_uppercase

definition map_case :: "ucd \<Rightarrow> case_map \<Rightarrow> nat list \<Rightarrow> nat list" where
  "map_case u cmap s =
     (case cmap of preserve_case \<Rightarrow> s | to_lowercase \<Rightarrow> map (mkcl_char_downcase u) s | to_uppercase \<Rightarrow> map (mkcl_char_upcase u) s)"

definition map_item :: "ucd \<Rightarrow> case_map \<Rightarrow> pval \<Rightarrow> pval" where
  "map_item u cmap x = (case x of PStr s \<Rightarrow> PStr (map_case u cmap s) | _ \<Rightarrow> x)"

text \<open>Behind an asterisk the source is read up to the next asterisk in it, whatever follows in the pattern.\<close>

function source_asterisk :: "nat list \<Rightarrow> nat \<Rightarrow> nat" where
  "source_asterisk s k = (if k < length s \<and> s ! k \<noteq> 42 then source_asterisk s (k + 1) else k)"
  by pat_completeness auto

termination
  by (relation "measure (\<lambda>(s, k). length s - k)") auto

declare source_asterisk.simps [simp del]

function wilds_loop :: "ucd \<Rightarrow> case_map \<Rightarrow> nat list \<Rightarrow> nat list \<Rightarrow> nat \<Rightarrow> nat \<Rightarrow> pval list \<Rightarrow> pval list option" where
  "wilds_loop u cmap source wildcard i j match_list =
     (if i < length source \<and> j < length wildcard then
        if wildcard ! j = 42 then
          let k = source_asterisk source i
          in wilds_loop u cmap source wildcard k (j + 1) (PStr (map_case u cmap (take (k - i) (drop i source))) # match_list)
        else if source ! i \<noteq> wildcard ! j then None
        else wilds_loop u cmap source wildcard (i + 1) (j + 1) match_list
      else if i < length source \<or> j < length wildcard then None
      else Some match_list)"
  by pat_completeness auto

termination
  by (relation "measure (\<lambda>(u, cmap, source, wildcard, i, j, l). length wildcard - j)") auto

declare wilds_loop.simps [simp del]

text \<open>\<open>None\<close> is the result \<open>:error\<close>.\<close>

definition find_wilds :: "ucd \<Rightarrow> pval list \<Rightarrow> pval \<Rightarrow> pval \<Rightarrow> case_map \<Rightarrow> pval list option" where
  "find_wilds u match_list source wildcard cmap =
     (if wildcard = PWild then Some [map_item u cmap source]
      else case (wildcard, source) of
          (PStr w, PStr s) \<Rightarrow> wilds_loop u cmap s w 0 0 match_list
        | _ \<Rightarrow> if wildcard \<noteq> source then None else Some match_list)"

text \<open>The items up to the first place where the rest matches, last one first.\<close>

fun inferiors_wilds :: "ucd \<Rightarrow> case_map \<Rightarrow> pval list \<Rightarrow> pval list \<Rightarrow> pval list \<Rightarrow> path_error + (pval list \<times> pval list) option" where
  "inferiors_wilds u cmap [] wildcard l2 =
     and_then (path_list_match [] wildcard) (\<lambda>m. Inr (if m then Some (l2, []) else None))"
| "inferiors_wilds u cmap (x # source) wildcard l2 =
     and_then (path_list_match (x # source) wildcard) (\<lambda>m.
       if m then Inr (Some (l2, x # source)) else inferiors_wilds u cmap source wildcard (map_item u cmap x # l2))"

text \<open>
  A match list is reversed at the end. The result \<open>:error\<close> of \<open>find_wilds\<close> is not recognised: the test looks at the
  list so far.
\<close>

fun find_list_wilds :: "ucd \<Rightarrow> case_map \<Rightarrow> pval list \<Rightarrow> pval list \<Rightarrow> pval list \<Rightarrow> path_error + pval list option" where
  "find_list_wilds u cmap source [] match_list = Inr (Some (rev match_list))"
| "find_list_wilds u cmap source (sub_wildcard # wildcard) match_list =
     (if sub_wildcard = PWildInferiors then
        and_then (inferiors_wilds u cmap source wildcard []) (\<lambda>r.
          case r of None \<Rightarrow> Inr None | Some (l2, source') \<Rightarrow> find_list_wilds u cmap source' wildcard (PList l2 # match_list))
      else case source of
          [] \<Rightarrow>
            if sub_wildcard \<noteq> PAbsolute \<and> sub_wildcard \<noteq> PRelative then Inr None
            else find_list_wilds u cmap [] wildcard match_list
        | x # source' \<Rightarrow>
            let l2 = (case find_wilds u match_list x sub_wildcard cmap of None \<Rightarrow> PError | Some l \<Rightarrow> PList l)
            in find_list_wilds u cmap source' wildcard (if l2 \<noteq> PNil then l2 # match_list else match_list))"

text \<open>
  The new text: \<open>j\<close> is where the part of the pattern that was not yet copied begins, and stays at the asterisk. What
  is behind the last asterisk is not copied.
\<close>

definition wild_text :: "pval \<Rightarrow> path_error + nat list" where
  "wild_text w = (case w of PStr s \<Rightarrow> Inr s | PList [] \<Rightarrow> Inr [] | _ \<Rightarrow> Inl NotAString)"

function token_loop :: "nat list \<Rightarrow> nat \<Rightarrow> nat \<Rightarrow> pval list \<Rightarrow> nat list \<Rightarrow> bool \<Rightarrow> path_error + (nat list \<times> bool \<times> pval list) option" where
  "token_loop pattern i j wilds token new_string =
     (if i < length pattern then
        if pattern ! i \<noteq> 42 then token_loop pattern (i + 1) j wilds token new_string
        else case wilds of
            [] \<Rightarrow> Inr None
          | w # wilds' \<Rightarrow>
              and_then (wild_text w) (\<lambda>ws. token_loop pattern (i + 1) i wilds' (token @ take (i - j) (drop j pattern) @ ws) True)
      else Inr (Some (token, new_string, wilds)))"
  by pat_completeness auto

termination
  by (relation "measure (\<lambda>(pattern, i, j, wilds, token, new). length pattern - i)") auto

declare token_loop.simps [simp del]

definition copy_wildcards :: "pval list \<Rightarrow> pval \<Rightarrow> path_error + (pval \<times> pval list) option" where
  "copy_wildcards wilds pattern =
     (case pattern of
        PWild \<Rightarrow> Inr (case wilds of [] \<Rightarrow> None | w # wilds' \<Rightarrow> Some (w, wilds'))
      | PWildInferiors \<Rightarrow> Inr None
      | PStr p \<Rightarrow>
          and_then (token_loop p 0 0 wilds [] False) (\<lambda>r.
            Inr (map_option (\<lambda>(token, new_string, wilds'). (if new_string then PStr token else pattern, wilds')) r))
      | _ \<Rightarrow> Inr (Some (pattern, wilds)))"

fun copy_list_wildcards :: "pval list \<Rightarrow> pval list \<Rightarrow> pval list \<Rightarrow> path_error + (pval list \<times> pval list) option" where
  "copy_list_wildcards wilds [] l = Inr (Some (rev l, wilds))"
| "copy_list_wildcards wilds (t # to) l =
     (if t = PWildInferiors then
        case wilds of
          [] \<Rightarrow> Inr None
        | w # wilds' \<Rightarrow>
            (case w of PList ds \<Rightarrow> copy_list_wildcards wilds' to (ds @ l) | _ \<Rightarrow> Inr None)
      else
        and_then (copy_wildcards wilds t) (\<lambda>r.
          case r of None \<Rightarrow> Inr None
          | Some (d, wilds') \<Rightarrow> if d = PError then Inr None else copy_list_wildcards wilds' to (d # l)))"

definition translate_item :: "ucd \<Rightarrow> case_map \<Rightarrow> pval \<Rightarrow> pval \<Rightarrow> pval \<Rightarrow> path_error + pval" where
  "translate_item u cmap source from to =
     (case find_wilds u [] source from cmap of
        None \<Rightarrow> Inl WildcardCount
      | Some wilds \<Rightarrow>
          and_then (copy_wildcards wilds to) (\<lambda>r.
            case r of None \<Rightarrow> Inl NotASpecialization
            | Some (d, rest) \<Rightarrow> if d = PError then Inl NotASpecialization else if rest \<noteq> [] then Inl WildcardCount else Inr d))"

definition translate_directory :: "ucd \<Rightarrow> case_map \<Rightarrow> pval \<Rightarrow> pval \<Rightarrow> pval \<Rightarrow> path_error + pval" where
  "translate_directory u cmap source from to =
     and_then (list_of from) (\<lambda>f. and_then (if f = [] then Inr [] else list_of source) (\<lambda>s.
     and_then (find_list_wilds u cmap s f []) (\<lambda>r.
       case r of
         None \<Rightarrow> Inl NotASpecialization
       | Some wilds \<Rightarrow>
           and_then (list_of to) (\<lambda>t.
           and_then (copy_list_wildcards wilds t []) (\<lambda>r'.
             case r' of None \<Rightarrow> Inl NotASpecialization
             | Some (d, rest) \<Rightarrow> if rest \<noteq> [] then Inl WildcardCount else Inr (PList d))))))"

definition mk_cl_translate_pathname :: "ucd \<Rightarrow> pname \<Rightarrow> pname \<Rightarrow> pname \<Rightarrow> (path_error + pname) option" where
  "mk_cl_translate_pathname u source from to =
     (if pn_logical source \<noteq> pn_logical from then Some (Inl NotASpecialization)
      else
        let cmap = (if pn_logical from \<and> \<not> pn_logical to then to_lowercase
                    else if \<not> pn_logical from \<and> pn_logical to then to_uppercase else preserve_case)
        in case and_then (string_of (pn_host source)) (\<lambda>h. and_then (string_of (pn_host from)) (\<lambda>w. Inr (same_letters u h w))) of
             Inl err \<Rightarrow> Some (Inl err)
           | Inr False \<Rightarrow> Some (Inl NotASpecialization)
           | Inr True \<Rightarrow>
               (case and_then (translate_directory u cmap (pn_directory source) (pn_directory from) (pn_directory to)) (\<lambda>d.
                     and_then (translate_item u cmap (pn_name source) (pn_name from) (pn_name to)) (\<lambda>n.
                     and_then (translate_item u cmap (pn_type source) (pn_type from) (pn_type to)) (\<lambda>t. Inr (d, n, t)))) of
                  Inl err \<Rightarrow> Some (Inl err)
                | Inr (d, n, t) \<Rightarrow>
                    let version0 = (if pn_version from = PWild \<and> pn_version to = PWild then pn_version source else pn_version to);
                        version = (if n = PNil \<and> t = PNil then PNil else version0)
                    in case canonicalize_directory_destructively u d (pn_logical to) of
                         None \<Rightarrow> None
                       | Some (Inl err) \<Rightarrow> Some (Inl err)
                       | Some (Inr dir) \<Rightarrow>
                           if dir = PError then Some (Inl PathFileError)
                           else
                             let out = make_pathname (pn_logical to) (pn_host to) (pn_device to) dir n t version
                             in Some (Inr (out\<lparr>pn_complete := all_present out \<and> absolute dir\<rparr>))))"

text \<open>The translations of a host are pairs of a pattern and a new pathname. The search can go on without end.\<close>

fun first_translation :: "ucd \<Rightarrow> pname \<Rightarrow> (pname \<times> pname) list \<Rightarrow> path_error + (pname \<times> pname) option" where
  "first_translation u p [] = Inr None"
| "first_translation u p ((from, to) # l) =
     and_then (mk_cl_pathname_match_p u p from) (\<lambda>m. if m then Inr (Some (from, to)) else first_translation u p l)"

partial_function (option) translate_logical ::
  "ucd \<Rightarrow> (pval \<Rightarrow> (pname \<times> pname) list) \<Rightarrow> pname \<Rightarrow> (path_error + pname) option" where
  "translate_logical u translations p =
     (if \<not> pn_logical p then Some (Inr p)
      else case first_translation u p (translations (pn_host p)) of
          Inl err \<Rightarrow> Some (Inl err)
        | Inr None \<Rightarrow> Some (Inl NoTranslation)
        | Inr (Some (from, to)) \<Rightarrow>
            (case mk_cl_translate_pathname u p from to of
               None \<Rightarrow> None
             | Some (Inl err) \<Rightarrow> Some (Inl err)
             | Some (Inr p') \<Rightarrow> translate_logical u translations p'))"

definition mk_cl_translate_logical_pathname ::
  "ucd \<Rightarrow> (pval \<Rightarrow> (pname \<times> pname) list) \<Rightarrow> pname \<Rightarrow> (path_error + pname) option" where
  "mk_cl_translate_logical_pathname = translate_logical"

end
