(* ===== verification/Pathname_Props.thy ===== *)
theory Pathname_Props
  imports Pathnames
begin

text \<open>
  Matching of names is that of patterns with asterisks (\<open>glob\<close>). Directories without \<open>:back\<close> are made
  canonical by leaving out the dots; with \<open>:back\<close> the loop can fail to return. The namestring of a physical
  pathname is parsed to the same pathname. The translation of names with asterisks is right only for an asterisk
  at the end.
\<close>

section \<open>Matching\<close>

text \<open>An asterisk stands for any number of characters.\<close>

fun glob :: "nat list \<Rightarrow> nat list \<Rightarrow> bool" where
  "glob [] s \<longleftrightarrow> s = []"
| "glob (c # p) [] \<longleftrightarrow> c = 42 \<and> glob p []"
| "glob (c # p) (x # s) \<longleftrightarrow> (if c = 42 then glob p (x # s) \<or> glob (c # p) s else x = c \<and> glob p s)"

lemma glob_asterisk: "glob (42 # p) s \<longleftrightarrow> (\<exists>k \<le> length s. glob p (drop k s))"
proof (induction s)
  case Nil
  then show ?case by simp
next
  case (Cons x s)
  have "(\<exists>k \<le> length (x # s). glob p (drop k (x # s))) \<longleftrightarrow> glob p (x # s) \<or> (\<exists>k \<le> length s. glob p (drop k s))"
    by (metis drop0 drop_Suc_Cons le0 length_Cons not0_implies_Suc Suc_le_mono)
  then show ?case using Cons by simp
qed

lemma glob_asterisks: "glob (42 # 42 # p) s \<longleftrightarrow> glob (42 # p) s"
proof
  assume "glob (42 # 42 # p) s"
  then obtain k where "k \<le> length s" "glob (42 # p) (drop k s)" unfolding glob_asterisk [of "42 # p"] by blast
  then obtain k' where "k' \<le> length (drop k s)" "glob p (drop k' (drop k s))" unfolding glob_asterisk by blast
  then show "glob (42 # p) s" using \<open>k \<le> length s\<close> unfolding glob_asterisk
    by (intro exI [of _ "k' + k"]) (simp add: add.commute)
next
  assume "glob (42 # p) s"
  then show "glob (42 # 42 # p) s"
    unfolding glob_asterisk [of "42 # p"] by (intro exI [of _ 0]) simp
qed

lemma glob_only_asterisk: "glob [42] s"
  unfolding glob_asterisk by (rule exI [of _ "length s"]) simp

lemma glob_skip: "glob (42 # drop i p) s \<longleftrightarrow> glob (42 # drop (skip_asterisks p i) p) s"
proof (induction p i rule: skip_asterisks.induct)
  case (1 p i)
  show ?case
  proof (cases "i < length p \<and> p ! i = 42")
    case True
    then have "drop i p = 42 # drop (i + 1) p" by (simp add: Cons_nth_drop_Suc [symmetric])
    then show ?thesis using True 1 glob_asterisks [of "drop (i + 1) p" s] by (simp add: skip_asterisks.simps [of p i] del: glob.simps)
  next
    case False
    then show ?thesis by (subst skip_asterisks.simps) auto
  qed
qed

lemma skip_asterisks_end: "i \<le> length p \<Longrightarrow> skip_asterisks p i \<le> length p \<and>
    (skip_asterisks p i < length p \<longrightarrow> p ! skip_asterisks p i \<noteq> 42)"
proof (induction p i rule: skip_asterisks.induct)
  case (1 p i)
  then show ?case by (cases "i < length p \<and> p ! i = 42") (auto simp: skip_asterisks.simps [of p i])
qed

lemma asterisk_glob:
  assumes "nxt < length p" "p ! nxt \<noteq> 42"
  shows "glob (42 # drop nxt p) (drop j s) \<longleftrightarrow> (\<exists>k. j \<le> k \<and> k < length s \<and> glob (drop nxt p) (drop k s))"
proof -
  have p: "drop nxt p = p ! nxt # drop (Suc nxt) p" using assms(1) by (simp add: Cons_nth_drop_Suc)
  have "\<not> glob (drop nxt p) []" using assms(2) by (simp add: p)
  then have short: "k < length (drop j s)" if "glob (drop nxt p) (drop k (drop j s))" for k
    using that by (metis drop_all not_le)
  show ?thesis
  proof
    assume "glob (42 # drop nxt p) (drop j s)"
    then obtain k where k: "glob (drop nxt p) (drop k (drop j s))" unfolding glob_asterisk by blast
    then show "\<exists>k. j \<le> k \<and> k < length s \<and> glob (drop nxt p) (drop k s)"
      using short [OF k] by (intro exI [of _ "k + j"]) (auto simp: add.commute)
  next
    assume "\<exists>k. j \<le> k \<and> k < length s \<and> glob (drop nxt p) (drop k s)"
    then obtain k where "j \<le> k" "k < length s" "glob (drop nxt p) (drop k s)" by blast
    then show "glob (42 # drop nxt p) (drop j s)"
      unfolding glob_asterisk by (intro exI [of _ "k - j"]) auto
  qed
qed

lemma item_match_glob:
  "j \<le> length s \<Longrightarrow> do_path_item_match s j p i \<longleftrightarrow> glob (drop i p) (drop j s)"
  "j \<le> length s \<Longrightarrow> nxt < length p \<Longrightarrow> p ! nxt \<noteq> 42 \<Longrightarrow> asterisk_loop s j p nxt \<longleftrightarrow> glob (42 # drop nxt p) (drop j s)"
proof (induction s j p i and s j p nxt rule: do_path_item_match_asterisk_loop.induct)
  case (1 s j p i)
  show ?case
  proof (cases "i < length p")
    case False
    then show ?thesis using 1(3) by (subst do_path_item_match.simps) auto
  next
    case True
    then have p: "drop i p = p ! i # drop (Suc i) p" by (simp add: Cons_nth_drop_Suc)
    show ?thesis
    proof (cases "p ! i = 42")
      case star: True
      let ?n = "skip_asterisks p (i + 1)"
      have n: "?n \<le> length p" "?n < length p \<longrightarrow> p ! ?n \<noteq> 42" using skip_asterisks_end [of "i + 1" p] True by auto
      show ?thesis
        using True star n 1(1) 1(3) glob_skip [of "i + 1" p "drop j s"] glob_only_asterisk [of "drop j s"]
        by (subst do_path_item_match.simps) (auto simp: p Let_def simp del: glob.simps)
    next
      case False
      have "drop j s = s ! j # drop (Suc j) s" if "j < length s" using that by (simp add: Cons_nth_drop_Suc)
      then show ?thesis
        using True False 1(2) 1(3) by (subst do_path_item_match.simps) (cases "j < length s"; auto simp: p)
    qed
  qed
next
  case (2 s j p nxt)
  have e: "glob (42 # drop nxt p) (drop j s)
      \<longleftrightarrow> j < length s \<and> (glob (drop nxt p) (drop j s) \<or> glob (42 # drop nxt p) (drop (j + 1) s))"
    unfolding asterisk_glob [OF 2(4,5)] by (auto simp: Suc_le_eq) (metis le_neq_implies_less, metis less_imp_le_nat)
  show ?case using 2 e by (subst asterisk_loop.simps) (auto simp del: glob.simps)
qed

text \<open>In directories \<open>:wild-inferiors\<close> stands for any number of items.\<close>

fun item_glob :: "pval \<Rightarrow> pval \<Rightarrow> bool" where
  "item_glob PWild y \<longleftrightarrow> True"
| "item_glob (PStr p) (PStr s) \<longleftrightarrow> glob p s"
| "item_glob x y \<longleftrightarrow> y = x"

fun dir_glob :: "pval list \<Rightarrow> pval list \<Rightarrow> bool" where
  "dir_glob [] d \<longleftrightarrow> d = []"
| "dir_glob (x # w) [] \<longleftrightarrow> x = PWildInferiors \<and> dir_glob w []"
| "dir_glob (x # w) (y # d) \<longleftrightarrow>
     (if x = PWildInferiors then dir_glob w (y # d) \<or> dir_glob (x # w) d else item_glob x y \<and> dir_glob w d)"

fun wild_item :: "pval \<Rightarrow> bool" where
  "wild_item (PStr _) \<longleftrightarrow> True"
| "wild_item x \<longleftrightarrow> x = PWild \<or> x = PWildInferiors"

fun single_inferiors :: "pval list \<Rightarrow> bool" where
  "single_inferiors (x # y # w) \<longleftrightarrow> \<not> (x = PWildInferiors \<and> y = PWildInferiors) \<and> single_inferiors (y # w)"
| "single_inferiors _ \<longleftrightarrow> True"

lemma dir_glob_all: "dir_glob [PWildInferiors] d"
  by (induction d) auto

lemma path_item_match_glob: "path_item_match (PStr s) (PStr p) = Inr (glob p s)"
  using item_match_glob(1) [of 0 s p 0] by (simp add: path_item_match_def)

lemma path_item_match_wild: "stringp y \<Longrightarrow> wild_item x \<Longrightarrow> x \<noteq> PWildInferiors \<Longrightarrow> path_item_match y x = Inr (item_glob x y)"
  by (cases y; cases x) (auto simp: path_item_match_glob, simp_all add: path_item_match_def)

lemma single_inferiors_tl: "single_inferiors (x # w) \<Longrightarrow> single_inferiors w"
  by (cases w) auto

lemma path_list_match_glob:
  "list_all stringp d \<Longrightarrow> list_all wild_item w \<Longrightarrow> single_inferiors w \<Longrightarrow> path_list_match d w = Inr (dir_glob w d)"
  "list_all stringp d \<Longrightarrow> list_all wild_item w \<Longrightarrow> single_inferiors w \<Longrightarrow> w \<noteq> [] \<Longrightarrow> hd w \<noteq> PWildInferiors
     \<Longrightarrow> inferiors_loop d w = Inr (dir_glob (PWildInferiors # w) d)"
proof (induction d w and d w rule: path_list_match_inferiors_loop.induct)
  case (1 d w)
  show ?case
  proof (cases w)
    case Nil
    then show ?thesis by (subst path_list_match.simps) simp
  next
    case (Cons x w')
    have w': "list_all wild_item w'" "single_inferiors w'" "wild_item x" using Cons 1(5,6) single_inferiors_tl by auto
    consider "x = PWildInferiors" "w' = []" | "x = PWildInferiors" "w' \<noteq> []" "hd w' \<noteq> PWildInferiors" | "x \<noteq> PWildInferiors"
      using 1(6) Cons by (cases w') auto
    then show ?thesis
    proof cases
      case 1
      then show ?thesis using Cons dir_glob_all by (subst path_list_match.simps) simp
    next
      case 2
      then show ?thesis using Cons "1.IH"(1) [of x w'] 1(4) w' by (subst path_list_match.simps) simp
    next
      case 3
      then show ?thesis
      proof (cases d)
        case Nil
        then show ?thesis using 3 Cons w'(3) by (subst path_list_match.simps) auto
      next
        case d: (Cons y d')
        then have "path_item_match y x = Inr (item_glob x y)" using path_item_match_wild [of y x] 1(4) w'(3) 3 by simp
        then show ?thesis
          using 3 Cons d "1.IH"(3) [of x w' y d'] 1(4) w' by (subst path_list_match.simps) auto
      qed
    qed
  qed
next
  case (2 d w)
  show ?case
  proof (cases d)
    case Nil
    then show ?thesis using 2(6,7) by (subst inferiors_loop.simps) (cases w; simp)
  next
    case (Cons y d')
    then show ?thesis
      using 2 by (subst inferiors_loop.simps) auto
  qed
qed


text \<open>Two \<open>:wild-inferiors\<close> do not match the empty rest of a directory, which one of them matches.\<close>

lemma double_inferiors_mismatch:
  "path_list_match [PAbsolute] [PAbsolute, PWildInferiors] = Inr True"
  "path_list_match [PAbsolute] [PAbsolute, PWildInferiors, PWildInferiors] = Inr False"
  by (simp_all add: path_list_match.simps inferiors_loop.simps path_item_match_def)

section \<open>Canonical directories\<close>

text \<open>The cells at the addresses \<open>as\<close> hold the items of the list \<open>d\<close>, linked one to the next.\<close>

definition reads :: "dircells \<Rightarrow> nat list \<Rightarrow> pval list \<Rightarrow> bool" where
  "reads h as d \<longleftrightarrow> length as = length d \<and> distinct as \<and> set as \<subseteq> {..<length h} \<and> d \<noteq> [] \<and> as ! 0 = 0
     \<and> (\<forall>i < length d. h ! (as ! i) = (d ! i, if Suc i < length d then Some (as ! Suc i) else None))"

lemma reads_cells_of: "d \<noteq> [] \<Longrightarrow> reads (cells_of d) [0..<length d] d"
  by (auto simp: reads_def cells_of_def)

lemma reads_nthcdr:
  assumes "reads h as d" "i < length d"
  shows "dir_nthcdr h n (Some (as ! i)) = (if i + n < length d then Some (as ! (i + n)) else None)"
  using assms(2)
proof (induction n arbitrary: i)
  case (Suc n)
  have e: "h ! (as ! i) = (d ! i, if Suc i < length d then Some (as ! Suc i) else None)"
    using assms(1) Suc.prems by (simp add: reads_def)
  show ?case
  proof (cases "Suc i < length d")
    case True
    then show ?thesis using Suc.IH [of "Suc i"] e by simp
  next
    case False
    then show ?thesis using e by (cases n) auto
  qed
qed simp

lemma reads_head: "reads h as d \<Longrightarrow> Some 0 = Some (as ! 0) \<and> 0 < length d"
  by (auto simp: reads_def)

lemma reads_nthcdr_0: "reads h as d \<Longrightarrow> n < length d \<Longrightarrow> dir_nthcdr h n (Some 0) = Some (as ! n)"
  using reads_nthcdr [of h as d 0 n] reads_head [of h as d] by simp

lemma reads_nth: "reads h as d \<Longrightarrow> n < length d \<Longrightarrow> dir_nth h n = d ! n"
  using reads_nthcdr_0 [of h as d n] by (simp add: dir_nth_def reads_def)

lemma reads_items:
  assumes "reads h as d"
  shows "dir_items h (length h) (Some 0) = d"
proof -
  have "dir_items h n (Some (as ! i)) = drop i d" if "i < length d" "length d \<le> i + n" for n i
    using that
  proof (induction n arbitrary: i)
    case (Suc n)
    have e: "h ! (as ! i) = (d ! i, if Suc i < length d then Some (as ! Suc i) else None)"
      using assms Suc.prems by (simp add: reads_def)
    have "drop i d = d ! i # drop (Suc i) d" using Suc.prems by (simp add: Cons_nth_drop_Suc)
    then show ?case using Suc.IH [of "Suc i"] Suc.prems e by (cases "Suc i < length d"; cases n) auto
  qed simp
  moreover have "length d \<le> length h"
    using assms card_mono [of "{..<length h}" "set as"] by (simp add: reads_def distinct_card)
  ultimately have "dir_items h (length h) (Some (as ! 0)) = drop 0 d"
    using reads_head [OF assms] by (metis add_0)
  then show ?thesis using reads_head [OF assms] by simp
qed

definition without :: "nat \<Rightarrow> 'a list \<Rightarrow> 'a list" where
  "without i xs = take i xs @ drop (Suc i) xs"

lemma length_without: "i < length xs \<Longrightarrow> length (without i xs) = length xs - 1"
  by (simp add: without_def)

lemma nth_without: "i < length xs \<Longrightarrow> k < length xs - 1 \<Longrightarrow> without i xs ! k = (if k < i then xs ! k else xs ! Suc k)"
  by (auto simp: without_def nth_append)

text \<open>Relinking the cell before an item leaves the item out.\<close>

lemma reads_unlink:
  assumes r: "reads h as d" and i: "Suc i < length d"
  shows "reads (h[as ! i := (d ! i, snd (h ! (as ! Suc i)))]) (without (Suc i) as) (without (Suc i) d)"
proof -
  let ?h = "h[as ! i := (d ! i, snd (h ! (as ! Suc i)))]"
  have la: "length as = length d" and dist: "distinct as" and sub: "set as \<subseteq> {..<length h}"
    and cell: "\<And>k. k < length d \<Longrightarrow> h ! (as ! k) = (d ! k, if Suc k < length d then Some (as ! Suc k) else None)"
    using r by (auto simp: reads_def)
  have at: "as ! k < length h" if "k < length d" for k
  proof -
    have "as ! k \<in> set as" using la that by (intro nth_mem) simp
    then show ?thesis using sub by blast
  qed
  have other: "as ! k = as ! i \<longleftrightarrow> k = i" if "k < length d" for k using that i la dist by (simp add: nth_eq_iff_index_eq)
  have cell': "?h ! (without (Suc i) as ! k) =
      (without (Suc i) d ! k, if Suc k < length d - 1 then Some (without (Suc i) as ! Suc k) else None)" if k: "k < length d - 1" for k
  proof (cases "k < i")
    case True
    then show ?thesis using k i la cell [of k] other [of k] at [of i] by (simp add: nth_without)
  next
    case False
    show ?thesis
    proof (cases "k = i")
      case True
      then show ?thesis using k i la cell [of "Suc i"] at [of i] by (auto simp: nth_without)
    next
      case ne: False
      then have "Suc i \<le> k" "Suc k < length d" using False k by auto
      then show ?thesis using k i la cell [of "Suc k"] other [of "Suc k"] by (auto simp: nth_without)
    qed
  qed
  have "distinct (without (Suc i) as)"
    using dist by (simp add: without_def set_take_disj_set_drop_if_distinct)
  moreover have "set (without (Suc i) as) \<subseteq> {..<length h}"
    using sub by (auto simp: without_def dest: in_set_takeD in_set_dropD)
  moreover have "without (Suc i) as ! 0 = 0" using r i la by (simp add: nth_without reads_def)
  moreover have "without (Suc i) d \<noteq> []" using i length_without [of "Suc i" d] by auto
  ultimately show ?thesis using cell' i la by (auto simp: reads_def length_without)
qed

text \<open>Items of a directory list whose canonical form is the list without the dots.\<close>

fun simple_item :: "pval \<Rightarrow> bool" where
  "simple_item (PStr s) \<longleftrightarrow> s \<noteq> [46, 46]"
| "simple_item x \<longleftrightarrow> x \<in> {PUp, PWild, PWildInferiors}"

definition misplaced :: "pval list \<Rightarrow> nat \<Rightarrow> bool" where
  "misplaced d j \<longleftrightarrow> Suc j < length d \<and> d ! Suc j = PUp \<and> (d ! j = PAbsolute \<or> d ! j = PWildInferiors)"

definition no_dots :: "pval list \<Rightarrow> pval list" where
  "no_dots d = filter (\<lambda>x. x \<noteq> PStr [46]) d"

lemma no_dots_without:
  assumes "i < length d" "d ! i = PStr [46]"
  shows "no_dots (without i d) = no_dots d"
proof -
  have "d = take i d @ d ! i # drop (Suc i) d" using assms(1) by (rule id_take_nth_drop)
  then have "no_dots d = no_dots (take i d @ d ! i # drop (Suc i) d)" by simp
  then show ?thesis using assms(2) by (simp add: no_dots_def without_def)
qed

lemma no_dots_prefix:
  assumes "i < length d" "\<forall>k<i. d ! k \<noteq> PStr [46]" "d ! i \<noteq> PStr [46]" "k \<le> i"
  shows "no_dots d ! k = d ! k" "k < length (no_dots d)"
proof -
  have "no_dots (take (Suc i) d) = take (Suc i) d"
    using assms(1-3) by (auto simp: no_dots_def filter_id_conv in_set_conv_nth less_Suc_eq)
  then have "no_dots d = take (Suc i) d @ no_dots (drop (Suc i) d)"
    by (metis append_take_drop_id filter_append no_dots_def)
  then show "no_dots d ! k = d ! k" "k < length (no_dots d)" using assms(1,4) by (auto simp: nth_append)
qed

text \<open>What the loop gives for a list that is read from the cells.\<close>

definition canonical_result :: "pval list \<Rightarrow> dircells option \<Rightarrow> bool" where
  "canonical_result d r \<longleftrightarrow>
     (if \<exists>j. misplaced (no_dots d) j then r = None else \<exists>h as. r = Some h \<and> reads h as (no_dots d))"

lemma dir_loop_canonical:
  assumes "reads h as d" "hd d = PAbsolute \<or> hd d = PRelative" "list_all simple_item (tl d)" "i \<le> length d"
    "\<forall>k<i. d ! k \<noteq> PStr [46]" "\<forall>j. Suc j < i \<longrightarrow> \<not> misplaced d j"
  shows "\<exists>r. dir_loop u False h (if i < length d then Some (as ! i) else None) i = Some (Inr r) \<and> canonical_result d r"
  using assms
proof (induction "length d * (length d + 1) - i" arbitrary: h as d i rule: less_induct)
  case less
  note r = less.prems(1)
  have d: "d \<noteq> []" using r by (simp add: reads_def)
  have d0: "d ! 0 = PAbsolute \<or> d ! 0 = PRelative" using less.prems(2) d by (simp add: hd_conv_nth)
  have simple: "simple_item (d ! k)" if "0 < k" "k < length d" for k
    using less.prems(3) d that by (cases d) (auto simp: list_all_length nth_Cons')
  show ?case
  proof (cases "i < length d")
    case False
    then have nd: "no_dots d = d" using less.prems(4,5) by (auto simp: no_dots_def filter_id_conv in_set_conv_nth)
    moreover have "\<not> misplaced d j" for j using False less.prems(6) by (auto simp: misplaced_def)
    ultimately show ?thesis
      using False r by (subst dir_loop.simps) (auto simp: canonical_result_def)
  next
    case i: True
    have cell: "h ! (as ! i) = (d ! i, if Suc i < length d then Some (as ! Suc i) else None)"
      using r i by (simp add: reads_def)
    have big: "i < length d * (length d + 1)" using i by (metis add.commute less_le_trans mult.right_neutral mult_le_mono2 plus_1_eq_Suc le_add1)
    have go: ?thesis
      if t: "dir_turn u False h (as ! i) i = Inr (DirNext h)" and nd: "d ! i \<noteq> PStr [46]" and up: "i > 0 \<longrightarrow> \<not> misplaced d (i - 1)"
    proof -
      have "\<exists>r. dir_loop u False h (if Suc i < length d then Some (as ! Suc i) else None) (Suc i) = Some (Inr r) \<and> canonical_result d r"
      proof (rule less.hyps [OF _ r less.prems(2,3)])
        show "length d * (length d + 1) - Suc i < length d * (length d + 1) - i" using big by linarith
        show "\<forall>k<Suc i. d ! k \<noteq> PStr [46]" using nd less.prems(5) by (auto simp: less_Suc_eq)
        show "\<forall>j. Suc j < Suc i \<longrightarrow> \<not> misplaced d j" using up less.prems(6) by (auto simp: less_Suc_eq)
      qed (use i in simp)
      then show ?thesis using i t cell by (subst dir_loop.simps) simp
    qed
    show ?thesis
    proof (cases "i = 0")
      case True
      then show ?thesis using d0 cell by (intro go) (auto simp: dir_turn_def)
    next
      case pos: False
      then have prev: "dir_nth h (i - 1) = d ! (i - 1)" using reads_nth [OF r] i by simp
      consider (dot) "d ! i = PStr [46]" | (up) "d ! i = PUp" | (other) "d ! i \<noteq> PStr [46]" "d ! i \<noteq> PUp" by blast
      then show ?thesis
      proof cases
        case dot
        then obtain m where m: "i = Suc m" using pos by (cases i) auto
        define h' where "h' = h[as ! m := (d ! m, snd (h ! (as ! Suc m)))]"
        have "fst (h ! (as ! m)) = d ! m" using r i by (simp add: reads_def m)
        then have t: "dir_turn u False h (as ! i) i = Inr (Begin h')"
          using cell dot reads_nthcdr_0 [OF r, of m] i by (simp add: dir_turn_def dir_rplacd_def h'_def m)
        have r': "reads h' (without i as) (without i d)" using reads_unlink [OF r, of m] i by (simp add: h'_def m)
        have len: "length (without i d) = length d - 1" using i by (simp add: length_without)
        have hd': "hd (without i d) = hd d" using i by (cases d) (auto simp: without_def m)
        have tl': "list_all simple_item (tl (without i d))"
          using less.prems(3) i by (cases d) (auto simp: without_def m list_all_iff dest: in_set_takeD in_set_dropD)
        have "\<exists>r. dir_loop u False h' (if 0 < length (without i d) then Some (without i as ! 0) else None) 0 = Some (Inr r)
            \<and> canonical_result (without i d) r"
        proof (rule less.hyps [OF _ r'])
          show "length (without i d) * (length (without i d) + 1) - 0 < length d * (length d + 1) - i"
            using i pos unfolding len by (cases "length d") auto
          show "hd (without i d) = PAbsolute \<or> hd (without i d) = PRelative" using less.prems(2) hd' by simp
        qed (use tl' in auto)
        moreover have "canonical_result (without i d) = canonical_result d"
          using no_dots_without [OF i dot] by (simp add: canonical_result_def fun_eq_iff)
        moreover have "0 < length (without i d)" "without i as ! 0 = 0" using r' by (auto simp: reads_def)
        ultimately show ?thesis using i t by (subst dir_loop.simps) simp
      next
        case up
        show ?thesis
        proof (cases "misplaced d (i - 1)")
          case True
          then have "dir_turn u False h (as ! i) i = Inr DirError"
            using cell up prev pos by (auto simp: dir_turn_def misplaced_def)
          moreover have "misplaced (no_dots d) (i - 1)"
            using True no_dots_prefix [OF i less.prems(5), of "i - 1"] no_dots_prefix [OF i less.prems(5), of i] up pos
            by (auto simp: misplaced_def)
          ultimately show ?thesis using i by (subst dir_loop.simps) (auto simp: canonical_result_def)
        next
          case False
          then show ?thesis
            using cell up prev pos i by (intro go) (auto simp: dir_turn_def misplaced_def)
        qed
      next
        case other
        then show ?thesis
          using cell simple [of i] pos i by (intro go) (cases "d ! i"; auto simp: dir_turn_def misplaced_def)+
      qed
    qed
  qed
qed

text \<open>The canonical form leaves out the dots, unless \<open>:up\<close> follows \<open>:absolute\<close> or \<open>:wild-inferiors\<close>.\<close>

lemma canonicalize_simple:
  assumes "d = PAbsolute \<or> d = PRelative" "list_all simple_item ds"
  shows "canonicalize_directory_destructively u (PList (d # ds)) False
    = Some (Inr (if \<exists>j. misplaced (no_dots (d # ds)) j then PError else PList (no_dots (d # ds))))"
proof -
  obtain r where "dir_loop u False (cells_of (d # ds)) (Some 0) 0 = Some (Inr r)" "canonical_result (d # ds) r"
    using dir_loop_canonical [OF reads_cells_of, of "d # ds" 0 u] assms by (auto simp del: upt_Suc)
  then show ?thesis
    using assms(1) by (auto simp: canonicalize_directory_destructively_def canonical_result_def reads_items)
qed

text \<open>
  After \<open>:back\<close> the index no longer agrees with the list. When a dot follows, the cell after it is linked to
  itself, and the loop does not end.
\<close>

lemma dir_loop_circle:
  assumes "b \<notin> {[46], [46, 46]}" "dir_loop u lg h p i = Some y"
  shows "\<not> (\<not> lg \<and> p = Some 4 \<and> h ! 4 = (PStr b, Some 4))"
proof (rule dir_loop.raw_induct [where P = "\<lambda>u lg h p i y. \<not> (\<not> lg \<and> p = Some 4 \<and> h ! 4 = (PStr b, Some 4))", OF _ assms(2)],
    goal_cases)
  case (1 rec u lg h p i y)
  show ?case
  proof
    assume at: "\<not> lg \<and> p = Some 4 \<and> h ! 4 = (PStr b, Some 4)"
    then have "rec u lg h p (i + 1) = Some y" using 1(2) assms(1) by (simp add: dir_turn_def)
    then show False using 1(1) at by blast
  qed
qed

lemma dir_loop_at:
  "dir_turn u lg h a i = Inr (DirNext h') \<Longrightarrow> dir_loop u lg h (Some a) i = dir_loop u lg h' (snd (h' ! a)) (i + 1)"
  "dir_turn u lg h a i = Inr (Begin h') \<Longrightarrow> dir_loop u lg h (Some a) i = dir_loop u lg h' (Some 0) 0"
  by (simp_all add: dir_loop.simps [of u lg h "Some a" i])

lemma canonicalize_back_dot:
  assumes a: "a \<notin> {[46], [46, 46]}" and b: "b \<notin> {[46], [46, 46]}"
  shows "canonicalize_directory_destructively u (PList [PAbsolute, PStr a, PBack, PStr [46], PStr b]) False = None"
proof -
  define h0 where "h0 = [(PAbsolute, Some 1), (PStr a, Some 2), (PBack, Some 3), (PStr [46], Some 4), (PStr b, None :: nat option)]"
  define h1 where "h1 = [(PAbsolute, Some 3), (PStr a, Some 2), (PBack, Some 3), (PStr [46], Some 4), (PStr b, None :: nat option)]"
  define h2 where "h2 = [(PAbsolute, Some 3), (PStr a, Some 2), (PBack, Some 3), (PStr [46], Some 4), (PStr b, Some (4 :: nat))]"
  define h3 where "h3 = [(PAbsolute, Some 4), (PStr a, Some 2), (PBack, Some 3), (PStr [46], Some 4), (PStr b, Some (4 :: nat))]"
  note cells = h0_def h1_def h2_def h3_def and turn = dir_turn_def dir_nth_def dir_rplacd_def Let_def numeral_2_eq_2 numeral_3_eq_3
  have c: "cells_of [PAbsolute, PStr a, PBack, PStr [46], PStr b] = h0"
    by (simp add: cells_of_def upt_rec cells)
  have t: "dir_turn u False h0 0 0 = Inr (DirNext h0)" "dir_turn u False h0 1 1 = Inr (DirNext h0)"
    "dir_turn u False h0 2 2 = Inr (DirNext h1)" "dir_turn u False h1 3 3 = Inr (Begin h2)"
    "dir_turn u False h2 0 0 = Inr (DirNext h2)" "dir_turn u False h2 3 1 = Inr (Begin h3)"
    "dir_turn u False h3 0 0 = Inr (DirNext h3)"
    using a b by (simp_all add: cells turn)
  have n: "snd (h0 ! 0) = Some 1" "snd (h0 ! 1) = Some 2" "snd (h1 ! 2) = Some 3" "snd (h2 ! 0) = Some 3" "snd (h3 ! 0) = Some 4"
    by (simp_all add: cells)
  have "dir_loop u False h0 (Some 0) 0 = dir_loop u False h3 (Some 4) 1"
    using t(1,2,3,5,7) [THEN dir_loop_at(1)] t(4,6) [THEN dir_loop_at(2)] n
    by (simp add: numeral_2_eq_2 numeral_3_eq_3)
  moreover have "dir_loop u False h3 (Some 4) 1 = None"
    using dir_loop_circle [OF b, of u False h3 "Some 4" 1] by (cases "dir_loop u False h3 (Some 4) 1") (auto simp: cells)
  ultimately show ?thesis by (simp add: canonicalize_directory_destructively_def c)
qed

section \<open>Namestrings\<close>

text \<open>Characters that a word of a physical namestring goes on over, and delimiters that are remembered.\<close>

definition passes :: "(nat \<Rightarrow> bool) \<Rightarrow> wflag set \<Rightarrow> bool \<Rightarrow> bool \<Rightarrow> nat \<Rightarrow> bool" where
  "passes delim flags wild begins c \<longleftrightarrow>
     (delim c \<longrightarrow> SearchLastDot \<in> flags \<or> begins \<and> AllowLeadingDot \<in> flags) \<and> (c = 42 \<longrightarrow> AllowAsterisk \<in> flags \<or> \<not> wild)
     \<and> (is_semicolon c \<longrightarrow> DisallowSemicolon \<notin> flags) \<and> (is_slash c \<longrightarrow> DisallowSlash \<notin> flags) \<and> c \<noteq> 0
     \<and> LogicalWord \<notin> flags"

definition marks :: "(nat \<Rightarrow> bool) \<Rightarrow> wflag set \<Rightarrow> bool \<Rightarrow> nat \<Rightarrow> bool" where
  "marks delim flags begins c \<longleftrightarrow> delim c \<and> \<not> (begins \<and> AllowLeadingDot \<in> flags)"

lemma word_loop_pass:
  assumes "i < e" "i < length s" "passes delim flags wild (i = start) (s ! i)"
  obtains wi' where "word_loop u delim flags wild s start e i l wi
      = word_loop u delim flags wild s start e (i + 1) (if marks delim flags (i = start) (s ! i) then i else l) wi'"
    "s ! i \<noteq> 42 \<longrightarrow> wi' = wi"
proof -
  have c: "char_at s i = Inr (s ! i)" using assms(2) by (simp add: char_at_def)
  note eq = word_loop.simps [of u delim flags wild s start e i l wi]
  consider "delim (s ! i)" "i = start" "AllowLeadingDot \<in> flags" | "marks delim flags (i = start) (s ! i)"
    | "\<not> delim (s ! i)" "\<not> marks delim flags (i = start) (s ! i)" by (auto simp: marks_def)
  then show thesis
  proof cases
    case 1
    then show ?thesis using eq assms(1) c by (intro that [of wi]) (simp_all add: marks_def)
  next
    case 2
    then have "\<not> (delim (s ! i) \<and> i = start \<and> AllowLeadingDot \<in> flags)" "delim (s ! i)" "SearchLastDot \<in> flags"
      using assms(3) by (auto simp: marks_def passes_def)
    then show ?thesis using eq assms c 2
      by (intro that [of "if s ! i = 42 then i > start \<and> char_at s (i - 1) = Inr 42 else wi"]) (auto simp: passes_def Let_def)
  next
    case 3
    then show ?thesis using eq assms c
      by (intro that [of "if s ! i = 42 then i > start \<and> char_at s (i - 1) = Inr 42 else wi"]) (auto simp: passes_def Let_def)
  qed
qed

text \<open>The text \<open>w\<close> stands in \<open>s\<close> at \<open>i\<close>.\<close>

definition stands :: "nat list \<Rightarrow> nat \<Rightarrow> nat list \<Rightarrow> bool" where
  "stands s i w \<longleftrightarrow> i + length w \<le> length s \<and> take (length w) (drop i s) = w"

lemma stands_Cons: "stands s i (c # w) \<longleftrightarrow> i < length s \<and> s ! i = c \<and> stands s (i + 1) w"
  by (cases "i < length s") (auto simp: stands_def Cons_nth_drop_Suc [symmetric])

lemma stands_append: "stands s i (v @ w) \<longleftrightarrow> stands s i v \<and> stands s (i + length v) w"
proof (induction v arbitrary: i)
  case Nil
  then show ?case by (auto simp: stands_def)
qed (auto simp: stands_Cons)

lemma stands_self: "stands s 0 s"
  by (simp add: stands_def)

lemma no_leading_dot:
  assumes "(start :: nat) < i \<or> AllowLeadingDot \<notin> flags"
  shows "passes delim flags wild (i = start) c = passes delim flags wild False c" "marks delim flags (i = start) c = marks delim flags False c"
  using assms by (auto simp: passes_def marks_def)

lemma word_loop_over:
  assumes "stands s i w" "i + length w \<le> e" "start < i \<or> AllowLeadingDot \<notin> flags" "\<forall>c \<in> set w. passes delim flags wild False c \<and> \<not> marks delim flags False c"
  obtains wi' where "word_loop u delim flags wild s start e i l wi = word_loop u delim flags wild s start e (i + length w) l wi'"
    "42 \<notin> set w \<longrightarrow> wi' = wi"
proof -
  have "\<exists>wi'. word_loop u delim flags wild s start e i l wi = word_loop u delim flags wild s start e (i + length w) l wi'
      \<and> (42 \<notin> set w \<longrightarrow> wi' = wi)"
    using assms
  proof (induction w arbitrary: i wi)
    case (Cons c w)
    then obtain wi1 where wi1: "word_loop u delim flags wild s start e i l wi = word_loop u delim flags wild s start e (i + 1) l wi1"
        "c \<noteq> 42 \<longrightarrow> wi1 = wi"
      using word_loop_pass [of i e s delim flags wild start u l wi] by (auto simp: stands_Cons no_leading_dot)
    have tl: "stands s (i + 1) w" "i + 1 + length w \<le> e" "start < i + 1 \<or> AllowLeadingDot \<notin> flags"
      using Cons.prems by (auto simp: stands_Cons)
    obtain wi2 where "word_loop u delim flags wild s start e (i + 1) l wi1
        = word_loop u delim flags wild s start e (i + 1 + length w) l wi2" "42 \<notin> set w \<longrightarrow> wi2 = wi1"
      using Cons.IH [OF tl, of wi1] Cons.prems(4) by (meson list.set_intros(2))
    then show ?case using wi1 by (intro exI [of _ wi2]) auto
  qed auto
  then show thesis using that by blast
qed

lemma stands_word: "stands s i w \<Longrightarrow> take (length w) (drop i s) = w"
  by (simp add: stands_def)

text \<open>A word that ends at a delimiter, and one that does not.\<close>

lemma parse_word_found:
  assumes "stands s i (w @ c # r)" "i + length w < e" "AllowLeadingDot \<notin> flags" "SearchLastDot \<notin> flags" "delim c"
    "\<forall>x \<in> set w. passes delim flags wild False x"
  obtains wi where "parse_word u s delim flags wild i e = Inr (word_value u flags wild wi w, i + length w + 1)"
    "42 \<notin> set w \<longrightarrow> \<not> wi"
proof -
  have st: "stands s i w" "i + length w < length s" "s ! (i + length w) = c"
    using assms(1) by (auto simp: stands_append stands_Cons)
  have m: "\<forall>x \<in> set w. passes delim flags wild False x \<and> \<not> marks delim flags False x"
    using assms(3,4,6) by (auto simp: marks_def passes_def)
  obtain wi where wi: "word_loop u delim flags wild s i e i e False = word_loop u delim flags wild s i e (i + length w) e wi"
      "42 \<notin> set w \<longrightarrow> wi = False"
    using word_loop_over [OF st(1) less_imp_le [OF assms(2)] _ m, of i u e False] assms(3) by blast
  have "word_loop u delim flags wild s i e (i + length w) e wi = Inr (Some (i + length w, i + length w, wi))"
    using assms(2-5) st by (subst word_loop.simps) (simp add: char_at_def)
  then have "parse_word u s delim flags wild i e = Inr (word_value u flags wild wi w, i + length w + 1)"
    using wi assms(2) stands_word [OF st(1)] by (simp add: parse_word_def)
  then show thesis using that wi(2) by simp
qed

lemma word_loop_rest:
  assumes "stands s i w" "start < i \<or> AllowLeadingDot \<notin> flags"
    "\<forall>x \<in> set w. passes delim flags wild False x \<and> \<not> marks delim flags False x"
  obtains wi' where "word_loop u delim flags wild s start (i + length w) i l wi = Inr (Some (i + length w, l, wi'))" "42 \<notin> set w \<longrightarrow> wi' = wi"
proof -
  obtain wi' where "word_loop u delim flags wild s start (i + length w) i l wi
      = word_loop u delim flags wild s start (i + length w) (i + length w) l wi'" "42 \<notin> set w \<longrightarrow> wi' = wi"
    using word_loop_over [OF assms(1) le_refl assms(2,3)] by blast
  then show thesis using that [of wi'] by (simp add: word_loop.simps [of u delim flags wild s start "i + length w" "i + length w"])
qed

section \<open>Directories of namestrings\<close>

definition plain_char :: "bool \<Rightarrow> nat \<Rightarrow> bool" where
  "plain_char wild c \<longleftrightarrow> c \<noteq> 0 \<and> c \<noteq> 47 \<and> (wild \<longrightarrow> c \<noteq> 42)"

fun plain_item :: "bool \<Rightarrow> pval \<Rightarrow> bool" where
  "plain_item wild (PStr w) \<longleftrightarrow> w \<noteq> [] \<and> w \<noteq> [46] \<and> w \<noteq> [46, 46] \<and> list_all (plain_char wild) w"
| "plain_item wild PUp \<longleftrightarrow> True"
| "plain_item wild x \<longleftrightarrow> wild \<and> (x = PWild \<or> x = PWildInferiors)"

fun item_text :: "pval \<Rightarrow> nat list" where
  "item_text (PStr w) = w"
| "item_text PUp = [46, 46]"
| "item_text PWild = [42]"
| "item_text PWildInferiors = [42, 42]"
| "item_text _ = []"

lemma plain_item_cases:
  assumes "plain_item wild x"
  obtains w where "x = PStr w" "w \<noteq> []" "w \<noteq> [46]" "w \<noteq> [46, 46]" "list_all (plain_char wild) w"
  | "x = PUp" | "x = PWild" wild | "x = PWildInferiors" wild
  using assms by (cases x) auto

lemma write_directories_plain:
  "list_all (plain_item wild) ds \<Longrightarrow> write_directories sep ds = Inr (Some (concat (map (\<lambda>x. item_text x @ [sep]) ds)))"
proof (induction ds)
  case (Cons x ds)
  then have "plain_item wild x" by simp
  then show ?case by (cases rule: plain_item_cases) (use Cons in \<open>simp_all add: write_component_def\<close>)
qed simp

abbreviation dir_flags :: "wflag set" where
  "dir_flags \<equiv> {IncludeDelim, AllowAsterisk}"

lemma word_value_plain:
  assumes "list_all (plain_char wild) w" "wild \<longrightarrow> 42 \<notin> set w \<longrightarrow> \<not> wi" "LogicalWord \<notin> flags" "w \<noteq> [46, 46] \<or> AllowLeadingDot \<in> flags"
    "w \<noteq> [] \<or> EmptyIsNil \<notin> flags"
  shows "word_value u flags wild wi w = PStr w"
proof -
  have a: "wild \<Longrightarrow> 42 \<notin> set w" using assms(1) by (auto simp: list_all_iff plain_char_def)
  then have "\<not> (w = [42] \<and> wild)" "\<not> (w = [42, 42] \<and> wild)" "\<not> (wi \<and> wild)" using assms(2) by auto
  then show ?thesis using assms(3-5) unfolding word_value_def by auto
qed

lemma parse_item:
  assumes "stands s i (item_text x @ 47 # r)" "i + length (item_text x) < e" "plain_item wild x"
  shows "parse_word u s is_slash dir_flags wild i e = Inr (x, i + length (item_text x) + 1)"
proof -
  have "\<forall>c \<in> set (item_text x). passes is_slash dir_flags wild False c"
    using assms(3) by (cases rule: plain_item_cases) (auto simp: list_all_iff plain_char_def passes_def is_slash_def is_semicolon_def)
  then obtain wi where p: "parse_word u s is_slash dir_flags wild i e = Inr (word_value u dir_flags wild wi (item_text x), i + length (item_text x) + 1)"
      and wi: "42 \<notin> set (item_text x) \<longrightarrow> \<not> wi"
    using parse_word_found [OF assms(1,2), of dir_flags is_slash wild u] by (auto simp: is_slash_def)
  have "word_value u dir_flags wild wi (item_text x) = x"
    using assms(3)
  proof (cases rule: plain_item_cases)
    case (1 w)
    then show ?thesis using wi word_value_plain [of wild w wi dir_flags u] by simp
  qed (simp_all add: word_value_def)
  then show ?thesis using p by simp
qed

lemma parse_no_item:
  assumes "stands s i w" "list_all (plain_char False) w"
  shows "parse_word u s is_slash dir_flags wild i (i + length w) = Inr (PNil, i)"
proof -
  have "\<forall>x \<in> set w. passes is_slash dir_flags wild False x \<and> \<not> marks is_slash dir_flags False x"
    using assms(2) by (auto simp: list_all_iff plain_char_def passes_def marks_def is_slash_def)
  then obtain wi where "word_loop u is_slash dir_flags wild s i (i + length w) i (i + length w) False = Inr (Some (i + length w, i + length w, wi))"
    using word_loop_rest [OF assms(1), of i dir_flags is_slash wild u "i + length w" False] by auto
  then show ?thesis by (simp add: parse_word_def)
qed

lemma dirs_loop_items:
  assumes "stands s j (concat (map (\<lambda>x. item_text x @ [47]) ds) @ w)" "list_all (plain_item wild) ds" "list_all (plain_char False) w"
    "e = j + length (concat (map (\<lambda>x. item_text x @ [47]) ds) @ w)" "start < j"
  shows "dirs_loop u {} wild s start e j path j = Inr (Some (path @ ds), e - length w)"
  using assms
proof (induction ds arbitrary: j path)
  case Nil
  then show ?case using parse_no_item [of s j w u wild] by (subst dirs_loop.simps) simp
next
  case (Cons x ds)
  let ?i = "j + length (item_text x) + 1"
  have p: "parse_word u s is_slash dir_flags wild j e = Inr (x, ?i)"
    using Cons.prems parse_item [of s j x "concat (map (\<lambda>x. item_text x @ [47]) ds) @ w" e wild u] by simp
  have x: "x \<noteq> PError" "x \<noteq> PNil" "x \<noteq> PStr []" "j < e" using Cons.prems(2,4) by auto
  have "dirs_loop u {} wild s start e ?i (path @ [x]) ?i = Inr (Some ((path @ [x]) @ ds), e - length w)"
    using Cons.prems by (intro Cons.IH) (auto simp: stands_append stands_Cons)
  then show ?case using p x by (subst dirs_loop.simps) simp
qed

section \<open>Names and types of namestrings\<close>

abbreviation name_flags :: "wflag set" where
  "name_flags \<equiv> {AllowLeadingDot, SearchLastDot, AllowAsterisk, EmptyIsNil}"

definition plain_name :: "bool \<Rightarrow> nat list \<Rightarrow> nat list option \<Rightarrow> bool" where
  "plain_name wild n t \<longleftrightarrow> n \<noteq> [] \<and> list_all (plain_char wild) n \<and>
     (case t of None \<Rightarrow> 46 \<notin> set (tl n)
      | Some t' \<Rightarrow> 46 \<notin> set t' \<and> list_all (plain_char wild) t' \<and> \<not> (t' = [] \<and> n = [46]))"

definition name_text :: "nat list \<Rightarrow> nat list option \<Rightarrow> nat list" where
  "name_text n t = n @ (case t of None \<Rightarrow> [] | Some t' \<Rightarrow> 46 # t')"

lemma plain_name_passes: "plain_char wild c \<Longrightarrow> passes is_dot name_flags wild b c"
  by (simp add: plain_char_def passes_def)

text \<open>The name of a pathname may have dots: the loop remembers the last one.\<close>

lemma word_loop_name:
  assumes "stands s i w" "i + length w \<le> e" "list_all (plain_char wild) w"
  shows "\<exists>l' wi'. word_loop u is_dot name_flags wild s start e i l wi
      = word_loop u is_dot name_flags wild s start e (i + length w) l' wi'
      \<and> (42 \<notin> set w \<longrightarrow> wi' = wi) \<and> (46 \<notin> set (if i = start then tl w else w) \<longrightarrow> i = start \<or> start < i \<longrightarrow> l' = l)"
  using assms
proof (induction w arbitrary: i l wi)
  case (Cons c w)
  have c: "i < e" "i < length s" "s ! i = c" "passes is_dot name_flags wild (i = start) (s ! i)"
    using Cons.prems by (auto simp: stands_Cons plain_name_passes)
  let ?l1 = "if marks is_dot name_flags (i = start) c then i else l"
  obtain wi1 where w1: "word_loop u is_dot name_flags wild s start e i l wi = word_loop u is_dot name_flags wild s start e (i + 1) ?l1 wi1"
      "c \<noteq> 42 \<longrightarrow> wi1 = wi"
    using word_loop_pass [OF c(1,2,4), of u l wi] c(3) by metis
  have m: "marks is_dot name_flags (i = start) c \<longleftrightarrow> c = 46 \<and> i \<noteq> start" by (auto simp: marks_def is_dot_def)
  have t: "stands s (i + 1) w" "i + 1 + length w \<le> e" "list_all (plain_char wild) w"
    using Cons.prems by (auto simp: stands_Cons)
  obtain l2 wi2 where w2: "word_loop u is_dot name_flags wild s start e (i + 1) ?l1 wi1
      = word_loop u is_dot name_flags wild s start e (i + 1 + length w) l2 wi2" "42 \<notin> set w \<longrightarrow> wi2 = wi1"
      "46 \<notin> set (if i + 1 = start then tl w else w) \<longrightarrow> i + 1 = start \<or> start < i + 1 \<longrightarrow> l2 = ?l1"
    using Cons.IH [OF t] by blast
  have "word_loop u is_dot name_flags wild s start e i l wi = word_loop u is_dot name_flags wild s start e (i + length (c # w)) l2 wi2"
    using w1(1) w2(1) by simp
  moreover have "42 \<notin> set (c # w) \<longrightarrow> wi2 = wi" using w1(2) w2(2) by auto
  moreover have "46 \<notin> set (if i = start then tl (c # w) else c # w) \<longrightarrow> i = start \<or> start < i \<longrightarrow> l2 = l"
    using w2(3) m by auto
  ultimately show ?case by blast
qed auto

lemma parse_word_name:
  assumes "stands s i n" "list_all (plain_char wild) n" "46 \<notin> set (tl n)" "n \<noteq> []"
  shows "parse_word u s is_dot name_flags wild i (i + length n) = Inr (PStr n, i + length n)"
proof -
  obtain wi where "word_loop u is_dot name_flags wild s i (i + length n) i (i + length n) False
      = word_loop u is_dot name_flags wild s i (i + length n) (i + length n) (i + length n) wi" "42 \<notin> set n \<longrightarrow> \<not> wi"
    using word_loop_name [OF assms(1) le_refl assms(2), of u i "i + length n" False] assms(3) by auto
  then show ?thesis
    using word_value_plain [OF assms(2), of wi name_flags u] assms(4) stands_word [OF assms(1)]
    by (simp add: parse_word_def word_loop.simps [of u is_dot name_flags wild s i "i + length n" "i + length n"])
qed

lemma parse_word_name_dot:
  assumes "stands s i (n @ 46 # t)" "list_all (plain_char wild) n" "list_all (plain_char wild) t" "46 \<notin> set t" "n \<noteq> []"
  shows "parse_word u s is_dot name_flags wild i (i + length (n @ 46 # t)) = Inr (PStr n, i + length n + 1)"
proof -
  let ?e = "i + length (n @ 46 # t)" and ?k = "i + length n"
  have st: "stands s i n" "?k < length s" "s ! ?k = 46" "stands s (?k + 1) t"
    using assms(1) by (auto simp: stands_append stands_Cons)
  have e: "?e = ?k + 1 + length t" by simp
  obtain l wi where 1: "word_loop u is_dot name_flags wild s i ?e i ?e False = word_loop u is_dot name_flags wild s i ?e ?k l wi"
      "42 \<notin> set n \<longrightarrow> \<not> wi"
    using word_loop_name [OF st(1) _ assms(2), of ?e u i ?e False] by auto
  have "passes is_dot name_flags wild (?k = i) (s ! ?k)" using st(3) by (simp add: passes_def is_semicolon_def is_slash_def)
  then have 2: "word_loop u is_dot name_flags wild s i ?e ?k l wi = word_loop u is_dot name_flags wild s i ?e (?k + 1) ?k wi"
    using word_loop_pass [of ?k ?e s is_dot name_flags wild i u l wi] st assms(5) by (auto simp: marks_def is_dot_def)
  have "\<forall>x \<in> set t. passes is_dot name_flags wild False x \<and> \<not> marks is_dot name_flags False x"
    using assms(3,4) by (auto simp: list_all_iff plain_name_passes marks_def is_dot_def)
  then obtain wi' where 3: "word_loop u is_dot name_flags wild s i ?e (?k + 1) ?k wi = Inr (Some (?e, ?k, wi'))" "42 \<notin> set t \<longrightarrow> wi' = wi"
    unfolding e using word_loop_rest [OF st(4), of i name_flags is_dot wild u ?k wi] by auto
  have "\<not> wi' \<or> \<not> wild"
    using 1(2) 3(2) assms(2,3) by (auto simp: list_all_iff plain_char_def)
  then have "word_value u name_flags wild wi' n = PStr n"
    using word_value_plain [OF assms(2), of wi' name_flags u] assms(5) by auto
  then show ?thesis using 1(1) 2 3(1) stands_word [OF st(1)] by (simp add: parse_word_def Let_def)
qed

lemma parse_word_type:
  assumes "stands s i t" "list_all (plain_char wild) t" "46 \<notin> set t"
  shows "parse_word u s is_null {AllowAsterisk} wild i (i + length t) = Inr (PStr t, i + length t)"
proof -
  have "\<forall>x \<in> set t. passes is_null {AllowAsterisk} wild False x \<and> \<not> marks is_null {AllowAsterisk} False x"
    using assms(2) by (auto simp: list_all_iff plain_char_def passes_def marks_def is_null_def)
  then obtain wi where "word_loop u is_null {AllowAsterisk} wild s i (i + length t) i (i + length t) False
      = Inr (Some (i + length t, i + length t, wi))" "42 \<notin> set t \<longrightarrow> \<not> wi"
    using word_loop_rest [OF assms(1), of i "{AllowAsterisk}" is_null wild u "i + length t" False] by auto
  moreover have no_dot: "t \<noteq> [46, 46]" using assms(3) by auto
  ultimately show ?thesis
    using word_value_plain [OF assms(2), of wi "{AllowAsterisk}" u] no_dot stands_word [OF assms(1)]
    by (simp add: parse_word_def)
qed

lemma parse_physical_name_text:
  assumes "stands s i (name_text n t)" "plain_name wild n t" "dir \<noteq> PNil"
  shows "parse_physical_name u s wild dir i (i + length (name_text n t))
    = Inr (Some (dir, PStr n, case t of None \<Rightarrow> PNil | Some t' \<Rightarrow> PStr t'), i + length (name_text n t))"
proof (cases t)
  case None
  then have n: "stands s i n" "list_all (plain_char wild) n" "46 \<notin> set (tl n)" "n \<noteq> []"
    using assms by (auto simp: name_text_def plain_name_def)
  have "last n \<noteq> 46" if "length n > 1"
    using n(3,4) that by (cases n) (auto dest: last_in_set split: if_splits)
  moreover have "char_at s (i + length n - 1) = Inr (last n)"
    using n(1,4) by (cases n rule: rev_cases) (auto simp: char_at_def stands_append stands_Cons)
  ultimately show ?thesis
    using None assms(3) parse_word_name [OF n, of u] by (auto simp: parse_physical_name_def name_text_def finish_physical_def)
next
  case (Some t')
  then have n: "stands s i (n @ 46 # t')" "list_all (plain_char wild) n" "list_all (plain_char wild) t'" "46 \<notin> set t'" "n \<noteq> []"
    "\<not> (t' = [] \<and> n = [46])" and st: "stands s (i + length n + 1) t'" "char_at s (i + length n) = Inr 46"
    using assms by (auto simp: name_text_def plain_name_def stands_append stands_Cons char_at_def)
  show ?thesis
    using Some n(5,6) st(2) parse_word_name_dot [OF n(1-5), of u] parse_word_type [OF st(1) n(3,4), of u]
    by (auto simp: parse_physical_name_def name_text_def finish_physical_def add.assoc)
qed

section \<open>The round trip\<close>

text \<open>A file in an absolute directory.\<close>

definition file_pathname :: "nat list \<Rightarrow> pval list \<Rightarrow> nat list \<Rightarrow> nat list option \<Rightarrow> pname" where
  "file_pathname localhost ds n t =
     (make_pathname False (PStr localhost) PUnspecific (PList (PAbsolute # ds)) (PStr n)
        (case t of None \<Rightarrow> PNil | Some t' \<Rightarrow> PStr t') PNewest)\<lparr>pn_complete := t \<noteq> None\<rparr>"

definition file_text :: "pval list \<Rightarrow> nat list \<Rightarrow> nat list option \<Rightarrow> nat list" where
  "file_text ds n t = 47 # concat (map (\<lambda>x. item_text x @ [47]) ds) @ name_text n t"

lemma namestring_file:
  "list_all (plain_item wild) ds \<Longrightarrow> mkcl_namestring localhost (file_pathname localhost ds n t) tr = Inr (Some (file_text ds n t))"
  by (cases t)
     (simp_all add: mkcl_namestring_def file_pathname_def make_pathname_def write_host_def write_directory_def write_name_def
        write_version_def write_component_def write_directories_plain file_text_def name_text_def)

lemma parse_directories_file:
  assumes "list_all (plain_item wild) ds" "list_all (plain_char False) w" "s = 47 # concat (map (\<lambda>x. item_text x @ [47]) ds) @ w"
  shows "parse_directories u s {} wild 0 (length s) = Inr (Some (PAbsolute # ds), length s - length w)"
proof -
  have st: "stands s 0 ([] @ 47 # concat (map (\<lambda>x. item_text x @ [47]) ds) @ w)" using stands_self [of s] assms(3) by simp
  obtain wi where p: "parse_word u s is_slash dir_flags wild 0 (length s) = Inr (word_value u dir_flags wild wi [], 0 + length [] + 1)"
    using parse_word_found [OF st, of "length s" dir_flags is_slash wild u] assms(3) by (auto simp: is_slash_def)
  have "dirs_loop u {} wild s 0 (length s) 1 ([] @ [PAbsolute]) 1 = Inr (Some (([] @ [PAbsolute]) @ ds), length s - length w)"
    using st assms by (intro dirs_loop_items) (auto simp: stands_append stands_Cons)
  moreover have "0 < length s" using assms(3) by simp
  ultimately show ?thesis
    using p by (simp add: parse_directories_def dirs_loop.simps [of u "{}" wild s 0 "length s" 0] word_value_def)
qed

lemma parse_no_host:
  assumes "s ! 0 = 47" "s \<noteq> []" "LogicalWord \<in> flags \<or> DisallowSlash \<in> flags" "\<not> delim 47"
  shows "parse_word u s delim flags wild 0 (length s) = Inr (PError, 0)"
  using assms by (auto simp: parse_word_def word_loop.simps [of u delim flags wild s 0 "length s" 0] char_at_def is_slash_def is_semicolon_def)

lemma plain_items_simple: "list_all (plain_item wild) ds \<Longrightarrow> list_all simple_item ds \<and> no_dots ds = ds"
proof (induction ds)
  case (Cons x ds)
  then have "plain_item wild x" by simp
  then show ?case using Cons by (cases rule: plain_item_cases) (auto simp: no_dots_def)
qed (simp add: no_dots_def)

lemma plain_name_text: "plain_name wild n t \<Longrightarrow> list_all (plain_char False) (name_text n t)"
  by (auto simp: plain_name_def name_text_def list_all_iff plain_char_def split: option.splits)

lemma parse_namestring_file:
  assumes "list_all (plain_item wild) ds" "plain_name wild n t" "\<not> (\<exists>j. misplaced (PAbsolute # ds) j)"
  shows "mkcl_parse_namestring g u space sys (file_text ds n t) 0 (length (file_text ds n t)) ep0 PNil wild
    = Some (Inr (Some (file_pathname (sys_localhost sys) ds n t), length (file_text ds n t)))"
proof -
  let ?s = "file_text ds n t" and ?i = "length (file_text ds n t) - length (name_text n t)"
  have s: "?s ! 0 = 47" "?s \<noteq> []" by (simp_all add: file_text_def)
  have dirs: "parse_directories u ?s {} wild 0 (length ?s) = Inr (Some (PAbsolute # ds), ?i)"
    by (intro parse_directories_file assms(1) plain_name_text [OF assms(2)]) (simp add: file_text_def)
  have canon: "canonicalize_directory_destructively u (PList (PAbsolute # ds)) False = Some (Inr (PList (PAbsolute # ds)))"
    using canonicalize_simple [of PAbsolute ds u] plain_items_simple [OF assms(1)] assms(3) by (simp add: no_dots_def)
  have "stands ?s ?i (name_text n t)" using stands_self [of ?s]
    by (simp add: file_text_def stands_Cons stands_append)
  moreover have "?i + length (name_text n t) = length ?s" by (simp add: file_text_def)
  ultimately have "parse_physical_name u ?s wild (PList (PAbsolute # ds)) ?i (length ?s)
      = Inr (Some (PList (PAbsolute # ds), PStr n, case t of None \<Rightarrow> PNil | Some t' \<Rightarrow> PStr t'), length ?s)"
    using parse_physical_name_text [OF _ assms(2), of ?s ?i "PList (PAbsolute # ds)" u] by simp
  then have "parse_physical u (sys_localhost sys) ?s wild 0 (length ?s) = Some (Inr (Some (file_pathname (sys_localhost sys) ds n t), length ?s))"
    using dirs canon s
    by (cases t) (simp_all add: parse_physical_def parse_no_host is_colon_def Let_def file_pathname_def make_pathname_def all_present_def)
  then show ?thesis
    using s by (simp add: mkcl_parse_namestring_def parse_no_host is_colon_def Let_def tilde_expand_def file_pathname_def make_pathname_def)
qed

section \<open>Translation\<close>

lemma source_asterisk_none: "42 \<notin> set s \<Longrightarrow> i \<le> length s \<Longrightarrow> source_asterisk s i = length s"
proof (induction s i rule: source_asterisk.induct)
  case (1 s i)
  have "i < length s \<Longrightarrow> s ! i \<noteq> 42" using 1(2) nth_mem by metis
  then show ?case using 1 by (subst source_asterisk.simps) (auto dest: le_neq_implies_less)
qed

text \<open>A pattern with an asterisk before its end matches no source in the translation.\<close>

lemma wilds_loop_inner:
  assumes "42 \<notin> set source" "j \<le> q" "Suc q < length w" "w ! q = 42"
  shows "wilds_loop u cmap source w i j l = None"
  using assms
proof (induction u cmap source w i j l rule: wilds_loop.induct)
  case (1 u cmap source w i j l)
  note eq = wilds_loop.simps [of u cmap source w i j l]
  show ?case
  proof (cases "i < length source \<and> j < length w \<and> w ! j \<noteq> 42")
    case True
    then have "Suc j \<le> q" using 1(4,6) by (metis le_neq_implies_less Suc_leI)
    then show ?thesis using True eq 1 by simp
  next
    case False
    have "wilds_loop u cmap source w (length source) (j + 1) l' = None" for l'
      using 1(4,5) by (subst wilds_loop.simps) simp
    moreover have "j < length w" using 1(4,5) by simp
    ultimately show ?thesis
      using False eq source_asterisk_none [OF 1(3), of i] by (auto simp: Let_def)
  qed
qed

lemma wilds_loop_suffix:
  assumes "42 \<notin> set (p @ t)" "t \<noteq> []" "j \<le> length p"
  shows "wilds_loop u cmap (p @ t) (p @ [42]) j j l = Some (PStr (map_case u cmap t) # l)"
  using assms(3)
proof (induction "length p - j" arbitrary: j)
  case 0
  have "wilds_loop u cmap (p @ t) (p @ [42]) (length (p @ t)) (length p + 1) l' = Some l'" for l'
    by (subst wilds_loop.simps) simp
  then show ?case
    using 0 assms(2) source_asterisk_none [OF assms(1), of j]
    by (simp add: wilds_loop.simps [of u cmap "p @ t" "p @ [42]" j j] Let_def nth_append)
next
  case (Suc n)
  then have j: "j < length p" by simp
  then have "p ! j \<noteq> 42" using assms(1) nth_mem by fastforce
  then show ?case
    using Suc.hyps(1) [of "j + 1"] Suc.hyps(2) j
    by (simp add: wilds_loop.simps [of u cmap "p @ t" "p @ [42]" j j] nth_append)
qed

text \<open>An asterisk at the end of the pattern, when the source has ended.\<close>

lemma wilds_loop_ended:
  assumes "42 \<notin> set p" and "j \<le> length p"
  shows "wilds_loop u cmap p (p @ [42]) j j l = None"
  using assms(2)
proof (induction "length p - j" arbitrary: j)
  case 0
  then show ?case by (simp add: wilds_loop.simps [of u cmap p "p @ [42]" j j])
next
  case (Suc n)
  then have j: "j < length p" by simp
  then have "p ! j \<noteq> 42" using assms(1) nth_mem by fastforce
  then show ?case
    using Suc.hyps(1) [of "j + 1"] Suc.hyps(2) j
    by (simp add: wilds_loop.simps [of u cmap p "p @ [42]" j j] nth_append)
qed

lemma token_loop_plain:
  assumes "\<forall>k. i \<le> k \<and> k < m \<longrightarrow> pattern ! k \<noteq> 42" "i \<le> m" "m \<le> length pattern"
  shows "token_loop pattern i j wilds token new = token_loop pattern m j wilds token new"
  using assms
proof (induction "m - i" arbitrary: i)
  case (Suc n)
  then have "i < length pattern" "pattern ! i \<noteq> 42" by auto
  then have "token_loop pattern i j wilds token new = token_loop pattern (i + 1) j wilds token new" by (subst token_loop.simps) simp
  also have "\<dots> = token_loop pattern m j wilds token new" using Suc by (intro Suc.hyps(1)) auto
  finally show ?case .
qed simp

lemma copy_one_asterisk:
  assumes "42 \<notin> set q" "42 \<notin> set r"
  shows "copy_wildcards [PStr t] (PStr (q @ 42 # r)) = Inr (Some (PStr (q @ t), []))"
proof -
  let ?p = "q @ 42 # r" and ?m = "length q"
  have "token_loop ?p 0 0 [PStr t] [] False = token_loop ?p ?m 0 [PStr t] [] False"
    using assms(1) by (intro token_loop_plain) (auto simp: nth_append in_set_conv_nth)
  also have "\<dots> = token_loop ?p (?m + 1) ?m [] (q @ t) True"
    by (subst token_loop.simps) (simp add: wild_text_def)
  also have "\<dots> = token_loop ?p (length ?p) ?m [] (q @ t) True"
    using assms(2) by (intro token_loop_plain) (auto simp: nth_append nth_Cons' in_set_conv_nth)
  also have "\<dots> = Inr (Some (q @ t, True, []))" by (subst token_loop.simps) simp
  finally show ?thesis by (simp add: copy_wildcards_def)
qed

lemma translate_suffix:
  assumes "42 \<notin> set (p @ t)" "42 \<notin> set (q @ r)"
  shows "translate_item u cmap (PStr (p @ t)) (PStr (p @ [42])) (PStr (q @ 42 # r))
    = (if t = [] then Inl WildcardCount else Inr (PStr (q @ map_case u cmap t)))"
proof (cases "t = []")
  case True
  then show ?thesis using wilds_loop_ended [of p 0 u cmap "[]"] assms(1) by (simp add: translate_item_def find_wilds_def)
next
  case False
  then show ?thesis
    using wilds_loop_suffix [OF assms(1), of 0 u cmap "[]"] copy_one_asterisk [of q r "map_case u cmap t"] assms(2)
    by (simp add: translate_item_def find_wilds_def)
qed

lemma translate_inner:
  assumes "42 \<notin> set s" "r \<noteq> []"
  shows "translate_item u cmap (PStr s) (PStr (q @ 42 # r)) to = Inl WildcardCount"
  using wilds_loop_inner [OF assms(1), of 0 "length q" "q @ 42 # r" u cmap 0 "[]"] assms(2)
  by (simp add: translate_item_def find_wilds_def)

end
