(* ===== verification/Pathname_Functions.thy ===== *)
theory Pathname_Functions
  imports Pathnames
begin

text \<open>
  The functions on pathnames that Lisp programs call (\<^verbatim>\<open>src/src/c/pathname.c\<close>, and the test for wildcards in
  \<^verbatim>\<open>src/src/c/unixfsys.c\<close>). An argument is a pathname or a namestring; streams are left out. The namestring that a
  pathname keeps once it is printed is left out too: printing gives it again.
\<close>

section \<open>Parsing\<close>

type_synonym path_designator = "nat list + pname"

text \<open>
  The functions read namestrings with the numbers, characters and system of \<open>path_reader\<close>; \<open>rd_end0\<close> is what the
  variable for the end of parsing holds before it is set. \<open>rd_defaults\<close> is the value of \<open>*default-pathname-defaults*\<close>.
\<close>

record path_reader =
  rd_gmp :: gmp
  rd_ucd :: ucd
  rd_space :: "nat \<Rightarrow> bool"
  rd_sys :: path_system
  rd_end0 :: nat
  rd_defaults :: pname

datatype api_error = PathError path_error | TextError text_error | CannotParse | WrongHost | WrongHostSyntax
  | NotLogical | BadVersion | BadComponent | WildFilename | NoNamestring

definition lift_path :: "(path_error + 'a) option \<Rightarrow> (api_error + 'a) option" where
  "lift_path r = map_option (map_sum PathError (\<lambda>x. x)) r"

definition opt_then :: "(api_error + 'a) option \<Rightarrow> ('a \<Rightarrow> (api_error + 'b) option) \<Rightarrow> (api_error + 'b) option" where
  "opt_then r f = (case r of None \<Rightarrow> None | Some (Inl err) \<Rightarrow> Some (Inl err) | Some (Inr x) \<Rightarrow> f x)"

definition run_parse :: "path_reader \<Rightarrow> nat list \<Rightarrow> nat \<Rightarrow> nat \<Rightarrow> nat \<Rightarrow> pval \<Rightarrow> (api_error + (pname option \<times> nat)) option" where
  "run_parse rd s start e ep0 default_host =
     lift_path (mkcl_parse_namestring (rd_gmp rd) (rd_ucd rd) (rd_space rd) (rd_sys rd) s start e ep0 default_host True)"

text \<open>\<open>defaults\<close> is \<open>None\<close> when it was not given and the call had one argument.\<close>

definition parse_namestring_text ::
  "path_reader \<Rightarrow> nat list \<Rightarrow> pval \<Rightarrow> pname option \<Rightarrow> int \<Rightarrow> int option \<Rightarrow> bool \<Rightarrow> (api_error + (pname option \<times> nat)) option" where
  "parse_namestring_text rd thing host defaults start en junk_allowed =
     (let default_host = (if host = PNil then case defaults of None \<Rightarrow> PNil | Some d \<Rightarrow> pn_host d else host)
      in case mkcl_get_string_start_end (simple_string False thing) start en of
           Inl err \<Rightarrow> Some (Inl (TextError err))
         | Inr (s, e) \<Rightarrow>
             opt_then (run_parse rd thing s e (rd_end0 rd) default_host) (\<lambda>(out, ee).
               case out of
                 None \<Rightarrow> Some (if junk_allowed then Inr (None, ee) else Inl CannotParse)
               | Some p \<Rightarrow>
                   if ee \<noteq> e then Some (if junk_allowed then Inr (Some p, ee) else Inl CannotParse)
                   else if host \<noteq> PNil \<and> pn_host p \<noteq> host then Some (Inl WrongHost)
                   else Some (Inr (Some p, ee))))"

definition mk_cl_parse_namestring ::
  "path_reader \<Rightarrow> path_designator \<Rightarrow> pval \<Rightarrow> pname option \<Rightarrow> int \<Rightarrow> int option \<Rightarrow> bool \<Rightarrow> (api_error + (pname option \<times> int)) option" where
  "mk_cl_parse_namestring rd thing host defaults start en junk_allowed =
     (case thing of
        Inl s \<Rightarrow> opt_then (parse_namestring_text rd s host defaults start en junk_allowed) (\<lambda>(p, i). Some (Inr (p, int i)))
      | Inr p \<Rightarrow> Some (if host \<noteq> PNil \<and> pn_host p \<noteq> host then Inl WrongHost else Inr (Some p, start)))"

text \<open>Without \<open>:junk-allowed\<close> a pathname is returned whenever there is no error.\<close>

definition mk_cl_pathname :: "path_reader \<Rightarrow> path_designator \<Rightarrow> (api_error + pname) option" where
  "mk_cl_pathname rd x =
     (case x of
        Inr p \<Rightarrow> Some (Inr p)
      | Inl s \<Rightarrow> opt_then (mk_cl_parse_namestring rd (Inl s) PNil None 0 None False)
                   (\<lambda>(p, i). case p of None \<Rightarrow> Some (Inl CannotParse) | Some q \<Rightarrow> Some (Inr q)))"

definition mk_cl_logical_pathname :: "path_reader \<Rightarrow> path_designator \<Rightarrow> (api_error + pname) option" where
  "mk_cl_logical_pathname rd x = opt_then (mk_cl_pathname rd x) (\<lambda>p. Some (if pn_logical p then Inr p else Inl NotLogical))"

section \<open>Merging and making\<close>

definition default_version_ok :: "pval \<Rightarrow> bool" where
  "default_version_ok v \<longleftrightarrow> v = PNewest \<or> v = PNil \<or> v = PUnspecific \<or> v = PWild
     \<or> (case v of PInt n \<Rightarrow> fixnum_range n \<and> 0 < n | _ \<Rightarrow> False)"

definition path_to_merge :: "path_reader \<Rightarrow> path_designator \<Rightarrow> pname \<Rightarrow> (api_error + pname) option" where
  "path_to_merge rd path defaults =
     (case path of
        Inl s \<Rightarrow>
          if pn_logical defaults then
            opt_then (run_parse rd s 0 (length s) 0 (pn_host defaults)) (\<lambda>(out, ep).
              Some (case out of None \<Rightarrow> Inl CannotParse | Some p \<Rightarrow> if ep \<noteq> length s then Inl CannotParse else Inr p))
          else mk_cl_pathname rd path
      | Inr p \<Rightarrow> Some (Inr p))"

definition merge_arguments :: "path_reader \<Rightarrow> path_designator \<Rightarrow> path_designator option \<Rightarrow> pval \<Rightarrow> (api_error + (pname \<times> pname)) option" where
  "merge_arguments rd path defaults default_version =
     opt_then (case defaults of None \<Rightarrow> Some (Inr (rd_defaults rd)) | Some d \<Rightarrow> mk_cl_pathname rd d) (\<lambda>d.
       if \<not> default_version_ok default_version then Some (Inl BadVersion)
       else opt_then (path_to_merge rd path d) (\<lambda>p. Some (Inr (p, d))))"

text \<open>\<open>same\<close> compares the host objects of two pathnames.\<close>

definition mk_cl_merge_pathnames ::
  "path_reader \<Rightarrow> (pname \<Rightarrow> pname \<Rightarrow> bool) \<Rightarrow> path_designator \<Rightarrow> path_designator option \<Rightarrow> pval \<Rightarrow> (api_error + pname) option" where
  "mk_cl_merge_pathnames rd same path defaults default_version =
     opt_then (merge_arguments rd path defaults default_version) (\<lambda>(p, d).
       lift_path (mkcl_merge_pathnames (rd_ucd rd) (sys_translation (rd_sys rd)) (same p d) p d default_version))"

definition mk_mkcl_meld_pathnames ::
  "path_reader \<Rightarrow> (pname \<Rightarrow> pname \<Rightarrow> bool) \<Rightarrow> path_designator \<Rightarrow> path_designator option \<Rightarrow> pval \<Rightarrow> (api_error + pname) option" where
  "mk_mkcl_meld_pathnames rd same path defaults default_version =
     opt_then (merge_arguments rd path defaults default_version) (\<lambda>(p, d).
       lift_path (mkcl_meld_pathnames (rd_ucd rd) (sys_translation (rd_sys rd)) (same p d) p d default_version))"

definition common_transcase :: "ucd \<Rightarrow> pval \<Rightarrow> pval" where
  "common_transcase u x =
     (case x of
        PStr s \<Rightarrow>
          (case mkcl_string_case u (simple_string False s) of
             uppercase_string \<Rightarrow> PStr (map (mkcl_char_downcase u) s)
           | lowercase_string \<Rightarrow> PStr (map (mkcl_char_upcase u) s)
           | mixedcase_string \<Rightarrow> x)
      | _ \<Rightarrow> x)"

definition common_transcase_list :: "ucd \<Rightarrow> pval \<Rightarrow> pval" where
  "common_transcase_list u x = (case x of PList l \<Rightarrow> PList (map (common_transcase u) l) | _ \<Rightarrow> common_transcase u x)"

text \<open>An argument that was not given is \<open>None\<close>.\<close>

definition given :: "pval option \<Rightarrow> (pval \<Rightarrow> pval) \<Rightarrow> pname option \<Rightarrow> (pname \<Rightarrow> pval) \<Rightarrow> pval" where
  "given x f defaults sel = (case x of Some y \<Rightarrow> f y | None \<Rightarrow> case defaults of None \<Rightarrow> PNil | Some d \<Rightarrow> sel d)"

definition mk_cl_make_pathname ::
  "path_reader \<Rightarrow> pval option \<Rightarrow> pval option \<Rightarrow> pval option \<Rightarrow> pval option \<Rightarrow> pval option \<Rightarrow> pval option \<Rightarrow> bool \<Rightarrow> path_designator option
     \<Rightarrow> (api_error + pname) option" where
  "mk_cl_make_pathname rd host device directory name type version scase_common defaults0 =
     opt_then (case defaults0 of None \<Rightarrow> Some (Inr None) | Some d \<Rightarrow> opt_then (mk_cl_pathname rd d) (\<lambda>p. Some (Inr (Some p)))) (\<lambda>defaults.
       let u = rd_ucd rd; sys = rd_sys rd;
           lg = (case host of Some h \<Rightarrow> mkcl_logical_hostname_p u (sys_localhost sys) (sys_hosts sys) h | None \<Rightarrow> False);
           verbatim = (\<not> scase_common \<or> lg);
           tr = (if verbatim then (\<lambda>x. x) else common_transcase u);
           new_host = (case host of
                         Some h \<Rightarrow> tr h
                       | None \<Rightarrow> (case defaults of None \<Rightarrow> pn_host (rd_defaults rd) | Some d \<Rightarrow> pn_host d));
           new_device = (case device of
                           Some x \<Rightarrow> Some (tr x)
                         | None \<Rightarrow> map_option pn_device defaults)
       in lift_path (mkcl_make_pathname u (sys_localhost sys) (sys_hosts sys) new_host new_device
            (given directory (if verbatim then (\<lambda>x. x) else common_transcase_list u) defaults pn_directory)
            (given name tr defaults pn_name) (given type tr defaults pn_type) (given version (\<lambda>x. x) defaults pn_version)))"

section \<open>Components of a pathname\<close>

definition component_in_case :: "ucd \<Rightarrow> bool \<Rightarrow> pname \<Rightarrow> (pval \<Rightarrow> pval) \<Rightarrow> pval \<Rightarrow> pval" where
  "component_in_case u scase_common p f x = (if scase_common \<and> \<not> pn_logical p then f x else x)"

definition mk_cl_pathname_host :: "ucd \<Rightarrow> bool \<Rightarrow> pname \<Rightarrow> pval" where
  "mk_cl_pathname_host u scase_common p = component_in_case u scase_common p (common_transcase u) (pn_host p)"

definition mk_cl_pathname_device :: "ucd \<Rightarrow> bool \<Rightarrow> pname \<Rightarrow> pval" where
  "mk_cl_pathname_device u scase_common p = component_in_case u scase_common p (common_transcase u) (pn_device p)"

definition mk_cl_pathname_directory :: "ucd \<Rightarrow> bool \<Rightarrow> pname \<Rightarrow> pval" where
  "mk_cl_pathname_directory u scase_common p = component_in_case u scase_common p (common_transcase_list u) (pn_directory p)"

definition mk_cl_pathname_name :: "ucd \<Rightarrow> bool \<Rightarrow> pname \<Rightarrow> pval" where
  "mk_cl_pathname_name u scase_common p = component_in_case u scase_common p (common_transcase u) (pn_name p)"

definition mk_cl_pathname_type :: "ucd \<Rightarrow> bool \<Rightarrow> pname \<Rightarrow> pval" where
  "mk_cl_pathname_type u scase_common p = component_in_case u scase_common p (common_transcase u) (pn_type p)"

definition mk_cl_pathname_version :: "pname \<Rightarrow> pval" where
  "mk_cl_pathname_version p = pn_version p"

section \<open>Wildcards\<close>

text \<open>
  The component is looked at as a string of the operating system, up to the first null. A backslash hides the character
  behind it.
\<close>

fun raw_string_is_wild_p :: "nat list \<Rightarrow> bool" where
  "raw_string_is_wild_p [] = False"
| "raw_string_is_wild_p (c # cs) =
     (if c = 0 then False
      else if c = 42 \<or> c = 63 then True
      else if c = 92 then (case cs of [] \<Rightarrow> False | d # ds \<Rightarrow> if d = 0 then False else raw_string_is_wild_p ds)
      else raw_string_is_wild_p cs)"

definition mkcl_pathname_component_string_is_wild_p :: "pval \<Rightarrow> bool" where
  "mkcl_pathname_component_string_is_wild_p x = (case x of PStr s \<Rightarrow> raw_string_is_wild_p s | _ \<Rightarrow> False)"

datatype path_component = AnyComponent | HostComponent | DeviceComponent | DirectoryComponent | NameComponent | TypeComponent
  | VersionComponent | NoComponent

definition mk_cl_wild_pathname_p :: "pname \<Rightarrow> path_component \<Rightarrow> api_error + bool" where
  "mk_cl_wild_pathname_p p component =
     (if component = NoComponent then Inl BadComponent
      else
        let asked = (\<lambda>c. component = AnyComponent \<or> component = c);
            wild = (\<lambda>x. x = PWild \<or> mkcl_pathname_component_string_is_wild_p x)
        in Inr ((asked HostComponent \<and> pn_host p = PWild) \<or> (asked DeviceComponent \<and> pn_device p = PWild)
             \<or> (asked VersionComponent \<and> pn_version p = PWild) \<or> (asked NameComponent \<and> wild (pn_name p))
             \<or> (asked TypeComponent \<and> wild (pn_type p))
             \<or> (asked DirectoryComponent \<and> (case pn_directory p of PList l \<Rightarrow> list_ex (\<lambda>x. wild x \<or> x = PWildInferiors) l | _ \<Rightarrow> False))))"

section \<open>Namestrings\<close>

definition lift_name :: "path_error + 'a \<Rightarrow> (api_error + 'a) option" where
  "lift_name r = lift_path (Some r)"

definition mk_cl_namestring :: "path_reader \<Rightarrow> path_designator \<Rightarrow> (api_error + nat list option) option" where
  "mk_cl_namestring rd x = opt_then (mk_cl_pathname rd x) (\<lambda>p. lift_name (mkcl_namestring (sys_localhost (rd_sys rd)) p True))"

definition mk_cl_file_namestring :: "path_reader \<Rightarrow> path_designator \<Rightarrow> (api_error + nat list option) option" where
  "mk_cl_file_namestring rd x =
     opt_then (mk_cl_pathname rd x) (\<lambda>p.
       lift_name (mkcl_namestring (sys_localhost (rd_sys rd))
         (make_pathname (pn_logical p) PNil (if pn_logical p then PUnspecific else PNil) PNil (pn_name p) (pn_type p) (pn_version p)) True))"

definition mk_cl_directory_namestring :: "path_reader \<Rightarrow> path_designator \<Rightarrow> (api_error + nat list option) option" where
  "mk_cl_directory_namestring rd x =
     opt_then (mk_cl_pathname rd x) (\<lambda>p.
       lift_name (mkcl_namestring (sys_localhost (rd_sys rd))
         (make_pathname (pn_logical p) PNil (if pn_logical p then PUnspecific else PNil) (pn_directory p) PNil PNil PNil) True))"

definition mk_cl_host_namestring :: "path_reader \<Rightarrow> path_designator \<Rightarrow> (api_error + pval) option" where
  "mk_cl_host_namestring rd x =
     opt_then (mk_cl_pathname rd x) (\<lambda>p. Some (Inr (if pn_host p = PNil \<or> pn_host p = PWild then PStr [] else pn_host p)))"

text \<open>Components other than the directory, compared by \<open>equalp\<close>.\<close>

definition EN_MATCH :: "ucd \<Rightarrow> pname \<Rightarrow> pname \<Rightarrow> (pname \<Rightarrow> pval) \<Rightarrow> pval" where
  "EN_MATCH u p d sel =
     (if (case (sel p, sel d) of (PStr s, PStr t) \<Rightarrow> same_letters u s t | (x, y) \<Rightarrow> x = y) then PNil else sel p)"

fun common_length :: "'a list \<Rightarrow> 'a list \<Rightarrow> nat" where
  "common_length (x # xs) (y # ys) = (if x = y then Suc (common_length xs ys) else 0)"
| "common_length _ _ = 0"

text \<open>The directory that leads from the directory of the defaults to that of the pathname.\<close>

definition enough_directory :: "pval \<Rightarrow> pval \<Rightarrow> path_error + pval" where
  "enough_directory pathdir defaultdir =
     (if pathdir = PNil then Inr (PList [PRelative])
      else if defaultdir = PNil then Inr pathdir
      else if (case pathdir of PList (d # _) \<Rightarrow> d = PRelative | _ \<Rightarrow> False) then Inr pathdir
      else and_then (list_of pathdir) (\<lambda>pd. and_then (list_of defaultdir) (\<lambda>dd.
        Inr (if pd = dd then PNil
             else if common_length pd dd = length dd then PList (PRelative # drop (length dd) pd)
             else pathdir))))"

definition mk_cl_enough_namestring :: "path_reader \<Rightarrow> path_designator \<Rightarrow> path_designator \<Rightarrow> (api_error + nat list option) option" where
  "mk_cl_enough_namestring rd path0 defaults0 =
     opt_then (mk_cl_pathname rd defaults0) (\<lambda>d. opt_then (mk_cl_pathname rd path0) (\<lambda>p.
     opt_then (lift_name (enough_directory (pn_directory p) (pn_directory d))) (\<lambda>pathdir.
       let u = rd_ucd rd; m = EN_MATCH u p d;
           fname = (if m pn_name = PNil then pn_name p else m pn_name)
       in lift_name (mkcl_namestring (sys_localhost (rd_sys rd))
            (make_pathname (pn_logical p) (m pn_host) (if pn_logical p then PUnspecific else m pn_device) pathdir fname
              (m pn_type) (m pn_version)) True))))"

section \<open>Physical pathnames\<close>

definition mkcl_coerce_to_physical_pathname :: "path_reader \<Rightarrow> path_designator \<Rightarrow> (api_error + pname) option" where
  "mkcl_coerce_to_physical_pathname rd x =
     opt_then (mk_cl_pathname rd x) (\<lambda>p. if pn_logical p then lift_path (sys_translation (rd_sys rd) p) else Some (Inr p))"

text \<open>A fresh pathname is changed in place, a given one is copied: the value is the same.\<close>

definition mkcl_coerce_to_file_pathname ::
  "path_reader \<Rightarrow> (pname \<Rightarrow> pname \<Rightarrow> bool) \<Rightarrow> path_designator \<Rightarrow> (api_error + pname) option" where
  "mkcl_coerce_to_file_pathname rd same x =
     opt_then (mkcl_coerce_to_physical_pathname rd x) (\<lambda>p.
       let d = rd_defaults rd; tr = sys_translation (rd_sys rd)
       in if x = Inr p then lift_path (mkcl_merge_pathnames (rd_ucd rd) tr (same p d) p d PNewest)
          else lift_path (mkcl_meld_pathnames (rd_ucd rd) tr (same p d) p d PNewest))"

definition mk_si_coerce_to_filename :: "path_reader \<Rightarrow> (pname \<Rightarrow> pname \<Rightarrow> bool) \<Rightarrow> path_designator \<Rightarrow> (api_error + nat list) option" where
  "mk_si_coerce_to_filename rd same x =
     opt_then (mkcl_coerce_to_file_pathname rd same x) (\<lambda>p.
       case mk_cl_wild_pathname_p p AnyComponent of
         Inl err \<Rightarrow> Some (Inl err)
       | Inr w \<Rightarrow>
           if w then Some (Inl WildFilename)
           else opt_then (mk_cl_namestring rd (Inr p)) (\<lambda>s. Some (case s of None \<Rightarrow> Inl NoNamestring | Some t \<Rightarrow> Inr t)))"

section \<open>Translations of hosts\<close>

type_synonym translation_table = "(nat list \<times> (pname \<times> pname) list) list"

fun find_host :: "ucd \<Rightarrow> nat list \<Rightarrow> translation_table \<Rightarrow> nat option" where
  "find_host u host [] = None"
| "find_host u host ((h, _) # tr) = (if same_letters u host h then Some 0 else map_option Suc (find_host u host tr))"

definition host_syntax :: "ucd \<Rightarrow> nat list \<Rightarrow> api_error + unit" where
  "host_syntax u host =
     (case parse_word u host is_null {LogicalWord} True 0 (length host) of
        Inl err \<Rightarrow> Inl (PathError err)
      | Inr (_, parsed_len) \<Rightarrow> if parsed_len < length host then Inl WrongHostSyntax else Inr ())"

definition get_translations :: "ucd \<Rightarrow> nat list \<Rightarrow> translation_table \<Rightarrow> api_error + (pname \<times> pname) list" where
  "get_translations u host tr =
     and_then (host_syntax u host) (\<lambda>_. Inr (case find_host u host tr of None \<Rightarrow> [] | Some i \<Rightarrow> snd (tr ! i)))"

definition coerce_to_from_pathname :: "path_reader \<Rightarrow> path_designator \<Rightarrow> nat list \<Rightarrow> (api_error + pname) option" where
  "coerce_to_from_pathname rd x host =
     opt_then
       (case x of
          Inr p \<Rightarrow> Some (Inr p)
        | Inl s \<Rightarrow> opt_then (mk_cl_parse_namestring rd x (PStr host) (Some (rd_defaults rd)) 0 None False)
                     (\<lambda>(p, i). Some (case p of None \<Rightarrow> Inl CannotParse | Some q \<Rightarrow> Inr q)))
       (\<lambda>p. Some (if pn_logical p then Inr p else Inl NotLogical))"

fun coerce_pairs :: "path_reader \<Rightarrow> nat list \<Rightarrow> (path_designator \<times> path_designator) list \<Rightarrow> (api_error + (pname \<times> pname) list) option" where
  "coerce_pairs rd host [] = Some (Inr [])"
| "coerce_pairs rd host ((from, to) # l) =
     opt_then (coerce_to_from_pathname rd from host) (\<lambda>f. opt_then (mk_cl_pathname rd to) (\<lambda>t.
     opt_then (coerce_pairs rd host l) (\<lambda>r. Some (Inr ((f, t) # r)))))"

text \<open>
  A new host is entered before its translations are read, so that they can be namestrings of it. The result and the
  table afterwards.
\<close>

definition set_translations ::
  "path_reader \<Rightarrow> nat list \<Rightarrow> (path_designator \<times> path_designator) list \<Rightarrow> translation_table
     \<Rightarrow> ((api_error + (pname \<times> pname) list) \<times> translation_table) option" where
  "set_translations rd host set0 tr =
     (case host_syntax (rd_ucd rd) host of
        Inl err \<Rightarrow> Some (Inl err, tr)
      | Inr _ \<Rightarrow>
          let (i, tr') = (case find_host (rd_ucd rd) host tr of None \<Rightarrow> (0, (host, []) # tr) | Some j \<Rightarrow> (j, tr))
          in map_option (\<lambda>r. case r of Inl err \<Rightarrow> (Inl err, tr') | Inr l \<Rightarrow> (Inr l, tr'[i := (fst (tr' ! i), l)]))
               (coerce_pairs (rd\<lparr>rd_sys := (rd_sys rd)\<lparr>sys_hosts := map fst tr'\<rparr>\<rparr>) host set0))"

end
