(* ===== verification/Pathname_Function_Props.thy ===== *)
theory Pathname_Function_Props
  imports Pathname_Props Pathname_Functions
begin

text \<open>
  The namestring of a file names it for the operating system and is parsed to the same pathname; the directory that
  \<open>enough-namestring\<close> leaves is merged back to the whole one; setting the translations of a host.
\<close>

section \<open>Names of files\<close>

definition tame_text :: "nat list \<Rightarrow> bool" where
  "tame_text s \<longleftrightarrow> list_all (\<lambda>c. c \<noteq> 42 \<and> c \<noteq> 63) s"

lemma tame_not_wild: "tame_text s \<Longrightarrow> \<not> raw_string_is_wild_p s"
  by (induction s rule: raw_string_is_wild_p.induct) (auto simp: tame_text_def split: list.splits)

fun tame_item :: "pval \<Rightarrow> bool" where
  "tame_item (PStr s) \<longleftrightarrow> tame_text s"
| "tame_item x \<longleftrightarrow> x = PUp"

lemma tame_item_not_wild: "tame_item x \<Longrightarrow> x \<noteq> PWild \<and> x \<noteq> PWildInferiors \<and> \<not> mkcl_pathname_component_string_is_wild_p x"
  by (cases x) (auto simp: mkcl_pathname_component_string_is_wild_p_def tame_not_wild)

lemma file_not_wild:
  assumes "list_all tame_item ds" "tame_text n" "tame_text t"
  shows "mk_cl_wild_pathname_p (file_pathname h ds n (Some t)) AnyComponent = Inr False"
proof -
  have "\<not> list_ex (\<lambda>x. (x = PWild \<or> mkcl_pathname_component_string_is_wild_p x) \<or> x = PWildInferiors) ds"
    using assms(1) tame_item_not_wild by (induction ds) auto
  then show ?thesis
    using assms(2,3) tame_not_wild
    by (auto simp: mk_cl_wild_pathname_p_def file_pathname_def make_pathname_def mkcl_pathname_component_string_is_wild_p_def Let_def)
qed

lemma file_complete: "pn_complete (file_pathname h ds n (Some t))" "\<not> pn_logical (file_pathname h ds n t')"
  by (simp_all add: file_pathname_def make_pathname_def)

lemma filename_of_file:
  assumes "list_all (plain_item False) ds" "list_all tame_item ds" "tame_text n" "tame_text t"
  shows "mk_si_coerce_to_filename rd same (Inr (file_pathname (sys_localhost (rd_sys rd)) ds n (Some t)))
    = Some (Inr (file_text ds n (Some t)))"
  using file_not_wild [OF assms(2-4)] namestring_file [OF assms(1)]
  by (simp add: mk_si_coerce_to_filename_def mkcl_coerce_to_file_pathname_def mkcl_coerce_to_physical_pathname_def mk_cl_pathname_def
      opt_then_def lift_path_def mkcl_merge_pathnames_def file_complete mk_cl_namestring_def lift_name_def)

lemma plain_wild: "list_all (plain_item True) ds \<Longrightarrow> list_all (\<lambda>x. x \<noteq> PWild \<and> x \<noteq> PWildInferiors) ds \<Longrightarrow> list_all (plain_item False) ds"
proof (induction ds)
  case (Cons x ds)
  then have "plain_item True x" by simp
  then show ?case by (cases rule: plain_item_cases) (use Cons in \<open>auto simp: list_all_iff plain_char_def\<close>)
qed simp

lemma pathname_of_text:
  assumes "list_all (plain_item True) ds" "plain_name True n t" "\<not> (\<exists>j. misplaced (PAbsolute # ds) j)"
  shows "mk_cl_pathname rd (Inl (file_text ds n t)) = Some (Inr (file_pathname (sys_localhost (rd_sys rd)) ds n t))"
  using parse_namestring_file [OF assms(1-3), of "rd_gmp rd" "rd_ucd rd" "rd_space rd" "rd_sys rd" "rd_end0 rd"]
  by (simp add: mk_cl_pathname_def mk_cl_parse_namestring_def parse_namestring_text_def run_parse_def lift_path_def opt_then_def
      mkcl_get_string_start_end_def simple_string_def fixnum_range_def MOST_NEGATIVE_FIXNUM_def MOST_POSITIVE_FIXNUM_def)

text \<open>What is given to the operating system for a file is parsed to the pathname of the file.\<close>

lemma filename_round_trip:
  assumes "list_all (plain_item True) ds" "list_all tame_item ds" "plain_name True n (Some t)" "tame_text n" "tame_text t"
    "\<not> (\<exists>j. misplaced (PAbsolute # ds) j)"
    "p = file_pathname (sys_localhost (rd_sys rd)) ds n (Some t)"
  shows "\<exists>s. mk_si_coerce_to_filename rd same (Inr p) = Some (Inr s) \<and> mk_cl_pathname rd (Inl s) = Some (Inr p)"
proof -
  have "list_all (\<lambda>x. x \<noteq> PWild \<and> x \<noteq> PWildInferiors) ds"
    using assms(2) tame_item_not_wild by (auto simp: list_all_iff)
  then show ?thesis
    using filename_of_file [OF plain_wild [OF assms(1)] assms(2,4,5)] pathname_of_text [OF assms(1,3,6)] assms(7) by auto
qed

section \<open>Relative directories\<close>

lemma common_length_le: "common_length xs ys \<le> length ys"
  by (induction xs ys rule: common_length.induct) auto

lemma common_length_prefix: "common_length xs ys = length ys \<Longrightarrow> xs = ys @ drop (length ys) xs"
  by (induction xs ys rule: common_length.induct) (auto split: if_splits)

text \<open>The directory of a merged pathname, as \<open>mkcl_meld_pathnames\<close> computes it from two lists.\<close>

definition merged_directory :: "pval \<Rightarrow> pval list \<Rightarrow> pval" where
  "merged_directory d dd =
     (if d = PNil then PList dd else if absolute d then d
      else case d of PList (_ # es) \<Rightarrow> PList (dd @ es) | _ \<Rightarrow> d)"

lemma enough_directory_merges:
  "\<exists>e. enough_directory (PList (PAbsolute # ds)) (PList (PAbsolute # es)) = Inr e
     \<and> merged_directory e (PAbsolute # es) = PList (PAbsolute # ds)"
proof (cases "common_length ds es = length es")
  case True
  then show ?thesis
    using common_length_prefix [OF True] by (auto simp: enough_directory_def merged_directory_def)
next
  case False
  then show ?thesis by (auto simp: enough_directory_def merged_directory_def)
qed

section \<open>Translations\<close>

lemma find_host_Some: "find_host u host tr = Some i \<Longrightarrow> i < length tr \<and> same_letters u host (fst (tr ! i))"
  by (induction u host tr arbitrary: i rule: find_host.induct) (auto split: if_splits)

lemma find_host_update: "find_host u host (tr[j := (fst (tr ! j), l)]) = find_host u host tr"
proof (induction tr arbitrary: j)
  case (Cons p tr)
  then show ?case by (cases p; cases j) auto
qed simp

lemma same_letters_refl: "same_letters u s s"
  by (simp add: same_letters_def)

text \<open>The translations that were set are those that are returned afterwards, and those of other hosts stay.\<close>

lemma set_translations_cases:
  assumes "set_translations rd host items tr = Some (Inr l, tr')"
  obtains (fresh) "host_syntax (rd_ucd rd) host = Inr ()" "find_host (rd_ucd rd) host tr = None" "tr' = (host, l) # tr"
  | (known) j where "host_syntax (rd_ucd rd) host = Inr ()" "find_host (rd_ucd rd) host tr = Some j" "tr' = tr[j := (fst (tr ! j), l)]"
  using assms by (auto simp: set_translations_def split: sum.splits option.splits) (metis obj_sumE)+

lemma set_then_get_translations:
  assumes "set_translations rd host items tr = Some (Inr l, tr')"
  shows "get_translations (rd_ucd rd) host tr' = Inr l"
  using assms
proof (cases rule: set_translations_cases)
  case fresh
  then show ?thesis by (simp add: get_translations_def same_letters_refl)
next
  case (known j)
  then show ?thesis using find_host_Some [OF known(2)] by (simp add: get_translations_def find_host_update)
qed

lemma set_keeps_other_translations:
  assumes "set_translations rd host items tr = Some (Inr l, tr')" "\<not> same_letters (rd_ucd rd) other host"
  shows "get_translations (rd_ucd rd) other tr' = get_translations (rd_ucd rd) other tr"
  using assms(1)
proof (cases rule: set_translations_cases)
  case fresh
  then show ?thesis using assms(2) by (simp add: get_translations_def option.case_eq_if option.map_sel)
next
  case (known j)
  have "i \<noteq> j" if "find_host (rd_ucd rd) other tr = Some i" for i
    using find_host_Some [OF that] find_host_Some [OF known(2)] assms(2) by (auto simp: same_letters_def)
  then show ?thesis using known by (auto simp: get_translations_def find_host_update split: option.splits)
qed

text \<open>
  The host of a namestring is made uppercase and then compared, with regard to case, to the host that was asked for: a
  translation of a host in lower case cannot be given by a namestring with that host.
\<close>

lemma lowercase_host_refused:
  assumes "rd_ucd rd = ascii" "sys_hosts (rd_sys rd) = [codes ''foo'']" "sys_localhost (rd_sys rd) = codes ''h''"
  shows "coerce_to_from_pathname rd (Inl (codes ''foo:a.b'')) (codes ''foo'') = Some (Inl WrongHost)"
proof -
  let ?s = "codes ''foo:a.b''" and ?host = "PStr (codes ''FOO'')"
  have letters: "mkcl_alphanumericp ascii 102" "mkcl_alphanumericp ascii 111" "mkcl_alphanumericp ascii 97" "mkcl_alphanumericp ascii 98"
    "mkcl_char_upcase ascii 102 = 70" "mkcl_char_upcase ascii 111 = 79" "mkcl_char_upcase ascii 97 = 65" "mkcl_char_upcase ascii 98 = 66"
    "mkcl_char_upcase ascii 70 = 70" "mkcl_char_upcase ascii 79 = 79"
    by (simp_all add: mkcl_alphanumericp_def mkcl_char_upcase_def mkcl_unicode_character_general_category_def
        mkcl_unicode_character_information_def MKCL_CHAR_CODE_LIMIT_def ascii_def)
  note eval = parse_word_def word_loop.simps char_at_def codes_def is_colon_def is_dot_def is_semicolon_def is_slash_def word_value_def letters
  have word: "parse_word ascii ?s is_colon {LogicalWord, IncludeDelim, DisallowSemicolon} True 0 7 = Inr (?host, 4)"
    by (simp add: eval)
  have host: "mkcl_logical_hostname_p ascii (codes ''h'') [codes ''foo''] ?host"
    by (simp add: mkcl_logical_hostname_p_def same_letters_def codes_def letters)
  have dirs: "parse_directories ascii ?s {LogicalWord} True 4 7 = Inr (Some [], 4)"
    by (simp add: parse_directories_def dirs_loop.simps [of ascii _ _ _ 4 7 4] eval)
  have name: "logical_word ascii ?s True 0 4 7 = Inr (PStr (codes ''A''), 6, True)"
    by (simp add: logical_word_def eval)
  have type: "logical_word ascii ?s True 0 6 7 = Inr (PStr (codes ''B''), 7, False)"
    by (simp add: logical_word_def eval)
  have range: "mkcl_get_string_start_end (simple_string False ?s) 0 None = Inr (0, 7)"
    by (simp add: mkcl_get_string_start_end_def simple_string_def codes_def fixnum_range_def MOST_NEGATIVE_FIXNUM_def MOST_POSITIVE_FIXNUM_def)
  have "parse_logical (rd_gmp rd) ascii (rd_space rd) ?host ?s True 0 4 7
      = Some (Inr (Some (make_pathname True ?host PUnspecific (PList [PAbsolute]) (PStr (codes ''A'')) (PStr (codes ''B'')) PNil), 7))"
    using dirs name type by (simp add: parse_logical_def parse_logical_name_def make_pathname_def all_present_def)
  then have "run_parse rd ?s 0 7 (rd_end0 rd) (PStr (codes ''foo''))
      = Some (Inr (Some (make_pathname True ?host PUnspecific (PList [PAbsolute]) (PStr (codes ''A'')) (PStr (codes ''B'')) PNil), 7))"
    using word host assms
    by (simp add: run_parse_def mkcl_parse_namestring_def lift_path_def tilde_expand_def make_pathname_def Let_def codes_def)
  moreover have "?host \<noteq> PStr (codes ''foo'')" by (simp add: codes_def)
  ultimately show ?thesis
    using range by (simp add: coerce_to_from_pathname_def mk_cl_parse_namestring_def parse_namestring_text_def opt_then_def make_pathname_def)
qed

end
