(* ===== verification/Number_Props.thy ===== *)
theory Number_Props
  imports Numbers Complex_Main
begin

text \<open>
  Exact arithmetic is arithmetic on rational numbers. Every rational number has one representation
  (\<open>rat_canon\<close>): a fixnum when it is an integer in range, a bignum when it is another integer, otherwise a
  ratio in lowest terms with a positive denominator. Every operation, applied to such
  representations, returns the representation of the result.

  The locale \<open>gmp_library\<close> is the interface to GMP: the documented behaviour of its functions.
\<close>

section \<open>The interface to GMP\<close>

definition gmp_ok :: "gmp \<Rightarrow> bool" where
  "gmp_ok g \<longleftrightarrow>
     (\<forall>x y. mpz_add g x y = x + y \<and> mpz_sub g x y = x - y \<and> mpz_mul g x y = x * y \<and> mpz_mul_si g x y = x * y)
     \<and> (\<forall>x y. 0 \<le> y \<longrightarrow> mpz_add_ui g x y = x + y \<and> mpz_sub_ui g x y = x - y)
     \<and> (\<forall>x. mpz_neg g x = - x \<and> mpz_sgn g x = sgn x \<and> (mpz_odd_p g x \<longleftrightarrow> odd x) \<and> mpz_com g x = NOT x)
     \<and> (\<forall>x y. mpz_gcd g x y = gcd x y)
     \<and> (\<forall>x y. y \<noteq> 0 \<longrightarrow> mpz_tdiv_q g x y = x sdiv y)
     \<and> (\<forall>x y. 0 < y \<longrightarrow> mpz_tdiv_q_ui g x y = x sdiv y)
     \<and> (\<forall>x y. y \<noteq> 0 \<longrightarrow> mpz_fdiv_qr g x y = (x div y, x mod y))
     \<and> (\<forall>x y. y \<noteq> 0 \<longrightarrow> mpz_cdiv_qr g x y = (- (- x div y), x + y * (- x div y)))
     \<and> (\<forall>x y. (mpz_cmp g x y < 0 \<longleftrightarrow> x < y) \<and> (mpz_cmp g x y > 0 \<longleftrightarrow> x > y))
     \<and> (\<forall>x y. mpz_cmp_si g x y = 0 \<longleftrightarrow> x = y)
     \<and> (\<forall>x y. mpz_and g x y = (x AND y) \<and> mpz_ior g x y = (x OR y) \<and> mpz_xor g x y = (x XOR y))
     \<and> (\<forall>x n. mpz_mul_2exp g x n = push_bit n x \<and> mpz_fdiv_q_2exp g x n = drop_bit n x \<and> (mpz_tstbit g x n \<longleftrightarrow> bit x n))
     \<and> (\<forall>x. 0 \<le> x \<longrightarrow> mpz_popcount g x = card {k. bit x k})
     \<and> (\<forall>x. 0 < x \<longrightarrow> 2 ^ (mpz_sizeinbase2 g x - 1) \<le> x \<and> x < 2 ^ mpz_sizeinbase2 g x)
     \<and> (\<forall>x y. 0 \<le> y \<longrightarrow> mpz_mul_ui g x y = x * y)
     \<and> (\<forall>x b. x \<noteq> 0 \<and> 2 \<le> b \<longrightarrow> int b ^ (mpz_sizeinbase g x b - 2) \<le> \<bar>x\<bar> \<and> \<bar>x\<bar> < int b ^ mpz_sizeinbase g x b)"

section \<open>Representations\<close>

definition canon :: "int \<Rightarrow> zint" where
  "canon n = (if fixnum_range n then Fix n else Big n)"

definition rat_canon :: "rat \<Rightarrow> rnum" where
  "rat_canon r = (case quotient_of r of (n, d) \<Rightarrow> if d = 1 then Z (canon n) else Q (canon n) (canon d))"

fun rval :: "rnum \<Rightarrow> rat" where
  "rval (Z x) = of_int (ival x)"
| "rval (Q n d) = of_int (ival n) / of_int (ival d)"

lemma ival_canon [simp]: "ival (canon n) = n"
  by (simp add: canon_def)

lemma canon_inject [simp]: "canon m = canon n \<longleftrightarrow> m = n"
  by (auto simp: canon_def)

lemma make_fixnum_canon: "fixnum_range n \<Longrightarrow> make_fixnum n = canon n"
  by (simp add: make_fixnum_def canon_def fixnum_range_def MOST_POSITIVE_FIXNUM_def MOST_NEGATIVE_FIXNUM_def
      signed_take_bit_int_eq_self_iff)

lemma fixnum_range_small [simp]: "fixnum_range 0" "fixnum_range 1" "fixnum_range 2" "fixnum_range (- 1)"
  by (simp_all add: fixnum_range_def MOST_POSITIVE_FIXNUM_def MOST_NEGATIVE_FIXNUM_def)

lemmas fixnum_range_values = fixnum_range_def MOST_POSITIVE_FIXNUM_def MOST_NEGATIVE_FIXNUM_def

lemmas make_fixnum_small [simp] = fixnum_range_small [THEN make_fixnum_canon]

lemma make_integer_canon [simp]: "mkcl_make_integer n = canon n"
  by (simp add: mkcl_make_integer_def make_fixnum_canon fixnum_range_def canon_def)

lemma normalize_canon [simp]: "mkcl_big_register_normalize n = canon n"
proof (cases "fixnum_range n")
  case True
  then show ?thesis
    using make_fixnum_canon [OF True] by (auto simp: mkcl_big_register_normalize_def fixnum_range_def MOST_POSITIVE_FIXNUM_def MOST_NEGATIVE_FIXNUM_def)
next
  case False
  then show ?thesis
    by (auto simp: mkcl_big_register_normalize_def canon_def fixnum_range_def MOST_POSITIVE_FIXNUM_def MOST_NEGATIVE_FIXNUM_def)
qed

lemma rval_rat_canon [simp]: "rval (rat_canon r) = r"
  using quotient_of_div [of r "fst (quotient_of r)" "snd (quotient_of r)"]
  by (cases "quotient_of r") (auto simp: rat_canon_def)

lemma rat_canon_of_int [simp]: "rat_canon (of_int n) = Z (canon n)"
  by (simp add: rat_canon_def)

lemmas rat_canon_small [simp] = rat_canon_of_int [of 0, simplified] rat_canon_of_int [of 1, simplified]

lemma rat_canon_cases:
  obtains (integer) n where "r = of_int n" "rat_canon r = Z (canon n)"
  | (ratio) n d where "r = of_int n / of_int d" "rat_canon r = Q (canon n) (canon d)" "1 < d" "coprime n d"
proof -
  obtain n d where q: "quotient_of r = (n, d)" by fastforce
  have d: "0 < d" "coprime n d" "r = of_int n / of_int d"
    using quotient_of_denom_pos [OF q] quotient_of_coprime [OF q] quotient_of_div [OF q] by auto
  show ?thesis
  proof (cases "d = 1")
    case True
    then show ?thesis using integer [of n] d q by (simp add: rat_canon_def)
  next
    case False
    then show ?thesis using ratio [of n d] d q by (simp add: rat_canon_def)
  qed
qed

lemma canon_cases:
  obtains (small) "canon n = Fix n" "fixnum_range n" | (large) "canon n = Big n" "\<not> fixnum_range n"
  by (cases "fixnum_range n") (auto simp: canon_def)

section \<open>Arithmetic\<close>

lemma abs_mult_less: "\<bar>x :: int\<bar> < \<bar>y\<bar> \<Longrightarrow> x sdiv y = 0"
  by (simp add: signed_divide_int_def)

lemma sdiv_dvd: "d dvd (n :: int) \<Longrightarrow> 0 < d \<Longrightarrow> n sdiv d = n div d"
  by (auto simp: signed_divide_int_def abs_mult sgn_mult sgn_mult_abs elim!: dvdE)

lemma sdiv_negative: "y < 0 \<Longrightarrow> - (x sdiv \<bar>y\<bar>) = x sdiv (y :: int)"
  by (simp add: signed_divide_int_def)

lemma abs_sdiv: "y \<noteq> 0 \<Longrightarrow> \<bar>x sdiv y\<bar> = \<bar>x :: int\<bar> div \<bar>y\<bar>"
  by (cases "x = 0") (simp_all add: signed_divide_int_def abs_mult div_int_pos_iff)

lemma fixnum_sdiv:
  assumes "fixnum_range x" and "y \<noteq> 0" and "\<not> (x = MOST_NEGATIVE_FIXNUM \<and> y = - 1)"
  shows "fixnum_range (x sdiv y)"
proof -
  have le: "\<bar>x sdiv y\<bar> \<le> \<bar>x\<bar>"
    using zdiv_mono2 [of "\<bar>x\<bar>" 1 "\<bar>y\<bar>"] assms(2) by (simp add: abs_sdiv)
  show ?thesis
  proof (cases "x = MOST_NEGATIVE_FIXNUM")
    case False
    then show ?thesis using le assms(1) by (auto simp: fixnum_range_def MOST_POSITIVE_FIXNUM_def MOST_NEGATIVE_FIXNUM_def)
  next
    case True
    show ?thesis
    proof (cases "y = 1")
      case False
      then have "2 \<le> \<bar>y\<bar>" using assms(2,3) True by auto
      then have "\<bar>x\<bar> div \<bar>y\<bar> \<le> \<bar>x\<bar> div 2" by (intro zdiv_mono2) auto
      then have "\<bar>x sdiv y\<bar> \<le> 2 ^ 60"
        using True assms(2) by (simp add: abs_sdiv MOST_NEGATIVE_FIXNUM_def)
      then show ?thesis by (auto simp: fixnum_range_def MOST_POSITIVE_FIXNUM_def MOST_NEGATIVE_FIXNUM_def)
    qed (use assms(1) in \<open>simp add: signed_divide_int_def sgn_mult_abs\<close>)
  qed
qed

lemma rat_canon_div:
  "0 < d \<Longrightarrow> rat_canon (of_int n / of_int d) =
     (if d div gcd n d = 1 then Z (canon (n div gcd n d)) else Q (canon (n div gcd n d)) (canon (d div gcd n d)))"
  by (simp add: rat_canon_def Fract_of_int_quotient [symmetric] quotient_of_Fract Rat.normalize_def Let_def)

lemma div_bounds: "0 < y \<Longrightarrow> min x 0 \<le> x div y \<and> x div y \<le> max x (0 :: int)"
  using zdiv_mono2 [of x 1 y] zdiv_mono2_neg [of x 1 y] pos_imp_zdiv_neg_iff [of y x]
  by (cases "0 \<le> x") (auto simp: min_def max_def div_int_pos_iff)

lemma fixnum_div:
  assumes "fixnum_range x" and "y \<noteq> 0" and "\<not> (x = MOST_NEGATIVE_FIXNUM \<and> y = - 1)"
  shows "fixnum_range (x div y)"
proof (cases "0 < y")
  case True
  then show ?thesis using div_bounds [OF True, of x] assms(1) by (auto simp: fixnum_range_def MOST_POSITIVE_FIXNUM_def MOST_NEGATIVE_FIXNUM_def)
next
  case False
  then have d: "x div y = - x div - y" "0 < - y" using assms(2) by simp_all
  show ?thesis
  proof (cases "x = MOST_NEGATIVE_FIXNUM")
    case True
    then have "2 \<le> - y" using assms(3) False assms(2) by auto
    then have "- x div - y \<le> - x div 2" using True by (intro zdiv_mono2) (auto simp: MOST_NEGATIVE_FIXNUM_def)
    then show ?thesis unfolding d(1) using True div_bounds [OF d(2), of "- x"] by (simp add: fixnum_range_def MOST_POSITIVE_FIXNUM_def MOST_NEGATIVE_FIXNUM_def)
  next
    case n: False
    then show ?thesis unfolding d(1) using div_bounds [OF d(2), of "- x"] assms(1)
      by (auto simp: fixnum_range_def MOST_POSITIVE_FIXNUM_def MOST_NEGATIVE_FIXNUM_def)
  qed
qed

lemma smod_facts:
  assumes "y \<noteq> (0 :: int)"
  shows "x = y * (x sdiv y) + x smod y" "\<bar>x smod y\<bar> < \<bar>y\<bar>"
  using assms mult_sdiv_smod_eq [of y x] by (auto simp: signed_modulo_int_def abs_mult)

lemma machine_floor:
  assumes "y \<noteq> (0 :: int)"
  shows "(if (x smod y XOR y) < 0 \<and> x smod y \<noteq> 0 then (x sdiv y - 1, x smod y + y) else (x sdiv y, x smod y)) = (x div y, x mod y)"
proof -
  let ?q = "x sdiv y" and ?r = "x smod y"
  note f = smod_facts [OF assms, of x]
  have d: "x = y * (?q - 1) + (?r + y)" using f(1) by (simp add: algebra_simps)
  show ?thesis
  proof (cases "0 < y")
    case True
    then show ?thesis
      using f d int_div_pos_eq [OF f(1)] int_mod_pos_eq [OF f(1)] int_div_pos_eq [OF d] int_mod_pos_eq [OF d] by (auto simp: xor_negative_int_iff)
  next
    case False
    then show ?thesis
      using assms f d int_div_neg_eq [OF f(1)] int_mod_neg_eq [OF f(1)] int_div_neg_eq [OF d] int_mod_neg_eq [OF d] by (auto simp: xor_negative_int_iff)
  qed
qed

lemma machine_ceiling:
  assumes y: "y \<noteq> (0 :: int)" and r: "fixnum_range x" "fixnum_range y" "\<not> (x = MOST_NEGATIVE_FIXNUM \<and> y = - 1)"
  shows "fixnum_range (- (- x div y)) \<and> fixnum_range (x + y * (- x div y))
      \<and> (if (x smod y XOR y) > 0 \<and> x smod y \<noteq> 0 then (x sdiv y + 1, x smod y - y) else (x sdiv y, x smod y))
        = (- (- x div y), x + y * (- x div y))"
proof -
  let ?q = "x sdiv y" and ?r = "x smod y"
  note f = smod_facts [OF y, of x]
  have n: "- x = y * - ?q + - ?r" and d: "- x = y * (- ?q - 1) + (y - ?r)" using f(1) by (simp_all add: algebra_simps)
  have pos: "(?r XOR y) > 0 \<longleftrightarrow> (?r < 0 \<longleftrightarrow> y < 0)"
  proof -
    have "?r = y" if "?r XOR y = 0" using arg_cong [OF that, of "\<lambda>z. z XOR y"] by (simp add: xor.assoc)
    then have "?r XOR y \<noteq> 0" using f(2) by auto
    then show ?thesis using xor_nonnegative_int_iff [of ?r y] by linarith
  qed
  have e: "(if (?r XOR y) > 0 \<and> ?r \<noteq> 0 then (?q + 1, ?r - y) else (?q, ?r)) = (- (- x div y), x + y * (- x div y))"
  proof (cases "(?r < 0 \<longleftrightarrow> y < 0) \<and> ?r \<noteq> 0")
    case True
    have v: "- x div y = - ?q - 1" using True f(2) int_div_pos_eq [OF d] int_div_neg_eq [OF d] by (cases "0 < y") auto
    have "y * (- ?q - 1) = - (y * ?q) - y" by (simp add: algebra_simps)
    then have "x + y * (- ?q - 1) = ?r - y" using f(1) by linarith
    then show ?thesis using True pos by (simp add: v)
  next
    case False
    have v: "- x div y = - ?q" using False y f(2) int_div_pos_eq [OF n] int_div_neg_eq [OF n] by (cases "0 < y") auto
    have "x + y * - ?q = ?r" using f(1) by linarith
    then show ?thesis using False pos by (auto simp: v)
  qed
  have "fixnum_range (?r - y)" if "(?r < 0 \<longleftrightarrow> y < 0)"
    using that f(2) r(2) by (auto simp: fixnum_range_def MOST_POSITIVE_FIXNUM_def MOST_NEGATIVE_FIXNUM_def)
  moreover have "fixnum_range ?r" using f(2) r(2) by (auto simp: fixnum_range_def MOST_POSITIVE_FIXNUM_def MOST_NEGATIVE_FIXNUM_def)
  moreover have "fixnum_range ?q" using fixnum_sdiv [OF r(1) y r(3)] .
  moreover have "fixnum_range (?q + 1)" if "?r \<noteq> 0"
  proof -
    have "\<bar>y\<bar> \<noteq> 1" using that f(2) by auto
    then have "2 \<le> \<bar>y\<bar>" using y by linarith
    then have "\<bar>x\<bar> div \<bar>y\<bar> \<le> \<bar>x\<bar> div 2" by (intro zdiv_mono2) auto
    moreover have "\<bar>x\<bar> \<le> 2 ^ 61" using r(1) by (auto simp: fixnum_range_def MOST_POSITIVE_FIXNUM_def MOST_NEGATIVE_FIXNUM_def)
    then have "\<bar>x\<bar> div 2 \<le> 2 ^ 60" using zdiv_mono1 [of "\<bar>x\<bar>" "2 ^ 61" 2] by simp
    ultimately have "\<bar>?q\<bar> \<le> 2 ^ 60" using abs_sdiv [OF y, of x] by linarith
    then show ?thesis by (auto simp: fixnum_range_def MOST_POSITIVE_FIXNUM_def MOST_NEGATIVE_FIXNUM_def)
  qed
  ultimately show ?thesis using e pos by (auto split: if_splits)
qed

text \<open>Fractions over a common denominator.\<close>

lemma fraction_sums:
  "d \<noteq> 0 \<Longrightarrow> rat_of_int (m * d + n) / of_int d = of_int m + of_int n / of_int d"
  "d \<noteq> 0 \<Longrightarrow> rat_of_int (m * d - n) / of_int d = of_int m - of_int n / of_int d"
  "d \<noteq> 0 \<Longrightarrow> rat_of_int (n + d * m) / of_int d = of_int n / of_int d + of_int m"
  "d \<noteq> 0 \<Longrightarrow> rat_of_int (n - d * m) / of_int d = of_int n / of_int d - of_int m"
  "d \<noteq> 0 \<Longrightarrow> e \<noteq> 0 \<Longrightarrow> rat_of_int (n * e + d * k) / of_int (d * e) = of_int n / of_int d + of_int k / of_int e"
  "d \<noteq> 0 \<Longrightarrow> e \<noteq> 0 \<Longrightarrow> rat_of_int (n * e - d * k) / of_int (d * e) = of_int n / of_int d - of_int k / of_int e"
  by (simp_all add: field_simps)

lemma rat_canon_sums: "rat_canon (of_int m + of_int n) = Z (canon (m + n))" "rat_canon (of_int m - of_int n) = Z (canon (m - n))"
  using rat_canon_of_int [of "m + n"] rat_canon_of_int [of "m - n"] by simp_all

text \<open>The quotient without its fraction.\<close>

definition towards_zero :: "rat \<Rightarrow> int" where
  "towards_zero r = (if 0 \<le> r then \<lfloor>r\<rfloor> else \<lceil>r\<rceil>)"

text \<open>The quotients of integers that the machine computes and that are no fixnums: the most negative fixnum by -1.\<close>

definition quotient_overflows :: "rat \<Rightarrow> rat \<Rightarrow> bool" where
  "quotient_overflows x y \<longleftrightarrow> (\<exists>n k. x = of_int n \<and> y = - 1 / of_int k \<and> 0 < k \<and> n * k = MOST_NEGATIVE_FIXNUM)"

text \<open>The nearest integer, the even one of two.\<close>

definition nearest_even :: "rat \<Rightarrow> int \<Rightarrow> bool" where
  "nearest_even r q \<longleftrightarrow> \<bar>r - of_int q\<bar> \<le> 1 / 2 \<and> (\<bar>r - of_int q\<bar> = 1 / 2 \<longrightarrow> even q)"

lemma nearest_even_unique:
  assumes "nearest_even r p" and "nearest_even r q"
  shows "p = q"
proof -
  have "False" if "a = b + 1" "nearest_even r a" "nearest_even r b" for a b
  proof -
    have "r - rat_of_int a = (r - of_int b) - 1" using that(1) by simp
    then have "\<bar>r - of_int a\<bar> = 1 / 2" "\<bar>r - of_int b\<bar> = 1 / 2" using that(2,3) unfolding nearest_even_def by linarith+
    then have "even a" "even b" using that(2,3) unfolding nearest_even_def by blast+
    then show False using that(1) by simp
  qed
  moreover have "\<bar>rat_of_int p - of_int q\<bar> \<le> 1" using assms unfolding nearest_even_def by linarith
  then have "p = q \<or> p = q + 1 \<or> q = p + 1" by linarith
  ultimately show ?thesis using assms by blast
qed

definition round_from :: "int \<Rightarrow> rat \<Rightarrow> int" where
  "round_from t s =
     (if s < 0 then (if s < - 1 / 2 \<or> (s = - 1 / 2 \<and> odd t) then t - 1 else t)
      else if 1 / 2 < s \<or> (s = 1 / 2 \<and> odd t) then t + 1 else t)"

lemma round_from_nearest:
  assumes "\<bar>s\<bar> < 1"
  shows "nearest_even (of_int t + s) (round_from t s)"
proof -
  consider "s < - 1 / 2" | "s = - 1 / 2" | "- 1 / 2 < s" "s < 1 / 2" | "s = 1 / 2" | "1 / 2 < s" by linarith
  then show ?thesis using assms by cases (auto simp: nearest_even_def round_from_def abs_if)
qed

lemma towards_zero_facts:
  "0 \<le> r \<Longrightarrow> of_int (towards_zero r) \<le> r \<and> r < of_int (towards_zero r) + 1"
  "r < 0 \<Longrightarrow> r \<le> of_int (towards_zero r) \<and> of_int (towards_zero r) - 1 < r"
  by (auto simp: towards_zero_def) linarith+

lemma sdiv_towards_zero: "0 < d \<Longrightarrow> n sdiv d = towards_zero (of_int n / of_int d)"
proof (cases "0 \<le> n")
  case True
  assume "0 < d"
  then show ?thesis using True by (auto simp: towards_zero_def floor_divide_of_int_eq signed_divide_int_def sgn_if zero_le_divide_iff)
next
  case False
  assume "0 < d"
  then show ?thesis using False by (auto simp: towards_zero_def ceiling_divide_eq_div signed_divide_int_def sgn_if zero_le_divide_iff)
qed

locale gmp_library =
  fixes g :: gmp
  assumes gmp: "gmp_ok g"
begin

lemma gmp_simps [simp]:
  "mpz_add g x y = x + y" "mpz_sub g x y = x - y" "mpz_mul g x y = x * y" "mpz_mul_si g x y = x * y"
  "0 \<le> y \<Longrightarrow> mpz_add_ui g x y = x + y" "0 \<le> y \<Longrightarrow> mpz_sub_ui g x y = x - y"
  "mpz_neg g x = - x" "mpz_sgn g x = sgn x" "mpz_odd_p g x \<longleftrightarrow> odd x" "mpz_com g x = NOT x" "mpz_gcd g x y = gcd x y"
  "y \<noteq> 0 \<Longrightarrow> mpz_tdiv_q g x y = x sdiv y" "0 < y \<Longrightarrow> mpz_tdiv_q_ui g x y = x sdiv y"
  "y \<noteq> 0 \<Longrightarrow> mpz_fdiv_qr g x y = (x div y, x mod y)"
  "y \<noteq> 0 \<Longrightarrow> mpz_cdiv_qr g x y = (- (- x div y), x + y * (- x div y))"
  "mpz_cmp g x y < 0 \<longleftrightarrow> x < y" "mpz_cmp g x y > 0 \<longleftrightarrow> x > y" "mpz_cmp_si g x y = 0 \<longleftrightarrow> x = y"
  "mpz_and g x y = (x AND y)" "mpz_ior g x y = (x OR y)" "mpz_xor g x y = (x XOR y)"
  "mpz_mul_2exp g x n = push_bit n x" "mpz_fdiv_q_2exp g x n = drop_bit n x" "mpz_tstbit g x n \<longleftrightarrow> bit x n"
  "0 \<le> x \<Longrightarrow> mpz_popcount g x = card {k. bit x k}" "0 \<le> y \<Longrightarrow> mpz_mul_ui g x y = x * y"
  using gmp by (simp_all add: gmp_ok_def)

lemma times_int_canon [simp]: "times_int g (canon m) (canon n) = canon (m * n)"
  by (cases m rule: canon_cases; cases n rule: canon_cases) (auto simp: mkcl_word_times_def mkcl_big_times_fix_def canon_def mult.commute)

lemma plus_int_canon [simp]: "plus_int g (canon m) (canon n) = canon (m + n)"
  by (cases m rule: canon_cases; cases n rule: canon_cases) (auto simp: canon_def add.commute)

lemma minus_int_canon [simp]: "minus_int g (canon m) (canon n) = canon (m - n)"
  by (cases m rule: canon_cases; cases n rule: canon_cases) (auto simp: canon_def)

lemma negate_int_canon [simp]: "negate_int g (canon n) = canon (- n)"
  by (cases n rule: canon_cases) auto

lemma minusp_int_canon [simp]: "minusp_int g (canon n) \<longleftrightarrow> n < 0"
  by (cases n rule: canon_cases) auto

lemma plusp_int_canon [simp]: "plusp_int g (canon n) \<longleftrightarrow> 0 < n"
  by (cases n rule: canon_cases) auto

lemma oddp_canon [simp]: "mkcl_oddp g (canon n) \<longleftrightarrow> odd n"
  by (cases n rule: canon_cases) (simp_all add: and_one_eq mod_2_eq_odd)

lemma evenp_canon [simp]: "mkcl_evenp g (canon n) \<longleftrightarrow> even n"
  by (cases n rule: canon_cases) (simp_all add: and_one_eq mod_2_eq_odd)

lemma gcd_canon [simp]: "mkcl_gcd g (canon m) (canon n) = canon (gcd m n)"
  by (simp add: mkcl_gcd_def)

lemma integer_divide_canon:
  assumes "y \<noteq> 0" and "\<not> (x = MOST_NEGATIVE_FIXNUM \<and> y = - 1)"
  shows "mkcl_integer_divide g (canon x) (canon y) = Inr (canon (x sdiv y))"
proof (cases x rule: canon_cases)
  case x: small
  show ?thesis
  proof (cases y rule: canon_cases)
    case small
    then show ?thesis using x assms fixnum_sdiv [OF x(2) assms] by (simp add: make_fixnum_canon)
  next
    case large
    have "x sdiv y = (if y = - x then - 1 else 0)"
    proof (cases "y = - x")
      case True
      then show ?thesis using assms(1) by (simp add: signed_divide_int_def sgn_if)
    next
      case False
      then have "\<bar>x\<bar> < \<bar>y\<bar>"
        using x(2) large(2) by (auto simp: fixnum_range_def MOST_POSITIVE_FIXNUM_def MOST_NEGATIVE_FIXNUM_def)
      then show ?thesis using False abs_mult_less by simp
    qed
    then show ?thesis using x(1) large(1) by (simp add: MOST_POSITIVE_FIXNUM_def MOST_NEGATIVE_FIXNUM_def)
  qed
next
  case x: large
  then show ?thesis
    using assms(1) sdiv_negative [of y x] by (cases y rule: canon_cases) (auto simp: Let_def)
qed

lemma reduce_ratio_canon:
  assumes "n \<noteq> 0" and "0 < d"
  shows "reduce_ratio g (canon n) (canon d) = Inr (rat_canon (of_int n / of_int d))"
proof -
  let ?k = "gcd n d"
  have k: "0 < ?k" using assms(2) by simp
  have "mkcl_integer_divide g (canon m) (canon ?k) = Inr (canon (m div ?k))" if "?k dvd m" for m
    using integer_divide_canon [of ?k m] sdiv_dvd [OF that k] k by fastforce
  then have "mkcl_integer_divide g (canon n) (canon ?k) = Inr (canon (n div ?k))" "mkcl_integer_divide g (canon d) (canon ?k) = Inr (canon (d div ?k))"
    by simp_all
  moreover have "0 < d div ?k" using assms(2) k by (simp add: pos_imp_zdiv_pos_iff zdvd_imp_le)
  ultimately show ?thesis using assms by (auto simp: rat_canon_div reduce_ratio_def Let_def)
qed

lemma make_ratio_canon:
  "mkcl_make_ratio g (canon n) (canon d) = (if d = 0 then Inl DivisionByZero else Inr (rat_canon (of_int n / of_int d)))"
proof (cases "n = 0 \<or> d = 1 \<or> d = 0")
  case True
  then show ?thesis by (auto simp: mkcl_make_ratio_def)
next
  case False
  then show ?thesis
    using reduce_ratio_canon [of n d] reduce_ratio_canon [of "- n" "- d"] by (cases "0 < d") (auto simp: mkcl_make_ratio_def)
qed

lemma times_canon: "mkcl_times g (rat_canon x) (rat_canon y) = Inr (rat_canon (x * y))"
  by (cases x rule: rat_canon_cases; cases y rule: rat_canon_cases) (auto simp: make_ratio_canon simp flip: of_int_mult)

lemma plus_canon: "mkcl_plus g (rat_canon x) (rat_canon y) = Inr (rat_canon (x + y))"
  by (cases x rule: rat_canon_cases; cases y rule: rat_canon_cases)
    (auto simp: make_ratio_canon fraction_sums rat_canon_sums simp del: of_int_add of_int_mult)

lemma minus_canon: "mkcl_minus g (rat_canon x) (rat_canon y) = Inr (rat_canon (x - y))"
  by (cases x rule: rat_canon_cases; cases y rule: rat_canon_cases)
    (auto simp: make_ratio_canon fraction_sums rat_canon_sums simp del: of_int_diff of_int_mult)

lemma rat_canon_ratio:
  assumes "1 < d" and "coprime n d"
  shows "rat_canon (of_int n / of_int d) = Q (canon n) (canon d)"
  using assms rat_canon_div [of d n] by simp

lemma negate_canon: "mkcl_negate g (rat_canon x) = rat_canon (- x)"
proof (cases x rule: rat_canon_cases)
  case (ratio n d)
  then show ?thesis using rat_canon_ratio [of d "- n"] by simp
qed (simp flip: of_int_minus)

lemma divide_canon:
  "mkcl_divide g (rat_canon x) (rat_canon y) = (if y = 0 then Inl DivisionByZero else Inr (rat_canon (x / y)))"
proof (cases x rule: rat_canon_cases)
  case x: (integer n)
  show ?thesis
  proof (cases y rule: rat_canon_cases)
    case y: (integer m)
    then show ?thesis using x by (simp add: make_ratio_canon)
  next
    case y: (ratio m d)
    then show ?thesis using x by (auto simp: make_ratio_canon)
  qed
next
  case x: (ratio n d)
  show ?thesis
  proof (cases y rule: rat_canon_cases)
    case y: (integer m)
    then show ?thesis using x by (simp add: make_ratio_canon)
  next
    case y: (ratio m e)
    then show ?thesis using x by (auto simp: make_ratio_canon)
  qed
qed

lemma one_plus_canon: "mkcl_one_plus g (rat_canon x) = Inr (rat_canon (x + 1))"
proof (cases x rule: rat_canon_cases)
  case (integer n)
  show ?thesis
  proof (cases n rule: canon_cases)
    case small
    have "fixnum_range (n + 1)" if "n \<noteq> MOST_POSITIVE_FIXNUM" using small(2) that by (simp add: fixnum_range_def)
    then show ?thesis using integer small rat_canon_of_int [of "n + 1"] by (auto simp: make_fixnum_canon)
  next
    case large
    then show ?thesis using integer plus_canon [of "of_int n" 1] by simp
  qed
next
  case (ratio n d)
  then show ?thesis by (auto simp: make_ratio_canon add_divide_distrib)
qed

lemma one_minus_canon: "mkcl_one_minus g (rat_canon x) = Inr (rat_canon (x - 1))"
proof (cases x rule: rat_canon_cases)
  case (integer n)
  show ?thesis
  proof (cases n rule: canon_cases)
    case small
    have "fixnum_range (n - 1)" if "n \<noteq> MOST_NEGATIVE_FIXNUM" using small(2) that by (simp add: fixnum_range_def)
    then show ?thesis using integer small rat_canon_of_int [of "n - 1"] by (auto simp: make_fixnum_canon)
  next
    case large
    then show ?thesis using integer minus_canon [of "of_int n" 1] by simp
  qed
next
  case (ratio n d)
  then show ?thesis by (auto simp: make_ratio_canon diff_divide_distrib)
qed

lemma zerop_canon: "mkcl_zerop (rat_canon x) \<longleftrightarrow> x = 0"
  by (cases x rule: rat_canon_cases) auto

lemma plusp_canon: "mkcl_plusp g (rat_canon x) \<longleftrightarrow> 0 < x"
  by (cases x rule: rat_canon_cases) (auto simp: zero_less_divide_iff)

lemma minusp_canon: "mkcl_minusp g (rat_canon x) \<longleftrightarrow> x < 0"
  by (cases x rule: rat_canon_cases) (auto simp: divide_less_0_iff)

lemma abs_canon: "mkcl_abs g (rat_canon x) = rat_canon \<bar>x\<bar>"
  by (simp add: mkcl_abs_def minusp_canon negate_canon abs_if)

lemma compare_int_canon:
  "compare_int g (canon m) (canon n) < 0 \<longleftrightarrow> m < n" "compare_int g (canon m) (canon n) > 0 \<longleftrightarrow> m > n"
proof -
  have fb: "compare_int g (Fix a) (Big b) < 0 \<longleftrightarrow> a < b" "compare_int g (Fix a) (Big b) > 0 \<longleftrightarrow> a > b"
      "compare_int g (Big b) (Fix a) < 0 \<longleftrightarrow> b < a" "compare_int g (Big b) (Fix a) > 0 \<longleftrightarrow> b > a"
    if "fixnum_range a" "\<not> fixnum_range b" for a b
    using that by (auto simp: fixnum_range_def MOST_POSITIVE_FIXNUM_def MOST_NEGATIVE_FIXNUM_def sgn_if)
  show "compare_int g (canon m) (canon n) < 0 \<longleftrightarrow> m < n" "compare_int g (canon m) (canon n) > 0 \<longleftrightarrow> m > n"
    by (cases m rule: canon_cases; cases n rule: canon_cases; auto simp: fb simp del: compare_int.simps(2,3))+
qed

lemma number_compare_canon:
  "mkcl_number_compare g (rat_canon x) (rat_canon y) < 0 \<longleftrightarrow> x < y"
  "mkcl_number_compare g (rat_canon x) (rat_canon y) > 0 \<longleftrightarrow> x > y"
proof -
  have e: "rat_of_int a * of_int b < of_int c \<longleftrightarrow> a * b < c" "rat_of_int c < of_int a * of_int b \<longleftrightarrow> c < a * b"
      "rat_of_int a * of_int b < of_int c * of_int d \<longleftrightarrow> a * b < c * d" for a b c d
    using of_int_less_iff [of "a * b" c, where 'a = rat] of_int_less_iff [of c "a * b", where 'a = rat]
      of_int_less_iff [of "a * b" "c * d", where 'a = rat] by (simp_all only: of_int_mult)
  have less: "0 < d \<Longrightarrow> rat_of_int n < of_int m / of_int d \<longleftrightarrow> n * d < m" "0 < d \<Longrightarrow> rat_of_int m / of_int d < of_int n \<longleftrightarrow> m < n * d"
      "0 < d \<Longrightarrow> 0 < e \<Longrightarrow> rat_of_int n / of_int e < of_int m / of_int d \<longleftrightarrow> n * d < m * e" for n m d e
    by (simp_all add: pos_less_divide_eq pos_divide_less_eq e times_divide_eq_left)
  show "mkcl_number_compare g (rat_canon x) (rat_canon y) < 0 \<longleftrightarrow> x < y"
    "mkcl_number_compare g (rat_canon x) (rat_canon y) > 0 \<longleftrightarrow> x > y"
    by (cases x rule: rat_canon_cases; cases y rule: rat_canon_cases; simp add: compare_int_canon less)+
qed

lemma equalp_int_canon: "equalp_int g (canon m) (canon n) \<longleftrightarrow> m = n"
proof -
  have "mpz_cmp g m n = 0 \<longleftrightarrow> m = n" using gmp_simps(16,17) [of m n] by linarith
  then show ?thesis by (cases m rule: canon_cases; cases n rule: canon_cases) auto
qed

lemma number_equalp_canon: "mkcl_number_equalp g (rat_canon x) (rat_canon y) \<longleftrightarrow> x = y"
proof -
  have "mkcl_number_equalp g (rat_canon x) (rat_canon y) \<longleftrightarrow> rat_canon x = rat_canon y"
    by (cases x rule: rat_canon_cases; cases y rule: rat_canon_cases) (auto simp: equalp_int_canon)
  then show ?thesis using rval_rat_canon by metis
qed

lemma floor_int_canon:
  assumes "y \<noteq> 0" and "\<not> (x = MOST_NEGATIVE_FIXNUM \<and> y = - 1)"
  shows "floor_int g (canon x) (canon y) = Inr (canon (x div y), canon (x mod y))"
proof (cases "fixnum_range x \<and> fixnum_range y")
  case True
  have "0 \<le> x mod y \<and> x mod y < y \<or> y < x mod y \<and> x mod y \<le> 0" using assms(1) by (cases "0 < y") auto
  then have "fixnum_range (x mod y)"
    using True unfolding fixnum_range_def MOST_POSITIVE_FIXNUM_def MOST_NEGATIVE_FIXNUM_def by linarith
  moreover have "fixnum_range (x div y)" using fixnum_div [OF _ assms] True by blast
  moreover have "floor_int g (canon x) (canon y) = Inr (make_fixnum (x div y), make_fixnum (x mod y))"
    using True assms(1) machine_floor [OF assms(1), of x] by (auto simp: canon_def Let_def split: if_splits)
  ultimately show ?thesis by (simp add: make_fixnum_canon)
next
  case False
  then show ?thesis using assms(1) by (auto simp: canon_def)
qed

lemma ceiling_int_canon:
  assumes "y \<noteq> 0" and "\<not> (x = MOST_NEGATIVE_FIXNUM \<and> y = - 1)"
  shows "ceiling_int g (canon x) (canon y) = Inr (canon (- (- x div y)), canon (x + y * (- x div y)))"
proof (cases "fixnum_range x \<and> fixnum_range y")
  case True
  have c: "fixnum_range (- (- x div y)) \<and> fixnum_range (x + y * (- x div y))
      \<and> (if (x smod y XOR y) > 0 \<and> x smod y \<noteq> 0 then (x sdiv y + 1, x smod y - y) else (x sdiv y, x smod y))
        = (- (- x div y), x + y * (- x div y))"
    using machine_ceiling [OF assms(1)] True assms by blast
  then have "ceiling_int g (canon x) (canon y) = Inr (make_fixnum (- (- x div y)), make_fixnum (x + y * (- x div y)))"
    using True assms(1) by (auto simp: canon_def Let_def split: if_splits)
  then show ?thesis using c by (simp add: make_fixnum_canon)
next
  case False
  then show ?thesis using assms(1) by (auto simp: canon_def)
qed

text \<open>A division of integers that rounds the quotient by \<open>F\<close>, but for the one that overflows, gives a division of rational numbers.\<close>

lemma divide_by_canon:
  assumes f: "\<And>a b. b \<noteq> 0 \<Longrightarrow> \<not> (a = MOST_NEGATIVE_FIXNUM \<and> b = - 1) \<Longrightarrow>
      f (canon a) (canon b) = Inr (canon (F (of_int a / of_int b)), canon (a - b * F (of_int a / of_int b)))"
    and y: "y \<noteq> 0" and q: "\<not> quotient_overflows x y"
  shows "divide_by g f (rat_canon x) (rat_canon y) = Inr (canon (F (x / y)), rat_canon (x - y * of_int (F (x / y))))"
proof -
  have f': "f (canon a) (canon b) = Inr (canon (F (x / y)), canon (a - b * F (x / y)))"
    if "b \<noteq> 0" "of_int a / of_int b = x / y" "\<not> (a = MOST_NEGATIVE_FIXNUM \<and> b = - 1)" for a b
    using f [OF that(1,3)] by (simp only: that(2))
  have unit: "e * m \<noteq> - 1" if "1 < e" for e m :: int using that by (auto simp: zmult_eq_neg1_iff)
  show ?thesis
  proof (cases x rule: rat_canon_cases)
    case x: (integer n)
    show ?thesis
    proof (cases y rule: rat_canon_cases)
      case y': (integer m)
      then have "\<not> (n = MOST_NEGATIVE_FIXNUM \<and> m = - 1)"
        using x q by (auto simp: quotient_overflows_def dest: spec [of _ "1 :: int"])
      then show ?thesis using x y' f' [of m n] y rat_canon_of_int [of "n - m * F (x / y)"] by simp
    next
      case y': (ratio m d)
      then have "\<not> (n * d = MOST_NEGATIVE_FIXNUM \<and> m = - 1)" using x q by (auto simp: quotient_overflows_def)
      then have "f (canon (n * d)) (canon m) = Inr (canon (F (x / y)), canon (n * d - m * F (x / y)))" using x y y' by (intro f') auto
      then show ?thesis using x y' by (simp add: make_ratio_canon diff_divide_distrib)
    qed
  next
    case x: (ratio n e)
    show ?thesis
    proof (cases y rule: rat_canon_cases)
      case y': (integer m)
      then have "f (canon n) (canon (e * m)) = Inr (canon (F (x / y)), canon (n - e * m * F (x / y)))" using x y unit [OF x(3)] by (intro f') auto
      then show ?thesis using x y' by (simp add: make_ratio_canon diff_divide_distrib)
    next
      case y': (ratio m d)
      then have "f (canon (n * d)) (canon (e * m)) = Inr (canon (F (x / y)), canon (n * d - e * m * F (x / y)))" using x y unit [OF x(3)] by (intro f') auto
      then show ?thesis using x y' by (simp add: make_ratio_canon diff_divide_distrib)
    qed
  qed
qed

lemma divide_by_overflow:
  assumes "quotient_overflows x y" and f: "f (Fix MOST_NEGATIVE_FIXNUM) (Fix (- 1)) = Inr (Fix MOST_NEGATIVE_FIXNUM, Fix 0)"
  shows "divide_by g f (rat_canon x) (rat_canon y) = Inr (canon MOST_NEGATIVE_FIXNUM, rat_canon 0)"
proof -
  obtain n k where nk: "x = of_int n" "y = of_int (- 1) / of_int k" "0 < k" "n * k = MOST_NEGATIVE_FIXNUM"
    using assms(1) by (auto simp: quotient_overflows_def)
  have most: "canon MOST_NEGATIVE_FIXNUM = Fix MOST_NEGATIVE_FIXNUM" "canon (- 1) = Fix (- 1)" "canon 0 = Fix 0"
    by (simp_all add: canon_def fixnum_range_def MOST_NEGATIVE_FIXNUM_def MOST_POSITIVE_FIXNUM_def)
  show ?thesis
  proof (cases "k = 1")
    case True
    then have "rat_canon y = Z (canon (- 1))" using nk(2) rat_canon_of_int [of "- 1"] by simp
    then show ?thesis using nk True f most by simp
  next
    case False
    then have "rat_canon y = Q (canon (- 1)) (canon k)" using nk(2,3) rat_canon_ratio [of k "- 1"] by simp
    then show ?thesis using nk f most make_ratio_canon [of 0 k] by simp
  qed
qed

lemma floor2_canon:
  assumes "y \<noteq> 0" and "\<not> quotient_overflows x y"
  shows "mkcl_floor2 g (rat_canon x) (rat_canon y) = Inr (canon \<lfloor>x / y\<rfloor>, rat_canon (x - y * of_int \<lfloor>x / y\<rfloor>))"
  unfolding mkcl_floor2_def
  by (rule divide_by_canon [OF _ assms]) (simp add: floor_int_canon floor_divide_of_int_eq minus_mult_div_eq_mod)

lemma ceiling2_canon:
  assumes "y \<noteq> 0" and "\<not> quotient_overflows x y"
  shows "mkcl_ceiling2 g (rat_canon x) (rat_canon y) = Inr (canon \<lceil>x / y\<rceil>, rat_canon (x - y * of_int \<lceil>x / y\<rceil>))"
  unfolding mkcl_ceiling2_def
  by (rule divide_by_canon [OF _ assms]) (simp add: ceiling_int_canon ceiling_divide_eq_div)

lemma truncate2_canon:
  assumes "y \<noteq> 0" and "\<not> quotient_overflows x y"
  shows "mkcl_truncate2 g (rat_canon x) (rat_canon y) = Inr (canon (towards_zero (x / y)), rat_canon (x - y * of_int (towards_zero (x / y))))"
  using floor2_canon [OF assms] ceiling2_canon [OF assms] assms(1)
  by (cases "x = 0") (auto simp: mkcl_truncate2_def plusp_canon towards_zero_def zero_le_divide_iff)

lemma half_canon: "Q (Fix 1) (Fix 2) = rat_canon (1 / 2)" "Q (Fix (- 1)) (Fix 2) = rat_canon (- 1 / 2)"
  using rat_canon_ratio [of 2 1] rat_canon_ratio [of 2 "- 1"] by (simp_all add: canon_def)

lemma round_step:
  "and_then
     (if mkcl_minusp g (rat_canon s) then
        (if round_up g (canon t) (mkcl_number_compare g (Q (Fix (- 1)) (Fix 2)) (rat_canon s)) then mkcl_one_minus g (Z (canon t)) else Inr (Z (canon t)))
      else
        (if round_up g (canon t) (mkcl_number_compare g (rat_canon s) (Q (Fix 1) (Fix 2))) then mkcl_one_plus g (Z (canon t)) else Inr (Z (canon t))))
     (\<lambda>q. case q of Z z \<Rightarrow> Inr z | Q _ _ \<Rightarrow> Inl NotAnInteger) = Inr (canon (round_from t s))"
proof -
  have c: "mkcl_number_compare g (rat_canon a) (rat_canon b) = 0 \<longleftrightarrow> a = b" for a b
    using number_compare_canon [of a b] by linarith
  have "mkcl_one_minus g (Z (canon t)) = Inr (Z (canon (t - 1)))" "mkcl_one_plus g (Z (canon t)) = Inr (Z (canon (t + 1)))"
    using one_minus_canon [of "of_int t"] one_plus_canon [of "of_int t"] rat_canon_sums [of t 1] by simp_all
  then show ?thesis by (auto simp: half_canon minusp_canon round_up_def number_compare_canon c round_from_def)
qed

lemma round_ratio_canon:
  assumes d: "1 < d" "coprime n d"
  shows "\<exists>q. round_ratio g (canon n) (canon d) = Inr (canon q) \<and> nearest_even (of_int n / of_int d) q"
proof -
  define r where "r = rat_of_int n / of_int d"
  have "mkcl_integer_divide g (canon n) (canon d) = Inr (canon (towards_zero r))"
    using integer_divide_canon [of d n] d(1) sdiv_towards_zero [of d n] by (simp add: r_def)
  moreover have "mkcl_minus g (Q (canon n) (canon d)) (Z (canon (towards_zero r))) = Inr (rat_canon (r - of_int (towards_zero r)))"
    using minus_canon [of r "of_int (towards_zero r)"] rat_canon_ratio [OF d] by (simp only: r_def rat_canon_of_int)
  ultimately have "round_ratio g (canon n) (canon d) = Inr (canon (round_from (towards_zero r) (r - of_int (towards_zero r))))"
    by (simp only: round_ratio_def and_then.simps round_step)
  moreover have "\<bar>r - of_int (towards_zero r)\<bar> < 1" using towards_zero_facts [of r] by linarith
  then have "nearest_even r (round_from (towards_zero r) (r - of_int (towards_zero r)))"
    using round_from_nearest [of "r - of_int (towards_zero r)" "towards_zero r"] by simp
  ultimately show ?thesis unfolding r_def by blast
qed

lemma round2_canon:
  assumes y: "y \<noteq> 0"
  shows "\<exists>q. mkcl_round2 g (rat_canon x) (rat_canon y) = Inr (canon q, rat_canon (x - of_int q * y)) \<and> nearest_even (x / y) q"
proof (cases "x / y" rule: rat_canon_cases)
  case (integer n)
  then have "x - of_int n * y = 0" using y by (simp add: field_simps)
  then show ?thesis using integer y by (intro exI [of _ n]) (simp add: mkcl_round2_def divide_canon nearest_even_def)
next
  case (ratio n d)
  obtain q where q: "round_ratio g (canon n) (canon d) = Inr (canon q)" "nearest_even (x / y) q"
    using round_ratio_canon [OF ratio(3,4)] ratio(1) by auto
  have "number_remainder g (rat_canon x) (rat_canon y) (canon q) = Inr (rat_canon (x - of_int q * y))"
    using times_canon [of "of_int q" y] by (simp add: number_remainder_def minus_canon)
  then show ?thesis using q ratio(2) y by (intro exI [of _ q]) (simp add: mkcl_round2_def divide_canon)
qed

lemma expt_loop_canon:
  "0 < y \<Longrightarrow> y < 2 ^ n \<Longrightarrow>
   expt_loop g n (rat_canon z) (rat_canon x) (canon y) = Some (Inr (rat_canon (z * x ^ nat y)))"
proof (induction n arbitrary: z x y)
  case (Suc n)
  have h: "mkcl_integer_divide g (canon y) (canon 2) = Inr (canon (y div 2))"
    using integer_divide_canon [of 2 y] Suc.prems(1) by (simp add: signed_divide_int_def sgn_if)
  have z: "(if \<not> mkcl_evenp g (canon y) then mkcl_times g (rat_canon z) (rat_canon x) else Inr (rat_canon z))
      = Inr (rat_canon (if odd y then z * x else z))"
    by (simp add: times_canon)
  show ?case
  proof (cases "y div 2 = 0")
    case True
    then have "y = 1" using Suc.prems(1) by linarith
    then show ?thesis using z h by simp
  next
    case False
    have "nat y = 2 * nat (y div 2) + (if odd y then 1 else 0)"
      using Suc.prems(1) by (auto simp: nat_mult_distrib [symmetric] nat_add_distrib [symmetric] elim!: evenE oddE)
    then have "(if odd y then z * x else z) * (x * x) ^ nat (y div 2) = z * x ^ nat y"
      by (auto simp: power_add power_mult power2_eq_square)
    then show ?thesis using False z h Suc.prems times_canon [of x x] Suc.IH [of "y div 2" "if odd y then z * x else z" "x * x"] by simp
  qed
qed simp

lemma expt_canon:
  assumes "\<bar>y\<bar> < 2 ^ n"
  shows "mk_cl_expt g n (rat_canon x) (canon y) =
    Some (if x = 0 \<and> y < 0 then Inl DivisionByZero else Inr (rat_canon (power_int x y)))"
proof -
  have one: "Z (canon 1) = rat_canon 1" by simp
  have p: "expt_loop g n (rat_canon 1) (rat_canon x) (canon k) = Some (Inr (rat_canon (x ^ nat k)))" if "0 < k" "k < 2 ^ n" for k
    using expt_loop_canon [OF that, of 1 x] by simp
  consider "y = 0" | "0 < y" | "y < 0" by linarith
  then show ?thesis
  proof cases
    case 2
    then show ?thesis
      using p [of y] assms times_canon [of x "of_int y"] by (auto simp: mk_cl_expt_def zerop_canon power_int_def zero_power simp flip: one)
  next
    case 3
    have "0 < - y" "- y < 2 ^ n" using 3 assms by simp_all
    then have "expt_positive g n (rat_canon x) (canon (- y)) = Some (Inr (rat_canon (x ^ nat (- y))))" if "x \<noteq> 0"
      using p [of "- y"] that 3 by (simp add: expt_positive_def zerop_canon flip: one)
    moreover have "mkcl_divide g (Z (canon 1)) (rat_canon (x ^ nat (- y))) = Inr (rat_canon (power_int x y))" if "x \<noteq> 0"
      using divide_canon [of 1 "x ^ nat (- y)"] that 3 by (simp add: power_int_def inverse_eq_divide power_one_over)
    moreover have "mkcl_divide g (Z (canon 1)) (Z (canon 0)) = Inl DivisionByZero" using divide_canon [of 1 0] by simp
    ultimately show ?thesis using 3 times_canon [of 0 "of_int y"] by (auto simp: mk_cl_expt_def zerop_canon)
  qed (simp add: mk_cl_expt_def)
qed

lemma fold_canon:
  assumes "\<And>x y. f (rat_canon x) (rat_canon y) = Inr (rat_canon (F x y))"
  shows "fold_numbers f (rat_canon x) (map rat_canon ys) = Inr (rat_canon (foldl F x ys))"
  by (induction ys arbitrary: x) (simp_all add: assms)

lemma sum_canon: "mk_cl_P g (map rat_canon xs) = Inr (rat_canon (sum_list xs))"
proof -
  have "foldl (+) a ys = a + sum_list ys" for a :: rat and ys by (induction ys arbitrary: a) (simp_all add: add.assoc)
  then show ?thesis using fold_canon [of "mkcl_plus g" "(+)" 0 xs] by (simp add: mk_cl_P_def plus_canon)
qed

lemma product_canon: "mk_cl_X g (map rat_canon xs) = Inr (rat_canon (prod_list xs))"
proof -
  have "foldl (*) a ys = a * prod_list ys" for a :: rat and ys by (induction ys arbitrary: a) (simp_all add: mult.assoc)
  then show ?thesis using fold_canon [of "mkcl_times g" "(*)" 1 xs] by (simp add: mk_cl_X_def times_canon)
qed

lemma gcd_list_canon: "mk_cl_gcd g (map canon ns) = canon (Gcd (set ns))"
proof -
  have f: "foldl (mkcl_gcd g) (canon n) (map canon ms) = canon (foldl gcd n ms)" for n ms
    by (induction ms arbitrary: n) simp_all
  have "foldl gcd (gcd n m) ms = Gcd (set (n # m # ms))" for n m :: int and ms
    by (induction ms arbitrary: n m) (simp_all add: gcd.assoc gcd.left_commute)
  then show ?thesis by (cases ns rule: remdups_adj.cases) (auto simp: mk_cl_gcd_def f)
qed

lemma lcm_loop_canon: "\<exists>k. lcm_loop g (Z (canon l)) (map canon ns) = Inr (Z (canon k)) \<and> \<bar>k\<bar> = Lcm (insert l (set ns))"
proof (induction ns arbitrary: l)
  case (Cons n ns)
  show ?case
  proof (cases "gcd n l = 0")
    case True
    then show ?thesis using Cons.IH [of l] by (auto simp: Let_def)
  next
    case False
    have "of_int (l * n) / of_int (gcd n l) = rat_of_int (l * n div gcd n l)" by (simp add: of_int_div)
    then have d: "mkcl_divide g (Z (canon (l * n))) (Z (canon (gcd n l))) = Inr (Z (canon (l * n div gcd n l)))"
      using divide_canon [of "of_int (l * n)" "of_int (gcd n l)"] False by (simp only: rat_canon_of_int of_int_eq_0_iff if_False)
    have "\<bar>l * n div gcd n l\<bar> = lcm l n" using lcm_gcd [of l n] by (simp add: gcd.commute [of n l])
    then have "lcm (l * n div gcd n l) m = lcm (lcm l n) m" for m
      using lcm_abs1_int [of "l * n div gcd n l" m] by simp
    then have "Lcm (insert (l * n div gcd n l) (set ns)) = Lcm (insert l (set (n # ns)))" by (simp add: lcm.assoc)
    moreover obtain k where "lcm_loop g (Z (canon (l * n div gcd n l))) (map canon ns) = Inr (Z (canon k))"
        "\<bar>k\<bar> = Lcm (insert (l * n div gcd n l) (set ns))" using Cons.IH by blast
    ultimately show ?thesis using False d by (auto simp: Let_def)
  qed
qed simp

lemma lcm_list_canon: "mk_cl_lcm g (map canon ns) = Inr (Z (canon (Lcm (set ns))))"
proof (cases ns)
  case (Cons n ms)
  obtain k where k: "lcm_loop g (Z (canon n)) (map canon ms) = Inr (Z (canon k))" "\<bar>k\<bar> = Lcm (insert n (set ms))"
    using lcm_loop_canon by blast
  have "mkcl_abs g (Z (canon k)) = Z (canon \<bar>k\<bar>)" using abs_canon [of "of_int k"] rat_canon_of_int [of "\<bar>k\<bar>"] by simp
  then show ?thesis using k by (simp add: Cons mk_cl_lcm_def)
qed (simp add: mk_cl_lcm_def)

lemma monotonic_canon:
  "monotonic g 1 0 (rat_canon c) (map rat_canon ds) \<longleftrightarrow> sorted_wrt (\<le>) (c # ds)"
  "monotonic g (- 1) 0 (rat_canon c) (map rat_canon ds) \<longleftrightarrow> sorted_wrt (\<ge>) (c # ds)"
  "monotonic g 1 1 (rat_canon c) (map rat_canon ds) \<longleftrightarrow> sorted_wrt (<) (c # ds)"
  "monotonic g (- 1) 1 (rat_canon c) (map rat_canon ds) \<longleftrightarrow> sorted_wrt (>) (c # ds)"
proof -
  have c: "(1 * mkcl_number_compare g (rat_canon d) (rat_canon c) < 0 \<longleftrightarrow> \<not> c \<le> d)
      \<and> (- 1 * mkcl_number_compare g (rat_canon d) (rat_canon c) < 0 \<longleftrightarrow> \<not> d \<le> c)
      \<and> (1 * mkcl_number_compare g (rat_canon d) (rat_canon c) < 1 \<longleftrightarrow> \<not> c < d)
      \<and> (- 1 * mkcl_number_compare g (rat_canon d) (rat_canon c) < 1 \<longleftrightarrow> \<not> d < c)" for c d
    using number_compare_canon [of d c] by linarith
  have m: "monotonic g s t (rat_canon c) (map rat_canon ds) \<longleftrightarrow> sorted_wrt R (c # ds)"
    if "transp R" "\<And>c d. s * mkcl_number_compare g (rat_canon d) (rat_canon c) < t \<longleftrightarrow> \<not> R c d" for R s t
    by (induction ds arbitrary: c) (simp_all add: that(2) sorted_wrt2 [OF that(1)] del: sorted_wrt.simps(2), simp)
  show "monotonic g 1 0 (rat_canon c) (map rat_canon ds) \<longleftrightarrow> sorted_wrt (\<le>) (c # ds)"
    "monotonic g (- 1) 0 (rat_canon c) (map rat_canon ds) \<longleftrightarrow> sorted_wrt (\<ge>) (c # ds)"
    "monotonic g 1 1 (rat_canon c) (map rat_canon ds) \<longleftrightarrow> sorted_wrt (<) (c # ds)"
    "monotonic g (- 1) 1 (rat_canon c) (map rat_canon ds) \<longleftrightarrow> sorted_wrt (>) (c # ds)"
    by (intro m; simp only: c transp_on_le transp_on_ge transp_on_less transp_on_greater not_not)+
qed

lemma equal_list_canon: "mk_cl_E g (rat_canon x) (map rat_canon ys) \<longleftrightarrow> (\<forall>y \<in> set ys. x = y)"
  by (simp add: mk_cl_E_def list_all_iff number_equalp_canon)

lemma ne_loop_canon: "ne_loop g (map rat_canon xs) (map rat_canon ys) \<longleftrightarrow> distinct ys \<and> set xs \<inter> set ys = {}"
proof (induction ys arbitrary: xs)
  case (Cons y ys)
  then show ?case using Cons.IH [of "xs @ [y]"] by (auto simp: list_ex_iff number_equalp_canon)
qed simp

lemma distinct_list_canon: "mk_cl_NE g (rat_canon x) (map rat_canon ys) \<longleftrightarrow> distinct (x # ys)"
  using ne_loop_canon [of "[x]" ys] by (auto simp: mk_cl_NE_def)

lemma max_min_canon:
  "mk_cl_max g (rat_canon m) (map rat_canon ns) = rat_canon (Max (set (m # ns)))"
  "mk_cl_min g (rat_canon m) (map rat_canon ns) = rat_canon (Min (set (m # ns)))"
proof -
  show "mk_cl_max g (rat_canon m) (map rat_canon ns) = rat_canon (Max (set (m # ns)))"
  proof (induction ns arbitrary: m)
    case (Cons n ns)
    have "(if mkcl_number_compare g (rat_canon m) (rat_canon n) < 0 then rat_canon n else rat_canon m) = rat_canon (max m n)"
      by (simp add: number_compare_canon max_def)
    then show ?case using Cons [of "max m n"] by (cases "ns = []") (simp_all add: max.assoc)
  qed simp
  show "mk_cl_min g (rat_canon m) (map rat_canon ns) = rat_canon (Min (set (m # ns)))"
  proof (induction ns arbitrary: m)
    case (Cons n ns)
    have "(if mkcl_number_compare g (rat_canon m) (rat_canon n) > 0 then rat_canon n else rat_canon m) = rat_canon (min m n)"
      by (simp add: number_compare_canon min_def)
    then show ?case using Cons [of "min m n"] by (cases "ns = []") (simp_all add: min.assoc)
  qed simp
qed

end

lemma word_expt_loop: "mkcl_word_expt_loop z x y = z * x ^ y"
proof (induction z x y rule: mkcl_word_expt_loop.induct)
  case (1 z x y)
  consider "y = 0" | "y \<noteq> 0" "even y" | "odd y" by auto
  then show ?case
  proof cases
    case 2
    then have "x ^ y = (x * x) ^ (y div 2)" by (metis dvd_mult_div_cancel power2_eq_square power_mult)
    then show ?thesis using 1(1) 2 by (subst mkcl_word_expt_loop.simps) simp
  next
    case 3
    then have "x ^ y = x * x ^ (y - 1)" "y \<noteq> 0" by (cases y; auto)+
    then show ?thesis using 1(2) 3 by (subst mkcl_word_expt_loop.simps) (simp add: mult.assoc)
  qed (subst mkcl_word_expt_loop.simps, simp)
qed

section \<open>The integers as the library\<close>

text \<open>
  What GMP computes, on the integers; \<open>ones\<close> and \<open>digits\<close> count the binary digits of a number, \<open>digits_in\<close>
  the digits in a base.
\<close>

fun ones :: "nat \<Rightarrow> nat" where
  "ones n = (if n = 0 then 0 else n mod 2 + ones (n div 2))"

fun digits :: "nat \<Rightarrow> nat" where
  "digits n = (if n = 0 then 0 else Suc (digits (n div 2)))"

fun digits_in :: "nat \<Rightarrow> nat \<Rightarrow> nat" where
  "digits_in b n = (if b < 2 \<or> n < b then 1 else Suc (digits_in b (n div b)))"

declare ones.simps [simp del] digits.simps [simp del] digits_in.simps [simp del]

lemma count_of_0 [simp]: "ones 0 = 0" "digits 0 = 0"
  by (simp_all add: ones.simps [of 0] digits.simps [of 0])

definition int_gmp :: gmp where
  "int_gmp = \<lparr>
     mpz_add = (+), mpz_add_ui = (+), mpz_sub = (-), mpz_sub_ui = (-), mpz_mul = (*), mpz_mul_si = (*),
     mpz_neg = uminus, mpz_gcd = gcd, mpz_tdiv_q = (sdiv), mpz_tdiv_q_ui = (sdiv),
     mpz_fdiv_qr = (\<lambda>x y. (x div y, x mod y)), mpz_cdiv_qr = (\<lambda>x y. (- (- x div y), x + y * (- x div y))),
     mpz_cmp = (-), mpz_cmp_si = (-), mpz_sgn = sgn, mpz_odd_p = odd,
     mpz_and = (AND), mpz_ior = (OR), mpz_xor = (XOR), mpz_com = NOT,
     mpz_mul_2exp = (\<lambda>x n. push_bit n x), mpz_fdiv_q_2exp = (\<lambda>x n. drop_bit n x), mpz_tstbit = bit,
     mpz_popcount = ones \<circ> nat, mpz_sizeinbase2 = digits \<circ> nat,
     mpz_mul_ui = (*), mpz_sizeinbase = (\<lambda>x b. digits_in b (nat \<bar>x\<bar>))\<rparr>"

lemma bits_halved: "{k. bit (n :: nat) k} = (if odd n then {0} else {}) \<union> Suc ` {k. bit (n div 2) k}"
proof -
  have "bit n k \<longleftrightarrow> (k = 0 \<and> odd n) \<or> (\<exists>j. k = Suc j \<and> bit (n div 2) j)" for k
    by (cases k) (simp_all add: bit_0 bit_Suc)
  then show ?thesis by auto
qed

lemma ones_card: "ones n = card {k. bit n k} \<and> finite {k. bit n k}"
proof (induction n rule: ones.induct)
  case (1 n)
  show ?case
  proof (cases "n = 0")
    case True
    then show ?thesis by (simp add: ones.simps [of 0])
  next
    case False
    then have "ones (n div 2) = card {k. bit (n div 2) k}" "finite {k. bit (n div 2) k}" using 1 by auto
    moreover have "ones n = n mod 2 + ones (n div 2)" using False by (subst ones.simps) simp
    ultimately show ?thesis unfolding bits_halved [of n] by (simp add: card_image card_insert_if mod2_eq_if)
  qed
qed

lemma digits_bounds: "n < 2 ^ digits n \<and> (n \<noteq> 0 \<longrightarrow> 2 ^ (digits n - 1) \<le> n)"
proof (induction n rule: digits.induct)
  case (1 n)
  show ?case
  proof (cases "n = 0")
    case True
    then show ?thesis by (simp add: digits.simps [of 0])
  next
    case False
    have d: "digits n = Suc (digits (n div 2))" using False by (subst digits.simps) simp
    have "n div 2 < m \<Longrightarrow> n < 2 * m" for m by auto
    moreover have "2 ^ digits (n div 2) \<le> n"
    proof (cases "n div 2 = 0")
      case True
      then show ?thesis using False by (simp only: True digits.simps [of 0]) simp
    next
      case nz: False
      then have "digits (n div 2) = Suc (digits (n div 2) - 1)" by (subst (1 2) digits.simps) simp
      moreover have "2 * 2 ^ (digits (n div 2) - 1) \<le> n" using 1 [OF False] nz by auto
      ultimately show ?thesis by (metis power_Suc)
    qed
    ultimately show ?thesis using 1 [OF False] by (simp add: d)
  qed
qed

lemma ones_int: "0 \<le> x \<Longrightarrow> ones (nat x) = card {k. bit (x :: int) k}"
  using ones_card [of "nat x"] by (metis (no_types, lifting) bit_of_nat_iff_bit Collect_cong nat_0_le of_nat_eq_iff)

lemma digits_unique:
  assumes "x \<noteq> 0" and "2 ^ (d - 1) \<le> x" and "x < 2 ^ d"
  shows "digits x = d"
proof -
  have x: "x < 2 ^ digits x" "2 ^ (digits x - 1) \<le> x" using digits_bounds [of x] assms(1) by auto
  have "(2 :: nat) ^ (d - 1) < 2 ^ digits x" "(2 :: nat) ^ (digits x - 1) < 2 ^ d" using x assms by linarith+
  then have "d - 1 < digits x" "digits x - 1 < d" by (simp_all add: power_strict_increasing_iff)
  moreover have "d \<noteq> 0" "digits x \<noteq> 0" using assms x by (auto intro: ccontr)
  ultimately show ?thesis by linarith
qed

lemma digits_in_bounds:
  assumes "2 \<le> b" "n \<noteq> 0"
  shows "b ^ (digits_in b n - 1) \<le> n \<and> n < b ^ digits_in b n \<and> digits_in b n \<noteq> 0"
  using assms
proof (induction b n rule: digits_in.induct)
  case (1 b n)
  show ?case
  proof (cases "n < b")
    case True
    then show ?thesis using "1.prems" by (simp add: digits_in.simps [of b n])
  next
    case False
    then have d: "digits_in b n = Suc (digits_in b (n div b))" and "n div b \<noteq> 0"
      using "1.prems" by (simp_all add: digits_in.simps [of b n] div_eq_0_iff)
    then have IH: "b ^ (digits_in b (n div b) - 1) \<le> n div b" "n div b < b ^ digits_in b (n div b)" "digits_in b (n div b) \<noteq> 0"
      using "1.IH" "1.prems" False by auto
    have "b * b ^ (digits_in b (n div b) - 1) \<le> n"
      using mult_le_mono2 [OF IH(1), of b] times_div_less_eq_dividend [of b n] by linarith
    moreover have "b * b ^ (digits_in b (n div b) - 1) = b ^ digits_in b (n div b)"
      using IH(3) by (metis power_eq_if)
    moreover have "n < b * b ^ digits_in b (n div b)"
      using IH(2) "1.prems"(1) by (simp add: less_mult_imp_div_less mult.commute div_less_iff_less_mult)
    ultimately show ?thesis by (simp add: d)
  qed
qed

lemma digits_in_int:
  assumes "2 \<le> b" "x \<noteq> 0"
  shows "int b ^ (digits_in b (nat \<bar>x\<bar>) - 2) \<le> \<bar>x\<bar> \<and> \<bar>x\<bar> < int b ^ digits_in b (nat \<bar>x\<bar>)"
proof -
  define d where "d = digits_in b (nat \<bar>x\<bar>)"
  have n: "b ^ (d - 1) \<le> nat \<bar>x\<bar>" "nat \<bar>x\<bar> < b ^ d" using digits_in_bounds [of b "nat \<bar>x\<bar>"] assms by (auto simp: d_def)
  have "b ^ (d - 2) \<le> b ^ (d - 1)" using assms(1) by (simp add: power_increasing)
  then have "int (b ^ (d - 2)) \<le> \<bar>x\<bar>" using n(1) by linarith
  moreover have "\<bar>x\<bar> < int (b ^ d)" using n(2) by linarith
  ultimately show ?thesis by (simp add: d_def)
qed

lemma int_gmp_ok: "gmp_ok int_gmp"
proof -
  have "2 ^ (digits (nat x) - 1) \<le> x \<and> x < 2 ^ digits (nat x)" if "0 < x" for x :: int
    using digits_bounds [of "nat x"] that by (simp add: nat_less_iff le_nat_iff)
  then show ?thesis by (simp add: gmp_ok_def int_gmp_def ones_int digits_in_int)
qed

interpretation integers: gmp_library int_gmp
  by unfold_locales (rule int_gmp_ok)

section \<open>The most negative fixnum\<close>

text \<open>
  Its quotient by -1 is no fixnum, but it is made one by the machine divisions: the result is the most
  negative fixnum again.
\<close>

lemma machine_quotient_wraps:
  "floor_int g (Fix MOST_NEGATIVE_FIXNUM) (Fix (- 1)) = Inr (Fix MOST_NEGATIVE_FIXNUM, Fix 0)"
  "ceiling_int g (Fix MOST_NEGATIVE_FIXNUM) (Fix (- 1)) = Inr (Fix MOST_NEGATIVE_FIXNUM, Fix 0)"
  "mkcl_integer_divide g (Fix MOST_NEGATIVE_FIXNUM) (Fix (- 1)) = Inr (Fix MOST_NEGATIVE_FIXNUM)"
proof -
  have "make_fixnum (- MOST_NEGATIVE_FIXNUM) = Fix MOST_NEGATIVE_FIXNUM"
    by (simp add: make_fixnum_def MOST_NEGATIVE_FIXNUM_def signed_take_bit_eq_if_negative)
  moreover have "n sdiv - 1 = - n" "n smod - 1 = 0" for n :: int by (simp_all add: signed_divide_int_def signed_modulo_int_def sgn_mult_abs)
  ultimately show "floor_int g (Fix MOST_NEGATIVE_FIXNUM) (Fix (- 1)) = Inr (Fix MOST_NEGATIVE_FIXNUM, Fix 0)"
    "ceiling_int g (Fix MOST_NEGATIVE_FIXNUM) (Fix (- 1)) = Inr (Fix MOST_NEGATIVE_FIXNUM, Fix 0)"
    "mkcl_integer_divide g (Fix MOST_NEGATIVE_FIXNUM) (Fix (- 1)) = Inr (Fix MOST_NEGATIVE_FIXNUM)"
    by (simp_all add: canon_def)
qed

context gmp_library
begin

lemma quotient_overflow:
  assumes "quotient_overflows x y"
  shows "mkcl_floor2 g (rat_canon x) (rat_canon y) = Inr (canon MOST_NEGATIVE_FIXNUM, rat_canon 0)"
    "mkcl_ceiling2 g (rat_canon x) (rat_canon y) = Inr (canon MOST_NEGATIVE_FIXNUM, rat_canon 0)"
    "mkcl_truncate2 g (rat_canon x) (rat_canon y) = Inr (canon MOST_NEGATIVE_FIXNUM, rat_canon 0)"
proof -
  show f: "mkcl_floor2 g (rat_canon x) (rat_canon y) = Inr (canon MOST_NEGATIVE_FIXNUM, rat_canon 0)"
    and c: "mkcl_ceiling2 g (rat_canon x) (rat_canon y) = Inr (canon MOST_NEGATIVE_FIXNUM, rat_canon 0)"
    unfolding mkcl_floor2_def mkcl_ceiling2_def by (intro divide_by_overflow [OF assms] machine_quotient_wraps)+
  show "mkcl_truncate2 g (rat_canon x) (rat_canon y) = Inr (canon MOST_NEGATIVE_FIXNUM, rat_canon 0)"
    using f c by (simp add: mkcl_truncate2_def)
qed

end

end
