(* ===== verification/String_Props.thy ===== *)
theory String_Props
  imports Strings Number_Props "HOL-Library.Sublist"
begin

text \<open>
  What the functions on strings compute. Comparison is the lexicographic order of the library on the two
  ranges, with the length of the longest common prefix as the place of the mismatch, for the general loop
  and for the loop on base strings. Trimming removes the characters of the bag from both ends; searching
  finds the first occurrence; concatenation, substrings and replacement are the operations on lists.
  Filling a range writes too many characters.
\<close>

section \<open>Well-formed strings\<close>

definition string_ok :: "string_object \<Rightarrow> bool" where
  "string_ok s \<longleftrightarrow> st_fillp s \<le> st_dim s \<and> st_dim s < length (st_self s)
     \<and> (st_base s \<longrightarrow> list_all MKCL_BASE_CHAR_CODE_P (st_self s))"

definition subrange :: "nat list \<Rightarrow> nat \<Rightarrow> nat \<Rightarrow> nat list" where
  "subrange m s e = take (e - s) (drop s m)"

named_theorems text_simps \<open>strings and parts of their memory\<close>

lemma subrange_empty [text_simps]: "e \<le> s \<Longrightarrow> subrange m s e = []"
  by (simp add: subrange_def)

lemma subrange_step: "s < e \<Longrightarrow> e \<le> length m \<Longrightarrow> subrange m s e = m ! s # subrange m (Suc s) e"
  by (simp add: subrange_def Cons_nth_drop_Suc [symmetric] take_Cons' Suc_diff_Suc)

lemma subrange_last: "s < Suc e \<Longrightarrow> Suc e \<le> length m \<Longrightarrow> subrange m s (Suc e) = subrange m s e @ [m ! e]"
  by (simp add: subrange_def Suc_diff_le take_Suc_conv_app_nth)

lemma length_subrange [text_simps]: "e \<le> length m \<Longrightarrow> length (subrange m s e) = e - s"
  by (simp add: subrange_def)

lemma contents_subrange: "contents s = subrange (st_self s) 0 (st_fillp s)"
  by (simp add: contents_def subrange_def)

lemma subrange_contents: "e \<le> st_fillp s \<Longrightarrow> subrange (st_self s) i e = take (e - i) (drop i (contents s))"
  by (auto simp: subrange_def contents_def drop_take min_def)

lemma subrange_drop: "subrange (drop s m) l (e - s) = subrange m (s + l) e"
  by (simp add: subrange_def add.commute)

lemma contents_simple [text_simps]: "contents (simple_string b cs) = cs"
  by (simp add: contents_def simple_string_def)

lemma length_contents [text_simps]: "string_ok s \<Longrightarrow> length (contents s) = st_fillp s"
  by (simp add: contents_def string_ok_def)

lemma simple_string_ok: "b \<longrightarrow> list_all MKCL_BASE_CHAR_CODE_P cs \<Longrightarrow> string_ok (simple_string b cs)"
  by (simp add: string_ok_def simple_string_def MKCL_BASE_CHAR_CODE_P_def)

lemma simple_string_sel [simp]:
  "st_base (simple_string b cs) = b" "st_self (simple_string b cs) = cs @ [0]"
  "st_dim (simple_string b cs) = length cs" "st_fillp (simple_string b cs) = length cs"
  by (simp_all add: simple_string_def)

section \<open>Comparison\<close>

text \<open>The sign of the lexicographic order.\<close>

definition order_sign :: "nat list \<Rightarrow> nat list \<Rightarrow> int" where
  "order_sign xs ys = (if xs = ys then 0 else if ord_class.lexordp xs ys then - 1 else 1)"

lemma order_sign_simps [text_simps]:
  "order_sign [] [] = 0" "order_sign [] (y # ys) = - 1" "order_sign (x # xs) [] = 1"
  "order_sign (x # xs) (y # ys) = (if x < y then - 1 else if y < x then 1 else order_sign xs ys)"
  by (auto simp: order_sign_def)

definition folded :: "ucd \<Rightarrow> bool \<Rightarrow> string_object \<Rightarrow> nat \<Rightarrow> nat \<Rightarrow> nat list" where
  "folded u cs s i e = map (fold_case u cs) (subrange (st_self s) i e)"

definition in_range :: "string_object \<Rightarrow> nat \<Rightarrow> nat \<Rightarrow> bool" where
  "in_range s i e \<longleftrightarrow> string_ok s \<and> i \<le> e \<and> e \<le> st_fillp s"

lemma compare_strings_order:
  assumes "string_ok a" "string_ok b" "e1 \<le> st_fillp a" "e2 \<le> st_fillp b"
  shows "compare_strings u cs a s1 e1 b s2 e2
    = Inr (order_sign (folded u cs a s1 e1) (folded u cs b s2 e2),
           s1 + length (longest_common_prefix (folded u cs a s1 e1) (folded u cs b s2 e2)))"
  using assms
proof (induction u cs a s1 e1 b s2 e2 rule: compare_strings.induct)
  case (1 u cs a s1 e1 b s2 e2)
  let ?rec = "compare_strings u cs a s1 e1 b s2 e2"
  show ?case
  proof (cases "s1 < e1 \<and> s2 < e2")
    case True
    then have x: "subrange (st_self a) s1 e1 = st_self a ! s1 # subrange (st_self a) (Suc s1) e1"
      and y: "subrange (st_self b) s2 e2 = st_self b ! s2 # subrange (st_self b) (Suc s2) e2"
      using "1.prems" by (auto simp: string_ok_def intro: subrange_step)
    have c: "mkcl_char a s1 = Inr (st_self a ! s1)" "mkcl_char b s2 = Inr (st_self b ! s2)"
      using True "1.prems" by (auto simp: mkcl_char_def string_ok_def)
    show ?thesis
      using True c "1.IH" "1.prems"
      by (subst compare_strings.simps) (auto simp: folded_def x y text_simps)
  next
    case False
    then show ?thesis
      using "1.prems"
      by (subst compare_strings.simps)
         (auto simp: folded_def subrange_step [of s1 e1] subrange_step [of s2 e2] text_simps string_ok_def not_less)
  qed
qed

lemma compare_base_order:
  assumes "l1 \<le> length m1" "l2 \<le> length m2" "l \<le> l1" "l \<le> l2"
  shows "compare_base u cs m1 l1 m2 l2 l
    = (let xs = map (fold_case u cs) (subrange m1 l l1); ys = map (fold_case u cs) (subrange m2 l l2)
       in Inr (order_sign xs ys, l + length (longest_common_prefix xs ys)))"
  using assms
proof (induction u cs m1 l1 m2 l2 l rule: compare_base.induct)
  case (1 u cs m1 l1 m2 l2 l)
  show ?case
  proof (cases "l < l1 \<and> l < l2")
    case True
    then have x: "subrange m1 l l1 = m1 ! l # subrange m1 (Suc l) l1" and y: "subrange m2 l l2 = m2 ! l # subrange m2 (Suc l) l2"
      using "1.prems" by (auto intro: subrange_step)
    show ?thesis
      using True "1.IH" "1.prems" by (subst compare_base.simps) (auto simp: x y Let_def text_simps)
  next
    case False
    then show ?thesis
      using "1.prems"
      by (subst compare_base.simps)
         (auto simp: Let_def subrange_step [of l l1] subrange_step [of l l2] text_simps not_less)
  qed
qed

lemma compare_ranges_order:
  assumes "in_range a s1 e1" "in_range b s2 e2"
  shows "compare_ranges u cs a s1 e1 b s2 e2
    = Inr (order_sign (folded u cs a s1 e1) (folded u cs b s2 e2),
           s1 + length (longest_common_prefix (folded u cs a s1 e1) (folded u cs b s2 e2)))"
proof (cases "st_base a \<and> st_base b")
  case True
  then show ?thesis
    using assms by (auto simp: compare_ranges_def compare_base_order in_range_def string_ok_def Let_def folded_def subrange_drop)
next
  case False
  then show ?thesis using assms by (auto simp: compare_ranges_def compare_strings_order in_range_def)
qed

text \<open>The range that the keyword arguments of a function give, if they give one.\<close>

definition range_of :: "string_object \<Rightarrow> int \<Rightarrow> int option \<Rightarrow> (nat \<times> nat) option" where
  "range_of s start en =
     (let e = (case en of None \<Rightarrow> int (st_fillp s) | Some e \<Rightarrow> e)
      in if 0 \<le> start \<and> start \<le> e \<and> e \<le> int (st_fillp s) then Some (nat start, nat e) else None)"

lemma get_range:
  assumes "int (st_fillp s) < 2 ^ 61"
  shows "mkcl_get_string_start_end s start en = (case range_of s start en of None \<Rightarrow> Inl BadRange | Some r \<Rightarrow> Inr r)"
  using assms
  by (auto simp: mkcl_get_string_start_end_def range_of_def fixnum_range_values Let_def split: option.splits)

lemma range_of_in_range: "string_ok s \<Longrightarrow> range_of s start en = Some (i, e) \<Longrightarrow> in_range s i e"
  by (auto simp: range_of_def in_range_def Let_def split: option.splits if_splits)

lemma string_compare_order:
  assumes "string_ok a" "string_ok b" "int (st_fillp a) < 2 ^ 61" "int (st_fillp b) < 2 ^ 61"
  shows "string_compare u g1 g2 cs a b start1 end1 start2 end2
    = (case (range_of a start1 end1, range_of b start2 end2) of
         (Some (s1, e1), Some (s2, e2)) \<Rightarrow>
           let xs = folded u cs a s1 e1; ys = folded u cs b s2 e2
           in Inr (if order_sign xs ys \<in> {g1, g2} then Some (s1 + length (longest_common_prefix xs ys)) else None)
       | _ \<Rightarrow> Inl BadRange)"
  using assms
  by (auto simp: string_compare_def get_range Let_def compare_ranges_order [OF range_of_in_range range_of_in_range]
      split: option.splits prod.splits)

lemma stringE_loop_equal:
  assumes "e1 \<le> length m1" "e2 \<le> length m2" "e1 - s1 = e2 - s2" "s1 \<le> e1" "s2 \<le> e2"
  shows "stringE_loop m1 s1 e1 m2 s2 = Inr (subrange m1 s1 e1 = subrange m2 s2 e2)"
  using assms
proof (induction m1 s1 e1 m2 s2 rule: stringE_loop.induct)
  case (1 m1 s1 e1 m2 s2)
  show ?case
  proof (cases "s1 < e1")
    case True
    then have "s2 < e2" using "1.prems" by linarith
    have x: "subrange m1 s1 e1 = m1 ! s1 # subrange m1 (Suc s1) e1" and y: "subrange m2 s2 e2 = m2 ! s2 # subrange m2 (Suc s2) e2"
      using True \<open>s2 < e2\<close> "1.prems" by (auto intro: subrange_step)
    show ?thesis using True \<open>s2 < e2\<close> "1.IH" "1.prems" by (subst stringE_loop.simps) (auto simp: x y)
  next
    case False
    then show ?thesis using "1.prems" by (subst stringE_loop.simps) (simp add: text_simps)
  qed
qed

lemma mkcl_string_E_equal:
  assumes "string_ok a" "string_ok b"
  shows "mkcl_string_E a b = Inr (contents a = contents b)"
  using assms stringE_loop_equal [of "st_fillp a" "st_self a" "st_fillp b" "st_self b" 0 0]
  by (auto simp: mkcl_string_E_def contents_subrange string_ok_def dest: arg_cong [of _ _ length] simp: length_subrange)

lemma mk_cl_stringE_equal:
  assumes "string_ok a" "string_ok b" "int (st_fillp a) < 2 ^ 61" "int (st_fillp b) < 2 ^ 61"
  shows "mk_cl_stringE a b start1 end1 start2 end2
    = (case (range_of a start1 end1, range_of b start2 end2) of
         (Some (s1, e1), Some (s2, e2)) \<Rightarrow> Inr (subrange (st_self a) s1 e1 = subrange (st_self b) s2 e2)
       | _ \<Rightarrow> Inl BadRange)"
proof -
  have "subrange (st_self a) s1 e1 \<noteq> subrange (st_self b) s2 e2"
    if "range_of a start1 end1 = Some (s1, e1)" "range_of b start2 end2 = Some (s2, e2)" "e1 - s1 \<noteq> e2 - s2" for s1 e1 s2 e2
    using that range_of_in_range [OF assms(1) that(1)] range_of_in_range [OF assms(2) that(2)]
    by (auto simp: in_range_def string_ok_def length_subrange dest!: arg_cong [of _ _ length])
  moreover have "stringE_loop (st_self a) s1 e1 (st_self b) s2 = Inr (subrange (st_self a) s1 e1 = subrange (st_self b) s2 e2)"
    if "range_of a start1 end1 = Some (s1, e1)" "range_of b start2 end2 = Some (s2, e2)" "e1 - s1 = e2 - s2" for s1 e1 s2 e2
    using that range_of_in_range [OF assms(1) that(1)] range_of_in_range [OF assms(2) that(2)]
    by (intro stringE_loop_equal) (auto simp: in_range_def string_ok_def)
  ultimately show ?thesis
    using assms by (auto simp: mk_cl_stringE_def get_range split: option.splits prod.splits)
qed

text \<open>The comparison that \<open>mkcl_base_string_L\<close> makes is equality.\<close>

lemma mkcl_base_string_L_is_equality: "mkcl_base_string_L a b = mkcl_string_E a b"
  by (simp add: mkcl_base_string_L_def mkcl_string_E_def)

section \<open>Trimming\<close>

definition bag_of :: "nat list \<Rightarrow> lval list" where
  "bag_of cs = map LChar cs"

lemma member_bag [text_simps]: "mkcl_member_char c (bag_of cs) = Inr (c \<in> set cs)"
  by (induction cs) (auto simp: bag_of_def)

lemma trim_left_drop:
  assumes "string_ok s" "i \<le> j" "j \<le> st_fillp s"
  shows "trim_left (bag_of cs) s i j = Inr (i + length (takeWhile (\<lambda>c. c \<in> set cs) (subrange (st_self s) i j)))"
  using assms
proof (induction "bag_of cs" s i j rule: trim_left.induct)
  case (1 s i j)
  show ?case
  proof (cases "i < j")
    case True
    then have x: "subrange (st_self s) i j = st_self s ! i # subrange (st_self s) (Suc i) j"
      using "1.prems" by (auto intro: subrange_step simp: string_ok_def)
    have c: "mkcl_char s i = Inr (st_self s ! i)" using True "1.prems" by (simp add: mkcl_char_def string_ok_def)
    show ?thesis using True "1.hyps" "1.prems" by (subst trim_left.simps) (simp add: x c member_bag)
  next
    case False
    then show ?thesis by (subst trim_left.simps) (simp add: text_simps)
  qed
qed

lemma trim_right_drop:
  assumes "string_ok s" "i \<le> j" "j \<le> st_fillp s"
  shows "\<exists>k. trim_right (bag_of cs) s i j = Inr k \<and> i \<le> k \<and> k \<le> j
    \<and> subrange (st_self s) i k = rev (dropWhile (\<lambda>c. c \<in> set cs) (rev (subrange (st_self s) i j)))"
  using assms
proof (induction j)
  case 0
  then show ?case by (simp add: text_simps)
next
  case (Suc j)
  show ?case
  proof (cases "i < Suc j")
    case True
    then have x: "subrange (st_self s) i (Suc j) = subrange (st_self s) i j @ [st_self s ! j]"
      using Suc.prems by (intro subrange_last) (auto simp: string_ok_def)
    have c: "mkcl_char s j = Inr (st_self s ! j)" using Suc.prems by (simp add: mkcl_char_def string_ok_def)
    have "\<exists>k. trim_right (bag_of cs) s i j = Inr k \<and> i \<le> k \<and> k \<le> j
      \<and> subrange (st_self s) i k = rev (dropWhile (\<lambda>c. c \<in> set cs) (rev (subrange (st_self s) i j)))"
      using Suc True by simp
    then show ?thesis using True by (auto simp: x c member_bag)
  next
    case False
    then show ?thesis using Suc.prems by (simp add: text_simps)
  qed
qed

lemma subrange_takeWhile:
  "j \<le> length m \<Longrightarrow> subrange m (i + length (takeWhile P (subrange m i j))) j = dropWhile P (subrange m i j)"
  by (simp add: subrange_def dropWhile_eq_drop drop_take add.commute diff_diff_add)

lemma subseq_string_subrange:
  assumes "e \<le> st_fillp s" "i \<le> e"
  shows "subseq_string s i (Some e) = Inr (simple_string (st_base s) (subrange (st_self s) i e))"
  using assms by (simp add: subseq_string_def subrange_def)

lemma string_trim0_trims:
  assumes "string_ok s"
  shows "string_trim0 left right (bag_of cs) s
    = Inr (simple_string (st_base s)
        ((if right then rev \<circ> dropWhile (\<lambda>c. c \<in> set cs) \<circ> rev else (\<lambda>xs. xs))
           ((if left then dropWhile (\<lambda>c. c \<in> set cs) else (\<lambda>xs. xs)) (contents s))))"
proof -
  let ?P = "\<lambda>c. c \<in> set cs"
  define i where "i = (if left then length (takeWhile ?P (contents s)) else 0)"
  have len: "st_fillp s \<le> length (st_self s)" using assms by (simp add: string_ok_def)
  have l: "(if left then trim_left (bag_of cs) s 0 (st_fillp s) else Inr 0) = Inr i"
    using trim_left_drop [OF assms, of 0 "st_fillp s"] by (simp add: i_def contents_subrange)
  have i: "i \<le> st_fillp s"
    using length_takeWhile_le [of ?P "contents s"] length_contents [OF assms] by (simp add: i_def)
  have p: "subrange (st_self s) i (st_fillp s) = (if left then dropWhile ?P else (\<lambda>xs. xs)) (contents s)"
    using subrange_takeWhile [OF len, of 0 ?P] by (simp add: i_def contents_subrange)
  obtain k where "trim_right (bag_of cs) s i (st_fillp s) = Inr k" "i \<le> k" "k \<le> st_fillp s"
    "subrange (st_self s) i k = rev (dropWhile ?P (rev (subrange (st_self s) i (st_fillp s))))"
    using trim_right_drop [OF assms i] by blast
  then show ?thesis
    using i subseq_string_subrange [of k s i] subseq_string_subrange [of "st_fillp s" s i]
    by (simp add: string_trim0_def l p del: if_split_asm)
qed

section \<open>Searching\<close>

definition occurs_at :: "nat list \<Rightarrow> nat list \<Rightarrow> nat \<Rightarrow> bool" where
  "occurs_at p xs i \<longleftrightarrow> i + length p \<le> length xs \<and> take (length p) (drop i xs) = p"

lemma occurs_at_first:
  assumes "occurs_at p (take e m) i" "p \<noteq> []" "e \<le> length m"
  shows "i < e \<and> m ! i = hd p"
proof -
  have "i + length p \<le> e" "take (length p) (drop i (take e m)) = p"
    using assms by (auto simp: occurs_at_def)
  moreover have "take (length p) (drop i (take e m)) ! 0 = m ! i"
    using assms(2,3) calculation(1) by (simp add: drop_take)
  ultimately show ?thesis using assms(2) by (cases p) auto
qed

lemma occurs_at_tail:
  assumes "e \<le> length m" "p \<noteq> []" "b + length p \<le> e" "m ! b = hd p"
  shows "occurs_at p (take e m) b \<longleftrightarrow> take (length p - 1) (drop (b + 1) m) = tl p"
proof -
  obtain c q where p: "p = c # q" using assms(2) by (cases p) auto
  have b: "b < length m" using assms by (simp add: p)
  have "take (length p) (drop b (take e m)) = take (length p) (drop b m)"
    using assms by (simp add: drop_take min_def)
  also have "\<dots> = m ! b # take (length q) (drop (b + 1) m)"
    by (simp add: p Cons_nth_drop_Suc [OF b, symmetric])
  finally show ?thesis using assms by (auto simp: occurs_at_def p)
qed

lemma mkcl_wmemchr_None: "mkcl_wmemchr m c i e = None \<Longrightarrow> i \<le> k \<Longrightarrow> k < e \<Longrightarrow> m ! k \<noteq> c"
proof (induction m c i e rule: mkcl_wmemchr.induct)
  case (1 m c i e)
  then show ?case by (cases "k = i") (auto simp: mkcl_wmemchr.simps [of m c i e] split: if_splits)
qed

lemma search_loop_first:
  assumes "e \<le> length m" "p \<noteq> []"
  shows "case search_loop p m i e of
      Some b \<Rightarrow> i \<le> b \<and> occurs_at p (take e m) b \<and> (\<forall>k. i \<le> k \<and> k < b \<longrightarrow> \<not> occurs_at p (take e m) k)
    | None \<Rightarrow> (\<forall>k\<ge>i. \<not> occurs_at p (take e m) k)"
  using assms
proof (induction p m i e rule: search_loop.induct)
  case (1 p m i e)
  note first = occurs_at_first [OF _ "1.prems"(2) "1.prems"(1)]
  have late: "\<not> occurs_at p (take e m) k" if "e < k + length p" for k
    using that "1.prems" by (simp add: occurs_at_def)
  show ?case
  proof (cases "i + length p \<le> e")
    case False
    then show ?thesis using late by (subst search_loop.simps) simp
  next
    case True
    show ?thesis
    proof (cases "mkcl_wmemchr m (hd p) i e")
      case None
      then show ?thesis using True first mkcl_wmemchr_None [OF None] by (subst search_loop.simps) (simp, blast)
    next
      case (Some b)
      note b = mkcl_wmemchr_Some [OF Some]
      have skip: "\<not> occurs_at p (take e m) k" if "i \<le> k" "k < b" for k
        using that b first [of k] by blast
      show ?thesis
      proof (cases "b + length p \<le> e")
        case False
        then show ?thesis
          using True Some skip late by (subst search_loop.simps) (auto, metis add_le_mono1 leD le_trans not_le)
      next
        case in_bounds: True
        note tail = occurs_at_tail [OF "1.prems" in_bounds, OF b [THEN conjunct2, THEN conjunct2, THEN conjunct1]]
        show ?thesis
        proof (cases "take (length p - 1) (drop (b + 1) m) = tl p")
          case True
          then show ?thesis
            using \<open>i + length p \<le> e\<close> Some in_bounds tail skip b by (subst search_loop.simps) simp
        next
          case False
          have step: "\<not> occurs_at p (take e m) k" if "i \<le> k" "k < b + 1" for k
            using that skip [of k] tail False by (cases "k = b") auto
          have eq: "search_loop p m i e = search_loop p m (b + 1) e"
            using \<open>i + length p \<le> e\<close> Some in_bounds False by (subst search_loop.simps) simp
          show ?thesis
            using "1.IH" [OF \<open>i + length p \<le> e\<close> Some in_bounds False] "1.prems" step b
            unfolding eq by (auto split: option.splits) (metis not_less_eq_eq Suc_eq_plus1 not_le)+
        qed
      qed
    qed
  qed
qed

lemma coerced_contents:
  assumes "string_ok s"
  shows "mkcl_coerce_to_simple_character_string (StringSeq s) = Inr (simple_string False (contents s))"
    and "mkcl_coerce_to_simple_base_string (StringSeq s)
      = (if list_all MKCL_BASE_CHAR_CODE_P (contents s) then Inr (simple_string True (contents s)) else Inl NotABaseChar)"
proof -
  have "st_base s \<Longrightarrow> list_all MKCL_BASE_CHAR_CODE_P (contents s)"
    using assms by (auto simp: string_ok_def contents_def list_all_iff dest: in_set_takeD)
  then show "mkcl_coerce_to_simple_character_string (StringSeq s) = Inr (simple_string False (contents s))"
    and "mkcl_coerce_to_simple_base_string (StringSeq s)
      = (if list_all MKCL_BASE_CHAR_CODE_P (contents s) then Inr (simple_string True (contents s)) else Inl NotABaseChar)"
    using assms
    by (auto simp: mkcl_coerce_to_simple_character_string_def mkcl_coerce_to_simple_base_string_def get_chars_def
        contents_def string_ok_def)
qed

definition first_occurrence :: "nat list \<Rightarrow> nat list \<Rightarrow> nat option \<Rightarrow> bool" where
  "first_occurrence p xs r \<longleftrightarrow>
     (case r of Some b \<Rightarrow> occurs_at p xs b \<and> (\<forall>k<b. \<not> occurs_at p xs k) | None \<Rightarrow> (\<forall>k. \<not> occurs_at p xs k))"

lemma search_memory_first:
  assumes "string_ok a" "string_ok b"
  shows "\<exists>r. search_memory a b = Inr r \<and> first_occurrence (contents a) (contents b) r"
proof (cases "st_fillp a = 0")
  case True
  have "contents a = []" by (simp add: contents_def True)
  moreover have "st_self a \<noteq> []" using assms(1) by (auto simp: string_ok_def)
  ultimately show ?thesis by (simp add: search_memory_def first_occurrence_def occurs_at_def True)
next
  case False
  then have "contents a \<noteq> []" "st_self a \<noteq> []" using assms(1) by (auto simp: contents_def string_ok_def)
  then show ?thesis
    using False assms(2) search_loop_first [of "st_fillp b" "st_self b" "contents a" 0]
    by (auto simp: search_memory_def first_occurrence_def contents_def [of b] string_ok_def split: option.splits)
qed

text \<open>A pattern that cannot be a base string is not found in a base string: the function signals an error.\<close>

lemma search_in_string_first:
  assumes "string_ok a" "string_ok b"
  shows "if st_base b \<and> \<not> list_all MKCL_BASE_CHAR_CODE_P (contents a)
    then mkcl_search_in_string a b = Inl NotABaseChar
    else \<exists>r. mkcl_search_in_string a b = Inr r \<and> first_occurrence (contents a) (contents b) r"
proof -
  have ok: "string_ok (simple_string False (contents a))"
    "list_all MKCL_BASE_CHAR_CODE_P (contents a) \<Longrightarrow> string_ok (simple_string True (contents a))"
    by (simp_all add: simple_string_ok)
  have "st_base a \<Longrightarrow> list_all MKCL_BASE_CHAR_CODE_P (contents a)"
    using assms by (auto simp: string_ok_def contents_def list_all_iff dest: in_set_takeD)
  then show ?thesis
    using assms search_memory_first [OF assms] search_memory_first [OF ok(1) assms(2)] search_memory_first [OF ok(2) assms(2)]
    by (auto simp: mkcl_search_in_string_def mkcl_search_in_base_string_def mkcl_coerce_to_base_string_def
        mk_si_coerce_to_character_string_def coerced_contents contents_simple)
qed

section \<open>Concatenation\<close>

lemma put_chars_at:
  "length m = a + length cs + c \<Longrightarrow> put_chars a cs m = Inr (take a m @ cs @ drop (a + length cs) m)"
  by (simp add: put_chars_def)

lemma contents_written:
  assumes "string_ok s" "p + length cs \<le> st_fillp s"
  shows "\<exists>s'. write_chars s p cs = Inr s' \<and> contents s' = take p (contents s) @ cs @ drop (p + length cs) (contents s)
    \<and> st_base s' = st_base s \<and> st_fillp s' = st_fillp s \<and> st_dim s' = st_dim s \<and> length (st_self s') = length (st_self s)
    \<and> (st_base s \<longrightarrow> list_all MKCL_BASE_CHAR_CODE_P cs \<longrightarrow> string_ok s')"
proof -
  have "min p (st_fillp s) = p" "min (st_fillp s) p = p" using assms(2) by simp_all
  then show ?thesis
    using assms
    by (auto simp: write_chars_def put_chars_def contents_def string_ok_def drop_take list_all_iff
        dest: in_set_takeD in_set_dropD)
qed

lemma string_ok_of: "string_ok s \<Longrightarrow> \<not> st_base s \<Longrightarrow> st_base s' = st_base s \<Longrightarrow> st_fillp s' = st_fillp s \<Longrightarrow>
    st_dim s' = st_dim s \<Longrightarrow> length (st_self s') = length (st_self s) \<Longrightarrow> string_ok s'"
  by (simp add: string_ok_def)

lemma drop_written:
  assumes "r + length cs \<le> n" "n \<le> length m"
  shows "drop r (take n (take r m @ cs @ drop (r + length cs) m)) = cs @ drop (r + length cs) (take n m)"
proof -
  have "drop r (take r m @ cs @ drop (r + length cs) m) = cs @ drop (r + length cs) m" using assms by simp
  then show ?thesis using assms by (simp add: drop_take diff_diff_add)
qed

text \<open>Popping the stack fills the first \<open>l\<close> places with the strings, in the order they were pushed.\<close>

lemma pop_strings_fill:
  assumes "list_all (\<lambda>s. string_ok s \<and> st_fillp s > 0) stack" "l = sum_list (map st_fillp stack)"
    "l \<le> st_fillp out" "st_fillp out \<le> length (st_self out)"
  shows "\<exists>s'. pop_strings stack l out = Inr s'
    \<and> contents s' = concat (map contents (rev stack)) @ drop l (contents out)
    \<and> st_base s' = st_base out \<and> st_fillp s' = st_fillp out \<and> st_dim s' = st_dim out"
  using assms
proof (induction stack arbitrary: l out)
  case Nil
  then show ?case by simp
next
  case (Cons s stack)
  define r where "r = sum_list (map st_fillp stack)"
  have l: "l = st_fillp s + r" "l \<noteq> 0" "l - st_fillp s = r" using Cons.prems by (auto simp: r_def)
  have s: "string_ok s" "length (contents s) = st_fillp s" using Cons.prems(1) by (auto simp: length_contents)
  have g: "get_chars 0 (st_fillp s) (st_self s) = Inr (contents s)"
    using s by (simp add: get_chars_def contents_def string_ok_def)
  define out1 where "out1 = out\<lparr>st_self := take r (st_self out) @ contents s @ drop l (st_self out)\<rparr>"
  have w: "write_chars out r (contents s) = Inr out1"
    using Cons.prems(3,4) l s by (simp add: write_chars_def put_chars_def out1_def add.commute)
  have "\<exists>s'. pop_strings stack r out1 = Inr s'
    \<and> contents s' = concat (map contents (rev stack)) @ drop r (contents out1)
    \<and> st_base s' = st_base out1 \<and> st_fillp s' = st_fillp out1 \<and> st_dim s' = st_dim out1"
    using Cons.prems l s by (intro Cons.IH) (auto simp: r_def out1_def)
  moreover have "contents out1 = take (st_fillp out) (take r (st_self out) @ contents s @ drop l (st_self out))"
    by (simp add: contents_def [of out1]) (simp add: out1_def)
  then have "drop r (contents out1) = contents s @ drop l (contents out)"
    using Cons.prems(3,4) l(1) s(2) drop_written [of r "contents s" "st_fillp out" "st_self out"]
    unfolding contents_def [of out] by (simp only: add.commute)
  ultimately show ?case using l g w by (auto simp: out1_def)
qed

lemma push_strings_given:
  assumes "list_all (\<lambda>x. \<exists>s. coerce x = Inr s \<and> string_ok s \<and> contents s = f x) args"
    "list_all (\<lambda>s. string_ok s \<and> st_fillp s > 0) stack" "l = sum_list (map st_fillp stack)"
  shows "\<exists>stack' l'. push_strings coerce args stack l = Inr (stack', l')
    \<and> list_all (\<lambda>s. string_ok s \<and> st_fillp s > 0) stack' \<and> l' = sum_list (map st_fillp stack')
    \<and> concat (map contents (rev stack')) = concat (map contents (rev stack)) @ concat (map f args)"
  using assms
proof (induction args arbitrary: stack l)
  case Nil
  then show ?case by simp
next
  case (Cons x args)
  then obtain s where s: "coerce x = Inr s" "string_ok s" "contents s = f x" by auto
  show ?case
  proof (cases "st_fillp s > 0")
    case True
    then show ?thesis using Cons.IH [of "s # stack" "l + st_fillp s"] Cons.prems s by simp
  next
    case False
    then have "f x = []" using s by (simp add: contents_def)
    then show ?thesis using False Cons.IH [of stack l] Cons.prems s by simp
  qed
qed

lemma push_pop_strings:
  assumes "list_all (\<lambda>x. \<exists>s. coerce x = Inr s \<and> string_ok s \<and> contents s = f x) args" "\<And>n. length (fresh n) = n"
  shows "\<exists>s. and_then (push_strings coerce args [] 0) (\<lambda>(stack, l). pop_strings stack l (simple_string b (fresh l))) = Inr s
    \<and> contents s = concat (map f args) \<and> st_base s = b"
proof -
  obtain stack l where p: "push_strings coerce args [] 0 = Inr (stack, l)"
    "list_all (\<lambda>s. string_ok s \<and> st_fillp s > 0) stack" "l = sum_list (map st_fillp stack)"
    "concat (map contents (rev stack)) = concat (map f args)"
    using push_strings_given [OF assms(1), of "[]" 0] by auto
  then show ?thesis
    using pop_strings_fill [OF p(2,3), of "simple_string b (fresh l)"] assms(2) [of l]
    by (auto simp: contents_simple)
qed

lemma concatenate_strings_concat:
  assumes "list_all string_ok ss" "\<And>n. length (fresh n) = n"
  shows "\<exists>s. mk_si_concatenate_strings fresh (map StringSeq ss) = Inr s \<and> contents s = concat (map contents ss) \<and> \<not> st_base s"
proof -
  have "\<exists>s'. mk_si_coerce_to_character_string (StringSeq s) = Inr s' \<and> string_ok s' \<and> contents s' = contents s" if "string_ok s" for s
    using that by (auto simp: mk_si_coerce_to_character_string_def coerced_contents contents_simple simple_string_ok)
  then have *: "list_all (\<lambda>x. \<exists>s. mk_si_coerce_to_character_string x = Inr s \<and> string_ok s
      \<and> contents s = (case x of StringSeq s \<Rightarrow> contents s | _ \<Rightarrow> [])) (map StringSeq ss)"
    using assms(1) by (auto simp: list_all_iff)
  have "(\<lambda>x. case x of StringSeq s \<Rightarrow> contents s | _ \<Rightarrow> []) \<circ> StringSeq = contents" by auto
  then show ?thesis
    using push_pop_strings [OF * assms(2), of False] assms(1)
    by (auto simp: mk_si_concatenate_strings_def coerced_contents contents_simple split: list.splits)
qed

section \<open>Substrings, filling and replacing\<close>

lemma check_range_cases:
  "check_range s start (Some e) = (if start \<le> e \<and> e \<le> st_fillp s then Inr e else Inl BadRange)"
  "check_range s start None = (if start \<le> st_fillp s then Inr (st_fillp s) else Inl BadRange)"
  by (auto simp: check_range_def)

lemma get_subrange:
  assumes "string_ok s" "e \<le> st_fillp s" "i \<le> e"
  shows "get_chars i (e - i) (st_self s) = Inr (take (e - i) (drop i (contents s)))"
  using assms by (auto simp: get_chars_def contents_def string_ok_def drop_take min_def)

lemma mkcl_substring_subrange:
  assumes "string_ok s" "start \<le> e" "e \<le> st_fillp s"
  shows "mkcl_substring s start (Some e) = Inr (simple_string (st_base s) (take (e - start) (drop start (contents s))))"
  using assms by (simp add: mkcl_substring_def check_range_cases get_subrange)

text \<open>Filling a whole string is right. Filling from \<open>start\<close> to \<open>e\<close> writes \<open>e\<close> characters.\<close>

lemma mkcl_fill_string_all:
  assumes "string_ok s" "st_base s \<longrightarrow> MKCL_BASE_CHAR_CODE_P ch"
  shows "\<exists>s'. mkcl_fill_string s ch = Inr s' \<and> contents s' = replicate (st_fillp s) ch"
  using contents_written [OF assms(1), of 0 "replicate (st_fillp s) ch"] assms
  by (auto simp: mkcl_fill_string_def length_contents)

lemma mkcl_fill_string_k_overruns:
  assumes "start \<le> e" "e \<le> st_fillp s" "\<not> st_base s" "e > 0"
  shows "mkcl_fill_string_k s ch start (Some e)
    = (if start + e > length (st_self s) then Inl StringOverrun
       else Inr (s\<lparr>st_self := take start (st_self s) @ replicate e ch @ drop (start + e) (st_self s)\<rparr>))"
  using assms by (simp add: mkcl_fill_string_k_def check_range_cases write_chars_def put_chars_def)

lemma replace_range_parts:
  assumes "string_ok a" "string_ok b" "s1 \<le> e1" "e1 \<le> st_fillp a" "s2 \<le> e2" "e2 \<le> st_fillp b"
  shows "\<exists>s. replace_range a b s1 e1 s2 e2 = Inr s
    \<and> (let n = min (e1 - s1) (e2 - s2)
       in contents s = take s1 (contents a) @ take n (drop s2 (contents b)) @ drop (s1 + n) (contents a))"
proof -
  define n where "n = min (e1 - s1) (e2 - s2)"
  have n: "(if e1 - s1 < e2 - s2 then e1 - s1 else e2 - s2) = n" "s1 + n \<le> st_fillp a" "s2 + n \<le> st_fillp b"
    using assms by (auto simp: n_def min_def)
  let ?cs = "take n (drop s2 (contents b))"
  have len: "length ?cs = n" using n(3) length_contents [OF assms(2)] by simp
  have g: "get_chars s2 n (st_self b) = Inr ?cs"
    using get_subrange [OF assms(2) n(3), of s2] by simp
  obtain s where "write_chars a s1 ?cs = Inr s" "contents s = take s1 (contents a) @ ?cs @ drop (s1 + n) (contents a)"
    using contents_written [OF assms(1), of s1 ?cs] n(2) len by auto
  moreover have "n = 0 \<longleftrightarrow> \<not> (e1 - s1 \<noteq> 0 \<and> e2 - s2 \<noteq> 0)" by (auto simp: n_def)
  ultimately show ?thesis
    using g n(1) by (cases "n = 0") (auto simp: replace_range_def Let_def n_def [symmetric])
qed

section \<open>Case\<close>

text \<open>A case function that has no memory is applied to every character of the range.\<close>

lemma case_loop_map:
  assumes "\<And>c b. fst (f c b) = g c" "i \<le> e" "e \<le> length (st_self s)"
  shows "case_loop f i e b s
    = Inr (s\<lparr>st_self := take i (st_self s) @ map (\<lambda>c. stored_char s (g c)) (subrange (st_self s) i e) @ drop e (st_self s)\<rparr>)"
  using assms(2,3)
proof (induction "e - i" arbitrary: i b s)
  case 0
  then show ?case by (subst case_loop.simps) (simp add: subrange_empty)
next
  case (Suc n)
  then have i: "i < e" "i < length (st_self s)" by linarith+
  define s1 where "s1 = s\<lparr>st_self := (st_self s)[i := stored_char s (g (st_self s ! i))]\<rparr>"
  have st: "stored_char s1 = stored_char s" by (simp add: s1_def stored_char_def fun_eq_iff)
  have p: "subrange (st_self s1) (Suc i) e = subrange (st_self s) (Suc i) e"
    "take (Suc i) (st_self s1) = take i (st_self s) @ [stored_char s (g (st_self s ! i))]"
    "drop e (st_self s1) = drop e (st_self s)"
    using i by (simp_all add: s1_def subrange_def take_Suc_conv_app_nth)
  have "case_loop f i e b s = case_loop f (Suc i) e (snd (f (st_self s ! i) b)) s1"
    using i assms(1) by (subst case_loop.simps) (simp add: Let_def split_beta s1_def)
  also have "\<dots> = Inr (s1\<lparr>st_self := take (Suc i) (st_self s1)
      @ map (\<lambda>c. stored_char s1 (g c)) (subrange (st_self s1) (Suc i) e) @ drop e (st_self s1)\<rparr>)"
    using Suc i by (intro Suc.hyps(1)) (auto simp: s1_def)
  also have "\<dots> = Inr (s\<lparr>st_self := take i (st_self s)
      @ map (\<lambda>c. stored_char s (g c)) (subrange (st_self s) i e) @ drop e (st_self s)\<rparr>)"
    unfolding st p subrange_step [OF i(1) Suc.prems(2)] by (simp add: s1_def)
  finally show ?case .
qed

lemma string_case_map:
  assumes "string_ok s" "\<And>c b. fst (f c b) = g c"
  shows "\<exists>s'. string_case f s 0 None = Inr s'
    \<and> contents s' = map (\<lambda>c. stored_char s (g c)) (contents s) \<and> st_base s' = st_base s"
proof -
  have c: "take (st_fillp s) (st_self s) = contents s" by (simp add: contents_def)
  have p: "subrange (contents s @ [0]) 0 (length (contents s)) = contents s" by (simp add: subrange_def)
  let ?conv = "simple_string (st_base s) (contents s)"
  have "case_loop f 0 (length (contents s)) True ?conv
    = Inr (?conv\<lparr>st_self := map (\<lambda>c. stored_char ?conv (g c)) (contents s) @ [0]\<rparr>)"
    using case_loop_map [where f = f and g = g and i = 0 and e = "length (contents s)" and s = ?conv and b = True] assms(2)
    by (simp add: p)
  then show ?thesis
    by (auto simp: string_case_def subseq_string_def c nstring_case_def mkcl_get_string_start_end_def fixnum_range_values
        contents_def [of "_\<lparr>st_self := _\<rparr>"] stored_char_def)
qed

section \<open>Digits\<close>

lemma digit_round_trip:
  assumes "2 \<le> r" "r \<le> 36" "0 \<le> w" "w < r"
  shows "mkcl_digitp u (nat (mkcl_digit_char w r)) (nat r) = w"
  using assms by (auto simp: mkcl_digit_char_def mkcl_digitp_def nat_add_distrib)

lemma digitp_bounds:
  assumes "mkcl_digitp u c r \<ge> 0"
  shows "mkcl_digitp u c r < int r"
  using assms by (auto simp: mkcl_digitp_def split: if_splits)

end
