(* ===== verification/Integer_Bit_Props.thy ===== *)
theory Integer_Bit_Props
  imports Integer_Bits Number_Props
begin

text \<open>
  The logical operations compute, bit by bit, the truth table that the number of the operation spells, on
  fixnums as on bignums (\<open>boole_canon\<close>, \<open>boole_bits\<close>). A shift is right but for the fixnums next to the most
  negative one (\<open>ash_canon\<close>). The counts are those of the binary digits.
\<close>

section \<open>Logical operations\<close>

definition boole_int :: "nat \<Rightarrow> int \<Rightarrow> int \<Rightarrow> int" where
  "boole_int opn x y = (fixnum_operations ! opn) x y"

lemma nat_less_16: "n < (16 :: nat) \<Longrightarrow> n \<in> {0, 1, 2, 3, 4, 5, 6, 7, 8, 9, 10, 11, 12, 13, 14, 15}"
  unfolding insert_iff empty_iff by arith

definition table :: "nat \<Rightarrow> bool \<Rightarrow> bool \<Rightarrow> bool" where
  "table opn x y \<longleftrightarrow> bit opn (if x then (if y then 0 else 1) else (if y then 2 else 3))"

text \<open>The digits of an operation's number are its values at (1,1), (1,0), (0,1) and (0,0).\<close>

lemma boole_bits:
  assumes "opn < 16"
  shows "bit (boole_int opn x y) k \<longleftrightarrow> table opn (bit x k) (bit y k)"
  using nat_less_16 [OF assms]
  by (elim insertE emptyE) (simp_all add: table_def boole_int_def fixnum_operations_def word_op_defs bit_simps bit_iff_odd [where 'a = nat])

lemma fixnum_range_signed: "fixnum_range n \<longleftrightarrow> signed_take_bit 61 n = n"
  by (auto simp: fixnum_range_def MOST_POSITIVE_FIXNUM_def MOST_NEGATIVE_FIXNUM_def signed_take_bit_int_eq_self_iff)

lemma fixnum_range_bits: "fixnum_range n \<longleftrightarrow> (\<forall>k. bit n (min 61 k) = bit n k)"
  by (simp add: fixnum_range_signed bit_eq_iff bit_simps)

lemma fixnum_range_boole: "opn < 16 \<Longrightarrow> fixnum_range x \<Longrightarrow> fixnum_range y \<Longrightarrow> fixnum_range (boole_int opn x y)"
  unfolding fixnum_range_bits by (simp add: boole_bits)

lemma bit_sign: "- (2 ^ m) \<le> x \<Longrightarrow> x < 2 ^ m \<Longrightarrow> m \<le> k \<Longrightarrow> bit x k \<longleftrightarrow> x < (0 :: int)"
  using signed_take_bit_int_eq_self_iff [of m x] signed_take_bit_negative_iff [of m x] bit_signed_take_bit_iff [of m x k]
  by (simp add: min_absorb1)

lemma fixnum_bit_sign: "fixnum_range x \<Longrightarrow> 61 \<le> k \<Longrightarrow> bit x k \<longleftrightarrow> x < 0"
  using bit_sign [of 61 x k] by (simp add: fixnum_range_def MOST_POSITIVE_FIXNUM_def MOST_NEGATIVE_FIXNUM_def)

section \<open>Shifts\<close>

lemma bit_tagged: "j < 64 \<Longrightarrow> bit (MKCL_MAKE_FIXNUM (word_of_int n)) j \<longleftrightarrow> j < 2 \<or> bit n (j - 2)"
proof -
  have "bit (3 :: 64 word) j \<longleftrightarrow> j < 2" using bit_mask_iff [of 2 j, where 'a = "64 word"] by (auto simp: mask_eq_exp_minus_1)
  then show "j < 64 \<Longrightarrow> ?thesis" by (auto simp: MKCL_MAKE_FIXNUM_def bit_simps not_le)
qed

lemma bit_mask: "w < 62 \<Longrightarrow> bit (shift_out_mask w) j \<longleftrightarrow> 63 - w \<le> j \<and> j < 63"
proof -
  have "push_bit w 1 - 1 = (mask w :: 64 word)" by (simp add: mask_eq_exp_minus_1 push_bit_eq_mult)
  then show "w < 62 \<Longrightarrow> ?thesis" by (auto simp: shift_out_mask_def bit_push_bit_iff bit_mask_iff)
qed

lemma masked_bits:
  assumes "0 < w" and "w < 62"
  shows "MKCL_MAKE_FIXNUM (word_of_int n) AND shift_out_mask w = 0 \<longleftrightarrow> take_bit 61 n < 2 ^ (61 - w)"
proof -
  have "bit (MKCL_MAKE_FIXNUM (word_of_int n) AND shift_out_mask w) j \<longleftrightarrow> 63 - w \<le> j \<and> j < 63 \<and> bit n (j - 2)" if "j < 64" for j
    using assms that by (auto simp: bit_and_iff bit_tagged bit_mask)
  then have "MKCL_MAKE_FIXNUM (word_of_int n) AND shift_out_mask w = 0 \<longleftrightarrow> (\<forall>j < 64. 63 - w \<le> j \<and> j < 63 \<longrightarrow> \<not> bit n (j - 2))"
    by (auto simp: bit_word_eqI bit_eq_iff [of "_ AND _"] simp del: bit_and_iff)
  also have "\<dots> \<longleftrightarrow> (\<forall>k. \<not> bit (drop_bit (61 - w) (take_bit 61 n)) k)"
  proof
    assume *: "\<forall>j < 64. 63 - w \<le> j \<and> j < 63 \<longrightarrow> \<not> bit n (j - 2)"
    have "bit (drop_bit (61 - w) (take_bit 61 n)) k \<Longrightarrow> False" for k
    proof -
      assume "bit (drop_bit (61 - w) (take_bit 61 n)) k"
      then have k: "61 - w + k < 61" "bit n (61 - w + k)" by (simp_all add: bit_simps)
      then have "63 - w + k < 63" "63 - w + k - 2 = 61 - w + k" using assms by arith+
      then show False using * [rule_format, of "63 - w + k"] k by simp
    qed
    then show "\<forall>k. \<not> bit (drop_bit (61 - w) (take_bit 61 n)) k" by blast
  next
    assume *: "\<forall>k. \<not> bit (drop_bit (61 - w) (take_bit 61 n)) k"
    have "63 - w \<le> j \<and> j < 63 \<Longrightarrow> bit n (j - 2) \<Longrightarrow> False" for j
      using * [rule_format, of "j - (63 - w)"] assms by (auto simp: bit_simps)
    then show "\<forall>j < 64. 63 - w \<le> j \<and> j < 63 \<longrightarrow> \<not> bit n (j - 2)" by blast
  qed
  also have "\<dots> \<longleftrightarrow> drop_bit (61 - w) (take_bit 61 n) = 0" by (simp add: bit_eq_iff)
  also have "\<dots> \<longleftrightarrow> take_bit 61 n < 2 ^ (61 - w)" 
    using take_bit_nonnegative [of 61 n] by (auto simp: drop_bit_eq_div zdiv_eq_0_iff dest: less_le_trans)
  finally show ?thesis .
qed

lemma take_61: "fixnum_range n \<Longrightarrow> take_bit 61 n = (if n < 0 then n - MOST_NEGATIVE_FIXNUM else n)"
  using mod_pos_pos_trivial [of n "2 ^ 61"] mod_pos_pos_trivial [of "n + 2 ^ 61" "2 ^ 61"]
  by (simp add: fixnum_range_def MOST_POSITIVE_FIXNUM_def MOST_NEGATIVE_FIXNUM_def take_bit_eq_mod)

lemma shifted_fixnum:
  assumes n: "fixnum_range n" and w: "0 < w" "w < 62" and small: "take_bit 61 n < 2 ^ (61 - w)"
  shows "make_fixnum (push_bit w n) = canon (take_bit 61 n * 2 ^ w)"
proof -
  have "take_bit 61 n * 2 ^ w < 2 ^ (61 - w) * 2 ^ w" using small by simp
  also have "(2 :: int) ^ (61 - w) * 2 ^ w = 2 ^ 61" using w by (simp flip: power_add)
  finally have "take_bit 61 n * 2 ^ w < 2 ^ 61" .
  moreover have "0 \<le> take_bit 61 n * 2 ^ w" by simp
  ultimately have r: "fixnum_range (take_bit 61 n * 2 ^ w)"
    unfolding fixnum_range_def MOST_POSITIVE_FIXNUM_def MOST_NEGATIVE_FIXNUM_def by linarith
  obtain v where v: "w = Suc v" using w by (cases w) auto
  have "(a + b * c) * (2 * d) = a * (2 * d) + (b * 2) * (d * c)" for a b c d :: int by (simp add: algebra_simps)
  from this [of "take_bit 61 n" "2 ^ 61" "n div 2 ^ 61" "2 ^ v"]
  have "n * 2 ^ w = take_bit 61 n * 2 ^ w + (2 ^ 61 * 2) * (2 ^ v * (n div 2 ^ 61))"
    by (simp only: v power_Suc take_bit_eq_mod mod_mult_div_eq)
  then have "take_bit 62 (n * 2 ^ w) = take_bit 62 (take_bit 61 n * 2 ^ w)" by (simp add: take_bit_eq_mod)
  then have "signed_take_bit 61 (push_bit w n) = signed_take_bit 61 (take_bit 61 n * 2 ^ w)"
    by (simp add: signed_take_bit_eq_iff_take_bit_eq push_bit_eq_mult)
  then show ?thesis using make_fixnum_canon [OF r] by (simp add: make_fixnum_def)
qed

section \<open>The functions\<close>

lemma count_bits_ones: "count_bits_loop c j = c + ones j"
  by (induction c j rule: count_bits_loop.induct) (subst count_bits_loop.simps, subst ones.simps, auto simp: and_one_eq mod2_eq_if)

lemma bit_length_digits: "c + digits i \<le> 64 \<Longrightarrow> bit_length_loop c i = c + digits i"
proof (induction c i rule: bit_length_loop.induct)
  case (1 c i)
  then show ?case
    by (cases "i = 0") (simp_all add: bit_length_loop.simps [of c] digits.simps [of i])
qed

lemma digits_le: "n < 2 ^ k \<Longrightarrow> digits n \<le> k"
proof (rule ccontr)
  assume "n < 2 ^ k" "\<not> digits n \<le> k"
  moreover from this have "n \<noteq> 0" by (intro notI) simp
  then have "2 ^ (digits n - 1) \<le> n" using digits_bounds by blast
  moreover have "(2 :: nat) ^ k \<le> 2 ^ (digits n - 1)" using calculation(2) by (intro power_increasing) auto
  ultimately show False by linarith
qed

context gmp_library
begin

lemma mpz_operation: "opn < 16 \<Longrightarrow> (bignum_operations ! opn) g x y = boole_int opn x y"
proof -
  have n: "NOT (NOT x OR y) = x AND NOT y" "NOT (NOT x AND y) = x OR NOT y"
    by (rule bit_eqI; simp add: bit_simps)+
  have ops: "mpz_com g z = NOT z" "mpz_and g z y = z AND y" "mpz_ior g z y = z OR y" "mpz_xor g z y = z XOR y" for z
    using gmp by (simp_all add: gmp_ok_def)
  assume "opn < 16"
  from nat_less_16 [OF this] show ?thesis
    by (elim insertE emptyE; simp)
      (simp_all add: boole_int_def bignum_operations_def fixnum_operations_def word_op_defs mpz_op_defs ops n)
qed

lemma boole_canon: "opn < 16 \<Longrightarrow> mkcl_boole g opn (canon x) (canon y) = canon (boole_int opn x y)"
  by (cases x rule: canon_cases; cases y rule: canon_cases)
    (simp_all add: mpz_operation fixnum_range_boole make_fixnum_canon flip: boole_int_def)

lemma log_op_canon: "opn < 16 \<Longrightarrow> log_op g opn (canon x) (map canon ys) = canon (foldl (boole_int opn) x ys)"
  by (induction ys arbitrary: x) (simp_all add: boole_canon)

lemma lognot_canon: "mk_cl_lognot g (canon x) = canon (NOT x)"
  using boole_canon [of 6 x "- 1"]
  by (simp add: mk_cl_lognot_def bool_op_numbers boole_int_def fixnum_operations_def word_op_defs)

lemma logbitp_canon:
  assumes "fixnum_range p \<or> (- (2 ^ nat p) \<le> x \<and> x < 2 ^ nat p)"
  shows "mk_cl_logbitp g (canon p) (canon x) = (if p < 0 then Inl NegativeIndex else Inr (bit x (nat p)))"
proof (cases p rule: canon_cases)
  case small
  note fixnum_bit_sign [simp]
  show ?thesis
    by (cases x rule: canon_cases)
      (use small in \<open>auto simp: mk_cl_logbitp_def not_less bit_iff_and_drop_bit_eq_1 [symmetric] and_one_eq odd_iff_mod_2_eq_one [symmetric] simp flip: bit_iff_odd_drop_bit\<close>)
next
  case large
  then have "bit x (nat p) \<longleftrightarrow> x < 0" using bit_sign [of "nat p" x "nat p"] assms by auto
  moreover have "p < 0 \<or> \<not> p < 0" by simp
  ultimately show ?thesis using large by (cases x rule: canon_cases) (auto simp: mk_cl_logbitp_def)
qed

lemma ash_canon:
  "mkcl_ash g (canon n) w =
    canon (if 0 < w \<and> w < 62 \<and> MOST_NEGATIVE_FIXNUM \<le> n \<and> n < MOST_NEGATIVE_FIXNUM + 2 ^ nat (61 - w)
           then (n - MOST_NEGATIVE_FIXNUM) * 2 ^ nat w
           else if 0 \<le> w then n * 2 ^ nat w else n div 2 ^ nat (- w))"
proof (cases n rule: canon_cases)
  case large
  have no: "\<not> (0 < w \<and> w < 62 \<and> MOST_NEGATIVE_FIXNUM \<le> n \<and> n < MOST_NEGATIVE_FIXNUM + 2 ^ nat (61 - w))"
  proof
    assume *: "0 < w \<and> w < 62 \<and> MOST_NEGATIVE_FIXNUM \<le> n \<and> n < MOST_NEGATIVE_FIXNUM + 2 ^ nat (61 - w)"
    then have "(2 :: int) ^ nat (61 - w) \<le> 2 ^ 61" by (intro power_increasing) auto
    then show False using * large(2) by (simp add: fixnum_range_def MOST_POSITIVE_FIXNUM_def MOST_NEGATIVE_FIXNUM_def)
  qed
  show ?thesis unfolding if_not_P [OF no] using large
    by (cases "w = 0") (simp_all add: push_bit_eq_mult drop_bit_eq_div)
next
  case small
  consider "w = 0" | "w < 0" "64 \<le> nat (- w)" | "w < 0" "\<not> 64 \<le> nat (- w)" | "62 \<le> w" | "0 < w" "w < 62" by linarith
  then show ?thesis
  proof cases
    case 2
    then have "drop_bit (nat (- w)) n = (if n < 0 then - 1 else 0)"
      using fixnum_bit_sign [OF small(2)] by (auto simp: bit_eq_iff bit_simps)
    then show ?thesis using 2 small by (simp add: drop_bit_eq_div)
  next
    case 3
    have "(0 :: int) < 2 ^ nat (- w)" by simp
    then have "(2 :: int) ^ nat (- w) \<noteq> - 1" by linarith
    then show ?thesis using 3 small fixnum_div [OF small(2), of "2 ^ nat (- w)"]
      by (simp add: drop_bit_eq_div make_fixnum_canon)
  next
    case 5
    have m: "MKCL_MAKE_FIXNUM (word_of_int n) AND shift_out_mask (nat w) = 0 \<longleftrightarrow> take_bit 61 n < 2 ^ (61 - nat w)"
      using 5 by (intro masked_bits) auto
    have range: "MOST_NEGATIVE_FIXNUM \<le> n" "n \<le> MOST_POSITIVE_FIXNUM" "(2 :: int) ^ (61 - nat w) \<le> 2 ^ 61"
      using small(2) power_increasing [of "61 - nat w" 61 "2 :: int"] by (simp_all add: fixnum_range_def)
    have e: "nat (61 - w) = 61 - nat w" using 5 by simp
    show ?thesis
    proof (cases "take_bit 61 n < 2 ^ (61 - nat w)")
      case True
      then have "mkcl_ash g (canon n) w = canon (take_bit 61 n * 2 ^ nat w)"
        using 5 small m shifted_fixnum [OF small(2) _ _ True] by simp
      then show ?thesis using True 5 range take_61 [OF small(2)]
        by (auto simp: e MOST_NEGATIVE_FIXNUM_def MOST_POSITIVE_FIXNUM_def split: if_splits)
    next
      case False
      then show ?thesis using 5 small m range take_61 [OF small(2)]
        by (auto simp: e push_bit_eq_mult MOST_NEGATIVE_FIXNUM_def MOST_POSITIVE_FIXNUM_def split: if_splits)
    qed
  qed (use small in \<open>simp_all add: push_bit_eq_mult\<close>)
qed

lemma count_bits_canon: "count_bits g (canon n) = card {k. bit n k \<noteq> (n < 0)}"
proof -
  have "{k. bit n k \<noteq> (n < 0)} = {k. bit (if n < 0 then NOT n else n) k}" by (auto simp: bit_simps)
  moreover have "0 \<le> (if n < 0 then NOT n else n)" by (simp add: not_int_def)
  ultimately have "ones (nat (if n < 0 then NOT n else n)) = card {k. bit n k \<noteq> (n < 0)}" by (simp add: ones_int del: ones.simps)
  then show ?thesis
    by (cases n rule: canon_cases) (auto simp: count_bits_ones ones_int not_int_def sgn_if split: if_splits)
qed

lemma integer_length_canon:
  assumes "L = digits (nat (if n < 0 then NOT n else n))" and "L < 2 ^ 31"
  shows "mkcl_integer_length g (canon n) = Inr L"
proof -
  have i: "int_to_index L = L"
    using assms(2) signed_take_bit_int_eq_self_iff [of 31 "int L"] take_bit_int_eq_self_iff [of 64 "int L"] by (simp add: int_to_index_def)
  show ?thesis
  proof (cases n rule: canon_cases)
    case small
    let ?m = "if n < 0 then NOT n else n"
    have "nat ?m < 2 ^ 61" using small(2) by (auto simp: fixnum_range_def MOST_POSITIVE_FIXNUM_def MOST_NEGATIVE_FIXNUM_def not_int_def)
    then have "digits (nat ?m) \<le> 61" by (rule digits_le)
    then show ?thesis using small i assms(1) bit_length_digits [of 0 "nat ?m"] by (simp add: mkcl_word_bit_length_def)
  next
    case large
    have big: "canon (NOT n) = Big (NOT n)" if "n < 0"
      using large(2) that by (auto simp: canon_def fixnum_range_def MOST_POSITIVE_FIXNUM_def MOST_NEGATIVE_FIXNUM_def not_int_def)
    have "mpz_sizeinbase2 g m = digits (nat m)" if "0 < m" for m
      using gmp that digits_unique [of "nat m" "mpz_sizeinbase2 g m"] by (simp add: gmp_ok_def nat_less_iff le_nat_iff)
    moreover have "n \<noteq> 0" "n \<noteq> - 1" using large(2) fixnum_range_small by metis+
    moreover from this have "0 < - n - 1 \<or> \<not> n < 0" by linarith
    ultimately show ?thesis using large i assms(1) big lognot_canon [of n] by (auto simp: not_int_def)
  qed
qed

end

text \<open>The length of an integer of at least \<open>2 ^ 31\<close> bits is wrong.\<close>

lemma length_truncated: "int_to_index (2 ^ 31) = 2 ^ 64 - 2 ^ 31"
  by (simp add: int_to_index_def signed_take_bit_eq_if_negative)

text \<open>Shifted by one, the most negative fixnum becomes 0.\<close>

lemma ash_most_negative: "mkcl_ash g (Fix MOST_NEGATIVE_FIXNUM) 1 = Fix 0"
proof -
  have n: "fixnum_range MOST_NEGATIVE_FIXNUM" by (simp add: fixnum_range_def MOST_NEGATIVE_FIXNUM_def MOST_POSITIVE_FIXNUM_def)
  have "MOST_NEGATIVE_FIXNUM < 0" by (simp add: MOST_NEGATIVE_FIXNUM_def)
  then show ?thesis using masked_bits [of 1 MOST_NEGATIVE_FIXNUM] shifted_fixnum [of MOST_NEGATIVE_FIXNUM 1] take_61 [OF n] n
    by (simp add: canon_def)
qed

end
