(* ===== verification/Number_Text_Props.thy ===== *)
theory Number_Text_Props
  imports Number_Text String_Props Integer_Bit_Props
begin

text \<open>
  Printing an integer gives its digits, and reading them gives it back. The digits are those of
  \<open>fixed\<close>, a fixed number of them. The printer of bignums divides by powers of the base; it is right for numbers
  of moderate length (\<open>printable\<close>), and pads the remainder of longer ones with too many zeros.
\<close>

section \<open>Digits\<close>

definition dchar :: "nat \<Rightarrow> nat \<Rightarrow> nat" where
  "dchar b d = nat (mkcl_digit_char (int d) (int b))"

primrec fixed :: "nat \<Rightarrow> nat \<Rightarrow> nat \<Rightarrow> nat list" where
  "fixed b 0 n = []"
| "fixed b (Suc m) n = fixed b m (n div b) @ [dchar b (n mod b)]"

definition legal_base :: "nat \<Rightarrow> bool" where
  "legal_base b \<longleftrightarrow> 2 \<le> b \<and> b \<le> 36"

lemma length_fixed [simp]: "length (fixed b m n) = m"
  by (induction m arbitrary: n) simp_all

lemma dchar_0: "legal_base b \<Longrightarrow> dchar b 0 = 48"
  by (simp add: dchar_def mkcl_digit_char_def legal_base_def)

lemma dchar_value: "legal_base b \<Longrightarrow> d < b \<Longrightarrow> mkcl_digitp u (dchar b d) b = int d"
  using digit_round_trip [of "int b" "int d" u] by (simp add: dchar_def legal_base_def)

lemma dchar_range: "legal_base b \<Longrightarrow> d < b \<Longrightarrow> 48 \<le> dchar b d \<and> dchar b d < 256"
  by (auto simp: dchar_def mkcl_digit_char_def legal_base_def)

lemma fixed_add: "fixed b (l + m) n = fixed b l (n div b ^ m) @ fixed b m n"
  by (induction m arbitrary: n) (simp_all add: div_mult2_eq)

lemma fixed_mod: "fixed b m (n mod b ^ m) = fixed b m n"
proof (induction m arbitrary: n)
  case (Suc m)
  have "n mod (b * b ^ m) div b = n div b mod b ^ m"
    by (cases "b = 0") (simp_all add: mod_mult2_eq)
  moreover have "n mod (b * b ^ m) mod b = n mod b" by (simp add: mod_mod_cancel)
  ultimately show ?case using Suc [of "n div b"] by simp
qed simp

lemma fixed_zeros: "legal_base b \<Longrightarrow> fixed b m 0 = replicate m 48"
  by (induction m) (simp_all add: dchar_0 replicate_append_same)

lemma fixed_padded: "legal_base b \<Longrightarrow> n < b ^ m \<Longrightarrow> fixed b (l + m) n = replicate l 48 @ fixed b m n"
  by (simp add: fixed_add fixed_zeros)

lemma fixed_split: "fixed b l (n div b ^ m) @ fixed b m (n mod b ^ m) = fixed b (l + m) n"
  by (simp add: fixed_add fixed_mod)

lemma digits_in_pos [simp]: "digits_in b n \<noteq> 0" "0 < digits_in b n"
  by (subst digits_in.simps; simp)+

lemma digits_in_step: "2 \<le> b \<Longrightarrow> b \<le> n \<Longrightarrow> digits_in b n = Suc (digits_in b (n div b))"
  by (subst digits_in.simps) simp

lemma digits_in_single: "n < b \<Longrightarrow> digits_in b n = 1"
  by (subst digits_in.simps) simp

lemma digits_in_div: "2 \<le> b \<Longrightarrow> 0 < n div b ^ m \<Longrightarrow> digits_in b n = digits_in b (n div b ^ m) + m"
proof (induction m arbitrary: n)
  case (Suc m)
  have "n div b ^ Suc m = n div b div b ^ m" by (simp add: div_mult2_eq)
  moreover have "b \<le> n"
    using Suc.prems calculation by (metis div_less div_0 not_le less_irrefl)
  ultimately show ?case using Suc.IH [of "n div b"] Suc.prems digits_in_step [of b n] by simp
qed simp

lemma digits_in_le:
  assumes "2 \<le> b" "n < b ^ m" "0 < m"
  shows "digits_in b n \<le> m"
proof (cases "n = 0")
  case True
  then show ?thesis using assms by (simp add: digits_in_single)
next
  case False
  then have "b ^ (digits_in b n - 1) < b ^ m" using digits_in_bounds [OF assms(1)] assms(2) by (meson le_less_trans)
  then show ?thesis using assms by (simp add: power_strict_increasing_iff)
qed

section \<open>Printing fixnums\<close>

lemma digit_loop_fixed:
  assumes "legal_base b" "n < 2 ^ room" "0 < room"
  shows "digit_loop room b n = Inr (rev (fixed b (digits_in b n) n))"
  using assms(2,3)
proof (induction room arbitrary: n)
  case (Suc room)
  have b: "2 \<le> b" using assms(1) by (simp add: legal_base_def)
  show ?case
  proof (cases "n < b")
    case True
    then show ?thesis by (simp add: digits_in_single dchar_def Let_def)
  next
    case False
    have "n div b \<le> n div 2" using b by (simp add: div_le_mono2)
    then have "n div b < 2 ^ room" using Suc.prems by simp
    moreover have "0 < n div b" using False b by (simp add: div_greater_zero_iff)
    ultimately have "digit_loop room b (n div b) = Inr (rev (fixed b (digits_in b (n div b)) (n div b)))"
      by (intro Suc.IH) (auto intro: gr0I)
    then show ?thesis using \<open>0 < n div b\<close> False b by (simp add: digits_in_step dchar_def Let_def)
  qed
qed simp

text \<open>At least \<open>len\<close> digits, and at least those the number needs.\<close>

definition numeral_text :: "nat \<Rightarrow> nat \<Rightarrow> nat \<Rightarrow> nat list" where
  "numeral_text b len n = fixed b (max len (digits_in b n)) n"

lemma write_positive_fixnum_text:
  assumes "legal_base b" "n < 2 ^ 64"
  shows "write_positive_fixnum n b len = Inr (numeral_text b len n)"
proof -
  have b: "2 \<le> b" using assms(1) by (simp add: legal_base_def)
  have "(if n = 0 then Inr [48] else digit_loop 64 b n) = Inr (rev (fixed b (digits_in b n) n))"
    using digit_loop_fixed [OF assms(1), of n 64] assms b by (simp add: digits_in_single dchar_0)
  moreover have "fixed b (max len (digits_in b n)) n = replicate (len - digits_in b n) 48 @ fixed b (digits_in b n) n"
  proof -
    have "n < b ^ digits_in b n"
      using digits_in_bounds [OF b, of n] b by (cases "n = 0") auto
    then show ?thesis using fixed_padded [OF assms(1), of n "digits_in b n" "len - digits_in b n"]
      by (cases "len \<le> digits_in b n") (simp_all add: max_def)
  qed
  ultimately show ?thesis by (simp add: write_positive_fixnum_def numeral_text_def)
qed

section \<open>Printing bignums\<close>

definition power_entries :: "nat \<Rightarrow> nat \<Rightarrow> powers list" where
  "power_entries b n =
     map (\<lambda>k. \<lparr>pw_number = Z (canon (int b ^ 2 ^ k)), pw_n_digits = 2 ^ k, pw_base = b\<rparr>) (rev [0..<n])"

lemma power_entries_Suc:
  "power_entries b (Suc n) =
     \<lparr>pw_number = Z (canon (int b ^ 2 ^ n)), pw_n_digits = 2 ^ n, pw_base = b\<rparr> # power_entries b n"
  by (simp add: power_entries_def)

lemma canon_fixnum: "fixnum_range n \<Longrightarrow> canon n = Fix n"
  by (simp add: canon_def)

lemma fixnum_range_nat: "fixnum_range (int n) \<longleftrightarrow> n < 2 ^ 61"
  by (auto simp: fixnum_range_values)

lemma small_power:
  assumes "legal_base b" "b ^ 2 ^ n \<le> (2 :: nat) ^ 61"
  shows "(2 :: nat) ^ n \<le> 61"
proof -
  have "(2 :: nat) ^ 2 ^ n \<le> b ^ 2 ^ n" using assms(1) by (intro power_mono) (simp_all add: legal_base_def)
  then have "(2 :: nat) ^ 2 ^ n \<le> 2 ^ 61" using assms(2) by linarith
  then show ?thesis by (rule power_le_imp_le_exp [rotated]) simp
qed

lemma div_mod_parts: "y < P \<Longrightarrow> (q * P + y) div P = q" "y < P \<Longrightarrow> (q * P + y) mod P = (y :: nat)"
  by (cases "P = 0"; simp)+

lemma base_square_small: "legal_base b \<Longrightarrow> b ^ 2 \<le> 1296"
  using power_mono [of b 36 2] by (simp add: legal_base_def)

context gmp_library
begin

lemma compare_naturals: "mkcl_number_compare g (Z (canon (int x))) (Z (canon (int y))) < 0 \<longleftrightarrow> x < y"
  using compare_int_canon by simp

lemma floor2_naturals:
  assumes "0 < y"
  shows "mkcl_floor2 g (Z (canon (int x))) (Z (canon (int y))) = Inr (canon (int (x div y)), Z (canon (int (x mod y))))"
  using assms by (simp add: mkcl_floor2_def floor_int_canon zdiv_int zmod_int)

lemma write_fixnum_entries:
  assumes "legal_base b" "x < 2 ^ 61" "0 < n"
  shows "do_write_integer g (Z (canon (int x))) (power_entries b n) len = Inr (numeral_text b len x)"
proof -
  obtain m where n: "n = Suc m" using assms(3) by (cases n) auto
  have "canon (int x) = Fix (int x)" using assms(2) by (simp add: canon_def fixnum_range_nat)
  then show ?thesis
    using assms(2) write_positive_fixnum_text [OF assms(1), of x len] by (simp add: n power_entries_Suc)
qed

lemma write_bignum_step:
  assumes "\<not> x < 2 ^ 61" "2 \<le> b"
  shows "do_write_integer g (Z (canon (int x))) (power_entries b (Suc n)) len =
    (if x < b ^ 2 ^ n then
       and_then (if len \<noteq> 0 then write_positive_fixnum 0 b len else Inr []) (\<lambda>zeros.
       and_then (do_write_integer g (Z (canon (int x))) (power_entries b n) len) (\<lambda>ds. Inr (zeros @ ds)))
     else
       and_then (do_write_integer g (Z (canon (int (x div b ^ 2 ^ n)))) (power_entries b n)
           (if len \<noteq> 0 then nat ((int len - 2 ^ n) mod 2 ^ 64) else 0)) (\<lambda>ds.
       and_then (do_write_integer g (Z (canon (int (x mod b ^ 2 ^ n)))) (power_entries b n) (2 ^ n)) (\<lambda>ds'. Inr (ds @ ds'))))"
proof -
  have big: "canon (int x) = Big (int x)" using assms(1) by (simp add: canon_def fixnum_range_nat)
  have p: "int b ^ 2 ^ n = int (b ^ 2 ^ n)" by simp
  have "mkcl_floor2 g (Z (Big (int x))) (Z (canon (int (b ^ 2 ^ n))))
      = Inr (canon (int (x div b ^ 2 ^ n)), Z (canon (int (x mod b ^ 2 ^ n))))"
    using floor2_naturals [of "b ^ 2 ^ n" x] assms(2) by (simp add: big)
  moreover have "mkcl_number_compare g (Z (Big (int x))) (Z (canon (int (b ^ 2 ^ n)))) < 0 \<longleftrightarrow> x < b ^ 2 ^ n"
    using compare_naturals [of x "b ^ 2 ^ n"] by (simp only: big)
  ultimately show ?thesis
    unfolding power_entries_Suc big p by (simp only: do_write_integer.simps powers.simps rnum.case zint.case)
      (simp add: Let_def)
qed

text \<open>A remainder is padded right when the next power is no larger than the fixnums.\<close>

lemma write_padded:
  assumes "legal_base b" "x < b ^ 2 ^ Suc n" "b ^ 2 ^ n \<le> 2 ^ 61"
  shows "do_write_integer g (Z (canon (int x))) (power_entries b (Suc n)) (2 ^ Suc n) = Inr (fixed b (2 ^ Suc n) x)"
proof -
  have b: "2 \<le> b" using assms(1) by (simp add: legal_base_def)
  show ?thesis
  proof (cases "x < 2 ^ 61")
    case True
    have "digits_in b x \<le> 2 ^ Suc n" using digits_in_le [OF b assms(2)] by simp
    then show ?thesis using write_fixnum_entries [OF assms(1) True, of "Suc n"] by (simp add: numeral_text_def max_def)
  next
    case False
    have n: "0 < n" using assms(1,2) False base_square_small [OF assms(1)] by (cases n) auto
    let ?p = "b ^ 2 ^ n"
    have p: "0 < ?p" using b by simp
    have "x < ?p * ?p" using assms(2) by (simp add: power2_eq_square [symmetric] power_mult [symmetric] mult.commute)
    then have parts: "x div ?p < ?p" "x mod ?p < ?p" using p by (simp_all add: less_mult_imp_div_less)
    have small: "x div ?p < 2 ^ 61" "x mod ?p < 2 ^ 61" using parts assms(3) by linarith+
    have "(2 :: nat) ^ n \<le> 61" using small_power [OF assms(1,3)] .
    then have "int (2 ^ n) \<le> int 61" by (simp only: of_nat_le_iff)
    then have "(2 :: int) ^ n < 2 ^ 64" by simp
    then have len: "nat ((int (2 ^ Suc n) - 2 ^ n) mod 2 ^ 64) = 2 ^ n" by simp
    have d: "digits_in b (x div ?p) \<le> 2 ^ n" "digits_in b (x mod ?p) \<le> 2 ^ n"
      using digits_in_le [OF b parts(1)] digits_in_le [OF b parts(2)] by simp_all
    have "do_write_integer g (Z (canon (int (x div ?p)))) (power_entries b n) (2 ^ n) = Inr (fixed b (2 ^ n) (x div ?p))"
      "do_write_integer g (Z (canon (int (x mod ?p)))) (power_entries b n) (2 ^ n) = Inr (fixed b (2 ^ n) (x mod ?p))"
      using write_fixnum_entries [OF assms(1) small(1) n] write_fixnum_entries [OF assms(1) small(2) n] d
      by (simp_all add: numeral_text_def max_def)
    moreover have "\<not> x < ?p" using False assms(3) by linarith
    ultimately show ?thesis
      using fixed_split [of b "2 ^ n" x "2 ^ n"] by (simp only: write_bignum_step [OF False b] len) (simp add: mult_2)
  qed
qed

lemma write_unpadded:
  assumes "legal_base b" "0 < n" "x < b ^ 2 ^ n" "2 \<le> n \<longrightarrow> b ^ 2 ^ (n - 2) \<le> 2 ^ 61"
  shows "do_write_integer g (Z (canon (int x))) (power_entries b n) 0 = Inr (numeral_text b 0 x)"
  using assms(2-4)
proof (induction n arbitrary: x)
  case (Suc m)
  have b: "2 \<le> b" using assms(1) by (simp add: legal_base_def)
  show ?case
  proof (cases "x < 2 ^ 61")
    case True
    then show ?thesis using write_fixnum_entries [OF assms(1)] by simp
  next
    case False
    have "m \<noteq> 0" using False Suc.prems(2) base_square_small [OF assms(1)] by (cases m) auto
    then obtain n where m: "m = Suc n" by (cases m) auto
    let ?p = "b ^ 2 ^ m"
    have c: "b ^ 2 ^ n \<le> 2 ^ 61" using Suc.prems(3) by (simp add: m)
    have c': "2 \<le> m \<longrightarrow> b ^ 2 ^ (m - 2) \<le> 2 ^ 61"
    proof
      assume "2 \<le> m"
      have "b ^ 2 ^ (m - 2) \<le> b ^ 2 ^ n" using b by (intro power_increasing) (simp_all add: m)
      then show "b ^ 2 ^ (m - 2) \<le> 2 ^ 61" using c by linarith
    qed
    show ?thesis
    proof (cases "x < ?p")
      case True
      then show ?thesis using Suc.IH [OF _ True c'] by (simp add: write_bignum_step [OF False b] m)
    next
      case large: False
      have p: "0 < ?p" using b by simp
      have "x < ?p * ?p" using Suc.prems(2) by (simp add: power2_eq_square [symmetric] power_mult [symmetric] mult.commute)
      then have parts: "x div ?p < ?p" "x mod ?p < ?p" using p by (simp_all add: less_mult_imp_div_less)
      have pos: "0 < x div ?p" using large p by (simp add: div_greater_zero_iff)
      have "do_write_integer g (Z (canon (int (x div ?p)))) (power_entries b m) 0 = Inr (numeral_text b 0 (x div ?p))"
        by (rule Suc.IH [OF _ parts(1) c']) (simp add: m)
      moreover have "do_write_integer g (Z (canon (int (x mod ?p)))) (power_entries b m) (2 ^ m) = Inr (fixed b (2 ^ m) (x mod ?p))"
        using write_padded [OF assms(1) _ c] parts(2) by (simp add: m)
      moreover have "numeral_text b 0 (x div ?p) @ fixed b (2 ^ m) (x mod ?p) = numeral_text b 0 x"
        using fixed_split [of b "digits_in b (x div ?p)" x "2 ^ m"] digits_in_div [OF b pos] by (simp add: numeral_text_def)
      ultimately show ?thesis using large by (simp add: write_bignum_step [OF False b])
    qed
  qed
qed simp

lemma fill_powers_entries:
  "fill_powers g b count (Z (canon (int b ^ 2 ^ k))) (2 ^ k)
    = Inr (map (\<lambda>j. \<lparr>pw_number = Z (canon (int b ^ 2 ^ j)), pw_n_digits = 2 ^ j, pw_base = b\<rparr>) [Suc k..<Suc k + count])"
proof (induction count arbitrary: k)
  case (Suc count)
  have "int b ^ 2 ^ k * int b ^ 2 ^ k = int b ^ 2 ^ Suc k" by (simp add: power_add [symmetric] mult_2)
  then show ?case using Suc [of "Suc k"] upt_rec [of "Suc k" "Suc k + Suc count"] by simp
qed simp

text \<open>The number of powers, and their array.\<close>

lemma number_of_powers:
  assumes b: "legal_base b" and n: "\<not> fixnum_range n" and k: "k \<le> 62"
    and x: "nat \<bar>n\<bar> < b ^ (2 ^ k - 1)"
  defines "c \<equiv> mkcl_word_bit_length (int (mpz_sizeinbase g n b) - 1)"
  shows "0 < c" "c \<le> k" "nat \<bar>n\<bar> < b ^ 2 ^ c"
proof -
  define s where "s = mpz_sizeinbase g n b"
  have b2: "2 \<le> b" using b by (simp add: legal_base_def)
  have n0: "n \<noteq> 0" using n by (auto simp: fixnum_range_values)
  have "int b ^ (s - 2) \<le> \<bar>n\<bar>" "\<bar>n\<bar> < int b ^ s"
    using gmp n0 b2 by (simp_all add: gmp_ok_def s_def)
  then have "int (b ^ (s - 2)) \<le> int (nat \<bar>n\<bar>)" "int (nat \<bar>n\<bar>) < int (b ^ s)" by simp_all
  then have s: "b ^ (s - 2) \<le> nat \<bar>n\<bar>" "nat \<bar>n\<bar> < b ^ s" by (simp_all only: of_nat_le_iff of_nat_less_iff)
  have "\<not> nat \<bar>n\<bar> < 2 ^ 61" using n by (auto simp: fixnum_range_values)
  then have s1: "1 < s" using s(2) b by (cases "s \<le> 1") (auto simp: legal_base_def le_Suc_eq)
  have "b ^ (s - 2) < b ^ (2 ^ k - 1)" using s(1) x by linarith
  then have "s - 2 < 2 ^ k - 1" using b2 by (simp add: power_strict_increasing_iff)
  then have sk: "s - 1 < 2 ^ k" by linarith
  have ds: "s - 1 < 2 ^ digits (s - 1)" "2 ^ (digits (s - 1) - 1) \<le> s - 1" using digits_bounds [of "s - 1"] s1 by auto
  have "(2 :: nat) ^ (digits (s - 1) - 1) < 2 ^ k" using ds(2) sk by linarith
  then have dk: "digits (s - 1) \<le> k" by (simp add: power_strict_increasing_iff)
  have "nat (int s - 1) = s - 1" by (simp add: nat_diff_distrib)
  then have c: "c = digits (s - 1)"
    using s1 dk k bit_length_digits [of 0 "s - 1"] by (simp add: c_def s_def [symmetric] mkcl_word_bit_length_def)
  show "0 < c" using ds(1) s1 by (simp add: c) (metis gr0I less_one not_less_iff_gr_or_eq power_0 diff_is_0_eq not_le)
  show "c \<le> k" using dk by (simp add: c)
  have "b ^ s \<le> b ^ 2 ^ c" using ds(1) b2 by (intro power_increasing) (auto simp: c)
  then show "nat \<bar>n\<bar> < b ^ 2 ^ c" using s(2) by linarith
qed

lemma write_bignum_powers:
  assumes b: "legal_base b" and n: "\<not> fixnum_range n"
    and c: "c = mkcl_word_bit_length (int (mpz_sizeinbase g n b) - 1)" "0 < c"
  shows "write_bignum g b n = and_then (do_write_integer g (Z (canon (int (nat \<bar>n\<bar>)))) (power_entries b c) 0)
    (\<lambda>ds. Inr ((if n < 0 then [45] else []) @ ds))"
proof -
  have base: "make_fixnum (int b) = canon (int b)"
    using b by (intro make_fixnum_canon) (auto simp: legal_base_def fixnum_range_values)
  have "fill_powers g b (c - 1) (Z (canon (int b))) 1
      = Inr (map (\<lambda>j. \<lparr>pw_number = Z (canon (int b ^ 2 ^ j)), pw_n_digits = 2 ^ j, pw_base = b\<rparr>) [1..<c])"
    using fill_powers_entries [of b "c - 1" 0] c(2) by simp
  moreover have "rev (\<lparr>pw_number = Z (canon (int b)), pw_n_digits = 1, pw_base = b\<rparr> #
      map (\<lambda>j. \<lparr>pw_number = Z (canon (int b ^ 2 ^ j)), pw_n_digits = 2 ^ j, pw_base = b\<rparr>) [1..<c]) = power_entries b c"
    using upt_rec [of 0 c] c(2) by (simp add: power_entries_def rev_map [symmetric])
  moreover have "mkcl_minusp g (Z (Big n)) \<longleftrightarrow> n < 0" by simp
  moreover have "(if n < 0 then mkcl_negate g (Z (Big n)) else Z (Big n)) = Z (canon (int (nat \<bar>n\<bar>)))"
    using n negate_int_canon [of n] by (auto simp: canon_def)
  ultimately show ?thesis
    unfolding write_bignum_def Let_def c(1) [symmetric] base by (simp del: rev.simps)
qed

text \<open>
  Right are the numbers below \<open>b ^ (2 ^ k - 1)\<close>, where the power \<open>2 ^ (k - 2)\<close> of the base is no larger than the
  fixnums. In base 10 these are the numbers of at most 63 digits.
\<close>

lemma write_bignum_text:
  assumes b: "legal_base b" and n: "\<not> fixnum_range n" and k: "2 \<le> k" "b ^ 2 ^ (k - 2) \<le> 2 ^ 61"
    and x: "nat \<bar>n\<bar> < b ^ (2 ^ k - 1)"
  shows "write_bignum g b n = Inr ((if n < 0 then [45] else []) @ numeral_text b 0 (nat \<bar>n\<bar>))"
proof -
  define c where "c = mkcl_word_bit_length (int (mpz_sizeinbase g n b) - 1)"
  have "k - 2 < 61" using small_power [OF b k(2)] less_exp [of "k - 2"] by linarith
  then have "k \<le> 62" by linarith
  note c = number_of_powers [OF b n this x, folded c_def]
  have "2 \<le> c \<longrightarrow> b ^ 2 ^ (c - 2) \<le> 2 ^ 61"
  proof
    assume "2 \<le> c"
    have "b ^ 2 ^ (c - 2) \<le> b ^ 2 ^ (k - 2)"
      using b c(2) by (intro power_increasing) (simp_all add: power_increasing diff_le_mono legal_base_def)
    then show "b ^ 2 ^ (c - 2) \<le> 2 ^ 61" using k(2) by linarith
  qed
  then show ?thesis
    using write_unpadded [OF b c(1,3)] write_bignum_powers [OF b n c_def c(1)] by simp
qed

text \<open>
  A remainder that is no fixnum and smaller than the next power is preceded by all the zeros of its length, and
  then padded as well.
\<close>

lemma write_padded_twice:
  assumes b: "legal_base b" and y: "\<not> y < 2 ^ 61" "y < b ^ 2 ^ Suc m" and m: "b ^ 2 ^ m \<le> 2 ^ 61"
  shows "do_write_integer g (Z (canon (int y))) (power_entries b (Suc (Suc m))) (2 ^ Suc (Suc m))
    = Inr (replicate (2 ^ Suc (Suc m)) 48 @ fixed b (2 ^ Suc (Suc m)) y)"
proof -
  let ?p = "b ^ 2 ^ m" and ?len = "2 ^ Suc (Suc m) :: nat"
  have b2: "2 \<le> b" using b by (simp add: legal_base_def)
  have p: "0 < ?p" "\<not> y < ?p" using b2 y(1) m by auto
  have "y < ?p * ?p" using y(2) by (simp add: power2_eq_square [symmetric] power_mult [symmetric] mult.commute)
  then have parts: "y div ?p < ?p" "y mod ?p < ?p" using p by (simp_all add: less_mult_imp_div_less)
  have small: "y div ?p < 2 ^ 61" "y mod ?p < 2 ^ 61" using parts m by linarith+
  have m0: "0 < m" using y base_square_small [OF b] by (cases m) auto
  have d: "digits_in b (y div ?p) \<le> 2 ^ m" "digits_in b (y mod ?p) \<le> 2 ^ m"
    using digits_in_le [OF b2 parts(1)] digits_in_le [OF b2 parts(2)] by simp_all
  have "(2 :: nat) ^ m \<le> 61" using small_power [OF b m] .
  then have "int (2 ^ m) \<le> int 61" by (simp only: of_nat_le_iff)
  then have len: "nat ((int ?len - 2 ^ m) mod 2 ^ 64) = 3 * 2 ^ m" by (simp add: nat_mult_distrib nat_power_eq)
  have one: "max ?len 1 = ?len" by (rule max_absorb1) (rule one_le_power, simp)
  have zeros: "write_positive_fixnum 0 b ?len = Inr (replicate ?len 48)"
    using write_positive_fixnum_text [OF b, of 0 ?len] b2
    by (simp only: numeral_text_def digits_in_single fixed_zeros [OF b] one) simp
  have "do_write_integer g (Z (canon (int y))) (power_entries b (Suc m)) ?len
      = Inr (fixed b (3 * 2 ^ m) (y div ?p) @ fixed b (2 ^ m) (y mod ?p))"
    using write_fixnum_entries [OF b small(1) m0, of "3 * 2 ^ m"] write_fixnum_entries [OF b small(2) m0, of "2 ^ m"] d p(2)
    by (simp only: write_bignum_step [OF y(1) b2] len) (simp add: numeral_text_def max_absorb1)
  then show ?thesis
    using y(2) fixed_split [of b "3 * 2 ^ m" y "2 ^ m"]
    by (simp only: write_bignum_step [OF y(1) b2, of "Suc m"] zeros) simp
qed

lemma write_bignum_wrong:
  assumes b: "legal_base b" and y: "\<not> y < 2 ^ 61" "y < b ^ 2 ^ Suc m" and m: "b ^ 2 ^ m \<le> 2 ^ 61" and q: "0 < q" "q < 2 ^ 61"
    and x: "q * b ^ 2 ^ Suc (Suc m) + y < b ^ (2 ^ Suc (Suc (Suc m)) - 1)"
  shows "write_bignum g b (int (q * b ^ 2 ^ Suc (Suc m) + y))
    = Inr (numeral_text b 0 q @ replicate (2 ^ Suc (Suc m)) 48 @ fixed b (2 ^ Suc (Suc m)) y)"
proof -
  let ?p = "b ^ 2 ^ Suc (Suc m)" and ?k = "Suc (Suc (Suc m))"
  define n where "n = int (q * ?p + y)"
  define c where "c = mkcl_word_bit_length (int (mpz_sizeinbase g n b) - 1)"
  have b2: "2 \<le> b" using b by (simp add: legal_base_def)
  have n: "\<not> fixnum_range n" "nat \<bar>n\<bar> = q * ?p + y" "\<not> n < 0"
    using y(1) unfolding n_def fixnum_range_nat by (simp_all only: abs_of_nat nat_int)
  have "m < 61" using small_power [OF b m] less_exp [of m] by linarith
  then have k: "?k \<le> 62 \<or> m = 60" by linarith
  have "m \<noteq> 60" using small_power [OF b m] by auto
  then have "?k \<le> 62" using k by simp
  note c = number_of_powers [OF b n(1) this, folded c_def, unfolded n(2), OF x]
  have "?p \<le> q * ?p + y" using q(1) by (simp add: trans_le_add1)
  then have "?p < b ^ 2 ^ c" using c(3) by linarith
  then have "(2 :: nat) ^ Suc (Suc m) < 2 ^ c" using b2 by (simp only: power_strict_increasing_iff)
  then have "Suc (Suc m) < c" by (simp only: power_strict_increasing_iff)
  then have ck: "c = ?k" using c(2) by simp
  have "b ^ 2 ^ Suc m \<le> ?p" using b2 by (intro power_increasing) simp_all
  then have yp: "y < ?p" using y(2) by linarith
  note parts = div_mod_parts [OF yp]
  have "\<not> q * ?p + y < 2 ^ 61" using y(1) by linarith
  note step = write_bignum_step [OF this b2, of "Suc (Suc m)" 0]
  have "\<not> q * ?p + y < ?p" using \<open>?p \<le> q * ?p + y\<close> by linarith
  then have "do_write_integer g (Z (canon (int (q * ?p + y)))) (power_entries b ?k) 0
      = Inr (numeral_text b 0 q @ replicate (2 ^ Suc (Suc m)) 48 @ fixed b (2 ^ Suc (Suc m)) y)"
    using write_fixnum_entries [OF b q(2), of "Suc (Suc m)" 0] write_padded_twice [OF b y m]
    by (simp only: step parts if_False) simp
  then show ?thesis
    using write_bignum_powers [OF b n(1) c_def c(1)] n(2,3) by (simp only: ck n_def [symmetric]) simp
qed

end

section \<open>Reading digits\<close>

text \<open>The texts of integers and ratios.\<close>

definition int_text :: "nat \<Rightarrow> int \<Rightarrow> nat list" where
  "int_text b n = (if n < 0 then [45] else []) @ numeral_text b 0 (nat \<bar>n\<bar>)"

definition rat_text :: "nat \<Rightarrow> rat \<Rightarrow> nat list" where
  "rat_text b r = (case quotient_of r of (n, d) \<Rightarrow> if d = 1 then int_text b n else int_text b n @ 47 # int_text b d)"

text \<open>The numbers the printer is known to print right: fixnums, and bignums below a bound that depends on the base.\<close>

definition printable :: "nat \<Rightarrow> int \<Rightarrow> bool" where
  "printable b n \<longleftrightarrow> fixnum_range n \<or> (\<exists>k \<in> {2..8}. b ^ 2 ^ (k - 2) \<le> 2 ^ 61 \<and> nat \<bar>n\<bar> < b ^ (2 ^ k - 1))"

definition digit_text :: "ucd \<Rightarrow> nat \<Rightarrow> nat list \<Rightarrow> bool" where
  "digit_text u b cs \<longleftrightarrow> list_all (\<lambda>c. 0 \<le> mkcl_digitp u c b \<and> 48 \<le> c) cs"

definition horner :: "ucd \<Rightarrow> nat \<Rightarrow> int \<Rightarrow> nat list \<Rightarrow> int" where
  "horner u b n cs = foldl (\<lambda>a c. a * int b + mkcl_digitp u c b) n cs"

lemma digit_text_simps [simp]:
  "digit_text u b []" "digit_text u b (c # cs) \<longleftrightarrow> 0 \<le> mkcl_digitp u c b \<and> 48 \<le> c \<and> digit_text u b cs"
  "digit_text u b (cs @ ds) \<longleftrightarrow> digit_text u b cs \<and> digit_text u b ds"
  by (auto simp: digit_text_def)

lemma horner_simps [simp]:
  "horner u b n [] = n" "horner u b n (c # cs) = horner u b (n * int b + mkcl_digitp u c b) cs"
  "horner u b n (cs @ ds) = horner u b (horner u b n cs) ds"
  by (simp_all add: horner_def)

lemma digit_text_fixed: "legal_base b \<Longrightarrow> digit_text u b (fixed b m n)"
  using dchar_range by (induction m arbitrary: n) (auto simp: dchar_value legal_base_def)

lemma horner_fixed: "legal_base b \<Longrightarrow> horner u b a (fixed b m n) = a * int b ^ m + int (n mod b ^ m)"
proof (induction m arbitrary: n)
  case (Suc m)
  have "n mod (b * b ^ m) = b * (n div b mod b ^ m) + n mod b" by (simp add: mod_mult2_eq)
  then show ?case
    using Suc dchar_value [of b "n mod b" u] by (simp add: legal_base_def algebra_simps)
qed simp

lemma numeral_text_properties:
  assumes "legal_base b"
  shows "digit_text u b (numeral_text b 0 n)" "horner u b 0 (numeral_text b 0 n) = int n" "numeral_text b 0 n \<noteq> []"
    "48 \<le> numeral_text b 0 n ! 0"
proof -
  have b: "2 \<le> b" using assms by (simp add: legal_base_def)
  show dt: "digit_text u b (numeral_text b 0 n)" using digit_text_fixed [OF assms] by (simp add: numeral_text_def)
  have "n < b ^ digits_in b n" using digits_in_bounds [OF b, of n] b by (cases "n = 0") auto
  then show "horner u b 0 (numeral_text b 0 n) = int n" using horner_fixed [OF assms] by (simp add: numeral_text_def)
  show ne: "numeral_text b 0 n \<noteq> []"
    using length_fixed [of b "digits_in b n" n] by (auto simp: numeral_text_def simp del: length_fixed)
  show "48 \<le> numeral_text b 0 n ! 0" using dt ne by (cases "numeral_text b 0 n") auto
qed

context gmp_library
begin

lemma digit_step:
  assumes "0 \<le> mkcl_digitp u c r"
  shows "mpz_add_ui g (mpz_mul_ui g n (int r)) (mkcl_digitp u c r) = n * int r + mkcl_digitp u c r"
  using assms by simp

lemma integer_loop_digits:
  assumes "i \<le> j" "j \<le> e" "e \<le> st_dim str" "st_dim str \<le> length (st_self str)" "digit_text u r (subrange (st_self str) i j)"
  shows "integer_loop g u str i e r n = integer_loop g u str j e r (horner u r n (subrange (st_self str) i j))"
  using assms
proof (induction "j - i" arbitrary: i n)
  case 0
  then show ?case by (simp add: text_simps)
next
  case (Suc k)
  then have i: "i < j" by linarith
  have p: "subrange (st_self str) i j = st_self str ! i # subrange (st_self str) (Suc i) j"
    using Suc.prems i by (intro subrange_step) auto
  have c: "mkcl_char str i = Inr (st_self str ! i)" using Suc.prems i by (simp add: mkcl_char_def)
  show ?case
    using Suc.hyps(1) [of "Suc i"] Suc.hyps(2) Suc.prems i p
    by (subst integer_loop.simps) (simp add: c Let_def digit_step)
qed

lemma number_loop_digits:
  assumes "i \<le> j" "j \<le> e" "e \<le> st_dim str" "st_dim str \<le> length (st_self str)" "digit_text u r (subrange (st_self str) i j)"
  shows "number_loop g u str i e r sign decimal n = number_loop g u str j e r sign decimal (horner u r n (subrange (st_self str) i j))"
  using assms
proof (induction "j - i" arbitrary: i n)
  case 0
  then show ?case by (simp add: text_simps)
next
  case (Suc k)
  then have i: "i < j" by linarith
  have p: "subrange (st_self str) i j = st_self str ! i # subrange (st_self str) (Suc i) j"
    using Suc.prems i by (intro subrange_step) auto
  have c: "mkcl_char str i = Inr (st_self str ! i)" using Suc.prems i by (simp add: mkcl_char_def)
  have d: "st_self str ! i \<noteq> 47" "st_self str ! i \<noteq> 46" using Suc.prems(5) by (auto simp: p)
  show ?case
    using Suc.hyps(1) [of "Suc i"] Suc.hyps(2) Suc.prems i p d
    by (subst number_loop.simps) (simp add: c Let_def digit_step)
qed

text \<open>Reading the digits of a number from \<open>i\<close> to the end.\<close>

lemma parse_integer_text:
  assumes "legal_base b" "subrange (st_self str) i e = numeral_text b 0 n" "i < e" "e \<le> st_dim str" "st_dim str \<le> length (st_self str)"
  shows "mkcl_parse_integer g u str i e b = Inr (Some (canon (int n)), e)"
proof -
  note nt = numeral_text_properties [OF assms(1)]
  have c: "mkcl_char str i = Inr (st_self str ! i)" using assms by (simp add: mkcl_char_def)
  have "subrange (st_self str) i e ! 0 = st_self str ! i" using subrange_step [of i e "st_self str"] assms(3-5) by simp
  then have "48 \<le> st_self str ! i" using nt(4) [of n] assms(2) by simp
  moreover have "integer_loop g u str i e b 0 = Inr (int n, e)"
    using integer_loop_digits [of i e e str u b 0] assms nt(1) [of u n] nt(2) [of u n]
    by (simp add: integer_loop.simps [of g u str e e])
  ultimately show ?thesis
    using assms by (simp add: mkcl_parse_integer_def c legal_base_def)
qed

text \<open>After the sign and the digits of an integer; what follows is up to the rest of the text.\<close>

lemma parse_pass_text:
  assumes b: "legal_base b" and str: "st_self str = int_text b n @ rest" "e \<le> st_dim str" "st_dim str \<le> length (st_self str)"
    and e: "length (int_text b n) \<le> e"
  shows "parse_pass g u str 0 e b
    = number_loop g u str (length (int_text b n)) e b (if n < 0 then - 1 else 1) e \<bar>n\<bar>"
proof -
  let ?m = "numeral_text b 0 (nat \<bar>n\<bar>)" and ?i = "if n < 0 then 1 else 0 :: nat"
  note nt = numeral_text_properties [OF b]
  have len: "length (int_text b n) = ?i + length ?m" "0 < length ?m" using nt(3) by (auto simp: int_text_def)
  have p: "subrange (st_self str) ?i (?i + length ?m) = ?m" by (simp add: subrange_def str(1) int_text_def)
  have m0: "st_self str ! ?i = ?m ! 0" using len(2) by (simp add: str(1) int_text_def nth_append)
  have dim: "?i < st_dim str" "0 < st_dim str" using e len str(2) by linarith+
  then have c: "mkcl_char str ?i = Inr (?m ! 0)" by (simp add: mkcl_char_def m0)
  have c0: "mkcl_char str 0 = Inr (if n < 0 then 45 else ?m ! 0)"
    using dim(2) len(2) str(1) by (auto simp: mkcl_char_def int_text_def nth_append)
  have "number_loop g u str ?i e b s e 0 = number_loop g u str (?i + length ?m) e b s e \<bar>n\<bar>" for s
  proof -
    have "?i + length ?m \<le> e" using e len(1) by simp
    from number_loop_digits [OF le_add1 this str(2,3), unfolded p, OF nt(1), of u s e 0] show ?thesis by (simp only: nt(2)) simp
  qed
  moreover have "?m ! 0 \<notin> {43, 45, 47}" using nt(4) [of "nat \<bar>n\<bar>"] by auto
  ultimately show ?thesis
    using c c0 e len unfolding parse_pass_def by (cases "n < 0") (auto simp: Let_def)
qed

lemma read_integer_text:
  assumes b: "legal_base b" and str: "st_self str = int_text b n @ rest" "length (int_text b n) \<le> st_dim str"
      "st_dim str \<le> length (st_self str)"
  shows "mkcl_parse_number g u str 0 (length (int_text b n)) b = Inr (Exact (Z (canon n)), length (int_text b n))"
proof -
  have "int_text b n \<noteq> []" using numeral_text_properties(3) [OF b] by (simp add: int_text_def)
  then show ?thesis
    using b parse_pass_text [OF b str(1,2,3), where u = u]
    by (auto simp: mkcl_parse_number_def number_loop.simps [of g u str "length (int_text b n)"] legal_base_def)
qed

lemma read_ratio_text:
  assumes b: "legal_base b" and d: "0 < d"
    and str: "st_self str = int_text b n @ 47 # int_text b d @ rest" "st_dim str \<le> length (st_self str)"
    and e: "e = length (int_text b n @ 47 # int_text b d)" "e \<le> st_dim str"
  shows "mkcl_parse_number g u str 0 e b = Inr (Exact (rat_canon (of_int n / of_int d)), e)"
proof -
  let ?i = "length (int_text b n)"
  have d_text: "int_text b d = numeral_text b 0 (nat d)" using d by (simp add: int_text_def)
  note nt = numeral_text_properties [OF b]
  have p: "subrange (st_self str) (Suc ?i) e = numeral_text b 0 (nat d)" by (simp add: subrange_def str(1) e(1) d_text)
  have i: "Suc ?i < e" using nt(3) [of "nat d"] by (simp add: e(1) d_text)
  have c: "mkcl_char str ?i = Inr 47" using i e(2) by (simp add: mkcl_char_def str(1))
  have c': "mkcl_char str (Suc ?i) = Inr (numeral_text b 0 (nat d) ! 0)"
    using i e(2) nt(3) [of "nat d"] by (auto simp: mkcl_char_def str(1) d_text nth_append)
  have "0 \<le> mkcl_digitp u (numeral_text b 0 (nat d) ! 0) b"
    using nt(1) [of u "nat d"] nt(3) [of "nat d"] by (cases "numeral_text b 0 (nat d)") auto
  moreover have "mkcl_parse_integer g u str (Suc ?i) e b = Inr (Some (canon d), e)"
    using parse_integer_text [OF b p i e(2) str(2)] d by simp
  moreover have "canon d \<noteq> make_fixnum 0" using d by simp
  ultimately have "parse_ratio g u str (Suc ?i) e b (canon n) = Inr (Done (Exact (rat_canon (of_int n / of_int d))) e)"
    using d by (simp add: parse_ratio_def c' make_ratio_canon)
  moreover have "parse_pass g u str 0 e b = number_loop g u str ?i e b (if n < 0 then - 1 else 1) e \<bar>n\<bar>"
    using i by (intro parse_pass_text [OF b str(1) e(2) str(2)]) simp
  ultimately show ?thesis
    using b i by (auto simp: mkcl_parse_number_def number_loop.simps [of g u str ?i] c legal_base_def)
qed

lemma write_integer_text:
  assumes "legal_base b" "printable b n"
  shows "write_integer g False b (canon n) = Inr (int_text b n)"
proof (cases "fixnum_range n")
  case True
  then have small: "nat \<bar>n\<bar> < 2 ^ 64" by (auto simp: fixnum_range_values)
  have "numeral_text b 0 0 = [48]"
    using assms(1) by (simp add: numeral_text_def digits_in_single dchar_0 legal_base_def)
  then show ?thesis
    using True write_positive_fixnum_text [OF assms(1) small, of 0]
    by (cases "n = 0") (auto simp: canon_fixnum int_text_def)
next
  case False
  then obtain k where "2 \<le> k" "b ^ 2 ^ (k - 2) \<le> 2 ^ 61" "nat \<bar>n\<bar> < b ^ (2 ^ k - 1)"
    using assms(2) by (auto simp: printable_def)
  then show ?thesis
    using write_bignum_text [OF assms(1) False] False by (simp add: canon_def int_text_def)
qed

lemma write_number_text:
  assumes "legal_base b" "printable b (fst (quotient_of r))" "printable b (snd (quotient_of r))"
  shows "write_number g False (Fix (int b)) (rat_canon r) = Inr (rat_text b r)"
  using assms write_integer_text [OF assms(1)]
  by (cases "quotient_of r") (auto simp: rat_canon_def rat_text_def mkcl_print_base_def legal_base_def)

lemma read_number_text:
  assumes "legal_base b" "st_self str = rat_text b r @ rest" "length (rat_text b r) \<le> st_dim str"
    "st_dim str \<le> length (st_self str)"
  shows "mkcl_parse_number g u str 0 (length (rat_text b r)) b = Inr (Exact (rat_canon r), length (rat_text b r))"
proof -
  obtain n d where q: "quotient_of r = (n, d)" by fastforce
  have d: "0 < d" "r = of_int n / of_int d" using q quotient_of_denom_pos quotient_of_div by blast+
  show ?thesis
  proof (cases "d = 1")
    case True
    then have t: "rat_text b r = int_text b n" "rat_canon r = Z (canon n)" using q by (simp_all add: rat_text_def rat_canon_def)
    show ?thesis using read_integer_text [OF assms(1), of str n rest u] assms unfolding t by blast
  next
    case False
    then have t: "rat_text b r = int_text b n @ 47 # int_text b d" using q by (simp add: rat_text_def)
    show ?thesis
      using read_ratio_text [OF assms(1) d(1) _ assms(4) refl, of n rest u] assms(2,3)
      unfolding t d(2) [symmetric] by (simp add: t)
  qed
qed

text \<open>The text of a long number can be that of another number.\<close>

lemma write_bignum_other:
  assumes b: "legal_base b" and y: "\<not> y < 2 ^ 61" "y < b ^ 2 ^ Suc m" and m: "b ^ 2 ^ m \<le> 2 ^ 61" and q: "0 < q" "q < 2 ^ 61"
    and x: "q * b ^ 2 ^ Suc (Suc m) + y < b ^ (2 ^ Suc (Suc (Suc m)) - 1)"
  shows "write_bignum g b (int (q * b ^ 2 ^ Suc (Suc m) + y)) = Inr (int_text b (int (q * b ^ 2 ^ Suc (Suc (Suc m)) + y)))"
proof -
  define l where "l = (2 :: nat) ^ Suc (Suc m)"
  have b2: "2 \<le> b" using b by (simp add: legal_base_def)
  have l2: "(2 :: nat) ^ Suc (Suc (Suc m)) = l + l" by (simp add: l_def)
  have "b ^ 2 ^ Suc m \<le> b ^ l" using b2 unfolding l_def by (intro power_increasing) simp_all
  then have yl: "y < b ^ l" using y(2) by linarith
  have "b ^ l \<le> b ^ (l + l)" using b2 by (intro power_increasing) simp_all
  then have "y < b ^ (l + l)" using yl by linarith
  note parts = div_mod_parts [OF this]
  have "numeral_text b 0 q @ replicate l 48 @ fixed b l y = fixed b (digits_in b q) q @ fixed b (l + l) y"
    using fixed_padded [OF b yl] by (simp add: numeral_text_def)
  also have "\<dots> = numeral_text b 0 (q * b ^ (l + l) + y)"
    using fixed_split [of b "digits_in b q" "q * b ^ (l + l) + y" "l + l"] q(1)
      digits_in_div [OF b2, of "q * b ^ (l + l) + y" "l + l"]
    unfolding numeral_text_def parts by simp
  also have "\<dots> = int_text b (int (q * b ^ (l + l) + y))" by (simp only: int_text_def abs_of_nat nat_int of_nat_less_0_iff if_False append_Nil)
  finally show ?thesis
    using write_bignum_wrong [OF b y m q x] unfolding l2 l_def [symmetric] by simp
qed

end

section \<open>Names of characters\<close>

lemma hex_digit_value: "d < 16 \<Longrightarrow> mkcl_digitp u (hex_digit d) 16 = int d"
  by (auto simp: hex_digit_def mkcl_digitp_def)

lemma hex_digits_text: "digit_text u 16 (hex_digits n code) \<and> horner u 16 a (hex_digits n code) = a * 16 ^ n + int (code mod 16 ^ n)"
proof (induction n arbitrary: a)
  case (Suc n)
  have h: "hex_digits (Suc n) code = hex_digit (code div 16 ^ n mod 16) # hex_digits n code" by (simp add: hex_digits_def)
  have "int (code mod 16 ^ Suc n) = int (code div 16 ^ n mod 16) * 16 ^ n + int (code mod 16 ^ n)"
    using mod_mult2_eq [of code "16 ^ n" 16] by (simp add: mult.commute)
  moreover have "48 \<le> hex_digit (code div 16 ^ n mod 16)" by (simp add: hex_digit_def)
  ultimately show ?case using Suc hex_digit_value [of "code div 16 ^ n mod 16" u] by (simp add: h algebra_simps)
qed (simp add: hex_digits_def)

lemma length_hex_digits [simp]: "length (hex_digits n code) = n"
  by (simp add: hex_digits_def)

context gmp_library
begin

text \<open>A character above the base characters that has no name of its own is found by the name made for it.\<close>

lemma name_char_of_char_name:
  assumes "256 < code" "code < MKCL_CHAR_CODE_LIMIT" "ext_names code = None"
    "mk_cl_char_name base_names ext_names code = Some name" "base_codes name = None" "ext_codes name = None"
  shows "mk_cl_name_char g u base_codes ext_codes (simple_string True name) = Inr (Some code)"
proof -
  define n where "n = (if code < 0x10000 then 4 else 6 :: nat)"
  have name: "name = 85 # hex_digits n code" using assms(1,3,4) by (auto simp: mk_cl_char_name_def MKCL_BASE_CHAR_CODE_LIMIT_def n_def)
  have n: "0 < n" "code mod 16 ^ n = code" using assms(2) by (auto simp: n_def MKCL_CHAR_CODE_LIMIT_def)
  let ?s = "simple_string True name"
  have p: "subrange (85 # hex_digits n code @ [0]) (Suc 0) (Suc n) = hex_digits n code" by (simp add: subrange_def)
  have "integer_loop g u ?s 1 (Suc n) 16 0 = Inr (int code, Suc n)"
    using integer_loop_digits [of 1 "Suc n" "Suc n" ?s u 16 0] hex_digits_text [of u n code 0] n
    by (simp add: p name integer_loop.simps [of g u _ "Suc n"])
  moreover have "mkcl_char ?s 1 = Inr (hex_digits n code ! 0)" using n by (simp add: mkcl_char_def name nth_append)
  moreover have "48 \<le> hex_digits n code ! 0"
    using n(1) hex_digits_text [of u n code 0] length_hex_digits [of n code] by (cases "hex_digits n code") auto
  moreover have "canon (int code) = Fix (int code)"
    using assms(2) by (intro canon_fixnum) (simp add: fixnum_range_nat MKCL_CHAR_CODE_LIMIT_def)
  ultimately have "mkcl_parse_integer g u ?s 1 (Suc n) 16 = Inr (Some (Fix (int code)), Suc n)"
    using n by (simp add: mkcl_parse_integer_def Let_def)
  then show ?thesis
    using assms(2,5,6) n
    by (simp add: mk_cl_name_char_def contents_simple name mkcl_char_def MKCL_CHAR_CODE_LIMIT_def)
qed

end

text \<open>A sign and a decimal point are read as the integer 0.\<close>

lemma sign_and_point_is_zero:
  "mkcl_parse_number int_gmp u (simple_string True [43, 46]) 0 2 10 = Inr (Exact (Z (Fix 0)), 2)"
  by (simp add: mkcl_parse_number_def parse_pass_def mkcl_char_def number_loop.simps [of _ _ _ "Suc 0"]
      number_loop.simps [of _ _ _ "Suc (Suc 0)"] number_loop.simps [of _ _ _ 2] numeral_2_eq_2 [symmetric] canon_def)

end
