(* ===== verification/Array_Props.thy ===== *)
theory Array_Props
  imports Arrays
begin

text \<open>
  What the array operations do. The invariant \<open>heap_ok\<close> says that every array lies within its block;
  every operation keeps it, and then no access to an element leaves a block. Arrays that are
  displaced share their elements.
\<close>

section \<open>Subscripts\<close>

fun row_major :: "nat \<Rightarrow> nat list \<Rightarrow> nat list \<Rightarrow> nat" where
  "row_major j (dim # dims) (s # ss) = row_major (j * dim + s) dims ss"
| "row_major j _ _ = j"

lemma subscript_iff:
  "array_subscript dim v = Inr s \<longleftrightarrow> v = LInt (int s) \<and> s < dim \<and> fixnum_range (int s)"
  by (auto simp: array_subscript_def mkcl_fixnum_in_range_def and_then_Inr split: lval.splits if_splits)

lemma step_bound:
  assumes "s < dim"
  shows "Suc (j * dim + s) * p \<le> Suc j * (dim * p)"
proof -
  have "Suc (j * dim + s) \<le> Suc j * dim" using assms by simp
  then have "Suc (j * dim + s) * p \<le> Suc j * dim * p" by (rule mult_le_mono1)
  then show ?thesis by (simp only: mult.assoc)
qed

lemma row_major_bound:
  "list_all2 (<) ss dims \<Longrightarrow> row_major j dims ss < Suc j * prod_list dims"
proof (induction j dims ss rule: row_major.induct)
  case (1 j dim dims s ss)
  then have s: "s < dim" and IH: "row_major (j * dim + s) dims ss < Suc (j * dim + s) * prod_list dims" by auto
  show ?case using less_le_trans [OF IH step_bound [OF s]] by simp
qed auto

lemma row_major_split:
  "length ss = length dims \<Longrightarrow> row_major j dims ss = j * prod_list dims + row_major 0 dims ss"
proof (induction dims arbitrary: j ss)
  case (Cons dim dims)
  then obtain s ss' where ss: "ss = s # ss'" "length ss' = length dims" by (cases ss) auto
  show ?case using Cons.IH [OF ss(2), of "j * dim + s"] Cons.IH [OF ss(2), of s] by (simp add: ss algebra_simps)
qed simp

lemma row_major_inject:
  "list_all2 (<) ss dims \<Longrightarrow> list_all2 (<) ts dims \<Longrightarrow> row_major 0 dims ss = row_major 0 dims ts \<Longrightarrow> ss = ts"
proof (induction dims arbitrary: ss ts)
  case (Cons dim dims)
  obtain s ss' t ts' where ss: "ss = s # ss'" "ts = t # ts'" using Cons.prems by (auto simp: list_all2_Cons2)
  have l: "length ss' = length dims" "length ts' = length dims" using Cons.prems ss by (auto dest: list_all2_lengthD)
  have v: "list_all2 (<) ss' dims" "list_all2 (<) ts' dims" using Cons.prems ss by auto
  have b: "row_major 0 dims ss' < prod_list dims" "row_major 0 dims ts' < prod_list dims"
    using row_major_bound [OF v(1), of 0] row_major_bound [OF v(2), of 0] by simp_all
  have e: "s * prod_list dims + row_major 0 dims ss' = t * prod_list dims + row_major 0 dims ts'"
    using Cons.prems(3) row_major_split [OF l(1), of s] row_major_split [OF l(2), of t] by (simp add: ss)
  have "s = t" using arg_cong [OF e, of "\<lambda>n. n div prod_list dims"] b by (simp add: div_mult_self3)
  then show ?case using Cons.IH [OF v] e ss by simp
qed auto

text \<open>As long as the size of the array is a machine word the loop does not wrap around.\<close>

lemma row_major_loop_ok:
  assumes "length vs = length dims" and "Suc j * prod_list dims \<le> 2 ^ 64" and "row_major_loop j dims vs = Inr k"
  shows "\<exists>ss. vs = map (\<lambda>s. LInt (int s)) ss \<and> list_all2 (<) ss dims \<and> k = row_major j dims ss"
  using assms
proof (induction j dims vs rule: row_major_loop.induct)
  case (1 j dim dims v vs)
  obtain s where s: "array_subscript dim v = Inr s" "row_major_loop (wrap (j * dim + s)) dims vs = Inr k"
    using 1(4) by (auto simp: and_then_Inr)
  have sd: "s < dim" "v = LInt (int s)" using s(1) by (simp_all add: subscript_iff)
  have le: "Suc (j * dim + s) * prod_list dims \<le> 2 ^ 64"
    using le_trans [OF step_bound [OF sd(1)]] 1(3) by simp
  show ?case
  proof (cases "prod_list dims = 0")
    case True
    then have "0 \<in> set dims" by (simp add: prod_list_zero_iff)
    then have "\<not> list_all2 (<) ss dims" for ss by (auto simp: list_all2_conv_all_nth in_set_conv_nth)
    moreover have "\<exists>ss. list_all2 (<) ss dims"
      using 1(1) [of s] s(2) 1(2) True by auto
    ultimately show ?thesis by blast
  next
    case False
    then have "Suc (j * dim + s) \<le> 2 ^ 64" using le by (metis One_nat_def Suc_leI le_trans mult_le_mono2 nat_mult_1_right neq0_conv)
    then have w: "wrap (j * dim + s) = j * dim + s" by (simp add: wrap_def)
    obtain ss where "vs = map (\<lambda>s. LInt (int s)) ss" "list_all2 (<) ss dims" "k = row_major (j * dim + s) dims ss"
      using 1(1) [of s] s(2) 1(2) le unfolding w by auto
    then show ?thesis using sd by (intro exI [of _ "s # ss"]) simp
  qed
qed auto

lemma row_major_loop_valid:
  assumes "list_all2 (<) ss dims" and "\<forall>s \<in> set ss. fixnum_range (int s)" and "Suc j * prod_list dims \<le> 2 ^ 64"
  shows "row_major_loop j dims (map (\<lambda>s. LInt (int s)) ss) = Inr (row_major j dims ss)"
  using assms
proof (induction j dims ss rule: row_major.induct)
  case (1 j dim dims s ss)
  have s: "s < dim" "array_subscript dim (LInt (int s)) = Inr s" using 1 by (simp_all add: subscript_iff)
  have p: "0 < prod_list dims" using row_major_bound [of ss dims 0] 1(2) by (cases "prod_list dims") auto
  have le: "Suc (j * dim + s) * prod_list dims \<le> 2 ^ 64"
    using le_trans [OF step_bound [OF s(1)]] 1(4) by simp
  then have "Suc (j * dim + s) \<le> 2 ^ 64" using p by (metis One_nat_def Suc_leI le_trans mult_le_mono2 nat_mult_1_right)
  then have "wrap (j * dim + s) = j * dim + s" by (simp add: wrap_def)
  then show ?case using 1 s le by simp
qed auto

text \<open>The size of a new array.\<close>

lemma dimensions_loop_ok:
  "dimensions_loop s vs = Inr (t, js) \<Longrightarrow> s \<le> MKCL_ATOTLIM \<Longrightarrow> t = s * prod_list js \<and> t \<le> MKCL_ATOTLIM"
proof (induction s vs arbitrary: t js rule: dimensions_loop.induct)
  case (2 s v vs)
  then obtain j js' where j: "mkcl_fixnum_in_range v 0 (int MKCL_ADIMLIM) = Inr j" "\<not> (s \<noteq> 0 \<and> MKCL_ATOTLIM div s < nat j)"
      "dimensions_loop (wrap (s * nat j)) vs = Inr (t, js')" "js = nat j # js'"
    by (auto simp: and_then_Inr split: if_splits)
  have le: "s * nat j \<le> MKCL_ATOTLIM"
  proof (cases "s = 0")
    case False
    then have "nat j \<le> MKCL_ATOTLIM div s" using j(2) by simp
    then have "s * nat j \<le> s * (MKCL_ATOTLIM div s)" by simp
    also have "\<dots> \<le> MKCL_ATOTLIM" by simp
    finally show ?thesis .
  qed simp
  then have "wrap (s * nat j) = s * nat j" by (simp add: wrap_def MKCL_ATOTLIM_def MOST_POSITIVE_FIXNUM_def)
  then show ?case using 2(1) [OF j(2)] j(3,4) le by simp
qed auto

section \<open>The invariant\<close>

text \<open>An array lies in its block, and its fill pointer in the array.\<close>

definition arr_ok :: "lval list list \<Rightarrow> nat \<Rightarrow> arr \<Rightarrow> bool" where
  "arr_ok bs n a \<longleftrightarrow> a_fillp a \<le> a_dim a \<and> a_dim a \<le> MKCL_ATOTLIM \<and> a_bit_offset a < 8
     \<and> (a_kind a = Array_t \<longrightarrow> a_dim a = prod_list (a_dims a))
     \<and> (a_kind a \<noteq> Array_t \<longrightarrow> a_kind a = kind_for (a_elttype a))
     \<and> (a_elttype a \<noteq> aet_nil \<longrightarrow> a_block a < length bs \<and> position a (a_dim a) \<le> length (bs ! a_block a))
     \<and> (\<forall>l ds. a_displaced a = Some (l, ds) \<longrightarrow> (\<forall>d \<in> set ds. d < n) \<and> (\<forall>t. l = Some (ArrayLink t) \<longrightarrow> t < n))"

definition heap_ok :: "aheap \<Rightarrow> bool" where
  "heap_ok w \<longleftrightarrow> (\<forall>a \<in> set (arrs w). arr_ok (blocks w) (length (arrs w)) a)"

lemma heap_okD: "heap_ok w \<Longrightarrow> x < length (arrs w) \<Longrightarrow> arr_ok (blocks w) (length (arrs w)) (arr_at w x)"
  by (simp add: heap_ok_def)

lemma position_mono: "i < j \<Longrightarrow> position a i < position a j"
  by (simp add: position_def)

lemma upd_arr_simps [simp]:
  "length (arrs (upd_arr x f w)) = length (arrs w)" "blocks (upd_arr x f w) = blocks w"
  "x < length (arrs w) \<Longrightarrow> arr_at (upd_arr x f w) x = f (arr_at w x)"
  "x \<noteq> y \<Longrightarrow> arr_at (upd_arr x f w) y = arr_at w y"
  by (simp_all add: upd_arr_def)

lemma heap_ok_upd:
  assumes "heap_ok w" and "x < length (arrs w) \<Longrightarrow> arr_ok (blocks w) (length (arrs w)) (f (arr_at w x))"
  shows "heap_ok (upd_arr x f w)"
proof (cases "x < length (arrs w)")
  case True
  then show ?thesis using assms set_update_subset_insert [of "arrs w" x "f (arr_at w x)"]
    by (auto simp: heap_ok_def upd_arr_def)
next
  case False
  then show ?thesis using assms(1) by (simp add: upd_arr_def list_update_beyond)
qed

text \<open>Blocks keep their length, so that writing keeps the invariant.\<close>

lemma arr_ok_blocks:
  assumes "arr_ok bs n a" and "\<And>b. b < length bs \<Longrightarrow> b < length bs' \<and> length (bs ! b) \<le> length (bs' ! b)" and "n \<le> n'"
  shows "arr_ok bs' n' a"
proof -
  have "a_elttype a \<noteq> aet_nil \<longrightarrow> a_block a < length bs' \<and> position a (a_dim a) \<le> length (bs' ! a_block a)"
    using assms(1) assms(2) [of "a_block a"] by (auto simp: arr_ok_def)
  then show ?thesis using assms(1,3) by (fastforce simp: arr_ok_def)
qed

lemma read_block_ok:
  assumes "arr_ok (blocks w) n a" and "i < a_dim a" and "a_elttype a \<noteq> aet_nil"
  shows "read_block w (a_block a) (position a i) = Inr (blocks w ! a_block a ! position a i)"
  using assms position_mono [OF assms(2), of a] by (simp add: arr_ok_def read_block_def)

lemma write_block_ok:
  assumes "arr_ok (blocks w) n a" and "i < a_dim a" and "a_elttype a \<noteq> aet_nil"
  shows "write_block w (a_block a) (position a i) v =
    Inr (w\<lparr>blocks := (blocks w)[a_block a := (blocks w ! a_block a)[position a i := v]]\<rparr>)"
  using assms position_mono [OF assms(2), of a] by (simp add: arr_ok_def write_block_def)

text \<open>What an operation that only writes elements does.\<close>

definition same_shape :: "aheap \<Rightarrow> aheap \<Rightarrow> bool" where
  "same_shape w w' \<longleftrightarrow> arrs w' = arrs w \<and> map length (blocks w') = map length (blocks w)"

lemma same_shape_trans: "same_shape w w' \<Longrightarrow> same_shape w' w'' \<Longrightarrow> same_shape w w''"
  by (simp add: same_shape_def)

lemma same_shape_ok:
  assumes "same_shape w w'" and "heap_ok w"
  shows "heap_ok w'"
proof -
  have a: "arrs w' = arrs w" and l: "length (blocks w') = length (blocks w)"
    using assms(1) map_eq_imp_length_eq by (auto simp: same_shape_def)
  have b: "length (blocks w' ! b) = length (blocks w ! b)" if "b < length (blocks w)" for b
    using assms(1) l that unfolding same_shape_def by (metis nth_map)
  show ?thesis
    using assms(2) arr_ok_blocks [of "blocks w" "length (arrs w)" _ "blocks w'" "length (arrs w)"] a l b
    by (auto simp: heap_ok_def)
qed

lemma write_shape: "write_block w b p v = Inr w' \<Longrightarrow> same_shape w w'"
  by (auto simp: write_block_def same_shape_def map_update list_update_same_conv split: if_splits)

lemma same_shape_refl [simp]: "same_shape w w"
  by (simp add: same_shape_def)

lemma aset_shape: "mkcl_aset_index cv w x i v = Inr w' \<Longrightarrow> same_shape w w'"
  by (auto simp: mkcl_aset_index_def Let_def and_then_Inr split: if_splits dest: write_shape)

section \<open>Reading and writing\<close>

lemma aref_ok:
  assumes "heap_ok w" and "x < length (arrs w)"
  shows "mkcl_aref_index w x i =
    (if a_elttype (arr_at w x) = aet_nil then Inr (LObj Cnil)
     else if i < a_dim (arr_at w x) then Inr (blocks w ! a_block (arr_at w x) ! position (arr_at w x) i) else Inl OutOfBounds)"
  using read_block_ok [OF heap_okD [OF assms]] by (simp add: mkcl_aref_index_def Let_def)

text \<open>A value stored is read back through every array that has the element, and no other element changes.\<close>

lemma aset_aref:
  assumes ok: "heap_ok w" and x: "x < length (arrs w)" and y: "y < length (arrs w)"
    and s: "mkcl_aset_index cv w x i v = Inr w'" and nil: "a_elttype (arr_at w x) \<noteq> aet_nil" "a_elttype (arr_at w y) \<noteq> aet_nil"
    and k: "k < a_dim (arr_at w y)"
  shows "\<exists>e. store_elt cv (arr_at w x) v = Inr e \<and> i < a_dim (arr_at w x)
    \<and> mkcl_aref_index w' y k =
      (if a_block (arr_at w y) = a_block (arr_at w x) \<and> position (arr_at w y) k = position (arr_at w x) i then Inr e
       else mkcl_aref_index w y k)"
proof -
  let ?a = "arr_at w x" and ?b = "arr_at w y"
  obtain e where e: "store_elt cv ?a v = Inr e" "i < a_dim ?a" "write_block w (a_block ?a) (position ?a i) e = Inr w'"
    using s nil(1) by (auto simp: mkcl_aset_index_def Let_def and_then_Inr split: if_splits)
  have w': "w' = w\<lparr>blocks := (blocks w)[a_block ?a := (blocks w ! a_block ?a)[position ?a i := e]]\<rparr>"
    using e(3) write_block_ok [OF heap_okD [OF ok x] e(2) nil(1), of e] by simp
  have ok': "heap_ok w'" using same_shape_ok [OF write_shape [OF e(3)] ok] .
  have pa: "a_block ?a < length (blocks w)" "position ?a i < length (blocks w ! a_block ?a)"
    using heap_okD [OF ok x] nil(1) position_mono [OF e(2), of ?a] by (simp_all add: arr_ok_def)
  have "mkcl_aref_index w' y k = Inr (blocks w' ! a_block ?b ! position ?b k)"
    using aref_ok [OF ok', of y k] y k nil(2) by (simp add: w')
  moreover have "mkcl_aref_index w y k = Inr (blocks w ! a_block ?b ! position ?b k)"
    using aref_ok [OF ok y, of k] k nil(2) by simp
  moreover have "blocks w' ! a_block ?b ! position ?b k =
      (if a_block ?b = a_block ?a \<and> position ?b k = position ?a i then e else blocks w ! a_block ?b ! position ?b k)"
    using pa by (auto simp: w' nth_list_update)
  ultimately show ?thesis using e by auto
qed

section \<open>Displacement\<close>

text \<open>The header alone, without the pointer.\<close>

definition header_ok :: "arr \<Rightarrow> bool" where
  "header_ok a \<longleftrightarrow> a_fillp a \<le> a_dim a \<and> a_dim a \<le> MKCL_ATOTLIM \<and> a_bit_offset a < 8
     \<and> (a_kind a = Array_t \<longrightarrow> a_dim a = prod_list (a_dims a)) \<and> (a_kind a \<noteq> Array_t \<longrightarrow> a_kind a = kind_for (a_elttype a))"

definition ok_except :: "nat \<Rightarrow> aheap \<Rightarrow> bool" where
  "ok_except x w \<longleftrightarrow> (\<forall>y < length (arrs w). y \<noteq> x \<longrightarrow> arr_ok (blocks w) (length (arrs w)) (arr_at w y))"

lemma heap_ok_except: "heap_ok w \<Longrightarrow> ok_except x w"
  by (simp add: heap_ok_def ok_except_def)

lemma heap_ok_from_except:
  "ok_except x w \<Longrightarrow> arr_ok (blocks w) (length (arrs w)) (arr_at w x) \<Longrightarrow> heap_ok w"
  unfolding heap_ok_def ok_except_def by (metis in_set_conv_nth)

lemma arr_ok_header: "arr_ok bs n a \<Longrightarrow> header_ok a"
  by (simp add: arr_ok_def header_ok_def)

lemma displace_array:
  assumes "displace x (ArrayLink t) offset w = Inr w'"
  shows "\<exists>j. mkcl_fixnum_in_range offset 0 (int (a_dim (arr_at w t)) - int (a_dim (arr_at w x))) = Inr (int j)
    \<and> j + a_dim (arr_at w x) \<le> a_dim (arr_at w t) \<and> a_elttype (arr_at w t) = a_elttype (arr_at w x)
    \<and> a_elttype (arr_at w x) \<noteq> aet_nil \<and> w' = point_into x t j (link_arrays x t w)"
proof -
  obtain n where n: "mkcl_fixnum_in_range offset 0 (int (a_dim (arr_at w t)) - int (a_dim (arr_at w x))) = Inr n"
      "a_elttype (arr_at w t) = a_elttype (arr_at w x)" "a_elttype (arr_at w x) \<noteq> aet_nil"
      "w' = point_into x t (nat n) (link_arrays x t w)"
    using assms by (auto simp: displace_def and_then_Inr split: if_splits)
  then have "0 \<le> n" "n \<le> int (a_dim (arr_at w t)) - int (a_dim (arr_at w x))"
    by (auto simp: mkcl_fixnum_in_range_def split: lval.splits if_splits)
  with n show ?thesis by (intro exI [of _ "nat n"]) auto
qed

lemma link_arrays_simps [simp]:
  "length (arrs (link_arrays x to w)) = length (arrs w)" "blocks (link_arrays x to w) = blocks w"
  by (simp_all add: link_arrays_def)

text \<open>Linking changes the lists of displaced arrays only.\<close>

definition same_but_links :: "arr \<Rightarrow> arr \<Rightarrow> bool" where
  "same_but_links a b \<longleftrightarrow> a\<lparr>a_displaced := None\<rparr> = b\<lparr>a_displaced := None\<rparr>"

lemma same_but_links_fields:
  assumes "same_but_links a b"
  shows "a_kind a = a_kind b" "a_dims a = a_dims b" "a_dim a = a_dim b" "a_hasfillp a = a_hasfillp b" "a_fillp a = a_fillp b"
    "a_adjustable a = a_adjustable b" "a_elttype a = a_elttype b" "a_block a = a_block b" "a_offset a = a_offset b"
    "a_bit_offset a = a_bit_offset b" "position a = position b"
  using assms by (cases a; cases b; auto simp: same_but_links_def position_def fun_eq_iff)+

lemma link_arrays_at:
  assumes "x < length (arrs w)" and "to < length (arrs w)"
  shows "same_but_links (arr_at (link_arrays x to w) y) (arr_at w y)"
  using assms by (cases "y = to"; cases "y = x") (auto simp: link_arrays_def same_but_links_def split: option.splits)

lemma link_arrays_displaced:
  assumes "x < length (arrs w)" and "to < length (arrs w)" and "x \<noteq> to"
  shows "a_displaced (arr_at (link_arrays x to w) x) = Some (Some (ArrayLink to), [])"
    "dependents (arr_at (link_arrays x to w) to) = x # dependents (arr_at w to)"
  using assms by (auto simp: link_arrays_def dependents_def split: option.splits)

text \<open>After a displacement the two arrays share elements.\<close>

definition shares :: "arr \<Rightarrow> arr \<Rightarrow> nat \<Rightarrow> bool" where
  "shares a t j \<longleftrightarrow> a_block a = a_block t \<and> j + a_dim a \<le> a_dim t \<and> (\<forall>i. position a i = position t (i + j))"

lemma point_into_shares:
  assumes "x < length (arrs w)" and "x \<noteq> t \<or> j = 0" and "a_elttype (arr_at w t) = a_elttype (arr_at w x)"
    and "j + a_dim (arr_at w x) \<le> a_dim (arr_at w t)"
  shows "shares (arr_at (point_into x t j w) x) (arr_at w t) j"
proof -
  have "8 * ((j + b) div 8) + (i + (j + b) mod 8) = i + j + b" for i b :: nat
    using mult_div_mod_eq [of 8 "j + b"] by simp
  then have "8 * (q + (j + b) div 8) + (i + (j + b) mod 8) = 8 * q + (i + j + b)" for i b q :: nat
    by (simp add: distrib_left)
  then show ?thesis using assms by (auto simp: point_into_def Let_def shares_def position_def)
qed

lemma point_into_other:
  "y \<noteq> x \<Longrightarrow> arr_at (point_into x t j w) y = arr_at w y"
  "length (arrs (point_into x t j w)) = length (arrs w)" "blocks (point_into x t j w) = blocks w"
  by (simp_all add: point_into_def Let_def)

lemma point_into_header:
  assumes "x < length (arrs w)"
  shows "a_kind (arr_at (point_into x t j w) x) = a_kind (arr_at w x)"
    "a_dims (arr_at (point_into x t j w) x) = a_dims (arr_at w x)"
    "a_dim (arr_at (point_into x t j w) x) = a_dim (arr_at w x)"
    "a_fillp (arr_at (point_into x t j w) x) = a_fillp (arr_at w x)"
    "a_elttype (arr_at (point_into x t j w) x) = a_elttype (arr_at w x)"
    "a_displaced (arr_at (point_into x t j w) x) = a_displaced (arr_at w x)"
    "a_adjustable (arr_at (point_into x t j w) x) = a_adjustable (arr_at w x)"
  using assms by (simp_all add: point_into_def Let_def)

lemma link_arrays_other: "y \<noteq> x \<Longrightarrow> y \<noteq> to \<Longrightarrow> arr_at (link_arrays x to w) y = arr_at w y"
  by (simp add: link_arrays_def)

lemma arr_ok_relink:
  assumes "arr_ok bs n a" and "same_but_links b a"
    and "\<And>l ds. a_displaced b = Some (l, ds) \<Longrightarrow> (\<forall>d \<in> set ds. d < n) \<and> (\<forall>t. l = Some (ArrayLink t) \<longrightarrow> t < n)"
  shows "arr_ok bs n b"
  using assms(1,3) unfolding arr_ok_def by (simp add: same_but_links_fields [OF assms(2)])

lemma link_arrays_links:
  assumes "x < length (arrs w)" and "t < length (arrs w)" and "y = x \<or> arr_ok bs (length (arrs w)) (arr_at w y)"
    and "a_displaced (arr_at (link_arrays x t w) y) = Some (l, ds)"
  shows "(\<forall>d \<in> set ds. d < length (arrs w)) \<and> (\<forall>t. l = Some (ArrayLink t) \<longrightarrow> t < length (arrs w))"
  using assms
  by (cases "y = t"; cases "y = x") (auto simp: link_arrays_def arr_ok_def split: option.splits)

lemma displace_ok:
  assumes d: "displace x (ArrayLink t) offset w = Inr w'" and x: "x < length (arrs w)" and t: "t < length (arrs w)"
    and ok: "ok_except x w" and h: "header_ok (arr_at w x)"
    and tok: "arr_ok (blocks w) (length (arrs w)) (arr_at w t)"
  shows "heap_ok w'" "length (arrs w') = length (arrs w)" "blocks w' = blocks w"
proof -
  obtain j where j: "j + a_dim (arr_at w x) \<le> a_dim (arr_at w t)" "a_elttype (arr_at w t) = a_elttype (arr_at w x)"
      "a_elttype (arr_at w x) \<noteq> aet_nil" "w' = point_into x t j (link_arrays x t w)"
    using displace_array [OF d] by blast
  let ?w = "link_arrays x t w" and ?n = "length (arrs w)"
  note sl = same_but_links_fields [OF link_arrays_at [OF x t]]
  show len: "length (arrs w') = ?n" and bl: "blocks w' = blocks w" by (simp_all add: j(4) point_into_other)
  have links: "(\<forall>d \<in> set ds. d < ?n) \<and> (\<forall>t. l = Some (ArrayLink t) \<longrightarrow> t < ?n)"
    if "a_displaced (arr_at ?w y) = Some (l, ds)" "y < ?n" for y l ds
  proof -
    have "y = x \<or> arr_ok (blocks w) ?n (arr_at w y)" using ok that(2) unfolding ok_except_def by blast
    then show ?thesis by (rule link_arrays_links [OF x t _ that(1)])
  qed
  have tok': "arr_ok (blocks w) ?n (arr_at ?w t)"
    using arr_ok_relink [OF tok link_arrays_at [OF x t]] links t by blast
  have "shares (arr_at w' x) (arr_at ?w t) j"
    unfolding j(4) using x j by (intro point_into_shares) (auto simp: sl)
  then have p: "a_block (arr_at w' x) = a_block (arr_at ?w t)"
      "position (arr_at w' x) (a_dim (arr_at w' x)) \<le> position (arr_at ?w t) (a_dim (arr_at ?w t))"
    by (auto simp: shares_def position_def)
  have fields: "a_fillp (arr_at w' x) = a_fillp (arr_at w x)" "a_dim (arr_at w' x) = a_dim (arr_at w x)"
      "a_kind (arr_at w' x) = a_kind (arr_at w x)" "a_dims (arr_at w' x) = a_dims (arr_at w x)"
      "a_elttype (arr_at w' x) = a_elttype (arr_at w x)" "a_displaced (arr_at w' x) = a_displaced (arr_at ?w x)"
    using point_into_header [of x ?w t j] x by (simp_all add: j(4) sl)
  have bo: "a_bit_offset (arr_at w' x) < 8"
    using h x by (simp add: j(4) point_into_def Let_def header_ok_def sl)
  have from_ok: "arr_ok (blocks w) ?n (arr_at w' x)"
    using h p tok' j(2,3) bo links [OF _ x] unfolding arr_ok_def header_ok_def
    by (auto simp: fields sl intro: order_trans)
  have "arr_ok (blocks w) ?n (arr_at w' y)" if "y < ?n" "y \<noteq> x" for y
  proof -
    have "arr_at w' y = arr_at ?w y" using that(2) by (simp add: j(4) point_into_other)
    then show ?thesis
      using arr_ok_relink [OF _ link_arrays_at [OF x t], of "blocks w" ?n y] ok that links [OF _ that(1)] by (auto simp: ok_except_def)
  qed
  then show "heap_ok w'" using from_ok by (intro heap_ok_from_except [of x]) (simp_all add: ok_except_def len bl)
qed

section \<open>Every operation keeps the invariant\<close>

definition memory :: "fresh_memory \<Rightarrow> bool" where
  "memory fresh \<longleftrightarrow> (\<forall>aet n. length (fresh aet n) = n)"

lemma new_block_length: "memory fresh \<Longrightarrow> aet \<noteq> aet_nil \<Longrightarrow> d \<le> length (new_block fresh aet d)"
  by (cases aet) (auto simp: memory_def new_block_def)

lemma simple_block_length: "memory fresh \<Longrightarrow> aet \<noteq> aet_nil \<Longrightarrow> d \<le> length (simple_block fresh aet d)"
  using new_block_length [of fresh aet d] by (auto simp: simple_block_def memory_def)

text \<open>One more array, and perhaps one more block.\<close>

lemma ok_except_new:
  assumes "heap_ok w"
  shows "ok_except (length (arrs w)) (w\<lparr>arrs := arrs w @ [a], blocks := blocks w @ bs\<rparr>)"
  unfolding ok_except_def
proof (intro allI impI)
  fix y assume y: "y < length (arrs (w\<lparr>arrs := arrs w @ [a], blocks := blocks w @ bs\<rparr>))" "y \<noteq> length (arrs w)"
  then have "y < length (arrs w)" by simp
  then have "arr_ok (blocks w @ bs) (Suc (length (arrs w))) (arr_at w y)"
    by (intro arr_ok_blocks [OF heap_okD [OF assms]]) (auto simp: nth_append)
  then show "arr_ok (blocks (w\<lparr>arrs := arrs w @ [a], blocks := blocks w @ bs\<rparr>)) (length (arrs (w\<lparr>arrs := arrs w @ [a], blocks := blocks w @ bs\<rparr>)))
      (arr_at (w\<lparr>arrs := arrs w @ [a], blocks := blocks w @ bs\<rparr>) y)"
    using y by (simp add: nth_append)
qed

lemma allocself_ok:
  assumes "heap_ok w" and "memory fresh" and "header_ok a" and "a_displaced a = None" and "a_bit_offset a = 0"
  shows "heap_ok (mkcl_array_allocself fresh (length (arrs w)) (w\<lparr>arrs := arrs w @ [a]\<rparr>))"
proof -
  let ?b = "new_block fresh (a_elttype a) (a_dim a)" and ?a = "a\<lparr>a_block := length (blocks w), a_offset := 0, a_bit_offset := 0\<rparr>"
  have w: "mkcl_array_allocself fresh (length (arrs w)) (w\<lparr>arrs := arrs w @ [a]\<rparr>) = w\<lparr>arrs := arrs w @ [?a], blocks := blocks w @ [?b]\<rparr>"
    using assms(5) by (simp add: mkcl_array_allocself_def upd_arr_def)
  have "arr_ok (blocks w @ [?b]) (Suc (length (arrs w))) ?a"
    using new_block_length [OF assms(2), of "a_elttype a" "a_dim a"] assms(3,4) by (auto simp: arr_ok_def header_ok_def position_def)
  then show ?thesis unfolding w
    using ok_except_new [OF assms(1), where a = ?a and bs = "[?b]"] by (intro heap_ok_from_except [of "length (arrs w)"]) simp_all
qed

lemma place_elements_ok:
  assumes "place_elements fresh displ disploff (length (arrs w)) (w\<lparr>arrs := arrs w @ [a]\<rparr>) = Inr w'"
    and "heap_ok w" and "memory fresh" and "header_ok a" and "a_displaced a = None" and "a_bit_offset a = 0"
    and displ: "displ = None \<or> (\<exists>t. displ = Some (ArrayLink t) \<and> t < length (arrs w))"
  shows "heap_ok w'"
  using displ
proof
  assume "displ = None"
  then show ?thesis using assms(1) allocself_ok [OF assms(2-6)] by (simp add: place_elements_def)
next
  assume "\<exists>t. displ = Some (ArrayLink t) \<and> t < length (arrs w)"
  then obtain t where t: "displ = Some (ArrayLink t)" "t < length (arrs w)" by blast
  let ?w = "w\<lparr>arrs := arrs w @ [a]\<rparr>"
  have e: "ok_except (length (arrs w)) ?w" using ok_except_new [OF assms(2), where a = a and bs = "[]"] by simp
  have "arr_ok (blocks ?w) (length (arrs ?w)) (arr_at ?w t)" using e t(2) unfolding ok_except_def by auto
  moreover have "displace (length (arrs w)) (ArrayLink t) disploff ?w = Inr w'"
    using assms(1) t(1) by (simp add: place_elements_def)
  ultimately show ?thesis using e t(2) assms(4) displace_ok(1) [of "length (arrs w)" t disploff ?w w'] by simp
qed

lemma make_vector_ok:
  assumes "mk_si_make_vector fresh aet dim adj fillp displ disploff w = Inr (x, w')" and "heap_ok w" and "memory fresh"
    and "displ = None \<or> (\<exists>t. displ = Some (ArrayLink t) \<and> t < length (arrs w))"
  shows "heap_ok w'" "x = length (arrs w)"
proof -
  obtain d hasfillp f where 1: "mkcl_fixnum_in_range dim 0 (int MKCL_ADIMLIM) = Inr d" "fill_pointer_for fillp (nat d) = Inr (hasfillp, f)"
    using assms(1) by (auto simp: mk_si_make_vector_def and_then_Inr)
  let ?a = "\<lparr>a_kind = kind_for aet, a_dims = [], a_dim = nat d, a_hasfillp = hasfillp, a_fillp = f, a_adjustable = adj,
                a_elttype = aet, a_displaced = None, a_block = 0, a_offset = 0, a_bit_offset = 0\<rparr>"
  have p: "place_elements fresh displ disploff (length (arrs w)) (w\<lparr>arrs := arrs w @ [?a]\<rparr>) = Inr w'" and "x = length (arrs w)"
    using assms(1) 1 by (auto simp: mk_si_make_vector_def Let_def and_then_Inr)
  then show "x = length (arrs w)" by simp
  have "nat d \<le> MKCL_ATOTLIM" "f \<le> nat d"
    using 1 by (auto simp: mkcl_fixnum_in_range_def fill_pointer_for_def and_then_Inr MKCL_ADIMLIM_def MKCL_ATOTLIM_def
        split: lval.splits if_splits fill_argument.splits)
  then have "header_ok ?a" by (simp add: header_ok_def kind_for_def)
  from place_elements_ok [OF p assms(2,3) this _ _ assms(4)] show "heap_ok w'" by simp
qed

lemma make_pure_array_ok:
  assumes m: "mk_si_make_pure_array fresh aet dims adj fillp displ disploff w = Inr (x, w')" and "heap_ok w" and "memory fresh"
    and displ: "displ = None \<or> (\<exists>t. displ = Some (ArrayLink t) \<and> t < length (arrs w))"
  shows "heap_ok w'"
proof (cases "length dims = 1")
  case True
  then show ?thesis using m make_vector_ok(1) [OF _ assms(2,3) displ] by (auto simp: mk_si_make_pure_array_def split: if_splits)
next
  case False
  then obtain s js where d: "dimensions_loop 1 dims = Inr (s, js)"
    using m by (auto simp: mk_si_make_pure_array_def and_then_Inr split: if_splits)
  let ?a = "\<lparr>a_kind = Array_t, a_dims = js, a_dim = s, a_hasfillp = False, a_fillp = 0, a_adjustable = adj,
                 a_elttype = aet, a_displaced = None, a_block = 0, a_offset = 0, a_bit_offset = 0\<rparr>"
  have s: "s = prod_list js" "s \<le> MKCL_ATOTLIM"
    using dimensions_loop_ok [OF d] by (simp_all add: MKCL_ATOTLIM_def MOST_POSITIVE_FIXNUM_def)
  then have h: "header_ok ?a" by (simp add: header_ok_def)
  show ?thesis
  proof (cases "aet = aet_nil")
    case True
    then have "w' = w\<lparr>arrs := arrs w @ [?a]\<rparr>"
      using m False d by (auto simp: mk_si_make_pure_array_def Let_def and_then_Inr split: if_splits)
    moreover have "arr_ok (blocks w) (Suc (length (arrs w))) ?a" using h True by (simp add: arr_ok_def header_ok_def)
    ultimately show ?thesis using ok_except_new [OF assms(2), where a = ?a and bs = "[]"]
      by (intro heap_ok_from_except [of "length (arrs w)"]) simp_all
  next
    case nil: False
    then have "place_elements fresh displ disploff (length (arrs w)) (w\<lparr>arrs := arrs w @ [?a]\<rparr>) = Inr w'"
      using m False d by (auto simp: mk_si_make_pure_array_def Let_def and_then_Inr split: if_splits)
    from place_elements_ok [OF this assms(2,3) h _ _ displ] show ?thesis by simp
  qed
qed

lemma displace_all_ok:
  assumes "displace_all ds t w = Inr w'" and "heap_ok w" and "\<forall>d \<in> set ds. d < length (arrs w)" and "t < length (arrs w)"
  shows "heap_ok w' \<and> length (arrs w') = length (arrs w)"
  using assms
proof (induction ds arbitrary: w)
  case (Cons d ds)
  then obtain offset w1 where d: "displace d (ArrayLink t) (LInt offset) w = Inr w1" "displace_all ds t w1 = Inr w'"
    by (auto simp: and_then_Inr)
  have "heap_ok w1" "length (arrs w1) = length (arrs w)"
    using displace_ok [OF d(1) _ Cons.prems(4) heap_ok_except [OF Cons.prems(2)]]
      arr_ok_header [OF heap_okD [OF Cons.prems(2)]] heap_okD [OF Cons.prems(2,4)] Cons.prems(3) by simp_all
  then show ?case using Cons.IH [OF d(2)] Cons.prems(3,4) by simp
qed simp

lemma dependents_bound: "arr_ok bs n a \<Longrightarrow> d \<in> set (dependents a) \<Longrightarrow> d < n"
  by (cases "a_displaced a") (auto simp: arr_ok_def dependents_def)

lemma replace_array_ok:
  assumes "mk_si_replace_array olda newa w = Inr (x, w')" and "heap_ok w" and "olda < length (arrs w)" and "newa < length (arrs w)"
  shows "heap_ok w'"
proof (cases "a_adjustable (arr_at w olda)")
  case False
  then show ?thesis using assms by (auto simp: mk_si_replace_array_def Let_def split: if_splits)
next
  case True
  then obtain w1 where w1: "displace_all (dependents (arr_at w olda)) newa w = Inr w1" "w' = upd_arr olda (\<lambda>_. arr_at w1 newa) w1"
    using assms(1) by (auto simp: mk_si_replace_array_def Let_def and_then_Inr split: if_splits)
  have "\<forall>d \<in> set (dependents (arr_at w olda)). d < length (arrs w)"
    using dependents_bound [OF heap_okD [OF assms(2,3)]] by blast
  note ok = displace_all_ok [OF w1(1) assms(2) this assms(4)]
  then show ?thesis unfolding w1(2) using heap_okD [of w1 newa] assms(4) by (intro heap_ok_upd) auto
qed

text \<open>Operations that write elements.\<close>

lemma copy_loop_shape: "copy_loop cv dest i0 orig i1 l w = Inr w' \<Longrightarrow> same_shape w w'"
proof (induction l arbitrary: i0 i1 w)
  case (Suc l)
  then obtain v w1 where w1: "mkcl_aset_index cv w dest i0 v = Inr w1" "copy_loop cv dest (i0 + 1) orig (i1 + 1) l w1 = Inr w'"
    by (auto simp: and_then_Inr)
  show ?case using same_shape_trans [OF aset_shape [OF w1(1)] Suc.IH [OF w1(2)]] .
qed simp

lemma copy_memory_shape: "copy_memory b p b' p' l w = Inr w' \<Longrightarrow> same_shape w w'"
  by (auto simp: copy_memory_def same_shape_def map_update list_update_same_conv min_def split: if_splits)

lemma copy_subarray_shape: "mkcl_copy_subarray cv dest i0 orig i1 l w = Inr w' \<Longrightarrow> same_shape w w'"
  by (auto simp: mkcl_copy_subarray_def Let_def split: if_splits dest: copy_loop_shape copy_memory_shape)

lemma swap_loop_shape: "swap_loop b base i j w = Inr w' \<Longrightarrow> same_shape w w'"
proof (induction b base i j w rule: swap_loop.induct)
  case (1 b base i j w)
  show ?case
  proof (cases "i < j")
    case True
    then obtain y z w1 w2 where w: "read_block w b (base + i) = Inr y" "read_block w b (base + j) = Inr z"
        "write_block w b (base + i) z = Inr w1" "write_block w1 b (base + j) y = Inr w2" "swap_loop b base (i + 1) (j - 1) w2 = Inr w'"
      using 1(2) unfolding swap_loop.simps [of b base i j w] by (auto simp: and_then_Inr)
    have "same_shape w2 w'" using 1(1) [OF True] w(5) by blast
    then show ?thesis using write_shape [OF w(3)] write_shape [OF w(4)] same_shape_trans by blast
  next
    case False
    then show ?thesis using 1(2) unfolding swap_loop.simps [of b base i j w] by simp
  qed
qed

lemma reverse_subarray_shape: "mkcl_reverse_subarray x i0 i1 w = Inr w' \<Longrightarrow> same_shape w w'"
  unfolding mkcl_reverse_subarray_def Let_def by (auto split: if_splits dest: swap_loop_shape)

lemma fill_loop_shape: "fill_loop b p e n w = Inr w' \<Longrightarrow> same_shape w w'"
proof (induction n arbitrary: p w)
  case (Suc n)
  then obtain w1 where w1: "write_block w b p e = Inr w1" "fill_loop b (p + 1) e n w1 = Inr w'" by (auto simp: and_then_Inr)
  show ?case using same_shape_trans [OF write_shape [OF w1(1)] Suc.IH [OF w1(2)]] .
qed simp

lemma fill_array_shape: "mk_si_fill_array_with_elt cv x elt start e w = Inr w' \<Longrightarrow> same_shape w w'"
  by (auto simp: mk_si_fill_array_with_elt_def Let_def and_then_Inr split: if_splits dest: fill_loop_shape)

text \<open>Operations that move the fill pointer.\<close>

lemma fillp_ok:
  assumes "heap_ok w" and "f \<le> a_dim (arr_at w x)"
  shows "heap_ok (upd_arr x (\<lambda>a. a\<lparr>a_fillp := f\<rparr>) w)"
proof -
  have p: "position (a\<lparr>a_fillp := f\<rparr>) = position a" for a by (simp add: position_def fun_eq_iff)
  show ?thesis using heap_okD [OF assms(1), of x] assms(2) by (intro heap_ok_upd [OF assms(1)]) (simp add: arr_ok_def p)
qed

lemma fill_pointer_set_ok: "mk_si_fill_pointer_set x fp w = Inr w' \<Longrightarrow> heap_ok w \<Longrightarrow> heap_ok w'"
  by (auto simp: mk_si_fill_pointer_set_def and_then_Inr split: if_splits intro!: fillp_ok)

lemma vector_push_ok: "mkcl_vector_push cv x v w = Inr (r, w') \<Longrightarrow> heap_ok w \<Longrightarrow> heap_ok w'"
proof -
  assume p: "mkcl_vector_push cv x v w = Inr (r, w')" and ok: "heap_ok w"
  show "heap_ok w'"
  proof (cases "w' = w")
    case False
    then obtain w1 where w1: "mkcl_aset_index cv w x (a_fillp (arr_at w x)) v = Inr w1"
        "w' = upd_arr x (\<lambda>a. a\<lparr>a_fillp := a_fillp (arr_at w x) + 1\<rparr>) w1" "a_fillp (arr_at w x) < a_dim (arr_at w x)"
      using p by (auto simp: mkcl_vector_push_def Let_def and_then_Inr split: if_splits)
    have "arrs w1 = arrs w" using aset_shape [OF w1(1)] by (simp add: same_shape_def)
    then show ?thesis unfolding w1(2) using same_shape_ok [OF aset_shape [OF w1(1)] ok] w1(3) by (intro fillp_ok) simp_all
  qed (use ok in simp)
qed

lemma base_string_push_ok: "mkcl_base_string_push x c w = Inr (r, w') \<Longrightarrow> heap_ok w \<Longrightarrow> heap_ok w'"
proof -
  assume p: "mkcl_base_string_push x c w = Inr (r, w')" and ok: "heap_ok w"
  let ?f = "a_fillp (arr_at w x)"
  show "heap_ok w'"
  proof (cases "w' = w")
    case False
    then obtain w1 w2 b q q' where w: "write_block w b q (LChar 0) = Inr w1" "write_block w1 b q' (LChar c) = Inr w2"
        "w' = upd_arr x (\<lambda>a. a\<lparr>a_fillp := ?f + 1\<rparr>) w2" "?f < a_dim (arr_at w x)"
      using p by (auto simp: mkcl_base_string_push_def Let_def and_then_Inr split: if_splits)
    have s: "same_shape w w2" using same_shape_trans [OF write_shape [OF w(1)] write_shape [OF w(2)]] .
    then have "arrs w2 = arrs w" by (simp add: same_shape_def)
    then show ?thesis unfolding w(3) using same_shape_ok [OF s ok] w(4) by (intro fillp_ok) simp_all
  qed (use ok in simp)
qed

section \<open>Replacing an array\<close>

text \<open>\<open>displace\<close> changes the pointer of one array; of the others only the lists of displaced arrays.\<close>

lemma same_but_links_refl [simp]: "same_but_links a a"
  by (simp add: same_but_links_def)

lemma same_but_links_trans: "same_but_links a b \<Longrightarrow> same_but_links b c \<Longrightarrow> same_but_links a c"
  by (simp add: same_but_links_def)

lemma displace_other:
  assumes "displace x (ArrayLink t) offset w = Inr w'" and "x < length (arrs w)" and "t < length (arrs w)" and "y \<noteq> x"
  shows "same_but_links (arr_at w' y) (arr_at w y)"
proof -
  obtain j where "w' = point_into x t j (link_arrays x t w)" using displace_array [OF assms(1)] by blast
  then show ?thesis using link_arrays_at [OF assms(2,3), of y] assms(4) by (simp add: point_into_other)
qed

lemma displace_all_other:
  assumes "displace_all ds t w = Inr w'" and "\<forall>d \<in> set ds. d < length (arrs w)" and "t < length (arrs w)" and "y \<notin> set ds"
  shows "same_but_links (arr_at w' y) (arr_at w y) \<and> blocks w' = blocks w \<and> length (arrs w') = length (arrs w)"
  using assms
proof (induction ds arbitrary: w)
  case (Cons d ds)
  then obtain offset w1 where d: "displace d (ArrayLink t) (LInt offset) w = Inr w1" "displace_all ds t w1 = Inr w'"
    by (auto simp: and_then_Inr)
  have b: "blocks w1 = blocks w" "length (arrs w1) = length (arrs w)"
    using displace_array [OF d(1)] by (auto simp: point_into_other)
  have 1: "same_but_links (arr_at w1 y) (arr_at w y)" using displace_other [OF d(1)] Cons.prems by simp
  have 2: "same_but_links (arr_at w' y) (arr_at w1 y) \<and> blocks w' = blocks w1 \<and> length (arrs w') = length (arrs w1)"
    using Cons.IH [OF d(2)] Cons.prems b by simp
  show ?case using same_but_links_trans [OF conjunct1 [OF 2] 1] 2 b by simp
qed simp

lemma replace_array_spec:
  assumes r: "mk_si_replace_array olda newa w = Inr (x, w')" and ok: "heap_ok w" and o: "olda < length (arrs w)" and n: "newa < length (arrs w)"
    and adj: "a_adjustable (arr_at w olda)" and nd: "newa \<notin> set (dependents (arr_at w olda))"
  shows "x = olda" "same_but_links (arr_at w' olda) (arr_at w newa)" "blocks w' = blocks w" "length (arrs w') = length (arrs w)"
    "\<And>y. y \<notin> set (dependents (arr_at w olda)) \<Longrightarrow> y \<noteq> olda \<Longrightarrow> same_but_links (arr_at w' y) (arr_at w y)"
proof -
  obtain w1 where w1: "displace_all (dependents (arr_at w olda)) newa w = Inr w1" "w' = upd_arr olda (\<lambda>_. arr_at w1 newa) w1" and "x = olda"
    using r adj by (auto simp: mk_si_replace_array_def Let_def and_then_Inr split: if_splits)
  then show "x = olda" by simp
  have "\<forall>d \<in> set (dependents (arr_at w olda)). d < length (arrs w)" using dependents_bound [OF heap_okD [OF ok o]] by blast
  note other = displace_all_other [OF w1(1) this n]
  show "blocks w' = blocks w" "length (arrs w') = length (arrs w)" using other [OF nd] by (simp_all add: w1(2))
  show "same_but_links (arr_at w' olda) (arr_at w newa)" using other [OF nd] o by (simp add: w1(2))
  show "same_but_links (arr_at w' y) (arr_at w y)" if "y \<notin> set (dependents (arr_at w olda))" "y \<noteq> olda" for y
    using other [OF that(1)] that(2) by (simp add: w1(2))
qed

text \<open>An array displaced to the old one follows it to its new elements.\<close>

lemma shares_displacement:
  assumes "shares a t j" and "a_elttype a = a_elttype t"
  shows "(if a_elttype a = aet_bit
      then (int (a_offset a) - int (a_offset t)) * 8 + int (a_bit_offset a) - int (a_bit_offset t)
      else int (a_offset a) - int (a_offset t)) = int j"
proof -
  have "position a 0 = position t j" using assms(1) by (auto simp: shares_def)
  then show ?thesis using assms(2) by (auto simp: position_def)
qed

lemma displace_shares:
  assumes d: "displace x (ArrayLink t) (LInt (int j)) w = Inr w'" and x: "x < length (arrs w)" and t: "t < length (arrs w)" and ne: "x \<noteq> t"
  shows "shares (arr_at w' x) (arr_at w' t) j"
proof -
  obtain k where k: "mkcl_fixnum_in_range (LInt (int j)) 0 (int (a_dim (arr_at w t)) - int (a_dim (arr_at w x))) = Inr (int k)"
      "k + a_dim (arr_at w x) \<le> a_dim (arr_at w t)" "a_elttype (arr_at w t) = a_elttype (arr_at w x)"
      "w' = point_into x t k (link_arrays x t w)"
    using displace_array [OF d] by blast
  have "k = j" using k(1) by (auto simp: mkcl_fixnum_in_range_def split: if_splits)
  moreover have "shares (arr_at w' x) (arr_at (link_arrays x t w) t) k"
    unfolding k(4) using k(2,3) x ne same_but_links_fields [OF link_arrays_at [OF x t]]
    by (intro point_into_shares) simp_all
  ultimately show ?thesis using ne k(4) by (simp add: point_into_other)
qed

lemma shares_cong:
  assumes "shares a t j" and "same_but_links a' a" and "same_but_links t' t"
  shows "shares a' t' j"
  using assms(1) by (simp add: shares_def same_but_links_fields [OF assms(2)] same_but_links_fields [OF assms(3)])

lemma displace_unrelated:
  assumes "displace x (ArrayLink t) offset w = Inr w'" and "y \<noteq> x" and "y \<noteq> t"
  shows "arr_at w' y = arr_at w y"
proof -
  obtain j where "w' = point_into x t j (link_arrays x t w)" using displace_array [OF assms(1)] by blast
  then show ?thesis using assms(2,3) by (simp add: point_into_other link_arrays_other)
qed

definition linked_to :: "aheap \<Rightarrow> nat \<Rightarrow> nat \<Rightarrow> nat \<Rightarrow> bool" where
  "linked_to w d t j \<longleftrightarrow> (\<exists>ds. a_displaced (arr_at w d) = Some (Some (ArrayLink t), ds))
     \<and> a_elttype (arr_at w d) = a_elttype (arr_at w t) \<and> shares (arr_at w d) (arr_at w t) j"

lemma linked_displacement:
  assumes "linked_to w d t j"
  shows "mk_cl_array_displacement w d = Inr (Some (ArrayLink t), int j)"
proof -
  have s: "shares (arr_at w d) (arr_at w t) j" "a_elttype (arr_at w d) = a_elttype (arr_at w t)"
    using assms by (simp_all add: linked_to_def)
  then show ?thesis using assms shares_displacement [OF s]
    by (auto simp: linked_to_def mk_cl_array_displacement_def shares_def Let_def)
qed

lemma displace_all_follow:
  assumes "displace_all ds t w = Inr w'" and "distinct ds" and "t \<notin> set ds" and "\<forall>d \<in> set ds. T d \<notin> set ds \<and> T d \<noteq> t"
    and "\<forall>d \<in> set ds. d < length (arrs w)" and "t < length (arrs w)" and "\<forall>d \<in> set ds. linked_to w d (T d) (J d)"
  shows "\<forall>d \<in> set ds. shares (arr_at w' d) (arr_at w' t) (J d)"
  using assms
proof (induction ds arbitrary: w)
  case (Cons d ds)
  have m: "mk_cl_array_displacement w d = Inr (Some (ArrayLink (T d)), int (J d))" using linked_displacement Cons.prems(7) by simp
  obtain w1 where d: "displace d (ArrayLink t) (LInt (int (J d))) w = Inr w1" "displace_all ds t w1 = Inr w'"
    using Cons.prems(1) m by (auto simp: and_then_Inr)
  have len: "length (arrs w1) = length (arrs w)" using displace_array [OF d(1)] by (auto simp: point_into_other)
  have same: "arr_at w1 y = arr_at w y" if "y \<in> T ` set ds \<union> set ds" for y
    using displace_unrelated [OF d(1), of y] that Cons.prems by auto
  have "\<forall>d \<in> set ds. linked_to w1 d (T d) (J d)" using Cons.prems(7) same by (simp add: linked_to_def)
  then have IH: "\<forall>d \<in> set ds. shares (arr_at w' d) (arr_at w' t) (J d)"
    using Cons.IH [OF d(2)] Cons.prems len by simp
  have "shares (arr_at w1 d) (arr_at w1 t) (J d)" using displace_shares [OF d(1)] Cons.prems by auto
  moreover have "same_but_links (arr_at w' d) (arr_at w1 d)" "same_but_links (arr_at w' t) (arr_at w1 t)"
    using displace_all_other [OF d(2)] Cons.prems len by auto
  ultimately show ?case using IH shares_cong by auto
qed simp

lemma replace_array_follow:
  assumes r: "mk_si_replace_array olda newa w = Inr (x, w')" and ok: "heap_ok w" and o: "olda < length (arrs w)" and n: "newa < length (arrs w)"
    and adj: "a_adjustable (arr_at w olda)" and nd: "newa \<notin> set (dependents (arr_at w olda))" "olda \<noteq> newa"
    and od: "olda \<notin> set (dependents (arr_at w olda))" and dist: "distinct (dependents (arr_at w olda))"
    and l: "\<forall>d \<in> set (dependents (arr_at w olda)). linked_to w d (T d) (J d)"
    and T: "\<forall>d \<in> set (dependents (arr_at w olda)). T d \<notin> set (dependents (arr_at w olda)) \<and> T d \<noteq> newa"
  shows "\<forall>d \<in> set (dependents (arr_at w olda)). shares (arr_at w' d) (arr_at w' olda) (J d)"
proof
  fix d assume d: "d \<in> set (dependents (arr_at w olda))"
  obtain w1 where w1: "displace_all (dependents (arr_at w olda)) newa w = Inr w1" "w' = upd_arr olda (\<lambda>_. arr_at w1 newa) w1"
    using r adj by (auto simp: mk_si_replace_array_def Let_def and_then_Inr split: if_splits)
  have b: "\<forall>d \<in> set (dependents (arr_at w olda)). d < length (arrs w)" using dependents_bound [OF heap_okD [OF ok o]] by blast
  have "shares (arr_at w1 d) (arr_at w1 newa) (J d)"
    using displace_all_follow [OF w1(1) dist nd(1) T b n l] d by blast
  moreover have "d \<noteq> olda" using d od by blast
  moreover have "length (arrs w1) = length (arrs w)" using displace_all_other [OF w1(1) b n nd(1)] by simp
  ultimately show "shares (arr_at w' d) (arr_at w' olda) (J d)" using o by (simp add: w1(2))
qed

section \<open>Extending a vector\<close>

lemma extended_length_bounds:
  assumes "dim < MKCL_ADIMLIM"
  shows "dim < extended_length dim" "extended_length dim \<le> MKCL_ADIMLIM"
  using assms by (auto simp: extended_length_def Let_def)

lemma make_vector_spec:
  assumes "d \<le> MKCL_ADIMLIM" and "f \<le> d"
  shows "mk_si_make_vector fresh aet (LInt (int d)) adj (FillAt (LInt (int f))) None off w =
    Inr (length (arrs w), w\<lparr>arrs := arrs w @ [\<lparr>a_kind = kind_for aet, a_dims = [], a_dim = d, a_hasfillp = True, a_fillp = f,
        a_adjustable = adj, a_elttype = aet, a_displaced = None, a_block = length (blocks w), a_offset = 0, a_bit_offset = 0\<rparr>],
      blocks := blocks w @ [new_block fresh aet d]\<rparr>)"
proof -
  have "fixnum_range (int d)" "fixnum_range (int f)"
    using assms by (auto simp: fixnum_range_def MKCL_ADIMLIM_def MOST_POSITIVE_FIXNUM_def MOST_NEGATIVE_FIXNUM_def)
  then show ?thesis using assms
    by (simp add: mk_si_make_vector_def mkcl_fixnum_in_range_def fill_pointer_for_def place_elements_def mkcl_array_allocself_def
        upd_arr_def Let_def)
qed

lemma extend_vector_header:
  assumes e: "mkcl_extend_vector fresh cv x w = Inr (r, w')" and ok: "heap_ok w" and x: "x < length (arrs w)" and m: "memory fresh"
  shows "heap_ok w'" "length (arrs w') = Suc (length (arrs w))" "a_dim (arr_at w' x) = extended_length (a_dim (arr_at w x))"
    "a_elttype (arr_at w' x) = a_elttype (arr_at w x)" "a_fillp (arr_at w' x) = a_fillp (arr_at w x)"
    "a_dim (arr_at w x) < MKCL_ADIMLIM" "a_kind (arr_at w' x) = kind_for (a_elttype (arr_at w x))"
proof -
  let ?s = "arr_at w x"
  have d: "a_dim ?s < MKCL_ADIMLIM" and adj: "a_adjustable ?s" using e by (auto simp: mkcl_extend_vector_def Let_def split: if_splits)
  then show "a_dim (arr_at w x) < MKCL_ADIMLIM" by simp
  have f: "a_fillp ?s \<le> a_dim ?s" using heap_okD [OF ok x] by (simp add: arr_ok_def)
  obtain w1 w2 where w: "mk_si_make_vector fresh (a_elttype ?s) (LInt (int (extended_length (a_dim ?s)))) True
      (FillAt (LInt (int (a_fillp ?s)))) None (LInt 0) w = Inr (length (arrs w), w1)"
      "mkcl_copy_subarray cv (length (arrs w)) 0 x 0 (a_fillp ?s) w1 = Inr w2" "mk_si_replace_array x (length (arrs w)) w2 = Inr (r, w')"
    using e d adj make_vector_spec [of "extended_length (a_dim ?s)" "a_fillp ?s"] extended_length_bounds [OF d] f
    by (auto simp: mkcl_extend_vector_def Let_def and_then_Inr)
  have w1: "arrs w1 = arrs w @ [\<lparr>a_kind = kind_for (a_elttype ?s), a_dims = [], a_dim = extended_length (a_dim ?s), a_hasfillp = True,
      a_fillp = a_fillp ?s, a_adjustable = True, a_elttype = a_elttype ?s, a_displaced = None, a_block = length (blocks w), a_offset = 0,
      a_bit_offset = 0\<rparr>]"
    using w(1) make_vector_spec [of "extended_length (a_dim ?s)" "a_fillp ?s" fresh "a_elttype ?s" True "LInt 0" w]
      extended_length_bounds [OF d] f by auto
  have a2: "arrs w2 = arrs w1" using copy_subarray_shape [OF w(2)] by (simp add: same_shape_def)
  have ok1: "heap_ok w1" using make_vector_ok(1) [OF w(1) ok m] by simp
  have ok2: "heap_ok w2" using same_shape_ok [OF copy_subarray_shape [OF w(2)] ok1] .
  have xn: "x < length (arrs w2)" "length (arrs w) < length (arrs w2)" using x by (simp_all add: a2 w1)
  have ax: "arr_at w2 x = ?s" using x by (simp add: a2 w1 nth_append)
  have nd: "length (arrs w) \<notin> set (dependents (arr_at w2 x))"
    using dependents_bound [OF heap_okD [OF ok x]] unfolding ax by blast
  show "heap_ok w'" using replace_array_ok [OF w(3) ok2 xn] .
  note spec = replace_array_spec [OF w(3) ok2 xn _ nd, unfolded ax, OF adj]
  have "same_but_links (arr_at w' x) (arr_at w2 (length (arrs w)))" using spec(2) .
  note fields = same_but_links_fields [OF this]
  show "length (arrs w') = Suc (length (arrs w))" using spec(4) by (simp add: a2 w1)
  show "a_dim (arr_at w' x) = extended_length (a_dim ?s)" "a_elttype (arr_at w' x) = a_elttype ?s" "a_fillp (arr_at w' x) = a_fillp ?s"
    "a_kind (arr_at w' x) = kind_for (a_elttype ?s)"
    by (simp_all add: fields a2 w1)
qed

lemma vector_push_extend_ok:
  assumes p: "mkcl_vector_push_extend fresh cv x v w = Inr (r, w')" and ok: "heap_ok w" and x: "x < length (arrs w)" and m: "memory fresh"
  shows "heap_ok w'" "r = a_fillp (arr_at w x)"
proof -
  let ?f = "a_fillp (arr_at w x)"
  obtain w1 w2 where w1: "(if a_dim (arr_at w x) \<le> ?f then and_then (mkcl_extend_vector fresh cv x w) (\<lambda>(_, w'). Inr w') else Inr w) = Inr w1"
      "mkcl_aset_index cv w1 x ?f v = Inr w2" "w' = upd_arr x (\<lambda>a. a\<lparr>a_fillp := ?f + 1\<rparr>) w2" and "r = ?f"
    using p by (auto simp: mkcl_vector_push_extend_def Let_def and_then_Inr split: if_splits)
  then show "r = ?f" by simp
  have le: "?f \<le> a_dim (arr_at w x)" using heap_okD [OF ok x] by (simp add: arr_ok_def)
  have "heap_ok w1 \<and> ?f < a_dim (arr_at w1 x)"
  proof (cases "a_dim (arr_at w x) \<le> ?f")
    case True
    then obtain r1 where "mkcl_extend_vector fresh cv x w = Inr (r1, w1)" using w1(1) by (auto simp: and_then_Inr)
    from extend_vector_header [OF this ok x m] extended_length_bounds(1) [of "a_dim (arr_at w x)"] le show ?thesis by auto
  next
    case False
    then show ?thesis using w1(1) ok by simp
  qed
  then have ok1: "heap_ok w1" "?f < a_dim (arr_at w1 x)" by simp_all
  have "arrs w2 = arrs w1" using aset_shape [OF w1(2)] by (simp add: same_shape_def)
  then show "heap_ok w'" unfolding w1(3) using same_shape_ok [OF aset_shape [OF w1(2)] ok1(1)] ok1(2) by (intro fillp_ok) simp_all
qed

end
