(* ===== verification/Array_Elements.thy ===== *)
theory Array_Elements
  imports Array_Props
begin

text \<open>
  What the operations on ranges of elements do: copying, reversing, filling; and the cases in which
  they leave the array. The relation \<open>array_reach\<close> has the heaps a program can make.
\<close>

section \<open>Copying and reversing\<close>

text \<open>The element at an index, as it lies in memory.\<close>

definition elem :: "aheap \<Rightarrow> nat \<Rightarrow> nat \<Rightarrow> lval" where
  "elem w x k = blocks w ! a_block (arr_at w x) ! position (arr_at w x) k"

lemma aref_elem:
  "heap_ok w \<Longrightarrow> x < length (arrs w) \<Longrightarrow> a_elttype (arr_at w x) \<noteq> aet_nil \<Longrightarrow> k < a_dim (arr_at w x) \<Longrightarrow>
   mkcl_aref_index w x k = Inr (elem w x k)"
  by (simp add: aref_ok elem_def)

lemma aset_spec:
  assumes ok: "heap_ok w" and x: "x < length (arrs w)" and nil: "a_elttype (arr_at w x) \<noteq> aet_nil" and i: "i < a_dim (arr_at w x)"
    and e: "store_elt cv (arr_at w x) v = Inr e"
  shows "\<exists>w'. mkcl_aset_index cv w x i v = Inr w' \<and> same_shape w w'
    \<and> (\<forall>y k. elem w' y k = (if a_block (arr_at w y) = a_block (arr_at w x) \<and> position (arr_at w y) k = position (arr_at w x) i
         then e else elem w y k))"
proof -
  let ?a = "arr_at w x"
  let ?w = "w\<lparr>blocks := (blocks w)[a_block ?a := (blocks w ! a_block ?a)[position ?a i := e]]\<rparr>"
  have s: "mkcl_aset_index cv w x i v = Inr ?w"
    using write_block_ok [OF heap_okD [OF ok x] i nil, of e] nil i e by (simp add: mkcl_aset_index_def Let_def)
  have pa: "a_block ?a < length (blocks w)" "position ?a i < length (blocks w ! a_block ?a)"
    using heap_okD [OF ok x] nil position_mono [OF i, of ?a] by (simp_all add: arr_ok_def)
  have "elem ?w y k = (if a_block (arr_at w y) = a_block ?a \<and> position (arr_at w y) k = position ?a i then e else elem w y k)" for y k
    using pa by (auto simp: elem_def nth_list_update)
  with s aset_shape [OF s] show ?thesis by blast
qed

text \<open>From one block into another.\<close>

definition copied :: "aheap \<Rightarrow> aheap \<Rightarrow> nat \<Rightarrow> nat \<Rightarrow> nat \<Rightarrow> nat \<Rightarrow> nat \<Rightarrow> bool" where
  "copied w w' dest i0 orig i1 l \<longleftrightarrow> same_shape w w' \<and> (\<forall>k < l. elem w' dest (i0 + k) = elem w orig (i1 + k))
     \<and> (\<forall>y k. a_block (arr_at w y) \<noteq> a_block (arr_at w dest) \<longrightarrow> elem w' y k = elem w y k)
     \<and> (\<forall>k < a_dim (arr_at w dest). k < i0 \<or> i0 + l \<le> k \<longrightarrow> elem w' dest k = elem w dest k)"

lemma position_inject [simp]: "position a i = position a j \<longleftrightarrow> i = j"
  by (simp add: position_def)

lemma copy_loop_copies:
  assumes "heap_ok w" and "dest < length (arrs w)" and "orig < length (arrs w)" and "a_elttype (arr_at w dest) \<noteq> aet_nil"
    and "a_elttype (arr_at w orig) \<noteq> aet_nil" and "i0 + l \<le> a_dim (arr_at w dest)" and "i1 + l \<le> a_dim (arr_at w orig)"
    and "a_block (arr_at w orig) \<noteq> a_block (arr_at w dest)"
    and "\<And>k. k < l \<Longrightarrow> store_elt cv (arr_at w dest) (elem w orig (i1 + k)) = Inr (elem w orig (i1 + k))"
  shows "\<exists>w'. copy_loop cv dest i0 orig i1 l w = Inr w' \<and> copied w w' dest i0 orig i1 l"
  using assms
proof (induction l arbitrary: i0 i1 w)
  case 0
  then show ?case by (simp add: copied_def)
next
  case (Suc l)
  have v: "mkcl_aref_index w orig i1 = Inr (elem w orig i1)" using Suc.prems by (intro aref_elem) auto
  obtain w1 where w1: "mkcl_aset_index cv w dest i0 (elem w orig i1) = Inr w1" "same_shape w w1"
      "\<And>y k. elem w1 y k = (if a_block (arr_at w y) = a_block (arr_at w dest) \<and> position (arr_at w y) k = position (arr_at w dest) i0
         then elem w orig i1 else elem w y k)"
    using aset_spec [OF Suc.prems(1,2,4), of i0 cv "elem w orig i1" "elem w orig i1"] Suc.prems(6) Suc.prems(9) [of 0] by auto
  have a1: "arrs w1 = arrs w" using w1(2) by (simp add: same_shape_def)
  have o1: "elem w1 orig k = elem w orig k" for k using w1(3) Suc.prems(8) by simp
  have st: "store_elt cv (arr_at w1 dest) (elem w1 orig (i1 + 1 + k)) = Inr (elem w1 orig (i1 + 1 + k))" if "k < l" for k
    using Suc.prems(9) [of "Suc k"] that by (simp add: a1 o1)
  have "\<exists>w'. copy_loop cv dest (i0 + 1) orig (i1 + 1) l w1 = Inr w' \<and> copied w1 w' dest (i0 + 1) orig (i1 + 1) l"
    using Suc.prems(2-8) by (intro Suc.IH [OF same_shape_ok [OF w1(2) Suc.prems(1)] _ _ _ _ _ _ _ st]) (simp_all add: a1)
  then obtain w' where w': "copy_loop cv dest (i0 + 1) orig (i1 + 1) l w1 = Inr w'" "copied w1 w' dest (i0 + 1) orig (i1 + 1) l" by blast
  have "elem w' dest (i0 + k) = elem w orig (i1 + k)" if "k < Suc l" for k
  proof (cases k)
    case 0
    then show ?thesis using w'(2) w1(3) [of dest i0] Suc.prems(6) by (simp add: copied_def a1)
  next
    case (Suc k')
    then show ?thesis using w'(2) that o1 [of "i1 + 1 + k'"] by (simp add: copied_def)
  qed
  moreover have "elem w' y k = elem w y k" if "a_block (arr_at w y) \<noteq> a_block (arr_at w dest)" for y k
    using w'(2) w1(3) that by (simp add: copied_def a1)
  moreover have "elem w' dest k = elem w dest k" if "k < a_dim (arr_at w dest)" "k < i0 \<or> i0 + Suc l \<le> k" for k
    using w'(2) w1(3) [of dest k] that by (auto simp: copied_def a1)
  moreover have "same_shape w w'" using same_shape_trans [OF w1(2)] w'(2) by (simp add: copied_def)
  ultimately have "copied w w' dest i0 orig i1 (Suc l)" by (simp add: copied_def)
  then show ?case using v w1(1) w'(1) by simp
qed

lemma nth_paste:
  assumes "p + length ys \<le> length xs" and "i < length xs"
  shows "(take p xs @ ys @ drop (p + length ys) xs) ! i = (if p \<le> i \<and> i < p + length ys then ys ! (i - p) else xs ! i)"
  using assms by (auto simp: nth_append min_def)

lemma copy_memory_copies:
  assumes ok: "heap_ok w" and d: "dest < length (arrs w)" and s: "orig < length (arrs w)"
    and et: "a_elttype (arr_at w dest) \<notin> {aet_nil, aet_bit}" "a_elttype (arr_at w orig) = a_elttype (arr_at w dest)"
    and b: "i0 + l \<le> a_dim (arr_at w dest)" "i1 + l \<le> a_dim (arr_at w orig)"
    and ne: "a_block (arr_at w orig) \<noteq> a_block (arr_at w dest)"
  shows "\<exists>w'. copy_memory (a_block (arr_at w dest)) (a_offset (arr_at w dest) + i0) (a_block (arr_at w orig)) (a_offset (arr_at w orig) + i1) l w
      = Inr w' \<and> copied w w' dest i0 orig i1 l"
proof -
  let ?d = "arr_at w dest" and ?s = "arr_at w orig"
  let ?bd = "blocks w ! a_block ?d" and ?bs = "blocks w ! a_block ?s"
  let ?w = "w\<lparr>blocks := (blocks w)[a_block ?d := take (a_offset ?d + i0) ?bd @ take l (drop (a_offset ?s + i1) ?bs) @ drop (a_offset ?d + i0 + l) ?bd]\<rparr>"
  have p: "position ?d i = a_offset ?d + i" "position ?s i = a_offset ?s + i" for i using et by (simp_all add: position_def)
  have bd: "a_block ?d < length (blocks w)" "a_offset ?d + i0 + l \<le> length ?bd"
    and bs: "a_block ?s < length (blocks w)" "a_offset ?s + i1 + l \<le> length ?bs"
    using heap_okD [OF ok d] heap_okD [OF ok s] et b by (auto simp: arr_ok_def p)
  have dim: "a_offset ?d + a_dim ?d \<le> length ?bd" using heap_okD [OF ok d] et by (auto simp: arr_ok_def p)
  have l: "length (take l (drop (a_offset ?s + i1) ?bs)) = l" using bs by simp
  have paste: "(take (a_offset ?d + i0) ?bd @ take l (drop (a_offset ?s + i1) ?bs) @ drop (a_offset ?d + i0 + l) ?bd) ! i
      = (if a_offset ?d + i0 \<le> i \<and> i < a_offset ?d + i0 + l then ?bs ! (a_offset ?s + i1 + (i - (a_offset ?d + i0))) else ?bd ! i)" if "i < length ?bd" for i
    using nth_paste [of "a_offset ?d + i0" "take l (drop (a_offset ?s + i1) ?bs)" ?bd i, unfolded l] bd(2) bs(2) that by auto
  have r: "copy_memory (a_block ?d) (a_offset ?d + i0) (a_block ?s) (a_offset ?s + i1) l w = Inr ?w"
    using bd bs by (simp add: copy_memory_def)
  have 1: "elem ?w dest (i0 + k) = elem w orig (i1 + k)" if "k < l" for k
    using that bd paste [of "a_offset ?d + (i0 + k)"] by (simp add: elem_def p add.assoc)
  have 2: "elem ?w y k = elem w y k" if "a_block (arr_at w y) \<noteq> a_block ?d" for y k using that by (simp add: elem_def)
  have 3: "elem ?w dest k = elem w dest k" if "k < a_dim ?d" "k < i0 \<or> i0 + l \<le> k" for k
    using that bd dim paste [of "a_offset ?d + k"] by (auto simp: elem_def p)
  show ?thesis using r copy_memory_shape [OF r] 1 2 3 by (auto simp: copied_def)
qed

lemma copy_subarray_copies:
  assumes ok: "heap_ok w" and d: "dest < length (arrs w)" and s: "orig < length (arrs w)"
    and et: "a_elttype (arr_at w dest) \<noteq> aet_nil" "a_elttype (arr_at w orig) \<noteq> aet_nil"
    and b: "i0 + l \<le> a_dim (arr_at w dest)" "i1 + l \<le> a_dim (arr_at w orig)"
    and ne: "a_block (arr_at w orig) \<noteq> a_block (arr_at w dest)"
    and st: "\<And>k. k < l \<Longrightarrow> a_elttype (arr_at w dest) \<noteq> a_elttype (arr_at w orig) \<or> a_elttype (arr_at w dest) = aet_bit \<Longrightarrow>
      store_elt cv (arr_at w dest) (elem w orig (i1 + k)) = Inr (elem w orig (i1 + k))"
  shows "\<exists>w'. mkcl_copy_subarray cv dest i0 orig i1 l w = Inr w' \<and> copied w w' dest i0 orig i1 l"
proof -
  have "a_dim (arr_at w dest) < 2 ^ 64" "a_dim (arr_at w orig) < 2 ^ 64"
    using heap_okD [OF ok d] heap_okD [OF ok s] by (auto simp: arr_ok_def MKCL_ATOTLIM_def MOST_POSITIVE_FIXNUM_def)
  then have "wrap (i0 + l) = i0 + l" "wrap (i1 + l) = i1 + l" using b by (simp_all add: wrap_def)
  then have "mkcl_copy_subarray cv dest i0 orig i1 l w =
      (if a_elttype (arr_at w dest) \<noteq> a_elttype (arr_at w orig) \<or> a_elttype (arr_at w dest) = aet_bit
       then copy_loop cv dest i0 orig i1 l w
       else copy_memory (a_block (arr_at w dest)) (a_offset (arr_at w dest) + i0) (a_block (arr_at w orig)) (a_offset (arr_at w orig) + i1) l w)"
    using b by (simp add: mkcl_copy_subarray_def Let_def)
  then show ?thesis
    using copy_loop_copies [OF ok d s et b ne, of cv] copy_memory_copies [OF ok d s _ _ b ne] et st by auto
qed

text \<open>The loop that reverses a stretch of a block.\<close>

lemma swap_loop_reverses:
  assumes "b < length (blocks w)" and "base + j < length (blocks w ! b)" and "i \<le> Suc j"
  shows "\<exists>blk. swap_loop b base i j w = Inr (w\<lparr>blocks := (blocks w)[b := blk]\<rparr>) \<and> length blk = length (blocks w ! b)
    \<and> (\<forall>k < length (blocks w ! b). blk ! k =
         (if base + i \<le> k \<and> k \<le> base + j then blocks w ! b ! (2 * base + i + j - k) else blocks w ! b ! k))"
  using assms
proof (induction b base i j w rule: swap_loop.induct)
  case (1 b base i j w)
  let ?xs = "blocks w ! b"
  show ?case
  proof (cases "i < j")
    case False
    then have "2 * base + i + j - k = k" if "base + i \<le> k" "k \<le> base + j" for k using that by linarith
    then show ?thesis using False by (intro exI [of _ ?xs]) (auto simp: swap_loop.simps)
  next
    case True
    let ?ys = "?xs[base + i := ?xs ! (base + j), base + j := ?xs ! (base + i)]"
    let ?w1 = "w\<lparr>blocks := (blocks w)[b := ?xs[base + i := ?xs ! (base + j)]]\<rparr>" and ?w2 = "w\<lparr>blocks := (blocks w)[b := ?ys]\<rparr>"
    have bi: "base + i < length ?xs" using True 1(3) by simp
    have steps: "read_block w b (base + i) = Inr (?xs ! (base + i))" "read_block w b (base + j) = Inr (?xs ! (base + j))"
        "write_block w b (base + i) (?xs ! (base + j)) = Inr ?w1" "write_block ?w1 b (base + j) (?xs ! (base + i)) = Inr ?w2"
      using 1(2,3) bi by (simp_all add: read_block_def write_block_def)
    have s: "swap_loop b base i j w = swap_loop b base (i + 1) (j - 1) ?w2"
      unfolding swap_loop.simps [of b base i j w] using True steps by simp
    have IH: "\<exists>blk. swap_loop b base (i + 1) (j - 1) ?w2 = Inr (?w2\<lparr>blocks := (blocks ?w2)[b := blk]\<rparr>) \<and> length blk = length (blocks ?w2 ! b)
        \<and> (\<forall>k < length (blocks ?w2 ! b). blk ! k =
             (if base + (i + 1) \<le> k \<and> k \<le> base + (j - 1) then blocks ?w2 ! b ! (2 * base + (i + 1) + (j - 1) - k) else blocks ?w2 ! b ! k))"
      using 1(2,3) True by (intro 1(1) [OF True]) simp_all
    then obtain blk where blk: "swap_loop b base (i + 1) (j - 1) ?w2 = Inr (?w2\<lparr>blocks := (blocks ?w2)[b := blk]\<rparr>)" "length blk = length ?xs"
        "\<And>k. k < length ?xs \<Longrightarrow> blk ! k = (if base + (i + 1) \<le> k \<and> k \<le> base + (j - 1) then ?ys ! (2 * base + (i + 1) + (j - 1) - k) else ?ys ! k)"
      using 1(2) by auto
    have "blk ! k = (if base + i \<le> k \<and> k \<le> base + j then ?xs ! (2 * base + i + j - k) else ?xs ! k)" if k: "k < length ?xs" for k
    proof -
      consider "k = base + i" | "k = base + j" | "base + i < k" "k < base + j" | "k < base + i \<or> base + j < k" by linarith
      then show ?thesis
      proof cases
        case 3
        then have c: "base + (i + 1) \<le> k \<and> k \<le> base + (j - 1)" "base + i \<le> k \<and> k \<le> base + j" using True by linarith+
        have m: "2 * base + (i + 1) + (j - 1) - k = 2 * base + i + j - k" using True by linarith
        have "base + i \<noteq> 2 * base + i + j - k" "base + j \<noteq> 2 * base + i + j - k" using 3 by linarith+
        then have "?ys ! (2 * base + i + j - k) = ?xs ! (2 * base + i + j - k)" by (simp only: nth_list_update_neq not_False_eq_True)
        then show ?thesis using blk(3) [OF k] unfolding if_P [OF c(1)] if_P [OF c(2)] m by (rule trans [rotated])
      next
        case 1
        then have "2 * base + i + j - k = base + j" by simp
        then show ?thesis using 1 blk(3) [OF k] True bi by simp
      next
        case 2
        then have e: "2 * base + i + j - k = base + i" by simp
        have "\<not> k \<le> base + (j - 1)" using 2 True by linarith
        then show ?thesis unfolding e using 2 blk(3) [OF k] True k by simp
      qed (use blk(3) [OF k] True in auto)
    qed
    then show ?thesis using s blk(1,2) by (intro exI [of _ blk]) simp
  qed
qed

lemma minus_one: "0 < n \<Longrightarrow> n < 2 ^ 64 \<Longrightarrow> minus_index n 1 = n - 1"
  by (simp add: minus_index_def wrap_def mod_if)

definition only_elements :: "aheap \<Rightarrow> aheap \<Rightarrow> nat \<Rightarrow> (nat \<Rightarrow> lval) \<Rightarrow> bool" where
  "only_elements w w' x f \<longleftrightarrow> same_shape w w' \<and> (\<forall>k < a_dim (arr_at w x). elem w' x k = f k)
     \<and> (\<forall>y k. a_block (arr_at w y) \<noteq> a_block (arr_at w x) \<longrightarrow> elem w' y k = elem w y k)"

lemma reverse_subarray_reverses:
  assumes ok: "heap_ok w" and x: "x < length (arrs w)" and et: "a_elttype (arr_at w x) \<noteq> aet_nil"
    and i: "i0 \<le> i1" "0 < i1" "i1 \<le> a_dim (arr_at w x)"
  shows "\<exists>w'. mkcl_reverse_subarray x i0 i1 w = Inr w'
    \<and> only_elements w w' x (\<lambda>k. if i0 \<le> k \<and> k < i1 then elem w x (i0 + i1 - 1 - k) else elem w x k)"
proof -
  let ?a = "arr_at w x" and ?b = "a_block (arr_at w x)"
  let ?bo = "if a_elttype ?a = aet_bit then a_bit_offset ?a else 0" and ?base = "if a_elttype ?a = aet_bit then 8 * a_offset ?a else a_offset ?a"
  have a: "a_dim ?a < 2 ^ 61" "?bo < 8" "?b < length (blocks w)" "position ?a (a_dim ?a) \<le> length (blocks w ! ?b)"
    using heap_okD [OF ok x] et by (auto simp: arr_ok_def MKCL_ATOTLIM_def MOST_POSITIVE_FIXNUM_def)
  have p: "position ?a k = ?base + (k + ?bo)" for k by (simp add: position_def)
  have e: "(if a_dim ?a \<le> i1 then a_dim ?a else i1) = i1" using i(3) by simp
  have "wrap (i0 + ?bo) = i0 + ?bo" "minus_index (i1 + ?bo) 1 = i1 + ?bo - 1"
    using a(1,2) i minus_one [of "i1 + ?bo"] by (auto simp: wrap_def)
  then have r: "mkcl_reverse_subarray x i0 i1 w = swap_loop ?b ?base (i0 + ?bo) (i1 + ?bo - 1) w"
    using i et e by (auto simp: mkcl_reverse_subarray_def Let_def)
  have last: "?base + (i1 + ?bo - 1) < length (blocks w ! ?b)" "i0 + ?bo \<le> Suc (i1 + ?bo - 1)"
    using a(4) i unfolding p by linarith+
  from swap_loop_reverses [OF a(3) last] obtain blk where
    blk: "swap_loop ?b ?base (i0 + ?bo) (i1 + ?bo - 1) w = Inr (w\<lparr>blocks := (blocks w)[?b := blk]\<rparr>)" "length blk = length (blocks w ! ?b)"
      "\<forall>k < length (blocks w ! ?b). blk ! k = (if ?base + (i0 + ?bo) \<le> k \<and> k \<le> ?base + (i1 + ?bo - 1)
         then blocks w ! ?b ! (2 * ?base + (i0 + ?bo) + (i1 + ?bo - 1) - k) else blocks w ! ?b ! k)" by blast
  let ?w = "w\<lparr>blocks := (blocks w)[?b := blk]\<rparr>"
  have "elem ?w x k = (if i0 \<le> k \<and> k < i1 then elem w x (i0 + i1 - 1 - k) else elem w x k)" if k: "k < a_dim ?a" for k
  proof -
    have lt: "position ?a k < length (blocks w ! ?b)" using position_mono [OF k, of ?a] a(4) by simp
    have "elem ?w x k = blk ! position ?a k" using a(3) by (simp add: elem_def)
    also have "\<dots> = (if ?base + (i0 + ?bo) \<le> position ?a k \<and> position ?a k \<le> ?base + (i1 + ?bo - 1)
         then blocks w ! ?b ! (2 * ?base + (i0 + ?bo) + (i1 + ?bo - 1) - position ?a k) else blocks w ! ?b ! position ?a k)"
      using blk(3) lt by blast
    also have "(?base + (i0 + ?bo) \<le> position ?a k \<and> position ?a k \<le> ?base + (i1 + ?bo - 1)) = (i0 \<le> k \<and> k < i1)"
      unfolding p using i by auto
    also have "(if i0 \<le> k \<and> k < i1 then blocks w ! ?b ! (2 * ?base + (i0 + ?bo) + (i1 + ?bo - 1) - position ?a k) else blocks w ! ?b ! position ?a k)
        = (if i0 \<le> k \<and> k < i1 then elem w x (i0 + i1 - 1 - k) else elem w x k)"
    proof (cases "i0 \<le> k \<and> k < i1")
      case True
      then have "2 * ?base + (i0 + ?bo) + (i1 + ?bo - 1) - position ?a k = position ?a (i0 + i1 - 1 - k)" unfolding p by linarith
      then show ?thesis using True by (simp only: elem_def if_P)
    next
      case False
      then show ?thesis by (simp only: elem_def if_False)
    qed
    finally show ?thesis .
  qed
  moreover have "elem ?w y k = elem w y k" if "a_block (arr_at w y) \<noteq> ?b" for y k using that by (simp add: elem_def)
  moreover have "same_shape w ?w" using blk(1) swap_loop_shape by blast
  ultimately show ?thesis using r blk(1) by (auto simp: only_elements_def)
qed

text \<open>With an end of 0 the second index wraps around.\<close>

lemma reverse_subarray_overruns:
  assumes ok: "heap_ok w" and x: "x < length (arrs w)" and et: "a_elttype (arr_at w x) \<noteq> aet_nil" and d: "0 < a_dim (arr_at w x)"
    and bit: "a_elttype (arr_at w x) = aet_bit \<longrightarrow> a_bit_offset (arr_at w x) = 0"
    and small: "length (blocks w ! a_block (arr_at w x)) < 2 ^ 64"
  shows "mkcl_reverse_subarray x 0 0 w = Inl ArrayOverrun"
proof -
  let ?a = "arr_at w x" and ?base = "if a_elttype (arr_at w x) = aet_bit then 8 * a_offset (arr_at w x) else a_offset (arr_at w x)"
  have e: "minus_index 0 1 = 2 ^ 64 - 1" by (simp add: minus_index_def wrap_def)
  have r: "mkcl_reverse_subarray x 0 0 w = swap_loop (a_block ?a) ?base 0 (2 ^ 64 - 1) w"
    using d et bit e by (simp add: mkcl_reverse_subarray_def Let_def wrap_def)
  have z: "read_block w (a_block ?a) (?base + (2 ^ 64 - 1)) = Inl ArrayOverrun" using small by (simp add: read_block_def)
  obtain y where y: "read_block w (a_block ?a) (?base + 0) = Inr y"
    using read_block_ok [OF heap_okD [OF ok x] d et] bit by (auto simp: position_def split: if_splits)
  have "(0 :: nat) < 2 ^ 64 - 1" by simp
  then show ?thesis unfolding r swap_loop.simps [of "a_block ?a" ?base 0 "2 ^ 64 - 1" w] by (simp only: y z if_True and_then.simps)
qed

section \<open>Filling\<close>

lemma fill_loop_fills:
  assumes "b < length (blocks w)" and "p + n \<le> length (blocks w ! b)"
  shows "fill_loop b p e n w = Inr (w\<lparr>blocks := (blocks w)[b := take p (blocks w ! b) @ replicate n e @ drop (p + n) (blocks w ! b)]\<rparr>)"
  using assms
proof (induction n arbitrary: p w)
  case 0
  then show ?case by simp
next
  case (Suc n)
  let ?w = "w\<lparr>blocks := (blocks w)[b := (blocks w ! b)[p := e]]\<rparr>" and ?xs = "blocks w ! b"
  have "write_block w b p e = Inr ?w" using Suc.prems by (simp add: write_block_def)
  moreover have "fill_loop b (p + 1) e n ?w =
      Inr (?w\<lparr>blocks := (blocks ?w)[b := take (p + 1) (blocks ?w ! b) @ replicate n e @ drop (p + 1 + n) (blocks ?w ! b)]\<rparr>)"
    using Suc.prems by (intro Suc.IH) simp_all
  moreover have "take (p + 1) (?xs[p := e]) @ replicate n e @ drop (p + 1 + n) (?xs[p := e]) = take p ?xs @ replicate (Suc n) e @ drop (p + Suc n) ?xs"
    using Suc.prems by (simp add: take_Suc_conv_app_nth take_update_cancel drop_update_cancel)
  ultimately show ?case using Suc.prems(1) by simp
qed

lemma fill_loop_leaves:
  assumes "length (blocks w ! b) < p + n" and "p \<le> length (blocks w ! b)"
  shows "fill_loop b p e n w = Inl ArrayOverrun"
  using assms
proof (induction n arbitrary: p w)
  case (Suc n)
  show ?case
  proof (cases "b < length (blocks w) \<and> p < length (blocks w ! b)")
    case True
    then show ?thesis using Suc.prems by (simp add: write_block_def Suc.IH)
  next
    case False
    then have "write_block w b p e = Inl ArrayOverrun" by (auto simp: write_block_def)
    then show ?thesis by simp
  qed
qed simp

lemma fill_array_fills:
  assumes ok: "heap_ok w" and x: "x < length (arrs w)" and et: "a_elttype (arr_at w x) \<noteq> aet_nil"
    and i: "first \<le> stop" "stop \<le> a_dim (arr_at w x)" and e: "fill_value cv (arr_at w x) v = Inr e"
  shows "\<exists>w'. mk_si_fill_array_with_elt cv x v (LInt (int first)) (Some (LInt (int stop))) w = Inr w'
    \<and> only_elements w w' x (\<lambda>k. if first \<le> k \<and> k < stop then e else elem w x k)"
proof -
  let ?a = "arr_at w x" and ?b = "a_block (arr_at w x)"
  let ?n = "stop - first"
  let ?w = "w\<lparr>blocks := (blocks w)[?b := take (position ?a first) (blocks w ! ?b) @ replicate ?n e @ drop (position ?a first + ?n) (blocks w ! ?b)]\<rparr>"
  have a: "a_dim ?a < 2 ^ 64" "?b < length (blocks w)" "position ?a (a_dim ?a) \<le> length (blocks w ! ?b)"
    using heap_okD [OF ok x] et by (auto simp: arr_ok_def MKCL_ATOTLIM_def MOST_POSITIVE_FIXNUM_def)
  have p: "position ?a k = position ?a 0 + k" for k by (simp add: position_def)
  have fit: "position ?a first + ?n \<le> length (blocks w ! ?b)" using a(3) i p [of first] p [of "a_dim ?a"] by linarith
  have r: "mk_si_fill_array_with_elt cv x v (LInt (int first)) (Some (LInt (int stop))) w = Inr (if stop \<le> first then w else ?w)"
    using a i e fill_loop_fills [OF a(2) fit, of e] by (simp add: mk_si_fill_array_with_elt_def integer_to_index_def Let_def)
  have "(if stop \<le> first then w else ?w) = ?w" using i by auto
  then have r': "mk_si_fill_array_with_elt cv x v (LInt (int first)) (Some (LInt (int stop))) w = Inr ?w" using r by simp
  have "elem ?w x k = (if first \<le> k \<and> k < stop then e else elem w x k)" if k: "k < a_dim ?a" for k
  proof -
    have lt: "position ?a k < length (blocks w ! ?b)" using position_mono [OF k, of ?a] a(3) by simp
    have "(take (position ?a first) (blocks w ! ?b) @ replicate ?n e @ drop (position ?a first + ?n) (blocks w ! ?b)) ! position ?a k
        = (if position ?a first \<le> position ?a k \<and> position ?a k < position ?a first + ?n
           then replicate ?n e ! (position ?a k - position ?a first) else blocks w ! ?b ! position ?a k)"
      using nth_paste [of "position ?a first" "replicate ?n e" "blocks w ! ?b" "position ?a k"] fit lt by simp
    then show ?thesis using a(2) i p [of first] p [of k] by (auto simp: elem_def)
  qed
  moreover have "elem ?w y k = elem w y k" if "a_block (arr_at w y) \<noteq> ?b" for y k using that by (simp add: elem_def)
  ultimately show ?thesis using r' fill_array_shape [OF r'] by (auto simp: only_elements_def)
qed

text \<open>The end is not compared with the size of the array.\<close>

lemma fill_array_beyond:
  assumes ok: "heap_ok w" and x: "x < length (arrs w)" and et: "a_elttype (arr_at w x) \<noteq> aet_nil"
    and e: "fill_value cv (arr_at w x) v = Inr e" and l: "stop < 2 ^ 64"
    and out: "length (blocks w ! a_block (arr_at w x)) < position (arr_at w x) stop"
  shows "mk_si_fill_array_with_elt cv x v (LInt 0) (Some (LInt (int stop))) w = Inl ArrayOverrun"
proof -
  let ?a = "arr_at w x"
  have p: "position ?a k = position ?a 0 + k" for k by (simp add: position_def)
  have fit: "position ?a (a_dim ?a) \<le> length (blocks w ! a_block ?a)" using heap_okD [OF ok x] et by (simp add: arr_ok_def)
  then have "0 < stop" using out p [of stop] p [of "a_dim ?a"] by (cases stop) auto
  moreover have "fill_loop (a_block ?a) (position ?a 0) e stop w = Inl ArrayOverrun"
    using out fit p [of stop] p [of "a_dim ?a"] by (intro fill_loop_leaves) linarith+
  ultimately show ?thesis using e l by (simp add: mk_si_fill_array_with_elt_def integer_to_index_def Let_def)
qed

end
