(* ===== verification/Array_Heaps.thy ===== *)
theory Array_Heaps
  imports Array_Elements
begin

text \<open>
  The heaps a program can make with the operations on arrays (\<open>array_reach\<close>), in which no accepted
  subscript leaves its array; what extending a vector and replacing an array do to the elements and
  to the arrays displaced to it; the names of the element types.
\<close>

section \<open>Subscripts\<close>

definition dims_of :: "arr \<Rightarrow> nat list" where
  "dims_of a = (if a_kind a = Array_t then a_dims a else [a_dim a])"

lemma prod_dims: "arr_ok bs n a \<Longrightarrow> prod_list (dims_of a) = a_dim a"
  by (simp add: dims_of_def arr_ok_def)

lemma dim_le_prod: "list_all2 (<) ss (dims :: nat list) \<Longrightarrow> \<forall>s \<in> set ss. s < prod_list dims"
proof (induction ss dims rule: list_all2_induct)
  case (Cons s ss d ds)
  have "0 < prod_list ds" using row_major_bound [OF Cons.hyps(2), of 0] by (cases "prod_list ds") auto
  then have le: "d \<le> d * prod_list ds" "prod_list ds \<le> d * prod_list ds" using Cons.hyps(1) by simp_all
  have "s < d * prod_list ds" using Cons.hyps(1) le(1) by (rule less_le_trans)
  moreover have "t < d * prod_list ds" if "t \<in> set ss" for t using Cons.IH that le(2) by (blast intro: less_le_trans)
  ultimately show ?case by simp
qed simp

lemma row_major_index_valid:
  assumes ok: "arr_ok (blocks w) (length (arrs w)) (arr_at w x)" and ss: "list_all2 (<) ss (dims_of (arr_at w x))"
  shows "mk_cl_array_row_major_index w x (map (\<lambda>s. LInt (int s)) ss) = Inr (row_major 0 (dims_of (arr_at w x)) ss)"
    "row_major 0 (dims_of (arr_at w x)) ss < a_dim (arr_at w x)"
proof -
  let ?a = "arr_at w x"
  have t: "a_dim ?a \<le> MKCL_ATOTLIM" using ok by (simp add: arr_ok_def)
  have fx: "\<forall>s \<in> set ss. fixnum_range (int s)"
    using dim_le_prod [OF ss] prod_dims [OF ok] t
    by (fastforce simp: fixnum_range_def MKCL_ATOTLIM_def MOST_POSITIVE_FIXNUM_def MOST_NEGATIVE_FIXNUM_def)
  have "prod_list (dims_of ?a) \<le> 2 ^ 64" using prod_dims [OF ok] t by (simp add: MKCL_ATOTLIM_def MOST_POSITIVE_FIXNUM_def)
  then have "row_major_loop 0 (dims_of ?a) (map (\<lambda>s. LInt (int s)) ss) = Inr (row_major 0 (dims_of ?a) ss)"
    by (intro row_major_loop_valid [OF ss fx]) simp
  moreover have "length ss = length (dims_of ?a)" using ss by (rule list_all2_lengthD)
  moreover have "array_subscript (a_dim ?a) (LInt (int s)) = Inr s" if "ss = [s]" "a_kind ?a \<noteq> Array_t" for s
    using that ss fx by (simp add: subscript_iff dims_of_def)
  ultimately show "mk_cl_array_row_major_index w x (map (\<lambda>s. LInt (int s)) ss) = Inr (row_major 0 (dims_of ?a) ss)"
    using ss by (auto simp: mk_cl_array_row_major_index_def Let_def dims_of_def length_Suc_conv)
  show "row_major 0 (dims_of ?a) ss < a_dim ?a" using row_major_bound [OF ss, of 0] prod_dims [OF ok] by simp
qed

lemma row_major_loop_error: "row_major_loop j dims vs = Inl e \<Longrightarrow> e = OutOfBounds"
  by (induction j dims vs rule: row_major_loop.induct)
     (auto simp: array_subscript_def mkcl_fixnum_in_range_def split: lval.splits if_splits)

lemma row_major_index_invalid:
  assumes ok: "arr_ok (blocks w) (length (arrs w)) (arr_at w x)"
    and no: "\<nexists>ss. indx = map (\<lambda>s. LInt (int s)) ss \<and> list_all2 (<) ss (dims_of (arr_at w x))"
  shows "mk_cl_array_row_major_index w x indx =
    Inl (if length indx = length (dims_of (arr_at w x)) then OutOfBounds else WrongIndices)"
proof (cases "length indx = length (dims_of (arr_at w x))")
  case True
  let ?a = "arr_at w x"
  have le: "Suc 0 * prod_list (dims_of ?a) \<le> 2 ^ 64"
    using prod_dims [OF ok] ok by (simp add: arr_ok_def MKCL_ATOTLIM_def MOST_POSITIVE_FIXNUM_def)
  have "\<nexists>k. row_major_loop 0 (dims_of ?a) indx = Inr k" using row_major_loop_ok [OF True le] no by blast
  then have e: "row_major_loop 0 (dims_of ?a) indx = Inl OutOfBounds"
    by (cases "row_major_loop 0 (dims_of ?a) indx") (auto dest: row_major_loop_error)
  show ?thesis
  proof (cases "a_kind ?a = Array_t")
    case False
    then obtain v where v: "indx = [v]" using True by (auto simp: dims_of_def length_Suc_conv)
    have "wrap s = s" if "array_subscript (a_dim ?a) v = Inr s" for s
      using that ok by (auto simp: subscript_iff wrap_def arr_ok_def MKCL_ATOTLIM_def MOST_POSITIVE_FIXNUM_def)
    then have "array_subscript (a_dim ?a) v = Inl OutOfBounds"
      using e False v by (cases "array_subscript (a_dim ?a) v") (auto simp: dims_of_def)
    then show ?thesis using False v True by (simp add: mk_cl_array_row_major_index_def Let_def)
  qed (use e True in \<open>simp add: mk_cl_array_row_major_index_def Let_def dims_of_def\<close>)
qed (auto simp: mk_cl_array_row_major_index_def Let_def dims_of_def)

section \<open>The heaps a program makes\<close>

text \<open>Arrays are displaced to arrays; what a foreign block holds is not known.\<close>

definition displaced_to_array :: "aheap \<Rightarrow> link option \<Rightarrow> bool" where
  "displaced_to_array w displ \<longleftrightarrow> displ = None \<or> (\<exists>t. displ = Some (ArrayLink t) \<and> t < length (arrs w))"

inductive array_step :: "fresh_memory \<Rightarrow> conversions \<Rightarrow> aheap \<Rightarrow> aheap \<Rightarrow> bool" for fresh cv where
  make: "mk_si_make_pure_array fresh aet dims adj fillp displ off w = Inr (x, w') \<Longrightarrow> displaced_to_array w displ \<Longrightarrow> array_step fresh cv w w'"
| alloc: "mkcl_alloc_simple_vector fresh l aet w = (x, w') \<Longrightarrow> l \<le> MKCL_ADIMLIM \<Longrightarrow> array_step fresh cv w w'"
| aset: "x < length (arrs w) \<Longrightarrow> mk_si_aset cv w v x indx = Inr w' \<Longrightarrow> array_step fresh cv w w'"
| row_major_aset: "x < length (arrs w) \<Longrightarrow> mk_si_row_major_aset cv w x i v = Inr w' \<Longrightarrow> array_step fresh cv w w'"
| svset: "x < length (arrs w) \<Longrightarrow> mk_si_svset w x i v = Inr w' \<Longrightarrow> array_step fresh cv w w'"
| fill_pointer: "x < length (arrs w) \<Longrightarrow> mk_si_fill_pointer_set x v w = Inr w' \<Longrightarrow> array_step fresh cv w w'"
| push: "x < length (arrs w) \<Longrightarrow> mkcl_vector_push cv x v w = Inr (r, w') \<Longrightarrow> array_step fresh cv w w'"
| string_push: "x < length (arrs w) \<Longrightarrow> mkcl_base_string_push x c w = Inr (r, w') \<Longrightarrow> array_step fresh cv w w'"
| push_extend: "x < length (arrs w) \<Longrightarrow> mkcl_vector_push_extend fresh cv x v w = Inr (i, w') \<Longrightarrow> array_step fresh cv w w'"
| replace: "olda < length (arrs w) \<Longrightarrow> newa < length (arrs w) \<Longrightarrow> mk_si_replace_array olda newa w = Inr (x, w') \<Longrightarrow> array_step fresh cv w w'"
| copy: "mkcl_copy_subarray cv dest i0 orig i1 l w = Inr w' \<Longrightarrow> array_step fresh cv w w'"
| reverse: "mkcl_reverse_subarray x i0 i1 w = Inr w' \<Longrightarrow> array_step fresh cv w w'"
| fill: "mk_si_fill_array_with_elt cv x v start e w = Inr w' \<Longrightarrow> array_step fresh cv w w'"

inductive array_reach :: "fresh_memory \<Rightarrow> conversions \<Rightarrow> aheap \<Rightarrow> bool" for fresh cv where
  empty: "array_reach fresh cv \<lparr>arrs = [], blocks = []\<rparr>"
| step: "array_reach fresh cv w \<Longrightarrow> array_step fresh cv w w' \<Longrightarrow> array_reach fresh cv w'"

lemma alloc_simple_ok:
  assumes "mkcl_alloc_simple_vector fresh l aet w = (x, w')" and "heap_ok w" and "memory fresh" and "l \<le> MKCL_ADIMLIM"
  shows "heap_ok w'"
proof -
  let ?a = "\<lparr>a_kind = kind_for aet, a_dims = [], a_dim = l, a_hasfillp = False, a_fillp = l,
             a_adjustable = False, a_elttype = aet, a_displaced = None, a_block = length (blocks w), a_offset = 0, a_bit_offset = 0\<rparr>"
  have w': "w' = w\<lparr>arrs := arrs w @ [?a], blocks := blocks w @ [simple_block fresh aet l]\<rparr>"
    using assms(1) by (simp add: mkcl_alloc_simple_vector_def)
  have "arr_ok (blocks w @ [simple_block fresh aet l]) (Suc (length (arrs w))) ?a"
    using simple_block_length [OF assms(3), of aet l] assms(4)
    by (auto simp: arr_ok_def position_def MKCL_ADIMLIM_def MKCL_ATOTLIM_def kind_for_def)
  then show ?thesis unfolding w' using ok_except_new [OF assms(2), where a = ?a and bs = "[simple_block fresh aet l]"]
    by (intro heap_ok_from_except [of "length (arrs w)"]) simp_all
qed

lemma svset_shape: "mk_si_svset w x i v = Inr w' \<Longrightarrow> same_shape w w'"
  by (auto simp: mk_si_svset_def and_then_Inr split: if_splits dest: write_shape)

lemma aset_subscripts_shape: "mk_si_aset cv w v x indx = Inr w' \<Longrightarrow> same_shape w w'"
  by (auto simp: mk_si_aset_def and_then_Inr dest: aset_shape)

lemma row_major_aset_shape: "mk_si_row_major_aset cv w x i v = Inr w' \<Longrightarrow> same_shape w w'"
  by (auto simp: mk_si_row_major_aset_def and_then_Inr dest: aset_shape)

lemmas shapes = svset_shape aset_subscripts_shape row_major_aset_shape copy_subarray_shape reverse_subarray_shape fill_array_shape

lemma array_step_ok: "array_step fresh cv w w' \<Longrightarrow> memory fresh \<Longrightarrow> heap_ok w \<Longrightarrow> heap_ok w'"
proof (induction rule: array_step.induct)
  case (make aet dims adj fillp displ off w x w')
  then show ?case using make_pure_array_ok by (auto simp: displaced_to_array_def)
next
  case (alloc l aet w x w')
  then show ?case using alloc_simple_ok by blast
next
  case (push_extend x w v i w')
  then show ?case using vector_push_extend_ok(1) by blast
qed (auto dest: shapes intro: same_shape_ok fill_pointer_set_ok vector_push_ok base_string_push_ok replace_array_ok)

lemma array_reach_ok: "array_reach fresh cv w \<Longrightarrow> memory fresh \<Longrightarrow> heap_ok w"
  by (induction rule: array_reach.induct) (auto simp: heap_ok_def [of "\<lparr>arrs = [], blocks = []\<rparr>"] dest: array_step_ok)

text \<open>A heap with one array of two rows and three columns.\<close>

definition two_by_three :: aheap where
  "two_by_three = \<lparr>arrs = [\<lparr>a_kind = Array_t, a_dims = [2, 3], a_dim = 6, a_hasfillp = False, a_fillp = 0, a_adjustable = False,
       a_elttype = aet_object, a_displaced = None, a_block = 0, a_offset = 0, a_bit_offset = 0\<rparr>],
     blocks = [replicate 6 (LObj Cnil)]\<rparr>"

lemma two_by_three_reach: "array_reach fresh cv two_by_three"
proof -
  have "mk_si_make_pure_array fresh aet_object [LInt 2, LInt 3] False NoFill None (LInt 0) \<lparr>arrs = [], blocks = []\<rparr> = Inr (0, two_by_three)"
    by (simp add: mk_si_make_pure_array_def mkcl_fixnum_in_range_def fixnum_range_def MOST_POSITIVE_FIXNUM_def MOST_NEGATIVE_FIXNUM_def
        MKCL_ADIMLIM_def MKCL_ATOTLIM_def MKCL_ARANKLIM_def wrap_def place_elements_def mkcl_array_allocself_def upd_arr_def new_block_def
        two_by_three_def)
  then show ?thesis by (rule array_reach.step [OF array_reach.empty array_step.make]) (simp add: displaced_to_array_def)
qed

section \<open>Replacing an array\<close>

lemma displace_all_unrelated:
  "displace_all ds t w = Inr w' \<Longrightarrow> y \<notin> set ds \<Longrightarrow> y \<noteq> t \<Longrightarrow> arr_at w' y = arr_at w y"
proof (induction ds arbitrary: w)
  case (Cons d ds)
  then obtain offset w1 where d: "displace d (ArrayLink t) (LInt offset) w = Inr w1" "displace_all ds t w1 = Inr w'"
    by (auto simp: and_then_Inr)
  show ?case using Cons.IH [OF d(2)] displace_unrelated [OF d(1)] Cons.prems by simp
qed simp

lemma displace_dim:
  assumes "displace x (ArrayLink t) offset w = Inr w'" and "x < length (arrs w)" and "t < length (arrs w)"
  shows "a_dim (arr_at w' y) = a_dim (arr_at w y)"
proof (cases "y = x")
  case True
  obtain j where "w' = point_into x t j (link_arrays x t w)" using displace_array [OF assms(1)] by blast
  then show ?thesis using True point_into_header(3) [of x "link_arrays x t w" t j] assms(2)
      same_but_links_fields(3) [OF link_arrays_at [OF assms(2,3)]] by simp
next
  case False
  then show ?thesis using same_but_links_fields(3) [OF displace_other [OF assms]] by simp
qed

lemma displace_all_dim:
  assumes "displace_all ds t w = Inr w'" and "\<forall>d \<in> set ds. d < length (arrs w)" and "t < length (arrs w)"
  shows "a_dim (arr_at w' y) = a_dim (arr_at w y)"
  using assms
proof (induction ds arbitrary: w)
  case (Cons d ds)
  then obtain offset w1 where d: "displace d (ArrayLink t) (LInt offset) w = Inr w1" "displace_all ds t w1 = Inr w'"
    by (auto simp: and_then_Inr)
  have "length (arrs w1) = length (arrs w)" using displace_array [OF d(1)] by (auto simp: point_into_other)
  then show ?case using Cons.IH [OF d(2)] displace_dim [OF d(1)] Cons.prems by simp
qed simp

lemma displace_all_links:
  assumes "displace_all ds t w = Inr w'" and "distinct ds" and "t \<notin> set ds" and "\<forall>d \<in> set ds. d < length (arrs w)" and "t < length (arrs w)"
  shows "\<forall>d \<in> set ds. a_displaced (arr_at w' d) = Some (Some (ArrayLink t), []) \<and> a_elttype (arr_at w' d) = a_elttype (arr_at w' t)"
  using assms
proof (induction ds arbitrary: w)
  case (Cons d ds)
  then obtain offset w1 where d: "displace d (ArrayLink t) (LInt offset) w = Inr w1" "displace_all ds t w1 = Inr w'"
    by (auto simp: and_then_Inr)
  obtain j where j: "a_elttype (arr_at w t) = a_elttype (arr_at w d)" "w1 = point_into d t j (link_arrays d t w)"
    using displace_array [OF d(1)] by blast
  have len: "length (arrs w1) = length (arrs w)" using j(2) by (simp add: point_into_other)
  have dt: "d < length (arrs w)" "t < length (arrs w)" "d \<noteq> t" using Cons.prems by auto
  note sl = same_but_links_fields [OF link_arrays_at [OF dt(1,2)]]
  have 1: "a_displaced (arr_at w1 d) = Some (Some (ArrayLink t), [])" "a_elttype (arr_at w1 d) = a_elttype (arr_at w1 t)"
    using point_into_header [of d "link_arrays d t w" t j] link_arrays_displaced [OF dt] dt j sl by (simp_all add: point_into_other)
  have untouched: "arr_at w' d = arr_at w1 d"
    using Cons.prems(2) displace_all_unrelated [OF d(2), of d] dt(3) by simp
  have "same_but_links (arr_at w' t) (arr_at w1 t)" using displace_all_other [OF d(2)] Cons.prems len by simp
  then have "a_elttype (arr_at w' t) = a_elttype (arr_at w1 t)" by (rule same_but_links_fields)
  then show ?case using Cons.IH [OF d(2)] Cons.prems len 1 untouched by simp
qed simp

text \<open>
  The arrays displaced to the old array share the elements of the adjusted one, at their old offsets; the
  array they name as the one they are displaced to is however the new one, which the caller has dropped.
\<close>

lemma replace_array_reports:
  assumes r: "mk_si_replace_array olda newa w = Inr (x, w')" and ok: "heap_ok w" and o: "olda < length (arrs w)" and n: "newa < length (arrs w)"
    and adj: "a_adjustable (arr_at w olda)" and nd: "newa \<notin> set (dependents (arr_at w olda))" "olda \<noteq> newa"
    and od: "olda \<notin> set (dependents (arr_at w olda))" and dist: "distinct (dependents (arr_at w olda))"
    and l: "\<forall>d \<in> set (dependents (arr_at w olda)). linked_to w d (T d) (J d)"
    and T: "\<forall>d \<in> set (dependents (arr_at w olda)). T d \<notin> set (dependents (arr_at w olda)) \<and> T d \<noteq> newa"
    and d: "d \<in> set (dependents (arr_at w olda))"
  shows "shares (arr_at w' d) (arr_at w' olda) (J d)" "mk_cl_array_displacement w' d = Inr (Some (ArrayLink newa), int (J d))"
    "a_dim (arr_at w' d) = a_dim (arr_at w d)"
proof -
  show s: "shares (arr_at w' d) (arr_at w' olda) (J d)" using replace_array_follow [OF r ok o n adj nd od dist l T] d by blast
  obtain w1 where w1: "displace_all (dependents (arr_at w olda)) newa w = Inr w1" "w' = upd_arr olda (\<lambda>_. arr_at w1 newa) w1"
    using r adj by (auto simp: mk_si_replace_array_def Let_def and_then_Inr split: if_splits)
  have b: "\<forall>d \<in> set (dependents (arr_at w olda)). d < length (arrs w)" using dependents_bound [OF heap_okD [OF ok o]] by blast
  have len: "length (arrs w1) = length (arrs w)" using displace_all_other [OF w1(1) b n nd(1)] by simp
  have "d \<noteq> olda" using d od by blast
  then have same: "arr_at w' olda = arr_at w' newa" "arr_at w' d = arr_at w1 d" "arr_at w' newa = arr_at w1 newa"
    using o len nd(2) by (simp_all add: w1(2))
  then show "a_dim (arr_at w' d) = a_dim (arr_at w d)" using displace_all_dim [OF w1(1) b n] by simp
  have "linked_to w' d newa (J d)"
    using same s displace_all_links [OF w1(1) dist nd(1) b n] d by (simp add: linked_to_def)
  then show "mk_cl_array_displacement w' d = Inr (Some (ArrayLink newa), int (J d))" by (rule linked_displacement)
qed

text \<open>
  An adjustable vector of two elements, a vector displaced to its second element, one displaced to that, and
  a vector to replace the first.
\<close>

definition object_vector :: "nat \<Rightarrow> bool \<Rightarrow> (link option \<times> nat list) option \<Rightarrow> nat \<Rightarrow> nat \<Rightarrow> arr" where
  "object_vector dim adj displ blk off = \<lparr>a_kind = Vector_t, a_dims = [], a_dim = dim, a_hasfillp = adj, a_fillp = dim, a_adjustable = adj,
     a_elttype = aet_object, a_displaced = displ, a_block = blk, a_offset = off, a_bit_offset = 0\<rparr>"

lemma object_vector_fields [simp]:
  "a_kind (object_vector dim adj displ blk off) = Vector_t" "a_dim (object_vector dim adj displ blk off) = dim"
  "a_fillp (object_vector dim adj displ blk off) = dim" "a_adjustable (object_vector dim adj displ blk off) = adj"
  "a_elttype (object_vector dim adj displ blk off) = aet_object" "a_displaced (object_vector dim adj displ blk off) = displ"
  "a_block (object_vector dim adj displ blk off) = blk" "a_offset (object_vector dim adj displ blk off) = off"
  "a_bit_offset (object_vector dim adj displ blk off) = 0" "position (object_vector dim adj displ blk off) i = off + i"
  by (simp_all add: object_vector_def position_def)

definition displaced_heap :: aheap where
  "displaced_heap = \<lparr>arrs = [object_vector 2 True (Some (None, [1])) 0 0, object_vector 1 False (Some (Some (ArrayLink 0), [2])) 0 1,
       object_vector 1 False (Some (Some (ArrayLink 1), [])) 0 1, object_vector 4 True None 1 0],
     blocks = [[LInt 1, LInt 2], [LInt 5, LInt 6, LInt 7, LInt 8]]\<rparr>"

lemma displaced_heap_ok: "heap_ok displaced_heap"
  by (simp add: heap_ok_def displaced_heap_def arr_ok_def kind_for_def MKCL_ATOTLIM_def MOST_POSITIVE_FIXNUM_def)

lemma displaced_heap_at [simp]:
  "arr_at displaced_heap 0 = object_vector 2 True (Some (None, [1])) 0 0"
  "arr_at displaced_heap (Suc 0) = object_vector 1 False (Some (Some (ArrayLink 0), [2])) 0 1"
  "arr_at displaced_heap 2 = object_vector 1 False (Some (Some (ArrayLink 1), [])) 0 1"
  "arr_at displaced_heap 3 = object_vector 4 True None 1 0"
  "length (arrs displaced_heap) = 4"
  by (simp_all add: displaced_heap_def)

lemma displaced_heap_replaces: "\<exists>w'. mk_si_replace_array 0 3 displaced_heap = Inr (0, w')"
  by (simp add: mk_si_replace_array_def dependents_def mk_cl_array_displacement_def displace_def Let_def
      mkcl_fixnum_in_range_def fixnum_range_def MOST_POSITIVE_FIXNUM_def MOST_NEGATIVE_FIXNUM_def)

text \<open>An array displaced to such an array is not on the list: it stays with the old elements.\<close>

lemma replace_array_grandchild:
  assumes r: "mk_si_replace_array olda newa w = Inr (x, w')" and ok: "heap_ok w" and o: "olda < length (arrs w)" and n: "newa < length (arrs w)"
    and adj: "a_adjustable (arr_at w olda)" and nd: "newa \<notin> set (dependents (arr_at w olda))"
    and c: "c \<notin> set (dependents (arr_at w olda))" "c \<noteq> olda" "a_block (arr_at w c) = a_block (arr_at w olda)"
    and new: "a_block (arr_at w newa) \<noteq> a_block (arr_at w olda)"
  shows "a_block (arr_at w' c) \<noteq> a_block (arr_at w' olda)" "elem w' c k = elem w c k"
proof -
  note spec = replace_array_spec [OF r ok o n adj nd]
  note cf = same_but_links_fields [OF spec(5) [OF c(1,2)]] and of = same_but_links_fields [OF spec(2)]
  show "a_block (arr_at w' c) \<noteq> a_block (arr_at w' olda)" using c(3) new by (simp add: cf of)
  show "elem w' c k = elem w c k" by (simp add: elem_def cf spec(3))
qed

section \<open>Extending a vector\<close>

lemma store_elt_cong: "a_elttype a = a_elttype b \<Longrightarrow> a_kind a = a_kind b \<Longrightarrow> store_elt cv a v = store_elt cv b v"
  by (cases "a_elttype b"; cases v) (simp_all add: store_elt_def)

definition extended :: "aheap \<Rightarrow> aheap \<Rightarrow> nat \<Rightarrow> bool" where
  "extended w w' x \<longleftrightarrow> heap_ok w' \<and> x < length (arrs w') \<and> a_dim (arr_at w' x) = extended_length (a_dim (arr_at w x))
     \<and> a_elttype (arr_at w' x) = a_elttype (arr_at w x) \<and> a_kind (arr_at w' x) = a_kind (arr_at w x)
     \<and> a_fillp (arr_at w' x) = a_fillp (arr_at w x) \<and> (\<forall>k < a_fillp (arr_at w x). elem w' x k = elem w x k)
     \<and> (\<forall>y < length (arrs w). y \<noteq> x \<longrightarrow> arr_at w' y = arr_at w y \<and> (a_block (arr_at w y) < length (blocks w) \<longrightarrow> (\<forall>k. elem w' y k = elem w y k)))
     \<and> length (blocks w) \<le> a_block (arr_at w' x)"

lemma extend_vector_extends:
  assumes ok: "heap_ok w" and x: "x < length (arrs w)" and m: "memory fresh" and v: "vectorp (arr_at w x)"
    and et: "a_elttype (arr_at w x) \<noteq> aet_nil" and adj: "a_adjustable (arr_at w x)" and d: "a_dim (arr_at w x) < MKCL_ADIMLIM"
    and nd: "dependents (arr_at w x) = []"
    and bits: "a_elttype (arr_at w x) = aet_bit \<longrightarrow> (\<forall>k < a_fillp (arr_at w x). elem w x k = LInt 0 \<or> elem w x k = LInt 1)"
  shows "\<exists>w'. mkcl_extend_vector fresh cv x w = Inr (x, w') \<and> extended w w' x"
proof -
  let ?s = "arr_at w x" and ?n = "length (arrs w)" and ?l = "extended_length (a_dim (arr_at w x))"
  let ?a = "\<lparr>a_kind = kind_for (a_elttype ?s), a_dims = [], a_dim = ?l, a_hasfillp = True, a_fillp = a_fillp ?s, a_adjustable = True,
      a_elttype = a_elttype ?s, a_displaced = None, a_block = length (blocks w), a_offset = 0, a_bit_offset = 0\<rparr>"
  let ?w1 = "w\<lparr>arrs := arrs w @ [?a], blocks := blocks w @ [new_block fresh (a_elttype ?s) ?l]\<rparr>"
  have s: "a_fillp ?s \<le> a_dim ?s" "a_kind ?s = kind_for (a_elttype ?s)" "a_block ?s < length (blocks w)" "a_dim ?s < ?l" "?l \<le> MKCL_ADIMLIM"
    using heap_okD [OF ok x] v et extended_length_bounds [OF d] by (auto simp: arr_ok_def vectorp_def)
  have mk: "mk_si_make_vector fresh (a_elttype ?s) (LInt (int ?l)) True (FillAt (LInt (int (a_fillp ?s)))) None (LInt 0) w = Inr (?n, ?w1)"
    using s by (intro make_vector_spec) simp_all
  have ok1: "heap_ok ?w1" using make_vector_ok(1) [OF mk ok m] by simp
  have at1: "arr_at ?w1 x = ?s" "arr_at ?w1 ?n = ?a" using x by (simp_all add: nth_append)
  have el1: "elem ?w1 y k = elem w y k" if "y < ?n" "a_block (arr_at w y) < length (blocks w)" for y k
    using that by (simp add: elem_def nth_append)
  have "store_elt cv (arr_at ?w1 ?n) (elem ?w1 x (0 + k)) = Inr (elem ?w1 x (0 + k))"
    if "k < a_fillp ?s" "a_elttype (arr_at ?w1 ?n) \<noteq> a_elttype (arr_at ?w1 x) \<or> a_elttype (arr_at ?w1 ?n) = aet_bit" for k
    using that bits el1 [OF x s(3), of k] unfolding at1 by (auto simp: store_elt_def)
  then have "\<exists>w2. mkcl_copy_subarray cv ?n 0 x 0 (a_fillp ?s) ?w1 = Inr w2 \<and> copied ?w1 w2 ?n 0 x 0 (a_fillp ?s)"
    using x s et at1 by (intro copy_subarray_copies [OF ok1]) (simp_all del: arr.simps aheap.simps add: arr.select_convs aheap.select_convs)
  then obtain w2 where w2: "mkcl_copy_subarray cv ?n 0 x 0 (a_fillp ?s) ?w1 = Inr w2" "copied ?w1 w2 ?n 0 x 0 (a_fillp ?s)" by blast
  have a2: "arrs w2 = arrs w @ [?a]" using w2(2) by (simp add: copied_def same_shape_def)
  have at2: "arr_at w2 x = ?s" "arr_at w2 ?n = ?a" using x by (simp_all add: a2 nth_append)
  let ?w' = "upd_arr x (\<lambda>_. ?a) w2"
  have r: "mk_si_replace_array x ?n w2 = Inr (x, ?w')"
    using s(2) adj nd v at2 by (simp add: mk_si_replace_array_def Let_def vectorp_def)
  have e: "mkcl_extend_vector fresh cv x w = Inr (x, ?w')"
    using adj d mk w2(1) r by (simp add: mkcl_extend_vector_def Let_def)
  have c: "elem w2 ?n k = elem w x k" if "k < a_fillp ?s" for k using w2(2) that el1 [OF x s(3)] by (simp add: copied_def)
  have at': "arr_at ?w' x = ?a" "blocks ?w' = blocks w2" using x by (simp_all add: a2)
  have "elem ?w' x k = elem w2 ?n k" for k by (simp add: elem_def at' at2)
  moreover have "arr_at ?w' y = arr_at w y \<and> (a_block (arr_at w y) < length (blocks w) \<longrightarrow> (\<forall>k. elem ?w' y k = elem w y k))" if y: "y < ?n" "y \<noteq> x" for y
  proof -
    have "elem w2 y k = elem w y k" if b: "a_block (arr_at w y) < length (blocks w)" for k
    proof -
      have "a_block (arr_at ?w1 y) \<noteq> a_block (arr_at ?w1 ?n)" using y b at1(2) by (simp add: nth_append)
      then have "elem w2 y k = elem ?w1 y k" using w2(2) unfolding copied_def by blast
      then show ?thesis using el1 [OF y(1) b] by simp
    qed
    moreover have a: "arr_at ?w' y = arr_at w y" "arr_at w2 y = arr_at w y" using y by (simp_all add: a2 nth_append)
    ultimately show ?thesis by (simp add: elem_def a at'(2))
  qed
  ultimately have "extended w ?w' x"
    using extend_vector_header(1,2) [OF e ok x m] at' s x c by (simp add: extended_def a2)
  then show ?thesis using e by blast
qed

lemma vector_push_extend_pushes:
  assumes ok: "heap_ok w" and x: "x < length (arrs w)" and m: "memory fresh" and v: "vectorp (arr_at w x)"
    and et: "a_elttype (arr_at w x) \<noteq> aet_nil" and st: "store_elt cv (arr_at w x) val = Inr e"
    and room: "a_fillp (arr_at w x) < a_dim (arr_at w x) \<or>
      (a_adjustable (arr_at w x) \<and> a_dim (arr_at w x) < MKCL_ADIMLIM \<and> dependents (arr_at w x) = [])"
    and bits: "a_elttype (arr_at w x) = aet_bit \<longrightarrow> (\<forall>k < a_fillp (arr_at w x). elem w x k = LInt 0 \<or> elem w x k = LInt 1)"
  shows "\<exists>w'. mkcl_vector_push_extend fresh cv x val w = Inr (a_fillp (arr_at w x), w') \<and> a_fillp (arr_at w' x) = a_fillp (arr_at w x) + 1
    \<and> (\<forall>k < a_fillp (arr_at w x). elem w' x k = elem w x k) \<and> elem w' x (a_fillp (arr_at w x)) = e"
proof -
  let ?f = "a_fillp (arr_at w x)"
  let ?grow = "if a_dim (arr_at w x) \<le> ?f then and_then (mkcl_extend_vector fresh cv x w) (\<lambda>(_, w'). Inr w') else Inr w"
  have le: "?f \<le> a_dim (arr_at w x)" using heap_okD [OF ok x] by (simp add: arr_ok_def)
  have "\<exists>w1. ?grow = Inr w1 \<and> heap_ok w1 \<and> x < length (arrs w1) \<and> ?f < a_dim (arr_at w1 x) \<and> a_elttype (arr_at w1 x) = a_elttype (arr_at w x)
      \<and> a_kind (arr_at w1 x) = a_kind (arr_at w x) \<and> (\<forall>k < ?f. elem w1 x k = elem w x k)"
  proof (cases "a_dim (arr_at w x) \<le> ?f")
    case True
    then obtain w1 where w1: "mkcl_extend_vector fresh cv x w = Inr (x, w1)" "extended w w1 x"
      using extend_vector_extends [OF ok x m v et _ _ _ bits, of cv] room by auto
    then show ?thesis using True le room extended_length_bounds(1) [of "a_dim (arr_at w x)"] by (auto simp: extended_def)
  qed (use ok x in auto)
  then obtain w1 where w1: "?grow = Inr w1" "heap_ok w1" "x < length (arrs w1)" "?f < a_dim (arr_at w1 x)"
      "a_elttype (arr_at w1 x) = a_elttype (arr_at w x)" "a_kind (arr_at w1 x) = a_kind (arr_at w x)" "\<forall>k < ?f. elem w1 x k = elem w x k" by blast
  have st1: "store_elt cv (arr_at w1 x) val = Inr e" using st store_elt_cong [OF w1(5,6)] by simp
  obtain w2 where w2: "mkcl_aset_index cv w1 x ?f val = Inr w2" "same_shape w1 w2"
      "\<And>y k. elem w2 y k = (if a_block (arr_at w1 y) = a_block (arr_at w1 x) \<and> position (arr_at w1 y) k = position (arr_at w1 x) ?f then e else elem w1 y k)"
    using aset_spec [OF w1(2,3) _ w1(4) st1] et w1(5) by auto
  let ?w' = "upd_arr x (\<lambda>a. a\<lparr>a_fillp := ?f + 1\<rparr>) w2"
  have a2: "arrs w2 = arrs w1" using w2(2) by (simp add: same_shape_def)
  have p: "mkcl_vector_push_extend fresh cv x val w = Inr (?f, ?w')"
    using v w1(1) w2(1) by (simp add: mkcl_vector_push_extend_def Let_def)
  have el: "elem ?w' x k = elem w2 x k" for k using w1(3) by (simp add: elem_def a2 position_def)
  have "a_fillp (arr_at ?w' x) = ?f + 1" using w1(3) by (simp add: a2)
  then show ?thesis using p el w1(7) w2(3) [of x] by auto
qed

section \<open>Names\<close>

lemma elttype_name_round_trip: "symbol_to_elttype upgrade n (elttype_to_symbol aet) = Some aet"
  by (cases aet) simp_all

section \<open>No access leaves its block\<close>

lemma subscript_error: "array_subscript dim v = Inl e \<Longrightarrow> e = OutOfBounds"
  by (auto simp: array_subscript_def mkcl_fixnum_in_range_def split: lval.splits if_splits)

lemma subscript_cases:
  obtains (ok) s where "array_subscript dim v = Inr s" "s < dim" | (bad) "array_subscript dim v = Inl OutOfBounds"
  by (cases "array_subscript dim v") (auto simp: subscript_iff dest: subscript_error)

lemma row_major_index_cases:
  assumes "arr_ok (blocks w) (length (arrs w)) (arr_at w x)"
  obtains (ok) k where "mk_cl_array_row_major_index w x indx = Inr k" "k < a_dim (arr_at w x)"
  | (bad) e where "mk_cl_array_row_major_index w x indx = Inl e" "e = OutOfBounds \<or> e = WrongIndices"
proof (cases "\<exists>ss. indx = map (\<lambda>s. LInt (int s)) ss \<and> list_all2 (<) ss (dims_of (arr_at w x))")
  case True
  then show ?thesis using row_major_index_valid [OF assms] ok by blast
next
  case False
  then show ?thesis using row_major_index_invalid [OF assms False] bad by auto
qed

definition no_overrun :: "conversions \<Rightarrow> bool" where
  "no_overrun cv \<longleftrightarrow> (\<forall>aet v. to_float cv aet v \<noteq> Inl ArrayOverrun)"

lemma within_error: "within lo hi v = Inl e \<Longrightarrow> e = TypeErr"
  by (cases v) (auto split: if_splits)

lemma store_elt_safe: "no_overrun cv \<Longrightarrow> store_elt cv a v \<noteq> Inl ArrayOverrun"
  by (auto simp: store_elt_def no_overrun_def split: elttype.splits lval.splits dest: within_error)

lemma aref_safe: "heap_ok w \<Longrightarrow> x < length (arrs w) \<Longrightarrow> mkcl_aref_index w x i \<noteq> Inl ArrayOverrun"
  by (simp add: aref_ok)

lemma aset_safe:
  assumes "heap_ok w" and "x < length (arrs w)" and "no_overrun cv"
  shows "mkcl_aset_index cv w x i v \<noteq> Inl ArrayOverrun"
proof (cases "store_elt cv (arr_at w x) v")
  case (Inl e)
  then show ?thesis using store_elt_safe [OF assms(3), of "arr_at w x" v] by (auto simp: mkcl_aset_index_def Let_def)
next
  case (Inr e)
  then show ?thesis
    using write_block_ok [OF heap_okD [OF assms(1,2)], of i e] by (auto simp: mkcl_aset_index_def Let_def)
qed

lemma elements_safe:
  assumes ok: "heap_ok w" and x: "x < length (arrs w)" and cv: "no_overrun cv"
  shows "mk_cl_aref w x indx \<noteq> Inl ArrayOverrun" "mk_si_aset cv w v x indx \<noteq> Inl ArrayOverrun"
    "mk_cl_row_major_aref w x i \<noteq> Inl ArrayOverrun" "mk_si_row_major_aset cv w x i v \<noteq> Inl ArrayOverrun"
    "mk_cl_svref w x i \<noteq> Inl ArrayOverrun" "mk_si_svset w x i v \<noteq> Inl ArrayOverrun"
    "mkcl_vector_push cv x v w \<noteq> Inl ArrayOverrun"
proof -
  note a = heap_okD [OF ok x]
  show "mk_cl_aref w x indx \<noteq> Inl ArrayOverrun" "mk_si_aset cv w v x indx \<noteq> Inl ArrayOverrun"
    by (cases rule: row_major_index_cases [OF a, of indx]; auto simp: mk_cl_aref_def mk_si_aset_def aref_safe [OF ok x] aset_safe [OF ok x cv])+
  show "mk_cl_row_major_aref w x i \<noteq> Inl ArrayOverrun" "mk_si_row_major_aset cv w x i v \<noteq> Inl ArrayOverrun"
    by (cases rule: subscript_cases [of "a_dim (arr_at w x)" i];
        simp add: mk_cl_row_major_aref_def mk_si_row_major_aset_def aref_safe [OF ok x] aset_safe [OF ok x cv])+
  show "mk_cl_svref w x i \<noteq> Inl ArrayOverrun" "mk_si_svset w x i v \<noteq> Inl ArrayOverrun"
    by (cases rule: subscript_cases [of "a_dim (arr_at w x)" i];
        auto simp: mk_cl_svref_def mk_si_svset_def simple_vector_def read_block_ok [OF a] write_block_ok [OF a])+
  show "mkcl_vector_push cv x v w \<noteq> Inl ArrayOverrun"
    using aset_safe [OF ok x cv, of "a_fillp (arr_at w x)" v]
    by (cases "mkcl_aset_index cv w x (a_fillp (arr_at w x)) v") (auto simp: mkcl_vector_push_def Let_def)
qed

end
