(* ===== verification/Bit_Arrays.thy ===== *)
theory Bit_Arrays
  imports Integer_Bits Array_Heaps
begin

text \<open>
  The logical operations on bit arrays (\<open>mk_si_bit_array_op\<close> of \<^verbatim>\<open>src/src/c/num_log.c\<close>). The code
  works on bytes; element \<open>i\<close> of a bit array is bit \<open>i mod 8\<close> of a byte, counted from the least
  significant one (\<open>MKCL_LSB_FIRST\<close>, which \<^verbatim>\<open>mkcl/config.h.in\<close> sets for Intel and ARM), so that eight
  consecutive elements of a block make a byte.

  An argument that is no array is not modelled. Two arrays in different blocks do not overlap.
\<close>

section \<open>Bytes\<close>

datatype bit_array_error = ArrayErr array_error | NumErr num_error | IllegalArguments

fun lift_error :: "('e \<Rightarrow> bit_array_error) \<Rightarrow> 'e + 'a \<Rightarrow> bit_array_error + 'a" where
  "lift_error c (Inl e) = Inl (c e)"
| "lift_error c (Inr x) = Inr x"

type_synonym pointer = "nat \<times> nat"

definition in_block :: "aheap \<Rightarrow> pointer \<Rightarrow> bool" where
  "in_block w p \<longleftrightarrow> fst p < length (blocks w) \<and> 8 * snd p + 8 \<le> length (blocks w ! fst p)"

definition byte_value :: "lval list \<Rightarrow> int" where
  "byte_value vs = horner_sum of_bool 2 (map (\<lambda>v. v = LInt 1) vs)"

definition byte_bits :: "int \<Rightarrow> lval list" where
  "byte_bits v = map (\<lambda>k. LInt (of_bool (bit v k))) [0..<8]"

definition load_byte :: "aheap \<Rightarrow> pointer \<Rightarrow> array_error + int" where
  "load_byte w p =
     (if in_block w p then Inr (byte_value (take 8 (drop (8 * snd p) (blocks w ! fst p)))) else Inl ArrayOverrun)"

definition save_byte :: "aheap \<Rightarrow> pointer \<Rightarrow> int \<Rightarrow> array_error + aheap" where
  "save_byte w p v =
     (if in_block w p
      then let b = blocks w ! fst p
           in Inr (w\<lparr>blocks := (blocks w)[fst p := take (8 * snd p) b @ byte_bits v @ drop (8 * snd p + 8) b]\<rparr>)
      else Inl ArrayOverrun)"

abbreviation advance :: "pointer \<Rightarrow> nat \<Rightarrow> pointer" where
  "advance p i \<equiv> (fst p, snd p + i)"

definition set_high :: "int \<Rightarrow> nat \<Rightarrow> int \<Rightarrow> int" where
  "set_high place nbits value =
     (place AND NOT (drop_bit nbits (- 256))) OR (value AND drop_bit nbits (- 256))"

definition set_low :: "int \<Rightarrow> nat \<Rightarrow> int \<Rightarrow> int" where
  "set_low place nbits value =
     (place AND drop_bit (8 - nbits) (- 256)) OR (value AND NOT (drop_bit (8 - nbits) (- 256)))"

definition extract_byte :: "aheap \<Rightarrow> pointer \<Rightarrow> nat \<Rightarrow> nat \<Rightarrow> array_error + int" where
  "extract_byte w p i off =
     and_then (load_byte w (advance p (i + 1))) (\<lambda>n.
     and_then (load_byte w (advance p i)) (\<lambda>m. Inr (push_bit off m OR drop_bit (8 - off) n)))"

definition store_byte :: "pointer \<Rightarrow> nat \<Rightarrow> nat \<Rightarrow> int \<Rightarrow> aheap \<Rightarrow> array_error + aheap" where
  "store_byte p i off value w =
     and_then (load_byte w (advance p i)) (\<lambda>m.
     and_then (save_byte w (advance p i) (set_low m (8 - off) (drop_bit off value))) (\<lambda>w1.
     and_then (load_byte w1 (advance p (i + 1))) (\<lambda>n.
       save_byte w1 (advance p (i + 1)) (set_high n off (push_bit (8 - off) value)))))"

section \<open>The loops\<close>

fun for_bytes :: "(nat \<Rightarrow> aheap \<Rightarrow> array_error + aheap) \<Rightarrow> nat list \<Rightarrow> aheap \<Rightarrow> array_error + aheap" where
  "for_bytes f [] w = Inr w"
| "for_bytes f (i # is) w = and_then (f i w) (for_bytes f is)"

type_synonym byte_op = "int \<Rightarrow> int \<Rightarrow> int"

text \<open>All three arrays begin at a byte.\<close>

definition aligned_byte :: "byte_op \<Rightarrow> pointer \<Rightarrow> pointer \<Rightarrow> pointer \<Rightarrow> nat \<Rightarrow> aheap \<Rightarrow> array_error + aheap" where
  "aligned_byte f xp yp rp i w =
     and_then (load_byte w (advance xp i)) (\<lambda>x.
     and_then (load_byte w (advance yp i)) (\<lambda>y. save_byte w (advance rp i) (f x y)))"

definition aligned_rest :: "byte_op \<Rightarrow> nat \<Rightarrow> pointer \<Rightarrow> pointer \<Rightarrow> pointer \<Rightarrow> nat \<Rightarrow> aheap \<Rightarrow> array_error + aheap" where
  "aligned_rest f j xp yp rp n w =
     and_then (load_byte w (advance rp n)) (\<lambda>r.
     and_then (load_byte w (advance xp n)) (\<lambda>x.
     and_then (load_byte w (advance yp n)) (\<lambda>y. save_byte w (advance rp n) (set_high r j (f x y)))))"

definition aligned_op :: "byte_op \<Rightarrow> nat \<Rightarrow> pointer \<Rightarrow> pointer \<Rightarrow> pointer \<Rightarrow> aheap \<Rightarrow> array_error + aheap" where
  "aligned_op f d xp yp rp w =
     and_then (for_bytes (aligned_byte f xp yp rp) [0..<d div 8] w) (\<lambda>w1.
       if d mod 8 > 0 then aligned_rest f (d mod 8) xp yp rp (d div 8) w1 else Inr w1)"

text \<open>The general case.\<close>

definition unaligned_byte ::
  "byte_op \<Rightarrow> nat \<Rightarrow> pointer \<times> nat \<Rightarrow> pointer \<times> nat \<Rightarrow> pointer \<times> nat \<Rightarrow> nat \<Rightarrow> aheap \<Rightarrow> array_error + aheap" where
  "unaligned_byte f d x y r i w =
     and_then (extract_byte w (fst x) i (snd x)) (\<lambda>xi.
     and_then (extract_byte w (fst y) i (snd y)) (\<lambda>yi.
       if i = d div 8 then
         (if d mod 8 = 0 then Inr w
          else and_then (extract_byte w (fst r) i (snd r)) (\<lambda>ri.
               store_byte (fst r) i (snd r) (set_high ri (d mod 8) (f xi yi)) w))
       else store_byte (fst r) i (snd r) (f xi yi) w))"

definition unaligned_op ::
  "byte_op \<Rightarrow> nat \<Rightarrow> pointer \<times> nat \<Rightarrow> pointer \<times> nat \<Rightarrow> pointer \<times> nat \<Rightarrow> aheap \<Rightarrow> array_error + aheap" where
  "unaligned_op f d x y r = for_bytes (unaligned_byte f d x y r) [0..<d div 8 + 1]"

text \<open>The result of a temporary array \<open>t\<close> is copied to the array it stands for.\<close>

definition copy_result_byte :: "nat \<Rightarrow> pointer \<Rightarrow> pointer \<times> nat \<Rightarrow> nat \<Rightarrow> aheap \<Rightarrow> array_error + aheap" where
  "copy_result_byte d t r i w =
     (if i = d div 8 then
        (if d mod 8 = 0 then Inr w
         else and_then (extract_byte w (fst r) i (snd r)) (\<lambda>ri.
              and_then (load_byte w (advance t i)) (\<lambda>v. store_byte (fst r) i (snd r) (set_high ri (d mod 8) v) w)))
      else and_then (load_byte w (advance t i)) (\<lambda>v. store_byte (fst r) i (snd r) v w))"

definition copy_result_back :: "nat \<Rightarrow> pointer \<Rightarrow> pointer \<times> nat \<Rightarrow> aheap \<Rightarrow> array_error + aheap" where
  "copy_result_back d t r = for_bytes (copy_result_byte d t r) [0..<d div 8 + 1]"

section \<open>The operation\<close>

datatype result_argument = ResultNil | ResultT | ResultArray nat

definition self_of :: "arr \<Rightarrow> pointer" where
  "self_of a = (a_block a, a_offset a)"

text \<open>The distance between two arrays in bits.\<close>

definition overlaps :: "arr \<Rightarrow> arr \<Rightarrow> nat \<Rightarrow> bool" where
  "overlaps r x d \<longleftrightarrow> a_block r = a_block x
     \<and> (let i = (int (a_offset r) - int (a_offset x)) * 8 + (int (a_bit_offset r) - int (a_bit_offset x))
        in (i > 0 \<and> i < int d) \<or> (i < 0 \<and> - i < int d))"

definition same_dimensions :: "arr \<Rightarrow> arr \<Rightarrow> bool" where
  "same_dimensions x y \<longleftrightarrow>
     (if a_kind x = Bitvector_t then a_kind y = Bitvector_t \<and> a_dim x = a_dim y
      else a_kind y = Array_t \<and> a_elttype y = aet_bit \<and> a_dims x = a_dims y)"

definition bit_array_like :: "fresh_memory \<Rightarrow> arr \<Rightarrow> aheap \<Rightarrow> array_error + (nat \<times> aheap)" where
  "bit_array_like fresh x w =
     (if a_kind x = Bitvector_t
      then mk_si_make_vector fresh aet_bit (LInt (int (a_dim x))) False NoFill None (LObj Cnil) w
      else let a = \<lparr>a_kind = Array_t, a_dims = a_dims x, a_dim = a_dim x, a_hasfillp = False, a_fillp = 0,
                    a_adjustable = False, a_elttype = aet_bit, a_displaced = None, a_block = 0, a_offset = 0, a_bit_offset = 0\<rparr>
           in Inr (length (arrs w), mkcl_array_allocself fresh (length (arrs w)) (w\<lparr>arrs := arrs w @ [a]\<rparr>)))"

definition run_bit_op :: "byte_op \<Rightarrow> arr \<Rightarrow> arr \<Rightarrow> arr \<Rightarrow> aheap \<Rightarrow> array_error + aheap" where
  "run_bit_op f x y r w =
     (if a_bit_offset x = 0 \<and> a_bit_offset y = 0 \<and> a_bit_offset r = 0
      then aligned_op f (a_dim x) (self_of x) (self_of y) (self_of r) w
      else unaligned_op f (a_dim x) (self_of x, a_bit_offset x) (self_of y, a_bit_offset y) (self_of r, a_bit_offset r) w)"

text \<open>The array that is given for the result, and whether a temporary one is needed.\<close>

definition result_array ::
  "fresh_memory \<Rightarrow> nat \<Rightarrow> nat \<Rightarrow> result_argument \<Rightarrow> aheap \<Rightarrow> bit_array_error + (nat \<times> nat option \<times> aheap)" where
  "result_array fresh x y r w =
     (let a = arr_at w x; new = lift_error ArrayErr (bit_array_like fresh a w)
      in case (if r = ResultT then ResultArray x else r) of
           ResultArray z \<Rightarrow>
             if \<not> same_dimensions a (arr_at w z) then Inl IllegalArguments
             else if overlaps (arr_at w z) a (a_dim a) \<or> overlaps (arr_at w z) (arr_at w y) (a_dim a)
             then and_then new (\<lambda>(t, w'). Inr (t, Some z, w'))
             else Inr (z, None, w)
         | _ \<Rightarrow> and_then new (\<lambda>(t, w'). Inr (t, None, w')))"

definition mk_si_bit_array_op ::
  "fresh_memory \<Rightarrow> zint \<Rightarrow> nat \<Rightarrow> nat \<Rightarrow> result_argument \<Rightarrow> aheap \<Rightarrow> bit_array_error + (nat \<times> aheap)" where
  "mk_si_bit_array_op fresh ob x y r w =
     (let a = arr_at w x
      in if \<not> (a_kind a = Bitvector_t \<or> (a_kind a = Array_t \<and> a_elttype a = aet_bit)) \<or> \<not> same_dimensions a (arr_at w y)
         then Inl IllegalArguments
         else
           and_then (result_array fresh x y r w) (\<lambda>(z, r0, w1).
           and_then (lift_error NumErr (coerce_to_logical_operator ob)) (\<lambda>opn.
           and_then (lift_error ArrayErr (run_bit_op (fixnum_operations ! opn) (arr_at w1 x) (arr_at w1 y) (arr_at w1 z) w1)) (\<lambda>w2.
             case r0 of
               None \<Rightarrow> Inr (z, w2)
             | Some z0 \<Rightarrow>
                 and_then (lift_error ArrayErr
                     (copy_result_back (a_dim a) (self_of (arr_at w2 z)) (self_of (arr_at w2 z0), a_bit_offset (arr_at w2 z0)) w2)) (\<lambda>w3.
                   Inr (z0, w3))))))"

end
