(* ===== verification/Bit_Array_Props.thy ===== *)
theory Bit_Array_Props
  imports Bit_Arrays Integer_Bit_Props
begin

text \<open>
  What the operations on bit arrays do to the elements. When the arrays begin at bytes, all whole bytes get
  the result of the operation; of the last byte it is the bits at the upper end that do, where the
  elements are those at the lower end (\<open>aligned_op_bits\<close>).
\<close>

section \<open>Bytes\<close>

abbreviation bit_pos :: "aheap \<Rightarrow> nat \<Rightarrow> nat \<Rightarrow> bool" where
  "bit_pos w b q \<equiv> blocks w ! b ! q = LInt 1"

lemma byte_bits_nth [simp]: "k < 8 \<Longrightarrow> byte_bits v ! k = LInt (of_bool (bit v k))" "length (byte_bits v) = 8"
  by (simp_all add: byte_bits_def)

lemma load_byte_bits:
  assumes "in_block w p"
  obtains v where "load_byte w p = Inr v" "\<And>k. bit v k \<longleftrightarrow> k < 8 \<and> bit_pos w (fst p) (8 * snd p + k)"
proof
  show "load_byte w p = Inr (byte_value (take 8 (drop (8 * snd p) (blocks w ! fst p))))" using assms by (simp add: load_byte_def)
  show "bit (byte_value (take 8 (drop (8 * snd p) (blocks w ! fst p)))) k \<longleftrightarrow> k < 8 \<and> bit_pos w (fst p) (8 * snd p + k)" for k
    using assms by (auto simp: byte_value_def bit_horner_sum_bit_iff in_block_def)
qed

text \<open>The heap with the bits of a set of positions given by a function.\<close>

definition bits_set :: "nat \<Rightarrow> (nat \<Rightarrow> bool) \<Rightarrow> (nat \<Rightarrow> bool) \<Rightarrow> aheap \<Rightarrow> aheap \<Rightarrow> bool" where
  "bits_set b P V w w' \<longleftrightarrow> same_shape w w' \<and> (\<forall>b' < length (blocks w). b' \<noteq> b \<longrightarrow> blocks w' ! b' = blocks w ! b')
     \<and> (\<forall>q < length (blocks w ! b). bit_pos w' b q \<longleftrightarrow> (if P q then V q else bit_pos w b q))"

lemma same_shape_lengths:
  assumes "same_shape w w'"
  shows "length (blocks w') = length (blocks w)" "b < length (blocks w) \<Longrightarrow> length (blocks w' ! b) = length (blocks w ! b)"
proof -
  show l: "length (blocks w') = length (blocks w)" using assms by (metis same_shape_def map_eq_imp_length_eq)
  show "b < length (blocks w) \<Longrightarrow> length (blocks w' ! b) = length (blocks w ! b)"
    using assms l unfolding same_shape_def by (metis nth_map)
qed

lemma in_block_shape: "same_shape w w' \<Longrightarrow> in_block w' p \<longleftrightarrow> in_block w p"
  using same_shape_lengths(1) [of w w'] same_shape_lengths(2) [of w w' "fst p"] by (auto simp: in_block_def)

lemma bits_set_none: "bits_set b (\<lambda>q. False) V w w"
  by (simp add: bits_set_def)

lemma bits_set_trans:
  assumes "bits_set b P V w w1" and "bits_set b P' V' w1 w2" and "b < length (blocks w)"
    and "\<And>q. R q \<longleftrightarrow> P q \<or> P' q" and "\<And>q. P' q \<Longrightarrow> U q = V' q" and "\<And>q. P q \<Longrightarrow> \<not> P' q \<Longrightarrow> U q = V q"
  shows "bits_set b R U w w2"
  using assms same_shape_lengths [of w w1] unfolding bits_set_def by (auto intro: same_shape_trans)

lemma bits_set_cong:
  assumes "bits_set b P V w w'"
    and "\<And>q. q < length (blocks w ! b) \<Longrightarrow> (if P q then V q else bit_pos w b q) \<longleftrightarrow> (if R q then U q else bit_pos w b q)"
  shows "bits_set b R U w w'"
  using assms by (simp add: bits_set_def)

lemma save_byte_bits:
  assumes "in_block w p"
  obtains w' where "save_byte w p v = Inr w'"
    "bits_set (fst p) (\<lambda>q. 8 * snd p \<le> q \<and> q < 8 * snd p + 8) (\<lambda>q. bit v (q - 8 * snd p)) w w'"
proof
  let ?b = "blocks w ! fst p" and ?n = "8 * snd p"
  let ?w = "w\<lparr>blocks := (blocks w)[fst p := take ?n ?b @ byte_bits v @ drop (?n + 8) ?b]\<rparr>"
  show "save_byte w p v = Inr ?w" using assms by (simp add: save_byte_def Let_def)
  have l: "fst p < length (blocks w)" "?n + 8 \<le> length ?b" using assms by (auto simp: in_block_def)
  have "same_shape w ?w" using l by (auto simp: same_shape_def map_update intro: list_update_same_conv [THEN iffD2])
  moreover have "(take ?n ?b @ byte_bits v @ drop (?n + 8) ?b) ! q
      = (if ?n \<le> q \<and> q < ?n + 8 then LInt (of_bool (bit v (q - ?n))) else ?b ! q)" if "q < length ?b" for q
    using l that by (auto simp: nth_append)
  ultimately show "bits_set (fst p) (\<lambda>q. ?n \<le> q \<and> q < ?n + 8) (\<lambda>q. bit v (q - ?n)) w ?w"
    using l by (auto simp: bits_set_def)
qed

section \<open>Arrays that begin at a byte\<close>

definition result_bit :: "nat \<Rightarrow> aheap \<Rightarrow> pointer \<Rightarrow> pointer \<Rightarrow> nat \<Rightarrow> bool" where
  "result_bit opn w x y e = table opn (bit_pos w (fst x) (8 * snd x + e)) (bit_pos w (fst y) (8 * snd y + e))"

text \<open>The bits of \<open>p\<close> are not written before they are read.\<close>

definition apart :: "nat \<Rightarrow> pointer \<Rightarrow> pointer \<Rightarrow> bool" where
  "apart d p r \<longleftrightarrow> fst p = fst r \<longrightarrow> snd r \<le> snd p \<or> d \<le> 8 * (snd r - snd p)"

definition readable :: "nat \<Rightarrow> aheap \<Rightarrow> pointer \<Rightarrow> bool" where
  "readable d w p \<longleftrightarrow> (\<forall>i. 8 * i < d \<longrightarrow> in_block w (advance p i))"

lemma boole_byte: "opn < 16 \<Longrightarrow> bit ((fixnum_operations ! opn) x y) k \<longleftrightarrow> table opn (bit x k) (bit y k)"
  using boole_bits [of opn x y k] by (simp add: boole_int_def)

lemma load_after:
  assumes "bits_set (fst r) (\<lambda>q. 8 * snd r \<le> q \<and> q < 8 * (snd r + i)) V w w1"
    and "apart d p r" and "readable d w p" and "8 * i < d"
  obtains v where "load_byte w1 (advance p i) = Inr v"
    "\<And>k. bit v k \<longleftrightarrow> k < 8 \<and> bit_pos w (fst p) (8 * snd p + (8 * i + k))"
proof -
  have b: "in_block w (advance p i)" "same_shape w w1" using assms by (auto simp: readable_def bits_set_def)
  then have "in_block w1 (advance p i)" by (simp add: in_block_shape)
  then obtain v where v: "load_byte w1 (advance p i) = Inr v" "\<And>k. bit v k \<longleftrightarrow> k < 8 \<and> bit_pos w1 (fst p) (8 * (snd p + i) + k)"
    by (rule load_byte_bits) auto
  have pos: "bit_pos w1 (fst p) (8 * (snd p + i) + k) \<longleftrightarrow> bit_pos w (fst p) (8 * snd p + (8 * i + k))" if "k < 8" for k
  proof (cases "fst p = fst r")
    case True
    then have "snd r \<le> snd p \<or> d \<le> 8 * (snd r - snd p)" using assms(2) by (simp add: apart_def)
    then have "snd r \<le> snd p \<or> (\<exists>e. snd r = snd p + e \<and> d \<le> 8 * e)" by (metis diff_is_0_eq le_add_diff_inverse nat_le_linear)
    then have "\<not> (8 * snd r \<le> 8 * (snd p + i) + k \<and> 8 * (snd p + i) + k < 8 * (snd r + i))"
    proof (elim disjE exE conjE)
      fix e
      assume e: "snd r = snd p + e" "d \<le> 8 * e"
      then have "Suc i \<le> e" using assms(4) by linarith
      then show ?thesis using e that by simp
    qed simp
    then show ?thesis using assms(1) b(1) that True by (auto simp: bits_set_def in_block_def algebra_simps)
  next
    case False
    then show ?thesis using assms(1) b(1) by (auto simp: bits_set_def in_block_def algebra_simps)
  qed
  show ?thesis
  proof (rule that [OF v(1)])
    show "bit v k \<longleftrightarrow> k < 8 \<and> bit_pos w (fst p) (8 * snd p + (8 * i + k))" for k
      using v(2) [of k] pos [of k] by (cases "k < 8") simp_all
  qed
qed

lemma for_bytes_Suc: "for_bytes f [0..<Suc m] w = and_then (for_bytes f [0..<m] w) (f m)"
proof -
  have "for_bytes f (xs @ [m]) w = and_then (for_bytes f xs w) (f m)" for xs
  proof (induction xs arbitrary: w)
    case Nil
    then show ?case by (cases "f m w") simp_all
  next
    case (Cons i xs)
    then show ?case by (cases "f i w") simp_all
  qed
  then show ?thesis by simp
qed

lemma aligned_bytes:
  assumes "opn < 16" and "apart d x r" "apart d y r" and "readable d w x" "readable d w y" "readable d w r" and "8 * m \<le> d"
    and "fst r < length (blocks w)"
  shows "\<exists>w'. for_bytes (aligned_byte (fixnum_operations ! opn) x y r) [0..<m] w = Inr w'
    \<and> bits_set (fst r) (\<lambda>q. 8 * snd r \<le> q \<and> q < 8 * (snd r + m)) (\<lambda>q. result_bit opn w x y (q - 8 * snd r)) w w'"
  using assms(7)
proof (induction m)
  case 0
  then show ?case by (auto simp: bits_set_def)
next
  case (Suc m)
  then obtain w1 where w1: "for_bytes (aligned_byte (fixnum_operations ! opn) x y r) [0..<m] w = Inr w1"
      "bits_set (fst r) (\<lambda>q. 8 * snd r \<le> q \<and> q < 8 * (snd r + m)) (\<lambda>q. result_bit opn w x y (q - 8 * snd r)) w w1" by auto
  have m: "8 * m < d" using Suc(2) by simp
  obtain a where a: "load_byte w1 (advance x m) = Inr a"
      "\<And>k. bit a k \<longleftrightarrow> k < 8 \<and> bit_pos w (fst x) (8 * snd x + (8 * m + k))"
    using load_after [OF w1(2) assms(2,4) m] by blast
  obtain b where b: "load_byte w1 (advance y m) = Inr b"
      "\<And>k. bit b k \<longleftrightarrow> k < 8 \<and> bit_pos w (fst y) (8 * snd y + (8 * m + k))"
    using load_after [OF w1(2) assms(3,5) m] by blast
  let ?v = "(fixnum_operations ! opn) a b"
  have "in_block w1 (advance r m)" using assms(6) m w1(2) in_block_shape [of w w1] by (simp add: readable_def bits_set_def)
  then obtain w2 where w2: "save_byte w1 (advance r m) ?v = Inr w2"
      "bits_set (fst r) (\<lambda>q. 8 * (snd r + m) \<le> q \<and> q < 8 * (snd r + m) + 8) (\<lambda>q. bit ?v (q - 8 * (snd r + m))) w1 w2"
    by (rule save_byte_bits [of _ _ ?v]) auto
  have "bits_set (fst r) (\<lambda>q. 8 * snd r \<le> q \<and> q < 8 * (snd r + Suc m)) (\<lambda>q. result_bit opn w x y (q - 8 * snd r)) w w2"
  proof (rule bits_set_trans [OF w1(2) w2(2) assms(8)])
    fix q
    show "8 * snd r \<le> q \<and> q < 8 * (snd r + Suc m) \<longleftrightarrow>
      (8 * snd r \<le> q \<and> q < 8 * (snd r + m)) \<or> (8 * (snd r + m) \<le> q \<and> q < 8 * (snd r + m) + 8)" by auto
    show "result_bit opn w x y (q - 8 * snd r) = bit ?v (q - 8 * (snd r + m))"
      if "8 * (snd r + m) \<le> q \<and> q < 8 * (snd r + m) + 8"
    proof -
      have "q - 8 * snd r = 8 * m + (q - 8 * (snd r + m))" "q - 8 * (snd r + m) < 8" using that by auto
      then show ?thesis using a(2) b(2) boole_byte [OF assms(1)] by (simp add: result_bit_def)
    qed
  qed simp
  moreover have "aligned_byte (fixnum_operations ! opn) x y r m w1 = Inr w2" using w2(1) a(1) b(1) by (simp add: aligned_byte_def)
  ultimately show ?case using w1(1) by (simp add: for_bytes_Suc del: upt_Suc)
qed

lemma bit_set_high: "k < 8 \<Longrightarrow> j \<le> 8 \<Longrightarrow> bit (set_high p j v) k \<longleftrightarrow> (if 8 - j \<le> k then bit v k else bit p k)"
proof -
  have "(- 256 :: int) = NOT (mask 8)" by (simp add: mask_eq_exp_minus_1 not_int_def)
  then have "bit (drop_bit j (- 256 :: int)) k \<longleftrightarrow> 8 \<le> j + k" by (simp only: bit_drop_bit_eq comp_apply bit_not_int_iff bit_mask_iff) (simp add: not_less)
  then show "k < 8 \<Longrightarrow> j \<le> 8 \<Longrightarrow> ?thesis" by (auto simp: set_high_def bit_and_iff bit_or_iff bit_not_int_iff)
qed

text \<open>The elements that get a result: all of the whole bytes, and the upper ones of the last byte.\<close>

definition written :: "nat \<Rightarrow> nat \<Rightarrow> bool" where
  "written d e \<longleftrightarrow> e < 8 * (d div 8) \<or> (e < 8 * (d div 8) + 8 \<and> d mod 8 > 0 \<and> 8 \<le> e mod 8 + d mod 8)"

lemma aligned_op_bits:
  assumes "opn < 16" and "apart d x r" "apart d y r" and "readable d w x" "readable d w y" "readable d w r"
    and "fst r < length (blocks w)"
  shows "\<exists>w'. aligned_op (fixnum_operations ! opn) d x y r w = Inr w'
    \<and> bits_set (fst r) (\<lambda>q. 8 * snd r \<le> q \<and> written d (q - 8 * snd r)) (\<lambda>q. result_bit opn w x y (q - 8 * snd r)) w w'"
proof -
  let ?n = "d div 8"
  obtain w1 where w1: "for_bytes (aligned_byte (fixnum_operations ! opn) x y r) [0..<?n] w = Inr w1"
      "bits_set (fst r) (\<lambda>q. 8 * snd r \<le> q \<and> q < 8 * (snd r + ?n)) (\<lambda>q. result_bit opn w x y (q - 8 * snd r)) w w1"
    using aligned_bytes [OF assms(1-6), of ?n] assms(7) by auto
  show ?thesis
  proof (cases "d mod 8 = 0")
    case True
    then have "(\<lambda>q. 8 * snd r \<le> q \<and> written d (q - 8 * snd r)) = (\<lambda>q. 8 * snd r \<le> q \<and> q < 8 * (snd r + ?n))"
      by (auto simp: written_def)
    then show ?thesis using w1 True by (simp add: aligned_op_def)
  next
    case False
    then have n: "8 * ?n < d" by (metis div_mult_mod_eq less_add_same_cancel1 mult.commute neq0_conv)
    obtain a where a: "load_byte w1 (advance x ?n) = Inr a"
        "\<And>k. bit a k \<longleftrightarrow> k < 8 \<and> bit_pos w (fst x) (8 * snd x + (8 * ?n + k))"
      using load_after [OF w1(2) assms(2,4) n] by blast
    obtain b where b: "load_byte w1 (advance y ?n) = Inr b"
        "\<And>k. bit b k \<longleftrightarrow> k < 8 \<and> bit_pos w (fst y) (8 * snd y + (8 * ?n + k))"
      using load_after [OF w1(2) assms(3,5) n] by blast
    have "apart d r r" by (simp add: apart_def)
    then obtain c where c: "load_byte w1 (advance r ?n) = Inr c"
        "\<And>k. bit c k \<longleftrightarrow> k < 8 \<and> bit_pos w (fst r) (8 * snd r + (8 * ?n + k))"
      using load_after [OF w1(2) _ assms(6) n] by blast
    let ?v = "set_high c (d mod 8) ((fixnum_operations ! opn) a b)"
    have "in_block w1 (advance r ?n)" using assms(6) n w1(2) in_block_shape [of w w1] by (simp add: readable_def bits_set_def)
    then obtain w2 where w2: "save_byte w1 (advance r ?n) ?v = Inr w2"
        "bits_set (fst r) (\<lambda>q. 8 * (snd r + ?n) \<le> q \<and> q < 8 * (snd r + ?n) + 8) (\<lambda>q. bit ?v (q - 8 * (snd r + ?n))) w1 w2"
      by (rule save_byte_bits [of _ _ ?v]) auto
    have "bits_set (fst r) (\<lambda>q. 8 * snd r \<le> q \<and> written d (q - 8 * snd r)) (\<lambda>q. result_bit opn w x y (q - 8 * snd r)) w w2"
    proof (rule bits_set_cong)
      let ?low = "\<lambda>q. 8 * snd r \<le> q \<and> q < 8 * (snd r + ?n)"
      let ?last = "\<lambda>q. 8 * (snd r + ?n) \<le> q \<and> q < 8 * (snd r + ?n) + 8"
      show "bits_set (fst r) (\<lambda>q. ?low q \<or> ?last q)
          (\<lambda>q. if ?last q then bit ?v (q - 8 * (snd r + ?n)) else result_bit opn w x y (q - 8 * snd r)) w w2"
        by (rule bits_set_trans [OF w1(2) w2(2) assms(7)]) simp_all
      show "(if ?low q \<or> ?last q then if ?last q then bit ?v (q - 8 * (snd r + ?n)) else result_bit opn w x y (q - 8 * snd r)
          else bit_pos w (fst r) q) \<longleftrightarrow>
          (if 8 * snd r \<le> q \<and> written d (q - 8 * snd r) then result_bit opn w x y (q - 8 * snd r) else bit_pos w (fst r) q)" for q
      proof (cases "?last q")
        case True
        then obtain k where k: "q = 8 * snd r + (8 * ?n + k)" "k < 8" by (metis add_mult_distrib2 le_add_diff_inverse nat_add_left_cancel_less add.assoc)
        have "bit ?v k \<longleftrightarrow> (if 8 - d mod 8 \<le> k then result_bit opn w x y (8 * ?n + k) else bit_pos w (fst r) q)"
          using k a(2) b(2) c(2) bit_set_high [of k "d mod 8"] boole_byte [OF assms(1)] by (simp add: result_bit_def)
        moreover have "written d (8 * ?n + k) \<longleftrightarrow> 8 - d mod 8 \<le> k" using k(2) False by (auto simp: written_def)
        ultimately show ?thesis using k by (simp add: True)
      next
        case False
        then show ?thesis by (auto simp: written_def)
      qed
    qed
    moreover have "aligned_rest (fixnum_operations ! opn) (d mod 8) x y r ?n w1 = Inr w2"
      using w2(1) a(1) b(1) c(1) by (simp add: aligned_rest_def)
    ultimately show ?thesis using w1(1) False by (simp add: aligned_op_def)
  qed
qed

section \<open>The operation\<close>

definition bit_elt :: "aheap \<Rightarrow> nat \<Rightarrow> nat \<Rightarrow> bool" where
  "bit_elt w x i \<longleftrightarrow> mkcl_aref_index w x i = Inr (LInt 1)"

definition bit_array :: "arr \<Rightarrow> bool" where
  "bit_array a \<longleftrightarrow> a_elttype a = aet_bit \<and> (a_kind a = Bitvector_t \<or> a_kind a = Array_t)"

text \<open>The array begins at a byte, and its last byte is whole.\<close>

definition whole_bytes :: "aheap \<Rightarrow> nat \<Rightarrow> bool" where
  "whole_bytes w x \<longleftrightarrow> x < length (arrs w) \<and> bit_array (arr_at w x) \<and> a_bit_offset (arr_at w x) = 0
     \<and> a_block (arr_at w x) < length (blocks w)
     \<and> 8 * (a_offset (arr_at w x) + (a_dim (arr_at w x) + 7) div 8) \<le> length (blocks w ! a_block (arr_at w x))"

lemma whole_bytes_position:
  assumes "whole_bytes w x" and "i < a_dim (arr_at w x)"
  shows "position (arr_at w x) i = 8 * a_offset (arr_at w x) + i"
    "position (arr_at w x) i < length (blocks w ! a_block (arr_at w x))"
proof -
  show p: "position (arr_at w x) i = 8 * a_offset (arr_at w x) + i"
    using assms(1) by (simp add: whole_bytes_def bit_array_def position_def)
  have "i < 8 * ((a_dim (arr_at w x) + 7) div 8)" using assms(2) by presburger
  then show "position (arr_at w x) i < length (blocks w ! a_block (arr_at w x))"
    using assms(1) p by (simp add: whole_bytes_def)
qed

lemma bit_elt_pos:
  assumes "whole_bytes w x" and "i < a_dim (arr_at w x)"
  shows "bit_elt w x i \<longleftrightarrow> bit_pos w (a_block (arr_at w x)) (8 * a_offset (arr_at w x) + i)"
  using assms whole_bytes_position [OF assms]
  by (simp add: bit_elt_def mkcl_aref_index_def read_block_def whole_bytes_def bit_array_def Let_def)

lemma whole_bytes_readable: "whole_bytes w x \<Longrightarrow> readable (a_dim (arr_at w x)) w (self_of (arr_at w x))"
proof -
  assume w: "whole_bytes w x"
  have "8 * (p + i) + 8 \<le> n" if "8 * (p + (d + 7) div 8) \<le> n" "8 * i < d" for p i d n :: nat using that by presburger
  then show ?thesis using w by (auto simp: readable_def in_block_def self_of_def whole_bytes_def)
qed

lemma overlaps_apart:
  assumes "\<not> overlaps r x d" and "a_bit_offset r = 0" and "a_bit_offset x = 0"
  shows "apart d (self_of x) (self_of r)"
proof (unfold apart_def, intro impI)
  assume "fst (self_of x) = fst (self_of r)"
  then have "\<not> (int (a_offset r) * 8 > int (a_offset x) * 8 \<and> int (a_offset r) * 8 - int (a_offset x) * 8 < int d)"
    using assms by (auto simp: overlaps_def self_of_def Let_def algebra_simps)
  then show "snd (self_of r) \<le> snd (self_of x) \<or> d \<le> 8 * (snd (self_of r) - snd (self_of x))"
    by (simp add: self_of_def) linarith
qed

lemma whole_bytes_shape: "same_shape w w' \<Longrightarrow> whole_bytes w x \<Longrightarrow> whole_bytes w' x"
  using same_shape_lengths(1) [of w w'] same_shape_lengths(2) [of w w' "a_block (arr_at w x)"]
  by (auto simp: whole_bytes_def same_shape_def)

lemma bit_array_op_given:
  assumes "opn < 16" and x: "whole_bytes w x" and y: "whole_bytes w y" and z: "whole_bytes w z"
    and same: "same_dimensions (arr_at w x) (arr_at w y)" "same_dimensions (arr_at w x) (arr_at w z)"
    and dim: "a_dim (arr_at w y) = a_dim (arr_at w x)" "a_dim (arr_at w z) = a_dim (arr_at w x)"
    and apart: "\<not> overlaps (arr_at w z) (arr_at w x) (a_dim (arr_at w x))" "\<not> overlaps (arr_at w z) (arr_at w y) (a_dim (arr_at w x))"
  shows "\<exists>w'. mk_si_bit_array_op fresh (Fix (int opn)) x y (ResultArray z) w = Inr (z, w') \<and> same_shape w w'
    \<and> (\<forall>i < a_dim (arr_at w x). bit_elt w' z i \<longleftrightarrow>
        (if written (a_dim (arr_at w x)) i then table opn (bit_elt w x i) (bit_elt w y i) else bit_elt w z i))"
proof -
  let ?d = "a_dim (arr_at w x)" and ?p = "\<lambda>x. self_of (arr_at w x)"
  have off: "a_bit_offset (arr_at w x) = 0" "a_bit_offset (arr_at w y) = 0" "a_bit_offset (arr_at w z) = 0"
    using x y z by (simp_all add: whole_bytes_def)
  obtain w' where w': "aligned_op (fixnum_operations ! opn) ?d (?p x) (?p y) (?p z) w = Inr w'"
      "bits_set (fst (?p z)) (\<lambda>q. 8 * snd (?p z) \<le> q \<and> written ?d (q - 8 * snd (?p z)))
         (\<lambda>q. result_bit opn w (?p x) (?p y) (q - 8 * snd (?p z))) w w'"
    using aligned_op_bits [OF assms(1), of ?d "?p x" "?p z" "?p y" w] overlaps_apart [OF apart(1)] overlaps_apart [OF apart(2)]
      whole_bytes_readable [OF x] whole_bytes_readable [OF y] whole_bytes_readable [OF z] dim off z
    by (auto simp: self_of_def whole_bytes_def)
  have "bit_elt w' z i \<longleftrightarrow> (if written ?d i then table opn (bit_elt w x i) (bit_elt w y i) else bit_elt w z i)" if i: "i < ?d" for i
  proof -
    have s: "same_shape w w'" using w'(2) by (simp add: bits_set_def)
    have "bit_elt w' z i \<longleftrightarrow> bit_pos w' (fst (?p z)) (8 * snd (?p z) + i)"
      using bit_elt_pos [OF whole_bytes_shape [OF s z]] s i dim by (simp add: self_of_def same_shape_def)
    also have "\<dots> \<longleftrightarrow> (if written ?d i then result_bit opn w (?p x) (?p y) i else bit_pos w (fst (?p z)) (8 * snd (?p z) + i))"
      using w'(2) whole_bytes_position [OF z, of i] i dim by (simp add: bits_set_def self_of_def)
    finally show ?thesis using bit_elt_pos [OF x i] bit_elt_pos [OF y] bit_elt_pos [OF z] i dim
      by (simp add: result_bit_def self_of_def)
  qed
  moreover have "mk_si_bit_array_op fresh (Fix (int opn)) x y (ResultArray z) w = Inr (z, w')"
    using w'(1) same apart off x assms(1)
    by (auto simp: mk_si_bit_array_op_def result_array_def run_bit_op_def coerce_to_logical_operator_def MKCL_BOOLSET_def
        whole_bytes_def bit_array_def)
  ultimately show ?thesis using w'(2) by (auto simp: bits_set_def)
qed

section \<open>Examples\<close>

definition bits_of :: "nat list \<Rightarrow> lval list" where
  "bits_of bs = map (\<lambda>b. LInt (int b)) bs"

definition bit_vector :: "nat \<Rightarrow> nat \<Rightarrow> nat \<Rightarrow> arr" where
  "bit_vector d b off = \<lparr>a_kind = Bitvector_t, a_dims = [], a_dim = d, a_hasfillp = False, a_fillp = d, a_adjustable = False,
     a_elttype = aet_bit, a_displaced = None, a_block = b, a_offset = 0, a_bit_offset = off\<rparr>"

text \<open>Three vectors of one element, 1, 1 and 0.\<close>

definition one_bit_each :: aheap where
  "one_bit_each = \<lparr>arrs = [bit_vector 1 0 0, bit_vector 1 1 0, bit_vector 1 2 0],
     blocks = [bits_of [1, 0, 0, 0, 0, 0, 0, 0], bits_of [1, 0, 0, 0, 0, 0, 0, 0], bits_of [0, 0, 0, 0, 0, 0, 0, 0]]\<rparr>"

text \<open>A vector that has the bits 4 to 11 of its memory, all 1.\<close>

definition shifted_ones :: aheap where
  "shifted_ones = \<lparr>arrs = [bit_vector 8 0 4], blocks = [bits_of [0, 0, 0, 0, 1, 1, 1, 1, 1, 1, 1, 1, 0, 0, 0, 0]]\<rparr>"

lemmas bit_array_examples = one_bit_each_def shifted_ones_def bit_vector_def bits_of_def

lemma one_bit_each_whole: "x < 3 \<Longrightarrow> whole_bytes one_bit_each x"
proof -
  assume "x < 3"
  then have "x = 0 \<or> x = 1 \<or> x = 2" by arith
  then show ?thesis by (elim disjE) (simp_all add: whole_bytes_def bit_array_def bit_array_examples)
qed

text \<open>Of these eight ones the code makes a byte of zeros, since only the last eight bits of \<open>0xF00\<close> are stored.\<close>

lemma extract_shifted_ones:
  "extract_byte shifted_ones (self_of (arr_at shifted_ones 0)) 0 (a_bit_offset (arr_at shifted_ones 0)) = Inr 0xF00"
  by (simp add: bit_array_examples self_of_def extract_byte_def load_byte_def in_block_def byte_value_def push_bit_eq_mult drop_bit_eq_div)

lemma shifted_ones_elements: "i < 8 \<Longrightarrow> bit_elt shifted_ones 0 i"
proof -
  assume "i < 8"
  then have "i = 0 \<or> i = 1 \<or> i = 2 \<or> i = 3 \<or> i = 4 \<or> i = 5 \<or> i = 6 \<or> i = 7" by arith
  then show ?thesis
    by (elim disjE) (simp_all add: bit_array_examples bit_elt_def mkcl_aref_index_def read_block_def position_def)
qed

text \<open>The byte after the last one is read as well.\<close>

lemma extract_byte_overruns: "\<not> in_block w (advance p (i + 1)) \<Longrightarrow> extract_byte w p i off = Inl ArrayOverrun"
  by (simp add: extract_byte_def load_byte_def)

end
