(* ===== verification/Chains.thy ===== *)
theory Chains
  imports Objects
begin

text \<open>
  Chains of conses in the heap: the vocabulary in which the list operations are specified.
  \<open>chain h x as y\<close> says that following cdrs from \<open>x\<close> visits exactly the cons cells
  \<open>as\<close> and arrives at \<open>y\<close>. A proper list ends at \<open>Cnil\<close>, a dotted one at another
  atom; a circular list never arrives at an atom. The last part classifies: in a heap, which
  is finite, every object starts a proper, a dotted or a circular list, and a list that is
  not circular has no more conses than the heap has cells.
\<close>

fun chain :: "heap \<Rightarrow> obj \<Rightarrow> addr list \<Rightarrow> obj \<Rightarrow> bool" where
  "chain h x [] y = (x = y)"
| "chain h x (a # as) y = (x = Ref a \<and> MKCL_CONSP h x \<and> chain h (MKCL_CONS_CDR h x) as y)"

definition elems :: "heap \<Rightarrow> addr list \<Rightarrow> obj list" where
  "elems h as = map (\<lambda>a. MKCL_CONS_CAR h (Ref a)) as"

definition proper_list :: "heap \<Rightarrow> obj \<Rightarrow> obj list \<Rightarrow> bool" where
  "proper_list h x xs \<longleftrightarrow> (\<exists>as. chain h x as Cnil \<and> elems h as = xs)"

definition dotted_list :: "heap \<Rightarrow> obj \<Rightarrow> addr list \<Rightarrow> obj \<Rightarrow> bool" where
  "dotted_list h x as y \<longleftrightarrow> chain h x as y \<and> \<not> MKCL_CONSP h y \<and> y \<noteq> Cnil"

definition nthcdr_of :: "heap \<Rightarrow> nat \<Rightarrow> obj \<Rightarrow> obj" where
  "nthcdr_of h n x = (MKCL_CONS_CDR h ^^ n) x"

definition circular_list :: "heap \<Rightarrow> obj \<Rightarrow> bool" where
  "circular_list h x \<longleftrightarrow> (\<forall>n. MKCL_CONSP h (nthcdr_of h n x))"

subsection \<open>Elementary facts\<close>

lemma elems_simps [chain_simps, simp]:
  "elems h [] = []"
  "elems h (a # as) = MKCL_CONS_CAR h (Ref a) # elems h as"
  "elems h (as @ bs) = elems h as @ elems h bs"
  "length (elems h as) = length as"
  by (simp_all add: elems_def)

lemma elems_rev: "elems h (rev as) = rev (elems h as)"
  by (simp add: elems_def rev_map)

lemma chain_nil_iff [simp]: "chain h Cnil as y \<longleftrightarrow> as = [] \<and> y = Cnil"
  by (cases as) auto

lemma chain_atom: "\<not> MKCL_CONSP h x \<Longrightarrow> chain h x as y \<longleftrightarrow> as = [] \<and> x = y"
  by (cases as) auto

lemma chain_append [chain_simps]:
  "chain h x (as @ bs) z \<longleftrightarrow> (\<exists>y. chain h x as y \<and> chain h y bs z)"
  by (induction as arbitrary: x) auto

lemma consp_Ref: "MKCL_CONSP h x \<Longrightarrow> \<exists>a < length h. x = Ref a"
  by (auto elim: consp_cases)

lemma chain_bound: "chain h x as y \<Longrightarrow> a \<in> set as \<Longrightarrow> a < length h"
  by (induction as arbitrary: x) (auto elim: consp_cases)

lemma chain_cell:
  assumes "chain h x as y" and "a \<in> set as"
  obtains u v where "h ! a = ConsC u v" and "a < length h"
  using assms by (induction as arbitrary: x) (auto elim!: consp_cases)

lemma consp_cell_eq:
  assumes "a < length h" and "a < length h'" and "h' ! a = h ! a"
  shows "MKCL_CONSP h' (Ref a) = MKCL_CONSP h (Ref a)"
    and "MKCL_CONS_CDR h' (Ref a) = MKCL_CONS_CDR h (Ref a)"
    and "MKCL_CONS_CAR h' (Ref a) = MKCL_CONS_CAR h (Ref a)"
  using assms by (simp_all add: MKCL_CONSP_def MKCL_CONS_CDR_def MKCL_CONS_CAR_def)

text \<open>A chain depends only on its own cells.\<close>

lemma chain_frame:
  assumes "chain h x as y" and "length h \<le> length h'"
    and "\<And>a. a \<in> set as \<Longrightarrow> h' ! a = h ! a"
  shows "chain h' x as y" and "elems h' as = elems h as"
proof -
  have "chain h' x as y \<and> elems h' as = elems h as"
    using assms
  proof (induction as arbitrary: x)
    case Nil
    then show ?case by simp
  next
    case (Cons a as)
    then have "a < length h" by (auto elim: consp_cases)
    with Cons show ?case
      by (auto simp: consp_cell_eq [of a h h'])
  qed
  then show "chain h' x as y" and "elems h' as = elems h as" by auto
qed

lemma chain_alloc:
  assumes "chain h x as y"
  shows "chain (h @ cs) x as y" and "elems (h @ cs) as = elems h as"
  using chain_frame [OF assms, of "h @ cs"] chain_bound [OF assms]
  by (auto simp: nth_append)

lemma chain_update:
  assumes "chain h x as y" and "a \<notin> set as"
  shows "chain (h[a := c]) x as y" and "elems (h[a := c]) as = elems h as"
proof -
  have "h[a := c] ! b = h ! b" if "b \<in> set as" for b
    using assms(2) that by (metis nth_list_update_neq)
  then show "chain (h[a := c]) x as y" and "elems (h[a := c]) as = elems h as"
    using chain_frame [OF assms(1), of "h[a := c]"] by simp_all
qed

lemma chain_unique:
  assumes "chain h x as y" and "chain h x bs z" and "\<not> MKCL_CONSP h y" and "\<not> MKCL_CONSP h z"
  shows "as = bs \<and> y = z"
  using assms
proof (induction as arbitrary: x bs)
  case Nil
  then show ?case by (cases bs) auto
next
  case (Cons a as)
  then show ?case by (cases bs) auto
qed

lemma chain_nthcdr: "chain h x as y \<Longrightarrow> nthcdr_of h (length as) x = y"
  unfolding nthcdr_of_def by (induction as arbitrary: x) (auto simp: funpow_swap1)

lemma chain_snoc:
  "chain h x (as @ [a]) y \<longleftrightarrow>
     chain h x as (Ref a) \<and> MKCL_CONSP h (Ref a) \<and> MKCL_CONS_CDR h (Ref a) = y"
  by (auto simp: chain_append)

lemma chain_distinct:
  assumes "chain h x as y" and "\<not> MKCL_CONSP h y"
  shows "distinct as"
  using assms
proof (induction as arbitrary: x)
  case Nil
  then show ?case by simp
next
  case (Cons a as)
  have "a \<notin> set as"
  proof
    assume "a \<in> set as"
    then obtain rs ss where as: "as = rs @ a # ss" by (meson split_list)
    with Cons.prems have "chain h (Ref a) (a # ss) y"
      by (auto simp: chain_append)
    moreover have "chain h (Ref a) (a # as) y" using Cons.prems by auto
    ultimately have "a # ss = a # as" using chain_unique Cons.prems(2) by blast
    with as show False by simp
  qed
  with Cons show ?case by auto
qed

lemma chain_length_heap:
  assumes "chain h x as y" and "\<not> MKCL_CONSP h y"
  shows "length as \<le> length h"
  using distinct_bounded_length chain_distinct [OF assms] chain_bound [OF assms(1)] by blast

lemma chain_nth:
  assumes "chain h x as y" and "i < length as"
  shows "nthcdr_of h i x = Ref (as ! i)" and "MKCL_CONSP h (nthcdr_of h i x)"
proof -
  have "as = take i as @ as ! i # drop (Suc i) as"
    using assms(2) by (simp add: id_take_nth_drop)
  then obtain z where "chain h x (take i as) z" and z: "chain h z (as ! i # drop (Suc i) as) y"
    using assms(1) chain_append by metis
  then have "nthcdr_of h i x = z"
    using chain_nthcdr [of h x "take i as" z] assms(2) by simp
  with z show "nthcdr_of h i x = Ref (as ! i)" and "MKCL_CONSP h (nthcdr_of h i x)" by auto
qed

subsection \<open>Proper, dotted or circular\<close>

lemma nthcdr_Suc: "nthcdr_of h (Suc n) x = MKCL_CONS_CDR h (nthcdr_of h n x)"
  by (simp add: nthcdr_of_def)

lemma nthcdr_add: "nthcdr_of h (m + n) x = nthcdr_of h m (nthcdr_of h n x)"
  by (simp add: nthcdr_of_def funpow_add)

lemma nthcdr_0 [simp]: "nthcdr_of h 0 x = x"
  by (simp add: nthcdr_of_def)

lemma chain_to_nthcdr:
  assumes "\<And>i. i < n \<Longrightarrow> MKCL_CONSP h (nthcdr_of h i x)"
  shows "\<exists>as. length as = n \<and> chain h x as (nthcdr_of h n x)"
  using assms
proof (induction n)
  case 0
  then show ?case by simp
next
  case (Suc n)
  then obtain as where as: "length as = n" "chain h x as (nthcdr_of h n x)" by auto
  obtain a where a: "nthcdr_of h n x = Ref a" and "MKCL_CONSP h (Ref a)"
    using Suc.prems [of n] consp_Ref [of h "nthcdr_of h n x"] by force
  then have "chain h x (as @ [a]) (nthcdr_of h (Suc n) x)"
    using as by (simp add: chain_snoc nthcdr_Suc)
  with as(1) show ?case by (metis length_append_singleton)
qed

lemma not_circular_chain:
  assumes "\<not> circular_list h x"
  obtains as y where "chain h x as y" and "\<not> MKCL_CONSP h y"
proof -
  let ?P = "\<lambda>n. \<not> MKCL_CONSP h (nthcdr_of h n x)"
  from assms have "\<exists>n. ?P n" by (simp add: circular_list_def)
  then have "?P (LEAST n. ?P n)" by (rule LeastI_ex)
  moreover have "\<And>i. i < (LEAST n. ?P n) \<Longrightarrow> MKCL_CONSP h (nthcdr_of h i x)"
    using not_less_Least by blast
  ultimately show thesis using chain_to_nthcdr that by metis
qed

lemma chain_not_circular: "chain h x as y \<Longrightarrow> \<not> MKCL_CONSP h y \<Longrightarrow> \<not> circular_list h x"
  using chain_nthcdr [of h x as y] by (auto simp: circular_list_def)

lemma list_trichotomy:
  obtains (proper) as where "chain h x as Cnil"
  | (dotted) as y where "dotted_list h x as y"
  | (circular) "circular_list h x"
  by (metis dotted_list_def not_circular_chain)

lemma circular_cycle:
  assumes "circular_list h x"
  obtains i p where "0 < p" and "nthcdr_of h (i + p) x = nthcdr_of h i x"
proof -
  let ?f = "\<lambda>n. nthcdr_of h n x"
  have "?f n \<in> Ref ` {..<length h}" for n
    using assms consp_Ref [of h "?f n"] unfolding circular_list_def by blast
  then have "finite (range ?f)"
    by (meson finite_imageI finite_lessThan finite_subset image_subsetI)
  then have "\<not> inj ?f" using finite_imageD infinite_UNIV_nat by blast
  then obtain m n where "m < n" "?f m = ?f n" unfolding inj_def by (metis linorder_neqE_nat)
  then show thesis using that [of "n - m" m] by simp
qed

lemma cycle_multiple:
  assumes "nthcdr_of h (i + p) x = nthcdr_of h i x" and "i \<le> m"
  shows "nthcdr_of h (m + k * p) x = nthcdr_of h m x"
proof (induction k)
  case 0
  then show ?case by simp
next
  case (Suc k)
  have "nthcdr_of h (m + p) x = nthcdr_of h m x"
    using assms nthcdr_add [of h "m - i" "i + p" x] nthcdr_add [of h "m - i" i x] by simp
  then have "nthcdr_of h (k * p + (m + p)) x = nthcdr_of h (k * p + m) x"
    by (simp only: nthcdr_add)
  with Suc show ?case by (simp add: algebra_simps)
qed

subsection \<open>Valid atoms\<close>

text \<open>An atom of the heap: not a cons, and not an address beyond the heap.\<close>

definition atom_in :: "heap \<Rightarrow> obj \<Rightarrow> bool" where
  "atom_in h y \<longleftrightarrow> \<not> MKCL_CONSP h y \<and> (\<forall>a. y = Ref a \<longrightarrow> a < length h)"

lemma atom_in_nil [simp]: "atom_in h Cnil"
  by (simp add: atom_in_def)

lemma atom_in_not_consp: "atom_in h y \<Longrightarrow> \<not> MKCL_CONSP h y"
  by (simp add: atom_in_def)

lemma atom_in_alloc: "atom_in h y \<Longrightarrow> atom_in (h @ cs) y"
  by (cases y) (auto simp: atom_in_def MKCL_CONSP_def nth_append split: cell.splits)

lemma atom_in_update:
  assumes "atom_in h y" and "h ! a = ConsC u v"
  shows "atom_in (h[a := c]) y"
proof (cases y)
  case (Ref b)
  then have "b < length h" and "\<not> MKCL_CONSP h (Ref b)" using assms(1) by (simp_all add: atom_in_def)
  moreover from this have "h[a := c] ! b = h ! b"
    using assms(2) by (cases "b = a") (auto simp: MKCL_CONSP_def)
  ultimately show ?thesis using Ref by (simp add: atom_in_def MKCL_CONSP_def)
qed (simp_all add: atom_in_def MKCL_CONSP_def)

text \<open>Extending a copy at its tail: the cell \<open>t\<close> now points at the chain that starts at \<open>n\<close>.\<close>

lemma chain_extend_tail:
  assumes "chain h (Ref n) ns y" and "t < length h" and "h ! t = ConsC c (Ref n)"
  shows "chain h (Ref t) (t # ns) y" and "elems h (t # ns) = c # elems h ns"
  using assms by simp_all

lemma upt_Suc_Cons: "[n..<n + Suc k] = n # [Suc n..<Suc n + k]"
  by (subst upt_conv_Cons) (simp_all del: upt_Suc)

end
