(* ===== verification/Predicates.thy ===== *)
theory Predicates
  imports Objects
begin

text \<open>
  The equality predicates of \<^verbatim>\<open>src/src/c/predicate.c\<close>: \<open>eq\<close> is equality of
  \<open>obj\<close>, \<open>mkcl_eql\<close> adds numbers of the same type and value, \<open>mkcl_equal\<close> adds
  conses, strings, bit vectors, pathnames and foreign pointers. \<open>mkcl_equal\<close> follows the
  structure of its arguments and does not return on circular ones: it is a partial function,
  \<open>None\<close> is not returning.
\<close>

section \<open>EQL\<close>

text \<open>IEEE bit patterns: sign, exponent and fraction of a \<open>float\<close> and of a \<open>double\<close>.\<close>

definition sf_nan :: "32 word \<Rightarrow> bool" where
  "sf_nan f \<longleftrightarrow> (drop_bit 23 f AND 255 = 255) \<and> (f AND mask 23 \<noteq> 0)"

definition df_nan :: "64 word \<Rightarrow> bool" where
  "df_nan f \<longleftrightarrow> (drop_bit 52 f AND 2047 = 2047) \<and> (f AND mask 52 \<noteq> 0)"

text \<open>
  The hardware comparison \<open>xa == xb\<close>: false when one side is a NaN, otherwise equality of
  the patterns up to the sign of a zero.
\<close>

definition sf_eq :: "32 word \<Rightarrow> 32 word \<Rightarrow> bool" where
  "sf_eq f g \<longleftrightarrow> \<not> sf_nan f \<and> \<not> sf_nan g \<and> (f = g \<or> f AND mask 31 = 0 \<and> g AND mask 31 = 0)"

definition df_eq :: "64 word \<Rightarrow> 64 word \<Rightarrow> bool" where
  "df_eq f g \<longleftrightarrow> \<not> df_nan f \<and> \<not> df_nan g \<and> (f = g \<or> f AND mask 63 = 0 \<and> g AND mask 63 = 0)"

definition FLOAT_EQL_single :: "32 word \<Rightarrow> 32 word \<Rightarrow> bool" where
  "FLOAT_EQL_single a b =
     (if sf_eq a b then bit a 31 = bit b 31
      else if sf_nan a \<or> sf_nan b then a = b
      else False)"

definition FLOAT_EQL_double :: "64 word \<Rightarrow> 64 word \<Rightarrow> bool" where
  "FLOAT_EQL_double a b =
     (if df_eq a b then bit a 63 = bit b 63
      else if df_nan a \<or> df_nan b then a = b
      else False)"

lemma mask_zero_sign_eq:
  fixes f g :: "'a::len word"
  assumes "f AND mask n = 0" and "g AND mask n = 0" and "bit f n = bit g n"
    and "LENGTH('a) = Suc n"
  shows "f = g"
proof (rule bit_word_eqI)
  fix k
  assume "k < LENGTH('a)"
  then consider "k = n" | "k < n" using assms(4) by linarith
  then show "bit f k = bit g k"
  proof cases
    case 1
    then show ?thesis using assms(3) by simp
  next
    case 2
    have "\<not> bit (f AND mask n) k" and "\<not> bit (g AND mask n) k" using assms(1,2) by simp_all
    then show ?thesis using 2 \<open>k < LENGTH('a)\<close> by (auto simp: bit_simps)
  qed
qed

lemma FLOAT_EQL_single_iff: "FLOAT_EQL_single a b \<longleftrightarrow> a = b"
  using mask_zero_sign_eq [of a 31 b]
  by (auto simp: FLOAT_EQL_single_def sf_eq_def)

lemma FLOAT_EQL_double_iff: "FLOAT_EQL_double a b \<longleftrightarrow> a = b"
  using mask_zero_sign_eq [of a 63 b]
  by (auto simp: FLOAT_EQL_double_def df_eq_def)

text \<open>
  \<open>mkcl_eql\<close> on the components of a number: two fixnums are \<open>eql\<close> when they are the same
  immediate, boxed numbers of one type are compared by \<open>mkcl_eql_unboxable_numbers\<close>.
\<close>

fun eql_component :: "num \<Rightarrow> num \<Rightarrow> bool" where
  "eql_component (NFix m) y = (case y of NFix n \<Rightarrow> m = n | _ \<Rightarrow> False)"
| "eql_component (NBig m) y = (case y of NBig n \<Rightarrow> m = n | _ \<Rightarrow> False)"
| "eql_component (NRatio n d) y =
     (case y of NRatio n' d' \<Rightarrow> eql_component n n' \<and> eql_component d d' | _ \<Rightarrow> False)"
| "eql_component (NSingle f) y = (case y of NSingle g \<Rightarrow> FLOAT_EQL_single f g | _ \<Rightarrow> False)"
| "eql_component (NDouble f) y = (case y of NDouble g \<Rightarrow> FLOAT_EQL_double f g | _ \<Rightarrow> False)"
| "eql_component (NComplex r i) y =
     (case y of NComplex r' i' \<Rightarrow> eql_component r r' \<and> eql_component i i' | _ \<Rightarrow> False)"

definition mkcl_eql_unboxable_numbers :: "num \<Rightarrow> num \<Rightarrow> mkcl_type \<Rightarrow> bool" where
  "mkcl_eql_unboxable_numbers x y t =
     (case t of
        t_bignum \<Rightarrow> (case (x, y) of (NBig m, NBig n) \<Rightarrow> m = n | _ \<Rightarrow> False)
      | t_ratio \<Rightarrow> (case (x, y) of (NRatio n d, NRatio n' d') \<Rightarrow>
                      eql_component n n' \<and> eql_component d d' | _ \<Rightarrow> False)
      | t_singlefloat \<Rightarrow> (case (x, y) of (NSingle f, NSingle g) \<Rightarrow> FLOAT_EQL_single f g | _ \<Rightarrow> False)
      | t_doublefloat \<Rightarrow> (case (x, y) of (NDouble f, NDouble g) \<Rightarrow> FLOAT_EQL_double f g | _ \<Rightarrow> False)
      | t_complex \<Rightarrow> (case (x, y) of (NComplex r i, NComplex r' i') \<Rightarrow>
                      eql_component r r' \<and> eql_component i i' | _ \<Rightarrow> False)
      | _ \<Rightarrow> False)"

definition boxed_number :: "heap \<Rightarrow> obj \<Rightarrow> num option" where
  "boxed_number h x = (case cell_at h x of Some (NumC n) \<Rightarrow> Some n | _ \<Rightarrow> None)"

definition mkcl_eql :: "heap \<Rightarrow> obj \<Rightarrow> obj \<Rightarrow> bool" where
  "mkcl_eql h x y =
     (if x = y then True
      else case (boxed_number h x, boxed_number h y) of
        (Some m, Some n) \<Rightarrow>
          num_type m = num_type n \<and> mkcl_eql_unboxable_numbers m n (num_type m)
      | _ \<Rightarrow> False)"

text \<open>A boxed number is never a fixnum.\<close>

definition boxed :: "num \<Rightarrow> bool" where
  "boxed n \<longleftrightarrow> (\<forall>m. n \<noteq> NFix m)"

lemma eql_component_iff: "eql_component m n \<longleftrightarrow> m = n"
  by (induction m n rule: eql_component.induct)
    (auto simp: FLOAT_EQL_single_iff FLOAT_EQL_double_iff split: num.splits)

lemma eql_unboxable_iff:
  assumes "num_type m = num_type n" and "boxed m"
  shows "mkcl_eql_unboxable_numbers m n (num_type m) \<longleftrightarrow> m = n"
  using assms
  by (cases m; cases n)
    (auto simp: mkcl_eql_unboxable_numbers_def boxed_def eql_component_iff
       FLOAT_EQL_single_iff FLOAT_EQL_double_iff)

definition heap_numbers_boxed :: "heap \<Rightarrow> bool" where
  "heap_numbers_boxed h \<longleftrightarrow> list_all (\<lambda>c. case c of NumC n \<Rightarrow> boxed n | _ \<Rightarrow> True) h"

lemma boxed_number_boxed:
  assumes "heap_numbers_boxed h" and "boxed_number h x = Some n"
  shows "boxed n"
proof -
  from assms(2) obtain a where "a < length h" "h ! a = NumC n"
    by (cases x) (auto simp: boxed_number_def split: if_splits cell.splits)
  then show ?thesis
    using assms(1) unfolding heap_numbers_boxed_def list_all_length by fastforce
qed

lemma mkcl_eql_cases:
  assumes "heap_numbers_boxed h"
  shows "mkcl_eql h x y \<longleftrightarrow>
     x = y \<or> (\<exists>n. boxed_number h x = Some n \<and> boxed_number h y = Some n)"
  using boxed_number_boxed [OF assms] eql_unboxable_iff
  by (auto simp: mkcl_eql_def split: option.splits)

section \<open>EQUAL\<close>

definition bitvector_equal :: "bitvector \<Rightarrow> bitvector \<Rightarrow> bool" where
  "bitvector_equal x y =
     (if bit_fillp x \<noteq> bit_fillp y then False
      else list_all (\<lambda>i. bit_self x ! (i + bit_offset x) = bit_self y ! (i + bit_offset y))
             [0..<bit_fillp x])"

partial_function (option) mkcl_equal :: "heap \<Rightarrow> obj \<Rightarrow> obj \<Rightarrow> bool option" where
  "mkcl_equal h x y =
     (if x = y then Some True
      else case x of
        Character c \<Rightarrow> (case y of Character d \<Rightarrow> Some (c = d) | _ \<Rightarrow> Some False)
      | Ref a \<Rightarrow> (case cell_at h x of
          Some (ConsC u v) \<Rightarrow> (case cell_at h y of
              Some (ConsC u' v') \<Rightarrow>
                Option.bind (mkcl_equal h u u')
                  (\<lambda>b. if b then mkcl_equal h v v' else Some False)
            | _ \<Rightarrow> Some False)
        | Some (NumC m) \<Rightarrow> (case cell_at h y of
              Some (NumC n) \<Rightarrow>
                Some (num_type m = num_type n \<and> mkcl_eql_unboxable_numbers m n (num_type m))
            | _ \<Rightarrow> Some False)
        | Some (BaseStrC s) \<Rightarrow> (case cell_at h y of
              Some (BaseStrC t) \<Rightarrow> Some (s = t)
            | Some (StrC t) \<Rightarrow> Some (s = t)
            | _ \<Rightarrow> Some False)
        | Some (StrC s) \<Rightarrow> (case cell_at h y of
              Some (BaseStrC t) \<Rightarrow> Some (s = t)
            | Some (StrC t) \<Rightarrow> Some (s = t)
            | _ \<Rightarrow> Some False)
        | Some (BitVecC v) \<Rightarrow> (case cell_at h y of
              Some (BitVecC w) \<Rightarrow> Some (bitvector_equal v w)
            | _ \<Rightarrow> Some False)
        | Some (PathC p) \<Rightarrow> (case cell_at h y of
              Some (PathC q) \<Rightarrow>
                (if logical p \<noteq> logical q then Some False else
                 Option.bind (mkcl_equal h (path_host p) (path_host q)) (\<lambda>b. if \<not> b then Some False else
                 Option.bind (mkcl_equal h (path_device p) (path_device q)) (\<lambda>b. if \<not> b then Some False else
                 Option.bind (mkcl_equal h (path_directory p) (path_directory q)) (\<lambda>b. if \<not> b then Some False else
                 Option.bind (mkcl_equal h (path_name p) (path_name q)) (\<lambda>b. if \<not> b then Some False else
                 Option.bind (mkcl_equal h (path_type p) (path_type q)) (\<lambda>b. if \<not> b then Some False else
                 mkcl_equal h (path_version p) (path_version q)))))))
            | _ \<Rightarrow> Some False)
        | Some (ForeignC f) \<Rightarrow> (case cell_at h y of
              Some (ForeignC g) \<Rightarrow>
                (if foreign_data f = foreign_data g \<and> foreign_size f = foreign_size g
                 then mkcl_equal h (foreign_tag f) (foreign_tag g) else Some False)
            | _ \<Rightarrow> Some False)
        | _ \<Rightarrow> Some False)
      | _ \<Rightarrow> Some False)"

end
