(* ===== verification/Lists.thy ===== *)
theory Lists
  imports Chains Predicates
begin

text \<open>
  The list library of \<^verbatim>\<open>src/src/c/list.c\<close>: the definitions, in the order of the file.
  An operation takes the heap; one that allocates or writes returns the new heap. The loops
  follow the C loops; those that do not return on a circular list are partial functions whose
  value there is \<open>None\<close>. C's reads of \<open>errno\<close>-like state, the call-stack check and the
  multiple-value registers have no effect on the results and are left out.

  Functions passed by the caller (\<open>:test\<close>, \<open>:test-not\<close>, \<open>:key\<close>) are HOL functions of
  the heap and their arguments: a caller's function that writes to the heap is not modelled.
  The arguments of a variadic function are the list of them.
\<close>

section \<open>Tests\<close>

type_synonym lisp_fun1 = "heap \<Rightarrow> obj \<Rightarrow> obj"
type_synonym lisp_fun2 = "heap \<Rightarrow> obj \<Rightarrow> obj \<Rightarrow> obj"

text \<open>
  A function designator after \<open>mk_si_coerce_to_function\<close>: one of the four functions
  \<open>setup_test\<close> recognises, or another one. \<open>FEqualp\<close> carries \<open>mkcl_equalp\<close>.
\<close>

datatype fun_object =
    FEq | FEql | FEqual
  | FEqualp "heap \<Rightarrow> obj \<Rightarrow> obj \<Rightarrow> bool option"
  | FUser lisp_fun2

datatype test_c_function = test_eq | test_eql | test_equal | test_equalp | test_compare | test_compare_not

record cl_test =
  test_c :: test_c_function
  key_fn :: "lisp_fun1 option"
  test_fn :: lisp_fun2
  equalp_fn :: "heap \<Rightarrow> obj \<Rightarrow> obj \<Rightarrow> bool option"
  item_compared :: obj

definition KEY :: "heap \<Rightarrow> cl_test \<Rightarrow> obj \<Rightarrow> obj" where
  "KEY h t x = (case key_fn t of None \<Rightarrow> x | Some f \<Rightarrow> f h x)"

definition TEST :: "heap \<Rightarrow> cl_test \<Rightarrow> obj \<Rightarrow> bool option" where
  "TEST h t x =
     (case test_c t of
        test_compare \<Rightarrow> Some (test_fn t h (item_compared t) (KEY h t x) \<noteq> Cnil)
      | test_compare_not \<Rightarrow> Some (test_fn t h (item_compared t) (KEY h t x) = Cnil)
      | test_eq \<Rightarrow> Some (item_compared t = KEY h t x)
      | test_eql \<Rightarrow> Some (mkcl_eql h (item_compared t) (KEY h t x))
      | test_equal \<Rightarrow> mkcl_equal h (item_compared t) (KEY h t x)
      | test_equalp \<Rightarrow> equalp_fn t h (item_compared t) (KEY h t x))"

definition no_fun :: lisp_fun2 where
  "no_fun = (\<lambda>h x y. Cnil)"

definition no_equalp :: "heap \<Rightarrow> obj \<Rightarrow> obj \<Rightarrow> bool option" where
  "no_equalp = (\<lambda>h x y. None)"

definition setup_test ::
  "obj \<Rightarrow> fun_object option \<Rightarrow> lisp_fun2 option \<Rightarrow> lisp_fun1 option \<Rightarrow> lisp_error + cl_test" where
  "setup_test item test test_not key =
     (let t = \<lparr>test_c = test_eql, key_fn = key, test_fn = no_fun, equalp_fn = no_equalp,
               item_compared = item\<rparr>
      in case test of
        Some f \<Rightarrow>
          if test_not \<noteq> None then Inl BothTests
          else (case f of
              FEq \<Rightarrow> Inr (t\<lparr>test_c := test_eq\<rparr>)
            | FEql \<Rightarrow> Inr (t\<lparr>test_c := test_eql\<rparr>)
            | FEqual \<Rightarrow> Inr (t\<lparr>test_c := test_equal\<rparr>)
            | FEqualp p \<Rightarrow> Inr (t\<lparr>test_c := test_equalp, equalp_fn := p\<rparr>)
            | FUser g \<Rightarrow> Inr (t\<lparr>test_c := test_compare, test_fn := g\<rparr>))
      | None \<Rightarrow> (case test_not of
            Some g \<Rightarrow> Inr (t\<lparr>test_c := test_compare_not, test_fn := g\<rparr>)
          | None \<Rightarrow> Inr (t\<lparr>test_c := test_eql\<rparr>)))"

section \<open>Construction and selection\<close>

definition mk_cl_car :: "heap \<Rightarrow> obj \<Rightarrow> lisp_error + obj" where
  "mk_cl_car h x =
     (if x = Cnil then Inr Cnil
      else if MKCL_CONSP h x then Inr (MKCL_CONS_CAR h x)
      else Inl (TypeErrorList x))"

definition mk_cl_cdr :: "heap \<Rightarrow> obj \<Rightarrow> lisp_error + obj" where
  "mk_cl_cdr h x =
     (if x = Cnil then Inr Cnil
      else if MKCL_CONSP h x then Inr (MKCL_CONS_CDR h x)
      else Inl (TypeErrorList x))"

fun list_loop :: "heap \<Rightarrow> obj \<Rightarrow> obj list \<Rightarrow> heap" where
  "list_loop h tail [] = h"
| "list_loop h tail (a # args) =
     (let (cons, h1) = mkcl_list1 h a
      in list_loop (MKCL_RPLACD h1 tail cons) cons args)"

definition mk_cl_list :: "heap \<Rightarrow> obj list \<Rightarrow> obj \<times> heap" where
  "mk_cl_list h args =
     (case args of
        [] \<Rightarrow> (Cnil, h)
      | a # rest \<Rightarrow> (let (head, h1) = mkcl_list1 h a in (head, list_loop h1 head rest)))"

fun listX_loop :: "heap \<Rightarrow> obj \<Rightarrow> obj list \<Rightarrow> heap" where
  "listX_loop h tail [] = h"
| "listX_loop h tail [z] = MKCL_RPLACD h tail z"
| "listX_loop h tail (a # b # args) =
     (let (cons, h1) = mkcl_list1 h a
      in listX_loop (MKCL_RPLACD h1 tail cons) cons (b # args))"

definition mk_cl_listX :: "heap \<Rightarrow> obj list \<Rightarrow> (lisp_error + obj) \<times> heap" where
  "mk_cl_listX h args =
     (case args of
        [] \<Rightarrow> (Inl (WrongNumArguments 0), h)
      | [a] \<Rightarrow> (Inr a, h)
      | a # rest \<Rightarrow> (let (head, h1) = mkcl_list1 h a in (Inr head, listX_loop h1 head rest)))"

text \<open>\<open>copy_proper_tail\<close> returns the head of the copy and, through its argument, the last cons.\<close>

partial_function (option) copy_proper_tail_loop :: "heap \<Rightarrow> obj \<Rightarrow> obj \<Rightarrow> (obj \<times> obj) action" where
  "copy_proper_tail_loop h root cursor =
     (let next = MKCL_CONS_CDR h cursor
      in if MKCL_CONSP h next
         then (let (new, h1) = mkcl_cons h (MKCL_CONS_CAR h next) (MKCL_CONS_CDR h next)
               in copy_proper_tail_loop (MKCL_RPLACD h1 cursor new) root new)
         else if next \<noteq> Cnil then Some (Inl (TypeErrorProperList root), h)
         else Some (Inr (root, cursor), h))"

definition copy_proper_tail :: "heap \<Rightarrow> obj \<Rightarrow> (obj \<times> obj) action" where
  "copy_proper_tail h cursor =
     (if MKCL_CONSP h cursor
      then (let (new, h1) = mkcl_cons h (MKCL_CONS_CAR h cursor) (MKCL_CONS_CDR h cursor)
            in copy_proper_tail_loop h1 new new)
      else Some (Inl (TypeErrorList cursor), h))"

fun append_loop :: "heap \<Rightarrow> obj \<Rightarrow> obj \<Rightarrow> obj list \<Rightarrow> obj action" where
  "append_loop h head tail [] = Some (Inr head, h)"
| "append_loop h head tail [z] =
     (if tail = Cnil then Some (Inr z, h) else Some (Inr head, MKCL_RPLACD h tail z))"
| "append_loop h head tail (x # y # args) =
     (if x = Cnil then append_loop h head tail (y # args)
      else Option.bind (copy_proper_tail h x) (\<lambda>(r, h1). case r of
          Inl e \<Rightarrow> Some (Inl e, h1)
        | Inr (root, end') \<Rightarrow>
            if tail = Cnil then append_loop h1 root end' (y # args)
            else append_loop (MKCL_RPLACD h1 tail root) head end' (y # args)))"

definition mk_cl_append :: "heap \<Rightarrow> obj list \<Rightarrow> obj action" where
  "mk_cl_append h args = append_loop h Cnil Cnil args"

definition mkcl_append :: "heap \<Rightarrow> obj \<Rightarrow> obj \<Rightarrow> obj action" where
  "mkcl_append h x y =
     (if x = Cnil then Some (Inr y, h)
      else Option.bind (copy_proper_tail h x) (\<lambda>(r, h1). case r of
          Inl e \<Rightarrow> Some (Inl e, h1)
        | Inr (head, end') \<Rightarrow> Some (Inr head, MKCL_RPLACD h1 end' y)))"

text \<open>
  The 28 functions \<open>caar\<close> to \<open>cddddr\<close> made by the macro \<open>defcxr\<close>: the letters between
  \<open>c\<close> and \<open>r\<close>, applied from the right.
\<close>

datatype ad = A | D

fun cxr_steps :: "heap \<Rightarrow> ad list \<Rightarrow> obj \<Rightarrow> lisp_error + obj" where
  "cxr_steps h [] x = Inr x"
| "cxr_steps h (s # ss) x =
     (if \<not> MKCL_LISTP h x then Inl (TypeErrorList x)
      else if x = Cnil then cxr_steps h ss x
      else cxr_steps h ss (case s of A \<Rightarrow> MKCL_CONS_CAR h x | D \<Rightarrow> MKCL_CONS_CDR h x))"

definition defcxr :: "heap \<Rightarrow> ad list \<Rightarrow> obj \<Rightarrow> lisp_error + obj" where
  "defcxr h name x = cxr_steps h (rev name) x"

section \<open>Loops over proper lists\<close>

text \<open>
  The macro \<open>mkcl_loop_for_in\<close> with a body that may leave the loop: \<open>body l\<close> runs at the
  cons \<open>l\<close>; \<open>Inr True\<close> leaves the loop there, \<open>Inr False\<close> goes on. The result is the
  cons the loop was left at, or \<open>Cnil\<close>.
\<close>

partial_function (option) loop_for_in ::
  "heap \<Rightarrow> (obj \<Rightarrow> bool query) \<Rightarrow> obj \<Rightarrow> obj \<Rightarrow> obj query" where
  "loop_for_in h body l0 l =
     (if l = Cnil then Some (Inr Cnil)
      else if \<not> MKCL_CONSP h l then Some (Inl (TypeErrorProperList l0))
      else Option.bind (body l) (\<lambda>r. case r of
          Inl e \<Rightarrow> Some (Inl e)
        | Inr b \<Rightarrow> if b then Some (Inr l) else loop_for_in h body l0 (MKCL_CONS_CDR h l)))"

partial_function (option) tree_equal :: "heap \<Rightarrow> cl_test \<Rightarrow> obj \<Rightarrow> obj \<Rightarrow> bool option" where
  "tree_equal h t x y =
     (if MKCL_CONSP h x then
        if MKCL_CONSP h y then
          Option.bind (tree_equal h t (MKCL_CONS_CAR h x) (MKCL_CONS_CAR h y)) (\<lambda>b.
            if b then tree_equal h t (MKCL_CONS_CDR h x) (MKCL_CONS_CDR h y) else Some False)
        else Some False
      else TEST h (t\<lparr>item_compared := x\<rparr>) y)"

definition mk_cl_tree_equal ::
  "heap \<Rightarrow> obj \<Rightarrow> obj \<Rightarrow> fun_object option \<Rightarrow> lisp_fun2 option \<Rightarrow> bool query" where
  "mk_cl_tree_equal h x y test test_not =
     (case setup_test Cnil test test_not None of
        Inl e \<Rightarrow> Some (Inl e)
      | Inr t \<Rightarrow> map_option Inr (tree_equal h t x y))"

definition mkcl_endp :: "heap \<Rightarrow> obj \<Rightarrow> lisp_error + bool" where
  "mkcl_endp h x =
     (if x = Cnil then Inr True
      else if MKCL_LISTP h x then Inr False
      else Inl (TypeErrorList x))"

partial_function (option) list_length_loop :: "heap \<Rightarrow> nat \<Rightarrow> obj \<Rightarrow> obj \<Rightarrow> obj query" where
  "list_length_loop h n fast slow =
     (if fast = Cnil then Some (Inr (Fixnum (int n)))
      else if \<not> MKCL_LISTP h fast then Some (Inl (TypeErrorList fast))
      else if slow = fast \<and> n \<noteq> 0 then Some (Inr Cnil)
      else list_length_loop h (n + 1) (MKCL_CONS_CDR h fast)
             (if odd n then MKCL_CONS_CDR h slow else slow))"

definition mk_cl_list_length :: "heap \<Rightarrow> obj \<Rightarrow> obj query" where
  "mk_cl_list_length h x = list_length_loop h 0 x x"

fun nth_loop :: "heap \<Rightarrow> nat \<Rightarrow> obj \<Rightarrow> obj" where
  "nth_loop h 0 x = x"
| "nth_loop h (Suc n) x = (if MKCL_CONSP h x then nth_loop h n (MKCL_CONS_CDR h x) else x)"

definition mkcl_nth :: "heap \<Rightarrow> int \<Rightarrow> obj \<Rightarrow> lisp_error + obj" where
  "mkcl_nth h n x =
     (if n < 0 then Inl (TypeErrorSeqIndex x n)
      else let x' = nth_loop h (nat n) x
           in if x' = Cnil then Inr Cnil
              else if MKCL_CONSP h x' then Inr (MKCL_CONS_CAR h x')
              else Inl (TypeErrorList x'))"

text \<open>\<open>mkcl_safe_fixnum_to_word\<close> rejects everything but a fixnum.\<close>

definition mkcl_safe_fixnum_to_word :: "obj \<Rightarrow> lisp_error + int" where
  "mkcl_safe_fixnum_to_word x = (case x of Fixnum n \<Rightarrow> Inr n | _ \<Rightarrow> Inl (TypeErrorFixnum x))"

definition mk_cl_nth :: "heap \<Rightarrow> obj \<Rightarrow> obj \<Rightarrow> lisp_error + obj" where
  "mk_cl_nth h n x =
     (case mkcl_safe_fixnum_to_word n of Inl e \<Rightarrow> Inl e | Inr k \<Rightarrow> mkcl_nth h k x)"

fun nthcdr_loop :: "heap \<Rightarrow> nat \<Rightarrow> obj \<Rightarrow> lisp_error + obj" where
  "nthcdr_loop h 0 x = Inr x"
| "nthcdr_loop h (Suc n) x =
     (if x = Cnil then Inr x
      else if MKCL_LISTP h x then nthcdr_loop h n (MKCL_CONS_CDR h x)
      else Inl (TypeErrorList x))"

definition mkcl_nthcdr :: "heap \<Rightarrow> int \<Rightarrow> obj \<Rightarrow> lisp_error + obj" where
  "mkcl_nthcdr h n x =
     (if n < 0 then Inl (TypeErrorSeqIndex x n) else nthcdr_loop h (nat n) x)"

definition mk_cl_nthcdr :: "heap \<Rightarrow> obj \<Rightarrow> obj \<Rightarrow> lisp_error + obj" where
  "mk_cl_nthcdr h n x =
     (case mkcl_safe_fixnum_to_word n of Inl e \<Rightarrow> Inl e | Inr k \<Rightarrow> mkcl_nthcdr h k x)"

section \<open>Ends, copies and concatenation\<close>

text \<open>\<open>mkcl_integer_to_index\<close>: a non-negative fixnum, or a bignum that fits an unsigned word.\<close>

definition mkcl_integer_to_index :: "heap \<Rightarrow> obj \<Rightarrow> lisp_error + nat" where
  "mkcl_integer_to_index h x =
     (case x of
        Fixnum n \<Rightarrow> if 0 \<le> n then Inr (nat n) else Inl (TypeErrorIndex x)
      | _ \<Rightarrow> (case boxed_number h x of
            Some (NBig n) \<Rightarrow> if 0 \<le> n \<and> n < 2 ^ 64 then Inr (nat n) else Inl (TypeErrorIndex x)
          | _ \<Rightarrow> Inl (TypeErrorIndex x)))"

definition bignump :: "heap \<Rightarrow> obj \<Rightarrow> bool" where
  "bignump h x = (case boxed_number h x of Some (NBig n) \<Rightarrow> True | _ \<Rightarrow> False)"

fun last_advance :: "heap \<Rightarrow> nat \<Rightarrow> obj \<Rightarrow> nat \<times> obj" where
  "last_advance h 0 r = (0, r)"
| "last_advance h (Suc n) r =
     (if MKCL_CONSP h r then last_advance h n (MKCL_CONS_CDR h r) else (Suc n, r))"

partial_function (option) last_atom_loop :: "heap \<Rightarrow> obj \<Rightarrow> obj option" where
  "last_atom_loop h r =
     (if MKCL_CONSP h r then last_atom_loop h (MKCL_CONS_CDR h r) else Some r)"

partial_function (option) last_pair_loop :: "heap \<Rightarrow> obj \<Rightarrow> obj \<Rightarrow> obj option" where
  "last_pair_loop h r l =
     (if MKCL_CONSP h r then last_pair_loop h (MKCL_CONS_CDR h r) (MKCL_CONS_CDR h l) else Some l)"

definition mkcl_last :: "heap \<Rightarrow> obj \<Rightarrow> nat \<Rightarrow> obj query" where
  "mkcl_last h l n =
     (let (n', r) = last_advance h n l
      in if r = l then
           (if \<not> MKCL_LISTP h r then Some (Inl (TypeErrorList l))
            else map_option Inr (last_atom_loop h r))
         else if n' = 0 then map_option Inr (last_pair_loop h r l)
         else Some (Inr l))"

definition mk_cl_last :: "heap \<Rightarrow> obj \<Rightarrow> obj \<Rightarrow> obj query" where
  "mk_cl_last h l k =
     (if bignump h k then Some (Inr l)
      else case mkcl_integer_to_index h k of
        Inl e \<Rightarrow> Some (Inl e)
      | Inr n \<Rightarrow> mkcl_last h l n)"

fun make_list_loop :: "heap \<Rightarrow> nat \<Rightarrow> obj \<Rightarrow> obj \<Rightarrow> obj \<times> heap" where
  "make_list_loop h 0 e x = (x, h)"
| "make_list_loop h (Suc i) e x = (let (x', h') = mkcl_cons h e x in make_list_loop h' i e x')"

text \<open>The size is stored in the signed \<open>mkcl_word i\<close>: from \<open>2 ^ 63\<close> on it is negative.\<close>

definition index_to_word :: "nat \<Rightarrow> int" where
  "index_to_word n = (if n < 2 ^ 63 then int n else int n - 2 ^ 64)"

definition mk_cl_make_list :: "heap \<Rightarrow> obj \<Rightarrow> obj \<Rightarrow> (lisp_error + obj) \<times> heap" where
  "mk_cl_make_list h sz initial_element =
     (case mkcl_integer_to_index h sz of
        Inl e \<Rightarrow> (Inl e, h)
      | Inr n \<Rightarrow> (let (x, h') = make_list_loop h (nat (index_to_word n)) initial_element Cnil
                  in (Inr x, h')))"

partial_function (option) copy_proper_list_loop :: "heap \<Rightarrow> obj \<Rightarrow> obj \<Rightarrow> unit action" where
  "copy_proper_list_loop h tail x =
     (if x = Cnil then Some (Inr (), h)
      else if \<not> MKCL_CONSP h x then Some (Inl BadAccess, h)
      else let (cons, h1) = mkcl_list1 h (MKCL_CONS_CAR h x)
           in copy_proper_list_loop (MKCL_RPLACD h1 tail cons) cons
                (MKCL_CONS_CDR (MKCL_RPLACD h1 tail cons) x))"

definition mkcl_copy_proper_list :: "heap \<Rightarrow> obj \<Rightarrow> obj action" where
  "mkcl_copy_proper_list h x =
     (if x = Cnil then Some (Inr Cnil, h)
      else if \<not> MKCL_CONSP h x then Some (Inl BadAccess, h)
      else let (copy, h1) = mkcl_list1 h (MKCL_CONS_CAR h x)
           in Option.bind (copy_proper_list_loop h1 copy (MKCL_CONS_CDR h1 x)) (\<lambda>(r, h2). case r of
                Inl e \<Rightarrow> Some (Inl e, h2) | Inr _ \<Rightarrow> Some (Inr copy, h2)))"

partial_function (option) copy_list_loop :: "heap \<Rightarrow> obj \<Rightarrow> obj \<Rightarrow> heap option" where
  "copy_list_loop h tail x =
     (let x' = MKCL_CONS_CDR h x
      in if MKCL_CONSP h x'
         then (let (cons, h1) = mkcl_list1 h (MKCL_CONS_CAR h x')
               in copy_list_loop (MKCL_RPLACD h1 tail cons) cons x')
         else Some (MKCL_RPLACD h tail x'))"

definition mk_cl_copy_list :: "heap \<Rightarrow> obj \<Rightarrow> obj action" where
  "mk_cl_copy_list h x =
     (if \<not> MKCL_LISTP h x then Some (Inl (TypeErrorList x), h)
      else if x = Cnil then Some (Inr Cnil, h)
      else let (copy, h1) = mkcl_list1 h (MKCL_CONS_CAR h x)
           in map_option (\<lambda>h2. (Inr copy, h2)) (copy_list_loop h1 copy x))"

partial_function (option) reverse_proper_loop :: "heap \<Rightarrow> obj \<Rightarrow> obj \<Rightarrow> obj action" where
  "reverse_proper_loop h output x =
     (if x = Cnil then Some (Inr output, h)
      else if \<not> MKCL_CONSP h x then Some (Inl BadAccess, h)
      else let (output', h1) = mkcl_cons h (MKCL_CONS_CAR h x) output
           in reverse_proper_loop h1 output' (MKCL_CONS_CDR h1 x))"

definition mkcl_reverse_proper_list :: "heap \<Rightarrow> obj \<Rightarrow> obj action" where
  "mkcl_reverse_proper_list h x = reverse_proper_loop h Cnil x"

partial_function (option) nreverse_loop :: "heap \<Rightarrow> obj \<Rightarrow> obj \<Rightarrow> obj action" where
  "nreverse_loop h old new =
     (if old = Cnil then Some (Inr new, h)
      else if \<not> MKCL_CONSP h old then Some (Inl BadAccess, h)
      else nreverse_loop (MKCL_RPLACD h old new) (MKCL_CONS_CDR h old) old)"

definition mkcl_nreverse_proper_list :: "heap \<Rightarrow> obj \<Rightarrow> obj action" where
  "mkcl_nreverse_proper_list h old = nreverse_loop h old Cnil"

definition duplicate_pairs :: "heap \<Rightarrow> obj \<Rightarrow> obj \<times> heap" where
  "duplicate_pairs h x =
     (let p = MKCL_CONS_CAR h x
      in if MKCL_CONSP h p
         then (let (p', h1) = mkcl_cons h (MKCL_CONS_CAR h p) (MKCL_CONS_CDR h p) in mkcl_list1 h1 p')
         else mkcl_list1 h p)"

partial_function (option) copy_alist_loop :: "heap \<Rightarrow> obj \<Rightarrow> obj \<Rightarrow> unit action" where
  "copy_alist_loop h tail x =
     (let x' = MKCL_CONS_CDR h x
      in if x' = Cnil then Some (Inr (), h)
         else if \<not> MKCL_LISTP h x' then Some (Inl (TypeErrorList x'), h)
         else let (cons, h1) = duplicate_pairs h x'
              in copy_alist_loop (MKCL_RPLACD h1 tail cons) cons x')"

definition mk_cl_copy_alist :: "heap \<Rightarrow> obj \<Rightarrow> obj action" where
  "mk_cl_copy_alist h x =
     (if \<not> MKCL_LISTP h x then Some (Inl (TypeErrorList x), h)
      else if x = Cnil then Some (Inr Cnil, h)
      else let (copy, h1) = duplicate_pairs h x
           in Option.bind (copy_alist_loop h1 copy x) (\<lambda>(r, h2). case r of
                Inl e \<Rightarrow> Some (Inl e, h2) | Inr _ \<Rightarrow> Some (Inr copy, h2)))"

text \<open>The C compiler may evaluate the two copies in either order; the model takes the car first.\<close>

partial_function (option) do_copy_tree :: "heap \<Rightarrow> obj \<Rightarrow> (obj \<times> heap) option" where
  "do_copy_tree h x =
     (if MKCL_CONSP h x
      then Option.bind (do_copy_tree h (MKCL_CONS_CAR h x)) (\<lambda>(a, h1).
           Option.bind (do_copy_tree h1 (MKCL_CONS_CDR h1 x)) (\<lambda>(d, h2).
           Some (mkcl_cons h2 a d)))
      else Some (x, h))"

definition mk_cl_copy_tree :: "heap \<Rightarrow> obj \<Rightarrow> (obj \<times> heap) option" where
  "mk_cl_copy_tree h x = do_copy_tree h x"

partial_function (option) revappend_loop :: "heap \<Rightarrow> obj \<Rightarrow> obj \<Rightarrow> obj \<Rightarrow> obj action" where
  "revappend_loop h x0 x y =
     (if x = Cnil then Some (Inr y, h)
      else if \<not> MKCL_CONSP h x then Some (Inl (TypeErrorProperList x0), h)
      else let (y', h1) = mkcl_cons h (MKCL_CONS_CAR h x) y
           in revappend_loop h1 x0 (MKCL_CONS_CDR h1 x) y')"

definition mk_cl_revappend :: "heap \<Rightarrow> obj \<Rightarrow> obj \<Rightarrow> obj action" where
  "mk_cl_revappend h x y = revappend_loop h x x y"

fun nconc_loop :: "heap \<Rightarrow> obj \<Rightarrow> obj \<Rightarrow> obj list \<Rightarrow> obj action" where
  "nconc_loop h head tail [] = Some (Inr head, h)"
| "nconc_loop h head tail (other # others) =
     (let continue = (\<lambda>new_tail.
            if head = Cnil then nconc_loop h other new_tail others
            else nconc_loop (MKCL_RPLACD h tail other) head new_tail others)
      in if other = Cnil then continue tail
         else if MKCL_CONSP h other then
           Option.bind (mkcl_last h other 1) (\<lambda>r. case r of
               Inl e \<Rightarrow> Some (Inl e, h) | Inr new_tail \<Rightarrow> continue new_tail)
         else if others \<noteq> [] then Some (Inl (TypeErrorList other), h)
         else continue tail)"

definition mk_cl_nconc :: "heap \<Rightarrow> obj list \<Rightarrow> obj action" where
  "mk_cl_nconc h others = nconc_loop h Cnil Cnil others"

definition mkcl_nconc :: "heap \<Rightarrow> obj \<Rightarrow> obj \<Rightarrow> obj action" where
  "mkcl_nconc h l y =
     (if l = Cnil then Some (Inr y, h)
      else Option.bind (mkcl_last h l 1) (\<lambda>r. case r of
          Inl e \<Rightarrow> Some (Inl e, h) | Inr z \<Rightarrow> Some (Inr l, MKCL_RPLACD h z y)))"

partial_function (option) nreconc_loop :: "heap \<Rightarrow> obj \<Rightarrow> obj \<Rightarrow> obj \<Rightarrow> obj action" where
  "nreconc_loop h l x y =
     (if x = Cnil then Some (Inr y, h)
      else if \<not> MKCL_LISTP h x then Some (Inl (TypeErrorList x), h)
      else let x' = MKCL_CONS_CDR h x
           in if x' = l then Some (Inl (CircularList l), h)
              else nreconc_loop (MKCL_RPLACD h x y) l x' x)"

definition mk_cl_nreconc :: "heap \<Rightarrow> obj \<Rightarrow> obj \<Rightarrow> obj action" where
  "mk_cl_nreconc h l y = nreconc_loop h l l y"

partial_function (option) butlast_loop :: "heap \<Rightarrow> obj \<Rightarrow> obj \<Rightarrow> obj \<Rightarrow> heap option" where
  "butlast_loop h tail l r =
     (let l' = MKCL_CONS_CDR h l; r' = MKCL_CONS_CDR h r
      in if MKCL_CONSP h r'
         then (let (cons, h1) = mkcl_list1 h (MKCL_CONS_CAR h l')
               in butlast_loop (MKCL_RPLACD h1 tail cons) cons l' r')
         else Some h)"

definition mkcl_butlast :: "heap \<Rightarrow> obj \<Rightarrow> nat \<Rightarrow> obj action" where
  "mkcl_butlast h l n =
     (let (n', r) = last_advance h n l
      in if r = Cnil then Some (Inr Cnil, h)
         else if \<not> MKCL_LISTP h r then
           (if r = l then Some (Inl (TypeErrorList r), h) else Some (Inr Cnil, h))
         else let (head, h1) = mkcl_list1 h (if l = Cnil then l else MKCL_CONS_CAR h l)
              in map_option (\<lambda>h2. (Inr head, h2)) (butlast_loop h1 head l r))"

definition mk_cl_butlast :: "heap \<Rightarrow> obj \<Rightarrow> obj \<Rightarrow> obj action" where
  "mk_cl_butlast h lis nn =
     (if bignump h nn then Some (Inr Cnil, h)
      else case mkcl_integer_to_index h nn of
        Inl e \<Rightarrow> Some (Inl e, h)
      | Inr n \<Rightarrow> mkcl_butlast h lis n)"

definition mkcl_nbutlast :: "heap \<Rightarrow> obj \<Rightarrow> nat \<Rightarrow> obj action" where
  "mkcl_nbutlast h l n =
     (if \<not> MKCL_LISTP h l then Some (Inl (TypeErrorList l), h)
      else let (n', r) = last_advance h (Suc n) l
           in if n' = 0
              then map_option (\<lambda>tail. (Inr l, MKCL_RPLACD h tail Cnil)) (last_pair_loop h r l)
              else Some (Inr Cnil, h))"

definition mk_cl_nbutlast :: "heap \<Rightarrow> obj \<Rightarrow> obj \<Rightarrow> obj action" where
  "mk_cl_nbutlast h lis nn =
     (if bignump h nn then Some (Inr Cnil, h)
      else case mkcl_integer_to_index h nn of
        Inl e \<Rightarrow> Some (Inl e, h)
      | Inr n \<Rightarrow> mkcl_nbutlast h lis n)"

partial_function (option) ldiff_loop :: "heap \<Rightarrow> obj \<Rightarrow> obj \<Rightarrow> obj \<Rightarrow> heap option" where
  "ldiff_loop h y tail x =
     (let x' = MKCL_CONS_CDR h x
      in if \<not> MKCL_CONSP h x' then
           (if \<not> mkcl_eql h x' y then Some (MKCL_RPLACD h tail x') else Some h)
         else if x' = y then Some h
         else let (cons, h1) = mkcl_list1 h (MKCL_CONS_CAR h x')
              in ldiff_loop (MKCL_RPLACD h1 tail cons) y cons x')"

definition mk_cl_ldiff :: "heap \<Rightarrow> obj \<Rightarrow> obj \<Rightarrow> obj action" where
  "mk_cl_ldiff h x y =
     (if \<not> MKCL_LISTP h x then Some (Inl (TypeErrorList x), h)
      else if x \<noteq> Cnil \<and> x \<noteq> y then
        (let (head, h1) = mkcl_list1 h (MKCL_CONS_CAR h x)
         in map_option (\<lambda>h2. (Inr head, h2)) (ldiff_loop h1 y head x))
      else Some (Inr Cnil, h))"

definition mk_cl_rplaca :: "heap \<Rightarrow> obj \<Rightarrow> obj \<Rightarrow> (lisp_error + obj) \<times> heap" where
  "mk_cl_rplaca h x v =
     (if MKCL_CONSP h x then (Inr x, MKCL_RPLACA h x v) else (Inl (TypeErrorCons x), h))"

definition mk_cl_rplacd :: "heap \<Rightarrow> obj \<Rightarrow> obj \<Rightarrow> (lisp_error + obj) \<times> heap" where
  "mk_cl_rplacd h x v =
     (if MKCL_CONSP h x then (Inr x, MKCL_RPLACD h x v) else (Inl (TypeErrorCons x), h))"

end
