(* ===== verification/Alists.thy ===== *)
theory Alists
  imports Lists
begin

text \<open>
  The second half of \<^verbatim>\<open>src/src/c/list.c\<close>: association lists, substitution in trees,
  membership, and the stack of conses with dynamic extent. The conventions are those of the
  theory \<open>Lists\<close>.
\<close>

section \<open>Association and membership\<close>

definition alist_body ::
  "heap \<Rightarrow> cl_test \<Rightarrow> (heap \<Rightarrow> obj \<Rightarrow> obj) \<Rightarrow> obj \<Rightarrow> bool query" where
  "alist_body h t field l =
     (let pair = MKCL_CONS_CAR h l
      in if pair = Cnil then Some (Inr False)
         else if \<not> MKCL_LISTP h pair then Some (Inl (TypeErrorList pair))
         else map_option Inr (TEST h t (field h pair)))"

text \<open>\<open>found_pair\<close>: the pair at the cons the loop was left at.\<close>

definition found_pair :: "heap \<Rightarrow> obj query \<Rightarrow> obj query" where
  "found_pair h q = map_option (map_sum id (\<lambda>l. if l = Cnil then Cnil else MKCL_CONS_CAR h l)) q"

definition do_assoc :: "heap \<Rightarrow> cl_test \<Rightarrow> obj \<Rightarrow> obj query" where
  "do_assoc h t a_list = found_pair h (loop_for_in h (alist_body h t MKCL_CONS_CAR) a_list a_list)"

definition mk_cl_assoc ::
  "heap \<Rightarrow> obj \<Rightarrow> obj \<Rightarrow> fun_object option \<Rightarrow> lisp_fun2 option \<Rightarrow> lisp_fun1 option \<Rightarrow> obj query" where
  "mk_cl_assoc h item a_list test test_not key =
     (case setup_test item test test_not key of
        Inl e \<Rightarrow> Some (Inl e)
      | Inr t \<Rightarrow> do_assoc h t a_list)"

definition mk_cl_rassoc ::
  "heap \<Rightarrow> obj \<Rightarrow> obj \<Rightarrow> fun_object option \<Rightarrow> lisp_fun2 option \<Rightarrow> lisp_fun1 option \<Rightarrow> obj query" where
  "mk_cl_rassoc h item a_list test test_not key =
     (case setup_test item test test_not key of
        Inl e \<Rightarrow> Some (Inl e)
      | Inr t \<Rightarrow> found_pair h (loop_for_in h (alist_body h t MKCL_CONS_CDR) a_list a_list))"

definition mk_cl_member ::
  "heap \<Rightarrow> obj \<Rightarrow> obj \<Rightarrow> fun_object option \<Rightarrow> lisp_fun2 option \<Rightarrow> lisp_fun1 option \<Rightarrow> obj query" where
  "mk_cl_member h item l test test_not key =
     (case setup_test item test test_not key of
        Inl e \<Rightarrow> Some (Inl e)
      | Inr t \<Rightarrow> loop_for_in h (\<lambda>c. map_option Inr (TEST h t (MKCL_CONS_CAR h c))) l l)"

definition mkcl_memq :: "heap \<Rightarrow> obj \<Rightarrow> obj \<Rightarrow> obj query" where
  "mkcl_memq h x l = loop_for_in h (\<lambda>c. Some (Inr (x = MKCL_CONS_CAR h c))) l l"

definition mkcl_member_eq :: "heap \<Rightarrow> obj \<Rightarrow> obj \<Rightarrow> bool query" where
  "mkcl_member_eq h x l =
     map_option (map_sum id (\<lambda>c. c \<noteq> Cnil))
       (loop_for_in h (\<lambda>c. Some (Inr (x = MKCL_CONS_CAR h c))) l l)"

definition mkcl_memql :: "heap \<Rightarrow> obj \<Rightarrow> obj \<Rightarrow> obj query" where
  "mkcl_memql h x l = loop_for_in h (\<lambda>c. Some (Inr (mkcl_eql h x (MKCL_CONS_CAR h c)))) l l"

definition mkcl_member :: "heap \<Rightarrow> obj \<Rightarrow> obj \<Rightarrow> obj query" where
  "mkcl_member h x l =
     loop_for_in h (\<lambda>c. map_option Inr (mkcl_equal h x (MKCL_CONS_CAR h c))) l l"

definition mk_si_member1 ::
  "heap \<Rightarrow> obj \<Rightarrow> obj \<Rightarrow> fun_object option \<Rightarrow> lisp_fun2 option \<Rightarrow> lisp_fun1 option \<Rightarrow> obj query" where
  "mk_si_member1 h item l test test_not key =
     (let item' = (case key of None \<Rightarrow> item | Some f \<Rightarrow> f h item)
      in case setup_test item' test test_not key of
           Inl e \<Rightarrow> Some (Inl e)
         | Inr t \<Rightarrow> loop_for_in h (\<lambda>c. map_option Inr (TEST h t (MKCL_CONS_CAR h c))) l l)"

partial_function (option) tailp_loop :: "heap \<Rightarrow> obj \<Rightarrow> obj \<Rightarrow> bool option" where
  "tailp_loop h y x =
     (if MKCL_CONSP h x
      then if mkcl_eql h x y then Some True else tailp_loop h y (MKCL_CONS_CDR h x)
      else Some (mkcl_eql h x y))"

definition mk_cl_tailp :: "heap \<Rightarrow> obj \<Rightarrow> obj \<Rightarrow> bool query" where
  "mk_cl_tailp h y x =
     (if \<not> MKCL_CONSP h x \<and> x \<noteq> Cnil then Some (Inl (TypeErrorList x))
      else map_option Inr (tailp_loop h y x))"

definition adjoin_result :: "heap \<Rightarrow> obj \<Rightarrow> obj \<Rightarrow> obj query \<Rightarrow> obj action" where
  "adjoin_result h item l q =
     Option.bind q (\<lambda>r. case r of
        Inl e \<Rightarrow> Some (Inl e, h)
      | Inr found \<Rightarrow>
          if found = Cnil then (let (x, h') = mkcl_cons h item l in Some (Inr x, h'))
          else Some (Inr l, h))"

definition mkcl_adjoin_eq :: "heap \<Rightarrow> obj \<Rightarrow> obj \<Rightarrow> obj action" where
  "mkcl_adjoin_eq h item l = adjoin_result h item l (mkcl_memq h item l)"

definition mkcl_adjoin :: "heap \<Rightarrow> obj \<Rightarrow> obj \<Rightarrow> obj action" where
  "mkcl_adjoin h item l = adjoin_result h item l (mkcl_memql h item l)"

text \<open>\<open>mk_cl_adjoin\<close> with no keyword argument (\<open>narg == 2\<close>) is \<open>mkcl_adjoin\<close>.\<close>

definition mk_cl_adjoin ::
  "heap \<Rightarrow> obj \<Rightarrow> obj \<Rightarrow> bool \<Rightarrow> fun_object option \<Rightarrow> lisp_fun2 option \<Rightarrow> lisp_fun1 option \<Rightarrow> obj action" where
  "mk_cl_adjoin h item l keywords test test_not key =
     (if \<not> keywords then mkcl_adjoin h item l
      else adjoin_result h item l (mk_si_member1 h item l test test_not key))"

definition mk_cl_acons :: "heap \<Rightarrow> obj \<Rightarrow> obj \<Rightarrow> obj \<Rightarrow> obj \<times> heap" where
  "mk_cl_acons h x y z = (let (p, h1) = mkcl_cons h x y in mkcl_cons h1 p z)"

partial_function (option) pairlis_loop :: "heap \<Rightarrow> obj \<Rightarrow> obj \<Rightarrow> obj \<Rightarrow> obj \<Rightarrow> obj \<Rightarrow> obj action" where
  "pairlis_loop h keys data k d a_list =
     (if k = Cnil then
        (case mkcl_endp h d of
           Inl e \<Rightarrow> Some (Inl e, h)
         | Inr e \<Rightarrow> if e then Some (Inr a_list, h)
                    else Some (Inl (UnequalLengths keys data), h))
      else if \<not> MKCL_CONSP h k then Some (Inl (TypeErrorProperList keys), h)
      else case mkcl_endp h d of
           Inl e \<Rightarrow> Some (Inl e, h)
         | Inr e \<Rightarrow>
             if e then Some (Inl (UnequalLengths keys data), h) else
             let (p, h1) = mkcl_cons h (MKCL_CONS_CAR h k) (MKCL_CONS_CAR h d);
                 (a', h2) = mkcl_cons h1 p a_list
             in pairlis_loop h2 keys data (MKCL_CONS_CDR h2 k) (MKCL_CONS_CDR h2 d) a')"

definition mk_cl_pairlis :: "heap \<Rightarrow> obj \<Rightarrow> obj \<Rightarrow> obj \<Rightarrow> obj action" where
  "mk_cl_pairlis h keys data a_list = pairlis_loop h keys data keys data a_list"

partial_function (option) remove_eq_loop :: "heap \<Rightarrow> obj \<Rightarrow> obj \<Rightarrow> obj \<Rightarrow> obj \<Rightarrow> (obj \<times> heap) option" where
  "remove_eq_loop h x l head tail =
     (if MKCL_CONSP h l then
        (if MKCL_CONS_CAR h l \<noteq> x then
           (let (cons, h1) = mkcl_list1 h (MKCL_CONS_CAR h l)
            in if tail = Cnil then remove_eq_loop h1 x (MKCL_CONS_CDR h1 l) cons cons
               else let h2 = MKCL_RPLACD h1 tail cons
                    in remove_eq_loop h2 x (MKCL_CONS_CDR h2 l) head cons)
         else remove_eq_loop h x (MKCL_CONS_CDR h l) head tail)
      else Some (head, h))"

definition mkcl_remove_eq :: "heap \<Rightarrow> obj \<Rightarrow> obj \<Rightarrow> (obj \<times> heap) option" where
  "mkcl_remove_eq h x l = remove_eq_loop h x l Cnil Cnil"

text \<open>
  The \<open>assq\<close> family takes the car of every element with \<open>MKCL_CAR\<close>, which does not check
  that the element is a list.
\<close>

definition assq_body :: "heap \<Rightarrow> (obj \<Rightarrow> bool option) \<Rightarrow> obj \<Rightarrow> bool query" where
  "assq_body h same l =
     (let pair = MKCL_CONS_CAR h l
      in if \<not> MKCL_LISTP h pair then Some (Inl BadAccess)
         else map_option Inr (same (if pair = Cnil then Cnil else MKCL_CONS_CAR h pair)))"

definition mkcl_assq :: "heap \<Rightarrow> obj \<Rightarrow> obj \<Rightarrow> obj query" where
  "mkcl_assq h x l = found_pair h (loop_for_in h (assq_body h (\<lambda>y. Some (x = y))) l l)"

definition mkcl_assql :: "heap \<Rightarrow> obj \<Rightarrow> obj \<Rightarrow> obj query" where
  "mkcl_assql h x l = found_pair h (loop_for_in h (assq_body h (\<lambda>y. Some (mkcl_eql h x y))) l l)"

definition mkcl_assoc :: "heap \<Rightarrow> obj \<Rightarrow> obj \<Rightarrow> obj query" where
  "mkcl_assoc h x l = found_pair h (loop_for_in h (assq_body h (mkcl_equal h x)) l l)"

section \<open>Substitution\<close>

text \<open>
  \<open>subst\<close> and its inner \<open>do\<close> loop as one function: \<open>None\<close> enters the function,
  \<open>Some (head, tail)\<close> is the loop at the cons \<open>tree\<close> with the copy built so far.
\<close>

partial_function (option) subst_run ::
  "heap \<Rightarrow> cl_test \<Rightarrow> obj \<Rightarrow> (obj \<times> obj) option \<Rightarrow> obj \<Rightarrow> (obj \<times> heap) option" where
  "subst_run h t new_obj st tree =
     (case st of
        None \<Rightarrow>
          Option.bind (TEST h t tree) (\<lambda>b.
            if b then Some (new_obj, h)
            else if \<not> MKCL_CONSP h tree then Some (tree, h)
            else subst_run h t new_obj (Some (Cnil, Cnil)) tree)
      | Some (head, tail) \<Rightarrow>
          Option.bind (subst_run h t new_obj None (MKCL_CONS_CAR h tree)) (\<lambda>(a, h1).
            let tree' = MKCL_CONS_CDR h1 tree;
                (cons, h2) = mkcl_cons h1 a tree';
                head' = (if tail = Cnil then cons else head);
                h3 = (if tail = Cnil then h2 else MKCL_RPLACD h2 tail cons)
            in Option.bind (TEST h3 t tree') (\<lambda>b.
                 if b then Some (head', MKCL_RPLACD h3 cons new_obj)
                 else if MKCL_CONSP h3 tree' then subst_run h3 t new_obj (Some (head', cons)) tree'
                 else Some (head', h3))))"

definition mk_cl_subst ::
  "heap \<Rightarrow> obj \<Rightarrow> obj \<Rightarrow> obj \<Rightarrow> fun_object option \<Rightarrow> lisp_fun2 option \<Rightarrow> lisp_fun1 option \<Rightarrow> obj action" where
  "mk_cl_subst h new_obj old_obj tree test test_not key =
     (case setup_test old_obj test test_not key of
        Inl e \<Rightarrow> Some (Inl e, h)
      | Inr t \<Rightarrow> map_option (\<lambda>(x, h'). (Inr x, h')) (subst_run h t new_obj None tree))"

partial_function (option) nsubst_cons :: "heap \<Rightarrow> cl_test \<Rightarrow> obj \<Rightarrow> obj \<Rightarrow> heap option" where
  "nsubst_cons h t new_obj l =
     (let o1 = MKCL_CONS_CAR h l
      in Option.bind (TEST h t o1) (\<lambda>b.
         Option.bind (if b then Some (MKCL_RPLACA h l new_obj)
                      else if MKCL_CONSP h o1 then nsubst_cons h t new_obj o1
                      else Some h) (\<lambda>h1.
           let o2 = MKCL_CONS_CDR h1 l
           in Option.bind (TEST h1 t o2) (\<lambda>b.
                if b then Some (MKCL_RPLACD h1 l new_obj)
                else if MKCL_CONSP h1 o2 then nsubst_cons h1 t new_obj o2
                else Some h1))))"

definition nsubst :: "heap \<Rightarrow> cl_test \<Rightarrow> obj \<Rightarrow> obj \<Rightarrow> (obj \<times> heap) option" where
  "nsubst h t new_obj tree =
     Option.bind (TEST h t tree) (\<lambda>b.
       if b then Some (new_obj, h)
       else if MKCL_CONSP h tree then map_option (\<lambda>h'. (tree, h')) (nsubst_cons h t new_obj tree)
       else Some (tree, h))"

definition mk_cl_nsubst ::
  "heap \<Rightarrow> obj \<Rightarrow> obj \<Rightarrow> obj \<Rightarrow> fun_object option \<Rightarrow> lisp_fun2 option \<Rightarrow> lisp_fun1 option \<Rightarrow> obj action" where
  "mk_cl_nsubst h new_obj old_obj tree test test_not key =
     (case setup_test old_obj test test_not key of
        Inl e \<Rightarrow> Some (Inl e, h)
      | Inr t \<Rightarrow> map_option (\<lambda>(x, h'). (Inr x, h')) (nsubst h t new_obj tree))"

partial_function (option) sublis :: "heap \<Rightarrow> cl_test \<Rightarrow> cl_test \<Rightarrow> obj \<Rightarrow> obj \<Rightarrow> obj action" where
  "sublis h t0 t1 alist tree =
     Option.bind (do_assoc h (t1\<lparr>item_compared := KEY h t0 tree\<rparr>) alist) (\<lambda>r. case r of
        Inl e \<Rightarrow> Some (Inl e, h)
      | Inr node \<Rightarrow>
          if node \<noteq> Cnil then Some (Inr (MKCL_CONS_CDR h node), h)
          else if MKCL_CONSP h tree then
            Option.bind (sublis h t0 t1 alist (MKCL_CONS_CAR h tree)) (\<lambda>(ra, h1). case ra of
               Inl e \<Rightarrow> Some (Inl e, h1)
             | Inr a \<Rightarrow>
                 Option.bind (sublis h1 t0 t1 alist (MKCL_CONS_CDR h1 tree)) (\<lambda>(rd, h2). case rd of
                    Inl e \<Rightarrow> Some (Inl e, h2)
                  | Inr d \<Rightarrow> (let (x, h3) = mkcl_cons h2 a d in Some (Inr x, h3))))
          else Some (Inr tree, h))"

partial_function (option) nsublis :: "heap \<Rightarrow> cl_test \<Rightarrow> cl_test \<Rightarrow> obj \<Rightarrow> obj \<Rightarrow> obj action" where
  "nsublis h t0 t1 alist tree =
     Option.bind (do_assoc h (t1\<lparr>item_compared := KEY h t0 tree\<rparr>) alist) (\<lambda>r. case r of
        Inl e \<Rightarrow> Some (Inl e, h)
      | Inr node \<Rightarrow>
          if node \<noteq> Cnil then Some (Inr (MKCL_CONS_CDR h node), h)
          else if MKCL_CONSP h tree then
            Option.bind (nsublis h t0 t1 alist (MKCL_CONS_CAR h tree)) (\<lambda>(ra, h1). case ra of
               Inl e \<Rightarrow> Some (Inl e, h1)
             | Inr a \<Rightarrow>
                 let h2 = MKCL_RPLACA h1 tree a
                 in Option.bind (nsublis h2 t0 t1 alist (MKCL_CONS_CDR h2 tree)) (\<lambda>(rd, h3). case rd of
                    Inl e \<Rightarrow> Some (Inl e, h3)
                  | Inr d \<Rightarrow> Some (Inr tree, MKCL_RPLACD h3 tree d)))
          else Some (Inr tree, h))"

text \<open>\<open>mk_cl_sublis\<close> and \<open>mk_cl_nsublis\<close>: \<open>t[0]\<close> carries the key, \<open>t[1]\<close> the test.\<close>

definition sublis_tests ::
  "fun_object option \<Rightarrow> lisp_fun2 option \<Rightarrow> lisp_fun1 option \<Rightarrow> lisp_error + cl_test \<times> cl_test" where
  "sublis_tests test test_not key =
     (case setup_test Cnil None None key of
        Inl e \<Rightarrow> Inl e
      | Inr t0 \<Rightarrow> (case setup_test Cnil test test_not None of
            Inl e \<Rightarrow> Inl e
          | Inr t1 \<Rightarrow> Inr (t0, t1)))"

definition mk_cl_sublis ::
  "heap \<Rightarrow> obj \<Rightarrow> obj \<Rightarrow> fun_object option \<Rightarrow> lisp_fun2 option \<Rightarrow> lisp_fun1 option \<Rightarrow> obj action" where
  "mk_cl_sublis h alist tree test test_not key =
     (case sublis_tests test test_not key of
        Inl e \<Rightarrow> Some (Inl e, h)
      | Inr (t0, t1) \<Rightarrow> sublis h t0 t1 alist tree)"

definition mk_cl_nsublis ::
  "heap \<Rightarrow> obj \<Rightarrow> obj \<Rightarrow> fun_object option \<Rightarrow> lisp_fun2 option \<Rightarrow> lisp_fun1 option \<Rightarrow> obj action" where
  "mk_cl_nsublis h alist tree test test_not key =
     (case sublis_tests test test_not key of
        Inl e \<Rightarrow> Some (Inl e, h)
      | Inr (t0, t1) \<Rightarrow> nsublis h t0 t1 alist tree)"

section \<open>Conses with dynamic extent\<close>

text \<open>
  \<open>si::*dynamic-cons-stack*\<close> is a list whose elements are conses ready for use; the
  variable points at the next free one. The state is the heap and the variable's value.
\<close>

fun five_cells :: "heap \<Rightarrow> nat \<Rightarrow> obj \<Rightarrow> obj \<times> heap" where
  "five_cells h 0 cells = (cells, h)"
| "five_cells h (Suc i) cells =
     (let (c, h1) = mkcl_cons h Cnil Cnil; (cells', h2) = mkcl_cons h1 c cells
      in five_cells h2 i cells')"

definition dynamic_stack_cell :: "heap \<Rightarrow> obj \<Rightarrow> obj \<times> heap" where
  "dynamic_stack_cell h stack =
     (if stack = Cnil
      then (let (c, h1) = mkcl_cons h Cnil Cnil in mkcl_cons h1 c Cnil)
      else (stack, h))"

definition mk_si_dyn_cons :: "heap \<Rightarrow> obj \<Rightarrow> obj \<Rightarrow> obj \<Rightarrow> obj \<times> obj \<times> heap" where
  "mk_si_dyn_cons h stack car cdr =
     (let (cell, h1) = dynamic_stack_cell h stack;
          next = MKCL_CONS_CDR h1 cell;
          (next', h2) = (if next = Cnil
                         then (let (cells, h') = five_cells h1 5 Cnil in (cells, MKCL_RPLACD h' cell cells))
                         else (next, h1));
          it = MKCL_CONS_CAR h2 cell;
          h3 = MKCL_RPLACA h2 it car;
          h4 = MKCL_RPLACD h3 it cdr
      in (it, next', h4))"

definition mk_si_trim_dynamic_cons_stack :: "heap \<Rightarrow> obj \<Rightarrow> obj \<times> heap" where
  "mk_si_trim_dynamic_cons_stack h stack =
     (if stack = Cnil then dynamic_stack_cell h stack else (stack, MKCL_RPLACD h stack Cnil))"

end
