(* ===== verification/List_Props.thy ===== *)
theory List_Props
  imports Alists
begin

text \<open>
  What the list operations do, stated on chains of conses. The loops are unfolded by
  induction on the chain they walk; the circular cases follow the iterated cdr.
\<close>

section \<open>Length\<close>

lemma list_length_loop_chain:
  assumes "chain h x as y" and "\<not> MKCL_CONSP h y" and "n \<le> length as"
  shows "list_length_loop h n (nthcdr_of h n x) (nthcdr_of h (n div 2) x) =
           (if y = Cnil then Some (Inr (Fixnum (int (length as)))) else Some (Inl (TypeErrorList y)))"
  using assms(3)
proof (induction "length as - n" arbitrary: n)
  case 0
  then have "n = length as" by simp
  then show ?case
    using chain_nthcdr [OF assms(1)] assms(2)
    by (subst list_length_loop.simps) (auto simp: MKCL_LISTP_def)
next
  case (Suc k)
  then have n: "n < length as" by simp
  have fast: "nthcdr_of h n x = Ref (as ! n)" and cons: "MKCL_CONSP h (nthcdr_of h n x)"
    using chain_nth [OF assms(1) n] by auto
  have slow: "nthcdr_of h (n div 2) x = Ref (as ! (n div 2))"
    using chain_nth [OF assms(1), of "n div 2"] n by simp
  have "nthcdr_of h (n div 2) x = nthcdr_of h n x \<Longrightarrow> n = 0"
    using chain_distinct [OF assms(1,2)] n fast slow by (auto simp: nth_eq_iff_index_eq)
  moreover have "(if odd n then MKCL_CONS_CDR h (nthcdr_of h (n div 2) x) else nthcdr_of h (n div 2) x)
      = nthcdr_of h (Suc n div 2) x"
    by (auto simp: nthcdr_Suc [symmetric] elim!: oddE evenE)
  moreover have "list_length_loop h (Suc n) (nthcdr_of h (Suc n) x) (nthcdr_of h (Suc n div 2) x) =
      (if y = Cnil then Some (Inr (Fixnum (int (length as)))) else Some (Inl (TypeErrorList y)))"
    using Suc by simp
  ultimately show ?case
    using cons fast by (subst list_length_loop.simps) (auto simp: MKCL_LISTP_def nthcdr_Suc)
qed

lemma list_length_loop_circular:
  assumes "circular_list h x" and "0 < m" and "nthcdr_of h m x = nthcdr_of h (m div 2) x"
    and "n \<le> m"
  shows "list_length_loop h n (nthcdr_of h n x) (nthcdr_of h (n div 2) x) = Some (Inr Cnil)"
  using assms(4)
proof (induction "m - n" arbitrary: n)
  case 0
  then have "n = m" by simp
  moreover have "MKCL_CONSP h (nthcdr_of h m x)" using assms(1) by (simp add: circular_list_def)
  ultimately show ?case
    using assms(2,3) by (subst list_length_loop.simps) (auto simp: MKCL_LISTP_def)
next
  case (Suc k)
  have cons: "MKCL_CONSP h (nthcdr_of h n x)" using assms(1) by (simp add: circular_list_def)
  then have "nthcdr_of h n x \<noteq> Cnil" by auto
  moreover have "(if odd n then MKCL_CONS_CDR h (nthcdr_of h (n div 2) x) else nthcdr_of h (n div 2) x)
      = nthcdr_of h (Suc n div 2) x"
    by (auto simp: nthcdr_Suc [symmetric] elim!: oddE evenE)
  moreover have "list_length_loop h (Suc n) (nthcdr_of h (Suc n) x) (nthcdr_of h (Suc n div 2) x) =
      Some (Inr Cnil)"
    using Suc by simp
  ultimately show ?case
    using cons by (subst list_length_loop.simps) (auto simp: MKCL_LISTP_def nthcdr_Suc)
qed

lemma list_length_chain:
  assumes "chain h x as y" and "\<not> MKCL_CONSP h y"
  shows "mk_cl_list_length h x =
           (if y = Cnil then Some (Inr (Fixnum (int (length as)))) else Some (Inl (TypeErrorList y)))"
  using list_length_loop_chain [OF assms, of 0] by (simp add: mk_cl_list_length_def)

lemma list_length_circular:
  assumes "circular_list h x"
  shows "mk_cl_list_length h x = Some (Inr Cnil)"
proof -
  obtain i p where p: "0 < p" "nthcdr_of h (i + p) x = nthcdr_of h i x"
    using circular_cycle [OF assms] by blast
  define m where "m = Suc i * p"
  have m: "i \<le> m" "0 < m" using p(1) by (cases p; simp add: m_def)+
  have "nthcdr_of h (m + Suc i * p) x = nthcdr_of h m x"
    by (rule cycle_multiple [OF p(2) m(1)])
  then have "nthcdr_of h (2 * m) x = nthcdr_of h ((2 * m) div 2) x"
    unfolding m_def [symmetric] by (simp add: mult_2)
  from list_length_loop_circular [OF assms _ this, of 0] show ?thesis
    using m(2) by (simp add: mk_cl_list_length_def)
qed

section \<open>Reversal\<close>

lemma nreverse_loop_chain:
  assumes "chain h x as Cnil" and "chain h y bs Cnil" and "set as \<inter> set bs = {}"
  shows "\<exists>r h'. nreverse_loop h x y = Some (Inr r, h') \<and> chain h' r (rev as @ bs) Cnil
      \<and> length h' = length h \<and> (\<forall>a. MKCL_CONS_CAR h' (Ref a) = MKCL_CONS_CAR h (Ref a))
      \<and> (\<forall>a. a \<notin> set as \<longrightarrow> h' ! a = h ! a)"
  using assms
proof (induction as arbitrary: h x y bs)
  case Nil
  then show ?case by (subst nreverse_loop.simps) auto
next
  case (Cons a as)
  then obtain u v where x: "x = Ref a" and a: "a < length h" "h ! a = ConsC u v"
    by (auto elim: consp_cases)
  let ?h = "h[a := ConsC u y]"
  have notin: "a \<notin> set as" using chain_distinct [OF Cons.prems(1)] by simp
  have v: "chain h v as Cnil" using Cons.prems(1) x a by simp
  have "chain ?h v as Cnil" by (rule chain_update [OF v notin])
  moreover have "chain ?h (Ref a) (a # bs) Cnil"
    using Cons.prems(2,3) a chain_update [of h y bs Cnil a "ConsC u y"] by auto
  ultimately obtain r h' where IH: "nreverse_loop ?h v (Ref a) = Some (Inr r, h')"
      "chain h' r (rev as @ a # bs) Cnil" "length h' = length ?h"
      "\<forall>b. MKCL_CONS_CAR h' (Ref b) = MKCL_CONS_CAR ?h (Ref b)" "\<forall>b. b \<notin> set as \<longrightarrow> h' ! b = ?h ! b"
    using Cons.IH [of ?h v "Ref a" "a # bs"] Cons.prems(3) notin by auto
  have "MKCL_CONS_CAR ?h (Ref b) = MKCL_CONS_CAR h (Ref b)" for b
    using a by (cases "b = a") (auto simp: MKCL_CONS_CAR_def)
  moreover have "nreverse_loop h x y = nreverse_loop ?h v (Ref a)"
    using x a by (subst nreverse_loop.simps) simp
  ultimately show ?case using IH by (intro exI [of _ r] exI [of _ h']) auto
qed

lemma nreverse_proper_list_spec:
  assumes "chain h x as Cnil"
  shows "\<exists>r h'. mkcl_nreverse_proper_list h x = Some (Inr r, h') \<and> chain h' r (rev as) Cnil
      \<and> length h' = length h \<and> elems h' (rev as) = rev (elems h as)
      \<and> (\<forall>a. a \<notin> set as \<longrightarrow> h' ! a = h ! a)"
proof -
  obtain r h' where *: "nreverse_loop h x Cnil = Some (Inr r, h')" "chain h' r (rev as @ []) Cnil"
      "length h' = length h" "\<forall>a. MKCL_CONS_CAR h' (Ref a) = MKCL_CONS_CAR h (Ref a)"
      "\<forall>a. a \<notin> set as \<longrightarrow> h' ! a = h ! a"
    using nreverse_loop_chain [OF assms, of Cnil "[]"] by auto
  moreover have "elems h' (rev as) = rev (elems h as)"
    using *(4) by (simp add: elems_def rev_map)
  ultimately show ?thesis by (auto simp: mkcl_nreverse_proper_list_def)
qed

text \<open>
  Fresh chains: a loop that conses onto an accumulator extends the heap and leaves every old
  cell as it is.
\<close>

lemma reverse_proper_loop_chain:
  assumes "chain h x as Cnil" and "chain h y bs Cnil"
  shows "\<exists>r cs. reverse_proper_loop h y x = Some (Inr r, h @ cs) \<and> length cs = length as
      \<and> chain (h @ cs) r (rev [length h..<length h + length as] @ bs) Cnil
      \<and> elems (h @ cs) (rev [length h..<length h + length as]) = rev (elems h as)"
  using assms
proof (induction as arbitrary: h x y bs)
  case Nil
  then show ?case by (subst reverse_proper_loop.simps) auto
next
  case (Cons a as)
  then obtain u v where x: "x = Ref a" and a: "a < length h" "h ! a = ConsC u v"
    by (auto elim: consp_cases)
  let ?h = "h @ [ConsC u y]"
  have v: "chain h v as Cnil" using Cons.prems(1) x a by simp
  have "chain ?h v as Cnil" by (rule chain_alloc [OF v])
  moreover have "chain ?h (Ref (length h)) (length h # bs) Cnil"
    using chain_alloc [OF Cons.prems(2)] by auto
  ultimately obtain r cs where IH: "reverse_proper_loop ?h (Ref (length h)) v = Some (Inr r, ?h @ cs)"
      "length cs = length as"
      "chain (?h @ cs) r (rev [length ?h..<length ?h + length as] @ length h # bs) Cnil"
      "elems (?h @ cs) (rev [length ?h..<length ?h + length as]) = rev (elems ?h as)"
    using Cons.IH [of ?h v "Ref (length h)" "length h # bs"] by auto
  have "[length h..<length h + length (a # as)] = length h # [Suc (length h)..<Suc (length h) + length as]"
    by (subst upt_conv_Cons) (simp_all del: upt_Suc)
  then show ?case
    using IH x a chain_alloc(2) [OF v, of "[ConsC u y]"]
    by (intro exI [of _ r] exI [of _ "ConsC u y # cs"], subst reverse_proper_loop.simps)
      (simp add: nth_append elems_def MKCL_CONS_CAR_def)
qed

section \<open>Copies\<close>

text \<open>
  The loops that build a copy behind a tail pointer: the cell \<open>t\<close> is the last of the copy;
  the loop appends one new cell per cons of the source and changes no other cell than \<open>t\<close>.
  \<open>copied h t c as y h'\<close> is what such a loop has achieved when it has copied the conses
  \<open>as\<close> that lead to \<open>y\<close>.
\<close>

definition copied :: "heap \<Rightarrow> addr \<Rightarrow> obj \<Rightarrow> addr list \<Rightarrow> obj \<Rightarrow> heap \<Rightarrow> bool" where
  "copied h t c as y h' \<longleftrightarrow> length h' = length h + length as
      \<and> chain h' (Ref t) (t # [length h..<length h + length as]) y
      \<and> elems h' (t # [length h..<length h + length as]) = c # elems h as
      \<and> (\<forall>a < length h. a \<noteq> t \<longrightarrow> h' ! a = h ! a)"

text \<open>One round of the loop: a new cell for the cons \<open>a\<close>, linked behind \<open>t\<close>.\<close>

definition linked_copy :: "heap \<Rightarrow> addr \<Rightarrow> obj \<Rightarrow> obj \<Rightarrow> obj \<Rightarrow> heap" where
  "linked_copy h t c u w = (h @ [ConsC u w])[t := ConsC c (Ref (length h))]"

lemma linked_copy_facts:
  assumes "chain h (Ref a) (a # as) y" and "atom_in h y" and "h ! a = ConsC u v"
    and "t < length h" and "h ! t = ConsC c d" and "t \<notin> set (a # as)"
  shows "length (linked_copy h t c u w) = Suc (length h)"
    and "linked_copy h t c u w ! a = ConsC u v"
    and "chain (linked_copy h t c u w) v as y"
    and "elems (linked_copy h t c u w) as = elems h as"
    and "atom_in (linked_copy h t c u w) y"
    and "linked_copy h t c u w ! length h = ConsC u w"
    and "length h \<notin> set as"
proof -
  have a: "a < length h" and v: "chain h v as y" using assms(1,3) by (auto elim: consp_cases)
  show "length (linked_copy h t c u w) = Suc (length h)" by (simp add: linked_copy_def)
  show "linked_copy h t c u w ! a = ConsC u v" using a assms by (simp add: linked_copy_def nth_append)
  have t: "t \<notin> set as" using assms(6) by simp
  show "chain (linked_copy h t c u w) v as y" and "elems (linked_copy h t c u w) as = elems h as"
    unfolding linked_copy_def
    using chain_update [OF chain_alloc(1) [OF v] t] chain_alloc(2) [OF v] by simp_all
  show "atom_in (linked_copy h t c u w) y"
    unfolding linked_copy_def using assms(2,4,5)
    by (intro atom_in_update [of _ _ t c d] atom_in_alloc) (auto simp: nth_append)
  show "linked_copy h t c u w ! length h = ConsC u w" using assms(4) by (simp add: linked_copy_def)
  show "length h \<notin> set as" using chain_bound [OF v] by blast
qed

lemma copied_base:
  assumes "atom_in h y" and "t < length h" and "h ! t = ConsC c d"
  shows "copied h t c [] y (h[t := ConsC c y])"
  using assms by (auto simp: copied_def)

lemma copied_step:
  assumes "chain h (Ref a) (a # as) y" and "atom_in h y" and "h ! a = ConsC u v"
    and "t < length h" and "h ! t = ConsC c d" and "t \<notin> set (a # as)"
    and IH: "copied (linked_copy h t c u w) (length h) u as y h'"
  shows "copied h t c (a # as) y h'"
proof -
  let ?n = "length h" and ?h = "linked_copy h t c u w"
  note facts = linked_copy_facts [OF assms(1-6)]
  have len: "length h' = Suc ?n + length as" using IH facts(1) by (simp add: copied_def)
  have eq: "[?n..<?n + length (a # as)] = ?n # [Suc ?n..<Suc ?n + length as]"
    using upt_Suc_Cons [of ?n "length as"] by simp
  have tail: "chain h' (Ref ?n) [?n..<?n + length (a # as)] y"
    and els: "elems h' [?n..<?n + length (a # as)] = u # elems h as"
    using IH facts(1,4) unfolding copied_def eq by metis+
  have old: "h' ! b = h ! b" if "b < ?n" "b \<noteq> t" for b
    using IH that facts(1) unfolding copied_def by (simp add: linked_copy_def nth_append)
  have ht: "h' ! t = ConsC c (Ref ?n)"
    using IH assms(4) facts(1) unfolding copied_def by (simp add: linked_copy_def)
  have t': "t < length h'" using len assms(4) by simp
  have "MKCL_CONS_CAR h (Ref a) = u" using assms(1,3) by (auto elim: consp_cases)
  then show ?thesis
    unfolding copied_def
    using chain_extend_tail [OF tail t' ht] els old len
    by (simp del: upt_Suc)
qed

lemma copy_list_loop_chain:
  assumes "MKCL_CONS_CDR h x = v" and "chain h v as y" and "atom_in h y"
    and "t < length h" and "h ! t = ConsC c d" and "t \<notin> set as"
  shows "\<exists>h'. copy_list_loop h (Ref t) x = Some h' \<and> copied h t c as y h'"
  using assms
proof (induction as arbitrary: h x v t c d)
  case Nil
  then show ?case
    using copied_base [of h y t c d] by (subst copy_list_loop.simps) (auto dest: atom_in_not_consp)
next
  case (Cons a as)
  then obtain u w where v: "v = Ref a" and a: "a < length h" "h ! a = ConsC u w"
    by (auto elim: consp_cases)
  let ?h = "linked_copy h t c u Cnil"
  have ch: "chain h (Ref a) (a # as) y" using Cons.prems(2) v by simp
  note facts = linked_copy_facts [OF ch Cons.prems(3) a(2) Cons.prems(4,5,6)]
  have "copy_list_loop h (Ref t) x = copy_list_loop ?h (Ref (length h)) (Ref a)"
    using Cons.prems(1,4,5) v a by (subst copy_list_loop.simps) (simp add: linked_copy_def nth_append)
  moreover have "\<exists>h'. copy_list_loop ?h (Ref (length h)) (Ref a) = Some h' \<and> copied ?h (length h) u as y h'"
    by (rule Cons.IH [of _ _ w _ _ Cnil]) (use facts a(1) in \<open>simp_all add: MKCL_CONS_CDR_def\<close>)
  ultimately show ?case
    using copied_step [OF ch Cons.prems(3) a(2) Cons.prems(4,5,6)] by auto
qed

text \<open>The first cell of a copy is new: a heap that grows by one cell and the copy behind it.\<close>

lemma copied_fresh:
  assumes "copied (h @ [ConsC u d]) (length h) u as y h'"
  shows "\<exists>cs. h' = h @ cs \<and> length cs = Suc (length as)"
    and "chain h' (Ref (length h)) [length h..<length h + Suc (length as)] y"
    and "elems h' [length h..<length h + Suc (length as)] = u # elems (h @ [ConsC u d]) as"
proof -
  have len: "length h' = length h + Suc (length as)" using assms by (simp add: copied_def)
  have "take (length h) h' = h"
    using assms by (intro nth_equalityI) (auto simp: copied_def nth_append)
  then show "\<exists>cs. h' = h @ cs \<and> length cs = Suc (length as)"
    using len by (intro exI [of _ "drop (length h) h'"]) (metis append_take_drop_id length_drop diff_add_inverse)
  show "chain h' (Ref (length h)) [length h..<length h + Suc (length as)] y"
    and "elems h' [length h..<length h + Suc (length as)] = u # elems (h @ [ConsC u d]) as"
    using assms unfolding copied_def upt_Suc_Cons by simp_all
qed

lemma copy_list_spec:
  assumes "chain h x as y" and "atom_in h y" and "MKCL_LISTP h x"
  shows "\<exists>copy cs. mk_cl_copy_list h x = Some (Inr copy, h @ cs)
      \<and> chain (h @ cs) copy [length h..<length h + length as] y
      \<and> elems (h @ cs) [length h..<length h + length as] = elems h as"
proof (cases as)
  case Nil
  then show ?thesis using assms
    by (auto simp: mk_cl_copy_list_def MKCL_LISTP_def atom_in_def intro!: exI [of _ "[]"])
next
  case (Cons a as')
  then obtain u v where x: "x = Ref a" and a: "a < length h" "h ! a = ConsC u v"
    using assms(1) by (auto elim: consp_cases)
  let ?n = "length h" and ?h = "h @ [ConsC u Cnil]"
  have v: "chain h v as' y" using assms(1) Cons x a by simp
  have "\<exists>h'. copy_list_loop ?h (Ref ?n) x = Some h' \<and> copied ?h ?n u as' y h'"
    by (rule copy_list_loop_chain [of _ _ v])
      (use x a chain_alloc(1) [OF v] chain_bound [OF v, of ?n] assms(2) in
        \<open>auto simp: nth_append atom_in_alloc\<close>)
  then obtain h' where h': "copy_list_loop ?h (Ref ?n) x = Some h'" "copied ?h ?n u as' y h'" by blast
  moreover have "mk_cl_copy_list h x = Some (Inr (Ref ?n), h')"
    using x a h'(1) assms(3) by (simp add: mk_cl_copy_list_def)
  ultimately show ?thesis
    using copied_fresh [OF h'(2)] Cons a chain_alloc(2) [OF v]
    by (auto simp del: upt_Suc simp: MKCL_CONS_CAR_def)
qed

section \<open>Append\<close>

lemma RPLACD_frame:
  "x = Ref a \<Longrightarrow> b \<noteq> a \<Longrightarrow> MKCL_RPLACD h x z ! b = h ! b"
  by (auto simp: MKCL_RPLACD_def store_def split: option.splits cell.splits)

lemma RPLACD_keeps [simp]:
  shows "MKCL_CONSP (MKCL_RPLACD h x z) y = MKCL_CONSP h y" (is ?consp)
    and "MKCL_CONS_CAR (MKCL_RPLACD h x z) y = MKCL_CONS_CAR h y" (is ?car)
proof -
  consider "MKCL_RPLACD h x z = h"
    | a u v where "x = Ref a" "a < length h" "h ! a = ConsC u v" "MKCL_RPLACD h x z = h[a := ConsC u z]"
  proof (cases "\<exists>a u v. x = Ref a \<and> a < length h \<and> h ! a = ConsC u v")
    case True
    then show thesis using that(2) by auto
  next
    case False
    then have "MKCL_RPLACD h x z = h"
      by (cases x) (auto simp: MKCL_RPLACD_def split: cell.splits)
    then show thesis by (rule that(1))
  qed
  then have "?consp \<and> ?car"
    by cases (cases y; force simp: MKCL_CONSP_def MKCL_CONS_CAR_def nth_list_update)+
  then show ?consp and ?car by auto
qed

text \<open>\<open>copy_proper_tail\<close> keeps the source's cdr in the cell it has just made.\<close>

lemma copy_proper_tail_loop_chain:
  assumes "chain h v as y" and "atom_in h y"
    and "t < length h" and "h ! t = ConsC c v" and "t \<notin> set as"
  shows "\<exists>h'. copy_proper_tail_loop h root (Ref t) =
        Some (if y = Cnil then Inr (root, Ref (last (t # [length h..<length h + length as])))
              else Inl (TypeErrorProperList root), h') \<and> copied h t c as y h'"
  using assms
proof (induction as arbitrary: h v t c)
  case Nil
  then have "h[t := ConsC c y] = h" by (simp add: list_update_same_conv)
  then show ?case
    using Nil copied_base [of h y t c v]
    by (subst copy_proper_tail_loop.simps) (auto dest: atom_in_not_consp)
next
  case (Cons a as)
  then obtain u w where v: "v = Ref a" and a: "a < length h" "h ! a = ConsC u w"
    by (auto elim: consp_cases)
  let ?h = "linked_copy h t c u w"
  have ch: "chain h (Ref a) (a # as) y" using Cons.prems(1) v by simp
  note facts = linked_copy_facts [OF ch Cons.prems(2) a(2) Cons.prems(3,4,5)]
  have "copy_proper_tail_loop h root (Ref t) = copy_proper_tail_loop ?h root (Ref (length h))"
    using Cons.prems(3,4) v a by (subst copy_proper_tail_loop.simps) (simp add: linked_copy_def nth_append)
  moreover have "\<exists>h'. copy_proper_tail_loop ?h root (Ref (length h)) =
        Some (if y = Cnil then Inr (root, Ref (last (length h # [length ?h..<length ?h + length as])))
              else Inl (TypeErrorProperList root), h') \<and> copied ?h (length h) u as y h'"
    by (rule Cons.IH [of _ w]) (use facts in simp_all)
  moreover have "last (t # [length h..<length h + length (a # as)]) =
      last (length h # [length ?h..<length ?h + length as])"
    using upt_Suc_Cons [of "length h" "length as"] facts(1) by simp
  ultimately show ?case
    using copied_step [OF ch Cons.prems(2) a(2) Cons.prems(3,4,5)] by metis
qed

lemma copy_proper_tail_spec:
  assumes "chain h x as y" and "as \<noteq> []" and "atom_in h y"
  shows "\<exists>cs. copy_proper_tail h x =
        Some (if y = Cnil then Inr (Ref (length h), Ref (length h + length as - 1))
              else Inl (TypeErrorProperList (Ref (length h))), h @ cs)
      \<and> length cs = length as
      \<and> chain (h @ cs) (Ref (length h)) [length h..<length h + length as] y
      \<and> elems (h @ cs) [length h..<length h + length as] = elems h as"
proof -
  obtain a as' where as: "as = a # as'" using assms(2) by (cases as) auto
  obtain u v where x: "x = Ref a" and a: "a < length h" "h ! a = ConsC u v"
    using assms(1) as by (auto elim: consp_cases)
  let ?n = "length h" and ?h = "h @ [ConsC u v]"
  have v: "chain h v as' y" using assms(1) as x a by simp
  obtain h' where h': "copy_proper_tail_loop ?h (Ref ?n) (Ref ?n) =
        Some (if y = Cnil then Inr (Ref ?n, Ref (last (?n # [length ?h..<length ?h + length as'])))
              else Inl (TypeErrorProperList (Ref ?n)), h')" "copied ?h ?n u as' y h'"
    using copy_proper_tail_loop_chain [of ?h v as' y ?n u "Ref ?n"] assms(3)
      chain_alloc(1) [OF v] chain_bound [OF v, of ?n] by (auto simp: nth_append atom_in_alloc)
  have "last (?n # [length ?h..<length ?h + length as']) = ?n + length as - 1"
    using as upt_Suc_Cons [of ?n "length as'"] by (cases as') auto
  then have "copy_proper_tail h x = Some (if y = Cnil then Inr (Ref (length h), Ref (length h + length as - 1))
              else Inl (TypeErrorProperList (Ref (length h))), h')"
    using x a h'(1) by (simp add: copy_proper_tail_def)
  then show ?thesis
    using copied_fresh [OF h'(2)] as a chain_alloc(2) [OF v]
    by (auto simp del: upt_Suc simp: MKCL_CONS_CAR_def)
qed

text \<open>
  The state of \<open>append_loop\<close>: nothing copied yet, or a new chain \<open>bs\<close> from \<open>head\<close>
  whose last cons is \<open>tail\<close>.
\<close>

definition append_state :: "nat \<Rightarrow> heap \<Rightarrow> obj \<Rightarrow> obj \<Rightarrow> addr list \<Rightarrow> bool" where
  "append_state n h head tail bs \<longleftrightarrow> (\<forall>b \<in> set bs. n \<le> b) \<and> n \<le> length h \<and>
     (if bs = [] then head = Cnil \<and> tail = Cnil
      else tail = Ref (last bs) \<and> chain h head bs Cnil)"

lemma chain_relink:
  assumes "chain h x bs y" and "bs \<noteq> []" and "distinct bs" and "chain h z cs w" and "last bs \<notin> set cs"
  shows "chain (MKCL_RPLACD h (Ref (last bs)) z) x (bs @ cs) w"
    and "elems (MKCL_RPLACD h (Ref (last bs)) z) (bs @ cs) = elems h bs @ elems h cs"
proof -
  let ?b = "last bs" and ?bs = "butlast bs"
  have bs: "bs = ?bs @ [?b]" using assms(2) by simp
  then have pre: "chain h x ?bs (Ref ?b)" and b: "MKCL_CONSP h (Ref ?b)"
    using assms(1) chain_snoc [of h x ?bs ?b y] by auto
  then obtain u v where cell: "?b < length h" "h ! ?b = ConsC u v" by (auto elim: consp_cases)
  then have h': "MKCL_RPLACD h (Ref ?b) z = h[?b := ConsC u z]" by simp
  have notin: "?b \<notin> set ?bs" using assms(2,3) bs by (metis distinct_append disjoint_iff list.set_intros(1))
  have 1: "chain (h[?b := ConsC u z]) x ?bs (Ref ?b)" "elems (h[?b := ConsC u z]) ?bs = elems h ?bs"
    using chain_update [OF pre notin] by auto
  have 2: "chain (h[?b := ConsC u z]) z cs w" "elems (h[?b := ConsC u z]) cs = elems h cs"
    using chain_update [OF assms(4,5)] by auto
  have "chain (h[?b := ConsC u z]) (Ref ?b) (?b # cs) w" using 2 cell by simp
  then have "chain (h[?b := ConsC u z]) x (?bs @ ?b # cs) w" using 1 by (auto simp: chain_append)
  then show "chain (MKCL_RPLACD h (Ref (last bs)) z) x (bs @ cs) w" using bs h' by (metis append_Cons append_Nil append_assoc)
  have "elems (h[?b := ConsC u z]) (?bs @ ?b # cs) = elems h (?bs @ [?b]) @ elems h cs"
    using 1 2 cell by simp
  then show "elems (MKCL_RPLACD h (Ref (last bs)) z) (bs @ cs) = elems h bs @ elems h cs"
    using bs h' by (metis append_Cons append_Nil append_assoc)
qed

text \<open>The chains below \<open>n\<close> survive changes above \<open>n\<close>.\<close>

definition old_lists :: "nat \<Rightarrow> heap \<Rightarrow> obj list \<Rightarrow> addr list list \<Rightarrow> bool" where
  "old_lists n h xs ass \<longleftrightarrow> list_all2 (\<lambda>x as. chain h x as Cnil \<and> (\<forall>a \<in> set as. a < n)) xs ass"

lemma old_lists_frame:
  assumes "old_lists n h xs ass" and "length h \<le> length h'" and "\<And>a. a < n \<Longrightarrow> h' ! a = h ! a"
  shows "old_lists n h' xs ass" and "map (elems h') ass = map (elems h) ass"
  using assms(1) unfolding old_lists_def
  by (induction rule: list_all2_induct) (auto simp: chain_frame [OF _ assms(2)] assms(3))

lemma append_loop_end:
  assumes "append_state n h head tail bs"
  shows "\<exists>r h'. append_loop h head tail [z] = Some (Inr r, h') \<and> chain h' r bs z
      \<and> elems h' bs = elems h bs \<and> length h \<le> length h' \<and> (\<forall>a < n. h' ! a = h ! a)"
proof (cases "bs = []")
  case True
  then show ?thesis using assms by (auto simp: append_state_def)
next
  case False
  then have ch: "chain h head bs Cnil" and tail: "tail = Ref (last bs)" "n \<le> last bs"
    using assms by (auto simp: append_state_def)
  have "distinct bs" using chain_distinct [OF ch] by simp
  then show ?thesis
    using chain_relink [OF ch False, of z "[]" z] tail by (auto simp: RPLACD_frame)
qed

lemma append_state_step:
  assumes "append_state n h head tail bs" and "x \<noteq> Cnil" and "chain h x as Cnil"
  shows "\<exists>head' h'. append_loop h head tail (x # y # zs) =
          append_loop h' head' (Ref (length h + length as - 1)) (y # zs)
      \<and> append_state n h' head' (Ref (length h + length as - 1)) (bs @ [length h..<length h + length as])
      \<and> elems h' (bs @ [length h..<length h + length as]) = elems h bs @ elems h as
      \<and> length h \<le> length h' \<and> (\<forall>a < n. h' ! a = h ! a)"
proof -
  let ?ns = "[length h..<length h + length as]" and ?e = "length h + length as - 1"
  have "as \<noteq> []" using assms(2,3) by (cases as) auto
  then have ne: "?ns \<noteq> []" and last: "last (bs @ ?ns) = ?e" by auto
  obtain cs where cs: "copy_proper_tail h x = Some (Inr (Ref (length h), Ref ?e), h @ cs)"
      "length cs = length as" "chain (h @ cs) (Ref (length h)) ?ns Cnil" "elems (h @ cs) ?ns = elems h as"
    using copy_proper_tail_spec [OF assms(3) \<open>as \<noteq> []\<close>] by auto
  have n: "n \<le> length h" and bs: "\<forall>b \<in> set bs. n \<le> b" using assms(1) by (auto simp: append_state_def)
  show ?thesis
  proof (cases "bs = []")
    case True
    then have "append_loop h head tail (x # y # zs) = append_loop (h @ cs) (Ref (length h)) (Ref ?e) (y # zs)"
      using assms(1,2) cs(1) by (simp add: append_state_def)
    moreover have "append_state n (h @ cs) (Ref (length h)) (Ref ?e) (bs @ ?ns)"
      using True cs(3) n ne last by (auto simp: append_state_def)
    ultimately show ?thesis using cs(4) True n
      by (intro exI [of _ "Ref (length h)"] exI [of _ "h @ cs"]) (simp add: nth_append)
  next
    case False
    let ?h = "MKCL_RPLACD (h @ cs) tail (Ref (length h))"
    have ch: "chain h head bs Cnil" and tail: "tail = Ref (last bs)" "n \<le> last bs"
      using False assms(1) by (auto simp: append_state_def)
    have "distinct bs" using chain_distinct [OF ch] by simp
    moreover have "last bs \<notin> set ?ns" using chain_bound [OF ch, of "last bs"] False by auto
    ultimately have re: "chain ?h head (bs @ ?ns) Cnil" "elems ?h (bs @ ?ns) = elems h bs @ elems h as"
      using chain_relink [OF chain_alloc(1) [OF ch] False _ cs(3)] tail cs(4) chain_alloc(2) [OF ch] by auto
    have "append_loop h head tail (x # y # zs) = append_loop ?h head (Ref ?e) (y # zs)"
      using tail assms(2) cs(1) by simp
    moreover have "append_state n ?h head (Ref ?e) (bs @ ?ns)"
      using re(1) n bs False last by (auto simp: append_state_def)
    moreover have "\<forall>a < n. ?h ! a = h ! a"
      using tail n by (auto simp: RPLACD_frame nth_append)
    ultimately show ?thesis using re(2) by (intro exI [of _ head] exI [of _ ?h]) (simp add: RPLACD_frame)
  qed
qed

lemma append_loop_spec:
  assumes "append_state n h head tail bs" and "old_lists n h xs ass"
  shows "\<exists>r h' ds. append_loop h head tail (xs @ [z]) = Some (Inr r, h') \<and> chain h' r (bs @ ds) z
      \<and> elems h' (bs @ ds) = elems h bs @ concat (map (elems h) ass)
      \<and> (\<forall>b \<in> set ds. n \<le> b) \<and> length h \<le> length h' \<and> (\<forall>a < n. h' ! a = h ! a)"
  using assms
proof (induction xs arbitrary: h head tail bs ass)
  case Nil
  then show ?case
    using append_loop_end [OF Nil.prems(1), of z]
    by (auto simp: old_lists_def simp del: append_loop.simps intro!: exI [of _ "[]"])
next
  case (Cons x xs)
  then obtain as ass' where ass: "ass = as # ass'" and x: "chain h x as Cnil" and xs: "old_lists n h xs ass'"
    by (auto simp: old_lists_def list_all2_Cons1)
  obtain y zs where yz: "xs @ [z] = y # zs" by (cases xs) auto
  show ?case
  proof (cases "x = Cnil")
    case True
    then show ?thesis using Cons.IH [OF Cons.prems(1) xs] x ass yz by auto
  next
    case False
    let ?ns = "[length h..<length h + length as]"
    obtain head' h1 where st: "append_loop h head tail (x # y # zs) =
          append_loop h1 head' (Ref (length h + length as - 1)) (y # zs)"
        "append_state n h1 head' (Ref (length h + length as - 1)) (bs @ ?ns)"
        "elems h1 (bs @ ?ns) = elems h bs @ elems h as" "length h \<le> length h1" "\<forall>a < n. h1 ! a = h ! a"
      using append_state_step [OF Cons.prems(1) False x] by blast
    note fr = old_lists_frame [OF xs st(4)]
    obtain r h' ds where "append_loop h1 head' (Ref (length h + length as - 1)) (y # zs) = Some (Inr r, h')"
        "chain h' r ((bs @ ?ns) @ ds) z"
        "elems h' ((bs @ ?ns) @ ds) = elems h1 (bs @ ?ns) @ concat (map (elems h1) ass')"
        "\<forall>b \<in> set ds. n \<le> b" "length h1 \<le> length h'" "\<forall>a < n. h' ! a = h1 ! a"
      using Cons.IH [OF st(2) fr(1)] st(5) yz by metis
    then show ?thesis
      using st yz ass fr(2) Cons.prems(1)
      by (intro exI [of _ r] exI [of _ h'] exI [of _ "?ns @ ds"]) (auto simp: append_state_def)
  qed
qed

lemma append_spec:
  assumes "list_all2 (\<lambda>x as. chain h x as Cnil) xs ass"
  shows "\<exists>r cs ds. mk_cl_append h (xs @ [z]) = Some (Inr r, h @ cs) \<and> chain (h @ cs) r ds z
      \<and> elems (h @ cs) ds = concat (map (elems h) ass) \<and> (\<forall>d \<in> set ds. length h \<le> d)"
proof -
  have "append_state (length h) h Cnil Cnil []" by (simp add: append_state_def)
  moreover have "old_lists (length h) h xs ass"
    unfolding old_lists_def by (rule list_all2_mono [OF assms]) (auto dest: chain_bound)
  ultimately obtain r h' ds where r: "append_loop h Cnil Cnil (xs @ [z]) = Some (Inr r, h')"
      "chain h' r ds z" "elems h' ds = concat (map (elems h) ass)" "\<forall>b \<in> set ds. length h \<le> b"
      "length h \<le> length h'" "\<forall>a < length h. h' ! a = h ! a"
    using append_loop_spec [of "length h" h Cnil Cnil "[]" xs ass z] by auto
  have "h' = h @ drop (length h) h'"
    using r(5,6) by (intro nth_equalityI) (auto simp: nth_append)
  then show ?thesis using r(1-4) unfolding mk_cl_append_def by metis
qed

section \<open>The end of a list\<close>

lemma last_advance_chain:
  assumes "chain h l as y" and "\<not> MKCL_CONSP h y"
  shows "last_advance h n l = (n - length as, nthcdr_of h (min n (length as)) l)"
  using assms
proof (induction as arbitrary: n l)
  case Nil
  then show ?case by (cases n) auto
next
  case (Cons a as)
  then show ?case
    by (cases n) (auto simp: nthcdr_of_def funpow_swap1)
qed

lemma last_pair_loop_chain:
  assumes "chain h r as y" and "\<not> MKCL_CONSP h y"
  shows "last_pair_loop h r l = Some (nthcdr_of h (length as) l)"
  using assms
proof (induction as arbitrary: r l)
  case Nil
  then show ?case by (subst last_pair_loop.simps) simp
next
  case (Cons a as)
  then show ?case
    by (subst last_pair_loop.simps) (auto simp: nthcdr_of_def funpow_swap1)
qed

lemma last_atom_loop_chain:
  assumes "chain h r as y" and "\<not> MKCL_CONSP h y"
  shows "last_atom_loop h r = Some y"
  using assms
proof (induction as arbitrary: r)
  case Nil
  then show ?case by (subst last_atom_loop.simps) simp
next
  case (Cons a as)
  then show ?case by (subst last_atom_loop.simps) auto
qed

lemma chain_drop:
  assumes "chain h x as y" and "n \<le> length as"
  shows "chain h (nthcdr_of h n x) (drop n as) y"
  using assms
proof (induction n arbitrary: x as)
  case (Suc n)
  then show ?case by (cases as) (auto simp: nthcdr_of_def funpow_swap1)
qed simp

lemma chain_take:
  assumes "chain h x as y" and "n \<le> length as"
  shows "chain h x (take n as) (nthcdr_of h n x)"
  using assms
proof (induction n arbitrary: x as)
  case (Suc n)
  then show ?case by (cases as) (auto simp: nthcdr_of_def funpow_swap1)
qed simp

lemma nthcdr_proper_neq:
  assumes "chain h l as y" and "\<not> MKCL_CONSP h y" and "0 < n" and "n \<le> length as"
  shows "nthcdr_of h n l \<noteq> l"
proof
  assume "nthcdr_of h n l = l"
  then have "chain h l (drop n as) y" using chain_drop [OF assms(1,4)] by simp
  then have "drop n as = as" using chain_unique assms(1,2) by blast
  then have "length (drop n as) = length as" by simp
  then show False using assms(3,4) by simp
qed

text \<open>
  \<open>last\<close> keeps two pointers \<open>n\<close> conses apart; on a list that ends at an atom it returns the
  tail with the last \<open>n\<close> conses, the whole list when it has fewer.
\<close>

lemma last_spec:
  assumes "chain h l as y" and "\<not> MKCL_CONSP h y" and "as \<noteq> []"
  shows "mkcl_last h l n = Some (Inr (nthcdr_of h (length as - n) l))"
proof (cases "n = 0")
  case True
  then show ?thesis
    using last_advance_chain [OF assms(1,2), of 0] last_atom_loop_chain [OF assms(1,2)] assms
      chain_nthcdr [OF assms(1)]
    by (cases as) (auto simp: mkcl_last_def MKCL_LISTP_def)
next
  case False
  let ?m = "min n (length as)"
  have m: "0 < ?m" "?m \<le> length as" using False assms(3) by auto
  have "nthcdr_of h ?m l \<noteq> l" by (rule nthcdr_proper_neq [OF assms(1,2) m])
  moreover have "last_pair_loop h (nthcdr_of h ?m l) l = Some (nthcdr_of h (length (drop ?m as)) l)"
    by (rule last_pair_loop_chain [OF chain_drop [OF assms(1) m(2)] assms(2)])
  ultimately show ?thesis
    using last_advance_chain [OF assms(1,2), of n] by (auto simp: mkcl_last_def min_def split: if_splits)
qed

lemma last_cons:
  assumes "chain h l as y" and "\<not> MKCL_CONSP h y" and "as \<noteq> []"
  shows "mkcl_last h l 1 = Some (Inr (Ref (last as)))"
  using last_spec [OF assms, of 1] chain_nth(1) [OF assms(1), of "length as - 1"] assms(3)
  by (simp add: last_conv_nth)

section \<open>Destructive concatenation\<close>

lemma nconc_link:
  assumes "append_state 0 h head tail bs" and "chain h x as y" and "distinct (bs @ as)"
  shows "\<exists>head' h'. (if head = Cnil then nconc_loop h x new_tail others
           else nconc_loop (MKCL_RPLACD h tail x) head new_tail others) = nconc_loop h' head' new_tail others
      \<and> chain h' head' (bs @ as) y \<and> length h' = length h
      \<and> (\<forall>x. MKCL_CONSP h' x = MKCL_CONSP h x)
      \<and> (\<forall>a. MKCL_CONS_CAR h' (Ref a) = MKCL_CONS_CAR h (Ref a))
      \<and> (\<forall>a. a \<notin> set bs \<longrightarrow> h' ! a = h ! a)"
proof (cases "bs = []")
  case True
  then show ?thesis using assms by (auto simp: append_state_def)
next
  case False
  then have ch: "chain h head bs Cnil" and tail: "tail = Ref (last bs)"
    using assms(1) by (auto simp: append_state_def)
  then have "head \<noteq> Cnil" using False by auto
  have "last bs \<in> set bs" using False by simp
  then have "last bs \<notin> set as" using assms(3) by auto
  then have "chain (MKCL_RPLACD h tail x) head (bs @ as) y"
    using chain_relink [OF ch False _ assms(2)] tail assms(3) by simp
  moreover have "\<forall>a. a \<notin> set bs \<longrightarrow> MKCL_RPLACD h tail x ! a = h ! a"
    using tail \<open>last bs \<in> set bs\<close> by (metis RPLACD_frame)
  ultimately show ?thesis
    using \<open>head \<noteq> Cnil\<close> by (intro exI [of _ head] exI [of _ "MKCL_RPLACD h tail x"]) simp
qed

text \<open>
  \<open>nconc\<close> relinks: the conses of all the lists, in order, become one list that ends as the
  last argument does. No cell is made, no car changes and no other cell is touched.
\<close>

definition relinked :: "heap \<Rightarrow> heap \<Rightarrow> addr list \<Rightarrow> bool" where
  "relinked h h' as \<longleftrightarrow> length h' = length h \<and> (\<forall>x. MKCL_CONSP h' x = MKCL_CONSP h x)
     \<and> (\<forall>a. MKCL_CONS_CAR h' (Ref a) = MKCL_CONS_CAR h (Ref a)) \<and> (\<forall>a. a \<notin> set as \<longrightarrow> h' ! a = h ! a)"

lemma relinked_trans:
  "relinked h h' as \<Longrightarrow> relinked h' h'' bs \<Longrightarrow> set as \<union> set bs \<subseteq> set cs \<Longrightarrow> relinked h h'' cs"
  by (auto simp: relinked_def subset_iff) metis

lemma relinked_chain:
  assumes "relinked h h' bs" and "chain h x as y" and "set as \<inter> set bs = {}"
  shows "chain h' x as y"
  using assms chain_frame(1) [OF assms(2), of h'] by (auto simp: relinked_def)

lemma nconc_step:
  assumes st: "append_state 0 h head tail bs" and x: "chain h x as y" and y: "\<not> MKCL_CONSP h y"
    and "distinct (bs @ as)" and "x = Cnil \<or> as \<noteq> [] \<or> others = []"
  shows "\<exists>head' h' new_tail. nconc_loop h head tail (x # others) = nconc_loop h' head' new_tail others
      \<and> chain h' head' (bs @ as) y \<and> relinked h h' bs
      \<and> (y = Cnil \<longrightarrow> append_state 0 h' head' new_tail (bs @ as))"
proof -
  define new_tail where "new_tail = (if as = [] then tail else Ref (last as))"
  have "nconc_loop h head tail (x # others) = (if head = Cnil then nconc_loop h x new_tail others
           else nconc_loop (MKCL_RPLACD h tail x) head new_tail others)"
  proof (cases "as = []")
    case True
    then show ?thesis using x y assms(5) by (auto simp: new_tail_def)
  next
    case False
    then have "x \<noteq> Cnil" "MKCL_CONSP h x" using x by (cases as; simp)+
    then show ?thesis using last_cons [OF x y False] False by (simp add: new_tail_def)
  qed
  moreover obtain head' h' where "(if head = Cnil then nconc_loop h x new_tail others
           else nconc_loop (MKCL_RPLACD h tail x) head new_tail others) = nconc_loop h' head' new_tail others"
      and ch: "chain h' head' (bs @ as) y" and re: "relinked h h' bs"
    using nconc_link [OF st x assms(4), of new_tail others] unfolding relinked_def by blast
  moreover have "append_state 0 h' head' new_tail (bs @ as)" if "y = Cnil"
    using ch that st by (auto simp: append_state_def new_tail_def split: if_splits)
  ultimately show ?thesis by auto
qed

lemma nconc_loop_spec:
  assumes "append_state 0 h head tail bs" and "list_all2 (\<lambda>x as. chain h x as Cnil) xs ass"
    and "chain h z zs y" and "\<not> MKCL_CONSP h y" and "distinct (bs @ concat ass @ zs)"
  shows "\<exists>r h'. nconc_loop h head tail (xs @ [z]) = Some (Inr r, h')
      \<and> chain h' r (bs @ concat ass @ zs) y \<and> relinked h h' (bs @ concat ass)"
  using assms
proof (induction xs arbitrary: h head tail bs ass)
  case Nil
  then have "ass = []" by simp
  then obtain head' h' new_tail where "nconc_loop h head tail [z] = nconc_loop h' head' new_tail []"
      "chain h' head' (bs @ zs) y" "relinked h h' bs"
    using nconc_step [OF Nil.prems(1,3,4), of "[]"] Nil.prems(5) by (metis append.simps(1) concat.simps(1))
  then show ?case using \<open>ass = []\<close> by auto
next
  case (Cons x xs)
  then obtain as ass' where ass: "ass = as # ass'" and x: "chain h x as Cnil"
    and xs: "list_all2 (\<lambda>x as. chain h x as Cnil) xs ass'" by (auto simp: list_all2_Cons1)
  have cond: "x = Cnil \<or> as \<noteq> [] \<or> xs @ [z] = []" using x by (cases as) auto
  have dist: "distinct (bs @ as)" using Cons.prems(5) ass by auto
  obtain head' h1 new_tail where st:
      "nconc_loop h head tail (x # xs @ [z]) = nconc_loop h1 head' new_tail (xs @ [z])"
      "relinked h h1 bs" "append_state 0 h1 head' new_tail (bs @ as)"
    using nconc_step [OF Cons.prems(1) x _ dist cond] by (metis consp_simps(1))
  have "list_all2 (\<lambda>x as. chain h1 x as Cnil) xs ass'"
    using xs by (rule list.rel_mono_strong) (use Cons.prems(5) ass relinked_chain [OF st(2)] in fastforce)
  moreover have "chain h1 z zs y"
    by (rule relinked_chain [OF st(2) Cons.prems(3)]) (use Cons.prems(5) in auto)
  moreover have "\<not> MKCL_CONSP h1 y" using st(2) Cons.prems(4) by (simp add: relinked_def)
  ultimately obtain r h' where "nconc_loop h1 head' new_tail (xs @ [z]) = Some (Inr r, h')"
      "chain h' r ((bs @ as) @ concat ass' @ zs) y" "relinked h1 h' ((bs @ as) @ concat ass')"
    using Cons.IH [OF st(3), of ass'] Cons.prems(5) ass by auto
  then show ?case
    using st(1) ass relinked_trans [OF st(2)] by (intro exI [of _ r] exI [of _ h']) auto
qed

lemma nconc_spec:
  assumes "list_all2 (\<lambda>x as. chain h x as Cnil) xs ass"
    and "chain h z zs y" and "\<not> MKCL_CONSP h y" and "distinct (concat ass @ zs)"
  shows "\<exists>r h'. mk_cl_nconc h (xs @ [z]) = Some (Inr r, h')
      \<and> chain h' r (concat ass @ zs) y \<and> relinked h h' (concat ass)"
  using nconc_loop_spec [of h Cnil Cnil "[]" xs ass z zs y] assms
  by (simp add: mk_cl_nconc_def append_state_def)

section \<open>Destructive reversal onto a tail\<close>

text \<open>A circular list is a stem \<open>as\<close> and a cycle \<open>b # bs\<close>.\<close>

lemma circular_stem_cycle:
  assumes "circular_list h x"
  shows "\<exists>as b bs. chain h x (as @ b # bs) (Ref b) \<and> distinct (as @ b # bs)"
proof -
  let ?f = "\<lambda>n. nthcdr_of h n x"
  let ?P = "\<lambda>n. \<exists>i < n. ?f i = ?f n"
  define n where "n = (LEAST n. ?P n)"
  obtain i p where "0 < p" "?f (i + p) = ?f i" using circular_cycle [OF assms] by blast
  then have "?P (i + p)" by (intro exI [of _ i]) simp
  then have "?P n" unfolding n_def by (rule LeastI)
  then obtain i where i: "i < n" "?f i = ?f n" by blast
  obtain cs where cs: "length cs = n" "chain h x cs (?f n)"
    using chain_to_nthcdr [of n h x] assms unfolding circular_list_def by blast
  have "distinct cs"
  proof (rule ccontr)
    assume "\<not> distinct cs"
    then obtain j k where jk: "j < k" "k < n" "cs ! j = cs ! k"
      using cs(1) unfolding distinct_conv_nth by (metis linorder_neqE_nat)
    then have "?f j = ?f k" using chain_nth(1) [OF cs(2)] cs(1) by simp
    then have "?P k" using jk(1) by blast
    with jk(2) show False unfolding n_def using not_less_Least by blast
  qed
  moreover have "cs = take i cs @ cs ! i # drop (Suc i) cs"
    using i(1) cs(1) by (simp add: id_take_nth_drop)
  moreover have "?f n = Ref (cs ! i)" using chain_nth(1) [OF cs(2), of i] i cs(1) by simp
  ultimately show ?thesis using cs(2) by metis
qed

text \<open>
  The loop of \<open>nreconc\<close> over conses whose successors are not \<open>l\<close>: it turns each of them
  round and goes on where they lead.
\<close>

lemma nreconc_prefix:
  assumes "chain h x as z" and "distinct as" and "l \<notin> Ref ` set (tl as)" and "as \<noteq> [] \<Longrightarrow> z \<noteq> l"
  shows "\<exists>h' r. nreconc_loop h l x y = nreconc_loop h' l z r \<and> chain h' r (rev as) y \<and> relinked h h' as"
  using assms
proof (induction as arbitrary: h x y)
  case Nil
  then show ?case by (auto simp: relinked_def)
next
  case (Cons a as)
  then obtain u v where x: "x = Ref a" and a: "a < length h" "h ! a = ConsC u v"
    by (auto elim: consp_cases)
  let ?h = "h[a := ConsC u y]"
  have h': "MKCL_RPLACD h x y = ?h" using x a by simp
  have v: "chain h v as z" using Cons.prems(1) x a by simp
  then have "v \<noteq> l" using Cons.prems(3,4) by (cases as) auto
  then have step: "nreconc_loop h l x y = nreconc_loop ?h l v (Ref a)"
    using x a by (subst nreconc_loop.simps) (simp add: MKCL_LISTP_def)
  have "chain ?h v as z" using chain_update(1) [OF v] Cons.prems(2) by simp
  moreover have "l \<notin> Ref ` set (tl as)" using Cons.prems(3) by (cases as) auto
  ultimately obtain h'' r where IH: "nreconc_loop ?h l v (Ref a) = nreconc_loop h'' l z r"
      "chain h'' r (rev as) (Ref a)" "relinked ?h h'' as"
    using Cons.IH [of ?h v "Ref a"] Cons.prems(2,4) by auto
  have "relinked h ?h [a]" unfolding h' [symmetric] using x by (auto simp: relinked_def RPLACD_frame)
  then have re: "relinked h h'' (a # as)" by (rule relinked_trans [OF _ IH(3)]) auto
  have "h'' ! a = ConsC u y" "a < length h''"
    using IH(3) a(1) Cons.prems(2) by (auto simp: relinked_def)
  then have "chain h'' r (rev (a # as)) y" using IH(2) by (simp add: chain_snoc)
  then show ?case using step IH(1) re by auto
qed

lemma nreconc_to_start:
  assumes "chain h x as l" and "as \<noteq> []" and "distinct as" and "l \<notin> Ref ` set (tl as)"
  shows "\<exists>h'. nreconc_loop h l x y = Some (Inl (CircularList l), h') \<and> relinked h h' (butlast as)"
proof -
  have as: "as = butlast as @ [last as]" using assms(2) by simp
  then have pre: "chain h x (butlast as) (Ref (last as))"
      and end': "MKCL_CONSP h (Ref (last as))" "MKCL_CONS_CDR h (Ref (last as)) = l"
    using assms(1) chain_snoc [of h x "butlast as" "last as" l] by auto
  have tl: "l \<notin> Ref ` set (tl (butlast as))"
    using assms(4) by (auto simp: butlast_tl [symmetric] dest: in_set_butlastD)
  have "Ref (last as) \<noteq> l" if "butlast as \<noteq> []"
  proof -
    have "tl as \<noteq> []" "last (tl as) = last as" using that by (cases as; auto)+
    then show ?thesis using assms(4) last_in_set [of "tl as"] by force
  qed
  then obtain h' r where h': "nreconc_loop h l x y = nreconc_loop h' l (Ref (last as)) r"
      "relinked h h' (butlast as)"
    using nreconc_prefix [OF pre _ tl] assms(3) by (metis distinct_butlast)
  have "last as \<notin> set (butlast as)" using assms(3) as by (metis distinct_append disjoint_iff list.set_intros(1))
  then have "MKCL_CONSP h' (Ref (last as))" "MKCL_CONS_CDR h' (Ref (last as)) = l"
    using h'(2) end' by (auto simp: relinked_def MKCL_CONS_CDR_def)
  then have "nreconc_loop h' l (Ref (last as)) r = Some (Inl (CircularList l), h')"
    by (subst nreconc_loop.simps) (simp add: MKCL_LISTP_def)
  then show ?thesis using h' by auto
qed

lemma nreconc_chain:
  assumes "chain h l as z" and "\<not> MKCL_CONSP h z" and "MKCL_LISTP h l"
  shows "\<exists>h' r. mk_cl_nreconc h l y = Some (if z = Cnil then Inr r else Inl (TypeErrorList z), h')
      \<and> chain h' r (rev as) y \<and> relinked h h' as"
proof -
  have dist: "distinct as" by (rule chain_distinct [OF assms(1,2)])
  then have tl: "l \<notin> Ref ` set (tl as)" using assms(1) by (cases as) auto
  have "z \<noteq> l" if "as \<noteq> []" using that assms(1,2) by (cases as) auto
  then obtain h' r where *: "nreconc_loop h l l y = nreconc_loop h' l z r" "chain h' r (rev as) y"
      "relinked h h' as"
    using nreconc_prefix [OF assms(1) dist tl] by blast
  have "\<not> MKCL_CONSP h' z" using *(3) assms(2) by (simp add: relinked_def)
  then have "nreconc_loop h' l z r = Some (if z = Cnil then Inr r else Inl (TypeErrorList z), h')"
    by (subst nreconc_loop.simps) (simp add: MKCL_LISTP_def)
  with * show ?thesis unfolding mk_cl_nreconc_def by auto
qed

lemma nreconc_circular:
  assumes "circular_list h l"
  shows "\<exists>h'. mk_cl_nreconc h l y = Some (Inl (CircularList l), h')"
proof -
  obtain as b bs where ch: "chain h l (as @ b # bs) (Ref b)" and dist: "distinct (as @ b # bs)"
    using circular_stem_cycle [OF assms] by blast
  show ?thesis
  proof (cases as)
    case Nil
    then have "l = Ref b" using ch by simp
    then show ?thesis
      using nreconc_to_start [of h l "b # bs" l y] ch dist Nil by (auto simp: mk_cl_nreconc_def)
  next
    case (Cons a as')
    then have l: "l = Ref a" using ch by simp
    have tl: "l \<notin> Ref ` set (tl (as @ b # bs))" and bl: "Ref b \<noteq> l" using dist Cons l by auto
    obtain h' r where *: "nreconc_loop h l l y = nreconc_loop h' l (Ref b) r"
        "chain h' r (rev (as @ b # bs)) y" "relinked h h' (as @ b # bs)"
      using nreconc_prefix [OF ch dist tl, of y] bl by blast
    from *(2) have "chain h' (Ref b) (b # rev as) y" by (auto simp: chain_append)
    then have "chain h' (Ref b) (b # rev as') l" using Cons l by (auto simp: chain_append)
    moreover have "distinct (b # rev as')" "l \<notin> Ref ` set (tl (b # rev as'))" using dist Cons l by auto
    ultimately show ?thesis
      using nreconc_to_start [of h' "Ref b" "b # rev as'" l r] *(1) by (auto simp: mk_cl_nreconc_def)
  qed
qed

section \<open>Searching\<close>

text \<open>
  The loops of \<open>member\<close> and \<open>assoc\<close> run their test from left to right and stop at the
  first cons that passes; a test that fails with an error stops them too. \<open>first_match\<close> is
  that search on the conses of the chain.
\<close>

fun first_match :: "(obj \<Rightarrow> bool query) \<Rightarrow> addr list \<Rightarrow> (lisp_error + addr option) option" where
  "first_match body [] = Some (Inr None)"
| "first_match body (a # as) =
     Option.bind (body (Ref a)) (\<lambda>r. case r of
        Inl e \<Rightarrow> Some (Inl e)
      | Inr b \<Rightarrow> if b then Some (Inr (Some a)) else first_match body as)"

definition loop_result :: "obj \<Rightarrow> obj \<Rightarrow> (lisp_error + addr option) option \<Rightarrow> obj query" where
  "loop_result l0 y q = map_option (\<lambda>r. case r of
      Inl e \<Rightarrow> Inl e
    | Inr (Some a) \<Rightarrow> Inr (Ref a)
    | Inr None \<Rightarrow> if y = Cnil then Inr Cnil else Inl (TypeErrorProperList l0)) q"

lemma loop_for_in_chain:
  assumes "chain h l as y" and "\<not> MKCL_CONSP h y"
  shows "loop_for_in h body l0 l = loop_result l0 y (first_match body as)"
  using assms
proof (induction as arbitrary: l)
  case Nil
  then show ?case by (subst loop_for_in.simps) (auto simp: loop_result_def)
next
  case (Cons a as)
  then have "l \<noteq> Cnil" "MKCL_CONSP h l" "l = Ref a" by auto
  then show ?case
    using Cons by (subst loop_for_in.simps)
      (auto simp: loop_result_def split: option.splits sum.splits bind_splits)
qed

text \<open>A search that tests with a total predicate finds the first element that satisfies it.\<close>

lemma first_match_total:
  assumes "\<And>a. a \<in> set as \<Longrightarrow> body (Ref a) = Some (Inr (P a))"
  shows "first_match body as = Some (Inr (find P as))"
  using assms by (induction as) auto

lemma find_tail:
  assumes "chain h l as y"
  shows "find P as = Some a \<Longrightarrow> \<exists>i. i < length as \<and> as ! i = a \<and> nthcdr_of h i l = Ref a \<and> P a
      \<and> (\<forall>j < i. \<not> P (as ! j))"
  using chain_nth(1) [OF assms] by (force simp: find_Some_iff)

end
