(* ===== verification/Alist_Props.thy ===== *)
theory Alist_Props
  imports List_Props Alists
begin

text \<open>
  What the operations of the theory \<open>Alists\<close> and the remaining ones of \<open>Lists\<close> achieve:
  searches return the first match, lists built cons by cons from the front hold the elements
  in order, \<open>pairlis\<close> and \<open>assoc\<close> fit together, and reversing in place twice restores the heap.
\<close>

section \<open>Heaps determined by a chain\<close>

lemma chain_start: "chain h x as y \<Longrightarrow> x = (case as of [] \<Rightarrow> y | a # _ \<Rightarrow> Ref a)"
  by (cases as) simp_all

lemma chain_cdr_same:
  assumes "chain h x as y" and "chain h' x' as y" and "a \<in> set as"
  shows "MKCL_CONS_CDR h' (Ref a) = MKCL_CONS_CDR h (Ref a)"
  using assms
proof (induction as arbitrary: x x')
  case (Cons b as)
  have c: "chain h (MKCL_CONS_CDR h (Ref b)) as y" "chain h' (MKCL_CONS_CDR h' (Ref b)) as y"
    using Cons.prems by auto
  then have "MKCL_CONS_CDR h' (Ref b) = MKCL_CONS_CDR h (Ref b)" using chain_start by metis
  then show ?case using Cons.IH [OF c] Cons.prems(3) by auto
qed simp

lemma chain_heap_same:
  assumes c: "chain h x as y" "chain h' x' as y" and n: "length h' = length h"
    and car: "\<And>a. MKCL_CONS_CAR h' (Ref a) = MKCL_CONS_CAR h (Ref a)"
    and off: "\<And>a. a \<notin> set as \<Longrightarrow> h' ! a = h ! a"
  shows "h' = h"
proof (rule nth_equalityI [OF n])
  fix a
  assume "a < length h'"
  show "h' ! a = h ! a"
  proof (cases "a \<in> set as")
    case True
    obtain u v where 1: "h ! a = ConsC u v" "a < length h" using chain_cell [OF c(1) True] .
    obtain u' v' where 2: "h' ! a = ConsC u' v'" "a < length h'" using chain_cell [OF c(2) True] .
    show ?thesis using 1 2 car [of a] chain_cdr_same [OF c True] by simp
  qed (rule off)
qed

lemma nreverse_twice:
  assumes "chain h x as Cnil"
  shows "\<exists>r h'. mkcl_nreverse_proper_list h x = Some (Inr r, h') \<and> mkcl_nreverse_proper_list h' r = Some (Inr x, h)"
proof -
  obtain r h' where 1: "nreverse_loop h x Cnil = Some (Inr r, h')" "chain h' r (rev as) Cnil" "length h' = length h"
      "\<forall>a. MKCL_CONS_CAR h' (Ref a) = MKCL_CONS_CAR h (Ref a)" "\<forall>a. a \<notin> set as \<longrightarrow> h' ! a = h ! a"
    using nreverse_loop_chain [OF assms, of Cnil "[]"] by auto
  obtain r' h'' where 2: "nreverse_loop h' r Cnil = Some (Inr r', h'')" "chain h'' r' as Cnil" "length h'' = length h'"
      "\<forall>a. MKCL_CONS_CAR h'' (Ref a) = MKCL_CONS_CAR h' (Ref a)" "\<forall>a. a \<notin> set (rev as) \<longrightarrow> h'' ! a = h' ! a"
    using nreverse_loop_chain [OF 1(2), of Cnil "[]"] by auto
  have "h'' = h" using assms 1 2 by (intro chain_heap_same) auto
  moreover have "r' = x" using chain_start [OF assms] chain_start [OF 2(2)] by simp
  ultimately show ?thesis using 1(1) 2(1) by (auto simp: mkcl_nreverse_proper_list_def)
qed

section \<open>Searching\<close>

lemma memql_first:
  assumes "chain h l as Cnil"
  shows "mkcl_memql h x l =
     Some (Inr (case find (\<lambda>a. mkcl_eql h x (MKCL_CONS_CAR h (Ref a))) as of Some a \<Rightarrow> Ref a | None \<Rightarrow> Cnil))"
  unfolding mkcl_memql_def loop_for_in_chain [OF assms consp_simps(1)]
  by (subst first_match_total [where P = "\<lambda>a. mkcl_eql h x (MKCL_CONS_CAR h (Ref a))"])
    (auto simp: loop_result_def split: option.splits)

definition eql_test :: "obj \<Rightarrow> cl_test" where
  "eql_test item = \<lparr>test_c = test_eql, key_fn = None, test_fn = no_fun, equalp_fn = no_equalp, item_compared = item\<rparr>"

lemma setup_test_default: "setup_test item None None None = Inr (eql_test item)"
  by (simp add: setup_test_def eql_test_def)

lemma TEST_eql: "TEST h (eql_test item) x = Some (mkcl_eql h item x)"
  by (simp add: TEST_def KEY_def eql_test_def)

text \<open>A pair of an association list that matches: an element that is no \<open>NIL\<close> with an \<open>eql\<close> car.\<close>

definition matches :: "heap \<Rightarrow> obj \<Rightarrow> obj \<Rightarrow> bool" where
  "matches h item p \<longleftrightarrow> p \<noteq> Cnil \<and> mkcl_eql h item (MKCL_CONS_CAR h p)"

lemma found_pair_find:
  "found_pair h (loop_result l0 Cnil (Some (Inr (find P as)))) =
     Some (Inr (case find P as of Some a \<Rightarrow> MKCL_CONS_CAR h (Ref a) | None \<Rightarrow> Cnil))"
  by (simp add: found_pair_def loop_result_def split: option.splits)

lemma find_map_elems: "(case find (\<lambda>a. Q (MKCL_CONS_CAR h (Ref a))) as of Some a \<Rightarrow> MKCL_CONS_CAR h (Ref a) | None \<Rightarrow> d) =
    (case find Q (elems h as) of Some p \<Rightarrow> p | None \<Rightarrow> d)"
  by (induction as) auto

lemma assoc_first:
  assumes "chain h l as Cnil" and "\<forall>p \<in> set (elems h as). MKCL_LISTP h p"
  shows "mk_cl_assoc h item l None None None =
     Some (Inr (case find (matches h item) (elems h as) of Some p \<Rightarrow> p | None \<Rightarrow> Cnil))"
proof -
  have "alist_body h (eql_test item) MKCL_CONS_CAR (Ref a) = Some (Inr (matches h item (MKCL_CONS_CAR h (Ref a))))"
    if "a \<in> set as" for a
    using assms(2) that by (auto simp: alist_body_def TEST_eql matches_def elems_def Let_def)
  then have "first_match (alist_body h (eql_test item) MKCL_CONS_CAR) as =
      Some (Inr (find (\<lambda>a. matches h item (MKCL_CONS_CAR h (Ref a))) as))"
    by (rule first_match_total)
  then show ?thesis
    by (simp add: mk_cl_assoc_def setup_test_default do_assoc_def loop_for_in_chain [OF assms(1) consp_simps(1)]
        found_pair_find find_map_elems)
qed

section \<open>Lists built from the front\<close>

text \<open>One more cons at the end of the list built so far.\<close>

definition extend_list :: "heap \<Rightarrow> obj \<Rightarrow> obj \<Rightarrow> heap" where
  "extend_list h tail u =
     (let h1 = h @ [ConsC u Cnil] in if tail = Cnil then h1 else MKCL_RPLACD h1 tail (Ref (length h)))"

lemma extend_list_state:
  assumes "append_state n h head tail bs"
  shows "append_state n (extend_list h tail u) (if tail = Cnil then Ref (length h) else head) (Ref (length h)) (bs @ [length h])"
    and "elems (extend_list h tail u) (bs @ [length h]) = elems h bs @ [u]"
    and "\<forall>a < n. extend_list h tail u ! a = h ! a" and "length (extend_list h tail u) = Suc (length h)"
proof -
  let ?h1 = "h @ [ConsC u Cnil]" and ?h' = "extend_list h tail u"
  have n: "n \<le> length h" and bs: "\<forall>b \<in> set bs. n \<le> b" using assms by (auto simp: append_state_def)
  have new: "chain ?h1 (Ref (length h)) [length h] Cnil" by simp
  have "append_state n ?h' (if tail = Cnil then Ref (length h) else head) (Ref (length h)) (bs @ [length h])
    \<and> elems ?h' (bs @ [length h]) = elems h bs @ [u] \<and> (\<forall>a < n. ?h' ! a = h ! a) \<and> length ?h' = Suc (length h)"
  proof (cases "bs = []")
    case True
    then show ?thesis
      using assms n new by (auto simp: append_state_def extend_list_def nth_append)
  next
    case False
    have ch: "chain h head bs Cnil" and tail: "tail = Ref (last bs)" using False assms by (auto simp: append_state_def)
    have d: "distinct bs" using chain_distinct [OF ch] by simp
    have b: "last bs \<notin> set [length h]" using chain_bound [OF ch, of "last bs"] False by auto
    have re: "chain ?h' head (bs @ [length h]) Cnil" "elems ?h' (bs @ [length h]) = elems h bs @ [u]"
      using chain_relink [OF chain_alloc(1) [OF ch] False d new b] chain_alloc(2) [OF ch] tail
      by (simp_all add: extend_list_def)
    have "?h' ! a = h ! a" if "a < n" for a
    proof -
      have "a \<noteq> last bs" using that bs False by (metis last_in_set leD)
      then show ?thesis using that n tail by (simp add: extend_list_def RPLACD_frame nth_append)
    qed
    then show ?thesis using re n bs tail by (auto simp: append_state_def extend_list_def)
  qed
  then show "append_state n ?h' (if tail = Cnil then Ref (length h) else head) (Ref (length h)) (bs @ [length h])"
    "elems ?h' (bs @ [length h]) = elems h bs @ [u]" "\<forall>a < n. ?h' ! a = h ! a" "length ?h' = Suc (length h)" by auto
qed

lemma atom_in_extend_list: "atom_in h y \<Longrightarrow> atom_in (extend_list h tail u) y"
proof -
  assume "atom_in h y"
  then have "atom_in (h @ [ConsC u Cnil]) y" by (rule atom_in_alloc)
  then show ?thesis by (auto simp: extend_list_def atom_in_def Let_def)
qed

lemma heap_prefix:
  assumes "length h \<le> length h'" and "\<forall>a < length h. h' ! a = h ! a"
  shows "h' = h @ drop (length h) h'"
  using assms by (intro nth_equalityI) (auto simp: nth_append)

lemma remove_eq_loop_chain:
  assumes "append_state n h head tail bs" and "chain h l as y" and "atom_in h y" and "\<forall>a \<in> set as. a < n"
  shows "\<exists>r h' ds. remove_eq_loop h x l head tail = Some (r, h') \<and> chain h' r (bs @ ds) Cnil
      \<and> elems h' (bs @ ds) = elems h bs @ removeAll x (elems h as) \<and> (\<forall>d \<in> set ds. n \<le> d)
      \<and> length h \<le> length h' \<and> (\<forall>a < n. h' ! a = h ! a)"
  using assms
proof (induction as arbitrary: h head tail bs l)
  case Nil
  then have "\<not> MKCL_CONSP h l" using atom_in_not_consp by simp
  then have "remove_eq_loop h x l head tail = Some (head, h)" by (subst remove_eq_loop.simps) simp
  moreover have "chain h head bs Cnil" using Nil.prems(1) by (auto simp: append_state_def split: if_splits)
  ultimately show ?case by (intro exI [of _ head] exI [of _ h] exI [of _ "[]"]) simp
next
  case (Cons a as)
  let ?u = "MKCL_CONS_CAR h (Ref a)"
  have l: "l = Ref a" "MKCL_CONSP h l" "chain h (MKCL_CONS_CDR h (Ref a)) as y" and a: "a < n" using Cons.prems by auto
  show ?case
  proof (cases "?u = x")
    case True
    then have "remove_eq_loop h x l head tail = remove_eq_loop h x (MKCL_CONS_CDR h (Ref a)) head tail"
      using l by (subst remove_eq_loop.simps) simp
    then show ?thesis using Cons.IH [OF Cons.prems(1) l(3) Cons.prems(3)] Cons.prems(4) True by simp
  next
    case False
    let ?h' = "extend_list h tail ?u" and ?head = "if tail = Cnil then Ref (length h) else head"
    note e = extend_list_state [OF Cons.prems(1), of ?u]
    have n: "n \<le> length h" using Cons.prems(1) by (simp add: append_state_def)
    have ch: "chain ?h' l (a # as) y" "elems ?h' (a # as) = elems h (a # as)"
      using chain_frame [OF Cons.prems(2), of ?h'] e(3,4) Cons.prems(4) by auto
    have "remove_eq_loop h x l head tail = remove_eq_loop ?h' x (MKCL_CONS_CDR ?h' (Ref a)) ?head (Ref (length h))"
      using l(1,2) False by (subst remove_eq_loop.simps) (simp add: extend_list_def Let_def)
    moreover obtain r h'' ds where r: "remove_eq_loop ?h' x (MKCL_CONS_CDR ?h' (Ref a)) ?head (Ref (length h)) = Some (r, h'')"
        "chain h'' r ((bs @ [length h]) @ ds) Cnil"
        "elems h'' ((bs @ [length h]) @ ds) = elems ?h' (bs @ [length h]) @ removeAll x (elems ?h' as)"
        "\<forall>d \<in> set ds. n \<le> d" "length ?h' \<le> length h''" "\<forall>a < n. h'' ! a = ?h' ! a"
      using Cons.IH [OF e(1), of "MKCL_CONS_CDR ?h' (Ref a)"] ch(1) atom_in_extend_list [OF Cons.prems(3)] Cons.prems(4)
      by auto
    moreover have "elems ?h' as = elems h as" using ch(2) by simp
    ultimately show ?thesis
      using e False n
      by (intro exI [of _ r] exI [of _ h''] exI [of _ "length h # ds"]) auto
  qed
qed

lemma remove_eq_spec:
  assumes "chain h l as y" and "atom_in h y"
  shows "\<exists>r cs ds. mkcl_remove_eq h x l = Some (r, h @ cs) \<and> chain (h @ cs) r ds Cnil
      \<and> elems (h @ cs) ds = removeAll x (elems h as) \<and> (\<forall>d \<in> set ds. length h \<le> d)"
proof -
  have "append_state (length h) h Cnil Cnil []" by (simp add: append_state_def)
  moreover have "\<forall>a \<in> set as. a < length h" using chain_bound [OF assms(1)] by blast
  ultimately obtain r h' ds where r: "remove_eq_loop h x l Cnil Cnil = Some (r, h')" "chain h' r ds Cnil"
      "elems h' ds = removeAll x (elems h as)" "\<forall>d \<in> set ds. length h \<le> d" "length h \<le> length h'"
      "\<forall>a < length h. h' ! a = h ! a"
    using remove_eq_loop_chain [OF _ assms, of "length h" Cnil Cnil "[]" x] by auto
  have "h' = h @ drop (length h) h'" by (rule heap_prefix [OF r(5,6)])
  then show ?thesis using r unfolding mkcl_remove_eq_def by metis
qed

lemma list_loop_chain:
  assumes "append_state n h head tail bs" and "tail \<noteq> Cnil"
  shows "\<exists>ds. chain (list_loop h tail args) head (bs @ ds) Cnil \<and> elems (list_loop h tail args) (bs @ ds) = elems h bs @ args
      \<and> (\<forall>a < n. list_loop h tail args ! a = h ! a) \<and> length h \<le> length (list_loop h tail args)"
  using assms
proof (induction args arbitrary: h tail bs)
  case Nil
  then have "chain h head bs Cnil" by (auto simp: append_state_def split: if_splits)
  then show ?case by (intro exI [of _ "[]"]) simp
next
  case (Cons u args)
  let ?h' = "extend_list h tail u"
  note e = extend_list_state [OF Cons.prems(1), of u]
  have step: "list_loop h tail (u # args) = list_loop ?h' (Ref (length h)) args"
    using Cons.prems(2) by (simp add: extend_list_def Let_def)
  obtain ds where "chain (list_loop ?h' (Ref (length h)) args) head ((bs @ [length h]) @ ds) Cnil"
      "elems (list_loop ?h' (Ref (length h)) args) ((bs @ [length h]) @ ds) = elems ?h' (bs @ [length h]) @ args"
      "\<forall>a < n. list_loop ?h' (Ref (length h)) args ! a = ?h' ! a" "length ?h' \<le> length (list_loop ?h' (Ref (length h)) args)"
    using Cons.IH [of ?h' "Ref (length h)" "bs @ [length h]"] e(1) Cons.prems(2) by auto
  then show ?case unfolding step using e by (intro exI [of _ "length h # ds"]) auto
qed

lemma list_spec:
  "\<exists>cs ds. snd (mk_cl_list h args) = h @ cs \<and> chain (h @ cs) (fst (mk_cl_list h args)) ds Cnil
     \<and> elems (h @ cs) ds = args"
proof (cases args)
  case Nil
  then show ?thesis by (simp add: mk_cl_list_def)
next
  case (Cons a rest)
  let ?h1 = "h @ [ConsC a Cnil]"
  have "append_state (length h) ?h1 (Ref (length h)) (Ref (length h)) [length h]" by (simp add: append_state_def)
  then obtain ds where ds: "chain (list_loop ?h1 (Ref (length h)) rest) (Ref (length h)) ([length h] @ ds) Cnil"
      "elems (list_loop ?h1 (Ref (length h)) rest) ([length h] @ ds) = elems ?h1 [length h] @ rest"
      "\<forall>b < length h. list_loop ?h1 (Ref (length h)) rest ! b = ?h1 ! b" "length ?h1 \<le> length (list_loop ?h1 (Ref (length h)) rest)"
    using list_loop_chain [of "length h" ?h1 "Ref (length h)" "Ref (length h)" "[length h]" rest] by blast
  let ?h' = "list_loop ?h1 (Ref (length h)) rest"
  have "\<forall>b < length h. ?h' ! b = h ! b" using ds(3) by (simp add: nth_append)
  moreover have "length h \<le> length ?h'" using ds(4) by simp
  ultimately have "?h' = h @ drop (length h) ?h'" by (intro heap_prefix)
  moreover have "snd (mk_cl_list h args) = ?h'" "fst (mk_cl_list h args) = Ref (length h)"
    using Cons by (simp_all add: mk_cl_list_def)
  moreover have "elems ?h' ([length h] @ ds) = args" using ds(2) Cons by simp
  ultimately show ?thesis using ds(1) by metis
qed

section \<open>Making and searching an association list\<close>

definition is_pair :: "heap \<Rightarrow> obj \<Rightarrow> obj \<times> obj \<Rightarrow> bool" where
  "is_pair h p uv \<longleftrightarrow> MKCL_CONSP h p \<and> MKCL_CONS_CAR h p = fst uv \<and> MKCL_CONS_CDR h p = snd uv"

lemma endp_nil: "mkcl_endp h Cnil = Inr True" and endp_consp: "MKCL_CONSP h x \<Longrightarrow> mkcl_endp h x = Inr False"
  by (auto simp: mkcl_endp_def MKCL_LISTP_def)

lemma pairlis_loop_chain:
  assumes "chain h k ks Cnil" and "chain h d ds Cnil"
  shows "if length ks = length ds
    then \<exists>r cs ps. pairlis_loop h keys data k d al = Some (Inr r, h @ cs) \<and> chain (h @ cs) r ps al
        \<and> list_all2 (is_pair (h @ cs)) (elems (h @ cs) ps) (rev (zip (elems h ks) (elems h ds)))
    else \<exists>h'. pairlis_loop h keys data k d al = Some (Inl (UnequalLengths keys data), h')"
  using assms
proof (induction ks arbitrary: h k d ds al)
  case Nil
  then have k: "k = Cnil" by simp
  show ?case
  proof (cases ds)
    case Nil
    then have "pairlis_loop h keys data k d al = Some (Inr al, h)"
      using k \<open>chain h d ds Cnil\<close> by (subst pairlis_loop.simps) (simp add: endp_nil)
    then show ?thesis using Nil by (auto intro!: exI [of _ "[]"])
  next
    case (Cons b ds')
    then have "mkcl_endp h d = Inr False" using \<open>chain h d ds Cnil\<close> by (intro endp_consp) auto
    then have "pairlis_loop h keys data k d al = Some (Inl (UnequalLengths keys data), h)"
      using k by (subst pairlis_loop.simps) simp
    then show ?thesis using Cons by simp
  qed
next
  case (Cons a ks)
  have k: "k = Ref a" "MKCL_CONSP h (Ref a)" "chain h (MKCL_CONS_CDR h (Ref a)) ks Cnil" using Cons.prems by auto
  show ?case
  proof (cases ds)
    case Nil
    then have "pairlis_loop h keys data k d al = Some (Inl (UnequalLengths keys data), h)"
      using k Cons.prems(2) by (subst pairlis_loop.simps) (simp add: endp_nil)
    then show ?thesis using Nil by simp
  next
    case (Cons b ds')
    let ?u = "MKCL_CONS_CAR h (Ref a)" and ?v = "MKCL_CONS_CAR h (Ref b)" and ?n = "length h"
    let ?new = "[ConsC ?u ?v, ConsC (Ref (length h)) al]"
    let ?h2 = "h @ ?new"
    have d: "d = Ref b" "MKCL_CONSP h (Ref b)" "chain h (MKCL_CONS_CDR h (Ref b)) ds' Cnil" using Cons.prems(2) Cons by auto
    have c2: "chain ?h2 k (a # ks) Cnil" "chain ?h2 d (b # ds') Cnil"
        "elems ?h2 (a # ks) = elems h (a # ks)" "elems ?h2 (b # ds') = elems h (b # ds')"
      using chain_alloc [OF Cons.prems(1), of ?new] chain_alloc [OF Cons.prems(2), of ?new] Cons by auto
    have step: "pairlis_loop h keys data k d al =
        pairlis_loop ?h2 keys data (MKCL_CONS_CDR ?h2 (Ref a)) (MKCL_CONS_CDR ?h2 (Ref b)) (Ref (Suc ?n))"
      using k d by (subst pairlis_loop.simps) (simp add: endp_consp Let_def)
    have ch: "chain ?h2 (MKCL_CONS_CDR ?h2 (Ref a)) ks Cnil" "chain ?h2 (MKCL_CONS_CDR ?h2 (Ref b)) ds' Cnil"
      using c2 k(1) d(1) by auto
    note IH = Cons.IH [OF ch, of "Ref (Suc ?n)"]
    show ?thesis
    proof (cases "length ks = length ds'")
      case True
      then obtain r cs ps where r: "pairlis_loop h keys data k d al = Some (Inr r, ?h2 @ cs)"
          "chain (?h2 @ cs) r ps (Ref (Suc ?n))"
          "list_all2 (is_pair (?h2 @ cs)) (elems (?h2 @ cs) ps) (rev (zip (elems ?h2 ks) (elems ?h2 ds')))"
        using IH step by auto
      have cell: "(?h2 @ cs) ! Suc ?n = ConsC (Ref ?n) al" "(?h2 @ cs) ! ?n = ConsC ?u ?v"
        by (simp_all add: nth_append)
      then have last: "chain (?h2 @ cs) (Ref (Suc ?n)) [Suc ?n] al" "elems (?h2 @ cs) [Suc ?n] = [Ref ?n]"
          "is_pair (?h2 @ cs) (Ref ?n) (?u, ?v)"
        by (simp_all add: is_pair_def)
      have "chain (?h2 @ cs) r (ps @ [Suc ?n]) al" using r(2) last(1) chain_append by blast
      moreover have "list_all2 (is_pair (?h2 @ cs)) (elems (?h2 @ cs) (ps @ [Suc ?n]))
          (rev (zip (elems h (a # ks)) (elems h ds)))"
        using r(3) last(2,3) c2(3,4) Cons by (auto intro: list_all2_appendI)
      ultimately show ?thesis using r(1) True Cons by (auto intro!: exI [of _ "?new @ cs"])
    qed (use IH step Cons in auto)
  qed
qed

lemma find_pairs:
  assumes "list_all2 (is_pair h) ps uvs"
  shows "case find (matches h item) ps of
     None \<Rightarrow> find (\<lambda>uv. mkcl_eql h item (fst uv)) uvs = None
   | Some p \<Rightarrow> \<exists>uv. find (\<lambda>uv. mkcl_eql h item (fst uv)) uvs = Some uv \<and> is_pair h p uv"
  using assms
proof (induction rule: list_all2_induct)
  case (Cons p ps uv uvs)
  have m: "matches h item p \<longleftrightarrow> mkcl_eql h item (fst uv)" using Cons.hyps(1) by (auto simp: matches_def is_pair_def)
  show ?case
  proof (cases "matches h item p")
    case True
    then show ?thesis using m Cons.hyps(1) by simp
  next
    case False
    then show ?thesis using m Cons.IH by (auto split: option.splits)
  qed
qed simp

lemma pairlis_assoc:
  assumes "chain h k ks Cnil" and "chain h d ds Cnil" and "length ks = length ds"
  shows "\<exists>r h' p. mk_cl_pairlis h k d Cnil = Some (Inr r, h') \<and> mk_cl_assoc h' item r None None None = Some (Inr p)
    \<and> (case find (\<lambda>uv. mkcl_eql h' item (fst uv)) (rev (zip (elems h ks) (elems h ds))) of
         None \<Rightarrow> p = Cnil | Some uv \<Rightarrow> is_pair h' p uv)"
proof -
  obtain r cs ps where r: "pairlis_loop h k d k d Cnil = Some (Inr r, h @ cs)" "chain (h @ cs) r ps Cnil"
      "list_all2 (is_pair (h @ cs)) (elems (h @ cs) ps) (rev (zip (elems h ks) (elems h ds)))"
    using pairlis_loop_chain [OF assms(1,2), of k d Cnil] assms(3) by auto
  have "\<forall>p \<in> set (elems (h @ cs) ps). MKCL_LISTP (h @ cs) p"
    using r(3) by (auto simp: list_all2_conv_all_nth in_set_conv_nth is_pair_def MKCL_LISTP_def)
  note a = assoc_first [OF r(2) this, of item]
  show ?thesis
    using r(1) a find_pairs [OF r(3), of item]
    by (auto simp: mk_cl_pairlis_def split: option.splits intro!: exI [of _ "h @ cs"])
qed

end
