(* ===== verification/Hashing.thy ===== *)
theory Hashing
  imports Predicates
begin

text \<open>
  The hash functions: \<^verbatim>\<open>src/src/c/newhash.h\<close> (64-bit version) and the first part of
  \<^verbatim>\<open>src/src/c/hash.c\<close>. All arithmetic is on 64-bit words. \<open>loc\<close> gives the address of a
  heap cell, which the hash of an object without a value of its own depends on.
  \<open>_hash_equal\<close> follows the components of pathnames without a bound and is a partial
  function; \<open>_hash_equalp\<close> is not modelled (it reads general arrays).
\<close>

section \<open>Mixing\<close>

definition GOLDEN_RATIO :: mkcl_index where
  "GOLDEN_RATIO = 0x9e3779b97f4a7c13"

type_synonym mix_state = "mkcl_index \<times> mkcl_index \<times> mkcl_index"

text \<open>One line of the macro \<open>mix\<close> is \<open>mix_a\<close>, then \<open>mix_b\<close>, then \<open>mix_c\<close>.\<close>

fun mix_a :: "nat \<Rightarrow> mix_state \<Rightarrow> mix_state" where
  "mix_a n (a, b, c) = ((a - b - c) XOR drop_bit n c, b, c)"

fun mix_b :: "nat \<Rightarrow> mix_state \<Rightarrow> mix_state" where
  "mix_b n (a, b, c) = (a, (b - c - a) XOR push_bit n a, c)"

fun mix_c :: "nat \<Rightarrow> mix_state \<Rightarrow> mix_state" where
  "mix_c n (a, b, c) = (a, b, (c - a - b) XOR drop_bit n b)"

definition mix :: "mix_state \<Rightarrow> mix_state" where
  "mix abc =
     mix_c 22 (mix_b 18 (mix_a 12
    (mix_c 11 (mix_b 49 (mix_a 35
    (mix_c 5 (mix_b 23 (mix_a 38
    (mix_c 8 (mix_b 9 (mix_a 43 abc)))))))))))"

definition mix_result :: "mix_state \<Rightarrow> mkcl_hash_value" where
  "mix_result abc = (case mix abc of (a, b, c) \<Rightarrow> c)"

definition hash_word :: "mkcl_hash_value \<Rightarrow> mkcl_index \<Rightarrow> mkcl_hash_value" where
  "hash_word c w = mix_result (w + GOLDEN_RATIO, GOLDEN_RATIO, c)"

text \<open>
  Eight bytes as a word. The code shifts the last one by 52, not by 56, so it overlaps the
  byte before it.
\<close>

definition byte_shifts :: "nat list" where
  "byte_shifts = [0, 8, 16, 24, 32, 40, 48, 52]"

definition add_bytes :: "nat list \<Rightarrow> 8 word list \<Rightarrow> mkcl_index" where
  "add_bytes shifts k = sum_list (map2 (\<lambda>s b. push_bit s (ucast b)) shifts k)"

definition extract_word :: "8 word list \<Rightarrow> mkcl_index" where
  "extract_word k = add_bytes byte_shifts k"

fun mem_region_loop ::
  "mix_state \<Rightarrow> 8 word list \<Rightarrow> mix_state \<times> 8 word list" where
  "mem_region_loop (a, b, c) k =
     (if 24 \<le> length k
      then mem_region_loop
             (mix (a + extract_word k, b + extract_word (drop 8 k), c + extract_word (drop 16 k)))
             (drop 24 k)
      else ((a, b, c), k))"

declare mem_region_loop.simps [simp del]

text \<open>The fall-through \<open>switch\<close> adds every byte that is left; the first byte of \<open>c\<close> holds the length.\<close>

definition hash_mem_region :: "mkcl_hash_value \<Rightarrow> 8 word list \<Rightarrow> mkcl_hash_value" where
  "hash_mem_region initval k =
     (let ((a, b, c), rest) = mem_region_loop (GOLDEN_RATIO, GOLDEN_RATIO, initval) k;
          c = c + word_of_nat (length k)
      in mix_result (a + add_bytes byte_shifts rest,
                     b + add_bytes byte_shifts (drop 8 rest),
                     c + add_bytes (tl byte_shifts) (drop 16 rest)))"

section \<open>Strings\<close>

text \<open>
  \<open>HASH_XXXX_STRING_BODY\<close>, which \<open>mkcl_hash_base_string\<close> and \<open>mkcl_hash_full_string\<close>
  instantiate at 8-bit and 32-bit characters: the same function of the code points.
\<close>

fun hash_string_loop :: "nat \<Rightarrow> mix_state \<Rightarrow> lstring \<Rightarrow> mkcl_hash_value" where
  "hash_string_loop len (a, b, h) (x # y # z # s) =
     hash_string_loop len (mix (a + word_of_nat x, b + word_of_nat y, h + word_of_nat z)) s"
| "hash_string_loop len (a, b, h) [x, y] =
     mix_result (a + word_of_nat x, b + word_of_nat y, h + word_of_nat len)"
| "hash_string_loop len (a, b, h) [x] = mix_result (a, b + word_of_nat x, h + word_of_nat len)"
| "hash_string_loop len (a, b, h) [] = mix_result (a, b, h + word_of_nat len)"

definition mkcl_hash_string :: "lstring \<Rightarrow> mkcl_hash_value \<Rightarrow> mkcl_hash_value" where
  "mkcl_hash_string s h = hash_string_loop (length s) (GOLDEN_RATIO, GOLDEN_RATIO, h) s"

section \<open>Objects\<close>

definition hash_eq :: "(addr \<Rightarrow> mkcl_index) \<Rightarrow> obj \<Rightarrow> mkcl_hash_value" where
  "hash_eq loc x = drop_bit 2 (obj_word loc x)"

text \<open>The limbs of a bignum in memory: the magnitude, little end first, in whole 8-byte limbs.\<close>

function limb_count :: "nat \<Rightarrow> nat" where
  "limb_count n = (if n = 0 then 0 else Suc (limb_count (n div 2 ^ 64)))"
  by pat_completeness auto
termination by (relation "measure id") auto

declare limb_count.simps [simp del]

definition le_bytes :: "nat \<Rightarrow> nat \<Rightarrow> 8 word list" where
  "le_bytes k n = map (\<lambda>i. word_of_nat (n div 256 ^ i)) [0..<k]"

definition big_limb_bytes :: "int \<Rightarrow> 8 word list" where
  "big_limb_bytes n = le_bytes (8 * limb_count (nat (abs n))) (nat (abs n))"

fun hash_eql_num :: "mkcl_hash_value \<Rightarrow> num \<Rightarrow> mkcl_hash_value" where
  "hash_eql_num h (NFix n) = hash_word h (drop_bit 2 (MKCL_MAKE_FIXNUM (word_of_int n)))"
| "hash_eql_num h (NBig n) = hash_mem_region h (big_limb_bytes n)"
| "hash_eql_num h (NRatio n d) = hash_eql_num (hash_eql_num h n) d"
| "hash_eql_num h (NSingle f) = hash_mem_region h (le_bytes 4 (unat f))"
| "hash_eql_num h (NDouble f) = hash_mem_region h (le_bytes 8 (unat f))"
| "hash_eql_num h (NComplex r i) = hash_eql_num (hash_eql_num h r) i"

definition hash_eql_from :: "(addr \<Rightarrow> mkcl_index) \<Rightarrow> heap \<Rightarrow> mkcl_hash_value \<Rightarrow> obj \<Rightarrow> mkcl_hash_value" where
  "hash_eql_from loc hp h x =
     (case boxed_number hp x of
        Some n \<Rightarrow> hash_eql_num h n
      | None \<Rightarrow> (case x of
            Character c \<Rightarrow> hash_word h (word_of_nat c)
          | _ \<Rightarrow> hash_word h (drop_bit 2 (obj_word loc x))))"

definition hash_eql :: "(addr \<Rightarrow> mkcl_index) \<Rightarrow> heap \<Rightarrow> obj \<Rightarrow> mkcl_hash_value" where
  "hash_eql loc hp x = hash_eql_from loc hp 0 x"

text \<open>The whole bytes of the data of a bit vector, the first bit in the low bit of a byte (as built where bits are numbered from the low end).\<close>

definition bits_byte :: "bool list \<Rightarrow> 8 word" where
  "bits_byte bs = horner_sum of_bool 2 bs"

definition bitvector_bytes :: "bitvector \<Rightarrow> 8 word list" where
  "bitvector_bytes v = map (\<lambda>i. bits_byte (take 8 (drop (8 * i) (bit_self v)))) [0..<bit_fillp v div 8]"

text \<open>
  \<open>_hash_equal\<close>. The name of a symbol is a string, whose hash it is. \<open>MKCL_SIGNED_ZERO\<close>
  gives floats and complexes their own cases, which compute what \<open>_hash_eql\<close> does. The case
  of a symbol tests for \<open>NIL\<close>, but \<open>mkcl_type_of\<close> of \<open>NIL\<close> is \<open>mkcl_t_null\<close>: \<open>NIL\<close> takes
  the default.
\<close>

partial_function (option) hash_equal_from ::
  "(addr \<Rightarrow> mkcl_index) \<Rightarrow> heap \<Rightarrow> int \<Rightarrow> mkcl_hash_value \<Rightarrow> obj \<Rightarrow> mkcl_hash_value option" where
  "hash_equal_from loc hp depth h x =
     (case cell_at hp x of
        Some (ConsC u v) \<Rightarrow>
          if depth - 1 = 0 then Some h
          else Option.bind (hash_equal_from loc hp (depth - 1) h u)
                 (\<lambda>h1. hash_equal_from loc hp (depth - 1) h1 v)
      | Some (SymC s) \<Rightarrow> Some (mkcl_hash_string (sym_name s) h)
      | Some (BaseStrC s) \<Rightarrow> Some (mkcl_hash_string s h)
      | Some (StrC s) \<Rightarrow> Some (mkcl_hash_string s h)
      | Some (PathC p) \<Rightarrow>
          Option.bind (hash_equal_from loc hp 2 h (path_directory p)) (\<lambda>h1.
          Option.bind (hash_equal_from loc hp 2 h1 (path_name p)) (\<lambda>h2.
          Option.bind (hash_equal_from loc hp 2 h2 (path_type p)) (\<lambda>h3.
          Option.bind (hash_equal_from loc hp 2 h3 (path_host p)) (\<lambda>h4.
          Option.bind (hash_equal_from loc hp 2 h4 (path_device p)) (\<lambda>h5.
          hash_equal_from loc hp 2 h5 (path_version p))))))
      | Some (BitVecC v) \<Rightarrow> Some (hash_mem_region h (bitvector_bytes v))
      | Some (RandomC r) \<Rightarrow> hash_equal_from loc hp 1 h r
      | _ \<Rightarrow> Some (hash_eql_from loc hp h x))"

definition hash_equal :: "(addr \<Rightarrow> mkcl_index) \<Rightarrow> heap \<Rightarrow> obj \<Rightarrow> mkcl_hash_value option" where
  "hash_equal loc hp x = hash_equal_from loc hp 3 0 x"

text \<open>\<open>mkcl_hash_equal_package\<close> on the name it is given; the keys of package tables are strings.\<close>

definition mkcl_hash_equal_package :: "lstring \<Rightarrow> mkcl_hash_value" where
  "mkcl_hash_equal_package name = mkcl_hash_string name 0"

text \<open>A hash value as a fixnum object: \<open>MKCL_MAKE_FIXNUM\<close> drops the two high bits.\<close>

definition hash_fixnum :: "mkcl_hash_value \<Rightarrow> obj" where
  "hash_fixnum h = Fixnum (sint (mkcl_fixnum_to_word (MKCL_MAKE_FIXNUM h)))"

definition mk_cl_sxhash :: "(addr \<Rightarrow> mkcl_index) \<Rightarrow> heap \<Rightarrow> obj \<Rightarrow> obj option" where
  "mk_cl_sxhash loc hp key =
     map_option (\<lambda>output. hash_fixnum (output AND (push_bit 61 1 - 1))) (hash_equal loc hp key)"

definition mk_si_hash_eql :: "(addr \<Rightarrow> mkcl_index) \<Rightarrow> heap \<Rightarrow> obj list \<Rightarrow> obj" where
  "mk_si_hash_eql loc hp args = hash_fixnum (foldl (hash_eql_from loc hp) 0 args)"

fun hash_equal_args :: "(addr \<Rightarrow> mkcl_index) \<Rightarrow> heap \<Rightarrow> mkcl_hash_value \<Rightarrow> obj list \<Rightarrow> mkcl_hash_value option" where
  "hash_equal_args loc hp h [] = Some h"
| "hash_equal_args loc hp h (x # args) =
     Option.bind (hash_equal_from loc hp 3 h x) (\<lambda>h1. hash_equal_args loc hp h1 args)"

definition mk_si_hash_equal :: "(addr \<Rightarrow> mkcl_index) \<Rightarrow> heap \<Rightarrow> obj list \<Rightarrow> obj option" where
  "mk_si_hash_equal loc hp args = map_option hash_fixnum (hash_equal_args loc hp 0 args)"

section \<open>Hashing respects equality\<close>

lemma eql_unboxable_imp_eq:
  assumes "num_type m = num_type n" and "mkcl_eql_unboxable_numbers m n (num_type m)"
  shows "m = n"
  using assms
  by (cases m; cases n)
    (auto simp: mkcl_eql_unboxable_numbers_def eql_component_iff FLOAT_EQL_single_iff FLOAT_EQL_double_iff)

lemma mkcl_eql_imp:
  "mkcl_eql hp x y \<Longrightarrow> x = y \<or> (\<exists>n. boxed_number hp x = Some n \<and> boxed_number hp y = Some n)"
  by (auto simp: mkcl_eql_def dest: eql_unboxable_imp_eq split: if_splits option.splits)

lemma hash_eql_respects: "mkcl_eql hp x y \<Longrightarrow> hash_eql_from loc hp h x = hash_eql_from loc hp h y"
  by (drule mkcl_eql_imp) (auto simp: hash_eql_from_def)

lemma mkcl_eql_equivp: "equivp (mkcl_eql hp)"
proof (rule equivpI)
  show "reflp (mkcl_eql hp)" by (simp add: reflp_def mkcl_eql_def)
  show "symp (mkcl_eql hp)"
  proof (rule sympI)
    fix x y assume "mkcl_eql hp x y"
    then show "mkcl_eql hp y x"
      using mkcl_eql_imp [of hp x y] by (auto simp: mkcl_eql_def split: if_splits option.splits)
  qed
  show "transp (mkcl_eql hp)"
  proof (rule transpI)
    fix x y z assume "mkcl_eql hp x y" "mkcl_eql hp y z"
    then show "mkcl_eql hp x z"
      using mkcl_eql_imp [of hp x y] mkcl_eql_imp [of hp y z]
      by (auto simp: mkcl_eql_def split: if_splits option.splits)
  qed
qed

text \<open>
  The objects on which \<open>_hash_equal\<close> agrees with \<open>equal\<close>: bit vectors must start at the first
  bit of their data, and there must be no foreign pointer, which \<open>equal\<close> compares by content
  and \<open>_hash_equal\<close> hashes by address.
\<close>

definition equal_hashable :: "heap \<Rightarrow> bool" where
  "equal_hashable hp \<longleftrightarrow> list_all (\<lambda>c. case c of
       BitVecC v \<Rightarrow> bit_offset v = 0 \<and> bit_fillp v \<le> length (bit_self v)
     | ForeignC f \<Rightarrow> False
     | _ \<Rightarrow> True) hp"

lemma bitvector_bytes_equal:
  assumes "bitvector_equal v w" and "bit_offset v = 0" and "bit_offset w = 0"
    and "bit_fillp v \<le> length (bit_self v)" and "bit_fillp w \<le> length (bit_self w)"
  shows "bitvector_bytes v = bitvector_bytes w"
proof -
  have len: "bit_fillp w = bit_fillp v" using assms(1) by (simp add: bitvector_equal_def split: if_splits)
  have bits: "bit_self v ! i = bit_self w ! i" if "i < bit_fillp v" for i
    using assms(1-3) that by (auto simp: bitvector_equal_def list_all_iff split: if_splits)
  have "take 8 (drop (8 * i) (bit_self v)) = take 8 (drop (8 * i) (bit_self w))"
    if "i < bit_fillp v div 8" for i
    using that assms(4,5) len bits by (intro nth_equalityI) auto
  then show ?thesis using len by (simp add: bitvector_bytes_def)
qed

lemma equal_hashable_cell:
  assumes "equal_hashable hp" and "cell_at hp x = Some c"
  shows "(case c of BitVecC v \<Rightarrow> bit_offset v = 0 \<and> bit_fillp v \<le> length (bit_self v)
     | ForeignC f \<Rightarrow> False | _ \<Rightarrow> True)"
  using assms by (cases x) (auto simp: equal_hashable_def list_all_length split: if_splits)

text \<open>
  One unfolding of \<open>mkcl_equal\<close> when it answers yes: the same object, or two cells of
  the same kind whose parts are related by \<open>R\<close>.
\<close>

definition equal_cells :: "(obj \<Rightarrow> obj \<Rightarrow> bool) \<Rightarrow> cell \<Rightarrow> cell \<Rightarrow> bool" where
  "equal_cells R c c' \<longleftrightarrow> (case (c, c') of
       (ConsC u v, ConsC u' v') \<Rightarrow> R u u' \<and> R v v'
     | (NumC m, NumC n) \<Rightarrow> m = n
     | (BaseStrC s, BaseStrC t) \<Rightarrow> s = t | (BaseStrC s, StrC t) \<Rightarrow> s = t
     | (StrC s, BaseStrC t) \<Rightarrow> s = t | (StrC s, StrC t) \<Rightarrow> s = t
     | (BitVecC v, BitVecC w) \<Rightarrow> bitvector_equal v w
     | (PathC p, PathC q) \<Rightarrow> logical p = logical q \<and> R (path_host p) (path_host q)
         \<and> R (path_device p) (path_device q) \<and> R (path_directory p) (path_directory q)
         \<and> R (path_name p) (path_name q) \<and> R (path_type p) (path_type q)
         \<and> R (path_version p) (path_version q)
     | (ForeignC f, ForeignC g) \<Rightarrow> foreign_data f = foreign_data g \<and> foreign_size f = foreign_size g
         \<and> R (foreign_tag f) (foreign_tag g)
     | _ \<Rightarrow> False)"

lemma mkcl_equal_induct:
  assumes "mkcl_equal hp x y = Some True"
    and step: "\<And>x y. x = y \<or> (\<exists>c c'. cell_at hp x = Some c \<and> cell_at hp y = Some c' \<and> equal_cells R c c') \<Longrightarrow> R x y"
  shows "R x y"
proof -
  let ?P = "\<lambda>h x y b. h = hp \<longrightarrow> b \<longrightarrow> R x y"
  have "(case ((hp, x), y) of (z, y) \<Rightarrow> (case z of (h, x) \<Rightarrow> ?P h x) y) True"
  proof (rule mkcl_equal.raw_induct [of ?P "((hp, x), y)" True], goal_cases)
    case (1 rec h x y b)
    then show ?case
    proof (intro impI step)
      assume h: "h = hp" and b
      show "x = y \<or> (\<exists>c c'. cell_at hp x = Some c \<and> cell_at hp y = Some c' \<and> equal_cells R c c')"
      proof (cases "x = y")
        case False
        then obtain a where x: "x = Ref a" using 1(2) \<open>b\<close> by (cases x; cases y; simp)
        then obtain c where c: "cell_at hp x = Some c" using 1(2) \<open>b\<close> h False by (cases "a < length hp") simp_all
        obtain c' where c': "cell_at hp y = Some c'"
          using 1(2) \<open>b\<close> h False x c by (cases "cell_at hp y"; cases c) simp_all
        have "equal_cells R c c'"
          using 1(2) \<open>b\<close> h False x c c' 1(1) [of hp _ _ True] eql_unboxable_imp_eq
          by (cases c; cases c') (auto simp: equal_cells_def bind_eq_Some_conv split: if_splits)
        then show ?thesis using c c' by blast
      qed simp
    qed
  next
    case 2
    then show ?case using assms(1) by simp
  qed
  then show ?thesis by simp
qed

lemma hash_equal_cells:
  assumes "equal_hashable hp" and "cell_at hp x = Some c" and "cell_at hp y = Some c'"
    and "equal_cells (\<lambda>x y. \<forall>d v. hash_equal_from loc hp d v x = hash_equal_from loc hp d v y) c c'"
  shows "hash_equal_from loc hp d v x = hash_equal_from loc hp d v y"
  using assms(2-4) equal_hashable_cell [OF assms(1,2)] equal_hashable_cell [OF assms(1,3)]
    bitvector_bytes_equal
  apply (subst (1 2) hash_equal_from.simps)
  apply (cases c; cases c'; simp add: equal_cells_def hash_eql_from_def boxed_number_def)
  done

lemma hash_equal_respects:
  assumes "equal_hashable hp" and "mkcl_equal hp x y = Some True"
  shows "\<forall>d v. hash_equal_from loc hp d v x = hash_equal_from loc hp d v y"
  by (rule mkcl_equal_induct [OF assms(2)]) (use hash_equal_cells [OF assms(1)] in blast)

lemma sxhash_fixnum:
  assumes "mk_cl_sxhash loc hp x = Some r"
  shows "\<exists>n. r = Fixnum n \<and> 0 \<le> n \<and> n < 2 ^ 61"
proof -
  obtain v where r: "r = hash_fixnum (v AND (push_bit 61 1 - 1))"
    using assms by (auto simp: mk_cl_sxhash_def)
  have m: "(push_bit 61 1 - 1 :: 64 word) = mask 61" by (simp add: mask_eq_exp_minus_1 push_bit_eq_mult)
  define n where "n = uint (v AND mask 61 :: 64 word)"
  have "n = take_bit 61 (uint v)"
    unfolding n_def by (simp add: take_bit_eq_mask [symmetric] unsigned_take_bit_eq)
  then have n: "0 \<le> n" "n < 2 ^ 61"
    using take_bit_int_less_exp [of 61 "uint v"] by simp_all
  then have "fixnum_range n" by (simp add: fixnum_range_def MOST_POSITIVE_FIXNUM_def MOST_NEGATIVE_FIXNUM_def)
  from fixnum_round_trip [OF this] have "r = Fixnum n"
    unfolding r m hash_fixnum_def n_def by simp
  with n show ?thesis by blast
qed

text \<open>Two foreign pointers that are \<open>equal\<close> hash apart.\<close>

definition foreign_example :: heap where
  "foreign_example = [ForeignC \<lparr>foreign_data = 64, foreign_size = 8, foreign_tag = Cnil\<rparr>,
                      ForeignC \<lparr>foreign_data = 64, foreign_size = 8, foreign_tag = Cnil\<rparr>]"

lemma foreign_equal: "mkcl_equal foreign_example (Ref 0) (Ref 1) = Some True"
  by (subst mkcl_equal.simps, simp add: foreign_example_def, subst mkcl_equal.simps, simp)

lemma foreign_hash:
  "hash_equal loc foreign_example (Ref 0) = Some (hash_word 0 (drop_bit 2 (loc 0)))"
  "hash_equal loc foreign_example (Ref 1) = Some (hash_word 0 (drop_bit 2 (loc 1)))"
  by (simp_all add: hash_equal_def hash_equal_from.simps foreign_example_def hash_eql_from_def
      boxed_number_def)

lemma foreign_hash_differs:
  "hash_equal (\<lambda>a. if a = 0 then 64 else 128) foreign_example (Ref 0) \<noteq>
   hash_equal (\<lambda>a. if a = 0 then 64 else 128) foreign_example (Ref 1)"
proof -
  have "hash_word 0 16 \<noteq> hash_word 0 32" by code_simp
  then show ?thesis unfolding foreign_hash by (simp add: drop_bit_eq_div)
qed

end
