(* ===== verification/Hash_Table.thy ===== *)
theory Hash_Table
  imports Prelude
begin

text \<open>
  The hash tables of \<^verbatim>\<open>src/src/c/hash.c\<close>. A table is a vector of chains of entries; it
  carries its hash function and its equality as function pointers. Both may fail to return
  (\<open>equal\<close> on circular keys), and the remainder by the size of an empty vector traps: an
  operation whose value is \<open>None\<close> has no result for one of these reasons.

  A chain is the list of its entries, so an entry is identified by its place. Entries on the
  free list have been cleared; \<open>free_bucket\<close> is their number. Indices are natural numbers
  with the products of \<open>add_new_to_hash\<close> reduced modulo \<open>2 ^ 64\<close>. The counters of
  \<open>HASHTABLE_STATS\<close> are compiled out.
\<close>

section \<open>Data\<close>

datatype mkcl_httest = htt_eq | htt_eql | htt_equal | htt_equalp | htt_package

record ('k, 'v) hashtable_entry =
  e_key :: 'k
  e_hashed_key :: mkcl_hash_value
  e_value :: 'v

text \<open>
  The real numbers a table is made with: \<open>LFloat p m e\<close> is \<open>m * 2 ^ e\<close> in a format with a
  significand of \<open>p\<close> bits (24 or 53). The range of the exponent is not modelled.
\<close>

datatype lisp_real = LFix int | LBig int | LRatio int int | LFloat nat int int

record ('k, 'v) hashtable =
  htest :: mkcl_httest
  hash_fun :: "'k \<Rightarrow> mkcl_hash_value option"
  equality_fun :: "'k \<Rightarrow> 'k \<Rightarrow> bool option"
  data :: "('k, 'v) hashtable_entry list list"
  entries :: nat
  hsize :: nat
  rehash_size :: lisp_real
  threshold :: lisp_real
  factor_of_16th :: nat
  free_bucket :: nat

section \<open>Searching\<close>

text \<open>The place in the chain of the first entry whose key is equal to the given one.\<close>

fun search_chain ::
  "('k \<Rightarrow> 'k \<Rightarrow> bool option) \<Rightarrow> 'k \<Rightarrow> ('k, 'v) hashtable_entry list \<Rightarrow> nat option option" where
  "search_chain eqf key [] = Some None"
| "search_chain eqf key (e # es) =
     Option.bind (eqf key (e_key e)) (\<lambda>b.
       if b then Some (Some 0) else map_option (map_option Suc) (search_chain eqf key es))"

definition bucket :: "mkcl_hash_value \<Rightarrow> nat \<Rightarrow> nat" where
  "bucket h n = unat h mod n"

definition search_hash_at ::
  "mkcl_hash_value \<Rightarrow> 'k \<Rightarrow> ('k, 'v) hashtable \<Rightarrow> nat option option" where
  "search_hash_at hashed_key key t =
     (if hsize t = 0 then None
      else search_chain (equality_fun t) key (data t ! bucket hashed_key (hsize t)))"

definition mkcl_package_gethash :: "'k \<Rightarrow> ('k, 'v) hashtable \<Rightarrow> mkcl_hash_value \<Rightarrow> 'v option option" where
  "mkcl_package_gethash name t hashed_name =
     map_option (map_option (\<lambda>i. e_value (data t ! bucket hashed_name (hsize t) ! i)))
       (search_hash_at hashed_name name t)"

definition mkcl_search_hash :: "'k \<Rightarrow> ('k, 'v) hashtable \<Rightarrow> ('k, 'v) hashtable_entry option option" where
  "mkcl_search_hash key t =
     Option.bind (hash_fun t key) (\<lambda>h.
       map_option (map_option (\<lambda>i. data t ! bucket h (hsize t) ! i)) (search_hash_at h key t))"

definition mkcl_gethash_safe :: "'k \<Rightarrow> ('k, 'v) hashtable \<Rightarrow> 'v \<Rightarrow> 'v option" where
  "mkcl_gethash_safe key t def =
     map_option (\<lambda>e. case e of Some e \<Rightarrow> e_value e | None \<Rightarrow> def) (mkcl_search_hash key t)"

text \<open>\<open>gethash\<close> returns the value and whether it was found.\<close>

definition mk_cl_gethash :: "'k \<Rightarrow> ('k, 'v) hashtable \<Rightarrow> 'v \<Rightarrow> ('v \<times> bool) option" where
  "mk_cl_gethash key t no_value =
     map_option (\<lambda>e. case e of Some e \<Rightarrow> (e_value e, True) | None \<Rightarrow> (no_value, False))
       (mkcl_search_hash key t)"

section \<open>Growth\<close>

fun bit_len :: "nat \<Rightarrow> nat" where
  "bit_len n = (if n = 0 then 0 else Suc (bit_len (n div 2)))"

declare bit_len.simps [simp del]

text \<open>Rounding to a significand of \<open>p\<close> bits, to nearest, ties to even.\<close>

definition round_bits :: "nat \<Rightarrow> nat \<Rightarrow> nat" where
  "round_bits p x =
     (let e = bit_len x - p; q = x div 2 ^ e; r = 2 * (x mod 2 ^ e)
      in if r < 2 ^ e \<or> (r = 2 ^ e \<and> even q) then q * 2 ^ e else (q + 1) * 2 ^ e)"

text \<open>The ceiling of the float product \<open>m * 2 ^ e * n\<close>, with \<open>n\<close> first converted to a float.\<close>

definition ceiling_times :: "nat \<Rightarrow> nat \<Rightarrow> int \<Rightarrow> nat \<Rightarrow> nat" where
  "ceiling_times p m e n =
     (let x = round_bits p (m * round_bits p n)
      in if 0 \<le> e then x * 2 ^ nat e else (x + 2 ^ nat (- e) - 1) div 2 ^ nat (- e))"

text \<open>\<open>mkcl_extend_hashtable\<close> computes the new size; one that is no fixnum doubles the old.\<close>

definition new_size_object :: "lisp_real \<Rightarrow> nat \<Rightarrow> int" where
  "new_size_object r old_size =
     (case r of
        LFix n \<Rightarrow> n + int old_size
      | LFloat p m e \<Rightarrow> int (ceiling_times p (nat m) e old_size)
      | _ \<Rightarrow> int old_size)"

definition extend_new_size :: "lisp_real \<Rightarrow> nat \<Rightarrow> nat" where
  "extend_new_size r old_size =
     (if new_size_object r old_size < 2 ^ 61 then nat (new_size_object r old_size) else old_size * 2)"

definition push_entry ::
  "nat \<Rightarrow> ('k, 'v) hashtable_entry \<Rightarrow> ('k, 'v) hashtable_entry list list \<Rightarrow> ('k, 'v) hashtable_entry list list" where
  "push_entry n e d = (let i = bucket (e_hashed_key e) n in d[i := e # d ! i])"

definition mkcl_extend_hashtable :: "('k, 'v) hashtable \<Rightarrow> ('k, 'v) hashtable option" where
  "mkcl_extend_hashtable t =
     (let new_size = extend_new_size (rehash_size t) (hsize t)
      in if new_size = 0 \<and> concat (data t) \<noteq> [] then None
         else Some (t\<lparr>data := fold (push_entry new_size) (concat (data t)) (replicate new_size []),
                      hsize := new_size\<rparr>))"

definition must_extend :: "('k, 'v) hashtable \<Rightarrow> bool" where
  "must_extend t =
     (let i = entries t + 1
      in hsize t \<le> i
         \<or> (i < 2 ^ 60 \<and> (hsize t * factor_of_16th t) mod 2 ^ 64 \<le> i * 16))"

section \<open>Insertion\<close>

definition add_new_to_hash ::
  "mkcl_hash_value \<Rightarrow> 'k \<Rightarrow> ('k, 'v) hashtable \<Rightarrow> 'v \<Rightarrow> ('k, 'v) hashtable option" where
  "add_new_to_hash hashed_key key t value =
     Option.bind (if must_extend t then mkcl_extend_hashtable t else Some t) (\<lambda>t1.
       if hsize t1 = 0 then None
       else Some (t1\<lparr>data := push_entry (hsize t1)
                       \<lparr>e_key = key, e_hashed_key = hashed_key, e_value = value\<rparr> (data t1),
                     entries := entries t1 + 1,
                     free_bucket := free_bucket t1 - 1\<rparr>))"

definition set_value ::
  "nat \<Rightarrow> nat \<Rightarrow> 'v \<Rightarrow> ('k, 'v) hashtable_entry list list \<Rightarrow> ('k, 'v) hashtable_entry list list" where
  "set_value b i v d = d[b := (d ! b)[i := (d ! b ! i)\<lparr>e_value := v\<rparr>]]"

definition mkcl_sethash :: "'k \<Rightarrow> ('k, 'v) hashtable \<Rightarrow> 'v \<Rightarrow> ('k, 'v) hashtable option" where
  "mkcl_sethash key t value =
     Option.bind (hash_fun t key) (\<lambda>h.
     Option.bind (search_hash_at h key t) (\<lambda>found. case found of
        Some i \<Rightarrow> Some (t\<lparr>data := set_value (bucket h (hsize t)) i value (data t)\<rparr>)
      | None \<Rightarrow> add_new_to_hash h key t value))"

definition mkcl_package_sethash_new ::
  "'k \<Rightarrow> ('k, 'v) hashtable \<Rightarrow> 'v \<Rightarrow> mkcl_hash_value \<Rightarrow> ('k, 'v) hashtable option" where
  "mkcl_package_sethash_new key t value hashed_key = add_new_to_hash hashed_key key t value"

section \<open>Removal\<close>

definition mkcl_remhash :: "'k \<Rightarrow> ('k, 'v) hashtable \<Rightarrow> (bool \<times> ('k, 'v) hashtable) option" where
  "mkcl_remhash key t =
     Option.bind (hash_fun t key) (\<lambda>h.
     Option.bind (search_hash_at h key t) (\<lambda>found. case found of
        None \<Rightarrow> Some (False, t)
      | Some i \<Rightarrow>
          let b = bucket h (hsize t)
          in Some (True, t\<lparr>data := (data t)[b := take i (data t ! b) @ drop (Suc i) (data t ! b)],
                           entries := entries t - 1,
                           free_bucket := free_bucket t + 1\<rparr>)))"

definition do_clrhash :: "('k, 'v) hashtable \<Rightarrow> ('k, 'v) hashtable" where
  "do_clrhash t =
     t\<lparr>entries := 0, free_bucket := free_bucket t + length (concat (data t)),
       data := replicate (hsize t) []\<rparr>"

definition mk_cl_clrhash :: "('k, 'v) hashtable \<Rightarrow> ('k, 'v) hashtable" where
  "mk_cl_clrhash t = (if entries t \<noteq> 0 then do_clrhash t else t)"

section \<open>Construction\<close>

definition mkcl_make_hashtable_for_package ::
  "('k \<Rightarrow> mkcl_hash_value) \<Rightarrow> ('k \<Rightarrow> 'k \<Rightarrow> bool) \<Rightarrow> nat \<Rightarrow> ('k, 'v) hashtable" where
  "mkcl_make_hashtable_for_package hash string_E n =
     \<lparr>htest = htt_package, hash_fun = (\<lambda>k. Some (hash k)), equality_fun = (\<lambda>x y. Some (string_E x y)),
      data = replicate n [], entries = 0, hsize = n,
      rehash_size = LFloat 24 3 (- 1), threshold = LFloat 24 3 (- 2),
      factor_of_16th = 12, free_bucket = 0\<rparr>"

datatype hash_error = IllegalTest | SizeOutOfRange int | BadRehashSize lisp_real | BadThreshold lisp_real

text \<open>A real as a fraction with a positive denominator.\<close>

fun real_fraction :: "lisp_real \<Rightarrow> int \<times> int" where
  "real_fraction (LFix n) = (n, 1)"
| "real_fraction (LBig n) = (n, 1)"
| "real_fraction (LRatio n d) = (n, d)"
| "real_fraction (LFloat p m e) = (if 0 \<le> e then (m * 2 ^ nat e, 1) else (m, 2 ^ nat (- e)))"

text \<open>\<open>rehash_size\<close>: a float greater than 1, kept as a double, or a positive fixnum.\<close>

definition check_rehash_size :: "lisp_real \<Rightarrow> hash_error + lisp_real" where
  "check_rehash_size r =
     (let (n, d) = real_fraction r
      in if \<not> 0 < n then Inl (BadRehashSize r)
         else case r of
            LFloat p m e \<Rightarrow> if n \<le> d then Inl (BadRehashSize r) else Inr (LFloat 53 m e)
          | LFix k \<Rightarrow> Inr r
          | _ \<Rightarrow> Inl (BadRehashSize r))"

text \<open>Rounding of a non-negative fraction to the nearest integer, ties to even.\<close>

definition round_fraction :: "int \<Rightarrow> int \<Rightarrow> int" where
  "round_fraction n d =
     (let q = n div d; r = 2 * (n mod d)
      in if r < d \<or> (r = d \<and> even q) then q else q + 1)"

definition threshold_factor :: "lisp_real \<Rightarrow> nat" where
  "threshold_factor r =
     (let (n, d) = real_fraction r; f = nat (round_fraction (16 * n) d)
      in if f = 0 then 1 else f)"

type_synonym 'k test_functions =
  "mkcl_httest \<Rightarrow> ('k \<Rightarrow> mkcl_hash_value option) \<times> ('k \<Rightarrow> 'k \<Rightarrow> bool option)"

definition mk_cl_make_hash_table ::
  "'k test_functions \<Rightarrow> mkcl_httest option \<Rightarrow> int \<Rightarrow> lisp_real \<Rightarrow> lisp_real
     \<Rightarrow> hash_error + ('k, 'v) hashtable" where
  "mk_cl_make_hash_table fns test sz rsize thr =
     (case test of
        None \<Rightarrow> Inl IllegalTest
      | Some htt \<Rightarrow>
          if \<not> (0 \<le> sz \<and> sz < 2 ^ 61) then Inl (SizeOutOfRange sz)
          else let n = (if nat sz < 16 then 16 else nat sz)
               in case check_rehash_size rsize of
                    Inl e \<Rightarrow> Inl e
                  | Inr r \<Rightarrow>
                      let (tn, td) = real_fraction thr
                      in if tn < 0 \<or> td < tn then Inl (BadThreshold thr)
                         else Inr \<lparr>htest = htt, hash_fun = fst (fns htt), equality_fun = snd (fns htt),
                                   data = replicate n [], entries = 0, hsize = n,
                                   rehash_size = r, threshold = thr,
                                   factor_of_16th = threshold_factor thr, free_bucket = 0\<rparr>)"

section \<open>Inspection and iteration\<close>

definition mk_cl_hash_table_test :: "('k, 'v) hashtable \<Rightarrow> mkcl_httest" where
  "mk_cl_hash_table_test t = (case htest t of htt_package \<Rightarrow> htt_equal | htt \<Rightarrow> htt)"

definition mk_cl_hash_table_count :: "('k, 'v) hashtable \<Rightarrow> nat" where
  "mk_cl_hash_table_count t = entries t"

text \<open>
  The state of an iterator: what is left of the chain it is in, and the index of that chain.
  The table does not change between the steps.
\<close>

type_synonym ('k, 'v) iterator = "('k, 'v) hashtable_entry list \<times> nat"

definition mk_si_hash_table_iterator :: "('k, 'v) hashtable \<Rightarrow> ('k, 'v) iterator" where
  "mk_si_hash_table_iterator t = (hd (data t), 0)"

fun scan_buckets ::
  "('k, 'v) hashtable_entry list list \<Rightarrow> nat \<Rightarrow> ('k, 'v) hashtable_entry option \<times> ('k, 'v) iterator" where
  "scan_buckets [] i = (None, [], i)"
| "scan_buckets (c # cs) i =
     (case c of [] \<Rightarrow> scan_buckets cs (i + 1) | e # es \<Rightarrow> (Some e, es, i))"

fun mkcl_hash_table_iterate ::
  "('k, 'v) hashtable \<Rightarrow> ('k, 'v) iterator \<Rightarrow> ('k, 'v) hashtable_entry option \<times> ('k, 'v) iterator" where
  "mkcl_hash_table_iterate t (e # es, i) = (Some e, es, i)"
| "mkcl_hash_table_iterate t ([], i) =
     (let j = (if i < hsize t then i + 1 else i) in scan_buckets (drop j (data t)) j)"

fun maphash_chain :: "('k \<Rightarrow> 'v \<Rightarrow> 's \<Rightarrow> 's) \<Rightarrow> ('k, 'v) hashtable_entry list \<Rightarrow> 's \<Rightarrow> 's" where
  "maphash_chain f [] s = s"
| "maphash_chain f (e # es) s = maphash_chain f es (f (e_key e) (e_value e) s)"

fun maphash_buckets :: "('k \<Rightarrow> 'v \<Rightarrow> 's \<Rightarrow> 's) \<Rightarrow> ('k, 'v) hashtable_entry list list \<Rightarrow> 's \<Rightarrow> 's" where
  "maphash_buckets f [] s = s"
| "maphash_buckets f (c # cs) s = maphash_buckets f cs (maphash_chain f c s)"

definition mk_cl_maphash :: "('k \<Rightarrow> 'v \<Rightarrow> 's \<Rightarrow> 's) \<Rightarrow> ('k, 'v) hashtable \<Rightarrow> 's \<Rightarrow> 's" where
  "mk_cl_maphash f t s = maphash_buckets f (data t) s"

text \<open>
  \<open>copy-hash-table\<close> makes a table of the same size, but of at least 16 chains, and copies
  chain by chain.
\<close>

definition mk_si_copy_hash_table ::
  "'k test_functions \<Rightarrow> ('k, 'v) hashtable \<Rightarrow> hash_error + ('k, 'v) hashtable" where
  "mk_si_copy_hash_table fns orig =
     (case mk_cl_make_hash_table fns (Some (mk_cl_hash_table_test orig)) (int (hsize orig))
             (rehash_size orig) (threshold orig) of
        Inl e \<Rightarrow> Inl e
      | Inr t \<Rightarrow> Inr (t\<lparr>data := data orig @ drop (hsize orig) (data t), entries := entries orig\<rparr>))"

end
