(* ===== verification/Hash_Props.thy ===== *)
theory Hash_Props
  imports Hash_Table "HOL-Library.Multiset"
begin

text \<open>
  Hash tables refine finite maps on keys up to an equivalence. The invariant \<open>hash_wf\<close> says
  that every entry is in the chain its hash selects, that no two entries have equivalent keys
  and that the entry count is right. The locale \<open>hashing\<close> holds what a table needs of its hash
  function and its equality; inside it each operation is shown to keep the invariant and to
  act on the set of entries as it should. The locale \<open>key_table\<close> is the interface the clients
  of a table use; every \<open>hashing\<close> provides it.
\<close>

section \<open>Invariant\<close>

definition placed :: "nat \<Rightarrow> ('k, 'v) hashtable_entry list list \<Rightarrow> bool" where
  "placed n d \<longleftrightarrow> length d = n \<and> (\<forall>i < n. \<forall>e \<in> set (d ! i). bucket (e_hashed_key e) n = i)"

definition unique_keys ::
  "('k \<Rightarrow> mkcl_hash_value) \<Rightarrow> ('k \<Rightarrow> 'k \<Rightarrow> bool) \<Rightarrow> ('k, 'v) hashtable_entry list \<Rightarrow> bool" where
  "unique_keys hashf eqv es \<longleftrightarrow> distinct es
     \<and> (\<forall>e \<in> set es. e_hashed_key e = hashf (e_key e))
     \<and> (\<forall>e \<in> set es. \<forall>e' \<in> set es. eqv (e_key e) (e_key e') \<longrightarrow> e = e')"

definition rehash_ok :: "lisp_real \<Rightarrow> bool" where
  "rehash_ok r = (case r of LFix n \<Rightarrow> 0 < n | LFloat p m e \<Rightarrow> 0 < p \<and> 0 < m | _ \<Rightarrow> False)"

definition hash_wf ::
  "('k \<Rightarrow> mkcl_hash_value) \<Rightarrow> ('k \<Rightarrow> 'k \<Rightarrow> bool) \<Rightarrow> ('k, 'v) hashtable \<Rightarrow> bool" where
  "hash_wf hashf eqv t \<longleftrightarrow>
     hash_fun t = (\<lambda>k. Some (hashf k)) \<and> equality_fun t = (\<lambda>x y. Some (eqv x y))
     \<and> 0 < hsize t \<and> placed (hsize t) (data t) \<and> unique_keys hashf eqv (concat (data t))
     \<and> entries t = length (concat (data t)) \<and> rehash_ok (rehash_size t)"

definition table_entries :: "('k, 'v) hashtable \<Rightarrow> ('k, 'v) hashtable_entry set" where
  "table_entries t = set (concat (data t))"

definition gethash_value :: "'k \<Rightarrow> ('k, 'v) hashtable \<Rightarrow> 'v option option" where
  "gethash_value key t = map_option (map_option e_value) (mkcl_search_hash key t)"

subsection \<open>Chains\<close>

lemma bucket_less [simp]: "0 < n \<Longrightarrow> bucket h n < n"
  by (simp add: bucket_def)

lemma mset_concat_update:
  assumes "i < length d"
  shows "mset (concat (d[i := c])) + mset (d ! i) = mset (concat d) + mset c"
  using assms
proof (induction d arbitrary: i)
  case (Cons x d)
  then show ?case by (cases i) (auto simp: ac_simps)
qed simp

lemma concat_update_set:
  assumes "i < length d" and "mset c = add_mset e (mset (d ! i))"
  shows "mset (concat (d[i := c])) = add_mset e (mset (concat d))"
  using mset_concat_update [OF assms(1), of c] assms(2) by simp

lemma push_entry_mset:
  assumes "0 < n" and "length d = n"
  shows "mset (concat (push_entry n e d)) = add_mset e (mset (concat d))"
  using concat_update_set [of "bucket (e_hashed_key e) n" d "e # d ! bucket (e_hashed_key e) n" e] assms
  by (simp add: push_entry_def Let_def)

lemma push_entry_placed: "0 < n \<Longrightarrow> placed n d \<Longrightarrow> placed n (push_entry n e d)"
  by (auto simp: placed_def push_entry_def Let_def nth_list_update)

lemma fold_push_entry:
  assumes "0 < n" and "placed n d"
  shows "placed n (fold (push_entry n) es d)"
    and "mset (concat (fold (push_entry n) es d)) = mset es + mset (concat d)"
proof -
  have "placed n (fold (push_entry n) es d) \<and>
      mset (concat (fold (push_entry n) es d)) = mset es + mset (concat d)"
    using assms(2)
  proof (induction es arbitrary: d)
    case (Cons e es)
    have "placed n (push_entry n e d)" using push_entry_placed [OF assms(1) Cons.prems] .
    moreover have "mset (concat (push_entry n e d)) = add_mset e (mset (concat d))"
      by (rule push_entry_mset [OF assms(1)]) (use Cons.prems in \<open>simp add: placed_def\<close>)
    ultimately show ?case using Cons.IH [of "push_entry n e d"] by simp
  qed simp
  then show "placed n (fold (push_entry n) es d)"
    and "mset (concat (fold (push_entry n) es d)) = mset es + mset (concat d)" by auto
qed

lemma placed_replicate: "placed n (replicate n [])"
  by (simp add: placed_def)

lemma unique_keys_mset:
  assumes "mset es = mset es'"
  shows "unique_keys hashf eqv es = unique_keys hashf eqv es'"
  using mset_eq_setD [OF assms] mset_eq_imp_distinct_iff [OF assms] by (simp add: unique_keys_def)

lemma concat_in_bucket:
  "e \<in> set (concat d) \<longleftrightarrow> (\<exists>i < length d. e \<in> set (d ! i))"
  by (metis (no_types, lifting) UN_iff in_set_conv_nth set_concat)

subsection \<open>Search\<close>

lemma search_chain_total:
  "search_chain (\<lambda>x y. Some (eqv x y)) key es = Some None \<longleftrightarrow> (\<forall>e \<in> set es. \<not> eqv key (e_key e))"
  "search_chain (\<lambda>x y. Some (eqv x y)) key es = Some (Some i) \<Longrightarrow>
     i < length es \<and> eqv key (e_key (es ! i))"
  "\<exists>r. search_chain (\<lambda>x y. Some (eqv x y)) key es = Some r"
proof -
  show "search_chain (\<lambda>x y. Some (eqv x y)) key es = Some None \<longleftrightarrow> (\<forall>e \<in> set es. \<not> eqv key (e_key e))"
    by (induction es) auto
  show "search_chain (\<lambda>x y. Some (eqv x y)) key es = Some (Some i) \<Longrightarrow>
     i < length es \<and> eqv key (e_key (es ! i))"
    by (induction es arbitrary: i) (auto split: if_splits)
  show "\<exists>r. search_chain (\<lambda>x y. Some (eqv x y)) key es = Some r"
    by (induction es) auto
qed

subsection \<open>New sizes\<close>

lemma bit_len_lower:
  assumes "0 < x"
  shows "2 ^ (bit_len x - 1) \<le> x"
  using assms
proof (induction x rule: bit_len.induct)
  case (1 x)
  show ?case
  proof (cases "x div 2 = 0")
    case True
    then show ?thesis using 1(2) by (subst bit_len.simps) (simp add: bit_len.simps [of 0])
  next
    case False
    then have "2 ^ (bit_len (x div 2) - 1) \<le> x div 2" and "0 < bit_len (x div 2)"
      using 1 by (simp_all add: bit_len.simps [of "x div 2"])
    then have "2 ^ bit_len (x div 2) \<le> 2 * (x div 2)"
      by (metis Suc_pred' mult_le_mono2 power_Suc)
    then show ?thesis using 1(2) by (simp add: bit_len.simps [of x])
  qed
qed

lemma round_bits_pos:
  assumes "0 < p" and "0 < x"
  shows "0 < round_bits p x"
proof -
  have "2 ^ (bit_len x - p) \<le> (2 :: nat) ^ (bit_len x - 1)" using assms(1) by (intro power_increasing) simp_all
  then have "2 ^ (bit_len x - p) \<le> x" using bit_len_lower [OF assms(2)] by (rule order_trans)
  then have "0 < x div 2 ^ (bit_len x - p)" by (simp add: div_greater_zero_iff)
  then show ?thesis by (simp add: round_bits_def Let_def)
qed

lemma ceiling_times_pos:
  assumes "0 < p" and "0 < m" and "0 < n"
  shows "0 < ceiling_times p m e n"
proof -
  have "0 < round_bits p (m * round_bits p n)" using assms by (simp add: round_bits_pos)
  then have "2 ^ nat (- e) \<le> round_bits p (m * round_bits p n) + 2 ^ nat (- e) - 1" by linarith
  with \<open>0 < round_bits p (m * round_bits p n)\<close> show ?thesis
    by (simp add: ceiling_times_def Let_def div_greater_zero_iff)
qed

lemma extend_new_size_pos: "rehash_ok r \<Longrightarrow> 0 < n \<Longrightarrow> 0 < extend_new_size r n"
  using ceiling_times_pos
  by (auto simp: rehash_ok_def extend_new_size_def new_size_object_def split: lisp_real.splits)

section \<open>Operations of a table\<close>

locale hashing =
  fixes hashf :: "'k \<Rightarrow> mkcl_hash_value" and eqv :: "'k \<Rightarrow> 'k \<Rightarrow> bool"
  assumes eqv_equivp: "equivp eqv"
    and hash_respects: "eqv x y \<Longrightarrow> hashf x = hashf y"
begin

lemma eqv_refl [simp]: "eqv x x"
  using eqv_equivp by (auto elim: equivpE dest: reflpD)

lemma eqv_sym: "eqv x y \<Longrightarrow> eqv y x"
  using eqv_equivp by (meson equivp_symp)

lemma eqv_trans: "eqv x y \<Longrightarrow> eqv y z \<Longrightarrow> eqv x z"
  using eqv_equivp by (meson equivp_transp)

lemma entry_bucket:
  assumes "hash_wf hashf eqv t" and "e \<in> table_entries t" and "eqv k (e_key e)"
  shows "e \<in> set (data t ! bucket (hashf k) (hsize t))"
proof -
  obtain i where i: "i < hsize t" "e \<in> set (data t ! i)"
    using assms(1,2) concat_in_bucket [of e "data t"] by (auto simp: hash_wf_def placed_def table_entries_def)
  have "e_hashed_key e = hashf k"
    using assms hash_respects [OF assms(3)]
    by (simp add: hash_wf_def unique_keys_def table_entries_def del: set_concat)
  moreover have "bucket (e_hashed_key e) (hsize t) = i"
    using i assms(1) by (simp add: hash_wf_def placed_def)
  ultimately show ?thesis using i by simp
qed

lemma bucket_entry:
  assumes "hash_wf hashf eqv t" and "e \<in> set (data t ! bucket h (hsize t))"
  shows "e \<in> table_entries t"
  using assms concat_in_bucket [of e "data t"] bucket_less [of "hsize t" h]
  unfolding hash_wf_def placed_def table_entries_def by metis

lemma search_at_total:
  assumes "hash_wf hashf eqv t"
  shows "\<exists>r. search_hash_at (hashf k) k t = Some r"
    and "search_hash_at (hashf k) k t = Some None \<longleftrightarrow> (\<forall>e \<in> table_entries t. \<not> eqv k (e_key e))"
    and "search_hash_at (hashf k) k t = Some (Some i) \<Longrightarrow>
      i < length (data t ! bucket (hashf k) (hsize t))
      \<and> eqv k (e_key (data t ! bucket (hashf k) (hsize t) ! i))"
proof -
  let ?c = "data t ! bucket (hashf k) (hsize t)"
  have s: "search_hash_at (hashf k) k t = search_chain (\<lambda>x y. Some (eqv x y)) k ?c"
    using assms by (simp add: search_hash_at_def hash_wf_def)
  show "\<exists>r. search_hash_at (hashf k) k t = Some r" unfolding s by (rule search_chain_total)
  show "search_hash_at (hashf k) k t = Some None \<longleftrightarrow> (\<forall>e \<in> table_entries t. \<not> eqv k (e_key e))"
    unfolding s search_chain_total(1) using entry_bucket [OF assms] bucket_entry [OF assms] by blast
  show "search_hash_at (hashf k) k t = Some (Some i) \<Longrightarrow> i < length ?c \<and> eqv k (e_key (?c ! i))"
    unfolding s by (rule search_chain_total)
qed

lemma unique_entry:
  assumes "hash_wf hashf eqv t" and "e \<in> table_entries t" and "e' \<in> table_entries t"
    and "eqv k (e_key e)" and "eqv k (e_key e')"
  shows "e = e'"
  using assms eqv_trans [OF eqv_sym [OF assms(4)] assms(5)]
  unfolding hash_wf_def unique_keys_def table_entries_def by blast

lemma search_hash_iff:
  assumes "hash_wf hashf eqv t"
  shows "mkcl_search_hash k t = Some None \<longleftrightarrow> (\<forall>e \<in> table_entries t. \<not> eqv k (e_key e))"
    and "mkcl_search_hash k t = Some (Some e) \<longleftrightarrow> e \<in> table_entries t \<and> eqv k (e_key e)"
    and "\<exists>r. mkcl_search_hash k t = Some r"
proof -
  let ?c = "data t ! bucket (hashf k) (hsize t)"
  have s: "mkcl_search_hash k t = map_option (map_option ((!) ?c)) (search_hash_at (hashf k) k t)"
    using assms by (simp add: mkcl_search_hash_def hash_wf_def)
  note at = search_at_total [OF assms, of k]
  show none: "mkcl_search_hash k t = Some None \<longleftrightarrow> (\<forall>e \<in> table_entries t. \<not> eqv k (e_key e))"
    unfolding s at(2) [symmetric] by auto
  show total: "\<exists>r. mkcl_search_hash k t = Some r" unfolding s using at(1) by auto
  have found: "e \<in> table_entries t \<and> eqv k (e_key e)" if some: "mkcl_search_hash k t = Some (Some e)" for e
  proof -
    obtain i where "search_hash_at (hashf k) k t = Some (Some i)" "e = ?c ! i"
      using some unfolding s by auto
    then show ?thesis using at(3) [of i] bucket_entry [OF assms, of e] nth_mem [of i ?c] by metis
  qed
  show "mkcl_search_hash k t = Some (Some e) \<longleftrightarrow> e \<in> table_entries t \<and> eqv k (e_key e)"
  proof
    assume e: "e \<in> table_entries t \<and> eqv k (e_key e)"
    then have "mkcl_search_hash k t \<noteq> Some None" using none by blast
    then obtain e' where e': "mkcl_search_hash k t = Some (Some e')" using total by (metis option.exhaust)
    then show "mkcl_search_hash k t = Some (Some e)"
      using found [OF e'] e unique_entry [OF assms] by blast
  qed (rule found)
qed

subsection \<open>Growth\<close>

lemma extend_table:
  assumes "hash_wf hashf eqv t" and "0 < extend_new_size (rehash_size t) (hsize t)"
  shows "\<exists>t'. mkcl_extend_hashtable t = Some t' \<and> hash_wf hashf eqv t'
      \<and> table_entries t' = table_entries t \<and> entries t' = entries t
      \<and> hsize t' = extend_new_size (rehash_size t) (hsize t)"
proof -
  let ?n = "extend_new_size (rehash_size t) (hsize t)"
  let ?d = "fold (push_entry ?n) (concat (data t)) (replicate ?n [])"
  let ?t = "t\<lparr>data := ?d, hsize := ?n\<rparr>"
  have p: "placed ?n ?d" and m: "mset (concat ?d) = mset (concat (data t))"
    using fold_push_entry [OF assms(2) placed_replicate] by simp_all
  have "unique_keys hashf eqv (concat ?d)"
    using assms(1) unique_keys_mset [OF m] by (simp add: hash_wf_def)
  then have "hash_wf hashf eqv ?t"
    using assms p mset_eq_length [OF m] by (simp add: hash_wf_def)
  moreover have "table_entries ?t = table_entries t"
    using mset_eq_setD [OF m] by (simp add: table_entries_def)
  ultimately show ?thesis using assms(2) by (intro exI [of _ ?t]) (simp add: mkcl_extend_hashtable_def Let_def)
qed

subsection \<open>Insertion\<close>

lemma unique_keys_add:
  assumes "unique_keys hashf eqv es" and "\<forall>e \<in> set es. \<not> eqv k (e_key e)"
    and "mset es' = add_mset \<lparr>e_key = k, e_hashed_key = hashf k, e_value = v\<rparr> (mset es)"
  shows "unique_keys hashf eqv es'"
proof -
  let ?e = "\<lparr>e_key = k, e_hashed_key = hashf k, e_value = v\<rparr>"
  have "unique_keys hashf eqv (?e # es)"
    using assms(1,2) eqv_sym by (auto simp: unique_keys_def)
  moreover have "mset (?e # es) = mset es'" using assms(3) by simp
  ultimately show ?thesis using unique_keys_mset by blast
qed

lemma push_new:
  assumes "hash_wf hashf eqv t" and "\<forall>e \<in> table_entries t. \<not> eqv k (e_key e)"
  shows "hash_wf hashf eqv (t\<lparr>data := push_entry (hsize t) \<lparr>e_key = k, e_hashed_key = hashf k, e_value = v\<rparr> (data t),
              entries := entries t + 1, free_bucket := f\<rparr>)" (is "hash_wf _ _ ?t")
    and "table_entries (t\<lparr>data := push_entry (hsize t) \<lparr>e_key = k, e_hashed_key = hashf k, e_value = v\<rparr> (data t),
              entries := entries t + 1, free_bucket := f\<rparr>) =
         insert \<lparr>e_key = k, e_hashed_key = hashf k, e_value = v\<rparr> (table_entries t)"
proof -
  let ?e = "\<lparr>e_key = k, e_hashed_key = hashf k, e_value = v\<rparr>"
  have n: "0 < hsize t" and p: "placed (hsize t) (data t)" and u: "unique_keys hashf eqv (concat (data t))"
    using assms(1) by (simp_all add: hash_wf_def)
  have m: "mset (concat (data ?t)) = add_mset ?e (mset (concat (data t)))"
    using p by (simp add: placed_def push_entry_mset [OF n])
  have none: "\<forall>e \<in> set (concat (data t)). \<not> eqv k (e_key e)" using assms(2) by (simp add: table_entries_def)
  have "unique_keys hashf eqv (concat (data ?t))" by (rule unique_keys_add [OF u none m])
  then show "hash_wf hashf eqv ?t"
    using assms(1) push_entry_placed [OF n p] arg_cong [OF m, of size] by (simp add: hash_wf_def)
  show "table_entries ?t = insert ?e (table_entries t)"
    using arg_cong [OF m, of set_mset] unfolding table_entries_def by (simp only: set_mset_mset set_mset_add_mset_insert)
qed

lemma add_new_table:
  assumes "hash_wf hashf eqv t" and "\<forall>e \<in> table_entries t. \<not> eqv k (e_key e)"
  shows "\<exists>t'. add_new_to_hash (hashf k) k t v = Some t' \<and> hash_wf hashf eqv t'
      \<and> table_entries t' = insert \<lparr>e_key = k, e_hashed_key = hashf k, e_value = v\<rparr> (table_entries t)
      \<and> entries t' = entries t + 1"
proof -
  obtain t1 where t1: "(if must_extend t then mkcl_extend_hashtable t else Some t) = Some t1"
      "hash_wf hashf eqv t1" "table_entries t1 = table_entries t" "entries t1 = entries t"
  proof (cases "must_extend t")
    case True
    have "0 < extend_new_size (rehash_size t) (hsize t)"
      using assms(1) extend_new_size_pos by (simp add: hash_wf_def)
    then show ?thesis using extend_table [OF assms(1)] True that by auto
  qed (use assms(1) that in auto)
  have none: "\<forall>e \<in> table_entries t1. \<not> eqv k (e_key e)" using assms(2) t1(3) by simp
  have "hsize t1 \<noteq> 0" using t1(2) by (simp add: hash_wf_def)
  then show ?thesis
    using push_new [OF t1(2) none] t1 by (simp add: add_new_to_hash_def)
qed

lemma set_value_mset:
  assumes "b < length d" and "i < length (d ! b)"
  shows "add_mset (d ! b ! i) (mset (concat (set_value b i v d))) =
         add_mset ((d ! b ! i)\<lparr>e_value := v\<rparr>) (mset (concat d))"
proof -
  let ?c = "(d ! b)[i := (d ! b ! i)\<lparr>e_value := v\<rparr>]"
  have c: "add_mset (d ! b ! i) (mset ?c) = add_mset ((d ! b ! i)\<lparr>e_value := v\<rparr>) (mset (d ! b))"
    using assms(2) by (simp add: mset_update)
  have "mset (concat (set_value b i v d)) + mset (d ! b) = mset (concat d) + mset ?c"
    using mset_concat_update [OF assms(1)] by (simp add: set_value_def)
  then have "add_mset (d ! b ! i) (mset (concat (set_value b i v d))) + mset (d ! b) =
      mset (concat d) + add_mset (d ! b ! i) (mset ?c)" by simp
  also have "\<dots> = add_mset ((d ! b ! i)\<lparr>e_value := v\<rparr>) (mset (concat d)) + mset (d ! b)" unfolding c by simp
  finally show ?thesis by simp
qed

lemma set_value_placed:
  assumes "placed n d" and "b < n" and "i < length (d ! b)"
  shows "placed n (set_value b i v d)"
proof -
  have "\<forall>e \<in> set ((d ! b)[i := (d ! b ! i)\<lparr>e_value := v\<rparr>]). bucket (e_hashed_key e) n = b"
    using assms set_update_subset_insert [of "d ! b" i] nth_mem [OF assms(3)] by (fastforce simp: placed_def)
  then show ?thesis using assms by (auto simp: placed_def set_value_def nth_list_update)
qed

text \<open>Replacing an entry by one with the same key.\<close>

lemma unique_keys_replace:
  assumes "unique_keys hashf eqv es" and "e \<in> set es"
    and "add_mset e (mset es') = add_mset (e\<lparr>e_value := v\<rparr>) (mset es)"
  shows "unique_keys hashf eqv es'" and "set es' = insert (e\<lparr>e_value := v\<rparr>) (set es - {e})"
    and "length es' = length es"
proof -
  let ?e = "e\<lparr>e_value := v\<rparr>"
  obtain xs ys where es: "es = xs @ e # ys" using assms(2) by (meson split_list)
  have m: "mset es' = mset (xs @ ?e # ys)" using assms(3) es by simp
  have e: "e \<notin> set xs" "e \<notin> set ys" using assms(1) es by (auto simp: unique_keys_def)
  have "\<not> eqv (e_key e) (e_key x)" "\<not> eqv (e_key x) (e_key e)" if "x \<in> set xs \<union> set ys" for x
    using assms(1) es e that by (auto simp: unique_keys_def)
  then have "unique_keys hashf eqv (xs @ ?e # ys)"
    using assms(1) es unfolding unique_keys_def by fastforce
  then show "unique_keys hashf eqv es'" using unique_keys_mset [OF m] by simp
  show "set es' = insert ?e (set es - {e})" using mset_eq_setD [OF m] es e by auto
  show "length es' = length es" using mset_eq_length [OF m] es by simp
qed

lemma set_value_table:
  assumes "hash_wf hashf eqv t" and "search_hash_at (hashf k) k t = Some (Some i)"
  shows "\<exists>e. e \<in> table_entries t \<and> eqv k (e_key e)
      \<and> hash_wf hashf eqv (t\<lparr>data := set_value (bucket (hashf k) (hsize t)) i v (data t)\<rparr>)
      \<and> table_entries (t\<lparr>data := set_value (bucket (hashf k) (hsize t)) i v (data t)\<rparr>) =
          insert (e\<lparr>e_value := v\<rparr>) (table_entries t - {e})"
proof -
  let ?b = "bucket (hashf k) (hsize t)"
  let ?e = "data t ! ?b ! i" and ?d = "set_value ?b i v (data t)"
  have n: "0 < hsize t" and p: "placed (hsize t) (data t)" and u: "unique_keys hashf eqv (concat (data t))"
    using assms(1) by (simp_all add: hash_wf_def)
  have i: "i < length (data t ! ?b)" and eq: "eqv k (e_key ?e)" using search_at_total(3) [OF assms] by auto
  have b: "?b < length (data t)" using n p by (simp add: placed_def)
  have mem: "?e \<in> table_entries t" by (rule bucket_entry [OF assms(1) nth_mem [OF i]])
  then have mem': "?e \<in> set (concat (data t))" by (simp add: table_entries_def)
  note r = unique_keys_replace [OF u mem' set_value_mset [OF b i, of v]]
  have "hash_wf hashf eqv (t\<lparr>data := ?d\<rparr>)"
    using assms(1) r(1,3) set_value_placed [OF p bucket_less [OF n] i] by (simp add: hash_wf_def)
  moreover have "table_entries (t\<lparr>data := ?d\<rparr>) = insert (?e\<lparr>e_value := v\<rparr>) (table_entries t - {?e})"
    using r(2) by (simp add: table_entries_def del: set_concat)
  ultimately show ?thesis using mem eq by blast
qed

lemma gethash_value_iff:
  assumes "hash_wf hashf eqv t"
  shows "gethash_value k t = Some None \<longleftrightarrow> (\<forall>e \<in> table_entries t. \<not> eqv k (e_key e))"
    and "gethash_value k t = Some (Some v) \<longleftrightarrow> (\<exists>e \<in> table_entries t. eqv k (e_key e) \<and> e_value e = v)"
    and "\<exists>r. gethash_value k t = Some r"
  using search_hash_iff [OF assms, of k] by (auto simp: gethash_value_def)

text \<open>A value is determined by the entries: two tables that agree on the entries a key can match agree on it.\<close>

lemma gethash_value_cong:
  assumes "hash_wf hashf eqv t" and "hash_wf hashf eqv t'"
    and "\<And>e. eqv k (e_key e) \<Longrightarrow> e \<in> table_entries t' \<longleftrightarrow> e \<in> table_entries t"
  shows "gethash_value k t' = gethash_value k t"
proof (cases "gethash_value k t = Some None")
  case True
  then show ?thesis using gethash_value_iff(1) [OF assms(1)] gethash_value_iff(1) [OF assms(2)] assms(3) by metis
next
  case False
  then obtain v where v: "gethash_value k t = Some (Some v)"
    using gethash_value_iff(3) [OF assms(1), of k] by auto
  then have "gethash_value k t' = Some (Some v)"
    using gethash_value_iff(2) [OF assms(1)] gethash_value_iff(2) [OF assms(2)] assms(3) by metis
  with v show ?thesis by simp
qed

lemma sethash_table:
  assumes wf: "hash_wf hashf eqv t"
  shows "\<exists>t'. mkcl_sethash k t v = Some t' \<and> hash_wf hashf eqv t'
      \<and> (\<forall>k'. gethash_value k' t' = (if eqv k k' then Some (Some v) else gethash_value k' t))
      \<and> entries t' = entries t + (if gethash_value k t = Some None then 1 else 0)"
proof -
  have set_eq: "mkcl_sethash k t v = Option.bind (search_hash_at (hashf k) k t) (\<lambda>found. case found of
        Some i \<Rightarrow> Some (t\<lparr>data := set_value (bucket (hashf k) (hsize t)) i v (data t)\<rparr>)
      | None \<Rightarrow> add_new_to_hash (hashf k) k t v)"
    using wf by (simp add: mkcl_sethash_def hash_wf_def)
  obtain found where found: "search_hash_at (hashf k) k t = Some found"
    using search_at_total(1) [OF wf] by blast
  have vals: "gethash_value k' t' = (if eqv k k' then Some (Some v) else gethash_value k' t)"
    if t': "hash_wf hashf eqv t'" and e: "eqv k (e_key e)" and ents: "table_entries t' = insert (e\<lparr>e_value := v\<rparr>) (table_entries t - X)"
      and X: "\<And>x. x \<in> X \<Longrightarrow> eqv k (e_key x)" for t' e X k'
  proof (cases "eqv k k'")
    case True
    have "eqv k' (e_key (e\<lparr>e_value := v\<rparr>))" using eqv_trans [OF eqv_sym [OF True] e] by simp
    then have "\<exists>e' \<in> table_entries t'. eqv k' (e_key e') \<and> e_value e' = v"
      unfolding ents by (intro bexI [of _ "e\<lparr>e_value := v\<rparr>"]) simp_all
    then show ?thesis using True gethash_value_iff(2) [OF t'] by simp
  next
    case False
    then have "\<not> eqv k' x" if "eqv k x" for x using that eqv_sym eqv_trans by blast
    then show ?thesis using False X e by (auto intro!: gethash_value_cong [OF wf t'] simp: ents)
  qed
  show ?thesis
  proof (cases found)
    case None
    then have none: "\<forall>e \<in> table_entries t. \<not> eqv k (e_key e)" using found search_at_total(2) [OF wf] by simp
    obtain t' where t': "add_new_to_hash (hashf k) k t v = Some t'" "hash_wf hashf eqv t'"
        "table_entries t' = insert \<lparr>e_key = k, e_hashed_key = hashf k, e_value = v\<rparr> (table_entries t)"
        "entries t' = entries t + 1"
      using add_new_table [OF wf none] by blast
    then show ?thesis
      using set_eq found None none gethash_value_iff(1) [OF wf, of k]
        vals [OF t'(2), of "\<lparr>e_key = k, e_hashed_key = hashf k, e_value = v\<rparr>" "{}"] by simp
  next
    case (Some i)
    then obtain e where e: "e \<in> table_entries t" "eqv k (e_key e)"
        "hash_wf hashf eqv (t\<lparr>data := set_value (bucket (hashf k) (hsize t)) i v (data t)\<rparr>)"
        "table_entries (t\<lparr>data := set_value (bucket (hashf k) (hsize t)) i v (data t)\<rparr>) =
          insert (e\<lparr>e_value := v\<rparr>) (table_entries t - {e})"
      using set_value_table [OF wf] found by blast
    moreover have "gethash_value k t \<noteq> Some None" using e(1,2) gethash_value_iff(1) [OF wf] by blast
    ultimately show ?thesis
      using set_eq found Some vals [OF e(3) e(2) e(4)] by simp
  qed
qed

subsection \<open>Removal\<close>

lemma remove_nth_mset:
  assumes "i < length c"
  shows "add_mset (c ! i) (mset (take i c @ drop (Suc i) c)) = mset c"
proof -
  have "mset c = mset (take i c @ c ! i # drop (Suc i) c)" using assms by (simp add: id_take_nth_drop [symmetric])
  then show ?thesis by simp
qed

lemma remhash_table:
  assumes wf: "hash_wf hashf eqv t"
  shows "\<exists>t'. mkcl_remhash k t = Some (gethash_value k t \<noteq> Some None, t') \<and> hash_wf hashf eqv t'
      \<and> (\<forall>k'. gethash_value k' t' = (if eqv k k' then Some None else gethash_value k' t))
      \<and> entries t' + (if gethash_value k t = Some None then 0 else 1) = entries t"
proof -
  let ?b = "bucket (hashf k) (hsize t)"
  let ?c = "data t ! ?b"
  obtain found where found: "search_hash_at (hashf k) k t = Some found"
    using search_at_total(1) [OF wf] by blast
  show ?thesis
  proof (cases found)
    case None
    then have none: "gethash_value k t = Some None"
      using found search_at_total(2) [OF wf] gethash_value_iff(1) [OF wf] by simp
    have "gethash_value k' t = Some None" if "eqv k k'" for k'
      using none that gethash_value_iff(1) [OF wf] eqv_sym eqv_trans by blast
    then show ?thesis using none found None wf by (auto simp: mkcl_remhash_def hash_wf_def)
  next
    case (Some i)
    let ?c' = "take i ?c @ drop (Suc i) ?c" and ?e = "?c ! i"
    let ?t = "t\<lparr>data := (data t)[?b := ?c'], entries := entries t - 1, free_bucket := free_bucket t + 1\<rparr>"
    have n: "0 < hsize t" and p: "placed (hsize t) (data t)" and u: "unique_keys hashf eqv (concat (data t))"
      using wf by (simp_all add: hash_wf_def)
    have i: "i < length ?c" and eq: "eqv k (e_key ?e)" using search_at_total(3) [OF wf] found Some by auto
    have b: "?b < length (data t)" using n p by (simp add: placed_def)
    have "mset (concat ((data t)[?b := ?c'])) + mset ?c = mset (concat (data t)) + mset ?c'"
      by (rule mset_concat_update [OF b])
    then have m: "mset (concat (data t)) = mset (?e # concat ((data t)[?b := ?c']))"
      unfolding remove_nth_mset [OF i, symmetric] by simp
    have uc: "unique_keys hashf eqv (?e # concat ((data t)[?b := ?c']))" using u unique_keys_mset [OF m] by simp
    have ents: "table_entries t = insert ?e (table_entries ?t)" "?e \<notin> table_entries ?t"
      using mset_eq_setD [OF m] uc by (simp_all add: table_entries_def unique_keys_def del: set_concat)
    have len: "entries t = Suc (length (concat ((data t)[?b := ?c'])))"
      using wf mset_eq_length [OF m] by (simp add: hash_wf_def)
    have "placed (hsize t) ((data t)[?b := ?c'])"
      using p by (auto simp: placed_def nth_list_update dest: in_set_takeD in_set_dropD)
    then have wf': "hash_wf hashf eqv ?t"
      using wf uc len by (auto simp: hash_wf_def unique_keys_def)
    have mem: "?e \<in> table_entries t" using ents by simp
    then have some: "gethash_value k t \<noteq> Some None" using eq gethash_value_iff(1) [OF wf] by blast
    have "gethash_value k' ?t = (if eqv k k' then Some None else gethash_value k' t)" for k'
    proof (cases "eqv k k'")
      case True
      have "\<not> eqv k' (e_key e)" if e: "e \<in> table_entries ?t" for e
      proof
        assume "eqv k' (e_key e)"
        then have "eqv k (e_key e)" by (rule eqv_trans [OF True])
        then have "e = ?e" using unique_entry [OF wf _ mem _ eq] e ents(1) by blast
        then show False using e ents(2) by simp
      qed
      then show ?thesis using True gethash_value_iff(1) [OF wf'] by simp
    next
      case False
      then have "\<not> eqv k' (e_key ?e)" using eq eqv_sym eqv_trans by blast
      then have "gethash_value k' ?t = gethash_value k' t"
        by (intro gethash_value_cong [OF wf wf']) (auto simp: ents(1))
      then show ?thesis using False by simp
    qed
    moreover have "mkcl_remhash k t = Some (True, ?t)"
      using wf found Some by (simp add: mkcl_remhash_def hash_wf_def Let_def)
    ultimately show ?thesis using wf' some len by (intro exI [of _ ?t]) simp
  qed
qed

lemma empty_chains_wf:
  assumes "hash_fun t = (\<lambda>k. Some (hashf k))" and "equality_fun t = (\<lambda>x y. Some (eqv x y))"
    and "0 < hsize t" and "data t = replicate (hsize t) []" and "entries t = 0" and "rehash_ok (rehash_size t)"
  shows "hash_wf hashf eqv t" and "gethash_value k t = Some None"
proof -
  show wf: "hash_wf hashf eqv t"
    using assms placed_replicate [of "hsize t"] by (simp add: hash_wf_def unique_keys_def)
  show "gethash_value k t = Some None"
    using gethash_value_iff(1) [OF wf] assms(4) by (simp add: table_entries_def)
qed

lemma clrhash_table:
  assumes "hash_wf hashf eqv t"
  shows "hash_wf hashf eqv (mk_cl_clrhash t)" and "gethash_value k (mk_cl_clrhash t) = Some None"
    and "entries (mk_cl_clrhash t) = 0"
proof -
  have "hash_wf hashf eqv (mk_cl_clrhash t) \<and> gethash_value k (mk_cl_clrhash t) = Some None
      \<and> entries (mk_cl_clrhash t) = 0"
  proof (cases "entries t = 0")
    case True
    then have "table_entries t = {}" using assms by (simp add: hash_wf_def table_entries_def)
    then show ?thesis using assms True gethash_value_iff(1) [OF assms] by (simp add: mk_cl_clrhash_def)
  next
    case False
    then show ?thesis
      using empty_chains_wf [of "do_clrhash t"] assms
      by (simp add: mk_cl_clrhash_def do_clrhash_def hash_wf_def)
  qed
  then show "hash_wf hashf eqv (mk_cl_clrhash t)" and "gethash_value k (mk_cl_clrhash t) = Some None"
    and "entries (mk_cl_clrhash t) = 0" by auto
qed

end

section \<open>The interface of a table\<close>

text \<open>What a client of a table relies on: total operations that act as on a finite map.\<close>

datatype ('k, 'v) table_op = Put 'k 'v | Rem 'k

fun spec_op :: "('k \<Rightarrow> 'k \<Rightarrow> bool) \<Rightarrow> ('k, 'v) table_op \<Rightarrow> ('k \<Rightarrow> 'v option) \<Rightarrow> 'k \<Rightarrow> 'v option" where
  "spec_op eqv (Put k v) m = (\<lambda>k'. if eqv k k' then Some v else m k')"
| "spec_op eqv (Rem k) m = (\<lambda>k'. if eqv k k' then None else m k')"

fun run_op ::
  "('k \<Rightarrow> 't \<Rightarrow> 'v \<Rightarrow> 't option) \<Rightarrow> ('k \<Rightarrow> 't \<Rightarrow> (bool \<times> 't) option) \<Rightarrow> ('k, 'v) table_op \<Rightarrow> 't \<Rightarrow> 't option" where
  "run_op update remove (Put k v) t = update k t v"
| "run_op update remove (Rem k) t = map_option snd (remove k t)"

fun run_ops ::
  "('k \<Rightarrow> 't \<Rightarrow> 'v \<Rightarrow> 't option) \<Rightarrow> ('k \<Rightarrow> 't \<Rightarrow> (bool \<times> 't) option) \<Rightarrow> ('k, 'v) table_op list \<Rightarrow> 't \<Rightarrow> 't option" where
  "run_ops update remove [] t = Some t"
| "run_ops update remove (opn # ops) t = Option.bind (run_op update remove opn t) (run_ops update remove ops)"

locale key_table =
  fixes inv :: "'t \<Rightarrow> bool" and eqv :: "'k \<Rightarrow> 'k \<Rightarrow> bool"
    and lookup :: "'k \<Rightarrow> 't \<Rightarrow> 'v option option"
    and update :: "'k \<Rightarrow> 't \<Rightarrow> 'v \<Rightarrow> 't option"
    and remove :: "'k \<Rightarrow> 't \<Rightarrow> (bool \<times> 't) option"
    and count :: "'t \<Rightarrow> nat"
  assumes lookup_total: "inv t \<Longrightarrow> \<exists>r. lookup k t = Some r"
    and lookup_respects: "inv t \<Longrightarrow> eqv k k' \<Longrightarrow> lookup k t = lookup k' t"
    and update_law: "inv t \<Longrightarrow> \<exists>t'. update k t v = Some t' \<and> inv t'
      \<and> (\<forall>k'. lookup k' t' = (if eqv k k' then Some (Some v) else lookup k' t))
      \<and> count t' = count t + (if lookup k t = Some None then 1 else 0)"
    and remove_law: "inv t \<Longrightarrow> \<exists>t'. remove k t = Some (lookup k t \<noteq> Some None, t') \<and> inv t'
      \<and> (\<forall>k'. lookup k' t' = (if eqv k k' then Some None else lookup k' t))
      \<and> count t' + (if lookup k t = Some None then 0 else 1) = count t"
begin

lemma run_op_refines:
  assumes "inv t" and "\<forall>k. lookup k t = Some (m k)"
  shows "\<exists>t'. run_op update remove opn t = Some t' \<and> inv t' \<and> (\<forall>k. lookup k t' = Some (spec_op eqv opn m k))"
proof (cases opn)
  case (Put k v)
  then show ?thesis using update_law [OF assms(1), of k v] assms(2) by auto
next
  case (Rem k)
  then show ?thesis using remove_law [OF assms(1), of k] assms(2) by auto
qed

lemma run_ops_refines:
  assumes "inv t" and "\<forall>k. lookup k t = Some (m k)"
  shows "\<exists>t'. run_ops update remove ops t = Some t' \<and> inv t'
      \<and> (\<forall>k. lookup k t' = Some (fold (spec_op eqv) ops m k))"
  using assms
proof (induction ops arbitrary: t m)
  case (Cons opn ops)
  obtain t1 where t1: "run_op update remove opn t = Some t1" "inv t1"
      "\<forall>k. lookup k t1 = Some (spec_op eqv opn m k)"
    using run_op_refines [OF Cons.prems] by blast
  then show ?case using Cons.IH [OF t1(2,3)] by simp
qed simp

end

sublocale hashing \<subseteq> key_table "hash_wf hashf eqv" eqv gethash_value mkcl_sethash mkcl_remhash entries
proof
  fix t :: "('k, 'b) hashtable" and k k' :: 'k
  assume wf: "hash_wf hashf eqv t" and "eqv k k'"
  have "eqv k x \<longleftrightarrow> eqv k' x" for x using \<open>eqv k k'\<close> eqv_sym eqv_trans by blast
  then show "gethash_value k t = gethash_value k' t"
    using gethash_value_iff [OF wf, of k] gethash_value_iff [OF wf, of k'] by (metis option.exhaust)
qed (erule gethash_value_iff(3) sethash_table remhash_table)+

section \<open>Load\<close>

text \<open>A rehash size that makes a table larger.\<close>

definition grows :: "lisp_real \<Rightarrow> bool" where
  "grows r \<longleftrightarrow> rehash_ok r \<and> (\<forall>n > 0. n < extend_new_size r n)"

lemma round_bits_error:
  assumes "0 < p"
  shows "2 ^ p * x \<le> 2 ^ p * round_bits p x + x"
proof (cases "x = 0")
  case False
  let ?e = "bit_len x - p"
  let ?q = "x div 2 ^ ?e" and ?r = "x mod 2 ^ ?e"
  have x: "x = ?q * 2 ^ ?e + ?r" by (rule div_mult_mod_eq [symmetric])
  show ?thesis
  proof (cases "?e = 0")
    case True
    then show ?thesis by (simp add: round_bits_def Let_def)
  next
    case False
    have "2 ^ (p + ?e - 1) \<le> x" using bit_len_lower [of x] False \<open>x \<noteq> 0\<close> by simp
    then have big: "2 ^ p * 2 ^ ?e \<le> 2 * x" using False
      by (metis (no_types, lifting) add_gr_0 mult_le_mono2 not_gr_zero power_add power_eq_if zero_less_iff_neq_zero)
    show ?thesis
    proof (cases "2 * ?r \<le> 2 ^ ?e")
      case True
      have "2 ^ p * (2 * ?r) \<le> 2 * x" using big mult_le_mono2 [OF True, of "2 ^ p"] by linarith
      then have "2 ^ p * ?r \<le> x" by simp
      moreover have "?q * 2 ^ ?e \<le> round_bits p x" by (simp add: round_bits_def Let_def)
      then have "2 ^ p * (?q * 2 ^ ?e) \<le> 2 ^ p * round_bits p x" by (rule mult_le_mono2)
      ultimately show ?thesis using x by (metis add_mono distrib_left)
    next
      case False
      then have "round_bits p x = (?q + 1) * 2 ^ ?e" by (auto simp: round_bits_def Let_def)
      moreover have "?r < 2 ^ ?e" by simp
      ultimately have "x \<le> round_bits p x" using x by (metis add_le_cancel_left add_mult_distrib less_imp_le mult_1)
      then have "2 ^ p * x \<le> 2 ^ p * round_bits p x" by (rule mult_le_mono2)
      then show ?thesis by (rule trans_le_add1)
    qed
  qed
qed simp

lemma grows_fixnum: "0 < n \<Longrightarrow> grows (LFix n)"
  by (auto simp: grows_def rehash_ok_def extend_new_size_def new_size_object_def)

lemma round_bits_near:
  assumes "5 \<le> p"
  shows "31 * x \<le> 32 * round_bits p x"
proof (cases "x \<le> round_bits p x")
  case False
  define d where "d = x - round_bits p x"
  have "(2 :: nat) ^ 5 \<le> 2 ^ p" using assms by (intro power_increasing) simp_all
  then have "32 * d \<le> 2 ^ p * d" by (intro mult_le_mono1) simp
  also have "2 ^ p * d \<le> x"
  proof -
    have "2 ^ p * x \<le> 2 ^ p * round_bits p x + x" using round_bits_error assms by simp
    then show ?thesis unfolding d_def by (simp add: diff_mult_distrib2)
  qed
  finally have "32 * d \<le> x" .
  then show ?thesis using False unfolding d_def by linarith
qed simp

lemma grows_one_and_a_half:
  assumes "5 \<le> p"
  shows "grows (LFloat p 3 (- 1))"
proof -
  have "n < ceiling_times p 3 (- 1) n" if "0 < n" for n
  proof -
    have "31 * n \<le> 32 * round_bits p n" and
      "31 * (3 * round_bits p n) \<le> 32 * round_bits p (3 * round_bits p n)"
      using round_bits_near [OF assms] by blast+
    then have "2 * n + 1 \<le> round_bits p (3 * round_bits p n)" using that by linarith
    then show ?thesis by (simp add: ceiling_times_def Let_def)
  qed
  then show ?thesis
    using assms by (auto simp: grows_def rehash_ok_def extend_new_size_def new_size_object_def)
qed

text \<open>A table with fewer entries than chains keeps fewer entries than chains.\<close>

definition lightly_loaded :: "('k, 'v) hashtable \<Rightarrow> bool" where
  "lightly_loaded t \<longleftrightarrow> entries t < hsize t \<and> grows (rehash_size t)"

lemma extend_size:
  "mkcl_extend_hashtable t = Some t' \<Longrightarrow> entries t' = entries t \<and> rehash_size t' = rehash_size t
     \<and> hsize t' = extend_new_size (rehash_size t) (hsize t)"
  by (auto simp: mkcl_extend_hashtable_def Let_def split: if_splits)

lemma add_new_load:
  assumes "lightly_loaded t" and "add_new_to_hash h k t v = Some t'"
  shows "lightly_loaded t'"
proof -
  obtain t1 where t1: "(if must_extend t then mkcl_extend_hashtable t else Some t) = Some t1"
      "entries t' = entries t1 + 1" "hsize t' = hsize t1" "rehash_size t' = rehash_size t1"
    using assms(2) by (auto simp: add_new_to_hash_def bind_eq_Some_conv split: if_splits)
  show ?thesis
  proof (cases "must_extend t")
    case True
    have "0 < hsize t" using assms(1) by (simp add: lightly_loaded_def)
    then have "hsize t < extend_new_size (rehash_size t) (hsize t)"
      using assms(1) by (simp add: lightly_loaded_def grows_def)
    then show ?thesis using True t1 extend_size [of t t1] assms(1) by (simp add: lightly_loaded_def)
  next
    case False
    then show ?thesis using t1 assms(1) by (auto simp: lightly_loaded_def must_extend_def)
  qed
qed

lemma lightly_loaded_data [simp]: "lightly_loaded (t\<lparr>data := d\<rparr>) = lightly_loaded t"
  by (simp add: lightly_loaded_def)

lemma sethash_load: "lightly_loaded t \<Longrightarrow> mkcl_sethash k t v = Some t' \<Longrightarrow> lightly_loaded t'"
  by (auto simp: mkcl_sethash_def bind_eq_Some_conv split: option.splits intro: add_new_load)

lemma remhash_load: "lightly_loaded t \<Longrightarrow> mkcl_remhash k t = Some (b, t') \<Longrightarrow> lightly_loaded t'"
  by (auto simp: mkcl_remhash_def bind_eq_Some_conv lightly_loaded_def Let_def split: option.splits)

lemma run_ops_load:
  "lightly_loaded t \<Longrightarrow> run_ops mkcl_sethash mkcl_remhash ops t = Some t' \<Longrightarrow> lightly_loaded t'"
proof (induction ops arbitrary: t)
  case (Cons opn ops)
  then obtain t1 where "run_op mkcl_sethash mkcl_remhash opn t = Some t1"
      "run_ops mkcl_sethash mkcl_remhash ops t1 = Some t'" by (auto simp: bind_eq_Some_conv)
  moreover from this have "lightly_loaded t1"
    using Cons.prems(1) by (cases opn) (auto dest: sethash_load remhash_load)
  ultimately show ?case using Cons.IH by blast
qed simp

section \<open>Iteration\<close>

text \<open>What an iterator has still to visit.\<close>

fun remaining :: "('k, 'v) hashtable \<Rightarrow> ('k, 'v) iterator \<Rightarrow> ('k, 'v) hashtable_entry list" where
  "remaining t (es, i) = es @ concat (drop (Suc i) (data t))"

lemma scan_buckets_spec:
  "case scan_buckets cs i of
     (None, es, j) \<Rightarrow> concat cs = [] \<and> es = [] \<and> j = i + length cs
   | (Some e, es, j) \<Rightarrow> i \<le> j \<and> concat cs = e # es @ concat (drop (Suc j - i) cs)"
proof (induction cs i rule: scan_buckets.induct)
  case (2 c cs i)
  then show ?case
    by (cases c) (auto simp: Suc_diff_le split: prod.splits option.splits)
qed simp

lemma iterate_spec:
  assumes "length (data t) = hsize t"
  shows "case mkcl_hash_table_iterate t st of
     (None, st') \<Rightarrow> remaining t st = [] \<and> remaining t st' = []
   | (Some e, st') \<Rightarrow> remaining t st = e # remaining t st'"
proof -
  obtain es i where st: "st = (es, i)" by (cases st)
  show ?thesis
  proof (cases es)
    case Nil
    define j where "j = (if i < hsize t then i + 1 else i)"
    have drop: "drop (Suc i) (data t) = drop j (data t)" using assms by (auto simp: j_def)
    obtain r es' k where s: "scan_buckets (drop j (data t)) j = (r, es', k)" by (metis prod.exhaust)
    have it: "mkcl_hash_table_iterate t st = (r, es', k)" using st Nil s by (simp add: j_def)
    show ?thesis
      using scan_buckets_spec [of "drop j (data t)" j] s it st Nil drop
      by (cases r) auto
  qed (use st in simp)
qed

fun iterate_steps :: "nat \<Rightarrow> ('k, 'v) hashtable \<Rightarrow> ('k, 'v) iterator \<Rightarrow> ('k, 'v) hashtable_entry option list" where
  "iterate_steps 0 t st = []"
| "iterate_steps (Suc n) t st = (case mkcl_hash_table_iterate t st of (r, st') \<Rightarrow> r # iterate_steps n t st')"

lemma iterate_steps_remaining:
  assumes "length (data t) = hsize t"
  shows "iterate_steps n t st =
     map Some (take n (remaining t st)) @ replicate (n - length (remaining t st)) None"
proof (induction n arbitrary: st)
  case (Suc n)
  obtain r st' where r: "mkcl_hash_table_iterate t st = (r, st')" by (cases "mkcl_hash_table_iterate t st")
  then show ?case
    using iterate_spec [OF assms, of st] Suc [of st'] by (cases r) auto
qed simp

lemma maphash_fold:
  "mk_cl_maphash f t s = fold (\<lambda>e. f (e_key e) (e_value e)) (concat (data t)) s"
proof -
  have chain: "maphash_chain f es s = fold (\<lambda>e. f (e_key e) (e_value e)) es s" for es s
    by (induction es arbitrary: s) auto
  have "maphash_buckets f d s = fold (\<lambda>e. f (e_key e) (e_value e)) (concat d) s" for d
    by (induction d arbitrary: s) (auto simp: chain)
  then show ?thesis by (simp add: mk_cl_maphash_def)
qed

end
