(* ===== verification/Tables.thy ===== *)
theory Tables
  imports Hashing Hash_Props
begin

text \<open>
  The hash tables of the system as instances of \<open>hashing\<close>: tables on \<open>eq\<close>, tables on
  \<open>eql\<close>, and the tables of packages, whose keys are names. The functions a table gets for its
  test are those of \<open>mk_cl__make_hash_table\<close>.
\<close>

interpretation eq_table: hashing "hash_eq loc" "(=)" for loc
  by unfold_locales (auto intro: identity_equivp)

interpretation eql_table: hashing "hash_eql loc hp" "mkcl_eql hp" for loc hp
  by unfold_locales (auto simp: hash_eql_def mkcl_eql_equivp hash_eql_respects)

interpretation name_table: hashing mkcl_hash_equal_package "(=)"
  by unfold_locales (auto intro: identity_equivp)

text \<open>
  \<open>equalp\<close> and its hash function are arguments. A table for a package has its own functions;
  the test \<open>htt_package\<close> cannot be asked for.
\<close>

definition object_tests ::
  "(addr \<Rightarrow> mkcl_index) \<Rightarrow> heap \<Rightarrow> (obj \<Rightarrow> mkcl_hash_value option) \<Rightarrow> (obj \<Rightarrow> obj \<Rightarrow> bool option) \<Rightarrow> obj test_functions" where
  "object_tests loc hp hash_equalp equalp htt =
     (case htt of
        htt_eq \<Rightarrow> (\<lambda>k. Some (hash_eq loc k), \<lambda>x y. Some (x = y))
      | htt_eql \<Rightarrow> (\<lambda>k. Some (hash_eql loc hp k), \<lambda>x y. Some (mkcl_eql hp x y))
      | htt_equal \<Rightarrow> (hash_equal loc hp, mkcl_equal hp)
      | htt_equalp \<Rightarrow> (hash_equalp, equalp)
      | htt_package \<Rightarrow> (hash_equal loc hp, mkcl_equal hp))"

definition package_hashtable :: "nat \<Rightarrow> (lstring, 'v) hashtable" where
  "package_hashtable n = mkcl_make_hashtable_for_package mkcl_hash_equal_package (=) n"

lemma check_rehash_size_ok: "check_rehash_size r = Inr r' \<Longrightarrow> rehash_ok r'"
  by (cases r) (auto simp: check_rehash_size_def rehash_ok_def zero_less_mult_iff split: if_splits)

lemma make_hash_table_fields:
  assumes "mk_cl_make_hash_table fns (Some htt) sz rs th = Inr t"
  shows "hash_fun t = fst (fns htt)" and "equality_fun t = snd (fns htt)" and "0 < hsize t"
    and "data t = replicate (hsize t) []" and "entries t = 0" and "rehash_ok (rehash_size t)"
    and "hsize t = max 16 (nat sz)"
  using assms
  by (auto simp: mk_cl_make_hash_table_def Let_def dest: check_rehash_size_ok
      split: if_splits sum.splits prod.splits)

lemma make_eql_table:
  assumes "mk_cl_make_hash_table (object_tests loc hp he eqp) (Some htt_eql) sz rs th = Inr t"
  shows "hash_wf (hash_eql loc hp) (mkcl_eql hp) t" and "gethash_value k t = Some None"
  using eql_table.empty_chains_wf [of t loc hp] make_hash_table_fields [OF assms]
  by (simp_all add: object_tests_def)

lemma make_package_table:
  assumes "0 < n"
  shows "hash_wf mkcl_hash_equal_package (=) (package_hashtable n)"
    and "gethash_value k (package_hashtable n) = Some None"
  using name_table.empty_chains_wf [of "package_hashtable n"] assms
  by (simp_all add: package_hashtable_def mkcl_make_hashtable_for_package_def rehash_ok_def)

text \<open>
  A package looks its names up with a hash value it has computed, and enters a name it has
  found absent without searching again.
\<close>

lemma package_gethash:
  assumes "hash_wf mkcl_hash_equal_package (=) t"
  shows "mkcl_package_gethash name t (mkcl_hash_equal_package name) = gethash_value name t"
  using assms
  by (auto simp: mkcl_package_gethash_def gethash_value_def mkcl_search_hash_def hash_wf_def
      option.map_comp comp_def)

lemma package_sethash_new:
  assumes wf: "hash_wf mkcl_hash_equal_package (=) t" and none: "gethash_value name t = Some None"
  shows "\<exists>t'. mkcl_package_sethash_new name t v (mkcl_hash_equal_package name) = Some t'
      \<and> hash_wf mkcl_hash_equal_package (=) t'
      \<and> (\<forall>k. gethash_value k t' = (if k = name then Some (Some v) else gethash_value k t))
      \<and> entries t' = entries t + 1"
proof -
  have "search_hash_at (mkcl_hash_equal_package name) name t = Some None"
    using none name_table.search_at_total(2) [OF wf] name_table.gethash_value_iff(1) [OF wf] by blast
  then have "mkcl_sethash name t v = mkcl_package_sethash_new name t v (mkcl_hash_equal_package name)"
    using wf by (simp add: mkcl_sethash_def mkcl_package_sethash_new_def hash_wf_def)
  then show ?thesis using name_table.sethash_table [OF wf, of name v] none by auto
qed

section \<open>Copies of tables\<close>

lemma copy_table_fields:
  assumes "mk_si_copy_hash_table fns t = Inr t'"
  shows "hash_fun t' = fst (fns (mk_cl_hash_table_test t))"
    and "equality_fun t' = snd (fns (mk_cl_hash_table_test t))"
    and "hsize t' = max 16 (hsize t)" and "entries t' = entries t" and "rehash_ok (rehash_size t')"
    and "data t' = data t @ replicate (max 16 (hsize t) - hsize t) []"
proof -
  obtain t0 where t0: "mk_cl_make_hash_table fns (Some (mk_cl_hash_table_test t)) (int (hsize t))
             (rehash_size t) (threshold t) = Inr t0"
      and t': "t' = t0\<lparr>data := data t @ drop (hsize t) (data t0), entries := entries t\<rparr>"
    using assms by (auto simp: mk_si_copy_hash_table_def split: sum.splits)
  show "hash_fun t' = fst (fns (mk_cl_hash_table_test t))"
    and "equality_fun t' = snd (fns (mk_cl_hash_table_test t))"
    and "hsize t' = max 16 (hsize t)" and "entries t' = entries t" and "rehash_ok (rehash_size t')"
    and "data t' = data t @ replicate (max 16 (hsize t) - hsize t) []"
    using make_hash_table_fields [OF t0] t' by simp_all
qed

lemma copy_table_same:
  assumes "hash_wf hashf eqv t" and "16 \<le> hsize t" and "mk_si_copy_hash_table fns t = Inr t'"
    and "fns (mk_cl_hash_table_test t) = (hash_fun t, equality_fun t)"
  shows "hash_wf hashf eqv t'" and "gethash_value k t' = gethash_value k t"
proof -
  have f: "hash_fun t' = hash_fun t" "equality_fun t' = equality_fun t" "hsize t' = hsize t"
      "data t' = data t" "entries t' = entries t" "rehash_ok (rehash_size t')"
    using copy_table_fields [OF assms(3)] assms(2,4) by simp_all
  then show "hash_wf hashf eqv t'" using assms(1) by (simp add: hash_wf_def)
  show "gethash_value k t' = gethash_value k t"
    using f by (simp add: gethash_value_def mkcl_search_hash_def search_hash_at_def cong: if_cong)
qed

text \<open>
  A table with fewer than 16 chains is copied into one with 16, chain by chain: its entries
  are no longer where their hashes look for them.
\<close>

definition small_table :: "(lstring, nat) hashtable" where
  "small_table = the (mkcl_package_sethash_new [66] (package_hashtable 7) 1 (mkcl_hash_equal_package [66]))"

definition name_tests :: "lstring test_functions" where
  "name_tests htt = (\<lambda>k. Some (mkcl_hash_equal_package k), \<lambda>x y. Some (x = y))"

lemma hash_B: "mkcl_hash_equal_package [66] = 16192432246662823156"
  by code_simp

lemma seven_chains:
  "replicate 7 x = [x, x, x, x, x, x, x]" "replicate 9 x = [x, x, x, x, x, x, x, x, x]"
  "[a, b, c, d, e, f, g][5 := x] = [a, b, c, d, e, x, g]" "[a, b, c, d, e, f, g] ! 5 = f"
  "([a, b, c, d, e, f, g] @ xs) ! 4 = e"
  by (simp_all add: numeral_eq_Suc)

lemma bucket_B: "bucket 16192432246662823156 7 = 5" "bucket 16192432246662823156 16 = 4"
  by (simp_all add: bucket_def)

lemma small_table_eq:
  "small_table = (package_hashtable 7)
     \<lparr>data := [[], [], [], [], [], [\<lparr>e_key = [66], e_hashed_key = 16192432246662823156, e_value = 1\<rparr>], []],
      entries := 1\<rparr>"
  by (simp add: small_table_def mkcl_package_sethash_new_def add_new_to_hash_def must_extend_def hash_B
      package_hashtable_def mkcl_make_hashtable_for_package_def push_entry_def bucket_B seven_chains)

lemma small_copy_loses:
  "gethash_value [66] small_table = Some (Some 1)"
  "\<exists>t. mk_si_copy_hash_table name_tests small_table = Inr t \<and> gethash_value [66] t = Some None"
proof -
  note defs = small_table_eq package_hashtable_def mkcl_make_hashtable_for_package_def
    gethash_value_def mkcl_search_hash_def search_hash_at_def hash_B bucket_B seven_chains
  show "gethash_value [66] small_table = Some (Some 1)" by (simp add: defs)
  show "\<exists>t. mk_si_copy_hash_table name_tests small_table = Inr t \<and> gethash_value [66] t = Some None"
    by (simp add: defs mk_si_copy_hash_table_def mk_cl_make_hash_table_def mk_cl_hash_table_test_def
        check_rehash_size_def name_tests_def)
qed

end
