(* ===== verification/Packages.thy ===== *)
theory Packages
  imports Tables
begin

text \<open>
  The package system of \<^verbatim>\<open>src/src/c/package.c\<close>. A package is an index into the list of
  package objects; the world holds them, the heap with the symbols, the list of registered
  packages and the two packages the code treats specially. Package designators are package
  objects or names. The locks are left out: each operation runs alone. Relative package names
  are off (\<open>si::*relative-package-names*\<close> is \<open>NIL\<close>).

  An operation returns an error or a value, and the world it leaves; \<open>None\<close> is a hash table
  that traps. A correctable error asks a handler, whose answers are a list: \<open>True\<close> takes the
  continue restart and the operation goes on, anything else leaves it.
\<close>

section \<open>State\<close>

record package =
  pack_name :: "lstring option"
  nicknames :: "lstring list"
  shadowings :: "obj list"
  uses :: "nat list"
  usedby :: "nat list"
  internal :: "(lstring, obj) hashtable"
  external :: "(lstring, obj) hashtable"
  closed :: bool

record world =
  syms :: heap
  nil_symbol :: symbol
  packs :: "package list"
  packages :: "nat list"
  to_be_created :: "(lstring \<times> nat) list"
  lisp_package :: nat
  keyword_package :: nat

datatype designator = DPackage nat | DName lstring

datatype pack_error =
    NoSuchPackage designator
  | PackageExists nat lstring
  | ClosedPackage nat
  | NotASymbol obj
  | NotAccessible obj nat
  | ExportClash obj nat
  | ExportConflict obj nat nat
  | UninternConflict obj nat obj obj
  | NotInPackage obj nat
  | ImportConflict obj nat
  | UseConflict nat nat
  | KeywordPackage
  | UndeletablePackage nat
  | PackageInUse nat
  | SizeOutOfBounds int

type_synonym answers = "bool list"
type_synonym 'a outcome = "((pack_error + 'a) \<times> world) option"

text \<open>\<open>mkcl_CEpackage_error\<close>: continue with the remaining answers, or leave with the error.\<close>

definition CEpackage_error ::
  "answers \<Rightarrow> pack_error \<Rightarrow> world \<Rightarrow> (answers \<Rightarrow> 'a outcome) \<Rightarrow> 'a outcome" where
  "CEpackage_error ans e w k = (case ans of True # rest \<Rightarrow> k rest | _ \<Rightarrow> Some (Inl e, w))"

definition pack :: "world \<Rightarrow> nat \<Rightarrow> package" where
  "pack w p = packs w ! p"

definition upd_pack :: "nat \<Rightarrow> (package \<Rightarrow> package) \<Rightarrow> world \<Rightarrow> world" where
  "upd_pack p f w = w\<lparr>packs := (packs w)[p := f (packs w ! p)]\<rparr>"

section \<open>Symbols\<close>

definition symbol_of :: "world \<Rightarrow> obj \<Rightarrow> symbol option" where
  "symbol_of w s =
     (if s = Cnil then Some (nil_symbol w)
      else case cell_at (syms w) s of Some (SymC y) \<Rightarrow> Some y | _ \<Rightarrow> None)"

definition upd_symbol :: "obj \<Rightarrow> (symbol \<Rightarrow> symbol) \<Rightarrow> world \<Rightarrow> world" where
  "upd_symbol s f w =
     (if s = Cnil then w\<lparr>nil_symbol := f (nil_symbol w)\<rparr>
      else case cell_at (syms w) s of
        Some (SymC y) \<Rightarrow> w\<lparr>syms := store (syms w) s (SymC (f y))\<rparr>
      | _ \<Rightarrow> w)"

definition make_resident_symbol_homeless :: "obj \<Rightarrow> nat \<Rightarrow> world \<Rightarrow> world" where
  "make_resident_symbol_homeless s p w =
     upd_symbol s (\<lambda>y. if hpack y = Some p then y\<lparr>hpack := None\<rparr> else y) w"

definition set_symbol_home_if_homeless :: "obj \<Rightarrow> nat \<Rightarrow> world \<Rightarrow> world" where
  "set_symbol_home_if_homeless s p w =
     upd_symbol s (\<lambda>y. if hpack y = None then y\<lparr>hpack := Some p\<rparr> else y) w"

definition new_symbol :: "lstring \<Rightarrow> symbol" where
  "new_symbol name = \<lparr>stype = 0, sym_value = ObjNull, gfdef = Cnil, plist = Cnil, sym_name = name,
     hpack = None, sys_plist = Cnil, special_index = None,
     hashed_name = mkcl_hash_equal_package name\<rparr>"

definition mk_cl_make_symbol :: "lstring \<Rightarrow> world \<Rightarrow> obj \<times> world" where
  "mk_cl_make_symbol name w =
     (let (s, h) = alloc (syms w) (SymC (new_symbol name)) in (s, w\<lparr>syms := h\<rparr>))"

text \<open>An operation on a symbol starts with its name; what is no symbol is a type error.\<close>

definition with_symbol_name :: "obj \<Rightarrow> world \<Rightarrow> (lstring \<Rightarrow> 'a outcome) \<Rightarrow> 'a outcome" where
  "with_symbol_name s w k =
     (case symbol_of w s of None \<Rightarrow> Some (Inl (NotASymbol s), w) | Some y \<Rightarrow> k (sym_name y))"

section \<open>Finding packages\<close>

definition named :: "package \<Rightarrow> lstring \<Rightarrow> bool" where
  "named P name \<longleftrightarrow> pack_name P = Some name \<or> name \<in> set (nicknames P)"

definition mkcl_find_package_nolock :: "world \<Rightarrow> designator \<Rightarrow> nat option" where
  "mkcl_find_package_nolock w d =
     (case d of DPackage p \<Rightarrow> Some p | DName name \<Rightarrow> find (\<lambda>p. named (pack w p) name) (packages w))"

definition mk_si_coerce_to_package :: "designator \<Rightarrow> world \<Rightarrow> (nat \<Rightarrow> 'a outcome) \<Rightarrow> 'a outcome" where
  "mk_si_coerce_to_package d w k =
     (case mkcl_find_package_nolock w d of None \<Rightarrow> Some (Inl (NoSuchPackage d), w) | Some p \<Rightarrow> k p)"

section \<open>Tables of a package\<close>

definition external_symbol :: "world \<Rightarrow> nat \<Rightarrow> lstring \<Rightarrow> obj option" where
  "external_symbol w p name = mkcl_gethash_safe name (external (pack w p)) ObjNull"

definition internal_symbol :: "world \<Rightarrow> nat \<Rightarrow> lstring \<Rightarrow> obj option" where
  "internal_symbol w p name = mkcl_gethash_safe name (internal (pack w p)) ObjNull"

definition set_external :: "nat \<Rightarrow> lstring \<Rightarrow> obj \<Rightarrow> world \<Rightarrow> world option" where
  "set_external p name s w =
     map_option (\<lambda>t. upd_pack p (\<lambda>P. P\<lparr>external := t\<rparr>) w) (mkcl_sethash name (external (pack w p)) s)"

definition set_internal :: "nat \<Rightarrow> lstring \<Rightarrow> obj \<Rightarrow> world \<Rightarrow> world option" where
  "set_internal p name s w =
     map_option (\<lambda>t. upd_pack p (\<lambda>P. P\<lparr>internal := t\<rparr>) w) (mkcl_sethash name (internal (pack w p)) s)"

definition add_internal :: "nat \<Rightarrow> lstring \<Rightarrow> obj \<Rightarrow> mkcl_hash_value \<Rightarrow> world \<Rightarrow> world option" where
  "add_internal p name s hv w =
     map_option (\<lambda>t. upd_pack p (\<lambda>P. P\<lparr>internal := t\<rparr>) w)
       (mkcl_package_sethash_new name (internal (pack w p)) s hv)"

definition rem_external :: "nat \<Rightarrow> lstring \<Rightarrow> world \<Rightarrow> world option" where
  "rem_external p name w =
     map_option (\<lambda>(b, t). upd_pack p (\<lambda>P. P\<lparr>external := t\<rparr>) w) (mkcl_remhash name (external (pack w p)))"

definition rem_internal :: "nat \<Rightarrow> lstring \<Rightarrow> world \<Rightarrow> world option" where
  "rem_internal p name w =
     map_option (\<lambda>(b, t). upd_pack p (\<lambda>P. P\<lparr>internal := t\<rparr>) w) (mkcl_remhash name (internal (pack w p)))"

section \<open>Finding and interning symbols\<close>

datatype intern_flag = Absent | IsInternal | IsExternal | IsInherited

fun inherited_symbol :: "world \<Rightarrow> lstring \<Rightarrow> nat list \<Rightarrow> obj option" where
  "inherited_symbol w name [] = Some ObjNull"
| "inherited_symbol w name (q # ul) =
     Option.bind (external_symbol w q name) (\<lambda>s.
       if s \<noteq> ObjNull then Some s else inherited_symbol w name ul)"

definition mkcl_find_symbol_nolock :: "world \<Rightarrow> lstring \<Rightarrow> nat \<Rightarrow> (obj \<times> intern_flag) option" where
  "mkcl_find_symbol_nolock w name p =
     Option.bind (external_symbol w p name) (\<lambda>s.
       if s \<noteq> ObjNull then Some (s, IsExternal)
       else if p = keyword_package w then Some (Cnil, Absent)
       else Option.bind (internal_symbol w p name) (\<lambda>s.
         if s \<noteq> ObjNull then Some (s, IsInternal)
         else Option.bind (inherited_symbol w name (uses (pack w p))) (\<lambda>s.
           if s \<noteq> ObjNull then Some (s, IsInherited) else Some (Cnil, Absent))))"

definition mkcl_find_symbol :: "lstring \<Rightarrow> designator \<Rightarrow> world \<Rightarrow> (obj \<times> intern_flag) outcome" where
  "mkcl_find_symbol name d w =
     mk_si_coerce_to_package d w (\<lambda>p.
       map_option (\<lambda>r. (Inr r, w)) (mkcl_find_symbol_nolock w name p))"

text \<open>
  \<open>mkcl_intern\<close> repeats the search of \<open>mkcl_find_symbol_nolock\<close>. In a closed package the
  continue restart goes back to the search, and to the same error, until it is not taken.
\<close>

definition intern_new :: "lstring \<Rightarrow> nat \<Rightarrow> world \<Rightarrow> (obj \<times> intern_flag) outcome" where
  "intern_new name p w =
     (let (s, w1) = mk_cl_make_symbol name w;
          w2 = upd_symbol s (\<lambda>y. y\<lparr>hpack := Some p\<rparr>) w1
      in if p = keyword_package w
         then let w3 = upd_symbol s (\<lambda>y. y\<lparr>stype := or (stype y) 1, sym_value := s\<rparr>) w2
              in map_option (\<lambda>w4. (Inr (s, Absent), w4)) (set_external p name s w3)
         else map_option (\<lambda>w3. (Inr (s, Absent), w3)) (set_internal p name s w2))"

fun intern_in :: "answers \<Rightarrow> lstring \<Rightarrow> nat \<Rightarrow> world \<Rightarrow> (obj \<times> intern_flag) outcome" where
  "intern_in [] name p w =
     Option.bind (mkcl_find_symbol_nolock w name p) (\<lambda>(s, flag).
       if flag \<noteq> Absent then Some (Inr (s, flag), w)
       else if closed (pack w p) then Some (Inl (ClosedPackage p), w)
       else intern_new name p w)"
| "intern_in (b # ans) name p w =
     Option.bind (mkcl_find_symbol_nolock w name p) (\<lambda>(s, flag).
       if flag \<noteq> Absent then Some (Inr (s, flag), w)
       else if closed (pack w p) then
         (if b then intern_in ans name p w else Some (Inl (ClosedPackage p), w))
       else intern_new name p w)"

definition mkcl_intern :: "answers \<Rightarrow> lstring \<Rightarrow> designator \<Rightarrow> world \<Rightarrow> (obj \<times> intern_flag) outcome" where
  "mkcl_intern ans name d w = mk_si_coerce_to_package d w (\<lambda>p. intern_in ans name p w)"

section \<open>Removing symbols\<close>

text \<open>Two different symbols that the used packages export under the name.\<close>

fun unintern_conflict :: "world \<Rightarrow> lstring \<Rightarrow> nat list \<Rightarrow> obj \<Rightarrow> (obj \<times> obj) option option" where
  "unintern_conflict w name [] x = Some None"
| "unintern_conflict w name (q # l) x =
     Option.bind (external_symbol w q name) (\<lambda>y.
       if y = ObjNull then unintern_conflict w name l x
       else if x = ObjNull then unintern_conflict w name l y
       else if x \<noteq> y then Some (Some (x, y))
       else unintern_conflict w name l x)"

definition unintern_remove :: "bool \<Rightarrow> obj \<Rightarrow> lstring \<Rightarrow> nat \<Rightarrow> world \<Rightarrow> bool outcome" where
  "unintern_remove is_internal s name p w =
     map_option (\<lambda>w1. (Inr True, make_resident_symbol_homeless s p w1))
       (if is_internal then rem_internal p name w else rem_external p name w)"

definition unintern_found :: "bool \<Rightarrow> obj \<Rightarrow> lstring \<Rightarrow> nat \<Rightarrow> world \<Rightarrow> bool outcome" where
  "unintern_found is_internal s name p w =
     (if s \<notin> set (shadowings (pack w p)) then unintern_remove is_internal s name p w
      else Option.bind (unintern_conflict w name (uses (pack w p)) ObjNull) (\<lambda>c. case c of
          Some (x, y) \<Rightarrow> Some (Inl (UninternConflict s p x y), w)
        | None \<Rightarrow> unintern_remove is_internal s name p
                   (upd_pack p (\<lambda>P. P\<lparr>shadowings := removeAll s (shadowings P)\<rparr>) w)))"

text \<open>The table the symbol is found in, the internal one first.\<close>

definition unintern_search ::
  "obj \<Rightarrow> lstring \<Rightarrow> nat \<Rightarrow> world \<Rightarrow> (bool \<Rightarrow> bool outcome) \<Rightarrow> bool outcome" where
  "unintern_search s name p w k =
     Option.bind (internal_symbol w p name) (\<lambda>x.
       if x = s then k True
       else Option.bind (external_symbol w p name) (\<lambda>x.
         if x \<noteq> s then Some (Inr False, w) else k False))"

fun unintern_in :: "answers \<Rightarrow> obj \<Rightarrow> lstring \<Rightarrow> nat \<Rightarrow> world \<Rightarrow> bool outcome" where
  "unintern_in [] s name p w =
     unintern_search s name p w (\<lambda>i.
       if closed (pack w p) then Some (Inl (ClosedPackage p), w) else unintern_found i s name p w)"
| "unintern_in (b # ans) s name p w =
     unintern_search s name p w (\<lambda>i.
       if closed (pack w p) then
         (if b then unintern_in ans s name p w else Some (Inl (ClosedPackage p), w))
       else unintern_found i s name p w)"

definition mkcl_unintern :: "answers \<Rightarrow> obj \<Rightarrow> designator \<Rightarrow> world \<Rightarrow> bool outcome" where
  "mkcl_unintern ans s d w =
     with_symbol_name s w (\<lambda>name. mk_si_coerce_to_package d w (\<lambda>p. unintern_in ans s name p w))"

section \<open>Exporting and importing\<close>

text \<open>A closed package: the operation asks once and goes on when told to.\<close>

definition unless_closed :: "answers \<Rightarrow> nat \<Rightarrow> world \<Rightarrow> (answers \<Rightarrow> 'a outcome) \<Rightarrow> 'a outcome" where
  "unless_closed ans p w k =
     (if closed (pack w p) then CEpackage_error ans (ClosedPackage p) w k else k ans)"

text \<open>The first user of the package in which another symbol of the name is accessible and not shadowing.\<close>

fun export_conflict :: "world \<Rightarrow> obj \<Rightarrow> lstring \<Rightarrow> nat list \<Rightarrow> nat option option" where
  "export_conflict w s name [] = Some None"
| "export_conflict w s name (q # l) =
     Option.bind (mkcl_find_symbol_nolock w name q) (\<lambda>(x, flag).
       if flag \<noteq> Absent \<and> s \<noteq> x \<and> x \<notin> set (shadowings (pack w q)) then Some (Some q)
       else export_conflict w s name l)"

definition export_found :: "obj \<Rightarrow> lstring \<Rightarrow> nat \<Rightarrow> obj \<Rightarrow> intern_flag \<Rightarrow> world \<Rightarrow> unit outcome" where
  "export_found s name p x flag w =
     (if x \<noteq> s then Some (Inl (ExportClash s p), w)
      else if flag = IsExternal then Some (Inr (), w)
      else Option.bind (export_conflict w s name (usedby (pack w p))) (\<lambda>c. case c of
          Some q \<Rightarrow> Some (Inl (ExportConflict s p q), w)
        | None \<Rightarrow>
            map_option (\<lambda>w2. (Inr (), w2))
              (Option.bind (if flag = IsInternal then rem_internal p name w else Some w)
                 (set_external p name s))))"

definition mkcl_export2 :: "answers \<Rightarrow> obj \<Rightarrow> designator \<Rightarrow> world \<Rightarrow> unit outcome" where
  "mkcl_export2 ans s d w =
     with_symbol_name s w (\<lambda>name. mk_si_coerce_to_package d w (\<lambda>p. unless_closed ans p w (\<lambda>ans.
       Option.bind (mkcl_find_symbol_nolock w name p) (\<lambda>(x, flag).
         if flag = Absent
         then CEpackage_error ans (NotAccessible s p) w (\<lambda>ans. export_found s name p x flag w)
         else export_found s name p x flag w))))"

definition mkcl_unexport2 :: "answers \<Rightarrow> obj \<Rightarrow> designator \<Rightarrow> world \<Rightarrow> unit outcome" where
  "mkcl_unexport2 ans s d w =
     with_symbol_name s w (\<lambda>name. mk_si_coerce_to_package d w (\<lambda>p.
       if p = keyword_package w then Some (Inl KeywordPackage, w)
       else unless_closed ans p w (\<lambda>ans.
         Option.bind (mkcl_find_symbol_nolock w name p) (\<lambda>(x, flag).
           if flag = Absent \<or> x \<noteq> s then Some (Inl (NotInPackage s p), w)
           else if flag \<noteq> IsExternal then Some (Inr (), w)
           else map_option (\<lambda>w2. (Inr (), w2))
                  (Option.bind (rem_external p name w) (set_internal p name s))))))"

definition import_add :: "obj \<Rightarrow> lstring \<Rightarrow> nat \<Rightarrow> world \<Rightarrow> unit outcome" where
  "import_add s name p w =
     map_option (\<lambda>w1. (Inr (), set_symbol_home_if_homeless s p w1))
       (add_internal p name s (case symbol_of w s of Some y \<Rightarrow> hashed_name y | None \<Rightarrow> 0) w)"

definition mkcl_import2 :: "answers \<Rightarrow> obj \<Rightarrow> designator \<Rightarrow> world \<Rightarrow> unit outcome" where
  "mkcl_import2 ans s d w =
     with_symbol_name s w (\<lambda>name. mk_si_coerce_to_package d w (\<lambda>p. unless_closed ans p w (\<lambda>ans.
       Option.bind (mkcl_find_symbol_nolock w name p) (\<lambda>(x, flag).
         let proceed = (if flag = IsInternal \<or> flag = IsExternal then Some (Inr (), w)
                        else import_add s name p w)
         in if flag \<noteq> Absent \<and> x \<noteq> s
            then CEpackage_error ans (ImportConflict s p) w (\<lambda>ans. proceed)
            else proceed))))"

definition push_shadowing :: "obj \<Rightarrow> nat \<Rightarrow> world \<Rightarrow> world" where
  "push_shadowing s p w = upd_pack p (\<lambda>P. P\<lparr>shadowings := s # shadowings P\<rparr>) w"

definition shadowing_add :: "obj \<Rightarrow> lstring \<Rightarrow> nat \<Rightarrow> world \<Rightarrow> unit outcome" where
  "shadowing_add s name p w =
     map_option (\<lambda>w1. (Inr (), set_symbol_home_if_homeless s p w1))
       (set_internal p name s (push_shadowing s p w))"

definition mkcl_shadowing_import :: "answers \<Rightarrow> obj \<Rightarrow> designator \<Rightarrow> world \<Rightarrow> unit outcome" where
  "mkcl_shadowing_import ans s d w =
     with_symbol_name s w (\<lambda>name. mk_si_coerce_to_package d w (\<lambda>p. unless_closed ans p w (\<lambda>ans.
       Option.bind (mkcl_find_symbol_nolock w name p) (\<lambda>(x, flag).
         if flag = IsInternal \<or> flag = IsExternal then
           if x = s then
             Some (Inr (), if x \<in> set (shadowings (pack w p)) then w else push_shadowing x p w)
           else
             let w1 = upd_pack p (\<lambda>P. P\<lparr>shadowings := removeAll x (shadowings P)\<rparr>) w
             in Option.bind (if flag = IsInternal then rem_internal p name w1 else rem_external p name w1)
                  (\<lambda>w2. shadowing_add s name p (make_resident_symbol_homeless x p w2))
         else shadowing_add s name p w))))"

definition mkcl_shadow :: "answers \<Rightarrow> lstring \<Rightarrow> designator \<Rightarrow> world \<Rightarrow> unit outcome" where
  "mkcl_shadow ans name d w =
     mk_si_coerce_to_package d w (\<lambda>p. unless_closed ans p w (\<lambda>ans.
       Option.bind (mkcl_find_symbol_nolock w name p) (\<lambda>(x, flag).
         if flag = IsInternal \<or> flag = IsExternal then Some (Inr (), push_shadowing x p w)
         else let (x, w1) = mk_cl_make_symbol name w
              in map_option (\<lambda>w2. (Inr (), push_shadowing x p (upd_symbol x (\<lambda>y. y\<lparr>hpack := Some p\<rparr>) w2)))
                   (set_internal p name x w1))))"

section \<open>Using packages\<close>

text \<open>The scan over the external symbols of the package to be used, in the order of its chains.\<close>

fun use_conflict :: "world \<Rightarrow> nat \<Rightarrow> (lstring, obj) hashtable_entry list \<Rightarrow> bool option" where
  "use_conflict w p [] = Some False"
| "use_conflict w p (e # es) =
     (case symbol_of w (e_value e) of
        None \<Rightarrow> None
      | Some y \<Rightarrow>
          Option.bind (mkcl_find_symbol_nolock w (sym_name y) p) (\<lambda>(there, flag).
            if flag \<noteq> Absent \<and> e_value e \<noteq> there \<and> there \<notin> set (shadowings (pack w p)) then Some True
            else use_conflict w p es))"

definition link_packages :: "nat \<Rightarrow> nat \<Rightarrow> world \<Rightarrow> world" where
  "link_packages x p w =
     upd_pack x (\<lambda>X. X\<lparr>usedby := p # usedby X\<rparr>) (upd_pack p (\<lambda>P. P\<lparr>uses := x # uses P\<rparr>) w)"

definition mkcl_use_package :: "answers \<Rightarrow> designator \<Rightarrow> designator \<Rightarrow> world \<Rightarrow> unit outcome" where
  "mkcl_use_package ans dx dp w =
     mk_si_coerce_to_package dx w (\<lambda>x.
       if x = keyword_package w then Some (Inl KeywordPackage, w)
       else mk_si_coerce_to_package dp w (\<lambda>p. unless_closed ans p w (\<lambda>ans.
         if p = keyword_package w then Some (Inl KeywordPackage, w)
         else if p = x \<or> x \<in> set (uses (pack w p)) then Some (Inr (), w)
         else Option.bind (use_conflict w p (concat (data (external (pack w x))))) (\<lambda>c.
           if c then Some (Inl (UseConflict x p), w) else Some (Inr (), link_packages x p w)))))"

definition unlink_packages :: "nat \<Rightarrow> nat \<Rightarrow> world \<Rightarrow> world" where
  "unlink_packages x p w =
     upd_pack x (\<lambda>X. X\<lparr>usedby := removeAll p (usedby X)\<rparr>)
       (upd_pack p (\<lambda>P. P\<lparr>uses := removeAll x (uses P)\<rparr>) w)"

text \<open>\<open>k\<close> is what the caller does next, with the answers that are left.\<close>

definition unuse_then ::
  "answers \<Rightarrow> nat \<Rightarrow> nat \<Rightarrow> world \<Rightarrow> (answers \<Rightarrow> world \<Rightarrow> 'a outcome) \<Rightarrow> 'a outcome" where
  "unuse_then ans x p w k = unless_closed ans p w (\<lambda>ans. k ans (unlink_packages x p w))"

definition mkcl_unuse_package :: "answers \<Rightarrow> designator \<Rightarrow> designator \<Rightarrow> world \<Rightarrow> unit outcome" where
  "mkcl_unuse_package ans dx dp w =
     mk_si_coerce_to_package dx w (\<lambda>x. mk_si_coerce_to_package dp w (\<lambda>p.
       unuse_then ans x p w (\<lambda>ans w1. Some (Inr (), w1))))"

fun unuse_each ::
  "(nat \<times> nat) list \<Rightarrow> answers \<Rightarrow> world \<Rightarrow> (answers \<Rightarrow> world \<Rightarrow> 'a outcome) \<Rightarrow> 'a outcome" where
  "unuse_each [] ans w k = k ans w"
| "unuse_each ((x, p) # l) ans w k = unuse_then ans x p w (\<lambda>ans w1. unuse_each l ans w1 k)"

section \<open>Making, renaming and deleting packages\<close>

definition delete_finish :: "nat \<Rightarrow> world \<Rightarrow> bool outcome" where
  "delete_finish p w =
     Some (Inr True, upd_pack p (\<lambda>P. P\<lparr>pack_name := None\<rparr>) (w\<lparr>packages := removeAll p (packages w)\<rparr>))"

definition delete_used :: "nat \<Rightarrow> answers \<Rightarrow> world \<Rightarrow> bool outcome" where
  "delete_used p ans w =
     (let l = usedby (pack w p)
      in if l = [] then delete_finish p w
         else CEpackage_error ans (PackageInUse p) w (\<lambda>ans.
                unuse_each (map (\<lambda>q. (p, q)) l) ans w (\<lambda>ans w1. delete_finish p w1)))"

definition mk_cl_delete_package :: "answers \<Rightarrow> designator \<Rightarrow> world \<Rightarrow> bool outcome" where
  "mk_cl_delete_package ans d w =
     (case mkcl_find_package_nolock w d of
        None \<Rightarrow> CEpackage_error ans (NoSuchPackage d) w (\<lambda>ans. Some (Inr False, w))
      | Some p \<Rightarrow> unless_closed ans p w (\<lambda>ans.
          if p = lisp_package w \<or> p = keyword_package w then Some (Inl (UndeletablePackage p), w)
          else if pack_name (pack w p) = None then Some (Inr False, w)
          else unuse_each (map (\<lambda>q. (q, p)) (uses (pack w p))) ans w (delete_used p)))"

definition alloc_sized_package :: "lstring \<Rightarrow> nat \<Rightarrow> nat \<Rightarrow> package" where
  "alloc_sized_package name external_size internal_size =
     \<lparr>pack_name = Some name, nicknames = [], shadowings = [], uses = [], usedby = [],
      internal = package_hashtable internal_size, external = package_hashtable external_size,
      closed = False\<rparr>"

text \<open>The first waiting package whose name is among the given ones, and the others.\<close>

fun take_waiting :: "lstring list \<Rightarrow> (lstring \<times> nat) list \<Rightarrow> (nat \<times> (lstring \<times> nat) list) option" where
  "take_waiting names [] = None"
| "take_waiting names ((n, q) # l) =
     (if n \<in> set names then Some (q, l)
      else map_option (\<lambda>(r, l'). (r, (n, q) # l')) (take_waiting names l))"

text \<open>The first nickname that already names a registered package.\<close>

fun nickname_taken :: "world \<Rightarrow> lstring list \<Rightarrow> (nat \<times> lstring) option" where
  "nickname_taken w [] = None"
| "nickname_taken w (n # ns) =
     (case mkcl_find_package_nolock w (DName n) of Some q \<Rightarrow> Some (q, n) | None \<Rightarrow> nickname_taken w ns)"

fun use_initially :: "nat \<Rightarrow> designator list \<Rightarrow> world \<Rightarrow> unit outcome" where
  "use_initially x [] w = Some (Inr (), w)"
| "use_initially x (d # ds) w =
     mk_si_coerce_to_package d w (\<lambda>y. use_initially x ds (link_packages y x w))"

definition register_package ::
  "answers \<Rightarrow> nat \<Rightarrow> lstring list \<Rightarrow> designator list \<Rightarrow> world \<Rightarrow> nat outcome" where
  "register_package ans x nicks use_list w =
     (case nickname_taken w nicks of
        Some (other, n) \<Rightarrow> CEpackage_error ans (PackageExists other n) w (\<lambda>ans. Some (Inr other, w))
      | None \<Rightarrow>
          Option.bind (use_initially x use_list (upd_pack x (\<lambda>P. P\<lparr>nicknames := rev nicks\<rparr>) w)) (\<lambda>(r, w1).
            case r of
              Inl e \<Rightarrow> Some (Inl e, w1)
            | Inr _ \<Rightarrow> Some (Inr x, w1\<lparr>packages := x # packages w1\<rparr>)))"

definition mkcl_make_sized_package ::
  "answers \<Rightarrow> lstring \<Rightarrow> lstring list \<Rightarrow> designator list \<Rightarrow> int \<Rightarrow> int \<Rightarrow> world \<Rightarrow> nat outcome" where
  "mkcl_make_sized_package ans name nicks use_list external_size internal_size w =
     (case take_waiting (name # nicks) (to_be_created w) of
        Some (x, l) \<Rightarrow> register_package ans x nicks use_list (w\<lparr>to_be_created := l\<rparr>)
      | None \<Rightarrow>
          (case mkcl_find_package_nolock w (DName name) of
             Some other \<Rightarrow> CEpackage_error ans (PackageExists other name) w (\<lambda>ans. Some (Inr other, w))
           | None \<Rightarrow>
               if \<not> (0 \<le> external_size \<and> external_size < 2 ^ 61) then Some (Inl (SizeOutOfBounds external_size), w)
               else if \<not> (0 \<le> internal_size \<and> internal_size < 2 ^ 61) then Some (Inl (SizeOutOfBounds internal_size), w)
               else register_package ans (length (packs w)) nicks use_list
                      (w\<lparr>packs := packs w @ [alloc_sized_package name (nat external_size) (nat internal_size)]\<rparr>)))"

definition mkcl_make_package ::
  "answers \<Rightarrow> lstring \<Rightarrow> lstring list \<Rightarrow> designator list \<Rightarrow> world \<Rightarrow> nat outcome" where
  "mkcl_make_package ans name nicks use_list w = mkcl_make_sized_package ans name nicks use_list 129 129 w"

fun rename_nicknames :: "nat \<Rightarrow> lstring list \<Rightarrow> world \<Rightarrow> world" where
  "rename_nicknames x [] w = w"
| "rename_nicknames x (n # ns) w =
     rename_nicknames x ns
       (if mkcl_find_package_nolock w (DName n) \<noteq> Some x
        then upd_pack x (\<lambda>P. P\<lparr>nicknames := n # nicknames P\<rparr>) w else w)"

definition mkcl_rename_package ::
  "answers \<Rightarrow> designator \<Rightarrow> lstring \<Rightarrow> lstring list \<Rightarrow> world \<Rightarrow> nat outcome" where
  "mkcl_rename_package ans d name nicks w =
     mk_si_coerce_to_package d w (\<lambda>x. unless_closed ans x w (\<lambda>ans.
       case mkcl_find_package_nolock w (DName name) of
         Some y \<Rightarrow>
           if y \<noteq> x then Some (Inl (PackageExists y name), w)
           else Some (Inr x, rename_nicknames x nicks (upd_pack x (\<lambda>P. P\<lparr>pack_name := Some name, nicknames := []\<rparr>) w))
       | None \<Rightarrow>
           Some (Inr x, rename_nicknames x nicks (upd_pack x (\<lambda>P. P\<lparr>pack_name := Some name, nicknames := []\<rparr>) w))))"

definition mk_si_close_package :: "designator \<Rightarrow> world \<Rightarrow> nat outcome" where
  "mk_si_close_package d w =
     mk_si_coerce_to_package d w (\<lambda>p. Some (Inr p, upd_pack p (\<lambda>P. P\<lparr>closed := True\<rparr>) w))"

definition mk_si_reopen_package :: "designator \<Rightarrow> world \<Rightarrow> nat outcome" where
  "mk_si_reopen_package d w =
     mk_si_coerce_to_package d w (\<lambda>p. Some (Inr p, upd_pack p (\<lambda>P. P\<lparr>closed := False\<rparr>) w))"

section \<open>Operations on lists of symbols and packages\<close>

text \<open>Each element comes with the answers its errors get; an error ends the loop.\<close>

fun for_each :: "('a \<Rightarrow> world \<Rightarrow> 'b outcome) \<Rightarrow> 'a list \<Rightarrow> world \<Rightarrow> unit outcome" where
  "for_each f [] w = Some (Inr (), w)"
| "for_each f (x # xs) w =
     Option.bind (f x w) (\<lambda>(r, w1). case r of Inl e \<Rightarrow> Some (Inl e, w1) | Inr _ \<Rightarrow> for_each f xs w1)"

definition mk_cl_export :: "(answers \<times> obj) list \<Rightarrow> designator \<Rightarrow> world \<Rightarrow> unit outcome" where
  "mk_cl_export l d w =
     mk_si_coerce_to_package d w (\<lambda>p. for_each (\<lambda>(ans, s). mkcl_export2 ans s (DPackage p)) l w)"

definition mk_cl_unexport :: "(answers \<times> obj) list \<Rightarrow> designator \<Rightarrow> world \<Rightarrow> unit outcome" where
  "mk_cl_unexport l d w =
     mk_si_coerce_to_package d w (\<lambda>p. for_each (\<lambda>(ans, s). mkcl_unexport2 ans s (DPackage p)) l w)"

definition mk_cl_import :: "(answers \<times> obj) list \<Rightarrow> designator \<Rightarrow> world \<Rightarrow> unit outcome" where
  "mk_cl_import l d w =
     mk_si_coerce_to_package d w (\<lambda>p. for_each (\<lambda>(ans, s). mkcl_import2 ans s (DPackage p)) l w)"

definition mk_cl_shadowing_import :: "(answers \<times> obj) list \<Rightarrow> designator \<Rightarrow> world \<Rightarrow> unit outcome" where
  "mk_cl_shadowing_import l d w =
     mk_si_coerce_to_package d w (\<lambda>p. for_each (\<lambda>(ans, s). mkcl_shadowing_import ans s (DPackage p)) l w)"

definition mk_cl_shadow :: "(answers \<times> lstring) list \<Rightarrow> designator \<Rightarrow> world \<Rightarrow> unit outcome" where
  "mk_cl_shadow l d w =
     mk_si_coerce_to_package d w (\<lambda>p. for_each (\<lambda>(ans, n). mkcl_shadow ans n (DPackage p)) l w)"

definition mk_cl_use_package :: "(answers \<times> designator) list \<Rightarrow> designator \<Rightarrow> world \<Rightarrow> unit outcome" where
  "mk_cl_use_package l d w =
     mk_si_coerce_to_package d w (\<lambda>p. for_each (\<lambda>(ans, x). mkcl_use_package ans x (DPackage p)) l w)"

definition mk_cl_unuse_package :: "(answers \<times> designator) list \<Rightarrow> designator \<Rightarrow> world \<Rightarrow> unit outcome" where
  "mk_cl_unuse_package l d w =
     mk_si_coerce_to_package d w (\<lambda>p. for_each (\<lambda>(ans, x). mkcl_unuse_package ans x (DPackage p)) l w)"

end
