(* ===== verification/Package_View.thy ===== *)
theory Package_View
  imports Packages
begin

text \<open>
  The abstract view of the package system: for every package the maps from names to external
  and internal symbols, the set of shadowing symbols and the two lists of packages; for every
  symbol its name. Each primitive of the concrete operations acts on the view as expected
  when the tables are well formed. The invariant of the view is what the operations keep.
\<close>

section \<open>View\<close>

definition table_map :: "(lstring, obj) hashtable \<Rightarrow> lstring \<Rightarrow> obj option" where
  "table_map t name = (case gethash_value name t of Some r \<Rightarrow> r | None \<Rightarrow> None)"

record view =
  v_count :: nat
  v_name :: "obj \<Rightarrow> lstring option"
  v_ext :: "nat \<Rightarrow> lstring \<Rightarrow> obj option"
  v_int :: "nat \<Rightarrow> lstring \<Rightarrow> obj option"
  v_shadow :: "nat \<Rightarrow> obj set"
  v_uses :: "nat \<Rightarrow> nat list"
  v_usedby :: "nat \<Rightarrow> nat list"
  v_keyword :: nat

definition of_pack :: "world \<Rightarrow> (package \<Rightarrow> 'a) \<Rightarrow> 'a \<Rightarrow> nat \<Rightarrow> 'a" where
  "of_pack w f d p = (if p < length (packs w) then f (pack w p) else d)"

definition view :: "world \<Rightarrow> view" where
  "view w =
     \<lparr>v_count = length (packs w),
      v_name = (\<lambda>s. map_option sym_name (symbol_of w s)),
      v_ext = of_pack w (\<lambda>P. table_map (external P)) Map.empty,
      v_int = of_pack w (\<lambda>P. table_map (internal P)) Map.empty,
      v_shadow = of_pack w (\<lambda>P. set (shadowings P)) {},
      v_uses = of_pack w uses [],
      v_usedby = of_pack w usedby [],
      v_keyword = keyword_package w\<rparr>"

definition name_wf :: "(lstring, obj) hashtable \<Rightarrow> bool" where
  "name_wf t \<longleftrightarrow> hash_wf mkcl_hash_equal_package (=) t"

definition tables_ok :: "world \<Rightarrow> bool" where
  "tables_ok w \<longleftrightarrow> (\<forall>P \<in> set (packs w). name_wf (internal P) \<and> name_wf (external P))"

text \<open>The symbols a world knows have the hash of their name recorded.\<close>

definition symbols_ok :: "world \<Rightarrow> bool" where
  "symbols_ok w \<longleftrightarrow> (\<forall>s y. symbol_of w s = Some y \<longrightarrow> hashed_name y = mkcl_hash_equal_package (sym_name y))"

section \<open>Tables\<close>

lemma gethash_table_map: "name_wf t \<Longrightarrow> gethash_value name t = Some (table_map t name)"
  using name_table.gethash_value_iff(3) [of t name] by (auto simp: name_wf_def table_map_def)

lemma gethash_safe_map:
  "name_wf t \<Longrightarrow> mkcl_gethash_safe name t d = Some (case table_map t name of Some s \<Rightarrow> s | None \<Rightarrow> d)"
  using gethash_table_map [of t name]
  by (auto simp: mkcl_gethash_safe_def gethash_value_def split: option.splits)

lemma sethash_map:
  assumes "name_wf t"
  obtains t' where "mkcl_sethash name t s = Some t'" and "name_wf t'" and "table_map t' = (table_map t)(name \<mapsto> s)"
proof -
  obtain t' where t': "mkcl_sethash name t s = Some t'" "name_wf t'"
      "\<forall>k'. gethash_value k' t' = (if name = k' then Some (Some s) else gethash_value k' t)"
    using name_table.sethash_table [of t name s] assms by (auto simp: name_wf_def)
  then have "table_map t' = (table_map t)(name \<mapsto> s)" by (auto simp: table_map_def fun_eq_iff)
  then show thesis using t' that by blast
qed

lemma sethash_new_map:
  assumes "name_wf t" and "table_map t name = None"
  obtains t' where "mkcl_package_sethash_new name t s (mkcl_hash_equal_package name) = Some t'"
    and "name_wf t'" and "table_map t' = (table_map t)(name \<mapsto> s)"
proof -
  have "gethash_value name t = Some None" using assms gethash_table_map by simp
  then obtain t' where t': "mkcl_package_sethash_new name t s (mkcl_hash_equal_package name) = Some t'" "name_wf t'"
      "\<forall>k. gethash_value k t' = (if k = name then Some (Some s) else gethash_value k t)"
    using package_sethash_new [of t name s] assms(1) by (auto simp: name_wf_def)
  then have "table_map t' = (table_map t)(name \<mapsto> s)" by (auto simp: table_map_def fun_eq_iff)
  then show thesis using t' that by blast
qed

lemma remhash_map:
  assumes "name_wf t"
  obtains b t' where "mkcl_remhash name t = Some (b, t')" and "name_wf t'" and "table_map t' = (table_map t)(name := None)"
proof -
  obtain t' where t': "mkcl_remhash name t = Some (gethash_value name t \<noteq> Some None, t')" "name_wf t'"
      "\<forall>k'. gethash_value k' t' = (if name = k' then Some None else gethash_value k' t)"
    using name_table.remhash_table [of t name] assms by (auto simp: name_wf_def)
  then have "table_map t' = (table_map t)(name := None)" by (auto simp: table_map_def fun_eq_iff)
  then show thesis using t' that by blast
qed

lemma new_table_map: "0 < n \<Longrightarrow> name_wf (package_hashtable n) \<and> table_map (package_hashtable n) = Map.empty"
  by (simp add: make_package_table name_wf_def table_map_def fun_eq_iff)

lemma tables_ok_pack:
  "tables_ok w \<Longrightarrow> p < length (packs w) \<Longrightarrow> name_wf (internal (pack w p)) \<and> name_wf (external (pack w p))"
  by (simp add: tables_ok_def pack_def)

lemma external_symbol_view:
  "tables_ok w \<Longrightarrow> p < length (packs w) \<Longrightarrow>
     external_symbol w p name = Some (case v_ext (view w) p name of Some s \<Rightarrow> s | None \<Rightarrow> ObjNull)"
  by (simp add: external_symbol_def gethash_safe_map tables_ok_pack view_def of_pack_def)

lemma internal_symbol_view:
  "tables_ok w \<Longrightarrow> p < length (packs w) \<Longrightarrow>
     internal_symbol w p name = Some (case v_int (view w) p name of Some s \<Rightarrow> s | None \<Rightarrow> ObjNull)"
  by (simp add: internal_symbol_def gethash_safe_map tables_ok_pack view_def of_pack_def)

section \<open>Effects on the view\<close>

lemma view_select [simp]:
  "v_count (view w) = length (packs w)" "v_name (view w) s = map_option sym_name (symbol_of w s)"
  "p < length (packs w) \<Longrightarrow> v_shadow (view w) p = set (shadowings (pack w p))"
  "p < length (packs w) \<Longrightarrow> v_uses (view w) p = uses (pack w p)"
  "p < length (packs w) \<Longrightarrow> v_usedby (view w) p = usedby (pack w p)"
  "v_keyword (view w) = keyword_package w"
  by (simp_all add: view_def of_pack_def)

lemma of_pack_upd:
  "p < length (packs w) \<Longrightarrow> of_pack (upd_pack p g w) f d = (of_pack w f d)(p := f (g (pack w p)))"
  by (auto simp: of_pack_def upd_pack_def pack_def fun_eq_iff nth_list_update)

lemma symbol_of_upd_pack [simp]: "symbol_of (upd_pack p g w) = symbol_of w"
  by (simp add: symbol_of_def upd_pack_def fun_eq_iff)

lemma upd_pack_fields [simp]:
  "length (packs (upd_pack p g w)) = length (packs w)" "keyword_package (upd_pack p g w) = keyword_package w"
  "syms (upd_pack p g w) = syms w" "packages (upd_pack p g w) = packages w"
  "lisp_package (upd_pack p g w) = lisp_package w" "nil_symbol (upd_pack p g w) = nil_symbol w"
  "to_be_created (upd_pack p g w) = to_be_created w"
  by (simp_all add: upd_pack_def)

lemma view_upd_pack:
  assumes "p < length (packs w)"
  shows "view (upd_pack p g w) = (view w)
     \<lparr>v_ext := (v_ext (view w))(p := table_map (external (g (pack w p)))),
      v_int := (v_int (view w))(p := table_map (internal (g (pack w p)))),
      v_shadow := (v_shadow (view w))(p := set (shadowings (g (pack w p)))),
      v_uses := (v_uses (view w))(p := uses (g (pack w p))),
      v_usedby := (v_usedby (view w))(p := usedby (g (pack w p)))\<rparr>"
  using assms by (simp add: view_def of_pack_upd)

lemma of_pack_same: "p < length (packs w) \<Longrightarrow> (of_pack w f d)(p := f (pack w p)) = of_pack w f d"
  by (auto simp: of_pack_def)

lemma view_same:
  assumes "p < length (packs w)"
  shows "(v_ext (view w))(p := table_map (external (pack w p))) = v_ext (view w)"
    "(v_int (view w))(p := table_map (internal (pack w p))) = v_int (view w)"
    "(v_shadow (view w))(p := set (shadowings (pack w p))) = v_shadow (view w)"
    "(v_uses (view w))(p := uses (pack w p)) = v_uses (view w)"
    "(v_usedby (view w))(p := usedby (pack w p)) = v_usedby (view w)"
  using of_pack_same [OF assms] by (simp_all add: view_def)

lemma tables_ok_upd:
  assumes "tables_ok w" and "p < length (packs w)"
    and "name_wf (internal (g (pack w p)))" and "name_wf (external (g (pack w p)))"
  shows "tables_ok (upd_pack p g w)"
  using assms set_update_subset_insert [of "packs w" p "g (packs w ! p)"]
  by (auto simp: tables_ok_def upd_pack_def pack_def)

text \<open>
  \<open>same_but_tables w w'\<close>: the worlds differ at most in the tables of packages, and the tables
  of \<open>w'\<close> are well formed.
\<close>

definition no_tables :: "package \<Rightarrow> package" where
  "no_tables P = P\<lparr>internal := package_hashtable 1, external := package_hashtable 1\<rparr>"

definition same_but_tables :: "world \<Rightarrow> world \<Rightarrow> bool" where
  "same_but_tables w w' \<longleftrightarrow> tables_ok w' \<and> w'\<lparr>packs := []\<rparr> = w\<lparr>packs := []\<rparr>
     \<and> map no_tables (packs w') = map no_tables (packs w)"

lemma same_but_tables_upd:
  assumes "tables_ok (upd_pack p g w)" and "p < length (packs w)" and "no_tables (g (pack w p)) = no_tables (pack w p)"
  shows "same_but_tables w (upd_pack p g w)"
  using assms
  by (auto simp: same_but_tables_def upd_pack_def pack_def list_eq_iff_nth_eq nth_list_update)

lemma install_external:
  assumes "tables_ok w" and "p < length (packs w)" and "name_wf t"
  shows "same_but_tables w (upd_pack p (\<lambda>P. P\<lparr>external := t\<rparr>) w)"
    and "view (upd_pack p (\<lambda>P. P\<lparr>external := t\<rparr>) w) = (view w)\<lparr>v_ext := (v_ext (view w))(p := table_map t)\<rparr>"
proof -
  have "tables_ok (upd_pack p (\<lambda>P. P\<lparr>external := t\<rparr>) w)"
    using assms tables_ok_pack [OF assms(1,2)] by (intro tables_ok_upd) auto
  then show "same_but_tables w (upd_pack p (\<lambda>P. P\<lparr>external := t\<rparr>) w)"
    using assms(2) by (intro same_but_tables_upd) (auto simp: no_tables_def)
  show "view (upd_pack p (\<lambda>P. P\<lparr>external := t\<rparr>) w) = (view w)\<lparr>v_ext := (v_ext (view w))(p := table_map t)\<rparr>"
    unfolding view_upd_pack [OF assms(2)] using view_same [OF assms(2)] by simp
qed

lemma install_internal:
  assumes "tables_ok w" and "p < length (packs w)" and "name_wf t"
  shows "same_but_tables w (upd_pack p (\<lambda>P. P\<lparr>internal := t\<rparr>) w)"
    and "view (upd_pack p (\<lambda>P. P\<lparr>internal := t\<rparr>) w) = (view w)\<lparr>v_int := (v_int (view w))(p := table_map t)\<rparr>"
proof -
  have "tables_ok (upd_pack p (\<lambda>P. P\<lparr>internal := t\<rparr>) w)"
    using assms tables_ok_pack [OF assms(1,2)] by (intro tables_ok_upd) auto
  then show "same_but_tables w (upd_pack p (\<lambda>P. P\<lparr>internal := t\<rparr>) w)"
    using assms(2) by (intro same_but_tables_upd) (auto simp: no_tables_def)
  show "view (upd_pack p (\<lambda>P. P\<lparr>internal := t\<rparr>) w) = (view w)\<lparr>v_int := (v_int (view w))(p := table_map t)\<rparr>"
    unfolding view_upd_pack [OF assms(2)] using view_same [OF assms(2)] by simp
qed

lemma view_tables:
  "p < length (packs w) \<Longrightarrow> v_ext (view w) p = table_map (external (pack w p))"
  "p < length (packs w) \<Longrightarrow> v_int (view w) p = table_map (internal (pack w p))"
  by (simp_all add: view_def of_pack_def)

text \<open>The primitives that write to a table, as they act on the view.\<close>

lemma set_external_view:
  assumes "tables_ok w" and "p < length (packs w)"
  obtains w' where "set_external p name s w = Some w'" and "same_but_tables w w'"
    and "view w' = (view w)\<lparr>v_ext := (v_ext (view w))(p := (v_ext (view w) p)(name \<mapsto> s))\<rparr>"
proof -
  obtain t where "mkcl_sethash name (external (pack w p)) s = Some t" "name_wf t"
      "table_map t = (table_map (external (pack w p)))(name \<mapsto> s)"
    using sethash_map tables_ok_pack [OF assms] by metis
  then show thesis
    using that install_external [OF assms] view_tables(1) [OF assms(2)] by (simp add: set_external_def)
qed

lemma set_internal_view:
  assumes "tables_ok w" and "p < length (packs w)"
  obtains w' where "set_internal p name s w = Some w'" and "same_but_tables w w'"
    and "view w' = (view w)\<lparr>v_int := (v_int (view w))(p := (v_int (view w) p)(name \<mapsto> s))\<rparr>"
proof -
  obtain t where "mkcl_sethash name (internal (pack w p)) s = Some t" "name_wf t"
      "table_map t = (table_map (internal (pack w p)))(name \<mapsto> s)"
    using sethash_map tables_ok_pack [OF assms] by metis
  then show thesis
    using that install_internal [OF assms] view_tables(2) [OF assms(2)] by (simp add: set_internal_def)
qed

lemma add_internal_view:
  assumes "tables_ok w" and "p < length (packs w)" and "v_int (view w) p name = None"
    and "hv = mkcl_hash_equal_package name"
  obtains w' where "add_internal p name s hv w = Some w'" and "same_but_tables w w'"
    and "view w' = (view w)\<lparr>v_int := (v_int (view w))(p := (v_int (view w) p)(name \<mapsto> s))\<rparr>"
proof -
  have "table_map (internal (pack w p)) name = None" using assms(2,3) view_tables(2) by simp
  then obtain t where "mkcl_package_sethash_new name (internal (pack w p)) s (mkcl_hash_equal_package name) = Some t"
      "name_wf t" "table_map t = (table_map (internal (pack w p)))(name \<mapsto> s)"
    using sethash_new_map tables_ok_pack [OF assms(1,2)] by metis
  then show thesis
    using that install_internal [OF assms(1,2)] view_tables(2) [OF assms(2)] assms(4)
    by (simp add: add_internal_def)
qed

lemma rem_external_view:
  assumes "tables_ok w" and "p < length (packs w)"
  obtains w' where "rem_external p name w = Some w'" and "same_but_tables w w'"
    and "view w' = (view w)\<lparr>v_ext := (v_ext (view w))(p := (v_ext (view w) p)(name := None))\<rparr>"
proof -
  obtain b t where "mkcl_remhash name (external (pack w p)) = Some (b, t)" "name_wf t"
      "table_map t = (table_map (external (pack w p)))(name := None)"
    using remhash_map tables_ok_pack [OF assms] by metis
  then show thesis
    using that install_external [OF assms] view_tables(1) [OF assms(2)] by (simp add: rem_external_def)
qed

lemma rem_internal_view:
  assumes "tables_ok w" and "p < length (packs w)"
  obtains w' where "rem_internal p name w = Some w'" and "same_but_tables w w'"
    and "view w' = (view w)\<lparr>v_int := (v_int (view w))(p := (v_int (view w) p)(name := None))\<rparr>"
proof -
  obtain b t where "mkcl_remhash name (internal (pack w p)) = Some (b, t)" "name_wf t"
      "table_map t = (table_map (internal (pack w p)))(name := None)"
    using remhash_map tables_ok_pack [OF assms] by metis
  then show thesis
    using that install_internal [OF assms] view_tables(2) [OF assms(2)] by (simp add: rem_internal_def)
qed

section \<open>Accessible symbols\<close>

fun v_inherited :: "view \<Rightarrow> lstring \<Rightarrow> nat list \<Rightarrow> obj option" where
  "v_inherited A name [] = None"
| "v_inherited A name (q # l) = (case v_ext A q name of Some s \<Rightarrow> Some s | None \<Rightarrow> v_inherited A name l)"

definition v_present :: "view \<Rightarrow> nat \<Rightarrow> lstring \<Rightarrow> obj option" where
  "v_present A p name = (case v_ext A p name of Some s \<Rightarrow> Some s | None \<Rightarrow> v_int A p name)"

definition v_find :: "view \<Rightarrow> lstring \<Rightarrow> nat \<Rightarrow> obj \<times> intern_flag" where
  "v_find A name p =
     (case v_ext A p name of
        Some s \<Rightarrow> (s, IsExternal)
      | None \<Rightarrow>
          if p = v_keyword A then (Cnil, Absent)
          else (case v_int A p name of
              Some s \<Rightarrow> (s, IsInternal)
            | None \<Rightarrow> (case v_inherited A name (v_uses A p) of
                Some s \<Rightarrow> (s, IsInherited)
              | None \<Rightarrow> (Cnil, Absent))))"

text \<open>The invariant of the view.\<close>

definition names_ok :: "view \<Rightarrow> bool" where
  "names_ok A \<longleftrightarrow> (\<forall>p name s. v_ext A p name = Some s \<or> v_int A p name = Some s \<longrightarrow> v_name A s = Some name)"

definition disjoint_ok :: "view \<Rightarrow> bool" where
  "disjoint_ok A \<longleftrightarrow> (\<forall>p name. v_ext A p name = None \<or> v_int A p name = None)"

definition shadows_ok :: "view \<Rightarrow> bool" where
  "shadows_ok A \<longleftrightarrow> (\<forall>p. \<forall>s \<in> v_shadow A p. \<exists>name. v_present A p name = Some s)"

definition uses_ok :: "view \<Rightarrow> bool" where
  "uses_ok A \<longleftrightarrow> (\<forall>p q. q \<in> set (v_uses A p) \<longleftrightarrow> p \<in> set (v_usedby A q))
     \<and> (\<forall>p. p \<notin> set (v_uses A p) \<and> set (v_uses A p) \<subseteq> {..<v_count A})"

definition keyword_ok :: "view \<Rightarrow> bool" where
  "keyword_ok A \<longleftrightarrow> v_keyword A < v_count A \<and> v_int A (v_keyword A) = Map.empty
     \<and> v_uses A (v_keyword A) = [] \<and> v_usedby A (v_keyword A) = []"

definition view_ok :: "view \<Rightarrow> bool" where
  "view_ok A \<longleftrightarrow> names_ok A \<and> disjoint_ok A \<and> shadows_ok A \<and> uses_ok A \<and> keyword_ok A"

text \<open>
  No name conflict in a package: a symbol it inherits is the symbol present in it, or is hidden
  by a shadowing symbol, or, when none is present, is the only one inherited under the name.
\<close>

definition inherits :: "view \<Rightarrow> nat \<Rightarrow> lstring \<Rightarrow> obj \<Rightarrow> bool" where
  "inherits A p name s \<longleftrightarrow> (\<exists>q \<in> set (v_uses A p). v_ext A q name = Some s)"

definition conflict_free_at :: "view \<Rightarrow> nat \<Rightarrow> bool" where
  "conflict_free_at A p \<longleftrightarrow> (\<forall>name s. inherits A p name s \<longrightarrow>
     (\<forall>s'. v_present A p name = Some s' \<longrightarrow> s' = s \<or> s' \<in> v_shadow A p)
     \<and> (v_present A p name = None \<longrightarrow> (\<forall>s'. inherits A p name s' \<longrightarrow> s' = s)))"

definition conflict_free :: "view \<Rightarrow> bool" where
  "conflict_free A \<longleftrightarrow> (\<forall>p. conflict_free_at A p)"

definition world_ok :: "world \<Rightarrow> bool" where
  "world_ok w \<longleftrightarrow> tables_ok w \<and> symbols_ok w \<and> view_ok (view w)
     \<and> set (packages w) \<subseteq> {..<length (packs w)}"

lemma names_ok_not_null:
  "names_ok (view w) \<Longrightarrow> v_ext (view w) p name = Some s \<or> v_int (view w) p name = Some s \<Longrightarrow> s \<noteq> ObjNull"
  by (force simp: names_ok_def symbol_of_def)

lemma names_ok_ObjNull:
  "names_ok (view w) \<Longrightarrow> v_ext (view w) p name \<noteq> Some ObjNull \<and> v_int (view w) p name \<noteq> Some ObjNull"
  using names_ok_not_null by blast

lemma uses_bound: "uses_ok A \<Longrightarrow> q \<in> set (v_uses A p) \<Longrightarrow> q < v_count A"
  by (auto simp: uses_ok_def)

lemma inherited_symbol_view:
  assumes "tables_ok w" and "names_ok (view w)" and "set l \<subseteq> {..<length (packs w)}"
  shows "inherited_symbol w name l =
     Some (case v_inherited (view w) name l of Some s \<Rightarrow> s | None \<Rightarrow> ObjNull)"
  using assms(3)
  by (induction l)
    (auto simp: external_symbol_view [OF assms(1)] names_ok_ObjNull [OF assms(2)] split: option.splits)

lemma v_inherited_Some:
  "v_inherited A name l = Some s \<Longrightarrow> \<exists>q \<in> set l. v_ext A q name = Some s"
  "v_inherited A name l = None \<longleftrightarrow> (\<forall>q \<in> set l. v_ext A q name = None)"
  by (induction l) (auto split: option.splits)

text \<open>\<open>find-symbol\<close> looks at the external table, the internal one and the used packages, in this order.\<close>

lemma find_symbol_view:
  assumes ok: "world_ok w" and p: "p < length (packs w)"
  shows "mkcl_find_symbol_nolock w name p = Some (v_find (view w) name p)"
proof -
  have t: "tables_ok w" and n: "names_ok (view w)" and "uses_ok (view w)"
    using ok by (simp_all add: world_ok_def view_ok_def)
  then have u: "set (uses (pack w p)) \<subseteq> {..<length (packs w)}"
    using p uses_bound [of "view w" _ p] by auto
  have "s \<noteq> ObjNull" if "v_inherited (view w) name (uses (pack w p)) = Some s" for s
    using v_inherited_Some(1) [OF that] names_ok_not_null [OF n] by blast
  then show ?thesis
    using names_ok_not_null [OF n]
    by (auto simp: mkcl_find_symbol_nolock_def v_find_def external_symbol_view [OF t p]
        internal_symbol_view [OF t p] inherited_symbol_view [OF t n u] p split: option.splits)
qed

end
