(* ===== verification/Package_Props.thy ===== *)
theory Package_Props
  imports Package_View
begin

text \<open>
  What the package operations keep and achieve. The first part changes one package of a view
  and says when the invariant and the freedom from name conflicts survive; the second does
  the same for the links between packages; the third follows the concrete operations.
\<close>

section \<open>Changes to one package\<close>

definition set_local ::
  "view \<Rightarrow> nat \<Rightarrow> (lstring \<Rightarrow> obj option) \<Rightarrow> (lstring \<Rightarrow> obj option) \<Rightarrow> obj set \<Rightarrow> view" where
  "set_local A p E I S =
     A\<lparr>v_ext := (v_ext A)(p := E), v_int := (v_int A)(p := I), v_shadow := (v_shadow A)(p := S)\<rparr>"

lemma set_local_int: "A\<lparr>v_int := (v_int A)(p := I)\<rparr> = set_local A p (v_ext A p) I (v_shadow A p)"
  and set_local_ext: "A\<lparr>v_ext := (v_ext A)(p := E)\<rparr> = set_local A p E (v_int A p) (v_shadow A p)"
  and set_local_shadow: "A\<lparr>v_shadow := (v_shadow A)(p := S)\<rparr> = set_local A p (v_ext A p) (v_int A p) S"
  by (simp_all add: set_local_def)

lemma set_local_twice: "set_local (set_local A p E I S) p E' I' S' = set_local A p E' I' S'"
  by (simp add: set_local_def)

lemma set_local_select [simp]:
  "v_count (set_local A p E I S) = v_count A" "v_name (set_local A p E I S) = v_name A"
  "v_ext (set_local A p E I S) = (v_ext A)(p := E)" "v_int (set_local A p E I S) = (v_int A)(p := I)"
  "v_shadow (set_local A p E I S) = (v_shadow A)(p := S)" "v_uses (set_local A p E I S) = v_uses A"
  "v_usedby (set_local A p E I S) = v_usedby A" "v_keyword (set_local A p E I S) = v_keyword A"
  by (simp_all add: set_local_def)

lemma present_set_local:
  "v_present (set_local A p E I S) u =
     (if u = p then (\<lambda>name. case E name of Some s \<Rightarrow> Some s | None \<Rightarrow> I name) else v_present A u)"
  by (auto simp: v_present_def fun_eq_iff split: option.splits)

definition local_ok ::
  "view \<Rightarrow> nat \<Rightarrow> (lstring \<Rightarrow> obj option) \<Rightarrow> (lstring \<Rightarrow> obj option) \<Rightarrow> obj set \<Rightarrow> bool" where
  "local_ok A p E I S \<longleftrightarrow>
     (\<forall>name s. E name = Some s \<or> I name = Some s \<longrightarrow> v_name A s = Some name)
     \<and> (\<forall>name. E name = None \<or> I name = None)
     \<and> (\<forall>s \<in> S. \<exists>name. E name = Some s \<or> I name = Some s)
     \<and> (p = v_keyword A \<longrightarrow> I = Map.empty)"

lemma view_ok_set_local:
  assumes "view_ok A" and "local_ok A p E I S"
  shows "view_ok (set_local A p E I S)"
proof -
  have "names_ok (set_local A p E I S)" using assms by (auto simp: view_ok_def names_ok_def local_ok_def)
  moreover have "disjoint_ok (set_local A p E I S)" using assms by (auto simp: view_ok_def disjoint_ok_def local_ok_def)
  moreover have "shadows_ok (set_local A p E I S)"
    unfolding shadows_ok_def
  proof (intro allI ballI)
    fix q s
    assume s: "s \<in> v_shadow (set_local A p E I S) q"
    show "\<exists>name. v_present (set_local A p E I S) q name = Some s"
    proof (cases "q = p")
      case True
      then have "\<exists>name. E name = Some s \<or> I name = Some s" using s assms(2) by (simp add: local_ok_def)
      then obtain name where "E name = Some s \<or> I name = Some s" by blast
      moreover have "E name = None \<or> I name = None" using assms(2) by (auto simp: local_ok_def)
      ultimately have "v_present (set_local A p E I S) q name = Some s"
        using True by (auto simp: present_set_local split: option.splits)
      then show ?thesis by blast
    next
      case False
      then show ?thesis using s assms(1) by (simp add: view_ok_def shadows_ok_def present_set_local)
    qed
  qed
  moreover have "uses_ok (set_local A p E I S)" using assms by (auto simp: view_ok_def uses_ok_def)
  moreover have "keyword_ok (set_local A p E I S)"
    using assms by (auto simp: view_ok_def keyword_ok_def local_ok_def)
  ultimately show ?thesis by (simp add: view_ok_def)
qed

lemma local_ok_self: "view_ok A \<Longrightarrow> local_ok A p (v_ext A p) (v_int A p) (v_shadow A p)"
  by (auto simp: view_ok_def local_ok_def names_ok_def disjoint_ok_def shadows_ok_def keyword_ok_def
      v_present_def split: option.splits) metis

text \<open>Conflicts: the package itself is looked at afresh; the others see a change of its external symbols.\<close>

lemma inherits_set_local:
  "inherits (set_local A p E I S) u name s \<longleftrightarrow>
     (\<exists>q \<in> set (v_uses A u). (if q = p then E name else v_ext A q name) = Some s)"
  by (auto simp: inherits_def)

lemma conflict_free_set_local:
  assumes "conflict_free A" and "conflict_free_at (set_local A p E I S) p"
    and "\<And>u. p \<in> set (v_uses A u) \<Longrightarrow> u \<noteq> p \<Longrightarrow> conflict_free_at (set_local A p E I S) u"
  shows "conflict_free (set_local A p E I S)"
  unfolding conflict_free_def
proof
  fix u
  show "conflict_free_at (set_local A p E I S) u"
  proof (cases "u = p \<or> p \<in> set (v_uses A u)")
    case False
    then have "inherits (set_local A p E I S) u name s \<longleftrightarrow> inherits A u name s" for name s
      by (auto simp: inherits_set_local inherits_def)
    moreover have "conflict_free_at A u" using assms(1) by (simp add: conflict_free_def)
    ultimately show ?thesis using False by (simp add: conflict_free_at_def present_set_local)
  qed (use assms(2,3) in blast)
qed

lemma inherits_shrink:
  assumes "E \<subseteq>\<^sub>m v_ext A p" and "inherits (set_local A p E I S) u name s"
  shows "inherits A u name s"
proof -
  obtain q where q: "q \<in> set (v_uses A u)" "(if q = p then E name else v_ext A q name) = Some s"
    using assms(2) by (auto simp: inherits_set_local)
  then have "v_ext A q name = Some s" using assms(1) by (auto simp: map_le_def dom_def split: if_splits)
  with q(1) show ?thesis by (auto simp: inherits_def)
qed

lemma conflict_free_shrink:
  assumes "conflict_free_at A u" and "u \<noteq> p" and "E \<subseteq>\<^sub>m v_ext A p"
  shows "conflict_free_at (set_local A p E I S) u"
  using assms(1,2) inherits_shrink [OF assms(3)]
  unfolding conflict_free_at_def present_set_local by (simp; blast)

text \<open>The package itself, when only the symbols of one name change.\<close>

lemma conflict_free_here:
  assumes "uses_ok A" and "conflict_free_at A p"
    and other: "\<And>n. n \<noteq> name \<Longrightarrow> v_present (set_local A p E I S) p n = v_present A p n"
    and shadow: "\<And>n s. n \<noteq> name \<Longrightarrow> v_present A p n = Some s \<Longrightarrow> s \<in> v_shadow A p \<Longrightarrow> s \<in> S"
    and here: "\<And>s s'. inherits A p name s \<Longrightarrow> v_present (set_local A p E I S) p name = Some s' \<Longrightarrow> s' = s \<or> s' \<in> S"
    and gone: "\<And>s s'. v_present (set_local A p E I S) p name = None \<Longrightarrow> inherits A p name s \<Longrightarrow> inherits A p name s' \<Longrightarrow> s' = s"
  shows "conflict_free_at (set_local A p E I S) p"
proof -
  have inh: "inherits (set_local A p E I S) p n s \<longleftrightarrow> inherits A p n s" for n s
    using assms(1) by (auto simp: inherits_set_local inherits_def uses_ok_def)
  show ?thesis
    unfolding conflict_free_at_def inh
  proof (intro allI impI)
    fix n s
    assume s: "inherits A p n s"
    show "(\<forall>s'. v_present (set_local A p E I S) p n = Some s' \<longrightarrow> s' = s \<or> s' \<in> v_shadow (set_local A p E I S) p)
        \<and> (v_present (set_local A p E I S) p n = None \<longrightarrow> (\<forall>s'. inherits A p n s' \<longrightarrow> s' = s))"
    proof (cases "n = name")
      case True
      then show ?thesis using s here [of s] gone [of s] by auto
    next
      case False
      have "(\<forall>s'. v_present A p n = Some s' \<longrightarrow> s' = s \<or> s' \<in> v_shadow A p)
          \<and> (v_present A p n = None \<longrightarrow> (\<forall>s'. inherits A p n s' \<longrightarrow> s' = s))"
        using s assms(2) unfolding conflict_free_at_def by blast
      then show ?thesis using other [OF False] shadow [OF False] by auto
    qed
  qed
qed

text \<open>The users of a package that exports one more symbol.\<close>

lemma present_name: "view_ok A \<Longrightarrow> v_present A p name = Some s \<Longrightarrow> v_name A s = Some name"
  by (auto simp: view_ok_def names_ok_def v_present_def split: option.splits)

lemma inherits_name: "view_ok A \<Longrightarrow> inherits A p name s \<Longrightarrow> v_name A s = Some name"
  by (auto simp: view_ok_def names_ok_def inherits_def)

lemma shadow_present:
  "view_ok A \<Longrightarrow> s \<in> v_shadow A p \<Longrightarrow> v_name A s = Some name \<Longrightarrow> v_present A p name = Some s"
  using present_name [of A p _ s] by (auto simp: view_ok_def shadows_ok_def)

lemma v_find_present:
  "p \<noteq> v_keyword A \<Longrightarrow> v_present A p name = Some s \<Longrightarrow> \<exists>flag. v_find A name p = (s, flag) \<and> (flag = IsExternal \<or> flag = IsInternal)"
  by (auto simp: v_find_def v_present_def split: option.splits)

lemma v_find_inherited:
  "p \<noteq> v_keyword A \<Longrightarrow> v_present A p name = None \<Longrightarrow>
     v_find A name p = (case v_inherited A name (v_uses A p) of Some s \<Rightarrow> (s, IsInherited) | None \<Rightarrow> (Cnil, Absent))"
  by (auto simp: v_find_def v_present_def split: option.splits)

lemma v_inherited_inherits:
  "v_inherited A name (v_uses A p) = Some s \<Longrightarrow> inherits A p name s"
  "v_inherited A name (v_uses A p) = None \<longleftrightarrow> (\<forall>s. \<not> inherits A p name s)"
  using v_inherited_Some [of A name "v_uses A p"] by (auto simp: inherits_def)

lemma conflict_free_export:
  assumes ok: "view_ok A" and cf: "conflict_free_at A u" and u: "u \<noteq> p" "u \<noteq> v_keyword A"
    and E: "E = (v_ext A p)(name \<mapsto> s)" and none: "v_ext A p name = None" and nm: "v_name A s = Some name"
    and seen: "case v_find A name u of (x, flag) \<Rightarrow> flag \<noteq> Absent \<longrightarrow> x = s \<or> x \<in> v_shadow A u"
  shows "conflict_free_at (set_local A p E I S) u"
proof -
  have inh: "inherits A u n t \<or> (n = name \<and> t = s)" if "inherits (set_local A p E I S) u n t" for n t
    using that E by (auto simp: inherits_set_local inherits_def split: if_splits)
  have here: "t' = s \<or> t' \<in> v_shadow A u" if "v_present A u name = Some t'" for t'
    using v_find_present [OF u(2) that] seen by auto
  have only: "t = s" if "v_present A u name = None" and t: "inherits A u name t" for t
  proof -
    obtain x where x: "v_inherited A name (v_uses A u) = Some x"
      using v_inherited_inherits(2) [of A name u] t by (cases "v_inherited A name (v_uses A u)") auto
    then have "x = s \<or> x \<in> v_shadow A u" using seen v_find_inherited [OF u(2) that(1)] by simp
    moreover have "x \<notin> v_shadow A u"
      using shadow_present [OF ok] inherits_name [OF ok v_inherited_inherits(1) [OF x]] that(1) by force
    moreover have "t = x" using cf t v_inherited_inherits(1) [OF x] that(1) unfolding conflict_free_at_def by blast
    ultimately show ?thesis by simp
  qed
  show ?thesis
    unfolding conflict_free_at_def present_set_local
    using u(1) cf inh here only unfolding conflict_free_at_def by (simp; metis)
qed

subsection \<open>The changes the operations make\<close>

lemma conflict_free_at_of: "conflict_free A \<Longrightarrow> conflict_free_at A p"
  by (simp add: conflict_free_def)

lemma map_le_minus: "(m :: 'a \<Rightarrow> 'b option)(x := None) \<subseteq>\<^sub>m m"
  by (simp add: map_le_def)

text \<open>A symbol of a new name, or of a name that is only inherited, becomes internal.\<close>

lemma add_internal_ok:
  assumes ok: "view_ok A" and p: "p \<noteq> v_keyword A" and none: "v_present A p name = None"
    and nm: "v_name A s = Some name" and S: "S = v_shadow A p \<or> S = insert s (v_shadow A p)"
  shows "view_ok (set_local A p (v_ext A p) ((v_int A p)(name \<mapsto> s)) S)"
    and "conflict_free A \<Longrightarrow> s \<in> S \<or> (\<forall>s'. inherits A p name s' \<longrightarrow> s' = s) \<Longrightarrow>
      conflict_free (set_local A p (v_ext A p) ((v_int A p)(name \<mapsto> s)) S)"
proof -
  let ?A = "set_local A p (v_ext A p) ((v_int A p)(name \<mapsto> s)) S"
  have E: "v_ext A p name = None" and I: "v_int A p name = None"
    using none by (auto simp: v_present_def split: option.splits)
  have "local_ok A p (v_ext A p) ((v_int A p)(name \<mapsto> s)) S"
    unfolding local_ok_def
  proof (intro conjI ballI)
    fix x
    assume "x \<in> S"
    then have "x = s \<or> (\<exists>n. v_ext A p n = Some x \<or> v_int A p n = Some x)"
      using S local_ok_self [OF ok, of p] unfolding local_ok_def by blast
    then show "\<exists>n. v_ext A p n = Some x \<or> ((v_int A p)(name \<mapsto> s)) n = Some x"
      using E I by (metis fun_upd_other fun_upd_same option.distinct(1))
  qed (use local_ok_self [OF ok, of p] p nm E in \<open>auto simp: local_ok_def split: if_splits\<close>)
  then show "view_ok ?A" by (rule view_ok_set_local [OF ok])
  assume cf: "conflict_free A" and c: "s \<in> S \<or> (\<forall>s'. inherits A p name s' \<longrightarrow> s' = s)"
  have "v_present ?A p n = (if n = name then Some s else v_present A p n)" for n
    using E by (auto simp: present_set_local v_present_def split: option.splits)
  then have "conflict_free_at ?A p"
    using ok cf c S by (intro conflict_free_here [of A p name]) (auto simp: view_ok_def conflict_free_at_of)
  then show "conflict_free ?A"
    using cf by (intro conflict_free_set_local) (auto intro: conflict_free_shrink conflict_free_at_of)
qed

text \<open>The symbol of a name is removed.\<close>

lemma remove_ok:
  assumes ok: "view_ok A" and s: "v_present A p name = Some s"
    and S: "S = v_shadow A p - {s}"
  shows "view_ok (set_local A p ((v_ext A p)(name := None)) ((v_int A p)(name := None)) S)"
    and "conflict_free A \<Longrightarrow> s \<notin> v_shadow A p \<or> (\<forall>t t'. inherits A p name t \<longrightarrow> inherits A p name t' \<longrightarrow> t' = t)
      \<Longrightarrow> conflict_free (set_local A p ((v_ext A p)(name := None)) ((v_int A p)(name := None)) S)"
proof -
  let ?A = "set_local A p ((v_ext A p)(name := None)) ((v_int A p)(name := None)) S"
  have nm: "v_name A s = Some name" by (rule present_name [OF ok s])
  have "local_ok A p ((v_ext A p)(name := None)) ((v_int A p)(name := None)) S"
    unfolding local_ok_def
  proof (intro conjI allI ballI impI)
    fix x
    assume x: "x \<in> S"
    then obtain n where n: "v_ext A p n = Some x \<or> v_int A p n = Some x"
      using local_ok_self [OF ok, of p] S unfolding local_ok_def by blast
    then have "v_name A x = Some n" using ok by (auto simp: view_ok_def names_ok_def)
    moreover have "n \<noteq> name"
    proof
      assume "n = name"
      then have "v_present A p name = Some x"
        using n ok by (auto simp: v_present_def view_ok_def disjoint_ok_def split: option.splits) (metis option.distinct(1))
      then show False using s x S by simp
    qed
    ultimately show "\<exists>n. ((v_ext A p)(name := None)) n = Some x \<or> ((v_int A p)(name := None)) n = Some x"
      using n by auto
  qed (use local_ok_self [OF ok, of p] in \<open>auto simp: local_ok_def split: if_splits\<close>)
  then show "view_ok ?A" by (rule view_ok_set_local [OF ok])
  assume cf: "conflict_free A"
    and c: "s \<notin> v_shadow A p \<or> (\<forall>t t'. inherits A p name t \<longrightarrow> inherits A p name t' \<longrightarrow> t' = t)"
  have pr: "v_present ?A p n = (if n = name then None else v_present A p n)" for n
    by (auto simp: present_set_local v_present_def split: option.splits)
  have "t' = t" if "inherits A p name t" "inherits A p name t'" for t t'
    using c that conflict_free_at_of [OF cf, of p] s unfolding conflict_free_at_def by blast
  moreover have "x \<in> S" if "n \<noteq> name" "v_present A p n = Some x" "x \<in> v_shadow A p" for n x
    using that S present_name [OF ok that(2)] nm by auto
  ultimately have "conflict_free_at ?A p"
    using ok cf pr by (intro conflict_free_here [of A p name]) (auto simp: view_ok_def conflict_free_at_of)
  then show "conflict_free ?A"
    using cf by (intro conflict_free_set_local) (auto intro: conflict_free_shrink conflict_free_at_of map_le_minus)
qed

text \<open>A symbol becomes external.\<close>

lemma export_ok:
  assumes ok: "view_ok A" and none: "v_ext A p name = None" and nm: "v_name A s = Some name"
    and int: "v_int A p name = Some s \<or>
      v_int A p name = None \<and> (conflict_free A \<longrightarrow> (\<forall>t. inherits A p name t \<longrightarrow> t = s))"
  shows "view_ok (set_local A p ((v_ext A p)(name \<mapsto> s)) ((v_int A p)(name := None)) (v_shadow A p))"
    and "conflict_free A \<Longrightarrow>
      (\<And>u. u \<in> set (v_usedby A p) \<Longrightarrow>
        case v_find A name u of (x, flag) \<Rightarrow> flag \<noteq> Absent \<longrightarrow> x = s \<or> x \<in> v_shadow A u) \<Longrightarrow>
      conflict_free (set_local A p ((v_ext A p)(name \<mapsto> s)) ((v_int A p)(name := None)) (v_shadow A p))"
proof -
  let ?E = "(v_ext A p)(name \<mapsto> s)" and ?I = "(v_int A p)(name := None)"
  let ?A = "set_local A p ?E ?I (v_shadow A p)"
  have "local_ok A p ?E ?I (v_shadow A p)"
    unfolding local_ok_def
  proof (intro conjI ballI)
    fix x
    assume "x \<in> v_shadow A p"
    then obtain n where "v_ext A p n = Some x \<or> v_int A p n = Some x"
      using local_ok_self [OF ok, of p] unfolding local_ok_def by blast
    then show "\<exists>n. ?E n = Some x \<or> ?I n = Some x"
      using none int by (intro exI [of _ n]) auto
  qed (use local_ok_self [OF ok, of p] nm in \<open>auto simp: local_ok_def split: if_splits\<close>)
  then show "view_ok ?A" by (rule view_ok_set_local [OF ok])
  assume cf: "conflict_free A"
    and users: "\<And>u. u \<in> set (v_usedby A p) \<Longrightarrow>
        case v_find A name u of (x, flag) \<Rightarrow> flag \<noteq> Absent \<longrightarrow> x = s \<or> x \<in> v_shadow A u"
  have pr: "v_present ?A p n = (if n = name then Some s else v_present A p n)" for n
    by (auto simp: present_set_local v_present_def split: option.splits)
  have "s = t \<or> s \<in> v_shadow A p" if "inherits A p name t" for t
  proof (cases "v_int A p name")
    case (Some s')
    then have "v_present A p name = Some s" using int none by (simp add: v_present_def)
    then show ?thesis using that conflict_free_at_of [OF cf, of p] unfolding conflict_free_at_def by blast
  qed (use int that cf in auto)
  then have "conflict_free_at ?A p"
    using ok cf pr by (intro conflict_free_here [of A p name]) (auto simp: view_ok_def conflict_free_at_of)
  moreover have "conflict_free_at ?A u" if "p \<in> set (v_uses A u)" "u \<noteq> p" for u
  proof (rule conflict_free_export [OF ok conflict_free_at_of [OF cf] that(2) _ refl none nm])
    show "u \<noteq> v_keyword A" using that(1) ok by (auto simp: view_ok_def keyword_ok_def)
    have "u \<in> set (v_usedby A p)" using that(1) ok by (simp add: view_ok_def uses_ok_def)
    then show "case v_find A name u of (x, flag) \<Rightarrow> flag \<noteq> Absent \<longrightarrow> x = s \<or> x \<in> v_shadow A u"
      by (rule users)
  qed
  ultimately show "conflict_free ?A" using cf by (intro conflict_free_set_local) auto
qed

text \<open>An external symbol becomes internal.\<close>

lemma unexport_ok:
  assumes ok: "view_ok A" and s: "v_ext A p name = Some s" and p: "p \<noteq> v_keyword A"
  shows "view_ok (set_local A p ((v_ext A p)(name := None)) ((v_int A p)(name \<mapsto> s)) (v_shadow A p))"
    and "conflict_free A \<Longrightarrow>
      conflict_free (set_local A p ((v_ext A p)(name := None)) ((v_int A p)(name \<mapsto> s)) (v_shadow A p))"
proof -
  let ?E = "(v_ext A p)(name := None)" and ?I = "(v_int A p)(name \<mapsto> s)"
  let ?A = "set_local A p ?E ?I (v_shadow A p)"
  have int: "v_int A p name = None" and nm: "v_name A s = Some name"
    using ok s by (auto simp: view_ok_def disjoint_ok_def names_ok_def) (metis option.distinct(1))
  have "local_ok A p ?E ?I (v_shadow A p)"
    unfolding local_ok_def
  proof (intro conjI ballI)
    fix x
    assume "x \<in> v_shadow A p"
    then obtain n where "v_ext A p n = Some x \<or> v_int A p n = Some x"
      using local_ok_self [OF ok, of p] unfolding local_ok_def by blast
    then show "\<exists>n. ?E n = Some x \<or> ?I n = Some x" using s int by (intro exI [of _ n]) auto
  qed (use local_ok_self [OF ok, of p] nm p in \<open>auto simp: local_ok_def split: if_splits\<close>)
  then show "view_ok ?A" by (rule view_ok_set_local [OF ok])
  assume cf: "conflict_free A"
  have pr: "v_present ?A p n = v_present A p n" for n
    using s by (auto simp: present_set_local v_present_def split: option.splits)
  have inh: "inherits ?A p n t \<longleftrightarrow> inherits A p n t" for n t
    using ok by (auto simp: inherits_set_local inherits_def view_ok_def uses_ok_def)
  have "conflict_free_at ?A p"
    using conflict_free_at_of [OF cf, of p] unfolding conflict_free_at_def pr inh by simp
  then show "conflict_free ?A"
    using cf by (intro conflict_free_set_local) (auto intro: conflict_free_shrink conflict_free_at_of map_le_minus)
qed

text \<open>A symbol takes the place of the one of its name, if there is one, and is shadowing.\<close>

lemma shadowing_ok:
  assumes ok: "view_ok A" and p: "p \<noteq> v_keyword A" and nm: "v_name A s = Some name"
    and S: "S = insert s {x \<in> v_shadow A p. v_name A x \<noteq> Some name}"
  shows "view_ok (set_local A p ((v_ext A p)(name := None)) ((v_int A p)(name \<mapsto> s)) S)"
    and "conflict_free A \<Longrightarrow> conflict_free (set_local A p ((v_ext A p)(name := None)) ((v_int A p)(name \<mapsto> s)) S)"
proof -
  let ?E = "(v_ext A p)(name := None)" and ?I = "(v_int A p)(name \<mapsto> s)"
  let ?A = "set_local A p ?E ?I S"
  have "local_ok A p ?E ?I S"
    unfolding local_ok_def
  proof (intro conjI ballI)
    fix x
    assume x: "x \<in> S"
    show "\<exists>n. ?E n = Some x \<or> ?I n = Some x"
    proof (cases "x = s")
      case False
      then obtain n where n: "v_ext A p n = Some x \<or> v_int A p n = Some x" and "v_name A x \<noteq> Some name"
        using x S local_ok_self [OF ok, of p] unfolding local_ok_def by blast
      then have "n \<noteq> name" using ok by (auto simp: view_ok_def names_ok_def)
      then show ?thesis using n by (intro exI [of _ n]) auto
    qed (intro exI [of _ name], simp)
  qed (use local_ok_self [OF ok, of p] nm p in \<open>auto simp: local_ok_def split: if_splits\<close>)
  then show "view_ok ?A" by (rule view_ok_set_local [OF ok])
  assume cf: "conflict_free A"
  have pr: "v_present ?A p n = (if n = name then Some s else v_present A p n)" for n
    by (auto simp: present_set_local v_present_def split: option.splits)
  have "x \<in> S" if "n \<noteq> name" "v_present A p n = Some x" "x \<in> v_shadow A p" for n x
    using that S present_name [OF ok that(2)] by auto
  then have "conflict_free_at ?A p"
    using ok cf pr S by (intro conflict_free_here [of A p name]) (auto simp: view_ok_def conflict_free_at_of)
  then show "conflict_free ?A"
    using cf by (intro conflict_free_set_local) (auto intro: conflict_free_shrink conflict_free_at_of map_le_minus)
qed

text \<open>A present symbol becomes shadowing.\<close>

lemma shadow_present_ok:
  assumes ok: "view_ok A" and s: "v_present A p name = Some s"
  shows "view_ok (set_local A p (v_ext A p) (v_int A p) (insert s (v_shadow A p)))"
    and "conflict_free A \<Longrightarrow> conflict_free (set_local A p (v_ext A p) (v_int A p) (insert s (v_shadow A p)))"
proof -
  let ?A = "set_local A p (v_ext A p) (v_int A p) (insert s (v_shadow A p))"
  have "\<exists>n. v_ext A p n = Some s \<or> v_int A p n = Some s"
    using s by (auto simp: v_present_def split: option.splits)
  then have "local_ok A p (v_ext A p) (v_int A p) (insert s (v_shadow A p))"
    using local_ok_self [OF ok, of p] unfolding local_ok_def by simp
  then show "view_ok ?A" by (rule view_ok_set_local [OF ok])
  assume cf: "conflict_free A"
  have pr: "v_present ?A p n = v_present A p n" for n
    by (simp add: present_set_local v_present_def)
  have inh: "inherits ?A p n t \<longleftrightarrow> inherits A p n t" for n t
    by (auto simp: inherits_set_local inherits_def)
  have "conflict_free_at ?A p"
    using conflict_free_at_of [OF cf, of p] unfolding conflict_free_at_def pr inh by auto
  then show "conflict_free ?A"
    using cf by (intro conflict_free_set_local) (auto intro: conflict_free_shrink conflict_free_at_of)
qed

section \<open>Links between packages\<close>

definition v_link :: "nat \<Rightarrow> nat \<Rightarrow> view \<Rightarrow> view" where
  "v_link x p A = A\<lparr>v_uses := (v_uses A)(p := x # v_uses A p), v_usedby := (v_usedby A)(x := p # v_usedby A x)\<rparr>"

definition v_unlink :: "nat \<Rightarrow> nat \<Rightarrow> view \<Rightarrow> view" where
  "v_unlink x p A = A\<lparr>v_uses := (v_uses A)(p := removeAll x (v_uses A p)),
     v_usedby := (v_usedby A)(x := removeAll p (v_usedby A x))\<rparr>"

lemma link_select [simp]:
  "v_ext (v_link x p A) = v_ext A" "v_int (v_link x p A) = v_int A" "v_shadow (v_link x p A) = v_shadow A"
  "v_name (v_link x p A) = v_name A" "v_count (v_link x p A) = v_count A" "v_keyword (v_link x p A) = v_keyword A"
  "v_ext (v_unlink x p A) = v_ext A" "v_int (v_unlink x p A) = v_int A" "v_shadow (v_unlink x p A) = v_shadow A"
  "v_name (v_unlink x p A) = v_name A" "v_count (v_unlink x p A) = v_count A" "v_keyword (v_unlink x p A) = v_keyword A"
  by (simp_all add: v_link_def v_unlink_def)

lemma present_link [simp]: "v_present (v_link x p A) = v_present A" "v_present (v_unlink x p A) = v_present A"
  by (simp_all add: v_present_def fun_eq_iff split: option.splits)

lemma view_ok_link:
  assumes "view_ok A" and "x \<noteq> p" and "x \<noteq> v_keyword A" and "p \<noteq> v_keyword A" and "x < v_count A"
  shows "view_ok (v_link x p A)"
proof -
  have "uses_ok (v_link x p A)" using assms by (auto simp: view_ok_def uses_ok_def v_link_def)
  moreover have "keyword_ok (v_link x p A)" using assms by (auto simp: view_ok_def keyword_ok_def v_link_def)
  ultimately show ?thesis using assms(1) by (simp add: view_ok_def names_ok_def disjoint_ok_def shadows_ok_def)
qed

lemma view_ok_unlink:
  assumes "view_ok A"
  shows "view_ok (v_unlink x p A)"
proof -
  have "uses_ok (v_unlink x p A)" using assms by (auto simp: view_ok_def uses_ok_def v_unlink_def)
  moreover have "keyword_ok (v_unlink x p A)" using assms by (auto simp: view_ok_def keyword_ok_def v_unlink_def)
  ultimately show ?thesis using assms(1) by (simp add: view_ok_def names_ok_def disjoint_ok_def shadows_ok_def)
qed

lemma conflict_free_unlink:
  assumes "conflict_free A"
  shows "conflict_free (v_unlink x p A)"
proof -
  have "inherits A u name s" if "inherits (v_unlink x p A) u name s" for u name s
    using that by (auto simp: inherits_def v_unlink_def split: if_splits)
  then show ?thesis
    using assms unfolding conflict_free_def conflict_free_at_def by (simp; blast)
qed

lemma inherits_link:
  "inherits (v_link x p A) u name s \<longleftrightarrow> inherits A u name s \<or> (u = p \<and> v_ext A x name = Some s)"
  by (auto simp: inherits_def v_link_def)

text \<open>The check of \<open>use-package\<close>: a symbol of the name that is accessible is the same one or is shadowing.\<close>

lemma conflict_free_link:
  assumes ok: "view_ok A" and cf: "conflict_free A" and p: "p \<noteq> v_keyword A"
    and seen: "\<And>name s. v_ext A x name = Some s \<Longrightarrow>
      case v_find A name p of (t, flag) \<Rightarrow> flag \<noteq> Absent \<longrightarrow> t = s \<or> t \<in> v_shadow A p"
  shows "conflict_free (v_link x p A)"
  unfolding conflict_free_def
proof
  fix u
  have cfu: "conflict_free_at A u" using cf by (simp add: conflict_free_def)
  show "conflict_free_at (v_link x p A) u"
  proof (cases "u = p")
    case False
    then show ?thesis using cfu by (simp add: conflict_free_at_def inherits_link)
  next
    case True
    have here: "t = s \<or> t \<in> v_shadow A p" if "v_ext A x name = Some s" "v_present A p name = Some t" for name s t
      using seen [OF that(1)] v_find_present [OF p that(2)] by auto
    have only: "t = s" if e: "v_ext A x name = Some s" and n: "v_present A p name = None" and t: "inherits A p name t" for name s t
    proof -
      obtain y where y: "v_inherited A name (v_uses A p) = Some y"
        using v_inherited_inherits(2) [of A name p] t by (cases "v_inherited A name (v_uses A p)") auto
      then have "y = s \<or> y \<in> v_shadow A p" using seen [OF e] v_find_inherited [OF p n] by simp
      moreover have "y \<notin> v_shadow A p"
        using shadow_present [OF ok] inherits_name [OF ok v_inherited_inherits(1) [OF y]] n by force
      moreover have "t = y" using cfu True t v_inherited_inherits(1) [OF y] n unfolding conflict_free_at_def by blast
      ultimately show ?thesis by simp
    qed
    show ?thesis
      unfolding conflict_free_at_def inherits_link present_link link_select True
    proof (intro allI impI conjI)
      fix name s s'
      assume s: "inherits A p name s \<or> p = p \<and> v_ext A x name = Some s"
      show "s' = s \<or> s' \<in> v_shadow A p" if "v_present A p name = Some s'"
        using s that here cfu True unfolding conflict_free_at_def by blast
      show "s' = s" if "v_present A p name = None" "inherits A p name s' \<or> p = p \<and> v_ext A x name = Some s'"
        using s that only cfu True unfolding conflict_free_at_def by (metis option.inject)
    qed
  qed
qed

end
