(* ===== verification/Package_Ops.thy ===== *)
theory Package_Ops
  imports Package_Props
begin

text \<open>
  The package operations keep the invariant \<open>world_ok\<close> and, as long as no name conflict is
  let through, freedom from name conflicts. Each operation is shown to return, with an error
  or a value, from every world that satisfies the invariant.
\<close>

section \<open>Worlds\<close>

lemma same_but_tables_fields:
  assumes "same_but_tables w w'"
  shows "tables_ok w'" and "symbol_of w' = symbol_of w" and "length (packs w') = length (packs w)"
    and "packages w' = packages w" and "keyword_package w' = keyword_package w"
    and "nil_symbol w' = nil_symbol w" and "syms w' = syms w" and "to_be_created w' = to_be_created w"
    and "lisp_package w' = lisp_package w"
proof -
  have eq: "w'\<lparr>packs := []\<rparr> = w\<lparr>packs := []\<rparr>" using assms by (simp add: same_but_tables_def)
  from eq show "packages w' = packages w" "keyword_package w' = keyword_package w"
    "nil_symbol w' = nil_symbol w" "syms w' = syms w" "to_be_created w' = to_be_created w"
    "lisp_package w' = lisp_package w"
    by (cases w; cases w'; simp)+
  then show "symbol_of w' = symbol_of w" by (simp add: symbol_of_def fun_eq_iff)
  have "map no_tables (packs w') = map no_tables (packs w)" using assms by (simp add: same_but_tables_def)
  from arg_cong [OF this, of length] show "length (packs w') = length (packs w)" by simp
  show "tables_ok w'" using assms by (simp add: same_but_tables_def)
qed

lemma same_but_tables_world_ok:
  assumes "world_ok w" and "same_but_tables w w'" and "view_ok (view w')"
  shows "world_ok w'"
  using assms same_but_tables_fields [OF assms(2)] by (simp add: world_ok_def symbols_ok_def)

text \<open>Changes to a symbol that keep its name.\<close>

lemma symbol_of_upd_symbol:
  "symbol_of (upd_symbol s f w) = (\<lambda>x. if x = s then map_option f (symbol_of w x) else symbol_of w x)"
proof
  fix x
  show "symbol_of (upd_symbol s f w) x = (if x = s then map_option f (symbol_of w x) else symbol_of w x)"
    by (cases s; cases x)
      (auto simp: symbol_of_def upd_symbol_def store_def nth_list_update split: option.splits cell.splits if_splits)
qed

lemma upd_symbol_fields [simp]:
  "packs (upd_symbol s f w) = packs w" "packages (upd_symbol s f w) = packages w"
  "keyword_package (upd_symbol s f w) = keyword_package w" "pack (upd_symbol s f w) = pack w"
  "to_be_created (upd_symbol s f w) = to_be_created w" "lisp_package (upd_symbol s f w) = lisp_package w"
  by (auto simp: upd_symbol_def pack_def fun_eq_iff split: option.splits cell.splits)

lemma upd_symbol_world:
  assumes "world_ok w" and f: "\<And>y. sym_name (f y) = sym_name y \<and> hashed_name (f y) = hashed_name y"
  shows "view (upd_symbol s f w) = view w" and "world_ok (upd_symbol s f w)"
proof -
  have nm: "map_option sym_name (symbol_of (upd_symbol s f w) x) = map_option sym_name (symbol_of w x)" for x
    using f by (simp add: symbol_of_upd_symbol option.map_comp comp_def)
  show v: "view (upd_symbol s f w) = view w"
    by (simp add: view_def nm of_pack_def fun_eq_iff)
  have "symbols_ok (upd_symbol s f w)"
    using assms by (auto simp: symbols_ok_def world_ok_def symbol_of_upd_symbol split: if_splits)
  then show "world_ok (upd_symbol s f w)"
    using assms(1) v by (simp add: world_ok_def tables_ok_def)
qed

lemma home_world:
  assumes "world_ok w"
  shows "view (make_resident_symbol_homeless s p w) = view w" "world_ok (make_resident_symbol_homeless s p w)"
    "view (set_symbol_home_if_homeless s p w) = view w" "world_ok (set_symbol_home_if_homeless s p w)"
  using upd_symbol_world [OF assms]
  by (simp_all add: make_resident_symbol_homeless_def set_symbol_home_if_homeless_def)

text \<open>A new symbol.\<close>

definition v_new :: "obj \<Rightarrow> lstring \<Rightarrow> view \<Rightarrow> view" where
  "v_new s name A = A\<lparr>v_name := (v_name A)(s \<mapsto> name)\<rparr>"

lemma new_select [simp]:
  "v_ext (v_new s name A) = v_ext A" "v_int (v_new s name A) = v_int A" "v_shadow (v_new s name A) = v_shadow A"
  "v_uses (v_new s name A) = v_uses A" "v_usedby (v_new s name A) = v_usedby A"
  "v_name (v_new s name A) = (v_name A)(s \<mapsto> name)" "v_keyword (v_new s name A) = v_keyword A"
  "v_count (v_new s name A) = v_count A"
  by (simp_all add: v_new_def)

lemma new_accessible [simp]:
  "v_present (v_new s name A) = v_present A" "inherits (v_new s name A) = inherits A"
  "conflict_free (v_new s name A) = conflict_free A" "v_find (v_new s name A) = v_find A"
proof -
  show p: "v_present (v_new s name A) = v_present A" by (simp add: v_present_def fun_eq_iff split: option.splits)
  show i: "inherits (v_new s name A) = inherits A" by (simp add: inherits_def fun_eq_iff)
  show "conflict_free (v_new s name A) = conflict_free A" by (simp add: conflict_free_def conflict_free_at_def p i)
  have "v_inherited (v_new s name A) n l = v_inherited A n l" for n l by (induction l) (auto split: option.splits)
  then show "v_find (v_new s name A) = v_find A" by (simp add: v_find_def fun_eq_iff split: option.splits)
qed

lemma view_ok_new:
  assumes "view_ok A" and "v_name A s = None"
  shows "view_ok (v_new s name A)"
proof -
  have "names_ok (v_new s name A)" using assms by (auto simp: view_ok_def names_ok_def)
  moreover have "uses_ok (v_new s name A)"
    using assms(1) unfolding view_ok_def uses_ok_def new_select by blast
  ultimately show ?thesis
    using assms(1) by (simp add: view_ok_def disjoint_ok_def shadows_ok_def keyword_ok_def)
qed

lemma make_symbol_world:
  assumes ok: "world_ok w" and mk: "mk_cl_make_symbol name w = (s, w1)"
  shows "view w1 = v_new s name (view w)" and "symbol_of w s = None" and "s \<noteq> Cnil" and "s \<noteq> ObjNull"
    and "world_ok w1" and "packs w1 = packs w" and "packages w1 = packages w"
    and "keyword_package w1 = keyword_package w" and "symbol_of w1 s = Some (new_symbol name)"
    and "conflict_free (view w) \<Longrightarrow> conflict_free (view w1)"
proof -
  have s: "s = Ref (length (syms w))" and w1: "w1 = w\<lparr>syms := syms w @ [SymC (new_symbol name)]\<rparr>"
    using mk by (auto simp: mk_cl_make_symbol_def alloc_def)
  show "s \<noteq> Cnil" "s \<noteq> ObjNull" "packs w1 = packs w" "packages w1 = packages w"
    "keyword_package w1 = keyword_package w" using s w1 by simp_all
  show new: "symbol_of w1 s = Some (new_symbol name)" and old: "symbol_of w s = None"
    using s w1 by (simp_all add: symbol_of_def)
  have sy: "symbol_of w1 x = (if x = s then Some (new_symbol name) else symbol_of w x)" for x
    using s w1 by (cases x) (auto simp: symbol_of_def nth_append)
  have pk: "packs w1 = packs w" and kw: "keyword_package w1 = keyword_package w" using w1 by simp_all
  show v: "view w1 = v_new s name (view w)"
    by (auto simp: view_def v_new_def of_pack_def pack_def sy pk kw new_symbol_def fun_eq_iff)
  have "view_ok (v_new s name (view w))"
    using ok old by (intro view_ok_new) (simp_all add: world_ok_def)
  then show "world_ok w1"
    using ok v pk \<open>packages w1 = packages w\<close>
    by (auto simp: world_ok_def tables_ok_def symbols_ok_def sy new_symbol_def)
  show "conflict_free (view w) \<Longrightarrow> conflict_free (view w1)"
    unfolding v by simp
qed

text \<open>Changes to the fields of a package other than its tables.\<close>

lemma upd_shadow_view:
  assumes "p < length (packs w)"
  shows "view (upd_pack p (\<lambda>P. P\<lparr>shadowings := f P\<rparr>) w) =
     (view w)\<lparr>v_shadow := (v_shadow (view w))(p := set (f (pack w p)))\<rparr>"
  unfolding view_upd_pack [OF assms] using view_same [OF assms] by simp

lemma tables_ok_upd_field:
  assumes "tables_ok w" and "p < length (packs w)"
    and "internal (g (pack w p)) = internal (pack w p)" and "external (g (pack w p)) = external (pack w p)"
  shows "tables_ok (upd_pack p g w)"
  using assms tables_ok_pack [OF assms(1,2)] by (intro tables_ok_upd) simp_all

text \<open>
  What an operation keeps, whether it succeeds or fails: the invariant, and freedom from name
  conflicts as long as \<open>careful\<close> says that the caller lets no conflict through.
\<close>

definition keeps :: "bool \<Rightarrow> world \<Rightarrow> world \<Rightarrow> bool" where
  "keeps careful w w' \<longleftrightarrow> world_ok w' \<and> (careful \<longrightarrow> conflict_free (view w) \<longrightarrow> conflict_free (view w'))"

abbreviation kept :: "world \<Rightarrow> world \<Rightarrow> bool" where
  "kept \<equiv> keeps True"

lemma kept_def: "kept w w' \<longleftrightarrow> world_ok w' \<and> (conflict_free (view w) \<longrightarrow> conflict_free (view w'))"
  by (simp add: keeps_def)

lemma kept_keeps: "kept w w' \<Longrightarrow> keeps careful w w'"
  by (simp add: keeps_def)

lemma keeps_trans: "keeps careful w w1 \<Longrightarrow> keeps careful w1 w2 \<Longrightarrow> keeps careful w w2"
  by (simp add: keeps_def)

lemmas kept_trans = keeps_trans [of True]

definition safely_if :: "bool \<Rightarrow> world \<Rightarrow> 'a outcome \<Rightarrow> bool" where
  "safely_if careful w out \<longleftrightarrow> (\<exists>r w'. out = Some (r, w') \<and> keeps careful w w')"

abbreviation safely :: "world \<Rightarrow> 'a outcome \<Rightarrow> bool" where
  "safely \<equiv> safely_if True"

lemmas safely_def = safely_if_def [of True]

lemma safely_if: "safely w out \<Longrightarrow> safely_if careful w out"
  unfolding safely_if_def using kept_keeps by blast

lemma safely_done: "keeps careful w w' \<Longrightarrow> safely_if careful w (Some (r, w'))"
  by (simp add: safely_if_def)

lemma safely_same [simp]: "world_ok w \<Longrightarrow> safely_if careful w (Some (r, w))"
  by (simp add: safely_if_def keeps_def)

lemma safely_trans: "keeps careful w w1 \<Longrightarrow> safely_if careful w1 out \<Longrightarrow> safely_if careful w out"
  unfolding safely_if_def using keeps_trans by blast

lemma safely_CE:
  "world_ok w \<Longrightarrow> (\<And>ans. safely_if careful w (k ans)) \<Longrightarrow> safely_if careful w (CEpackage_error ans e w k)"
  by (auto simp: CEpackage_error_def split: list.splits bool.splits)

lemma safely_unless_closed:
  "world_ok w \<Longrightarrow> (\<And>ans. safely_if careful w (k ans)) \<Longrightarrow> safely_if careful w (unless_closed ans p w k)"
  by (simp add: unless_closed_def safely_CE)

definition desig_ok :: "world \<Rightarrow> designator \<Rightarrow> bool" where
  "desig_ok w d \<longleftrightarrow> (case d of DPackage p \<Rightarrow> p < length (packs w) | DName n \<Rightarrow> True)"

lemma find_package_bound:
  assumes "world_ok w" and "desig_ok w d" and "mkcl_find_package_nolock w d = Some p"
  shows "p < length (packs w)"
  using assms by (auto simp: mkcl_find_package_nolock_def desig_ok_def world_ok_def find_Some_iff
      split: designator.splits dest: nth_mem)

lemma safely_coerce:
  assumes "world_ok w" and "desig_ok w d"
    and "\<And>p. p < length (packs w) \<Longrightarrow> mkcl_find_package_nolock w d = Some p \<Longrightarrow> safely_if careful w (k p)"
  shows "safely_if careful w (mk_si_coerce_to_package d w k)"
  using assms find_package_bound [OF assms(1,2)]
  by (auto simp: mk_si_coerce_to_package_def split: option.splits)

lemma safely_symbol:
  assumes "world_ok w" and "\<And>name. v_name (view w) s = Some name \<Longrightarrow> safely_if careful w (k name)"
  shows "safely_if careful w (with_symbol_name s w k)"
  using assms by (auto simp: with_symbol_name_def split: option.splits)

section \<open>Interning\<close>

lemma v_find_absent:
  assumes "v_find A name p = (s, Absent)" and "view_ok A"
  shows "s = Cnil" and "v_ext A p name = None" and "v_int A p name = None"
    and "\<not> inherits A p name t"
proof -
  have "s = Cnil \<and> v_ext A p name = None \<and> v_int A p name = None \<and> (\<forall>t. \<not> inherits A p name t)"
    using assms v_inherited_inherits(2) [of A name p]
    by (auto simp: v_find_def view_ok_def keyword_ok_def inherits_def split: option.splits if_splits)
  then show "s = Cnil" "v_ext A p name = None" "v_int A p name = None" "\<not> inherits A p name t" by auto
qed

lemma intern_new_world:
  assumes ok: "world_ok w" and p: "p < length (packs w)" and absent: "v_find (view w) name p = (x, Absent)"
  shows "\<exists>s w'. intern_new name p w = Some (Inr (s, Absent), w') \<and> kept w w' \<and> symbol_of w s = None
      \<and> view w' = (if p = keyword_package w
          then set_local (v_new s name (view w)) p ((v_ext (view w) p)(name \<mapsto> s)) (v_int (view w) p) (v_shadow (view w) p)
          else set_local (v_new s name (view w)) p (v_ext (view w) p) ((v_int (view w) p)(name \<mapsto> s)) (v_shadow (view w) p))
      \<and> map_option hpack (symbol_of w' s) = Some (Some p)"
proof -
  obtain s w1 where mk: "mk_cl_make_symbol name w = (s, w1)" by (metis prod.exhaust)
  note m = make_symbol_world [OF ok mk]
  let ?A = "v_new s name (view w)"
  have vok: "view_ok (view w)" using ok by (simp add: world_ok_def)
  note abs = v_find_absent [OF absent vok]
  define w2 where "w2 = upd_symbol s (\<lambda>y. y\<lparr>hpack := Some p\<rparr>) w1"
  have w2: "view w2 = ?A" "world_ok w2" using upd_symbol_world [OF m(5)] m(1) by (simp_all add: w2_def)
  have sy2: "symbol_of w2 s = Some ((new_symbol name)\<lparr>hpack := Some p\<rparr>)"
    using m(9) by (simp add: w2_def symbol_of_upd_symbol)
  have Aok: "view_ok ?A" using w2 by (simp add: world_ok_def)
  have pres: "v_present ?A p name = None" using abs by (simp add: v_present_def)
  show ?thesis
  proof (cases "p = keyword_package w")
    case True
    define w3 where "w3 = upd_symbol s (\<lambda>y. y\<lparr>stype := or (stype y) 1, sym_value := s\<rparr>) w2"
    have w3: "view w3 = ?A" "world_ok w3" using upd_symbol_world [OF w2(2)] w2(1) by (simp_all add: w3_def)
    have p3: "p < length (packs w3)" using p m(6) by (simp add: w3_def w2_def)
    obtain w4 where w4: "set_external p name s w3 = Some w4" "same_but_tables w3 w4"
        "view w4 = (view w3)\<lparr>v_ext := (v_ext (view w3))(p := (v_ext (view w3) p)(name \<mapsto> s))\<rparr>"
      using set_external_view [OF _ p3] w3(2) by (metis world_ok_def)
    have v4: "view w4 = set_local ?A p ((v_ext (view w) p)(name \<mapsto> s)) (v_int (view w) p) (v_shadow (view w) p)"
      using w4(3) w3(1) by (simp add: set_local_ext)
    have "(v_int (view w) p)(name := None) = v_int (view w) p" using abs(3) by auto
    then have "view_ok (view w4)" and "conflict_free (view w) \<Longrightarrow> conflict_free (view w4)"
      using export_ok [OF Aok, of p name s] abs True vok
      by (auto simp: v4 view_ok_def keyword_ok_def)
    then have "kept w w4" using same_but_tables_world_ok [OF w3(2) w4(2)] by (simp add: kept_def)
    moreover have "symbol_of w4 s = Some ((new_symbol name)\<lparr>hpack := Some p, stype := or 0 1, sym_value := s\<rparr>)"
      using same_but_tables_fields(2) [OF w4(2)] sy2
      by (simp add: w3_def symbol_of_upd_symbol new_symbol_def)
    moreover have "intern_new name p w = Some (Inr (s, Absent), w4)"
      using mk True w4(1) by (simp add: intern_new_def w2_def w3_def)
    ultimately show ?thesis using v4 True m(2) by auto
  next
    case False
    have p2: "p < length (packs w2)" using p m(6) by (simp add: w2_def)
    obtain w3 where w3: "set_internal p name s w2 = Some w3" "same_but_tables w2 w3"
        "view w3 = (view w2)\<lparr>v_int := (v_int (view w2))(p := (v_int (view w2) p)(name \<mapsto> s))\<rparr>"
      using set_internal_view [OF _ p2] w2(2) by (metis world_ok_def)
    have v3: "view w3 = set_local ?A p (v_ext (view w) p) ((v_int (view w) p)(name \<mapsto> s)) (v_shadow (view w) p)"
      using w3(3) w2(1) by (simp add: set_local_int)
    have "view_ok (view w3)" and "conflict_free (view w) \<Longrightarrow> conflict_free (view w3)"
      using add_internal_ok [OF Aok _ pres, of s "v_shadow (view w) p"] False abs(4) by (auto simp: v3)
    then have "kept w w3" using same_but_tables_world_ok [OF w2(2) w3(2)] by (simp add: kept_def)
    moreover have "symbol_of w3 s = Some ((new_symbol name)\<lparr>hpack := Some p\<rparr>)"
      using same_but_tables_fields(2) [OF w3(2)] sy2 by simp
    moreover have "intern_new name p w = Some (Inr (s, Absent), w3)"
      using mk False w3(1) by (simp add: intern_new_def w2_def)
    ultimately show ?thesis using v3 False m(2) by auto
  qed
qed

lemma intern_in_cases:
  assumes ok: "world_ok w" and p: "p < length (packs w)"
  shows "intern_in ans name p w =
     (let (s, flag) = v_find (view w) name p
      in if flag \<noteq> Absent then Some (Inr (s, flag), w)
         else if closed (pack w p) then Some (Inl (ClosedPackage p), w)
         else intern_new name p w)"
  by (induction ans) (auto simp: find_symbol_view [OF ok p] split: prod.splits)

lemma intern_safe: "world_ok w \<Longrightarrow> desig_ok w d \<Longrightarrow> safely w (mkcl_intern ans name d w)"
  unfolding mkcl_intern_def
proof (rule safely_coerce)
  fix p
  assume ok: "world_ok w" and p: "p < length (packs w)"
  obtain s flag where f: "v_find (view w) name p = (s, flag)" by (metis prod.exhaust)
  show "safely w (intern_in ans name p w)"
    using intern_new_world [OF ok p, of name s] f ok
    by (auto simp: intern_in_cases [OF ok p] safely_def kept_def)
qed

section \<open>Uninterning\<close>

text \<open>The scan over the used packages finds two different symbols exactly when there are two.\<close>

lemma unintern_conflict_view:
  assumes "tables_ok w" and "names_ok (view w)" and "set l \<subseteq> {..<length (packs w)}"
  shows "\<exists>c. unintern_conflict w name l x = Some c \<and>
     (c = None \<longrightarrow> (\<forall>q \<in> set l. \<forall>t. v_ext (view w) q name = Some t \<longrightarrow>
        (x = ObjNull \<longrightarrow> (\<forall>q' \<in> set l. \<forall>t'. v_ext (view w) q' name = Some t' \<longrightarrow> t' = t)) \<and> (x \<noteq> ObjNull \<longrightarrow> t = x)))"
  using assms(3)
proof (induction l arbitrary: x)
  case Nil
  then show ?case by simp
next
  case (Cons q l)
  have q: "q < length (packs w)" and l: "set l \<subseteq> {..<length (packs w)}" using Cons.prems by auto
  show ?case
  proof (cases "v_ext (view w) q name")
    case None
    then show ?thesis using Cons.IH [OF l, of x] external_symbol_view [OF assms(1) q] by auto
  next
    case (Some y)
    have y: "y \<noteq> ObjNull" using names_ok_ObjNull [OF assms(2)] Some by metis
    have e: "external_symbol w q name = Some y" using Some external_symbol_view [OF assms(1) q, of name] by simp
    show ?thesis
    proof (cases "x = ObjNull \<or> x = y")
      case True
      then have c: "unintern_conflict w name (q # l) x = unintern_conflict w name l y" using e y by auto
      obtain c where "unintern_conflict w name l y = Some c"
          "c = None \<longrightarrow> (\<forall>q \<in> set l. \<forall>t. v_ext (view w) q name = Some t \<longrightarrow> t = y)"
        using Cons.IH [OF l, of y] y by blast
      then show ?thesis unfolding c using True Some y by auto
    next
      case False
      then show ?thesis using e y by auto
    qed
  qed
qed

lemma unintern_remove_world:
  assumes ok: "world_ok w" and p: "p < length (packs w)" and s: "v_present (view w) p name = Some s"
    and i: "if is_internal then v_ext (view w) p name = None else v_int (view w) p name = None"
    and w1: "w1 = upd_pack p (\<lambda>P. P\<lparr>shadowings := removeAll s (shadowings P)\<rparr>) w"
    and c: "conflict_free (view w) \<Longrightarrow> s \<notin> v_shadow (view w) p \<or>
      (\<forall>t t'. inherits (view w) p name t \<longrightarrow> inherits (view w) p name t' \<longrightarrow> t' = t)"
  shows "\<exists>w'. unintern_remove is_internal s name p w1 = Some (Inr True, w') \<and> kept w w'
      \<and> view w' = set_local (view w) p ((v_ext (view w) p)(name := None)) ((v_int (view w) p)(name := None))
          (v_shadow (view w) p - {s})"
proof -
  let ?A = "view w"
  have t1: "tables_ok w1" and p1: "p < length (packs w1)"
    using ok p w1 by (auto intro: tables_ok_upd_field simp: world_ok_def)
  have v1: "view w1 = ?A\<lparr>v_shadow := (v_shadow ?A)(p := v_shadow ?A p - {s})\<rparr>"
    using upd_shadow_view [OF p] w1 p by simp
  have ext: "(v_ext ?A p)(name := None) = v_ext ?A p" if "is_internal" using i that by auto
  have int: "(v_int ?A p)(name := None) = v_int ?A p" if "\<not> is_internal" using i that by auto
  obtain w2 where w2: "(if is_internal then rem_internal p name w1 else rem_external p name w1) = Some w2"
      "same_but_tables w1 w2"
      "view w2 = set_local ?A p ((v_ext ?A p)(name := None)) ((v_int ?A p)(name := None)) (v_shadow ?A p - {s})"
  proof (cases is_internal)
    case True
    obtain w2 where "rem_internal p name w1 = Some w2" "same_but_tables w1 w2"
        "view w2 = (view w1)\<lparr>v_int := (v_int (view w1))(p := (v_int (view w1) p)(name := None))\<rparr>"
      by (rule rem_internal_view [OF t1 p1, of name])
    then show thesis using that True ext v1 by (simp add: set_local_def)
  next
    case False
    obtain w2 where "rem_external p name w1 = Some w2" "same_but_tables w1 w2"
        "view w2 = (view w1)\<lparr>v_ext := (v_ext (view w1))(p := (v_ext (view w1) p)(name := None))\<rparr>"
      by (rule rem_external_view [OF t1 p1, of name])
    then show thesis using that False int v1 by (simp add: set_local_def)
  qed
  have vok: "view_ok ?A" using ok by (simp add: world_ok_def)
  note r = remove_ok [OF vok s refl]
  have sf: "packages w2 = packages w" "length (packs w2) = length (packs w)" "symbol_of w2 = symbol_of w" "tables_ok w2"
    using same_but_tables_fields [OF w2(2)] w1 by simp_all
  have "world_ok w2" using r(1) sf ok w2(3) by (simp add: world_ok_def symbols_ok_def)
  moreover have "conflict_free ?A \<Longrightarrow> conflict_free (view w2)" using r(2) c w2(3) by simp
  ultimately show ?thesis
    using w2 home_world [of w2 s p] by (auto simp: unintern_remove_def kept_def)
qed

lemma upd_shadow_none: "p < length (packs w) \<Longrightarrow> s \<notin> set (shadowings (pack w p)) \<Longrightarrow>
    upd_pack p (\<lambda>P. P\<lparr>shadowings := removeAll s (shadowings P)\<rparr>) w = w"
  by (simp add: upd_pack_def pack_def list_update_same_conv [THEN iffD2])

lemma unintern_found_world:
  assumes ok: "world_ok w" and p: "p < length (packs w)" and s: "v_present (view w) p name = Some s"
    and i: "if is_internal then v_ext (view w) p name = None else v_int (view w) p name = None"
  shows "safely w (unintern_found is_internal s name p w)"
    and "unintern_found is_internal s name p w = Some (Inr b, w') \<Longrightarrow>
      b \<and> view w' = set_local (view w) p ((v_ext (view w) p)(name := None)) ((v_int (view w) p)(name := None))
          (v_shadow (view w) p - {s})"
proof -
  define w1 where "w1 = upd_pack p (\<lambda>P. P\<lparr>shadowings := removeAll s (shadowings P)\<rparr>) w"
  have "safely w (unintern_found is_internal s name p w) \<and> (\<forall>b w'. unintern_found is_internal s name p w = Some (Inr b, w') \<longrightarrow>
      b \<and> view w' = set_local (view w) p ((v_ext (view w) p)(name := None)) ((v_int (view w) p)(name := None))
          (v_shadow (view w) p - {s}))"
  proof (cases "s \<in> set (shadowings (pack w p))")
    case False
    then have "w1 = w" using upd_shadow_none [OF p] by (simp add: w1_def)
    then show ?thesis
      using unintern_remove_world [OF ok p s i w1_def] False p by (auto simp: unintern_found_def safely_def)
  next
    case True
    have u: "set (uses (pack w p)) \<subseteq> {..<length (packs w)}"
      using ok p uses_bound [of "view w" _ p] by (auto simp: world_ok_def view_ok_def)
    obtain c where c: "unintern_conflict w name (uses (pack w p)) ObjNull = Some c"
        "c = None \<longrightarrow> (\<forall>t t'. inherits (view w) p name t \<longrightarrow> inherits (view w) p name t' \<longrightarrow> t' = t)"
    proof -
      have "tables_ok w" "names_ok (view w)" using ok by (simp_all add: world_ok_def view_ok_def)
      from unintern_conflict_view [OF this u, of name ObjNull] show thesis
        using that p unfolding inherits_def by (simp; blast)
    qed
    show ?thesis
    proof (cases c)
      case None
      then show ?thesis
        using unintern_remove_world [OF ok p s i w1_def] c True
        by (auto simp: unintern_found_def safely_def w1_def [symmetric])
    next
      case (Some xy)
      then show ?thesis using c True ok by (cases xy) (auto simp: unintern_found_def)
    qed
  qed
  then show "safely w (unintern_found is_internal s name p w)"
    and "unintern_found is_internal s name p w = Some (Inr b, w') \<Longrightarrow>
      b \<and> view w' = set_local (view w) p ((v_ext (view w) p)(name := None)) ((v_int (view w) p)(name := None))
          (v_shadow (view w) p - {s})" by auto
qed

end
