(* ===== verification/Package_Steps.thy ===== *)
theory Package_Steps
  imports Package_Ops
begin

text \<open>
  The rest of the package operations and the system they form: every operation returns from
  a world that satisfies the invariant and keeps it, so that every world reached from a good
  one by package operations is good.
\<close>

section \<open>Uninterning\<close>

lemma unintern_search_view:
  assumes ok: "world_ok w" and p: "p < length (packs w)" and s: "v_name (view w) s = Some name"
  shows "unintern_search s name p w k =
     (if v_int (view w) p name = Some s then k True
      else if v_ext (view w) p name = Some s then k False else Some (Inr False, w))"
proof -
  have "s \<noteq> ObjNull" using s by (auto simp: symbol_of_def)
  moreover have "tables_ok w" using ok by (simp add: world_ok_def)
  ultimately show ?thesis
    using p by (auto simp: unintern_search_def internal_symbol_view external_symbol_view split: option.splits)
qed

lemma unintern_in_closed:
  assumes "world_ok w" and "p < length (packs w)" and "v_name (view w) s = Some name"
  shows "unintern_in ans s name p w =
     (if v_present (view w) p name = Some s
      then if closed (pack w p) then Some (Inl (ClosedPackage p), w)
           else unintern_found (v_int (view w) p name = Some s) s name p w
      else Some (Inr False, w))"
proof -
  have d: "v_ext (view w) p name = None \<or> v_int (view w) p name = None"
    using assms(1) by (auto simp: world_ok_def view_ok_def disjoint_ok_def)
  show ?thesis
    using d by (induction ans)
      (auto simp: unintern_search_view [OF assms] v_present_def split: option.splits)
qed

lemma unintern_safe: "world_ok w \<Longrightarrow> desig_ok w d \<Longrightarrow> safely w (mkcl_unintern ans s d w)"
  unfolding mkcl_unintern_def
proof (intro safely_symbol safely_coerce)
  fix name p
  assume ok: "world_ok w" and s: "v_name (view w) s = Some name" and p: "p < length (packs w)"
  have "v_ext (view w) p name = None \<or> v_int (view w) p name = None"
    using ok by (auto simp: world_ok_def view_ok_def disjoint_ok_def)
  then show "safely w (unintern_in ans s name p w)"
    unfolding unintern_in_closed [OF ok p s]
    using ok unintern_found_world(1) [OF ok p, of name s "v_int (view w) p name = Some s"]
    by (auto simp: v_present_def split: option.splits)
qed

section \<open>Exporting\<close>

lemma same_but_tables_trans: "same_but_tables w w1 \<Longrightarrow> same_but_tables w1 w2 \<Longrightarrow> same_but_tables w w2"
  by (simp add: same_but_tables_def)

text \<open>Tables that changed, seen through the view: the world is kept when the view is.\<close>

lemma keeps_tables:
  assumes "world_ok w" and "same_but_tables w w'" and "view_ok (view w')"
    and "careful \<Longrightarrow> conflict_free (view w) \<Longrightarrow> conflict_free (view w')"
  shows "keeps careful w w'"
  using assms same_but_tables_world_ok by (simp add: keeps_def)

lemmas kept_tables = keeps_tables [of _ _ True]

lemma kept_home:
  assumes "keeps careful w w'"
  shows "keeps careful w (set_symbol_home_if_homeless s p w')" and "keeps careful w (make_resident_symbol_homeless s p w')"
  using assms home_world [of w' s p] by (simp_all add: keeps_def)

lemma usedby_bound:
  assumes "world_ok w" and "p < length (packs w)"
  shows "set (usedby (pack w p)) \<subseteq> {..<length (packs w)}"
proof
  fix u
  assume "u \<in> set (usedby (pack w p))"
  then have "p \<in> set (v_uses (view w) u)"
    using assms by (simp add: world_ok_def view_ok_def uses_ok_def)
  then show "u \<in> {..<length (packs w)}" by (auto simp: view_def of_pack_def split: if_splits)
qed

definition no_clash :: "view \<Rightarrow> lstring \<Rightarrow> obj \<Rightarrow> nat \<Rightarrow> bool" where
  "no_clash V name s u \<longleftrightarrow> (case v_find V name u of (x, flag) \<Rightarrow> flag \<noteq> Absent \<longrightarrow> x = s \<or> x \<in> v_shadow V u)"

lemma export_conflict_view:
  assumes "world_ok w" and "set l \<subseteq> {..<length (packs w)}"
  shows "\<exists>c. export_conflict w s name l = Some c \<and> (c = None \<longleftrightarrow> (\<forall>u \<in> set l. no_clash (view w) name s u))"
  using assms(2)
proof (induction l)
  case (Cons u l)
  obtain x flag where f: "v_find (view w) name u = (x, flag)" by (metis prod.exhaust)
  then show ?case
    using Cons by (cases "no_clash (view w) name s u") (auto simp: find_symbol_view [OF assms(1)] no_clash_def)
qed simp

lemma export_found_world:
  assumes ok: "world_ok w" and p: "p < length (packs w)" and s: "v_name (view w) s = Some name"
    and f: "v_find (view w) name p = (x, flag)"
  shows "safely w (export_found s name p x flag w)"
    and "export_found s name p x flag w = Some (Inr (), w') \<Longrightarrow> v_ext (view w') p name = Some s"
proof -
  let ?V = "view w"
  have vok: "view_ok ?V" and t: "tables_ok w" using ok by (simp_all add: world_ok_def)
  have "safely w (export_found s name p x flag w) \<and>
      (\<forall>w'. export_found s name p x flag w = Some (Inr (), w') \<longrightarrow> v_ext (view w') p name = Some s)"
  proof (cases "x \<noteq> s \<or> flag = IsExternal")
    case True
    then show ?thesis using ok f by (auto simp: export_found_def v_find_def split: option.splits if_splits)
  next
    case False
    then have xs: "x = s" and nx: "flag \<noteq> IsExternal" by simp_all
    have none: "v_ext ?V p name = None" using f nx by (auto simp: v_find_def split: option.splits)
    have inh: "t = s" if i: "inherits ?V p name t" and n: "v_int ?V p name = None" and cf: "conflict_free ?V" for t
    proof -
      have pk: "p \<noteq> v_keyword ?V" using i vok by (auto simp: inherits_def view_ok_def keyword_ok_def)
      obtain y where y: "v_inherited ?V name (v_uses ?V p) = Some y"
        using i v_inherited_inherits(2) [of ?V name p] by (cases "v_inherited ?V name (v_uses ?V p)") auto
      then have "y = s" using f xs none n pk by (simp add: v_find_def)
      moreover have "v_present ?V p name = None" using none n by (simp add: v_present_def)
      ultimately show ?thesis
        using i conflict_free_at_of [OF cf, of p] v_inherited_inherits(1) [OF y] unfolding conflict_free_at_def by blast
    qed
    have "v_int ?V p name = Some s" if "flag = IsInternal"
      using f xs that by (auto simp: v_find_def split: option.splits if_splits)
    moreover have int_none: "v_int ?V p name = None" if "flag \<noteq> IsInternal"
      using f xs nx that vok
      by (auto simp: v_find_def view_ok_def keyword_ok_def split: option.splits if_splits)
    ultimately have int: "v_int ?V p name = Some s \<or>
        v_int ?V p name = None \<and> (conflict_free ?V \<longrightarrow> (\<forall>t. inherits ?V p name t \<longrightarrow> t = s))"
      using inh by blast
    let ?B = "set_local ?V p ((v_ext ?V p)(name \<mapsto> s)) ((v_int ?V p)(name := None)) (v_shadow ?V p)"
    obtain w1 where w1: "(if flag = IsInternal then rem_internal p name w else Some w) = Some w1"
        "same_but_tables w w1" "view w1 = set_local ?V p (v_ext ?V p) ((v_int ?V p)(name := None)) (v_shadow ?V p)"
    proof (cases "flag = IsInternal")
      case True
      obtain w1 where "rem_internal p name w = Some w1" "same_but_tables w w1"
          "view w1 = ?V\<lparr>v_int := (v_int ?V)(p := (v_int ?V p)(name := None))\<rparr>"
        by (rule rem_internal_view [OF t p])
      then show thesis using that True by (simp add: set_local_int)
    next
      case False
      have "(v_int ?V p)(name := None) = v_int ?V p" using int_none [OF False] by auto
      then show thesis using that [of w] False t by (simp add: set_local_def same_but_tables_def)
    qed
    have t1: "tables_ok w1" and p1: "p < length (packs w1)" using same_but_tables_fields [OF w1(2)] p by simp_all
    obtain w2 where w2: "set_external p name s w1 = Some w2" "same_but_tables w1 w2"
        "view w2 = (view w1)\<lparr>v_ext := (v_ext (view w1))(p := (v_ext (view w1) p)(name \<mapsto> s))\<rparr>"
      by (rule set_external_view [OF t1 p1])
    have v2: "view w2 = ?B" using w2(3) w1(3) by (simp add: set_local_def)
    obtain c where c: "export_conflict w s name (usedby (pack w p)) = Some c"
        "c = None \<longleftrightarrow> (\<forall>u \<in> set (usedby (pack w p)). no_clash ?V name s u)"
      using export_conflict_view [OF ok usedby_bound [OF ok p]] by blast
    show ?thesis
    proof (cases c)
      case None
      have "kept w w2"
      proof (rule kept_tables [OF ok same_but_tables_trans [OF w1(2) w2(2)]])
        show "view_ok (view w2)" unfolding v2 by (rule export_ok(1) [OF vok none s int])
        show "conflict_free (view w2)" if "conflict_free ?V"
          unfolding v2 using c(2) None p
          by (intro export_ok(2) [OF vok none s int that]) (simp add: no_clash_def)
      qed
      then show ?thesis using xs nx c(1) None w1(1) w2(1) v2 by (auto simp: export_found_def safely_def)
    next
      case (Some q)
      then show ?thesis using xs nx c(1) ok by (simp add: export_found_def)
    qed
  qed
  then show "safely w (export_found s name p x flag w)"
    and "export_found s name p x flag w = Some (Inr (), w') \<Longrightarrow> v_ext (view w') p name = Some s" by auto
qed

lemma export_safe: "world_ok w \<Longrightarrow> desig_ok w d \<Longrightarrow> safely w (mkcl_export2 ans s d w)"
  unfolding mkcl_export2_def
proof (intro safely_symbol safely_coerce safely_unless_closed)
  fix name p ans'
  assume ok: "world_ok w" and s: "v_name (view w) s = Some name" and p: "p < length (packs w)"
  obtain x flag where f: "v_find (view w) name p = (x, flag)" by (metis prod.exhaust)
  show "safely w (Option.bind (mkcl_find_symbol_nolock w name p) (\<lambda>(x, flag).
      if flag = Absent then CEpackage_error ans' (NotAccessible s p) w (\<lambda>ans. export_found s name p x flag w)
      else export_found s name p x flag w))"
    using export_found_world(1) [OF ok p s f] ok f by (auto simp: find_symbol_view [OF ok p] intro: safely_CE)
qed

section \<open>Unexporting\<close>

lemma unexport_tables:
  assumes ok: "world_ok w" and p: "p < length (packs w)" and s: "v_ext (view w) p name = Some s"
    and k: "p \<noteq> keyword_package w"
  shows "\<exists>w'. Option.bind (rem_external p name w) (set_internal p name s) = Some w' \<and> kept w w'
      \<and> view w' = set_local (view w) p ((v_ext (view w) p)(name := None)) ((v_int (view w) p)(name \<mapsto> s)) (v_shadow (view w) p)"
proof -
  let ?V = "view w"
  have vok: "view_ok ?V" and t: "tables_ok w" using ok by (simp_all add: world_ok_def)
  obtain w1 where w1: "rem_external p name w = Some w1" "same_but_tables w w1"
      "view w1 = ?V\<lparr>v_ext := (v_ext ?V)(p := (v_ext ?V p)(name := None))\<rparr>"
    by (rule rem_external_view [OF t p])
  have t1: "tables_ok w1" and p1: "p < length (packs w1)" using same_but_tables_fields [OF w1(2)] p by simp_all
  obtain w2 where w2: "set_internal p name s w1 = Some w2" "same_but_tables w1 w2"
      "view w2 = (view w1)\<lparr>v_int := (v_int (view w1))(p := (v_int (view w1) p)(name \<mapsto> s))\<rparr>"
    by (rule set_internal_view [OF t1 p1])
  have v2: "view w2 = set_local ?V p ((v_ext ?V p)(name := None)) ((v_int ?V p)(name \<mapsto> s)) (v_shadow ?V p)"
    using w1(3) w2(3) by (simp add: set_local_def)
  have "kept w w2"
    using unexport_ok [OF vok s] k v2 by (intro kept_tables [OF ok same_but_tables_trans [OF w1(2) w2(2)]]) simp_all
  then show ?thesis using w1(1) w2(1) v2 by auto
qed

lemma unexport_safe: "world_ok w \<Longrightarrow> desig_ok w d \<Longrightarrow> safely w (mkcl_unexport2 ans s d w)"
  unfolding mkcl_unexport2_def
proof (intro safely_symbol safely_coerce)
  fix name p
  assume ok: "world_ok w" and p: "p < length (packs w)"
  obtain x flag where f: "v_find (view w) name p = (x, flag)" by (metis prod.exhaust)
  have e: "v_ext (view w) p name = Some s" if "flag = IsExternal" "x = s"
    using f that by (auto simp: v_find_def split: option.splits if_splits)
  have "safely w (Option.bind (mkcl_find_symbol_nolock w name p) (\<lambda>(x, flag).
          if flag = Absent \<or> x \<noteq> s then Some (Inl (NotInPackage s p), w)
          else if flag \<noteq> IsExternal then Some (Inr (), w)
          else map_option (\<lambda>w2. (Inr (), w2)) (Option.bind (rem_external p name w) (set_internal p name s))))"
      if "p \<noteq> keyword_package w"
    using ok f e that unexport_tables [OF ok p, of name s]
    by (auto simp: find_symbol_view [OF ok p] intro!: safely_done)
  then show "safely w (if p = keyword_package w then Some (Inl KeywordPackage, w)
      else unless_closed ans p w (\<lambda>ans. Option.bind (mkcl_find_symbol_nolock w name p) (\<lambda>(x, flag).
          if flag = Absent \<or> x \<noteq> s then Some (Inl (NotInPackage s p), w)
          else if flag \<noteq> IsExternal then Some (Inr (), w)
          else map_option (\<lambda>w2. (Inr (), w2)) (Option.bind (rem_external p name w) (set_internal p name s)))))"
    using ok by (auto intro: safely_unless_closed)
qed

section \<open>Importing\<close>

lemma import_add_world:
  assumes ok: "world_ok w" and p: "p < length (packs w)" and k: "p \<noteq> keyword_package w"
    and s: "v_name (view w) s = Some name" and none: "v_present (view w) p name = None"
    and inh: "careful \<Longrightarrow> conflict_free (view w) \<Longrightarrow> \<forall>t. inherits (view w) p name t \<longrightarrow> t = s"
  shows "\<exists>w'. import_add s name p w = Some (Inr (), w') \<and> keeps careful w w' \<and> v_int (view w') p name = Some s"
proof -
  let ?V = "view w"
  have vok: "view_ok ?V" and t: "tables_ok w" using ok by (simp_all add: world_ok_def)
  obtain y where y: "symbol_of w s = Some y" "sym_name y = name" using s by auto
  have hv: "(case symbol_of w s of Some y \<Rightarrow> hashed_name y | None \<Rightarrow> 0) = mkcl_hash_equal_package name"
    using ok y by (auto simp: world_ok_def symbols_ok_def)
  have int: "v_int ?V p name = None" using none by (auto simp: v_present_def split: option.splits)
  obtain w1 where w1: "add_internal p name s (case symbol_of w s of Some y \<Rightarrow> hashed_name y | None \<Rightarrow> 0) w = Some w1"
      "same_but_tables w w1" "view w1 = ?V\<lparr>v_int := (v_int ?V)(p := (v_int ?V p)(name \<mapsto> s))\<rparr>"
    by (rule add_internal_view [OF t p int hv])
  have v1: "view w1 = set_local ?V p (v_ext ?V p) ((v_int ?V p)(name \<mapsto> s)) (v_shadow ?V p)"
    using w1(3) by (simp add: set_local_int)
  have "keeps careful w w1"
    using add_internal_ok [OF vok _ none s, of "v_shadow ?V p"] k inh v1
    by (intro keeps_tables [OF ok w1(2)]) auto
  moreover have "world_ok w1" using calculation by (simp add: keeps_def)
  moreover have "view (set_symbol_home_if_homeless s p w1) = view w1"
    by (rule home_world(3) [OF \<open>world_ok w1\<close>])
  ultimately show ?thesis
    using w1(1) v1 kept_home(1) by (auto simp: import_add_def)
qed

text \<open>The handler is asked about a closed package at most: it does not let a conflict through.\<close>

definition refuses_conflict :: "world \<Rightarrow> designator \<Rightarrow> answers \<Rightarrow> bool" where
  "refuses_conflict w d ans \<longleftrightarrow>
     (case mkcl_find_package_nolock w d of
        Some p \<Rightarrow> length ans \<le> of_bool (closed (pack w p))
      | None \<Rightarrow> True)"

lemma unless_closed_answers:
  assumes "world_ok w" and "safely_if careful w (k (if closed (pack w p) then tl ans else ans))"
  shows "safely_if careful w (unless_closed ans p w k)"
  using assms by (cases ans) (auto simp: unless_closed_def CEpackage_error_def split: bool.splits)

text \<open>What is imported without a conflict, or over one when the caller does not care.\<close>

lemma import_proceed:
  assumes ok: "world_ok w" and p: "p < length (packs w)" and pk: "p \<noteq> keyword_package w"
    and s: "v_name (view w) s = Some name" and f: "v_find (view w) name p = (x, flag)"
    and fl: "\<not> (flag = IsInternal \<or> flag = IsExternal)" and c: "careful \<Longrightarrow> flag = Absent \<or> x = s"
  shows "safely_if careful w (import_add s name p w)"
proof -
  have vok: "view_ok (view w)" using ok by (simp add: world_ok_def)
  have none: "v_present (view w) p name = None"
    using f fl v_find_present [of p "view w" name] pk by (cases "v_present (view w) p name") auto
  have "t = s" if "careful" "conflict_free (view w)" "inherits (view w) p name t" for t
  proof (cases "flag = Absent")
    case True
    then show ?thesis using that v_find_absent(4) [OF _ vok, of name p x] f by simp
  next
    case False
    then have "inherits (view w) p name s"
      using c fl that(1) f v_inherited_inherits(1) [of "view w" name p s] by (auto simp: v_find_def split: option.splits if_splits)
    then show ?thesis
      using that conflict_free_at_of [OF that(2), of p] none unfolding conflict_free_at_def by blast
  qed
  then have "\<exists>w'. import_add s name p w = Some (Inr (), w') \<and> keeps careful w w' \<and> v_int (view w') p name = Some s"
    by (intro import_add_world [OF ok p pk s none]) simp
  then show ?thesis by (auto intro: safely_done)
qed

lemma import_safe:
  assumes ok: "world_ok w" and d: "desig_ok w d" and k: "mkcl_find_package_nolock w d \<noteq> Some (keyword_package w)"
  shows "safely_if (refuses_conflict w d ans) w (mkcl_import2 ans s d w)"
  unfolding mkcl_import2_def Let_def
proof (intro safely_symbol safely_coerce ok d)
  fix name p
  assume s: "v_name (view w) s = Some name" and p: "p < length (packs w)" and dp: "mkcl_find_package_nolock w d = Some p"
  let ?c = "refuses_conflict w d ans"
  have pk: "p \<noteq> keyword_package w" using k dp by simp
  obtain x flag where f: "v_find (view w) name p = (x, flag)" by (metis prod.exhaust)
  let ?proceed = "if flag = IsInternal \<or> flag = IsExternal then Some (Inr (), w) else import_add s name p w"
  have go: "safely_if ?c w ?proceed" if "?c \<Longrightarrow> flag = Absent \<or> x = s"
    using import_proceed [OF ok p pk s f] ok that by simp
  have "safely_if ?c w
      (if flag \<noteq> Absent \<and> x \<noteq> s then CEpackage_error ans' (ImportConflict s p) w (\<lambda>ans. ?proceed) else ?proceed)"
    if "?c \<Longrightarrow> ans' = []" for ans'
  proof (cases ?c)
    case True
    then have "ans' = []" using that by simp
    then show ?thesis using go ok by (auto simp: CEpackage_error_def)
  next
    case False
    then have "safely_if ?c w ?proceed" by (intro go) simp
    then show ?thesis using safely_CE [OF ok, of ?c "\<lambda>ans. ?proceed"] by (cases "flag \<noteq> Absent \<and> x \<noteq> s") simp_all
  qed
  moreover have "(if closed (pack w p) then tl ans else ans) = []" if "?c"
    using that dp by (cases ans; cases "closed (pack w p)") (simp_all add: refuses_conflict_def)
  ultimately show "safely_if ?c w (unless_closed ans p w (\<lambda>ans. Option.bind (mkcl_find_symbol_nolock w name p) (\<lambda>(x, flag).
      if flag \<noteq> Absent \<and> x \<noteq> s
      then CEpackage_error ans (ImportConflict s p) w
             (\<lambda>ans. if flag = IsInternal \<or> flag = IsExternal then Some (Inr (), w) else import_add s name p w)
      else if flag = IsInternal \<or> flag = IsExternal then Some (Inr (), w) else import_add s name p w)))"
    by (intro unless_closed_answers ok) (simp add: find_symbol_view [OF ok p] f)
qed

section \<open>Shadowing\<close>

lemma push_shadowing_world:
  assumes ok: "world_ok w" and p: "p < length (packs w)" and s: "v_present (view w) p name = Some s"
  shows "kept w (push_shadowing s p w)"
proof -
  let ?V = "view w"
  have v: "view (push_shadowing s p w) = set_local ?V p (v_ext ?V p) (v_int ?V p) (insert s (v_shadow ?V p))"
    unfolding push_shadowing_def upd_shadow_view [OF p] using p by (simp add: set_local_shadow)
  have vok: "view_ok ?V" using ok by (simp add: world_ok_def)
  have "tables_ok (push_shadowing s p w)"
    unfolding push_shadowing_def using ok p by (intro tables_ok_upd_field) (simp_all add: world_ok_def)
  then show ?thesis
    using shadow_present_ok [OF vok s] ok v
    by (auto simp: kept_def world_ok_def symbols_ok_def push_shadowing_def)
qed

text \<open>The new shadowing symbol of a name, from a world that is good up to the old symbol of the name.\<close>

lemma shadowing_add_world:
  assumes ok: "world_ok w" and p: "p < length (packs w)" and k: "p \<noteq> keyword_package w"
    and s: "v_name (view w) s = Some name"
    and w1: "tables_ok w1" "length (packs w1) = length (packs w)" "symbols_ok w1" "packages w1 = packages w"
    and v1: "view w1 = set_local (view w) p ((v_ext (view w) p)(name := None)) I {x \<in> v_shadow (view w) p. v_name (view w) x \<noteq> Some name}"
    and I: "I(name \<mapsto> s) = (v_int (view w) p)(name \<mapsto> s)"
  shows "\<exists>w'. shadowing_add s name p w1 = Some (Inr (), w') \<and> kept w w'
      \<and> v_int (view w') p name = Some s \<and> s \<in> v_shadow (view w') p"
proof -
  let ?V = "view w" and ?w2 = "push_shadowing s p w1"
  let ?S = "insert s {x \<in> v_shadow ?V p. v_name ?V x \<noteq> Some name}"
  have vok: "view_ok ?V" using ok by (simp add: world_ok_def)
  have p1: "p < length (packs w1)" and p2: "p < length (packs ?w2)" using p w1(2) by (simp_all add: push_shadowing_def)
  have t2: "tables_ok ?w2" unfolding push_shadowing_def using w1(1) p1 by (intro tables_ok_upd_field) simp_all
  have "set (shadowings (pack w1 p)) = v_shadow (view w1) p" using p1 by simp
  then have v2: "view ?w2 = set_local ?V p ((v_ext ?V p)(name := None)) I ?S"
    unfolding push_shadowing_def upd_shadow_view [OF p1] v1 by (simp add: set_local_def)
  obtain w3 where w3: "set_internal p name s ?w2 = Some w3" "same_but_tables ?w2 w3"
      "view w3 = (view ?w2)\<lparr>v_int := (v_int (view ?w2))(p := (v_int (view ?w2) p)(name \<mapsto> s))\<rparr>"
    by (rule set_internal_view [OF t2 p2])
  have v3: "view w3 = set_local ?V p ((v_ext ?V p)(name := None)) ((v_int ?V p)(name \<mapsto> s)) ?S"
    using w3(3) v2 I by (simp add: set_local_def)
  have pk: "p \<noteq> v_keyword ?V" using k by simp
  have "view_ok (view w3)" and "conflict_free ?V \<Longrightarrow> conflict_free (view w3)"
    unfolding v3 by (rule shadowing_ok [OF vok pk s refl], assumption?)+
  then have "kept w w3"
    using ok w1 same_but_tables_fields [OF w3(2)]
    by (simp add: kept_def world_ok_def symbols_ok_def push_shadowing_def)
  moreover have "view (set_symbol_home_if_homeless s p w3) = view w3"
    using calculation by (intro home_world(3)) (simp add: kept_def)
  ultimately show ?thesis using w3(1) v3 kept_home(1) by (auto simp: shadowing_add_def)
qed

lemma shadow_of_name:
  assumes "view_ok V" and "v_present V p name = Some x"
  shows "{y \<in> v_shadow V p. v_name V y \<noteq> Some name} = v_shadow V p - {x}"
  using assms present_name [OF assms] shadow_present [OF assms(1), of _ p name] by auto

lemma no_shadow_of_name:
  assumes "view_ok V" and "v_present V p name = None"
  shows "{y \<in> v_shadow V p. v_name V y \<noteq> Some name} = v_shadow V p"
  using assms shadow_present [OF assms(1), of _ p name] by force

text \<open>The symbol of the name leaves its table and the shadowing list.\<close>

lemma displace_world:
  assumes ok: "world_ok w" and p: "p < length (packs w)" and k: "p \<noteq> keyword_package w"
    and f: "v_find (view w) name p = (x, flag)" and fl: "flag = IsInternal \<or> flag = IsExternal"
    and w1: "w1 = upd_pack p (\<lambda>P. P\<lparr>shadowings := removeAll x (shadowings P)\<rparr>) w"
  shows "\<exists>w2. (if flag = IsInternal then rem_internal p name w1 else rem_external p name w1) = Some w2
      \<and> same_but_tables w1 w2
      \<and> view w2 = set_local (view w) p ((v_ext (view w) p)(name := None)) ((v_int (view w) p)(name := None))
          {y \<in> v_shadow (view w) p. v_name (view w) y \<noteq> Some name}"
proof -
  let ?V = "view w"
  have vok: "view_ok ?V" using ok by (simp add: world_ok_def)
  have x: "v_present ?V p name = Some x" using f fl by (auto simp: v_find_def v_present_def split: option.splits if_splits)
  have t1: "tables_ok w1" and p1: "p < length (packs w1)"
    using ok p w1 by (auto intro: tables_ok_upd_field simp: world_ok_def)
  have v1: "view w1 = ?V\<lparr>v_shadow := (v_shadow ?V)(p := v_shadow ?V p - {x})\<rparr>"
    using upd_shadow_view [OF p] w1 p by simp
  have d: "v_ext ?V p name = None \<or> v_int ?V p name = None" using vok by (auto simp: view_ok_def disjoint_ok_def)
  show ?thesis
    unfolding shadow_of_name [OF vok x]
  proof (cases "flag = IsInternal")
    case True
    then have "(v_ext ?V p)(name := None) = v_ext ?V p" using f by (auto simp: v_find_def split: option.splits)
    moreover obtain w2 where "rem_internal p name w1 = Some w2" "same_but_tables w1 w2"
        "view w2 = (view w1)\<lparr>v_int := (v_int (view w1))(p := (v_int (view w1) p)(name := None))\<rparr>"
      by (rule rem_internal_view [OF t1 p1, of name])
    ultimately show "\<exists>w2. (if flag = IsInternal then rem_internal p name w1 else rem_external p name w1) = Some w2
      \<and> same_but_tables w1 w2
      \<and> view w2 = set_local ?V p ((v_ext ?V p)(name := None)) ((v_int ?V p)(name := None)) (v_shadow ?V p - {x})"
      using True v1 by (simp add: set_local_def)
  next
    case False
    then have "v_ext ?V p name = Some x" using f fl by (auto simp: v_find_def split: option.splits if_splits)
    then have "(v_int ?V p)(name := None) = v_int ?V p" using d by auto
    moreover obtain w2 where "rem_external p name w1 = Some w2" "same_but_tables w1 w2"
        "view w2 = (view w1)\<lparr>v_ext := (v_ext (view w1))(p := (v_ext (view w1) p)(name := None))\<rparr>"
      by (rule rem_external_view [OF t1 p1, of name])
    ultimately show "\<exists>w2. (if flag = IsInternal then rem_internal p name w1 else rem_external p name w1) = Some w2
      \<and> same_but_tables w1 w2
      \<and> view w2 = set_local ?V p ((v_ext ?V p)(name := None)) ((v_int ?V p)(name := None)) (v_shadow ?V p - {x})"
      using False v1 by (simp add: set_local_def)
  qed
qed

lemma shadowing_import_safe:
  assumes ok: "world_ok w" and d: "desig_ok w d" and k: "mkcl_find_package_nolock w d \<noteq> Some (keyword_package w)"
  shows "safely w (mkcl_shadowing_import ans s d w)"
  unfolding mkcl_shadowing_import_def Let_def
proof (intro safely_symbol safely_coerce safely_unless_closed ok d)
  fix name p ans'
  assume s: "v_name (view w) s = Some name" and p: "p < length (packs w)" and dp: "mkcl_find_package_nolock w d = Some p"
  let ?V = "view w"
  have pk: "p \<noteq> keyword_package w" using k dp by simp
  have vok: "view_ok ?V" using ok by (simp add: world_ok_def)
  obtain x flag where f: "v_find ?V name p = (x, flag)" by (metis prod.exhaust)
  define w1 where "w1 = upd_pack p (\<lambda>P. P\<lparr>shadowings := removeAll x (shadowings P)\<rparr>) w"
  have absent: "safely w (shadowing_add s name p w)" if fl: "\<not> (flag = IsInternal \<or> flag = IsExternal)"
  proof -
    have none: "v_present ?V p name = None"
      using f fl v_find_present [of p ?V name] pk by (cases "v_present ?V p name") auto
    then have "(v_ext ?V p)(name := None) = v_ext ?V p" by (auto simp: v_present_def split: option.splits)
    then have v: "?V = set_local ?V p ((v_ext ?V p)(name := None)) (v_int ?V p) {y \<in> v_shadow ?V p. v_name ?V y \<noteq> Some name}"
      by (simp add: no_shadow_of_name [OF vok none, simplified] set_local_def)
    have "tables_ok w" "symbols_ok w" using ok by (simp_all add: world_ok_def)
    from shadowing_add_world [OF ok p pk s this(1) refl this(2) refl v refl]
    show ?thesis by (auto intro: safely_done)
  qed
  have found: "safely w (Option.bind (if flag = IsInternal then rem_internal p name w1 else rem_external p name w1)
      (\<lambda>w2. shadowing_add s name p (make_resident_symbol_homeless x p w2)))"
    if fl: "flag = IsInternal \<or> flag = IsExternal"
  proof -
    obtain w2 where w2: "(if flag = IsInternal then rem_internal p name w1 else rem_external p name w1) = Some w2"
        "same_but_tables w1 w2"
        "view w2 = set_local ?V p ((v_ext ?V p)(name := None)) ((v_int ?V p)(name := None))
          {y \<in> v_shadow ?V p. v_name ?V y \<noteq> Some name}"
      using displace_world [OF ok p pk f fl w1_def] by blast
    have x: "v_present ?V p name = Some x" using f fl by (auto simp: v_find_def v_present_def split: option.splits if_splits)
    have "view_ok (view w2)" unfolding w2(3) shadow_of_name [OF vok x] by (rule remove_ok(1) [OF vok x refl])
    then have w2ok: "world_ok w2"
      using ok same_but_tables_fields [OF w2(2)] by (simp add: world_ok_def symbols_ok_def w1_def)
    let ?w3 = "make_resident_symbol_homeless x p w2"
    have w3: "view ?w3 = view w2" "world_ok ?w3" using home_world [OF w2ok] by simp_all
    have "length (packs ?w3) = length (packs w)" "packages ?w3 = packages w"
      using same_but_tables_fields [OF w2(2)] by (simp_all add: make_resident_symbol_homeless_def w1_def)
    moreover have "tables_ok ?w3" "symbols_ok ?w3" using w3(2) by (simp_all add: world_ok_def)
    ultimately have "\<exists>w'. shadowing_add s name p ?w3 = Some (Inr (), w') \<and> kept w w'"
      using shadowing_add_world [OF ok p pk s, of ?w3 "(v_int ?V p)(name := None)"] w2(3) w3(1) by auto
    then show ?thesis using w2(1) by (auto intro: safely_done)
  qed
  have "kept w (push_shadowing s p w)" if "flag = IsInternal \<or> flag = IsExternal" "x = s"
    using that f by (intro push_shadowing_world [OF ok p, of name])
      (auto simp: v_find_def v_present_def split: option.splits if_splits)
  then show "safely w (Option.bind (mkcl_find_symbol_nolock w name p) (\<lambda>(x, flag).
      if flag = IsInternal \<or> flag = IsExternal then
        if x = s then Some (Inr (), if x \<in> set (shadowings (pack w p)) then w else push_shadowing x p w)
        else Option.bind
               (if flag = IsInternal
                then rem_internal p name (upd_pack p (\<lambda>P. P\<lparr>shadowings := removeAll x (shadowings P)\<rparr>) w)
                else rem_external p name (upd_pack p (\<lambda>P. P\<lparr>shadowings := removeAll x (shadowings P)\<rparr>) w))
               (\<lambda>w2. shadowing_add s name p (make_resident_symbol_homeless x p w2))
      else shadowing_add s name p w))"
    using absent found ok f unfolding w1_def
    by (auto simp: find_symbol_view [OF ok p] intro: safely_done)
qed

lemma shadow_new_world:
  assumes ok: "world_ok w" and p: "p < length (packs w)" and k: "p \<noteq> keyword_package w"
    and none: "v_present (view w) p name = None" and mk: "mk_cl_make_symbol name w = (s, w1)"
  shows "\<exists>w2. set_internal p name s w1 = Some w2
      \<and> kept w (push_shadowing s p (upd_symbol s (\<lambda>y. y\<lparr>hpack := Some p\<rparr>) w2))"
proof -
  note m = make_symbol_world [OF ok mk]
  let ?N = "v_new s name (view w)"
  have t1: "tables_ok w1" and p1: "p < length (packs w1)" and Nok: "view_ok ?N"
    using m p by (simp_all add: world_ok_def)
  obtain w2 where w2: "set_internal p name s w1 = Some w2" "same_but_tables w1 w2"
      "view w2 = (view w1)\<lparr>v_int := (v_int (view w1))(p := (v_int (view w1) p)(name \<mapsto> s))\<rparr>"
    by (rule set_internal_view [OF t1 p1])
  define w3 where "w3 = upd_symbol s (\<lambda>y. y\<lparr>hpack := Some p\<rparr>) w2"
  have pr: "v_present ?N p name = None" using none by simp
  have Nk: "p \<noteq> v_keyword ?N" and Nn: "v_name ?N s = Some name" using k by simp_all
  have v2: "view w2 = set_local ?N p (v_ext ?N p) ((v_int ?N p)(name \<mapsto> s)) (v_shadow ?N p)"
    using w2(3) m(1) by (simp add: set_local_int)
  have w2ok: "world_ok w2"
    using add_internal_ok(1) [OF Nok Nk pr Nn, of "v_shadow ?N p"] v2
    by (intro same_but_tables_world_ok [OF m(5) w2(2)]) simp
  have w3: "view w3 = view w2" "world_ok w3" using upd_symbol_world [OF w2ok] by (simp_all add: w3_def)
  have p3: "p < length (packs w3)" using p1 same_but_tables_fields [OF w2(2)] by (simp add: w3_def)
  have s3: "v_present (view w3) p name = Some s"
    using w3(1) v2 pr by (auto simp: present_set_local v_present_def split: option.splits)
  have push: "kept w3 (push_shadowing s p w3)" by (rule push_shadowing_world [OF w3(2) p3 s3])
  have sh: "set (shadowings (pack w3 p)) = v_shadow ?N p"
    using w3(1) v2 p3 by (metis fun_upd_same set_local_select(5) view_select(3))
  have v4: "view (push_shadowing s p w3) = set_local ?N p (v_ext ?N p) ((v_int ?N p)(name \<mapsto> s)) (insert s (v_shadow ?N p))"
    unfolding push_shadowing_def upd_shadow_view [OF p3] w3(1) v2 using sh by (simp add: set_local_def)
  have "conflict_free (view (push_shadowing s p w3))" if "conflict_free (view w)"
    unfolding v4 using that by (intro add_internal_ok(2) [OF Nok Nk pr Nn]) simp_all
  then show ?thesis using push w2(1) by (auto simp: kept_def w3_def)
qed

lemma shadow_safe:
  assumes ok: "world_ok w" and d: "desig_ok w d" and k: "mkcl_find_package_nolock w d \<noteq> Some (keyword_package w)"
  shows "safely w (mkcl_shadow ans name d w)"
  unfolding mkcl_shadow_def
proof (intro safely_coerce safely_unless_closed ok d)
  fix p ans'
  assume p: "p < length (packs w)" and dp: "mkcl_find_package_nolock w d = Some p"
  have pk: "p \<noteq> keyword_package w" using k dp by simp
  obtain x flag where f: "v_find (view w) name p = (x, flag)" by (metis prod.exhaust)
  obtain s w1 where mk: "mk_cl_make_symbol name w = (s, w1)" by (metis prod.exhaust)
  have "kept w (push_shadowing x p w)" if "flag = IsInternal \<or> flag = IsExternal"
    using that f by (intro push_shadowing_world [OF ok p, of name])
      (auto simp: v_find_def v_present_def split: option.splits if_splits)
  moreover have "v_present (view w) p name = None" if "\<not> (flag = IsInternal \<or> flag = IsExternal)"
    using f that v_find_present [of p "view w" name] pk by (cases "v_present (view w) p name") auto
  ultimately show "safely w (Option.bind (mkcl_find_symbol_nolock w name p) (\<lambda>(x, flag).
      if flag = IsInternal \<or> flag = IsExternal then Some (Inr (), push_shadowing x p w)
      else let (x, w1) = mk_cl_make_symbol name w
           in map_option (\<lambda>w2. (Inr (), push_shadowing x p (upd_symbol x (\<lambda>y. y\<lparr>hpack := Some p\<rparr>) w2)))
                (set_internal p name x w1)))"
    using f mk shadow_new_world [OF ok p pk _ mk]
    by (cases flag) (auto simp: find_symbol_view [OF ok p] intro: safely_done)
qed

section \<open>Using and unusing packages\<close>

lemma external_entries:
  assumes "world_ok w" and "x < length (packs w)"
  shows "v_ext (view w) x name = Some s \<longleftrightarrow>
     (\<exists>e \<in> set (concat (data (external (pack w x)))). e_key e = name \<and> e_value e = s)"
proof -
  have wf: "name_wf (external (pack w x))" using assms tables_ok_pack by (simp add: world_ok_def)
  have "v_ext (view w) x name = Some s \<longleftrightarrow> gethash_value name (external (pack w x)) = Some (Some s)"
    using gethash_table_map [OF wf] view_tables(1) [OF assms(2)] by simp
  then show ?thesis
    using name_table.gethash_value_iff(2) [OF wf [unfolded name_wf_def], of name s]
    unfolding table_entries_def by (simp; blast)
qed

lemma use_conflict_view:
  assumes ok: "world_ok w" and p: "p < length (packs w)"
    and "\<And>e. e \<in> set es \<Longrightarrow> v_name (view w) (e_value e) = Some (e_key e)"
  shows "\<exists>c. use_conflict w p es = Some c \<and> (c \<longleftrightarrow> \<not> (\<forall>e \<in> set es. no_clash (view w) (e_key e) (e_value e) p))"
  using assms(3)
proof (induction es)
  case (Cons e es)
  obtain y where y: "symbol_of w (e_value e) = Some y" "sym_name y = e_key e" using Cons.prems [of e] by auto
  obtain c where c: "use_conflict w p es = Some c" "c \<longleftrightarrow> \<not> (\<forall>e \<in> set es. no_clash (view w) (e_key e) (e_value e) p)"
  proof -
    have "\<And>e. e \<in> set es \<Longrightarrow> v_name (view w) (e_value e) = Some (e_key e)" using Cons.prems by simp
    then show thesis using Cons.IH that by blast
  qed
  obtain x flag where f: "v_find (view w) (e_key e) p = (x, flag)" by (metis prod.exhaust)
  have "use_conflict w p (e # es) = Some (\<not> no_clash (view w) (e_key e) (e_value e) p \<or> c)"
    using y f c(1) p by (auto simp: find_symbol_view [OF ok p] no_clash_def)
  then show ?case using c(2) by auto
qed (simp, blast)

lemma link_packages_view:
  assumes "x < length (packs w)" and "p < length (packs w)"
  shows "view (link_packages x p w) = v_link x p (view w)"
    and "packages (link_packages x p w) = packages w" and "symbol_of (link_packages x p w) = symbol_of w"
    and "length (packs (link_packages x p w)) = length (packs w)" and "keyword_package (link_packages x p w) = keyword_package w"
    and "to_be_created (link_packages x p w) = to_be_created w"
    and "tables_ok w \<Longrightarrow> tables_ok (link_packages x p w)"
    and "named (pack (link_packages x p w) q) = named (pack w q)"
proof -
  let ?w1 = "upd_pack p (\<lambda>P. P\<lparr>uses := x # uses P\<rparr>) w"
  have x1: "x < length (packs ?w1)" using assms by simp
  have v1: "view ?w1 = (view w)\<lparr>v_uses := (v_uses (view w))(p := x # uses (pack w p))\<rparr>"
    unfolding view_upd_pack [OF assms(2)] using view_same [OF assms(2)] by simp
  have v2: "view (link_packages x p w) = (view ?w1)\<lparr>v_usedby := (v_usedby (view ?w1))(x := p # usedby (pack ?w1 x))\<rparr>"
    unfolding link_packages_def view_upd_pack [OF x1] using view_same [OF x1] by simp
  have "usedby (pack ?w1 x) = usedby (pack w x)" by (auto simp: pack_def upd_pack_def nth_list_update assms)
  then show "view (link_packages x p w) = v_link x p (view w)"
    unfolding v2 v1 using assms by (simp add: v_link_def)
  show "tables_ok (link_packages x p w)" if "tables_ok w"
    unfolding link_packages_def using that assms by (intro tables_ok_upd_field) simp_all
  show "named (pack (link_packages x p w) q) = named (pack w q)"
    using assms by (auto simp: link_packages_def pack_def upd_pack_def nth_list_update named_def fun_eq_iff)
qed (simp_all add: link_packages_def)

lemma link_world:
  assumes ok: "world_ok w" and x: "x < length (packs w)" and p: "p < length (packs w)" and "x \<noteq> p"
    and "x \<noteq> keyword_package w" and "p \<noteq> keyword_package w"
  shows "world_ok (link_packages x p w)"
  using assms link_packages_view [OF x p] view_ok_link [of "view w" x p]
  by (simp add: world_ok_def symbols_ok_def)

lemma use_safe: "world_ok w \<Longrightarrow> desig_ok w dx \<Longrightarrow> desig_ok w dp \<Longrightarrow> safely w (mkcl_use_package ans dx dp w)"
  unfolding mkcl_use_package_def
proof (rule safely_coerce)
  fix x
  assume ok: "world_ok w" and dp: "desig_ok w dp" and x: "x < length (packs w)"
  let ?V = "view w" and ?es = "concat (data (external (pack w x)))"
  have vok: "view_ok ?V" using ok by (simp add: world_ok_def)
  have "safely w (Option.bind (use_conflict w p ?es)
          (\<lambda>c. if c then Some (Inl (UseConflict x p), w) else Some (Inr (), link_packages x p w)))"
    if p: "p < length (packs w)" "p \<noteq> keyword_package w" "p \<noteq> x" and xk: "x \<noteq> keyword_package w" for p
  proof -
    have "v_name ?V (e_value e) = Some (e_key e)" if "e \<in> set ?es" for e
      using that external_entries [OF ok x, of "e_key e" "e_value e"] vok unfolding view_ok_def names_ok_def by blast
    then obtain c where c: "use_conflict w p ?es = Some c" "c \<longleftrightarrow> \<not> (\<forall>e \<in> set ?es. no_clash ?V (e_key e) (e_value e) p)"
      using use_conflict_view [OF ok p(1)] by blast
    have "kept w (link_packages x p w)" if "\<not> c"
    proof -
      have "no_clash ?V name s p" if ext: "v_ext ?V x name = Some s" for name s
      proof -
        obtain e where "e \<in> set ?es" "e_key e = name" "e_value e = s"
          using ext external_entries [OF ok x, of name s] by blast
        then show ?thesis using c(2) \<open>\<not> c\<close> by blast
      qed
      then have "conflict_free ?V \<Longrightarrow> conflict_free (v_link x p ?V)"
        using p(2) by (intro conflict_free_link [OF vok]) (simp_all add: no_clash_def)
      then show ?thesis
        using link_world [OF ok x p(1)] p xk link_packages_view(1) [OF x p(1)] by (simp add: kept_def)
    qed
    then show ?thesis using c(1) ok by (auto intro: safely_done)
  qed
  then show "safely w (if x = keyword_package w then Some (Inl KeywordPackage, w)
      else mk_si_coerce_to_package dp w (\<lambda>p. unless_closed ans p w (\<lambda>ans.
         if p = keyword_package w then Some (Inl KeywordPackage, w)
         else if p = x \<or> x \<in> set (uses (pack w p)) then Some (Inr (), w)
         else Option.bind (use_conflict w p ?es)
                (\<lambda>c. if c then Some (Inl (UseConflict x p), w) else Some (Inr (), link_packages x p w)))))"
    using ok dp by (auto intro!: safely_coerce safely_unless_closed)
qed

lemma unlink_packages_view:
  assumes "x < length (packs w)" and "p < length (packs w)"
  shows "view (unlink_packages x p w) = v_unlink x p (view w)"
    and "packages (unlink_packages x p w) = packages w" and "symbol_of (unlink_packages x p w) = symbol_of w"
    and "length (packs (unlink_packages x p w)) = length (packs w)"
    and "tables_ok w \<Longrightarrow> tables_ok (unlink_packages x p w)"
proof -
  let ?w1 = "upd_pack p (\<lambda>P. P\<lparr>uses := removeAll x (uses P)\<rparr>) w"
  have x1: "x < length (packs ?w1)" using assms by simp
  have v1: "view ?w1 = (view w)\<lparr>v_uses := (v_uses (view w))(p := removeAll x (uses (pack w p)))\<rparr>"
    unfolding view_upd_pack [OF assms(2)] using view_same [OF assms(2)] by simp
  have v2: "view (unlink_packages x p w) = (view ?w1)\<lparr>v_usedby := (v_usedby (view ?w1))(x := removeAll p (usedby (pack ?w1 x)))\<rparr>"
    unfolding unlink_packages_def view_upd_pack [OF x1] using view_same [OF x1] by simp
  have "usedby (pack ?w1 x) = usedby (pack w x)" by (auto simp: pack_def upd_pack_def nth_list_update assms)
  then show "view (unlink_packages x p w) = v_unlink x p (view w)"
    unfolding v2 v1 using assms by (simp add: v_unlink_def)
  show "tables_ok (unlink_packages x p w)" if "tables_ok w"
    unfolding unlink_packages_def using that assms by (intro tables_ok_upd_field) simp_all
qed (simp_all add: unlink_packages_def)

lemma unlink_world:
  assumes ok: "world_ok w" and x: "x < length (packs w)" and p: "p < length (packs w)"
  shows "kept w (unlink_packages x p w)"
  using assms unlink_packages_view [OF x p] view_ok_unlink [of "view w" x p] conflict_free_unlink [of "view w" x p]
  by (simp add: kept_def world_ok_def symbols_ok_def)

lemma unuse_safe: "world_ok w \<Longrightarrow> desig_ok w dx \<Longrightarrow> desig_ok w dp \<Longrightarrow> safely w (mkcl_unuse_package ans dx dp w)"
  unfolding mkcl_unuse_package_def unuse_then_def
  by (intro safely_coerce safely_unless_closed safely_done unlink_world)

lemma unuse_each_safe:
  assumes "world_ok w" and "set l \<subseteq> {..<length (packs w)} \<times> {..<length (packs w)}"
    and "\<And>ans w'. kept w w' \<Longrightarrow> length (packs w') = length (packs w) \<Longrightarrow> safely w' (k ans w')"
  shows "safely w (unuse_each l ans w k)"
  using assms
proof (induction l arbitrary: ans w)
  case Nil
  then show ?case by (simp add: kept_def)
next
  case (Cons xp l)
  obtain x p where xp: "xp = (x, p)" by (metis prod.exhaust)
  have x: "x < length (packs w)" and p: "p < length (packs w)" using Cons.prems(2) xp by auto
  let ?w1 = "unlink_packages x p w"
  have kw: "kept w ?w1" by (rule unlink_world [OF Cons.prems(1) x p])
  have n: "length (packs ?w1) = length (packs w)" by (rule unlink_packages_view(4) [OF x p])
  have "safely ?w1 (unuse_each l ans' ?w1 k)" for ans'
    using Cons.prems kw n by (intro Cons.IH) (auto intro: kept_trans simp: kept_def)
  then show ?case
    using Cons.prems(1) safely_trans [OF kw] by (auto simp: xp unuse_then_def intro!: safely_unless_closed)
qed

section \<open>Making, renaming and deleting packages\<close>

lemma kept_upd_other:
  assumes ok: "world_ok w" and p: "p < length (packs w)"
    and g: "internal (g (pack w p)) = internal (pack w p)" "external (g (pack w p)) = external (pack w p)"
      "shadowings (g (pack w p)) = shadowings (pack w p)" "uses (g (pack w p)) = uses (pack w p)"
      "usedby (g (pack w p)) = usedby (pack w p)"
  shows "kept w (upd_pack p g w)"
proof -
  have "tables_ok (upd_pack p g w)"
    using ok g(1,2) by (intro tables_ok_upd_field [OF _ p]) (simp_all add: world_ok_def)
  moreover have "view (upd_pack p g w) = view w"
    unfolding view_upd_pack [OF p] g using view_same [OF p] by simp
  ultimately show ?thesis
    using ok by (simp add: kept_def world_ok_def symbols_ok_def)
qed

lemma close_safe: "world_ok w \<Longrightarrow> desig_ok w d \<Longrightarrow> safely w (mk_si_close_package d w)"
  unfolding mk_si_close_package_def
  by (intro safely_coerce safely_done kept_upd_other) simp_all

lemma reopen_safe: "world_ok w \<Longrightarrow> desig_ok w d \<Longrightarrow> safely w (mk_si_reopen_package d w)"
  unfolding mk_si_reopen_package_def
  by (intro safely_coerce safely_done kept_upd_other) simp_all

lemma rename_nicknames_kept:
  assumes "world_ok w" and "x < length (packs w)"
  shows "kept w (rename_nicknames x ns w)"
  using assms
proof (induction ns arbitrary: w)
  case Nil
  then show ?case by (simp add: kept_def)
next
  case (Cons n ns)
  let ?w1 = "upd_pack x (\<lambda>P. P\<lparr>nicknames := n # nicknames P\<rparr>) w"
  have kw: "kept w ?w1"
    using Cons.prems by (intro kept_upd_other) simp_all
  then have "kept ?w1 (rename_nicknames x ns ?w1)"
    using Cons.prems by (intro Cons.IH) (simp_all add: kept_def)
  then show ?case using Cons.IH [OF Cons.prems] kept_trans [OF kw] by simp
qed

lemma rename_safe: "world_ok w \<Longrightarrow> desig_ok w d \<Longrightarrow> safely w (mkcl_rename_package ans d name nicks w)"
  unfolding mkcl_rename_package_def
proof (intro safely_coerce safely_unless_closed)
  fix x ans'
  assume ok: "world_ok w" and x: "x < length (packs w)"
  let ?w1 = "upd_pack x (\<lambda>P. P\<lparr>pack_name := Some name, nicknames := []\<rparr>) w"
  have kw: "kept w ?w1"
    using ok x by (intro kept_upd_other) simp_all
  then have "kept w (rename_nicknames x nicks ?w1)"
    using rename_nicknames_kept [of ?w1 x nicks] x kept_trans [OF kw] by (simp add: kept_def)
  then show "safely w (case mkcl_find_package_nolock w (DName name) of
      Some y \<Rightarrow> if y \<noteq> x then Some (Inl (PackageExists y name), w) else Some (Inr x, rename_nicknames x nicks ?w1)
    | None \<Rightarrow> Some (Inr x, rename_nicknames x nicks ?w1))"
    using ok by (auto split: option.splits intro: safely_done)
qed

lemma delete_finish_safe:
  assumes "world_ok w" and "p < length (packs w)"
  shows "safely w (delete_finish p w)"
proof -
  let ?w1 = "w\<lparr>packages := removeAll p (packages w)\<rparr>"
  have sy: "symbol_of ?w1 = symbol_of w" by (simp add: symbol_of_def fun_eq_iff)
  then have "view ?w1 = view w" by (simp add: view_def of_pack_def pack_def fun_eq_iff)
  then have "kept w ?w1"
    using assms(1) sy by (auto simp: kept_def world_ok_def tables_ok_def symbols_ok_def)
  moreover have "kept ?w1 (upd_pack p (\<lambda>P. P\<lparr>pack_name := None\<rparr>) ?w1)"
    using assms calculation
    by (intro kept_upd_other) (simp_all add: kept_def pack_def)
  ultimately show ?thesis by (auto simp: delete_finish_def intro: safely_done kept_trans)
qed

lemma delete_used_safe:
  assumes "world_ok w" and "p < length (packs w)"
  shows "safely w (delete_used p ans w)"
proof -
  have "safely w (unuse_each (map (\<lambda>q. (p, q)) (usedby (pack w p))) ans' w (\<lambda>ans w1. delete_finish p w1))" for ans'
    using assms usedby_bound [OF assms]
    by (intro unuse_each_safe) (auto intro: delete_finish_safe simp: kept_def)
  then show ?thesis
    using assms delete_finish_safe by (auto simp: delete_used_def Let_def intro: safely_CE)
qed

lemma uses_bound_world:
  assumes "world_ok w" and "p < length (packs w)"
  shows "set (uses (pack w p)) \<subseteq> {..<length (packs w)}"
  using assms uses_bound [of "view w" _ p] by (auto simp: world_ok_def view_ok_def)

lemma delete_safe:
  assumes ok: "world_ok w" and d: "desig_ok w d"
  shows "safely w (mk_cl_delete_package ans d w)"
proof -
  have "safely w (unuse_each (map (\<lambda>q. (q, p)) (uses (pack w p))) ans' w (delete_used p))"
    if "p < length (packs w)" for p ans'
    using ok that uses_bound_world [OF ok that]
    by (intro unuse_each_safe) (auto intro: delete_used_safe simp: kept_def)
  then show ?thesis
    using ok find_package_bound [OF ok d]
    by (auto simp: mk_cl_delete_package_def split: option.splits intro!: safely_CE safely_unless_closed)
qed

text \<open>Packages that export no two different symbols under one name.\<close>

definition compatible :: "view \<Rightarrow> nat set \<Rightarrow> bool" where
  "compatible V Q \<longleftrightarrow> (\<forall>q \<in> Q. \<forall>q' \<in> Q. \<forall>name s s'. v_ext V q name = Some s \<longrightarrow> v_ext V q' name = Some s' \<longrightarrow> s = s')"

lemma compatible_no_clash:
  assumes "compatible V Q" and "set (v_uses V x) \<subseteq> Q" and "y \<in> Q" and "v_present V x = Map.empty"
    and "v_ext V y name = Some s"
  shows "no_clash V name s x"
proof -
  have none: "v_present V x name = None" using assms(4) by simp
  then have "v_find V name x = (Cnil, Absent) \<or> (\<exists>t. v_find V name x = (t, IsInherited) \<and> inherits V x name t)"
    using v_inherited_inherits(1) [of V name x]
    by (auto simp: v_find_def v_present_def split: option.splits)
  moreover have "t = s" if inh: "inherits V x name t" for t
  proof -
    obtain q where "q \<in> set (v_uses V x)" "v_ext V q name = Some t" using inh by (auto simp: inherits_def)
    then show ?thesis using assms(1,2,3,5) unfolding compatible_def by blast
  qed
  ultimately show ?thesis by (auto simp: no_clash_def)
qed

lemma find_package_link:
  assumes "y < length (packs w)" and "x < length (packs w)"
  shows "mkcl_find_package_nolock (link_packages y x w) d = mkcl_find_package_nolock w d"
  using link_packages_view [OF assms] by (simp add: mkcl_find_package_nolock_def split: designator.splits)

definition usable :: "world \<Rightarrow> nat \<Rightarrow> designator \<Rightarrow> bool" where
  "usable w x d \<longleftrightarrow> desig_ok w d
     \<and> (\<forall>y. mkcl_find_package_nolock w d = Some y \<longrightarrow> y \<noteq> x \<and> y \<noteq> keyword_package w)"

text \<open>The packages that the designators name do not clash.\<close>

definition designated :: "world \<Rightarrow> designator list \<Rightarrow> nat set" where
  "designated w ds = {y. \<exists>d \<in> set ds. mkcl_find_package_nolock w d = Some y}"

lemma use_initially_safe:
  assumes "world_ok w" and "x < length (packs w)" and "x \<noteq> keyword_package w" and "\<forall>d \<in> set ds. usable w x d"
    and "careful \<Longrightarrow> v_present (view w) x = Map.empty" and "careful \<Longrightarrow> set (v_uses (view w) x) \<subseteq> Q"
    and "careful \<Longrightarrow> compatible (view w) Q" and "careful \<Longrightarrow> designated w ds \<subseteq> Q"
  shows "\<exists>r w'. use_initially x ds w = Some (r, w') \<and> keeps careful w w' \<and> length (packs w') = length (packs w)"
  using assms
proof (induction ds arbitrary: w)
  case Nil
  then show ?case by (simp add: keeps_def)
next
  case (Cons d ds)
  have u: "usable w x d" using Cons.prems(4) by simp
  show ?case
  proof (cases "mkcl_find_package_nolock w d")
    case None
    then show ?thesis using Cons.prems(1) by (simp add: mk_si_coerce_to_package_def keeps_def)
  next
    case (Some y)
    let ?V = "view w" and ?w1 = "link_packages y x w"
    have y: "y < length (packs w)" "y \<noteq> x" "y \<noteq> keyword_package w"
      using find_package_bound [OF Cons.prems(1) _ Some] u Some by (auto simp: usable_def)
    have yQ: "y \<in> Q" if "careful" using Cons.prems(8) [OF that] Some by (auto simp: designated_def)
    note l = link_packages_view [OF y(1) Cons.prems(2)]
    have vok: "view_ok ?V" using Cons.prems(1) by (simp add: world_ok_def)
    have "conflict_free (v_link y x ?V)" if "careful" "conflict_free ?V"
      using compatible_no_clash [OF Cons.prems(7,6) yQ Cons.prems(5)] Cons.prems(3) that
      by (intro conflict_free_link [OF vok]) (simp_all add: no_clash_def)
    then have k1: "keeps careful w ?w1"
      using link_world [OF Cons.prems(1) y(1) Cons.prems(2) y(2,3) Cons.prems(3)] l(1) by (simp add: keeps_def)
    note same = find_package_link [OF y(1) Cons.prems(2)]
    have us: "usable ?w1 x d' = usable w x d'" for d'
      using same l by (simp add: usable_def desig_ok_def split: designator.splits)
    obtain r w' where w': "use_initially x ds ?w1 = Some (r, w')" "keeps careful ?w1 w'" "length (packs w') = length (packs ?w1)"
    proof (atomize_elim, rule Cons.IH)
      show "set (v_uses (view ?w1) x) \<subseteq> Q" if "careful" using Cons.prems(6) yQ that l(1) by (simp add: v_link_def)
      show "compatible (view ?w1) Q" if "careful" using Cons.prems(7) that l(1) by (simp add: compatible_def)
      show "v_present (view ?w1) x = Map.empty" if "careful" using Cons.prems(5) that l(1) by simp
      show "designated ?w1 ds \<subseteq> Q" if "careful" using Cons.prems(8) [OF that] same by (auto simp: designated_def)
      show "\<forall>d \<in> set ds. usable ?w1 x d" using Cons.prems(4) us by simp
    qed (use k1 Cons.prems l in \<open>simp_all add: keeps_def\<close>)
    have "use_initially x (d # ds) w = Some (r, w')" using Some w'(1) by (simp add: mk_si_coerce_to_package_def)
    then show ?thesis using keeps_trans [OF k1 w'(2)] w'(3) l(4) by simp
  qed
qed

lemma new_package_world:
  assumes ok: "world_ok w" and "0 < e" and "0 < i"
    and w1: "w1 = w\<lparr>packs := packs w @ [alloc_sized_package name e i]\<rparr>"
  shows "kept w w1" and "view w1 = (view w)\<lparr>v_count := Suc (length (packs w))\<rparr>"
proof -
  have sy: "symbol_of w1 = symbol_of w" using w1 by (simp add: symbol_of_def fun_eq_iff)
  have new: "table_map (external (alloc_sized_package name e i)) = Map.empty"
      "table_map (internal (alloc_sized_package name e i)) = Map.empty"
      "name_wf (external (alloc_sized_package name e i))" "name_wf (internal (alloc_sized_package name e i))"
    using new_table_map [OF assms(2)] new_table_map [OF assms(3)] by (simp_all add: alloc_sized_package_def)
  show v: "view w1 = (view w)\<lparr>v_count := Suc (length (packs w))\<rparr>"
  proof -
    have "of_pack w1 (\<lambda>P. table_map (external P)) Map.empty = of_pack w (\<lambda>P. table_map (external P)) Map.empty"
      and "of_pack w1 (\<lambda>P. table_map (internal P)) Map.empty = of_pack w (\<lambda>P. table_map (internal P)) Map.empty"
      and "of_pack w1 (\<lambda>P. set (shadowings P)) {} = of_pack w (\<lambda>P. set (shadowings P)) {}"
      and "of_pack w1 uses [] = of_pack w uses []" and "of_pack w1 usedby [] = of_pack w usedby []"
      using new w1
      by (auto simp: of_pack_def pack_def nth_append fun_eq_iff alloc_sized_package_def)
    then show ?thesis using w1 sy by (simp add: view_def)
  qed
  have inh: "inherits (view w1) = inherits (view w)" and pr: "v_present (view w1) = v_present (view w)"
    unfolding v by (simp_all add: inherits_def v_present_def fun_eq_iff split: option.splits)
  then have "conflict_free (view w1) = conflict_free (view w)"
    by (simp add: v conflict_free_def conflict_free_at_def)
  moreover have "view_ok (view w1)"
  proof -
    have V: "view_ok (view w)" using ok by (simp add: world_ok_def)
    have "uses_ok (view w)" using V by (simp add: view_ok_def)
    then have "uses_ok (view w1)" unfolding v uses_ok_def
      by (simp add: lessThan_Suc subset_insertI2; blast)
    moreover have "keyword_ok (view w1)" using V unfolding v view_ok_def keyword_ok_def by auto
    moreover have "shadows_ok (view w1)"
      using V pr unfolding v view_ok_def shadows_ok_def by simp
    ultimately show ?thesis using V by (simp add: v view_ok_def names_ok_def disjoint_ok_def)
  qed
  moreover have "tables_ok w1" using ok new w1 by (auto simp: world_ok_def tables_ok_def)
  moreover have "symbols_ok w1" using ok sy by (simp add: world_ok_def symbols_ok_def)
  moreover have "set (packages w1) \<subseteq> {..<length (packs w1)}" using ok w1 by (auto simp: world_ok_def)
  ultimately show "kept w w1" by (simp add: kept_def world_ok_def)
qed

lemma find_package_unregistered:
  assumes "x \<notin> set (packages w)" and "packages w1 = packages w"
    and "\<And>q. q \<in> set (packages w) \<Longrightarrow> pack w1 q = pack w q"
  shows "mkcl_find_package_nolock w1 d = mkcl_find_package_nolock w d"
proof (cases d)
  case (DName name)
  have "find (\<lambda>p. named (pack w1 p) name) (packages w) = find (\<lambda>p. named (pack w p) name) (packages w)"
    using assms(3) by (intro find_cong) auto
  then show ?thesis using DName assms(2) by (simp add: mkcl_find_package_nolock_def)
qed (simp add: mkcl_find_package_nolock_def)

lemma register_safe:
  assumes ok: "world_ok w" and x: "x < length (packs w)" "x \<notin> set (packages w)" "x \<noteq> keyword_package w"
    and ds: "\<forall>d \<in> set ds. usable w x d"
    and new: "careful \<Longrightarrow> v_present (view w) x = Map.empty \<and> v_uses (view w) x = [] \<and> compatible (view w) (designated w ds)"
  shows "safely_if careful w (register_package ans x nicks ds w)"
proof (cases "nickname_taken w nicks")
  case None
  let ?w1 = "upd_pack x (\<lambda>P. P\<lparr>nicknames := rev nicks\<rparr>) w"
  have k1: "keeps careful w ?w1" using ok x(1) by (intro kept_keeps [OF kept_upd_other]) simp_all
  have v1: "view ?w1 = view w" unfolding view_upd_pack [OF x(1)] using view_same [OF x(1)] by simp
  have same: "mkcl_find_package_nolock ?w1 d = mkcl_find_package_nolock w d" for d
    by (rule find_package_unregistered [OF x(2)]) (use x in \<open>auto simp: pack_def upd_pack_def nth_list_update\<close>)
  have "desig_ok ?w1 d = desig_ok w d" for d by (cases d) (simp_all add: desig_ok_def)
  then have us: "usable ?w1 x d = usable w x d" for d unfolding usable_def same by simp
  have de: "designated ?w1 ds = designated w ds" unfolding designated_def same by (rule refl)
  obtain r w2 where w2: "use_initially x ds ?w1 = Some (r, w2)" "keeps careful ?w1 w2" "length (packs w2) = length (packs ?w1)"
  proof (atomize_elim, rule use_initially_safe)
    show "world_ok ?w1" using k1 by (simp add: keeps_def)
    show "\<forall>d \<in> set ds. usable ?w1 x d" using ds us by simp
    show "set (v_uses (view ?w1) x) \<subseteq> designated w ds" if "careful" using new [OF that] v1 by simp
    show "compatible (view ?w1) (designated w ds)" if "careful" using new [OF that] v1 by simp
    show "v_present (view ?w1) x = Map.empty" if "careful" using new [OF that] v1 by simp
  qed (use x de in simp_all)
  let ?w3 = "w2\<lparr>packages := x # packages w2\<rparr>"
  have sy: "symbol_of ?w3 = symbol_of w2" by (simp add: symbol_of_def fun_eq_iff)
  then have "view ?w3 = view w2" by (simp add: view_def of_pack_def pack_def fun_eq_iff)
  then have "keeps careful w2 ?w3"
    using w2 x(1) sy by (auto simp: keeps_def world_ok_def tables_ok_def symbols_ok_def)
  then show ?thesis
    using None w2 keeps_trans [OF k1 w2(2)] keeps_trans
    by (auto simp: register_package_def split: sum.splits intro!: safely_done)
next
  case (Some r)
  then show ?thesis using ok by (cases r) (auto simp: register_package_def intro: safely_CE)
qed

text \<open>
  The arguments \<open>make-package\<close> is safe with: a package that waits for its creation exists, is
  not registered yet and not the keyword package; a table made afresh is not of size 0; the
  keyword package is not used, nor the package itself. A careful caller makes the package
  afresh and uses packages that do not clash.
\<close>

definition made_package :: "world \<Rightarrow> lstring list \<Rightarrow> nat" where
  "made_package w names = (case take_waiting names (to_be_created w) of Some (x, _) \<Rightarrow> x | None \<Rightarrow> length (packs w))"

definition make_arguments :: "bool \<Rightarrow> world \<Rightarrow> lstring list \<Rightarrow> designator list \<Rightarrow> int \<Rightarrow> int \<Rightarrow> bool" where
  "make_arguments careful w names ds external_size internal_size \<longleftrightarrow>
     (let x = made_package w names
      in (\<forall>d \<in> set ds. usable w x d)
       \<and> (if take_waiting names (to_be_created w) = None then external_size \<noteq> 0 \<and> internal_size \<noteq> 0
          else x < length (packs w) \<and> x \<notin> set (packages w) \<and> x \<noteq> keyword_package w)
       \<and> (careful \<longrightarrow> take_waiting names (to_be_created w) = None \<and> compatible (view w) (designated w ds)))"

lemma make_waiting_safe:
  assumes ok: "world_ok w" and "take_waiting (name # nicks) (to_be_created w) = Some (x, l)"
    and "x < length (packs w)" "x \<notin> set (packages w)" "x \<noteq> keyword_package w" and ds: "\<forall>d \<in> set ds. usable w x d"
  shows "safely_if False w (mkcl_make_sized_package ans name nicks ds external_size internal_size w)"
proof -
  let ?w1 = "w\<lparr>to_be_created := l\<rparr>"
  have sy: "symbol_of ?w1 = symbol_of w" by (simp add: symbol_of_def fun_eq_iff)
  then have "view ?w1 = view w" by (simp add: view_def of_pack_def pack_def fun_eq_iff)
  then have k1: "keeps False w ?w1"
    using ok sy by (simp add: keeps_def world_ok_def tables_ok_def symbols_ok_def)
  have "mkcl_find_package_nolock ?w1 d = mkcl_find_package_nolock w d" for d
    by (simp add: mkcl_find_package_nolock_def pack_def split: designator.splits)
  then have "usable ?w1 x d = usable w x d" for d
    by (simp add: usable_def desig_ok_def split: designator.splits)
  then have "safely_if False ?w1 (register_package ans x nicks ds ?w1)"
    using k1 assms by (intro register_safe) (simp_all add: keeps_def)
  then show ?thesis using safely_trans [OF k1] assms(2) by (simp add: mkcl_make_sized_package_def)
qed

lemma make_fresh_safe:
  assumes ok: "world_ok w" and fresh: "take_waiting (name # nicks) (to_be_created w) = None"
    and "external_size \<noteq> 0" and "internal_size \<noteq> 0"
    and ds: "\<forall>d \<in> set ds. usable w (length (packs w)) d" and c: "careful \<Longrightarrow> compatible (view w) (designated w ds)"
  shows "safely_if careful w (mkcl_make_sized_package ans name nicks ds external_size internal_size w)"
proof -
  let ?x = "length (packs w)"
  let ?w1 = "w\<lparr>packs := packs w @ [alloc_sized_package name (nat external_size) (nat internal_size)]\<rparr>"
  have "safely_if careful w (register_package ans ?x nicks ds ?w1)" if "0 < external_size" "0 < internal_size"
  proof -
    have w1: "kept w ?w1" "view ?w1 = (view w)\<lparr>v_count := Suc ?x\<rparr>"
      using new_package_world [OF ok _ _ refl, of "nat external_size" "nat internal_size" name] that by simp_all
    have bound: "\<And>q. q \<in> set (packages w) \<Longrightarrow> q < ?x" using ok by (auto simp: world_ok_def)
    then have unreg: "?x \<notin> set (packages w)" by blast
    have same: "mkcl_find_package_nolock ?w1 d = mkcl_find_package_nolock w d" for d
      by (rule find_package_unregistered [of ?x]) (use bound in \<open>auto simp: pack_def nth_append\<close>)
    then have ds1: "\<forall>d \<in> set ds. usable ?w1 ?x d"
      using ds by (auto simp: usable_def desig_ok_def split: designator.splits)
    moreover have "designated ?w1 ds = designated w ds" unfolding designated_def same by (rule refl)
    moreover have kw: "keyword_package w < ?x" using ok by (simp add: world_ok_def view_ok_def keyword_ok_def)
    moreover have "v_ext (view ?w1) ?x = Map.empty" "v_int (view ?w1) ?x = Map.empty" "v_uses (view ?w1) ?x = []"
      unfolding w1(2) by (simp_all add: view_def of_pack_def)
    then have "v_present (view ?w1) ?x = Map.empty" "v_uses (view ?w1) ?x = []"
      by (simp_all add: v_present_def fun_eq_iff)
    ultimately have "safely_if careful ?w1 (register_package ans ?x nicks ds ?w1)"
      using w1 unreg c by (intro register_safe) (simp_all add: kept_def compatible_def)
    then show ?thesis by (rule safely_trans [OF kept_keeps [OF w1(1)]])
  qed
  then show ?thesis
    using ok fresh assms(3,4)
    by (auto simp: mkcl_make_sized_package_def split: option.splits intro: safely_CE)
qed

lemma make_package_safe:
  assumes "world_ok w" and "make_arguments careful w (name # nicks) ds external_size internal_size"
  shows "safely_if careful w (mkcl_make_sized_package ans name nicks ds external_size internal_size w)"
  using assms make_waiting_safe [OF assms(1)] make_fresh_safe [OF assms(1)]
  by (cases careful) (auto simp: make_arguments_def made_package_def Let_def split: if_splits option.splits)

end
