(* ===== verification/Package_System.thy ===== *)
theory Package_System
  imports Package_Steps
begin

text \<open>
  The package system as a transition system: a step is a call of one operation, with any
  arguments and any answers to its correctable errors. Importing into the keyword package,
  shadowing in it and using it are left out, as are tables made of size 0: they break the
  invariant. A careful step lets no name conflict through either: its import does not take the
  restart of an import conflict, and its \<open>make-package\<close> makes the package afresh, with a list
  of packages to use that do not clash. Then what interning, uninterning and exporting achieve.
\<close>

section \<open>Steps\<close>

definition not_keyword :: "world \<Rightarrow> designator \<Rightarrow> bool" where
  "not_keyword w d \<longleftrightarrow> mkcl_find_package_nolock w d \<noteq> Some (keyword_package w)"

inductive package_step :: "bool \<Rightarrow> world \<Rightarrow> world \<Rightarrow> bool" for careful where
  step_intern: "desig_ok w d \<Longrightarrow> mkcl_intern ans name d w = Some (r, w') \<Longrightarrow> package_step careful w w'"
| step_unintern: "desig_ok w d \<Longrightarrow> mkcl_unintern ans s d w = Some (r, w') \<Longrightarrow> package_step careful w w'"
| step_export: "desig_ok w d \<Longrightarrow> mkcl_export2 ans s d w = Some (r, w') \<Longrightarrow> package_step careful w w'"
| step_unexport: "desig_ok w d \<Longrightarrow> mkcl_unexport2 ans s d w = Some (r, w') \<Longrightarrow> package_step careful w w'"
| step_import: "desig_ok w d \<Longrightarrow> not_keyword w d \<Longrightarrow> careful \<longrightarrow> refuses_conflict w d ans \<Longrightarrow>
    mkcl_import2 ans s d w = Some (r, w') \<Longrightarrow> package_step careful w w'"
| step_shadowing_import: "desig_ok w d \<Longrightarrow> not_keyword w d \<Longrightarrow>
    mkcl_shadowing_import ans s d w = Some (r, w') \<Longrightarrow> package_step careful w w'"
| step_shadow: "desig_ok w d \<Longrightarrow> not_keyword w d \<Longrightarrow> mkcl_shadow ans name d w = Some (r, w') \<Longrightarrow> package_step careful w w'"
| step_use: "desig_ok w dx \<Longrightarrow> desig_ok w dp \<Longrightarrow> mkcl_use_package ans dx dp w = Some (r, w') \<Longrightarrow> package_step careful w w'"
| step_unuse: "desig_ok w dx \<Longrightarrow> desig_ok w dp \<Longrightarrow> mkcl_unuse_package ans dx dp w = Some (r, w') \<Longrightarrow> package_step careful w w'"
| step_make: "make_arguments careful w (name # nicks) ds external_size internal_size \<Longrightarrow>
    mkcl_make_sized_package ans name nicks ds external_size internal_size w = Some (r', w') \<Longrightarrow> package_step careful w w'"
| step_rename: "desig_ok w d \<Longrightarrow> mkcl_rename_package ans d name nicks w = Some (r', w') \<Longrightarrow> package_step careful w w'"
| step_delete: "desig_ok w d \<Longrightarrow> mk_cl_delete_package ans d w = Some (r'', w') \<Longrightarrow> package_step careful w w'"
| step_close: "desig_ok w d \<Longrightarrow> mk_si_close_package d w = Some (r', w') \<Longrightarrow> package_step careful w w'"
| step_reopen: "desig_ok w d \<Longrightarrow> mk_si_reopen_package d w = Some (r', w') \<Longrightarrow> package_step careful w w'"

lemma safely_kept: "safely_if careful w out \<Longrightarrow> out = Some (r, w') \<Longrightarrow> keeps careful w w'"
  by (auto simp: safely_if_def)

lemmas operations_safe = intern_safe unintern_safe export_safe unexport_safe use_safe unuse_safe
  rename_safe delete_safe close_safe reopen_safe

lemma import_keeps:
  assumes "world_ok w" and "desig_ok w d" and "not_keyword w d" and "careful \<longrightarrow> refuses_conflict w d ans"
    and "mkcl_import2 ans s d w = Some (r, w')"
  shows "keeps careful w w'"
  using assms import_safe [of w d ans s, THEN safely_kept] by (auto simp: keeps_def not_keyword_def)

lemmas operations_keep = operations_safe [THEN safely_kept, THEN kept_keeps] import_keeps [unfolded not_keyword_def]
  shadowing_import_safe [THEN safely_kept, THEN kept_keeps] shadow_safe [THEN safely_kept, THEN kept_keeps]
  make_package_safe [THEN safely_kept]

lemma package_step_keeps:
  assumes "package_step careful w w'" and "world_ok w"
  shows "keeps careful w w'"
  using assms
  by (cases rule: package_step.cases) (unfold not_keyword_def, (rule operations_keep; assumption)+)

lemma package_steps_keep:
  assumes "(package_step careful)\<^sup>*\<^sup>* w w'" and "world_ok w"
  shows "keeps careful w w'"
  using assms
proof (induction rule: rtranclp_induct)
  case base
  then show ?case by (simp add: keeps_def)
next
  case (step w1 w2)
  then show ?case using package_step_keeps [of careful w1 w2] keeps_trans by (auto simp: keeps_def)
qed

section \<open>Operations return\<close>

text \<open>
  The operations that a step leaves out for the keyword package return for it as well: a symbol
  that is not external in the keyword package is not in its table of internal symbols, which is
  empty. Making a package looks up designators and changes lists only, and always returns.
\<close>

lemma safely_returns: "safely_if careful w out \<Longrightarrow> out \<noteq> None"
  by (auto simp: safely_if_def)

lemma CE_returns: "(\<And>ans. k ans \<noteq> None) \<Longrightarrow> CEpackage_error ans e w k \<noteq> None"
  by (auto simp: CEpackage_error_def split: list.splits bool.splits)

lemma unless_closed_returns: "(\<And>ans. k ans \<noteq> None) \<Longrightarrow> unless_closed ans p w k \<noteq> None"
  by (simp add: unless_closed_def CE_returns del: not_None_eq)

lemma coerce_returns:
  assumes "world_ok w" and "desig_ok w d" and "\<And>p. p < length (packs w) \<Longrightarrow> k p \<noteq> None"
  shows "mk_si_coerce_to_package d w k \<noteq> None"
  using assms(3) find_package_bound [OF assms(1,2)]
  by (simp add: mk_si_coerce_to_package_def del: not_None_eq split: option.splits)

lemma symbol_returns: "(\<And>name. v_name (view w) s = Some name \<Longrightarrow> k name \<noteq> None) \<Longrightarrow> with_symbol_name s w k \<noteq> None"
  by (simp add: with_symbol_name_def del: not_None_eq split: option.splits)

lemma v_find_not_present:
  assumes "view_ok V" and "v_find V name p = (x, flag)" and "\<not> (flag = IsInternal \<or> flag = IsExternal)"
  shows "v_int V p name = None"
  using assms by (auto simp: v_find_def view_ok_def keyword_ok_def split: option.splits if_splits)

lemma import_add_returns:
  assumes "world_ok w" and "p < length (packs w)" and "v_name (view w) s = Some name" and "v_int (view w) p name = None"
  shows "import_add s name p w \<noteq> None"
proof -
  obtain y where y: "symbol_of w s = Some y" "sym_name y = name" using assms(3) by auto
  then have "(case symbol_of w s of Some y \<Rightarrow> hashed_name y | None \<Rightarrow> 0) = mkcl_hash_equal_package name"
    using assms(1) by (auto simp: world_ok_def symbols_ok_def)
  moreover have "tables_ok w" using assms(1) by (simp add: world_ok_def)
  ultimately show ?thesis
    using add_internal_view [OF _ assms(2,4)] unfolding import_add_def by (metis option.map_disc_iff option.distinct(1))
qed

lemma import_returns:
  assumes ok: "world_ok w" and "desig_ok w d"
  shows "mkcl_import2 ans s d w \<noteq> None"
  unfolding mkcl_import2_def Let_def
proof (intro symbol_returns coerce_returns unless_closed_returns assms)
  fix name p ans'
  assume s: "v_name (view w) s = Some name" and p: "p < length (packs w)"
  obtain x flag where f: "v_find (view w) name p = (x, flag)" by (metis prod.exhaust)
  have v: "view_ok (view w)" using ok by (simp add: world_ok_def)
  have "(if flag = IsInternal \<or> flag = IsExternal then Some (Inr (), w) else import_add s name p w) \<noteq> None"
    using import_add_returns [OF ok p s v_find_not_present [OF v f]] by simp
  then show "Option.bind (mkcl_find_symbol_nolock w name p) (\<lambda>(x, flag).
      if flag \<noteq> Absent \<and> x \<noteq> s
      then CEpackage_error ans' (ImportConflict s p) w
             (\<lambda>ans. if flag = IsInternal \<or> flag = IsExternal then Some (Inr (), w) else import_add s name p w)
      else if flag = IsInternal \<or> flag = IsExternal then Some (Inr (), w) else import_add s name p w) \<noteq> None"
    unfolding find_symbol_view [OF ok p] f
    by (cases "flag \<noteq> Absent \<and> x \<noteq> s") (simp_all add: CE_returns del: not_None_eq cong: if_cong)
qed

lemma set_internal_returns: "tables_ok w \<Longrightarrow> p < length (packs w) \<Longrightarrow> set_internal p name s w \<noteq> None"
  by (metis set_internal_view option.distinct(1))

lemma shadowing_add_returns: "tables_ok w \<Longrightarrow> p < length (packs w) \<Longrightarrow> shadowing_add s name p w \<noteq> None"
  unfolding shadowing_add_def push_shadowing_def
  by (simp add: set_internal_returns tables_ok_upd_field)

lemma displace_returns:
  assumes "tables_ok w" and "p < length (packs w)"
  shows "\<exists>w2. (if i then rem_internal p name w else rem_external p name w) = Some w2 \<and> tables_ok w2
     \<and> length (packs w2) = length (packs w)"
  using rem_internal_view [OF assms] rem_external_view [OF assms] same_but_tables_fields by (metis (full_types))

lemma shadowing_import_returns:
  assumes ok: "world_ok w" and "desig_ok w d"
  shows "mkcl_shadowing_import ans s d w \<noteq> None"
  unfolding mkcl_shadowing_import_def Let_def
proof (intro symbol_returns coerce_returns unless_closed_returns assms)
  fix name p ans'
  assume p: "p < length (packs w)"
  obtain x flag where f: "v_find (view w) name p = (x, flag)" by (metis prod.exhaust)
  let ?w1 = "upd_pack p (\<lambda>P. P\<lparr>shadowings := removeAll x (shadowings P)\<rparr>) w"
  have t: "tables_ok w" using ok by (simp add: world_ok_def)
  then have "tables_ok ?w1" "p < length (packs ?w1)" using p by (simp_all add: tables_ok_upd_field)
  then obtain w2 where w2: "(if flag = IsInternal then rem_internal p name ?w1 else rem_external p name ?w1) = Some w2"
      "tables_ok w2" "length (packs w2) = length (packs w)"
    using displace_returns [of ?w1 p "flag = IsInternal" name] by auto
  have "tables_ok (make_resident_symbol_homeless x p w2)" "p < length (packs (make_resident_symbol_homeless x p w2))"
    using w2(2,3) p by (simp_all add: make_resident_symbol_homeless_def tables_ok_def)
  then have "shadowing_add s name p (make_resident_symbol_homeless x p w2) \<noteq> None" by (rule shadowing_add_returns)
  then show "Option.bind (mkcl_find_symbol_nolock w name p) (\<lambda>(x, flag).
      if flag = IsInternal \<or> flag = IsExternal then
        if x = s then Some (Inr (), if x \<in> set (shadowings (pack w p)) then w else push_shadowing x p w)
        else Option.bind
               (if flag = IsInternal
                then rem_internal p name (upd_pack p (\<lambda>P. P\<lparr>shadowings := removeAll x (shadowings P)\<rparr>) w)
                else rem_external p name (upd_pack p (\<lambda>P. P\<lparr>shadowings := removeAll x (shadowings P)\<rparr>) w))
               (\<lambda>w2. shadowing_add s name p (make_resident_symbol_homeless x p w2))
      else shadowing_add s name p w) \<noteq> None"
    unfolding find_symbol_view [OF ok p] f using w2(1) shadowing_add_returns [OF t p]
    by (cases "flag = IsInternal") (simp_all del: not_None_eq)
qed

lemma shadow_returns:
  assumes ok: "world_ok w" and "desig_ok w d"
  shows "mkcl_shadow ans name d w \<noteq> None"
  unfolding mkcl_shadow_def
proof (intro coerce_returns unless_closed_returns assms)
  fix p ans'
  assume p: "p < length (packs w)"
  obtain s w1 where mk: "mk_cl_make_symbol name w = (s, w1)" by (metis prod.exhaust)
  note m = make_symbol_world [OF ok mk]
  have "set_internal p name s w1 \<noteq> None" using m(5,6) p by (intro set_internal_returns) (simp_all add: world_ok_def)
  then show "Option.bind (mkcl_find_symbol_nolock w name p) (\<lambda>(x, flag).
      if flag = IsInternal \<or> flag = IsExternal then Some (Inr (), push_shadowing x p w)
      else let (x, w1) = mk_cl_make_symbol name w
           in map_option (\<lambda>w2. (Inr (), push_shadowing x p (upd_symbol x (\<lambda>y. y\<lparr>hpack := Some p\<rparr>) w2)))
                (set_internal p name x w1)) \<noteq> None"
    unfolding find_symbol_view [OF ok p] mk by (simp split: prod.splits)
qed

lemma use_initially_returns: "use_initially x ds w \<noteq> None"
  by (induction ds arbitrary: w) (simp_all add: mk_si_coerce_to_package_def del: not_None_eq split: option.splits)

lemma register_returns: "register_package ans x nicks ds w \<noteq> None"
  using use_initially_returns [of x ds "upd_pack x (\<lambda>P. P\<lparr>nicknames := rev nicks\<rparr>) w"]
  by (auto simp: register_package_def CEpackage_error_def split: option.splits sum.splits list.splits bool.splits)

lemma make_returns: "mkcl_make_sized_package ans name nicks ds external_size internal_size w \<noteq> None"
  unfolding mkcl_make_sized_package_def
  by (cases "take_waiting (name # nicks) (to_be_created w)"; cases "mkcl_find_package_nolock w (DName name)")
    (simp_all add: register_returns CE_returns split_beta del: not_None_eq take_waiting.simps)

text \<open>What freedom from conflicts means for a search: it does not depend on the order of the used packages.\<close>

lemma conflict_free_find:
  assumes "conflict_free V" and "p \<noteq> v_keyword V" and "inherits V p name s"
  shows "\<exists>flag. v_find V name p = (s, flag) \<and> flag \<noteq> Absent
     \<or> (\<exists>t. v_present V p name = Some t \<and> t \<in> v_shadow V p \<and> v_find V name p = (t, flag) \<and> flag \<noteq> Absent)"
proof (cases "v_present V p name")
  case None
  then obtain t where t: "v_inherited V name (v_uses V p) = Some t"
    using assms(3) v_inherited_inherits(2) [of V name p] by (cases "v_inherited V name (v_uses V p)") auto
  then have "t = s"
    using assms(3) conflict_free_at_of [OF assms(1), of p] v_inherited_inherits(1) [OF t] None
    unfolding conflict_free_at_def by blast
  then show ?thesis using v_find_inherited [OF assms(2) None] t by auto
next
  case (Some t)
  then have "t = s \<or> t \<in> v_shadow V p"
    using assms(3) conflict_free_at_of [OF assms(1), of p] unfolding conflict_free_at_def by blast
  then show ?thesis using v_find_present [OF assms(2) Some] Some by auto
qed

section \<open>Interning\<close>

lemma intern_in_spec:
  assumes ok: "world_ok w" and p: "p < length (packs w)" and r: "intern_in ans name p w = Some (Inr (s, flag), w')"
  shows "world_ok w'" and "length (packs w') = length (packs w)" and "flag \<noteq> Absent \<longrightarrow> w' = w"
    and "\<exists>flag'. v_find (view w') name p = (s, flag') \<and> flag' \<noteq> Absent"
    and "flag = Absent \<longrightarrow> symbol_of w s = None \<and> map_option hpack (symbol_of w' s) = Some (Some p)
      \<and> \<not> closed (pack w p)"
    and "n \<noteq> name \<or> q \<noteq> p \<Longrightarrow> v_present (view w') q n = v_present (view w) q n"
proof -
  let ?V = "view w"
  obtain x fl where f: "v_find ?V name p = (x, fl)" by (metis prod.exhaust)
  have *: "world_ok w' \<and> length (packs w') = length (packs w) \<and> (flag \<noteq> Absent \<longrightarrow> w' = w)
    \<and> (\<exists>flag'. v_find (view w') name p = (s, flag') \<and> flag' \<noteq> Absent)
    \<and> (flag = Absent \<longrightarrow> symbol_of w s = None \<and> map_option hpack (symbol_of w' s) = Some (Some p) \<and> \<not> closed (pack w p))
    \<and> (n \<noteq> name \<or> q \<noteq> p \<longrightarrow> v_present (view w') q n = v_present ?V q n)"
  proof (cases "fl = Absent")
    case False
    then show ?thesis using r f ok by (auto simp: intern_in_cases [OF ok p])
  next
    case True
    then have abs: "v_find ?V name p = (x, Absent)" using f by simp
    have open': "\<not> closed (pack w p)" and new: "intern_new name p w = Some (Inr (s, flag), w')"
      using r f True by (auto simp: intern_in_cases [OF ok p] split: if_splits)
    obtain s' w'' where n: "intern_new name p w = Some (Inr (s', Absent), w'')" "kept w w''" "symbol_of w s' = None"
       "view w'' = (if p = keyword_package w
          then set_local (v_new s' name ?V) p ((v_ext ?V p)(name \<mapsto> s')) (v_int ?V p) (v_shadow ?V p)
          else set_local (v_new s' name ?V) p (v_ext ?V p) ((v_int ?V p)(name \<mapsto> s')) (v_shadow ?V p))"
       "map_option hpack (symbol_of w'' s') = Some (Some p)"
      using intern_new_world [OF ok p abs] by blast
    have eq: "s' = s" "w'' = w'" "flag = Absent" using n(1) new by auto
    have vok: "view_ok ?V" using ok by (simp add: world_ok_def)
    note none = v_find_absent [OF abs vok]
    have "v_count (view w') = v_count ?V" using n(4) eq by simp
    then have len: "length (packs w') = length (packs w)" by simp
    have "v_find (view w') name p = (s, if p = keyword_package w then IsExternal else IsInternal)"
      using n(4) eq none by (simp add: v_find_def)
    moreover have "v_present (view w') q n = v_present ?V q n" if "n \<noteq> name \<or> q \<noteq> p"
      using n(4) eq that by (auto simp: present_set_local v_present_def split: option.splits)
    ultimately show ?thesis using n(2,3,5) eq open' len by (auto simp: kept_def)
  qed
  show "world_ok w'" "length (packs w') = length (packs w)" "flag \<noteq> Absent \<longrightarrow> w' = w"
    "\<exists>flag'. v_find (view w') name p = (s, flag') \<and> flag' \<noteq> Absent"
    "flag = Absent \<longrightarrow> symbol_of w s = None \<and> map_option hpack (symbol_of w' s) = Some (Some p) \<and> \<not> closed (pack w p)"
    using * by blast+
  show "n \<noteq> name \<or> q \<noteq> p \<Longrightarrow> v_present (view w') q n = v_present (view w) q n"
    using * by blast
qed

section \<open>Uninterning and exporting\<close>

lemma unintern_spec:
  assumes ok: "world_ok w" and p: "p < length (packs w)" and s: "symbol_of w s = Some y"
    and r: "mkcl_unintern ans s (DPackage p) w = Some (Inr b, w')"
  shows "b \<longleftrightarrow> v_present (view w) p (sym_name y) = Some s"
    and "v_present (view w') p (sym_name y) \<noteq> Some s" and "s \<notin> v_shadow (view w') p"
    and "\<not> b \<longrightarrow> w' = w" and "q \<noteq> p \<or> n \<noteq> sym_name y \<Longrightarrow> v_present (view w') q n = v_present (view w) q n"
proof -
  let ?name = "sym_name y" and ?V = "view w"
  have vok: "view_ok ?V" using ok by (simp add: world_ok_def)
  have nm: "v_name ?V s = Some ?name" using s by simp
  have run: "(if v_present ?V p ?name = Some s
      then if closed (pack w p) then Some (Inl (ClosedPackage p), w)
           else unintern_found (v_int ?V p ?name = Some s) s ?name p w
      else Some (Inr False, w)) = Some (Inr b, w')"
    using r s unintern_in_closed [OF ok p nm, of ans]
    by (simp add: mkcl_unintern_def with_symbol_name_def mk_si_coerce_to_package_def mkcl_find_package_nolock_def)
  have *: "(b \<longleftrightarrow> v_present ?V p ?name = Some s) \<and> v_present (view w') p ?name \<noteq> Some s \<and> s \<notin> v_shadow (view w') p
    \<and> (\<not> b \<longrightarrow> w' = w) \<and> (q \<noteq> p \<or> n \<noteq> ?name \<longrightarrow> v_present (view w') q n = v_present ?V q n)"
  proof (cases "v_present ?V p ?name = Some s")
    case False
    then have eq: "b = False" "w' = w" using run by auto
    have "s \<notin> v_shadow ?V p" using shadow_present [OF vok _ nm] False by blast
    then show ?thesis using False eq by simp
  next
    case True
    have i: "if v_int ?V p ?name = Some s then v_ext ?V p ?name = None else v_int ?V p ?name = None"
    proof -
      have "v_ext ?V p ?name = None \<or> v_int ?V p ?name = None"
        using vok by (simp add: view_ok_def disjoint_ok_def)
      then show ?thesis using True by (auto simp: v_present_def split: option.splits)
    qed
    have "unintern_found (v_int ?V p ?name = Some s) s ?name p w = Some (Inr b, w')"
      using run True by (simp split: if_splits)
    from unintern_found_world(2) [OF ok p True i this]
    have "b" and v: "view w' = set_local ?V p ((v_ext ?V p)(?name := None)) ((v_int ?V p)(?name := None)) (v_shadow ?V p - {s})"
      by simp_all
    have "v_present (view w') q n = v_present ?V q n" if "q \<noteq> p \<or> n \<noteq> ?name"
      unfolding v using that by (auto simp: present_set_local v_present_def split: option.splits)
    moreover have "v_present (view w') p ?name = None" unfolding v by (simp add: present_set_local)
    moreover have "s \<notin> v_shadow (view w') p" unfolding v by simp
    ultimately show ?thesis using True \<open>b\<close> by simp
  qed
  show "b \<longleftrightarrow> v_present (view w) p (sym_name y) = Some s" "v_present (view w') p (sym_name y) \<noteq> Some s"
    "s \<notin> v_shadow (view w') p" "\<not> b \<longrightarrow> w' = w" using * by blast+
  show "q \<noteq> p \<or> n \<noteq> sym_name y \<Longrightarrow> v_present (view w') q n = v_present (view w) q n" using * by blast
qed

lemma export_spec:
  assumes ok: "world_ok w" and p: "p < length (packs w)" and s: "symbol_of w s = Some y"
    and r: "mkcl_export2 ans s (DPackage p) w = Some (Inr (), w')"
  shows "v_ext (view w') p (sym_name y) = Some s" and "world_ok w'"
    and "conflict_free (view w) \<longrightarrow> conflict_free (view w')"
proof -
  let ?name = "sym_name y"
  have nm: "v_name (view w) s = Some ?name" using s by simp
  obtain x flag where f: "v_find (view w) ?name p = (x, flag)" by (metis prod.exhaust)
  have "export_found s ?name p x flag w = Some (Inr (), w')"
    using r s f
    by (auto simp: mkcl_export2_def with_symbol_name_def mk_si_coerce_to_package_def mkcl_find_package_nolock_def
        unless_closed_def CEpackage_error_def find_symbol_view [OF ok p] split: if_splits list.splits bool.splits)
  then show "v_ext (view w') p ?name = Some s" by (rule export_found_world(2) [OF ok p nm f])
  have "kept w w'"
    using export_safe [OF ok, of "DPackage p" ans s] r p by (auto simp: safely_def desig_ok_def)
  then show "world_ok w'" and "conflict_free (view w) \<longrightarrow> conflict_free (view w')" by (simp_all add: kept_def)
qed

section \<open>A world to start from\<close>

text \<open>The keyword package, with the symbol \<open>NIL\<close> alone known, and a second package.\<close>

definition boot_world :: world where
  "boot_world =
     \<lparr>syms = [], nil_symbol = new_symbol [78, 73, 76],
      packs = [alloc_sized_package [75] 7 7, alloc_sized_package [76] 7 7],
      packages = [0, 1], to_be_created = [], lisp_package = 1, keyword_package = 0\<rparr>"

lemma boot_packs:
  "P \<in> set (packs boot_world) \<Longrightarrow> name_wf (internal P) \<and> name_wf (external P)
     \<and> table_map (internal P) = Map.empty \<and> table_map (external P) = Map.empty
     \<and> shadowings P = [] \<and> uses P = [] \<and> usedby P = []"
  using new_table_map [of 7] by (auto simp: boot_world_def alloc_sized_package_def)

lemma boot_view:
  "v_ext (view boot_world) = (\<lambda>p. Map.empty)" "v_int (view boot_world) = (\<lambda>p. Map.empty)"
  "v_shadow (view boot_world) = (\<lambda>p. {})" "v_uses (view boot_world) = (\<lambda>p. [])" "v_usedby (view boot_world) = (\<lambda>p. [])"
  using boot_packs by (simp_all add: view_def of_pack_def pack_def fun_eq_iff)

lemma boot_world_ok: "world_ok boot_world" and boot_conflict_free: "conflict_free (view boot_world)"
proof -
  have "view_ok (view boot_world)"
    by (simp add: view_ok_def names_ok_def disjoint_ok_def shadows_ok_def uses_ok_def keyword_ok_def boot_view)
      (simp add: boot_world_def)
  moreover have "tables_ok boot_world" using boot_packs by (simp add: tables_ok_def)
  moreover have "symbols_ok boot_world"
    by (auto simp: symbols_ok_def symbol_of_def boot_world_def new_symbol_def cell_at_def split: if_splits option.splits cell.splits obj.splits)
  ultimately show "world_ok boot_world" by (simp add: world_ok_def) (simp add: boot_world_def)
  show "conflict_free (view boot_world)"
    by (simp add: conflict_free_def conflict_free_at_def inherits_def boot_view)
qed

lemma boot_bound: "1 < length (packs boot_world)"
  by (simp add: boot_world_def)

lemma boot_intern:
  obtains s w' y where "mkcl_intern ans [65] (DPackage 1) boot_world = Some (Inr (s, Absent), w')"
    and "world_ok w'" and "1 < length (packs w')" and "symbol_of w' s = Some y" and "sym_name y = [65]"
    and "v_find (view w') [65] 1 = (s, IsInternal)" and "usedby (pack w' 1) = []" and "conflict_free (view w')"
    and "\<not> closed (pack boot_world 1)"
proof -
  have f: "v_find (view boot_world) [65] 1 = (Cnil, Absent)" by (simp add: v_find_def boot_view)
  have c: "\<not> closed (pack boot_world 1)" by (simp add: boot_world_def pack_def alloc_sized_package_def)
  have k: "1 \<noteq> keyword_package boot_world" by (simp add: boot_world_def)
  obtain s w' where n: "intern_new [65] 1 boot_world = Some (Inr (s, Absent), w')" "kept boot_world w'"
      "view w' = set_local (v_new s [65] (view boot_world)) 1 (v_ext (view boot_world) 1)
         ((v_int (view boot_world) 1)([65] \<mapsto> s)) (v_shadow (view boot_world) 1)"
    using intern_new_world [OF boot_world_ok boot_bound f] k by auto
  have "intern_in ans [65] 1 boot_world = Some (Inr (s, Absent), w')"
    unfolding intern_in_cases [OF boot_world_ok boot_bound] using f c n(1) by simp
  then have r: "mkcl_intern ans [65] (DPackage 1) boot_world = Some (Inr (s, Absent), w')"
    by (simp add: mkcl_intern_def mk_si_coerce_to_package_def mkcl_find_package_nolock_def)
  have "v_count (view w') = v_count (view boot_world)" using n(3) by simp
  then have p: "1 < length (packs w')" using boot_bound by simp
  have "v_name (view w') s = Some [65]" using n(3) by simp
  then obtain y where y: "symbol_of w' s = Some y" "sym_name y = [65]" by auto
  have "v_find (view w') [65] 1 = (s, IsInternal)" using n(3) k by (simp add: v_find_def boot_view)
  moreover have "v_usedby (view w') 1 = []" using n(3) by (simp add: boot_view)
  then have "usedby (pack w' 1) = []" using p by simp
  ultimately show thesis using that r n(2) p y c boot_conflict_free by (simp add: kept_def)
qed

lemma boot_export:
  obtains s w1 w' y where "world_ok w1" and "1 < length (packs w1)" and "symbol_of w1 s = Some y" and "sym_name y = [65]"
    and "mkcl_export2 [True] s (DPackage 1) w1 = Some (Inr (), w')"
proof -
  obtain s w1 y where i: "world_ok w1" "1 < length (packs w1)" "symbol_of w1 s = Some y" "sym_name y = [65]"
      "v_find (view w1) [65] 1 = (s, IsInternal)" "usedby (pack w1 1) = []" "conflict_free (view w1)"
    by (rule boot_intern [of "[]"])
  have nm: "v_name (view w1) s = Some [65]" using i(3,4) by simp
  obtain r w' where e: "export_found s [65] 1 s IsInternal w1 = Some (r, w')"
    using export_found_world(1) [OF i(1,2) nm i(5)] by (auto simp: safely_def)
  then have "r = Inr ()" using i(6) by (auto simp: export_found_def)
  moreover have "mkcl_export2 [True] s (DPackage 1) w1 = unless_closed [True] 1 w1 (\<lambda>ans. Some (r, w'))"
    using e i(3,4,5) by (simp del: One_nat_def add: mkcl_export2_def with_symbol_name_def mk_si_coerce_to_package_def
        mkcl_find_package_nolock_def find_symbol_view [OF i(1,2)])
  ultimately show thesis using that i by (simp add: unless_closed_def CEpackage_error_def)
qed

end
