(* ===== verification/Stacks.thy ===== *)
theory Stacks
  imports Objects
begin

text \<open>
  The stacks of a thread (\<^verbatim>\<open>src/src/c/stacks.c\<close>, \<^verbatim>\<open>src/src/c/mkcl/stacks.h\<close>): the
  binding stack of the special variables, the frame stack of the non-local exits, the stack of
  Lisp temporaries, and the operations on variables of \<^verbatim>\<open>assignment.c\<close> and
  \<^verbatim>\<open>reference.c\<close> that read and write through them.

  The three stacks are arrays that grow by the same rules, which the C code repeats for each;
  they are one record here, with positions for pointers. A slot is \<open>None\<close> until it is written:
  fresh memory. The length of \<open>slots\<close> is the allocated size (\<open>bds_size\<close>, \<open>frs_size\<close>,
  \<open>temp_stack_size\<close>); a write past it is \<open>WildAccess\<close>, as is a read of a slot never written.
  \<open>stk_upper\<close> is the upper bound the code compares with; it is a position cut off at 0, where a
  C pointer could lie before the stack, and every position is at or above either.

  An operation that signals an error returns the state in which the handlers of the error run.
\<close>

section \<open>Growing stacks\<close>

record 'a stack =
  slots :: "'a option list"
  stk_top :: nat
  stk_upper :: nat
  stk_limit :: nat
  stk_overflow :: nat
  overflowing :: bool

datatype stack_error =
    StackOverflow nat
  | ThreadAbandoned
  | ThreadExit
  | Lose
  | WildAccess
  | BindNil
  | IllegalVariableName obj
  | ConstantVariable obj
  | UnboundVariable obj
  | TypeErrorSymbol obj
  | TempStackAdvance
  | TempStackUnderflow
  | IllegalIndex obj
  | ControlError

text \<open>
  \<open>_resize_bds_stack\<close>, \<open>_resize_frs_stack\<close> and \<open>_resize_temp_stack\<close>. The first two compare
  the new size with the limit by \<open>>\<close> (\<open>strict\<close>), the third by \<open>>=\<close>. The copy writes all old
  slots into the new array, so it must not be smaller.
\<close>

definition resized :: "bool \<Rightarrow> nat \<Rightarrow> 'a stack \<Rightarrow> nat" where
  "resized strict new_size s =
     (if stk_limit s \<noteq> 0 \<and> (if strict then stk_limit s < new_size else stk_limit s \<le> new_size)
      then stk_limit s + stk_overflow s else new_size)"

definition resize_stack :: "bool \<Rightarrow> nat \<Rightarrow> 'a stack \<Rightarrow> 'a stack option" where
  "resize_stack strict new_size s =
     (let n = resized strict new_size s
      in if n < length (slots s) then None
         else Some (s\<lparr>slots := slots s @ replicate (n - length (slots s)) None,
                      stk_upper := (if stk_limit s \<noteq> 0 \<and> stk_limit s \<le> n then n - stk_overflow s else n)\<rparr>))"

definition grown_size :: "nat \<Rightarrow> 'a stack \<Rightarrow> nat" where
  "grown_size chunk s =
     (if length (slots s) < chunk then 2 * length (slots s) else length (slots s) + chunk)"

text \<open>A stack of temporaries always has an element at the bottom.\<close>

definition guard_bottom :: "obj stack \<Rightarrow> obj stack" where
  "guard_bottom s =
     (if stk_top s = 0 then s\<lparr>slots := (slots s)[0 := Some (Fixnum 0)], stk_top := 1\<rparr> else s)"

definition resize_bds_stack :: "nat \<Rightarrow> 'a stack \<Rightarrow> 'a stack option" where
  "resize_bds_stack new_size s = resize_stack True new_size s"

definition resize_frs_stack :: "nat \<Rightarrow> 'a stack \<Rightarrow> 'a stack option" where
  "resize_frs_stack new_size s = resize_stack True new_size s"

definition resize_temp_stack :: "nat \<Rightarrow> obj stack \<Rightarrow> obj stack option" where
  "resize_temp_stack new_size s = map_option guard_bottom (resize_stack False new_size s)"

text \<open>
  Growing. Below the limit the size doubles or grows by a chunk. At the limit the code makes room
  for the overflow area, opens it for the handlers and signals the overflow; when that is used up
  too the thread is abandoned. The signal is inside an \<open>MKCL_UNWIND_PROTECT\<close>, whose frame goes
  onto the frame stack: the functions below on one stack leave it out, and \<open>mkcl_frs_push\<close>, where
  it is the growing stack itself, has it.
\<close>

definition at_limit :: "'a stack \<Rightarrow> bool" where
  "at_limit s \<longleftrightarrow> stk_limit s \<noteq> 0 \<and> stk_limit s \<le> length (slots s)"

definition limit_resize :: "(nat \<Rightarrow> 'a stack \<Rightarrow> 'a stack option) \<Rightarrow> 'a stack \<Rightarrow> 'a stack option" where
  "limit_resize resize s =
     (if length (slots s) < stk_limit s + stk_overflow s
      then resize (stk_limit s + stk_overflow s) s else Some s)"

definition open_overflow_area :: "'a stack \<Rightarrow> 'a stack" where
  "open_overflow_area s = s\<lparr>stk_upper := length (slots s), overflowing := True\<rparr>"

definition grow_stack ::
  "(nat \<Rightarrow> 'a stack \<Rightarrow> 'a stack option) \<Rightarrow> nat \<Rightarrow> 'a stack \<Rightarrow> (stack_error + unit) \<times> 'a stack" where
  "grow_stack resize chunk s =
     (if overflowing s then
        (if stk_upper s \<le> stk_top s then (Inl ThreadAbandoned, s) else (Inr (), s))
      else if at_limit s then
        (case limit_resize resize s of
           None \<Rightarrow> (Inl WildAccess, s)
         | Some s1 \<Rightarrow> (Inl (StackOverflow (stk_limit s)), open_overflow_area s1))
      else
        (case resize (grown_size chunk s) s of
           None \<Rightarrow> (Inl WildAccess, s)
         | Some s1 \<Rightarrow> (Inr (), s1)))"

definition mkcl_grow_bds_stack :: "'a stack \<Rightarrow> (stack_error + unit) \<times> 'a stack" where
  "mkcl_grow_bds_stack s = grow_stack resize_bds_stack 512 s"

definition mkcl_grow_temp_stack :: "obj stack \<Rightarrow> (stack_error + unit) \<times> obj stack" where
  "mkcl_grow_temp_stack s = grow_stack resize_temp_stack 2048 s"

text \<open>What cleans up after an overflow was signalled.\<close>

definition close_overflow_area :: "nat \<Rightarrow> 'a stack \<Rightarrow> 'a stack" where
  "close_overflow_area old_upper s = s\<lparr>stk_upper := old_upper, overflowing := False\<rparr>"

text \<open>
  \<open>si:set-binding-stack-limit\<close> and its two siblings: the new limit, and the stack. The new upper
  bound is the limit, whatever the allocated size is.
\<close>

definition set_stack_limit :: "nat \<Rightarrow> 'a stack \<Rightarrow> nat \<times> 'a stack" where
  "set_stack_limit size_limit s =
     (let l = (if size_limit \<noteq> 0 \<and> size_limit < stk_top s then stk_top s else size_limit)
      in (l, s\<lparr>stk_limit := l, stk_upper := l\<rparr>))"

definition write_slot :: "nat \<Rightarrow> 'a \<Rightarrow> 'a stack \<Rightarrow> 'a stack option" where
  "write_slot i x s = (if i < length (slots s) then Some (s\<lparr>slots := (slots s)[i := Some x]\<rparr>) else None)"

definition slot_at :: "'a stack \<Rightarrow> nat \<Rightarrow> 'a option" where
  "slot_at s i = (if i < length (slots s) then slots s ! i else None)"

section \<open>State of a thread\<close>

text \<open>
  \<open>EndOfChain\<close> is \<open>MKCL_END_OF_BDS_CHAIN\<close>, a word that is no object: the variable has no
  binding in this thread.
\<close>

datatype bds_value = EndOfChain | Value obj

datatype frame_tag = ProtectTag | Tag obj

record ihs_frame =
  ihs_function :: obj
  ihs_lex_env :: obj
  ihs_index :: nat
  ihs_bds_marker :: nat

record frame =
  frs_val :: frame_tag
  frs_bds_top_index :: nat
  frs_ihs :: "ihs_frame list"
  frs_sp :: nat
  frs_intr :: bool

record env =
  bds :: "(obj \<times> bds_value) stack"
  frs :: "frame stack"
  temp_stack :: "obj stack"
  specials :: "bds_value list"
  ihs_top :: "ihs_frame list"
  nlj_fr :: "nat option"
  go_label_index :: nat
  values_vec :: "obj list"
  disable_interrupts :: bool

text \<open>What all threads share: the symbols, and the counter of special indexes.\<close>

record core =
  sym_heap :: heap
  cnil_symbol :: symbol
  top_special_index :: nat

type_synonym 'a run = "(stack_error + 'a) \<times> core \<times> env"

definition MKCL_NOT_A_SPECIAL_INDEX :: nat where
  "MKCL_NOT_A_SPECIAL_INDEX = 2 ^ 64 - 1"

definition sym_cell :: "core \<Rightarrow> obj \<Rightarrow> symbol option" where
  "sym_cell c s = (case cell_at (sym_heap c) s of Some (SymC y) \<Rightarrow> Some y | _ \<Rightarrow> None)"

definition set_sym_cell :: "obj \<Rightarrow> symbol \<Rightarrow> core \<Rightarrow> core" where
  "set_sym_cell s y c = c\<lparr>sym_heap := store (sym_heap c) s (SymC y)\<rparr>"

section \<open>The binding stack\<close>

text \<open>The index, when one is left; the symbol keeps it.\<close>

definition mkcl_alloc_new_special_index :: "core \<Rightarrow> (nat \<times> core) option" where
  "mkcl_alloc_new_special_index c =
     (if top_special_index c = MKCL_NOT_A_SPECIAL_INDEX then None
      else Some (top_special_index c, c\<lparr>top_special_index := top_special_index c + 1\<rparr>))"

definition mkcl_grow_specials :: "nat \<Rightarrow> env \<Rightarrow> env" where
  "mkcl_grow_specials new_size e =
     e\<lparr>specials := specials e @ replicate (new_size - length (specials e)) EndOfChain\<rparr>"

definition mkcl_sym_val :: "core \<Rightarrow> env \<Rightarrow> obj \<Rightarrow> obj option" where
  "mkcl_sym_val c e s =
     (if s = Cnil then Some Cnil
      else case sym_cell c s of
          None \<Rightarrow> None
        | Some y \<Rightarrow>
            (case special_index y of
               Some i \<Rightarrow>
                 (if i < length (specials e)
                  then (case specials e ! i of Value v \<Rightarrow> Some v | EndOfChain \<Rightarrow> Some (sym_value y))
                  else Some (sym_value y))
             | None \<Rightarrow> Some (sym_value y)))"

definition special_index_of :: "obj \<Rightarrow> symbol \<Rightarrow> core \<Rightarrow> (nat \<times> core) option" where
  "special_index_of s y c =
     (case special_index y of
        Some i \<Rightarrow> Some (i, c)
      | None \<Rightarrow> map_option (\<lambda>(i, c1). (i, set_sym_cell s (y\<lparr>special_index := Some i\<rparr>) c1))
                  (mkcl_alloc_new_special_index c))"

definition bds_push_slot :: "obj \<Rightarrow> obj \<Rightarrow> nat \<Rightarrow> core \<Rightarrow> env \<Rightarrow> unit run" where
  "bds_push_slot s v i c e =
     (let slot = stk_top (bds e) + 1;
          b1 = (bds e)\<lparr>stk_top := slot\<rparr>;
          (r, b2) = (if stk_upper b1 \<le> slot then mkcl_grow_bds_stack b1 else (Inr (), b1))
      in case r of
           Inl err \<Rightarrow> (Inl err, c, e\<lparr>bds := b2\<rparr>)
         | Inr u \<Rightarrow>
             (case write_slot slot (s, specials e ! i) b2 of
                None \<Rightarrow> (Inl WildAccess, c, e\<lparr>bds := b2\<rparr>)
              | Some b3 \<Rightarrow> (Inr (), c, e\<lparr>bds := b3, specials := (specials e)[i := Value v]\<rparr>)))"

text \<open>
  A binding as the thread that makes it sees it. The test and the storing of the index are not
  guarded against other threads; \<open>Interleaving\<close> takes the function apart at its accesses to the symbol.
\<close>

definition mkcl_bds_bind :: "obj \<Rightarrow> obj \<Rightarrow> core \<Rightarrow> env \<Rightarrow> unit run" where
  "mkcl_bds_bind s v c e =
     (if s = Cnil then (Inl BindNil, c, e)
      else case sym_cell c s of
          None \<Rightarrow> (Inl WildAccess, c, e)
        | Some y \<Rightarrow>
            (case special_index_of s y c of
               None \<Rightarrow> (Inl Lose, c, e)
             | Some (i, c1) \<Rightarrow>
                 bds_push_slot s v i c1
                   (if i < length (specials e) then e else mkcl_grow_specials (i + 1) e)))"

definition mkcl_bds_push :: "obj \<Rightarrow> core \<Rightarrow> env \<Rightarrow> unit run" where
  "mkcl_bds_push s c e =
     (case mkcl_sym_val c e s of None \<Rightarrow> (Inl WildAccess, c, e) | Some v \<Rightarrow> mkcl_bds_bind s v c e)"

text \<open>
  Undoing a binding reads the slot and the symbol in it; at the bottom of the stack it reads the
  guard slot and stays there.
\<close>

definition mkcl_bds_unwind1 :: "core \<Rightarrow> env \<Rightarrow> env option" where
  "mkcl_bds_unwind1 c e =
     (let slot = stk_top (bds e)
      in case slot_at (bds e) slot of
           None \<Rightarrow> None
         | Some (s, v) \<Rightarrow>
             (case Option.bind (sym_cell c s) special_index of
                None \<Rightarrow> None
              | Some i \<Rightarrow>
                  if i < length (specials e)
                  then Some (e\<lparr>bds := (bds e)\<lparr>stk_top := slot - 1\<rparr>, specials := (specials e)[i := v]\<rparr>)
                  else None))"

fun mkcl_bds_unwind_n :: "nat \<Rightarrow> core \<Rightarrow> env \<Rightarrow> env option" where
  "mkcl_bds_unwind_n 0 c e = Some e"
| "mkcl_bds_unwind_n (Suc n) c e = Option.bind (mkcl_bds_unwind1 c e) (mkcl_bds_unwind_n n c)"

text \<open>The loop runs as often as the top is above the new one: each turn lowers it by one.\<close>

definition mkcl_bds_unwind :: "nat \<Rightarrow> core \<Rightarrow> env \<Rightarrow> env option" where
  "mkcl_bds_unwind new_top c e = mkcl_bds_unwind_n (stk_top (bds e) - new_top) c e"

section \<open>Values of variables\<close>

definition is_constant :: "symbol \<Rightarrow> bool" where
  "is_constant y \<longleftrightarrow> odd (stype y)"

definition mkcl_symbol_value :: "core \<Rightarrow> env \<Rightarrow> obj \<Rightarrow> stack_error + obj" where
  "mkcl_symbol_value c e s =
     (case mkcl_sym_val c e s of
        None \<Rightarrow> Inl WildAccess
      | Some v \<Rightarrow> if v = ObjNull then Inl (UnboundVariable s) else Inr v)"

definition mkcl_set_symbol_value :: "obj \<Rightarrow> obj \<Rightarrow> core \<Rightarrow> env \<Rightarrow> obj run" where
  "mkcl_set_symbol_value s v c e =
     (case sym_cell c s of
        None \<Rightarrow> (Inl (IllegalVariableName s), c, e)
      | Some y \<Rightarrow>
          if is_constant y then (Inl (ConstantVariable s), c, e)
          else case special_index y of
              Some i \<Rightarrow>
                (if i < length (specials e) \<and> specials e ! i \<noteq> EndOfChain
                 then (Inr v, c, e\<lparr>specials := (specials e)[i := Value v]\<rparr>)
                 else (Inr v, set_sym_cell s (y\<lparr>sym_value := v\<rparr>) c, e))
            | None \<Rightarrow> (Inr v, set_sym_cell s (y\<lparr>sym_value := v\<rparr>) c, e))"

definition mk_cl_set :: "obj \<Rightarrow> obj \<Rightarrow> core \<Rightarrow> env \<Rightarrow> obj run" where
  "mk_cl_set var val c e = mkcl_set_symbol_value var val c e"

definition symbol_cell_of :: "core \<Rightarrow> obj \<Rightarrow> symbol option" where
  "symbol_cell_of c s = (if s = Cnil then Some (cnil_symbol c) else sym_cell c s)"

definition mk_cl_makunbound :: "obj \<Rightarrow> core \<Rightarrow> env \<Rightarrow> obj run" where
  "mk_cl_makunbound s c e =
     (case symbol_cell_of c s of
        None \<Rightarrow> (Inl (TypeErrorSymbol s), c, e)
      | Some y \<Rightarrow>
          if is_constant y then (Inl (ConstantVariable s), c, e)
          else case mkcl_set_symbol_value s ObjNull c e of
              (Inl err, c1, e1) \<Rightarrow> (Inl err, c1, e1)
            | (Inr v, c1, e1) \<Rightarrow> (Inr s, c1, e1))"

definition mk_cl_symbol_value :: "core \<Rightarrow> env \<Rightarrow> obj \<Rightarrow> stack_error + obj" where
  "mk_cl_symbol_value c e s =
     (if s = Cnil then Inr Cnil
      else if sym_cell c s = None then Inl (TypeErrorSymbol s)
      else mkcl_symbol_value c e s)"

definition mk_cl_boundp :: "core \<Rightarrow> env \<Rightarrow> obj \<Rightarrow> stack_error + bool" where
  "mk_cl_boundp c e s =
     (if s = Cnil then Inr True
      else case mkcl_sym_val c e s of
          None \<Rightarrow> Inl (TypeErrorSymbol s)
        | Some v \<Rightarrow> Inr (v \<noteq> ObjNull))"

section \<open>The frame stack\<close>

definition frs_fill :: "frame_tag \<Rightarrow> env \<Rightarrow> (stack_error + nat) \<times> env" where
  "frs_fill val e =
     (let i = stk_top (frs e)
      in case write_slot i \<lparr>frs_val = val, frs_bds_top_index = stk_top (bds e), frs_ihs = ihs_top e,
                frs_sp = stk_top (temp_stack e), frs_intr = disable_interrupts e\<rparr> (frs e) of
           None \<Rightarrow> (Inl WildAccess, e)
         | Some f \<Rightarrow> (Inr i, e\<lparr>frs := f\<rparr>))"

text \<open>
  \<open>_mkcl_frs_push\<close> with \<open>grow_frs_stack\<close>. At the limit the latter signals the overflow inside an
  \<open>MKCL_UNWIND_PROTECT\<close>, which pushes a frame of its own before the overflow area is opened.
\<close>

partial_function (option) mkcl_frs_push :: "frame_tag \<Rightarrow> env \<Rightarrow> ((stack_error + nat) \<times> env) option" where
  "mkcl_frs_push val e =
     (let f1 = (frs e)\<lparr>stk_top := stk_top (frs e) + 1\<rparr>; e1 = e\<lparr>frs := f1\<rparr>
      in if stk_top f1 < stk_upper f1 then Some (frs_fill val e1)
         else if overflowing f1 then Some (Inl ThreadAbandoned, e1)
         else if at_limit f1 then
           (case limit_resize resize_frs_stack f1 of
              None \<Rightarrow> Some (Inl WildAccess, e1)
            | Some f2 \<Rightarrow>
                Option.bind (mkcl_frs_push ProtectTag (e1\<lparr>frs := f2\<rparr>)) (\<lambda>(r, e2).
                  case r of
                    Inl err \<Rightarrow> Some (Inl err, e2)
                  | Inr p \<Rightarrow> Some (Inl (StackOverflow (stk_limit f2)), e2\<lparr>frs := open_overflow_area (frs e2)\<rparr>)))
         else
           (case resize_frs_stack (grown_size 64 f1) f1 of
              None \<Rightarrow> Some (Inl WildAccess, e1)
            | Some f2 \<Rightarrow> Some (frs_fill val (e1\<lparr>frs := f2\<rparr>))))"

definition mkcl_frs_pop :: "env \<Rightarrow> env option" where
  "mkcl_frs_pop e =
     (if 0 < stk_top (frs e) then
        map_option (\<lambda>f. e\<lparr>disable_interrupts := frs_intr f, frs := (frs e)\<lparr>stk_top := stk_top (frs e) - 1\<rparr>\<rparr>)
          (slot_at (frs e) (stk_top (frs e)))
      else Some (e\<lparr>disable_interrupts := True\<rparr>))"

definition frame_val :: "frame stack \<Rightarrow> nat \<Rightarrow> frame_tag option" where
  "frame_val f i = map_option frs_val (slot_at f i)"

fun frs_sch_from :: "frame stack \<Rightarrow> frame_tag \<Rightarrow> nat \<Rightarrow> nat option" where
  "frs_sch_from f frame_id 0 = (if frame_val f 0 = Some frame_id then Some 0 else None)"
| "frs_sch_from f frame_id (Suc i) =
     (if frame_val f (Suc i) = Some frame_id then Some (Suc i) else frs_sch_from f frame_id i)"

definition mkcl_frs_sch :: "env \<Rightarrow> frame_tag \<Rightarrow> nat option" where
  "mkcl_frs_sch e frame_id = frs_sch_from (frs e) frame_id (stk_top (frs e))"

text \<open>The search of \<open>mkcl_unwind\<close>: down from the top to the frame, a protecting frame or the bottom.\<close>

fun unwind_target :: "frame stack \<Rightarrow> nat \<Rightarrow> nat \<Rightarrow> nat" where
  "unwind_target f fr 0 = 0"
| "unwind_target f fr (Suc i) =
     (if Suc i = fr \<or> frame_val f (Suc i) = Some ProtectTag then Suc i else unwind_target f fr i)"

definition set_temp_index :: "nat \<Rightarrow> env \<Rightarrow> stack_error + env" where
  "set_temp_index ndx e =
     (if stk_top (temp_stack e) < ndx then Inl TempStackAdvance
      else Inr (e\<lparr>temp_stack := (temp_stack e)\<lparr>stk_top := ndx\<rparr>\<rparr>))"

definition jump_to_frame :: "nat \<Rightarrow> core \<Rightarrow> env \<Rightarrow> (stack_error + nat) \<times> env" where
  "jump_to_frame i c e =
     (case slot_at (frs e) i of
        None \<Rightarrow> (Inl WildAccess, e)
      | Some f \<Rightarrow>
          let e1 = e\<lparr>frs := (frs e)\<lparr>stk_top := i\<rparr>, ihs_top := frs_ihs f\<rparr>
          in case mkcl_bds_unwind (frs_bds_top_index f) c e1 of
               None \<Rightarrow> (Inl WildAccess, e1)
             | Some e2 \<Rightarrow>
                 (case set_temp_index (frs_sp f) e2 of
                    Inl err \<Rightarrow> (Inl err, e2)
                  | Inr e3 \<Rightarrow> (Inr i, e3)))"

text \<open>
  The value is the frame the thread goes on from, the target of the \<open>longjmp\<close>. \<open>None\<close> for the
  frame is C's \<open>NULL\<close>, which aborts the thread from its root frame.
\<close>

definition mkcl_unwind :: "nat option \<Rightarrow> core \<Rightarrow> env \<Rightarrow> (stack_error + nat) \<times> env" where
  "mkcl_unwind fr c e =
     (let e1 = e\<lparr>disable_interrupts := True, nlj_fr := fr\<rparr>
      in case fr of
           None \<Rightarrow>
             if frame_val (frs e1) 0 = Some (Tag ObjNull) then (Inl ThreadExit, e1)
             else jump_to_frame 0 c e1
         | Some f \<Rightarrow> jump_to_frame (unwind_target (frs e1) f (stk_top (frs e1))) c e1)"

definition mkcl_throw :: "obj \<Rightarrow> core \<Rightarrow> env \<Rightarrow> (stack_error + nat) \<times> env" where
  "mkcl_throw tag c e =
     (case mkcl_frs_sch e (Tag tag) of None \<Rightarrow> (Inl ControlError, e) | Some f \<Rightarrow> mkcl_unwind (Some f) c e)"

definition mkcl_return_from :: "obj \<Rightarrow> core \<Rightarrow> env \<Rightarrow> (stack_error + nat) \<times> env" where
  "mkcl_return_from block_id c e =
     (case mkcl_frs_sch e (Tag block_id) of None \<Rightarrow> (Inl ControlError, e) | Some f \<Rightarrow> mkcl_unwind (Some f) c e)"

definition mkcl_go :: "obj \<Rightarrow> nat \<Rightarrow> core \<Rightarrow> env \<Rightarrow> (stack_error + nat) \<times> env" where
  "mkcl_go tag_id label c e =
     (case mkcl_frs_sch e (Tag tag_id) of
        None \<Rightarrow> (Inl ControlError, e)
      | Some f \<Rightarrow> mkcl_unwind (Some f) c (e\<lparr>go_label_index := label\<rparr>))"

text \<open>
  What \<open>MKCL_UNWIND_PROTECT_EXIT\<close> and \<open>MKCL_UNWIND_PROTECT_END\<close> do after a jump to a protecting
  frame: pop the frame, save the values, run the cleanup forms, restore the values, and go on
  with the jump. The cleanup forms are a function on the state.
\<close>

definition mkcl_stack_push_values :: "env \<Rightarrow> (stack_error + nat) \<times> env" where
  "mkcl_stack_push_values e =
     (let i = length (values_vec e); t = temp_stack e;
          (r, t1) = (if stk_upper t \<le> stk_top t + i then mkcl_grow_temp_stack t else (Inr (), t))
      in case r of
           Inl err \<Rightarrow> (Inl err, e\<lparr>temp_stack := t1\<rparr>)
         | Inr u \<Rightarrow>
             if length (slots t1) < stk_top t1 + i then (Inl WildAccess, e\<lparr>temp_stack := t1\<rparr>)
             else (Inr i, e\<lparr>temp_stack := t1\<lparr>
                stk_top := stk_top t1 + i,
                slots := take (stk_top t1) (slots t1) @ map Some (values_vec e) @ drop (stk_top t1 + i) (slots t1)\<rparr>\<rparr>))"

definition mkcl_stack_pop_values :: "nat \<Rightarrow> env \<Rightarrow> (stack_error + unit) \<times> env" where
  "mkcl_stack_pop_values n e =
     (let t = temp_stack e
      in if stk_top t < n then (Inl TempStackUnderflow, e)
         else let vs = take n (drop (stk_top t - n) (slots t))
              in if length vs < n \<or> None \<in> set vs then (Inl WildAccess, e)
                 else (Inr (), e\<lparr>values_vec := map the vs, temp_stack := t\<lparr>stk_top := stk_top t - n\<rparr>\<rparr>))"

definition unwind_protect_exit ::
  "(core \<times> env \<Rightarrow> core \<times> env) \<Rightarrow> core \<Rightarrow> env \<Rightarrow> (stack_error + nat) \<times> core \<times> env" where
  "unwind_protect_exit cleanup c e =
     (let next_fr = nlj_fr e
      in case mkcl_frs_pop e of
           None \<Rightarrow> (Inl WildAccess, c, e)
         | Some e1 \<Rightarrow>
             (case mkcl_stack_push_values e1 of
                (Inl err, e2) \<Rightarrow> (Inl err, c, e2)
              | (Inr nr, e2) \<Rightarrow>
                  let (c3, e3) = cleanup (c, e2)
                  in case mkcl_stack_pop_values nr e3 of
                       (Inl err, e4) \<Rightarrow> (Inl err, c3, e4)
                     | (Inr u, e4) \<Rightarrow> (case mkcl_unwind next_fr c3 e4 of (r, e5) \<Rightarrow> (r, c3, e5))))"

section \<open>Temporaries, the invocation stack, and what the debugger reads\<close>

definition MKCL_TEMP_STACK_PUSH :: "obj \<Rightarrow> env \<Rightarrow> (stack_error + unit) \<times> env" where
  "MKCL_TEMP_STACK_PUSH x e =
     (let t = temp_stack e;
          (r, t1) = (if stk_upper t \<le> stk_top t then mkcl_grow_temp_stack t else (Inr (), t))
      in case r of
           Inl err \<Rightarrow> (Inl err, e\<lparr>temp_stack := t1\<rparr>)
         | Inr u \<Rightarrow>
             (case write_slot (stk_top t1) x t1 of
                None \<Rightarrow> (Inl WildAccess, e\<lparr>temp_stack := t1\<rparr>)
              | Some t2 \<Rightarrow> (Inr (), e\<lparr>temp_stack := t2\<lparr>stk_top := stk_top t1 + 1\<rparr>\<rparr>)))"

definition MKCL_TEMP_STACK_POP_N :: "nat \<Rightarrow> env \<Rightarrow> stack_error + env" where
  "MKCL_TEMP_STACK_POP_N n e =
     (if stk_top (temp_stack e) < n then Inl TempStackUnderflow
      else Inr (e\<lparr>temp_stack := (temp_stack e)\<lparr>stk_top := stk_top (temp_stack e) - n\<rparr>\<rparr>))"

definition top_ihs_index :: "ihs_frame list \<Rightarrow> nat" where
  "top_ihs_index l = (case l of [] \<Rightarrow> 0 | f # l' \<Rightarrow> ihs_index f)"

definition mkcl_ihs_push :: "obj \<Rightarrow> obj \<Rightarrow> env \<Rightarrow> env" where
  "mkcl_ihs_push function lisp_env e =
     e\<lparr>ihs_top := \<lparr>ihs_function = function, ihs_lex_env = lisp_env, ihs_index = top_ihs_index (ihs_top e) + 1,
        ihs_bds_marker = stk_top (bds e)\<rparr> # ihs_top e\<rparr>"

text \<open>The empty list is \<open>ihs_org\<close>, the end of the chain; popping it would leave a null pointer.\<close>

definition mkcl_ihs_pop :: "env \<Rightarrow> env option" where
  "mkcl_ihs_pop e = (case ihs_top e of [] \<Rightarrow> None | f # l \<Rightarrow> Some (e\<lparr>ihs_top := l\<rparr>))"

fun ihs_down :: "nat \<Rightarrow> ihs_frame list \<Rightarrow> ihs_frame list" where
  "ihs_down n [] = []"
| "ihs_down n (f # l) = (if n < ihs_index f then ihs_down n l else f # l)"

definition get_ihs_ptr :: "nat \<Rightarrow> env \<Rightarrow> stack_error + ihs_frame list" where
  "get_ihs_ptr n e =
     (if top_ihs_index (ihs_top e) < n then Inl (IllegalIndex (Fixnum (int n))) else Inr (ihs_down n (ihs_top e)))"

definition get_ptr :: "'a stack \<Rightarrow> obj \<Rightarrow> stack_error + nat" where
  "get_ptr s x =
     (case x of
        Fixnum n \<Rightarrow> if 0 \<le> n \<and> n \<le> int (stk_top s) then Inr (nat n) else Inl (IllegalIndex x)
      | _ \<Rightarrow> Inl (IllegalIndex x))"

definition read_ptr :: "'a stack \<Rightarrow> obj \<Rightarrow> ('a \<Rightarrow> 'b) \<Rightarrow> stack_error + 'b" where
  "read_ptr s x field =
     (case get_ptr s x of
        Inl err \<Rightarrow> Inl err
      | Inr i \<Rightarrow> (case slot_at s i of None \<Rightarrow> Inl WildAccess | Some v \<Rightarrow> Inr (field v)))"

definition mk_si_bds_var :: "obj \<Rightarrow> env \<Rightarrow> stack_error + obj" where
  "mk_si_bds_var arg e = read_ptr (bds e) arg fst"

text \<open>\<open>None\<close> is the marker \<open>MKCL_UNBOUND\<close>.\<close>

definition mk_si_bds_val :: "obj \<Rightarrow> env \<Rightarrow> stack_error + obj option" where
  "mk_si_bds_val arg e =
     read_ptr (bds e) arg (\<lambda>(s, v). case v of
        EndOfChain \<Rightarrow> None
      | Value x \<Rightarrow> if x = ObjNull then None else Some x)"

definition mk_si_frs_bds :: "obj \<Rightarrow> env \<Rightarrow> stack_error + nat" where
  "mk_si_frs_bds arg e = read_ptr (frs e) arg frs_bds_top_index"

definition mk_si_frs_tag :: "obj \<Rightarrow> env \<Rightarrow> stack_error + frame_tag" where
  "mk_si_frs_tag arg e = read_ptr (frs e) arg frs_val"

definition mk_si_frs_ihs :: "obj \<Rightarrow> env \<Rightarrow> stack_error + nat" where
  "mk_si_frs_ihs arg e = read_ptr (frs e) arg (\<lambda>f. top_ihs_index (frs_ihs f))"

text \<open>The first frame at or above \<open>fr\<close> that was pushed at or above the given invocation.\<close>

definition mk_si_sch_frs_base :: "obj \<Rightarrow> nat \<Rightarrow> env \<Rightarrow> stack_error + nat option" where
  "mk_si_sch_frs_base fr y e =
     (case get_ptr (frs e) fr of
        Inl err \<Rightarrow> Inl err
      | Inr i \<Rightarrow> Inr (find (\<lambda>x. \<not> (case slot_at (frs e) x of Some f \<Rightarrow> top_ihs_index (frs_ihs f) < y | None \<Rightarrow> False))
                         [i..<Suc (stk_top (frs e))]))"

section \<open>Initialization\<close>

definition new_stack :: "nat \<Rightarrow> nat \<Rightarrow> nat \<Rightarrow> 'a \<Rightarrow> nat \<Rightarrow> 'a stack" where
  "new_stack n limit overflow bottom t =
     \<lparr>slots = Some bottom # replicate (n - 1) None, stk_top = t, stk_upper = n,
      stk_limit = limit, stk_overflow = overflow, overflowing = False\<rparr>"

text \<open>
  A thread's environment, from the sizes and limits of the three stacks (temporaries, frames,
  bindings), the sizes of the overflow areas, the symbol \<open>*PACKAGE*\<close> that guards the bottom of the
  binding stack, and the initial number of specials. The root frame is uninitialized.
\<close>

record stack_params =
  init_size :: nat
  init_limit :: nat
  init_overflow :: nat

definition root_frame :: frame where
  "root_frame = \<lparr>frs_val = Tag ObjNull, frs_bds_top_index = 0, frs_ihs = [], frs_sp = 0, frs_intr = False\<rparr>"

definition stack_from :: "stack_params \<Rightarrow> 'a \<Rightarrow> nat \<Rightarrow> 'a stack" where
  "stack_from p bottom t = new_stack (init_size p) (init_limit p) (init_overflow p) bottom t"

definition mkcl_init_stacks :: "stack_params \<Rightarrow> stack_params \<Rightarrow> stack_params \<Rightarrow> obj \<Rightarrow> nat \<Rightarrow> env" where
  "mkcl_init_stacks temps frames binds package_symbol nspecials =
     \<lparr>bds = stack_from binds (package_symbol, Value ObjNull) 0, frs = stack_from frames root_frame 0,
      temp_stack = stack_from temps (Fixnum 0) 1, specials = replicate nspecials EndOfChain,
      ihs_top = [], nlj_fr = None, go_label_index = 0, values_vec = [], disable_interrupts = False\<rparr>"

definition mkcl_reset_stacks :: "env \<Rightarrow> env" where
  "mkcl_reset_stacks e =
     e\<lparr>ihs_top := [], temp_stack := (temp_stack e)\<lparr>stk_top := 1\<rparr>, frs := (frs e)\<lparr>stk_top := 0\<rparr>,
       bds := (bds e)\<lparr>stk_top := 0\<rparr>\<rparr>"

end
