(* ===== verification/Stack_Props.thy ===== *)
theory Stack_Props
  imports Stacks
begin

text \<open>
  The stacks of a thread implement dynamic binding. The specification keeps the bindings of a
  thread as a list of symbols and values, the newest first (deep binding); the code keeps the
  newest values in an array and the ones they shadow in the binding stack (shallow binding).
  \<open>linked\<close> relates the two, \<open>dyn_step_refines\<close> shows that every operation keeps the relation,
  and \<open>sym_val_lookup\<close> that reading a variable finds what the specification says. The rest is
  about frames: where a jump lands and what it leaves on the stacks.
\<close>

section \<open>Growing\<close>

definition stk_ok :: "'a stack \<Rightarrow> bool" where
  "stk_ok s \<longleftrightarrow> stk_limit s = 0 \<and> \<not> overflowing s \<and> stk_upper s = length (slots s) \<and> stk_top s < length (slots s)"

definition extended :: "nat \<Rightarrow> 'a stack \<Rightarrow> 'a stack" where
  "extended n s = s\<lparr>slots := slots s @ replicate n None, stk_upper := length (slots s) + n\<rparr>"

text \<open>What growing relies on: resizing a stack without a limit appends fresh slots.\<close>

locale growing =
  fixes resize :: "nat \<Rightarrow> 'a stack \<Rightarrow> 'a stack option"
    and chunk :: nat
  assumes resize_extends:
      "stk_limit s = 0 \<Longrightarrow> 0 < stk_top s \<Longrightarrow> length (slots s) \<le> n \<Longrightarrow>
         resize n s = Some (extended (n - length (slots s)) s)"
    and chunk_pos: "0 < chunk"
begin

lemma grow_extends:
  assumes "stk_limit s = 0" and "\<not> overflowing s" and "0 < stk_top s" and "0 < length (slots s)"
  shows "\<exists>n > 0. grow_stack resize chunk s = (Inr (), extended n s)"
proof -
  have "length (slots s) \<le> grown_size chunk s" and "length (slots s) < grown_size chunk s"
    using assms(4) chunk_pos by (auto simp: grown_size_def)
  then show ?thesis
    using assms resize_extends [of s "grown_size chunk s"]
    by (intro exI [of _ "grown_size chunk s - length (slots s)"]) (simp add: grow_stack_def at_limit_def)
qed

end

lemma resize_stack_extends:
  assumes "stk_limit s = 0" and "length (slots s) \<le> n"
  shows "resize_stack strict n s = Some (extended (n - length (slots s)) s)"
  using assms by (simp add: resize_stack_def resized_def extended_def Let_def)

interpretation bds_growth: growing resize_bds_stack 512
  by unfold_locales (simp_all add: resize_bds_stack_def resize_stack_extends)

interpretation frs_growth: growing resize_frs_stack 64
  by unfold_locales (simp_all add: resize_frs_stack_def resize_stack_extends)

interpretation temp_growth: growing resize_temp_stack 2048
  by unfold_locales (simp_all add: resize_temp_stack_def resize_stack_extends guard_bottom_def extended_def)

lemma grow_bds_ok:
  assumes "stk_ok s"
  shows "\<exists>n > 0. mkcl_grow_bds_stack (s\<lparr>stk_top := stk_top s + 1\<rparr>) = (Inr (), extended n (s\<lparr>stk_top := stk_top s + 1\<rparr>))"
  unfolding mkcl_grow_bds_stack_def using assms
  by (intro bds_growth.grow_extends) (auto simp: stk_ok_def)

text \<open>Pushing a binding on a stack without a limit: room is found, and only the new slot changes.\<close>

definition pushed :: "'a \<Rightarrow> 'a stack \<Rightarrow> 'a stack \<Rightarrow> bool" where
  "pushed x s s' \<longleftrightarrow> stk_ok s' \<and> stk_top s' = stk_top s + 1 \<and> slots s' ! stk_top s' = Some x
     \<and> take (stk_top s') (slots s') = take (stk_top s') (slots s)"

lemma write_slot_pushed:
  assumes "stk_ok s" and "s1 = s\<lparr>stk_top := stk_top s + 1\<rparr>" and "s2 = s1 \<or> (\<exists>n. s2 = extended n s1)"
    and "stk_top s1 < length (slots s2)" and "stk_upper s2 = length (slots s2)"
  shows "\<exists>s3. write_slot (stk_top s1) x s2 = Some s3 \<and> pushed x s s3"
proof -
  let ?s3 = "s2\<lparr>slots := (slots s2)[stk_top s1 := Some x]\<rparr>"
  have "take (stk_top s + 1) (slots s2) = take (stk_top s + 1) (slots s)"
    using assms by (auto simp: extended_def stk_ok_def)
  then have "pushed x s ?s3"
    using assms by (auto simp: pushed_def stk_ok_def extended_def)
  with assms(4) show ?thesis by (simp add: write_slot_def)
qed

lemma bds_push_slot_ok:
  assumes "stk_ok (bds e)"
  shows "\<exists>b. bds_push_slot s v i c e = (Inr (), c, e\<lparr>bds := b, specials := (specials e)[i := Value v]\<rparr>)
    \<and> pushed (s, specials e ! i) (bds e) b"
proof -
  let ?b1 = "(bds e)\<lparr>stk_top := stk_top (bds e) + 1\<rparr>"
  obtain b2 where b2: "(if stk_upper ?b1 \<le> stk_top ?b1 then mkcl_grow_bds_stack ?b1 else (Inr (), ?b1)) = (Inr (), b2)"
      "b2 = ?b1 \<or> (\<exists>n. b2 = extended n ?b1)" "stk_top ?b1 < length (slots b2)" "stk_upper b2 = length (slots b2)"
  proof (cases "stk_upper ?b1 \<le> stk_top ?b1")
    case True
    obtain n where n: "n > 0" "mkcl_grow_bds_stack ?b1 = (Inr (), extended n ?b1)"
      using grow_bds_ok [OF assms] by blast
    have "stk_top ?b1 < length (slots (extended n ?b1))" "stk_upper (extended n ?b1) = length (slots (extended n ?b1))"
      using assms n(1) by (simp_all add: extended_def stk_ok_def)
    with True n(2) that show ?thesis by (metis (full_types))
  next
    case False
    with assms that [of ?b1] show ?thesis by (simp add: stk_ok_def)
  qed
  obtain b3 where b3: "write_slot (stk_top ?b1) (s, specials e ! i) b2 = Some b3" "pushed (s, specials e ! i) (bds e) b3"
    using write_slot_pushed [OF assms refl b2(2,3,4)] by blast
  have "bds_push_slot s v i c e = (Inr (), c, e\<lparr>bds := b3, specials := (specials e)[i := Value v]\<rparr>)"
    unfolding bds_push_slot_def Let_def using b2(1) b3(1) by (simp split: if_splits)
  with b3(2) show ?thesis by blast
qed

section \<open>Symbols and their indexes\<close>

definition sym_index :: "core \<Rightarrow> obj \<Rightarrow> nat option" where
  "sym_index c s = Option.bind (sym_cell c s) special_index"

definition core_ok :: "core \<Rightarrow> bool" where
  "core_ok c \<longleftrightarrow> (\<forall>s t i. sym_index c s = Some i \<longrightarrow> sym_index c t = Some i \<longrightarrow> s = t)
     \<and> (\<forall>s i. sym_index c s = Some i \<longrightarrow> i < top_special_index c)"

definition global_value :: "core \<Rightarrow> obj \<Rightarrow> obj option" where
  "global_value c s = map_option sym_value (sym_cell c s)"

definition assignable :: "core \<Rightarrow> obj \<Rightarrow> bool" where
  "assignable c s \<longleftrightarrow> (\<exists>y. sym_cell c s = Some y \<and> \<not> is_constant y)"

lemma sym_cell_set:
  assumes "sym_cell c s = Some y"
  shows "sym_cell (set_sym_cell s y' c) t = (if t = s then Some y' else sym_cell c t)"
  using assms
  by (auto simp: sym_cell_def set_sym_cell_def cell_at_def store_def split: obj.splits option.splits cell.splits if_splits)

lemma sym_cell_not_nil: "sym_cell c s = Some y \<Longrightarrow> s \<noteq> Cnil"
  by (auto simp: sym_cell_def)

text \<open>The effects on the shared state: a fresh index for one symbol, or a new global value.\<close>

definition same_symbols :: "core \<Rightarrow> core \<Rightarrow> bool" where
  "same_symbols c c' \<longleftrightarrow> (\<forall>s. (sym_cell c' s = None) = (sym_cell c s = None)) \<and> assignable c' = assignable c
     \<and> (\<forall>s i. sym_index c s = Some i \<longrightarrow> sym_index c' s = Some i)
     \<and> (\<forall>s i. sym_index c' s = Some i \<longrightarrow> sym_index c s = Some i \<or> sym_index c s = None \<and> i = top_special_index c)
     \<and> top_special_index c \<le> top_special_index c' \<and> top_special_index c' \<le> top_special_index c + 1"

lemma same_symbols_refl [simp]: "same_symbols c c"
  by (simp add: same_symbols_def)

lemma special_index_of_ok:
  assumes "sym_cell c s = Some y" and "core_ok c" and "top_special_index c < MKCL_NOT_A_SPECIAL_INDEX"
  shows "\<exists>i c1. special_index_of s y c = Some (i, c1) \<and> sym_index c1 s = Some i \<and> core_ok c1
    \<and> global_value c1 = global_value c \<and> same_symbols c c1
    \<and> (sym_index c s = Some i \<or> sym_index c s = None \<and> i = top_special_index c)"
proof (cases "special_index y")
  case (Some i)
  then show ?thesis using assms by (simp add: special_index_of_def sym_index_def)
next
  case None
  let ?i = "top_special_index c"
  let ?c1 = "set_sym_cell s (y\<lparr>special_index := Some ?i\<rparr>) (c\<lparr>top_special_index := Suc ?i\<rparr>)"
  have cell: "sym_cell ?c1 t = (if t = s then Some (y\<lparr>special_index := Some ?i\<rparr>) else sym_cell c t)" for t
    using sym_cell_set [of "c\<lparr>top_special_index := Suc ?i\<rparr>" s y] assms(1) by (simp add: sym_cell_def)
  have idx: "sym_index ?c1 t = (if t = s then Some ?i else sym_index c t)" for t
    unfolding sym_index_def cell by simp
  have top: "top_special_index ?c1 = Suc ?i" by (simp add: set_sym_cell_def)
  have lt: "sym_index c t = Some i \<Longrightarrow> i < ?i" for t i using assms(2) by (simp add: core_ok_def)
  have inj: "sym_index c t = Some i \<Longrightarrow> sym_index c u = Some i \<Longrightarrow> t = u" for t u i
    using assms(2) by (simp add: core_ok_def)
  have ok: "core_ok ?c1"
    unfolding core_ok_def idx top using lt inj by (auto simp: less_Suc_eq split: if_splits)
  have g: "global_value ?c1 = global_value c"
    using assms(1) by (auto simp: global_value_def cell fun_eq_iff)
  have none: "sym_index c s = None" using assms(1) None by (simp add: sym_index_def)
  have same: "same_symbols c ?c1"
    unfolding same_symbols_def idx top
    using assms(1) none by (auto simp: cell assignable_def is_constant_def fun_eq_iff split: if_splits)
  show ?thesis
    using None assms(3) idx ok g none same
    by (auto simp: special_index_of_def mkcl_alloc_new_special_index_def)
qed

section \<open>Shallow and deep binding\<close>

text \<open>
  \<open>linked idx sl sp bs\<close>: from the newest saved binding in \<open>sl\<close> to the oldest, the variable has
  in \<open>sp\<close> the value \<open>bs\<close> gives it, and undoing it uncovers the rest; with no binding left no
  variable has a value.
\<close>

fun linked :: "(obj \<Rightarrow> nat option) \<Rightarrow> (obj \<times> bds_value) list \<Rightarrow> bds_value list \<Rightarrow> (obj \<times> obj) list \<Rightarrow> bool" where
  "linked idx [] sp bs \<longleftrightarrow> bs = [] \<and> (\<forall>v \<in> set sp. v = EndOfChain)"
| "linked idx ((s, v) # sl) sp bs \<longleftrightarrow>
     (\<exists>i u bs'. idx s = Some i \<and> i < length sp \<and> sp ! i = Value u \<and> bs = (s, u) # bs' \<and> linked idx sl (sp[i := v]) bs')"

definition inj_index :: "(obj \<Rightarrow> nat option) \<Rightarrow> bool" where
  "inj_index idx \<longleftrightarrow> (\<forall>s t i. idx s = Some i \<longrightarrow> idx t = Some i \<longrightarrow> s = t)"

lemma linked_length: "linked idx sl sp bs \<Longrightarrow> length bs = length sl"
  by (induction idx sl sp bs rule: linked.induct) auto

lemma linked_lookup:
  assumes "linked idx sl sp bs" and "inj_index idx" and "idx s = Some i"
  shows "map_of bs s = (if i < length sp then (case sp ! i of Value v \<Rightarrow> Some v | EndOfChain \<Rightarrow> None) else None)"
  using assms
proof (induction idx sl sp bs rule: linked.induct)
  case (1 idx sp bs)
  then have "bs = []" and "i < length sp \<Longrightarrow> sp ! i = EndOfChain" by auto
  then show ?case by simp
next
  case (2 idx t v sl sp bs)
  then obtain j u bs' where t: "idx t = Some j" "j < length sp" "sp ! j = Value u" "bs = (t, u) # bs'"
      "linked idx sl (sp[j := v]) bs'" by auto
  show ?case
  proof (cases "t = s")
    case True
    then show ?thesis using t 2(4) by simp
  next
    case False
    then have "i \<noteq> j" using t(1) 2(3,4) by (auto simp: inj_index_def)
    then show ?thesis using 2(1) [OF t(5)] t(4) 2(3,4) False by simp
  qed
qed

lemma linked_unindexed: "linked idx sl sp bs \<Longrightarrow> idx s = None \<Longrightarrow> map_of bs s = None"
  by (induction idx sl sp bs rule: linked.induct) auto

text \<open>An index that no symbol has was never written.\<close>

lemma linked_unused:
  assumes "linked idx sl sp bs" and "\<And>s. idx s \<noteq> Some i" and "i < length sp"
  shows "sp ! i = EndOfChain"
  using assms
proof (induction idx sl sp bs rule: linked.induct)
  case (2 idx t v sl sp bs)
  then obtain j u bs' where t: "idx t = Some j" "j < length sp" "sp ! j = Value u" "bs = (t, u) # bs'"
      "linked idx sl (sp[j := v]) bs'" by auto
  then have "i \<noteq> j" using 2(3) by auto
  then show ?case using 2(1) [OF t(5)] 2(3,4) by simp
qed auto

lemma linked_grow: "linked idx sl sp bs \<Longrightarrow> linked idx sl (sp @ replicate n EndOfChain) bs"
proof (induction idx sl sp bs rule: linked.induct)
  case (2 idx t v sl sp bs)
  then obtain j u bs' where t: "idx t = Some j" "j < length sp" "sp ! j = Value u" "bs = (t, u) # bs'"
      "linked idx sl (sp[j := v]) bs'" by auto
  from 2(1) [OF t(5)] t(2) have "linked idx sl ((sp @ replicate n EndOfChain)[j := v]) bs'"
    by (simp add: list_update_append)
  with t(1-4) show ?case by (auto simp: nth_append)
qed auto

lemma linked_index_mono:
  assumes "linked idx sl sp bs" and "\<And>s i. idx s = Some i \<Longrightarrow> idx' s = Some i"
  shows "linked idx' sl sp bs"
  using assms by (induction idx sl sp bs rule: linked.induct) auto

text \<open>Assigning the newest binding of a variable.\<close>

fun set_newest :: "obj \<Rightarrow> obj \<Rightarrow> (obj \<times> obj) list \<Rightarrow> (obj \<times> obj) list" where
  "set_newest s v [] = []"
| "set_newest s v ((t, u) # bs) = (if t = s then (t, v) # bs else (t, u) # set_newest s v bs)"

lemma linked_assign:
  assumes "linked idx sl sp bs" and "inj_index idx" and "idx s = Some i" and "i < length sp" and "sp ! i \<noteq> EndOfChain"
  shows "linked idx sl (sp[i := Value w]) (set_newest s w bs)"
  using assms
proof (induction idx sl sp bs rule: linked.induct)
  case (1 idx sp bs)
  then show ?case by auto
next
  case (2 idx t v sl sp bs)
  then obtain j u bs' where t: "idx t = Some j" "j < length sp" "sp ! j = Value u" "bs = (t, u) # bs'"
      "linked idx sl (sp[j := v]) bs'" by auto
  show ?case
  proof (cases "t = s")
    case True
    then show ?thesis using t 2(4,5) by simp
  next
    case False
    then have ij: "i \<noteq> j" using t(1) 2(3,4) by (auto simp: inj_index_def)
    have "linked idx sl ((sp[j := v])[i := Value w]) (set_newest s w bs')"
      using 2(1) [OF t(5)] 2(3,4,5,6) ij by simp
    then show ?thesis using t(1-4) False ij by (auto simp: list_update_swap)
  qed
qed

section \<open>The bindings of a thread\<close>

definition bindings :: "core \<Rightarrow> env \<Rightarrow> (obj \<times> obj) list \<Rightarrow> bool" where
  "bindings c e bs \<longleftrightarrow> core_ok c \<and> stk_ok (bds e)
     \<and> (\<exists>sl. take (stk_top (bds e)) (tl (slots (bds e))) = map Some (rev sl) \<and> linked (sym_index c) sl (specials e) bs)"

lemma bindingsI:
  assumes "core_ok c" and "stk_ok (bds e)" and "take (stk_top (bds e)) (tl (slots (bds e))) = map Some (rev sl)"
    and "linked (sym_index c) sl (specials e) bs"
  shows "bindings c e bs"
  using assms by (auto simp: bindings_def)

lemma bindingsE:
  assumes "bindings c e bs"
  obtains sl where "core_ok c" "stk_ok (bds e)" "inj_index (sym_index c)"
    "take (stk_top (bds e)) (tl (slots (bds e))) = map Some (rev sl)" "linked (sym_index c) sl (specials e) bs"
  using assms unfolding bindings_def core_ok_def inj_index_def by blast

lemma bindings_top:
  assumes "bindings c e bs"
  shows "stk_top (bds e) = length bs"
proof -
  obtain sl where sl: "stk_ok (bds e)" "take (stk_top (bds e)) (tl (slots (bds e))) = map Some (rev sl)"
      "linked (sym_index c) sl (specials e) bs"
    using assms by (rule bindingsE)
  have "length sl = stk_top (bds e)"
    using arg_cong [OF sl(2), of length] sl(1) by (auto simp: stk_ok_def)
  with linked_length [OF sl(3)] show ?thesis by simp
qed

definition lookup_value :: "(obj \<Rightarrow> obj option) \<Rightarrow> (obj \<times> obj) list \<Rightarrow> obj \<Rightarrow> obj option" where
  "lookup_value g bs s = (case map_of bs s of Some v \<Rightarrow> Some v | None \<Rightarrow> g s)"

lemma sym_val_lookup:
  assumes "bindings c e bs" and "s \<noteq> Cnil"
  shows "mkcl_sym_val c e s = lookup_value (global_value c) bs s"
proof -
  obtain sl where sl: "inj_index (sym_index c)" "linked (sym_index c) sl (specials e) bs"
    using assms(1) by (rule bindingsE)
  show ?thesis
  proof (cases "sym_index c s")
    case None
    then show ?thesis
      using linked_unindexed [OF sl(2) None] assms(2)
      by (auto simp: mkcl_sym_val_def lookup_value_def global_value_def sym_index_def split: option.splits)
  next
    case (Some i)
    then obtain y where y: "sym_cell c s = Some y" "special_index y = Some i"
      by (auto simp: sym_index_def bind_eq_Some_conv)
    then show ?thesis
      using linked_lookup [OF sl(2,1) Some] assms(2)
      by (auto simp: mkcl_sym_val_def lookup_value_def global_value_def split: option.splits bds_value.splits)
  qed
qed

section \<open>Operations on variables\<close>

text \<open>Undoing the newest binding.\<close>

lemma bds_unwind1_ok:
  assumes "bindings c e ((s, u) # bs)"
  shows "\<exists>e'. mkcl_bds_unwind1 c e = Some e' \<and> bindings c e' bs
    \<and> e' = e\<lparr>bds := bds e', specials := specials e'\<rparr> \<and> slots (bds e') = slots (bds e)"
proof -
  obtain sl where sl: "core_ok c" "stk_ok (bds e)" "take (stk_top (bds e)) (tl (slots (bds e))) = map Some (rev sl)"
      "linked (sym_index c) sl (specials e) ((s, u) # bs)"
    using assms by (rule bindingsE)
  then obtain v sl' i where v: "sl = (s, v) # sl'" "sym_index c s = Some i" "i < length (specials e)"
      "linked (sym_index c) sl' ((specials e)[i := v]) bs"
    by (cases sl) auto
  have top: "stk_top (bds e) = Suc (length bs)" using bindings_top [OF assms] by simp
  have len: "length sl' = length bs" using linked_length [OF v(4)] by simp
  have t: "take (Suc (length bs)) (tl (slots (bds e))) = map Some (rev sl') @ [Some (s, v)]"
    using sl(3) v(1) top by simp
  from arg_cong [OF t, of "\<lambda>l. l ! length bs"] len sl(2) top
  have n: "slots (bds e) ! Suc (length bs) = Some (s, v)"
    by (cases "slots (bds e)") (auto simp: stk_ok_def nth_append)
  from arg_cong [OF t, of "take (length bs)"] len
  have t': "take (length bs) (tl (slots (bds e))) = map Some (rev sl')" by (simp add: min_def)
  let ?e = "e\<lparr>bds := (bds e)\<lparr>stk_top := length bs\<rparr>, specials := (specials e)[i := v]\<rparr>"
  have "mkcl_bds_unwind1 c e = Some ?e"
    using n v(2,3) sl(2) top by (simp add: mkcl_bds_unwind1_def slot_at_def stk_ok_def sym_index_def)
  moreover have "bindings c ?e bs"
    unfolding bindings_def using sl(1,2) t' v(4) top by (auto simp: stk_ok_def)
  ultimately show ?thesis by auto
qed

lemma bds_unwind_n_ok:
  assumes "bindings c e (bs @ bs')"
  shows "\<exists>e'. mkcl_bds_unwind_n (length bs) c e = Some e' \<and> bindings c e' bs'
    \<and> e' = e\<lparr>bds := bds e', specials := specials e'\<rparr> \<and> slots (bds e') = slots (bds e)"
  using assms
proof (induction bs arbitrary: e)
  case Nil
  then show ?case by simp
next
  case (Cons b bs)
  obtain s u where b: "b = (s, u)" by fastforce
  obtain e1 where e1: "mkcl_bds_unwind1 c e = Some e1" "bindings c e1 (bs @ bs')"
      "e1 = e\<lparr>bds := bds e1, specials := specials e1\<rparr>" "slots (bds e1) = slots (bds e)"
    using bds_unwind1_ok [of c e s u "bs @ bs'"] Cons.prems b by auto
  obtain e2 where e2: "mkcl_bds_unwind_n (length bs) c e1 = Some e2" "bindings c e2 bs'"
      "e2 = e1\<lparr>bds := bds e2, specials := specials e2\<rparr>" "slots (bds e2) = slots (bds e1)"
    using Cons.IH [OF e1(2)] by blast
  have "e2 = e\<lparr>bds := bds e2, specials := specials e2\<rparr>"
    by (subst e2(3), subst e1(3)) simp
  with e1 e2 show ?case by simp
qed

text \<open>Unwinding to a height keeps the oldest bindings up to it.\<close>

lemma bds_unwind_ok:
  assumes "bindings c e bs"
  shows "\<exists>e'. mkcl_bds_unwind n c e = Some e' \<and> bindings c e' (drop (length bs - n) bs)
    \<and> e' = e\<lparr>bds := bds e', specials := specials e'\<rparr> \<and> slots (bds e') = slots (bds e)"
  using bds_unwind_n_ok [of c e "take (length bs - n) bs" "drop (length bs - n) bs"] assms bindings_top [OF assms]
  by (simp add: mkcl_bds_unwind_def)

lemma bds_bind_ok:
  assumes "bindings c e bs" and "sym_cell c s = Some y" and "top_special_index c < MKCL_NOT_A_SPECIAL_INDEX"
  shows "\<exists>c' e'. mkcl_bds_bind s v c e = (Inr (), c', e') \<and> bindings c' e' ((s, v) # bs)
    \<and> global_value c' = global_value c \<and> same_symbols c c'"
proof -
  obtain sl where sl: "core_ok c" "stk_ok (bds e)" "take (stk_top (bds e)) (tl (slots (bds e))) = map Some (rev sl)"
      "linked (sym_index c) sl (specials e) bs"
    using assms(1) by (rule bindingsE)
  obtain i c1 where i: "special_index_of s y c = Some (i, c1)" "sym_index c1 s = Some i" "core_ok c1"
      "global_value c1 = global_value c" "same_symbols c c1"
    using special_index_of_ok [OF assms(2) sl(1) assms(3)] by blast
  define e1 where "e1 = (if i < length (specials e) then e else mkcl_grow_specials (i + 1) e)"
  have ee: "bds e1 = bds e" "i < length (specials e1)" "linked (sym_index c) sl (specials e1) bs"
    using sl(4) by (auto simp: e1_def mkcl_grow_specials_def linked_grow)
  then have l1: "linked (sym_index c1) sl (specials e1) bs"
    using linked_index_mono i(5) unfolding same_symbols_def by blast
  obtain b where b: "bds_push_slot s v i c1 e1 = (Inr (), c1, e1\<lparr>bds := b, specials := (specials e1)[i := Value v]\<rparr>)"
      "pushed (s, specials e1 ! i) (bds e) b"
    using bds_push_slot_ok [of e1] sl(2) ee(1) by metis
  have len: "length sl = stk_top (bds e)"
    using arg_cong [OF sl(3), of length] sl(2) by (auto simp: stk_ok_def)
  have top: "stk_top b = Suc (stk_top (bds e))" "stk_top b < length (slots b)" using b(2) by (auto simp: pushed_def stk_ok_def)
  have "take (stk_top (bds e)) (tl (slots b)) = map Some (rev sl)"
  proof -
    have "take (Suc (stk_top (bds e))) (slots b) = take (Suc (stk_top (bds e))) (slots (bds e))"
      using b(2) top(1) unfolding pushed_def by metis
    then show ?thesis using sl(3) by (simp only: take_tl)
  qed
  then have t: "take (stk_top b) (tl (slots b)) = map Some (rev ((s, specials e1 ! i) # sl))"
    using b(2) top by (simp add: take_Suc_conv_app_nth nth_tl pushed_def)
  have l: "linked (sym_index c1) ((s, specials e1 ! i) # sl) ((specials e1)[i := Value v]) ((s, v) # bs)"
    using i(2) ee(2) l1 by simp
  have ok: "stk_ok b" using b(2) by (simp add: pushed_def)
  have "bindings c1 (e1\<lparr>bds := b, specials := (specials e1)[i := Value v]\<rparr>) ((s, v) # bs)"
    by (rule bindingsI [where sl = "(s, specials e1 ! i) # sl"])
      (use i(3) ok t l in \<open>simp_all del: linked.simps\<close>)
  then show ?thesis
    using b(1) i assms(2) sym_cell_not_nil [OF assms(2)] by (simp add: mkcl_bds_bind_def e1_def)
qed

lemma assign_ok:
  assumes "bindings c e bs" and "assignable c s"
  shows "\<exists>c' e'. mk_cl_set s v c e = (Inr v, c', e') \<and> same_symbols c c'
    \<and> bindings c' e' (set_newest s v bs)
    \<and> global_value c' = (if map_of bs s = None then (global_value c)(s \<mapsto> v) else global_value c)"
proof -
  obtain sl where sl: "core_ok c" "stk_ok (bds e)" "inj_index (sym_index c)"
      "take (stk_top (bds e)) (tl (slots (bds e))) = map Some (rev sl)" "linked (sym_index c) sl (specials e) bs"
    using assms(1) by (rule bindingsE)
  obtain y where y: "sym_cell c s = Some y" "\<not> is_constant y" using assms(2) by (auto simp: assignable_def)
  show ?thesis
  proof (cases "map_of bs s")
    case None
    let ?c = "set_sym_cell s (y\<lparr>sym_value := v\<rparr>) c"
    have cell: "sym_cell ?c t = (if t = s then Some (y\<lparr>sym_value := v\<rparr>) else sym_cell c t)" for t
      using sym_cell_set [OF y(1)] .
    have idx: "sym_index ?c = sym_index c" using y(1) by (auto simp: sym_index_def cell fun_eq_iff)
    have top: "top_special_index ?c = top_special_index c" by (simp add: set_sym_cell_def)
    have "mk_cl_set s v c e = (Inr v, ?c, e)"
      using y linked_lookup [OF sl(5,3), of s] None
      by (auto simp: mk_cl_set_def mkcl_set_symbol_value_def sym_index_def split: option.splits bds_value.splits if_splits)
    moreover have "bindings ?c e bs" using assms(1) by (simp add: bindings_def core_ok_def idx top)
    moreover have "set_newest s v bs = bs" using None by (induction bs) (auto split: if_splits)
    moreover have "global_value ?c = (global_value c)(s \<mapsto> v)"
      by (auto simp: global_value_def cell fun_eq_iff)
    moreover have "same_symbols c ?c"
      using y by (auto simp: same_symbols_def idx top cell assignable_def is_constant_def fun_eq_iff)
    ultimately show ?thesis using None by auto
  next
    case (Some u)
    then obtain i where i: "sym_index c s = Some i"
      using linked_unindexed [OF sl(5), of s] by fastforce
    then have v: "i < length (specials e)" "specials e ! i = Value u"
      using linked_lookup [OF sl(5,3) i] Some by (auto split: if_splits bds_value.splits)
    let ?e = "e\<lparr>specials := (specials e)[i := Value v]\<rparr>"
    have "mk_cl_set s v c e = (Inr v, c, ?e)"
      using y i v by (simp add: mk_cl_set_def mkcl_set_symbol_value_def sym_index_def)
    moreover have "bindings c ?e (set_newest s v bs)"
      unfolding bindings_def using sl(1,2,4) linked_assign [OF sl(5,3) i v(1)] v(2) by auto
    ultimately show ?thesis using Some by auto
  qed
qed

section \<open>Threads\<close>

text \<open>
  A system of threads: the shared state and the environment of each. The specification has the
  global values and, for each thread, its bindings.
\<close>

datatype dyn_op = Bind obj obj | Unbind | Assign obj obj | UnwindTo nat

fun dyn_step :: "dyn_op \<Rightarrow> core \<Rightarrow> env \<Rightarrow> (core \<times> env) option" where
  "dyn_step (Bind s v) c e = (case mkcl_bds_bind s v c e of (Inr u, c', e') \<Rightarrow> Some (c', e') | _ \<Rightarrow> None)"
| "dyn_step Unbind c e = map_option (\<lambda>e'. (c, e')) (mkcl_bds_unwind1 c e)"
| "dyn_step (Assign s v) c e = (case mk_cl_set s v c e of (Inr u, c', e') \<Rightarrow> Some (c', e') | _ \<Rightarrow> None)"
| "dyn_step (UnwindTo n) c e = map_option (\<lambda>e'. (c, e')) (mkcl_bds_unwind n c e)"

fun spec_step :: "dyn_op \<Rightarrow> (obj \<Rightarrow> obj option) \<Rightarrow> (obj \<times> obj) list \<Rightarrow> (obj \<Rightarrow> obj option) \<times> (obj \<times> obj) list" where
  "spec_step (Bind s v) g bs = (g, (s, v) # bs)"
| "spec_step Unbind g bs = (g, tl bs)"
| "spec_step (Assign s v) g bs = (if map_of bs s = None then (g(s \<mapsto> v), bs) else (g, set_newest s v bs))"
| "spec_step (UnwindTo n) g bs = (g, drop (length bs - n) bs)"

fun valid_op :: "core \<Rightarrow> (obj \<times> obj) list \<Rightarrow> dyn_op \<Rightarrow> bool" where
  "valid_op c bs (Bind s v) = (sym_cell c s \<noteq> None)"
| "valid_op c bs Unbind = (bs \<noteq> [])"
| "valid_op c bs (Assign s v) = assignable c s"
| "valid_op c bs (UnwindTo n) = True"

lemma set_newest_absent: "map_of bs s = None \<Longrightarrow> set_newest s v bs = bs"
  by (induction bs) (auto split: if_splits)

lemma dyn_step_refines:
  assumes "bindings c e bs" and "valid_op c bs op" and "top_special_index c < MKCL_NOT_A_SPECIAL_INDEX"
  shows "\<exists>c' e'. dyn_step op c e = Some (c', e') \<and> same_symbols c c'
    \<and> bindings c' e' (snd (spec_step op (global_value c) bs)) \<and> global_value c' = fst (spec_step op (global_value c) bs)"
proof (cases op)
  case (Bind s v)
  then obtain y where "sym_cell c s = Some y" using assms(2) by auto
  from bds_bind_ok [OF assms(1) this assms(3), of v] Bind show ?thesis by auto
next
  case Unbind
  then obtain s u bs' where "bs = (s, u) # bs'" using assms(2) by (cases bs) auto
  with bds_unwind1_ok [of c e s u bs'] assms(1) Unbind show ?thesis by auto
next
  case (Assign s v)
  then show ?thesis
    using assign_ok [OF assms(1), of s v] assms(2) by (auto simp: set_newest_absent)
next
  case (UnwindTo n)
  then show ?thesis using bds_unwind_ok [OF assms(1), of n] by auto
qed

lemma bindings_other_thread:
  assumes "bindings c e bs" and "same_symbols c c'" and "core_ok c'"
  shows "bindings c' e bs"
proof -
  obtain sl where sl: "stk_ok (bds e)" "take (stk_top (bds e)) (tl (slots (bds e))) = map Some (rev sl)"
      "linked (sym_index c) sl (specials e) bs"
    using assms(1) by (rule bindingsE)
  have "linked (sym_index c') sl (specials e) bs"
    using linked_index_mono [OF sl(3)] assms(2) unfolding same_symbols_def by blast
  with sl assms(3) show ?thesis by (intro bindingsI)
qed

fun sys_run :: "(nat \<times> dyn_op) list \<Rightarrow> core \<times> env list \<Rightarrow> (core \<times> env list) option" where
  "sys_run [] (c, es) = Some (c, es)"
| "sys_run ((i, op) # ops) (c, es) =
     (case dyn_step op c (es ! i) of None \<Rightarrow> None | Some (c', e') \<Rightarrow> sys_run ops (c', es[i := e']))"

fun sys_spec ::
  "(nat \<times> dyn_op) list \<Rightarrow> (obj \<Rightarrow> obj option) \<times> (obj \<times> obj) list list \<Rightarrow> (obj \<Rightarrow> obj option) \<times> (obj \<times> obj) list list" where
  "sys_spec [] (g, bss) = (g, bss)"
| "sys_spec ((i, op) # ops) (g, bss) = (case spec_step op g (bss ! i) of (g', bs') \<Rightarrow> sys_spec ops (g', bss[i := bs']))"

fun sys_valid ::
  "core \<Rightarrow> (nat \<times> dyn_op) list \<Rightarrow> (obj \<Rightarrow> obj option) \<times> (obj \<times> obj) list list \<Rightarrow> bool" where
  "sys_valid c [] (g, bss) = True"
| "sys_valid c ((i, op) # ops) (g, bss) \<longleftrightarrow>
     i < length bss \<and> valid_op c (bss ! i) op
     \<and> (case spec_step op g (bss ! i) of (g', bs') \<Rightarrow> sys_valid c ops (g', bss[i := bs']))"

definition sys_ok :: "core \<Rightarrow> env list \<Rightarrow> (obj \<times> obj) list list \<Rightarrow> bool" where
  "sys_ok c es bss \<longleftrightarrow> core_ok c \<and> list_all2 (bindings c) es bss"

lemma valid_op_same: "same_symbols c c' \<Longrightarrow> valid_op c' bs op = valid_op c bs op"
  by (cases op) (auto simp: same_symbols_def)

lemma sys_valid_same: "same_symbols c c' \<Longrightarrow> sys_valid c' ops (g, bss) = sys_valid c ops (g, bss)"
  by (induction ops arbitrary: g bss) (auto simp: valid_op_same split: prod.splits)

lemma sys_step_ok:
  assumes "sys_ok c es bss" and "i < length es" and "same_symbols c c'" and "bindings c' e' bs'"
  shows "sys_ok c' (es[i := e']) (bss[i := bs'])"
proof -
  have ok: "core_ok c'" using assms(4) by (simp add: bindings_def)
  have len: "length es = length bss" using assms(1) by (auto simp: sys_ok_def dest: list_all2_lengthD)
  have "bindings c' (es ! j) (bss ! j)" if "j < length es" for j
    using bindings_other_thread [of c "es ! j" "bss ! j" c'] assms(1,3) ok that by (auto simp: sys_ok_def list_all2_conv_all_nth)
  then show ?thesis
    using ok len assms(2,4) by (auto simp: sys_ok_def list_all2_conv_all_nth nth_list_update)
qed

lemma sys_run_refines:
  assumes "sys_ok c es bss" and "sys_valid c ops (global_value c, bss)"
    and "top_special_index c + length ops \<le> MKCL_NOT_A_SPECIAL_INDEX"
  shows "\<exists>c' es'. sys_run ops (c, es) = Some (c', es') \<and> sys_ok c' es' (snd (sys_spec ops (global_value c, bss)))
    \<and> global_value c' = fst (sys_spec ops (global_value c, bss))"
  using assms
proof (induction ops arbitrary: c es bss)
  case Nil
  then show ?case by simp
next
  case (Cons iop ops)
  obtain i op where iop: "iop = (i, op)" by fastforce
  obtain g' bs' where sp: "spec_step op (global_value c) (bss ! i) = (g', bs')" by fastforce
  have len: "length es = length bss" using Cons.prems(1) by (auto simp: sys_ok_def dest: list_all2_lengthD)
  have v: "i < length es" "valid_op c (bss ! i) op" "sys_valid c ops (g', bss[i := bs'])"
    using Cons.prems(2) iop sp len by auto
  have b: "bindings c (es ! i) (bss ! i)" using Cons.prems(1) v(1) by (auto simp: sys_ok_def list_all2_conv_all_nth)
  obtain c' e' where s: "dyn_step op c (es ! i) = Some (c', e')" "same_symbols c c'" "bindings c' e' bs'" "global_value c' = g'"
    using dyn_step_refines [OF b v(2)] Cons.prems(3) sp by auto
  have "top_special_index c' + length ops \<le> MKCL_NOT_A_SPECIAL_INDEX"
    using s(2) Cons.prems(3) by (auto simp: same_symbols_def)
  from Cons.IH [OF sys_step_ok [OF Cons.prems(1) v(1) s(2,3)] _ this] v(3) s(2,4)
  show ?case using s(1) iop sp by (auto simp: sys_valid_same)
qed

text \<open>A binding hides a variable from the other threads, and keeps theirs hidden from this one.\<close>

lemma spec_other_threads:
  "length (snd (sys_spec ops (g, bss))) = length bss
   \<and> ((\<forall>(i, op) \<in> set ops. i \<noteq> j) \<longrightarrow> snd (sys_spec ops (g, bss)) ! j = bss ! j)"
  by (induction ops arbitrary: g bss) (auto split: prod.splits)

lemma init_bindings:
  assumes "init_limit binds = 0" and "0 < init_size binds" and "core_ok c"
  shows "bindings c (mkcl_init_stacks temps frames binds p n) []"
  using assms by (intro bindingsI [where sl = "[]"])
    (auto simp: mkcl_init_stacks_def stack_from_def new_stack_def stk_ok_def)

section \<open>Frames\<close>

lemma frs_sch_from_Some:
  assumes "frs_sch_from f fid n = Some i"
  shows "i \<le> n \<and> frame_val f i = Some fid \<and> (\<forall>j. i < j \<longrightarrow> j \<le> n \<longrightarrow> frame_val f j \<noteq> Some fid)"
  using assms by (induction n) (auto simp: le_Suc_eq split: if_splits)

lemma frs_sch_from_None:
  assumes "frs_sch_from f fid n = None" and "j \<le> n"
  shows "frame_val f j \<noteq> Some fid"
  using assms by (induction n) (auto simp: le_Suc_eq split: if_splits)

text \<open>The frames a jump to \<open>fr\<close> from the top \<open>n\<close> stops at: protecting frames, and \<open>fr\<close>.\<close>

fun stops :: "frame stack \<Rightarrow> nat \<Rightarrow> nat \<Rightarrow> nat list" where
  "stops f fr 0 = [0]"
| "stops f fr (Suc i) =
     (if Suc i = fr then [Suc i]
      else if frame_val f (Suc i) = Some ProtectTag then Suc i # stops f fr i
      else stops f fr i)"

lemma unwind_target_stops: "unwind_target f fr n = hd (stops f fr n)"
  by (induction n) auto

lemma stops_target:
  assumes "fr \<le> n"
  shows "unwind_target f fr n \<le> n" and "fr \<le> unwind_target f fr n"
    and "unwind_target f fr n = fr \<or> frame_val f (unwind_target f fr n) = Some ProtectTag"
    and "unwind_target f fr n < j \<Longrightarrow> j \<le> n \<Longrightarrow> j \<noteq> fr \<and> frame_val f j \<noteq> Some ProtectTag"
  using assms by (induction n) (auto simp: le_Suc_eq split: if_splits)

lemma stops_skip: "stops f fr n = stops f fr (unwind_target f fr n)"
  by (induction n) auto

text \<open>
  Well-formed frames: every frame up to the top was filled, and the heights of the binding stack
  and of the stack of temporaries that the frames recorded do not decrease.
\<close>

definition frame_fits :: "env \<Rightarrow> nat \<Rightarrow> frame \<Rightarrow> bool" where
  "frame_fits e i fr \<longleftrightarrow> frs_sp fr \<le> stk_top (temp_stack e) \<and> frs_bds_top_index fr \<le> stk_top (bds e) \<and> (0 < i \<longrightarrow> 0 < frs_sp fr)"

definition frames_ok :: "env \<Rightarrow> bool" where
  "frames_ok e \<longleftrightarrow> (\<forall>i \<le> stk_top (frs e). \<exists>fr. slot_at (frs e) i = Some fr \<and> frame_fits e i fr)
     \<and> (\<forall>i j fi fj. i \<le> j \<longrightarrow> j \<le> stk_top (frs e) \<longrightarrow> slot_at (frs e) i = Some fi \<longrightarrow> slot_at (frs e) j = Some fj
          \<longrightarrow> frs_sp fi \<le> frs_sp fj \<and> frs_bds_top_index fi \<le> frs_bds_top_index fj)"

lemma frames_okD:
  assumes "frames_ok e" and "i \<le> stk_top (frs e)"
  obtains fr where "slot_at (frs e) i = Some fr" "frame_fits e i fr"
  using assms by (auto simp: frames_ok_def)

lemma frames_ok_mono:
  assumes "frames_ok e" and "i \<le> j" and "j \<le> stk_top (frs e)" and "slot_at (frs e) i = Some fi" and "slot_at (frs e) j = Some fj"
  shows "frs_sp fi \<le> frs_sp fj" and "frs_bds_top_index fi \<le> frs_bds_top_index fj"
  using assms by (auto simp: frames_ok_def)

text \<open>Frames stay well-formed when the stacks are cut off at heights above what the frames recorded.\<close>

lemma frames_ok_cong:
  assumes "frames_ok e" and "stk_top (frs e') \<le> stk_top (frs e)"
    and "\<And>i. i \<le> stk_top (frs e') \<Longrightarrow> slot_at (frs e') i = slot_at (frs e) i"
    and "\<And>i fr. i \<le> stk_top (frs e') \<Longrightarrow> slot_at (frs e) i = Some fr \<Longrightarrow> frame_fits e i fr \<Longrightarrow> frame_fits e' i fr"
  shows "frames_ok e'"
proof -
  have "\<exists>fr. slot_at (frs e') i = Some fr \<and> frame_fits e' i fr" if i: "i \<le> stk_top (frs e')" for i
  proof -
    have "i \<le> stk_top (frs e)" using i assms(2) by simp
    from frames_okD [OF assms(1) this] obtain fr where "slot_at (frs e) i = Some fr" "frame_fits e i fr" by blast
    with assms(3) [OF i] assms(4) [OF i] show ?thesis by simp
  qed
  moreover have "frs_sp fi \<le> frs_sp fj \<and> frs_bds_top_index fi \<le> frs_bds_top_index fj"
    if "i \<le> j" "j \<le> stk_top (frs e')" "slot_at (frs e') i = Some fi" "slot_at (frs e') j = Some fj" for i j fi fj
  proof -
    have "slot_at (frs e) i = Some fi" "slot_at (frs e) j = Some fj" "j \<le> stk_top (frs e)"
      using that assms(2,3) by auto
    with frames_ok_mono [OF assms(1) that(1)] show ?thesis by blast
  qed
  ultimately show ?thesis unfolding frames_ok_def by blast
qed

lemma jump_to_frame_ok:
  assumes "bindings c e bs" and "slot_at (frs e) i = Some fr" and "frs_sp fr \<le> stk_top (temp_stack e)"
  shows "\<exists>e'. jump_to_frame i c e = (Inr i, e') \<and> bindings c e' (drop (length bs - frs_bds_top_index fr) bs)
    \<and> frs e' = (frs e)\<lparr>stk_top := i\<rparr> \<and> ihs_top e' = frs_ihs fr \<and> temp_stack e' = (temp_stack e)\<lparr>stk_top := frs_sp fr\<rparr>
    \<and> nlj_fr e' = nlj_fr e \<and> values_vec e' = values_vec e \<and> disable_interrupts e' = disable_interrupts e"
proof -
  let ?e1 = "e\<lparr>frs := (frs e)\<lparr>stk_top := i\<rparr>, ihs_top := frs_ihs fr\<rparr>"
  have "bindings c ?e1 bs" using assms(1) by (simp add: bindings_def)
  from bds_unwind_ok [OF this, of "frs_bds_top_index fr"]
  obtain e2 where e2: "mkcl_bds_unwind (frs_bds_top_index fr) c ?e1 = Some e2"
      "bindings c e2 (drop (length bs - frs_bds_top_index fr) bs)" "e2 = ?e1\<lparr>bds := bds e2, specials := specials e2\<rparr>"
    by blast
  have f: "frs e2 = (frs e)\<lparr>stk_top := i\<rparr>" "ihs_top e2 = frs_ihs fr" "temp_stack e2 = temp_stack e"
    "nlj_fr e2 = nlj_fr e" "values_vec e2 = values_vec e" "disable_interrupts e2 = disable_interrupts e"
    by (subst e2(3), simp)+
  let ?e3 = "e2\<lparr>temp_stack := (temp_stack e2)\<lparr>stk_top := frs_sp fr\<rparr>\<rparr>"
  have "jump_to_frame i c e = (Inr i, ?e3)"
    using assms(2,3) e2(1) f(3) by (simp add: jump_to_frame_def set_temp_index_def)
  moreover have "bindings c ?e3 (drop (length bs - frs_bds_top_index fr) bs)"
    using e2(2) by (simp add: bindings_def)
  ultimately show ?thesis using f by auto
qed

lemma frames_ok_lower:
  assumes "frames_ok e" and "i \<le> stk_top (frs e)" and "slot_at (frs e) i = Some fr"
    and "frs e' = (frs e)\<lparr>stk_top := i\<rparr>" and "stk_top (temp_stack e') = frs_sp fr" and "stk_top (bds e') = frs_bds_top_index fr"
  shows "frames_ok e'"
proof (rule frames_ok_cong [OF assms(1)])
  show "stk_top (frs e') \<le> stk_top (frs e)" using assms(2,4) by simp
  show "slot_at (frs e') j = slot_at (frs e) j" for j using assms(4) by (simp add: slot_at_def)
  show "frame_fits e' j f" if "j \<le> stk_top (frs e')" "slot_at (frs e) j = Some f" "frame_fits e j f" for j f
    using frames_ok_mono [OF assms(1) _ assms(2) that(2) assms(3)] that assms(4-6) by (simp add: frame_fits_def)
qed

lemma unwind_ok:
  assumes "bindings c e bs" and "frames_ok e" and "f \<le> stk_top (frs e)"
  shows "\<exists>e' fr. mkcl_unwind (Some f) c e = (Inr (unwind_target (frs e) f (stk_top (frs e))), e')
    \<and> slot_at (frs e) (unwind_target (frs e) f (stk_top (frs e))) = Some fr
    \<and> bindings c e' (drop (length bs - frs_bds_top_index fr) bs) \<and> frames_ok e'
    \<and> frs e' = (frs e)\<lparr>stk_top := unwind_target (frs e) f (stk_top (frs e))\<rparr> \<and> ihs_top e' = frs_ihs fr
    \<and> nlj_fr e' = Some f \<and> values_vec e' = values_vec e \<and> temp_stack e' = (temp_stack e)\<lparr>stk_top := frs_sp fr\<rparr>"
proof -
  let ?t = "unwind_target (frs e) f (stk_top (frs e))"
  let ?e1 = "e\<lparr>disable_interrupts := True, nlj_fr := Some f\<rparr>"
  have t: "?t \<le> stk_top (frs e)" using stops_target(1) [OF assms(3)] .
  obtain fr where fr: "slot_at (frs e) ?t = Some fr" "frs_sp fr \<le> stk_top (temp_stack e)"
      "frs_bds_top_index fr \<le> length bs"
    using frames_okD [OF assms(2) t] bindings_top [OF assms(1)] by (auto simp: frame_fits_def)
  have b: "bindings c ?e1 bs" using assms(1) by (simp add: bindings_def)
  obtain e' where e': "jump_to_frame ?t c ?e1 = (Inr ?t, e')" "bindings c e' (drop (length bs - frs_bds_top_index fr) bs)"
      "frs e' = (frs e)\<lparr>stk_top := ?t\<rparr>" "ihs_top e' = frs_ihs fr" "temp_stack e' = (temp_stack e)\<lparr>stk_top := frs_sp fr\<rparr>"
      "nlj_fr e' = Some f" "values_vec e' = values_vec e"
    using jump_to_frame_ok [OF b, of ?t fr] fr by auto
  have "mkcl_unwind (Some f) c e = (Inr ?t, e')" using e'(1) by (simp add: mkcl_unwind_def)
  moreover have "stk_top (bds e') = frs_bds_top_index fr" using bindings_top [OF e'(2)] fr(3) by simp
  with frames_ok_lower [OF assms(2) t fr(1) e'(3)] e'(5) have "frames_ok e'" by simp
  ultimately show ?thesis using fr(1) e' by blast
qed

lemma frs_push_ok:
  assumes "stk_ok (frs e)"
  shows "\<exists>fs. mkcl_frs_push val e = Some (Inr (Suc (stk_top (frs e))), e\<lparr>frs := fs\<rparr>)
    \<and> pushed \<lparr>frs_val = val, frs_bds_top_index = stk_top (bds e), frs_ihs = ihs_top e,
         frs_sp = stk_top (temp_stack e), frs_intr = disable_interrupts e\<rparr> (frs e) fs"
proof -
  let ?f1 = "(frs e)\<lparr>stk_top := stk_top (frs e) + 1\<rparr>"
  let ?x = "\<lparr>frs_val = val, frs_bds_top_index = stk_top (bds e), frs_ihs = ihs_top e,
     frs_sp = stk_top (temp_stack e), frs_intr = disable_interrupts e\<rparr>"
  have fill: "\<exists>fs. frs_fill val (e\<lparr>frs := f2\<rparr>) = (Inr (Suc (stk_top (frs e))), e\<lparr>frs := fs\<rparr>) \<and> pushed ?x (frs e) fs"
    if f2: "f2 = ?f1 \<or> (\<exists>n. f2 = extended n ?f1)" "stk_top ?f1 < length (slots f2)" "stk_upper f2 = length (slots f2)" for f2
  proof -
    have "stk_top f2 = Suc (stk_top (frs e))" using f2(1) by (auto simp: extended_def)
    with write_slot_pushed [OF assms refl f2, of ?x] show ?thesis by (auto simp: frs_fill_def Let_def)
  qed
  show ?thesis
  proof (cases "stk_top ?f1 < stk_upper ?f1")
    case True
    then have "mkcl_frs_push val e = Some (frs_fill val (e\<lparr>frs := ?f1\<rparr>))" by (subst mkcl_frs_push.simps) (simp add: Let_def)
    with fill [of ?f1] True assms show ?thesis by (auto simp: stk_ok_def)
  next
    case False
    let ?f2 = "extended (grown_size 64 ?f1 - length (slots (frs e))) ?f1"
    have "resize_frs_stack (grown_size 64 ?f1) ?f1 = Some ?f2"
      using assms frs_growth.resize_extends [of ?f1 "grown_size 64 ?f1"] by (auto simp: stk_ok_def grown_size_def)
    then have "mkcl_frs_push val e = Some (frs_fill val (e\<lparr>frs := ?f2\<rparr>))"
      using False assms by (subst mkcl_frs_push.simps) (simp add: Let_def at_limit_def stk_ok_def)
    moreover have "stk_top ?f1 < length (slots ?f2)" "stk_upper ?f2 = length (slots ?f2)"
      using assms by (auto simp: stk_ok_def extended_def grown_size_def)
    ultimately show ?thesis using fill [of ?f2] by auto
  qed
qed

text \<open>
  A frame stack with a limit, once its overflow area is allocated: pushing a frame at the upper
  bound does not return. To signal the overflow the code pushes a protecting frame, which finds
  the stack at the upper bound again.
\<close>

definition frs_exhausted :: "frame stack \<Rightarrow> bool" where
  "frs_exhausted f \<longleftrightarrow> \<not> overflowing f \<and> stk_limit f \<noteq> 0 \<and> stk_limit f + stk_overflow f \<le> length (slots f)
     \<and> stk_upper f \<le> stk_top f + 1"

lemma frs_push_exhausted:
  assumes "mkcl_frs_push val e = Some r"
  shows "\<not> frs_exhausted (frs e)"
proof (rule mkcl_frs_push.raw_induct [where P = "\<lambda>val e r. \<not> frs_exhausted (frs e)", OF _ assms])
  fix push :: "frame_tag \<Rightarrow> env \<Rightarrow> ((stack_error + nat) \<times> env) option" and val and e :: env and r
  assume IH: "\<And>val e r. push val e = Some r \<Longrightarrow> \<not> frs_exhausted (frs e)"
  let ?f1 = "(frs e)\<lparr>stk_top := stk_top (frs e) + 1\<rparr>"
  assume body: "(let f1 = ?f1; e1 = e\<lparr>frs := f1\<rparr>
      in if stk_top f1 < stk_upper f1 then Some (frs_fill val e1)
         else if overflowing f1 then Some (Inl ThreadAbandoned, e1)
         else if at_limit f1 then
           (case limit_resize resize_frs_stack f1 of
              None \<Rightarrow> Some (Inl WildAccess, e1)
            | Some f2 \<Rightarrow>
                Option.bind (push ProtectTag (e1\<lparr>frs := f2\<rparr>)) (\<lambda>(r, e2).
                  case r of
                    Inl err \<Rightarrow> Some (Inl err, e2)
                  | Inr p \<Rightarrow> Some (Inl (StackOverflow (stk_limit f2)), e2\<lparr>frs := open_overflow_area (frs e2)\<rparr>)))
         else
           (case resize_frs_stack (grown_size 64 f1) f1 of
              None \<Rightarrow> Some (Inl WildAccess, e1)
            | Some f2 \<Rightarrow> Some (frs_fill val (e1\<lparr>frs := f2\<rparr>)))) = Some r"
  show "\<not> frs_exhausted (frs e)"
  proof
    assume x: "frs_exhausted (frs e)"
    have f1: "at_limit ?f1" "limit_resize resize_frs_stack ?f1 = Some ?f1" "frs_exhausted ?f1"
      "\<not> stk_top ?f1 < stk_upper ?f1" "\<not> overflowing ?f1"
      using x by (auto simp: frs_exhausted_def at_limit_def limit_resize_def)
    then obtain r' where "push ProtectTag (e\<lparr>frs := ?f1\<rparr>) = Some r'"
      using body by (auto simp: Let_def bind_eq_Some_conv)
    from IH [OF this] f1(3) show False by simp
  qed
qed

end
