(* ===== verification/Unwind_Props.thy ===== *)
theory Unwind_Props
  imports Stack_Props
begin

text \<open>
  Non-local exits. A jump saves the values in flight around every cleanup form it passes
  (\<open>push_pop_values\<close>), stops at the protecting frames from the innermost out and then at its
  target (\<open>jump_trace_stops\<close>), and leaves the bindings the target frame had
  (\<open>catch_restores\<close>). The last part shows what the limits of the stacks do to this.
\<close>

lemma slot_at_top [simp]: "slot_at (s\<lparr>stk_top := n\<rparr>) i = slot_at s i"
  by (simp add: slot_at_def)

section \<open>Values saved on the stack of temporaries\<close>

definition temps_ok :: "env \<Rightarrow> bool" where
  "temps_ok e \<longleftrightarrow> stk_ok (temp_stack e) \<and> 0 < stk_top (temp_stack e)
     \<and> length (values_vec e) < length (slots (temp_stack e)) \<and> length (values_vec e) < 2048"

definition same_below :: "'a stack \<Rightarrow> 'a stack \<Rightarrow> bool" where
  "same_below s s' \<longleftrightarrow> stk_top s' = stk_top s \<and> take (stk_top s) (slots s') = take (stk_top s) (slots s)
     \<and> length (slots s) \<le> length (slots s')"

lemma same_below_refl [simp]: "same_below s s"
  by (simp add: same_below_def)

lemma push_values_ok:
  assumes "temps_ok e"
  shows "\<exists>t. mkcl_stack_push_values e = (Inr (length (values_vec e)), e\<lparr>temp_stack := t\<rparr>)
    \<and> stk_ok t \<and> stk_top t = stk_top (temp_stack e) + length (values_vec e) \<and> length (slots (temp_stack e)) \<le> length (slots t)
    \<and> take (stk_top t) (slots t) = take (stk_top (temp_stack e)) (slots (temp_stack e)) @ map Some (values_vec e)"
proof -
  let ?t = "temp_stack e" and ?i = "length (values_vec e)"
  have ok: "stk_limit ?t = 0" "\<not> overflowing ?t" "stk_upper ?t = length (slots ?t)" "stk_top ?t < length (slots ?t)"
    "0 < stk_top ?t" "?i < length (slots ?t)" "?i < 2048"
    using assms by (auto simp: temps_ok_def stk_ok_def)
  obtain n where t1: "(if stk_upper ?t \<le> stk_top ?t + ?i then mkcl_grow_temp_stack ?t else (Inr (), ?t)) = (Inr (), extended n ?t)"
      "stk_top ?t + ?i < length (slots ?t) + n"
  proof (cases "stk_upper ?t \<le> stk_top ?t + ?i")
    case True
    let ?n = "grown_size 2048 ?t - length (slots ?t)"
    have "mkcl_grow_temp_stack ?t = (Inr (), extended ?n ?t)"
      unfolding mkcl_grow_temp_stack_def grow_stack_def
      using ok temp_growth.resize_extends [of ?t "grown_size 2048 ?t"] by (auto simp: at_limit_def grown_size_def)
    moreover have "stk_top ?t + ?i < length (slots ?t) + ?n" using ok by (auto simp: grown_size_def)
    ultimately show ?thesis using that True by simp
  next
    case False
    then show ?thesis using that [of 0] ok(3) by (simp add: extended_def)
  qed
  let ?t1 = "extended n ?t"
  let ?t2 = "?t1\<lparr>stk_top := stk_top ?t1 + ?i,
     slots := take (stk_top ?t1) (slots ?t1) @ map Some (values_vec e) @ drop (stk_top ?t1 + ?i) (slots ?t1)\<rparr>"
  have "mkcl_stack_push_values e = (Inr ?i, e\<lparr>temp_stack := ?t2\<rparr>)"
    unfolding mkcl_stack_push_values_def Let_def t1(1) using t1(2) by (simp add: extended_def)
  moreover have "stk_ok ?t2" using ok t1(2) by (auto simp: stk_ok_def extended_def)
  moreover have "take (stk_top ?t2) (slots ?t2) = take (stk_top ?t) (slots ?t) @ map Some (values_vec e)"
    using ok(4) by (simp add: extended_def)
  moreover have "stk_top ?t2 = stk_top ?t + ?i" "length (slots ?t) \<le> length (slots ?t2)"
    using t1(2) ok(4) by (auto simp: extended_def)
  ultimately show ?thesis by blast
qed

lemma pop_values_ok:
  assumes "n = length vs" and "take (stk_top (temp_stack e)) (slots (temp_stack e)) = xs @ map Some vs"
    and "stk_top (temp_stack e) = length xs + n"
  shows "mkcl_stack_pop_values n e =
    (Inr (), e\<lparr>values_vec := vs, temp_stack := (temp_stack e)\<lparr>stk_top := stk_top (temp_stack e) - n\<rparr>\<rparr>)"
proof -
  have "take n (drop (length xs) (slots (temp_stack e))) = drop (length xs) (take (length xs + n) (slots (temp_stack e)))"
    by (simp add: drop_take)
  also have "\<dots> = map Some vs" using assms(2) unfolding assms(3) by simp
  finally have v: "take n (drop (length xs) (slots (temp_stack e))) = map Some vs" .
  have n: "stk_top (temp_stack e) - n = length xs" "\<not> stk_top (temp_stack e) < n" using assms(3) by simp_all
  have m: "map the (map Some vs) = vs" "None \<notin> set (map Some vs)" "\<not> length (map Some vs) < n"
    using assms(1) by (auto simp: comp_def)
  show ?thesis unfolding mkcl_stack_pop_values_def Let_def n(1) v m(1) using n(2) m(2,3) by simp
qed

text \<open>
  Values pushed and popped around code that leaves the stack of temporaries as it was below its
  top come back.
\<close>

lemma push_pop_values:
  assumes "temps_ok e" and "mkcl_stack_push_values e = (Inr n, e1)" and "same_below (temp_stack e1) (temp_stack e2)"
  shows "mkcl_stack_pop_values n e2 = (Inr (), e2\<lparr>values_vec := values_vec e,
      temp_stack := (temp_stack e2)\<lparr>stk_top := stk_top (temp_stack e)\<rparr>\<rparr>)"
proof -
  obtain t where t: "mkcl_stack_push_values e = (Inr (length (values_vec e)), e\<lparr>temp_stack := t\<rparr>)"
      "stk_top t = stk_top (temp_stack e) + length (values_vec e)"
      "take (stk_top t) (slots t) = take (stk_top (temp_stack e)) (slots (temp_stack e)) @ map Some (values_vec e)"
    using push_values_ok [OF assms(1)] by (elim exE conjE) (rule that)
  have e1: "e1 = e\<lparr>temp_stack := t\<rparr>" "n = length (values_vec e)" using assms(2) t(1) by simp_all
  have s: "stk_top (temp_stack e2) = stk_top t" "take (stk_top t) (slots (temp_stack e2)) = take (stk_top t) (slots t)"
    using assms(3) e1(1) by (simp_all add: same_below_def)
  let ?xs = "take (stk_top (temp_stack e)) (slots (temp_stack e))"
  have l: "length ?xs = stk_top (temp_stack e)" using assms(1) by (simp add: temps_ok_def stk_ok_def)
  have "take (stk_top (temp_stack e2)) (slots (temp_stack e2)) = ?xs @ map Some (values_vec e)"
    using s t(3) by simp
  from pop_values_ok [OF e1(2) this] s t(2) l e1(2) show ?thesis by simp
qed

section \<open>Jumps through cleanup forms\<close>

text \<open>
  What cleanup forms may do: everything, as long as they leave the bindings of the same variables,
  the frames and the temporaries below the tops as they found them.
\<close>

definition balanced :: "(core \<times> env \<Rightarrow> core \<times> env) \<Rightarrow> bool" where
  "balanced k \<longleftrightarrow> (\<forall>c e bs. bindings c e bs \<longrightarrow> stk_ok (temp_stack e) \<longrightarrow>
     (\<exists>bs'. bindings (fst (k (c, e))) (snd (k (c, e))) bs' \<and> map fst bs' = map fst bs)
     \<and> stk_top (frs (snd (k (c, e)))) = stk_top (frs e)
     \<and> (\<forall>i \<le> stk_top (frs e). slot_at (frs (snd (k (c, e)))) i = slot_at (frs e) i)
     \<and> same_below (temp_stack e) (temp_stack (snd (k (c, e)))) \<and> stk_ok (temp_stack (snd (k (c, e)))))"

lemma balancedD:
  assumes "balanced k" and "bindings c e bs" and "stk_ok (temp_stack e)" and "k (c, e) = (c', e')"
  shows "\<exists>bs'. bindings c' e' bs' \<and> map fst bs' = map fst bs \<and> stk_top (frs e') = stk_top (frs e)
    \<and> (\<forall>i \<le> stk_top (frs e). slot_at (frs e') i = slot_at (frs e) i)
    \<and> same_below (temp_stack e) (temp_stack e') \<and> stk_ok (temp_stack e')"
  using assms unfolding balanced_def by fastforce

text \<open>
  The frames a jump comes to, one after the other, until it reaches its target: at a protecting
  frame the cleanup forms run and the jump goes on.
\<close>

fun jump_trace ::
  "nat \<Rightarrow> (core \<times> env \<Rightarrow> core \<times> env) \<Rightarrow> (stack_error + nat) \<times> core \<times> env \<Rightarrow> nat list \<times> (stack_error + nat) \<times> core \<times> env" where
  "jump_trace 0 k r = ([], r)"
| "jump_trace (Suc n) k (Inl err, c, e) = ([], Inl err, c, e)"
| "jump_trace (Suc n) k (Inr i, c, e) =
     (if nlj_fr e = Some i then ([i], Inr i, c, e)
      else case jump_trace n k (unwind_protect_exit k c e) of (l, r) \<Rightarrow> (i # l, r))"

lemma stops_cong:
  assumes "\<And>i. i \<le> n \<Longrightarrow> frame_val f i = frame_val g i"
  shows "stops f fr n = stops g fr n"
  using assms by (induction n) auto

lemma unwind_target_cong:
  assumes "\<And>i. i \<le> n \<Longrightarrow> frame_val f i = frame_val g i"
  shows "unwind_target f fr n = unwind_target g fr n"
  using assms by (induction n) auto

definition landed :: "core \<Rightarrow> env \<Rightarrow> nat \<Rightarrow> nat \<Rightarrow> (obj \<times> obj) list \<Rightarrow> bool" where
  "landed c e i f bs \<longleftrightarrow> bindings c e bs \<and> frames_ok e \<and> stk_top (frs e) = i \<and> nlj_fr e = Some f \<and> f \<le> i
     \<and> (i = f \<or> frame_val (frs e) i = Some ProtectTag) \<and> stk_ok (temp_stack e)
     \<and> length (values_vec e) < length (slots (temp_stack e)) \<and> length (values_vec e) < 2048
     \<and> stk_top (temp_stack e) = frs_sp (the (slot_at (frs e) i))"

lemma landed_target: "landed c e i f bs \<Longrightarrow> i \<noteq> f \<Longrightarrow> stops (frs e) f i = i # stops (frs e) f (i - 1) \<and> f \<le> i - 1 \<and> 0 < i"
  by (cases i) (auto simp: landed_def)

text \<open>Popping a protecting frame leaves well-formed frames, and room for the values in flight.\<close>

lemma landed_pop:
  assumes "landed c e i f bs" and "i \<noteq> f"
  shows "\<exists>e1. mkcl_frs_pop e = Some e1 \<and> bindings c e1 bs \<and> frames_ok e1 \<and> temps_ok e1
    \<and> frs e1 = (frs e)\<lparr>stk_top := i - 1\<rparr> \<and> temp_stack e1 = temp_stack e \<and> values_vec e1 = values_vec e"
proof -
  have i: "0 < i" "stk_top (frs e) = i" "frames_ok e" using assms landed_target by (auto simp: landed_def)
  obtain fr where fr: "slot_at (frs e) i = Some fr" "frame_fits e i fr"
    using frames_okD [OF i(3), of i] i(2) by blast
  let ?e1 = "e\<lparr>disable_interrupts := frs_intr fr, frs := (frs e)\<lparr>stk_top := i - 1\<rparr>\<rparr>"
  have "mkcl_frs_pop e = Some ?e1" using i fr(1) by (simp add: mkcl_frs_pop_def)
  moreover have "frames_ok ?e1"
    by (rule frames_ok_cong [OF i(3)]) (use i(2) in \<open>auto simp: slot_at_def frame_fits_def\<close>)
  moreover have "bindings c ?e1 bs" using assms(1) by (simp add: landed_def bindings_def)
  moreover have "temps_ok ?e1" using assms(1) fr i(1) by (simp add: landed_def temps_ok_def frame_fits_def)
  ultimately show ?thesis by auto
qed

text \<open>One cleanup: from a protecting frame to the next stop.\<close>

lemma cleanup_step:
  assumes "balanced k" and "landed c e i f bs" and "i \<noteq> f"
  shows "\<exists>c' e' bs'. unwind_protect_exit k c e = (Inr (unwind_target (frs e) f (i - 1)), c', e')
    \<and> landed c' e' (unwind_target (frs e) f (i - 1)) f bs'
    \<and> (\<forall>l < i. slot_at (frs e') l = slot_at (frs e) l)
    \<and> map fst bs' = drop (length bs - length bs') (map fst bs)"
proof -
  obtain e1 where e1: "mkcl_frs_pop e = Some e1" "bindings c e1 bs" "frames_ok e1" "temps_ok e1"
      "frs e1 = (frs e)\<lparr>stk_top := i - 1\<rparr>" "temp_stack e1 = temp_stack e" "values_vec e1 = values_vec e"
    using landed_pop [OF assms(2,3)] by blast
  obtain t where t: "mkcl_stack_push_values e1 = (Inr (length (values_vec e1)), e1\<lparr>temp_stack := t\<rparr>)" "stk_ok t"
      "stk_top t = stk_top (temp_stack e1) + length (values_vec e1)" "length (slots (temp_stack e1)) \<le> length (slots t)"
    using push_values_ok [OF e1(4)] by (elim exE conjE) (rule that)
  obtain c3 e3 where k: "k (c, e1\<lparr>temp_stack := t\<rparr>) = (c3, e3)" by fastforce
  have b2: "bindings c (e1\<lparr>temp_stack := t\<rparr>) bs" using e1(2) by (simp add: bindings_def)
  obtain bs3 where e3: "bindings c3 e3 bs3" "map fst bs3 = map fst bs" "stk_top (frs e3) = i - 1"
      "\<forall>l \<le> i - 1. slot_at (frs e3) l = slot_at (frs e1) l" "same_below t (temp_stack e3)" "stk_ok (temp_stack e3)"
    using balancedD [OF assms(1) b2 _ k] t(2) e1(5) by auto
  let ?e4 = "e3\<lparr>values_vec := values_vec e1, temp_stack := (temp_stack e3)\<lparr>stk_top := stk_top (temp_stack e1)\<rparr>\<rparr>"
  have pop: "mkcl_stack_pop_values (length (values_vec e1)) e3 = (Inr (), ?e4)"
    using push_pop_values [OF e1(4) t(1), of e3] e3(5) by simp
  have len: "length bs3 = length bs" using arg_cong [OF e3(2), of length] by simp
  have b4: "bindings c3 ?e4 bs3" using e3(1) by (simp add: bindings_def)
  have top1: "stk_top (frs e1) = i - 1" using e1(5) by simp
  have at: "slot_at (frs e3) l = slot_at (frs e) l" if "l \<le> i - 1" for l
    using e3(4) that e1(5) by (simp add: slot_at_def)
  have f4: "frames_ok ?e4"
  proof (rule frames_ok_cong [OF e1(3)])
    show "stk_top (frs ?e4) \<le> stk_top (frs e1)" using e3(3) top1 by simp
    show "slot_at (frs ?e4) l = slot_at (frs e1) l" if "l \<le> stk_top (frs ?e4)" for l using that e3(3,4) by simp
    show "frame_fits ?e4 l fr" if "frame_fits e1 l fr" for l fr
      using that bindings_top [OF e1(2)] bindings_top [OF e3(1)] len by (simp add: frame_fits_def)
  qed
  have fi: "f \<le> i - 1" "0 < i" using landed_target [OF assms(2,3)] by auto
  let ?j = "unwind_target (frs e) f (i - 1)"
  have j: "unwind_target (frs e3) f (i - 1) = ?j" "?j \<le> i - 1"
    using unwind_target_cong [of "i - 1" "frs e3" "frs e" f] at stops_target(1) [OF fi(1)] by (simp_all add: frame_val_def)
  obtain e5 fr where e5: "mkcl_unwind (Some f) c3 ?e4 = (Inr ?j, e5)" "slot_at (frs e3) ?j = Some fr"
      "bindings c3 e5 (drop (length bs3 - frs_bds_top_index fr) bs3)" "frames_ok e5" "frs e5 = (frs e3)\<lparr>stk_top := ?j\<rparr>"
      "nlj_fr e5 = Some f" "values_vec e5 = values_vec e1" "temp_stack e5 = (temp_stack e3)\<lparr>stk_top := frs_sp fr\<rparr>"
    using unwind_ok [OF b4 f4, of f] fi(1) e3(3) j(1) by auto
  have ex: "unwind_protect_exit k c e = (Inr ?j, c3, e5)"
    using e1(1) t(1) k pop e5(1) assms(2) by (simp add: unwind_protect_exit_def landed_def)
  have at5: "slot_at (frs e5) l = slot_at (frs e) l" if "l < i" for l
  proof -
    have "slot_at (frs e5) l = slot_at (frs e3) l" using e5(5) by (simp add: slot_at_def)
    with at [of l] that show ?thesis by simp
  qed
  have "frs_sp fr \<le> stk_top (temp_stack e1)"
    using frames_okD [OF f4, of ?j] e3(3) j(2) e5(2) by (auto simp: frame_fits_def)
  then have room: "stk_ok (temp_stack e5)" "length (values_vec e5) < length (slots (temp_stack e5))" "length (values_vec e5) < 2048"
    using e1(4) e3(5,6) t(3,4) e5(7,8) by (auto simp: stk_ok_def temps_ok_def same_below_def)
  have stop: "?j = f \<or> frame_val (frs e5) ?j = Some ProtectTag" "f \<le> ?j"
    using stops_target(2,3) [OF fi(1), of "frs e"] at5 [of ?j] j(2) fi(2) by (auto simp: frame_val_def)
  have "slot_at (frs e5) ?j = slot_at (frs e3) ?j" using e5(5) by (simp add: slot_at_def)
  with e5(2) have "slot_at (frs e5) ?j = Some fr" by simp
  with e5 stop room have l: "landed c3 e5 ?j f (drop (length bs3 - frs_bds_top_index fr) bs3)"
    by (simp add: landed_def)
  have "map fst (drop (length bs3 - m) bs3) = drop (length bs - length (drop (length bs3 - m) bs3)) (map fst bs)" for m
    using len e3(2) by (cases "m \<le> length bs") (simp_all add: drop_map [symmetric])
  with ex l at5 show ?thesis by blast
qed

lemma jump_trace_stops:
  assumes "balanced k" and "landed c e i f bs" and "i \<le> n"
  shows "\<exists>c' e' bs'. jump_trace (Suc n) k (Inr i, c, e) = (stops (frs e) f i, Inr f, c', e') \<and> landed c' e' f f bs'
    \<and> (\<forall>l \<le> f. slot_at (frs e') l = slot_at (frs e) l) \<and> map fst bs' = drop (length bs - length bs') (map fst bs)"
  using assms(2,3)
proof (induction n arbitrary: c e i bs)
  case 0
  then have "i = 0" "f = 0" "nlj_fr e = Some 0" by (auto simp: landed_def)
  with 0 show ?case by (auto intro: exI [of _ bs])
next
  case (Suc n)
  show ?case
  proof (cases "i = f")
    case True
    then have "nlj_fr e = Some i" "stops (frs e) f i = [i]" using Suc.prems by (cases i; auto simp: landed_def)+
    with True Suc.prems show ?thesis by (auto intro: exI [of _ bs])
  next
    case False
    let ?j = "unwind_target (frs e) f (i - 1)"
    have s: "stops (frs e) f i = i # stops (frs e) f (i - 1)" "f \<le> i - 1" "0 < i" using landed_target [OF Suc.prems(1) False] by auto
    obtain c1 e1 bs1 where 1: "unwind_protect_exit k c e = (Inr ?j, c1, e1)" "landed c1 e1 ?j f bs1"
        "\<forall>l < i. slot_at (frs e1) l = slot_at (frs e) l" "map fst bs1 = drop (length bs - length bs1) (map fst bs)"
      using cleanup_step [OF assms(1) Suc.prems(1) False] by blast
    have j: "?j \<le> i - 1" using stops_target(1) [OF s(2)] .
    then have "?j \<le> n" using Suc.prems(2) s(3) by simp
    from Suc.IH [OF 1(2) this] obtain c' e' bs' where 2: "jump_trace (Suc n) k (Inr ?j, c1, e1) = (stops (frs e1) f ?j, Inr f, c', e')"
        "landed c' e' f f bs'" "\<forall>l \<le> f. slot_at (frs e') l = slot_at (frs e1) l"
        "map fst bs' = drop (length bs1 - length bs') (map fst bs1)" by blast
    have "stops (frs e1) f ?j = stops (frs e) f (i - 1)"
      unfolding stops_skip [of "frs e" f "i - 1"] using 1(3) j s(3) by (intro stops_cong) (simp add: frame_val_def)
    moreover have "nlj_fr e \<noteq> Some i" using Suc.prems(1) False by (simp add: landed_def)
    ultimately have "jump_trace (Suc (Suc n)) k (Inr i, c, e) = (stops (frs e) f i, Inr f, c', e')"
      using 1(1) 2(1) s(1) by simp
    moreover have "\<forall>l \<le> f. slot_at (frs e') l = slot_at (frs e) l" using 1(3) 2(3) s(2,3) by auto
    moreover have "map fst bs' = drop (length bs - length bs') (map fst bs)"
    proof -
      have "length bs1 \<le> length bs" "length bs' \<le> length bs1"
        using arg_cong [OF 1(4), of length] arg_cong [OF 2(4), of length] by simp_all
      then show ?thesis using 1(4) 2(4) by simp
    qed
    ultimately show ?thesis using 2(2) by blast
  qed
qed

lemma stops_filter:
  "f \<le> n \<Longrightarrow> stops fs f n = rev (filter (\<lambda>i. i = f \<or> frame_val fs i = Some ProtectTag) [f..<Suc n])"
proof (induction n)
  case (Suc n)
  show ?case
  proof (cases "f = Suc n")
    case False
    then have "[f..<Suc (Suc n)] = [f..<Suc n] @ [Suc n]" using Suc.prems by simp
    then show ?thesis using Suc False by (simp del: upt_Suc)
  qed simp
qed simp

lemma throw_trace:
  assumes "bindings c e bs" and "frames_ok e" and "temps_ok e" and "balanced k" and "mkcl_frs_sch e (Tag tag) = Some f"
  shows "\<exists>r e1 c' e'. mkcl_throw tag c e = (r, e1)
    \<and> jump_trace (Suc (stk_top (frs e))) k (r, c, e1) =
        (rev (filter (\<lambda>i. i = f \<or> frame_val (frs e) i = Some ProtectTag) [f..<Suc (stk_top (frs e))]), Inr f, c', e')
    \<and> stk_top (frs e') = f \<and> frame_val (frs e') f = Some (Tag tag)
    \<and> (\<forall>j. f < j \<longrightarrow> j \<le> stk_top (frs e) \<longrightarrow> frame_val (frs e) j \<noteq> Some (Tag tag))"
proof -
  let ?n = "stk_top (frs e)"
  let ?t = "unwind_target (frs e) f ?n"
  have f: "f \<le> ?n" "frame_val (frs e) f = Some (Tag tag)" "\<forall>j. f < j \<longrightarrow> j \<le> ?n \<longrightarrow> frame_val (frs e) j \<noteq> Some (Tag tag)"
    using frs_sch_from_Some assms(5) unfolding mkcl_frs_sch_def by blast+
  obtain e1 fr where e1: "mkcl_unwind (Some f) c e = (Inr ?t, e1)" "slot_at (frs e) ?t = Some fr"
      "bindings c e1 (drop (length bs - frs_bds_top_index fr) bs)" "frames_ok e1" "frs e1 = (frs e)\<lparr>stk_top := ?t\<rparr>"
      "nlj_fr e1 = Some f" "values_vec e1 = values_vec e" "temp_stack e1 = (temp_stack e)\<lparr>stk_top := frs_sp fr\<rparr>"
    using unwind_ok [OF assms(1,2) f(1)] by blast
  have val: "frame_val (frs e1) j = frame_val (frs e) j" for j using e1(5) by (simp add: frame_val_def slot_at_def)
  have t: "?t \<le> ?n" using stops_target(1) [OF f(1)] .
  from frames_okD [OF assms(2) t] obtain fr' where "slot_at (frs e) ?t = Some fr'" "frame_fits e ?t fr'" by blast
  with e1(2) have "frs_sp fr \<le> stk_top (temp_stack e)" by (simp add: frame_fits_def)
  then have room: "stk_ok (temp_stack e1)" "length (values_vec e1) < length (slots (temp_stack e1))" "length (values_vec e1) < 2048"
    using assms(3) e1(7,8) by (auto simp: temps_ok_def stk_ok_def)
  have at: "slot_at (frs e1) ?t = Some fr" using e1(2,5) by simp
  have l: "landed c e1 ?t f (drop (length bs - frs_bds_top_index fr) bs)"
    unfolding landed_def using e1(3,4,6) room at stops_target(2,3) [OF f(1), of "frs e"] val e1(5,8) by simp
  obtain c' e' bs' where r: "jump_trace (Suc ?n) k (Inr ?t, c, e1) = (stops (frs e1) f ?t, Inr f, c', e')" "landed c' e' f f bs'"
      "\<forall>l \<le> f. slot_at (frs e') l = slot_at (frs e1) l"
    using jump_trace_stops [OF assms(4) l t] by blast
  have "stops (frs e1) f ?t = stops (frs e) f ?n"
    unfolding stops_skip [of "frs e" f ?n] using val by (intro stops_cong) simp
  with r(1) have "jump_trace (Suc ?n) k (Inr ?t, c, e1) =
      (rev (filter (\<lambda>i. i = f \<or> frame_val (frs e) i = Some ProtectTag) [f..<Suc ?n]), Inr f, c', e')"
    by (simp only: stops_filter [OF f(1), of "frs e"])
  moreover have "frame_val (frs e') f = Some (Tag tag)" using r(3) val f(2) by (simp add: frame_val_def)
  moreover have "mkcl_throw tag c e = (Inr ?t, e1)" using assms(5) e1(1) by (simp add: mkcl_throw_def)
  moreover have "stk_top (frs e') = f" using r(2) by (simp add: landed_def)
  ultimately show ?thesis using f(3) by (intro exI conjI) assumption+
qed

section \<open>A catch and a throw\<close>

lemma pushed_slot_at:
  assumes "pushed x s s'"
  shows "slot_at s' (stk_top s') = Some x" and "i < stk_top s' \<Longrightarrow> slot_at s' i = slot_at s i"
proof -
  have p: "stk_top s' < length (slots s')" "slots s' ! stk_top s' = Some x"
    "take (stk_top s') (slots s') = take (stk_top s') (slots s)"
    using assms by (auto simp: pushed_def stk_ok_def)
  then show "slot_at s' (stk_top s') = Some x" by (simp add: slot_at_def)
  show "slot_at s' i = slot_at s i" if "i < stk_top s'"
    using arg_cong [OF p(3), of "\<lambda>l. l ! i"] arg_cong [OF p(3), of length] p(1) that
    by (auto simp: slot_at_def min_def split: if_splits)
qed

lemma frames_ok_push:
  assumes "frames_ok e" and "pushed x (frs e) fs" and "frame_fits e (stk_top fs) x"
    and "frs_sp x = stk_top (temp_stack e)" and "frs_bds_top_index x = stk_top (bds e)"
  shows "frames_ok (e\<lparr>frs := fs\<rparr>)"
proof -
  have top: "stk_top fs = Suc (stk_top (frs e))" using assms(2) by (simp add: pushed_def)
  have ff: "frame_fits (e\<lparr>frs := fs\<rparr>) j fr = frame_fits e j fr" for j fr by (simp add: frame_fits_def)
  have fits: "\<exists>fr. slot_at fs j = Some fr \<and> frame_fits e j fr" if j: "j \<le> stk_top fs" for j
  proof (cases "j = stk_top fs")
    case True
    then show ?thesis using pushed_slot_at(1) [OF assms(2)] assms(3) by simp
  next
    case False
    then have j': "j < stk_top fs" "j \<le> stk_top (frs e)" using j top by simp_all
    from frames_okD [OF assms(1) j'(2)] pushed_slot_at(2) [OF assms(2) j'(1)] show ?thesis by metis
  qed
  have "frs_sp fj \<le> frs_sp fk \<and> frs_bds_top_index fj \<le> frs_bds_top_index fk"
    if "j \<le> k" "k \<le> stk_top fs" "slot_at fs j = Some fj" "slot_at fs k = Some fk" for j k fj fk
  proof (cases "k = stk_top fs")
    case True
    then have "fk = x" using that(4) pushed_slot_at(1) [OF assms(2)] by simp
    moreover have "frame_fits e j fj" using fits [of j] that(1,2,3) by auto
    ultimately show ?thesis using assms(4,5) by (simp add: frame_fits_def)
  next
    case False
    then have k: "k < stk_top fs" "k \<le> stk_top (frs e)" using that(2) top by simp_all
    then have "slot_at (frs e) j = Some fj" "slot_at (frs e) k = Some fk"
      using pushed_slot_at(2) [OF assms(2), of j] pushed_slot_at(2) [OF assms(2), of k] that by auto
    with frames_ok_mono [OF assms(1) that(1) k(2)] show ?thesis by blast
  qed
  with fits show ?thesis unfolding frames_ok_def ff by simp
qed

lemma frs_push_frames:
  assumes "stk_ok (frs e)" and "frames_ok e" and "0 < stk_top (temp_stack e)"
  shows "\<exists>fs. mkcl_frs_push val e = Some (Inr (Suc (stk_top (frs e))), e\<lparr>frs := fs\<rparr>) \<and> stk_ok fs
    \<and> stk_top fs = Suc (stk_top (frs e)) \<and> frames_ok (e\<lparr>frs := fs\<rparr>) \<and> frame_val fs (Suc (stk_top (frs e))) = Some val
    \<and> (\<forall>i \<le> stk_top (frs e). frame_val fs i = frame_val (frs e) i)"
proof -
  let ?x = "\<lparr>frs_val = val, frs_bds_top_index = stk_top (bds e), frs_ihs = ihs_top e,
     frs_sp = stk_top (temp_stack e), frs_intr = disable_interrupts e\<rparr>"
  obtain fs where fs: "mkcl_frs_push val e = Some (Inr (Suc (stk_top (frs e))), e\<lparr>frs := fs\<rparr>)" "pushed ?x (frs e) fs"
    using frs_push_ok [OF assms(1)] by blast
  have top: "stk_top fs = Suc (stk_top (frs e))" "stk_ok fs" using fs(2) by (simp_all add: pushed_def)
  have "frames_ok (e\<lparr>frs := fs\<rparr>)" using frames_ok_push [OF assms(2) fs(2)] assms(3) by (simp add: frame_fits_def)
  with fs(1) top pushed_slot_at [OF fs(2)] show ?thesis by (auto simp: frame_val_def)
qed

lemma balanced_id: "balanced (\<lambda>x. x)"
  by (auto simp: balanced_def)

text \<open>Operations on variables leave the frames alone.\<close>

lemma bds_push_slot_frame: "bds_push_slot s v i c e = (r, c', e') \<Longrightarrow> frs e' = frs e \<and> temp_stack e' = temp_stack e"
  by (auto simp: bds_push_slot_def Let_def split: prod.splits sum.splits option.splits if_splits)

lemma bds_unwind1_frame: "mkcl_bds_unwind1 c e = Some e' \<Longrightarrow> frs e' = frs e \<and> temp_stack e' = temp_stack e"
  by (auto simp: mkcl_bds_unwind1_def Let_def split: prod.splits option.splits if_splits)

lemma bds_unwind_n_frame: "mkcl_bds_unwind_n n c e = Some e' \<Longrightarrow> frs e' = frs e \<and> temp_stack e' = temp_stack e"
  by (induction n arbitrary: e) (auto simp: bind_eq_Some_conv dest: bds_unwind1_frame)

lemma dyn_step_frame:
  assumes "dyn_step op c e = Some (c', e')"
  shows "frs e' = frs e \<and> temp_stack e' = temp_stack e"
proof (cases op)
  case (Bind s v)
  have g: "frs (mkcl_grow_specials n e) = frs e" "temp_stack (mkcl_grow_specials n e) = temp_stack e" for n
    by (simp_all add: mkcl_grow_specials_def)
  show ?thesis
    using assms Bind g
    by (auto simp: mkcl_bds_bind_def split: prod.splits option.splits sum.splits if_splits dest!: bds_push_slot_frame)
next
  case (Assign s v)
  then show ?thesis
    using assms by (auto simp: mk_cl_set_def mkcl_set_symbol_value_def split: option.splits if_splits)
qed (use assms in \<open>auto simp: mkcl_bds_unwind_def dest: bds_unwind1_frame bds_unwind_n_frame\<close>)

lemma sys_run_frame:
  assumes "sys_run ops (c, es) = Some (c', es')" and "j < length es"
  shows "frs (es' ! j) = frs (es ! j) \<and> temp_stack (es' ! j) = temp_stack (es ! j)"
  using assms
proof (induction ops arbitrary: c es)
  case (Cons iop ops)
  obtain i op where iop: "iop = (i, op)" by fastforce
  with Cons.prems obtain c1 e1 where 1: "dyn_step op c (es ! i) = Some (c1, e1)" "sys_run ops (c1, es[i := e1]) = Some (c', es')"
    by (auto split: option.splits)
  have "frs (es[i := e1] ! j) = frs (es ! j) \<and> temp_stack (es[i := e1] ! j) = temp_stack (es ! j)"
    using dyn_step_frame [OF 1(1)] Cons.prems(2) by (cases "i = j") simp_all
  with Cons.IH [OF 1(2)] Cons.prems(2) show ?case by simp
qed auto

text \<open>Operations that do not undo the bindings below a height.\<close>

fun stays :: "nat \<Rightarrow> (obj \<times> obj) list \<Rightarrow> dyn_op \<Rightarrow> bool" where
  "stays n bs Unbind = (n < length bs)"
| "stays n bs (UnwindTo m) = (n \<le> m)"
| "stays n bs _ = True"

fun is_assign :: "dyn_op \<Rightarrow> bool" where
  "is_assign (Assign s v) = True"
| "is_assign _ = False"

fun stays_above :: "nat \<Rightarrow> nat \<Rightarrow> (nat \<times> dyn_op) list \<Rightarrow> (obj \<Rightarrow> obj option) \<times> (obj \<times> obj) list list \<Rightarrow> bool" where
  "stays_above i n [] (g, bss) = True"
| "stays_above i n ((j, op) # ops) (g, bss) \<longleftrightarrow>
     (j = i \<longrightarrow> stays n (bss ! i) op)
     \<and> (case spec_step op g (bss ! j) of (g', bs') \<Rightarrow> stays_above i n ops (g', bss[j := bs']))"

definition oldest :: "nat \<Rightarrow> 'a list \<Rightarrow> 'a list" where
  "oldest n bs = drop (length bs - n) bs"

lemma fst_set_newest [simp]: "map fst (set_newest s v bs) = map fst bs"
  by (induction bs) auto

lemma length_set_newest [simp]: "length (set_newest s v bs) = length bs"
  by (induction bs) auto

lemma oldest_oldest: "n \<le> m \<Longrightarrow> oldest n (oldest m bs) = oldest n bs"
  by (cases "m \<le> length bs") (simp_all add: oldest_def)

lemma spec_step_oldest:
  assumes "spec_step op g bs = (g', bs')" and "stays n bs op" and "n \<le> length bs"
  shows "n \<le> length bs'" and "map fst (oldest n bs') = map fst (oldest n bs)" and "\<not> is_assign op \<Longrightarrow> oldest n bs' = oldest n bs"
proof -
  have "n \<le> length bs' \<and> map fst (oldest n bs') = map fst (oldest n bs) \<and> (\<not> is_assign op \<longrightarrow> oldest n bs' = oldest n bs)"
  proof (cases op)
    case Unbind
    then obtain b l where "bs = b # l" using assms(2) by (cases bs) auto
    with Unbind assms show ?thesis by (auto simp: oldest_def Suc_diff_le)
  next
    case (Assign s v)
    then show ?thesis
      using assms by (auto simp: oldest_def drop_map [symmetric] split: if_splits)
  next
    case (UnwindTo m)
    then have "bs' = oldest m bs" "n \<le> m" using assms by (auto simp: oldest_def)
    with assms(3) show ?thesis by (simp add: oldest_oldest) (simp add: oldest_def)
  qed (use assms in \<open>auto simp: oldest_def Suc_diff_le\<close>)
  then show "n \<le> length bs'" "map fst (oldest n bs') = map fst (oldest n bs)" "\<not> is_assign op \<Longrightarrow> oldest n bs' = oldest n bs"
    by auto
qed

lemma sys_spec_oldest:
  assumes "stays_above i n ops (g, bss)" and "n \<le> length (bss ! i)" and "i < length bss"
  shows "n \<le> length (snd (sys_spec ops (g, bss)) ! i)
    \<and> map fst (oldest n (snd (sys_spec ops (g, bss)) ! i)) = map fst (oldest n (bss ! i))
    \<and> ((\<forall>op. (i, op) \<in> set ops \<longrightarrow> \<not> is_assign op) \<longrightarrow> oldest n (snd (sys_spec ops (g, bss)) ! i) = oldest n (bss ! i))"
  using assms
proof (induction ops arbitrary: g bss)
  case (Cons jop ops)
  obtain j op where jop: "jop = (j, op)" by fastforce
  obtain g' bs' where sp: "spec_step op g (bss ! j) = (g', bs')" by fastforce
  have st: "stays_above i n ops (g', bss[j := bs'])" using Cons.prems(1) jop sp by simp
  have eq: "sys_spec (jop # ops) (g, bss) = sys_spec ops (g', bss[j := bs'])" using jop sp by simp
  show ?case
  proof (cases "j = i")
    case True
    then have "stays n (bss ! i) op" using Cons.prems(1) jop by simp
    note s = spec_step_oldest [OF sp [unfolded True] this Cons.prems(2)]
    from Cons.IH [OF st] s Cons.prems(3) True jop show ?thesis unfolding eq by auto
  next
    case False
    with Cons.IH [OF st] Cons.prems(2,3) jop show ?thesis unfolding eq by auto
  qed
qed simp

lemma catch_restores:
  assumes "sys_ok c es bss" and "i < length es" and "stk_ok (frs (es ! i))" and "frames_ok (es ! i)"
    and "0 < stk_top (temp_stack (es ! i))"
    and "mkcl_frs_push (Tag tag) (es ! i) = Some (Inr f, e1)"
    and "sys_valid c ops (global_value c, bss)" and "top_special_index c + length ops \<le> MKCL_NOT_A_SPECIAL_INDEX"
    and "stays_above i (length (bss ! i)) ops (global_value c, bss)"
  shows "\<exists>c' es' e' bs'. sys_run ops (c, es[i := e1]) = Some (c', es') \<and> mkcl_throw tag c' (es' ! i) = (Inr f, e')
    \<and> stk_top (frs e') = f \<and> bindings c' e' bs' \<and> map fst bs' = map fst (bss ! i)
    \<and> ((\<forall>op. (i, op) \<in> set ops \<longrightarrow> \<not> is_assign op) \<longrightarrow> bs' = bss ! i)"
proof -
  let ?e = "es ! i" and ?n = "length (bss ! i)"
  let ?x = "\<lparr>frs_val = Tag tag, frs_bds_top_index = stk_top (bds ?e), frs_ihs = ihs_top ?e,
     frs_sp = stk_top (temp_stack ?e), frs_intr = disable_interrupts ?e\<rparr>"
  obtain fs where fs: "e1 = ?e\<lparr>frs := fs\<rparr>" "f = Suc (stk_top (frs ?e))" "pushed ?x (frs ?e) fs"
    using frs_push_ok [OF assms(3), of "Tag tag"] assms(6) by auto
  have len: "length es = length bss" using assms(1) by (auto simp: sys_ok_def dest: list_all2_lengthD)
  have b: "bindings c ?e (bss ! i)" using assms(1,2) by (auto simp: sys_ok_def list_all2_conv_all_nth)
  have n: "stk_top (bds ?e) = ?n" using bindings_top [OF b] .
  have f1: "frames_ok e1"
    unfolding fs(1) using frames_ok_push [OF assms(4) fs(3)] assms(5) by (simp add: frame_fits_def)
  have ok1: "sys_ok c (es[i := e1]) bss"
    using sys_step_ok [OF assms(1,2), of c e1 "bss ! i"] b fs(1) by (simp add: bindings_def)
  obtain c' es' where r: "sys_run ops (c, es[i := e1]) = Some (c', es')"
      "sys_ok c' es' (snd (sys_spec ops (global_value c, bss)))"
    using sys_run_refines [OF ok1 assms(7,8)] by blast
  let ?bs2 = "snd (sys_spec ops (global_value c, bss)) ! i"
  have old: "?n \<le> length ?bs2" "map fst (oldest ?n ?bs2) = map fst (bss ! i)"
    "(\<forall>op. (i, op) \<in> set ops \<longrightarrow> \<not> is_assign op) \<longrightarrow> oldest ?n ?bs2 = bss ! i"
    using sys_spec_oldest [OF assms(9)] assms(2) len by (auto simp: oldest_def)
  have len2: "length es' = length bss"
    using r(2) spec_other_threads [of ops "global_value c" bss] by (auto simp: sys_ok_def dest: list_all2_lengthD)
  have b2: "bindings c' (es' ! i) ?bs2"
    using r(2) assms(2) len len2 by (auto simp: sys_ok_def list_all2_conv_all_nth)
  have same: "frs (es' ! i) = fs" "temp_stack (es' ! i) = temp_stack ?e"
    using sys_run_frame [OF r(1), of i] assms(2) fs(1) by simp_all
  have top: "stk_top fs = f" using fs(2,3) by (simp add: pushed_def)
  have f2: "frames_ok (es' ! i)"
    by (rule frames_ok_cong [OF f1])
      (use same fs(1) bindings_top [OF b2] old(1) n in \<open>auto simp: frame_fits_def\<close>)
  have at: "slot_at fs f = Some ?x" using pushed_slot_at(1) [OF fs(3)] top by simp
  have sch: "mkcl_frs_sch (es' ! i) (Tag tag) = Some f"
    using at top fs(2) same(1) by (simp add: mkcl_frs_sch_def frame_val_def)
  have target: "unwind_target fs f f = f" using fs(2) by simp
  obtain e' fr where e': "mkcl_unwind (Some f) c' (es' ! i) = (Inr f, e')" "slot_at fs f = Some fr"
      "bindings c' e' (oldest (frs_bds_top_index fr) ?bs2)" "frs e' = fs\<lparr>stk_top := f\<rparr>"
    using unwind_ok [OF b2 f2, of f] same(1) top target by (auto simp: oldest_def)
  have "frs_bds_top_index fr = ?n" using e'(2) at n by auto
  with e' r(1) sch old(2,3) show ?thesis by (auto simp: mkcl_throw_def)
qed

section \<open>Limits\<close>

text \<open>
  A binding that finds the binding stack at its limit signals the overflow with the top already
  raised over a slot that was never filled; undoing bindings from there reads that slot.
\<close>

lemma slot_at_fresh: "slot_at s i = None \<Longrightarrow> slots s' = slots s @ replicate k None \<Longrightarrow> slot_at s' i = None"
  by (auto simp: slot_at_def nth_append split: if_splits)

lemma resize_stack_fresh:
  assumes "length (slots s) \<le> resized strict n s"
  shows "\<exists>b k. resize_stack strict n s = Some b \<and> stk_top b = stk_top s \<and> slots b = slots s @ replicate k None
    \<and> stk_limit b = stk_limit s"
  using assms by (auto simp: resize_stack_def Let_def)

lemma bind_at_limit:
  assumes "\<not> overflowing (bds e)" and "at_limit (bds e)" and "stk_upper (bds e) \<le> Suc (stk_top (bds e))"
    and "slot_at (bds e) (Suc (stk_top (bds e))) = None"
  shows "\<exists>e'. bds_push_slot s v i c e = (Inl (StackOverflow (stk_limit (bds e))), c, e')
    \<and> stk_top (bds e') = Suc (stk_top (bds e)) \<and> mkcl_bds_unwind1 c e' = None"
proof -
  let ?b1 = "(bds e)\<lparr>stk_top := stk_top (bds e) + 1\<rparr>"
  have l: "at_limit ?b1" "\<not> overflowing ?b1" using assms(1,2) by (simp_all add: at_limit_def)
  obtain b2 where b2: "limit_resize resize_bds_stack ?b1 = Some b2" "stk_top b2 = Suc (stk_top (bds e))"
      "slot_at b2 (Suc (stk_top (bds e))) = None" "stk_limit b2 = stk_limit (bds e)"
  proof (cases "length (slots (bds e)) < stk_limit (bds e) + stk_overflow (bds e)")
    case True
    then have "length (slots ?b1) \<le> resized True (stk_limit (bds e) + stk_overflow (bds e)) ?b1"
      by (auto simp: resized_def)
    from resize_stack_fresh [OF this] obtain b2 k where b2: "resize_bds_stack (stk_limit (bds e) + stk_overflow (bds e)) ?b1 = Some b2"
        "stk_top b2 = Suc (stk_top (bds e))" "slots b2 = slots (bds e) @ replicate k None" "stk_limit b2 = stk_limit (bds e)"
      by (auto simp: resize_bds_stack_def)
    with True slot_at_fresh [OF assms(4) b2(3)] that show ?thesis by (simp add: limit_resize_def)
  next
    case False
    then show ?thesis using that [of ?b1] slot_at_fresh [OF assms(4), of ?b1 0] by (simp add: limit_resize_def)
  qed
  let ?e' = "e\<lparr>bds := open_overflow_area b2\<rparr>"
  have "mkcl_grow_bds_stack ?b1 = (Inl (StackOverflow (stk_limit (bds e))), open_overflow_area b2)"
    using l b2(1) by (simp add: mkcl_grow_bds_stack_def grow_stack_def)
  then have "bds_push_slot s v i c e = (Inl (StackOverflow (stk_limit (bds e))), c, ?e')"
    using assms(3) by (simp add: bds_push_slot_def Let_def)
  moreover have "mkcl_bds_unwind1 c ?e' = None"
    using b2(2,3) by (simp add: mkcl_bds_unwind1_def open_overflow_area_def slot_at_def split: if_splits)
  ultimately show ?thesis using b2(2) by (auto simp: open_overflow_area_def)
qed

text \<open>
  Raising the limit of the binding stack above its allocated size moves the upper bound past the
  end of the array, and a binding there is written outside.
\<close>

lemma bind_past_raised_limit:
  assumes "length (slots (bds e)) < l" and "Suc (stk_top (bds e)) = length (slots (bds e))"
    and "e' = e\<lparr>bds := snd (set_stack_limit l (bds e))\<rparr>"
  shows "fst (bds_push_slot s v i c e') = Inl WildAccess"
  using assms by (simp add: bds_push_slot_def set_stack_limit_def Let_def write_slot_def)

end
