(* ===== verification/Interleaving.thy ===== *)
theory Interleaving
  imports Stack_Props
begin

text \<open>
  Threads interleaved at the accesses of \<open>mkcl_bds_bind\<close> to the shared symbol. Binding reads the
  index of the symbol, takes a new one and stores it when there was none, and then works on the
  stacks of its own thread; nothing keeps another thread from running in between. When the
  variable has its index already, the accesses of a binding amount to \<open>mkcl_bds_bind\<close> run as a
  whole where the value is pushed (\<open>interleaved_commits\<close>); when it has none, two threads can each
  take an index (\<open>first_binding_race\<close>, in the root theory).
\<close>

section \<open>Accesses\<close>

text \<open>
  \<open>Whole op\<close> is an operation that reads the index of its symbol at most once and writes to one
  place: an assignment, an undoing of bindings, or a first binding that no other thread disturbs.
  The index that a thread has read is a local variable of \<open>mkcl_bds_bind\<close>.
\<close>

datatype access = ReadIndex obj | TakeIndex obj | PushBinding obj obj | Whole dyn_op

definition read_index :: "obj \<Rightarrow> core \<Rightarrow> nat option option" where
  "read_index s c = map_option special_index (sym_cell c s)"

definition take_index :: "obj \<Rightarrow> nat option \<Rightarrow> core \<Rightarrow> (nat \<times> core) option" where
  "take_index s index c =
     (case index of
        Some i \<Rightarrow> Some (i, c)
      | None \<Rightarrow> Option.bind (sym_cell c s) (\<lambda>y.
          map_option (\<lambda>(i, c1). (i, set_sym_cell s (y\<lparr>special_index := Some i\<rparr>) c1)) (mkcl_alloc_new_special_index c)))"

definition push_binding :: "obj \<Rightarrow> obj \<Rightarrow> nat \<Rightarrow> core \<Rightarrow> env \<Rightarrow> unit run" where
  "push_binding s v i c e = bds_push_slot s v i c (if i < length (specials e) then e else mkcl_grow_specials (i + 1) e)"

type_synonym locals = "nat \<Rightarrow> nat option"

fun access_step :: "access \<Rightarrow> nat option \<Rightarrow> core \<Rightarrow> env \<Rightarrow> (nat option \<times> core \<times> env) option" where
  "access_step (ReadIndex s) index c e = map_option (\<lambda>index. (index, c, e)) (read_index s c)"
| "access_step (TakeIndex s) index c e = map_option (\<lambda>(i, c'). (Some i, c', e)) (take_index s index c)"
| "access_step (PushBinding s v) index c e =
     (case index of
        None \<Rightarrow> None
      | Some i \<Rightarrow> (case push_binding s v i c e of (Inr u, c', e') \<Rightarrow> Some (index, c', e') | _ \<Rightarrow> None))"
| "access_step (Whole op) index c e = map_option (\<lambda>(c', e'). (index, c', e')) (dyn_step op c e)"

fun interleaved :: "(nat \<times> access) list \<Rightarrow> locals \<times> core \<times> env list \<Rightarrow> (locals \<times> core \<times> env list) option" where
  "interleaved [] (l, c, es) = Some (l, c, es)"
| "interleaved ((j, a) # as) (l, c, es) =
     (case access_step a (l j) c (es ! j) of
        None \<Rightarrow> None
      | Some (index, c', e') \<Rightarrow> interleaved as (l(j := index), c', es[j := e']))"

text \<open>The accesses of a binding, when nothing comes in between, are \<open>mkcl_bds_bind\<close>.\<close>

definition bind_accesses :: "nat \<Rightarrow> obj \<Rightarrow> obj \<Rightarrow> (nat \<times> access) list" where
  "bind_accesses j s v = [(j, ReadIndex s), (j, TakeIndex s), (j, PushBinding s v)]"

lemma bind_undisturbed:
  assumes "s \<noteq> Cnil" and "j < length es"
  shows "map_option snd (interleaved (bind_accesses j s v) (l, c, es)) = sys_run [(j, Bind s v)] (c, es)"
  using assms
  by (auto simp: bind_accesses_def read_index_def take_index_def push_binding_def mkcl_bds_bind_def special_index_of_def
      split: option.splits prod.splits sum.splits)

section \<open>What an interleaving amounts to\<close>

text \<open>
  Each thread runs its accesses in the order of its program. \<open>at j\<close> is the variable that thread
  \<open>j\<close> is binding, and whether it has gone past taking an index.
\<close>

fun in_order :: "(nat \<Rightarrow> (obj \<times> bool) option) \<Rightarrow> (nat \<times> access) list \<Rightarrow> bool" where
  "in_order at [] = True"
| "in_order at ((j, ReadIndex s) # as) = (at j = None \<and> in_order (at(j \<mapsto> (s, False))) as)"
| "in_order at ((j, TakeIndex s) # as) = (at j = Some (s, False) \<and> in_order (at(j \<mapsto> (s, True))) as)"
| "in_order at ((j, PushBinding s v) # as) = (at j = Some (s, True) \<and> in_order (at(j := None)) as)"
| "in_order at ((j, Whole op) # as) = (at j = None \<and> in_order at as)"

fun binding_of :: "access \<Rightarrow> obj option" where
  "binding_of (ReadIndex s) = Some s"
| "binding_of (TakeIndex s) = Some s"
| "binding_of (PushBinding s v) = Some s"
| "binding_of (Whole op) = None"

text \<open>The variables that are bound by accesses have their index.\<close>

definition indexed :: "core \<Rightarrow> (nat \<times> access) list \<Rightarrow> bool" where
  "indexed c as \<longleftrightarrow> (\<forall>(j, a) \<in> set as. \<forall>s. binding_of a = Some s \<longrightarrow> sym_index c s \<noteq> None)"

text \<open>A binding takes place where its value is pushed.\<close>

fun committed :: "(nat \<times> access) list \<Rightarrow> (nat \<times> dyn_op) list" where
  "committed [] = []"
| "committed ((j, PushBinding s v) # as) = (j, Bind s v) # committed as"
| "committed ((j, Whole op) # as) = (j, op) # committed as"
| "committed ((j, _) # as) = committed as"

definition locals_ok :: "(nat \<Rightarrow> (obj \<times> bool) option) \<Rightarrow> locals \<Rightarrow> core \<Rightarrow> bool" where
  "locals_ok at l c \<longleftrightarrow> (\<forall>j s b. at j = Some (s, b) \<longrightarrow> (\<exists>i. l j = Some i \<and> sym_index c s = Some i))"

text \<open>An index, once given, stays.\<close>

lemma alloc_sym_cell: "mkcl_alloc_new_special_index c = Some (i, c1) \<Longrightarrow> sym_cell c1 = sym_cell c"
  by (auto simp: mkcl_alloc_new_special_index_def sym_cell_def fun_eq_iff split: if_splits)

lemma push_slot_core: "bds_push_slot s v i c e = (r, c', e') \<Longrightarrow> c' = c"
  by (auto simp: bds_push_slot_def Let_def split: prod.splits sum.splits option.splits)

lemma bind_index_mono:
  assumes "mkcl_bds_bind s v c e = (r, c', e')" and "sym_index c t = Some i"
  shows "sym_index c' t = Some i"
proof (cases "sym_cell c s")
  case None
  then show ?thesis using assms by (simp add: mkcl_bds_bind_def split: if_splits)
next
  case (Some y)
  show ?thesis
  proof (cases "special_index y")
    case (Some k)
    then show ?thesis
      using assms \<open>sym_cell c s = Some y\<close>
      by (auto simp: mkcl_bds_bind_def special_index_of_def dest!: push_slot_core split: if_splits)
  next
    case None
    then have t: "t \<noteq> s" using assms(2) \<open>sym_cell c s = Some y\<close> by (auto simp: sym_index_def)
    have "c' = c \<or> (\<exists>k c1. mkcl_alloc_new_special_index c = Some (k, c1) \<and> c' = set_sym_cell s (y\<lparr>special_index := Some k\<rparr>) c1)"
      using assms(1) None Some
      by (auto simp: mkcl_bds_bind_def special_index_of_def dest!: push_slot_core split: if_splits option.splits prod.splits)
    then show ?thesis
      using assms(2) t Some alloc_sym_cell sym_cell_set [of _ s y] by (auto simp: sym_index_def)
  qed
qed

lemma set_index_mono:
  assumes "mkcl_set_symbol_value s v c e = (r, c', e')" and "sym_index c t = Some i"
  shows "sym_index c' t = Some i"
proof (cases "sym_cell c s")
  case (Some y)
  have "sym_index (set_sym_cell s (y\<lparr>sym_value := v\<rparr>) c) t = Some i"
    using assms(2) Some sym_cell_set [OF Some] by (auto simp: sym_index_def)
  then show ?thesis
    using assms Some by (auto simp: mkcl_set_symbol_value_def split: if_splits option.splits)
qed (use assms in \<open>simp add: mkcl_set_symbol_value_def\<close>)

lemma dyn_step_index_mono:
  assumes "dyn_step op c e = Some (c', e')" and "sym_index c t = Some i"
  shows "sym_index c' t = Some i"
  using assms bind_index_mono [OF _ assms(2)] set_index_mono [OF _ assms(2)]
  by (cases op) (auto simp: mk_cl_set_def split: prod.splits sum.splits)

lemma locals_ok_mono:
  assumes "locals_ok at l c" and "\<And>t i. sym_index c t = Some i \<Longrightarrow> sym_index c' t = Some i"
  shows "locals_ok at l c'"
  using assms unfolding locals_ok_def by blast

lemma indexed_mono:
  assumes "indexed c as" and "\<And>t i. sym_index c t = Some i \<Longrightarrow> sym_index c' t = Some i"
  shows "indexed c' as"
  using assms unfolding indexed_def by (fastforce split: prod.splits)

lemma locals_ok_set:
  assumes "locals_ok at l c" and "sym_index c s = Some i"
  shows "locals_ok (at(j \<mapsto> (s, b))) (l(j := Some i)) c"
  unfolding locals_ok_def
proof (intro allI impI)
  fix k t d
  assume "(at(j \<mapsto> (s, b))) k = Some (t, d)"
  then show "\<exists>n. (l(j := Some i)) k = Some n \<and> sym_index c t = Some n"
    using assms by (cases "k = j") (auto simp: locals_ok_def)
qed

lemma locals_ok_unset: "locals_ok at l c \<Longrightarrow> locals_ok (at(j := None)) (l(j := i)) c"
  by (simp add: locals_ok_def)

text \<open>With its index, pushing a binding is \<open>mkcl_bds_bind\<close>.\<close>

lemma push_binding_bind:
  assumes "sym_index c s = Some i"
  shows "push_binding s v i c e = mkcl_bds_bind s v c e"
proof -
  obtain y where "sym_cell c s = Some y" "special_index y = Some i"
    using assms by (auto simp: sym_index_def bind_eq_Some_conv)
  then show ?thesis
    using sym_cell_not_nil by (auto simp: push_binding_def mkcl_bds_bind_def special_index_of_def)
qed

lemma interleaved_commits:
  assumes "in_order at as" and "indexed c as" and "locals_ok at l c"
  shows "map_option snd (interleaved as (l, c, es)) = sys_run (committed as) (c, es)"
  using assms
proof (induction as arbitrary: at l c es)
  case Nil
  then show ?case by simp
next
  case (Cons ja as)
  obtain j a where ja: "ja = (j, a)" by fastforce
  have ix: "indexed c as" using Cons.prems(2) by (simp add: indexed_def)
  have here: "\<exists>i. sym_index c s = Some i" if "binding_of a = Some s" for s
    using Cons.prems(2) that ja by (auto simp: indexed_def)
  show ?case
  proof (cases a)
    case (ReadIndex s)
    then obtain i where i: "sym_index c s = Some i" using here by auto
    then have r: "read_index s c = Some (Some i)" by (auto simp: read_index_def sym_index_def bind_eq_Some_conv)
    from Cons.IH [OF _ ix locals_ok_set [OF Cons.prems(3) i, of j False]] show ?thesis using Cons.prems(1) ja ReadIndex r by (simp add: fun_upd_def)
  next
    case (TakeIndex s)
    then have at: "at j = Some (s, False)" using Cons.prems(1) ja by simp
    then obtain i where i: "l j = Some i" "sym_index c s = Some i"
      using Cons.prems(3) unfolding locals_ok_def by fastforce
    from Cons.IH [OF _ ix locals_ok_set [OF Cons.prems(3) i(2), of j True]] show ?thesis using Cons.prems(1) ja TakeIndex i(1) by (simp add: take_index_def fun_upd_def)
  next
    case (PushBinding s v)
    then have at: "at j = Some (s, True)" and ord: "in_order (at(j := None)) as" using Cons.prems(1) ja by simp_all
    then obtain i where i: "l j = Some i" "sym_index c s = Some i"
      using Cons.prems(3) unfolding locals_ok_def by fastforce
    obtain r c' e' where r: "mkcl_bds_bind s v c (es ! j) = (r, c', e')" by (metis prod.exhaust)
    have "locals_ok (at(j := None)) (l(j := Some i)) c'" "indexed c' as"
      using locals_ok_mono [OF locals_ok_unset [OF Cons.prems(3)]] indexed_mono [OF ix] bind_index_mono [OF r] by blast+
    from Cons.IH [OF ord this(2,1)] show ?thesis
      using ja PushBinding i(1) push_binding_bind [OF i(2)] r by (cases r) (simp_all add: fun_upd_def)
  next
    case (Whole op)
    show ?thesis
    proof (cases "dyn_step op c (es ! j)")
      case None
      then show ?thesis using ja Whole by simp
    next
      case (Some ce)
      obtain c' e' where ce: "ce = (c', e')" by fastforce
      have ord: "in_order at as" using Cons.prems(1) ja Whole by simp
      have mono: "sym_index c t = Some i \<Longrightarrow> sym_index c' t = Some i" for t i
        using dyn_step_index_mono Some ce by blast
      have "l(j := l j) = l" by simp
      then show ?thesis
        using Cons.IH [OF ord indexed_mono [OF ix mono] locals_ok_mono [OF Cons.prems(3) mono]] ja Whole Some ce by simp
    qed
  qed
qed

lemma interleaved_run:
  assumes "in_order (\<lambda>j. None) as" and "indexed c as" and "sys_run (committed as) (c, es) = Some (c', es')"
  shows "\<exists>l'. interleaved as (l, c, es) = Some (l', c', es')"
proof -
  have "locals_ok (\<lambda>j. None) l c" by (simp add: locals_ok_def)
  from interleaved_commits [OF assms(1,2) this, of es] assms(3) show ?thesis by auto
qed

end
