(* ===== verification/Plists.thy ===== *)
theory Plists
  imports Alists Packages Stacks
begin

text \<open>
  Property lists and the other operations on symbols of \<^verbatim>\<open>src/src/c/symbol.c\<close>, and the
  system properties of \<^verbatim>\<open>src/src/c/assignment.c\<close>. A property list is a list of conses with
  indicators and values in turn. Symbols are cells of the heap of \<open>core\<close>; \<open>NIL\<close> stands for
  its own symbol. Errors are values: the restarts that ask for another symbol are not taken.

  The printed names of \<open>gensym\<close> and \<open>gentemp\<close> come from the printer, which is not modelled.
\<close>

section \<open>Searching a property list\<close>

text \<open>
  The loop of \<open>mkcl_getf\<close>, \<open>mk_si_put_f\<close> and \<open>mk_cl_get_properties\<close>, which differ in the test
  and in what they do with the place found: the cons of the indicator, or \<open>NIL\<close> at the end.
  The slow pointer goes half as fast and meets the other one on a circular list.
\<close>

partial_function (option) plist_search ::
  "heap \<Rightarrow> (obj \<Rightarrow> bool query) \<Rightarrow> obj \<Rightarrow> nat \<Rightarrow> obj \<Rightarrow> obj \<Rightarrow> obj query" where
  "plist_search h test place n l slow =
     (if MKCL_CONSP h l then
        (let cdr_l = MKCL_CONS_CDR h l
         in if \<not> MKCL_CONSP h cdr_l then Some (Inl (TypeErrorPlist place))
            else Option.bind (test (MKCL_CONS_CAR h l)) (\<lambda>r. case r of
                Inl err \<Rightarrow> Some (Inl err)
              | Inr found \<Rightarrow>
                  if found then Some (Inr l)
                  else if slow = l \<and> n \<noteq> 0 then Some (Inl (CircularList place))
                  else plist_search h test place (n + 1) (MKCL_CONS_CDR h cdr_l)
                         (if odd n then MKCL_CONS_CDR h (MKCL_CONS_CDR h slow) else slow)))
      else if l \<noteq> Cnil then Some (Inl (TypeErrorPlist place))
      else Some (Inr Cnil))"

definition find_indicator :: "heap \<Rightarrow> obj \<Rightarrow> obj \<Rightarrow> obj query" where
  "find_indicator h place indicator = plist_search h (\<lambda>x. Some (Inr (x = indicator))) place 0 place place"

definition mkcl_getf :: "heap \<Rightarrow> obj \<Rightarrow> obj \<Rightarrow> obj \<Rightarrow> obj query" where
  "mkcl_getf h place indicator deflt =
     map_option (map_sum id (\<lambda>l. if l = Cnil then deflt else MKCL_CONS_CAR h (MKCL_CONS_CDR h l)))
       (find_indicator h place indicator)"

definition mk_si_put_f :: "heap \<Rightarrow> obj \<Rightarrow> obj \<Rightarrow> obj \<Rightarrow> obj action" where
  "mk_si_put_f h place value indicator =
     map_option (\<lambda>r. case r of
         Inl err \<Rightarrow> (Inl err, h)
       | Inr l \<Rightarrow>
           if l \<noteq> Cnil then (Inr place, MKCL_RPLACA h (MKCL_CONS_CDR h l) value)
           else let (place1, h1) = mkcl_cons h value place;
                    (place2, h2) = mkcl_cons h1 indicator place1
                in (Inr place2, h2))
       (find_indicator h place indicator)"

text \<open>The indicator, its value and the tail it starts, or three times \<open>NIL\<close>.\<close>

definition mk_cl_get_properties :: "heap \<Rightarrow> obj \<Rightarrow> obj \<Rightarrow> (obj \<times> obj \<times> obj) query" where
  "mk_cl_get_properties h place indicator_list =
     map_option (map_sum id (\<lambda>l.
         if l = Cnil then (Cnil, Cnil, Cnil)
         else (MKCL_CONS_CAR h l, MKCL_CONS_CAR h (MKCL_CONS_CDR h l), l)))
       (plist_search h (\<lambda>x. mkcl_member_eq h x indicator_list) place 0 place place)"

section \<open>Removing a property\<close>

text \<open>Whether the property was there, and the new place.\<close>

partial_function (option) remf_loop ::
  "heap \<Rightarrow> obj \<Rightarrow> obj \<Rightarrow> nat \<Rightarrow> obj \<Rightarrow> obj \<Rightarrow> obj \<Rightarrow> (bool \<times> obj) action" where
  "remf_loop h place indicator n l tail slow =
     (if l = Cnil then Some (Inr (False, place), h)
      else if \<not> MKCL_LISTP h l then Some (Inl (TypeErrorPlist place), h)
      else if slow = l \<and> n \<noteq> 0 then Some (Inl (CircularList place), h)
      else let ind = MKCL_CONS_CAR h l; l1 = MKCL_CONS_CDR h l
           in if \<not> MKCL_CONSP h l1 then Some (Inl (TypeErrorPlist place), h)
              else if ind = indicator then
                (let l2 = MKCL_CONS_CDR h l1
                 in if tail = Cnil then Some (Inr (True, l2), h)
                    else Some (Inr (True, place), MKCL_RPLACD h tail l2))
              else remf_loop h place indicator (n + 1) (MKCL_CONS_CDR h l1) l1
                     (if odd n then MKCL_CONS_CDR h (MKCL_CONS_CDR h slow) else slow))"

definition remf :: "heap \<Rightarrow> obj \<Rightarrow> obj \<Rightarrow> (bool \<times> obj) action" where
  "remf h place indicator = remf_loop h place indicator 0 place Cnil place"

definition mk_si_rem_f :: "heap \<Rightarrow> obj \<Rightarrow> obj \<Rightarrow> (obj \<times> bool) action" where
  "mk_si_rem_f h place indicator =
     map_option (\<lambda>(r, h'). (map_sum id (\<lambda>(found, place'). (place', found)) r, h')) (remf h place indicator)"

section \<open>Symbols\<close>

type_synonym 'a symbol_run = "((lisp_error + 'a) \<times> core) option"

definition set_symbol_cell :: "obj \<Rightarrow> symbol \<Rightarrow> core \<Rightarrow> core" where
  "set_symbol_cell s y c = (if s = Cnil then c\<lparr>cnil_symbol := y\<rparr> else set_sym_cell s y c)"

definition with_symbol :: "core \<Rightarrow> obj \<Rightarrow> (symbol \<Rightarrow> 'a symbol_run) \<Rightarrow> 'a symbol_run" where
  "with_symbol c s k =
     (case symbol_cell_of c s of None \<Rightarrow> Some (Inl (NotASymbolObject s), c) | Some y \<Rightarrow> k y)"

definition mkcl_symbol_package :: "core \<Rightarrow> obj \<Rightarrow> nat option symbol_run" where
  "mkcl_symbol_package c s = with_symbol c s (\<lambda>y. Some (Inr (hpack y), c))"

definition mkcl_symbol_type :: "core \<Rightarrow> obj \<Rightarrow> nat symbol_run" where
  "mkcl_symbol_type c s = with_symbol c s (\<lambda>y. Some (Inr (stype y), c))"

definition mkcl_symbol_type_set :: "core \<Rightarrow> obj \<Rightarrow> nat \<Rightarrow> unit symbol_run" where
  "mkcl_symbol_type_set c s t = with_symbol c s (\<lambda>y. Some (Inr (), set_symbol_cell s (y\<lparr>stype := t\<rparr>) c))"

definition mkcl_symbol_name :: "core \<Rightarrow> obj \<Rightarrow> lstring symbol_run" where
  "mkcl_symbol_name c s = with_symbol c s (\<lambda>y. Some (Inr (sym_name y), c))"

text \<open>An operation on a property list held by a symbol: the new list goes back into the symbol.\<close>

definition update_plist ::
  "core \<Rightarrow> obj \<Rightarrow> (symbol \<Rightarrow> obj) \<Rightarrow> (obj \<Rightarrow> symbol \<Rightarrow> symbol) \<Rightarrow> (heap \<Rightarrow> obj \<Rightarrow> (obj \<times> 'a) action) \<Rightarrow> 'a symbol_run" where
  "update_plist c s field set_field f =
     with_symbol c s (\<lambda>y.
       map_option (\<lambda>(r, h). case r of
           Inl err \<Rightarrow> (Inl err, c\<lparr>sym_heap := h\<rparr>)
         | Inr (l, v) \<Rightarrow> (Inr v, set_symbol_cell s (set_field l y) (c\<lparr>sym_heap := h\<rparr>)))
         (f (sym_heap c) (field y)))"

definition set_plist :: "obj \<Rightarrow> symbol \<Rightarrow> symbol" where
  "set_plist l y = y\<lparr>plist := l\<rparr>"

definition set_sys_plist :: "obj \<Rightarrow> symbol \<Rightarrow> symbol" where
  "set_sys_plist l y = y\<lparr>sys_plist := l\<rparr>"

definition mk_cl_get :: "core \<Rightarrow> obj \<Rightarrow> obj \<Rightarrow> obj \<Rightarrow> obj symbol_run" where
  "mk_cl_get c s indicator deflt =
     with_symbol c s (\<lambda>y. map_option (\<lambda>r. (r, c)) (mkcl_getf (sym_heap c) (plist y) indicator deflt))"

definition mk_si_putprop :: "core \<Rightarrow> obj \<Rightarrow> obj \<Rightarrow> obj \<Rightarrow> obj symbol_run" where
  "mk_si_putprop c s value indicator =
     update_plist c s plist set_plist (\<lambda>h l.
       map_option (\<lambda>(r, h'). (map_sum id (\<lambda>l'. (l', value)) r, h')) (mk_si_put_f h l value indicator))"

definition mk_cl_remprop :: "core \<Rightarrow> obj \<Rightarrow> obj \<Rightarrow> bool symbol_run" where
  "mk_cl_remprop c s prop = update_plist c s plist set_plist (\<lambda>h l. mk_si_rem_f h l prop)"

definition mk_cl_symbol_plist :: "core \<Rightarrow> obj \<Rightarrow> obj symbol_run" where
  "mk_cl_symbol_plist c s = with_symbol c s (\<lambda>y. Some (Inr (plist y), c))"

definition mk_si_set_symbol_plist :: "core \<Rightarrow> obj \<Rightarrow> obj \<Rightarrow> obj symbol_run" where
  "mk_si_set_symbol_plist c s l = with_symbol c s (\<lambda>y. Some (Inr l, set_symbol_cell s (y\<lparr>plist := l\<rparr>) c))"

text \<open>Properties and values in turn; a last property without a value is ignored.\<close>

fun mk_si_put_properties :: "core \<Rightarrow> obj \<Rightarrow> obj list \<Rightarrow> obj symbol_run" where
  "mk_si_put_properties c s (prop # value # rest) =
     Option.bind (mk_si_putprop c s value prop) (\<lambda>(r, c1). case r of
         Inl err \<Rightarrow> Some (Inl err, c1)
       | Inr v \<Rightarrow> mk_si_put_properties c1 s rest)"
| "mk_si_put_properties c s _ = Some (Inr s, c)"

definition mkcl_keywordp :: "core \<Rightarrow> nat \<Rightarrow> obj \<Rightarrow> bool" where
  "mkcl_keywordp c keywords s \<longleftrightarrow> (\<exists>y. sym_cell c s = Some y \<and> hpack y = Some keywords)"

text \<open>
  \<open>mkcl_stp_special\<close> is 2 and \<open>mkcl_stp_constant\<close> is 1; \<open>symbol_macro\<close> is the symbol
  \<open>si::symbol-macro\<close>.
\<close>

definition mk_si_Xmake_special :: "obj \<Rightarrow> core \<Rightarrow> obj \<Rightarrow> obj symbol_run" where
  "mk_si_Xmake_special symbol_macro c s =
     with_symbol c s (\<lambda>y.
       if is_constant y then Some (Inl (ConstantSymbol s), c)
       else Option.bind (mk_cl_remprop (set_symbol_cell s (y\<lparr>stype := stype y OR 2\<rparr>) c) s symbol_macro)
         (\<lambda>(r, c1). case r of Inl err \<Rightarrow> Some (Inl err, c1) | Inr b \<Rightarrow> Some (Inr s, c1)))"

definition mk_si_Xmake_constant :: "core \<Rightarrow> obj \<Rightarrow> obj \<Rightarrow> obj symbol_run" where
  "mk_si_Xmake_constant c s val =
     with_symbol c s (\<lambda>y.
       if bit (stype y) 1 then Some (Inl (SpecialSymbol s), c)
       else Some (Inr s, set_symbol_cell s (y\<lparr>stype := stype y OR 1, sym_value := val\<rparr>) c))"

definition mk_cl_copy_symbol :: "core \<Rightarrow> obj \<Rightarrow> bool \<Rightarrow> obj symbol_run" where
  "mk_cl_copy_symbol c s copy_properties =
     with_symbol c s (\<lambda>y.
       let x = new_symbol (sym_name y)
       in if \<not> copy_properties then
            (let (r, h) = alloc (sym_heap c) (SymC x) in Some (Inr r, c\<lparr>sym_heap := h\<rparr>))
          else
            (let (r, h) = alloc (sym_heap c) (SymC (x\<lparr>stype := stype y, sym_value := sym_value y, gfdef := gfdef y\<rparr>))
             in Option.bind (mk_cl_copy_list h (plist y)) (\<lambda>(l, h1). case l of
                  Inl err \<Rightarrow> Some (Inl err, c\<lparr>sym_heap := h1\<rparr>)
                | Inr l1 \<Rightarrow> Some (Inr r, c\<lparr>sym_heap := store h1 r
                    (SymC (x\<lparr>stype := stype y, sym_value := sym_value y, gfdef := gfdef y, plist := l1\<rparr>))\<rparr>))))"

section \<open>System properties\<close>

text \<open>
  The system properties of a symbol are a property list of the symbol; those of any other name,
  such as \<open>(setf f)\<close>, are in a hash table. The value, if there is one:
\<close>

type_synonym properties = "(obj, obj) hashtable"
type_synonym 'a sysprop_run = "((lisp_error + 'a) \<times> core \<times> properties) option"

definition sysprop_value :: "obj query \<Rightarrow> obj option query" where
  "sysprop_value q = map_option (map_sum id (\<lambda>v. if v = ObjNull then None else Some v)) q"

definition mk_si_get_sysprop :: "core \<Rightarrow> properties \<Rightarrow> obj \<Rightarrow> obj \<Rightarrow> obj option query" where
  "mk_si_get_sysprop c t s prop =
     (case symbol_cell_of c s of
        Some y \<Rightarrow> sysprop_value (mkcl_getf (sym_heap c) (sys_plist y) prop ObjNull)
      | None \<Rightarrow> Option.bind (mkcl_gethash_safe s t Cnil) (\<lambda>l. sysprop_value (mkcl_getf (sym_heap c) l prop ObjNull)))"

text \<open>
  For a symbol \<open>mk_si_put_sysprop\<close> and \<open>mk_si_rem_sysprop\<close> read the list, then take the lock,
  then update the list they read and store it: two steps between which other threads may run.
\<close>

definition sysprop_read :: "core \<Rightarrow> obj \<Rightarrow> obj option" where
  "sysprop_read c s = map_option sys_plist (symbol_cell_of c s)"

definition put_sysprop_locked :: "obj \<Rightarrow> core \<Rightarrow> obj \<Rightarrow> obj \<Rightarrow> obj \<Rightarrow> obj symbol_run" where
  "put_sysprop_locked read_plist c s prop value =
     update_plist c s (\<lambda>y. read_plist) set_sys_plist (\<lambda>h l.
       map_option (\<lambda>(r, h'). (map_sum id (\<lambda>l'. (l', value)) r, h')) (mk_si_put_f h l value prop))"

definition rem_sysprop_locked :: "obj \<Rightarrow> core \<Rightarrow> obj \<Rightarrow> obj \<Rightarrow> bool symbol_run" where
  "rem_sysprop_locked read_plist c s prop =
     update_plist c s (\<lambda>y. read_plist) set_sys_plist (\<lambda>h l. mk_si_rem_f h l prop)"

text \<open>For any other name the whole update runs under the lock.\<close>

definition update_named ::
  "core \<Rightarrow> properties \<Rightarrow> obj \<Rightarrow> (heap \<Rightarrow> obj \<Rightarrow> (obj \<times> 'a) action) \<Rightarrow> 'a sysprop_run" where
  "update_named c t s f =
     Option.bind (mkcl_gethash_safe s t Cnil) (\<lambda>l.
     Option.bind (f (sym_heap c) l) (\<lambda>(r, h). case r of
         Inl err \<Rightarrow> Some (Inl err, c\<lparr>sym_heap := h\<rparr>, t)
       | Inr (l', v) \<Rightarrow> map_option (\<lambda>t'. (Inr v, c\<lparr>sym_heap := h\<rparr>, t')) (mkcl_sethash s t l')))"

definition mk_si_put_sysprop :: "core \<Rightarrow> properties \<Rightarrow> obj \<Rightarrow> obj \<Rightarrow> obj \<Rightarrow> obj sysprop_run" where
  "mk_si_put_sysprop c t s prop value =
     (case sysprop_read c s of
        Some l \<Rightarrow> map_option (\<lambda>(r, c'). (r, c', t)) (put_sysprop_locked l c s prop value)
      | None \<Rightarrow> update_named c t s (\<lambda>h l.
          map_option (\<lambda>(r, h'). (map_sum id (\<lambda>l'. (l', value)) r, h')) (mk_si_put_f h l value prop)))"

definition mk_si_rem_sysprop :: "core \<Rightarrow> properties \<Rightarrow> obj \<Rightarrow> obj \<Rightarrow> bool sysprop_run" where
  "mk_si_rem_sysprop c t s prop =
     (case sysprop_read c s of
        Some l \<Rightarrow> map_option (\<lambda>(r, c'). (r, c', t)) (rem_sysprop_locked l c s prop)
      | None \<Rightarrow> update_named c t s (\<lambda>h l. mk_si_rem_f h l prop))"

end
