(* ===== verification/Plist_Props.thy ===== *)
theory Plist_Props
  imports Alist_Props Plists Stack_Props
begin

text \<open>
  Property lists as maps. On a list of an even number of conses \<open>getf\<close> is a lookup in the list
  of its elements (\<open>getf_spec\<close>), \<open>put-f\<close> an update of it and \<open>rem-f\<close> a removal
  (\<open>put_f_chain\<close>, \<open>remf_chain\<close>); on every other object the search ends too, with an error or
  a value it found on the way (\<open>search_returns\<close>).
\<close>

section \<open>The search\<close>

fun plist_result :: "(addr \<Rightarrow> bool) \<Rightarrow> obj \<Rightarrow> obj \<Rightarrow> addr list \<Rightarrow> lisp_error + obj" where
  "plist_result P place y [] = (if y = Cnil then Inr Cnil else Inl (TypeErrorPlist place))"
| "plist_result P place y [a] = Inl (TypeErrorPlist place)"
| "plist_result P place y (a # b # as) = (if P a then Inr (Ref a) else plist_result P place y as)"

lemma slow_step:
  "(if odd n then MKCL_CONS_CDR h (MKCL_CONS_CDR h (nthcdr_of h (2 * (n div 2)) x)) else nthcdr_of h (2 * (n div 2)) x)
     = nthcdr_of h (2 * (Suc n div 2)) x"
  by (auto simp: nthcdr_Suc [symmetric] elim!: oddE evenE)

lemma slow_behind:
  assumes "chain h x as y" and "\<not> MKCL_CONSP h y" and "2 * n < length as" and "n \<noteq> 0"
  shows "nthcdr_of h (2 * (n div 2)) x \<noteq> nthcdr_of h (2 * n) x"
proof
  assume eq: "nthcdr_of h (2 * (n div 2)) x = nthcdr_of h (2 * n) x"
  have "2 * (n div 2) < length as" using assms(3) by simp
  then have "as ! (2 * (n div 2)) = as ! (2 * n)"
    using eq chain_nth(1) [OF assms(1)] assms(3) by (metis obj.inject(3))
  then have "2 * (n div 2) = 2 * n"
    using chain_distinct [OF assms(1,2)] assms(3) by (simp add: nth_eq_iff_index_eq)
  then show False using assms(4) by simp
qed

lemma plist_search_chain:
  assumes "chain h place as y" and "\<not> MKCL_CONSP h y" and "\<And>x. test x = Some (Inr (P x))" and "2 * n \<le> length as"
  shows "plist_search h test place n (nthcdr_of h (2 * n) place) (nthcdr_of h (2 * (n div 2)) place)
    = Some (plist_result (\<lambda>a. P (MKCL_CONS_CAR h (Ref a))) place y (drop (2 * n) as))"
  using assms(4)
proof (induction "length as - 2 * n" arbitrary: n rule: less_induct)
  case less
  let ?l = "nthcdr_of h (2 * n) place"
  have ch: "chain h ?l (drop (2 * n) as) y" using chain_drop [OF assms(1) less.prems] .
  consider (last) "drop (2 * n) as = []" | (odd) a where "drop (2 * n) as = [a]"
    | (pair) a b cs where "drop (2 * n) as = a # b # cs"
    by (metis list.exhaust)
  then show ?case
  proof cases
    case last
    then show ?thesis using ch assms(2) by (subst plist_search.simps) auto
  next
    case odd
    then show ?thesis using ch assms(2) by (subst plist_search.simps) auto
  next
    case pair
    have len: "2 * Suc n \<le> length as" using arg_cong [OF pair, of length] by simp
    have l: "?l = Ref a" "MKCL_CONSP h ?l" "MKCL_CONS_CDR h ?l = Ref b" "MKCL_CONSP h (Ref b)" using ch pair by auto
    have step: "MKCL_CONS_CDR h (Ref b) = nthcdr_of h (2 * Suc n) place" using l by (simp add: nthcdr_Suc)
    have cs: "drop (2 * Suc n) as = cs" using arg_cong [OF pair, of "drop 2"] by (simp add: add.commute)
    have slow: "nthcdr_of h (2 * (n div 2)) place \<noteq> ?l \<or> n = 0" using slow_behind [OF assms(1,2), of n] len by auto
    have IH: "plist_search h test place (Suc n) (nthcdr_of h (2 * Suc n) place) (nthcdr_of h (2 * (Suc n div 2)) place)
        = Some (plist_result (\<lambda>a. P (MKCL_CONS_CAR h (Ref a))) place y cs)"
      using less.hyps [of "Suc n"] len unfolding cs by simp
    show ?thesis
      unfolding pair using l step slow IH assms(3)
      by (subst plist_search.simps) (auto simp: slow_step Let_def simp del: mult_Suc_right)
  qed
qed

lemma find_indicator_chain:
  assumes "chain h place as y" and "\<not> MKCL_CONSP h y"
  shows "find_indicator h place ind = Some (plist_result (\<lambda>a. MKCL_CONS_CAR h (Ref a) = ind) place y as)"
  using plist_search_chain [OF assms, of "\<lambda>x. Some (Inr (x = ind))" "\<lambda>x. x = ind" 0] by (simp add: find_indicator_def)

lemma circular_conses:
  assumes "circular_list h x"
  shows "MKCL_CONSP h (nthcdr_of h n x)" and "MKCL_CONSP h (MKCL_CONS_CDR h (nthcdr_of h n x))"
  using assms by (simp add: circular_list_def, metis assms circular_list_def nthcdr_Suc)

text \<open>On a circular list the search ends where the two pointers meet, if not before.\<close>

lemma plist_search_circular:
  assumes "circular_list h place" and "0 < m" and "nthcdr_of h (2 * m) place = nthcdr_of h (2 * (m div 2)) place"
    and "\<And>x. test x = Some (Inr (P x))" and "n \<le> m"
  shows "plist_search h test place n (nthcdr_of h (2 * n) place) (nthcdr_of h (2 * (n div 2)) place)
    \<in> {Some (Inl (CircularList place))} \<union> {Some (Inr l) |l. MKCL_CONSP h l \<and> P (MKCL_CONS_CAR h l)}"
  using assms(5)
proof (induction "m - n" arbitrary: n)
  case 0
  then have "n = m" by simp
  moreover have "MKCL_CONSP h (nthcdr_of h (2 * m) place)" "MKCL_CONSP h (MKCL_CONS_CDR h (nthcdr_of h (2 * m) place))"
    using circular_conses [OF assms(1)] by simp_all
  ultimately show ?case using assms(2,3,4) by (subst plist_search.simps) (auto simp: Let_def)
next
  case (Suc k)
  let ?l = "nthcdr_of h (2 * n) place"
  have l: "MKCL_CONSP h ?l" "MKCL_CONSP h (MKCL_CONS_CDR h ?l)"
    using circular_conses [OF assms(1)] by simp_all
  have step: "MKCL_CONS_CDR h (MKCL_CONS_CDR h ?l) = nthcdr_of h (2 * Suc n) place" by (simp add: nthcdr_Suc)
  show ?case
    using Suc.hyps(1) [of "Suc n"] Suc.hyps(2) Suc.prems l step assms(4)
    by (subst plist_search.simps) (simp add: slow_step Let_def del: mult_Suc_right)
qed

lemma search_returns:
  assumes "circular_list h place"
  shows "find_indicator h place ind \<in> {Some (Inl (CircularList place))} \<union> {Some (Inr l) |l. MKCL_CONSP h l \<and> MKCL_CONS_CAR h l = ind}"
proof -
  obtain i p where p: "0 < p" "nthcdr_of h (i + p) place = nthcdr_of h i place"
    using circular_cycle [OF assms] by blast
  define m where "m = Suc i * p"
  have m: "i \<le> 2 * m" "0 < m" using p(1) by (cases p; simp add: m_def)+
  have "nthcdr_of h (2 * m + (2 * Suc i) * p) place = nthcdr_of h (2 * m) place"
    by (rule cycle_multiple [OF p(2) m(1)])
  moreover have "2 * m + (2 * Suc i) * p = 2 * (2 * m)" by (simp add: m_def)
  ultimately have "nthcdr_of h (2 * (2 * m)) place = nthcdr_of h (2 * ((2 * m) div 2)) place" by simp
  from plist_search_circular [OF assms _ this, of "\<lambda>x. Some (Inr (x = ind))" "\<lambda>x. x = ind" 0] m(2)
  show ?thesis by (auto simp: find_indicator_def)
qed

lemma getf_returns: "\<exists>r. mkcl_getf h place ind d = Some r"
proof (cases "circular_list h place")
  case True
  then show ?thesis using search_returns [OF True, of ind] by (auto simp: mkcl_getf_def)
next
  case False
  then obtain as y where "chain h place as y" "\<not> MKCL_CONSP h y" by (rule not_circular_chain)
  from find_indicator_chain [OF this] show ?thesis by (simp add: mkcl_getf_def)
qed

section \<open>Lookup and update\<close>

fun getf_spec :: "obj \<Rightarrow> obj list \<Rightarrow> obj option" where
  "getf_spec ind (k # v # xs) = (if k = ind then Some v else getf_spec ind xs)"
| "getf_spec ind _ = None"

fun put_spec :: "obj \<Rightarrow> obj \<Rightarrow> obj list \<Rightarrow> obj list option" where
  "put_spec ind w (k # v # xs) = (if k = ind then Some (k # w # xs) else map_option (\<lambda>ys. k # v # ys) (put_spec ind w xs))"
| "put_spec ind w _ = None"

fun rem_spec :: "obj \<Rightarrow> obj list \<Rightarrow> obj list" where
  "rem_spec ind (k # v # xs) = (if k = ind then xs else k # v # rem_spec ind xs)"
| "rem_spec ind xs = xs"

definition putf_spec :: "obj \<Rightarrow> obj \<Rightarrow> obj list \<Rightarrow> obj list" where
  "putf_spec ind w xs = (case put_spec ind w xs of Some ys \<Rightarrow> ys | None \<Rightarrow> ind # w # xs)"

lemma put_spec_None: "put_spec ind w xs = None \<longleftrightarrow> getf_spec ind xs = None"
  by (induction ind xs rule: getf_spec.induct) auto

lemma put_spec_get: "put_spec ind w xs = Some ys \<Longrightarrow> getf_spec i ys = (if i = ind then Some w else getf_spec i xs)"
  by (induction ind xs arbitrary: ys rule: getf_spec.induct) (auto split: if_splits)

lemma getf_putf: "getf_spec i (putf_spec ind w xs) = (if i = ind then Some w else getf_spec i xs)"
  by (auto simp: putf_spec_def put_spec_get split: option.splits)

lemma put_spec_length: "put_spec ind w xs = Some ys \<Longrightarrow> length ys = length xs"
  by (induction ind xs arbitrary: ys rule: getf_spec.induct) (auto split: if_splits)

lemma even_putf: "even (length (putf_spec ind w xs)) = even (length xs)"
  by (auto simp: putf_spec_def put_spec_length split: option.splits)

lemma getf_rem_other: "i \<noteq> ind \<Longrightarrow> getf_spec i (rem_spec ind xs) = getf_spec i xs"
  by (induction ind xs rule: rem_spec.induct) auto

text \<open>The indicators of a property list.\<close>

fun indicators :: "obj list \<Rightarrow> obj list" where
  "indicators (k # v # xs) = k # indicators xs"
| "indicators _ = []"

lemma getf_indicators: "getf_spec ind xs = None \<longleftrightarrow> ind \<notin> set (indicators xs)"
  by (induction ind xs rule: getf_spec.induct) auto

lemma getf_rem_same: "distinct (indicators xs) \<Longrightarrow> getf_spec ind (rem_spec ind xs) = None"
  by (induction ind xs rule: rem_spec.induct) (auto simp: getf_indicators)

definition no_key :: "obj \<Rightarrow> obj list \<Rightarrow> bool" where
  "no_key ind xs \<longleftrightarrow> even (length xs) \<and> ind \<notin> set (indicators xs)"

lemma no_key_simps [simp]:
  "no_key ind []" "\<not> no_key ind [k]" "no_key ind (k # v # xs) \<longleftrightarrow> k \<noteq> ind \<and> no_key ind xs"
  by (auto simp: no_key_def)

lemma spec_split:
  assumes "no_key ind xs"
  shows "put_spec ind w (xs @ ind # v # ys) = Some (xs @ ind # w # ys)" and "rem_spec ind (xs @ ind # v # ys) = xs @ ys"
    and "getf_spec ind (xs @ ind # v # ys) = Some v"
  using assms by (induction xs rule: induct_list012) auto

lemma spec_absent:
  assumes "no_key ind xs"
  shows "put_spec ind w xs = None" and "rem_spec ind xs = xs" and "getf_spec ind xs = None"
  using assms by (induction xs rule: induct_list012) auto

lemma even_list_cases:
  assumes "even (length xs)"
  obtains (absent) "no_key ind xs" | (found) pre v post where "xs = pre @ ind # v # post" "no_key ind pre"
proof -
  have "no_key ind xs \<or> (\<exists>pre v post. xs = pre @ ind # v # post \<and> no_key ind pre)"
    using assms
  proof (induction xs rule: induct_list012)
    case (3 k v xs)
    show ?case
    proof (cases "k = ind")
      case True
      then show ?thesis by (intro disjI2 exI [of _ "[]"]) simp
    next
      case False
      from 3 consider "no_key ind xs" | pre u post where "xs = pre @ ind # u # post" "no_key ind pre" by auto
      then show ?thesis
      proof cases
        case 1
        then show ?thesis using False by simp
      next
        case 2
        then show ?thesis using False by (intro disjI2 exI [of _ "k # v # pre"]) auto
      qed
    qed
  qed auto
  with that show thesis by blast
qed

text \<open>The conses of a property list, split at an indicator.\<close>

lemma plist_cases:
  assumes "chain h place as Cnil" and "even (length as)"
  obtains (absent) "no_key ind (elems h as)"
  | (found) pre a b post where "as = pre @ a # b # post" "MKCL_CONS_CAR h (Ref a) = ind" "no_key ind (elems h pre)"
proof -
  have "even (length (elems h as))" using assms(2) by simp
  then show thesis
  proof (cases rule: even_list_cases [where ind = ind, case_names absent found])
    case absent
    then show thesis by (rule that(1))
  next
    case (found pre v post)
    let ?n = "length pre"
    have n: "?n + 1 < length as" using arg_cong [OF found(1), of length] by simp
    then have as: "as = take ?n as @ as ! ?n # as ! Suc ?n # drop (Suc (Suc ?n)) as"
      by (metis Cons_nth_drop_Suc Suc_eq_plus1 Suc_lessD append_take_drop_id)
    have "elems h (take ?n as) = pre" "MKCL_CONS_CAR h (Ref (as ! ?n)) = ind"
      using arg_cong [OF found(1), of "take ?n"] arg_cong [OF found(1), of "\<lambda>l. l ! ?n"] n
      by (simp_all add: elems_def take_map)
    with that(2) [OF as] found(2) show thesis by simp
  qed
qed

lemma find_indicator_cases:
  assumes "chain h place as Cnil" and "even (length as)"
  shows "no_key ind (elems h as) \<Longrightarrow> find_indicator h place ind = Some (Inr Cnil)"
    and "as = pre @ a # b # post \<Longrightarrow> MKCL_CONS_CAR h (Ref a) = ind \<Longrightarrow> no_key ind (elems h pre) \<Longrightarrow>
      find_indicator h place ind = Some (Inr (Ref a))"
proof -
  let ?P = "\<lambda>a. MKCL_CONS_CAR h (Ref a) = ind"
  have "plist_result ?P place Cnil bs = Inr Cnil" if "no_key ind (elems h bs)" for bs
    using that by (induction bs rule: induct_list012) auto
  then show "no_key ind (elems h as) \<Longrightarrow> find_indicator h place ind = Some (Inr Cnil)"
    using find_indicator_chain [OF assms(1)] by simp
  have "plist_result ?P place Cnil (pre @ a # b # post) = Inr (Ref a)" if "?P a" "no_key ind (elems h pre)"
    using that by (induction pre rule: induct_list012) auto
  then show "as = pre @ a # b # post \<Longrightarrow> ?P a \<Longrightarrow> no_key ind (elems h pre) \<Longrightarrow> find_indicator h place ind = Some (Inr (Ref a))"
    using find_indicator_chain [OF assms(1)] by simp
qed

lemma getf_chain:
  assumes "chain h place as Cnil" and "even (length as)"
  shows "mkcl_getf h place ind d = Some (Inr (case getf_spec ind (elems h as) of Some v \<Rightarrow> v | None \<Rightarrow> d))"
proof (cases rule: plist_cases [where ind = ind, OF assms, case_names absent found])
  case absent
  then show ?thesis using find_indicator_cases(1) [OF assms absent] spec_absent(3) [OF absent] by (simp add: mkcl_getf_def)
next
  case (found pre a b post)
  have "MKCL_CONS_CDR h (Ref a) = Ref b" using assms(1) found(1) by (auto simp: chain_append)
  then show ?thesis
    using find_indicator_cases(2) [OF assms found] spec_split(3) [OF found(3)] found(1,2) by (simp add: mkcl_getf_def)
qed

lemma rplaca_chain:
  "chain (MKCL_RPLACA h x v) y as z = chain h y as z"
proof -
  have "MKCL_CONSP (MKCL_RPLACA h x v) u = MKCL_CONSP h u" "MKCL_CONS_CDR (MKCL_RPLACA h x v) u = MKCL_CONS_CDR h u" for u
    by (auto simp: MKCL_RPLACA_def MKCL_CONSP_def MKCL_CONS_CDR_def store_def cell_at_def nth_list_update
        split: option.splits obj.splits cell.splits if_splits)
  then show ?thesis by (induction as arbitrary: y) auto
qed

lemma rplaca_car:
  "MKCL_CONSP h (Ref b) \<Longrightarrow> MKCL_CONS_CAR (MKCL_RPLACA h (Ref b) v) (Ref a) = (if a = b then v else MKCL_CONS_CAR h (Ref a))"
  by (auto elim!: consp_cases simp: MKCL_CONS_CAR_def nth_list_update)

lemma rplaca_elems:
  assumes "MKCL_CONSP h (Ref b)" and "b \<notin> set as"
  shows "elems (MKCL_RPLACA h (Ref b) v) as = elems h as"
  using assms by (auto simp: elems_def rplaca_car)

text \<open>What changes in the heap: conses of the list, and new cells.\<close>

definition changes_only :: "heap \<Rightarrow> heap \<Rightarrow> addr list \<Rightarrow> bool" where
  "changes_only h h' as \<longleftrightarrow> length h \<le> length h' \<and> (\<forall>a < length h. a \<notin> set as \<longrightarrow> h' ! a = h ! a)"

lemma put_f_chain:
  assumes "chain h place as Cnil" and "even (length as)"
  shows "\<exists>r h' as'. mk_si_put_f h place w ind = Some (Inr r, h') \<and> chain h' r as' Cnil
    \<and> elems h' as' = putf_spec ind w (elems h as) \<and> changes_only h h' as \<and> (\<forall>a \<in> set as'. a \<in> set as \<or> length h \<le> a)"
proof (cases rule: plist_cases [where ind = ind, OF assms, case_names absent found])
  case absent
  let ?h1 = "h @ [ConsC w place]" and ?n = "length h"
  let ?h2 = "?h1 @ [ConsC ind (Ref ?n)]"
  have "mk_si_put_f h place w ind = Some (Inr (Ref (Suc ?n)), ?h2)"
    using find_indicator_cases(1) [OF assms absent] by (simp add: mk_si_put_f_def)
  moreover have "chain ?h2 (Ref (Suc ?n)) (Suc ?n # ?n # as) Cnil" "elems ?h2 (Suc ?n # ?n # as) = ind # w # elems h as"
    using chain_alloc [OF assms(1), of "[ConsC w place, ConsC ind (Ref ?n)]"]
    by (simp_all add: nth_append MKCL_CONSP_def MKCL_CONS_CDR_def MKCL_CONS_CAR_def)
  moreover have "putf_spec ind w (elems h as) = ind # w # elems h as"
    using spec_absent(1) [OF absent] by (simp add: putf_spec_def)
  moreover have "changes_only h ?h2 as" by (simp add: changes_only_def nth_append)
  ultimately show ?thesis by (intro exI [of _ "Ref (Suc ?n)"] exI [of _ ?h2] exI [of _ "Suc ?n # ?n # as"]) auto
next
  case (found pre a b post)
  let ?h = "MKCL_RPLACA h (Ref b) w"
  have d: "distinct as" using chain_distinct [OF assms(1)] by simp
  have b: "MKCL_CONSP h (Ref b)" "MKCL_CONS_CDR h (Ref a) = Ref b" using assms(1) found(1) by (auto simp: chain_append)
  have "mk_si_put_f h place w ind = Some (Inr place, ?h)"
    using find_indicator_cases(2) [OF assms found] b(2) by (simp add: mk_si_put_f_def)
  moreover have "chain ?h place as Cnil" using assms(1) by (simp add: rplaca_chain)
  moreover have "elems ?h as = elems h pre @ ind # w # elems h post"
    unfolding found(1) using d found(1,2) b(1) by (simp add: rplaca_elems rplaca_car)
  moreover have "putf_spec ind w (elems h as) = elems h pre @ ind # w # elems h post"
    unfolding found(1) using spec_split(1) [OF found(3)] found(2) by (simp add: putf_spec_def)
  moreover have "changes_only h ?h as"
    using found(1) b(1) by (auto elim!: consp_cases simp: changes_only_def nth_list_update)
  ultimately show ?thesis by (intro exI [of _ place] exI [of _ ?h] exI [of _ as]) simp
qed

section \<open>Removal\<close>

definition tail_at :: "addr list \<Rightarrow> nat \<Rightarrow> obj" where
  "tail_at as n = (if n = 0 then Cnil else Ref (as ! (2 * n - 1)))"

lemma remf_step:
  assumes "chain h place as Cnil" and "2 * n + 1 < length as" and "MKCL_CONS_CAR h (Ref (as ! (2 * n))) \<noteq> ind"
  shows "remf_loop h place ind n (nthcdr_of h (2 * n) place) (tail_at as n) (nthcdr_of h (2 * (n div 2)) place) =
    remf_loop h place ind (Suc n) (nthcdr_of h (2 * Suc n) place) (tail_at as (Suc n)) (nthcdr_of h (2 * (Suc n div 2)) place)"
proof -
  let ?l = "nthcdr_of h (2 * n) place"
  have l: "?l = Ref (as ! (2 * n))" "MKCL_CONSP h ?l" using chain_nth [OF assms(1), of "2 * n"] assms(2) by simp_all
  have l1: "MKCL_CONS_CDR h ?l = Ref (as ! Suc (2 * n))" "MKCL_CONSP h (Ref (as ! Suc (2 * n)))"
    using chain_nth [OF assms(1), of "Suc (2 * n)"] assms(2) by (simp_all add: nthcdr_Suc)
  have next2: "MKCL_CONS_CDR h (MKCL_CONS_CDR h ?l) = nthcdr_of h (2 * Suc n) place" by (simp add: nthcdr_Suc)
  have slow: "nthcdr_of h (2 * (n div 2)) place \<noteq> ?l \<or> n = 0" using slow_behind [OF assms(1), of n] assms(2) by auto
  have tail: "tail_at as (Suc n) = Ref (as ! Suc (2 * n))" by (simp add: tail_at_def)
  have lc: "MKCL_LISTP h ?l" "?l \<noteq> Cnil" using l by (simp_all add: MKCL_LISTP_def)
  show ?thesis
    unfolding tail using lc l(1) l1 next2 slow assms(3)
    by (subst remf_loop.simps) (auto simp: slow_step Let_def simp del: mult_Suc_right)
qed

lemma remf_skip:
  assumes "chain h place as Cnil" and "2 * m \<le> length as" and "\<And>i. i < m \<Longrightarrow> MKCL_CONS_CAR h (Ref (as ! (2 * i))) \<noteq> ind"
  shows "remf h place ind =
    remf_loop h place ind m (nthcdr_of h (2 * m) place) (tail_at as m) (nthcdr_of h (2 * (m div 2)) place)"
  using assms(2,3)
proof (induction m)
  case 0
  then show ?case by (simp add: remf_def tail_at_def)
next
  case (Suc m)
  then show ?case using remf_step [OF assms(1), of m ind] by simp
qed

lemma no_key_nth: "no_key ind xs \<Longrightarrow> 2 * i < length xs \<Longrightarrow> xs ! (2 * i) \<noteq> ind"
proof (induction xs arbitrary: i rule: induct_list012)
  case (3 k v xs)
  then show ?case by (cases i) auto
qed auto

lemma remf_chain:
  assumes "chain h place as Cnil" and "even (length as)"
  shows "\<exists>r h' as'. remf h place ind = Some (Inr (getf_spec ind (elems h as) \<noteq> None, r), h') \<and> chain h' r as' Cnil
    \<and> elems h' as' = rem_spec ind (elems h as) \<and> changes_only h h' as \<and> length h' = length h \<and> set as' \<subseteq> set as"
proof (cases rule: plist_cases [where ind = ind, OF assms, case_names absent found])
  case absent
  have k: "MKCL_CONS_CAR h (Ref (as ! (2 * i))) \<noteq> ind" if "i < length as div 2" for i
    using no_key_nth [OF absent, of i] that by (auto simp: elems_def)
  have "nthcdr_of h (2 * (length as div 2)) place = Cnil" using chain_nthcdr [OF assms(1)] assms(2) by simp
  then have "remf h place ind = Some (Inr (False, place), h)"
    using remf_skip [OF assms(1), of "length as div 2" ind] k by (simp add: remf_loop.simps)
  then show ?thesis
    using assms(1) spec_absent(2,3) [OF absent] by (auto simp: changes_only_def intro!: exI [of _ as])
next
  case (found pre a b post)
  have d: "distinct as" using chain_distinct [OF assms(1)] by simp
  let ?m = "length pre div 2"
  have m: "2 * ?m = length pre" using found(3) by (simp add: no_key_def)
  have ch: "chain h place pre (Ref a)" "MKCL_CONSP h (Ref a)" "MKCL_CONS_CDR h (Ref a) = Ref b" "MKCL_CONSP h (Ref b)"
      "chain h (MKCL_CONS_CDR h (Ref b)) post Cnil"
    using assms(1) found(1) by (auto simp: chain_append)
  have l: "nthcdr_of h (2 * ?m) place = Ref a" using chain_nthcdr [OF ch(1)] m by simp
  have k: "MKCL_CONS_CAR h (Ref (as ! (2 * i))) \<noteq> ind" if "i < ?m" for i
    using no_key_nth [OF found(3), of i] that m found(1) by (simp add: elems_def nth_append)
  have slow: "nthcdr_of h (2 * (?m div 2)) place \<noteq> Ref a \<or> ?m = 0"
    using slow_behind [OF assms(1), of ?m] m l found(1) by auto
  have r: "remf h place ind = (if pre = [] then Some (Inr (True, MKCL_CONS_CDR h (Ref b)), h)
      else Some (Inr (True, place), MKCL_RPLACD h (Ref (last pre)) (MKCL_CONS_CDR h (Ref b))))"
  proof -
    have "length pre \<noteq> 0 \<Longrightarrow> ?m \<noteq> 0" using m by linarith
    then have t: "tail_at as ?m = (if pre = [] then Cnil else Ref (last pre))"
      using m found(1) by (cases "pre = []") (auto simp: tail_at_def nth_append last_conv_nth)
    have "remf h place ind = remf_loop h place ind ?m (Ref a) (if pre = [] then Cnil else Ref (last pre)) (nthcdr_of h (2 * (?m div 2)) place)"
      using remf_skip [OF assms(1), of ?m ind] k m found(1) l t by simp
    also have "\<dots> = (if pre = [] then Some (Inr (True, MKCL_CONS_CDR h (Ref b)), h)
      else Some (Inr (True, place), MKCL_RPLACD h (Ref (last pre)) (MKCL_CONS_CDR h (Ref b))))"
      using ch slow found(2) by (subst remf_loop.simps) (auto simp: MKCL_LISTP_def Let_def)
    finally show ?thesis .
  qed
  have spec: "rem_spec ind (elems h as) = elems h pre @ elems h post" "getf_spec ind (elems h as) \<noteq> None"
    unfolding found(1) using spec_split(2,3) [OF found(3)] found(2) by simp_all
  show ?thesis
  proof (cases "pre = []")
    case True
    then show ?thesis using r ch(5) spec found(1) by (auto simp: changes_only_def intro!: exI [of _ post])
  next
    case False
    let ?h = "MKCL_RPLACD h (Ref (last pre)) (MKCL_CONS_CDR h (Ref b))"
    have "last pre \<in> set pre" using False by simp
    then have lp: "last pre \<in> set pre" "last pre \<notin> set post" "distinct pre" using d found(1) by auto
    note relink = chain_relink [OF ch(1) False lp(3) ch(5) lp(2)]
    have "?h ! x = h ! x" if "x \<notin> set as" for x
      using that lp(1) found(1) by (intro RPLACD_frame [OF refl]) auto
    then have "changes_only h ?h as" by (simp add: changes_only_def)
    then show ?thesis using r False relink spec found(1) by (intro exI [of _ place] exI [of _ ?h] exI [of _ "pre @ post"]) auto
  qed
qed

section \<open>Property lists of symbols\<close>

definition plist_of :: "core \<Rightarrow> obj \<Rightarrow> (symbol \<Rightarrow> obj) \<Rightarrow> addr list \<Rightarrow> obj list \<Rightarrow> bool" where
  "plist_of c s field as xs \<longleftrightarrow> (\<exists>y. symbol_cell_of c s = Some y \<and> chain (sym_heap c) (field y) as Cnil
     \<and> even (length as) \<and> elems (sym_heap c) as = xs)"

lemma symbol_not_cons:
  assumes "sym_cell c s = Some y" and "chain (sym_heap c) x as z"
  obtains a where "s = Ref a" "a < length (sym_heap c)" "a \<notin> set as" "sym_heap c ! a = SymC y"
proof -
  obtain a where a: "s = Ref a" "a < length (sym_heap c)" "sym_heap c ! a = SymC y"
    using assms(1) by (auto simp: sym_cell_def cell_at_def split: option.splits obj.splits cell.splits if_splits)
  then have "a \<notin> set as" using chain_cell [OF assms(2)] by (metis cell.distinct(3))
  with a that show thesis by blast
qed

text \<open>
  An update of a property list through its symbol: the symbol gets the new list; other symbols
  keep their cells, and lists that share no cons with the old one stay as they were.
\<close>

lemma symbol_cell_kept:
  assumes "changes_only (sym_heap c) h as" and "chain (sym_heap c) x as Cnil" and "symbol_cell_of c t = Some y"
  shows "symbol_cell_of (c\<lparr>sym_heap := h\<rparr>) t = Some y"
proof (cases "t = Cnil")
  case True
  then show ?thesis using assms(3) by (simp add: symbol_cell_of_def)
next
  case False
  then have t: "sym_cell c t = Some y" using assms(3) by (simp add: symbol_cell_of_def)
  from symbol_not_cons [OF t assms(2)] obtain a where a: "t = Ref a" "a < length (sym_heap c)" "a \<notin> set as"
      "sym_heap c ! a = SymC y" .
  then have "h ! a = SymC y" "a < length h" using assms(1) by (auto simp: changes_only_def)
  then show ?thesis using False a(1) by (simp add: symbol_cell_of_def sym_cell_def)
qed

lemma set_symbol_cell_facts:
  assumes "symbol_cell_of c s = Some y"
  shows "symbol_cell_of (set_symbol_cell s y' c) t = (if t = s then Some y' else symbol_cell_of c t)"
    and "chain (sym_heap c) x as z \<Longrightarrow> chain (sym_heap (set_symbol_cell s y' c)) x as z
      \<and> elems (sym_heap (set_symbol_cell s y' c)) as = elems (sym_heap c) as"
proof -
  show "symbol_cell_of (set_symbol_cell s y' c) t = (if t = s then Some y' else symbol_cell_of c t)"
  proof (cases "s = Cnil")
    case True
    then show ?thesis by (simp add: symbol_cell_of_def set_symbol_cell_def sym_cell_def)
  next
    case False
    have "cnil_symbol (set_sym_cell s y' c) = cnil_symbol c" by (simp add: set_sym_cell_def)
    then show ?thesis
      using False assms sym_cell_set [of c s y] by (simp add: symbol_cell_of_def set_symbol_cell_def)
  qed
  assume ch: "chain (sym_heap c) x as z"
  show "chain (sym_heap (set_symbol_cell s y' c)) x as z \<and> elems (sym_heap (set_symbol_cell s y' c)) as = elems (sym_heap c) as"
  proof (cases "s = Cnil")
    case True
    then show ?thesis using ch by (simp add: set_symbol_cell_def)
  next
    case False
    then have "sym_cell c s = Some y" using assms by (simp add: symbol_cell_of_def)
    from symbol_not_cons [OF this ch] obtain a where a: "s = Ref a" "a \<notin> set as" by blast
    then have "sym_heap (set_symbol_cell s y' c) = (sym_heap c)[a := SymC y']"
      by (simp add: set_symbol_cell_def set_sym_cell_def store_def)
    then show ?thesis using chain_update [OF ch a(2)] by simp
  qed
qed

lemma update_plist_ok:
  assumes "symbol_cell_of c s = Some y" and "chain (sym_heap c) (field y) as Cnil"
    and "f (sym_heap c) (field y) = Some (Inr (l, v), h)" and "chain h l as' Cnil" and "changes_only (sym_heap c) h as"
  shows "\<exists>c'. update_plist c s field set_field f = Some (Inr v, c') \<and> symbol_cell_of c' s = Some (set_field l y)
    \<and> chain (sym_heap c') l as' Cnil \<and> elems (sym_heap c') as' = elems h as'
    \<and> (\<forall>t. t \<noteq> s \<longrightarrow> symbol_cell_of c t \<noteq> None \<longrightarrow> symbol_cell_of c' t = symbol_cell_of c t)
    \<and> (\<forall>x bs. chain (sym_heap c) x bs Cnil \<longrightarrow> set bs \<inter> set as = {} \<longrightarrow>
          chain (sym_heap c') x bs Cnil \<and> elems (sym_heap c') bs = elems (sym_heap c) bs)"
proof -
  let ?c1 = "c\<lparr>sym_heap := h\<rparr>"
  let ?c' = "set_symbol_cell s (set_field l y) ?c1"
  note kept = symbol_cell_kept [OF assms(5,2)]
  note upd = set_symbol_cell_facts [OF kept [OF assms(1)], where y' = "set_field l y"]
  have u: "update_plist c s field set_field f = Some (Inr v, ?c')"
    using assms(1,3) by (simp add: update_plist_def with_symbol_def)
  have "chain (sym_heap ?c') x bs Cnil \<and> elems (sym_heap ?c') bs = elems (sym_heap c) bs"
    if bs: "chain (sym_heap c) x bs Cnil" "set bs \<inter> set as = {}" for x bs
  proof -
    have "h ! a = sym_heap c ! a" if "a \<in> set bs" for a
      using assms(5) chain_bound [OF bs(1) that] bs(2) that by (auto simp: changes_only_def)
    then have "chain h x bs Cnil" "elems h bs = elems (sym_heap c) bs"
      using chain_frame [OF bs(1), of h] assms(5) by (auto simp: changes_only_def)
    then show ?thesis using upd(2) [of x bs Cnil] by simp
  qed
  moreover have "symbol_cell_of ?c' t = symbol_cell_of c t" if "t \<noteq> s" "symbol_cell_of c t \<noteq> None" for t
    using upd(1) kept that by fastforce
  ultimately show ?thesis using u upd(1) upd(2) [of l as' Cnil] assms(4) by auto
qed

lemma get_plist_of:
  assumes "plist_of c s plist as xs"
  shows "mk_cl_get c s i d = Some (Inr (case getf_spec i xs of Some v \<Rightarrow> v | None \<Rightarrow> d), c)"
  using assms getf_chain by (auto simp: plist_of_def mk_cl_get_def with_symbol_def)

text \<open>What an update of one symbol's list leaves of the others.\<close>

definition others_kept :: "core \<Rightarrow> core \<Rightarrow> obj \<Rightarrow> addr list \<Rightarrow> bool" where
  "others_kept c c' s as \<longleftrightarrow> (\<forall>t field bs xs. t \<noteq> s \<longrightarrow> plist_of c t field bs xs \<longrightarrow> set bs \<inter> set as = {} \<longrightarrow> plist_of c' t field bs xs)"

lemma others_keptI:
  assumes "\<forall>t. t \<noteq> s \<longrightarrow> symbol_cell_of c t \<noteq> None \<longrightarrow> symbol_cell_of c' t = symbol_cell_of c t"
    and "\<forall>x bs. chain (sym_heap c) x bs Cnil \<longrightarrow> set bs \<inter> set as = {} \<longrightarrow>
          chain (sym_heap c') x bs Cnil \<and> elems (sym_heap c') bs = elems (sym_heap c) bs"
  shows "others_kept c c' s as"
  unfolding others_kept_def plist_of_def using assms by (metis option.distinct(1))

lemma putprop_ok:
  assumes "plist_of c s plist as xs"
  shows "\<exists>c' as'. mk_si_putprop c s v ind = Some (Inr v, c') \<and> plist_of c' s plist as' (putf_spec ind v xs) \<and> others_kept c c' s as"
proof -
  obtain y where y: "symbol_cell_of c s = Some y" "chain (sym_heap c) (plist y) as Cnil" "even (length as)" "elems (sym_heap c) as = xs"
    using assms by (auto simp: plist_of_def)
  obtain r h as' where r: "mk_si_put_f (sym_heap c) (plist y) v ind = Some (Inr r, h)" "chain h r as' Cnil"
      "elems h as' = putf_spec ind v xs" "changes_only (sym_heap c) h as"
    using put_f_chain [OF y(2,3)] y(4) by blast
  let ?f = "\<lambda>h l. map_option (\<lambda>(r, h'). (map_sum id (\<lambda>l'. (l', v)) r, h')) (mk_si_put_f h l v ind)"
  have f: "?f (sym_heap c) (plist y) = Some (Inr (r, v), h)" using r(1) by simp
  obtain c' where c': "update_plist c s plist set_plist ?f = Some (Inr v, c')" "symbol_cell_of c' s = Some (set_plist r y)"
      "chain (sym_heap c') r as' Cnil" "elems (sym_heap c') as' = elems h as'" "others_kept c c' s as"
    using update_plist_ok [where field = plist and set_field = set_plist and f = ?f, OF y(1,2) f r(2,4)]
      others_keptI [of s c _ as] by (elim exE conjE) blast
  have "even (length as')"
    using arg_cong [OF r(3), of length] even_putf [of ind v xs] y(3,4) by (metis elems_simps(4))
  then have "plist_of c' s plist as' (putf_spec ind v xs)"
    using c'(2,3,4) r(3) by (auto simp: plist_of_def set_plist_def)
  with c'(1,5) show ?thesis by (auto simp: mk_si_putprop_def)
qed

lemma even_rem_spec: "even (length (rem_spec ind xs)) = even (length xs)"
  by (induction ind xs rule: rem_spec.induct) auto

lemma remprop_ok:
  assumes "plist_of c s plist as xs"
  shows "\<exists>c' as'. mk_cl_remprop c s ind = Some (Inr (getf_spec ind xs \<noteq> None), c')
    \<and> plist_of c' s plist as' (rem_spec ind xs) \<and> others_kept c c' s as"
proof -
  obtain y where y: "symbol_cell_of c s = Some y" "chain (sym_heap c) (plist y) as Cnil" "even (length as)" "elems (sym_heap c) as = xs"
    using assms by (auto simp: plist_of_def)
  obtain r h as' where r: "remf (sym_heap c) (plist y) ind = Some (Inr (getf_spec ind xs \<noteq> None, r), h)" "chain h r as' Cnil"
      "elems h as' = rem_spec ind xs" "changes_only (sym_heap c) h as"
    using remf_chain [OF y(2,3), of ind] y(4) by blast
  let ?f = "\<lambda>h l. mk_si_rem_f h l ind"
  have f: "?f (sym_heap c) (plist y) = Some (Inr (r, getf_spec ind xs \<noteq> None), h)" using r(1) by (simp add: mk_si_rem_f_def)
  obtain c' where c': "update_plist c s plist set_plist ?f = Some (Inr (getf_spec ind xs \<noteq> None), c')"
      "symbol_cell_of c' s = Some (set_plist r y)" "chain (sym_heap c') r as' Cnil" "elems (sym_heap c') as' = elems h as'"
      "others_kept c c' s as"
    using update_plist_ok [where field = plist and set_field = set_plist and f = ?f, OF y(1,2) f r(2,4)]
      others_keptI [of s c _ as] by (elim exE conjE) blast
  have "even (length as')"
    using arg_cong [OF r(3), of length] even_rem_spec [of ind xs] y(3,4) by (metis elems_simps(4))
  then have "plist_of c' s plist as' (rem_spec ind xs)"
    using c'(2,3,4) r(3) by (auto simp: plist_of_def set_plist_def)
  with c'(1,5) show ?thesis by (auto simp: mk_cl_remprop_def)
qed

section \<open>System properties\<close>

text \<open>An update of the system properties with the list that was read before.\<close>

lemma put_sysprop_locked_ok:
  assumes "symbol_cell_of c s = Some y" and "chain (sym_heap c) l as Cnil" and "even (length as)"
  shows "\<exists>c' as'. put_sysprop_locked l c s prop v = Some (Inr v, c')
    \<and> plist_of c' s sys_plist as' (putf_spec prop v (elems (sym_heap c) as))
    \<and> (getf_spec prop (elems (sym_heap c) as) = None \<longrightarrow>
         chain (sym_heap c') l as Cnil \<and> elems (sym_heap c') as = elems (sym_heap c) as)"
proof -
  obtain r h as' where r: "mk_si_put_f (sym_heap c) l v prop = Some (Inr r, h)" "chain h r as' Cnil"
      "elems h as' = putf_spec prop v (elems (sym_heap c) as)" "changes_only (sym_heap c) h as"
    using put_f_chain [OF assms(2,3)] by blast
  have c1: "symbol_cell_of (c\<lparr>sym_heap := h\<rparr>) s = Some y" using symbol_cell_kept [OF r(4) assms(2,1)] .
  let ?c' = "set_symbol_cell s (set_sys_plist r y) (c\<lparr>sym_heap := h\<rparr>)"
  note upd = set_symbol_cell_facts [OF c1, where y' = "set_sys_plist r y"]
  have "put_sysprop_locked l c s prop v = Some (Inr v, ?c')"
    using assms(1) r(1) by (simp add: put_sysprop_locked_def update_plist_def with_symbol_def)
  moreover have "even (length as')"
    using arg_cong [OF r(3), of length] even_putf [of "prop" v "elems (sym_heap c) as"] assms(3) by (metis elems_simps(4))
  then have "plist_of ?c' s sys_plist as' (putf_spec prop v (elems (sym_heap c) as))"
    using upd(1) [of s] upd(2) [of r as' Cnil] r(2,3) by (auto simp: plist_of_def set_sys_plist_def)
  moreover have "chain (sym_heap ?c') l as Cnil \<and> elems (sym_heap ?c') as = elems (sym_heap c) as"
    if "getf_spec prop (elems (sym_heap c) as) = None"
  proof -
    have "no_key prop (elems (sym_heap c) as)" using that assms(3) by (simp add: no_key_def getf_indicators)
    then have "h = (sym_heap c @ [ConsC v l]) @ [ConsC prop (Ref (length (sym_heap c)))]"
      using r(1) find_indicator_cases(1) [OF assms(2,3)] by (simp add: mk_si_put_f_def)
    then show ?thesis using chain_alloc [OF assms(2)] upd(2) [of l as Cnil] by simp
  qed
  ultimately show ?thesis by (intro exI [of _ ?c'] exI [of _ as'] conjI impI) simp_all
qed

text \<open>
  Two threads that add a property to the same symbol: both read the list, then each stores its
  own update of it, and the property of the first is gone.
\<close>

lemma sysprop_race:
  assumes "plist_of c s sys_plist as xs" and "p \<noteq> q" and "getf_spec p xs = None" and "getf_spec q xs = None"
    and "sysprop_read c s = Some l"
  shows "\<exists>c1 c2. put_sysprop_locked l c s p v = Some (Inr v, c1) \<and> put_sysprop_locked l c1 s q w = Some (Inr w, c2)
    \<and> mk_si_get_sysprop c2 t s p = Some (Inr None)"
proof -
  obtain y where y: "symbol_cell_of c s = Some y" "chain (sym_heap c) (sys_plist y) as Cnil" "even (length as)" "elems (sym_heap c) as = xs"
    using assms(1) by (auto simp: plist_of_def)
  have l: "l = sys_plist y" using assms(5) y(1) by (simp add: sysprop_read_def)
  obtain c1 as1 where c1: "put_sysprop_locked l c s p v = Some (Inr v, c1)" "plist_of c1 s sys_plist as1 (putf_spec p v xs)"
      "chain (sym_heap c1) l as Cnil" "elems (sym_heap c1) as = xs"
    using put_sysprop_locked_ok [OF y(1,2,3), of p v] y(4) l assms(3) by auto
  obtain y1 where y1: "symbol_cell_of c1 s = Some y1" using c1(2) by (auto simp: plist_of_def)
  obtain c2 as2 where c2: "put_sysprop_locked l c1 s q w = Some (Inr w, c2)" "plist_of c2 s sys_plist as2 (putf_spec q w xs)"
    using put_sysprop_locked_ok [OF y1 c1(3) y(3), of q w] c1(4) by auto
  have "mk_si_get_sysprop c2 t s p = Some (Inr None)"
    using c2(2) getf_chain [where ind = p and d = ObjNull] getf_putf [of p q w xs] assms(2,3)
    by (auto simp: plist_of_def mk_si_get_sysprop_def sysprop_value_def)
  with c1(1) c2(1) show ?thesis by blast
qed

end
