(* ===== verification/Utf.thy ===== *)
theory Utf
  imports Objects
begin

text \<open>
  UTF-8 and UTF-16 strings: the second half of \<^verbatim>\<open>src/src/c/string.c\<close>. Code units are words
  of 8 and 16 bits, characters words of 32 bits. An encoded string has a buffer with room for
  one more unit than its dimension, for the null that C needs, and a fill pointer.

  Memory a function allocates holds anything: the contents are given by \<open>fresh\<close>, a function from
  the size. A write outside a buffer is the error \<open>Overrun\<close>. The flag \<open>*invalid\<close>, which the C
  functions only ever set, is a component of the result; callers combine the flags.

  The C code has every operation twice, for the two encodings; an operation that is the same but
  for the encoder is defined once here and named twice.
\<close>

section \<open>Encoders and decoders\<close>

type_synonym char8 = "8 word"
type_synonym char16 = "16 word"
type_synonym character = "32 word"

datatype utf_error = Overrun | CannotExtend | UtfTypeError | IndexOutOfBounds

definition continuation_byte :: "char8 \<Rightarrow> bool" where
  "continuation_byte c \<longleftrightarrow> c AND 0xC0 = 0x80"

definition tail_bits :: "char8 \<Rightarrow> character" where
  "tail_bits c = ucast (c AND 0x3F)"

text \<open>
  What the code does with a first byte that announces more bytes than there are: it swallows the
  continuation bytes that follow, and the byte that ends them.
\<close>

fun swallow_tail :: "char8 list \<Rightarrow> nat \<Rightarrow> nat" where
  "swallow_tail [] i = i"
| "swallow_tail (c # cs) i = (if continuation_byte c \<and> cs \<noteq> [] then swallow_tail cs (i + 1) else i + 1)"

text \<open>The number of bytes and the bits of the first byte, if it can begin a longer sequence.\<close>

definition lead_byte :: "char8 \<Rightarrow> (nat \<times> character) option" where
  "lead_byte ch =
     (if ch AND 0x20 = 0 then Some (2, ucast (ch AND 0x1F))
      else if ch AND 0x10 = 0 then Some (3, ucast (ch AND 0x0F))
      else if ch AND 0x08 = 0 then Some (4, ucast (ch AND 0x07))
      else None)"

definition malformed :: "nat \<Rightarrow> nat \<times> character \<times> bool" where
  "malformed n = (n, 0xFFFD, True)"

definition check_codepoint :: "nat \<Rightarrow> character \<Rightarrow> nat \<times> character \<times> bool" where
  "check_codepoint nbytes cum =
     (if cum = 0 then malformed nbytes
      else if 0xD800 \<le> cum \<and> (cum \<le> 0xDFFF \<or> (0xFFFE \<le> cum \<and> cum \<le> 0xFFFF)) then malformed nbytes
      else (nbytes, cum, False))"

definition decode_tail :: "nat \<Rightarrow> character \<Rightarrow> char8 list \<Rightarrow> nat \<times> character \<times> bool" where
  "decode_tail nbytes cum tail =
     (if nbytes = 2 then
        (let c = tail ! 0
         in if \<not> continuation_byte c then malformed 2
            else if cum = 0 then malformed 2
            else check_codepoint 2 (push_bit 6 cum OR tail_bits c))
      else if nbytes = 3 then
        (let c1 = tail ! 0; c2 = tail ! 1
         in if \<not> continuation_byte c1 then malformed 2
            else if \<not> continuation_byte c2 then malformed 3
            else if cum = 0 \<and> c1 AND 0x20 = 0 then malformed 3
            else check_codepoint 3 (push_bit 12 cum OR push_bit 6 (tail_bits c1) OR tail_bits c2))
      else
        (let c1 = tail ! 0; c2 = tail ! 1; c3 = tail ! 2
         in if \<not> continuation_byte c1 then malformed 2
            else if \<not> continuation_byte c2 then malformed 3
            else if \<not> continuation_byte c3 then malformed 4
            else if cum = 0 \<and> c1 AND 0x30 = 0 then malformed 4
            else check_codepoint 4
                (push_bit 18 cum OR push_bit 12 (tail_bits c1) OR push_bit 6 (tail_bits c2) OR tail_bits c3)))"

text \<open>The bytes read, the character, and whether the input was malformed; \<open>max\<close> is the length.\<close>

definition utf_8_decoder :: "char8 list \<Rightarrow> nat \<times> character \<times> bool" where
  "utf_8_decoder inp =
     (case inp of
        [] \<Rightarrow> (0, 0, False)
      | ch # tail \<Rightarrow>
          if ch AND 0x80 = 0 then (1, ucast ch, False)
          else if ch AND 0x40 = 0 then malformed 1
          else case lead_byte ch of
              None \<Rightarrow> malformed 1
            | Some (nbytes, cum) \<Rightarrow>
                if length inp < nbytes then malformed (swallow_tail tail 1)
                else decode_tail nbytes cum tail)"

definition low_bits :: "nat \<Rightarrow> character \<Rightarrow> char8" where
  "low_bits n c = ucast (drop_bit n c AND 0x3F) OR 0x80"

definition replacement_8 :: "char8 list" where
  "replacement_8 = [0xEF, 0xBF, 0xBD]"

text \<open>The bytes of a character, and whether it has none of its own.\<close>

definition utf_8_encoder :: "character \<Rightarrow> char8 list \<times> bool" where
  "utf_8_encoder c =
     (if c \<le> 0x7F then ([ucast c], False)
      else if c \<le> 0x7FF then ([ucast (drop_bit 6 c) OR 0xC0, low_bits 0 c], False)
      else if c \<le> 0xD7FF \<or> (0xDFFF < c \<and> c < 0xFFFE) then
        ([ucast (drop_bit 12 c) OR 0xE0, low_bits 6 c, low_bits 0 c], False)
      else if c \<le> 0xFFFF then (replacement_8, True)
      else if c \<le> 0x10FFFF then
        ([ucast (drop_bit 18 c) OR 0xF0, low_bits 12 c, low_bits 6 c, low_bits 0 c], False)
      else (replacement_8, True))"

definition utf_8_size :: "character \<Rightarrow> nat" where
  "utf_8_size c =
     (if c \<le> 0x7F then 1 else if c \<le> 0x7FF then 2 else if c \<le> 0xFFFF then 3
      else if c \<le> 0x10FFFF then 4 else 3)"

definition utf_16_decoder :: "char16 list \<Rightarrow> nat \<times> character \<times> bool" where
  "utf_16_decoder inp =
     (case inp of
        [] \<Rightarrow> (0, 0, False)
      | ch # tail \<Rightarrow>
          if ch AND 0xFC00 = 0xD800 then
            (case tail of
               [] \<Rightarrow> malformed 1
             | aux # _ \<Rightarrow>
                 if aux AND 0xFC00 = 0xDC00
                 then (2, push_bit 10 (ucast (ch AND 0x3FF)) + ucast (aux AND 0x3FF) + 0x10000, False)
                 else malformed 2)
          else (1, ucast ch, False))"

definition utf_16_encoder :: "character \<Rightarrow> char16 list \<times> bool" where
  "utf_16_encoder c =
     (if c \<le> 0xFFFF then ([ucast c], False)
      else if c \<le> 0x10FFFF then
        (let d = c - 0x10000
         in ([ucast (drop_bit 10 d AND 0x3FF) OR 0xD800, ucast (d AND 0x3FF) OR 0xDC00], False))
      else ([0xFFFD], True))"

definition utf_16_size :: "character \<Rightarrow> nat" where
  "utf_16_size c = (if c \<le> 0xFFFF then 1 else if c \<le> 0x10FFFF then 2 else 1)"

section \<open>Encoded strings\<close>

record 'w utf =
  u_dim :: nat
  u_fillp :: nat
  u_self :: "'w list"

datatype text_object =
    String "character list"
  | BaseString "char8 list"
  | UTF_8 "char8 utf"
  | UTF_16 "char16 utf"
  | Octets "char8 list"
  | DoubleOctets "char16 list"
  | NotText

definition units :: "'w utf \<Rightarrow> 'w list" where
  "units u = take (u_fillp u) (u_self u)"

definition write_units :: "'w list \<Rightarrow> nat \<Rightarrow> 'w list \<Rightarrow> utf_error + 'w list" where
  "write_units buf j us =
     (if j + length us \<le> length buf then Inr (take j buf @ us @ drop (j + length us) buf) else Inl Overrun)"

type_synonym 'w encoder = "character \<Rightarrow> 'w list \<times> bool"
type_synonym 'w decoder = "'w list \<Rightarrow> nat \<times> character \<times> bool"

text \<open>Encoding characters one after the other, from position \<open>j\<close> on.\<close>

fun encode_from :: "'w encoder \<Rightarrow> 'w list \<Rightarrow> nat \<Rightarrow> character list \<Rightarrow> utf_error + ('w list \<times> nat \<times> bool)" where
  "encode_from enc buf j [] = Inr (buf, j, False)"
| "encode_from enc buf j (c # cs) =
     (case enc c of (us, bad) \<Rightarrow>
        and_then (write_units buf j us) (\<lambda>buf'.
        and_then (encode_from enc buf' (j + length us) cs) (\<lambda>(buf'', j', bad'). Inr (buf'', j', bad \<or> bad'))))"

text \<open>A new encoded string, its buffer allocated from the sizes of the characters.\<close>

definition encoded ::
  "(nat \<Rightarrow> 'w :: zero list) \<Rightarrow> 'w encoder \<Rightarrow> nat \<Rightarrow> character list \<Rightarrow> utf_error + ('w utf \<times> bool)" where
  "encoded fresh enc dim cs =
     and_then (encode_from enc (fresh (dim + 1)) 0 cs) (\<lambda>(buf, j, bad).
     and_then (write_units buf j [0]) (\<lambda>buf'.
       Inr (\<lparr>u_dim = dim, u_fillp = dim, u_self = buf'\<rparr>, bad)))"

text \<open>
  Decoding unit by unit up to the end. \<open>step\<close> gives the number of units to go on by; it is
  the decoder, or what a loop that advances its index once more makes of it.
\<close>

partial_function (option) decode_loop :: "'w decoder \<Rightarrow> 'w list \<Rightarrow> (character \<times> bool) list option" where
  "decode_loop step us =
     (if us = [] then Some []
      else case step us of (n, c, bad) \<Rightarrow>
          Option.bind (decode_loop step (drop n us)) (\<lambda>cs. Some ((c, bad) # cs)))"

definition advance_once_more :: "'w decoder \<Rightarrow> 'w decoder" where
  "advance_once_more dec us = (case dec us of (n, c, bad) \<Rightarrow> (n + 1, c, bad))"

text \<open>
  From the other encoding: one loop over the string computes the size, a second one encodes. The
  flag \<open>bad\<close> of the decoder is \<open>flagged\<close> for UTF-8; \<open>mkcl_utf_16_char\<close> resets it.
\<close>

definition transcoded ::
  "(nat \<Rightarrow> 'w :: zero list) \<Rightarrow> 'w encoder \<Rightarrow> (character \<Rightarrow> nat) \<Rightarrow> 'v decoder \<Rightarrow> bool \<Rightarrow> 'v list
    \<Rightarrow> (utf_error + ('w utf \<times> bool)) option" where
  "transcoded fresh enc usize dec flagged us =
     Option.bind (decode_loop dec us) (\<lambda>cs1.
     map_option (\<lambda>cs2.
       and_then (encoded fresh enc (sum_list (map (usize \<circ> fst) cs1)) (map fst cs2)) (\<lambda>(u, bad).
         Inr (u, bad \<or> (flagged \<and> (\<exists>x \<in> set (cs1 @ cs2). snd x)))))
       (decode_loop (advance_once_more dec) us))"

definition mk_si_utf_8 ::
  "(nat \<Rightarrow> char8 list) \<Rightarrow> text_object \<Rightarrow> (utf_error + (char8 utf \<times> bool)) option" where
  "mk_si_utf_8 fresh x =
     (case x of
        String cs \<Rightarrow> Some (encoded fresh utf_8_encoder (sum_list (map utf_8_size cs)) cs)
      | BaseString bs \<Rightarrow>
          let cs = map ucast bs in Some (encoded fresh utf_8_encoder (sum_list (map utf_8_size cs)) cs)
      | UTF_16 u \<Rightarrow> transcoded fresh utf_8_encoder utf_8_size utf_16_decoder False (units u)
      | UTF_8 u \<Rightarrow> Some (Inr (u, False))
      | Octets bs \<Rightarrow>
          Some (and_then (write_units (fresh (length bs + 1)) 0 bs) (\<lambda>buf.
            Inr (\<lparr>u_dim = length bs, u_fillp = length bs, u_self = buf\<rparr>, False)))
      | _ \<Rightarrow> Some (Inl UtfTypeError))"

definition mk_si_utf_16 ::
  "(nat \<Rightarrow> char16 list) \<Rightarrow> text_object \<Rightarrow> (utf_error + (char16 utf \<times> bool)) option" where
  "mk_si_utf_16 fresh x =
     (case x of
        String cs \<Rightarrow> Some (encoded fresh utf_16_encoder (sum_list (map utf_16_size cs)) cs)
      | BaseString bs \<Rightarrow>
          Some (and_then (write_units (fresh (length bs + 1)) 0 (map ucast bs @ [0])) (\<lambda>buf.
            Inr (\<lparr>u_dim = length bs, u_fillp = length bs, u_self = buf\<rparr>, False)))
      | UTF_8 u \<Rightarrow> transcoded fresh utf_16_encoder utf_16_size utf_8_decoder True (units u)
      | UTF_16 u \<Rightarrow> Some (Inr (u, False))
      | DoubleOctets ws \<Rightarrow>
          Some (and_then (write_units (fresh (length ws + 1)) 0 (ws @ [0])) (\<lambda>buf.
            Inr (\<lparr>u_dim = length ws, u_fillp = length ws, u_self = buf\<rparr>, False)))
      | _ \<Rightarrow> Some (Inl UtfTypeError))"

text \<open>Back to strings of characters. The flag says whether any part was malformed.\<close>

definition decoded :: "'w decoder \<Rightarrow> 'w utf \<Rightarrow> (character list \<times> bool) option" where
  "decoded dec u = map_option (\<lambda>cs. (map fst cs, \<exists>x \<in> set cs. snd x)) (decode_loop dec (units u))"

definition mkcl_utf_8_to_string :: "char8 utf \<Rightarrow> (character list \<times> bool) option" where
  "mkcl_utf_8_to_string u = decoded utf_8_decoder u"

definition mkcl_utf_16_to_string :: "char16 utf \<Rightarrow> (character list \<times> bool) option" where
  "mkcl_utf_16_to_string u = decoded utf_16_decoder u"

definition decoded_base :: "'w decoder \<Rightarrow> 'w utf \<Rightarrow> (char8 list \<times> bool) option" where
  "decoded_base dec u =
     map_option (\<lambda>(cs, bad). (map (\<lambda>c. if 0x100 \<le> c then 0xBF else ucast c) cs, bad \<or> (\<exists>c \<in> set cs. 0x100 \<le> c)))
       (decoded dec u)"

definition mkcl_utf_8_to_base_string :: "char8 utf \<Rightarrow> (char8 list \<times> bool) option" where
  "mkcl_utf_8_to_base_string u = decoded_base utf_8_decoder u"

definition mkcl_utf_16_to_base_string :: "char16 utf \<Rightarrow> (char8 list \<times> bool) option" where
  "mkcl_utf_16_to_base_string u = decoded_base utf_16_decoder u"

section \<open>Single characters\<close>

text \<open>
  The character at an index, the index of the next one, and the flag. What the decoder may read is
  what the fill pointer leaves; behind the fill pointer the unsigned difference is huge, and it is
  the rest of the buffer.
\<close>

definition units_from :: "'w utf \<Rightarrow> nat \<Rightarrow> 'w list" where
  "units_from u i = (if i \<le> u_fillp u then drop i (units u) else drop i (u_self u))"

definition mkcl_utf_8_char :: "char8 utf \<Rightarrow> nat \<Rightarrow> character \<times> nat \<times> bool" where
  "mkcl_utf_8_char u i = (case utf_8_decoder (units_from u i) of (n, c, bad) \<Rightarrow> (c, i + n, bad))"

text \<open>For UTF-16 the flag of the decoder is overwritten by whether it read no unit.\<close>

definition mkcl_utf_16_char :: "char16 utf \<Rightarrow> nat \<Rightarrow> character \<times> nat \<times> bool" where
  "mkcl_utf_16_char u i =
     (case utf_16_decoder (units_from u i) of (n, c, bad) \<Rightarrow> (c, if 0 < n then i + n else i - n, n = 0))"

definition mk_si_utf_8_char :: "char8 utf \<Rightarrow> nat \<Rightarrow> utf_error + (character \<times> nat option \<times> bool)" where
  "mk_si_utf_8_char u i =
     (if i < u_fillp u
      then (case mkcl_utf_8_char u i of (c, next, bad) \<Rightarrow> Inr (c, if next < u_fillp u then Some next else None, bad))
      else Inl IndexOutOfBounds)"

definition mk_si_utf_16_char :: "char16 utf \<Rightarrow> nat \<Rightarrow> utf_error + (character \<times> nat \<times> bool)" where
  "mk_si_utf_16_char u i = (if i < u_dim u then Inr (mkcl_utf_16_char u i) else Inl IndexOutOfBounds)"

text \<open>
  The last character, tried from the last unit back. No decoding resets the flag once it is set,
  and \<open>utf_8_last_from\<close> carries it along.
\<close>

fun utf_8_last_from :: "char8 utf \<Rightarrow> nat list \<Rightarrow> bool \<Rightarrow> character \<Rightarrow> character \<times> bool" where
  "utf_8_last_from u [] invalid ch = (ch, invalid)"
| "utf_8_last_from u (i # is) invalid ch =
     (case mkcl_utf_8_char u i of (c, next, bad) \<Rightarrow>
        if invalid \<or> bad then utf_8_last_from u is True c else (c, False))"

definition mkcl_utf_8_last :: "char8 utf \<Rightarrow> character \<times> bool" where
  "mkcl_utf_8_last u = utf_8_last_from u (take 4 (rev [0..<u_fillp u])) False 0"

definition mkcl_utf_16_last :: "char16 utf \<Rightarrow> character \<times> bool" where
  "mkcl_utf_16_last u =
     (if u_fillp u = 0 then (0, False)
      else case mkcl_utf_16_char u (u_fillp u - 1) of (c, next, bad) \<Rightarrow>
          if bad \<and> 0 < u_fillp u - 1
          then (case mkcl_utf_16_char u (u_fillp u - 2) of (c', next', bad') \<Rightarrow> (c', bad'))
          else (c, bad))"

section \<open>Growing\<close>

definition extend_utf :: "(nat \<Rightarrow> 'w :: zero list) \<Rightarrow> 'w utf \<Rightarrow> utf_error + 'w utf" where
  "extend_utf fresh s =
     (if MKCL_ADIMLIM \<le> u_dim s then Inl CannotExtend
      else let d = 4 + u_dim s + u_dim s div 2; new_dim = (if MKCL_ADIMLIM < d then MKCL_ADIMLIM + 3 else d)
           in and_then (write_units (fresh (new_dim + 1)) 0 (units s @ [0])) (\<lambda>buf.
                Inr (s\<lparr>u_dim := new_dim, u_self := buf\<rparr>)))"

definition mkcl_extend_utf_8 :: "(nat \<Rightarrow> char8 list) \<Rightarrow> char8 utf \<Rightarrow> utf_error + char8 utf" where
  "mkcl_extend_utf_8 fresh s = extend_utf fresh s"

definition mkcl_extend_utf_16 :: "(nat \<Rightarrow> char16 list) \<Rightarrow> char16 utf \<Rightarrow> utf_error + char16 utf" where
  "mkcl_extend_utf_16 fresh s = extend_utf fresh s"

text \<open>The index at which the character was put, the string and the flag.\<close>

definition push_extend ::
  "(nat \<Rightarrow> 'w :: zero list) \<Rightarrow> 'w encoder \<Rightarrow> (character \<Rightarrow> nat) \<Rightarrow> 'w utf \<Rightarrow> character
    \<Rightarrow> utf_error + (nat \<times> 'w utf \<times> bool)" where
  "push_extend fresh enc usize s ch =
     (let fillp = u_fillp s; new_fillp = fillp + usize ch; (us, bad) = enc ch
      in and_then (if u_dim s < new_fillp then extend_utf fresh s else Inr s) (\<lambda>s1.
         and_then (write_units (u_self s1) fillp us) (\<lambda>buf.
         and_then (write_units buf new_fillp [0]) (\<lambda>buf'.
           Inr (fillp, s1\<lparr>u_fillp := new_fillp, u_self := buf'\<rparr>, bad)))))"

definition mkcl_utf_8_push_extend ::
  "(nat \<Rightarrow> char8 list) \<Rightarrow> char8 utf \<Rightarrow> character \<Rightarrow> utf_error + (nat \<times> char8 utf \<times> bool)" where
  "mkcl_utf_8_push_extend fresh s ch = push_extend fresh utf_8_encoder utf_8_size s ch"

definition mkcl_utf_16_push_extend ::
  "(nat \<Rightarrow> char16 list) \<Rightarrow> char16 utf \<Rightarrow> character \<Rightarrow> utf_error + (nat \<times> char16 utf \<times> bool)" where
  "mkcl_utf_16_push_extend fresh s ch = push_extend fresh utf_16_encoder utf_16_size s ch"

lemma extend_utf_dim: "extend_utf fresh s = Inr s1 \<Longrightarrow> u_dim s < u_dim s1"
  by (auto simp: extend_utf_def Let_def write_units_def split: if_splits)

text \<open>The loop that extends until there is room: each turn adds at least four units.\<close>

function extend_until :: "(nat \<Rightarrow> 'w :: zero list) \<Rightarrow> nat \<Rightarrow> 'w utf \<Rightarrow> utf_error + 'w utf" where
  "extend_until fresh n s =
     (if u_dim s < n
      then (case extend_utf fresh s of Inl err \<Rightarrow> Inl err | Inr s1 \<Rightarrow> extend_until fresh n s1)
      else Inr s)"
  by pat_completeness auto

termination
  by (relation "measure (\<lambda>(fresh, n, s). n - u_dim s)") (auto dest: extend_utf_dim)

definition utf_nconc ::
  "(nat \<Rightarrow> 'w :: zero list) \<Rightarrow> 'w utf \<Rightarrow> 'w utf \<Rightarrow> utf_error + 'w utf" where
  "utf_nconc fresh base other =
     (let n = u_fillp base + u_fillp other
      in if u_fillp other = 0 then Inr base
         else and_then (extend_until fresh n base) (\<lambda>base1.
              and_then (write_units (u_self base1) (u_fillp base) (units other)) (\<lambda>buf.
              and_then (write_units buf n [0]) (\<lambda>buf'.
                Inr (base1\<lparr>u_fillp := n, u_self := buf'\<rparr>)))))"

definition mkcl_utf_8_nconc :: "(nat \<Rightarrow> char8 list) \<Rightarrow> char8 utf \<Rightarrow> char8 utf \<Rightarrow> utf_error + char8 utf" where
  "mkcl_utf_8_nconc fresh base other = utf_nconc fresh base other"

definition mkcl_utf_16_nconc :: "(nat \<Rightarrow> char16 list) \<Rightarrow> char16 utf \<Rightarrow> char16 utf \<Rightarrow> utf_error + char16 utf" where
  "mkcl_utf_16_nconc fresh base other = utf_nconc fresh base other"

section \<open>Filling a buffer from a string\<close>

text \<open>
  While \<open>room j c\<close> holds the next character is encoded: the buffer, the position, what is left.
\<close>

fun encode_while ::
  "(nat \<Rightarrow> character \<Rightarrow> bool) \<Rightarrow> 'w encoder \<Rightarrow> 'w list \<Rightarrow> nat \<Rightarrow> character list
    \<Rightarrow> utf_error + ('w list \<times> nat \<times> character list)" where
  "encode_while room enc buf j [] = Inr (buf, j, [])"
| "encode_while room enc buf j (c # cs) =
     (if room j c
      then and_then (write_units buf j (fst (enc c))) (\<lambda>buf'.
             encode_while room enc buf' (j + length (fst (enc c))) cs)
      else Inr (buf, j, c # cs))"

definition fill_utf ::
  "(nat \<Rightarrow> 'w :: zero list) \<Rightarrow> 'w encoder \<Rightarrow> (character \<Rightarrow> nat) \<Rightarrow> nat \<Rightarrow> 'w utf \<Rightarrow> nat \<Rightarrow> character list
    \<Rightarrow> utf_error + 'w utf" where
  "fill_utf fresh enc usize max_per u prefix_size str =
     and_then (encode_while (\<lambda>j c. j + max_per < u_dim u) enc (u_self u) prefix_size str) (\<lambda>(buf1, j1, str1).
     and_then (encode_while (\<lambda>j c. j + usize c < u_dim u) enc buf1 j1 str1) (\<lambda>(buf2, j2, str2).
       if str2 = [] then
         and_then (write_units buf2 j2 [0]) (\<lambda>buf3. Inr (u\<lparr>u_fillp := j2, u_self := buf3\<rparr>))
       else
         (let dim = j2 + sum_list (map usize str2)
          in if length buf2 < j2 then Inl Overrun
             else and_then (write_units (fresh (dim + 1)) 0 (take j2 buf2)) (\<lambda>self.
                  and_then (encode_from enc self j2 str2) (\<lambda>(self1, j3, bad).
                  and_then (write_units self1 j3 [0]) (\<lambda>self2.
                    Inr \<lparr>u_dim = dim, u_fillp = dim, u_self = self2\<rparr>))))))"

definition mkcl_fill_utf_8_from_string ::
  "(nat \<Rightarrow> char8 list) \<Rightarrow> char8 utf \<Rightarrow> nat \<Rightarrow> character list \<Rightarrow> utf_error + char8 utf" where
  "mkcl_fill_utf_8_from_string fresh u prefix_size str =
     fill_utf fresh utf_8_encoder utf_8_size 4 u prefix_size str"

definition mkcl_fill_utf_8_from_base_string ::
  "(nat \<Rightarrow> char8 list) \<Rightarrow> char8 utf \<Rightarrow> nat \<Rightarrow> char8 list \<Rightarrow> utf_error + char8 utf" where
  "mkcl_fill_utf_8_from_base_string fresh u prefix_size str =
     fill_utf fresh utf_8_encoder utf_8_size 2 u prefix_size (map ucast str)"

definition mkcl_fill_utf_16_from_string ::
  "(nat \<Rightarrow> char16 list) \<Rightarrow> char16 utf \<Rightarrow> nat \<Rightarrow> character list \<Rightarrow> utf_error + char16 utf" where
  "mkcl_fill_utf_16_from_string fresh u prefix_size str =
     fill_utf fresh utf_16_encoder utf_16_size 2 u prefix_size str"

text \<open>The fill pointer is set to the number of characters copied, without the prefix.\<close>

definition mkcl_fill_utf_16_from_base_string ::
  "(nat \<Rightarrow> char16 list) \<Rightarrow> char16 utf \<Rightarrow> nat \<Rightarrow> char8 list \<Rightarrow> utf_error + char16 utf" where
  "mkcl_fill_utf_16_from_base_string fresh u prefix_size str =
     (let n = length str + prefix_size
      in and_then
           (if u_dim u < n then
              (if length (u_self u) < prefix_size then Inl Overrun
               else and_then (write_units (fresh (n + 1)) 0 (take prefix_size (u_self u))) (\<lambda>self.
                      Inr (u\<lparr>u_dim := n, u_self := self\<rparr>)))
            else Inr u) (\<lambda>u1.
         and_then (write_units (u_self u1) prefix_size (map ucast str @ [0])) (\<lambda>self.
           Inr (u1\<lparr>u_fillp := length str, u_self := self\<rparr>))))"

section \<open>Comparison and concatenation\<close>

definition utf_equal :: "'w utf \<Rightarrow> 'w utf \<Rightarrow> bool" where
  "utf_equal u1 u2 \<longleftrightarrow> u_fillp u1 = u_fillp u2 \<and> units u1 = units u2"

text \<open>Copying the non-empty strings, the last first, into a string of the total length.\<close>

fun copy_back :: "'w list \<Rightarrow> nat \<Rightarrow> 'w list list \<Rightarrow> utf_error + 'w list" where
  "copy_back buf len [] = Inr buf"
| "copy_back buf len (s # ss) =
     and_then (write_units buf (len - length s) s) (\<lambda>buf'. copy_back buf' (len - length s) ss)"

definition concat_utf :: "(nat \<Rightarrow> 'w :: zero list) \<Rightarrow> 'w utf list \<Rightarrow> utf_error + 'w utf" where
  "concat_utf fresh us =
     (let ss = filter (\<lambda>s. s \<noteq> []) (map units us); len = sum_list (map length ss)
      in and_then (write_units (fresh (len + 1)) len [0]) (\<lambda>buf.
         and_then (copy_back buf len (rev ss)) (\<lambda>buf'.
           Inr \<lparr>u_dim = len, u_fillp = len, u_self = buf'\<rparr>)))"

fun convert_all ::
  "(text_object \<Rightarrow> (utf_error + ('w utf \<times> bool)) option) \<Rightarrow> text_object list \<Rightarrow> (utf_error + 'w utf list) option" where
  "convert_all conv [] = Some (Inr [])"
| "convert_all conv (x # xs) =
     Option.bind (conv x) (\<lambda>r. case r of
         Inl err \<Rightarrow> Some (Inl err)
       | Inr (u, bad) \<Rightarrow> map_option (\<lambda>r'. and_then r' (\<lambda>us. Inr (u # us))) (convert_all conv xs))"

text \<open>One argument is converted, or copied if it has the right encoding already.\<close>

definition utf_plus ::
  "(nat \<Rightarrow> 'w :: zero list) \<Rightarrow> (text_object \<Rightarrow> 'w utf option)
    \<Rightarrow> (text_object \<Rightarrow> (utf_error + ('w utf \<times> bool)) option) \<Rightarrow> text_object list \<Rightarrow> (utf_error + 'w utf) option" where
  "utf_plus fresh own conv args =
     (case args of
        [x] \<Rightarrow> (case own x of
                   Some u \<Rightarrow> Some (concat_utf fresh [u])
                 | None \<Rightarrow> map_option (\<lambda>r. and_then r (\<lambda>(u, bad). Inr u)) (conv x))
      | _ \<Rightarrow> map_option (\<lambda>r. and_then r (concat_utf fresh)) (convert_all conv args))"

definition mk_si_utf_8Plus :: "(nat \<Rightarrow> char8 list) \<Rightarrow> text_object list \<Rightarrow> (utf_error + char8 utf) option" where
  "mk_si_utf_8Plus fresh args =
     utf_plus fresh (\<lambda>x. case x of UTF_8 u \<Rightarrow> Some u | _ \<Rightarrow> None) (mk_si_utf_8 fresh) args"

definition mk_si_utf_16Plus :: "(nat \<Rightarrow> char16 list) \<Rightarrow> text_object list \<Rightarrow> (utf_error + char16 utf) option" where
  "mk_si_utf_16Plus fresh args =
     utf_plus fresh (\<lambda>x. case x of UTF_16 u \<Rightarrow> Some u | _ \<Rightarrow> None) (mk_si_utf_16 fresh) args"

definition mk_si_utf_8E :: "char8 utf \<Rightarrow> char8 utf \<Rightarrow> bool" where
  "mk_si_utf_8E u1 u2 = utf_equal u1 u2"

definition mk_si_utf_16E :: "char16 utf \<Rightarrow> char16 utf \<Rightarrow> bool" where
  "mk_si_utf_16E u1 u2 = utf_equal u1 u2"

text \<open>
  Unit by unit, a character that does not fit replaced: for UTF-8 a character above 127, tested
  after it was cut to eight bits; for UTF-16 one outside the basic plane or a surrogate, if what
  is left of it is above \<open>0xD800\<close>.
\<close>

definition mk_si_utf_8_as_is :: "(nat \<Rightarrow> char8 list) \<Rightarrow> character list \<Rightarrow> utf_error + char8 utf" where
  "mk_si_utf_8_as_is fresh str =
     and_then (write_units (fresh (length str + 1)) 0
         (map (\<lambda>c. if 0x7F < (ucast c :: char8) then 0x3F else ucast c) str @ [0])) (\<lambda>self.
       Inr \<lparr>u_dim = length str, u_fillp = length str, u_self = self\<rparr>)"

definition mk_si_utf_16_as_is :: "(nat \<Rightarrow> char16 list) \<Rightarrow> character list \<Rightarrow> utf_error + char16 utf" where
  "mk_si_utf_16_as_is fresh str =
     and_then (write_units (fresh (length str + 1)) 0
         (map (\<lambda>c. if 0xD800 < (ucast c :: char16) \<and> (c \<le> 0xDFFF \<or> 0xFFFF < c) then 0xFFFD else ucast c) str @ [0])) (\<lambda>self.
       Inr \<lparr>u_dim = length str, u_fillp = length str, u_self = self\<rparr>)"

end
