(* ===== verification/Utf_Props.thy ===== *)
theory Utf_Props
  imports Utf
begin

text \<open>
  One character of UTF-8 and UTF-16. Bit operations on bytes and characters are turned into
  division and remainder of the numbers they stand for; then decoding what the encoder wrote
  brings the character back (\<open>utf_8_decode_encode\<close>, \<open>utf_16_decode_encode\<close>), the decoders stay
  inside their input, and what the UTF-8 decoder accepts is, but for two gaps, what the encoder
  writes (\<open>utf_8_canonical\<close>).
\<close>

section \<open>Words as numbers\<close>

lemma unat_and_mask: "unat (x AND mask n) = unat x mod 2 ^ n" for x :: "'a :: len word"
  unfolding take_bit_eq_mask [symmetric] unsigned_take_bit_eq by (rule take_bit_nat_def)

lemma nat_or_add: "m < 2 ^ n \<Longrightarrow> (k * 2 ^ n) OR m = k * 2 ^ n + (m :: nat)"
proof -
  assume "m < 2 ^ n"
  then have m: "m = take_bit n m" by (simp add: take_bit_nat_eq_self)
  have "\<not> bit (push_bit n k) i \<or> \<not> bit m i" for i
    by (subst m) (auto simp: bit_take_bit_iff bit_push_bit_iff)
  from disjunctive_add [of "push_bit n k" m, OF this] show ?thesis by (simp add: push_bit_eq_mult)
qed

lemma unat_or_add:
  fixes a b :: "'a :: len word"
  assumes "unat a = k * 2 ^ n" and "unat b < 2 ^ n"
  shows "unat (a OR b) = k * 2 ^ n + unat b"
  using nat_or_add [OF assms(2), of k] assms(1) by (simp add: unsigned_or_eq)

lemma bit_byte: "bit (b :: char8) n \<longleftrightarrow> odd (unat b div 2 ^ n)"
  by (simp flip: bit_iff_odd add: bit_unsigned_iff)

lemma bit_of_byte: "(b :: char8) AND 2 ^ n = 0 \<longleftrightarrow> even (unat b div 2 ^ n)"
  by (simp add: and_exp_eq_0_iff_not_bit bit_byte)

lemma unat_byte: "unat (b :: char8) < 256"
  using unsigned_less [of b] by simp

lemma byte_and:
  "unat ((b :: char8) AND 0x3F) = unat b mod 64" "unat (b AND 0x1F) = unat b mod 32"
  "unat (b AND 0x0F) = unat b mod 16" "unat (b AND 0x07) = unat b mod 8"
  using unat_and_mask [of b 6] unat_and_mask [of b 5] unat_and_mask [of b 4] unat_and_mask [of b 3]
  by (simp_all add: mask_eq_exp_minus_1)

lemma byte_bits:
  "(b :: char8) AND 0x80 = 0 \<longleftrightarrow> even (unat b div 128)" "b AND 0x40 = 0 \<longleftrightarrow> even (unat b div 64)"
  "b AND 0x20 = 0 \<longleftrightarrow> even (unat b div 32)" "b AND 0x10 = 0 \<longleftrightarrow> even (unat b div 16)"
  "b AND 0x08 = 0 \<longleftrightarrow> even (unat b div 8)"
  using bit_of_byte [of b 7] bit_of_byte [of b 6] bit_of_byte [of b 5] bit_of_byte [of b 4] bit_of_byte [of b 3]
  by simp_all

lemma top_bits: "bit (0xC0 :: char8) i \<longleftrightarrow> i = 6 \<or> i = 7" "bit (0x80 :: char8) i \<longleftrightarrow> i = 7"
  using bit_push_bit_iff [of 6 "mask 2 :: char8" i] bit_push_bit_iff [of 7 "1 :: char8" i]
  by (auto simp: bit_mask_iff bit_1_iff bit_Suc mask_eq_exp_minus_1 push_bit_eq_mult)

lemma continuation_unat: "continuation_byte b \<longleftrightarrow> 0x80 \<le> unat b \<and> unat b < 0xC0"
proof -
  have "continuation_byte b \<longleftrightarrow> bit b 7 \<and> \<not> bit b 6"
  proof
    assume "continuation_byte b"
    then have "bit (b AND 0xC0) i \<longleftrightarrow> bit (0x80 :: char8) i" for i by (simp add: continuation_byte_def)
    from this [of 7] this [of 6] show "bit b 7 \<and> \<not> bit b 6" by (simp add: bit_and_iff top_bits)
  next
    assume "bit b 7 \<and> \<not> bit b 6"
    then show "continuation_byte b" unfolding continuation_byte_def
      by (intro bit_word_eqI) (auto simp: bit_and_iff top_bits)
  qed
  moreover have "unat b div 128 = unat b div 64 div 2" by (simp add: div_mult2_eq [symmetric])
  moreover have "odd (q div 2) \<and> even q \<longleftrightarrow> q = 2" if "q < 4" for q :: nat
  proof -
    have "q \<in> {0, 1, 2, 3}" using that by auto
    then show ?thesis by auto
  qed
  from this [of "unat b div 64"] have "odd (unat b div 64 div 2) \<and> even (unat b div 64) \<longleftrightarrow> unat b div 64 = 2"
    using unat_byte [of b] by simp
  moreover have "unat b div 64 = 2 \<longleftrightarrow> 0x80 \<le> unat b \<and> unat b < 0xC0"
    by (auto simp: div_nat_eqI)
  ultimately show ?thesis by (simp add: bit_byte)
qed

section \<open>UTF-8: one character\<close>

lemma unat_tail_bits: "unat (tail_bits c) = unat c mod 64"
  by (simp add: tail_bits_def byte_and unsigned_ucast_eq take_bit_nat_eq_self_iff)

lemma unat_push:
  fixes c :: character
  assumes "unat c * 2 ^ n < 2 ^ 32"
  shows "unat (push_bit n c) = unat c * 2 ^ n"
proof -
  have "unat (push_bit n c) = take_bit 32 (push_bit n (unat c))" by (simp only: unsigned_push_bit_eq) simp
  then show ?thesis using assms by (simp only: push_bit_eq_mult take_bit_nat_eq_self)
qed

lemma unat_drop: "unat (drop_bit n c) = unat c div 2 ^ n" for c :: character
  unfolding unat_drop_bit_eq by (rule drop_bit_eq_div)

lemma cum_2: "unat c < 32 \<Longrightarrow> unat (push_bit 6 c OR tail_bits d) = unat c * 64 + unat d mod 64"
  using unat_or_add [of "push_bit 6 c" "unat c" 6 "tail_bits d"] unat_push [of c 6] unat_tail_bits [of d] by simp

lemma cum_3:
  assumes "unat c < 16"
  shows "unat (push_bit 12 c OR push_bit 6 (tail_bits d1) OR tail_bits d2)
    = unat c * 4096 + unat d1 mod 64 * 64 + unat d2 mod 64"
proof -
  have 1: "unat (push_bit 12 c) = unat c * 2 ^ 12" using assms by (intro unat_push) simp
  have 2: "unat (push_bit 6 (tail_bits d1)) = (unat d1 mod 64) * 2 ^ 6"
    using unat_push [of "tail_bits d1" 6] by (simp add: unat_tail_bits)
  have 3: "unat (push_bit 12 c OR push_bit 6 (tail_bits d1)) = unat c * 4096 + unat d1 mod 64 * 64"
    using unat_or_add [OF 1, of "push_bit 6 (tail_bits d1)"] 2 by simp
  show ?thesis
    using unat_or_add [of "push_bit 12 c OR push_bit 6 (tail_bits d1)" "unat c * 64 + unat d1 mod 64" 6 "tail_bits d2"] 3
    by (simp add: unat_tail_bits algebra_simps or.assoc)
qed

lemma cum_4:
  assumes "unat c < 8"
  shows "unat (push_bit 18 c OR push_bit 12 (tail_bits d1) OR push_bit 6 (tail_bits d2) OR tail_bits d3)
    = unat c * 262144 + unat d1 mod 64 * 4096 + unat d2 mod 64 * 64 + unat d3 mod 64"
proof -
  have 1: "unat (push_bit 18 c) = unat c * 2 ^ 18" using assms by (intro unat_push) simp
  have 2: "unat (push_bit 12 (tail_bits d1)) = (unat d1 mod 64) * 2 ^ 12"
    using unat_push [of "tail_bits d1" 12] by (simp add: unat_tail_bits)
  have 3: "unat (push_bit 6 (tail_bits d2)) = (unat d2 mod 64) * 2 ^ 6"
    using unat_push [of "tail_bits d2" 6] by (simp add: unat_tail_bits)
  have 4: "unat (push_bit 18 c OR push_bit 12 (tail_bits d1)) = (unat c * 64 + unat d1 mod 64) * 2 ^ 12"
    using unat_or_add [OF 1, of "push_bit 12 (tail_bits d1)"] 2 by simp
  have 5: "unat (push_bit 18 c OR push_bit 12 (tail_bits d1) OR push_bit 6 (tail_bits d2))
      = ((unat c * 64 + unat d1 mod 64) * 64 + unat d2 mod 64) * 2 ^ 6"
    using unat_or_add [OF 4, of "push_bit 6 (tail_bits d2)"] 3 by (simp add: or.assoc)
  show ?thesis using unat_or_add [OF 5, of "tail_bits d3"] by (simp add: unat_tail_bits algebra_simps or.assoc)
qed

lemma unat_low_bits: "unat (low_bits n c) = 0x80 + unat c div 2 ^ n mod 64"
proof -
  have "unat (drop_bit n c AND 0x3F) = unat c div 2 ^ n mod 64"
    using unat_and_mask [of "drop_bit n c" 6] by (simp add: mask_eq_exp_minus_1 unat_drop)
  then have "unat (ucast (drop_bit n c AND 0x3F) :: char8) = unat c div 2 ^ n mod 64"
    by (simp add: unsigned_ucast_eq take_bit_nat_eq_self_iff)
  moreover have "unat c div 2 ^ n mod 64 < 2 ^ 7" using pos_mod_bound [of 64] by (simp add: less_le_trans [of _ 64])
  ultimately show ?thesis
    using unat_or_add [of "0x80 :: char8" 1 7 "ucast (drop_bit n c AND 0x3F)"]
    by (simp add: low_bits_def or.commute)
qed

lemma unat_lead:
  fixes lead :: char8 and c :: character
  assumes "unat lead = k * 2 ^ m" and "unat c div 2 ^ n < 2 ^ m" and "m \<le> 8"
  shows "unat (ucast (drop_bit n c) OR lead) = k * 2 ^ m + unat c div 2 ^ n"
proof -
  have "unat c div 2 ^ n < 2 ^ 8"
    using assms(2,3) power_increasing [of m 8 "2 :: nat"] by simp
  then have "unat (ucast (drop_bit n c) :: char8) = unat c div 2 ^ n"
    by (simp add: unsigned_ucast_eq unat_drop take_bit_nat_eq_self)
  then show ?thesis
    using unat_or_add [OF assms(1), of "ucast (drop_bit n c)"] assms(2) by (simp add: or.commute)
qed


text \<open>The characters that have an encoding of their own.\<close>

definition scalar :: "character \<Rightarrow> bool" where
  "scalar c \<longleftrightarrow> c \<le> 0x10FFFF \<and> \<not> (0xD800 \<le> c \<and> c \<le> 0xDFFF) \<and> c \<noteq> 0xFFFE \<and> c \<noteq> 0xFFFF"

lemma scalar_unat:
  "scalar c \<longleftrightarrow> unat c \<le> 0x10FFFF \<and> \<not> (0xD800 \<le> unat c \<and> unat c \<le> 0xDFFF) \<and> unat c \<noteq> 0xFFFE \<and> unat c \<noteq> 0xFFFF"
proof -
  have "c = 0xFFFE \<longleftrightarrow> unat c = 0xFFFE" "c = 0xFFFF \<longleftrightarrow> unat c = 0xFFFF"
    by (simp_all add: word_unat_eq_iff)
  then show ?thesis by (simp add: scalar_def word_le_nat_alt)
qed

lemma utf_8_length: "length (fst (utf_8_encoder c)) = utf_8_size c"
  by (auto simp: utf_8_encoder_def utf_8_size_def replacement_8_def word_le_nat_alt word_less_nat_alt)

lemma utf_8_size_bounds: "1 \<le> utf_8_size c" "utf_8_size c \<le> 4"
  by (auto simp: utf_8_size_def)

lemma utf_8_bad: "snd (utf_8_encoder c) \<longleftrightarrow> \<not> scalar c"
  by (auto simp: utf_8_encoder_def scalar_unat word_le_nat_alt word_less_nat_alt)


text \<open>What the decoder does, in terms of the values of the bytes.\<close>

lemma decode_1: "unat b < 0x80 \<Longrightarrow> utf_8_decoder (b # r) = (1, ucast b, False)"
  by (simp add: utf_8_decoder_def byte_bits)

lemma decode_2:
  assumes "0xC0 \<le> unat b" and "unat b < 0xE0"
  shows "utf_8_decoder (b # d # r) = decode_tail 2 (ucast (b AND 0x1F)) (d # r)"
proof -
  have "unat b div 128 = 1" "unat b div 64 = 3" "unat b div 32 = 6" using assms by (simp_all add: div_nat_eqI)
  then show ?thesis by (simp add: utf_8_decoder_def lead_byte_def byte_bits)
qed

lemma decode_3:
  assumes "0xE0 \<le> unat b" and "unat b < 0xF0"
  shows "utf_8_decoder (b # d1 # d2 # r) = decode_tail 3 (ucast (b AND 0x0F)) (d1 # d2 # r)"
proof -
  have "unat b div 128 = 1" "unat b div 64 = 3" "unat b div 32 = 7" "unat b div 16 = 14"
    using assms by (simp_all add: div_nat_eqI)
  then show ?thesis by (simp add: utf_8_decoder_def lead_byte_def byte_bits)
qed

lemma decode_4:
  assumes "0xF0 \<le> unat b" and "unat b < 0xF8"
  shows "utf_8_decoder (b # d1 # d2 # d3 # r) = decode_tail 4 (ucast (b AND 0x07)) (d1 # d2 # d3 # r)"
proof -
  have "unat b div 128 = 1" "unat b div 64 = 3" "unat b div 32 = 7" "unat b div 16 = 15" "unat b div 8 = 30"
    using assms by (simp_all add: div_nat_eqI)
  then show ?thesis by (simp add: utf_8_decoder_def lead_byte_def byte_bits)
qed

lemma unat_cum:
  "unat (ucast ((b :: char8) AND 0x1F) :: character) = unat b mod 32"
  "unat (ucast (b AND 0x0F) :: character) = unat b mod 16"
  "unat (ucast (b AND 0x07) :: character) = unat b mod 8"
  by (simp_all add: byte_and unsigned_ucast_eq take_bit_nat_eq_self_iff)

lemma check_scalar: "scalar c \<Longrightarrow> 0 < unat c \<Longrightarrow> check_codepoint n c = (n, c, False)"
proof -
  assume c: "scalar c" "0 < unat c"
  then have "c \<noteq> 0" by auto
  moreover have "\<not> (0xD800 \<le> c \<and> (c \<le> 0xDFFF \<or> (0xFFFE \<le> c \<and> c \<le> 0xFFFF)))"
    using c(1) by (auto simp: scalar_unat word_le_nat_alt)
  ultimately show ?thesis by (auto simp: check_codepoint_def)
qed

text \<open>Decoding what was encoded.\<close>

lemma round_1: "c \<le> 0x7F \<Longrightarrow> utf_8_decoder (ucast c # r) = (1, c, False)"
proof -
  assume "c \<le> 0x7F"
  then have "unat c < 0x80" by (simp add: word_le_nat_alt)
  then have u: "unat (ucast c :: char8) = unat c" by (simp add: unsigned_ucast_eq take_bit_nat_eq_self)
  then have "unat (ucast (ucast c :: char8) :: character) = unat c"
    by (simp only: unsigned_ucast_eq [of "ucast c :: char8"]) (use \<open>unat c < 0x80\<close> in \<open>simp add: take_bit_nat_eq_self\<close>)
  then have "ucast (ucast c :: char8) = c" by (simp add: word_unat_eq_iff)
  then show ?thesis using decode_1 [of "ucast c" r] \<open>unat c < 0x80\<close> u by simp
qed


lemma round_2:
  assumes "0x80 \<le> unat c" and "unat c \<le> 0x7FF"
  shows "utf_8_decoder ((ucast (drop_bit 6 c) OR 0xC0) # low_bits 0 c # r) = (2, c, False)"
proof -
  let ?b = "ucast (drop_bit 6 c) OR 0xC0 :: char8"
  have q: "unat c div 64 < 2 ^ 5" "2 \<le> unat c div 64" using assms div_le_mono [of 128 "unat c" 64] by simp_all
  have b: "unat ?b = 0xC0 + unat c div 64" using unat_lead [of "0xC0" 6 5 c 6] q by simp
  have m: "unat ?b mod 32 = unat c div 64" unfolding b using q(1) mod_add_self1 by (simp add: mod_add_left_eq [symmetric])
  have d: "unat (low_bits 0 c) = 0x80 + unat c mod 64" by (simp add: unat_low_bits)
  have dm: "unat (low_bits 0 c) mod 64 = unat c mod 64" unfolding d by (simp add: mod_add_left_eq [symmetric])
  let ?cum = "ucast (?b AND 0x1F) :: character"
  have cum: "unat ?cum = unat c div 64" by (simp only: unat_cum m)
  have "unat (push_bit 6 ?cum OR tail_bits (low_bits 0 c)) = unat c"
    using cum_2 [of ?cum "low_bits 0 c"] q(1) by (simp only: cum dm) simp
  then have v: "push_bit 6 ?cum OR tail_bits (low_bits 0 c) = c" by (simp only: word_unat_eq_iff)
  have "?cum \<noteq> 0" using cum q(2) by (auto simp del: word_unat_eq_iff)
  moreover have "continuation_byte (low_bits 0 c)" using d by (simp add: continuation_unat)
  moreover have "scalar c" "0 < unat c" using assms by (simp_all add: scalar_unat)
  ultimately show ?thesis
    using decode_2 [of ?b "low_bits 0 c" r] b q by (simp add: decode_tail_def v check_scalar)
qed


lemma low_facts:
  "continuation_byte (low_bits n c)" "unat (low_bits n c) mod 64 = unat c div 2 ^ n mod 64"
  "unat (tail_bits (low_bits n c)) = unat c div 2 ^ n mod 64"
proof -
  show 1: "unat (low_bits n c) mod 64 = unat c div 2 ^ n mod 64"
    unfolding unat_low_bits by (simp add: mod_add_left_eq [symmetric])
  show "continuation_byte (low_bits n c)" by (simp add: continuation_unat unat_low_bits)
  show "unat (tail_bits (low_bits n c)) = unat c div 2 ^ n mod 64" by (simp only: unat_tail_bits 1)
qed

lemma split_64: "(n :: nat) div 64 * 64 + n mod 64 = n" "n div 4096 * 64 + n div 64 mod 64 = n div 64"
    "n div 262144 * 64 + n div 4096 mod 64 = n div 4096"
  using div_mult_mod_eq [of n 64] div_mult_mod_eq [of "n div 64" 64] div_mult_mod_eq [of "n div 4096" 64]
  by (simp_all add: div_mult2_eq [symmetric])

lemma split_3: "(n :: nat) div 4096 * 4096 + n div 64 mod 64 * 64 + n mod 64 = n"
  using split_64(1,2) [of n] by linarith

lemma split_4: "(n :: nat) div 262144 * 262144 + n div 4096 mod 64 * 4096 + n div 64 mod 64 * 64 + n mod 64 = n"
  using split_64 [of n] by linarith

lemma decode_tail_3:
  assumes "continuation_byte d1" and "continuation_byte d2" and "\<not> (cum = 0 \<and> d1 AND 0x20 = 0)"
  shows "decode_tail 3 cum (d1 # d2 # r) = check_codepoint 3 (push_bit 12 cum OR push_bit 6 (tail_bits d1) OR tail_bits d2)"
  using assms by (auto simp: decode_tail_def Let_def)

lemma decode_tail_4:
  assumes "continuation_byte d1" and "continuation_byte d2" and "continuation_byte d3"
    and "\<not> (cum = 0 \<and> d1 AND 0x30 = 0)"
  shows "decode_tail 4 cum (d1 # d2 # d3 # r)
    = check_codepoint 4 (push_bit 18 cum OR push_bit 12 (tail_bits d1) OR push_bit 6 (tail_bits d2) OR tail_bits d3)"
  using assms by (auto simp: decode_tail_def Let_def numeral_2_eq_2)

lemma round_3:
  assumes "0x800 \<le> unat c" and "unat c \<le> 0xFFFF" and "scalar c"
  shows "utf_8_decoder ((ucast (drop_bit 12 c) OR 0xE0) # low_bits 6 c # low_bits 0 c # r) = (3, c, False)"
proof -
  let ?b = "ucast (drop_bit 12 c) OR 0xE0 :: char8" and ?d1 = "low_bits 6 c" and ?d2 = "low_bits 0 c"
  have q: "unat c div 4096 < 2 ^ 4" using assms by simp
  have b: "unat ?b = 0xE0 + unat c div 4096" using unat_lead [of "0xE0" 14 4 c 12] q by simp
  have m: "unat ?b mod 16 = unat c div 4096" unfolding b using q by (simp add: mod_add_left_eq [symmetric])
  let ?cum = "ucast (?b AND 0x0F) :: character"
  have cum: "unat ?cum = unat c div 4096" by (simp only: unat_cum m)
  have "unat (push_bit 12 ?cum OR push_bit 6 (tail_bits ?d1) OR tail_bits ?d2) = unat c"
    using cum_3 [of ?cum ?d1 ?d2] q split_3 [of "unat c"] by (simp only: cum low_facts) simp
  then have v: "push_bit 12 ?cum OR push_bit 6 (tail_bits ?d1) OR tail_bits ?d2 = c" by (simp only: word_unat_eq_iff)
  have "\<not> (?cum = 0 \<and> ?d1 AND 0x20 = 0)"
  proof
    assume *: "?cum = 0 \<and> ?d1 AND 0x20 = 0"
    then have "unat c div 4096 = 0" using cum by simp
    then have "unat c < 4096" by simp
    then have "unat c div 64 = unat c div 64 mod 64" by simp
    moreover have "unat ?d1 = 0x80 + unat c div 64 mod 64" by (simp add: unat_low_bits)
    ultimately have u: "unat ?d1 = 0x80 + unat c div 64" by simp
    have "32 \<le> unat c div 64" using assms(1) div_le_mono [of 2048 "unat c" 64] by simp
    moreover have "unat c div 64 < 64" using \<open>unat c < 4096\<close> by simp
    ultimately have "unat ?d1 div 32 = 5" unfolding u by (simp add: div_nat_eqI)
    then show False using * by (simp add: byte_bits)
  qed
  then show ?thesis
    using decode_3 [of ?b ?d1 ?d2 r] decode_tail_3 [OF low_facts(1) low_facts(1), of ?cum 6 c 0 c r] b q assms
    by (simp only: v check_scalar) simp
qed


lemma and_30: "(b :: char8) AND 0x30 = 0 \<Longrightarrow> b AND 0x20 = 0 \<and> b AND 0x10 = 0"
proof -
  assume "b AND 0x30 = 0"
  moreover have "b AND 0x20 = (b AND 0x30) AND 0x20" "b AND 0x10 = (b AND 0x30) AND 0x10"
    by (simp_all add: and.assoc)
  ultimately show ?thesis by simp
qed

lemma round_4:
  assumes "0x10000 \<le> unat c" and "unat c \<le> 0x10FFFF"
  shows "utf_8_decoder ((ucast (drop_bit 18 c) OR 0xF0) # low_bits 12 c # low_bits 6 c # low_bits 0 c # r) = (4, c, False)"
proof -
  let ?b = "ucast (drop_bit 18 c) OR 0xF0 :: char8"
  let ?d1 = "low_bits 12 c" and ?d2 = "low_bits 6 c" and ?d3 = "low_bits 0 c"
  have q: "unat c div 262144 < 2 ^ 3" using assms by simp
  have b: "unat ?b = 0xF0 + unat c div 262144" using unat_lead [of "0xF0" 30 3 c 18] q by simp
  have m: "unat ?b mod 8 = unat c div 262144" unfolding b using q by (simp add: mod_add_left_eq [symmetric])
  let ?cum = "ucast (?b AND 0x07) :: character"
  have cum: "unat ?cum = unat c div 262144" by (simp only: unat_cum m)
  have "unat (push_bit 18 ?cum OR push_bit 12 (tail_bits ?d1) OR push_bit 6 (tail_bits ?d2) OR tail_bits ?d3) = unat c"
    using cum_4 [of ?cum ?d1 ?d2 ?d3] q split_4 [of "unat c"] by (simp only: cum low_facts) simp
  then have v: "push_bit 18 ?cum OR push_bit 12 (tail_bits ?d1) OR push_bit 6 (tail_bits ?d2) OR tail_bits ?d3 = c"
    by (simp only: word_unat_eq_iff)
  have overlong: "\<not> (?cum = 0 \<and> ?d1 AND 0x30 = 0)"
  proof
    assume *: "?cum = 0 \<and> ?d1 AND 0x30 = 0"
    then have "unat c div 262144 = 0" using cum by simp
    then have c: "unat c < 262144" by simp
    have "unat c div 4096 < 64" using c by simp
    then have u: "unat ?d1 = 0x80 + unat c div 4096" by (simp add: unat_low_bits)
    have "16 \<le> unat c div 4096" using assms(1) div_le_mono [of 65536 "unat c" 4096] by simp
    with \<open>unat c div 4096 < 64\<close> have "unat ?d1 div 16 = 9 \<or> unat ?d1 div 32 = 5"
      unfolding u by (cases "unat c div 4096 < 32") (simp_all add: div_nat_eqI)
    then have "odd (unat ?d1 div 32) \<or> odd (unat ?d1 div 16)" by auto
    then show False using and_30 [of ?d1] * by (simp add: byte_bits)
  qed
  have "scalar c" "0 < unat c" using assms by (simp_all add: scalar_unat)
  with overlong show ?thesis
    using decode_4 [of ?b ?d1 ?d2 ?d3 r]
      decode_tail_4 [OF low_facts(1) low_facts(1) low_facts(1), of ?cum 12 c 6 c 0 c r] b q
    by (simp only: v check_scalar) simp
qed


lemma utf_8_decode_encode:
  assumes "scalar c"
  shows "utf_8_decoder (fst (utf_8_encoder c) @ r) = (utf_8_size c, c, False)"
proof -
  have "unat c \<le> 0x10FFFF" using assms by (simp add: scalar_unat)
  then consider "unat c \<le> 0x7F" | "0x80 \<le> unat c" "unat c \<le> 0x7FF" | "0x800 \<le> unat c" "unat c \<le> 0xFFFF"
    | "0x10000 \<le> unat c" "unat c \<le> 0x10FFFF" by linarith
  then show ?thesis
  proof cases
    case 1
    then have "c \<le> 0x7F" by (simp add: word_le_nat_alt)
    then show ?thesis using round_1 by (simp add: utf_8_encoder_def utf_8_size_def)
  next
    case 2
    then have "\<not> c \<le> 0x7F" "c \<le> 0x7FF" by (simp_all add: word_le_nat_alt)
    then show ?thesis using round_2 [OF 2] by (simp add: utf_8_encoder_def utf_8_size_def)
  next
    case 3
    then have "\<not> c \<le> 0x7F" "\<not> c \<le> 0x7FF" "c \<le> 0xFFFF" "c \<le> 0xD7FF \<or> 0xDFFF < c \<and> c < 0xFFFE"
      using assms by (auto simp: word_le_nat_alt word_less_nat_alt scalar_unat)
    then show ?thesis using round_3 [OF 3 assms] by (auto simp: utf_8_encoder_def utf_8_size_def)
  next
    case 4
    then have "\<not> c \<le> 0x7F" "\<not> c \<le> 0x7FF" "\<not> c \<le> 0xFFFF" "c \<le> 0x10FFFF"
        "\<not> (c \<le> 0xD7FF \<or> 0xDFFF < c \<and> c < 0xFFFE)"
      by (auto simp: word_le_nat_alt word_less_nat_alt)
    then show ?thesis using round_4 [OF 4] by (auto simp: utf_8_encoder_def utf_8_size_def)
  qed
qed


text \<open>
  The decoder stays inside its input, and what it accepts is what the encoder writes, but for two
  gaps: a first byte \<open>0xC1\<close>, which begins an overlong sequence, and the values above \<open>0x10FFFF\<close>.
\<close>

lemma swallow_bounds: "i \<le> swallow_tail cs i" "swallow_tail cs i \<le> i + length cs"
  by (induction cs i rule: swallow_tail.induct) auto

lemma check_fst [simp]: "fst (check_codepoint n c) = n" "fst (malformed n) = n"
  by (auto simp: check_codepoint_def malformed_def)

lemma decode_ranges:
  "0x80 \<le> unat b \<Longrightarrow> unat b < 0xC0 \<Longrightarrow> utf_8_decoder (b # r) = malformed 1"
  "0xF8 \<le> unat b \<Longrightarrow> utf_8_decoder (b # r) = malformed 1"
proof -
  assume "0x80 \<le> unat b" "unat b < 0xC0"
  then have "unat b div 128 = 1" "unat b div 64 = 2" by (simp_all add: div_nat_eqI)
  then show "utf_8_decoder (b # r) = malformed 1" by (simp add: utf_8_decoder_def byte_bits)
next
  assume "0xF8 \<le> unat b"
  then have "unat b div 128 = 1" "unat b div 64 = 3" "unat b div 32 = 7" "unat b div 16 = 15" "unat b div 8 = 31"
    using unat_byte [of b] by (simp_all add: div_nat_eqI)
  then show "utf_8_decoder (b # r) = malformed 1" by (simp add: utf_8_decoder_def lead_byte_def byte_bits)
qed

lemma lead_ranges:
  "0xC0 \<le> unat b \<Longrightarrow> unat b < 0xE0 \<Longrightarrow> lead_byte b = Some (2, ucast (b AND 0x1F))"
  "0xE0 \<le> unat b \<Longrightarrow> unat b < 0xF0 \<Longrightarrow> lead_byte b = Some (3, ucast (b AND 0x0F))"
  "0xF0 \<le> unat b \<Longrightarrow> unat b < 0xF8 \<Longrightarrow> lead_byte b = Some (4, ucast (b AND 0x07))"
proof -
  assume "0xC0 \<le> unat b" "unat b < 0xE0"
  then have "unat b div 32 = 6" by (simp add: div_nat_eqI)
  then show "lead_byte b = Some (2, ucast (b AND 0x1F))" by (simp add: lead_byte_def byte_bits)
next
  assume "0xE0 \<le> unat b" "unat b < 0xF0"
  then have "unat b div 32 = 7" "unat b div 16 = 14" by (simp_all add: div_nat_eqI)
  then show "lead_byte b = Some (3, ucast (b AND 0x0F))" by (simp add: lead_byte_def byte_bits)
next
  assume "0xF0 \<le> unat b" "unat b < 0xF8"
  then have "unat b div 32 = 7" "unat b div 16 = 15" "unat b div 8 = 30" by (simp_all add: div_nat_eqI)
  then show "lead_byte b = Some (4, ucast (b AND 0x07))" by (simp add: lead_byte_def byte_bits)
qed

lemma decode_lead:
  assumes "0xC0 \<le> unat b" and "lead_byte b = Some (n, cum)"
  shows "utf_8_decoder (b # r) = (if Suc (length r) < n then malformed (swallow_tail r 1) else decode_tail n cum r)"
proof -
  have "unat b div 128 = 1" "unat b div 64 = 3" using assms(1) unat_byte [of b] by (simp_all add: div_nat_eqI)
  then show ?thesis using assms(2) by (simp add: utf_8_decoder_def byte_bits)
qed

lemma decode_tail_bounds: "n \<in> {2, 3, 4} \<Longrightarrow> 2 \<le> fst (decode_tail n c d) \<and> fst (decode_tail n c d) \<le> n"
  by (auto simp: decode_tail_def Let_def)

lemma utf_8_decoder_bounds:
  assumes "inp \<noteq> []"
  shows "1 \<le> fst (utf_8_decoder inp) \<and> fst (utf_8_decoder inp) \<le> length inp"
proof -
  obtain b r where inp: "inp = b # r" using assms by (cases inp) auto
  show ?thesis
  proof (cases "0xC0 \<le> unat b \<and> unat b < 0xF8")
    case True
    then obtain n c where n: "lead_byte b = Some (n, c)" "n \<in> {2, 3, 4}"
      using lead_ranges [of b] by (cases "unat b < 0xE0"; cases "unat b < 0xF0") auto
    then show ?thesis
      using decode_lead [of b n c r] True decode_tail_bounds [OF n(2), of c r]
        swallow_bounds(1) [where i = 1 and cs = r] swallow_bounds(2) [where i = 1 and cs = r]
      by (auto simp: inp)
  next
    case False
    then consider "unat b < 0x80" | "0x80 \<le> unat b" "unat b < 0xC0" | "0xF8 \<le> unat b" by linarith
    then show ?thesis by cases (simp_all add: inp decode_1 decode_ranges)
  qed
qed

lemma check_accepts: "check_codepoint n c = (k, d, False) \<Longrightarrow> k = n \<and> d = c \<and> c \<noteq> 0
    \<and> \<not> (0xD800 \<le> unat c \<and> unat c \<le> 0xDFFF) \<and> unat c \<noteq> 0xFFFE \<and> unat c \<noteq> 0xFFFF"
  by (auto simp: check_codepoint_def malformed_def word_le_nat_alt split: if_splits)

lemma unat_back: "unat (b :: char8) = k \<Longrightarrow> unat b' = k \<Longrightarrow> b' = b"
  by (simp add: word_unat_eq_iff)

lemma canonical_1:
  assumes "unat b < 0x80"
  shows "utf_8_encoder (ucast b) = ([b], False)"
proof -
  have "unat (ucast b :: character) = unat b"
    using assms by (simp add: unsigned_ucast_eq take_bit_nat_eq_self)
  moreover from this have "unat (ucast (ucast b :: character) :: char8) = unat b"
    using assms unsigned_ucast_eq [of "ucast b :: character", where 'a = nat and 'c = 8] by (simp add: take_bit_nat_eq_self)
  ultimately show ?thesis using assms by (simp add: utf_8_encoder_def word_le_nat_alt word_unat_eq_iff)
qed


lemma mod_ranges:
  "0xC0 \<le> u \<Longrightarrow> u < 0xE0 \<Longrightarrow> u mod 32 = u - (0xC0 :: nat)"
  "0xE0 \<le> u \<Longrightarrow> u < 0xF0 \<Longrightarrow> u mod 16 = u - (0xE0 :: nat)"
  "0xF0 \<le> u \<Longrightarrow> u < 0xF8 \<Longrightarrow> u mod 8 = u - (0xF0 :: nat)"
  "0x80 \<le> u \<Longrightarrow> u < 0xC0 \<Longrightarrow> u mod 64 = u - (0x80 :: nat)"
proof -
  show "0xC0 \<le> u \<Longrightarrow> u < 0xE0 \<Longrightarrow> u mod 32 = u - 0xC0"
    using div_mult_mod_eq [of u 32] div_nat_eqI [of 32 6 u] by simp
  show "0xE0 \<le> u \<Longrightarrow> u < 0xF0 \<Longrightarrow> u mod 16 = u - 0xE0"
    using div_mult_mod_eq [of u 16] div_nat_eqI [of 16 14 u] by simp
  show "0xF0 \<le> u \<Longrightarrow> u < 0xF8 \<Longrightarrow> u mod 8 = u - 0xF0"
    using div_mult_mod_eq [of u 8] div_nat_eqI [of 8 30 u] by simp
  show "0x80 \<le> u \<Longrightarrow> u < 0xC0 \<Longrightarrow> u mod 64 = u - 0x80"
    using div_mult_mod_eq [of u 64] div_nat_eqI [of 64 2 u] by simp
qed

lemma continuation_mod:
  assumes "continuation_byte d"
  obtains t where "unat d = 0x80 + t" "unat d mod 64 = t" "t < 64"
  using assms mod_ranges(4) [of "unat d"] that [of "unat d - 0x80"] by (auto simp: continuation_unat)

lemma canonical_2:
  assumes d: "utf_8_decoder (b # r) = (n, c, False)" and b: "0xC2 \<le> unat b" "unat b < 0xE0"
  shows "utf_8_encoder c = (take n (b # r), False)"
proof -
  let ?cum = "ucast (b AND 0x1F) :: character"
  have dec: "utf_8_decoder (b # r) = (if Suc (length r) < 2 then malformed (swallow_tail r 1) else decode_tail 2 ?cum r)"
    using decode_lead [of b 2 ?cum r] lead_ranges(1) [of b] b by simp
  obtain d1 r' where r: "r = d1 # r'" using d dec by (cases r) (auto simp: malformed_def)
  have ok: "continuation_byte d1" "n = 2" "c = push_bit 6 ?cum OR tail_bits d1"
    using d dec check_accepts [of 2 "push_bit 6 ?cum OR tail_bits d1" n c]
    by (auto simp: r decode_tail_def malformed_def Let_def split: if_splits)
  obtain t where t: "unat d1 = 0x80 + t" "unat d1 mod 64 = t" "t < 64" using continuation_mod [OF ok(1)] .
  have c: "unat c = (unat b - 0xC0) * 64 + t"
    unfolding ok(3) using cum_2 [of ?cum d1] b by (simp add: unat_cum mod_ranges t)
  have q: "unat c div 64 = unat b - 0xC0" "unat c mod 64 = t" unfolding c using t by (simp_all add: div_nat_eqI)
  have "unat (ucast (drop_bit 6 c) OR 0xC0 :: char8) = unat b"
    using unat_lead [of "0xC0" 6 5 c 6] b q by simp
  then have "ucast (drop_bit 6 c) OR 0xC0 = b" by (simp only: word_unat_eq_iff)
  moreover have "unat (low_bits 0 c) = unat d1" by (simp add: unat_low_bits q t)
  then have "low_bits 0 c = d1" by (simp only: word_unat_eq_iff)
  moreover have "\<not> c \<le> 0x7F" "c \<le> 0x7FF" using c b t by (auto simp: word_le_nat_alt)
  ultimately show ?thesis by (simp add: utf_8_encoder_def ok(2) r)
qed


lemma and_30_conv: "(b :: char8) AND 0x20 = 0 \<Longrightarrow> b AND 0x10 = 0 \<Longrightarrow> b AND 0x30 = 0"
  using bit.conj_disj_distrib [of b "0x20" "0x10"] by simp

lemma digits_64:
  fixes q s t :: nat
  assumes "s < 64" and "t < 64"
  shows "(q * 64 + s) * 64 + t = q * 4096 + s * 64 + t" "((q * 64 + s) * 64 + t) mod 64 = t"
    "((q * 64 + s) * 64 + t) div 64 mod 64 = s" "((q * 64 + s) * 64 + t) div 4096 = q"
proof -
  have d: "((q * 64 + s) * 64 + t) div 64 = q * 64 + s" using assms by (simp add: div_nat_eqI)
  then show "((q * 64 + s) * 64 + t) div 64 mod 64 = s" using assms by simp
  have "((q * 64 + s) * 64 + t) div 4096 = ((q * 64 + s) * 64 + t) div 64 div 64"
    by (simp only: div_mult2_eq [symmetric]) simp
  then show "((q * 64 + s) * 64 + t) div 4096 = q" unfolding d using assms by simp
  show "((q * 64 + s) * 64 + t) mod 64 = t" using assms(2) by (simp only: mod_mult_self3) simp
qed simp

lemma canonical_3:
  assumes d: "utf_8_decoder (b # r) = (n, c, False)" and b: "0xE0 \<le> unat b" "unat b < 0xF0"
  shows "utf_8_encoder c = (take n (b # r), False)"
proof -
  let ?cum = "ucast (b AND 0x0F) :: character"
  have dec: "utf_8_decoder (b # r) = (if Suc (length r) < 3 then malformed (swallow_tail r 1) else decode_tail 3 ?cum r)"
    using decode_lead [of b 3 ?cum r] lead_ranges(2) [of b] b by simp
  obtain d1 d2 r' where r: "r = d1 # d2 # r'"
    using d dec by (cases r; cases "tl r") (auto simp: malformed_def split: if_splits)
  let ?v = "push_bit 12 ?cum OR push_bit 6 (tail_bits d1) OR tail_bits d2"
  have ok: "continuation_byte d1" "continuation_byte d2" "\<not> (?cum = 0 \<and> d1 AND 0x20 = 0)" "check_codepoint 3 ?v = (n, c, False)"
    using d dec by (auto simp: r decode_tail_def malformed_def Let_def split: if_splits)
  note acc = check_accepts [OF ok(4)]
  obtain s where s: "unat d1 = 0x80 + s" "unat d1 mod 64 = s" "s < 64" using continuation_mod [OF ok(1)] .
  obtain t where t: "unat d2 = 0x80 + t" "unat d2 mod 64 = t" "t < 64" using continuation_mod [OF ok(2)] .
  let ?q = "unat b - 0xE0"
  have cum: "unat ?cum = ?q" using b by (simp add: unat_cum mod_ranges)
  have c: "unat c = (?q * 64 + s) * 64 + t"
    using cum_3 [of ?cum d1 d2] b acc by (simp add: cum s(2) t(2))
  note dg = digits_64 [OF s(3) t(3), of ?q, folded c]
  have "unat (ucast (drop_bit 12 c) OR 0xE0 :: char8) = unat b"
    using unat_lead [of "0xE0" 14 4 c 12] b dg(4) by simp
  then have "ucast (drop_bit 12 c) OR 0xE0 = b" by (simp only: word_unat_eq_iff)
  moreover have "unat (low_bits 6 c) = unat d1" "unat (low_bits 0 c) = unat d2" using dg by (simp_all add: unat_low_bits s t)
  then have "low_bits 6 c = d1" "low_bits 0 c = d2" by (simp_all only: word_unat_eq_iff)
  moreover have "0x800 \<le> unat c"
  proof (cases "?q = 0")
    case True
    then have "?cum = 0" using cum by (simp add: word_unat_eq_iff)
    then have "odd ((128 + s) div 32)" using ok(3) by (simp add: byte_bits s)
    then have "32 \<le> s" using div_nat_eqI [of 32 4 "128 + s"] by (cases "s < 32") auto
    then show ?thesis using c by simp
  qed (use c in simp)
  then have "\<not> c \<le> 0x7F" "\<not> c \<le> 0x7FF" by (simp_all add: word_le_nat_alt)
  moreover have "unat c \<le> 0xFFFF" using c b s(3) t(3) by simp
  then have "c \<le> 0xD7FF \<or> 0xDFFF < c \<and> c < 0xFFFE"
    using acc by (auto simp: word_le_nat_alt word_less_nat_alt)
  ultimately show ?thesis using acc by (simp add: utf_8_encoder_def r)
qed

lemma canonical_4:
  assumes d: "utf_8_decoder (b # r) = (n, c, False)" and b: "0xF0 \<le> unat b" "unat b < 0xF8" and "unat c \<le> 0x10FFFF"
  shows "utf_8_encoder c = (take n (b # r), False)"
proof -
  let ?cum = "ucast (b AND 0x07) :: character"
  have dec: "utf_8_decoder (b # r) = (if Suc (length r) < 4 then malformed (swallow_tail r 1) else decode_tail 4 ?cum r)"
    using decode_lead [of b 4 ?cum r] lead_ranges(3) [of b] b by simp
  obtain d1 d2 d3 r' where r: "r = d1 # d2 # d3 # r'"
    using d dec by (cases r; cases "tl r"; cases "tl (tl r)") (auto simp: malformed_def split: if_splits)
  let ?v = "push_bit 18 ?cum OR push_bit 12 (tail_bits d1) OR push_bit 6 (tail_bits d2) OR tail_bits d3"
  have ok: "continuation_byte d1" "continuation_byte d2" "continuation_byte d3" "\<not> (?cum = 0 \<and> d1 AND 0x30 = 0)"
      "check_codepoint 4 ?v = (n, c, False)"
    using d dec by (auto simp: r decode_tail_def malformed_def Let_def numeral_2_eq_2 split: if_splits)
  note acc = check_accepts [OF ok(5)]
  obtain s where s: "unat d1 = 0x80 + s" "unat d1 mod 64 = s" "s < 64" using continuation_mod [OF ok(1)] .
  obtain t where t: "unat d2 = 0x80 + t" "unat d2 mod 64 = t" "t < 64" using continuation_mod [OF ok(2)] .
  obtain v where v: "unat d3 = 0x80 + v" "unat d3 mod 64 = v" "v < 64" using continuation_mod [OF ok(3)] .
  let ?q = "unat b - 0xF0"
  have cum: "unat ?cum = ?q" using b by (simp add: unat_cum mod_ranges)
  have c: "unat c = ((?q * 64 + s) * 64 + t) * 64 + v"
    using cum_4 [of ?cum d1 d2 d3] b acc by (simp add: cum s(2) t(2) v(2))
  note dg = digits_64 [OF t(3) v(3), of "?q * 64 + s", folded c]
  have q: "unat c div 262144 = ?q" "unat c div 4096 mod 64 = s"
    using dg(4) s(3) div_mult2_eq [of "unat c" 4096 64] by simp_all
  have "unat (ucast (drop_bit 18 c) OR 0xF0 :: char8) = unat b"
    using unat_lead [of "0xF0" 30 3 c 18] b q by simp
  then have "ucast (drop_bit 18 c) OR 0xF0 = b" by (simp only: word_unat_eq_iff)
  moreover have "unat (low_bits 12 c) = unat d1" "unat (low_bits 6 c) = unat d2" "unat (low_bits 0 c) = unat d3"
    using dg q by (simp_all add: unat_low_bits s t v)
  then have "low_bits 12 c = d1" "low_bits 6 c = d2" "low_bits 0 c = d3" by (simp_all only: word_unat_eq_iff)
  moreover have "0x10000 \<le> unat c"
  proof (cases "?q = 0")
    case True
    then have "?cum = 0" using cum by (simp add: word_unat_eq_iff)
    then have "odd ((128 + s) div 32) \<or> odd ((128 + s) div 16)" using ok(4) and_30_conv [of d1] by (auto simp: byte_bits s)
    then have "16 \<le> s" using div_nat_eqI [of 32 4 "128 + s"] div_nat_eqI [of 16 8 "128 + s"] by (cases "s < 16") auto
    then show ?thesis using c by simp
  qed (use c in simp)
  then have "\<not> c \<le> 0x7F" "\<not> c \<le> 0x7FF" "\<not> c \<le> 0xFFFF" "\<not> (c \<le> 0xD7FF \<or> 0xDFFF < c \<and> c < 0xFFFE)" "c \<le> 0x10FFFF"
    using assms(4) by (auto simp: word_le_nat_alt word_less_nat_alt)
  ultimately show ?thesis using acc by (simp add: utf_8_encoder_def r)
qed

lemma utf_8_canonical:
  assumes "utf_8_decoder (b # r) = (n, c, False)" and "b \<noteq> 0xC1" and "c \<le> 0x10FFFF"
  shows "utf_8_encoder c = (take n (b # r), False)"
proof -
  have c1: "unat b \<noteq> 0xC1" using assms(2) by (simp add: word_unat_eq_iff)
  have c0: "unat b \<noteq> 0xC0"
  proof
    assume "unat b = 0xC0"
    moreover from this have "ucast (b AND 0x1F) = (0 :: character)" by (simp add: word_unat_eq_iff unat_cum)
    ultimately show False
      using assms(1) decode_lead [of b 2 0 r] lead_ranges(1) [of b]
      by (auto simp: decode_tail_def malformed_def Let_def split: if_splits)
  qed
  have c: "unat c \<le> 0x10FFFF" using assms(3) by (simp add: word_le_nat_alt)
  consider "unat b < 0x80" | "0x80 \<le> unat b" "unat b < 0xC0" | "0xC2 \<le> unat b" "unat b < 0xE0"
    | "0xE0 \<le> unat b" "unat b < 0xF0" | "0xF0 \<le> unat b" "unat b < 0xF8" | "0xF8 \<le> unat b"
    using c0 c1 by linarith
  then show ?thesis
  proof cases
    case 1
    then show ?thesis using assms(1) decode_1 canonical_1 by auto
  qed (use assms(1) decode_ranges canonical_2 canonical_3 canonical_4 c in \<open>auto simp: malformed_def\<close>)
qed


section \<open>UTF-16: one character\<close>

lemma bit_FC00: "bit (0xFC00 :: char16) i \<longleftrightarrow> 10 \<le> i \<and> i < 16"
  using bit_push_bit_iff [of 10 "mask 6 :: char16" i] bit_mask_iff [of 6 "i - 10", where 'a = char16]
  by (auto simp: mask_eq_exp_minus_1 push_bit_eq_mult)

lemma unat_FC00: "unat ((w :: char16) AND 0xFC00) = unat w div 1024 * 1024"
proof -
  have w: "w AND 0xFC00 = push_bit 10 (drop_bit 10 w)"
    by (rule bit_word_eqI) (auto simp: bit_and_iff bit_FC00 bit_push_bit_iff bit_drop_bit_eq)
  have d: "unat (drop_bit 10 w) = unat w div 2 ^ 10" unfolding unat_drop_bit_eq by (rule drop_bit_eq_div)
  have "unat w < 65536" using unsigned_less [of w] by simp
  then have "unat w div 1024 * 1024 < 2 ^ 16" by (simp add: le_less_trans [OF div_times_less_eq_dividend])
  then have "take_bit 16 (push_bit 10 (unat w div 1024)) = unat w div 1024 * 1024"
    by (simp only: push_bit_eq_mult) (simp add: take_bit_nat_eq_self)
  then show ?thesis unfolding w by (simp only: unsigned_push_bit_eq) (simp add: d)
qed

lemma surrogate_tests:
  "(w :: char16) AND 0xFC00 = 0xD800 \<longleftrightarrow> 0xD800 \<le> unat w \<and> unat w < 0xDC00"
  "w AND 0xFC00 = 0xDC00 \<longleftrightarrow> 0xDC00 \<le> unat w \<and> unat w < 0xE000"
proof -
  have "w AND 0xFC00 = 0xD800 \<longleftrightarrow> unat w div 1024 = 54" "w AND 0xFC00 = 0xDC00 \<longleftrightarrow> unat w div 1024 = 55"
    by (simp_all only: word_unat_eq_iff unat_FC00) auto
  moreover have "unat w div 1024 = 54 \<longleftrightarrow> 0xD800 \<le> unat w \<and> unat w < 0xDC00"
      "unat w div 1024 = 55 \<longleftrightarrow> 0xDC00 \<le> unat w \<and> unat w < 0xE000"
    by (auto simp: div_nat_eqI)
  ultimately show "w AND 0xFC00 = 0xD800 \<longleftrightarrow> 0xD800 \<le> unat w \<and> unat w < 0xDC00"
      "w AND 0xFC00 = 0xDC00 \<longleftrightarrow> 0xDC00 \<le> unat w \<and> unat w < 0xE000" by blast+
qed

text \<open>UTF-16 brings back every character but the first halves of surrogate pairs.\<close>

definition encodable_16 :: "character \<Rightarrow> bool" where
  "encodable_16 c \<longleftrightarrow> c \<le> 0x10FFFF \<and> \<not> (0xD800 \<le> c \<and> c \<le> 0xDBFF)"

lemma utf_16_length: "length (fst (utf_16_encoder c)) = utf_16_size c"
  by (simp add: utf_16_encoder_def utf_16_size_def Let_def)

lemma utf_16_size_bounds: "1 \<le> utf_16_size c" "utf_16_size c \<le> 2"
  by (auto simp: utf_16_size_def)

lemma utf_16_decoder_bounds:
  "inp \<noteq> [] \<Longrightarrow> 1 \<le> fst (utf_16_decoder inp) \<and> fst (utf_16_decoder inp) \<le> length inp"
  by (auto simp: utf_16_decoder_def malformed_def split: list.splits)

lemma unat_ucast_16: "unat c < 2 ^ 16 \<Longrightarrow> unat (ucast c :: char16) = unat c" for c :: character
  by (simp add: unsigned_ucast_eq take_bit_nat_eq_self)

lemma unat_surrogate:
  fixes d :: character and high :: char16
  assumes "unat high = k * 1024"
  shows "unat (ucast (d AND 0x3FF) OR high) = k * 1024 + unat d mod 1024"
proof -
  have "unat (d AND 0x3FF) = unat d mod 1024"
    using unat_and_mask [of d 10] by (simp add: mask_eq_exp_minus_1)
  then have "unat (ucast (d AND 0x3FF) :: char16) = unat d mod 1024"
    using unat_ucast_16 [of "d AND 0x3FF"] by (simp add: less_trans [OF mod_less_divisor])
  then show ?thesis
    using unat_or_add [of high k 10 "ucast (d AND 0x3FF)"] assms by (simp add: or.commute)
qed


lemma utf_16_decode_encode:
  assumes "encodable_16 c"
  shows "utf_16_decoder (fst (utf_16_encoder c) @ r) = (utf_16_size c, c, False)"
proof (cases "c \<le> 0xFFFF")
  case True
  then have "unat (ucast c :: char16) = unat c" using unat_ucast_16 [of c] by (simp add: word_le_nat_alt)
  moreover from this have "ucast (ucast c :: char16) = c" using True
    by (simp only: word_unat_eq_iff unsigned_ucast_eq [of "ucast c :: char16"]) (simp add: take_bit_nat_eq_self word_le_nat_alt)
  moreover have "\<not> (0xD800 \<le> unat c \<and> unat c < 0xDC00)" using assms by (auto simp: encodable_16_def word_le_nat_alt)
  ultimately show ?thesis
    using True by (auto simp: utf_16_encoder_def utf_16_size_def utf_16_decoder_def surrogate_tests)
next
  case False
  let ?d = "c - 0x10000"
  have c: "unat c \<le> 0x10FFFF" "0x10000 \<le> unat c" using assms False by (auto simp: encodable_16_def word_le_nat_alt)
  then have d: "unat ?d = unat c - 0x10000" by (simp add: unat_sub word_le_nat_alt)
  let ?h = "ucast (drop_bit 10 ?d AND 0x3FF) OR 0xD800 :: char16" and ?l = "ucast (?d AND 0x3FF) OR 0xDC00 :: char16"
  have "unat ?d div 1024 < 1024" using c d by simp
  then have h: "unat ?h = 0xD800 + unat ?d div 1024"
    using unat_surrogate [of "0xD800" 54 "drop_bit 10 ?d"] by (simp add: unat_drop)
  have l: "unat ?l = 0xDC00 + unat ?d mod 1024" using unat_surrogate [of "0xDC00" 55 ?d] by simp
  have m: "unat (ucast (w AND 0x3FF) :: character) = unat w mod 1024" for w :: char16
    using unat_and_mask [of w 10]
    by (simp add: mask_eq_exp_minus_1 unsigned_ucast_eq take_bit_nat_eq_self_iff less_trans [OF mod_less_divisor])
  have hm: "unat (ucast (?h AND 0x3FF) :: character) = unat ?d div 1024"
    using \<open>unat ?d div 1024 < 1024\<close> by (simp only: m h) (simp add: mod_add_left_eq [symmetric])
  have lm: "unat (ucast (?l AND 0x3FF) :: character) = unat ?d mod 1024"
    by (simp only: m l) (simp add: mod_add_left_eq [symmetric])
  have p: "unat (push_bit 10 (ucast (?h AND 0x3FF) :: character)) = unat ?d div 1024 * 1024"
    using unat_push [of "ucast (?h AND 0x3FF)" 10] \<open>unat ?d div 1024 < 1024\<close> by (simp only: hm) simp
  have "unat (push_bit 10 (ucast (?h AND 0x3FF)) + ucast (?l AND 0x3FF) + 0x10000 :: character) = unat c"
    using c d by (simp only: unat_word_ariths p lm) simp
  then have v: "push_bit 10 (ucast (?h AND 0x3FF)) + ucast (?l AND 0x3FF) + 0x10000 = c" by (simp only: word_unat_eq_iff)
  have t: "?h AND 0xFC00 = 0xD800" "?l AND 0xFC00 = 0xDC00"
    unfolding surrogate_tests h l using \<open>unat ?d div 1024 < 1024\<close> by simp_all
  have "c \<le> 0x10FFFF" using assms by (simp add: encodable_16_def)
  then show ?thesis using False t v by (simp add: utf_16_encoder_def utf_16_size_def utf_16_decoder_def Let_def)
qed

end
