(* ===== verification/Utf_Strings.thy ===== *)
theory Utf_Strings
  imports Utf_Props
begin

text \<open>
  Encoded strings. The locale \<open>codec\<close> has what the operations on strings need of an encoder and a
  decoder; inside it encoding fills exactly the buffer that was allocated, decoding ends, and
  the growing operations keep the invariant \<open>utf_ok\<close> and append what they should. UTF-8 and
  UTF-16 are its two interpretations.
\<close>

section \<open>Buffers\<close>

definition utf_ok :: "'w :: zero utf \<Rightarrow> bool" where
  "utf_ok u \<longleftrightarrow> u_fillp u \<le> u_dim u \<and> u_dim u < length (u_self u) \<and> u_self u ! u_fillp u = 0"

lemma length_units: "utf_ok u \<Longrightarrow> length (units u) = u_fillp u"
  by (simp add: utf_ok_def units_def)

lemma write_units_ok:
  "j + length us \<le> length buf \<Longrightarrow> write_units buf j us = Inr (take j buf @ us @ drop (j + length us) buf)"
  by (simp add: write_units_def)

lemma nth_write: "j \<le> length buf \<Longrightarrow> (take j buf @ x # drop (Suc j) buf) ! j = x"
  by (simp add: nth_append)

section \<open>What encoders and decoders promise\<close>

locale codec =
  fixes enc :: "'w :: zero encoder" and usize :: "character \<Rightarrow> nat" and dec :: "'w decoder"
    and ok :: "character \<Rightarrow> bool"
  assumes enc_length: "length (fst (enc c)) = usize c"
    and size_bounds: "1 \<le> usize c" "usize c \<le> 4"
    and dec_bounds: "us \<noteq> [] \<Longrightarrow> 1 \<le> fst (dec us) \<and> fst (dec us) \<le> length us"
    and dec_enc: "ok c \<Longrightarrow> dec (fst (enc c) @ r) = (usize c, c, False)"
begin

definition code :: "character list \<Rightarrow> 'w list" where
  "code cs = concat (map (fst \<circ> enc) cs)"

lemma code_simps [simp]: "code [] = []" "code (c # cs) = fst (enc c) @ code cs" "code (cs @ ds) = code cs @ code ds"
  by (simp_all add: code_def)

lemma length_code: "length (code cs) = sum_list (map usize cs)"
  by (induction cs) (simp_all add: enc_length)

lemma decode_loop_total: "\<exists>cs. decode_loop dec us = Some cs \<and> length cs \<le> length us"
proof (induction us rule: length_induct)
  case (1 us)
  show ?case
  proof (cases "us = []")
    case True
    then show ?thesis by (simp add: decode_loop.simps)
  next
    case False
    obtain n c bad where d: "dec us = (n, c, bad)" by (cases "dec us") auto
    have n: "1 \<le> n" "n \<le> length us" using dec_bounds [OF False] d by auto
    then have "length (drop n us) < length us" using False by simp
    with 1 obtain cs where "decode_loop dec (drop n us) = Some cs" "length cs \<le> length (drop n us)" by blast
    then show ?thesis using False d n by (auto simp: decode_loop.simps [of dec us])
  qed
qed

lemma decode_code:
  "\<forall>c \<in> set cs. ok c \<Longrightarrow> decode_loop dec (code cs) = Some (map (\<lambda>c. (c, False)) cs)"
proof (induction cs)
  case Nil
  then show ?case by (simp add: decode_loop.simps)
next
  case (Cons c cs)
  let ?us = "fst (enc c) @ code cs"
  have ne: "?us \<noteq> []" using enc_length [of c] size_bounds(1) [of c] by auto
  have d: "drop (usize c) ?us = code cs" by (simp flip: enc_length)
  have "decode_loop dec ?us = Option.bind (decode_loop dec (code cs)) (\<lambda>xs. Some ((c, False) # xs))"
    unfolding decode_loop.simps [of dec ?us] using ne dec_enc [of c "code cs"] Cons.prems
    by (simp add: d del: drop_append append_is_Nil_conv)
  then show ?case using Cons by simp
qed

lemma encode_from_ok:
  "j + sum_list (map usize cs) \<le> length buf \<Longrightarrow>
   encode_from enc buf j cs =
     Inr (take j buf @ code cs @ drop (j + length (code cs)) buf, j + length (code cs), \<exists>c \<in> set cs. snd (enc c))"
proof (induction cs arbitrary: j buf)
  case Nil
  then show ?case by simp
next
  case (Cons c cs)
  obtain us bad where e: "enc c = (us, bad)" by fastforce
  then have us: "length us = usize c" using enc_length [of c] by simp
  let ?buf = "take j buf @ us @ drop (j + length us) buf"
  have w: "write_units buf j us = Inr ?buf" using Cons.prems us by (intro write_units_ok) simp
  have l: "length ?buf = length buf" using Cons.prems us by simp
  have "encode_from enc ?buf (j + length us) cs =
      Inr (take (j + length us) ?buf @ code cs @ drop (j + length us + length (code cs)) ?buf,
           j + length us + length (code cs), \<exists>c \<in> set cs. snd (enc c))"
    using Cons.prems us l by (intro Cons.IH) simp
  moreover have "take (j + length us) ?buf = take j buf @ us" using Cons.prems us by simp
  moreover have "drop (j + length us + length (code cs)) ?buf = drop (j + length us + length (code cs)) buf"
    using Cons.prems us by (simp add: add.commute add.left_commute)
  ultimately show ?case using e w by (simp add: add.assoc)
qed

lemma encoded_ok:
  assumes "\<And>n. length (fresh n) = n"
  shows "encoded fresh enc (sum_list (map usize cs)) cs =
    Inr (\<lparr>u_dim = length (code cs), u_fillp = length (code cs), u_self = code cs @ [0]\<rparr>, \<exists>c \<in> set cs. snd (enc c))"
  using encode_from_ok [of 0 cs "fresh (sum_list (map usize cs) + 1)"] assms
  by (simp add: encoded_def length_code write_units_def)

lemma decode_encoded:
  assumes "\<And>n. length (fresh n) = n" and "\<forall>c \<in> set cs. ok c"
  shows "\<exists>u. encoded fresh enc (sum_list (map usize cs)) cs = Inr (u, \<exists>c \<in> set cs. snd (enc c))
    \<and> utf_ok u \<and> units u = code cs \<and> decoded dec u = Some (cs, False)"
  using encoded_ok [OF assms(1), of cs] decode_code [OF assms(2)]
  by (simp add: utf_ok_def units_def decoded_def comp_def)

text \<open>Growing a string.\<close>

lemma extend_ok:
  assumes "\<And>n. length (fresh n :: 'w list) = n" and "utf_ok s" and "u_dim s < MKCL_ADIMLIM"
  shows "\<exists>s1. extend_utf fresh s = Inr s1 \<and> utf_ok s1 \<and> units s1 = units s \<and> u_fillp s1 = u_fillp s
    \<and> (u_dim s + 4 \<le> u_dim s1)"
  using assms(2,3) length_units [OF assms(2)]
  by (auto simp: extend_utf_def Let_def write_units_def assms(1) utf_ok_def units_def nth_append)

lemma write_at_fill:
  assumes "utf_ok s" and "u_fillp s + length us \<le> u_dim s"
  shows "\<exists>buf buf'. write_units (u_self s) (u_fillp s) us = Inr buf
    \<and> write_units buf (u_fillp s + length us) [0] = Inr buf'
    \<and> utf_ok (s\<lparr>u_fillp := u_fillp s + length us, u_self := buf'\<rparr>)
    \<and> units (s\<lparr>u_fillp := u_fillp s + length us, u_self := buf'\<rparr>) = units s @ us"
  using assms by (auto simp: write_units_def utf_ok_def units_def nth_append min_def)

lemma push_extend_ok:
  assumes "\<And>n. length (fresh n) = n" and "utf_ok s" and "u_dim s < MKCL_ADIMLIM"
  shows "\<exists>s'. push_extend fresh enc usize s c = Inr (u_fillp s, s', snd (enc c))
    \<and> utf_ok s' \<and> units s' = units s @ fst (enc c)"
proof -
  obtain us bad where e: "enc c = (us, bad)" by fastforce
  then have us: "length us = usize c" using enc_length [of c] by simp
  obtain s1 where s1: "(if u_dim s < u_fillp s + usize c then extend_utf fresh s else Inr s) = Inr s1"
      "utf_ok s1" "units s1 = units s" "u_fillp s1 = u_fillp s" "u_fillp s1 + length us \<le> u_dim s1"
  proof (cases "u_dim s < u_fillp s + usize c")
    case True
    obtain s1 where "extend_utf fresh s = Inr s1" "utf_ok s1" "units s1 = units s" "u_fillp s1 = u_fillp s"
        "u_dim s + 4 \<le> u_dim s1" using extend_ok [OF assms] by blast
    moreover have "u_fillp s \<le> u_dim s" using assms(2) by (simp add: utf_ok_def)
    ultimately show ?thesis using that [of s1] True us size_bounds(2) [of c] by simp
  next
    case False
    then show ?thesis using that [of s] assms(2) us by simp
  qed
  then show ?thesis using write_at_fill [OF s1(2,5)] by (auto simp: push_extend_def e us Let_def)
qed

lemma extend_until_ok:
  "\<forall>n. length (fresh n :: 'w list) = n \<Longrightarrow> utf_ok s \<Longrightarrow> n \<le> MKCL_ADIMLIM \<Longrightarrow>
    \<exists>s1. extend_until fresh n s = Inr s1 \<and> utf_ok s1 \<and> units s1 = units s \<and> u_fillp s1 = u_fillp s \<and> n \<le> u_dim s1"
proof (induction fresh n s rule: extend_until.induct)
  case (1 fresh n s)
  show ?case
  proof (cases "u_dim s < n")
    case True
    obtain s1 where s1: "extend_utf fresh s = Inr s1" "utf_ok s1" "units s1 = units s" "u_fillp s1 = u_fillp s"
      using extend_ok [of fresh s] 1(2-4) True by fastforce
    then show ?thesis using "1.IH" [OF True s1(1)] 1(2-4) True by simp
  next
    case False
    then show ?thesis using 1(2-4) by simp
  qed
qed

lemma nconc_ok:
  fixes base other :: "'w utf"
  assumes "\<forall>n. length (fresh n) = n" and "utf_ok base" and "utf_ok other" and "u_fillp base + u_fillp other \<le> MKCL_ADIMLIM"
  shows "\<exists>u. utf_nconc fresh base other = Inr u \<and> utf_ok u \<and> units u = units base @ units other"
proof (cases "u_fillp other = 0")
  case True
  then show ?thesis using assms(2) by (simp add: utf_nconc_def units_def)
next
  case False
  obtain b where b: "extend_until fresh (u_fillp base + u_fillp other) base = Inr b" "utf_ok b" "units b = units base"
      "u_fillp b = u_fillp base" "u_fillp base + u_fillp other \<le> u_dim b"
    using extend_until_ok [OF assms(1,2,4)] by blast
  then show ?thesis
    using write_at_fill [OF b(2), of "units other"] length_units [OF assms(3)] False
    by (auto simp: utf_nconc_def Let_def simp del: extend_until.simps)
qed

text \<open>Filling a buffer: what fits is encoded, the rest goes to a new buffer with the exact size.\<close>

lemma encode_while_ok:
  assumes "\<And>j c. c \<in> set str \<Longrightarrow> room j c \<Longrightarrow> j + usize c < dim" and "dim \<le> length buf" and "j \<le> dim"
  shows "\<exists>pre rest. str = pre @ rest \<and> j + length (code pre) \<le> dim
    \<and> encode_while room enc buf j str = Inr (take j buf @ code pre @ drop (j + length (code pre)) buf, j + length (code pre), rest)"
  using assms
proof (induction str arbitrary: j buf)
  case Nil
  then show ?case by simp
next
  case (Cons c str)
  show ?case
  proof (cases "room j c")
    case False
    then show ?thesis using Cons.prems(3) by (intro exI [of _ "[]"] exI [of _ "c # str"]) simp
  next
    case True
    let ?us = "fst (enc c)" and ?buf = "take j buf @ fst (enc c) @ drop (j + usize c) buf"
    have j: "j + usize c < dim" using Cons.prems(1) [of c j] True by simp
    have w: "write_units buf j ?us = Inr ?buf" using j Cons.prems(2) by (simp add: write_units_def enc_length)
    have "dim \<le> length ?buf" using j Cons.prems(2) by (simp add: enc_length)
    then obtain pre rest where p: "str = pre @ rest" "j + usize c + length (code pre) \<le> dim"
        "encode_while room enc ?buf (j + usize c) str =
          Inr (take (j + usize c) ?buf @ code pre @ drop (j + usize c + length (code pre)) ?buf, j + usize c + length (code pre), rest)"
      using Cons.IH [of ?buf "j + usize c"] Cons.prems(1) j by (auto simp: less_imp_le)
    have "take (j + usize c) ?buf = take j buf @ ?us" using j Cons.prems(2) by (simp add: enc_length)
    moreover have "drop (j + usize c + length (code pre)) ?buf = drop (j + usize c + length (code pre)) buf"
      using j Cons.prems(2) by (simp add: enc_length add.commute add.left_commute)
    ultimately show ?thesis
      using p w True by (intro exI [of _ "c # pre"] exI [of _ rest]) (simp add: enc_length add.assoc)
  qed
qed

lemma fill_ok:
  assumes "\<And>n. length (fresh n) = n" and "utf_ok u" and "prefix_size \<le> u_dim u" and "\<forall>c \<in> set str. usize c \<le> max_per"
  shows "\<exists>u'. fill_utf fresh enc usize max_per u prefix_size str = Inr u' \<and> utf_ok u'
    \<and> units u' = take prefix_size (u_self u) @ code str"
proof -
  have dim: "u_dim u < length (u_self u)" using assms(2) by (simp add: utf_ok_def)
  let ?p = "prefix_size" and ?self = "u_self u"
  let ?b1 = "\<lambda>pre. take ?p ?self @ code pre @ drop (?p + length (code pre)) ?self"
  obtain pre str1 where 1: "str = pre @ str1" "?p + length (code pre) \<le> u_dim u"
      "encode_while (\<lambda>j c. j + max_per < u_dim u) enc ?self ?p str = Inr (?b1 pre, ?p + length (code pre), str1)"
    using encode_while_ok [of str "\<lambda>j c. j + max_per < u_dim u" "u_dim u" ?self ?p] assms(3,4) dim by fastforce
  have l1: "length (?b1 pre) = length ?self" using 1(2) dim by simp
  obtain pre2 str2 where 2: "str1 = pre2 @ str2" "?p + length (code pre) + length (code pre2) \<le> u_dim u"
      "encode_while (\<lambda>j c. j + usize c < u_dim u) enc (?b1 pre) (?p + length (code pre)) str1 =
        Inr (take (?p + length (code pre)) (?b1 pre) @ code pre2 @ drop (?p + length (code pre) + length (code pre2)) (?b1 pre),
             ?p + length (code pre) + length (code pre2), str2)"
    using encode_while_ok [of str1 "\<lambda>j c. j + usize c < u_dim u" "u_dim u" "?b1 pre" "?p + length (code pre)"] l1 dim 1(2)
    by fastforce
  let ?j = "?p + length (code (pre @ pre2))"
  let ?b2 = "?b1 (pre @ pre2)"
  have b2: "take (?p + length (code pre)) (?b1 pre) @ code pre2 @ drop (?p + length (code pre) + length (code pre2)) (?b1 pre) = ?b2"
    using 1(2) 2(2) dim by (simp add: add.assoc add.commute [of "length (code pre2)"])
  have t2: "take ?j ?b2 = take ?p ?self @ code (pre @ pre2)" "length ?b2 = length ?self" "?j \<le> u_dim u"
    using 2(2) dim by (simp_all add: add.assoc)
  show ?thesis
  proof (cases "str2 = []")
    case True
    have "write_units ?b2 ?j [0] = Inr (take ?j ?b2 @ [0] @ drop (?j + 1) ?b2)"
      using write_units_ok [of ?j "[0]" ?b2] t2 dim by simp
    then show ?thesis
      using True 1 2 b2 t2 dim unfolding fill_utf_def
      by (auto simp: utf_ok_def units_def nth_append add.assoc)
  next
    case False
    let ?dim = "?j + sum_list (map usize str2)"
    have w: "write_units (fresh (?dim + 1)) 0 (take ?j ?b2) = Inr (take ?j ?b2 @ drop ?j (fresh (?dim + 1)))"
      using t2 dim by (simp add: write_units_def assms(1) min_def)
    let ?s = "take ?j ?b2 @ drop ?j (fresh (?dim + 1))"
    have ls: "length ?s = ?dim + 1" "take ?j ?s = take ?j ?b2" using t2 dim by (simp_all add: assms(1) min_def)
    have e: "encode_from enc ?s ?j str2 =
        Inr (take ?j ?b2 @ code str2 @ drop (?j + length (code str2)) ?s, ?dim, \<exists>c \<in> set str2. snd (enc c))"
      using encode_from_ok [of ?j str2 ?s] ls by (simp only: length_code)
    show ?thesis
      using False 1 2 b2 t2 dim w e ls unfolding fill_utf_def
      by (auto simp: utf_ok_def units_def nth_append add.assoc length_code write_units_def Let_def)
  qed
qed

end

section \<open>The two encodings\<close>

interpretation utf_8: codec utf_8_encoder utf_8_size utf_8_decoder scalar
  by unfold_locales
    (erule utf_8_decoder_bounds utf_8_decode_encode | rule utf_8_length utf_8_size_bounds)+

interpretation utf_16: codec utf_16_encoder utf_16_size utf_16_decoder encodable_16
proof unfold_locales
  fix c
  show "utf_16_size c \<le> 4" using utf_16_size_bounds(2) [of c] by simp
qed (erule utf_16_decoder_bounds utf_16_decode_encode | rule utf_16_length utf_16_size_bounds)+

lemma utf_8_not_bad: "\<forall>c \<in> set cs. scalar c \<Longrightarrow> (\<exists>c \<in> set cs. snd (utf_8_encoder c)) = False"
  by (auto simp: utf_8_bad)

lemma scalar_encodable_16: "scalar c \<Longrightarrow> encodable_16 c"
  by (auto simp: scalar_unat encodable_16_def word_le_nat_alt)

lemma utf_16_not_bad: "\<forall>c \<in> set cs. encodable_16 c \<Longrightarrow> (\<exists>c \<in> set cs. snd (utf_16_encoder c)) = False"
  by (auto simp: utf_16_encoder_def encodable_16_def Let_def)

section \<open>From one encoding to the other\<close>

fun every_other :: "'a list \<Rightarrow> 'a list" where
  "every_other [] = []"
| "every_other [x] = [x]"
| "every_other (x # y # zs) = x # every_other zs"

lemma length_every_other: "length (every_other xs) \<le> length xs"
  by (induction xs rule: every_other.induct) auto

lemma set_every_other: "set (every_other xs) \<subseteq> set xs"
  by (induction xs rule: every_other.induct) auto

lemma ascii_16:
  assumes "(w :: char16) < 0x80"
  shows "utf_16_decoder (w # r) = (1, ucast w, False)" "utf_8_encoder (ucast w) = ([ucast w], False)" "utf_8_size (ucast w) = 1"
proof -
  have w: "unat w < 0x80" using assms by (simp add: word_less_nat_alt)
  then show "utf_16_decoder (w # r) = (1, ucast w, False)" by (auto simp: utf_16_decoder_def surrogate_tests)
  have c: "unat (ucast w :: character) = unat w" using w by (simp add: unsigned_ucast_eq take_bit_nat_eq_self)
  then have "(ucast w :: character) \<le> 0x7F" using w by (simp add: word_le_nat_alt)
  moreover have "ucast (ucast w :: character) = (ucast w :: char8)"
    using unsigned_ucast_eq [of "ucast w :: character", where 'a = nat and 'c = 8] unsigned_ucast_eq [of w, where 'a = nat and 'c = 8] c
    by (simp add: word_unat_eq_iff)
  ultimately show "utf_8_encoder (ucast w) = ([ucast w], False)" "utf_8_size (ucast w) = 1"
    by (simp_all add: utf_8_encoder_def utf_8_size_def)
qed

lemma skip_loop:
  "\<forall>w \<in> set ws. w < 0x80 \<Longrightarrow>
   decode_loop (advance_once_more utf_16_decoder) ws = Some (map (\<lambda>w. (ucast w, False)) (every_other ws))"
proof (induction ws rule: every_other.induct)
  case 1
  then show ?case by (simp add: decode_loop.simps)
next
  case (2 x)
  then have "advance_once_more utf_16_decoder [x] = (2, ucast x, False)"
    using ascii_16(1) [of x "[]"] by (simp add: advance_once_more_def)
  then show ?case by (simp add: decode_loop.simps)
next
  case (3 x y zs)
  then have "advance_once_more utf_16_decoder (x # y # zs) = (2, ucast x, False)"
    using ascii_16(1) [of x "y # zs"] by (simp add: advance_once_more_def)
  then show ?case using 3 decode_loop.simps [of "advance_once_more utf_16_decoder" "x # y # zs"] by simp
qed

lemma plain_loop:
  "\<forall>w \<in> set ws. w < 0x80 \<Longrightarrow> decode_loop utf_16_decoder ws = Some (map (\<lambda>w. (ucast w, False)) ws)"
proof (induction ws)
  case (Cons w ws)
  then show ?case using ascii_16(1) [of w ws] decode_loop.simps [of utf_16_decoder "w # ws"] by simp
qed (simp add: decode_loop.simps)

lemma ascii_code: "\<forall>w \<in> set ws. w < 0x80 \<Longrightarrow> utf_8.code (map ucast (ws :: char16 list)) = map ucast ws"
  by (induction ws) (simp_all add: ascii_16)

lemma ascii_size: "\<forall>w \<in> set ws. w < 0x80 \<Longrightarrow> sum_list (map (utf_8_size \<circ> ucast) (ws :: char16 list)) = length ws"
  by (induction ws) (simp_all add: ascii_16)

lemma utf_16_skips:
  assumes "\<And>n. length (fresh n) = n" and "\<forall>w \<in> set (units u). w < 0x80"
  shows "\<exists>u'. mk_si_utf_8 fresh (UTF_16 u) = Some (Inr (u', False)) \<and> u_fillp u' = length (units u)
    \<and> take (Suc (length (every_other (units u)))) (u_self u') = map ucast (every_other (units u)) @ [0]"
proof -
  let ?ws = "units u" and ?es = "every_other (units u)"
  have es: "\<forall>w \<in> set ?es. w < 0x80" using assms(2) set_every_other [of ?ws] by blast
  have "(\<exists>c \<in> set (map ucast ?es). snd (utf_8_encoder c)) = False" using es ascii_16(2) by fastforce
  moreover have "encode_from utf_8_encoder (fresh (length ?ws + 1)) 0 (map ucast ?es) =
      Inr (map ucast ?es @ drop (length ?es) (fresh (length ?ws + 1)), length ?es, \<exists>c \<in> set (map ucast ?es). snd (utf_8_encoder c))"
    using utf_8.encode_from_ok [of 0 "map ucast ?es" "fresh (length ?ws + 1)"] ascii_code [OF es] ascii_size [OF es]
      length_every_other [of ?ws] by (simp add: assms(1) comp_def)
  ultimately have "encoded fresh utf_8_encoder (length ?ws) (map ucast ?es) =
      Inr (\<lparr>u_dim = length ?ws, u_fillp = length ?ws,
        u_self = map ucast ?es @ [0] @ drop (length ?es + 1) (fresh (length ?ws + 1))\<rparr>, False)"
    using length_every_other [of ?ws] by (simp add: encoded_def write_units_def assms(1))
  then show ?thesis
    using skip_loop [OF assms(2)] plain_loop [OF assms(2)] ascii_size [OF assms(2)]
    by (simp add: mk_si_utf_8_def transcoded_def comp_def)
qed

section \<open>The last character of a UTF-8 string\<close>

lemma last_stays_invalid: "snd (utf_8_last_from u is True ch)"
  by (induction "is" arbitrary: ch) (auto split: prod.splits)

lemma last_byte_continuation: "0x7F < d \<Longrightarrow> continuation_byte (last (fst (utf_8_encoder d)))"
proof -
  assume "0x7F < d"
  moreover have "continuation_byte 0xBD" by (simp add: continuation_unat)
  ultimately show ?thesis using low_facts(1) by (auto simp: utf_8_encoder_def replacement_8_def)
qed

lemma char_at:
  assumes "utf_ok u" and "units u = pre @ b # r"
  shows "mkcl_utf_8_char u (length pre) =
    (case utf_8_decoder (b # r) of (n, c, bad) \<Rightarrow> (c, length pre + n, bad))"
  using length_units [OF assms(1)] assms(2) by (simp add: mkcl_utf_8_char_def units_from_def)

lemma last_flags_multibyte:
  assumes "utf_ok u" and "units u = us @ fst (utf_8_encoder d)" and "0x7F < d"
  shows "snd (mkcl_utf_8_last u)"
proof -
  have ne: "fst (utf_8_encoder d) \<noteq> []" using utf_8_length [of d] utf_8_size_bounds(1) [of d] by auto
  let ?b = "last (fst (utf_8_encoder d))" and ?p = "us @ butlast (fst (utf_8_encoder d))"
  have u: "units u = ?p @ [?b]" using assms(2) ne by simp
  then have f: "u_fillp u = Suc (length ?p)" using length_units [OF assms(1)] by simp
  have "utf_8_decoder [?b] = malformed 1"
    using last_byte_continuation [OF assms(3)] by (intro decode_ranges) (simp_all add: continuation_unat)
  then have "mkcl_utf_8_char u (length ?p) = (0xFFFD, Suc (length ?p), True)"
    using char_at [OF assms(1) u] by (simp add: malformed_def)
  moreover have "take 4 (rev [0..<u_fillp u]) = length ?p # take 3 (rev [0..<length ?p])"
    unfolding f by (simp add: numeral_eq_Suc)
  ultimately show ?thesis using last_stays_invalid by (simp add: mkcl_utf_8_last_def)
qed

lemma last_wrong_character:
  assumes "utf_ok u" and "units u = [b] @ fst (utf_8_encoder d)" and "b < 0x80" and "0x7F < d" and "d \<le> 0x7FF"
  shows "mkcl_utf_8_last u = (ucast b, True)"
proof -
  have "length (fst (utf_8_encoder d)) = 2" using assms(4,5) by (simp add: utf_8_length utf_8_size_def linorder_not_le)
  then obtain b1 b2 where e: "fst (utf_8_encoder d) = [b1, b2]" by (auto simp: numeral_2_eq_2 length_Suc_conv)
  have b2: "continuation_byte b2" using last_byte_continuation [OF assms(4)] e by simp
  have f: "u_fillp u = 3" using length_units [OF assms(1)] assms(2) e by simp
  have "mkcl_utf_8_char u 2 = (0xFFFD, 3, True)"
    using char_at [OF assms(1), of "[b, b1]" b2 "[]"] assms(2) e b2 decode_ranges(1) [of b2 "[]"]
    by (simp add: malformed_def continuation_unat numeral_2_eq_2 numeral_3_eq_3)
  moreover have "mkcl_utf_8_char u 0 = (ucast b, 1, False)"
    using char_at [OF assms(1), of "[]" b "[b1, b2]"] assms(2,3) e decode_1 [of b "[b1, b2]"] by (simp add: word_less_nat_alt)
  moreover obtain c n bad where "mkcl_utf_8_char u 1 = (c, n, bad)" by (cases "mkcl_utf_8_char u 1") auto
  moreover have "take 4 (rev [0..<3]) = [2, 1, 0 :: nat]" by (simp add: upt_rec)
  ultimately show ?thesis by (simp add: mkcl_utf_8_last_def f)
qed

section \<open>What the UTF-8 decoder should not accept\<close>

lemma accepts_overlong:
  assumes "continuation_byte d"
  shows "\<exists>c. utf_8_decoder (0xC1 # d # r) = (2, c, False) \<and> c \<le> 0x7F"
proof -
  let ?cum = "ucast ((0xC1 :: char8) AND 0x1F) :: character"
  obtain t where t: "unat d mod 64 = t" "t < 64" using continuation_mod [OF assms] by blast
  have v: "unat (push_bit 6 ?cum OR tail_bits d) = 64 + t" using cum_2 [of ?cum d] t by (simp add: unat_cum)
  then have "scalar (push_bit 6 ?cum OR tail_bits d)" "push_bit 6 ?cum OR tail_bits d \<le> 0x7F"
    using t by (simp_all only: scalar_unat word_le_nat_alt) simp_all
  moreover have "decode_tail 2 ?cum (d # r) = check_codepoint 2 (push_bit 6 ?cum OR tail_bits d)"
    using assms by (simp add: decode_tail_def)
  ultimately show ?thesis
    using decode_2 [of "0xC1" d r] v by (simp only: check_scalar) simp
qed

lemma accepts_too_large:
  assumes "0xF5 \<le> unat b" and "unat b < 0xF8" and "continuation_byte d1" and "continuation_byte d2" and "continuation_byte d3"
  shows "\<exists>c. utf_8_decoder (b # d1 # d2 # d3 # r) = (4, c, False) \<and> 0x10FFFF < c"
proof -
  let ?cum = "ucast (b AND 0x07) :: character"
  let ?v = "push_bit 18 ?cum OR push_bit 12 (tail_bits d1) OR push_bit 6 (tail_bits d2) OR tail_bits d3"
  have cum: "unat ?cum = unat b - 0xF0" using assms(1,2) by (simp add: unat_cum mod_ranges)
  have "unat ?v = unat ?cum * 262144 + unat d1 mod 64 * 4096 + unat d2 mod 64 * 64 + unat d3 mod 64"
    using cum_4 [of ?cum d1 d2 d3] assms(2) cum by simp
  then have v: "0x140000 \<le> unat ?v" using cum assms(1) by simp
  have "?cum \<noteq> 0" using cum assms(1) by (auto simp: word_unat_eq_iff)
  then have "decode_tail 4 ?cum (d1 # d2 # d3 # r) = check_codepoint 4 ?v"
    using decode_tail_4 [OF assms(3-5)] by simp
  moreover have "check_codepoint 4 ?v = (4, ?v, False)"
    using v by (auto simp: check_codepoint_def word_le_nat_alt)
  ultimately show ?thesis
    using decode_4 [of b d1 d2 d3 r] assms(1,2) v by (simp add: word_less_nat_alt)
qed

end
