(* ===== verification/Dispatch.thy ===== *)
theory Dispatch
  imports Alists Hashing
begin

text \<open>
  The method cache of generic functions (\<^verbatim>\<open>src/src/c/gfun.c\<close>). Each thread has a table of
  records that maps a key, the generic function and the classes of the arguments it specializes
  on, to the function to call. A record whose key is \<open>MKCL_OBJNULL\<close> is empty if its value is
  \<open>MKCL_OBJNULL\<close> too, and deleted otherwise; both are \<open>None\<close> here. Redefinitions put the generic
  function on the clear list of every thread; the thread drops the records at its next dispatch.

  The table is the list of its records: a record is three words of the vector in the code, so
  \<open>table->vector.dim\<close> is three times the length. \<open>loc\<close> gives the addresses of the heap cells.
  Computing the method of a call runs Lisp code, which may dispatch in turn: it is a parameter
  that takes the cache and returns the method and the cache it leaves.
\<close>

section \<open>The table\<close>

record cache_entry =
  record_key :: "obj list option"
  record_value :: "obj option"
  record_gen :: int

record method_cache =
  method_hash :: "cache_entry list"
  method_generation :: int
  method_hash_clear_list :: "obj list"
  method_spec_vector :: "obj list"

datatype dispatch_error =
    LoseSearch
  | WrongNumArguments obj nat
  | SpecListError lisp_error

text \<open>The symbol \<open>T\<close> clears the whole table; \<open>ct\<close> is that symbol.\<close>

definition empty_record :: cache_entry where
  "empty_record = \<lparr>record_key = None, record_value = None, record_gen = 0\<rparr>"

definition do_clear_method_hash :: "obj \<Rightarrow> obj \<Rightarrow> method_cache \<Rightarrow> method_cache" where
  "do_clear_method_hash ct target c =
     (if target = ct then
        c\<lparr>method_generation := 0, method_hash := map (\<lambda>e. empty_record) (method_hash c), method_hash_clear_list := []\<rparr>
      else
        c\<lparr>method_hash := map (\<lambda>e. case record_key e of
              None \<Rightarrow> e
            | Some key \<Rightarrow> if target = key ! 0 then e\<lparr>record_key := None, record_gen := 0\<rparr> else e) (method_hash c)\<rparr>)"

definition mkcl_set_method_hash_size :: "nat \<Rightarrow> method_cache" where
  "mkcl_set_method_hash_size n =
     \<lparr>method_hash = replicate n empty_record, method_generation = 0, method_hash_clear_list = [], method_spec_vector = []\<rparr>"

text \<open>Every thread gets the request.\<close>

definition mk_si_clear_gfun_cache :: "obj \<Rightarrow> method_cache list \<Rightarrow> method_cache list" where
  "mk_si_clear_gfun_cache what threads =
     map (\<lambda>c. c\<lparr>method_hash_clear_list := what # method_hash_clear_list c\<rparr>) threads"

section \<open>Searching\<close>

function vector_hash_loop :: "(nat \<Rightarrow> mkcl_index) \<Rightarrow> nat \<Rightarrow> nat \<Rightarrow> mix_state \<Rightarrow> mkcl_index" where
  "vector_hash_loop t fillp n (a, b, c) =
     (if 3 \<le> n then vector_hash_loop t fillp (n - 3) (mix (a + t (n - 3), b + t (n - 2), c + t (n - 1)))
      else if n = 2 then mix_result (a + t 0, b + t 1, c + word_of_nat fillp)
      else if n = 1 then mix_result (a + t 0, b, c + word_of_nat fillp)
      else c)"
  by pat_completeness auto

termination
  by (relation "measure (\<lambda>(t, fillp, n, s). n)") auto

definition vector_hash_key :: "(addr \<Rightarrow> mkcl_index) \<Rightarrow> obj list \<Rightarrow> mkcl_index" where
  "vector_hash_key loc keys =
     vector_hash_loop (\<lambda>i. obj_word loc (keys ! i)) (length keys) (length keys) (GOLDEN_RATIO, GOLDEN_RATIO, 0)"

text \<open>
  The loop over at most \<open>k\<close> records from position \<open>i\<close> on: \<open>Inl\<close> the record with the key, or
  \<open>Inr\<close> the one to overwrite, the last deleted one seen or the oldest, if there is any.
\<close>

fun probe ::
  "cache_entry list \<Rightarrow> obj list \<Rightarrow> nat \<Rightarrow> nat \<Rightarrow> int \<Rightarrow> nat option \<Rightarrow> nat + nat option" where
  "probe T keys 0 i min_gen min_e = Inr min_e"
| "probe T keys (Suc k) i min_gen min_e =
     (let e = T ! i; i' = (if length T \<le> i + 1 then 0 else i + 1)
      in case record_key e of
           None \<Rightarrow>
             if record_value e = None then Inr (Some i) else probe T keys k i' (- 1) (Some i)
         | Some hkey \<Rightarrow>
             if hkey = keys then Inl i
             else if (length hkey = length keys \<or> 0 \<le> min_gen) \<and> record_gen e < min_gen
             then probe T keys k i' (record_gen e) (Some i)
             else probe T keys k i' min_gen min_e)"

definition first_probe :: "(addr \<Rightarrow> mkcl_index) \<Rightarrow> obj list \<Rightarrow> nat \<Rightarrow> nat" where
  "first_probe loc keys n = (unat (vector_hash_key loc keys) mod (3 * n)) div 3"

text \<open>
  The end of a search: the record gets the current generation; when that is half the size of the
  table, all generations are lowered by half of it and the oldest records are dropped.
\<close>

definition age_record :: "int \<Rightarrow> cache_entry \<Rightarrow> cache_entry" where
  "age_record gen e =
     (let g = record_gen e - gen
      in if g \<le> 0 then e\<lparr>record_key := None, record_value := Some Cnil, record_gen := 0\<rparr> else e\<lparr>record_gen := g\<rparr>)"

definition touch_record :: "nat \<Rightarrow> method_cache \<Rightarrow> method_cache" where
  "touch_record i c =
     (let gen = method_generation c; T = (method_hash c)[i := (method_hash c ! i)\<lparr>record_gen := gen\<rparr>]
      in if int (3 * length T div 2) \<le> gen
         then c\<lparr>method_hash := map (age_record (gen div 2)) T, method_generation := gen - gen div 2\<rparr>
         else c\<lparr>method_hash := T\<rparr>)"

text \<open>The position of the record to use; \<open>LoseSearch\<close> is the call of \<open>mkcl_lose\<close>.\<close>

definition search_method_hash :: "(addr \<Rightarrow> mkcl_index) \<Rightarrow> method_cache \<Rightarrow> (dispatch_error + nat) \<times> method_cache" where
  "search_method_hash loc c =
     (let keys = method_spec_vector c; T = method_hash c
      in case probe T keys 20 (first_probe loc keys (length T)) (method_generation c) None of
           Inl i \<Rightarrow> (Inr i, touch_record i c)
         | Inr None \<Rightarrow> (Inl LoseSearch, c)
         | Inr (Some i) \<Rightarrow>
             (Inr i, touch_record i (c\<lparr>method_hash := T[i := (T ! i)\<lparr>record_key := None\<rparr>],
                method_generation := method_generation c + 1\<rparr>)))"

section \<open>Dispatching\<close>

text \<open>
  The key of a call: the generic function, then for each specializer its position's argument: the
  class precedence list of its class, or the tail of the list of \<open>eql\<close> specializers that begins
  with it. \<open>None\<close> when the key is longer than the vector of 64 elements.
\<close>

fun spec_arguments ::
  "heap \<Rightarrow> (obj \<Rightarrow> obj) \<Rightarrow> obj \<Rightarrow> obj list \<Rightarrow> nat \<Rightarrow> (obj \<times> nat) list \<Rightarrow> (dispatch_error + obj list option) option" where
  "spec_arguments h class_cpl gf args spec_no [] = Some (Inr (Some []))"
| "spec_arguments h class_cpl gf args spec_no ((spec_type, spec_position) # rest) =
     (if 64 \<le> spec_no then Some (Inr None)
      else if length args \<le> spec_position then Some (Inl (WrongNumArguments gf (spec_position + 1)))
      else
        let arg = args ! spec_position
        in Option.bind (if \<not> MKCL_CONSP h spec_type then Some (Inr Cnil) else mkcl_memql h arg spec_type) (\<lambda>r.
          case r of
            Inl err \<Rightarrow> Some (Inl (SpecListError err))
          | Inr tail \<Rightarrow>
              map_option (map_sum id (map_option (Cons (if tail = Cnil then class_cpl arg else tail))))
                (spec_arguments h class_cpl gf args (spec_no + 1) rest)))"

definition get_spec_vector ::
  "heap \<Rightarrow> (obj \<Rightarrow> obj) \<Rightarrow> (obj \<times> nat) list \<Rightarrow> obj \<Rightarrow> obj list \<Rightarrow> (dispatch_error + obj list option) option" where
  "get_spec_vector h class_cpl spec_how gf args =
     map_option (map_sum id (map_option (Cons gf))) (spec_arguments h class_cpl gf args 1 spec_how)"

definition clear_pending :: "obj \<Rightarrow> method_cache \<Rightarrow> method_cache" where
  "clear_pending ct c =
     (if method_hash_clear_list c \<noteq> []
      then fold (do_clear_method_hash ct) (method_hash_clear_list c) (c\<lparr>method_hash_clear_list := []\<rparr>) else c)"

definition store_method :: "nat \<Rightarrow> obj list \<Rightarrow> obj \<Rightarrow> method_cache \<Rightarrow> method_cache" where
  "store_method i keys func c =
     c\<lparr>method_hash := (method_hash c)[i := (method_hash c ! i)\<lparr>record_key := Some keys, record_value := Some func\<rparr>]\<rparr>"

text \<open>
  What happens after the search for the key in the spec vector. The method is computed with the
  key copied; when the record found has been taken meanwhile, the code searches again, for what
  is in the spec vector then.
\<close>

definition dispatch_found ::
  "(addr \<Rightarrow> mkcl_index) \<Rightarrow> (method_cache \<Rightarrow> obj \<times> method_cache) \<Rightarrow> nat \<Rightarrow> method_cache
    \<Rightarrow> (dispatch_error + obj) \<times> method_cache" where
  "dispatch_found loc compute i c =
     (if record_key (method_hash c ! i) \<noteq> None then (Inr (the (record_value (method_hash c ! i))), c)
      else
        let keys = method_spec_vector c; (func, c1) = compute c
        in if record_key (method_hash c1 ! i) \<noteq> None
           then (case search_method_hash loc c1 of
                   (Inl err, c2) \<Rightarrow> (Inl err, c2)
                 | (Inr j, c2) \<Rightarrow> (Inr func, store_method j keys func c2))
           else (Inr func, store_method i keys func c1))"

definition mkcl_standard_dispatch ::
  "obj \<Rightarrow> (addr \<Rightarrow> mkcl_index) \<Rightarrow> heap \<Rightarrow> (obj \<Rightarrow> obj) \<Rightarrow> (method_cache \<Rightarrow> obj \<times> method_cache)
    \<Rightarrow> (obj \<times> nat) list \<Rightarrow> obj \<Rightarrow> obj list \<Rightarrow> method_cache \<Rightarrow> ((dispatch_error + obj) \<times> method_cache) option" where
  "mkcl_standard_dispatch ct loc h class_cpl compute spec_how gf args c =
     (let c1 = clear_pending ct c
      in map_option (\<lambda>r. case r of
             Inl err \<Rightarrow> (Inl err, c1)
           | Inr None \<Rightarrow> (case compute c1 of (func, c2) \<Rightarrow> (Inr func, c2))
           | Inr (Some keys) \<Rightarrow>
               (case search_method_hash loc (c1\<lparr>method_spec_vector := keys\<rparr>) of
                  (Inl err, c2) \<Rightarrow> (Inl err, c2)
                | (Inr i, c2) \<Rightarrow> dispatch_found loc compute i c2))
           (get_spec_vector h class_cpl spec_how gf args))"

end
