(* ===== verification/Dispatch_Props.thy ===== *)
theory Dispatch_Props
  imports Dispatch
begin

text \<open>
  The cache is transparent. \<open>cache_valid\<close> says that every record either holds the current method
  of its key or waits to be cleared; every operation keeps it, and a dispatch returns the current
  method. The step relation \<open>gf_reach\<close> puts threads and redefinitions together. The last part
  shows the two cases in which the cache lets a program down: a search that finds no record to
  overwrite, and a redefinition while a method is being computed.
\<close>

section \<open>Valid caches\<close>

definition pending :: "obj \<Rightarrow> method_cache \<Rightarrow> obj list \<Rightarrow> bool" where
  "pending ct c k \<longleftrightarrow> ct \<in> set (method_hash_clear_list c) \<or> k ! 0 \<in> set (method_hash_clear_list c)"

definition record_valid :: "(obj list \<Rightarrow> obj) \<Rightarrow> (obj list \<Rightarrow> bool) \<Rightarrow> cache_entry \<Rightarrow> bool" where
  "record_valid M P e \<longleftrightarrow> (\<forall>k. record_key e = Some k \<longrightarrow> P k \<or> record_value e = Some (M k))"

definition cache_valid :: "obj \<Rightarrow> (obj list \<Rightarrow> obj) \<Rightarrow> method_cache \<Rightarrow> bool" where
  "cache_valid ct M c \<longleftrightarrow> (\<forall>e \<in> set (method_hash c). record_valid M (pending ct c) e)"

lemma valid_map:
  assumes "\<And>e. record_valid M P e \<Longrightarrow> record_valid M P (f e)" and "\<forall>e \<in> set T. record_valid M P e"
  shows "\<forall>e \<in> set (map f T). record_valid M P e"
  using assms by auto

lemma valid_update:
  assumes "\<forall>e \<in> set T. record_valid M P e" and "record_valid M P e'"
  shows "\<forall>e \<in> set (T[i := e']). record_valid M P e"
  using assms set_update_subset_insert [of T i e'] by blast

lemma valid_no_key [simp]: "record_key e = None \<Longrightarrow> record_valid M P e"
  by (simp add: record_valid_def)

section \<open>Searching\<close>

lemma probe_bounds:
  "i < length T \<Longrightarrow> (\<And>j. min_e = Some j \<Longrightarrow> j < length T) \<Longrightarrow>
   (case probe T keys k i min_gen min_e of
      Inl j \<Rightarrow> j < length T \<and> record_key (T ! j) = Some keys
    | Inr m \<Rightarrow> \<forall>j. m = Some j \<longrightarrow> j < length T)"
proof (induction T keys k i min_gen min_e rule: probe.induct)
  case (1 T keys i min_gen min_e)
  then show ?case by simp
next
  case (2 T keys k i min_gen min_e)
  have ne: "T \<noteq> []" using 2(4) by auto
  show ?case
  proof (cases "record_key (T ! i)")
    case None
    then show ?thesis using 2(1) [OF refl refl None] 2(4) ne by (cases "record_value (T ! i) = None") (auto simp: Let_def)
  next
    case (Some hkey)
    then show ?thesis
      using 2(2) [OF refl refl Some] 2(3) [OF refl refl Some] 2(4,5) ne by (auto simp: Let_def)
  qed
qed

lemma first_probe_bound: "0 < n \<Longrightarrow> first_probe loc keys n < n"
  by (simp add: first_probe_def div_less_iff_less_mult mult.commute)

lemma age_valid: "record_valid M P e \<Longrightarrow> record_valid M P (age_record g e)"
  by (auto simp: age_record_def Let_def record_valid_def)

lemma touch_fields [simp]:
  "method_hash_clear_list (touch_record i c) = method_hash_clear_list c"
  "method_spec_vector (touch_record i c) = method_spec_vector c"
  "length (method_hash (touch_record i c)) = length (method_hash c)"
  by (simp_all add: touch_record_def Let_def)

lemma touch_valid:
  assumes "cache_valid ct M c" and "i < length (method_hash c)"
  shows "cache_valid ct M (touch_record i c)"
proof -
  let ?P = "pending ct c" and ?T = "(method_hash c)[i := (method_hash c ! i)\<lparr>record_gen := method_generation c\<rparr>]"
  have v: "\<forall>e \<in> set (method_hash c). record_valid M ?P e" using assms(1) by (simp add: cache_valid_def)
  then have "record_valid M ?P ((method_hash c ! i)\<lparr>record_gen := method_generation c\<rparr>)"
    using assms(2) nth_mem by (fastforce simp: record_valid_def)
  from valid_update [OF v this, of i] have T: "\<forall>e \<in> set ?T. record_valid M ?P e" .
  then have "\<forall>e \<in> set (map (age_record (method_generation c div 2)) ?T). record_valid M ?P e"
    using valid_map [of M ?P "age_record (method_generation c div 2)" ?T] age_valid by blast
  with T show ?thesis
    unfolding cache_valid_def pending_def touch_record_def by (simp add: Let_def)
qed

lemma touch_key: "record_key (method_hash (touch_record i c) ! j) \<in> {None, record_key (method_hash c ! j)}"
    and touch_value: "record_key (method_hash (touch_record i c) ! j) = Some k \<Longrightarrow>
      record_value (method_hash (touch_record i c) ! j) = record_value (method_hash c ! j)"
  if "j < length (method_hash c)"
  using that by (cases "i = j"; auto simp: touch_record_def Let_def age_record_def split: if_splits)+


lemma search_ok:
  assumes "cache_valid ct M c" and "0 < length (method_hash c)" and "search_method_hash loc c = (r, c')"
  shows "cache_valid ct M c'" "method_hash_clear_list c' = method_hash_clear_list c"
    "method_spec_vector c' = method_spec_vector c" "length (method_hash c') = length (method_hash c)"
    "r = Inl LoseSearch \<or> (\<exists>i. r = Inr i \<and> i < length (method_hash c) \<and>
       record_key (method_hash c' ! i) \<in> {None, Some (method_spec_vector c)})"
proof -
  let ?keys = "method_spec_vector c" and ?T = "method_hash c"
  let ?p = "probe ?T ?keys 20 (first_probe loc ?keys (length ?T)) (method_generation c) None"
  have b: "case ?p of Inl j \<Rightarrow> j < length ?T \<and> record_key (?T ! j) = Some ?keys | Inr m \<Rightarrow> \<forall>j. m = Some j \<longrightarrow> j < length ?T"
    using probe_bounds [OF first_probe_bound [OF assms(2)], of None] by simp
  have "cache_valid ct M c' \<and> method_hash_clear_list c' = method_hash_clear_list c \<and> method_spec_vector c' = ?keys
      \<and> length (method_hash c') = length ?T \<and> (r = Inl LoseSearch \<or> (\<exists>i. r = Inr i \<and> i < length ?T \<and>
          record_key (method_hash c' ! i) \<in> {None, Some ?keys}))"
  proof (cases ?p)
    case (Inl i)
    then have i: "i < length ?T" "record_key (?T ! i) = Some ?keys" using b by simp_all
    have "r = Inr i" "c' = touch_record i c" using assms(3) Inl by (simp_all add: search_method_hash_def)
    then show ?thesis using touch_valid [OF assms(1) i(1)] touch_key [OF i(1), of i] i by simp
  next
    case (Inr m)
    show ?thesis
    proof (cases m)
      case None
      then show ?thesis using assms(1,3) Inr by (simp add: search_method_hash_def)
    next
      case (Some i)
      then have i: "i < length ?T" using b Inr by simp
      let ?c = "c\<lparr>method_hash := ?T[i := (?T ! i)\<lparr>record_key := None\<rparr>], method_generation := method_generation c + 1\<rparr>"
      have r: "r = Inr i" "c' = touch_record i ?c" using assms(3) Inr Some by (simp_all add: search_method_hash_def Let_def)
      have p: "pending ct ?c = pending ct c" by (rule ext) (simp add: pending_def)
      have "\<forall>e \<in> set (method_hash ?c). record_valid M (pending ct c) e"
        using valid_update [of ?T M "pending ct c" "(?T ! i)\<lparr>record_key := None\<rparr>" i] assms(1)
        by (simp add: cache_valid_def)
      then have "cache_valid ct M ?c" unfolding cache_valid_def p .
      then show ?thesis using r touch_valid [of ct M ?c i] touch_key [of i ?c i] i by simp
    qed
  qed
  then show "cache_valid ct M c'" "method_hash_clear_list c' = method_hash_clear_list c"
    "method_spec_vector c' = method_spec_vector c" "length (method_hash c') = length (method_hash c)"
    "r = Inl LoseSearch \<or> (\<exists>i. r = Inr i \<and> i < length (method_hash c) \<and>
       record_key (method_hash c' ! i) \<in> {None, Some (method_spec_vector c)})" by simp_all
qed

section \<open>Clearing\<close>

lemma clear_fields [simp]:
  "method_spec_vector (do_clear_method_hash ct t c) = method_spec_vector c"
  "length (method_hash (do_clear_method_hash ct t c)) = length (method_hash c)"
  by (simp_all add: do_clear_method_hash_def)

lemma clear_one:
  assumes "\<forall>e \<in> set (method_hash c). record_valid M (\<lambda>k. ct \<in> set (t # ts) \<or> k ! 0 \<in> set (t # ts)) e"
  shows "\<forall>e \<in> set (method_hash (do_clear_method_hash ct t c)). record_valid M (\<lambda>k. ct \<in> set ts \<or> k ! 0 \<in> set ts) e"
proof (cases "t = ct")
  case True
  then show ?thesis by (auto simp: do_clear_method_hash_def empty_record_def)
next
  case False
  then show ?thesis using assms
    by (auto simp: do_clear_method_hash_def record_valid_def split: option.splits if_splits)
qed

lemma clear_list_kept:
  "method_hash_clear_list c = [] \<Longrightarrow> method_hash_clear_list (fold (do_clear_method_hash ct) ts c) = []"
  by (induction ts arbitrary: c) (simp_all add: do_clear_method_hash_def)

lemma clear_all:
  assumes "\<forall>e \<in> set (method_hash c). record_valid M (\<lambda>k. ct \<in> set ts \<or> k ! 0 \<in> set ts) e"
  shows "\<forall>e \<in> set (method_hash (fold (do_clear_method_hash ct) ts c)). record_valid M (\<lambda>k. False) e"
  using assms
proof (induction ts arbitrary: c)
  case (Cons t ts)
  then show ?case using clear_one [OF Cons.prems] by simp
qed simp

lemma fold_clear_length: "length (method_hash (fold (do_clear_method_hash ct) ts c)) = length (method_hash c)"
  by (induction ts arbitrary: c) simp_all

text \<open>After the pending requests are served every record is right.\<close>

lemma clear_pending_ok:
  assumes "cache_valid ct M c"
  shows "cache_valid ct M (clear_pending ct c)" "method_hash_clear_list (clear_pending ct c) = []"
    "length (method_hash (clear_pending ct c)) = length (method_hash c)"
proof -
  have v: "\<forall>e \<in> set (method_hash c). record_valid M (\<lambda>k. ct \<in> set (method_hash_clear_list c) \<or> k ! 0 \<in> set (method_hash_clear_list c)) e"
    using assms by (simp add: cache_valid_def pending_def [abs_def])
  have e: "method_hash_clear_list (clear_pending ct c) = []"
    by (simp add: clear_pending_def clear_list_kept)
  then show "method_hash_clear_list (clear_pending ct c) = []" .
  have "pending ct (clear_pending ct c) = (\<lambda>k. False)" using e by (auto simp: pending_def)
  then show "cache_valid ct M (clear_pending ct c)"
    using clear_all [of "c\<lparr>method_hash_clear_list := []\<rparr>" M ct "method_hash_clear_list c"] v
    unfolding cache_valid_def by (auto simp: clear_pending_def)
  show "length (method_hash (clear_pending ct c)) = length (method_hash c)"
    by (simp add: clear_pending_def fold_clear_length)
qed


section \<open>Dispatching\<close>

text \<open>What is asked of the computation of a method: the current method, and a valid cache left behind.\<close>

definition computes :: "obj \<Rightarrow> (obj list \<Rightarrow> obj) \<Rightarrow> obj list \<Rightarrow> (method_cache \<Rightarrow> obj \<times> method_cache) \<Rightarrow> bool" where
  "computes ct M keys compute \<longleftrightarrow> (\<forall>c. cache_valid ct M c \<longrightarrow>
     fst (compute c) = M keys \<and> cache_valid ct M (snd (compute c))
     \<and> length (method_hash (snd (compute c))) = length (method_hash c))"

lemma store_valid:
  assumes "cache_valid ct M c"
  shows "cache_valid ct M (store_method i keys (M keys) c)"
proof -
  have p: "pending ct (store_method i keys (M keys) c) = pending ct c" by (rule ext) (simp add: pending_def store_method_def)
  have "record_valid M (pending ct c) ((method_hash c ! i)\<lparr>record_key := Some keys, record_value := Some (M keys)\<rparr>)"
    by (simp add: record_valid_def)
  from valid_update [OF _ this, of "method_hash c" i] assms show ?thesis
    unfolding cache_valid_def p by (simp add: store_method_def)
qed

lemma found_ok:
  assumes v: "cache_valid ct M c" and n: "0 < length (method_hash c)" and i: "i < length (method_hash c)"
    and cl: "method_hash_clear_list c = []" and keys: "method_spec_vector c = keys"
    and k: "record_key (method_hash c ! i) \<in> {None, Some keys}" and comp: "computes ct M keys compute"
    and d: "dispatch_found loc compute i c = (r, c')"
  shows "(r = Inr (M keys) \<or> r = Inl LoseSearch) \<and> cache_valid ct M c' \<and> length (method_hash c') = length (method_hash c)"
proof (cases "record_key (method_hash c ! i)")
  case (Some k')
  then have "record_value (method_hash c ! i) = Some (M keys)"
    using v i k cl nth_mem [OF i] by (auto simp: cache_valid_def record_valid_def pending_def)
  then show ?thesis using d Some v by (auto simp: dispatch_found_def)
next
  case None
  obtain func c1 where c1: "compute c = (func, c1)" by fastforce
  have f: "func = M keys" "cache_valid ct M c1" "length (method_hash c1) = length (method_hash c)"
    using comp v c1 by (auto simp: computes_def)
  show ?thesis
  proof (cases "record_key (method_hash c1 ! i) = None")
    case True
    then have "r = Inr func" "c' = store_method i keys func c1"
      using d None c1 keys by (simp_all add: dispatch_found_def Let_def)
    then show ?thesis using f store_valid [OF f(2), of i keys] by (simp add: store_method_def)
  next
    case False
    obtain r2 c2 where s: "search_method_hash loc c1 = (r2, c2)" by fastforce
    have so: "cache_valid ct M c2" "length (method_hash c2) = length (method_hash c)"
        "r2 = Inl LoseSearch \<or> (\<exists>j. r2 = Inr j)"
      using search_ok [OF f(2) _ s] n f(3) by auto
    have "r = Inl LoseSearch \<and> c' = c2 \<or> (\<exists>j. r = Inr func \<and> c' = store_method j keys func c2)"
      using d None False c1 s keys so(3) by (auto simp: dispatch_found_def Let_def)
    then show ?thesis using f(1) so(1,2) store_valid [OF so(1)] by (auto simp: store_method_def)
  qed
qed

lemma dispatch_ok:
  assumes "cache_valid ct M c" and "0 < length (method_hash c)"
    and "get_spec_vector h class_cpl spec_how gf args = Some (Inr (Some keys))" and "computes ct M keys compute"
  shows "\<exists>r c'. mkcl_standard_dispatch ct loc h class_cpl compute spec_how gf args c = Some (r, c')
    \<and> (r = Inr (M keys) \<or> r = Inl LoseSearch) \<and> cache_valid ct M c' \<and> length (method_hash c') = length (method_hash c)"
proof -
  note cp = clear_pending_ok [OF assms(1)]
  let ?c = "(clear_pending ct c)\<lparr>method_spec_vector := keys\<rparr>"
  have p: "pending ct ?c = pending ct (clear_pending ct c)" by (rule ext) (simp add: pending_def)
  have v: "cache_valid ct M ?c" using cp(1) unfolding cache_valid_def p by simp
  obtain r2 c2 where s: "search_method_hash loc ?c = (r2, c2)" by fastforce
  have n: "0 < length (method_hash ?c)" using cp(3) assms(2) by simp
  note so = search_ok [OF v n s]
  from so(5) show ?thesis
  proof
    assume "r2 = Inl LoseSearch"
    then show ?thesis using assms(3) s so(1,4) cp(3) by (simp add: mkcl_standard_dispatch_def)
  next
    assume "\<exists>i. r2 = Inr i \<and> i < length (method_hash ?c) \<and> record_key (method_hash c2 ! i) \<in> {None, Some (method_spec_vector ?c)}"
    then obtain i where i: "r2 = Inr i" "i < length (method_hash ?c)" "record_key (method_hash c2 ! i) \<in> {None, Some keys}" by auto
    obtain r c' where d: "dispatch_found loc compute i c2 = (r, c')" by fastforce
    have "(r = Inr (M keys) \<or> r = Inl LoseSearch) \<and> cache_valid ct M c' \<and> length (method_hash c') = length (method_hash c2)"
      using found_ok [OF so(1) _ _ _ _ i(3) assms(4) d] so(2-4) n i(2) cp(2) by simp
    then show ?thesis using assms(3) s i(1) d so(4) cp(3) by (simp add: mkcl_standard_dispatch_def)
  qed
qed

section \<open>Threads and redefinitions\<close>

text \<open>
  The states: the methods of all keys, and the caches of the threads. A redefinition of a generic
  function changes methods of its own keys only and asks all threads to clear; a thread calls a
  generic function. \<open>run M keys\<close> computes the method of a key when \<open>M\<close> are the methods.
\<close>

inductive gf_reach ::
  "obj \<Rightarrow> (addr \<Rightarrow> mkcl_index) \<Rightarrow> heap \<Rightarrow> (obj \<Rightarrow> obj)
    \<Rightarrow> ((obj list \<Rightarrow> obj) \<Rightarrow> obj list \<Rightarrow> method_cache \<Rightarrow> obj \<times> method_cache)
    \<Rightarrow> (obj list \<Rightarrow> obj) \<Rightarrow> method_cache list \<Rightarrow> bool"
  for ct loc h class_cpl run where
    gf_start: "0 < records \<Longrightarrow> gf_reach ct loc h class_cpl run M (replicate n (mkcl_set_method_hash_size records))"
  | gf_redefine: "gf_reach ct loc h class_cpl run M cs \<Longrightarrow> (\<And>k. k ! 0 \<noteq> gf \<Longrightarrow> M' k = M k)
      \<Longrightarrow> gf_reach ct loc h class_cpl run M' (mk_si_clear_gfun_cache gf cs)"
  | gf_call: "gf_reach ct loc h class_cpl run M cs \<Longrightarrow> t < length cs
      \<Longrightarrow> get_spec_vector h class_cpl spec_how gf args = Some (Inr (Some keys))
      \<Longrightarrow> mkcl_standard_dispatch ct loc h class_cpl (run M keys) spec_how gf args (cs ! t) = Some (r, c')
      \<Longrightarrow> gf_reach ct loc h class_cpl run M (cs[t := c'])"

lemma fresh_valid: "cache_valid ct M (mkcl_set_method_hash_size n)"
  by (auto simp: cache_valid_def mkcl_set_method_hash_size_def empty_record_def)

lemma redefine_valid:
  assumes "cache_valid ct M c" and "\<And>k. k ! 0 \<noteq> gf \<Longrightarrow> M' k = M k"
  shows "cache_valid ct M' (c\<lparr>method_hash_clear_list := gf # method_hash_clear_list c\<rparr>)"
  using assms unfolding cache_valid_def record_valid_def pending_def by fastforce

lemma gf_reach_valid:
  assumes "gf_reach ct loc h class_cpl run M cs" and "\<And>M keys. computes ct M keys (run M keys)"
  shows "\<forall>c \<in> set cs. cache_valid ct M c \<and> 0 < length (method_hash c)"
  using assms(1)
proof induction
  case (gf_start records M n)
  then show ?case using fresh_valid by (auto simp: mkcl_set_method_hash_size_def)
next
  case (gf_redefine M cs gf M')
  then show ?case using redefine_valid [of ct M _ gf M'] by (auto simp: mk_si_clear_gfun_cache_def)
next
  case (gf_call M cs t spec_how gf args keys r c')
  have t: "cache_valid ct M (cs ! t)" "0 < length (method_hash (cs ! t))" using gf_call by simp_all
  have "cache_valid ct M c' \<and> 0 < length (method_hash c')"
    using dispatch_ok [OF t gf_call(3) assms(2), of loc] gf_call(4) t(2) by auto
  then show ?case using gf_call.IH set_update_subset_insert [of cs t c'] by blast
qed


section \<open>No record to overwrite\<close>

text \<open>
  A hit gives its record the current generation, which only a miss advances. When every record a
  search looks at has it, none is older than the current generation and there is none to take.
\<close>

lemma probe_all_current:
  assumes "\<And>d. d < k \<Longrightarrow> \<exists>k'. record_key (T ! ((i + d) mod length T)) = Some k' \<and> k' \<noteq> keys"
    and "\<And>d. d < k \<Longrightarrow> gen \<le> record_gen (T ! ((i + d) mod length T))" and "i < length T"
  shows "probe T keys k i gen None = Inr None"
  using assms
proof (induction k arbitrary: i)
  case (Suc k)
  let ?i = "if length T \<le> i + 1 then 0 else i + 1"
  have i: "?i = (i + 1) mod length T" "?i < length T" using Suc.prems(3) by (auto simp: le_Suc_eq)
  have s: "(?i + d) mod length T = (i + Suc d) mod length T" for d unfolding i(1) by (simp add: mod_add_left_eq)
  obtain k' where k': "record_key (T ! i) = Some k'" "k' \<noteq> keys" using Suc.prems(1) [of 0] Suc.prems(3) by auto
  have "gen \<le> record_gen (T ! i)" using Suc.prems(2) [of 0] Suc.prems(3) by simp
  moreover have "probe T keys k ?i gen None = Inr None"
  proof (rule Suc.IH)
    show "\<exists>k'. record_key (T ! ((?i + d) mod length T)) = Some k' \<and> k' \<noteq> keys" if "d < k" for d
      using Suc.prems(1) [of "Suc d"] that by (simp only: s)
    show "gen \<le> record_gen (T ! ((?i + d) mod length T))" if "d < k" for d
      using Suc.prems(2) [of "Suc d"] that by (simp only: s)
  qed (rule i(2))
  ultimately show ?case using k' by (simp add: Let_def)
qed simp

lemma probe_found_gen:
  assumes "probe T keys k i g m = Inl j" and "map (\<lambda>e. (record_key e, record_value e)) T = map (\<lambda>e. (record_key e, record_value e)) T'"
  shows "i < length T \<Longrightarrow> probe T' keys k i g' m' = Inl j"
  using assms
proof (induction k arbitrary: i g m g' m')
  case (Suc k)
  have l: "length T = length T'" using Suc.prems(3) map_eq_imp_length_eq by blast
  have e: "record_key (T' ! i) = record_key (T ! i)" "record_value (T' ! i) = record_value (T ! i)"
    using Suc.prems(1,3) l by (metis (no_types, lifting) nth_map prod.inject)+
  let ?i = "if length T \<le> i + 1 then 0 else i + 1"
  have "?i < length T" using Suc.prems(1) by auto
  note IH = Suc.IH [OF this _ Suc.prems(3)]
  show ?case
  proof (cases "record_key (T ! i)")
    case None
    then show ?thesis using Suc.prems(2) IH e l by (auto simp: Let_def split: if_splits)
  next
    case (Some hkey)
    then show ?thesis using Suc.prems(2) IH e l by (auto simp: Let_def split: if_splits)
  qed
qed simp

definition look_up :: "(addr \<Rightarrow> mkcl_index) \<Rightarrow> obj list \<Rightarrow> method_cache \<Rightarrow> (dispatch_error + nat) \<times> method_cache" where
  "look_up loc keys c = search_method_hash loc (c\<lparr>method_spec_vector := keys\<rparr>)"

definition same_records :: "cache_entry list \<Rightarrow> cache_entry list \<Rightarrow> bool" where
  "same_records T T' \<longleftrightarrow> map (\<lambda>e. (record_key e, record_value e)) T = map (\<lambda>e. (record_key e, record_value e)) T'"

lemma same_records_length: "same_records T T' \<Longrightarrow> length T' = length T"
  by (metis map_eq_imp_length_eq same_records_def)

lemma same_records_key:
  assumes "same_records T T'" and "p < length T"
  shows "record_key (T' ! p) = record_key (T ! p)"
  using arg_cong [OF assms(1) [unfolded same_records_def], of "\<lambda>l. l ! p"] assms(2) same_records_length [OF assms(1)] by simp

text \<open>A hit changes the generation of the record it finds and nothing else.\<close>

lemma hit_touches:
  assumes "probe T k 20 (first_probe loc k (length T)) 0 None = Inl j" and "same_records T (method_hash c)"
    and "j < length T" and "method_generation c < int (3 * length T div 2)"
  shows "snd (look_up loc k c) = c\<lparr>method_spec_vector := k,
    method_hash := (method_hash c)[j := (method_hash c ! j)\<lparr>record_gen := method_generation c\<rparr>]\<rparr>"
proof -
  have l: "length (method_hash c) = length T" by (rule same_records_length [OF assms(2)])
  have "first_probe loc k (length T) < length T" using assms(3) by (intro first_probe_bound) linarith
  from probe_found_gen [OF assms(1) assms(2) [unfolded same_records_def] this, of "method_generation c" None]
  show ?thesis using assms(4) l by (simp add: look_up_def search_method_hash_def touch_record_def Let_def)
qed

lemma same_records_touch:
  assumes "same_records T T'"
  shows "same_records T (T'[j := (T' ! j)\<lparr>record_gen := g\<rparr>])"
proof (cases "j < length T'")
  case True
  then show ?thesis using assms by (simp add: same_records_def map_update) (metis (no_types, lifting) list_update_id nth_map)
next
  case False
  then show ?thesis using assms by (simp add: list_update_beyond)
qed

lemma hits_touch_all:
  assumes found: "\<forall>p \<in> set ps. probe T (K p) 20 (first_probe loc (K p) (length T)) 0 None = Inl p"
    and bound: "\<forall>p \<in> set ps. p < length T" and "same_records T (method_hash c)"
    and gen: "method_generation c < int (3 * length T div 2)"
  shows "let c' = fold (\<lambda>p c. snd (look_up loc (K p) c)) ps c
    in same_records T (method_hash c') \<and> method_generation c' = method_generation c
      \<and> (\<forall>p. p \<in> set ps \<or> p < length T \<and> record_gen (method_hash c ! p) = method_generation c
           \<longrightarrow> record_gen (method_hash c' ! p) = method_generation c)"
  using assms
proof (induction ps arbitrary: c)
  case (Cons p ps)
  let ?c = "snd (look_up loc (K p) c)"
  have len: "length (method_hash c) = length T" by (rule same_records_length [OF Cons.prems(3)])
  have c: "?c = c\<lparr>method_spec_vector := K p,
      method_hash := (method_hash c)[p := (method_hash c ! p)\<lparr>record_gen := method_generation c\<rparr>]\<rparr>"
    using Cons.prems by (intro hit_touches) simp_all
  have g: "method_generation ?c = method_generation c" and s: "same_records T (method_hash ?c)"
    using same_records_touch [OF Cons.prems(3)] by (simp_all add: c)
  have p: "record_gen (method_hash ?c ! q) = method_generation c"
    if "q < length T" "q = p \<or> record_gen (method_hash c ! q) = method_generation c" for q
    using that len by (cases "q = p") (auto simp: c)
  from Cons.IH [of ?c] g s Cons.prems
  have IH: "let c' = fold (\<lambda>p c. snd (look_up loc (K p) c)) ps ?c
    in same_records T (method_hash c') \<and> method_generation c' = method_generation c
      \<and> (\<forall>p. p \<in> set ps \<or> p < length T \<and> record_gen (method_hash ?c ! p) = method_generation c
           \<longrightarrow> record_gen (method_hash c' ! p) = method_generation c)" by simp
  show ?case using IH p Cons.prems(2) by (auto simp: Let_def)
qed (auto simp: Let_def)

text \<open>The records a search looks at.\<close>

definition search_window :: "(addr \<Rightarrow> mkcl_index) \<Rightarrow> obj list \<Rightarrow> nat \<Rightarrow> nat list" where
  "search_window loc keys n = map (\<lambda>d. (first_probe loc keys n + d) mod n) [0..<20]"

text \<open>Once the records a search looks at have all been hit, the search finds none to take.\<close>

lemma hits_block:
  fixes loc keys T
  defines "window \<equiv> search_window loc keys (length T)"
  assumes T: "method_hash c = T" "0 < length T"
    and other: "\<forall>p \<in> set window. record_key (T ! p) = Some (K p) \<and> K p \<noteq> keys"
    and found: "\<forall>p \<in> set window. probe T (K p) 20 (first_probe loc (K p) (length T)) 0 None = Inl p"
    and gen: "method_generation c < int (3 * length T div 2)"
  shows "fst (look_up loc keys (fold (\<lambda>p c. snd (look_up loc (K p) c)) window c)) = Inl LoseSearch"
proof -
  let ?c = "fold (\<lambda>p c. snd (look_up loc (K p) c)) window c" and ?i = "first_probe loc keys (length T)"
  have bw: "\<forall>p \<in> set window. p < length T" using T(2) by (auto simp: window_def search_window_def)
  have b: "p < length T" if "p \<in> set window" for p using that bw by blast
  have "same_records T (method_hash c)" using T(1) by (simp add: same_records_def)
  note h = hits_touch_all [of window T K loc c, OF found bw this gen, unfolded Let_def]
  note s = h [THEN conjunct1] h [THEN conjunct2, THEN conjunct1]
  have g: "record_gen (method_hash ?c ! p) = method_generation c" if "p \<in> set window" for p
    using h [THEN conjunct2, THEN conjunct2, rule_format, OF disjI1 [OF that]] .
  have l: "length (method_hash ?c) = length T" by (rule same_records_length [OF s(1)])
  have k: "record_key (method_hash ?c ! p) = record_key (T ! p)" if "p < length T" for p
    by (rule same_records_key [OF s(1) that])
  have w: "(?i + d) mod length T \<in> set window" if "d < 20" for d using that by (simp add: window_def search_window_def)
  have i: "?i < length (method_hash ?c)" using first_probe_bound [OF T(2)] l by simp
  have 1: "\<exists>k'. record_key (method_hash ?c ! ((?i + d) mod length (method_hash ?c))) = Some k' \<and> k' \<noteq> keys"
    and 2: "method_generation c \<le> record_gen (method_hash ?c ! ((?i + d) mod length (method_hash ?c)))" if "d < 20" for d
    using bspec [OF other w [OF that]] g [OF w [OF that]] k [OF b [OF w [OF that]]] l by simp_all
  have "probe (method_hash ?c) keys 20 ?i (method_generation c) None = Inr None"
    using probe_all_current [OF 1 2 i] by blast
  then show ?thesis using s(2) l by (simp add: look_up_def search_method_hash_def)
qed

section \<open>A redefinition during the computation\<close>

text \<open>
  The computation of a method returns \<open>old\<close>. Before it ends its generic function is redefined,
  and the computation calls a generic function itself: this nested dispatch serves the request to
  clear, overwrites the spec vector of the thread and takes a record for the method it computes.
\<close>

definition compute_during_redefinition ::
  "obj \<Rightarrow> (addr \<Rightarrow> mkcl_index) \<Rightarrow> heap \<Rightarrow> (obj \<Rightarrow> obj) \<Rightarrow> obj \<Rightarrow> obj
    \<Rightarrow> (method_cache \<Rightarrow> obj \<times> method_cache) \<Rightarrow> (obj \<times> nat) list \<Rightarrow> obj \<Rightarrow> obj list \<Rightarrow> method_cache \<Rightarrow> obj \<times> method_cache" where
  "compute_during_redefinition ct loc h class_cpl gf old compute' spec_how' gf' args' c =
     (case mkcl_standard_dispatch ct loc h class_cpl compute' spec_how' gf' args' (hd (mk_si_clear_gfun_cache gf [c])) of
        None \<Rightarrow> (old, c)
      | Some (r, c') \<Rightarrow> (old, c'))"

lemma clear_no_keys:
  assumes "gf \<noteq> ct" "method_hash_clear_list c = []" "\<forall>e \<in> set (method_hash c). record_key e = None"
  shows "clear_pending ct (hd (mk_si_clear_gfun_cache gf [c])) = c"
proof -
  have "map (\<lambda>e. case record_key e of None \<Rightarrow> e | Some key \<Rightarrow> if gf = key ! 0 then e\<lparr>record_key := None, record_gen := 0\<rparr> else e)
      (method_hash c) = method_hash c"
    using assms(3) by (intro map_idI) simp
  then show ?thesis
    using assms(1,2) by (cases c) (simp add: clear_pending_def mk_si_clear_gfun_cache_def do_clear_method_hash_def)
qed

lemma probe_first_empty:
  "record_key (T ! i) = None \<Longrightarrow> record_value (T ! i) = None \<Longrightarrow> probe T keys 20 i g m = Inr (Some i)"
  using probe.simps(2) [of T keys 19 i g m] by simp

lemma probe_first_found: "record_key (T ! i) = Some keys \<Longrightarrow> probe T keys 20 i g m = Inl i"
  using probe.simps(2) [of T keys 19 i g m] by simp

text \<open>A search whose first record is empty takes it; one whose first record has the key finds it.\<close>

lemma search_empty_record:
  assumes "i = first_probe loc (method_spec_vector c) (length (method_hash c))" and "i < length (method_hash c)"
    and "record_key (method_hash c ! i) = None" and "record_value (method_hash c ! i) = None"
    and "method_generation c + 1 < int (3 * length (method_hash c) div 2)"
  shows "search_method_hash loc c = (Inr i, c\<lparr>method_hash := (method_hash c)[i := (method_hash c ! i)\<lparr>record_gen := method_generation c + 1\<rparr>],
      method_generation := method_generation c + 1\<rparr>)"
proof -
  have "(method_hash c ! i)\<lparr>record_key := None, record_gen := g\<rparr> = (method_hash c ! i)\<lparr>record_gen := g\<rparr>" for g
    using assms(3) by (cases "method_hash c ! i") simp
  then show ?thesis
    using assms(1,2,5) probe_first_empty [OF assms(3,4)]
    by (cases c) (simp add: search_method_hash_def touch_record_def Let_def)
qed

lemma search_at_first_probe:
  assumes "i = first_probe loc (method_spec_vector c) (length (method_hash c))"
    and "record_key (method_hash c ! i) = Some (method_spec_vector c)"
    and "method_generation c < int (3 * length (method_hash c) div 2)"
  shows "search_method_hash loc c = (Inr i, c\<lparr>method_hash := (method_hash c)[i := (method_hash c ! i)\<lparr>record_gen := method_generation c\<rparr>]\<rparr>)"
  using assms by (simp add: search_method_hash_def probe_first_found touch_record_def Let_def)

text \<open>A dispatch to an empty record: the method is computed and stored.\<close>

lemma dispatch_empty_record:
  assumes "clear_pending ct c = c0" and "get_spec_vector h class_cpl spec_how gf args = Some (Inr (Some keys))"
    and "i = first_probe loc keys (length (method_hash c0))" and "i < length (method_hash c0)"
    and "record_key (method_hash c0 ! i) = None" and "record_value (method_hash c0 ! i) = None"
    and "method_generation c0 + 1 < int (3 * length (method_hash c0) div 2)"
  shows "\<exists>c1. mkcl_standard_dispatch ct loc h class_cpl compute spec_how gf args c = Some (dispatch_found loc compute i c1)
    \<and> c1 = c0\<lparr>method_hash := (method_hash c0)[i := (method_hash c0 ! i)\<lparr>record_gen := method_generation c0 + 1\<rparr>],
         method_generation := method_generation c0 + 1, method_spec_vector := keys\<rparr>"
  using assms search_empty_record [of i loc "c0\<lparr>method_spec_vector := keys\<rparr>"]
  by (cases c0) (simp add: mkcl_standard_dispatch_def)

text \<open>The state after the nested dispatch: the record of the outer one is free, or was taken by it.\<close>

lemma nested_dispatch:
  assumes n: "2 \<le> length (method_hash c)" and "gf \<noteq> ct" and c: "method_generation c = 1" "method_hash_clear_list c = []"
    and keys': "get_spec_vector h class_cpl spec_how' gf' args' = Some (Inr (Some keys'))"
    and fresh: "\<forall>e \<in> set (method_hash c). record_key e = None \<and> record_value e = None"
    and i': "i' = first_probe loc keys' (length (method_hash c))"
  shows "compute_during_redefinition ct loc h class_cpl gf old (\<lambda>c. (new, c)) spec_how' gf' args' c
    = (old, c\<lparr>method_hash := (method_hash c)[i' := (method_hash c ! i')\<lparr>record_gen := 2, record_key := Some keys', record_value := Some new\<rparr>],
         method_generation := 2, method_spec_vector := keys'\<rparr>)"
proof -
  have i: "i' < length (method_hash c)" unfolding i' using n by (intro first_probe_bound) linarith
  have cl: "clear_pending ct (hd (mk_si_clear_gfun_cache gf [c])) = c"
    using fresh by (intro clear_no_keys assms(2) c(2)) simp
  have g: "method_generation c + 1 < int (3 * length (method_hash c) div 2)" using n c(1) by linarith
  have f: "record_key (method_hash c ! i') = None" "record_value (method_hash c ! i') = None" using fresh i by simp_all
  from dispatch_empty_record [OF cl keys' i' i f g, of "\<lambda>c. (new, c)"]
  show ?thesis
    using f i c(1) by (cases c) (auto simp: compute_during_redefinition_def dispatch_found_def store_method_def Let_def)
qed

text \<open>The next call finds the record of the old method, whatever it would compute.\<close>

lemma found_next:
  assumes "2 < int (3 * length (method_hash c) div 2)" and "method_hash_clear_list c = []" and "method_generation c = 2"
    and keys: "get_spec_vector h class_cpl spec_how gf args = Some (Inr (Some keys))"
    and i: "i = first_probe loc keys (length (method_hash c))" "i < length (method_hash c)"
      "record_key (method_hash c ! i) = Some keys" "record_value (method_hash c ! i) = Some old"
  shows "\<exists>c2. mkcl_standard_dispatch ct loc h class_cpl compute spec_how gf args c = Some (Inr old, c2)"
proof -
  have "clear_pending ct c = c" using assms(2) by (simp add: clear_pending_def)
  then show ?thesis
    using search_at_first_probe [of i loc "c\<lparr>method_spec_vector := keys\<rparr>"] keys i assms(1,3)
    by (simp add: mkcl_standard_dispatch_def dispatch_found_def)
qed

text \<open>The outer dispatch stores the old method at its first record, or over the record of the nested one.\<close>

lemma stale_stored:
  fixes loc keys n
  defines "i \<equiv> first_probe loc keys n"
  assumes n: "2 \<le> length (method_hash c)" "length (method_hash c) = n" and gf: "gf \<noteq> ct"
    and c: "method_generation c = 1" "method_hash_clear_list c = []" "method_spec_vector c = keys"
    and keys': "get_spec_vector h class_cpl spec_how' gf' args' = Some (Inr (Some keys'))"
    and fresh: "\<forall>e \<in> set (method_hash c). record_key e = None \<and> record_value e = None"
  shows "\<exists>c1. dispatch_found loc (compute_during_redefinition ct loc h class_cpl gf old (\<lambda>c. (new, c)) spec_how' gf' args') i c
      = (Inr old, c1) \<and> method_hash_clear_list c1 = [] \<and> method_generation c1 = 2 \<and> length (method_hash c1) = n
    \<and> record_key (method_hash c1 ! i) = Some keys \<and> record_value (method_hash c1 ! i) = Some old"
proof -
  let ?i' = "first_probe loc keys' (length (method_hash c))"
  have i: "i < n" and i': "?i' < n" unfolding i_def using n first_probe_bound [of n] by auto
  have e: "compute_during_redefinition ct loc h class_cpl gf old (\<lambda>c. (new, c)) spec_how' gf' args' c
      = (old, c\<lparr>method_hash := (method_hash c)[?i' := (method_hash c ! ?i')\<lparr>record_gen := 2, record_key := Some keys', record_value := Some new\<rparr>],
         method_generation := 2, method_spec_vector := keys'\<rparr>)" (is "_ = (old, ?c1)")
    by (rule nested_dispatch [OF n(1) gf c(1,2) keys' fresh refl])
  have free: "record_key (method_hash c ! i) = None" using fresh i n(2) by simp
  show ?thesis
  proof (cases "?i' = i")
    case False
    then show ?thesis
      using free e i n c by (simp add: dispatch_found_def store_method_def Let_def)
  next
    case True
    have "method_generation ?c1 < int (3 * length (method_hash ?c1) div 2)" using n by simp
    then have "search_method_hash loc ?c1 = (Inr i, ?c1\<lparr>method_hash := (method_hash ?c1)[i := (method_hash ?c1 ! i)\<lparr>record_gen := 2\<rparr>]\<rparr>)"
      using search_at_first_probe [of i loc ?c1] True i n(2) by simp
    then show ?thesis
      using True free e i n c by (simp add: dispatch_found_def store_method_def Let_def)
  qed
qed

lemma stale_found:
  assumes n: "2 \<le> n" and gf: "gf \<noteq> ct"
    and keys: "get_spec_vector h class_cpl spec_how gf args = Some (Inr (Some keys))"
    and keys': "get_spec_vector h class_cpl spec_how' gf' args' = Some (Inr (Some keys'))"
  shows "\<exists>c1 c2. mkcl_standard_dispatch ct loc h class_cpl
        (compute_during_redefinition ct loc h class_cpl gf old (\<lambda>c. (new, c)) spec_how' gf' args') spec_how gf args
        (mkcl_set_method_hash_size n) = Some (Inr old, c1)
      \<and> method_hash_clear_list c1 = []
      \<and> mkcl_standard_dispatch ct loc h class_cpl compute spec_how gf args c1 = Some (Inr old, c2)"
proof -
  let ?i = "first_probe loc keys n" and ?c0 = "mkcl_set_method_hash_size n"
  have i: "?i < n" using n by (intro first_probe_bound) simp
  have cp: "clear_pending ct ?c0 = ?c0" by (simp add: clear_pending_def mkcl_set_method_hash_size_def)
  have c0: "method_hash ?c0 = replicate n empty_record" "method_generation ?c0 = 0" "method_hash_clear_list ?c0 = []"
    by (simp_all add: mkcl_set_method_hash_size_def)
  have g: "method_generation ?c0 + 1 < int (3 * length (method_hash ?c0) div 2)" using n c0 by simp
  have ii: "?i = first_probe loc keys (length (method_hash ?c0))" "?i < length (method_hash ?c0)"
      "record_key (method_hash ?c0 ! ?i) = None" "record_value (method_hash ?c0 ! ?i) = None"
    using i c0(1) by (simp_all add: empty_record_def)
  let ?compute = "compute_during_redefinition ct loc h class_cpl gf old (\<lambda>c. (new, c)) spec_how' gf' args'"
  obtain c where c: "mkcl_standard_dispatch ct loc h class_cpl ?compute spec_how gf args ?c0 = Some (dispatch_found loc ?compute ?i c)"
      "c = ?c0\<lparr>method_hash := (method_hash ?c0)[?i := (method_hash ?c0 ! ?i)\<lparr>record_gen := method_generation ?c0 + 1\<rparr>],
         method_generation := method_generation ?c0 + 1, method_spec_vector := keys\<rparr>"
    using dispatch_empty_record [OF cp keys ii g, of ?compute] by blast
  have "\<forall>e \<in> set (method_hash c). record_key e = None \<and> record_value e = None"
    unfolding c(2) c0 using i by (auto simp: in_set_conv_nth nth_list_update empty_record_def)
  then obtain c1 where c1: "dispatch_found loc ?compute ?i c = (Inr old, c1)" "method_hash_clear_list c1 = []"
      "method_generation c1 = 2" "length (method_hash c1) = n"
      "record_key (method_hash c1 ! ?i) = Some keys" "record_value (method_hash c1 ! ?i) = Some old"
    using stale_stored [of c n gf ct keys h class_cpl spec_how' gf' args' keys' loc old new] n gf keys' c(2) c0 by auto
  have "2 < int (3 * length (method_hash c1) div 2)" using n c1(4) by linarith
  from found_next [OF this c1(2,3) keys, of ?i loc old ct compute] c(1) c1 i show ?thesis by auto
qed

end
