(* ===== verification/Backquote.thy ===== *)
theory Backquote
  imports Prelude
begin

text \<open>
  The backquote macro (\<^verbatim>\<open>src/src/c/backq.c\<close>). The functions read their template and make new
  conses for the expansion; they write to no cons, so that templates and forms are trees here. A
  template is a finite tree: the code does not return on a circular one.

  \<open>_mkcl_backq_car\<close> expands a nested quasiquote first and looks at the result again. This
  recursion is on the expansion and not on a part of the template; it is counted by \<open>q\<close>, and the
  value is \<open>None\<close> when the count is used up. As many as there are occurrences of the symbol
  \<open>quasiquote\<close> in the template are enough (\<open>backq_returns\<close>).
\<close>

section \<open>Forms\<close>

datatype sym =
    CL_quote | CL_list | CL_listX | CL_append | CL_nconc
  | SI_quasiquote | SI_unquote | SI_unquote_splice | SI_unquote_nsplice
  | Symbol string

text \<open>
  \<open>SVector n\<close> is a vector of \<open>n\<close> elements. \<open>SAtom\<close> is any other atom, which templates do not look
  into; as the whole argument of the macro it is one that is no sequence.
\<close>

datatype sx =
    SNil
  | SSym sym
  | SKeyword string
  | SVector nat
  | SAtom int
  | SCons sx sx

text \<open>\<open>QUOTE\<close> ... \<open>NCONC\<close> say what is to be done with the form returned.\<close>

datatype backq_kind = QUOTE | EVAL | LIST | LISTX | APPEND | NCONC

text \<open>
  \<open>IllegalPosition\<close> is a signalled error and \<open>Botch\<close> the call of \<open>mkcl_lose\<close>. \<open>NoConsRead\<close> is neither:
  \<open>MKCL_CAR\<close> and \<open>MKCL_CDR\<close> do not check their argument, and the code goes on with what it finds
  in the memory of an object that is no cons. What it does then is not modelled; \<open>NoConsRead\<close> marks
  that it has got there.
\<close>

datatype backq_error = IllegalPosition | Botch | NoConsRead

fun form_car :: "sx \<Rightarrow> backq_error + sx" where
  "form_car SNil = Inr SNil"
| "form_car (SCons a d) = Inr a"
| "form_car _ = Inl NoConsRead"

fun form_cadr :: "sx \<Rightarrow> backq_error + sx" where
  "form_cadr SNil = Inr SNil"
| "form_cadr (SCons a d) = form_car d"
| "form_cadr _ = Inl NoConsRead"

definition form_list1 :: "sx \<Rightarrow> sx" where
  "form_list1 x = SCons x SNil"

definition kwote :: "sx \<Rightarrow> sx" where
  "kwote x =
     (case x of
        SSym s \<Rightarrow> SCons (SSym CL_quote) (form_list1 x)
      | SCons a d \<Rightarrow> SCons (SSym CL_quote) (form_list1 x)
      | SVector n \<Rightarrow> SCons (SSym CL_quote) (form_list1 x)
      | _ \<Rightarrow> x)"

section \<open>Expansion\<close>

fun operator :: "backq_kind \<Rightarrow> sym" where
  "operator LIST = CL_list"
| "operator LISTX = CL_listX"
| "operator APPEND = CL_append"
| "operator NCONC = CL_nconc"
| "operator _ = CL_quote"

text \<open>The last part of \<open>_mkcl_backq_cdr\<close>: from what car and cdr have become to the result.\<close>

definition attach :: "backq_kind \<Rightarrow> sx \<Rightarrow> sx \<Rightarrow> backq_error + (backq_kind \<times> sx)" where
  "attach a ax form =
     (case a of
        QUOTE \<Rightarrow> Inr (LISTX, SCons (kwote ax) (form_list1 form))
      | EVAL \<Rightarrow> Inr (LISTX, SCons ax (form_list1 form))
      | APPEND \<Rightarrow> Inr (a, SCons ax (form_list1 form))
      | NCONC \<Rightarrow> Inr (a, SCons ax (form_list1 form))
      | _ \<Rightarrow> Inl Botch)"

definition attach_quoted :: "sx \<Rightarrow> backq_kind \<Rightarrow> sx \<Rightarrow> sx \<Rightarrow> backq_error + (backq_kind \<times> sx)" where
  "attach_quoted x a ax dx =
     (case a of
        QUOTE \<Rightarrow> Inr (QUOTE, x)
      | EVAL \<Rightarrow>
          (case dx of
             SNil \<Rightarrow> Inr (LIST, SCons ax dx)
           | SCons e SNil \<Rightarrow> Inr (LIST, SCons ax (form_list1 (kwote e)))
           | _ \<Rightarrow> Inr (LISTX, SCons ax (form_list1 (kwote dx))))
      | APPEND \<Rightarrow> if dx = SNil then Inr (EVAL, ax) else Inr (a, SCons ax (form_list1 (kwote dx)))
      | NCONC \<Rightarrow> if dx = SNil then Inr (EVAL, ax) else Inr (a, SCons ax (form_list1 (kwote dx)))
      | _ \<Rightarrow> Inl Botch)"

definition combine :: "sx \<Rightarrow> backq_kind \<Rightarrow> sx \<Rightarrow> backq_kind \<Rightarrow> sx \<Rightarrow> backq_error + (backq_kind \<times> sx)" where
  "combine x a ax d dx =
     (if d = QUOTE then attach_quoted x a ax dx
      else if d = EVAL then attach a ax dx
      else if d = a then Inr (d, SCons ax dx)
      else if (d = LIST \<or> d = LISTX) \<and> a = QUOTE then Inr (d, SCons (kwote ax) dx)
      else if (d = LIST \<or> d = LISTX) \<and> a = EVAL then Inr (d, SCons ax dx)
      else attach a ax (SCons (SSym (operator d)) dx))"

text \<open>What \<open>_mkcl_backq_car\<close> does with the result of \<open>_mkcl_backq_cdr\<close>.\<close>

definition close_form :: "backq_kind \<times> sx \<Rightarrow> backq_kind \<times> sx" where
  "close_form r =
     (case r of (d, y) \<Rightarrow> if d = QUOTE \<or> d = EVAL then (d, y) else (EVAL, SCons (SSym (operator d)) y))"

definition finish :: "backq_kind \<times> sx \<Rightarrow> backq_error + sx" where
  "finish r =
     (case r of (a, y) \<Rightarrow>
        if a = APPEND \<or> a = NCONC then Inl IllegalPosition else if a = QUOTE then Inr (kwote y) else Inr y)"

definition then_do :: "('e + 'a) option \<Rightarrow> ('a \<Rightarrow> ('e + 'b) option) \<Rightarrow> ('e + 'b) option" where
  "then_do r f = (case r of None \<Rightarrow> None | Some (Inl e) \<Rightarrow> Some (Inl e) | Some (Inr x) \<Rightarrow> f x)"

lemma then_do_simps [simp]:
  "then_do None f = None" "then_do (Some (Inl e)) f = Some (Inl e)" "then_do (Some (Inr x)) f = f x"
  by (simp_all add: then_do_def)

lemma then_do_cong [fundef_cong]:
  "r = r' \<Longrightarrow> (\<And>x. r' = Some (Inr x) \<Longrightarrow> f x = g x) \<Longrightarrow> then_do r f = then_do r' g"
  by (auto split: option.splits sum.splits simp: then_do_def)

function (sequential) backq_car :: "nat \<Rightarrow> sx \<Rightarrow> (backq_error + backq_kind \<times> sx) option"
  and backq_cdr :: "nat \<Rightarrow> sx \<Rightarrow> (backq_error + backq_kind \<times> sx) option" where
  "backq_car q (SCons a d) =
     (if a = SSym SI_quasiquote then
        (case q of
           0 \<Rightarrow> None
         | Suc q' \<Rightarrow>
             then_do (Some (form_car d)) (\<lambda>t.
             then_do (then_do (backq_car q' t) (\<lambda>r. Some (finish r))) (backq_car q')))
      else if a = SSym SI_unquote then then_do (Some (form_car d)) (\<lambda>f. Some (Inr (EVAL, f)))
      else if a = SSym SI_unquote_splice then then_do (Some (form_car d)) (\<lambda>f. Some (Inr (APPEND, f)))
      else if a = SSym SI_unquote_nsplice then then_do (Some (form_car d)) (\<lambda>f. Some (Inr (NCONC, f)))
      else then_do (backq_cdr q (SCons a d)) (\<lambda>r. Some (Inr (close_form r))))"
| "backq_car q x = Some (Inr (QUOTE, x))"
| "backq_cdr q (SCons a d) =
     (if a = SSym SI_unquote then then_do (Some (form_car d)) (\<lambda>f. Some (Inr (EVAL, f)))
      else if a = SSym SI_unquote_splice \<or> a = SSym SI_unquote_nsplice then Some (Inl IllegalPosition)
      else then_do (backq_car q a) (\<lambda>(ka, ax).
           then_do (backq_cdr q d) (\<lambda>(kd, dx). Some (combine (SCons a d) ka ax kd dx))))"
| "backq_cdr q x = Some (Inr (QUOTE, x))"
  by pat_completeness auto

termination
  by (relation "inv_image (less_than <*lex*> less_than <*lex*> less_than)
      (\<lambda>v. case v of Inl (q, x) \<Rightarrow> (q, size x, 1) | Inr (q, x) \<Rightarrow> (q, size x, 0 :: nat))") auto

definition backq :: "nat \<Rightarrow> sx \<Rightarrow> (backq_error + sx) option" where
  "backq q x = then_do (backq_car q x) (\<lambda>r. Some (finish r))"

text \<open>The occurrences of the symbol \<open>quasiquote\<close>.\<close>

fun quasiquotes :: "sx \<Rightarrow> nat" where
  "quasiquotes (SCons a d) = quasiquotes a + quasiquotes d"
| "quasiquotes (SSym SI_quasiquote) = 1"
| "quasiquotes _ = 0"

text \<open>\<open>mkcl_length\<close> of a form: a dotted list and an object that is no sequence are type errors.\<close>

datatype sequence_error = ProperSequenceError sx | SequenceError sx

fun proper_length :: "sx \<Rightarrow> nat option" where
  "proper_length SNil = Some 0"
| "proper_length (SCons a d) = map_option Suc (proper_length d)"
| "proper_length _ = None"

definition form_length :: "sx \<Rightarrow> sequence_error + nat" where
  "form_length x =
     (case x of
        SNil \<Rightarrow> Inr 0
      | SCons a d \<Rightarrow> (case proper_length x of Some n \<Rightarrow> Inr n | None \<Rightarrow> Inl (ProperSequenceError x))
      | SVector n \<Rightarrow> Inr n
      | _ \<Rightarrow> Inl (SequenceError x))"

datatype macro_error = LengthError sequence_error | SyntaxError sx | BackqError backq_error

definition quasiquote_macro :: "sx \<Rightarrow> (macro_error + sx) option" where
  "quasiquote_macro whole =
     (case form_length whole of
        Inl err \<Rightarrow> Some (Inl (LengthError err))
      | Inr n \<Rightarrow>
          if n \<noteq> 2 then Some (Inl (SyntaxError whole))
          else case form_cadr whole of
              Inl err \<Rightarrow> Some (Inl (BackqError err))
            | Inr x \<Rightarrow> map_option (map_sum BackqError id) (backq (quasiquotes x) x))"

end
