(* ===== verification/Backquote_Props.thy ===== *)
theory Backquote_Props
  imports Backquote
begin

text \<open>
  The expansion of a template is right: it can be computed (\<open>backq_total\<close>), the errors are those
  the code means to signal, and evaluating the form gives the instance of the template.
\<close>

section \<open>The expansion returns\<close>

text \<open>
  Templates whose unquotes and quasiquotes are written as lists: no object that is no cons is read
  as one.
\<close>

definition markers :: "sx set" where
  "markers = SSym ` {SI_quasiquote, SI_unquote, SI_unquote_splice, SI_unquote_nsplice}"

fun is_cons :: "sx \<Rightarrow> bool" where
  "is_cons (SCons a d) = True"
| "is_cons _ = False"

fun markers_ok :: "sx \<Rightarrow> bool" where
  "markers_ok (SCons a d) \<longleftrightarrow> (a \<in> markers \<longrightarrow> d = SNil \<or> is_cons d) \<and> markers_ok a \<and> markers_ok d"
| "markers_ok _ = True"

lemma markers_ok_kwote [simp]: "markers_ok (kwote x) = markers_ok x"
  by (cases x) (simp_all add: kwote_def form_list1_def markers_def)

lemma markers_ok_list1 [simp]: "markers_ok (form_list1 x) = markers_ok x" "is_cons (form_list1 x)"
  by (simp_all add: form_list1_def)

lemma markers_ok_operator [simp]: "markers_ok (SSym (operator k))" "SSym (operator k) \<notin> markers"
  by (cases k; simp add: markers_def)+

lemma markers_ok_form_car: "d = SNil \<or> is_cons d \<Longrightarrow> markers_ok d \<Longrightarrow> \<exists>t. form_car d = Inr t \<and> markers_ok t"
  by (cases d) auto

lemma quasiquotes_kwote [simp]: "quasiquotes (kwote x) = quasiquotes x"
  by (cases x) (simp_all add: kwote_def form_list1_def)

lemma quasiquotes_list1 [simp]: "quasiquotes (form_list1 x) = quasiquotes x"
  by (simp add: form_list1_def)

lemma quasiquotes_operator [simp]: "quasiquotes (SSym (operator k)) = 0"
  by (cases k) simp_all

lemma quasiquotes_form_car: "form_car d = Inr t \<Longrightarrow> quasiquotes t \<le> quasiquotes d"
  by (cases d) auto

definition car_kind :: "backq_kind \<Rightarrow> bool" where
  "car_kind k \<longleftrightarrow> k = QUOTE \<or> k = EVAL \<or> k = APPEND \<or> k = NCONC"

lemma car_kind_close: "car_kind (fst (close_form r))"
  by (cases r) (simp add: close_form_def car_kind_def)

lemma quasiquotes_close: "quasiquotes (snd (close_form r)) = quasiquotes (snd r)"
  by (cases r) (simp add: close_form_def)

lemma quasiquotes_finish: "finish r = Inr y \<Longrightarrow> quasiquotes y = quasiquotes (snd r)"
  by (cases r) (auto simp: finish_def split: if_splits)

lemma markers_ok_close: "markers_ok (snd r) \<Longrightarrow> markers_ok (snd (close_form r))"
  by (cases r) (simp add: close_form_def)

lemma markers_ok_finish: "finish r = Inr y \<Longrightarrow> markers_ok (snd r) \<Longrightarrow> markers_ok y"
  by (cases r) (auto simp: finish_def split: if_splits)

text \<open>Lists of arguments are not empty, so that a marker at the head of one is followed by a list.\<close>

definition arguments :: "backq_kind \<Rightarrow> sx \<Rightarrow> bool" where
  "arguments k y \<longleftrightarrow> k = QUOTE \<or> k = EVAL \<or> is_cons y"

lemma attach_ok:
  "car_kind a \<Longrightarrow> \<exists>k y. attach a ax form = Inr (k, y) \<and> quasiquotes y = quasiquotes ax + quasiquotes form
     \<and> arguments k y \<and> (markers_ok ax \<longrightarrow> markers_ok form \<longrightarrow> markers_ok y)"
  by (auto simp: car_kind_def attach_def arguments_def)

lemma attach_quoted_ok:
  "car_kind a \<Longrightarrow> quasiquotes ax + quasiquotes dx \<le> quasiquotes x \<Longrightarrow>
   \<exists>k y. attach_quoted x a ax dx = Inr (k, y) \<and> quasiquotes y \<le> quasiquotes x
     \<and> arguments k y \<and> (markers_ok x \<longrightarrow> markers_ok ax \<longrightarrow> markers_ok dx \<longrightarrow> markers_ok y)"
  by (auto simp: car_kind_def attach_quoted_def arguments_def split: sx.splits)

lemma combine_ok:
  assumes "car_kind a" and "quasiquotes ax + quasiquotes dx \<le> quasiquotes x" and "arguments d dx"
  shows "\<exists>k y. combine x a ax d dx = Inr (k, y) \<and> quasiquotes y \<le> quasiquotes x
     \<and> arguments k y \<and> (markers_ok x \<longrightarrow> markers_ok ax \<longrightarrow> markers_ok dx \<longrightarrow> markers_ok y)"
proof -
  consider "d = QUOTE" | "d = EVAL" | "d \<noteq> QUOTE" "d \<noteq> EVAL" by blast
  then show ?thesis
  proof cases
    case 1
    then show ?thesis using attach_quoted_ok [OF assms(1,2)] by (simp add: combine_def)
  next
    case 2
    then show ?thesis using attach_ok [OF assms(1), of ax dx] assms(2) by (auto simp: combine_def)
  next
    case 3
    then have dx: "is_cons dx" using assms(3) by (simp add: arguments_def)
    show ?thesis
    proof (cases "d = a \<or> (d = LIST \<or> d = LISTX) \<and> (a = QUOTE \<or> a = EVAL)")
      case True
      then show ?thesis using 3 dx assms(2) by (auto simp: combine_def arguments_def)
    next
      case False
      then have "combine x a ax d dx = attach a ax (SCons (SSym (operator d)) dx)" using 3 by (auto simp: combine_def)
      then show ?thesis using attach_ok [OF assms(1), of ax "SCons (SSym (operator d)) dx"] assms(2) by auto
    qed
  qed
qed

text \<open>
  A result: an error the code signals, or a form with no more quasiquotes than the template. When
  the markers of the template are followed by lists, so are those of the form.
\<close>

definition sound :: "sx \<Rightarrow> backq_error + backq_kind \<times> sx \<Rightarrow> bool" where
  "sound x r \<longleftrightarrow> (case r of
       Inl err \<Rightarrow> err \<noteq> Botch \<and> (markers_ok x \<longrightarrow> err \<noteq> NoConsRead)
     | Inr (k, y) \<Rightarrow> quasiquotes y \<le> quasiquotes x \<and> (markers_ok x \<longrightarrow> markers_ok y))"

definition sound_car :: "sx \<Rightarrow> backq_error + backq_kind \<times> sx \<Rightarrow> bool" where
  "sound_car x r \<longleftrightarrow> sound x r \<and> (\<forall>k y. r = Inr (k, y) \<longrightarrow> car_kind k)"

definition sound_cdr :: "sx \<Rightarrow> backq_error + backq_kind \<times> sx \<Rightarrow> bool" where
  "sound_cdr x r \<longleftrightarrow> sound x r \<and> (\<forall>k y. r = Inr (k, y) \<longrightarrow> arguments k y)"

lemma form_car_not_botch: "form_car d = Inl err \<Longrightarrow> err \<noteq> Botch"
  by (cases d) auto

lemma sound_marker:
  assumes "a \<in> markers"
  shows "\<exists>r. then_do (Some (form_car d)) (\<lambda>f. Some (Inr (k, f))) = Some r \<and> sound (SCons a d) r
    \<and> (\<forall>k' y. r = Inr (k', y) \<longrightarrow> k' = k)"
  using assms quasiquotes_form_car [of d] form_car_not_botch [of d] markers_ok_form_car [of d]
  by (cases "form_car d") (auto simp: sound_def trans_le_add2)

lemma sound_cdr_cons:
  assumes car: "\<exists>r. backq_car q a = Some r \<and> sound_car a r" and cdr: "\<exists>r. backq_cdr q d = Some r \<and> sound_cdr d r"
  shows "\<exists>r. backq_cdr q (SCons a d) = Some r \<and> sound_cdr (SCons a d) r"
proof -
  obtain ra where ra: "backq_car q a = Some ra" "sound_car a ra" using car by blast
  obtain rd where rd: "backq_cdr q d = Some rd" "sound_cdr d rd" using cdr by blast
  have m: "\<exists>r. then_do (Some (form_car d)) (\<lambda>f. Some (Inr (EVAL, f))) = Some r \<and> sound_cdr (SCons a d) r"
    if "a = SSym SI_unquote"
    using that sound_marker [of a d EVAL] by (auto simp: markers_def sound_cdr_def arguments_def)
  have "\<exists>r. then_do (Some ra) (\<lambda>(ka, ax). then_do (Some rd) (\<lambda>(kd, dx). Some (combine (SCons a d) ka ax kd dx))) = Some r
      \<and> sound_cdr (SCons a d) r"
  proof (cases ra)
    case (Inl err)
    then show ?thesis using ra(2) by (simp add: sound_car_def sound_cdr_def sound_def)
  next
    case ra': (Inr p)
    then obtain ka ax where p: "ra = Inr (ka, ax)" by (cases p) simp
    show ?thesis
    proof (cases rd)
      case (Inl err)
      then show ?thesis using rd(2) p by (simp add: sound_def sound_cdr_def)
    next
      case (Inr p')
      then obtain kd dx where p': "rd = Inr (kd, dx)" by (cases p') simp
      have "car_kind ka" "quasiquotes ax + quasiquotes dx \<le> quasiquotes (SCons a d)" "arguments kd dx"
        using ra(2) rd(2) by (simp_all add: p p' sound_car_def sound_cdr_def sound_def)
      from combine_ok [OF this] obtain k y where "combine (SCons a d) ka ax kd dx = Inr (k, y)"
          "quasiquotes y \<le> quasiquotes (SCons a d)" "arguments k y"
          "markers_ok (SCons a d) \<longrightarrow> markers_ok ax \<longrightarrow> markers_ok dx \<longrightarrow> markers_ok y"
        by blast
      then show ?thesis using ra(2) rd(2) by (simp add: p p' sound_def sound_car_def sound_cdr_def)
    qed
  qed
  then show ?thesis using m ra(1) rd(1)
    by (cases "a = SSym SI_unquote") (simp_all add: sound_def sound_cdr_def)
qed

lemma sound_close: "sound x (Inr r) \<Longrightarrow> sound_car x (Inr (close_form r))"
  using car_kind_close [of r] quasiquotes_close [of r] markers_ok_close [of r]
  by (cases "close_form r", cases r) (simp add: sound_car_def sound_def)

text \<open>A nested quasiquote: its expansion has no more quasiquotes than its template.\<close>

lemma sound_nested:
  assumes IH: "\<And>y. quasiquotes y \<le> q \<Longrightarrow> \<exists>r. backq_car q y = Some r \<and> sound_car y r" and d: "quasiquotes d \<le> q"
  shows "\<exists>r. backq_car (Suc q) (SCons (SSym SI_quasiquote) d) = Some r \<and> sound_car (SCons (SSym SI_quasiquote) d) r"
proof (cases "form_car d")
  case (Inl err)
  then have "err \<noteq> Botch" "\<not> markers_ok (SCons (SSym SI_quasiquote) d)"
    using form_car_not_botch markers_ok_form_car [of d] by (auto simp: markers_def)
  then show ?thesis using Inl by (simp add: sound_car_def sound_def del: markers_ok.simps)
next
  case (Inr t)
  let ?x = "SCons (SSym SI_quasiquote) d"
  have t: "quasiquotes t \<le> quasiquotes d" using quasiquotes_form_car [OF Inr] .
  have mt: "markers_ok ?x \<longrightarrow> markers_ok t" using Inr by (cases d) auto
  obtain r where r: "backq_car q t = Some r" "sound_car t r" using IH [of t] t d by auto
  show ?thesis
  proof (cases r)
    case (Inl err)
    then show ?thesis using Inr r mt by (simp add: sound_car_def sound_def del: markers_ok.simps)
  next
    case p: (Inr p)
    show ?thesis
    proof (cases "finish p")
      case (Inl err)
      then have "err = IllegalPosition" by (cases p) (auto simp: finish_def split: if_splits)
      then show ?thesis using Inr r p Inl by (simp add: sound_car_def sound_def)
    next
      case y: (Inr y)
      have qy: "quasiquotes y \<le> quasiquotes d" using quasiquotes_finish [OF y] r(2) p t
        by (cases p) (simp add: sound_car_def sound_def)
      have my: "markers_ok ?x \<longrightarrow> markers_ok y" using markers_ok_finish [OF y] r(2) p mt
        by (cases p) (simp add: sound_car_def sound_def del: markers_ok.simps)
      obtain r2 where r2: "backq_car q y = Some r2" "sound_car y r2" using IH [of y] qy d by auto
      have "sound_car ?x r2" using r2(2) qy my
        by (cases r2) (auto simp: sound_car_def sound_def simp del: markers_ok.simps)
      then show ?thesis using Inr r(1) p y r2(1) by simp
    qed
  qed
qed

lemma backq_total_aux:
  "quasiquotes x \<le> q \<Longrightarrow>
   (\<exists>r. backq_car q x = Some r \<and> sound_car x r) \<and> (\<exists>r. backq_cdr q x = Some r \<and> sound_cdr x r)"
proof (induction q arbitrary: x rule: less_induct)
  case (less q)
  show ?case using less.prems
  proof (induction x)
    case (SCons a d)
    have qa: "quasiquotes a \<le> q" "quasiquotes d \<le> q" using SCons.prems by simp_all
    obtain r where r: "backq_cdr q (SCons a d) = Some r" "sound_cdr (SCons a d) r"
      using sound_cdr_cons SCons.IH(1) [OF qa(1)] SCons.IH(2) [OF qa(2)] by blast
    have close: "\<exists>r. then_do (backq_cdr q (SCons a d)) (\<lambda>r. Some (Inr (close_form r))) = Some r \<and> sound_car (SCons a d) r"
    proof (cases r)
      case (Inl err)
      then show ?thesis unfolding r(1) using r(2) by (simp add: sound_car_def sound_cdr_def sound_def)
    next
      case (Inr p)
      then show ?thesis unfolding r(1) using r(2) sound_close by (simp add: sound_cdr_def)
    qed
    have quasi: "\<exists>r. backq_car q (SCons a d) = Some r \<and> sound_car (SCons a d) r" if a: "a = SSym SI_quasiquote"
    proof -
      obtain q' where q': "q = Suc q'" using SCons.prems a by (cases q) auto
      have "\<exists>r. backq_car q' y = Some r \<and> sound_car y r" if "quasiquotes y \<le> q'" for y using less.IH [of q' y] that q' by simp
      then show ?thesis unfolding a q' using SCons.prems a q' by (intro sound_nested) simp_all
    qed
    have marker: "\<exists>r. then_do (Some (form_car d)) (\<lambda>f. Some (Inr (k, f))) = Some r \<and> sound_car (SCons a d) r"
      if "a \<in> markers" "car_kind k" for k
      using sound_marker [OF that(1), of d k] that(2) unfolding sound_car_def by blast
    have "\<exists>r. backq_car q (SCons a d) = Some r \<and> sound_car (SCons a d) r"
    proof (cases "a = SSym SI_quasiquote")
      case False
      then show ?thesis unfolding backq_car.simps
        using close marker [of EVAL] marker [of APPEND] marker [of NCONC]
        unfolding car_kind_def markers_def by (auto split: if_splits simp del: then_do_simps)
    qed (rule quasi)
    with r show ?case by blast
  qed (simp_all add: sound_car_def sound_cdr_def sound_def car_kind_def arguments_def)
qed

lemma backq_total:
  assumes "quasiquotes x \<le> q"
  shows "\<exists>r. backq q x = Some r \<and> r \<noteq> Inl Botch \<and> (markers_ok x \<longrightarrow> r \<noteq> Inl NoConsRead)"
proof -
  obtain r where r: "backq_car q x = Some r" "sound_car x r" using backq_total_aux [OF assms] by blast
  then show ?thesis
    by (cases r) (auto simp: backq_def finish_def sound_car_def sound_def split: if_splits)
qed

text \<open>The argument of the macro.\<close>

lemma markers_ok_cadr: "is_cons whole \<Longrightarrow> markers_ok whole \<Longrightarrow> form_cadr whole = Inr x \<Longrightarrow> markers_ok x"
  by (cases whole rule: is_cons.cases) (auto elim!: form_car.elims)

lemma length_cadr:
  assumes "is_cons whole" and "form_length whole = Inr n"
  shows "\<exists>x. form_cadr whole = Inr x"
proof -
  obtain a d where w: "whole = SCons a d" using assms(1) by (cases whole) auto
  then have "proper_length d \<noteq> None" using assms(2) by (auto simp: form_length_def split: option.splits)
  then show ?thesis using w by (cases d) auto
qed

section \<open>Evaluation\<close>

text \<open>
  Forms are evaluated by \<open>eval\<close>, which knows \<open>quote\<close>, \<open>list\<close>, \<open>list*\<close>, \<open>append\<close> and \<open>nconc\<close> (as
  lists are trees, \<open>nconc\<close> differs from \<open>append\<close> only in what it overwrites). Variables and
  all other forms are left to \<open>u\<close>. \<open>None\<close> is an error.
\<close>

fun append2 :: "sx \<Rightarrow> sx \<Rightarrow> sx option" where
  "append2 SNil y = Some y"
| "append2 (SCons a d) y = map_option (SCons a) (append2 d y)"
| "append2 _ y = None"

fun append_all :: "sx list \<Rightarrow> sx option" where
  "append_all [] = Some SNil"
| "append_all [v] = Some v"
| "append_all (v # w # vs) = Option.bind (append_all (w # vs)) (append2 v)"

fun list_all_of :: "sx list \<Rightarrow> sx" where
  "list_all_of [] = SNil"
| "list_all_of (v # vs) = SCons v (list_all_of vs)"

fun listX_of :: "sx list \<Rightarrow> sx option" where
  "listX_of [] = None"
| "listX_of [v] = Some v"
| "listX_of (v # w # vs) = map_option (SCons v) (listX_of (w # vs))"

definition apply_operator :: "sym \<Rightarrow> sx list \<Rightarrow> sx option" where
  "apply_operator s vs =
     (if s = CL_list then Some (list_all_of vs)
      else if s = CL_listX then listX_of vs
      else append_all vs)"

fun eval :: "(sx \<Rightarrow> sx option) \<Rightarrow> sx \<Rightarrow> sx option"
  and eval_args :: "(sx \<Rightarrow> sx option) \<Rightarrow> sx \<Rightarrow> sx list option" where
  "eval u (SSym s) = u (SSym s)"
| "eval u (SCons op args) =
     (if op = SSym CL_quote then (case args of SCons x SNil \<Rightarrow> Some x | _ \<Rightarrow> None)
      else if op \<in> SSym ` {CL_list, CL_listX, CL_append, CL_nconc}
      then Option.bind (eval_args u args) (\<lambda>vs. case op of SSym s \<Rightarrow> apply_operator s vs | _ \<Rightarrow> None)
      else u (SCons op args))"
| "eval u x = Some x"
| "eval_args u SNil = Some []"
| "eval_args u (SCons a d) = Option.bind (eval u a) (\<lambda>v. map_option (Cons v) (eval_args u d))"
| "eval_args u _ = None"

text \<open>
  The instance of a template: every unquoted form is replaced by its value, the values of spliced
  forms are appended to what follows.
\<close>

definition spliced :: "sx \<Rightarrow> sx option" where
  "spliced x =
     (case x of SCons s (SCons f SNil) \<Rightarrow> if s = SSym SI_unquote_splice \<or> s = SSym SI_unquote_nsplice then Some f else None
      | _ \<Rightarrow> None)"

fun template_value :: "(sx \<Rightarrow> sx option) \<Rightarrow> sx \<Rightarrow> sx option" where
  "template_value u (SCons a d) =
     (if a = SSym SI_unquote then (case d of SCons f SNil \<Rightarrow> eval u f | _ \<Rightarrow> None)
      else if a = SSym SI_unquote_splice \<or> a = SSym SI_unquote_nsplice then None
      else case spliced a of
          Some f \<Rightarrow> Option.bind (eval u f) (\<lambda>v. Option.bind (template_value u d) (append2 v))
        | None \<Rightarrow> Option.bind (template_value u a) (\<lambda>v. map_option (SCons v) (template_value u d)))"
| "template_value u x = Some x"

definition meaning :: "(sx \<Rightarrow> sx option) \<Rightarrow> backq_kind \<Rightarrow> sx \<Rightarrow> sx option" where
  "meaning u k y = (if k = QUOTE then Some y else if k = EVAL then eval u y else eval u (SCons (SSym (operator k)) y))"

lemma eval_kwote [simp]: "eval u (kwote y) = Some y"
  by (cases y) (simp_all add: kwote_def form_list1_def)

lemma append2_nil: "append2 v SNil = Some w \<Longrightarrow> w = v"
  by (induction v arbitrary: w) auto

lemma append_all_cons: "append_all vs = Some r \<Longrightarrow> append2 v r = Some w \<Longrightarrow> append_all (v # vs) = Some w"
  by (cases vs) (auto dest: append2_nil)

lemma listX_cons: "listX_of vs = Some r \<Longrightarrow> listX_of (v # vs) = Some (SCons v r)"
  by (cases vs) auto

lemma meaning_ops [simp]:
  "meaning u QUOTE y = Some y" "meaning u EVAL y = eval u y"
  "meaning u LIST y = map_option list_all_of (eval_args u y)"
  "meaning u LISTX y = Option.bind (eval_args u y) listX_of"
  "meaning u APPEND y = Option.bind (eval_args u y) append_all"
  "meaning u NCONC y = Option.bind (eval_args u y) append_all"
  by (simp_all add: meaning_def apply_operator_def map_conv_bind_option comp_def)

lemma eval_args_list1 [simp]: "eval_args u (form_list1 x) = map_option (\<lambda>v. [v]) (eval u x)"
  by (cases "eval u x") (simp_all add: form_list1_def)

text \<open>What \<open>combine\<close> makes of car and cdr: a cons of their values, or one value before the other.\<close>

lemma attach_value:
  assumes "attach a ax form = Inr (k, y)" and "a = QUOTE \<or> a = EVAL" and "meaning u a ax = Some v" and "eval u form = Some w"
  shows "meaning u k y = Some (SCons v w)"
  using assms by (auto simp: attach_def)

lemma attach_splice:
  assumes "attach a ax form = Inr (k, y)" and "a = APPEND \<or> a = NCONC" and "eval u ax = Some v"
    and "eval u form = Some w" and "append2 v w = Some r"
  shows "meaning u k y = Some r"
  using assms by (auto simp: attach_def)

lemma operator_value: "d \<noteq> QUOTE \<Longrightarrow> d \<noteq> EVAL \<Longrightarrow> eval u (SCons (SSym (operator d)) dx) = meaning u d dx"
  by (simp add: meaning_def)

lemma attach_quoted_value:
  assumes "attach_quoted x a ax dx = Inr (k, y)" and "a = QUOTE \<or> a = EVAL" and "meaning u a ax = Some v"
    and "a = QUOTE \<longrightarrow> x = SCons v dx"
  shows "meaning u k y = Some (SCons v dx)"
  using assms by (auto simp: attach_quoted_def split: sx.splits)

lemma combine_value:
  assumes c: "combine x a ax d dx = Inr (k, y)" and a: "a = QUOTE \<or> a = EVAL" and v: "meaning u a ax = Some v"
    and w: "meaning u d dx = Some w" and x: "a = QUOTE \<and> d = QUOTE \<longrightarrow> x = SCons ax dx"
  shows "meaning u k y = Some (SCons v w)"
proof -
  consider "d = QUOTE" | "d = EVAL" | "d = LIST" | "d = LISTX" | "d = APPEND \<or> d = NCONC" by (cases d) auto
  then show ?thesis
  proof cases
    case 1
    then show ?thesis using attach_quoted_value [of x a ax dx k y u v] c a v w x by (auto simp: combine_def)
  next
    case 2
    then show ?thesis using attach_value [of a ax dx k y u v w] c a v w by (simp add: combine_def)
  next
    case 3
    then show ?thesis using c a v w by (auto simp: combine_def)
  next
    case 4
    then show ?thesis using c a v w listX_cons by (auto simp: combine_def bind_eq_Some_conv)
  next
    case 5
    then have "attach a ax (SCons (SSym (operator d)) dx) = Inr (k, y)" using c a by (auto simp: combine_def)
    from attach_value [OF this a v] show ?thesis using 5 w operator_value [of d u dx] by auto
  qed
qed

lemma combine_splice:
  assumes c: "combine x a ax d dx = Inr (k, y)" and a: "a = APPEND \<or> a = NCONC" and v: "eval u ax = Some v"
    and w: "meaning u d dx = Some w" and r: "append2 v w = Some r"
  shows "meaning u k y = Some r"
proof -
  consider "d = QUOTE" | "d = EVAL" | "d = a" | "d \<noteq> QUOTE" "d \<noteq> EVAL" "d \<noteq> a" by blast
  then show ?thesis
  proof cases
    case 1
    then show ?thesis using c a v w r append2_nil [of v r]
      by (auto simp: combine_def attach_quoted_def form_list1_def split: if_splits)
  next
    case 2
    then show ?thesis using attach_splice [of a ax dx k y u v w r] c a v w r by (simp add: combine_def)
  next
    case 3
    then show ?thesis using c a v w append_all_cons [OF _ r] by (auto simp: combine_def bind_eq_Some_conv)
  next
    case 4
    then have "attach a ax (SCons (SSym (operator d)) dx) = Inr (k, y)" using c a by (auto simp: combine_def)
    from attach_splice [OF this a v _ r] show ?thesis using 4 w operator_value [of d u dx] by simp
  qed
qed

text \<open>The invariant of the expansion: for the car, and for the cdr.\<close>

definition car_right :: "(sx \<Rightarrow> sx option) \<Rightarrow> sx \<Rightarrow> backq_kind \<Rightarrow> sx \<Rightarrow> bool" where
  "car_right u x k y \<longleftrightarrow> (k = QUOTE \<longrightarrow> y = x)
     \<and> (\<forall>v. template_value u x = Some v \<longrightarrow> (k = QUOTE \<or> k = EVAL) \<and> meaning u k y = Some v)
     \<and> (\<forall>f. spliced x = Some f \<longrightarrow> (k = APPEND \<or> k = NCONC) \<and> y = f)"

definition cdr_right :: "(sx \<Rightarrow> sx option) \<Rightarrow> sx \<Rightarrow> backq_kind \<Rightarrow> sx \<Rightarrow> bool" where
  "cdr_right u x k y \<longleftrightarrow> (k = QUOTE \<longrightarrow> y = x) \<and> (\<forall>v. template_value u x = Some v \<longrightarrow> meaning u k y = Some v)"

lemma combine_quote: "combine x a ax d dx = Inr (QUOTE, y) \<Longrightarrow> y = x \<and> a = QUOTE \<and> d = QUOTE"
  by (auto simp: combine_def attach_def attach_quoted_def split: if_splits backq_kind.splits sx.splits)

lemma meaning_close: "meaning u (fst (close_form r)) (snd (close_form r)) = meaning u (fst r) (snd r)"
  by (cases r) (simp add: close_form_def meaning_def)

lemma cdr_right_cons:
  assumes ca: "car_right u a ka ax" and cd: "cdr_right u d kd dx" and c: "combine (SCons a d) ka ax kd dx = Inr (k, y)"
    and a: "a \<noteq> SSym SI_unquote" "a \<noteq> SSym SI_unquote_splice" "a \<noteq> SSym SI_unquote_nsplice"
  shows "cdr_right u (SCons a d) k y"
  unfolding cdr_right_def
proof (intro conjI allI impI)
  show "y = SCons a d" if "k = QUOTE" using combine_quote c that by blast
  fix v assume v: "template_value u (SCons a d) = Some v"
  show "meaning u k y = Some v"
  proof (cases "spliced a")
    case (Some f)
    then obtain vf w where "eval u f = Some vf" "template_value u d = Some w" "append2 vf w = Some v"
      using v a by (auto simp: bind_eq_Some_conv)
    then show ?thesis using combine_splice [OF c, of u vf w v] ca cd Some by (simp add: car_right_def cdr_right_def)
  next
    case None
    then obtain va w where "template_value u a = Some va" "template_value u d = Some w" "v = SCons va w"
      using v a by (auto simp: bind_eq_Some_conv)
    then show ?thesis using combine_value [OF c, of u va w] ca cd by (simp add: car_right_def cdr_right_def)
  qed
qed

lemma then_do_Some: "then_do r f = Some (Inr z) \<Longrightarrow> \<exists>x. r = Some (Inr x) \<and> f x = Some (Inr z)"
  by (auto simp: then_do_def split: option.splits sum.splits)

lemma spliced_head: "spliced (SCons a d) = Some f \<Longrightarrow> a = SSym SI_unquote_splice \<or> a = SSym SI_unquote_nsplice"
  by (auto simp: spliced_def split: sx.splits if_splits)

lemma spliced_arg: "spliced (SCons a d) = Some f \<Longrightarrow> form_car d = Inr f"
  by (auto simp: spliced_def split: sx.splits if_splits)

lemma backq_right:
  "quasiquotes x = 0 \<Longrightarrow>
   (\<forall>k y. backq_car q x = Some (Inr (k, y)) \<longrightarrow> car_right u x k y)
   \<and> (\<forall>k y. backq_cdr q x = Some (Inr (k, y)) \<longrightarrow> cdr_right u x k y)"
proof (induction x)
  case (SCons a d)
  have q: "quasiquotes a = 0" "quasiquotes d = 0" "a \<noteq> SSym SI_quasiquote" using SCons.prems by auto
  have cdr: "cdr_right u (SCons a d) k y" if b: "backq_cdr q (SCons a d) = Some (Inr (k, y))" for k y
  proof (cases "a = SSym SI_unquote \<or> a = SSym SI_unquote_splice \<or> a = SSym SI_unquote_nsplice")
    case True
    then have "a = SSym SI_unquote" "k = EVAL" "form_car d = Inr y" using b
      by (auto dest: then_do_Some split: if_splits)
    then show ?thesis by (auto simp: cdr_right_def split: sx.splits)
  next
    case False
    then have "then_do (backq_car q a) (\<lambda>(ka, ax). then_do (backq_cdr q d) (\<lambda>(kd, dx). Some (combine (SCons a d) ka ax kd dx)))
        = Some (Inr (k, y))" using b by simp
    then obtain ka ax kd dx where "backq_car q a = Some (Inr (ka, ax))" "backq_cdr q d = Some (Inr (kd, dx))"
        "combine (SCons a d) ka ax kd dx = Inr (k, y)"
      by (auto dest!: then_do_Some)
    then show ?thesis using cdr_right_cons [of u a ka ax d kd dx k y] SCons.IH q False by simp
  qed
  have car: "car_right u (SCons a d) k y" if b: "backq_car q (SCons a d) = Some (Inr (k, y))" for k y
  proof (cases "a = SSym SI_unquote \<or> a = SSym SI_unquote_splice \<or> a = SSym SI_unquote_nsplice")
    case True
    then show ?thesis using b q spliced_head [of a d] spliced_arg [of a d]
      by (auto simp: car_right_def dest!: then_do_Some split: if_splits sx.splits)
  next
    case False
    then have "then_do (backq_cdr q (SCons a d)) (\<lambda>r. Some (Inr (close_form r))) = Some (Inr (k, y))"
      using b q(3) unfolding backq_car.simps by (simp del: backq_cdr.simps)
    from then_do_Some [OF this] obtain r where r: "backq_cdr q (SCons a d) = Some (Inr r)" "(k, y) = close_form r"
      by (auto simp del: backq_cdr.simps)
    have "meaning u k y = meaning u (fst r) (snd r)" using meaning_close [of u r] r(2) [symmetric] by simp
    moreover have "k = QUOTE \<or> k = EVAL" "k = QUOTE \<longrightarrow> r = (k, y)" using r(2) by (cases r; auto simp: close_form_def split: if_splits)+
    ultimately show ?thesis using cdr [of "fst r" "snd r"] r(1) False spliced_head [of a d]
      by (auto simp: car_right_def cdr_right_def)
  qed
  from car cdr show ?case by blast
qed (simp_all add: car_right_def cdr_right_def spliced_def)

text \<open>Evaluating the expansion gives the instance.\<close>

lemma backq_value:
  assumes "backq q x = Some (Inr form)" and "quasiquotes x = 0" and "template_value u x = Some v"
  shows "eval u form = Some v"
proof -
  obtain k y where b: "backq_car q x = Some (Inr (k, y))" "finish (k, y) = Inr form"
    using assms(1) unfolding backq_def by (fastforce dest!: then_do_Some)
  have "car_right u x k y" using backq_right [OF assms(2)] b(1) by blast
  then have "k = QUOTE \<or> k = EVAL" "meaning u k y = Some v" using assms(3) by (auto simp: car_right_def)
  then show ?thesis using b(2) by (auto simp: finish_def split: if_splits)
qed

text \<open>A template with a value is expanded without an error.\<close>

lemma form_car_value: "template_value u (SCons (SSym SI_unquote) d) = Some v \<Longrightarrow> \<exists>f. form_car d = Inr f"
  by (auto split: sx.splits)

lemma combined_no_error:
  assumes "quasiquotes (SCons a d) = 0" and "\<exists>r. backq_car q a = Some (Inr r)" and "\<exists>r. backq_cdr q d = Some (Inr r)"
  shows "\<exists>r. then_do (backq_car q a) (\<lambda>(ka, ax). then_do (backq_cdr q d) (\<lambda>(kd, dx). Some (combine (SCons a d) ka ax kd dx)))
    = Some (Inr r)"
proof -
  obtain ka ax kd dx where r: "backq_car q a = Some (Inr (ka, ax))" "backq_cdr q d = Some (Inr (kd, dx))" using assms(2,3) by auto
  have "car_kind ka" "quasiquotes ax + quasiquotes dx \<le> quasiquotes (SCons a d)" "arguments kd dx"
    using backq_total_aux [of a q] backq_total_aux [of d q] assms(1) r by (auto simp: sound_car_def sound_cdr_def sound_def)
  from combine_ok [OF this] r show ?thesis by auto
qed

lemma backq_no_error:
  "quasiquotes x = 0 \<Longrightarrow>
   ((template_value u x \<noteq> None \<or> spliced x \<noteq> None) \<longrightarrow> (\<exists>r. backq_car q x = Some (Inr r)))
   \<and> (template_value u x \<noteq> None \<longrightarrow> (\<exists>r. backq_cdr q x = Some (Inr r)))"
proof (induction x)
  case (SCons a d)
  have q: "quasiquotes a = 0" "quasiquotes d = 0" "a \<noteq> SSym SI_quasiquote" using SCons.prems by auto
  have cdr: "\<exists>r. backq_cdr q (SCons a d) = Some (Inr r)" if v: "template_value u (SCons a d) \<noteq> None"
  proof (cases "a = SSym SI_unquote")
    case True
    then show ?thesis using v form_car_value [of u d] by auto
  next
    case False
    then have a: "a \<noteq> SSym SI_unquote_splice" "a \<noteq> SSym SI_unquote_nsplice" using v by auto
    have "template_value u d \<noteq> None" "template_value u a \<noteq> None \<or> spliced a \<noteq> None"
      using v False a by (auto simp: bind_eq_Some_conv split: option.splits)
    then show ?thesis using combined_no_error [OF SCons.prems, of q] SCons.IH q False a by simp
  qed
  have car: "\<exists>r. backq_car q (SCons a d) = Some (Inr r)"
    if v: "template_value u (SCons a d) \<noteq> None \<or> spliced (SCons a d) \<noteq> None"
  proof (cases "spliced (SCons a d)")
    case (Some f)
    then show ?thesis using spliced_head [OF Some] spliced_arg [OF Some] by auto
  next
    case None
    then obtain r where r: "backq_cdr q (SCons a d) = Some (Inr r)" using cdr v by blast
    show ?thesis
    proof (cases "a = SSym SI_unquote")
      case True
      then show ?thesis using v None form_car_value [of u d] by auto
    next
      case False
      then have "a \<noteq> SSym SI_unquote_splice" "a \<noteq> SSym SI_unquote_nsplice" using v None by auto
      then show ?thesis using False q r by (simp del: backq_cdr.simps)
    qed
  qed
  from car cdr show ?case by blast
qed simp_all

lemma backq_correct:
  assumes "quasiquotes x = 0" and "template_value u x = Some v"
  shows "\<exists>form. backq q x = Some (Inr form) \<and> eval u form = Some v"
proof -
  obtain k y where b: "backq_car q x = Some (Inr (k, y))" using backq_no_error [OF assms(1), of u q] assms(2) by auto
  have "car_right u x k y" using backq_right [OF assms(1)] b by blast
  then have "k = QUOTE \<or> k = EVAL" using assms(2) by (auto simp: car_right_def)
  then obtain form where "backq q x = Some (Inr form)" using b by (auto simp: backq_def finish_def)
  then show ?thesis using backq_value [OF _ assms] by blast
qed

end
