(* ===== verification/Spec2Isabelle.thy ===== *)
theory Spec2Isabelle
  imports Pathname_Function_Props Number_Text_Props Bit_Array_Props Alist_Props Tables Package_System Unwind_Props Interleaving Plist_Props Utf_Strings Dispatch_Props
    Backquote_Props
begin

text \<open>
  MKCL is an implementation of Common Lisp. Its kernel is written in C
  (\<^verbatim>\<open>src/src/c\<close>); the rest of the system is Lisp compiled on top of it. This development
  models the part of the kernel that everything else stands on: objects, lists, hash tables,
  symbols and packages, special variables and non-local exits, the method cache of generic
  functions, the backquote macro, arrays, exact numbers, characters and strings, encoded
  strings, the text of numbers, and pathnames.

  \<^bold>\<open>The parts and how they interact.\<close> Every value is a machine word, an immediate or the
  address of a cell (\<^verbatim>\<open>mkcl/object.h\<close>). Lists are chains of cons cells, which the list library
  (\<^verbatim>\<open>list.c\<close>) walks, copies and relinks; it tests elements with the equality predicates
  (\<^verbatim>\<open>predicate.c\<close>). A hash table (\<^verbatim>\<open>hash.c\<close>, \<^verbatim>\<open>newhash.h\<close>) is right only when its hash
  function agrees with its equality. A package (\<^verbatim>\<open>package.c\<close>) is two hash tables from names to
  symbols and lists of other packages, kept with the list library. A symbol (\<^verbatim>\<open>symbol.c\<close>) has
  a global value, a property list, and an index into each thread's vector of current values;
  binding it saves the old value on the thread's binding stack, and a jump to a frame of the
  frame stack (\<^verbatim>\<open>stacks.c\<close>, \<^verbatim>\<open>cmpaux.c\<close>) restores what was bound since. A call of a generic
  function looks for its method in a cache of the thread (\<^verbatim>\<open>gfun.c\<close>), which other threads ask
  it to clear. The reader leaves backquoted templates to a macro (\<^verbatim>\<open>backq.c\<close>) that rewrites them to
  calls of list functions. An array (\<^verbatim>\<open>array.c\<close>) has a block of memory, its own or, when it is
  displaced, a part of another array's. A number (\<^verbatim>\<open>num_*.c\<close>) is a fixnum, a bignum computed by the
  GMP library, or a ratio of two of them; the bit operations work on numbers and on bit
  arrays. Strings (\<^verbatim>\<open>string.c\<close>) are arrays of characters (\<^verbatim>\<open>character.c\<close>); the reader
  (\<^verbatim>\<open>read.c\<close>) and the printer (\<^verbatim>\<open>print.c\<close>) convert between strings and numbers. A pathname
  (\<^verbatim>\<open>pathname.c\<close>) has strings, keywords and a list as its components; it is parsed from a string,
  merged, matched, translated and printed, and its name goes to the operating system. Encoded
  strings (\<^verbatim>\<open>string.c\<close>) hold UTF-8 or UTF-16 for the operating system.

  \<^bold>\<open>Theories.\<close>
  \<^item> \<open>Prelude\<close>: machine types of a 64-bit build, shared facts on lists and iteration.
  \<^item> \<open>Objects\<close>: words and tags (\<open>MKCL_MAKE_FIXNUM\<close>, \<open>MKCL_CODE_CHAR\<close>, ...), the datatype
    \<open>obj\<close>, the heap of cells and the accessors of conses; \<open>obj_word\<close> gives the word of an
    object under an allocator, and \<open>obj_word_inject\<close> justifies \<open>=\<close> on \<open>obj\<close> for C's \<open>==\<close>.
  \<^item> \<open>Predicates\<close>: \<open>mkcl_eql\<close> and \<open>mkcl_equal\<close>.
  \<^item> \<open>Chains\<close>: chains of conses, and the classification of lists as proper, dotted or circular.
  \<^item> \<open>Lists\<close>, \<open>Alists\<close>: \<^verbatim>\<open>list.c\<close>, function by function. \<open>List_Props\<close>, \<open>Alist_Props\<close>: what
    they do to chains, and that they return.
  \<^item> \<open>Hashing\<close>: the hash functions. \<open>Hash_Table\<close>: the tables. \<open>Hash_Props\<close>: the invariant
    \<open>hash_wf\<close>; the locale \<open>hashing\<close> (a hash function that agrees with an equivalence), in which
    the operations are shown to refine a finite map, and the locale \<open>key_table\<close>, the interface a
    client of a table relies on, which every \<open>hashing\<close> provides. \<open>Tables\<close> interprets them for
    \<open>eq\<close> and \<open>eql\<close> tables and for the tables of packages.
  \<^item> \<open>Packages\<close>: \<^verbatim>\<open>package.c\<close>. \<open>Package_View\<close>: its abstract view (maps from names to symbols)
    and the invariant \<open>world_ok\<close>. \<open>Package_Props\<close>, \<open>Package_Ops\<close>, \<open>Package_Steps\<close>: every
    operation keeps the invariant, and freedom from name conflicts for a careful caller.
    \<open>Package_System\<close>: the operations as a step relation (without the calls that break the invariant:
    importing into or shadowing in the keyword package, using it, tables of size 0), its reachable
    worlds, that every operation returns, and what interning, uninterning and exporting achieve.
  \<^item> \<open>Stacks\<close>: the binding, frame and temporary stacks with their limits, special variables,
    \<open>mkcl_unwind\<close> and what builds on it. \<open>Stack_Props\<close>: the locale \<open>growing\<close> (a stack that makes
    room), interpreted for the three stacks; the refinement of deep binding by the binding stacks
    of all threads. \<open>Interleaving\<close>: threads interleaved at the accesses of \<open>mkcl_bds_bind\<close> to the index
    of a variable, and when that amounts to operations run as a whole. \<open>Unwind_Props\<close>: jumps, cleanup forms, and what the limits do.
  \<^item> \<open>Plists\<close>, \<open>Plist_Props\<close>: property lists and system properties of symbols.
  \<^item> \<open>Utf\<close>: decoders and encoders of UTF-8 and UTF-16 and the encoded strings, the operations of the
    two encodings as instances of one. \<open>Utf_Props\<close>: decoding undoes encoding. \<open>Utf_Strings\<close>: the
    locale \<open>codec\<close>, in which strings grow, are concatenated and are converted, interpreted for both.
  \<^item> \<open>Dispatch\<close>: the method cache and its invalidation between threads. \<open>Dispatch_Props\<close>: in every
    reachable state the cache returns current methods, but for a redefinition while one is computed.
  \<^item> \<open>Backquote\<close>: the macro. \<open>Backquote_Props\<close>: the instance of a template as its meaning, and that
    the expansion evaluates to it (the splice of \<open>nconc\<close> is read as that of \<open>append\<close>). A read of an
    object as a cons, which the code does not check, ends the model with \<open>NoConsRead\<close>.
  \<^item> \<open>Arrays\<close>: elements, subscripts, making, displacing, adjusting and copying. \<open>Array_Props\<close>,
    \<open>Array_Elements\<close>, \<open>Array_Heaps\<close>: the invariant of the heap of arrays, what the operations do to
    elements, and the heaps a program can make.
  \<^item> \<open>Numbers\<close>: arithmetic, comparison and rounding on fixnums, bignums and ratios. \<open>Number_Props\<close>: the
    locale \<open>gmp_library\<close> (what is documented of GMP), in which the operations are those of the rational
    numbers on canonical representations, interpreted for the integers. \<open>Integer_Bits\<close>,
    \<open>Integer_Bit_Props\<close>: logical operations, shifts and counts of bits. \<open>Bit_Arrays\<close>,
    \<open>Bit_Array_Props\<close>: the operations on bit arrays, on the memory of arrays.
  \<^item> \<open>Characters\<close>: predicates, digits and comparison of characters over the tables of \<^verbatim>\<open>unicode.c\<close>.
    \<open>Strings\<close>: the functions of \<^verbatim>\<open>string.c\<close>. \<open>String_Props\<close>: they compute the lexicographic order, the
    first occurrence, concatenation, trimming and mapping of lists of characters.
  \<^item> \<open>Number_Text\<close>: printing and reading of integers and ratios, and names of characters.
    \<open>Number_Text_Props\<close>: the digits that are printed, and that they are read back.
  \<^item> \<open>Pathnames\<close>: canonical directories, parsing, merging, printing, matching and translation.
    \<open>Pathname_Functions\<close>: the functions that Lisp programs call. \<open>Pathname_Props\<close>: matching is that of patterns
    (\<open>glob\<close>, \<open>dir_glob\<close>), what canonical directories are, the namestring of a file is parsed to the file, and what
    the translation of an asterisk does. \<open>Pathname_Function_Props\<close>: names of files, relative directories, and the
    table of the translations of logical hosts.

  \<^bold>\<open>State and errors.\<close> Operations on lists take and return the heap (a list of cells; an address
  is an index). Operations on packages take and return a \<open>world\<close>, those on stacks the \<open>core\<close>
  that threads share and the \<open>env\<close> of one thread, those on the method cache the \<open>method_cache\<close>
  of a thread, those on arrays a heap \<open>aheap\<close> of array headers and blocks of memory; the
  interleaving of threads is a list of operations (\<open>sys_run\<close>), a list of accesses (\<open>interleaved\<close>)
  or a step relation. A string is a
  record with its memory, and a function that changes it returns it changed. An error a function
  signals is a value of an error type of the component, with the state it leaves where that
  matters. A correctable error asks a list of answers. An access outside of a block of memory
  is an error of its own, so that its absence is part of the theorems.

  \<^bold>\<open>Loops.\<close> A C loop is a recursive function. One that may run forever (on circular lists, in
  \<open>mkcl_frs_push\<close> at the limit of the frame stack, in the loop on a directory list, or in repeated translations of a
  pathname) is a partial function with value \<open>None\<close> where
  it does not return; that it returns is a theorem of its own. \<open>jump_trace\<close>, which follows a
  jump through the cleanup forms, has fuel; one more than the number of frames is enough
  (\<open>throw_runs_cleanups\<close>), since every stop pops a frame. The backquote macro counts the nested
  quasiquotes it expands; their number in the template is enough (\<open>backquote_returns\<close>). The loop of \<open>expt\<close> has as its fuel the number of
  bits of the exponent (\<open>power_returns\<close>). The digits of a fixnum are written to the 64 places the
  code has for them, and the array of powers that the printer of bignums goes down is the measure of its
  recursion. The bound on the depth of the \<open>equal\<close> hash and the number of probes of the
  method cache are the constants of the code.

  \<^bold>\<open>Bounds.\<close> The build is the 64-bit one: fixnums have 62 bits, hashing, the load test of the
  tables and the row-major index of an array wrap at \<open>2 ^ 64\<close>. Sizes of stacks are natural numbers: a
  stack of \<open>2 ^ 64\<close> bytes is not allocated. An allocation always succeeds, at an address that is
  not null, not \<open>MKCL_OBJNULL\<close> and divisible by four (\<open>allocator\<close>). Arrays are displaced onto other
  arrays, not onto foreign data. The uninitialised contents of a new block of
  memory are a parameter.

  \<^bold>\<open>Parameters.\<close> The GMP library is the record \<open>gmp\<close>, with its documented results as the hypothesis
  \<open>gmp_ok\<close>, which the integers satisfy (\<open>int_gmp_ok\<close>). The generated Unicode tables are the record
  \<open>ucd\<close>. The names of the hosts, the home directories and the translations of logical pathnames are the record
  \<open>path_system\<close>. Functions of the user (tests, keys, methods, handlers) are arguments.

  \<^bold>\<open>Not modelled.\<close> The collector and libffi are libraries. Locks are left out: each operation
  on a package or a table runs alone; the steps at which threads interleave are those of the
  special variables (for a variable that has its index, the accesses of a binding; else the whole
  operation, though the code does not guard a first binding), the method cache and the two halves of an update of a system property. Functions a caller
  passes to a list operation do not write to the heap. \<open>setjmp\<close> and \<open>longjmp\<close> are the frame from
  which the thread goes on. The check of the C call stack and the statistics counters are left
  out. Floats and complex numbers, their arithmetic and their text, depend on the floating-point
  unit and the C library. Symbols and characters in the place of strings are converted before the
  functions modelled here. Of pathnames the Windows syntax is left out, and
  what a merge changes in a directory list that another pathname shares. Streams and files, signals and processes are interfaces to the operating system;
  the rest of the reader and the printer stands on them. \<open>equalp\<close> and its hash, the dispatch on types of
  sequences, the bytecode compiler and interpreter, structures and instances are not modelled.
\<close>

section \<open>Packages\<close>

text \<open>C1: the invariant holds in every world reached by the steps of the package system from one in
  which it holds: package tables are well-formed hash tables, every symbol sits under its own name,
  no name is both internal and external, shadowing symbols are present, use lists and used-by lists
  mirror each other, and the keyword package neither uses nor is used. A step (\<open>package_step\<close>) is
  one operation with any designator, arguments and answers to its correctable errors, except these,
  which the code accepts and which break the invariant: importing or shadowing in the keyword
  package; and \<open>make-package\<close> with a table of size 0, with the keyword or the new package in its
  \<open>:use\<close> list, or for a waiting package that does not exist, is registered or is the keyword
  package. If moreover every step is careful (no import conflict is let through, and each package
  made is a fresh one whose \<open>:use\<close> list does not clash), freedom from name conflicts is kept too.\<close>

theorem packages_keep_invariant:
  assumes "(package_step careful)\<^sup>*\<^sup>* w w'" and "world_ok w"
  shows "world_ok w' \<and> (careful \<longrightarrow> conflict_free (view w) \<longrightarrow> conflict_free (view w'))"
  using package_steps_keep [OF assms] by (simp add: keeps_def)

theorem packages_keep_invariant_witness:
  "\<exists>r w'. mkcl_intern [] [65] (DPackage 1) boot_world = Some (r, w') \<and> world_ok w' \<and> conflict_free (view w')"
proof -
  have d: "desig_ok boot_world (DPackage 1)" using boot_bound by (simp add: desig_ok_def)
  obtain s w' y where r: "mkcl_intern [] [65] (DPackage 1) boot_world = Some (Inr (s, Absent), w')"
    by (rule boot_intern)
  then have "(package_step True)\<^sup>*\<^sup>* boot_world w'" using d by (blast intro: step_intern)
  from packages_keep_invariant [OF this boot_world_ok] r boot_conflict_free show ?thesis by blast
qed

text \<open>C2: from a world that satisfies the invariant no package operation gets stuck: interning,
  uninterning, exporting, unexporting, importing, shadowing-importing, shadowing, using, unusing,
  making (with any name, nicknames, \<open>:use\<close> list and sizes), renaming, deleting, closing and
  reopening each return a value or an error, for every designator of an existing package, the
  keyword package included, every symbol or object given as one, and every sequence of answers
  to the correctable errors.\<close>

theorem package_operations_return:
  assumes "world_ok w" and "desig_ok w d" and "desig_ok w d'"
  shows "mkcl_intern ans name d w \<noteq> None \<and> mkcl_unintern ans s d w \<noteq> None
    \<and> mkcl_export2 ans s d w \<noteq> None \<and> mkcl_unexport2 ans s d w \<noteq> None
    \<and> mkcl_import2 ans s d w \<noteq> None \<and> mkcl_shadowing_import ans s d w \<noteq> None \<and> mkcl_shadow ans name d w \<noteq> None
    \<and> mkcl_use_package ans d' d w \<noteq> None \<and> mkcl_unuse_package ans d' d w \<noteq> None
    \<and> mkcl_make_sized_package ans name nicks use_list external_size internal_size w \<noteq> None
    \<and> mkcl_rename_package ans d name nicks w \<noteq> None \<and> mk_cl_delete_package ans d w \<noteq> None
    \<and> mk_si_close_package d w \<noteq> None \<and> mk_si_reopen_package d w \<noteq> None"
  by (intro conjI operations_safe [THEN safely_returns] import_returns shadowing_import_returns shadow_returns
      make_returns assms)

theorem package_operations_return_witness:
  "mkcl_intern [] [65] (DPackage 0) boot_world \<noteq> None \<and> mkcl_import2 [] Cnil (DPackage 0) boot_world \<noteq> None
   \<and> mk_cl_delete_package [True] (DPackage 1) boot_world \<noteq> None"
proof -
  have "desig_ok boot_world (DPackage 0)" "desig_ok boot_world (DPackage 1)"
    by (simp_all add: desig_ok_def boot_world_def)
  then show ?thesis
    using package_operations_return [OF boot_world_ok, of "DPackage 0" "DPackage 0"]
      package_operations_return [OF boot_world_ok, of "DPackage 1" "DPackage 1"] by blast
qed

text \<open>C3: interning. When \<open>mkcl_intern\<close> returns a symbol, a search for the name in the package
  finds that symbol afterwards, and interning the name again returns it and changes nothing.
  When the symbol was not accessible before it is a new one, at home in the package, and the
  package was not closed; otherwise nothing has changed.\<close>

theorem intern_finds_or_creates:
  assumes "world_ok w" and "p < length (packs w)"
    and "mkcl_intern ans name (DPackage p) w = Some (Inr (s, flag), w')"
  shows "\<exists>flag'. flag' \<noteq> Absent \<and> mkcl_find_symbol_nolock w' name p = Some (s, flag')
      \<and> mkcl_intern ans' name (DPackage p) w' = Some (Inr (s, flag'), w')
      \<and> (if flag = Absent then symbol_of w s = None \<and> map_option hpack (symbol_of w' s) = Some (Some p) \<and> \<not> closed (pack w p)
         else w' = w \<and> flag' = flag)"
proof -
  have r: "intern_in ans name p w = Some (Inr (s, flag), w')"
    using assms(3) by (simp add: mkcl_intern_def mk_si_coerce_to_package_def mkcl_find_package_nolock_def)
  note i = intern_in_spec [OF assms(1,2) r]
  have p': "p < length (packs w')" using i(2) assms(2) by simp
  obtain flag' where f: "v_find (view w') name p = (s, flag')" "flag' \<noteq> Absent" using i(4) by blast
  have "intern_in ans' name p w' = Some (Inr (s, flag'), w')"
    using f by (simp add: intern_in_cases [OF i(1) p'])
  moreover have "flag' = flag" if "flag \<noteq> Absent"
    using r f i(3) that by (simp add: intern_in_cases [OF assms(1,2)] split: prod.splits if_splits)
  ultimately show ?thesis
    using f find_symbol_view [OF i(1) p'] i(3,5)
    by (auto simp: mkcl_intern_def mk_si_coerce_to_package_def mkcl_find_package_nolock_def)
qed

theorem intern_finds_or_creates_witness:
  "\<exists>s w'. mkcl_intern [] [65] (DPackage 1) boot_world = Some (Inr (s, Absent), w')
     \<and> mkcl_find_symbol_nolock w' [65] 1 \<noteq> Some (Cnil, Absent) \<and> symbol_of boot_world s = None"
proof -
  obtain s w' y where r: "mkcl_intern [] [65] (DPackage 1) boot_world = Some (Inr (s, Absent), w')"
    by (rule boot_intern)
  from intern_finds_or_creates [OF boot_world_ok boot_bound r, of "[]"] r show ?thesis by auto
qed

text \<open>C4: uninterning. \<open>mkcl_unintern\<close> returns true exactly when the symbol was present in the
  package under its name; afterwards it is not present and not shadowing there, and what is
  present under other names and in other packages is as before. False means no change.\<close>

theorem unintern_removes:
  assumes "world_ok w" and "p < length (packs w)" and "symbol_of w s = Some y"
    and "mkcl_unintern ans s (DPackage p) w = Some (Inr b, w')"
  shows "(b \<longleftrightarrow> v_present (view w) p (sym_name y) = Some s)
    \<and> v_present (view w') p (sym_name y) \<noteq> Some s \<and> s \<notin> v_shadow (view w') p
    \<and> (\<not> b \<longrightarrow> w' = w)
    \<and> (\<forall>q n. q \<noteq> p \<or> n \<noteq> sym_name y \<longrightarrow> v_present (view w') q n = v_present (view w) q n)"
  using unintern_spec [OF assms] by blast

theorem unintern_removes_witness:
  "\<exists>w'. mkcl_unintern [] Cnil (DPackage 1) boot_world = Some (Inr False, w') \<and> w' = boot_world"
proof -
  have p: "1 < length (packs boot_world)" by (simp add: boot_world_def)
  have s: "symbol_of boot_world Cnil = Some (nil_symbol boot_world)" by (simp add: symbol_of_def)
  have "mkcl_unintern [] Cnil (DPackage 1) boot_world = Some (Inr False, boot_world)"
    using s unintern_in_closed [OF boot_world_ok p, of Cnil "sym_name (nil_symbol boot_world)" "[]"]
    by (simp del: unintern_in.simps add: mkcl_unintern_def with_symbol_name_def mk_si_coerce_to_package_def mkcl_find_package_nolock_def
        v_present_def boot_view)
  with unintern_removes [OF boot_world_ok p s this] show ?thesis by blast
qed

text \<open>C5: exporting. After a successful \<open>mkcl_export2\<close> the symbol is external in the package,
  and if there were no name conflicts, a search in any package that uses it finds that symbol,
  or a shadowing symbol of that package.\<close>

theorem export_reaches_users:
  assumes "world_ok w" and "p < length (packs w)" and "symbol_of w s = Some y"
    and "mkcl_export2 ans s (DPackage p) w = Some (Inr (), w')"
  shows "mkcl_find_symbol_nolock w' (sym_name y) p = Some (s, IsExternal)
    \<and> (conflict_free (view w) \<longrightarrow> (\<forall>u < length (packs w'). p \<in> set (uses (pack w' u)) \<longrightarrow>
        (\<exists>t flag. mkcl_find_symbol_nolock w' (sym_name y) u = Some (t, flag) \<and> flag \<noteq> Absent
          \<and> (t = s \<or> t \<in> set (shadowings (pack w' u))))))"
proof -
  note e = export_spec [OF assms]
  have vok: "view_ok (view w')" using e(2) by (simp add: world_ok_def)
  have p': "p < length (packs w')"
    using e(1) by (auto simp: view_def of_pack_def split: if_splits)
  have "\<exists>t flag. mkcl_find_symbol_nolock w' (sym_name y) u = Some (t, flag) \<and> flag \<noteq> Absent
      \<and> (t = s \<or> t \<in> set (shadowings (pack w' u)))"
    if cf: "conflict_free (view w)" and u: "u < length (packs w')" "p \<in> set (uses (pack w' u))" for u
  proof -
    have inh: "inherits (view w') u (sym_name y) s" using e(1) u by (auto simp: inherits_def)
    have "u \<noteq> v_keyword (view w')" using inh vok by (auto simp: inherits_def view_ok_def keyword_ok_def)
    from conflict_free_find [OF _ this inh] e(3) cf u show ?thesis
      by (auto simp: find_symbol_view [OF e(2) u(1)])
  qed
  then show ?thesis using e(1) by (auto simp: find_symbol_view [OF e(2) p'] v_find_def)
qed

theorem export_reaches_users_witness:
  "\<exists>s w1 w'. mkcl_export2 [True] s (DPackage 1) w1 = Some (Inr (), w')
     \<and> mkcl_find_symbol_nolock w' [65] 1 = Some (s, IsExternal)"
proof -
  obtain s w1 w' y where e: "world_ok w1" "1 < length (packs w1)" "symbol_of w1 s = Some y" "sym_name y = [65]"
      "mkcl_export2 [True] s (DPackage 1) w1 = Some (Inr (), w')"
    by (rule boot_export)
  from export_reaches_users [OF e(1,2,3,5)] e(4,5) show ?thesis by auto
qed

text \<open>The order of a search. \<open>mkcl_find_symbol_nolock\<close> returns the external symbol of the
  package if there is one; in the keyword package it looks no further; then the internal symbol;
  then the external symbol of the first package of the use list that has one under the name;
  and otherwise the flag that says it found none.\<close>

lemma find_symbol_order:
  assumes "world_ok w" and "p < length (packs w)"
  shows "mkcl_find_symbol_nolock w name p = Some (
      case table_map (external (pack w p)) name of
        Some s \<Rightarrow> (s, IsExternal)
      | None \<Rightarrow>
          if p = keyword_package w then (Cnil, Absent)
          else case table_map (internal (pack w p)) name of
              Some s \<Rightarrow> (s, IsInternal)
            | None \<Rightarrow> (case find (\<lambda>q. table_map (external (pack w q)) name \<noteq> None) (uses (pack w p)) of
                Some q \<Rightarrow> (the (table_map (external (pack w q)) name), IsInherited)
              | None \<Rightarrow> (Cnil, Absent)))"
proof -
  have "v_inherited (view w) name l =
      (case find (\<lambda>q. table_map (external (pack w q)) name \<noteq> None) l of
         Some q \<Rightarrow> table_map (external (pack w q)) name | None \<Rightarrow> None)"
    if "set l \<subseteq> {..<length (packs w)}" for l
    using that by (induction l) (auto simp: view_tables split: option.splits)
  from this [OF uses_bound_world [OF assms]]
  have i: "v_inherited (view w) name (uses (pack w p)) =
      (case find (\<lambda>q. table_map (external (pack w q)) name \<noteq> None) (uses (pack w p)) of
         Some q \<Rightarrow> table_map (external (pack w q)) name | None \<Rightarrow> None)" .
  show ?thesis
  proof (cases "find (\<lambda>q. table_map (external (pack w q)) name \<noteq> None) (uses (pack w p))")
    case None
    then show ?thesis
      using i assms(2) by (simp add: find_symbol_view [OF assms] v_find_def view_tables split: option.splits)
  next
    case (Some q)
    then obtain s where "table_map (external (pack w q)) name = Some s" by (auto simp: find_Some_iff)
    then show ?thesis
      using i Some assms(2) by (simp add: find_symbol_view [OF assms] v_find_def view_tables split: option.splits)
  qed
qed

text \<open>A closed package. Interning a name that is not accessible in a closed package always
  fails, whatever the handler answers to the correctable error, and changes nothing: the restart
  goes back to the search and to the same error. Interning an accessible name still works.\<close>

lemma closed_package_interns_nothing:
  assumes "world_ok w" and "p < length (packs w)" and "closed (pack w p)"
  shows "mkcl_intern ans name (DPackage p) w =
    (case v_find (view w) name p of (s, flag) \<Rightarrow>
       if flag = Absent then Some (Inl (ClosedPackage p), w) else Some (Inr (s, flag), w))"
  using assms(3)
  by (simp add: mkcl_intern_def mk_si_coerce_to_package_def mkcl_find_package_nolock_def
      intern_in_cases [OF assms(1,2)] split: prod.splits)

section \<open>Special variables and non-local exits\<close>

text \<open>C6: dynamic binding. Threads run bindings, assignments and unwindings on stacks without a
  limit, with enough special indexes left. A binding is interleaved at its accesses to the symbol
  (reading its index, taking one if it has none, pushing the value) when the variable has its
  index already; the other operations, which write to at most one shared place, and a variable's
  first binding are taken as whole, so that two threads binding a variable for the first time at
  once are not covered (see \<open>first_binding_race\<close>). However the threads interleave these, every
  access returns, and in every thread each variable then has the value the specification gives
  it: that of its newest binding in the thread, or else its global value. The code keeps the
  newest values in an array per thread and the shadowed ones on a stack; the specification keeps
  a list of bindings per thread.\<close>

theorem threads_refine_dynamic_binding:
  assumes "sys_ok c es bss" and "in_order (\<lambda>j. None) accs" and "indexed c accs"
    and "sys_valid c (committed accs) (global_value c, bss)"
    and "top_special_index c + length (committed accs) \<le> MKCL_NOT_A_SPECIAL_INDEX"
  shows "\<exists>l' c' es'. interleaved accs (l, c, es) = Some (l', c', es') \<and> length es' = length es
    \<and> (\<forall>j < length es'. \<forall>s. s \<noteq> Cnil \<longrightarrow>
         mkcl_sym_val c' (es' ! j) s =
           lookup_value (fst (sys_spec (committed accs) (global_value c, bss)))
             (snd (sys_spec (committed accs) (global_value c, bss)) ! j) s)"
proof -
  let ?ops = "committed accs"
  obtain c' es' where r: "sys_run ?ops (c, es) = Some (c', es')" "sys_ok c' es' (snd (sys_spec ?ops (global_value c, bss)))"
      "global_value c' = fst (sys_spec ?ops (global_value c, bss))"
    using sys_run_refines [OF assms(1,4,5)] by blast
  have len: "length es' = length es"
    using r(2) assms(1) spec_other_threads [of ?ops "global_value c" bss] by (auto simp: sys_ok_def dest!: list_all2_lengthD)
  have "bindings c' (es' ! j) (snd (sys_spec ?ops (global_value c, bss)) ! j)" if "j < length es'" for j
    using r(2) that by (auto simp: sys_ok_def list_all2_conv_all_nth)
  then have "mkcl_sym_val c' (es' ! j) s = lookup_value (global_value c') (snd (sys_spec ?ops (global_value c, bss)) ! j) s"
    if "j < length es'" "s \<noteq> Cnil" for j s
    using that sym_val_lookup by blast
  then show ?thesis using interleaved_run [OF assms(2,3) r(1), of l] r(3) len by auto
qed

definition demo_core :: core where
  "demo_core = \<lparr>sym_heap = [SymC (new_symbol [65]), SymC (new_symbol [66])], cnil_symbol = new_symbol [78],
     top_special_index = 0\<rparr>"

definition demo_env :: env where
  "demo_env = mkcl_init_stacks \<lparr>init_size = 1024, init_limit = 0, init_overflow = 1024\<rparr>
     \<lparr>init_size = 16, init_limit = 0, init_overflow = 16\<rparr> \<lparr>init_size = 128, init_limit = 0, init_overflow = 128\<rparr> (Ref 0) 8"

lemma demo_facts:
  "core_ok demo_core" "bindings demo_core demo_env []" "sys_ok demo_core [demo_env, demo_env] [[], []]"
  "sym_cell demo_core (Ref 0) = Some (new_symbol [65])" "assignable demo_core (Ref 0)"
  "top_special_index demo_core + 2 \<le> MKCL_NOT_A_SPECIAL_INDEX"
  "global_value demo_core (Ref 0) = Some ObjNull"
proof -
  show cell: "sym_cell demo_core (Ref 0) = Some (new_symbol [65])" by (simp add: demo_core_def sym_cell_def)
  show "assignable demo_core (Ref 0)" "global_value demo_core (Ref 0) = Some ObjNull"
    using cell by (simp_all add: assignable_def is_constant_def new_symbol_def global_value_def)
  show "top_special_index demo_core + 2 \<le> MKCL_NOT_A_SPECIAL_INDEX"
    by (simp add: demo_core_def MKCL_NOT_A_SPECIAL_INDEX_def)
  have "sym_index demo_core s = None" for s
    by (auto simp: demo_core_def sym_index_def sym_cell_def cell_at_def new_symbol_def nth_Cons split: obj.splits option.splits cell.splits nat.splits if_splits)
  then show ok: "core_ok demo_core" by (simp add: core_ok_def)
  then show b: "bindings demo_core demo_env []"
    unfolding demo_env_def by (intro init_bindings) simp_all
  with ok show "sys_ok demo_core [demo_env, demo_env] [[], []]" by (simp add: sys_ok_def)
qed

text \<open>Two threads that bind the variable of \<open>demo_core\<close>, which has its index already.\<close>

definition indexed_core :: core where
  "indexed_core = demo_core\<lparr>sym_heap := [SymC ((new_symbol [65])\<lparr>special_index := Some 0\<rparr>), SymC (new_symbol [66])],
     top_special_index := 1\<rparr>"

lemma indexed_facts:
  "sym_cell indexed_core (Ref 0) = Some ((new_symbol [65])\<lparr>special_index := Some 0\<rparr>)"
  "sym_index indexed_core (Ref 0) = Some 0" "sys_ok indexed_core [demo_env, demo_env] [[], []]"
  "top_special_index indexed_core + 2 \<le> MKCL_NOT_A_SPECIAL_INDEX"
proof -
  show cell: "sym_cell indexed_core (Ref 0) = Some ((new_symbol [65])\<lparr>special_index := Some 0\<rparr>)"
    by (simp add: indexed_core_def demo_core_def sym_cell_def)
  then show "sym_index indexed_core (Ref 0) = Some 0" by (simp add: sym_index_def)
  show "top_special_index indexed_core + 2 \<le> MKCL_NOT_A_SPECIAL_INDEX"
    by (simp add: indexed_core_def MKCL_NOT_A_SPECIAL_INDEX_def)
  have "sym_index indexed_core s = (if s = Ref 0 then Some 0 else None)" for s
    by (auto simp: indexed_core_def demo_core_def sym_index_def sym_cell_def cell_at_def new_symbol_def nth_Cons
        split: obj.splits option.splits cell.splits nat.splits if_splits)
  then have ok: "core_ok indexed_core" by (simp add: core_ok_def) (simp add: indexed_core_def)
  then have "bindings indexed_core demo_env []"
    unfolding demo_env_def by (intro init_bindings) simp_all
  with ok show "sys_ok indexed_core [demo_env, demo_env] [[], []]" by (simp add: sys_ok_def)
qed

definition crossing :: "(nat \<times> access) list" where
  "crossing = [(0, ReadIndex (Ref 0)), (1, ReadIndex (Ref 0)), (0, TakeIndex (Ref 0)), (0, PushBinding (Ref 0) (Fixnum 1)),
     (1, TakeIndex (Ref 0)), (1, PushBinding (Ref 0) (Fixnum 2))]"

theorem threads_refine_dynamic_binding_witness:
  "\<exists>l c es. interleaved crossing (\<lambda>j. None, indexed_core, [demo_env, demo_env]) = Some (l, c, es)
     \<and> mkcl_sym_val c (es ! 0) (Ref 0) = Some (Fixnum 1) \<and> mkcl_sym_val c (es ! 1) (Ref 0) = Some (Fixnum 2)"
proof -
  let ?es = "[demo_env, demo_env]" and ?sp = "sys_spec (committed crossing) (global_value indexed_core, [[], []])"
  have ops: "committed crossing = [(0, Bind (Ref 0) (Fixnum 1)), (1, Bind (Ref 0) (Fixnum 2))]" by (simp add: crossing_def)
  have "in_order (\<lambda>j. None) crossing" and "indexed indexed_core crossing"
    using indexed_facts(2) by (simp_all add: crossing_def indexed_def)
  moreover have "sys_valid indexed_core (committed crossing) (global_value indexed_core, [[], []])"
    using indexed_facts(1) by (simp add: ops)
  ultimately obtain l c es where r: "interleaved crossing (\<lambda>j. None, indexed_core, ?es) = Some (l, c, es)" "length es = 2"
      "\<And>j s. j < length es \<Longrightarrow> s \<noteq> Cnil \<Longrightarrow> mkcl_sym_val c (es ! j) s = lookup_value (fst ?sp) (snd ?sp ! j) s"
    using threads_refine_dynamic_binding [OF indexed_facts(3), of crossing "\<lambda>j. None"] indexed_facts(4) ops by auto
  from r(3) [of 0 "Ref 0"] r(3) [of 1 "Ref 0"] r(1,2) show ?thesis by (simp add: ops lookup_value_def)
qed

text \<open>The same interleaving of a variable without an index. The second thread takes an index of its
  own, and the symbol keeps the later one: the first thread finds the global value (here none) in
  place of the value it has just bound.\<close>

definition core_with_index :: "nat \<Rightarrow> core" where
  "core_with_index i = demo_core\<lparr>sym_heap := [SymC ((new_symbol [65])\<lparr>special_index := Some i\<rparr>), SymC (new_symbol [66])],
     top_special_index := Suc i\<rparr>"

lemma first_binding_race:
  "\<exists>l c es. interleaved crossing (\<lambda>j. None, demo_core, [demo_env, demo_env]) = Some (l, c, es)
     \<and> mkcl_sym_val c (es ! 0) (Ref 0) = Some ObjNull \<and> mkcl_sym_val c (es ! 1) (Ref 0) = Some (Fixnum 2)"
proof -
  have sp: "specials demo_env = replicate 8 EndOfChain" and ok: "stk_ok (bds demo_env)"
    by (simp_all add: demo_env_def mkcl_init_stacks_def stack_from_def new_stack_def stk_ok_def)
  have push: "\<exists>b. push_binding (Ref 0) v i c demo_env
      = (Inr (), c, demo_env\<lparr>bds := b, specials := (specials demo_env)[i := Value v]\<rparr>)" if "i < 8" for v i c
    using bds_push_slot_ok [OF ok, of "Ref 0" v i c] that sp by (auto simp: push_binding_def)
  obtain b0 where b0: "push_binding (Ref 0) (Fixnum 1) 0 (core_with_index 0) demo_env
      = (Inr (), core_with_index 0, demo_env\<lparr>bds := b0, specials := (specials demo_env)[0 := Value (Fixnum 1)]\<rparr>)"
    using push by fastforce
  obtain b1 where b1: "push_binding (Ref 0) (Fixnum 2) 1 (core_with_index 1) demo_env
      = (Inr (), core_with_index 1, demo_env\<lparr>bds := b1, specials := (specials demo_env)[1 := Value (Fixnum 2)]\<rparr>)"
    using push [of 1] by fastforce
  have read: "read_index (Ref 0) demo_core = Some None"
    by (simp add: read_index_def demo_core_def sym_cell_def new_symbol_def)
  have take: "take_index (Ref 0) None demo_core = Some (0, core_with_index 0)"
    "take_index (Ref 0) None (core_with_index 0) = Some (1, core_with_index 1)"
    by (simp_all add: take_index_def core_with_index_def demo_core_def sym_cell_def mkcl_alloc_new_special_index_def
        MKCL_NOT_A_SPECIAL_INDEX_def set_sym_cell_def store_def)
  let ?e0 = "demo_env\<lparr>bds := b0, specials := (specials demo_env)[0 := Value (Fixnum 1)]\<rparr>"
  let ?e1 = "demo_env\<lparr>bds := b1, specials := (specials demo_env)[1 := Value (Fixnum 2)]\<rparr>"
  have "\<exists>l. interleaved crossing (\<lambda>j. None, demo_core, [demo_env, demo_env]) = Some (l, core_with_index 1, [?e0, ?e1])"
    unfolding crossing_def using read take b0 b1 by simp
  moreover have "sym_cell (core_with_index 1) (Ref 0) = Some ((new_symbol [65])\<lparr>special_index := Some 1\<rparr>)"
    by (simp add: core_with_index_def sym_cell_def)
  then have "mkcl_sym_val (core_with_index 1) ?e0 (Ref 0) = Some ObjNull \<and> mkcl_sym_val (core_with_index 1) ?e1 (Ref 0) = Some (Fixnum 2)"
    using sp by (simp add: mkcl_sym_val_def new_symbol_def)
  ultimately show ?thesis by force
qed

text \<open>A binding is private to its thread. While a thread does nothing, whatever other threads
  bind, assign or unwind, a variable the thread has bound keeps its value there.\<close>

lemma bound_variable_is_private:
  assumes "sys_ok c es bss" and "sys_valid c ops (global_value c, bss)"
    and "top_special_index c + length ops \<le> MKCL_NOT_A_SPECIAL_INDEX"
    and "j < length es" and "\<forall>(i, op) \<in> set ops. i \<noteq> j" and "map_of (bss ! j) s = Some v" and "s \<noteq> Cnil"
  shows "\<exists>c' es'. sys_run ops (c, es) = Some (c', es') \<and> mkcl_sym_val c' (es' ! j) s = Some v"
proof -
  obtain c' es' where r: "sys_run ops (c, es) = Some (c', es')" "sys_ok c' es' (snd (sys_spec ops (global_value c, bss)))"
    using sys_run_refines [OF assms(1-3)] by blast
  have len: "length es = length bss" "length es' = length bss"
    using r(2) assms(1) spec_other_threads [of ops "global_value c" bss] by (auto simp: sys_ok_def dest!: list_all2_lengthD)
  have "bindings c' (es' ! j) (bss ! j)"
    using r(2) spec_other_threads [of ops "global_value c" bss j] assms(4,5) len by (auto simp: sys_ok_def list_all2_conv_all_nth)
  from sym_val_lookup [OF this assms(7)] assms(6) r(1) show ?thesis by (auto simp: lookup_value_def)
qed

text \<open>C7: \<open>catch\<close> and \<open>throw\<close>. The stacks of the threads have no limit, the frames and the stack
  of temporaries of thread \<open>i\<close> are well formed, and special indexes are left. The thread pushes a
  catch frame, then it and the others run any operations on variables that leave its older
  bindings in place, interleaved as in C6, then it throws to the tag. The jump lands on the frame,
  the variables bound in the thread are those bound when the frame was pushed, and they have the
  same values if the thread assigned none. As in C6, two threads that bind a variable for the
  first time at once are not covered.\<close>

theorem catch_restores_bindings:
  assumes "sys_ok c es bss" and "i < length es" and "stk_ok (frs (es ! i))" and "frames_ok (es ! i)"
    and "0 < stk_top (temp_stack (es ! i))"
    and "mkcl_frs_push (Tag tag) (es ! i) = Some (Inr f, e1)"
    and "in_order (\<lambda>j. None) accs" and "indexed c accs"
    and "sys_valid c (committed accs) (global_value c, bss)"
    and "top_special_index c + length (committed accs) \<le> MKCL_NOT_A_SPECIAL_INDEX"
    and "stays_above i (length (bss ! i)) (committed accs) (global_value c, bss)"
  shows "\<exists>l' c' es' e' bs'. interleaved accs (l, c, es[i := e1]) = Some (l', c', es') \<and> mkcl_throw tag c' (es' ! i) = (Inr f, e')
    \<and> stk_top (frs e') = f \<and> bindings c' e' bs' \<and> map fst bs' = map fst (bss ! i)
    \<and> ((\<forall>op. (i, op) \<in> set (committed accs) \<longrightarrow> \<not> is_assign op) \<longrightarrow> bs' = bss ! i)"
  using catch_restores [OF assms(1-6,9-11)] interleaved_run [OF assms(7,8)] by blast

lemma demo_frames:
  "stk_ok (frs demo_env)" "frames_ok demo_env" "0 < stk_top (temp_stack demo_env)" "temps_ok demo_env"
  "stk_top (frs demo_env) = 0" "stk_top (bds demo_env) = 0"
  by (simp_all add: demo_env_def mkcl_init_stacks_def stack_from_def new_stack_def stk_ok_def frames_ok_def frame_fits_def
      slot_at_def root_frame_def temps_ok_def)

theorem catch_restores_bindings_witness:
  "\<exists>f e1 l c' es' e'. mkcl_frs_push (Tag (Fixnum 7)) demo_env = Some (Inr f, e1)
     \<and> interleaved crossing (\<lambda>j. None, indexed_core, [e1, demo_env]) = Some (l, c', es')
     \<and> mkcl_throw (Fixnum 7) c' (es' ! 0) = (Inr f, e') \<and> bindings c' e' []"
proof -
  obtain f e1 where p: "mkcl_frs_push (Tag (Fixnum 7)) demo_env = Some (Inr f, e1)"
    using frs_push_ok [OF demo_frames(1)] by blast
  then have "mkcl_frs_push (Tag (Fixnum 7)) ([demo_env, demo_env] ! 0) = Some (Inr f, e1)" by simp
  from catch_restores_bindings [OF indexed_facts(3) _ _ _ _ this, of crossing "\<lambda>j. None"]
  show ?thesis using demo_frames(1-3) indexed_facts p by (auto simp: crossing_def indexed_def)
qed



text \<open>Multiple values survive a cleanup: what \<open>mkcl_stack_push_values\<close> saves on the stack of
  temporaries, \<open>mkcl_stack_pop_values\<close> brings back after any code that leaves the stack below
  its top as it was, and the top is where it was.\<close>

lemma saved_values_come_back:
  assumes "temps_ok e" and "mkcl_stack_push_values e = (Inr n, e1)" and "same_below (temp_stack e1) (temp_stack e2)"
  shows "\<exists>e3. mkcl_stack_pop_values n e2 = (Inr (), e3) \<and> values_vec e3 = values_vec e
    \<and> stk_top (temp_stack e3) = stk_top (temp_stack e)"
  using push_pop_values [OF assms] by auto

text \<open>C9: the limit of the frame stack. When the stack has a limit, its overflow area is allocated
  and its top is at the upper bound, pushing a frame does not return: the code that signals the
  overflow first pushes a protecting frame, which is again at the upper bound.\<close>

theorem frame_limit_never_returns:
  assumes "frs_exhausted (frs e)"
  shows "mkcl_frs_push val e = None"
  using frs_push_exhausted [of val e] assms by (cases "mkcl_frs_push val e") auto

theorem frame_limit_never_returns_witness:
  "mkcl_frs_push (Tag Cnil) (demo_env\<lparr>frs := \<lparr>slots = replicate 48 (Some root_frame), stk_top = 31, stk_upper = 32,
     stk_limit = 32, stk_overflow = 16, overflowing = False\<rparr>\<rparr>) = None"
  by (rule frame_limit_never_returns) (simp add: frs_exhausted_def)

text \<open>The limit of the binding stack. A binding that finds the stack at its limit signals the
  overflow with the top raised over a slot that was never filled; undoing the bindings from
  there, as every exit from the error does, reads that slot.\<close>

lemma binding_overflow_leaves_hole:
  assumes "\<not> overflowing (bds e)" and "at_limit (bds e)" and "stk_upper (bds e) \<le> Suc (stk_top (bds e))"
    and "slot_at (bds e) (Suc (stk_top (bds e))) = None"
  shows "\<exists>e'. bds_push_slot s v i c e = (Inl (StackOverflow (stk_limit (bds e))), c, e')
    \<and> stk_top (bds e') = Suc (stk_top (bds e)) \<and> mkcl_bds_unwind1 c e' = None"
  using bind_at_limit [OF assms] .

text \<open>Raising the limit of the binding stack above its allocated size moves the upper bound
  past the end of the array: the binding that fills the stack is then written outside it.\<close>

lemma raised_limit_overruns:
  assumes "length (slots (bds e)) < l" and "Suc (stk_top (bds e)) = length (slots (bds e))"
    and "e' = e\<lparr>bds := snd (set_stack_limit l (bds e))\<rparr>"
  shows "fst (bds_push_slot s v i c e') = Inl WildAccess"
  using bind_past_raised_limit [OF assms] .

section \<open>Hash tables\<close>

text \<open>C10: an \<open>eql\<close> table refines a finite map. From a table made by \<open>make-hash-table\<close>, any
  sequence of insertions and removals runs to its end, leaves a well-formed table, and
  \<open>gethash\<close> then answers for every key and default what the same sequence makes of a map in
  which \<open>eql\<close> keys are one key.\<close>

theorem eql_table_refines_map:
  fixes t :: "(obj, 'v) hashtable"
  assumes "mk_cl_make_hash_table (object_tests loc hp hash_equalp equalp) (Some htt_eql) sz rs th = Inr t"
  shows "\<exists>t'. run_ops mkcl_sethash mkcl_remhash ops t = Some t' \<and> hash_wf (hash_eql loc hp) (mkcl_eql hp) t'
    \<and> (\<forall>k d. mk_cl_gethash k t' d =
         Some (case fold (spec_op (mkcl_eql hp)) ops Map.empty k of Some v \<Rightarrow> (v, True) | None \<Rightarrow> (d, False)))"
proof -
  obtain t' where t': "run_ops mkcl_sethash mkcl_remhash ops t = Some t'" "hash_wf (hash_eql loc hp) (mkcl_eql hp) t'"
      "\<forall>k. gethash_value k t' = Some (fold (spec_op (mkcl_eql hp)) ops Map.empty k)"
    using eql_table.run_ops_refines [OF make_eql_table(1) [OF assms], of Map.empty ops] make_eql_table(2) [OF assms] by auto
  have "mk_cl_gethash k t' d =
      Some (case fold (spec_op (mkcl_eql hp)) ops Map.empty k of Some v \<Rightarrow> (v, True) | None \<Rightarrow> (d, False))" for k d
  proof -
    obtain r where r: "mkcl_search_hash k t' = Some r"
        "map_option e_value r = fold (spec_op (mkcl_eql hp)) ops Map.empty k"
      using t'(3) by (auto simp: gethash_value_def)
    show ?thesis unfolding r(2) [symmetric] using r(1) by (simp add: mk_cl_gethash_def split: option.splits)
  qed
  with t' show ?thesis by blast
qed

definition default_table :: "(obj, nat) hashtable" where
  "default_table = \<lparr>htest = htt_eql, hash_fun = (\<lambda>k. Some (hash_eql (\<lambda>a. 0) [] k)),
     equality_fun = (\<lambda>x y. Some (mkcl_eql [] x y)), data = replicate 16 [], entries = 0, hsize = 16,
     rehash_size = LFloat 53 3 (- 1), threshold = LFloat 24 3 (- 2), factor_of_16th = 12, free_bucket = 0\<rparr>"

lemma default_table_made:
  "mk_cl_make_hash_table (object_tests (\<lambda>a. 0) [] (\<lambda>k. None) (\<lambda>x y. None)) (Some htt_eql) 10
     (LFloat 24 3 (- 1)) (LFloat 24 3 (- 2)) = Inr default_table"
  by (simp add: mk_cl_make_hash_table_def object_tests_def check_rehash_size_def threshold_factor_def
      round_fraction_def default_table_def Let_def)

theorem eql_table_refines_map_witness:
  "\<exists>t'. run_ops mkcl_sethash mkcl_remhash [Put (Fixnum 1) (5 :: nat), Put (Fixnum 2) 6, Rem (Fixnum 1)] default_table = Some t'
     \<and> mk_cl_gethash (Fixnum 1) t' 0 = Some (0, False) \<and> mk_cl_gethash (Fixnum 2) t' 0 = Some (6, True)"
  using eql_table_refines_map [OF default_table_made, of "[Put (Fixnum 1) 5, Put (Fixnum 2) 6, Rem (Fixnum 1)]"]
  by (auto simp: mkcl_eql_def boxed_number_def)

text \<open>The load of a table. A table that grows when it must, with more chains than entries,
  has more chains than entries after any sequence of insertions and removals.\<close>

lemma table_never_overfull:
  assumes "entries t < hsize t" and "grows (rehash_size t)"
    and "run_ops mkcl_sethash mkcl_remhash ops t = Some t'"
  shows "entries t' < hsize t'"
  using run_ops_load [of t ops t'] assms by (simp add: lightly_loaded_def)

text \<open>Iteration. An iterator over a well-formed table returns every entry exactly once,
  \<open>hash-table-count\<close> of them, and after that reports the end for ever.\<close>

lemma iterator_visits_each_entry_once:
  assumes "hash_wf hashf eqv t"
  shows "\<exists>es. iterate_steps (mk_cl_hash_table_count t + n) t (mk_si_hash_table_iterator t) = map Some es @ replicate n None
    \<and> distinct es \<and> set es = table_entries t"
proof -
  have wf: "length (data t) = hsize t" "entries t = length (concat (data t))" "distinct (concat (data t))" "0 < hsize t"
    using assms by (auto simp: hash_wf_def placed_def unique_keys_def)
  have "remaining t (mk_si_hash_table_iterator t) = concat (data t)"
    using wf(1,4) by (cases "data t") (auto simp: mk_si_hash_table_iterator_def)
  then show ?thesis
    using iterate_steps_remaining [OF wf(1), of "entries t + n" "mk_si_hash_table_iterator t"] wf
    by (auto simp: mk_cl_hash_table_count_def table_entries_def)
qed

text \<open>\<open>maphash\<close> over a well-formed table calls the function on every key and value
  exactly once: collecting the pairs gives the entries, without repetition.\<close>

lemma maphash_visits_each_entry_once:
  fixes t :: "('a, 'b) hashtable"
  assumes "hash_wf hashf eqv t"
  shows "mset (mk_cl_maphash (\<lambda>k v acc. (k, v) # acc) t []) = image_mset (\<lambda>e. (e_key e, e_value e)) (mset_set (table_entries t))"
proof -
  have "fold (\<lambda>e acc. (e_key e, e_value e) # acc) es acc = rev (map (\<lambda>e. (e_key e, e_value e)) es) @ acc"
      for es :: "('a, 'b) hashtable_entry list" and acc
    by (induction es arbitrary: acc) auto
  then have "mk_cl_maphash (\<lambda>k v acc. (k, v) # acc) t [] = rev (map (\<lambda>e. (e_key e, e_value e)) (concat (data t)))"
    unfolding maphash_fold by simp
  moreover have "mset_set (table_entries t) = mset (concat (data t))"
    unfolding table_entries_def using assms by (intro mset_set_set) (simp add: hash_wf_def unique_keys_def)
  ultimately show ?thesis by simp
qed

text \<open>\<open>si:copy-hash-table\<close> on a table of at least 16 chains gives a well-formed table
  with the same answers.\<close>

lemma copy_hash_table_same:
  assumes "hash_wf hashf eqv t" and "16 \<le> hsize t" and "mk_si_copy_hash_table fns t = Inr t'"
    and "fns (mk_cl_hash_table_test t) = (hash_fun t, equality_fun t)"
  shows "hash_wf hashf eqv t' \<and> gethash_value k t' = gethash_value k t"
  using copy_table_same [OF assms] by blast

text \<open>\<open>si:copy-hash-table\<close> on a smaller table, such as a package table, can lose entries:
  the copy has 16 chains, the entries stay in the chains they had. The table holds the key
  before, and its copy does not.\<close>

lemma copy_hash_table_loses_small:
  "gethash_value [66] small_table = Some (Some 1)
   \<and> (\<exists>t. mk_si_copy_hash_table name_tests small_table = Inr t \<and> gethash_value [66] t = Some None)"
  using small_copy_loses by blast

section \<open>Hashing\<close>

text \<open>Objects that are \<open>eql\<close> have the same \<open>eql\<close> hash, from any starting value.\<close>

lemma eql_hash_respects_eql:
  assumes "mkcl_eql hp x y"
  shows "hash_eql_from loc hp h x = hash_eql_from loc hp h y"
  using assms by (rule hash_eql_respects)

definition two_bignums :: heap where
  "two_bignums = [NumC (NBig (2 ^ 70)), NumC (NBig (2 ^ 70))]"

text \<open>C11: objects that are \<open>equal\<close> have the same \<open>equal\<close> hash, at every depth and from any
  starting value, in a heap without foreign pointers and without bit vectors that start in the
  middle of their storage.\<close>

theorem equal_hash_respects_equal:
  assumes "equal_hashable hp" and "mkcl_equal hp x y = Some True"
  shows "hash_equal_from loc hp d v x = hash_equal_from loc hp d v y"
  using hash_equal_respects [OF assms] by blast

definition two_strings :: heap where
  "two_strings = [BaseStrC [97, 98], StrC [97, 98]]"

theorem equal_hash_respects_equal_witness:
  "hash_equal_from (\<lambda>a. word_of_nat (8 * Suc a)) two_strings 3 0 (Ref 0) = hash_equal_from (\<lambda>a. word_of_nat (8 * Suc a)) two_strings 3 0 (Ref 1)"
proof -
  have "equal_hashable two_strings" by (simp add: equal_hashable_def two_strings_def)
  moreover have "mkcl_equal two_strings (Ref 0) (Ref 1) = Some True"
    by (subst mkcl_equal.simps) (simp add: two_strings_def)
  ultimately show ?thesis by (rule equal_hash_respects_equal)
qed

text \<open>The restriction is needed: two foreign pointers to the same data are \<open>equal\<close>, and
  their \<open>equal\<close> hashes are those of their addresses, which differ.\<close>

lemma equal_foreign_hash_differs:
  "mkcl_equal foreign_example (Ref 0) (Ref 1) = Some True
   \<and> hash_equal (\<lambda>a. if a = 0 then 64 else 128) foreign_example (Ref 0) \<noteq>
     hash_equal (\<lambda>a. if a = 0 then 64 else 128) foreign_example (Ref 1)"
  using foreign_equal foreign_hash_differs by blast

text \<open>\<open>sxhash\<close> returns a non-negative fixnum.\<close>

lemma sxhash_non_negative_fixnum:
  assumes "mk_cl_sxhash loc hp x = Some r"
  shows "\<exists>n. r = Fixnum n \<and> 0 \<le> n \<and> n \<le> MOST_POSITIVE_FIXNUM"
  using sxhash_fixnum [OF assms] by (auto simp: MOST_POSITIVE_FIXNUM_def)

section \<open>Lists\<close>

definition example_heap :: heap where
  "example_heap = [ConsC (Fixnum 1) (Ref 1), ConsC (Fixnum 2) Cnil, ConsC (Fixnum 3) (Ref 2), ConsC (Fixnum 4) (Fixnum 5)]"

lemma example_chains:
  "chain example_heap (Ref 0) [0, 1] Cnil" "chain example_heap (Ref 3) [3] (Fixnum 5)"
  "\<not> MKCL_CONSP example_heap (Fixnum 5)" "circular_list example_heap (Ref 2)" "MKCL_LISTP example_heap (Ref 0)"
proof -
  show "chain example_heap (Ref 0) [0, 1] Cnil" "chain example_heap (Ref 3) [3] (Fixnum 5)"
    "\<not> MKCL_CONSP example_heap (Fixnum 5)" "MKCL_LISTP example_heap (Ref 0)"
    by (simp_all add: example_heap_def MKCL_LISTP_def)
  have "nthcdr_of example_heap n (Ref 2) = Ref 2" for n
    by (induction n) (simp_all add: nthcdr_Suc example_heap_def)
  then show "circular_list example_heap (Ref 2)" by (simp add: circular_list_def example_heap_def)
qed

text \<open>C12: \<open>list-length\<close> always returns. It returns the number of conses of a proper list, a type
  error for the atom at the end of a dotted list, and \<open>NIL\<close> for a circular list.\<close>

theorem list_length_decides:
  "(\<exists>r. mk_cl_list_length h x = Some r)
   \<and> (chain h x as Cnil \<longrightarrow> mk_cl_list_length h x = Some (Inr (Fixnum (int (length as)))))
   \<and> (dotted_list h x as y \<longrightarrow> mk_cl_list_length h x = Some (Inl (TypeErrorList y)))
   \<and> (circular_list h x \<longrightarrow> mk_cl_list_length h x = Some (Inr Cnil))"
proof -
  have "\<exists>r. mk_cl_list_length h x = Some r"
    by (cases rule: list_trichotomy [of h x]) (auto simp: list_length_chain list_length_circular dotted_list_def)
  then show ?thesis
    using list_length_chain [of h x as] list_length_circular [of h x] by (auto simp: dotted_list_def)
qed

theorem list_length_decides_witness:
  "mk_cl_list_length example_heap (Ref 0) = Some (Inr (Fixnum 2))
   \<and> mk_cl_list_length example_heap (Ref 3) = Some (Inl (TypeErrorList (Fixnum 5)))
   \<and> mk_cl_list_length example_heap (Ref 2) = Some (Inr Cnil)"
proof -
  have "dotted_list example_heap (Ref 3) [3] (Fixnum 5)" using example_chains by (simp add: dotted_list_def)
  then show ?thesis
    using list_length_decides [of example_heap "Ref 0" "[0, 1]" Cnil] list_length_decides [of example_heap "Ref 3" "[3]" "Fixnum 5"]
      list_length_decides [of example_heap "Ref 2" "[]" Cnil] example_chains(1,4) by (simp del: chain.simps)
qed

text \<open>C13: \<open>copy-list\<close> of a proper or dotted list returns a list of new conses with the same
  elements and the same end, and leaves every old cell as it is.\<close>

theorem copy_list_copies:
  assumes "chain h x as y" and "atom_in h y" and "MKCL_LISTP h x"
  shows "\<exists>copy cs. mk_cl_copy_list h x = Some (Inr copy, h @ cs)
      \<and> chain (h @ cs) copy [length h..<length h + length as] y
      \<and> elems (h @ cs) [length h..<length h + length as] = elems h as"
  using copy_list_spec [OF assms] .

theorem copy_list_copies_witness:
  "\<exists>copy cs. mk_cl_copy_list example_heap (Ref 0) = Some (Inr copy, example_heap @ cs)
     \<and> elems (example_heap @ cs) [4, 5] = [Fixnum 1, Fixnum 2]"
proof -
  have "[length example_heap..<length example_heap + length [0 :: addr, 1]] = [4, 5]"
    by (simp add: example_heap_def upt_rec)
  moreover have "elems example_heap [0, 1] = [Fixnum 1, Fixnum 2]" by (simp add: example_heap_def)
  ultimately show ?thesis
    using copy_list_copies [OF example_chains(1) atom_in_nil example_chains(5)] by metis
qed

text \<open>\<open>append\<close> of proper lists and a last object of any kind returns new conses with all
  the elements in order, ended by the last object itself; no old cell changes.\<close>

lemma append_concatenates:
  assumes "list_all2 (\<lambda>x as. chain h x as Cnil) xs ass"
  shows "\<exists>r cs ds. mk_cl_append h (xs @ [z]) = Some (Inr r, h @ cs) \<and> chain (h @ cs) r ds z
      \<and> elems (h @ cs) ds = concat (map (elems h) ass) \<and> (\<forall>d \<in> set ds. length h \<le> d)"
  using append_spec [OF assms] .

text \<open>\<open>nconc\<close> of proper lists that share no cons, and a last list of any kind, relinks the
  given conses into one chain in order; it changes cdrs of the conses before the last list only.\<close>

lemma nconc_concatenates:
  assumes "list_all2 (\<lambda>x as. chain h x as Cnil) xs ass"
    and "chain h z zs y" and "\<not> MKCL_CONSP h y" and "distinct (concat ass @ zs)"
  shows "\<exists>r h'. mk_cl_nconc h (xs @ [z]) = Some (Inr r, h')
      \<and> chain h' r (concat ass @ zs) y \<and> relinked h h' (concat ass)"
  using nconc_spec [OF assms] .

text \<open>\<open>nreconc\<close> always returns. A proper list is reversed in place onto the second
  argument; a dotted list is a type error for its last atom; a circular list is an error.\<close>

lemma nreconc_decides:
  "(\<forall>as z. chain h l as z \<and> \<not> MKCL_CONSP h z \<and> MKCL_LISTP h l \<longrightarrow>
     (\<exists>h' r. mk_cl_nreconc h l y = Some (if z = Cnil then Inr r else Inl (TypeErrorList z), h')
        \<and> chain h' r (rev as) y \<and> relinked h h' as))
   \<and> (circular_list h l \<longrightarrow> (\<exists>h'. mk_cl_nreconc h l y = Some (Inl (CircularList l), h')))"
  using nreconc_chain [of h l _ _ y] nreconc_circular [of h l y] by blast

text \<open>\<open>last\<close> returns the tail with the last \<open>n\<close> conses of a proper or dotted list, or
  the whole list if it has fewer.\<close>

lemma last_is_tail:
  assumes "chain h l as y" and "\<not> MKCL_CONSP h y" and "as \<noteq> []"
  shows "mkcl_last h l n = Some (Inr (nthcdr_of h (length as - n) l))
    \<and> chain h (nthcdr_of h (length as - n) l) (drop (length as - n) as) y"
  using last_spec [OF assms] chain_drop [OF assms(1)] by simp

text \<open>Reversing a proper list in place twice gives back the list and the heap as they
  were.\<close>

lemma nreverse_round_trip:
  assumes "chain h x as Cnil"
  shows "\<exists>r h'. mkcl_nreverse_proper_list h x = Some (Inr r, h') \<and> chain h' r (rev as) Cnil
      \<and> mkcl_nreverse_proper_list h' r = Some (Inr x, h)"
  using nreverse_twice [OF assms] nreverse_proper_list_spec [OF assms] by auto

text \<open>\<open>pairlis\<close> and \<open>assoc\<close>. The association list \<open>pairlis\<close> makes of two lists of equal
  length pairs each key with the datum at its place; \<open>assoc\<close> on it returns the pair of the last
  key that is \<open>eql\<close> to the item, or \<open>NIL\<close>.\<close>

lemma assoc_finds_pairlis:
  assumes "chain h k ks Cnil" and "chain h d ds Cnil" and "length ks = length ds"
  shows "\<exists>r h' p. mk_cl_pairlis h k d Cnil = Some (Inr r, h') \<and> mk_cl_assoc h' item r None None None = Some (Inr p)
    \<and> (case find (\<lambda>uv. mkcl_eql h' item (fst uv)) (rev (zip (elems h ks) (elems h ds))) of
         None \<Rightarrow> p = Cnil | Some uv \<Rightarrow> is_pair h' p uv)"
  using pairlis_assoc [OF assms] .

text \<open>\<open>remove_eq\<close>, which the package operations use on their lists, returns a new list of
  the elements that are not the given object, in order, and leaves the old list alone.\<close>

lemma remove_eq_removes_all:
  assumes "chain h l as y" and "atom_in h y"
  shows "\<exists>r cs ds. mkcl_remove_eq h x l = Some (r, h @ cs) \<and> chain (h @ cs) r ds Cnil
      \<and> elems (h @ cs) ds = removeAll x (elems h as) \<and> (\<forall>d \<in> set ds. length h \<le> d)"
  using remove_eq_spec [OF assms] .

section \<open>Property lists\<close>

text \<open>\<open>getf\<close> always returns. On a property list it returns the value of the first pair with
  the indicator, or the default; on a circular list it signals an error unless it finds the
  indicator on the way.\<close>

lemma getf_decides:
  "(\<exists>r. mkcl_getf h place ind d = Some r)
   \<and> (chain h place as Cnil \<and> even (length as) \<longrightarrow>
        mkcl_getf h place ind d = Some (Inr (case getf_spec ind (elems h as) of Some v \<Rightarrow> v | None \<Rightarrow> d)))
   \<and> (circular_list h place \<longrightarrow> mkcl_getf h place ind d = Some (Inl (CircularList place))
        \<or> (\<exists>l. MKCL_CONSP h l \<and> MKCL_CONS_CAR h l = ind
             \<and> mkcl_getf h place ind d = Some (Inr (MKCL_CONS_CAR h (MKCL_CONS_CDR h l)))))"
proof -
  have found: "mkcl_getf h place ind d = Some (Inr (MKCL_CONS_CAR h (MKCL_CONS_CDR h l)))"
    if "find_indicator h place ind = Some (Inr l)" "MKCL_CONSP h l" for l
    using that by (cases "l = Cnil") (simp_all add: mkcl_getf_def)
  have "mkcl_getf h place ind d = Some (Inl (CircularList place))
      \<or> (\<exists>l. MKCL_CONSP h l \<and> MKCL_CONS_CAR h l = ind
          \<and> mkcl_getf h place ind d = Some (Inr (MKCL_CONS_CAR h (MKCL_CONS_CDR h l))))" if "circular_list h place"
    using search_returns [OF that, of ind] found by (auto simp: mkcl_getf_def)
  then show ?thesis using getf_returns [of h place ind d] getf_chain [of h place as ind d] by blast
qed

text \<open>C14: \<open>get\<close> after \<open>putprop\<close>. Putting a property on a symbol makes \<open>get\<close> return the value
  for that indicator and what it returned before for every other one; the properties of other
  symbols stay as they are, if their lists share no cons with this one.\<close>

theorem putprop_then_get:
  assumes "plist_of c s plist as xs"
  shows "\<exists>c'. mk_si_putprop c s v ind = Some (Inr v, c')
    \<and> (\<forall>i d. mk_cl_get c' s i d =
         (if i = ind then Some (Inr v, c') else map_option (\<lambda>(r, _). (r, c')) (mk_cl_get c s i d)))
    \<and> (\<forall>t bs ys i d. t \<noteq> s \<and> plist_of c t plist bs ys \<and> set bs \<inter> set as = {} \<longrightarrow>
         mk_cl_get c' t i d = map_option (\<lambda>(r, _). (r, c')) (mk_cl_get c t i d))"
proof -
  obtain c' as' where c': "mk_si_putprop c s v ind = Some (Inr v, c')" "plist_of c' s plist as' (putf_spec ind v xs)" "others_kept c c' s as"
    using putprop_ok [OF assms] by blast
  have "mk_cl_get c' t i d = map_option (\<lambda>(r, _). (r, c')) (mk_cl_get c t i d)"
    if "t \<noteq> s" "plist_of c t plist bs ys" "set bs \<inter> set as = {}" for t bs ys i d
  proof -
    have "plist_of c' t plist bs ys" using c'(3) that unfolding others_kept_def by blast
    then show ?thesis using get_plist_of that(2) by simp
  qed
  moreover have "mk_cl_get c' s i d =
      (if i = ind then Some (Inr v, c') else map_option (\<lambda>(r, _). (r, c')) (mk_cl_get c s i d))" for i d
    using get_plist_of [OF c'(2)] get_plist_of [OF assms] by (simp add: getf_putf)
  ultimately show ?thesis using c'(1) by blast
qed

lemma demo_plist: "plist_of demo_core (Ref 0) plist [] []" "plist_of demo_core (Ref 0) sys_plist [] []"
  by (simp_all add: plist_of_def symbol_cell_of_def demo_facts(4) new_symbol_def)

theorem putprop_then_get_witness:
  "\<exists>c'. mk_si_putprop demo_core (Ref 0) (Fixnum 5) (Fixnum 1) = Some (Inr (Fixnum 5), c')
     \<and> mk_cl_get c' (Ref 0) (Fixnum 1) Cnil = Some (Inr (Fixnum 5), c') \<and> mk_cl_get c' (Ref 0) (Fixnum 2) Cnil = Some (Inr Cnil, c')"
proof -
  have "mk_cl_get demo_core (Ref 0) (Fixnum 2) Cnil = Some (Inr Cnil, demo_core)"
    using get_plist_of [OF demo_plist(1)] by simp
  then show ?thesis
    using putprop_then_get [OF demo_plist(1), of "Fixnum 5" "Fixnum 1"] by auto
qed

text \<open>\<open>remprop\<close> says whether the property was there and removes the first pair with the
  indicator: if no indicator occurs twice \<open>get\<close> then returns the default, and for every other
  indicator what it returned before.\<close>

lemma remprop_then_get:
  assumes "plist_of c s plist as xs" and "distinct (indicators xs)"
  shows "\<exists>c'. mk_cl_remprop c s ind = Some (Inr (ind \<in> set (indicators xs)), c')
    \<and> (\<forall>i d. mk_cl_get c' s i d =
         (if i = ind then Some (Inr d, c') else map_option (\<lambda>(r, _). (r, c')) (mk_cl_get c s i d)))"
proof -
  obtain c' as' where c': "mk_cl_remprop c s ind = Some (Inr (getf_spec ind xs \<noteq> None), c')" "plist_of c' s plist as' (rem_spec ind xs)"
    using remprop_ok [OF assms(1)] by blast
  have "mk_cl_get c' s i d =
      (if i = ind then Some (Inr d, c') else map_option (\<lambda>(r, _). (r, c')) (mk_cl_get c s i d))" for i d
    using get_plist_of [OF c'(2)] get_plist_of [OF assms(1)] getf_rem_same [OF assms(2), of ind] getf_rem_other [of i ind xs] by simp
  with c'(1) show ?thesis by (auto simp: getf_indicators)
qed

text \<open>C15: a lost update. \<open>put-sysprop\<close> reads the property list of a symbol before it takes the
  lock: when two threads add a property to the same symbol and both read before either stores,
  the property of the first is gone.\<close>

theorem sysprop_update_lost:
  assumes "plist_of c s sys_plist as xs" and "p \<noteq> q" and "getf_spec p xs = None" and "getf_spec q xs = None"
    and "sysprop_read c s = Some l"
  shows "\<exists>c1 c2. put_sysprop_locked l c s p v = Some (Inr v, c1) \<and> put_sysprop_locked l c1 s q w = Some (Inr w, c2)
    \<and> mk_si_get_sysprop c2 t s p = Some (Inr None)"
  using sysprop_race [OF assms] .

definition demo_properties :: "(obj, obj) hashtable" where
  "demo_properties = \<lparr>htest = htt_equal, hash_fun = (\<lambda>k. Some (hash_eql (\<lambda>a. 0) [] k)),
     equality_fun = (\<lambda>x y. Some (mkcl_eql [] x y)), data = replicate 16 [], entries = 0, hsize = 16,
     rehash_size = LFloat 53 3 (- 1), threshold = LFloat 24 3 (- 2), factor_of_16th = 12, free_bucket = 0\<rparr>"

theorem sysprop_update_lost_witness:
  "\<exists>c1 c2. put_sysprop_locked Cnil demo_core (Ref 0) (Fixnum 1) (Fixnum 5) = Some (Inr (Fixnum 5), c1)
     \<and> put_sysprop_locked Cnil c1 (Ref 0) (Fixnum 2) (Fixnum 6) = Some (Inr (Fixnum 6), c2)
     \<and> mk_si_get_sysprop c2 demo_properties (Ref 0) (Fixnum 1) = Some (Inr None)"
proof -
  have "sysprop_read demo_core (Ref 0) = Some Cnil"
    by (simp add: sysprop_read_def symbol_cell_of_def demo_facts(4) new_symbol_def)
  from sysprop_update_lost [OF demo_plist(2) _ _ _ this, of "Fixnum 1" "Fixnum 2"] show ?thesis by simp
qed

section \<open>Encoded strings\<close>

text \<open>C16: round trip. A string of characters that are neither surrogates, nor the two
  noncharacters, nor above \<open>0x10FFFF\<close> is encoded in UTF-8 and in UTF-16 without overrunning the
  buffer allocated for it and without being flagged, and decodes to the same characters.\<close>

theorem utf_round_trip:
  assumes "\<And>n. length (fresh8 n) = n" and "\<And>n. length (fresh16 n) = n" and "\<forall>c \<in> set cs. scalar c"
  shows "(\<exists>u. mk_si_utf_8 fresh8 (String cs) = Some (Inr (u, False)) \<and> utf_ok u \<and> mkcl_utf_8_to_string u = Some (cs, False))
    \<and> (\<exists>u. mk_si_utf_16 fresh16 (String cs) = Some (Inr (u, False)) \<and> utf_ok u \<and> mkcl_utf_16_to_string u = Some (cs, False))"
proof -
  have 16: "\<forall>c \<in> set cs. encodable_16 c" using assms(3) scalar_encodable_16 by blast
  show ?thesis
    using utf_8.decode_encoded [OF assms(1,3)] utf_16.decode_encoded [OF assms(2) 16]
      utf_8_not_bad [OF assms(3)] utf_16_not_bad [OF 16]
    by (auto simp: mk_si_utf_8_def mk_si_utf_16_def mkcl_utf_8_to_string_def mkcl_utf_16_to_string_def)
qed

theorem utf_round_trip_witness:
  "\<exists>u. mk_si_utf_8 (\<lambda>n. replicate n 7) (String [0x41, 0xE9, 0x20AC, 0x1F600]) = Some (Inr (u, False))
     \<and> mkcl_utf_8_to_string u = Some ([0x41, 0xE9, 0x20AC, 0x1F600], False)"
  using utf_round_trip [of "\<lambda>n. replicate n 7" "\<lambda>n. replicate n 7" "[0x41, 0xE9, 0x20AC, 0x1F600]"]
  by (auto simp: scalar_def)

text \<open>Decoding always ends. Whatever units an encoded string holds, the decoding loops of both
  encodings return, with at most one character for each unit.\<close>

lemma utf_decoding_ends:
  "(\<exists>cs bad. mkcl_utf_8_to_string u = Some (cs, bad) \<and> length cs \<le> length (units u))
   \<and> (\<exists>cs bad. mkcl_utf_16_to_string v = Some (cs, bad) \<and> length cs \<le> length (units v))"
  using utf_8.decode_loop_total [of "units u"] utf_16.decode_loop_total [of "units v"]
  by (auto simp: mkcl_utf_8_to_string_def mkcl_utf_16_to_string_def decoded_def)

text \<open>One encoding for each character. What the UTF-8 decoder accepts without a flag is exactly
  what the encoder makes of the character it returns, unless the sequence begins with \<open>0xC1\<close> or
  the character is above \<open>0x10FFFF\<close>.\<close>

lemma utf_8_decoding_canonical:
  assumes "utf_8_decoder (b # r) = (n, c, False)" and "b \<noteq> 0xC1" and "c \<le> 0x10FFFF"
  shows "utf_8_encoder c = (take n (b # r), False)"
  using utf_8_canonical [OF assms] .

text \<open>The two exceptions are real. Every sequence of \<open>0xC1\<close> and a continuation byte is
  accepted, as a second encoding of a character below \<open>0x80\<close>; and every sequence of a first byte
  from \<open>0xF5\<close> to \<open>0xF7\<close> and three continuation bytes is accepted, as a character above
  \<open>0x10FFFF\<close>.\<close>

lemma utf_8_accepts_ill_formed:
  assumes "continuation_byte d" and "continuation_byte e" and "continuation_byte f"
    and "0xF5 \<le> unat b" and "unat b < 0xF8"
  shows "(\<exists>c. utf_8_decoder (0xC1 # d # r) = (2, c, False) \<and> c \<le> 0x7F)
    \<and> (\<exists>c. utf_8_decoder (b # d # e # f # r) = (4, c, False) \<and> 0x10FFFF < c)"
  using accepts_overlong [OF assms(1)] accepts_too_large [OF assms(4,5,1-3)] by blast

text \<open>C17: growing. Pushing a character on an encoded string that can still grow puts its code
  behind the units of the string, extends the buffer when it must, and keeps the string
  well-formed: the fill pointer within the buffer and a null unit after it. Appending a second
  string appends its units.\<close>

theorem utf_8_growing:
  assumes "\<And>n. length (fresh n) = n" and "utf_ok s" and "u_dim s < MKCL_ADIMLIM" and "utf_ok t"
    and "u_fillp s + u_fillp t \<le> MKCL_ADIMLIM"
  shows "(\<exists>s'. mkcl_utf_8_push_extend fresh s c = Inr (u_fillp s, s', \<not> scalar c)
        \<and> utf_ok s' \<and> units s' = units s @ fst (utf_8_encoder c))
    \<and> (\<exists>s'. mkcl_utf_8_nconc fresh s t = Inr s' \<and> utf_ok s' \<and> units s' = units s @ units t)"
  using utf_8.push_extend_ok [OF assms(1-3), of c] utf_8.nconc_ok [OF _ assms(2,4,5), of fresh] assms(1)
  by (simp add: mkcl_utf_8_push_extend_def mkcl_utf_8_nconc_def utf_8_bad)

theorem utf_8_growing_witness:
  "\<exists>s'. mkcl_utf_8_push_extend (\<lambda>n. replicate n 7) \<lparr>u_dim = 1, u_fillp = 1, u_self = [0x41, 0]\<rparr> 0xE9 = Inr (1, s', False)
     \<and> units s' = [0x41, 0xC3, 0xA9]"
proof -
  have s: "scalar 0xE9" by (simp add: scalar_def)
  have e: "fst (utf_8_encoder 0xE9) = [0xC3, 0xA9]" by code_simp
  let ?s = "\<lparr>u_dim = 1, u_fillp = 1, u_self = [0x41, 0 :: char8]\<rparr>"
  have "utf_ok ?s" by (simp add: utf_ok_def)
  from utf_8_growing [where fresh = "\<lambda>n. replicate n 7" and s = ?s and t = ?s and c = "0xE9", OF _ this _ this] s e show ?thesis
    by (auto simp: MKCL_ADIMLIM_def MOST_POSITIVE_FIXNUM_def units_def)
qed

text \<open>From UTF-16 to UTF-8 characters get lost. The loop that encodes advances the index once
  more after reading a character: of a UTF-16 string of ASCII characters only every other one is
  encoded, and the rest of the new string, whose length is right, is what the memory held.\<close>

lemma utf_16_to_8_skips:
  assumes "\<And>n. length (fresh n) = n" and "\<forall>w \<in> set (units u). w < 0x80"
  shows "\<exists>u'. mk_si_utf_8 fresh (UTF_16 u) = Some (Inr (u', False)) \<and> u_fillp u' = length (units u)
    \<and> take (Suc (length (every_other (units u)))) (u_self u') = map ucast (every_other (units u)) @ [0]"
  using utf_16_skips [OF assms] .

lemma Suc4: "Suc (Suc (Suc (Suc 0))) = 4"
  by simp

text \<open>The last character of a UTF-8 string. The search for it from the end never resets its
  flag: a string that ends with a character of more than one byte is always reported as
  malformed, and after one ASCII character and one of two bytes it is the ASCII character that
  is returned.\<close>

lemma utf_8_last_wrong:
  assumes "utf_ok u" and "units u = b # fst (utf_8_encoder d)" and "b < 0x80" and "0x7F < d" and "d \<le> 0x7FF"
  shows "mkcl_utf_8_last u = (ucast b, True)"
  using last_wrong_character [OF assms(1) _ assms(3-5)] assms(2) by simp

section \<open>Generic functions\<close>

text \<open>C18: the method cache is transparent. In every state that threads reach by calling generic
  functions and by redefining them, each call of a thread returns the current method of its
  key, provided the methods are computed rightly and no redefinition happens while one is being
  computed; or it stops the program because the search finds no record to use.\<close>

theorem dispatch_returns_current_method:
  assumes "gf_reach ct loc h class_cpl run M cs" and "\<And>M keys. computes ct M keys (run M keys)" and "t < length cs"
    and "get_spec_vector h class_cpl spec_how gf args = Some (Inr (Some keys))"
  shows "\<exists>r c'. mkcl_standard_dispatch ct loc h class_cpl (run M keys) spec_how gf args (cs ! t) = Some (r, c')
    \<and> (r = Inr (M keys) \<or> r = Inl LoseSearch)"
proof -
  have "cache_valid ct M (cs ! t)" "0 < length (method_hash (cs ! t))"
    using gf_reach_valid [OF assms(1,2)] assms(3) by simp_all
  from dispatch_ok [OF this assms(4,2), of loc] show ?thesis by blast
qed

lemma computes_pure: "computes ct M keys (\<lambda>c. (M keys, c))"
  by (simp add: computes_def)

theorem dispatch_returns_current_method_witness:
  "\<exists>r c'. mkcl_standard_dispatch (Fixnum 0) (\<lambda>a. 0) [] (\<lambda>x. Fixnum 9) (\<lambda>c. (Fixnum 5, c)) [(Cnil, 0)] (Fixnum 1) [Fixnum 2]
       (hd (mk_si_clear_gfun_cache (Fixnum 1) (replicate 1 (mkcl_set_method_hash_size 4096)))) = Some (r, c')
     \<and> (r = Inr (Fixnum 5) \<or> r = Inl LoseSearch)"
proof -
  let ?run = "\<lambda>M keys c. (M keys :: obj, c :: method_cache)"
  have "gf_reach (Fixnum 0) (\<lambda>a. 0) [] (\<lambda>x. Fixnum 9) ?run (\<lambda>k. Fixnum 4) (replicate 1 (mkcl_set_method_hash_size 4096))"
    by (rule gf_start) simp
  from gf_redefine [OF this, of "Fixnum 1" "\<lambda>k. if k ! 0 = Fixnum 1 then Fixnum 5 else Fixnum 4"]
  have r: "gf_reach (Fixnum 0) (\<lambda>a. 0) [] (\<lambda>x. Fixnum 9) ?run (\<lambda>k. if k ! 0 = Fixnum 1 then Fixnum 5 else Fixnum 4)
      (mk_si_clear_gfun_cache (Fixnum 1) (replicate 1 (mkcl_set_method_hash_size 4096)))" by simp
  have "get_spec_vector [] (\<lambda>x. Fixnum 9) [(Cnil, 0)] (Fixnum 1) [Fixnum 2] = Some (Inr (Some [Fixnum 1, Fixnum 9]))"
    by (simp add: get_spec_vector_def MKCL_CONSP_def)
  from dispatch_returns_current_method [OF r computes_pure _ this, of 0] show ?thesis
    by (simp add: mk_si_clear_gfun_cache_def)
qed

text \<open>A search that finds no record. Every hit gives its record the current generation, and only
  a miss advances the generation. When the twenty records a search for a key looks at all hold
  other keys and each of those is looked up once, the search for the key finds no record older
  than the current generation and stops the program.\<close>

lemma method_search_loses:
  fixes loc keys T
  defines "window \<equiv> search_window loc keys (length T)"
  assumes "method_hash c = T" and "0 < length T"
    and "\<forall>p \<in> set window. record_key (T ! p) = Some (K p) \<and> K p \<noteq> keys"
    and "\<forall>p \<in> set window. probe T (K p) 20 (first_probe loc (K p) (length T)) 0 None = Inl p"
    and "method_generation c < int (3 * length T div 2)"
  shows "fst (look_up loc keys (fold (\<lambda>p c. snd (look_up loc (K p) c)) window c)) = Inl LoseSearch"
  using hits_block [OF assms(2,3) _ _ assms(6), of loc keys K] assms(4,5) unfolding window_def by blast

definition demo_cache :: method_cache where
  "demo_cache = \<lparr>method_hash = [\<lparr>record_key = Some [Fixnum 1], record_value = Some Cnil, record_gen = 1\<rparr>,
       \<lparr>record_key = Some [Fixnum 2], record_value = Some Cnil, record_gen = 2\<rparr>],
     method_generation = 2, method_hash_clear_list = [], method_spec_vector = []\<rparr>"

text \<open>C19: a redefinition during the computation of a method, in a thread whose method cache is
  empty (a table of at least two records as \<open>mkcl_set_method_hash_size\<close> makes it) and holds no
  request to clear. If the generic function is redefined while the method of a call is computed,
  and the computation itself dispatches a call of any generic function, so that this nested
  dispatch serves the request to clear, overwrites the spec vector of the thread and takes a record
  for its own method, then the old method is stored all the same: the next call returns it,
  whatever the method is by then, and no request to clear is left. (The keys of both calls fit in
  the spec vector; the redefined function is not the symbol that clears every record.)\<close>

theorem stale_method_cached:
  assumes "2 \<le> n" and "gf \<noteq> ct"
    and "get_spec_vector h class_cpl spec_how gf args = Some (Inr (Some keys))"
    and "get_spec_vector h class_cpl spec_how' gf' args' = Some (Inr (Some keys'))"
  shows "\<exists>c1 c2. mkcl_standard_dispatch ct loc h class_cpl
        (compute_during_redefinition ct loc h class_cpl gf old (\<lambda>c. (new, c)) spec_how' gf' args') spec_how gf args
        (mkcl_set_method_hash_size n) = Some (Inr old, c1)
      \<and> method_hash_clear_list c1 = []
      \<and> mkcl_standard_dispatch ct loc h class_cpl compute spec_how gf args c1 = Some (Inr old, c2)"
  using stale_found [OF assms] .

theorem stale_method_cached_witness:
  "\<exists>c1 c2. mkcl_standard_dispatch (Fixnum 0) (\<lambda>a. 0) [] (\<lambda>x. Fixnum 9)
        (compute_during_redefinition (Fixnum 0) (\<lambda>a. 0) [] (\<lambda>x. Fixnum 9) (Fixnum 1) (Fixnum 4) (\<lambda>c. (Fixnum 6, c))
          [(Cnil, 0)] (Fixnum 3) [Fixnum 2])
        [(Cnil, 0)] (Fixnum 1) [Fixnum 2] (mkcl_set_method_hash_size 4096) = Some (Inr (Fixnum 4), c1)
      \<and> mkcl_standard_dispatch (Fixnum 0) (\<lambda>a. 0) [] (\<lambda>x. Fixnum 9) (\<lambda>c. (Fixnum 5, c)) [(Cnil, 0)] (Fixnum 1) [Fixnum 2] c1
        = Some (Inr (Fixnum 4), c2)"
proof -
  have "get_spec_vector [] (\<lambda>x. Fixnum 9) [(Cnil, 0)] gf [Fixnum 2] = Some (Inr (Some [gf, Fixnum 9]))" for gf
    by (simp add: get_spec_vector_def MKCL_CONSP_def)
  from stale_method_cached [OF _ _ this this, of 4096 "Fixnum 1" "Fixnum 0" "\<lambda>a. 0" "Fixnum 4" "Fixnum 6" "Fixnum 3" "\<lambda>c. (Fixnum 5, c)"]
  show ?thesis by auto
qed

section \<open>Backquote\<close>

text \<open>C20: the backquote macro always returns, on any finite form, and never stops the system with
  its internal "backquote botch": however deep quasiquotes are nested, the expansion of the inner
  ones ends, and every combination of what the car and the cdr of a template became is handled.
  When the form is a cons and every quasiquote, unquote and splice in it is followed by a list, it
  returns the expansion or signals an error. Otherwise the code may take an object that is no cons
  for one, which \<open>MKCL_CADR\<close> does not check (\<open>dotted_unquote_unchecked\<close>); the model stops there,
  with \<open>NoConsRead\<close>.\<close>

theorem backquote_returns:
  "\<exists>r. quasiquote_macro whole = Some r \<and> r \<noteq> Inl (BackqError Botch)
     \<and> (is_cons whole \<longrightarrow> markers_ok whole \<longrightarrow> r \<noteq> Inl (BackqError NoConsRead))"
proof (cases "form_length whole = Inr 2 \<and> (\<exists>x. form_cadr whole = Inr x)")
  case True
  then obtain x where x: "form_length whole = Inr 2" "form_cadr whole = Inr x" by blast
  have "is_cons whole \<longrightarrow> markers_ok whole \<longrightarrow> markers_ok x"
    using x(2) markers_ok_cadr by blast
  moreover obtain r where "backq (quasiquotes x) x = Some r" "r \<noteq> Inl Botch" "markers_ok x \<longrightarrow> r \<noteq> Inl NoConsRead"
    using backq_total [of x] by blast
  ultimately show ?thesis using x by (cases r) (auto simp: quasiquote_macro_def)
next
  case False
  moreover have "err \<noteq> Botch" if "form_cadr whole = Inl err" for err
    using that by (cases whole) (auto dest: form_car_not_botch)
  moreover have "\<not> is_cons whole" if "form_length whole = Inr n" "form_cadr whole = Inl err" for n err
    using length_cadr [of whole n] that by auto
  ultimately show ?thesis by (cases "form_cadr whole") (auto simp: quasiquote_macro_def split: sum.splits)
qed

text \<open>The form is \<open>(quasiquote (a (unquote b)))\<close>.\<close>

theorem backquote_returns_witness:
  "\<exists>r. quasiquote_macro (SCons (SSym SI_quasiquote) (SCons (SCons (SSym (Symbol ''a''))
        (SCons (SCons (SSym SI_unquote) (SCons (SSym (Symbol ''b'')) SNil)) SNil)) SNil)) = Some r
     \<and> r \<noteq> Inl (BackqError Botch) \<and> r \<noteq> Inl (BackqError NoConsRead)"
  using backquote_returns [of "SCons (SSym SI_quasiquote) (SCons (SCons (SSym (Symbol ''a''))
      (SCons (SCons (SSym SI_unquote) (SCons (SSym (Symbol ''b'')) SNil)) SNil)) SNil)"]
  by (simp add: markers_def)

text \<open>\<open>(quasiquote (unquote . 5))\<close>: the code reads the number as a cons.\<close>

lemma dotted_unquote_unchecked:
  "quasiquote_macro (SCons (SSym SI_quasiquote) (SCons (SCons (SSym SI_unquote) (SAtom 5)) SNil))
     = Some (Inl (BackqError NoConsRead))"
  by (simp add: quasiquote_macro_def form_length_def backq_def eval_nat_numeral)

text \<open>C21: the meaning of a backquote. For a template with no nested quasiquote whose instance is
  defined (every unquoted form has a value, and the value of a form spliced before something is a
  proper list), the macro returns a form, and evaluating it gives the instance: constants as
  they stand, unquoted forms replaced by their values, the values of spliced forms appended.\<close>

theorem backquote_value:
  assumes "quasiquotes x = 0" and "template_value u x = Some v"
  shows "\<exists>form. quasiquote_macro (SCons (SSym SI_quasiquote) (SCons x SNil)) = Some (Inr form) \<and> eval u form = Some v"
  using backq_correct [OF assms, of 0] assms(1) by (auto simp: quasiquote_macro_def form_length_def)

theorem backquote_value_witness:
  "\<exists>form. quasiquote_macro (SCons (SSym SI_quasiquote) (SCons (SCons (SSym (Symbol ''a''))
        (SCons (SCons (SSym SI_unquote_splice) (SCons (SSym (Symbol ''b'')) SNil))
          (SCons (SCons (SSym SI_unquote) (SCons (SSym (Symbol ''c'')) SNil)) SNil))) SNil)) = Some (Inr form)
     \<and> eval (\<lambda>f. Some (if f = SSym (Symbol ''b'') then SCons (SAtom 1) (SCons (SAtom 2) SNil) else SAtom 3)) form
       = Some (SCons (SSym (Symbol ''a'')) (SCons (SAtom 1) (SCons (SAtom 2) (SCons (SAtom 3) SNil))))"
  by (rule backquote_value) (simp_all add: spliced_def)

section \<open>Arrays\<close>

text \<open>C22: subscripts. In every heap a program can make, the subscripts an array accepts are those
  that are below its dimensions, one for each; the index computed is then the row-major index, below
  the size of the array, with no wrap-around, and different subscripts have different
  indices. Anything else is an error: a wrong number of subscripts, or one out of bounds.\<close>

theorem array_subscripts:
  assumes "array_reach fresh cv w" and "memory fresh" and "x < length (arrs w)"
  shows "(\<forall>ss. list_all2 (<) ss (dims_of (arr_at w x)) \<longrightarrow>
        mk_cl_array_row_major_index w x (map (\<lambda>s. LInt (int s)) ss) = Inr (row_major 0 (dims_of (arr_at w x)) ss)
        \<and> row_major 0 (dims_of (arr_at w x)) ss < a_dim (arr_at w x)
        \<and> (\<forall>ts. list_all2 (<) ts (dims_of (arr_at w x)) \<and> ts \<noteq> ss \<longrightarrow>
            row_major 0 (dims_of (arr_at w x)) ts \<noteq> row_major 0 (dims_of (arr_at w x)) ss))
    \<and> ((\<nexists>ss. indx = map (\<lambda>s. LInt (int s)) ss \<and> list_all2 (<) ss (dims_of (arr_at w x))) \<longrightarrow>
        mk_cl_array_row_major_index w x indx = Inl (if length indx = length (dims_of (arr_at w x)) then OutOfBounds else WrongIndices))"
proof -
  note ok = heap_okD [OF array_reach_ok [OF assms(1,2)] assms(3)]
  show ?thesis using row_major_index_valid [OF ok] row_major_index_invalid [OF ok] row_major_inject by blast
qed

theorem array_subscripts_witness:
  "\<exists>w. mk_cl_array_row_major_index w 0 [LInt 1, LInt 2] = Inr 5 \<and> mk_cl_array_row_major_index w 0 [LInt 2, LInt 0] = Inl OutOfBounds
     \<and> mk_cl_array_row_major_index w 0 [LInt 2] = Inl WrongIndices"
proof -
  let ?m = "\<lambda>aet n. replicate n (LInt 0)" and ?cv = "\<lparr>fixnum_bits = (\<lambda>v. 0), to_float = (\<lambda>aet v. Inl TypeErr)\<rparr>"
  let ?w = "two_by_three"
  have r: "array_reach ?m ?cv ?w" by (rule two_by_three_reach)
  have m: "memory ?m" by (simp add: memory_def)
  have d: "dims_of (arr_at ?w 0) = [2, 3]" "0 < length (arrs ?w)" by (simp_all add: two_by_three_def dims_of_def)
  note sub = array_subscripts [OF r m d(2)]
  have "mk_cl_array_row_major_index ?w 0 (map (\<lambda>s. LInt (int s)) [1, 2]) = Inr (row_major 0 [2, 3] [1, 2])"
    using conjunct1 [OF sub, rule_format, of "[1, 2]"] unfolding d(1) by simp
  moreover have "\<nexists>ss. [LInt 2, LInt 0] = map (\<lambda>s. LInt (int s)) ss \<and> list_all2 (<) ss [2, 3]" by (auto simp: map_eq_Cons_conv)
  then have "mk_cl_array_row_major_index ?w 0 [LInt 2, LInt 0] = Inl OutOfBounds"
    using array_subscripts [OF r m d(2), of "[LInt 2, LInt 0]"] unfolding d(1) by simp
  moreover have "\<nexists>ss. [LInt 2] = map (\<lambda>s. LInt (int s)) ss \<and> list_all2 (<) ss [2, 3]" by (auto simp: map_eq_Cons_conv)
  then have "mk_cl_array_row_major_index ?w 0 [LInt 2] = Inl WrongIndices"
    using array_subscripts [OF r m d(2), of "[LInt 2]"] unfolding d(1) by simp
  ultimately show ?thesis by (intro exI [of _ ?w]) simp
qed



text \<open>Setting and getting. A value stored in an element is what its conversion to the element type
  gives, and it is read back through every array that has this element of memory, displaced
  arrays included; every other element of every array is as before.\<close>

lemma set_then_get:
  assumes "array_reach fresh cv w" and "memory fresh" and "x < length (arrs w)" and "y < length (arrs w)"
    and "a_elttype (arr_at w x) \<noteq> aet_nil" and "a_elttype (arr_at w y) \<noteq> aet_nil"
    and "mkcl_aset_index cv w x i v = Inr w'" and "k < a_dim (arr_at w y)"
  shows "\<exists>e. store_elt cv (arr_at w x) v = Inr e
    \<and> mkcl_aref_index w' y k =
      (if a_block (arr_at w y) = a_block (arr_at w x) \<and> position (arr_at w y) k = position (arr_at w x) i then Inr e
       else mkcl_aref_index w y k)"
  using aset_aref [OF array_reach_ok [OF assms(1,2)] assms(3,4,7,5,6,8)] by blast

text \<open>C24: adjusting an array. When \<open>si:replace-array\<close> replaces an adjustable array by a new one, every
  array on the list of displaced arrays of the adjusted one shares, at the offset it had, the elements
  the adjusted array has now, provided that list has no duplicates and neither of the two arrays on
  it, and that each array on it records the array it is displaced to and shares its elements at some
  offset (\<open>linked_to\<close>), the former neither on the list itself nor the new array. The array that
  \<open>array-displacement\<close> names for it afterwards is however the temporary new array, not the adjusted
  one. An array that was itself adjusted by \<open>adjust-array\<close> with \<open>:displaced-to\<close> is not on the list,
  where the temporary array stands for it, and does not follow; nor do arrays displaced to those on
  the list (\<open>replaced_array_loses_grandchild\<close>).\<close>

theorem replaced_array_followed:
  assumes "mk_si_replace_array olda newa w = Inr (x, w')" and "heap_ok w" and "olda < length (arrs w)" and "newa < length (arrs w)"
    and "a_adjustable (arr_at w olda)" and "newa \<notin> set (dependents (arr_at w olda))" and "olda \<noteq> newa"
    and "olda \<notin> set (dependents (arr_at w olda))" and "distinct (dependents (arr_at w olda))"
    and "\<forall>d \<in> set (dependents (arr_at w olda)). linked_to w d (T d) (J d)"
    and "\<forall>d \<in> set (dependents (arr_at w olda)). T d \<notin> set (dependents (arr_at w olda)) \<and> T d \<noteq> newa"
    and "d \<in> set (dependents (arr_at w olda))" and "k < a_dim (arr_at w d)"
  shows "elem w' d k = elem w' olda (k + J d) \<and> k + J d < a_dim (arr_at w' olda)
    \<and> mk_cl_array_displacement w' d = Inr (Some (ArrayLink newa), int (J d))"
  using replace_array_reports [OF assms(1-12)] assms(13) by (simp add: shares_def elem_def)

theorem replaced_array_followed_witness:
  "\<exists>w'. mk_si_replace_array 0 3 displaced_heap = Inr (0, w') \<and> elem w' 1 0 = elem w' 0 1
     \<and> mk_cl_array_displacement w' 1 = Inr (Some (ArrayLink 3), 1)"
proof -
  obtain w' where w': "mk_si_replace_array 0 3 displaced_heap = Inr (0, w')" using displaced_heap_replaces by blast
  have l: "linked_to displaced_heap 1 0 1" by (simp add: linked_to_def shares_def)
  have d: "dependents (arr_at displaced_heap 0) = [1]" by (simp add: dependents_def)
  show ?thesis using replaced_array_followed [OF w' displaced_heap_ok, of "\<lambda>_. 0" "\<lambda>_. 1" 1 0] w' l d by simp
qed

text \<open>An array displaced to a displaced array is lost. It is not on the list of the adjusted
  array, so that it keeps the old elements: it no longer shares any with the adjusted array and the
  arrays that follow it.\<close>

lemma replaced_array_loses_grandchild:
  assumes "mk_si_replace_array olda newa w = Inr (x, w')" and "heap_ok w" and "olda < length (arrs w)" and "newa < length (arrs w)"
    and "a_adjustable (arr_at w olda)" and "newa \<notin> set (dependents (arr_at w olda))"
    and "c \<notin> set (dependents (arr_at w olda))" and "c \<noteq> olda" and "a_block (arr_at w c) = a_block (arr_at w olda)"
    and "a_block (arr_at w newa) \<noteq> a_block (arr_at w olda)"
  shows "a_block (arr_at w' c) \<noteq> a_block (arr_at w' olda) \<and> elem w' c k = elem w c k"
  using replace_array_grandchild [OF assms] by blast

text \<open>C25: \<open>vector-push-extend\<close>. On a vector with room, or an adjustable one with no displaced arrays that
  can still grow, it returns the old fill pointer; the fill pointer is one more, the elements below it
  are the ones that were there, and the new one is the value converted to the element type.\<close>

theorem push_extend_appends:
  assumes "array_reach fresh cv w" and "memory fresh" and "x < length (arrs w)" and "vectorp (arr_at w x)"
    and "a_elttype (arr_at w x) \<noteq> aet_nil" and "store_elt cv (arr_at w x) val = Inr e"
    and "a_fillp (arr_at w x) < a_dim (arr_at w x) \<or>
      (a_adjustable (arr_at w x) \<and> a_dim (arr_at w x) < MKCL_ADIMLIM \<and> dependents (arr_at w x) = [])"
    and "a_elttype (arr_at w x) = aet_bit \<longrightarrow> (\<forall>k < a_fillp (arr_at w x). elem w x k = LInt 0 \<or> elem w x k = LInt 1)"
  shows "\<exists>w'. mkcl_vector_push_extend fresh cv x val w = Inr (a_fillp (arr_at w x), w') \<and> array_reach fresh cv w'
    \<and> a_fillp (arr_at w' x) = a_fillp (arr_at w x) + 1
    \<and> (\<forall>k < a_fillp (arr_at w x). elem w' x k = elem w x k) \<and> elem w' x (a_fillp (arr_at w x)) = e"
  using vector_push_extend_pushes [OF array_reach_ok [OF assms(1,2)] assms(3,2,4-8)]
    array_reach.step [OF assms(1) array_step.push_extend [OF assms(3)]] by blast

theorem push_extend_appends_witness:
  "\<exists>w w'. array_reach (\<lambda>aet n. replicate n (LInt 0)) \<lparr>fixnum_bits = (\<lambda>v. 0), to_float = (\<lambda>aet v. Inl TypeErr)\<rparr> w
     \<and> a_dim (arr_at w 0) = 0 \<and> mkcl_vector_push_extend (\<lambda>aet n. replicate n (LInt 0))
        \<lparr>fixnum_bits = (\<lambda>v. 0), to_float = (\<lambda>aet v. Inl TypeErr)\<rparr> 0 (LInt 7) w = Inr (0, w') \<and> elem w' 0 0 = LInt 7"
proof -
  let ?m = "\<lambda>aet n. replicate n (LInt 0)" and ?cv = "\<lparr>fixnum_bits = (\<lambda>v. 0), to_float = (\<lambda>aet v. Inl TypeErr)\<rparr>"
  let ?w = "\<lparr>arrs = [object_vector 0 True None 0 0], blocks = [[]]\<rparr>"
  have "mk_si_make_pure_array ?m aet_object [LInt 0] True FillT None (LInt 0) \<lparr>arrs = [], blocks = []\<rparr> = Inr (0, ?w)"
    by (simp add: mk_si_make_pure_array_def mk_si_make_vector_def fill_pointer_for_def mkcl_fixnum_in_range_def fixnum_range_def
        MOST_POSITIVE_FIXNUM_def MOST_NEGATIVE_FIXNUM_def MKCL_ARANKLIM_def place_elements_def mkcl_array_allocself_def upd_arr_def
        new_block_def kind_for_def object_vector_def)
  then have r: "array_reach ?m ?cv ?w"
    by (rule array_reach.step [OF array_reach.empty array_step.make]) (simp add: displaced_to_array_def)
  have m: "memory ?m" by (simp add: memory_def)
  have "store_elt ?cv (arr_at ?w 0) (LInt 7) = Inr (LInt 7)" by (simp add: store_elt_def)
  from push_extend_appends [OF r m _ _ _ this] r show ?thesis
    by (auto simp: vectorp_def dependents_def MKCL_ADIMLIM_def MOST_POSITIVE_FIXNUM_def intro: exI [of _ ?w])
qed

text \<open>Reversing. \<open>mkcl_reverse_subarray\<close> on a range of an array that ends after its first element
  reverses exactly this range and writes no element of an array that lies elsewhere. With an end of 0, which
  \<open>nreverse\<close> passes for a vector whose fill pointer is 0, the index of the last element wraps
  around and the loop leaves the memory of the array.\<close>

lemma reverse_subarray_range:
  assumes "heap_ok w" and "x < length (arrs w)" and "a_elttype (arr_at w x) \<noteq> aet_nil" and "0 < a_dim (arr_at w x)"
    and "a_elttype (arr_at w x) = aet_bit \<longrightarrow> a_bit_offset (arr_at w x) = 0" and "length (blocks w ! a_block (arr_at w x)) < 2 ^ 64"
  shows "(\<forall>i0 i1. i0 \<le> i1 \<and> 0 < i1 \<and> i1 \<le> a_dim (arr_at w x) \<longrightarrow>
      (\<exists>w'. mkcl_reverse_subarray x i0 i1 w = Inr w'
        \<and> (\<forall>k < a_dim (arr_at w x). elem w' x k = (if i0 \<le> k \<and> k < i1 then elem w x (i0 + i1 - 1 - k) else elem w x k))
        \<and> (\<forall>y k. a_block (arr_at w y) \<noteq> a_block (arr_at w x) \<longrightarrow> elem w' y k = elem w y k)))
    \<and> mkcl_reverse_subarray x 0 0 w = Inl ArrayOverrun"
  using reverse_subarray_reverses [OF assms(1-3)] reverse_subarray_overruns [OF assms] by (fastforce simp: only_elements_def)

text \<open>Filling. \<open>si:fill-array-with-elt\<close> sets the elements of a range within the array and no others. It does
  not compare the end of the range with the size of the array: when the end lies behind the
  block, it writes to memory that is not the array's.\<close>

lemma fill_array_range:
  assumes "heap_ok w" and "x < length (arrs w)" and "a_elttype (arr_at w x) \<noteq> aet_nil" and "fill_value cv (arr_at w x) v = Inr e"
  shows "(\<forall>i0 i1. i0 \<le> i1 \<and> i1 \<le> a_dim (arr_at w x) \<longrightarrow>
      (\<exists>w'. mk_si_fill_array_with_elt cv x v (LInt (int i0)) (Some (LInt (int i1))) w = Inr w'
        \<and> (\<forall>k < a_dim (arr_at w x). elem w' x k = (if i0 \<le> k \<and> k < i1 then e else elem w x k))
        \<and> (\<forall>y k. a_block (arr_at w y) \<noteq> a_block (arr_at w x) \<longrightarrow> elem w' y k = elem w y k)))
    \<and> (\<forall>i1 < 2 ^ 64. length (blocks w ! a_block (arr_at w x)) < position (arr_at w x) i1 \<longrightarrow>
        mk_si_fill_array_with_elt cv x v (LInt 0) (Some (LInt (int i1))) w = Inl ArrayOverrun)"
  using fill_array_fills [OF assms(1-3) _ _ assms(4)] fill_array_beyond [OF assms] by (fastforce simp: only_elements_def)

section \<open>Numbers\<close>

text \<open>C26: exact arithmetic. On the representations of two rational numbers, addition,
  subtraction, multiplication and division return the representation of the result, a fixnum,
  a bignum or a ratio in lowest terms; a division by zero is reported.\<close>

theorem exact_arithmetic:
  assumes "gmp_ok g"
  shows "mkcl_plus g (rat_canon x) (rat_canon y) = Inr (rat_canon (x + y))
    \<and> mkcl_minus g (rat_canon x) (rat_canon y) = Inr (rat_canon (x - y))
    \<and> mkcl_times g (rat_canon x) (rat_canon y) = Inr (rat_canon (x * y))
    \<and> mkcl_divide g (rat_canon x) (rat_canon y) = (if y = 0 then Inl DivisionByZero else Inr (rat_canon (x / y)))"
proof -
  have g: "gmp_library g" using assms by (rule gmp_library.intro)
  show ?thesis
    by (simp only: gmp_library.plus_canon [OF g] gmp_library.minus_canon [OF g] gmp_library.times_canon [OF g] gmp_library.divide_canon [OF g] simp_thms)
qed

theorem exact_arithmetic_witness:
  "mkcl_plus int_gmp (Q (Fix 1) (Fix 2)) (Q (Fix 1) (Fix 3)) = Inr (Q (Fix 5) (Fix 6))
    \<and> mkcl_divide int_gmp (Q (Fix 1) (Fix 2)) (Q (Fix 1) (Fix 3)) = Inr (Q (Fix 3) (Fix 2))"
proof -
  have "gcd 5 6 = (1 :: int)" "gcd 3 2 = (1 :: int)" by code_simp+
  then have "rat_canon (1 / 2) = Q (Fix 1) (Fix 2)" "rat_canon (1 / 3) = Q (Fix 1) (Fix 3)" "rat_canon (5 / 6) = Q (Fix 5) (Fix 6)"
      "rat_canon (3 / 2) = Q (Fix 3) (Fix 2)"
    using integers.rat_canon_ratio [of 2 1] integers.rat_canon_ratio [of 3 1] integers.rat_canon_ratio [of 6 5]
      integers.rat_canon_ratio [of 2 3] by (simp_all add: canon_def fixnum_range_values coprime_iff_gcd_eq_1)
  then show ?thesis using exact_arithmetic [OF int_gmp_ok, of "1 / 2" "1 / 3"] by simp
qed

text \<open>Comparison. The sign of a comparison is that of the difference of the two numbers,
  and numeric equality, which compares the parts of ratios, is equality of the numbers.\<close>

lemma comparison_decides:
  assumes "gmp_ok g"
  shows "(mkcl_number_compare g (rat_canon x) (rat_canon y) < 0 \<longleftrightarrow> x < y)
    \<and> (mkcl_number_compare g (rat_canon x) (rat_canon y) > 0 \<longleftrightarrow> x > y)
    \<and> (mkcl_number_equalp g (rat_canon x) (rat_canon y) \<longleftrightarrow> x = y)"
proof -
  have g: "gmp_library g" using assms by (rule gmp_library.intro)
  show ?thesis using gmp_library.number_compare_canon [OF g] gmp_library.number_equalp_canon [OF g] by blast
qed

text \<open>C27: division with a quotient rounded to an integer. \<open>floor\<close>, \<open>ceiling\<close> and \<open>truncate\<close> of two
  numbers return the rounded quotient and the remainder, unless the division comes down to that of
  the most negative fixnum by -1: then the quotient they return is the most negative fixnum
  instead of its negation. \<open>round\<close> returns the nearest integer, the even one of two, and the remainder.\<close>

theorem division_rounds:
  assumes "gmp_ok g" and "y \<noteq> 0"
  shows "(\<not> quotient_overflows x y \<longrightarrow>
      mkcl_floor2 g (rat_canon x) (rat_canon y) = Inr (canon \<lfloor>x / y\<rfloor>, rat_canon (x - y * of_int \<lfloor>x / y\<rfloor>))
      \<and> mkcl_ceiling2 g (rat_canon x) (rat_canon y) = Inr (canon \<lceil>x / y\<rceil>, rat_canon (x - y * of_int \<lceil>x / y\<rceil>))
      \<and> mkcl_truncate2 g (rat_canon x) (rat_canon y)
          = Inr (canon (towards_zero (x / y)), rat_canon (x - y * of_int (towards_zero (x / y)))))
    \<and> (quotient_overflows x y \<longrightarrow>
      mkcl_floor2 g (rat_canon x) (rat_canon y) = Inr (canon MOST_NEGATIVE_FIXNUM, rat_canon 0)
      \<and> mkcl_ceiling2 g (rat_canon x) (rat_canon y) = Inr (canon MOST_NEGATIVE_FIXNUM, rat_canon 0)
      \<and> mkcl_truncate2 g (rat_canon x) (rat_canon y) = Inr (canon MOST_NEGATIVE_FIXNUM, rat_canon 0))
    \<and> (\<exists>q. mkcl_round2 g (rat_canon x) (rat_canon y) = Inr (canon q, rat_canon (x - of_int q * y)) \<and> nearest_even (x / y) q)"
proof -
  have g: "gmp_library g" using assms(1) by (rule gmp_library.intro)
  show ?thesis
    using gmp_library.floor2_canon [OF g assms(2)] gmp_library.ceiling2_canon [OF g assms(2)]
      gmp_library.truncate2_canon [OF g assms(2)] gmp_library.quotient_overflow [OF g] gmp_library.round2_canon [OF g assms(2)]
    by blast
qed

theorem division_rounds_witness:
  "mkcl_floor2 int_gmp (Z (canon MOST_NEGATIVE_FIXNUM)) (Z (canon (- 1))) = Inr (canon MOST_NEGATIVE_FIXNUM, Z (canon 0))"
proof -
  have "quotient_overflows (of_int MOST_NEGATIVE_FIXNUM) (of_int (- 1))"
    unfolding quotient_overflows_def by (intro exI [of _ MOST_NEGATIVE_FIXNUM] exI [of _ 1]) simp
  then show ?thesis
    using division_rounds [OF int_gmp_ok, of "of_int (- 1)" "of_int MOST_NEGATIVE_FIXNUM"]
    by (simp only: rat_canon_of_int rat_canon_small of_int_eq_0_iff)
qed

text \<open>Powers. The loop that halves the exponent ends, after at most as many rounds as the
  exponent has bits, and returns the power with the given exponent, which may be negative; zero
  to a negative power is reported as a division by zero.\<close>

lemma power_returns:
  assumes "gmp_ok g" and "\<bar>y\<bar> < 2 ^ n"
  shows "mk_cl_expt g n (rat_canon x) (canon y) =
    Some (if x = 0 \<and> y < 0 then Inl DivisionByZero else Inr (rat_canon (power_int x y)))"
proof -
  have g: "gmp_library g" using assms(1) by (rule gmp_library.intro)
  show ?thesis by (rule gmp_library.expt_canon [OF g assms(2)])
qed

text \<open>C28: logical operations. Each of the sixteen operations returns, for fixnums and
  bignums alike, the integer whose bits are given by the truth table that the four digits of
  the operation's number spell.\<close>

theorem boole_truth_table:
  assumes "gmp_ok g" and "opn < 16"
  shows "\<exists>r. mkcl_boole g opn (canon x) (canon y) = canon r \<and> (\<forall>k. bit r k \<longleftrightarrow> table opn (bit x k) (bit y k))"
proof -
  have g: "gmp_library g" using assms(1) by (rule gmp_library.intro)
  show ?thesis using gmp_library.boole_canon [OF g assms(2)] boole_bits [OF assms(2)] by blast
qed

theorem boole_truth_table_witness: "\<exists>r. mkcl_boole int_gmp 6 (canon (2 ^ 70)) (canon 5) = canon r \<and> \<not> bit r 1"
proof -
  have "\<not> bit (2 ^ 70 :: int) 1 \<and> \<not> bit (5 :: int) 1" by (simp add: bit_iff_odd)
  then have "\<not> table 6 (bit (2 ^ 70 :: int) 1) (bit (5 :: int) 1)" by (simp add: table_def bit_iff_odd)
  then show ?thesis using boole_truth_table [OF int_gmp_ok, of 6 "2 ^ 70" 5] by auto
qed

text \<open>C29: shifts. \<open>ash\<close> multiplies by a power of two, or divides and rounds down, unless a fixnum so
  close to the most negative one is shifted to the left that the bits below its sign that are
  shifted out are all zero: then the sign is lost.\<close>

theorem shift_multiplies:
  assumes "gmp_ok g"
  shows "mkcl_ash g (canon n) w =
    canon (if 0 < w \<and> w < 62 \<and> MOST_NEGATIVE_FIXNUM \<le> n \<and> n < MOST_NEGATIVE_FIXNUM + 2 ^ nat (61 - w)
           then (n - MOST_NEGATIVE_FIXNUM) * 2 ^ nat w
           else if 0 \<le> w then n * 2 ^ nat w else n div 2 ^ nat (- w))"
proof -
  have g: "gmp_library g" using assms by (rule gmp_library.intro)
  show ?thesis by (rule gmp_library.ash_canon [OF g])
qed

theorem shift_multiplies_witness: "mkcl_ash int_gmp (canon MOST_NEGATIVE_FIXNUM) 1 = canon 0"
  using shift_multiplies [OF int_gmp_ok, of MOST_NEGATIVE_FIXNUM 1] by simp

text \<open>C30: operations on bit arrays, when the arrays begin at a byte and the result does not
  overlap the operands in part. The elements in whole bytes are the results of the operation.
  Of the elements in the last byte, those at the upper end of the byte are; the others, which
  may be all, keep their values.\<close>

theorem bit_array_op_aligned:
  assumes "opn < 16" and "whole_bytes w x" and "whole_bytes w y" and "whole_bytes w z"
    and "same_dimensions (arr_at w x) (arr_at w y)" and "same_dimensions (arr_at w x) (arr_at w z)"
    and "a_dim (arr_at w y) = a_dim (arr_at w x)" and "a_dim (arr_at w z) = a_dim (arr_at w x)"
    and "\<not> overlaps (arr_at w z) (arr_at w x) (a_dim (arr_at w x))" and "\<not> overlaps (arr_at w z) (arr_at w y) (a_dim (arr_at w x))"
  shows "\<exists>w'. mk_si_bit_array_op fresh (Fix (int opn)) x y (ResultArray z) w = Inr (z, w') \<and> same_shape w w'
    \<and> (\<forall>i < a_dim (arr_at w x). bit_elt w' z i \<longleftrightarrow>
        (if written (a_dim (arr_at w x)) i then table opn (bit_elt w x i) (bit_elt w y i) else bit_elt w z i))"
  using bit_array_op_given [OF assms] .

theorem bit_array_op_aligned_witness:
  "\<exists>w'. mk_si_bit_array_op (\<lambda>aet n. []) (Fix (int 1)) 0 1 (ResultArray 2) one_bit_each = Inr (2, w')
    \<and> bit_elt one_bit_each 0 0 \<and> bit_elt one_bit_each 1 0 \<and> \<not> bit_elt w' 2 0"
proof -
  have "\<exists>w'. mk_si_bit_array_op (\<lambda>aet n. []) (Fix (int 1)) 0 1 (ResultArray 2) one_bit_each = Inr (2, w') \<and> same_shape one_bit_each w'
    \<and> (\<forall>i < a_dim (arr_at one_bit_each 0). bit_elt w' 2 i \<longleftrightarrow>
        (if written (a_dim (arr_at one_bit_each 0)) i then table 1 (bit_elt one_bit_each 0 i) (bit_elt one_bit_each 1 i)
         else bit_elt one_bit_each 2 i))"
    by (rule bit_array_op_aligned) (simp_all add: one_bit_each_whole, simp_all add: bit_array_examples same_dimensions_def overlaps_def)
  then show ?thesis
    by (auto simp: one_bit_each_def bit_vector_def bits_of_def written_def bit_elt_def mkcl_aref_index_def read_block_def position_def)
qed

section \<open>Strings and the text of numbers\<close>

text \<open>C31: comparison of strings. With ranges within the strings, the comparison returns the place of
  the first mismatch, relative to the first string, when the lexicographic order of the two ranges, after
  folding of case if it is asked for, has the sign that is looked for, and NIL otherwise. This holds for
  the loop on base strings and for the general one. Any other range is an error.\<close>

theorem strings_compare:
  assumes "string_ok a" and "string_ok b" and "int (st_fillp a) < 2 ^ 61" and "int (st_fillp b) < 2 ^ 61"
  shows "string_compare u sign1 sign2 cs a b start1 end1 start2 end2
    = (case (range_of a start1 end1, range_of b start2 end2) of
         (Some (s1, e1), Some (s2, e2)) \<Rightarrow>
           let xs = folded u cs a s1 e1; ys = folded u cs b s2 e2
           in Inr (if order_sign xs ys \<in> {sign1, sign2} then Some (s1 + length (longest_common_prefix xs ys)) else None)
       | _ \<Rightarrow> Inl BadRange)"
  using string_compare_order [OF assms] .

theorem strings_compare_witness:
  "mk_cl_stringL ascii (simple_string True [97, 98, 99]) (simple_string False [98, 99, 100, 101]) 1 None 0 (Some 3) = Inr (Some 3)
    \<and> mk_cl_stringG ascii (simple_string True [97]) (simple_string True [97, 98]) 0 None 0 None = Inr None
    \<and> mk_cl_stringL ascii (simple_string True [97]) (simple_string True [97]) 2 None 0 None = Inl BadRange"
  using strings_compare [of "simple_string True [97, 98, 99]" "simple_string False [98, 99, 100, 101]" ascii "- 1" "- 1" True 1 None 0 "Some 3"]
    strings_compare [of "simple_string True [97]" "simple_string True [97, 98]" ascii 1 1 True 0 None 0 None]
    strings_compare [of "simple_string True [97]" "simple_string True [97]" ascii "- 1" "- 1" True 2 None 0 None]
  by (simp add: mk_cl_stringL_def mk_cl_stringG_def string_ok_def MKCL_BASE_CHAR_CODE_P_def range_of_def folded_def subrange_def
      fold_case_def order_sign_simps Let_def)

text \<open>Searching. The place that \<open>mkcl_search_in_string\<close> returns is that of the first occurrence of
  the pattern, and NIL means that there is none. A pattern with a character that is no base character is
  an error when the string searched is a base string, although it just does not occur there.\<close>

lemma search_finds_first:
  assumes "string_ok a" and "string_ok b"
  shows "if st_base b \<and> \<not> list_all MKCL_BASE_CHAR_CODE_P (contents a)
    then mkcl_search_in_string a b = Inl NotABaseChar
    else \<exists>r. mkcl_search_in_string a b = Inr r \<and> first_occurrence (contents a) (contents b) r"
  using search_in_string_first [OF assms] .

text \<open>C32: concatenation. \<open>si:concatenate-strings\<close> pushes the strings on the temporary stack and copies them
  from the end of the new string to its beginning; the result has the characters of all of them in order,
  whatever the new memory held before.\<close>

theorem concatenation_in_order:
  assumes "list_all string_ok ss" and "\<And>n. length (fresh n) = n"
  shows "\<exists>s. mk_si_concatenate_strings fresh (map StringSeq ss) = Inr s \<and> contents s = concat (map contents ss) \<and> \<not> st_base s"
  using concatenate_strings_concat [OF assms] .

theorem concatenation_in_order_witness:
  "\<exists>s. mk_si_concatenate_strings (\<lambda>n. replicate n 7) (map StringSeq [simple_string True [97, 98], simple_string False [], simple_string False [955]])
      = Inr s \<and> contents s = [97, 98, 955] \<and> \<not> st_base s"
  using concatenation_in_order [of "[simple_string True [97, 98], simple_string False [], simple_string False [955]]" "\<lambda>n. replicate n 7"]
  by (simp add: simple_string_ok contents_simple MKCL_BASE_CHAR_CODE_P_def)

text \<open>C33: printing and reading numbers. In every base from 2 to 36, the text that is written for an integer or
  a ratio is read back as the same number, up to its end, from any string that begins with it, when the
  numerator and the denominator are fixnums or bignums below a bound that depends on the base (63 digits in base 10).\<close>

theorem number_text_round_trip:
  assumes "gmp_ok g" and "legal_base b" and "printable b (fst (quotient_of r))" and "printable b (snd (quotient_of r))"
  shows "\<exists>ds. write_number g False (Fix (int b)) (rat_canon r) = Inr ds
    \<and> (\<forall>str rest. st_self str = ds @ rest \<and> length ds \<le> st_dim str \<and> st_dim str \<le> length (st_self str) \<longrightarrow>
          mkcl_parse_number g u str 0 (length ds) b = Inr (Exact (rat_canon r), length ds))"
proof -
  have g: "gmp_library g" using assms(1) by (rule gmp_library.intro)
  show ?thesis
    using gmp_library.write_number_text [OF g assms(2-4)] gmp_library.read_number_text [OF g assms(2)] by blast
qed

theorem number_text_round_trip_witness:
  "\<exists>ds. write_number int_gmp False (Fix 10) (rat_canon (- (10 ^ 40))) = Inr ds
    \<and> mkcl_parse_number int_gmp ascii (simple_string True ds) 0 (length ds) 10 = Inr (Exact (Z (Big (- (10 ^ 40)))), length ds)"
proof -
  have q: "quotient_of (- (10 ^ 40)) = (- (10 ^ 40), 1)"
    using quotient_of_int [of "- (10 ^ 40)"] by (simp add: of_int_def)
  have "printable 10 (- (10 ^ 40))" unfolding printable_def by (rule disjI2, rule bexI [of _ 6]) simp_all
  moreover have "printable 10 1" by (simp add: printable_def)
  ultimately obtain ds where t: "write_number int_gmp False (Fix (int 10)) (rat_canon (- (10 ^ 40))) = Inr ds"
    "\<forall>str rest. st_self str = ds @ rest \<and> length ds \<le> st_dim str \<and> st_dim str \<le> length (st_self str) \<longrightarrow>
      mkcl_parse_number int_gmp ascii str 0 (length ds) 10 = Inr (Exact (rat_canon (- (10 ^ 40))), length ds)"
    using number_text_round_trip [OF int_gmp_ok, of 10 "- (10 ^ 40)" ascii] by (auto simp: q legal_base_def)
  have "rat_canon (- (10 ^ 40)) = Z (Big (- (10 ^ 40)))" by (simp add: rat_canon_def q canon_def fixnum_range_values)
  then show ?thesis using t(1) t(2) [rule_format, of "simple_string True ds" "[0]"] by simp
qed

text \<open>C34: long numbers are printed wrong. A decimal number \<open>q * 10 ^ 64 + y\<close>, where \<open>q\<close> is a fixnum and \<open>y\<close> is
  no fixnum but below \<open>10 ^ 32\<close>, is printed as the number \<open>q * 10 ^ 128 + y\<close>: the remainder \<open>y\<close> is preceded by
  64 zeros and then padded to 64 digits.\<close>

theorem long_number_misprinted:
  assumes "gmp_ok g" and "0 < q" and "q < 2 ^ 61" and "2 ^ 61 \<le> y" and "y < 10 ^ 32"
  shows "write_bignum g 10 (int (q * 10 ^ 64 + y)) = Inr (int_text 10 (int (q * 10 ^ 128 + y)))"
proof -
  have g: "gmp_library g" using assms(1) by (rule gmp_library.intro)
  have "q * 10 ^ 64 + y < 10 ^ 127"
    using assms(3,5) by simp
  then show ?thesis
    using gmp_library.write_bignum_other [OF g, of 10 y 4 q] assms(2-5) by (simp add: legal_base_def)
qed

theorem long_number_misprinted_witness:
  "write_bignum int_gmp 10 (10 ^ 64 + 10 ^ 20) = Inr (int_text 10 (10 ^ 128 + 10 ^ 20))"
  using long_number_misprinted [OF int_gmp_ok, of 1 "10 ^ 20"] by simp

section \<open>Pathnames\<close>

text \<open>C35: namestrings. The namestring of a file in an absolute directory is parsed to the same pathname, to its
  end. The items of the directory may be \<open>:up\<close>, and wildcards when the parser allows them; \<open>:up\<close> may not follow the
  root or \<open>:wild-inferiors\<close>. Words have no slash, no null and, where wildcards are allowed, no asterisk. The name may
  have dots, but without a type only at its beginning.\<close>

theorem namestring_round_trip:
  assumes "list_all (plain_item wild) ds" and "\<not> (\<exists>j. misplaced (PAbsolute # ds) j)" and "plain_name wild n t"
    and "p = file_pathname (sys_localhost sys) ds n t"
  shows "\<exists>s. mkcl_namestring (sys_localhost sys) p False = Inr (Some s) \<and>
    mkcl_parse_namestring g u space sys s 0 (length s) ep0 PNil wild = Some (Inr (Some p, length s))"
  using namestring_file [OF assms(1)] parse_namestring_file [OF assms(1,3,2)] by (simp add: assms(4))

theorem namestring_round_trip_witness:
  "mkcl_parse_namestring int_gmp ascii (\<lambda>c. c = 32)
     \<lparr>sys_localhost = [108], sys_hosts = [], sys_homedir = \<lambda>_. None, sys_translation = \<lambda>_. None, sys_one_host = False\<rparr>
     (codes ''/usr/../*/a.b.c'') 0 15 0 PNil True
   = Some (Inr (Some (file_pathname [108] [PStr (codes ''usr''), PUp, PWild] (codes ''a.b'') (Some (codes ''c''))), 15))"
proof -
  let ?sys = "\<lparr>sys_localhost = [108], sys_hosts = [], sys_homedir = \<lambda>_. None, sys_translation = \<lambda>_. None, sys_one_host = False\<rparr>"
  let ?ds = "[PStr (codes ''usr''), PUp, PWild]" and ?n = "codes ''a.b''" and ?t = "Some (codes ''c'')"
  have 1: "list_all (plain_item True) ?ds" by (simp add: codes_def plain_char_def)
  have 2: "\<not> (\<exists>j. misplaced (PAbsolute # ?ds) j)" by (auto simp: misplaced_def nth_Cons')
  have 3: "plain_name True ?n ?t" by (simp add: plain_name_def codes_def plain_char_def)
  obtain s where "mkcl_namestring [108] (file_pathname [108] ?ds ?n ?t) False = Inr (Some s)"
    "mkcl_parse_namestring int_gmp ascii (\<lambda>c. c = 32) ?sys s 0 (length s) 0 PNil True
     = Some (Inr (Some (file_pathname [108] ?ds ?n ?t), length s))"
    using namestring_round_trip [OF 1 2 3, of _ ?sys int_gmp ascii "\<lambda>c. c = 32"] by auto
  moreover have "mkcl_namestring [108] (file_pathname [108] ?ds ?n ?t) False = Inr (Some (codes ''/usr/../*/a.b.c''))"
    using namestring_file [OF 1] by (simp add: file_text_def name_text_def codes_def)
  ultimately have "s = codes ''/usr/../*/a.b.c''" by simp
  moreover from this have "length s = 15" by (simp add: codes_def)
  ultimately show ?thesis
    using \<open>mkcl_parse_namestring int_gmp ascii (\<lambda>c. c = 32) ?sys s 0 (length s) 0 PNil True = _\<close> by simp
qed

text \<open>C36: canonical directories. A directory of a physical pathname, absolute or relative, whose items are strings other than
  \<open>..\<close>, \<open>:up\<close>, \<open>:wild\<close> and \<open>:wild-inferiors\<close> (so no \<open>:back\<close>) is made canonical by leaving out the
  items that are a dot; when \<open>:up\<close> then follows the root or \<open>:wild-inferiors\<close>, the result is
  \<open>:error\<close>. The loop starts over after each dot and ends.\<close>

theorem directory_canonical:
  assumes "d = PAbsolute \<or> d = PRelative" and "list_all simple_item ds"
  shows "canonicalize_directory_destructively u (PList (d # ds)) False
    = Some (Inr (if \<exists>j. misplaced (no_dots (d # ds)) j then PError else PList (no_dots (d # ds))))"
  using canonicalize_simple [OF assms] .

theorem directory_canonical_witness:
  "canonicalize_directory_destructively ascii (PList [PAbsolute, PStr [46], PStr [97], PStr [46], PUp]) False
   = Some (Inr (PList [PAbsolute, PStr [97], PUp]))"
proof -
  have "\<not> (\<exists>j. misplaced [PAbsolute, PStr [97], PUp] j)" by (auto simp: misplaced_def nth_Cons')
  then show ?thesis
    using directory_canonical [of PAbsolute "[PStr [46], PStr [97], PStr [46], PUp]" ascii] by (simp add: no_dots_def)
qed

text \<open>C37: \<open>:back\<close>. Making a pathname does not return when its directory is
  \<open>(:absolute a :back "." b)\<close>, for any names \<open>a\<close> and \<open>b\<close> other than \<open>.\<close> and \<open>..\<close>: the index of the loop
  is not adjusted when \<open>a\<close> and \<open>:back\<close> are left out, the cell of the last name is linked to itself
  when the dot is, and the loop goes round it.\<close>

theorem back_never_returns:
  assumes "a \<notin> {[46], [46, 46]}" and "b \<notin> {[46], [46, 46]}"
  shows "mkcl_make_pathname u localhost hosts PNil None (PList [PAbsolute, PStr a, PBack, PStr [46], PStr b]) PNil PNil PNil = None"
  using canonicalize_back_dot [OF assms, of u]
  by (simp add: mkcl_make_pathname_def directory_argument_def component_ok_def version_ok_def)

theorem back_never_returns_witness:
  "mkcl_make_pathname ascii [108] [] PNil None (PList [PAbsolute, PStr [97], PBack, PStr [46], PStr [98]]) PNil PNil PNil = None"
  by (rule back_never_returns) simp_all

text \<open>C38: matching. On the same host, an absolute physical file whose name and type are strings and
  whose directory items are strings matches a wildcard with a string as its name and its type exactly
  when its directory, name and type do, where an asterisk stands for any characters and
  \<open>:wild-inferiors\<close> for any items, provided the wildcard has no two \<open>:wild-inferiors\<close> side by side.\<close>

theorem wildcard_match_is_glob:
  assumes "list_all stringp ds" and "list_all wild_item ws" and "single_inferiors ws"
  shows "mk_cl_pathname_match_p u (file_pathname localhost ds n (Some t)) (file_pathname localhost ws np (Some tp))
    = Inr (dir_glob ws ds \<and> glob np n \<and> glob tp t)"
  using path_list_match_glob(1) [OF assms]
  by (simp add: mk_cl_pathname_match_p_def file_pathname_def make_pathname_def match_host_def match_device_def match_directory_def
      match_item_def match_version_def and_match_def path_item_match_glob path_list_match.simps [of "PAbsolute # ds"]
      path_item_match_def [of PAbsolute])

theorem wildcard_match_is_glob_witness:
  "mk_cl_pathname_match_p ascii (file_pathname [108] [PStr [97], PStr [98]] (codes ''foobar'') (Some (codes ''c'')))
     (file_pathname [108] [PWildInferiors, PStr [98]] (codes ''f*ba*'') (Some (codes ''*''))) = Inr True"
  using wildcard_match_is_glob [of "[PStr [97], PStr [98]]" "[PWildInferiors, PStr [98]]" ascii "[108]"
      "codes ''foobar''" "codes ''c''" "codes ''f*ba*''" "codes ''*''"]
  by (simp add: codes_def)

text \<open>C39: translation of names, for a source name without asterisks. When the pattern of the source is
  a prefix of it with an asterisk behind, and the target has one asterisk: if the asterisk stands for
  at least one character, these characters, in the case asked for, are put in place of the asterisk
  of the target, and what follows that asterisk in the target is lost; if it would stand for nothing,
  an error is signalled, although the pattern matches (C38). When the pattern has anything behind an
  asterisk, no such name is translated, also one that it matches: an error is signalled.\<close>

theorem asterisk_translation:
  assumes "42 \<notin> set (p @ t)" and "42 \<notin> set (q @ r)" and "r' \<noteq> []"
  shows "translate_item u cmap (PStr (p @ t)) (PStr (p @ [42])) (PStr (q @ 42 # r))
      = (if t = [] then Inl WildcardCount else Inr (PStr (q @ map_case u cmap t)))
    \<and> translate_item u cmap (PStr (p @ t)) (PStr (p' @ 42 # r')) to = Inl WildcardCount"
  using translate_suffix [OF assms(1,2)] translate_inner [OF assms(1,3)] by blast

theorem asterisk_translation_witness:
  "translate_item ascii preserve_case (PStr (codes ''foobar'')) (PStr (codes ''foo*'')) (PStr (codes ''x*y'')) = Inr (PStr (codes ''xbar''))
   \<and> glob (codes ''foo*'') (codes ''foo'')
   \<and> translate_item ascii preserve_case (PStr (codes ''foo'')) (PStr (codes ''foo*'')) (PStr (codes ''x*y'')) = Inl WildcardCount
   \<and> glob (codes ''f*r'') (codes ''foobar'')
   \<and> translate_item ascii preserve_case (PStr (codes ''foobar'')) (PStr (codes ''f*r'')) (PStr (codes ''*'')) = Inl WildcardCount"
  using asterisk_translation [of "codes ''foo''" "codes ''bar''" "codes ''x''" "codes ''y''" "codes ''r''" ascii preserve_case "codes ''f''"
      "PStr (codes ''*'')"] asterisk_translation [of "codes ''foo''" "[]" "codes ''x''" "codes ''y''" "codes ''r''" ascii preserve_case]
  by (simp add: codes_def map_case_def)

section \<open>Objects\<close>

text \<open>C40: tagging. With an allocator that hands out distinct addresses that are divisible by four,
  not null and not the word \<open>MKCL_OBJNULL\<close> (whose two low bits are those of an address, not of an
  immediate), two objects have the same machine word exactly when they are the same object: the
  tests by \<open>==\<close> in the code decide identity of objects.\<close>

theorem object_words_distinct:
  assumes "allocator n loc" and "representable n x" and "representable n y"
  shows "obj_word loc x = obj_word loc y \<longleftrightarrow> x = y"
  using obj_word_inject [OF assms] .

theorem object_words_distinct_witness:
  "obj_word (\<lambda>a. 8 * word_of_nat (Suc a)) (Fixnum (- 1)) \<noteq> obj_word (\<lambda>a. 8 * word_of_nat (Suc a)) (Ref 0)"
proof -
  have "allocator 1 (\<lambda>a. 8 * word_of_nat (Suc a))"
    by (simp add: allocator_def inj_on_def MKCL_IMMEDIATE_def OBJNULL_word_def)
  then show ?thesis
    using object_words_distinct [of 1 "\<lambda>a. 8 * word_of_nat (Suc a)" "Fixnum (- 1)" "Ref 0"]
    by (simp add: fixnum_range_def MOST_POSITIVE_FIXNUM_def MOST_NEGATIVE_FIXNUM_def)
qed

text \<open>Fixnums and characters survive the trip through their word: making a fixnum of an
  integer in range and reading it back gives the integer, with its sign seen by the sign
  tests, and a character code below 2 to the 56 comes back as it was.\<close>

lemma immediate_round_trip:
  "(fixnum_range n \<longrightarrow> sint (mkcl_fixnum_to_word (MKCL_MAKE_FIXNUM (word_of_int n))) = n
      \<and> MKCL_FIXNUMP (MKCL_MAKE_FIXNUM (word_of_int n))
      \<and> (MKCL_FIXNUM_MINUSP (MKCL_MAKE_FIXNUM (word_of_int n)) \<longleftrightarrow> n < 0)
      \<and> (MKCL_FIXNUM_PLUSP (MKCL_MAKE_FIXNUM (word_of_int n)) \<longleftrightarrow> 0 \<le> n))
   \<and> (unat c < 2 ^ 56 \<longrightarrow> MKCL_CHAR_CODE (MKCL_CODE_CHAR c) = c \<and> MKCL_CHARACTERP (MKCL_CODE_CHAR c))"
proof -
  have "MKCL_FIXNUM_MINUSP (MKCL_MAKE_FIXNUM (word_of_int n)) \<longleftrightarrow> n < 0"
    and "MKCL_FIXNUM_PLUSP (MKCL_MAKE_FIXNUM (word_of_int n)) \<longleftrightarrow> 0 \<le> n" if "fixnum_range n"
    using sint_make_fixnum [OF that] sint_make_fixnum [of 0]
    by (auto simp: MKCL_FIXNUM_MINUSP_def MKCL_FIXNUM_PLUSP_def word_sless_alt word_sle_eq fixnum_range_def
        MOST_POSITIVE_FIXNUM_def MOST_NEGATIVE_FIXNUM_def)
  then show ?thesis
    using fixnum_round_trip [of n] char_round_trip [of c] by (auto simp: MKCL_FIXNUMP_def MKCL_CHARACTERP_def)
qed

end
